(* ===== verification/Prelude.thy ===== *)
theory Prelude
  imports Main "HOL-Library.Word"
begin

text \<open>
  Shared vocabulary of the development: the machine types, the fact collections, generic lemmas on
  lists and words, and the interfaces (locales) that the protocol components implement.
  \<^item> \<open>fallible_stream\<close>: a decoder that consumes a byte stream item by item, may stop at an error,
    and accumulates its outputs in a monoid.  Its clients learn that the result does not depend
    on how the transport splits the stream into frames.
  \<^item> \<open>event_loop\<close>: a machine fed by an incremental decoder, which reacts to each event and stops
    when it reaches a terminal state.
  \<^item> \<open>transition_system\<close>: a step relation with an invariant kept by every step; the invariant then
    holds in every reachable state.
  \<^item> \<open>absorbing_system\<close>: a transition system with terminal states that no step leaves.
\<close>

unbundle bit_operations_syntax

type_synonym byte = "8 word"
type_synonym u16 = "16 word"
type_synonym u32 = "32 word"
type_synonym bytes = "byte list"

named_theorems inv_simps \<open>definitions of the components' invariants\<close>
named_theorems step_simps \<open>definitions of the components' operations\<close>
named_theorems frame_simps \<open>facts that one operation leaves a field alone\<close>

subsection \<open>Lists\<close>

lemma list_all_take [intro]: "list_all P xs \<Longrightarrow> list_all P (take n xs)"
  by (auto simp: list_all_iff dest: in_set_takeD)

lemma takeWhile_eq_self [simp]: "\<forall>x \<in> set xs. P x \<Longrightarrow> takeWhile P xs = xs"
  by (simp add: takeWhile_eq_all_conv)

lemma takeWhile_stop [simp]:
  "\<forall>x \<in> set xs. P x \<Longrightarrow> \<not> P y \<Longrightarrow> takeWhile P (xs @ y # ys) = xs"
  by (induction xs) auto

lemma dropWhile_stop [simp]:
  "\<forall>x \<in> set xs. P x \<Longrightarrow> \<not> P y \<Longrightarrow> dropWhile P (xs @ y # ys) = y # ys"
  by (induction xs) auto

lemma length_concat_le:
  "(\<And>x. x \<in> set xs \<Longrightarrow> length (f x) \<le> k) \<Longrightarrow> length (concat (map f xs)) \<le> k * length xs"
  by (induction xs) (simp_all add: add_mono)

lemma dropWhile_length_le: "length (dropWhile P xs) \<le> length xs"
  by (metis dropWhile_eq_drop length_drop diff_le_self)

subsection \<open>Saturating and checked arithmetic of the source's unsigned 64-bit integers\<close>

abbreviation U64_MAX :: nat where
  "U64_MAX \<equiv> 18446744073709551615"

definition saturating_add64 :: "nat \<Rightarrow> nat \<Rightarrow> nat" where
  "saturating_add64 a b = min U64_MAX (a + b)"

definition checked_add64 :: "nat \<Rightarrow> nat \<Rightarrow> nat option" where
  "checked_add64 a b = (if a + b \<le> U64_MAX then Some (a + b) else None)"

lemma saturating_add64_le: "saturating_add64 a b \<le> a + b"
  by (simp add: saturating_add64_def)

lemma saturating_add64_exact [simp]: "a + b \<le> U64_MAX \<Longrightarrow> saturating_add64 a b = a + b"
  by (simp add: saturating_add64_def)

subsection \<open>Byte orders\<close>

definition u16_be :: "u16 \<Rightarrow> bytes" where
  "u16_be w = [ucast (drop_bit 8 w), ucast w]"

definition u16_of_be :: "byte \<Rightarrow> byte \<Rightarrow> u16" where
  "u16_of_be h l = push_bit 8 (ucast h) OR ucast l"

definition u32_le :: "u32 \<Rightarrow> bytes" where
  "u32_le w = [ucast w, ucast (drop_bit 8 w), ucast (drop_bit 16 w), ucast (drop_bit 24 w)]"

definition u32_of_le :: "byte \<Rightarrow> byte \<Rightarrow> byte \<Rightarrow> byte \<Rightarrow> u32" where
  "u32_of_le a b c d =
     ucast a OR push_bit 8 (ucast b) OR push_bit 16 (ucast c) OR push_bit 24 (ucast d)"

lemma length_u16_be [simp]: "length (u16_be w) = 2"
  by (simp add: u16_be_def)

lemma length_u32_le [simp]: "length (u32_le w) = 4"
  by (simp add: u32_le_def)

lemma u16_of_be_inverse [simp]: "u16_of_be (ucast (drop_bit 8 w)) (ucast w) = w"
proof (rule bit_word_eqI)
  fix n assume "n < LENGTH(16)"
  then show "bit (u16_of_be (ucast (drop_bit 8 w)) (ucast w)) n = bit w n"
    by (cases "n < 8")
      (auto simp: u16_of_be_def bit_or_iff bit_push_bit_iff bit_unsigned_iff bit_drop_bit_eq)
qed

lemma u32_of_le_inverse [simp]:
  "u32_of_le (ucast w) (ucast (drop_bit 8 w)) (ucast (drop_bit 16 w)) (ucast (drop_bit 24 w)) = w"
proof (rule bit_word_eqI)
  fix n assume n: "n < LENGTH(32)"
  consider "n < 8" | "8 \<le> n" "n < 16" | "16 \<le> n" "n < 24" | "24 \<le> n" by linarith
  then show "bit (u32_of_le (ucast w) (ucast (drop_bit 8 w)) (ucast (drop_bit 16 w))
      (ucast (drop_bit 24 w))) n = bit w n"
    using n
    by cases (auto simp: u32_of_le_def bit_or_iff bit_push_bit_iff bit_unsigned_iff bit_drop_bit_eq)
qed

lemma u16_be_inj: "u16_be v = u16_be w \<longleftrightarrow> v = w"
proof
  assume "u16_be v = u16_be w"
  then have "u16_of_be (ucast (drop_bit 8 v)) (ucast v) = u16_of_be (ucast (drop_bit 8 w)) (ucast w)"
    by (simp only: u16_be_def list.inject)
  then show "v = w" by (simp only: u16_of_be_inverse)
qed simp

lemma u32_le_inj: "u32_le v = u32_le w \<longleftrightarrow> v = w"
proof
  assume "u32_le v = u32_le w"
  then have "u32_of_le (ucast v) (ucast (drop_bit 8 v)) (ucast (drop_bit 16 v)) (ucast (drop_bit 24 v)) =
      u32_of_le (ucast w) (ucast (drop_bit 8 w)) (ucast (drop_bit 16 w)) (ucast (drop_bit 24 w))"
    by (simp only: u32_le_def list.inject)
  then show "v = w" by (simp only: u32_of_le_inverse)
qed simp

lemma u16_be_unat:
  "256 * unat (ucast (drop_bit 8 w) :: byte) + unat (ucast w :: byte) = unat w" for w :: u16
proof -
  have bound: "unat w < 2 ^ 16" using unsigned_less [of w] by simp
  have d: "unat (drop_bit 8 w) = unat w div 256"
    by (simp add: drop_bit_eq_div unat_div)
  have "unat (ucast (drop_bit 8 w) :: byte) = unat w div 256"
    using bound by (simp add: unsigned_ucast_eq d take_bit_nat_eq_self)
  then show ?thesis
    by (simp add: unsigned_ucast_eq take_bit_eq_mod)
qed

lemma u16_be_of_be [simp]: "u16_be (u16_of_be h l) = [h, l]"
proof -
  have "(ucast (u16_of_be h l) :: byte) = l"
    by (rule bit_word_eqI)
      (auto simp: u16_of_be_def bit_or_iff bit_push_bit_iff bit_unsigned_iff)
  moreover have "(ucast (drop_bit 8 (u16_of_be h l)) :: byte) = h"
    by (rule bit_word_eqI)
      (auto simp: u16_of_be_def bit_or_iff bit_push_bit_iff bit_unsigned_iff bit_drop_bit_eq
        dest: bit_imp_le_length)
  ultimately show ?thesis by (simp add: u16_be_def)
qed

lemma u16_of_be_iff: "u16_of_be h l = w \<longleftrightarrow> [h, l] = u16_be w"
  by (metis u16_be_of_be u16_be_inj)

subsection \<open>Streams that may fail\<close>

locale fallible_stream =
  fixes step :: "'s \<Rightarrow> 'i \<Rightarrow> 's \<times> ('e + 'o)"
    and run :: "'s \<Rightarrow> 'i list \<Rightarrow> 's \<times> ('e + 'o)"
    and zero :: 'o
    and plus :: "'o \<Rightarrow> 'o \<Rightarrow> 'o"
  assumes plus_assoc: "plus (plus a b) c = plus a (plus b c)"
    and zero_plus: "plus zero a = a"
    and plus_zero: "plus a zero = a"
    and run_Nil: "run s [] = (s, Inr zero)"
    and run_Cons: "run s (x # xs) =
      (case step s x of
         (s', Inl e) \<Rightarrow> (s', Inl e)
       | (s', Inr o1) \<Rightarrow>
           (case run s' xs of
              (s'', Inl e) \<Rightarrow> (s'', Inl e)
            | (s'', Inr o2) \<Rightarrow> (s'', Inr (plus o1 o2))))"
begin

lemma run_append:
  "run s (xs @ ys) =
    (case run s xs of
       (s', Inl e) \<Rightarrow> (s', Inl e)
     | (s', Inr o1) \<Rightarrow>
         (case run s' ys of
            (s'', Inl e) \<Rightarrow> (s'', Inl e)
          | (s'', Inr o2) \<Rightarrow> (s'', Inr (plus o1 o2))))"
proof (induction xs arbitrary: s)
  case Nil
  show ?case
    by (simp add: run_Nil zero_plus split: prod.splits sum.splits)
next
  case (Cons x xs)
  then show ?case
    by (auto simp: run_Cons plus_assoc split: prod.splits sum.splits)
qed

lemma run_invariant:
  assumes "\<And>s x. I s \<Longrightarrow> I (fst (step s x))" and "I s"
  shows "I (fst (run s xs))"
  using assms(2)
proof (induction xs arbitrary: s)
  case Nil
  then show ?case by (simp add: run_Nil)
next
  case (Cons x xs)
  from Cons.prems have "I (fst (step s x))" by (rule assms(1))
  then show ?case
    using Cons.IH [of "fst (step s x)"]
    by (auto simp: run_Cons split: prod.splits sum.splits)
qed

lemma run_frame:
  assumes "\<And>s x. f (fst (step s x)) = f s"
  shows "f (fst (run s xs)) = f s"
  by (rule run_invariant [where I = "\<lambda>t. f t = f s"]) (simp_all add: assms)

end

subsection \<open>Machines that react to the events of a decoder\<close>

locale event_loop =
  fixes decode :: "'s \<Rightarrow> 'i \<Rightarrow> 's \<times> 'e option"
    and handle :: "'s \<Rightarrow> 'e \<Rightarrow> 's"
    and terminal :: "'s \<Rightarrow> bool"
    and finish :: "'s \<Rightarrow> 'i list \<Rightarrow> 's"
    and run :: "'s \<Rightarrow> 'i list \<Rightarrow> 's"
  assumes run_Nil: "run s [] = s"
    and run_Cons: "run s (x # xs) =
      (case decode s x of
         (s', None) \<Rightarrow> run s' xs
       | (s', Some e) \<Rightarrow>
           if terminal s' then s'
           else if terminal (handle s' e) then finish (handle s' e) xs
           else run (handle s' e) xs)"
    and decode_terminal: "terminal (fst (decode s x)) = terminal s"
    and finish_terminal: "terminal (finish s xs) = terminal s"
begin

lemma run_invariant:
  assumes decode_inv: "\<And>s x. I s \<Longrightarrow> I (fst (decode s x))"
    and decode_event: "\<And>s x e. I s \<Longrightarrow> snd (decode s x) = Some e \<Longrightarrow> E e"
    and handle_inv: "\<And>s e. I s \<Longrightarrow> E e \<Longrightarrow> I (handle s e)"
    and finish_inv: "\<And>s xs. I s \<Longrightarrow> I (finish s xs)"
  shows "I s \<Longrightarrow> I (run s xs)"
proof (induction xs arbitrary: s)
  case (Cons x xs)
  obtain s' e where d: "decode s x = (s', e)" by force
  then have "I s'" using decode_inv [OF Cons.prems, of x] by simp
  moreover have "e = Some ev \<Longrightarrow> E ev" for ev
    using decode_event [OF Cons.prems, of x] d by simp
  ultimately show ?case
    by (cases e) (auto simp: run_Cons d intro: Cons.IH handle_inv finish_inv)
qed (simp add: run_Nil)

text \<open>As long as the machine has not ended, it does not see how its input was cut.\<close>

lemma run_append:
  "\<not> terminal (run s xs) \<Longrightarrow> run s (xs @ ys) = run (run s xs) ys"
proof (induction xs arbitrary: s)
  case (Cons x xs)
  then show ?case
    by (auto simp: run_Cons finish_terminal split: prod.splits option.splits if_splits)
qed (simp add: run_Nil)

end

subsection \<open>Transition systems\<close>

locale transition_system =
  fixes step :: "'s \<Rightarrow> 's \<Rightarrow> bool"
    and inv :: "'s \<Rightarrow> bool"
  assumes step_inv: "step s t \<Longrightarrow> inv s \<Longrightarrow> inv t"
begin

lemma reach_inv: "step\<^sup>*\<^sup>* s t \<Longrightarrow> inv s \<Longrightarrow> inv t"
  by (induction rule: rtranclp_induct) (auto intro: step_inv)

end

locale absorbing_system = transition_system +
  fixes terminal :: "'s \<Rightarrow> bool"
  assumes step_terminal: "step s t \<Longrightarrow> terminal s \<Longrightarrow> terminal t"
begin

lemma reach_terminal: "step\<^sup>*\<^sup>* s t \<Longrightarrow> terminal s \<Longrightarrow> terminal t"
  by (induction rule: rtranclp_induct) (auto intro: step_terminal)

end

end
