(* ===== verification/Telnet_Codec.thy ===== *)
theory Telnet_Codec
  imports Prelude
begin

text \<open>
  The Telnet protocol engine, \<^verbatim>\<open>crates/netcatty-telnet/src/codec.rs\<close> with the command and option
  numbers of \<^verbatim>\<open>protocol.rs\<close>.  A Rust \<^verbatim>\<open>&mut self\<close> method is a function that returns the new codec
  record; a \<^verbatim>\<open>Result\<close> is a sum whose left side is the error.  Byte strings are lists of 8-bit words.
\<close>

subsection \<open>Protocol numbers\<close>

definition SE :: byte where [simp]: "SE = 240"
definition SB :: byte where [simp]: "SB = 250"
definition WILL :: byte where [simp]: "WILL = 251"
definition WONT :: byte where [simp]: "WONT = 252"
definition DO :: byte where [simp]: "DO = 253"
definition DONT :: byte where [simp]: "DONT = 254"
definition IAC :: byte where [simp]: "IAC = 255"

definition ECHO :: byte where [simp]: "ECHO = 1"
definition SUPPRESS_GO_AHEAD :: byte where [simp]: "SUPPRESS_GO_AHEAD = 3"
definition TERMINAL_TYPE :: byte where [simp]: "TERMINAL_TYPE = 24"
definition NAWS :: byte where [simp]: "NAWS = 31"

definition SUB_IS :: byte where [simp]: "SUB_IS = 0"
definition SUB_SEND :: byte where [simp]: "SUB_SEND = 1"

definition is_option_command :: "byte \<Rightarrow> bool" where
  "is_option_command b \<longleftrightarrow> b = WILL \<or> b = WONT \<or> b = DO \<or> b = DONT"

definition MAX_INPUT_BYTES :: nat where "MAX_INPUT_BYTES = 64 * 1024"
definition MAX_SUBNEGOTIATION_BYTES :: nat where "MAX_SUBNEGOTIATION_BYTES = 64 * 1024"
definition MAX_WINDOW_DIMENSION :: u32 where "MAX_WINDOW_DIMENSION = 10000"
definition MAX_TERMINAL_TYPE_BYTES :: nat where "MAX_TERMINAL_TYPE_BYTES = 255"

definition DEFAULT_TERMINAL_TYPE :: bytes where
  "DEFAULT_TERMINAL_TYPE = map (\<lambda>c. of_char c) ''XTERM-256COLOR''"

subsection \<open>Configuration\<close>

datatype codec_error =
    InputTooLarge nat
  | SubnegotiationTooLarge nat
  | InvalidWindowSize u32
  | InvalidTerminalType nat
  | Poisoned

record window_size =
  columns :: u16
  rows :: u16

definition default_window_size :: window_size where
  "default_window_size = \<lparr>columns = 80, rows = 24\<rparr>"

definition window_size_new :: "u32 \<Rightarrow> u32 \<Rightarrow> codec_error + window_size" where
  "window_size_new c r =
     (if c = 0 \<or> r = 0 \<or> MAX_WINDOW_DIMENSION < c \<or> MAX_WINDOW_DIMENSION < r
      then Inl (InvalidWindowSize MAX_WINDOW_DIMENSION)
      else Inr \<lparr>columns = ucast c, rows = ucast r\<rparr>)"

record telnet_config =
  terminal_type :: bytes
  window_size :: window_size

definition default_telnet_config :: telnet_config where
  "default_telnet_config =
     \<lparr>terminal_type = DEFAULT_TERMINAL_TYPE, window_size = default_window_size\<rparr>"

definition with_terminal_type :: "telnet_config \<Rightarrow> bytes \<Rightarrow> codec_error + telnet_config" where
  "with_terminal_type cfg tt =
     (if tt = [] \<or> MAX_TERMINAL_TYPE_BYTES < length tt \<or> \<not> (\<forall>b \<in> set tt. 0x20 \<le> b \<and> b \<le> 0x7e)
      then Inl (InvalidTerminalType MAX_TERMINAL_TYPE_BYTES)
      else Inr (cfg\<lparr>terminal_type := tt\<rparr>))"

definition with_window_size :: "telnet_config \<Rightarrow> window_size \<Rightarrow> telnet_config" where
  "with_window_size cfg ws = cfg\<lparr>window_size := ws\<rparr>"

subsection \<open>Codec state\<close>

datatype telnet_event =
    ProtocolActivated
  | RemoteEchoChanged bool
  | LocalEchoChanged bool

record decode_result =
  application_data :: bytes
  outbound :: bytes
  events :: "telnet_event list"

definition empty_result :: decode_result where
  "empty_result = \<lparr>application_data = [], outbound = [], events = []\<rparr>"

record option_state =
  enabled :: bool
  pending_enable :: bool
  rejection_sent :: bool

definition default_option :: option_state where
  "default_option = \<lparr>enabled = False, pending_enable = False, rejection_sent = False\<rparr>"

datatype parse_state =
    Data
  | Iac
  | OptionVerb byte
  | SubnegotiationOption
  | SubnegotiationData byte
  | SubnegotiationIac byte

text \<open>The Rust arrays of 256 option states are total functions on bytes.\<close>

record telnet_codec =
  config :: telnet_config
  active :: bool
  poisoned :: bool
  parse_state :: parse_state
  subnegotiation :: bytes
  local_options :: "byte \<Rightarrow> option_state"
  remote_options :: "byte \<Rightarrow> option_state"
  remote_echo :: bool
  remote_echo_known :: bool
  local_echo :: bool

definition codec_new :: "telnet_config \<Rightarrow> telnet_codec" where
  "codec_new cfg =
     \<lparr>config = cfg, active = False, poisoned = False, parse_state = Data, subnegotiation = [],
      local_options = (\<lambda>_. default_option), remote_options = (\<lambda>_. default_option),
      remote_echo = True, remote_echo_known = False, local_echo = False\<rparr>"

definition codec_reset :: "telnet_codec \<Rightarrow> telnet_codec" where
  "codec_reset c =
     c\<lparr>active := False, poisoned := False, parse_state := Data, subnegotiation := [],
       local_options := (\<lambda>_. default_option), remote_options := (\<lambda>_. default_option),
       remote_echo := True, remote_echo_known := False, local_echo := False\<rparr>"

subsection \<open>Wire helpers\<close>

definition supports_remote :: "byte \<Rightarrow> bool" where
  "supports_remote opt \<longleftrightarrow> opt = ECHO \<or> opt = SUPPRESS_GO_AHEAD"

definition supports_local :: "byte \<Rightarrow> bool" where
  "supports_local opt \<longleftrightarrow>
     opt = ECHO \<or> opt = SUPPRESS_GO_AHEAD \<or> opt = TERMINAL_TYPE \<or> opt = NAWS"

definition command_bytes :: "byte \<Rightarrow> byte \<Rightarrow> bytes" where
  "command_bytes verb opt = [IAC, verb, opt]"

fun escape_iac :: "bytes \<Rightarrow> bytes" where
  "escape_iac [] = []"
| "escape_iac (b # bs) = (if b = IAC then [b, IAC] else [b]) @ escape_iac bs"

text \<open>\<open>append_subnegotiation\<close> doubles every literal IAC of its payload in a loop of its own.\<close>

definition subnegotiation_bytes :: "byte \<Rightarrow> bytes \<Rightarrow> bytes" where
  "subnegotiation_bytes opt payload =
     [IAC, SB, opt] @ concat (map (\<lambda>b. if b = IAC then [b, IAC] else [b]) payload) @ [IAC, SE]"

text \<open>The three arms of the loop's match, with and without a byte to look ahead at.\<close>

fun normalize_nvt_newlines :: "bytes \<Rightarrow> bytes" where
  "normalize_nvt_newlines [] = []"
| "normalize_nvt_newlines [b] = (if b = 13 \<or> b = 10 then [13, 10] else [b])"
| "normalize_nvt_newlines (b # c # cs) =
     (if b = 13 \<and> (c = 10 \<or> c = 0) then b # c # normalize_nvt_newlines cs
      else if b = 13 \<or> b = 10 then 13 # 10 # normalize_nvt_newlines (c # cs)
      else b # normalize_nvt_newlines (c # cs))"

subsection \<open>Negotiation\<close>

text \<open>
  The handlers append to the outbound bytes and events of the frame being decoded; the model
  returns what they append, as a \<open>decode_result\<close> with no application data.
\<close>

definition reply :: "bytes \<Rightarrow> telnet_event list \<Rightarrow> decode_result" where
  "reply out evs = \<lparr>application_data = [], outbound = out, events = evs\<rparr>"

definition set_remote_echo :: "telnet_codec \<Rightarrow> bool \<Rightarrow> telnet_codec \<times> telnet_event list" where
  "set_remote_echo c e =
     (if \<not> remote_echo_known c \<or> remote_echo c \<noteq> e
      then (c\<lparr>remote_echo := e, remote_echo_known := True\<rparr>, [RemoteEchoChanged e])
      else (c, []))"

definition set_local_echo :: "telnet_codec \<Rightarrow> bool \<Rightarrow> telnet_codec \<times> telnet_event list" where
  "set_local_echo c e =
     (if local_echo c \<noteq> e then (c\<lparr>local_echo := e\<rparr>, [LocalEchoChanged e]) else (c, []))"

definition update_remote :: "telnet_codec \<Rightarrow> byte \<Rightarrow> (option_state \<Rightarrow> option_state) \<Rightarrow> telnet_codec" where
  "update_remote c opt f =
     c\<lparr>remote_options := (remote_options c)(opt := f (remote_options c opt))\<rparr>"

definition update_local :: "telnet_codec \<Rightarrow> byte \<Rightarrow> (option_state \<Rightarrow> option_state) \<Rightarrow> telnet_codec" where
  "update_local c opt f =
     c\<lparr>local_options := (local_options c)(opt := f (local_options c opt))\<rparr>"

definition append_naws_if_enabled :: "telnet_codec \<Rightarrow> bytes" where
  "append_naws_if_enabled c =
     (if \<not> active c \<or> \<not> enabled (local_options c NAWS) then []
      else subnegotiation_bytes NAWS
             (u16_be (columns (window_size (config c))) @ u16_be (rows (window_size (config c)))))"

definition handle_will :: "telnet_codec \<Rightarrow> byte \<Rightarrow> telnet_codec \<times> decode_result" where
  "handle_will c opt =
     (let acknowledged = pending_enable (remote_options c opt);
          c = update_remote c opt (\<lambda>s. s\<lparr>pending_enable := False\<rparr>)
      in if \<not> supports_remote opt then
           (let out = (if rejection_sent (remote_options c opt) then [] else command_bytes DONT opt)
            in (update_remote c opt (\<lambda>s. s\<lparr>enabled := False, rejection_sent := True\<rparr>), reply out []))
         else
           (let was_enabled = enabled (remote_options c opt);
                c = update_remote c opt (\<lambda>s. s\<lparr>enabled := True, rejection_sent := False\<rparr>);
                (c, out, evs) =
                  (if opt = ECHO then
                     (let (c, out, evs) =
                        (if enabled (local_options c ECHO) then
                           (let c = update_local c ECHO
                                  (\<lambda>s. s\<lparr>enabled := False, pending_enable := False, rejection_sent := True\<rparr>);
                                (c, evs) = set_local_echo c False
                            in (c, command_bytes WONT ECHO, evs))
                         else (c, [], []));
                        (c, evs') = set_remote_echo c True
                      in (c, out, evs @ evs'))
                   else (c, [], []));
                out' = (if \<not> acknowledged \<and> \<not> was_enabled then command_bytes DO opt else [])
            in (c, reply (out @ out') evs)))"

definition handle_wont :: "telnet_codec \<Rightarrow> byte \<Rightarrow> telnet_codec \<times> decode_result" where
  "handle_wont c opt =
     (let acknowledged = pending_enable (remote_options c opt);
          was_enabled = enabled (remote_options c opt);
          c = update_remote c opt
                (\<lambda>s. s\<lparr>pending_enable := False, enabled := False, rejection_sent := False\<rparr>);
          (c, evs) = (if opt = ECHO then set_remote_echo c False else (c, []));
          out = (if \<not> acknowledged \<and> was_enabled then command_bytes DONT opt else [])
      in (c, reply out evs))"

definition handle_do :: "telnet_codec \<Rightarrow> byte \<Rightarrow> telnet_codec \<times> decode_result" where
  "handle_do c opt =
     (let acknowledged = pending_enable (local_options c opt);
          c = update_local c opt (\<lambda>s. s\<lparr>pending_enable := False\<rparr>)
      in if \<not> supports_local opt then
           (let out = (if rejection_sent (local_options c opt) then [] else command_bytes WONT opt)
            in (update_local c opt (\<lambda>s. s\<lparr>enabled := False, rejection_sent := True\<rparr>), reply out []))
         else
           (let was_enabled = enabled (local_options c opt);
                c = update_local c opt (\<lambda>s. s\<lparr>enabled := True, rejection_sent := False\<rparr>);
                out = (if \<not> acknowledged \<and> \<not> was_enabled then command_bytes WILL opt else []);
                (c, evs) = (if opt = ECHO \<and> \<not> was_enabled then set_local_echo c True else (c, []));
                out' = (if opt = NAWS \<and> \<not> was_enabled then append_naws_if_enabled c else [])
            in (c, reply (out @ out') evs)))"

definition handle_dont :: "telnet_codec \<Rightarrow> byte \<Rightarrow> telnet_codec \<times> decode_result" where
  "handle_dont c opt =
     (let acknowledged = pending_enable (local_options c opt);
          was_enabled = enabled (local_options c opt);
          c = update_local c opt
                (\<lambda>s. s\<lparr>pending_enable := False, enabled := False, rejection_sent := False\<rparr>);
          (c, evs) = (if opt = ECHO \<and> was_enabled then set_local_echo c False else (c, []));
          out = (if \<not> acknowledged \<and> was_enabled then command_bytes WONT opt else [])
      in (c, reply out evs))"

definition handle_option :: "telnet_codec \<Rightarrow> byte \<Rightarrow> byte \<Rightarrow> telnet_codec \<times> decode_result" where
  "handle_option c verb opt =
     (if verb = WILL then handle_will c opt
      else if verb = WONT then handle_wont c opt
      else if verb = DO then handle_do c opt
      else if verb = DONT then handle_dont c opt
      else (c, empty_result))"

definition handle_subnegotiation :: "telnet_codec \<Rightarrow> byte \<Rightarrow> bytes \<Rightarrow> bytes" where
  "handle_subnegotiation c opt payload =
     (if opt = TERMINAL_TYPE \<and> (case payload of b # _ \<Rightarrow> b = SUB_SEND | [] \<Rightarrow> False)
      then subnegotiation_bytes TERMINAL_TYPE (SUB_IS # terminal_type (config c))
      else [])"

definition start_negotiation :: "telnet_codec \<Rightarrow> telnet_codec \<times> bytes" where
  "start_negotiation c =
     (let c = update_remote c SUPPRESS_GO_AHEAD (\<lambda>s. s\<lparr>pending_enable := True\<rparr>);
          c = update_local c TERMINAL_TYPE (\<lambda>s. s\<lparr>pending_enable := True\<rparr>);
          c = update_local c NAWS (\<lambda>s. s\<lparr>pending_enable := True\<rparr>)
      in (c, command_bytes DO SUPPRESS_GO_AHEAD @ command_bytes WILL TERMINAL_TYPE @
             command_bytes WILL NAWS))"

subsection \<open>Receiving\<close>

definition push_subnegotiation :: "telnet_codec \<Rightarrow> byte \<Rightarrow> telnet_codec \<times> (codec_error + unit)" where
  "push_subnegotiation c b =
     (if length (subnegotiation c) = MAX_SUBNEGOTIATION_BYTES
      then (c\<lparr>poisoned := True, subnegotiation := []\<rparr>,
            Inl (SubnegotiationTooLarge MAX_SUBNEGOTIATION_BYTES))
      else (c\<lparr>subnegotiation := subnegotiation c @ [b]\<rparr>, Inr ()))"

definition app_byte :: "byte \<Rightarrow> decode_result" where
  "app_byte b = \<lparr>application_data = [b], outbound = [], events = []\<rparr>"

fun receive_byte :: "telnet_codec \<Rightarrow> byte \<Rightarrow> telnet_codec \<times> (codec_error + decode_result)" where
  "receive_byte c b =
     (case parse_state c of
        Data \<Rightarrow>
          if b = IAC then (c\<lparr>parse_state := Iac\<rparr>, Inr empty_result) else (c, Inr (app_byte b))
      | Iac \<Rightarrow>
          if b = IAC then (c\<lparr>parse_state := Data\<rparr>, Inr (app_byte IAC))
          else if is_option_command b then (c\<lparr>parse_state := OptionVerb b\<rparr>, Inr empty_result)
          else if b = SB then (c\<lparr>parse_state := SubnegotiationOption\<rparr>, Inr empty_result)
          else (c\<lparr>parse_state := Data\<rparr>, Inr empty_result)
      | OptionVerb verb \<Rightarrow>
          (let (c, r) = handle_option c verb b in (c\<lparr>parse_state := Data\<rparr>, Inr r))
      | SubnegotiationOption \<Rightarrow>
          (c\<lparr>subnegotiation := [], parse_state := SubnegotiationData b\<rparr>, Inr empty_result)
      | SubnegotiationData opt \<Rightarrow>
          if b = IAC then (c\<lparr>parse_state := SubnegotiationIac opt\<rparr>, Inr empty_result)
          else (case push_subnegotiation c b of
                  (c, Inl e) \<Rightarrow> (c, Inl e)
                | (c, Inr _) \<Rightarrow> (c, Inr empty_result))
      | SubnegotiationIac opt \<Rightarrow>
          if b = SE then
            (let payload = subnegotiation c;
                 c = c\<lparr>subnegotiation := []\<rparr>;
                 out = handle_subnegotiation c opt payload
             in (c\<lparr>parse_state := Data\<rparr>, Inr (reply out [])))
          else if b = IAC then
            (case push_subnegotiation c IAC of
               (c, Inl e) \<Rightarrow> (c, Inl e)
             | (c, Inr _) \<Rightarrow> (c\<lparr>parse_state := SubnegotiationData opt\<rparr>, Inr empty_result))
          else (c\<lparr>parse_state := SubnegotiationData opt\<rparr>, Inr empty_result))"

definition join_result :: "decode_result \<Rightarrow> decode_result \<Rightarrow> decode_result" where
  "join_result a b =
     \<lparr>application_data = application_data a @ application_data b,
      outbound = outbound a @ outbound b, events = events a @ events b\<rparr>"

text \<open>The \<open>while cursor < input.len()\<close> loop of \<open>receive\<close>.\<close>

fun receive_loop :: "telnet_codec \<Rightarrow> bytes \<Rightarrow> telnet_codec \<times> (codec_error + decode_result)" where
  "receive_loop c [] = (c, Inr empty_result)"
| "receive_loop c (b # bs) =
     (case receive_byte c b of
        (c, Inl e) \<Rightarrow> (c, Inl e)
      | (c, Inr r) \<Rightarrow>
          (case receive_loop c bs of
             (c, Inl e) \<Rightarrow> (c, Inl e)
           | (c, Inr r') \<Rightarrow> (c, Inr (join_result r r'))))"

definition check_input_size :: "bytes \<Rightarrow> codec_error + unit" where
  "check_input_size input =
     (if MAX_INPUT_BYTES < length input then Inl (InputTooLarge MAX_INPUT_BYTES) else Inr ())"

definition ensure_available :: "telnet_codec \<Rightarrow> codec_error + unit" where
  "ensure_available c = (if poisoned c then Inl Poisoned else Inr ())"

text \<open>\<open>activate\<close> is the body of the \<open>!self.active\<close> branch once an IAC byte was found.\<close>

definition activate :: "telnet_codec \<Rightarrow> telnet_codec \<times> decode_result" where
  "activate c =
     (let (c, out) = start_negotiation (c\<lparr>active := True\<rparr>) in (c, reply out [ProtocolActivated]))"

definition receive :: "telnet_codec \<Rightarrow> bytes \<Rightarrow> telnet_codec \<times> (codec_error + decode_result)" where
  "receive c input =
     (case ensure_available c of
        Inl e \<Rightarrow> (c, Inl e)
      | Inr _ \<Rightarrow>
     (case check_input_size input of
        Inl e \<Rightarrow> (c, Inl e)
      | Inr _ \<Rightarrow>
     (if active c then receive_loop c input
      else
        (let prefix = takeWhile (\<lambda>b. b \<noteq> IAC) input;
             rest = dropWhile (\<lambda>b. b \<noteq> IAC) input;
             data = \<lparr>application_data = prefix, outbound = [], events = []\<rparr>
         in if rest = [] then (c, Inr data)
            else (let (c, r) = activate c
                  in case receive_loop c rest of
                       (c, Inl e) \<Rightarrow> (c, Inl e)
                     | (c, Inr r') \<Rightarrow> (c, Inr (join_result data (join_result r r'))))))))"

definition encode_input :: "telnet_codec \<Rightarrow> bytes \<Rightarrow> codec_error + bytes" where
  "encode_input c input =
     (case ensure_available c of
        Inl e \<Rightarrow> Inl e
      | Inr _ \<Rightarrow>
     (case check_input_size input of
        Inl e \<Rightarrow> Inl e
      | Inr _ \<Rightarrow>
     (let normalized = normalize_nvt_newlines input
      in if \<not> active c \<or> IAC \<notin> set normalized then Inr normalized
         else Inr (escape_iac normalized))))"

definition resize :: "telnet_codec \<Rightarrow> u32 \<Rightarrow> u32 \<Rightarrow> telnet_codec \<times> (codec_error + bytes)" where
  "resize c cols rws =
     (case ensure_available c of
        Inl e \<Rightarrow> (c, Inl e)
      | Inr _ \<Rightarrow>
     (case window_size_new cols rws of
        Inl e \<Rightarrow> (c, Inl e)
      | Inr ws \<Rightarrow>
        (let c = c\<lparr>config := (config c)\<lparr>window_size := ws\<rparr>\<rparr> in (c, Inr (append_naws_if_enabled c)))))"

section \<open>Facts about the operations\<close>

lemmas handler_defs =
  handle_option_def handle_will_def handle_wont_def handle_do_def handle_dont_def
  update_remote_def update_local_def set_remote_echo_def set_local_echo_def reply_def

lemma join_empty [simp]: "join_result empty_result r = r" "join_result r empty_result = r"
  by (simp_all add: join_result_def empty_result_def)

lemma join_assoc: "join_result (join_result a b) c = join_result a (join_result b c)"
  by (simp add: join_result_def)

lemma set_echo_frame [frame_simps]:
  "active (fst (set_remote_echo c e)) = active c" "active (fst (set_local_echo c e)) = active c"
  "poisoned (fst (set_remote_echo c e)) = poisoned c" "poisoned (fst (set_local_echo c e)) = poisoned c"
  "config (fst (set_remote_echo c e)) = config c" "config (fst (set_local_echo c e)) = config c"
  "parse_state (fst (set_remote_echo c e)) = parse_state c"
  "parse_state (fst (set_local_echo c e)) = parse_state c"
  "subnegotiation (fst (set_remote_echo c e)) = subnegotiation c"
  "subnegotiation (fst (set_local_echo c e)) = subnegotiation c"
  by (simp_all add: set_remote_echo_def set_local_echo_def)

lemma update_frame [frame_simps]:
  "active (update_remote c opt f) = active c" "active (update_local c opt f) = active c"
  "poisoned (update_remote c opt f) = poisoned c" "poisoned (update_local c opt f) = poisoned c"
  "config (update_remote c opt f) = config c" "config (update_local c opt f) = config c"
  "parse_state (update_remote c opt f) = parse_state c"
  "parse_state (update_local c opt f) = parse_state c"
  "subnegotiation (update_remote c opt f) = subnegotiation c"
  "subnegotiation (update_local c opt f) = subnegotiation c"
  by (simp_all add: update_remote_def update_local_def)

lemma handle_option_frame [frame_simps]:
  "active (fst (handle_option c v opt)) = active c"
  "poisoned (fst (handle_option c v opt)) = poisoned c"
  "config (fst (handle_option c v opt)) = config c"
  "parse_state (fst (handle_option c v opt)) = parse_state c"
  "subnegotiation (fst (handle_option c v opt)) = subnegotiation c"
  by (simp_all add: handle_option_def handle_will_def handle_wont_def handle_do_def handle_dont_def
      Let_def case_prod_beta frame_simps del: split_paired_all)

lemma start_negotiation_frame [frame_simps]:
  "active (fst (start_negotiation c)) = active c"
  "poisoned (fst (start_negotiation c)) = poisoned c"
  "config (fst (start_negotiation c)) = config c"
  "parse_state (fst (start_negotiation c)) = parse_state c"
  "subnegotiation (fst (start_negotiation c)) = subnegotiation c"
  by (simp_all add: start_negotiation_def update_remote_def update_local_def Let_def)

interpretation rx: fallible_stream receive_byte receive_loop empty_result join_result
  by unfold_locales (simp_all add: join_assoc split: prod.splits sum.splits)

declare receive_byte.simps [simp del]

lemma push_subnegotiation_frame [frame_simps]:
  "active (fst (push_subnegotiation c b)) = active c"
  "config (fst (push_subnegotiation c b)) = config c"
  by (simp_all add: push_subnegotiation_def)

lemma receive_byte_active: "active (fst (receive_byte c b)) = active c"
  by (simp add: receive_byte.simps push_subnegotiation_def handle_option_frame Let_def case_prod_beta
      split: parse_state.splits)

lemma receive_byte_config: "config (fst (receive_byte c b)) = config c"
  by (simp add: receive_byte.simps push_subnegotiation_def handle_option_frame Let_def case_prod_beta
      split: parse_state.splits)

lemma receive_byte_ok_poisoned:
  "receive_byte c b = (c', Inr r) \<Longrightarrow> poisoned c' = poisoned c"
  by (auto simp: receive_byte.simps push_subnegotiation_def handle_option_frame Let_def case_prod_beta
      split: parse_state.splits if_splits)

lemma receive_loop_ok_poisoned:
  "receive_loop c bs = (c', Inr r) \<Longrightarrow> poisoned c' = poisoned c"
  by (induction bs arbitrary: c r)
    (auto split: prod.splits sum.splits dest: receive_byte_ok_poisoned)

lemmas receive_loop_active = rx.run_frame [of active, OF receive_byte_active]
lemmas receive_loop_config = rx.run_frame [of config, OF receive_byte_config]

lemma receive_loop_ok_active:
  "receive_loop c bs = (c', Inr r) \<Longrightarrow> active c' = active c"
  using receive_loop_active [of c bs] by simp

subsection \<open>Frame boundaries\<close>

lemma scan_none:
  "IAC \<notin> set xs \<Longrightarrow> takeWhile (\<lambda>b. b \<noteq> IAC) (xs @ ys) = xs @ takeWhile (\<lambda>b. b \<noteq> IAC) ys"
  "IAC \<notin> set xs \<Longrightarrow> dropWhile (\<lambda>b. b \<noteq> IAC) (xs @ ys) = dropWhile (\<lambda>b. b \<noteq> IAC) ys"
  by (induction xs) auto

lemma receive_loop_snd_poisoned:
  "snd (receive_loop c bs) = Inr r \<Longrightarrow> poisoned (fst (receive_loop c bs)) = poisoned c"
  by (metis prod.collapse receive_loop_ok_poisoned)

lemma activate_facts:
  "active (fst (activate c))" "poisoned (fst (activate c)) = poisoned c"
  "config (fst (activate c)) = config c"
  by (simp_all add: activate_def Let_def case_prod_beta frame_simps)

lemma receive_active:
  "active c \<Longrightarrow> \<not> poisoned c \<Longrightarrow> length xs \<le> MAX_INPUT_BYTES \<Longrightarrow> receive c xs = receive_loop c xs"
  by (simp add: receive_def ensure_available_def check_input_size_def)

lemma receive_raw:
  "\<not> active c \<Longrightarrow> \<not> poisoned c \<Longrightarrow> length xs \<le> MAX_INPUT_BYTES \<Longrightarrow> IAC \<notin> set xs \<Longrightarrow>
   receive c xs = (c, Inr \<lparr>application_data = xs, outbound = [], events = []\<rparr>)"
  by (auto simp: receive_def ensure_available_def check_input_size_def Let_def)

lemma receive_first_iac:
  assumes "\<not> active c" "\<not> poisoned c" "length xs \<le> MAX_INPUT_BYTES" "IAC \<in> set xs"
  shows "receive c xs =
    (case receive_loop (fst (activate c)) (dropWhile (\<lambda>b. b \<noteq> IAC) xs) of
       (c', Inl e) \<Rightarrow> (c', Inl e)
     | (c', Inr r) \<Rightarrow>
         (c', Inr (join_result
            \<lparr>application_data = takeWhile (\<lambda>b. b \<noteq> IAC) xs, outbound = [], events = []\<rparr>
            (join_result (snd (activate c)) r))))"
  using assms by (auto simp: receive_def ensure_available_def check_input_size_def Let_def case_prod_beta
      dropWhile_eq_Nil_conv)

lemma receive_ok_available:
  assumes "receive c xs = (c', Inr r)"
  shows "\<not> poisoned c" "\<not> poisoned c'"
proof -
  show p: "\<not> poisoned c"
    using assms by (auto simp: receive_def ensure_available_def)
  show "\<not> poisoned c'"
    using assms p
    by (auto simp: receive_def ensure_available_def check_input_size_def Let_def case_prod_beta
        activate_facts split: if_splits prod.splits sum.splits dest: receive_loop_snd_poisoned receive_loop_ok_poisoned)
qed

subsection \<open>Escaping and newlines\<close>

lemma back_to_data [simp]:
  "parse_state c = Data \<Longrightarrow> c\<lparr>parse_state := Data\<rparr> = c"
  by simp

lemma escape_iac_id: "IAC \<notin> set bs \<Longrightarrow> escape_iac bs = bs"
  by (induction bs) auto

lemma receive_loop_escape:
  "parse_state c = Data \<Longrightarrow>
   receive_loop c (escape_iac bs) = (c, Inr \<lparr>application_data = bs, outbound = [], events = []\<rparr>)"
proof (induction bs)
  case Nil
  then show ?case by (simp add: empty_result_def)
next
  case (Cons b bs)
  then show ?case
    by (cases "b = 255")
      (simp_all add: receive_byte.simps app_byte_def empty_result_def join_result_def)
qed

lemma escape_normalize_length: "length (escape_iac (normalize_nvt_newlines bs)) \<le> 2 * length bs"
  by (induction bs rule: normalize_nvt_newlines.induct) auto

lemma normalize_length: "length (normalize_nvt_newlines bs) \<le> 2 * length bs"
  by (induction bs rule: normalize_nvt_newlines.induct) auto

lemma encode_input_active:
  "encode_input c input = Inr wire \<Longrightarrow> active c \<Longrightarrow> wire = escape_iac (normalize_nvt_newlines input)"
  by (auto simp: encode_input_def escape_iac_id Let_def split: sum.splits if_splits)

text \<open>Every CR is followed by LF or NUL, and LF appears only after CR.\<close>

fun nvt_ok :: "bytes \<Rightarrow> bool" where
  "nvt_ok [] = True"
| "nvt_ok [b] = (b \<noteq> 13 \<and> b \<noteq> 10)"
| "nvt_ok (b # c # cs) =
     (if b = 13 then (c = 10 \<or> c = 0) \<and> nvt_ok cs else b \<noteq> 10 \<and> nvt_ok (c # cs))"

lemma nvt_ok_Cons: "b \<noteq> 13 \<Longrightarrow> nvt_ok (b # bs) = (b \<noteq> 10 \<and> nvt_ok bs)"
  by (cases bs) auto

lemma normalize_nvt_ok: "nvt_ok (normalize_nvt_newlines bs)"
  by (induction bs rule: normalize_nvt_newlines.induct) (simp_all add: nvt_ok_Cons)

lemma nvt_ok_normalize: "nvt_ok bs \<Longrightarrow> normalize_nvt_newlines bs = bs"
  by (induction bs rule: nvt_ok.induct) (auto split: if_splits)

lemma receive_loop_payload:
  assumes "parse_state c = SubnegotiationData opt"
    and "length (subnegotiation c) + length payload \<le> MAX_SUBNEGOTIATION_BYTES"
  shows "receive_loop c (concat (map (\<lambda>b. if b = IAC then [b, IAC] else [b]) payload)) =
    (c\<lparr>subnegotiation := subnegotiation c @ payload\<rparr>, Inr empty_result)"
  using assms
proof (induction payload arbitrary: c)
  case Nil
  then show ?case by simp
next
  case (Cons b bs)
  let ?c = "c\<lparr>subnegotiation := subnegotiation c @ [b]\<rparr>"
  have IH: "receive_loop ?c (concat (map (\<lambda>b. if b = IAC then [b, IAC] else [b]) bs)) =
      (?c\<lparr>subnegotiation := subnegotiation ?c @ bs\<rparr>, Inr empty_result)"
    by (rule Cons.IH) (use Cons.prems in simp_all)
  have upd: "c\<lparr>subnegotiation := xs, parse_state := SubnegotiationData opt\<rparr> =
      c\<lparr>subnegotiation := xs\<rparr>" for xs
    using Cons.prems(1) by simp
  have room: "length (subnegotiation c) \<noteq> MAX_SUBNEGOTIATION_BYTES"
    using Cons.prems(2) by simp
  show ?case
  proof (cases "b = 255")
    case True
    then show ?thesis
      using Cons.prems(1) IH room by (simp add: receive_byte.simps push_subnegotiation_def upd)
  next
    case False
    then show ?thesis
      using Cons.prems(1) IH room by (simp add: receive_byte.simps push_subnegotiation_def)
  qed
qed

subsection \<open>State invariant\<close>

definition config_ok :: "telnet_config \<Rightarrow> bool" where
  "config_ok cfg \<longleftrightarrow>
     terminal_type cfg \<noteq> [] \<and> length (terminal_type cfg) \<le> MAX_TERMINAL_TYPE_BYTES \<and>
     (\<forall>b \<in> set (terminal_type cfg). 0x20 \<le> b \<and> b \<le> 0x7e) \<and>
     1 \<le> columns (window_size cfg) \<and> columns (window_size cfg) \<le> 10000 \<and>
     1 \<le> rows (window_size cfg) \<and> rows (window_size cfg) \<le> 10000"

definition options_inv :: "telnet_codec \<Rightarrow> bool" where
  "options_inv c \<longleftrightarrow>
     local_echo c = enabled (local_options c ECHO) \<and>
     (if remote_echo_known c then remote_echo c = enabled (remote_options c ECHO)
      else remote_echo c \<and> \<not> enabled (remote_options c ECHO)) \<and>
     (\<forall>opt. enabled (local_options c opt) \<longrightarrow>
        supports_local opt \<and> \<not> pending_enable (local_options c opt) \<and>
        \<not> rejection_sent (local_options c opt)) \<and>
     (\<forall>opt. enabled (remote_options c opt) \<longrightarrow>
        supports_remote opt \<and> \<not> pending_enable (remote_options c opt) \<and>
        \<not> rejection_sent (remote_options c opt))"

definition codec_inv :: "telnet_codec \<Rightarrow> bool" where
  "codec_inv c \<longleftrightarrow>
     config_ok (config c) \<and> options_inv c \<and>
     length (subnegotiation c) \<le> MAX_SUBNEGOTIATION_BYTES \<and>
     (poisoned c \<longrightarrow> subnegotiation c = []) \<and>
     (\<not> active c \<longrightarrow> c = codec_new (config c))"

lemma handle_will_options: "options_inv c \<Longrightarrow> options_inv (fst (handle_will c opt))"
  unfolding options_inv_def
  by (auto simp: handler_defs supports_remote_def supports_local_def Let_def split: if_splits)

lemma handle_wont_options: "options_inv c \<Longrightarrow> options_inv (fst (handle_wont c opt))"
  unfolding options_inv_def
  by (auto simp: handler_defs supports_remote_def supports_local_def Let_def split: if_splits)

lemma handle_do_options: "options_inv c \<Longrightarrow> options_inv (fst (handle_do c opt))"
  unfolding options_inv_def
  by (auto simp: handler_defs supports_remote_def supports_local_def Let_def split: if_splits)

lemma handle_dont_options: "options_inv c \<Longrightarrow> options_inv (fst (handle_dont c opt))"
  unfolding options_inv_def
  by (auto simp: handler_defs supports_remote_def supports_local_def Let_def split: if_splits)

lemma handle_option_options: "options_inv c \<Longrightarrow> options_inv (fst (handle_option c v opt))"
  by (simp add: handle_option_def handle_will_options handle_wont_options handle_do_options
      handle_dont_options)

lemma start_negotiation_options:
  "options_inv (codec_new cfg) \<Longrightarrow> options_inv (fst (activate (codec_new cfg)))"
  by (auto simp: options_inv_def activate_def start_negotiation_def update_remote_def
      update_local_def codec_new_def default_option_def Let_def)

lemma options_inv_frame [simp]:
  "options_inv (c\<lparr>parse_state := p\<rparr>) = options_inv c"
  "options_inv (c\<lparr>subnegotiation := b\<rparr>) = options_inv c"
  "options_inv (c\<lparr>poisoned := q\<rparr>) = options_inv c"
  "options_inv (c\<lparr>config := k\<rparr>) = options_inv c"
  by (simp_all add: options_inv_def)

lemma options_inv_new: "options_inv (codec_new cfg)"
  by (simp add: options_inv_def codec_new_def default_option_def)

text \<open>The invariant of an active codec, on which the receive loop runs.\<close>

definition live_inv :: "telnet_codec \<Rightarrow> bool" where
  "live_inv c \<longleftrightarrow>
     active c \<and> config_ok (config c) \<and> options_inv c \<and>
     length (subnegotiation c) \<le> MAX_SUBNEGOTIATION_BYTES \<and>
     (poisoned c \<longrightarrow> subnegotiation c = [])"

lemma live_inv_codec_inv: "live_inv c \<Longrightarrow> codec_inv c"
  by (simp add: live_inv_def codec_inv_def)

lemma handle_option_options_eq:
  "handle_option c v opt = (c', r) \<Longrightarrow> options_inv c \<Longrightarrow> options_inv c'"
  by (metis fst_conv handle_option_options)

lemma receive_byte_live: 
  assumes "live_inv c" "\<not> poisoned c"
  shows "live_inv (fst (receive_byte c b))"
  using assms
  by (simp add: receive_byte.simps push_subnegotiation_def live_inv_def handle_option_frame
      handle_option_options Let_def case_prod_beta split: parse_state.splits)

lemma receive_loop_live:
  assumes "live_inv c" "\<not> poisoned c"
  shows "live_inv (fst (receive_loop c bs))"
  using assms
proof (induction bs arbitrary: c)
  case Nil
  then show ?case by simp
next
  case (Cons b bs)
  have live: "live_inv (fst (receive_byte c b))"
    using Cons.prems by (rule receive_byte_live)
  show ?case
  proof (cases "snd (receive_byte c b)")
    case (Inl e)
    then show ?thesis using live by (simp add: case_prod_beta)
  next
    case (Inr r)
    then have np: "\<not> poisoned (fst (receive_byte c b))"
      using Cons.prems(2) receive_byte_ok_poisoned [of c b "fst (receive_byte c b)" r]
      by (metis prod.collapse)
    show ?thesis
      using Inr Cons.IH [OF live np] by (simp add: case_prod_beta split: sum.splits)
  qed
qed

lemma codec_inv_live: "codec_inv c \<Longrightarrow> active c \<Longrightarrow> live_inv c"
  by (simp add: live_inv_def codec_inv_def)

lemma receive_inv:
  assumes "codec_inv c"
  shows "codec_inv (fst (receive c input))"
proof (cases "poisoned c \<or> MAX_INPUT_BYTES < length input")
  case True
  then show ?thesis
    using assms by (auto simp: receive_def ensure_available_def check_input_size_def)
next
  case False
  then have ok: "\<not> poisoned c" "length input \<le> MAX_INPUT_BYTES" by auto
  show ?thesis
  proof (cases "active c")
    case True
    then show ?thesis
      using ok assms by (simp add: receive_active receive_loop_live codec_inv_live live_inv_codec_inv)
  next
    case na: False
    then have new: "c = codec_new (config c)"
      using assms by (simp add: codec_inv_def)
    have "live_inv (fst (activate c))"
      using assms start_negotiation_options [OF options_inv_new, of "config c"] new
      by (simp add: live_inv_def codec_inv_def activate_facts)
        (simp add: activate_def frame_simps case_prod_beta Let_def)
    then have live: "live_inv (fst (receive_loop (fst (activate c)) bs))" for bs
      by (rule receive_loop_live) (simp add: activate_facts ok)
    show ?thesis
    proof (cases "IAC \<in> set input")
      case True
      show ?thesis
        using live [of "dropWhile (\<lambda>b. b \<noteq> IAC) input"]
        by (simp add: receive_first_iac [OF na ok True] live_inv_codec_inv case_prod_beta
            split: sum.splits)
    next
      case False
      then show ?thesis
        using assms by (simp add: receive_raw [OF na ok False])
    qed
  qed
qed

lemma window_size_new_ok:
  assumes "window_size_new cols rws = Inr ws"
  shows "unat (columns ws) = unat cols" "unat (rows ws) = unat rws"
    "1 \<le> columns ws" "columns ws \<le> 10000" "1 \<le> rows ws" "rows ws \<le> 10000"
proof -
  have b: "cols \<noteq> 0" "rws \<noteq> 0" "unat cols \<le> 10000" "unat rws \<le> 10000"
    and ws: "ws = \<lparr>columns = ucast cols, rows = ucast rws\<rparr>"
    using assms by (auto simp: window_size_new_def MAX_WINDOW_DIMENSION_def word_le_nat_alt not_less
        split: if_splits)
  show c: "unat (columns ws) = unat cols" and r: "unat (rows ws) = unat rws"
    using b ws by (simp_all add: unsigned_ucast_eq take_bit_nat_eq_self)
  have "unat cols \<noteq> 0" "unat rws \<noteq> 0"
    using b by (simp_all add: unat_eq_0)
  then show "1 \<le> columns ws" "columns ws \<le> 10000" "1 \<le> rows ws" "rows ws \<le> 10000"
    using b c r by (simp_all add: word_le_nat_alt)
qed

lemma config_codec_new [simp]: "config (codec_new k) = k"
  by (simp add: codec_new_def)

lemma codec_new_config:
  assumes "c = codec_new (config c)"
  shows "c\<lparr>config := k\<rparr> = codec_new k"
  by (subst assms) (simp add: codec_new_def)

lemma resize_inv:
  assumes "codec_inv c"
  shows "codec_inv (fst (resize c cols rws))"
proof (cases "window_size_new cols rws")
  case (Inl e)
  then show ?thesis using assms by (simp add: resize_def ensure_available_def)
next
  case (Inr ws)
  let ?cfg = "(config c)\<lparr>window_size := ws\<rparr>"
  have "config_ok ?cfg"
    using assms window_size_new_ok [OF Inr] by (simp add: codec_inv_def config_ok_def)
  moreover have "\<not> active c \<longrightarrow> c\<lparr>config := ?cfg\<rparr> = codec_new ?cfg"
    using assms codec_new_config by (auto simp: codec_inv_def)
  ultimately show ?thesis
    using assms Inr by (simp add: resize_def ensure_available_def Let_def codec_inv_def)
qed

inductive codec_step :: "telnet_codec \<Rightarrow> telnet_codec \<Rightarrow> bool" where
  receive: "codec_step c (fst (receive c input))"
| resize: "codec_step c (fst (resize c cols rws))"
| reset: "codec_step c (codec_reset c)"

lemma codec_new_inv: "config_ok cfg \<Longrightarrow> codec_inv (codec_new cfg)"
  using options_inv_new by (simp add: codec_inv_def codec_new_def)

lemma codec_reset_new: "codec_reset c = codec_new (config c)"
  by (simp add: codec_reset_def codec_new_def)

lemma codec_inv_config: "codec_inv c \<Longrightarrow> config_ok (config c)"
  by (simp add: codec_inv_def)

lemma codec_step_inv: "codec_step c d \<Longrightarrow> codec_inv c \<Longrightarrow> codec_inv d"
  by (induction rule: codec_step.induct)
    (auto simp: codec_reset_new intro: receive_inv resize_inv codec_new_inv codec_inv_config)

interpretation codec: transition_system codec_step codec_inv
  by unfold_locales (rule codec_step_inv)

section \<open>Properties\<close>

text \<open>C20: Decoding does not depend on how TCP splits the stream into frames: receiving two
  frames one after the other gives the same codec, the same error or the same application bytes,
  replies and events as receiving their concatenation, from every codec state.\<close>

theorem receive_split:
  assumes "length (xs @ ys) \<le> MAX_INPUT_BYTES"
  shows "receive c (xs @ ys) =
    (case receive c xs of
       (c', Inl e) \<Rightarrow> (c', Inl e)
     | (c', Inr r) \<Rightarrow>
         (case receive c' ys of
            (c'', Inl e) \<Rightarrow> (c'', Inl e)
          | (c'', Inr r') \<Rightarrow> (c'', Inr (join_result r r'))))"
proof (cases "poisoned c")
  case True
  then show ?thesis by (simp add: receive_def ensure_available_def)
next
  case np: False
  have len: "length xs \<le> MAX_INPUT_BYTES" "length ys \<le> MAX_INPUT_BYTES"
    using assms by simp_all
  have rest: "receive c' ys = receive_loop c' ys"
    if "receive_loop d zs = (c', Inr r)" "active d" "\<not> poisoned d" for c' d zs r
    using that len by (simp add: receive_active receive_loop_ok_active receive_loop_ok_poisoned)
  show ?thesis
  proof (cases "active c")
    case True
    then show ?thesis
      using np len assms
      by (auto simp: receive_active rx.run_append rest split: prod.splits sum.splits)
  next
    case na: False
    show ?thesis
    proof (cases "IAC \<in> set xs")
      case True
      then have "dropWhile (\<lambda>b. b \<noteq> IAC) (xs @ ys) = dropWhile (\<lambda>b. b \<noteq> IAC) xs @ ys"
        "takeWhile (\<lambda>b. b \<noteq> IAC) (xs @ ys) = takeWhile (\<lambda>b. b \<noteq> IAC) xs"
        by (auto intro: dropWhile_append1 takeWhile_append1)
      then show ?thesis
        using np na len assms True
        by (auto simp: receive_first_iac rx.run_append rest activate_facts join_assoc
            split: prod.splits sum.splits)
    next
      case False
      note raw = receive_raw [OF na np len(1) False]
      show ?thesis
      proof (cases "IAC \<in> set ys")
        case True
        then have xys: "IAC \<in> set (xs @ ys)" by simp
        show ?thesis
          unfolding receive_first_iac [OF na np assms xys] raw scan_none [OF False]
          by (simp add: receive_first_iac [OF na np len(2) True] join_result_def
              split: prod.splits sum.splits)
      next
        case False
        then show ?thesis
          using np na len assms \<open>IAC \<notin> set xs\<close>
          by (auto simp: raw receive_raw join_result_def)
      qed
    qed
  qed
qed

theorem receive_split_witness:
  "length ([72, 255] @ [251, 1] :: bytes) \<le> MAX_INPUT_BYTES \<and>
   receive (codec_new default_telnet_config) ([72, 255] @ [251, 1]) =
    (case receive (codec_new default_telnet_config) [72, 255] of
       (c', Inl e) \<Rightarrow> (c', Inl e)
     | (c', Inr r) \<Rightarrow>
         (case receive c' [251, 1] of
            (c'', Inl e) \<Rightarrow> (c'', Inl e)
          | (c'', Inr r') \<Rightarrow> (c'', Inr (join_result r r'))))"
proof -
  have h: "length ([72, 255] @ [251, 1] :: bytes) \<le> MAX_INPUT_BYTES"
    by (simp add: MAX_INPUT_BYTES_def)
  show ?thesis by (intro conjI h receive_split [OF h])
qed

text \<open>C21: What an active codec sends for an application input is decoded by an active peer
  codec that is between commands to exactly the newline-normalised input: no byte is taken for a
  command, no reply and no event is produced.\<close>

theorem encode_receive_roundtrip:
  assumes "encode_input c input = Inr wire" and "active c"
    and "active d" and "\<not> poisoned d" and "parse_state d = Data"
    and "2 * length input \<le> MAX_INPUT_BYTES"
  shows "receive d wire =
    (d, Inr \<lparr>application_data = normalize_nvt_newlines input, outbound = [], events = []\<rparr>)"
proof -
  have w: "wire = escape_iac (normalize_nvt_newlines input)"
    using assms(1,2) by (rule encode_input_active)
  then have "length wire \<le> MAX_INPUT_BYTES"
    using escape_normalize_length [of input] assms(6) by simp
  with assms(3-5) w show ?thesis
    by (simp add: receive_def ensure_available_def check_input_size_def receive_loop_escape)
qed

theorem encode_receive_roundtrip_witness:
  "receive (fst (activate (codec_new default_telnet_config))) [104, 13, 10, 255, 255] =
     (fst (activate (codec_new default_telnet_config)),
      Inr \<lparr>application_data = [104, 13, 10, 255], outbound = [], events = []\<rparr>)"
proof -
  let ?c = "fst (activate (codec_new default_telnet_config))"
  have e: "encode_input ?c [104, 10, 255] = Inr [104, 13, 10, 255, 255]"
    by (simp add: encode_input_def ensure_available_def check_input_size_def activate_facts
        MAX_INPUT_BYTES_def Let_def codec_new_def)
  have "receive ?c [104, 13, 10, 255, 255] =
      (?c, Inr \<lparr>application_data = normalize_nvt_newlines [104, 10, 255], outbound = [], events = []\<rparr>)"
    by (rule encode_receive_roundtrip [OF e])
      (simp_all add: activate_facts activate_def start_negotiation_def update_remote_def update_local_def
        codec_new_def MAX_INPUT_BYTES_def Let_def)
  then show ?thesis by simp
qed

text \<open>Newline conversion gives the NVT normal form (CR only before LF or NUL, LF only after
  CR), leaves a text in normal form alone, and at most doubles the length.\<close>

theorem normalize_normal_form:
  "nvt_ok (normalize_nvt_newlines bs) \<and>
   normalize_nvt_newlines (normalize_nvt_newlines bs) = normalize_nvt_newlines bs \<and>
   length (normalize_nvt_newlines bs) \<le> 2 * length bs"
  by (simp add: normalize_nvt_ok nvt_ok_normalize normalize_length)

text \<open>A subnegotiation built by the codec is parsed back to its payload, literal IAC bytes
  included, and answered from the payload alone.\<close>

theorem subnegotiation_roundtrip:
  assumes "parse_state c = Data" and "length payload \<le> MAX_SUBNEGOTIATION_BYTES"
  shows "receive_loop c (subnegotiation_bytes opt payload) =
    (c\<lparr>subnegotiation := []\<rparr>, Inr (reply (handle_subnegotiation c opt payload) []))"
proof -
  let ?d = "c\<lparr>subnegotiation := [], parse_state := SubnegotiationData opt\<rparr>"
  let ?body = "concat (map (\<lambda>b. if b = IAC then [b, IAC] else [b]) payload)"
  have open_frame: "receive_loop c [IAC, SB, opt] = (?d, Inr empty_result)"
    using assms(1) by (simp add: receive_byte.simps is_option_command_def)
  have payload: "receive_loop ?d ?body = (?d\<lparr>subnegotiation := payload\<rparr>, Inr empty_result)"
    using receive_loop_payload [of ?d opt payload] assms(2) by simp
  have close_frame: "receive_loop (?d\<lparr>subnegotiation := payload\<rparr>) [IAC, SE] =
      (c\<lparr>subnegotiation := []\<rparr>, Inr (reply (handle_subnegotiation c opt payload) []))"
    using assms(1) by (simp add: receive_byte.simps handle_subnegotiation_def)
  show ?thesis
    unfolding subnegotiation_bytes_def rx.run_append open_frame prod.case sum.case payload
      close_frame by simp
qed

theorem subnegotiation_roundtrip_witness:
  "receive_loop (codec_new default_telnet_config) (subnegotiation_bytes TERMINAL_TYPE [1]) =
     (codec_new default_telnet_config,
      Inr (reply (subnegotiation_bytes 24 (0 # DEFAULT_TERMINAL_TYPE)) []))"
proof -
  have "receive_loop (codec_new default_telnet_config) (subnegotiation_bytes TERMINAL_TYPE [1]) =
     ((codec_new default_telnet_config)\<lparr>subnegotiation := []\<rparr>,
      Inr (reply (handle_subnegotiation (codec_new default_telnet_config) TERMINAL_TYPE [1]) []))"
    by (rule subnegotiation_roundtrip) (simp_all add: codec_new_def MAX_SUBNEGOTIATION_BYTES_def)
  then show ?thesis
    by (simp add: handle_subnegotiation_def) (simp add: codec_new_def default_telnet_config_def)
qed

text \<open>Repeating a negotiation command is silent: after a verb for an option was handled, the
  same verb for the same option changes nothing and sends nothing, so two peers cannot loop.\<close>

theorem handle_option_repeat:
  "handle_option (fst (handle_option c v opt)) v opt = (fst (handle_option c v opt), reply [] [])"
  by (cases c)
    (auto simp: handler_defs empty_result_def supports_remote_def supports_local_def
      append_naws_if_enabled_def Let_def fun_eq_iff split: if_splits)

text \<open>In every codec reachable from a valid configuration by receiving, resizing and
  resetting, only supported options are enabled, the echo flags agree with the options, the
  window stays within its limits, the subnegotiation buffer within its bound, and an inactive
  codec is as new.\<close>

theorem codec_invariant:
  assumes "config_ok cfg" and "codec_step\<^sup>*\<^sup>* (codec_new cfg) c"
  shows "codec_inv c"
  using assms(2) codec_new_inv [OF assms(1)] by (rule codec.reach_inv)

theorem codec_invariant_witness:
  "config_ok default_telnet_config \<and>
   codec_step\<^sup>*\<^sup>* (codec_new default_telnet_config) (fst (receive (codec_new default_telnet_config) [255])) \<and>
   codec_inv (fst (receive (codec_new default_telnet_config) [255]))"
proof -
  have c: "config_ok default_telnet_config"
    by (simp add: config_ok_def default_telnet_config_def DEFAULT_TERMINAL_TYPE_def
        default_window_size_def MAX_TERMINAL_TYPE_BYTES_def)
  have r: "codec_step\<^sup>*\<^sup>* (codec_new default_telnet_config)
      (fst (receive (codec_new default_telnet_config) [255]))"
    by (intro r_into_rtranclp codec_step.receive)
  show ?thesis
    by (intro conjI c r codec_invariant [OF c r])
qed

text \<open>Once the peer enabled NAWS, a resize to a valid size sends one NAWS subnegotiation
  whose four payload bytes are the big-endian width and height.\<close>

theorem resize_announces_size:
  assumes "\<not> poisoned c" and "active c" and "enabled (local_options c NAWS)"
    and "1 \<le> cols" and "cols \<le> 10000" and "1 \<le> rws" and "rws \<le> 10000"
  shows "\<exists>c1 c0 r1 r0.
    snd (resize c cols rws) = Inr (subnegotiation_bytes NAWS [c1, c0, r1, r0]) \<and>
    256 * unat c1 + unat c0 = unat cols \<and> 256 * unat r1 + unat r0 = unat rws"
proof -
  define ws where "ws = \<lparr>columns = ucast cols, rows = ucast rws\<rparr>"
  have ws: "window_size_new cols rws = Inr ws"
    using assms(4-7)
    by (auto simp: window_size_new_def MAX_WINDOW_DIMENSION_def ws_def word_less_nat_alt word_le_nat_alt)
  show ?thesis
    using assms(1-3) ws window_size_new_ok(1,2) [OF ws]
    by (simp add: resize_def ensure_available_def append_naws_if_enabled_def Let_def u16_be_def)
      (metis u16_be_unat)
qed

theorem resize_announces_size_witness:
  "\<exists>c1 c0 r1 r0.
    snd (resize (fst (handle_do (fst (activate (codec_new default_telnet_config))) NAWS)) 255 50) =
      Inr (subnegotiation_bytes NAWS [c1, c0, r1, r0]) \<and>
    256 * unat c1 + unat c0 = 255 \<and> 256 * unat r1 + unat r0 = 50"
proof -
  let ?c = "fst (handle_do (fst (activate (codec_new default_telnet_config))) NAWS)"
  have "\<exists>c1 c0 r1 r0. snd (resize ?c 255 50) = Inr (subnegotiation_bytes NAWS [c1, c0, r1, r0]) \<and>
    256 * unat c1 + unat c0 = unat (255 :: u32) \<and> 256 * unat r1 + unat r0 = unat (50 :: u32)"
    by (rule resize_announces_size)
      (simp_all add: handler_defs activate_def start_negotiation_def codec_new_def default_option_def
        supports_local_def Let_def case_prod_beta)
  then show ?thesis by simp
qed

end
