(* ===== verification/Rust_Strings.thy ===== *)
theory Rust_Strings
  imports Prelude
begin

text \<open>
  The part of Rust's \<^verbatim>\<open>str\<close> and integer formatting that the modelled code uses.  A \<^verbatim>\<open>str\<close> is the list
  of its Unicode scalar values; its bytes are its UTF-8 encoding.  \<open>from_utf8\<close> and
  \<open>from_utf8_lossy\<close> follow the standard library: the lossy decoder replaces every maximal
  invalid prefix by U+FFFD.  \<open>show_radix\<close> is the output of \<^verbatim>\<open>{}\<close> and \<^verbatim>\<open>{:o}\<close>, \<open>parse_u64\<close> is
  \<^verbatim>\<open>u64::from_str_radix\<close> for radices up to ten, with its optional sign and its overflow check.
\<close>

type_synonym uchar = nat
type_synonym rstr = "uchar list"

definition lit :: "string \<Rightarrow> rstr" where
  "lit s = map of_char s"

definition scalar :: "uchar \<Rightarrow> bool" where
  "scalar c \<longleftrightarrow> c < 0xD800 \<or> 0xE000 \<le> c \<and> c < 0x110000"

abbreviation valid_str :: "rstr \<Rightarrow> bool" where
  "valid_str s \<equiv> list_all scalar s"

definition is_control :: "uchar \<Rightarrow> bool" where
  "is_control c \<longleftrightarrow> c \<le> 0x1f \<or> 0x7f \<le> c \<and> c \<le> 0x9f"

definition is_whitespace :: "uchar \<Rightarrow> bool" where
  "is_whitespace c \<longleftrightarrow>
     9 \<le> c \<and> c \<le> 13 \<or> c = 0x20 \<or> c = 0x85 \<or> c = 0xA0 \<or> c = 0x1680 \<or>
     0x2000 \<le> c \<and> c \<le> 0x200A \<or> c = 0x2028 \<or> c = 0x2029 \<or> c = 0x202F \<or> c = 0x205F \<or> c = 0x3000"

definition trim_end :: "rstr \<Rightarrow> rstr" where
  "trim_end s = rev (dropWhile is_whitespace (rev s))"

definition trim :: "rstr \<Rightarrow> rstr" where
  "trim s = trim_end (dropWhile is_whitespace s)"

text \<open>The last item of \<^verbatim>\<open>rsplit(c)\<close> from the right: what follows the last \<open>c\<close>.\<close>

definition after_last :: "uchar \<Rightarrow> rstr \<Rightarrow> rstr" where
  "after_last c s = rev (takeWhile (\<lambda>d. d \<noteq> c) (rev s))"

section \<open>UTF-8\<close>

definition utf8_char :: "uchar \<Rightarrow> bytes" where
  "utf8_char c =
     (if c < 0x80 then [of_nat c]
      else if c < 0x800 then [of_nat (0xC0 + c div 0x40), of_nat (0x80 + c mod 0x40)]
      else if c < 0x10000 then
        [of_nat (0xE0 + c div 0x1000), of_nat (0x80 + c div 0x40 mod 0x40), of_nat (0x80 + c mod 0x40)]
      else
        [of_nat (0xF0 + c div 0x40000), of_nat (0x80 + c div 0x1000 mod 0x40),
         of_nat (0x80 + c div 0x40 mod 0x40), of_nat (0x80 + c mod 0x40)])"

definition utf8 :: "rstr \<Rightarrow> bytes" where
  "utf8 s = concat (map utf8_char s)"

definition str_len :: "rstr \<Rightarrow> nat" where
  "str_len s = length (utf8 s)"

definition in_range :: "nat \<Rightarrow> nat \<Rightarrow> bytes \<Rightarrow> bool" where
  "in_range lo hi bs = (case bs of b # _ \<Rightarrow> lo \<le> unat b \<and> unat b \<le> hi | [] \<Rightarrow> False)"

text \<open>
  One step of decoding: the scalar value at the front, or \<open>None\<close> for a maximal invalid prefix,
  with the bytes that remain.
\<close>

definition utf8_next :: "byte \<Rightarrow> bytes \<Rightarrow> uchar option \<times> bytes" where
  "utf8_next b r1 =
     (let n = unat b; cont = (\<lambda>bs. unat (hd bs) - 0x80); r2 = tl r1; r3 = tl r2
      in if n < 0x80 then (Some n, r1)
         else if 0xC2 \<le> n \<and> n \<le> 0xDF then
           (if in_range 0x80 0xBF r1 then (Some ((n - 0xC0) * 0x40 + cont r1), r2) else (None, r1))
         else if 0xE0 \<le> n \<and> n \<le> 0xEF then
           (if \<not> in_range (if n = 0xE0 then 0xA0 else 0x80) (if n = 0xED then 0x9F else 0xBF) r1
            then (None, r1)
            else if \<not> in_range 0x80 0xBF r2 then (None, r2)
            else (Some ((n - 0xE0) * 0x1000 + cont r1 * 0x40 + cont r2), r3))
         else if 0xF0 \<le> n \<and> n \<le> 0xF4 then
           (if \<not> in_range (if n = 0xF0 then 0x90 else 0x80) (if n = 0xF4 then 0x8F else 0xBF) r1
            then (None, r1)
            else if \<not> in_range 0x80 0xBF r2 then (None, r2)
            else if \<not> in_range 0x80 0xBF r3 then (None, r3)
            else (Some ((n - 0xF0) * 0x40000 + cont r1 * 0x1000 + cont r2 * 0x40 + cont r3), tl r3))
         else (None, r1))"

lemma utf8_next_length: "length (snd (utf8_next b bs)) \<le> length bs"
  by (simp add: utf8_next_def Let_def)

function utf8_decode :: "bytes \<Rightarrow> uchar option list" where
  "utf8_decode [] = []"
| "utf8_decode (b # bs) = (let (c, rest) = utf8_next b bs in c # utf8_decode rest)"
  by pat_completeness auto
termination
proof (relation "measure length")
  fix b bs x c rest
  assume "x = utf8_next b bs" "(c, rest) = x"
  then have "rest = snd (utf8_next b bs)" by (metis snd_conv)
  then show "(rest, b # bs) \<in> measure length"
    using utf8_next_length [of b bs] by simp
qed simp

definition from_utf8 :: "bytes \<Rightarrow> rstr option" where
  "from_utf8 bs = (if None \<in> set (utf8_decode bs) then None else Some (map the (utf8_decode bs)))"

definition from_utf8_lossy :: "bytes \<Rightarrow> rstr" where
  "from_utf8_lossy bs = map (\<lambda>c. case c of Some c \<Rightarrow> c | None \<Rightarrow> 0xFFFD) (utf8_decode bs)"

lemma unat_byte: "n < 256 \<Longrightarrow> unat (of_nat n :: byte) = n"
  by (simp add: unat_of_nat)

lemma split6: "c = c div 0x40 * 0x40 + c mod 0x40" for c :: nat
  by simp

lemma utf8_next_char:
  assumes "scalar c"
  shows "\<exists>b bs. utf8_char c = b # bs \<and> utf8_next b (bs @ rest) = (Some c, rest)"
proof -
  consider "c < 0x80" | "0x80 \<le> c" "c < 0x800" | "0x800 \<le> c" "c < 0x10000"
    | "0x10000 \<le> c" "c < 0x110000"
    using assms unfolding scalar_def by linarith
  then show ?thesis
  proof cases
    case 1
    then show ?thesis by (simp add: utf8_char_def utf8_next_def unat_byte Let_def)
  next
    case 2
    define q r where "q = c div 0x40" and "r = c mod 0x40"
    have c: "c = q * 0x40 + r" and r: "r < 0x40" by (simp_all add: q_def r_def)
    with 2 have q: "2 \<le> q" "q < 0x20" by auto
    have enc: "utf8_char c = [of_nat (0xC0 + q), of_nat (0x80 + r)]"
      using 2 by (simp add: utf8_char_def q_def r_def)
    show ?thesis
      unfolding enc using q r by (simp add: utf8_next_def in_range_def unat_byte Let_def c del: of_nat_add)
  next
    case 3
    define p q r where "p = c div 0x1000" and "q = c div 0x40 mod 0x40" and "r = c mod 0x40"
    have c: "c = p * 0x1000 + q * 0x40 + r"
    proof -
      have "c div 0x40 = p * 0x40 + q"
        using split6 [of "c div 0x40"] by (simp add: p_def q_def div_mult2_eq [symmetric])
      then show ?thesis using split6 [of c] unfolding r_def by linarith
    qed
    have b: "q < 0x40" "r < 0x40" by (simp_all add: q_def r_def)
    have p: "p < 16" using 3 by (simp add: p_def)
    have lo: "p = 0 \<longrightarrow> 0x20 \<le> q" and hi: "p = 13 \<longrightarrow> q \<le> 0x1F"
      using 3 c b assms unfolding scalar_def by linarith+
    have enc: "utf8_char c = [of_nat (0xE0 + p), of_nat (0x80 + q), of_nat (0x80 + r)]"
      using 3 by (simp add: utf8_char_def p_def q_def r_def)
    show ?thesis
      unfolding enc using p b lo hi
      by (simp add: utf8_next_def in_range_def unat_byte Let_def c del: of_nat_add)
  next
    case 4
    define o' p q r where "o' = c div 0x40000" and "p = c div 0x1000 mod 0x40"
      and "q = c div 0x40 mod 0x40" and "r = c mod 0x40"
    have c: "c = o' * 0x40000 + p * 0x1000 + q * 0x40 + r"
    proof -
      have "c div 0x40 div 0x40 = o' * 0x40 + p"
        using split6 [of "c div 0x40 div 0x40"]
        by (simp add: o'_def p_def div_mult2_eq [symmetric])
      moreover have "c div 0x40 = c div 0x40 div 0x40 * 0x40 + q"
        unfolding q_def by (rule split6)
      ultimately show ?thesis using split6 [of c] unfolding r_def by linarith
    qed
    have b: "p < 0x40" "q < 0x40" "r < 0x40" by (simp_all add: p_def q_def r_def)
    have o': "o' < 5" using 4 by (simp add: o'_def)
    have lo: "o' = 0 \<longrightarrow> 0x10 \<le> p" and hi: "o' = 4 \<longrightarrow> p \<le> 0xF"
      using 4 c b by linarith+
    have enc: "utf8_char c =
        [of_nat (0xF0 + o'), of_nat (0x80 + p), of_nat (0x80 + q), of_nat (0x80 + r)]"
      using 4 by (simp add: utf8_char_def o'_def p_def q_def r_def)
    show ?thesis
      unfolding enc using o' b lo hi
      by (simp add: utf8_next_def in_range_def unat_byte Let_def c del: of_nat_add)
  qed
qed

lemma utf8_decode_append:
  "valid_str s \<Longrightarrow> utf8_decode (utf8 s @ rest) = map Some s @ utf8_decode rest"
proof (induction s)
  case Nil
  then show ?case by (simp add: utf8_def)
next
  case (Cons c s)
  then obtain b bs where "utf8_char c = b # bs"
    and "utf8_next b (bs @ utf8 s @ rest) = (Some c, utf8 s @ rest)"
    using utf8_next_char [of c "utf8 s @ rest"] by auto
  with Cons show ?case by (simp add: utf8_def)
qed

lemma utf8_decode_utf8: "valid_str s \<Longrightarrow> utf8_decode (utf8 s) = map Some s"
  using utf8_decode_append [of s "[]"] by simp

lemma from_utf8_utf8 [simp]: "valid_str s \<Longrightarrow> from_utf8 (utf8 s) = Some s"
  by (auto simp: from_utf8_def utf8_decode_utf8 comp_def)

lemma from_utf8_lossy_utf8 [simp]: "valid_str s \<Longrightarrow> from_utf8_lossy (utf8 s) = s"
  by (simp add: from_utf8_lossy_def utf8_decode_utf8 comp_def)

lemma utf8_Nil [simp]: "utf8 [] = []"
  by (simp add: utf8_def)

lemma utf8_append: "utf8 (s @ t) = utf8 s @ utf8 t"
  by (simp add: utf8_def)

lemma utf8_ascii: "\<forall>c \<in> set s. c < 0x80 \<Longrightarrow> utf8 s = map of_nat s"
  by (induction s) (simp_all add: utf8_def utf8_char_def)

lemma ascii_valid: "\<forall>c \<in> set s. c < 0x80 \<Longrightarrow> valid_str s"
  by (auto simp: list_all_iff scalar_def)

lemma of_nat_byte_eq_0: "n < 256 \<Longrightarrow> (of_nat n :: byte) = 0 \<longleftrightarrow> n = 0"
  using unat_byte [of n] by auto

lemma utf8_char_no_nul:
  assumes "scalar c" and "c \<noteq> 0"
  shows "0 \<notin> set (utf8_char c)"
proof -
  have c: "c < 0x110000" using assms(1) by (auto simp: scalar_def)
  have nz: "(0 :: byte) \<noteq> of_nat n" if "0 < n" "n < 256" for n
    using of_nat_byte_eq_0 [of n] that by auto
  have lead: "(0 :: byte) \<noteq> of_nat (0xF0 + c div 0x40000)"
    using c by (intro nz) auto
  have mid: "(0 :: byte) \<noteq> of_nat (0x80 + k mod 0x40)" for k
    by (intro nz) (auto intro: less_trans [of _ "0x80 + 0x40"])
  have three: "(0 :: byte) \<noteq> of_nat (0xE0 + c div 0x1000)" if "c < 0x10000"
    using that by (intro nz) auto
  have two: "(0 :: byte) \<noteq> of_nat (0xC0 + c div 0x40)" if "c < 0x800"
    using that by (intro nz) auto
  have one: "(0 :: byte) \<noteq> of_nat c" if "c < 0x80"
    using that assms(2) by (intro nz) auto
  show ?thesis
    unfolding utf8_char_def using lead mid three two one by (simp del: of_nat_add)
qed

lemma utf8_no_nul: "valid_str s \<Longrightarrow> 0 \<notin> set s \<Longrightarrow> 0 \<notin> set (utf8 s)"
proof (induction s)
  case (Cons c s)
  then have "0 \<notin> set (utf8_char c)" using utf8_char_no_nul by auto
  with Cons show ?case by (simp add: utf8_def)
qed simp

lemma utf8_char_nonempty: "utf8_char c \<noteq> []"
  by (simp add: utf8_char_def)

lemma utf8_eq_Nil [simp]: "utf8 s = [] \<longleftrightarrow> s = []"
  by (cases s) (simp_all add: utf8_def utf8_char_nonempty)

section \<open>Trimming and splitting\<close>

lemma trim_end_Nil [simp]: "trim_end [] = []"
  by (simp add: trim_end_def)

lemma trim_end_snoc: "trim_end (s @ [c]) = (if is_whitespace c then trim_end s else s @ [c])"
  by (simp add: trim_end_def)

lemma trim_end_idem [simp]: "trim_end (trim_end s) = trim_end s"
  by (induction s rule: rev_induct) (simp_all add: trim_end_snoc)

lemma set_trim_end: "set (trim_end s) \<subseteq> set s"
  unfolding trim_end_def by (auto dest: set_dropWhileD)

lemma set_trim: "set (trim s) \<subseteq> set s"
  unfolding trim_def using set_trim_end by (fastforce dest: set_dropWhileD)

lemma trim_end_hd:
  "s = [] \<or> \<not> is_whitespace (hd s) \<Longrightarrow> trim_end s = [] \<or> \<not> is_whitespace (hd (trim_end s))"
proof (induction s rule: rev_induct)
  case (snoc c s)
  then show ?case
    by (cases s) (auto simp: trim_end_snoc trim_end_snoc [of "_ # _", simplified] trim_end_snoc [of "[]", simplified])
qed (simp add: trim_end_def)

lemma dropWhile_hd: "dropWhile P xs = [] \<or> \<not> P (hd (dropWhile P xs))"
  by (induction xs) auto

lemma dropWhile_id: "xs = [] \<or> \<not> P (hd xs) \<Longrightarrow> dropWhile P xs = xs"
  by (cases xs) auto

lemma trim_idem [simp]: "trim (trim s) = trim s"
proof -
  have "dropWhile is_whitespace (trim s) = trim s"
    unfolding trim_def by (intro dropWhile_id trim_end_hd dropWhile_hd)
  then show ?thesis by (simp add: trim_def)
qed

lemma valid_trim: "valid_str s \<Longrightarrow> valid_str (trim s)"
  using set_trim by (auto simp: list_all_iff)

lemma after_last_absent: "c \<notin> set s \<Longrightarrow> after_last c s = s"
proof -
  assume "c \<notin> set s"
  then have "takeWhile (\<lambda>d. d \<noteq> c) (rev s) = rev s"
    by (intro takeWhile_eq_self) auto
  then show ?thesis by (simp add: after_last_def)
qed

lemma after_last_set: "c \<notin> set (after_last c s)"
  by (auto simp: after_last_def dest: set_takeWhileD)

lemma set_after_last: "set (after_last c s) \<subseteq> set s"
  by (auto simp: after_last_def dest: set_takeWhileD)

definition is_ascii_whitespace :: "nat \<Rightarrow> bool" where
  "is_ascii_whitespace c \<longleftrightarrow> c = 32 \<or> c = 9 \<or> c = 10 \<or> c = 12 \<or> c = 13"

text \<open>\<^verbatim>\<open>split_ascii_whitespace\<close>: the maximal runs of other characters.\<close>

function split_ascii_whitespace :: "rstr \<Rightarrow> rstr list" where
  "split_ascii_whitespace s =
     (let t = dropWhile is_ascii_whitespace s
      in if t = [] then []
         else takeWhile (\<lambda>c. \<not> is_ascii_whitespace c) t #
              split_ascii_whitespace (dropWhile (\<lambda>c. \<not> is_ascii_whitespace c) t))"
  by pat_completeness auto
termination
proof (relation "measure length")
  fix s t assume t: "t = dropWhile is_ascii_whitespace s" and "t \<noteq> []"
  then have "\<not> is_ascii_whitespace (hd t)" using dropWhile_hd by blast
  then have "length (dropWhile (\<lambda>c. \<not> is_ascii_whitespace c) t) < length t"
    using \<open>t \<noteq> []\<close> by (cases t) (auto simp: le_imp_less_Suc dropWhile_length_le)
  moreover have "length t \<le> length s" by (simp add: t dropWhile_length_le)
  ultimately show "(dropWhile (\<lambda>c. \<not> is_ascii_whitespace c) t, s) \<in> measure length"
    by simp
qed simp

declare split_ascii_whitespace.simps [simp del]

definition word_chars :: "rstr \<Rightarrow> bool" where
  "word_chars s \<longleftrightarrow> s \<noteq> [] \<and> (\<forall>c \<in> set s. \<not> is_ascii_whitespace c)"

lemma split_ascii_single: "word_chars w \<Longrightarrow> split_ascii_whitespace w = [w]"
proof -
  assume w: "word_chars w"
  then have d: "dropWhile is_ascii_whitespace w = w"
    by (intro dropWhile_id) (auto simp: word_chars_def)
  have e: "dropWhile (\<lambda>c. \<not> is_ascii_whitespace c) w = []"
    using w by (auto simp: word_chars_def dropWhile_eq_Nil_conv)
  have "takeWhile (\<lambda>c. \<not> is_ascii_whitespace c) w = w"
    using w by (auto simp: word_chars_def)
  moreover have "split_ascii_whitespace [] = []"
    by (simp add: split_ascii_whitespace.simps [of "[]"])
  ultimately show ?thesis
    using w by (simp add: split_ascii_whitespace.simps [of w] d e word_chars_def del: dropWhile_eq_Nil_conv)
qed

lemma split_ascii_Cons:
  assumes "word_chars w"
  shows "split_ascii_whitespace (w @ 32 # s) = w # split_ascii_whitespace s"
proof -
  have ws: "is_ascii_whitespace 32" by (simp add: is_ascii_whitespace_def)
  have d: "dropWhile is_ascii_whitespace (w @ 32 # s) = w @ 32 # s"
    using assms by (intro dropWhile_id) (cases w; auto simp: word_chars_def)
  have t: "takeWhile (\<lambda>c. \<not> is_ascii_whitespace c) (w @ 32 # s) = w"
    using assms ws by (auto simp: word_chars_def)
  have r: "dropWhile (\<lambda>c. \<not> is_ascii_whitespace c) (w @ 32 # s) = 32 # s"
    using assms ws by (auto simp: word_chars_def)
  have "split_ascii_whitespace (w @ 32 # s) = w # split_ascii_whitespace (32 # s)"
    using assms by (subst split_ascii_whitespace.simps) (simp add: d t r word_chars_def)
  also have "split_ascii_whitespace (32 # s) = split_ascii_whitespace s"
    by (simp add: split_ascii_whitespace.simps [of "32 # s"] split_ascii_whitespace.simps [of s] ws)
  finally show ?thesis .
qed

section \<open>Numbers\<close>

function show_radix :: "nat \<Rightarrow> nat \<Rightarrow> rstr" where
  "show_radix r n =
     (if r < 2 \<or> n < r then [48 + n] else show_radix r (n div r) @ [48 + n mod r])"
  by pat_completeness auto
termination
  by (relation "measure snd") (auto intro: div_less_dividend)

declare show_radix.simps [simp del]

definition digit_value :: "nat \<Rightarrow> uchar \<Rightarrow> nat option" where
  "digit_value r c = (if 48 \<le> c \<and> c < 48 + r then Some (c - 48) else None)"

fun parse_digits :: "nat \<Rightarrow> nat \<Rightarrow> rstr \<Rightarrow> nat option" where
  "parse_digits r acc [] = Some acc"
| "parse_digits r acc (c # cs) =
     (case digit_value r c of
        None \<Rightarrow> None
      | Some d \<Rightarrow>
          let v = acc * r + d in if U64_MAX < v then None else parse_digits r v cs)"

definition parse_u64 :: "nat \<Rightarrow> rstr \<Rightarrow> nat option" where
  "parse_u64 r s =
     (case s of
        [] \<Rightarrow> None
      | c # cs \<Rightarrow>
          if c = 43 then (if cs = [] then None else parse_digits r 0 cs)
          else parse_digits r 0 s)"

lemma parse_digits_snoc:
  "parse_digits r acc s = Some v \<Longrightarrow> parse_digits r acc (s @ [c]) = parse_digits r v [c]"
  by (induction s arbitrary: acc) (auto simp: Let_def split: option.splits if_splits)

lemma parse_digits_show:
  assumes "2 \<le> r" and "r \<le> 10"
  shows "n \<le> U64_MAX \<Longrightarrow> parse_digits r 0 (show_radix r n) = Some n"
proof (induction n rule: less_induct)
  case (less n)
  show ?case
  proof (cases "n < r")
    case True
    then show ?thesis using less.prems by (simp add: show_radix.simps [of r n] digit_value_def)
  next
    case False
    then have "n div r < n" using assms by (intro div_less_dividend) auto
    moreover have "n div r \<le> U64_MAX" using less.prems by (meson div_le_dividend le_trans)
    ultimately have "parse_digits r 0 (show_radix r (n div r)) = Some (n div r)"
      by (rule less.IH)
    then have "parse_digits r 0 (show_radix r n) = parse_digits r (n div r) [48 + n mod r]"
      using False assms by (subst show_radix.simps) (simp add: parse_digits_snoc)
    also have "\<dots> = Some n"
      using less.prems assms by (simp add: digit_value_def)
    finally show ?thesis .
  qed
qed

lemma show_radix_digits:
  assumes "2 \<le> r"
  shows "\<forall>c \<in> set (show_radix r n). 48 \<le> c \<and> c < 48 + r"
proof (induction n rule: less_induct)
  case (less n)
  show ?case
  proof (cases "n < r")
    case False
    then have "n div r < n" using assms by (intro div_less_dividend) auto
    from less.IH [OF this] False assms show ?thesis
      by (subst show_radix.simps) auto
  qed (simp add: show_radix.simps [of r n])
qed

lemma show_radix_nonempty [simp]: "show_radix r n \<noteq> []"
  by (subst show_radix.simps) simp

lemma parse_u64_show:
  assumes "2 \<le> r" and "r \<le> 10" and "n \<le> U64_MAX"
  shows "parse_u64 r (show_radix r n) = Some n"
proof -
  obtain c cs where s: "show_radix r n = c # cs"
    by (cases "show_radix r n") auto
  then have "c \<noteq> 43" using show_radix_digits [OF assms(1), of n] by auto
  with s show ?thesis
    using parse_digits_show [OF assms] by (simp add: parse_u64_def)
qed

lemma show_radix_word:
  assumes "2 \<le> r" and "r \<le> 10"
  shows "word_chars (show_radix r n)" and "\<forall>c \<in> set (show_radix r n). c < 0x80"
    and "0 \<notin> set (show_radix r n)"
  using show_radix_digits [OF assms(1), of n] assms(2)
  by (auto simp: word_chars_def is_ascii_whitespace_def)

lemma length_show_radix: "2 \<le> r \<Longrightarrow> n < r ^ k \<Longrightarrow> 0 < k \<Longrightarrow> length (show_radix r n) \<le> k"
proof (induction k arbitrary: n)
  case (Suc k)
  show ?case
  proof (cases "n < r")
    case False
    with Suc.prems have "k \<noteq> 0" by (cases k) auto
    moreover have "n div r < r ^ k"
      using Suc.prems by (simp add: less_mult_imp_div_less mult.commute)
    ultimately have "length (show_radix r (n div r)) \<le> k" using Suc by simp
    then show ?thesis using False Suc.prems by (subst show_radix.simps) simp
  qed (simp add: show_radix.simps [of r n])
qed simp

section \<open>Pieces\<close>

text \<open>\<^verbatim>\<open>split\<close> with a predicate, and the decomposition around the last occurrence of a character.\<close>

fun split_on :: "(uchar \<Rightarrow> bool) \<Rightarrow> rstr \<Rightarrow> rstr list" where
  "split_on P [] = [[]]"
| "split_on P (c # s) =
     (if P c then [] # split_on P s
      else (case split_on P s of [] \<Rightarrow> [[c]] | t # ts \<Rightarrow> (c # t) # ts))"

lemma split_on_nonempty [simp]: "split_on P s \<noteq> []"
  by (cases s) (auto split: list.split)

lemma split_on_append:
  assumes "P c"
  shows "split_on P (s @ c # t) = split_on P s @ split_on P t"
  using assms by (induction s) (auto split: list.split)

lemma split_on_pieces: "\<forall>t \<in> set (split_on P s). \<forall>c \<in> set t. \<not> P c"
  by (induction s) (auto split: list.splits)

lemma split_on_absent: "\<forall>c \<in> set s. \<not> P c \<Longrightarrow> split_on P s = [s]"
  by (induction s) auto

lemma after_last_app: "c \<notin> set t \<Longrightarrow> after_last c (s @ c # t) = t"
  unfolding after_last_def rev_append rev.simps append.assoc append_Cons append_Nil
  by (subst takeWhile_stop) auto

section \<open>Lengths in bytes\<close>

lemma str_len_Nil [simp]: "str_len [] = 0"
  by (simp add: str_len_def)

lemma str_len_Cons: "str_len (c # s) = length (utf8_char c) + str_len s"
  by (simp add: str_len_def utf8_def)

lemma str_len_append [simp]: "str_len (s @ t) = str_len s + str_len t"
  by (simp add: str_len_def utf8_append)

lemma str_len_ascii: "\<forall>c \<in> set s. c < 0x80 \<Longrightarrow> str_len s = length s"
  by (simp add: str_len_def utf8_ascii)

lemma length_utf8_char: "0 < length (utf8_char c)" "length (utf8_char c) \<le> 4"
  by (simp_all add: utf8_char_def)

lemma show_radix_inj:
  assumes "n \<le> U64_MAX" and "m \<le> U64_MAX" and "show_radix 10 n = show_radix 10 m"
  shows "n = m"
proof -
  have "parse_u64 10 (show_radix 10 n) = Some n" and "parse_u64 10 (show_radix 10 m) = Some m"
    using assms(1,2) by (intro parse_u64_show; simp)+
  then show ?thesis unfolding assms(3) by (metis option.inject)
qed

end
