(* ===== verification/File_Name.thy ===== *)
theory File_Name
  imports Rust_Strings
begin

text \<open>
  The file-name pipeline that \<^verbatim>\<open>sanitize_ymodem_filename\<close> and \<^verbatim>\<open>sanitize_zmodem_filename\<close> of
  \<^verbatim>\<open>crates/netcatty-serial\<close> share (the two functions differ in the fallback name and in the error
  type only): keep what follows the last slash or backslash, replace control and reserved
  characters, trim, and fall back to a fixed name.  \<open>safe_file_name\<close> is the promise of both.
\<close>

definition reserved_char :: "uchar \<Rightarrow> bool" where
  "reserved_char c \<longleftrightarrow> c \<in> set (map of_char [CHR ''<'', CHR ''>'', CHR '':'', CHR 0x22, CHR ''/'', CHR 0x5C, CHR ''|'', CHR ''?'', CHR ''*''])"

definition clean_char :: "uchar \<Rightarrow> uchar" where
  "clean_char c = (if is_control c \<or> reserved_char c then 95 else c)"

definition base_name :: "rstr \<Rightarrow> rstr" where
  "base_name s = after_last 47 (map (\<lambda>c. if c = 92 then 47 else c) s)"

definition clean_name :: "rstr \<Rightarrow> rstr \<Rightarrow> rstr" where
  "clean_name fallback s =
     (let t = trim (map clean_char (base_name s))
      in if t = [] \<or> t = lit ''.'' \<or> t = lit ''..'' then fallback else t)"

definition safe_file_name :: "rstr \<Rightarrow> bool" where
  "safe_file_name s \<longleftrightarrow>
     s \<noteq> [] \<and> s \<noteq> lit ''.'' \<and> s \<noteq> lit ''..'' \<and>
     (\<forall>c \<in> set s. \<not> is_control c \<and> \<not> reserved_char c) \<and> trim s = s"

lemma reserved_char_simps: "reserved_char c \<longleftrightarrow>
    c = 60 \<or> c = 62 \<or> c = 58 \<or> c = 34 \<or> c = 47 \<or> c = 92 \<or> c = 124 \<or> c = 63 \<or> c = 42"
  by (simp add: reserved_char_def of_char_def)

lemma clean_char_ok: "\<not> is_control (clean_char c) \<and> \<not> reserved_char (clean_char c)"
  by (simp add: clean_char_def is_control_def reserved_char_simps)

lemma clean_name_safe: "safe_file_name fallback \<Longrightarrow> safe_file_name (clean_name fallback s)"
proof -
  assume f: "safe_file_name fallback"
  let ?t = "trim (map clean_char (base_name s))"
  have "set ?t \<subseteq> clean_char ` set (base_name s)"
    using set_trim [of "map clean_char (base_name s)"] by simp
  then have "\<forall>c \<in> set ?t. \<not> is_control c \<and> \<not> reserved_char c"
    using clean_char_ok by blast
  then show ?thesis
    using f by (simp add: clean_name_def safe_file_name_def Let_def)
qed

lemma clean_name_id: "safe_file_name s \<Longrightarrow> clean_name fallback s = s"
proof -
  assume s: "safe_file_name s"
  then have ok: "\<forall>c \<in> set s. \<not> is_control c \<and> \<not> reserved_char c"
    by (simp add: safe_file_name_def)
  then have "map (\<lambda>c. if c = 92 then 47 else c) s = s"
    by (intro map_idI) (auto simp: reserved_char_simps)
  moreover have "47 \<notin> set s"
    using ok by (auto simp: reserved_char_simps)
  ultimately have "base_name s = s"
    by (simp add: base_name_def after_last_absent)
  moreover have "map clean_char s = s"
    using ok by (intro map_idI) (simp add: clean_char_def)
  ultimately show ?thesis
    using s by (simp add: clean_name_def safe_file_name_def)
qed

lemma clean_name_valid:
  assumes "valid_str s" and "valid_str fallback"
  shows "valid_str (clean_name fallback s)"
proof -
  have "valid_str (map (\<lambda>c. if c = 92 then 47 else c) s)"
    using assms(1) by (auto simp: list_all_iff scalar_def)
  then have "valid_str (base_name s)"
    unfolding base_name_def list_all_iff using set_after_last by blast
  then have "valid_str (map clean_char (base_name s))"
    by (auto simp: list_all_iff scalar_def clean_char_def)
  then have "valid_str (trim (map clean_char (base_name s)))"
    by (rule valid_trim)
  then show ?thesis
    using assms(2) by (simp add: clean_name_def Let_def)
qed

lemma safe_no_nul: "safe_file_name s \<Longrightarrow> 0 \<notin> set s"
  by (auto simp: safe_file_name_def is_control_def)

lemma safe_nonempty: "safe_file_name s \<Longrightarrow> s \<noteq> []"
  by (simp add: safe_file_name_def)

end
