(* ===== verification/Checksum.thy ===== *)
theory Checksum
  imports Prelude
begin

text \<open>
  The checksums of the two serial file-transfer protocols: \<^verbatim>\<open>crc16_xmodem\<close> of
  \<^verbatim>\<open>crates/netcatty-serial/src/ymodem.rs\<close>, computed a byte at a time, and \<^verbatim>\<open>crc16_zmodem\<close> and
  \<^verbatim>\<open>crc32_zmodem\<close> of \<^verbatim>\<open>zmodem.rs\<close>, computed a bit at a time.  The interface
  \<open>checksum_register\<close> says what the protocols rely on: a register that is injective in its
  state and in the byte fed to it detects every substitution of a single byte.
\<close>

section \<open>The interface\<close>

locale checksum_register =
  fixes step :: "'w \<Rightarrow> byte \<Rightarrow> 'w"
  assumes step_register_inj: "step c b = step d b \<Longrightarrow> c = d"
    and step_byte_inj: "step c a = step c b \<Longrightarrow> a = b"
begin

lemma fold_register_inj: "foldl step c bs = foldl step d bs \<Longrightarrow> c = d"
  by (induction bs arbitrary: c d) (auto dest: step_register_inj)

lemma substitution_detected:
  assumes "a \<noteq> b"
  shows "foldl step c (xs @ a # ys) \<noteq> foldl step c (xs @ b # ys)"
  using assms by (auto dest: fold_register_inj step_byte_inj)

end

section \<open>The registers of the code\<close>

definition crc16_xmodem_step :: "u16 \<Rightarrow> byte \<Rightarrow> u16" where
  "crc16_xmodem_step crc b =
     (let code = ucast (drop_bit 8 crc) XOR b;
          code = code XOR drop_bit 4 code
      in push_bit 8 crc XOR push_bit 12 (ucast code) XOR push_bit 5 (ucast code) XOR ucast code)"

definition crc16_xmodem :: "bytes \<Rightarrow> u16" where
  "crc16_xmodem bs = foldl crc16_xmodem_step 0 bs"

definition crc16_bit :: "u16 \<Rightarrow> u16" where
  "crc16_bit crc = (if crc AND 0x8000 \<noteq> 0 then push_bit 1 crc XOR 0x1021 else push_bit 1 crc)"

definition crc16_zmodem_step :: "u16 \<Rightarrow> byte \<Rightarrow> u16" where
  "crc16_zmodem_step crc b = (crc16_bit ^^ 8) (crc XOR push_bit 8 (ucast b))"

definition crc16_zmodem :: "bytes \<Rightarrow> u16" where
  "crc16_zmodem bs = foldl crc16_zmodem_step 0 bs"

definition crc32_bit :: "u32 \<Rightarrow> u32" where
  "crc32_bit crc = (let mask = 0 - (crc AND 1) in drop_bit 1 crc XOR (0xedb88320 AND mask))"

definition crc32_zmodem_step :: "u32 \<Rightarrow> byte \<Rightarrow> u32" where
  "crc32_zmodem_step crc b = (crc32_bit ^^ 8) (crc XOR ucast b)"

definition crc32_zmodem :: "bytes \<Rightarrow> u32" where
  "crc32_zmodem bs = NOT (foldl crc32_zmodem_step 0xffffffff bs)"

section \<open>Bits of a register\<close>

lemma top_bit: "(crc AND 0x8000 \<noteq> 0) = bit crc 15" for crc :: u16
proof -
  have "(crc AND 0x8000 \<noteq> 0) = (crc AND push_bit 15 1 \<noteq> 0)" by simp
  also have "\<dots> = bit crc 15"
    by (simp only: and_exp_eq_0_iff_not_bit push_bit_of_1) simp
  finally show ?thesis .
qed

lemma less_16E:
  assumes "n < 16"
  obtains "n = 0" | "n = 1" | "n = 2" | "n = 3" | "n = 4" | "n = 5" | "n = 6" | "n = 7"
    | "n = 8" | "n = 9" | "n = 10" | "n = 11" | "n = 12" | "n = 13" | "n = 14" | "n = (15::nat)"
  using assms by (fastforce simp: eval_nat_numeral less_Suc_eq)

lemma bit_poly16: "bit (0x1021 :: u16) n \<longleftrightarrow> n = 0 \<or> n = 5 \<or> n = 12"
proof (cases "n < 16")
  case True
  then show ?thesis by (cases rule: less_16E) simp_all
next
  case False
  then show ?thesis using bit_imp_le_length [of "0x1021 :: u16" n] by auto
qed

lemma bit_crc16_bit:
  "bit (crc16_bit x) n \<longleftrightarrow> n < 16 \<and> ((n \<noteq> 0 \<and> bit x (n - 1)) \<noteq> (bit x 15 \<and> (n = 0 \<or> n = 5 \<or> n = 12)))"
proof -
  have c: "crc16_bit x = (if bit x 15 then push_bit 1 x XOR 0x1021 else push_bit 1 x)"
    by (simp only: crc16_bit_def top_bit)
  have d: "bit (push_bit 1 x) n \<longleftrightarrow> n < 16 \<and> n \<noteq> 0 \<and> bit x (n - 1)"
    unfolding bit_push_bit_iff by auto
  show ?thesis
    unfolding c if_distrib [of "\<lambda>w. bit w n"] bit_xor_iff bit_poly16 d by auto
qed

lemma funpow_8: "(f ^^ 8) x = f (f (f (f (f (f (f (f x)))))))"
  by (simp add: eval_nat_numeral)

lemma crc16_bit_inj: "crc16_bit x = crc16_bit y \<Longrightarrow> x = y"
proof (rule bit_word_eqI)
  fix n assume eq: "crc16_bit x = crc16_bit y" and "n < LENGTH(16)"
  have b: "bit (crc16_bit x) k = bit (crc16_bit y) k" for k by (simp add: eq)
  have top: "bit x 15 = bit y 15" using b [of 0] by (simp add: bit_crc16_bit)
  show "bit x n = bit y n"
  proof (cases "n = 15")
    case False
    with \<open>n < LENGTH(16)\<close> have "Suc n < 16" by simp
    then show ?thesis using b [of "Suc n"] top by (auto simp: bit_crc16_bit)
  qed (simp add: top)
qed

lemma inj_crc16_bit: "inj crc16_bit"
  by (rule injI) (rule crc16_bit_inj)

lemma xor_cancel: "a XOR c = b XOR c \<longleftrightarrow> a = (b :: 'a::len word)"
  by (metis xor.assoc xor_self_eq xor.right_neutral)

lemma xor_cancel_left: "c XOR a = c XOR b \<longleftrightarrow> a = (b :: 'a::len word)"
  by (metis xor.assoc xor_self_eq xor.left_neutral)

lemma crc32_bit_top: "crc32_bit x = (if bit x 0 then drop_bit 1 x XOR 0xedb88320 else drop_bit 1 x)"
proof -
  have "x AND 1 = (if bit x 0 then 1 else 0)"
    by (simp add: and_one_eq bit_0 odd_iff_mod_2_eq_one)
  then show ?thesis by (simp add: crc32_bit_def Let_def)
qed

lemma crc32_bit_inj: 
  assumes eq: "crc32_bit x = crc32_bit y" shows "x = y"
proof -
  have t: "bit (crc32_bit z) 31 = bit z 0" for z
    by (auto simp: crc32_bit_top bit_xor_iff bit_drop_bit_eq dest: bit_imp_le_length)
  have low: "bit x 0 = bit y 0"
    using t [of x] t [of y] eq by simp
  then have d: "drop_bit 1 x = drop_bit 1 y"
    using eq by (simp add: crc32_bit_top xor_cancel split: if_splits)
  show ?thesis
  proof (rule bit_word_eqI)
    fix n
    show "bit x n = bit y n"
    proof (cases n)
      case (Suc m)
      have "bit (drop_bit 1 x) m = bit (drop_bit 1 y) m" by (simp only: d)
      then show ?thesis by (simp add: Suc bit_drop_bit_eq)
    qed (simp add: low)
  qed
qed

lemma inj_crc32_bit: "inj crc32_bit"
  by (rule injI) (rule crc32_bit_inj)

lemma ucast_byte_inj32: "(ucast a :: u32) = ucast b \<Longrightarrow> a = (b :: byte)"
proof (rule bit_word_eqI)
  fix n assume eq: "(ucast a :: u32) = ucast b" and n: "n < LENGTH(8)"
  have "bit (ucast a :: u32) n = bit (ucast b :: u32) n" by (simp only: eq)
  then show "bit a n = bit b n" using n by (simp add: bit_unsigned_iff)
qed

lemma ucast_byte_inj: "(ucast a :: u16) = ucast b \<Longrightarrow> a = (b :: byte)"
proof (rule bit_word_eqI)
  fix n assume eq: "(ucast a :: u16) = ucast b" and n: "n < LENGTH(8)"
  have "bit (ucast a :: u16) n = bit (ucast b :: u16) n" by (simp only: eq)
  then show "bit a n = bit b n" using n by (simp add: bit_unsigned_iff)
qed
lemma push_byte_inj: "push_bit 8 (ucast a :: u16) = push_bit 8 (ucast b) \<Longrightarrow> a = (b :: byte)"
proof (rule bit_word_eqI)
  fix n assume eq: "push_bit 8 (ucast a :: u16) = push_bit 8 (ucast b)" and n: "n < LENGTH(8)"
  have "bit (push_bit 8 (ucast a :: u16)) (n + 8) = bit (push_bit 8 (ucast b :: u16)) (n + 8)" by (simp only: eq)
  then show "bit a n = bit b n" using n by (simp add: bit_push_bit_iff bit_unsigned_iff)
qed

section \<open>The byte-wise register equals the bit-wise one\<close>

lemma crc16_steps_eq: "crc16_xmodem_step crc b = crc16_zmodem_step crc b"
proof (rule bit_word_eqI)
  fix n assume "n < LENGTH(16)"
  then have n: "n < 16" by simp
  have hi: "\<not> bit b k" if "8 \<le> k" for k
    using that bit_imp_le_length [of b k] by auto
  from n show "bit (crc16_xmodem_step crc b) n = bit (crc16_zmodem_step crc b) n"
    by (cases rule: less_16E)
      (simp_all add: crc16_xmodem_step_def crc16_zmodem_step_def funpow_8 bit_crc16_bit Let_def
        bit_xor_iff bit_push_bit_iff bit_drop_bit_eq bit_unsigned_iff hi, auto)
qed

interpretation crc16z: checksum_register crc16_zmodem_step
proof
  fix a b c d
  show "c = d" if eq: "crc16_zmodem_step c b = crc16_zmodem_step d b"
  proof -
    have "c XOR push_bit 8 (ucast b) = d XOR push_bit 8 (ucast b)"
      using eq unfolding crc16_zmodem_step_def by (rule injD [OF inj_fn [OF inj_crc16_bit]])
    then show ?thesis by (simp only: xor_cancel)
  qed
  show "a = b" if eq: "crc16_zmodem_step c a = crc16_zmodem_step c b"
  proof -
    have "c XOR push_bit 8 (ucast a) = c XOR push_bit 8 (ucast b)"
      using eq unfolding crc16_zmodem_step_def by (rule injD [OF inj_fn [OF inj_crc16_bit]])
    then show ?thesis unfolding xor_cancel_left by (rule push_byte_inj)
  qed
qed

interpretation crc16x: checksum_register crc16_xmodem_step
  by unfold_locales
    (simp_all only: crc16_steps_eq crc16z.step_register_inj crc16z.step_byte_inj)

interpretation crc32z: checksum_register crc32_zmodem_step
proof
  fix a b c d
  show "c = d" if eq: "crc32_zmodem_step c b = crc32_zmodem_step d b"
  proof -
    have "c XOR ucast b = d XOR ucast b"
      using eq unfolding crc32_zmodem_step_def by (rule injD [OF inj_fn [OF inj_crc32_bit]])
    then show ?thesis by (simp only: xor_cancel)
  qed
  show "a = b" if eq: "crc32_zmodem_step c a = crc32_zmodem_step c b"
  proof -
    have "c XOR ucast a = c XOR ucast b"
      using eq unfolding crc32_zmodem_step_def by (rule injD [OF inj_fn [OF inj_crc32_bit]])
    then show ?thesis unfolding xor_cancel_left by (rule ucast_byte_inj32)
  qed
qed

lemma crc16_xmodem_substitution:
  "a \<noteq> b \<Longrightarrow> crc16_xmodem (xs @ a # ys) \<noteq> crc16_xmodem (xs @ b # ys)"
  unfolding crc16_xmodem_def by (rule crc16x.substitution_detected)

section \<open>Properties\<close>

text \<open>The shift-and-xor formula YMODEM applies once per byte computes the same CRC-16 as the
  bit-by-bit division ZMODEM uses, on every input.\<close>

theorem crc16_xmodem_eq_zmodem: "crc16_xmodem bs = crc16_zmodem bs"
proof -
  have "crc16_xmodem_step = crc16_zmodem_step" by (intro ext) (rule crc16_steps_eq)
  then show ?thesis by (simp add: crc16_xmodem_def crc16_zmodem_def)
qed

text \<open>Replacing one byte anywhere in a message by another changes each of the three checksums,
  so no single-byte substitution passes unnoticed.\<close>

theorem checksums_detect_substitution:
  assumes "a \<noteq> b"
  shows "crc16_xmodem (xs @ a # ys) \<noteq> crc16_xmodem (xs @ b # ys) \<and>
    crc16_zmodem (xs @ a # ys) \<noteq> crc16_zmodem (xs @ b # ys) \<and>
    crc32_zmodem (xs @ a # ys) \<noteq> crc32_zmodem (xs @ b # ys)"
proof -
  have not_eq: "NOT v = NOT w \<Longrightarrow> v = w" for v w :: u32
    by (metis bit.double_compl)
  show ?thesis
    unfolding crc16_zmodem_def crc32_zmodem_def
    using assms crc16_xmodem_substitution crc16z.substitution_detected
      crc32z.substitution_detected not_eq by blast
qed

theorem checksums_detect_substitution_witness:
  "crc16_xmodem ([1] @ 2 # [3]) \<noteq> crc16_xmodem ([1] @ 7 # [3]) \<and>
   crc16_zmodem ([1] @ 2 # [3]) \<noteq> crc16_zmodem ([1] @ 7 # [3]) \<and>
   crc32_zmodem ([1] @ 2 # [3]) \<noteq> crc32_zmodem ([1] @ 7 # [3])"
  by (rule checksums_detect_substitution) simp

end
