(* ===== verification/Ymodem_Wire.thy ===== *)
theory Ymodem_Wire
  imports File_Name Checksum
begin

text \<open>
  The wire format of \<^verbatim>\<open>crates/netcatty-serial/src/ymodem.rs\<close>: configuration and errors, file
  metadata, the packet builders, the header parser and the incremental \<^verbatim>\<open>YmodemWireDecoder\<close>.
  File sizes, times and modes are natural numbers with the bounds of their Rust types stated
  where a result depends on them; block numbers and CRCs are words.
\<close>

section \<open>Constants, configuration, errors\<close>

definition YMODEM_SOH :: byte where [simp]: "YMODEM_SOH = 0x01"
definition YMODEM_STX :: byte where [simp]: "YMODEM_STX = 0x02"
definition YMODEM_EOT :: byte where [simp]: "YMODEM_EOT = 0x04"
definition YMODEM_ACK :: byte where [simp]: "YMODEM_ACK = 0x06"
definition YMODEM_BACKSPACE :: byte where [simp]: "YMODEM_BACKSPACE = 0x08"
definition YMODEM_NAK :: byte where [simp]: "YMODEM_NAK = 0x15"
definition YMODEM_CAN :: byte where [simp]: "YMODEM_CAN = 0x18"
definition YMODEM_CRC16 :: byte where [simp]: "YMODEM_CRC16 = 0x43"

definition YMODEM_PACKET_SIZE_128 :: nat where [simp]: "YMODEM_PACKET_SIZE_128 = 128"
definition YMODEM_PACKET_SIZE_1024 :: nat where [simp]: "YMODEM_PACKET_SIZE_1024 = 1024"
definition DEFAULT_YMODEM_TIMEOUT :: nat where "DEFAULT_YMODEM_TIMEOUT = 60"
definition DEFAULT_YMODEM_RETRY_LIMIT :: nat where "DEFAULT_YMODEM_RETRY_LIMIT = 10"
definition MAX_YMODEM_RETRY_LIMIT :: nat where "MAX_YMODEM_RETRY_LIMIT = 100"
definition MAX_YMODEM_INPUT_BYTES :: nat where "MAX_YMODEM_INPUT_BYTES = 64 * 1024"
definition MAX_YMODEM_FILENAME_BYTES :: nat where "MAX_YMODEM_FILENAME_BYTES = 255"
definition MAX_YMODEM_FILE_BYTES :: nat where "MAX_YMODEM_FILE_BYTES = 2 ^ 53 - 1"

definition YMODEM_CANCEL_SEQUENCE :: bytes where
  "YMODEM_CANCEL_SEQUENCE = replicate 5 YMODEM_CAN @ replicate 5 YMODEM_BACKSPACE"

datatype ymodem_packet_size = Bytes128 | Bytes1024

fun payload_bytes :: "ymodem_packet_size \<Rightarrow> nat" where
  "payload_bytes Bytes128 = YMODEM_PACKET_SIZE_128"
| "payload_bytes Bytes1024 = YMODEM_PACKET_SIZE_1024"

fun packet_header :: "ymodem_packet_size \<Rightarrow> byte" where
  "packet_header Bytes128 = YMODEM_SOH"
| "packet_header Bytes1024 = YMODEM_STX"

datatype ymodem_error =
    InvalidTimeout
  | InvalidRetryLimit nat
  | InputTooLarge nat
  | FilenameTooLong nat
  | MetadataTooLarge nat
  | FileTooLarge nat
  | InvalidFileSize
  | InvalidPacketPayload nat nat
  | InvalidSourceChunk nat nat
  | SourceLengthMismatch
  | IncompleteFile
  | UnexpectedByte byte
  | UnexpectedFrame
  | EndOfFileExpected
  | RetryLimit
  | TimedOut
  | Cancelled
  | RemoteCancelled
  | TransferBusy
  | InvalidState

record ymodem_config =
  yc_timeout :: nat
  yc_retry_limit :: nat

definition ymodem_config_new :: "nat \<Rightarrow> nat \<Rightarrow> ymodem_error + ymodem_config" where
  "ymodem_config_new timeout retry_limit =
     (if timeout = 0 then Inl InvalidTimeout
      else if retry_limit = 0 \<or> MAX_YMODEM_RETRY_LIMIT < retry_limit
      then Inl (InvalidRetryLimit MAX_YMODEM_RETRY_LIMIT)
      else Inr \<lparr>yc_timeout = timeout, yc_retry_limit = retry_limit\<rparr>)"

definition default_ymodem_config :: ymodem_config where
  "default_ymodem_config =
     \<lparr>yc_timeout = DEFAULT_YMODEM_TIMEOUT, yc_retry_limit = DEFAULT_YMODEM_RETRY_LIMIT\<rparr>"

section \<open>File metadata\<close>

record ymodem_file_metadata =
  ym_file_name :: rstr
  ym_total_bytes :: nat
  ym_modified_time :: nat
  ym_mode :: nat

definition sanitize_ymodem_filename :: "rstr \<Rightarrow> ymodem_error + rstr" where
  "sanitize_ymodem_filename value =
     (let sanitized = clean_name (lit ''ymodem-received.bin'') value
      in if MAX_YMODEM_FILENAME_BYTES < str_len sanitized
         then Inl (FilenameTooLong MAX_YMODEM_FILENAME_BYTES)
         else Inr sanitized)"

definition ymodem_metadata_new ::
    "rstr \<Rightarrow> nat \<Rightarrow> nat \<Rightarrow> nat \<Rightarrow> ymodem_error + ymodem_file_metadata" where
  "ymodem_metadata_new file_name total_bytes modified_time mode =
     (if MAX_YMODEM_FILE_BYTES < total_bytes then Inl (FileTooLarge MAX_YMODEM_FILE_BYTES)
      else case sanitize_ymodem_filename file_name of
             Inl e \<Rightarrow> Inl e
           | Inr name \<Rightarrow>
               Inr \<lparr>ym_file_name = name, ym_total_bytes = total_bytes,
                    ym_modified_time = modified_time, ym_mode = mode\<rparr>)"

section \<open>Packets\<close>

definition encode_ymodem_packet ::
    "ymodem_packet_size \<Rightarrow> byte \<Rightarrow> bytes \<Rightarrow> ymodem_error + bytes" where
  "encode_ymodem_packet psize block payload =
     (if length payload \<noteq> payload_bytes psize
      then Inl (InvalidPacketPayload (payload_bytes psize) (length payload))
      else Inr ([packet_header psize, block, 0xff - block] @ payload @
                u16_be (crc16_xmodem payload)))"

definition ymodem_header_text :: "ymodem_file_metadata \<Rightarrow> bytes" where
  "ymodem_header_text m =
     utf8 (ym_file_name m @ [0] @ show_radix 10 (ym_total_bytes m) @ [32] @
           show_radix 8 (ym_modified_time m) @ [32] @ show_radix 8 (ym_mode m))"

definition create_ymodem_file_header :: "ymodem_file_metadata \<Rightarrow> ymodem_error + bytes" where
  "create_ymodem_file_header m =
     (let bs = ymodem_header_text m
      in if YMODEM_PACKET_SIZE_1024 < length bs
         then Inl (MetadataTooLarge YMODEM_PACKET_SIZE_1024)
         else let psize = (if YMODEM_PACKET_SIZE_128 \<le> length bs then Bytes1024 else Bytes128)
              in encode_ymodem_packet psize 0
                   (bs @ replicate (payload_bytes psize - length bs) 0))"

definition create_ymodem_data_packet :: "byte \<Rightarrow> bytes \<Rightarrow> ymodem_error + bytes" where
  "create_ymodem_data_packet block data =
     (if YMODEM_PACKET_SIZE_1024 < length data
      then Inl (InvalidPacketPayload YMODEM_PACKET_SIZE_1024 (length data))
      else encode_ymodem_packet Bytes1024 block
             (data @ replicate (YMODEM_PACKET_SIZE_1024 - length data) 0x1a))"

text \<open>The \<^verbatim>\<open>expect\<close> of the source cannot fail: the payload has the length of its packet.\<close>

definition create_ymodem_end_session_packet :: bytes where
  "create_ymodem_end_session_packet =
     (case encode_ymodem_packet Bytes128 0 (replicate YMODEM_PACKET_SIZE_128 0) of
        Inr packet \<Rightarrow> packet
      | Inl _ \<Rightarrow> [])"

definition parse_ymodem_file_header :: "bytes \<Rightarrow> ymodem_error + ymodem_file_metadata option" where
  "parse_ymodem_file_header payload =
     (if length payload \<noteq> YMODEM_PACKET_SIZE_128 \<and> length payload \<noteq> YMODEM_PACKET_SIZE_1024
      then Inl (InvalidPacketPayload YMODEM_PACKET_SIZE_128 (length payload))
      else let raw_name = takeWhile (\<lambda>b. b \<noteq> 0) payload
      in if raw_name = [] then Inr None
      else case sanitize_ymodem_filename (from_utf8_lossy raw_name) of
        Inl e \<Rightarrow> Inl e
      | Inr name \<Rightarrow>
          let metadata = takeWhile (\<lambda>b. b \<noteq> 0) (tl (dropWhile (\<lambda>b. b \<noteq> 0) payload));
              size_text = takeWhile (\<lambda>b. \<not> is_ascii_whitespace (unat b)) metadata
          in if size_text = [] \<or> \<not> list_all (\<lambda>b. 48 \<le> unat b \<and> unat b \<le> 57) size_text
             then Inl InvalidFileSize
             else case from_utf8 size_text of
               None \<Rightarrow> Inl InvalidFileSize
             | Some text \<Rightarrow>
                 (case parse_u64 10 text of
                    None \<Rightarrow> Inl InvalidFileSize
                  | Some total_bytes \<Rightarrow>
                      if MAX_YMODEM_FILE_BYTES < total_bytes
                      then Inl (FileTooLarge MAX_YMODEM_FILE_BYTES)
                      else Inr (Some \<lparr>ym_file_name = name, ym_total_bytes = total_bytes,
                                      ym_modified_time = 0, ym_mode = 0\<rparr>)))"

section \<open>The wire decoder\<close>

datatype ymodem_wire_event =
    Control byte
  | Packet byte bytes bool
  | EndOfFile
  | RemoteCancel
  | Unexpected byte

record ymodem_wire_decoder =
  yd_packet :: bytes
  yd_expected :: nat
  yd_pending_cancel :: bool

definition default_decoder :: ymodem_wire_decoder where
  "default_decoder = \<lparr>yd_packet = [], yd_expected = 0, yd_pending_cancel = False\<rparr>"

definition decoder_reset :: "ymodem_wire_decoder \<Rightarrow> ymodem_wire_decoder" where
  "decoder_reset d = d\<lparr>yd_packet := [], yd_expected := 0, yd_pending_cancel := False\<rparr>"

definition has_partial_frame :: "ymodem_wire_decoder \<Rightarrow> bool" where
  "has_partial_frame d \<longleftrightarrow> yd_packet d \<noteq> [] \<or> yd_pending_cancel d"

definition begin_packet :: "ymodem_wire_decoder \<Rightarrow> byte \<Rightarrow> nat \<Rightarrow> ymodem_wire_decoder" where
  "begin_packet d header psize = d\<lparr>yd_packet := [header], yd_expected := 3 + psize + 2\<rparr>"

definition packet_event :: "bytes \<Rightarrow> ymodem_wire_event" where
  "packet_event packet =
     (let block_number = packet ! 1;
          complement = packet ! 2;
          payload_end = length packet - 2;
          payload = drop 3 (take payload_end packet);
          sent_crc = u16_of_be (packet ! payload_end) (packet ! (payload_end + 1));
          valid = (complement = 0xff - block_number \<and> sent_crc = crc16_xmodem payload)
      in Packet block_number payload valid)"

definition dispatch_byte ::
    "ymodem_wire_decoder \<Rightarrow> byte \<Rightarrow> ymodem_wire_decoder \<times> ymodem_wire_event option" where
  "dispatch_byte d byte =
     (if byte = YMODEM_CAN then (d\<lparr>yd_pending_cancel := True\<rparr>, None)
      else if byte = YMODEM_SOH then (begin_packet d byte YMODEM_PACKET_SIZE_128, None)
      else if byte = YMODEM_STX then (begin_packet d byte YMODEM_PACKET_SIZE_1024, None)
      else if byte = YMODEM_EOT then (d, Some EndOfFile)
      else if byte = YMODEM_ACK \<or> byte = YMODEM_NAK \<or> byte = YMODEM_CRC16
      then (d, Some (Control byte))
      else (d, Some (Unexpected byte)))"

definition push_byte ::
    "ymodem_wire_decoder \<Rightarrow> byte \<Rightarrow> ymodem_wire_decoder \<times> ymodem_wire_event option" where
  "push_byte d byte =
     (if yd_expected d \<noteq> 0 then
        let packet = yd_packet d @ [byte]
        in if length packet = yd_expected d
           then (d\<lparr>yd_packet := [], yd_expected := 0\<rparr>, Some (packet_event packet))
           else (d\<lparr>yd_packet := packet\<rparr>, None)
      else if yd_pending_cancel d then
        let d = d\<lparr>yd_pending_cancel := False\<rparr>
        in if byte = YMODEM_CAN then (d, Some RemoteCancel) else dispatch_byte d byte
      else dispatch_byte d byte)"

fun feed ::
    "ymodem_wire_decoder \<Rightarrow> bytes \<Rightarrow> ymodem_wire_decoder \<times> ymodem_wire_event list" where
  "feed d [] = (d, [])"
| "feed d (b # bs) =
     (case push_byte d b of
        (d', event) \<Rightarrow>
          (case feed d' bs of
             (d'', events) \<Rightarrow> (d'', (case event of None \<Rightarrow> [] | Some e \<Rightarrow> [e]) @ events)))"

definition ymodem_push :: "ymodem_wire_decoder \<Rightarrow> bytes \<Rightarrow>
    ymodem_wire_decoder \<times> (ymodem_error + ymodem_wire_event list)" where
  "ymodem_push d bs =
     (if MAX_YMODEM_INPUT_BYTES < length bs then (d, Inl (InputTooLarge MAX_YMODEM_INPUT_BYTES))
      else case feed d bs of (d', events) \<Rightarrow> (d', Inr events))"

section \<open>Progress reports\<close>

datatype ymodem_progress_stage = Header | Data | Complete

record ymodem_progress =
  yp_transferred_bytes :: nat
  yp_total_bytes :: nat
  yp_stage :: ymodem_progress_stage

section \<open>Facts about packets\<close>

definition ymodem_config_ok :: "ymodem_config \<Rightarrow> bool" where
  "ymodem_config_ok c \<longleftrightarrow>
     0 < yc_timeout c \<and> 0 < yc_retry_limit c \<and> yc_retry_limit c \<le> MAX_YMODEM_RETRY_LIMIT"

lemma default_config_ok [simp]: "ymodem_config_ok default_ymodem_config"
  by (simp add: ymodem_config_ok_def default_ymodem_config_def DEFAULT_YMODEM_TIMEOUT_def
      DEFAULT_YMODEM_RETRY_LIMIT_def MAX_YMODEM_RETRY_LIMIT_def)



lemma is_ymodem_fallback_safe: "safe_file_name (lit ''ymodem-received.bin'')"
  by (simp add: safe_file_name_def lit_def is_control_def reserved_char_simps trim_def trim_end_def
      is_whitespace_def)

lemma sanitize_ymodem_Inr:
  "sanitize_ymodem_filename s = Inr t \<longleftrightarrow>
     t = clean_name (lit ''ymodem-received.bin'') s \<and> str_len t \<le> MAX_YMODEM_FILENAME_BYTES"
  by (auto simp: sanitize_ymodem_filename_def Let_def)

lemma encode_ymodem_packet_length:
  "encode_ymodem_packet psize block payload = Inr wire \<Longrightarrow> length wire = payload_bytes psize + 5"
  by (auto simp: encode_ymodem_packet_def split: if_splits)

lemma data_packet_total:
  "length data \<le> 1024 \<Longrightarrow> \<exists>p. create_ymodem_data_packet block data = Inr p"
  by (simp add: create_ymodem_data_packet_def encode_ymodem_packet_def)

lemma packet_event_encoded:
  "packet_event ([h, n, c] @ payload @ [x, y]) =
     Packet n payload (c = 0xff - n \<and> u16_of_be x y = crc16_xmodem payload)"
  by (simp add: packet_event_def Let_def nth_append)

section \<open>Facts about the decoder\<close>

interpretation wire: fallible_stream
  "\<lambda>d b. (fst (push_byte d b), Inr (case snd (push_byte d b) of None \<Rightarrow> [] | Some e \<Rightarrow> [e]))"
  "\<lambda>d bs. (fst (feed d bs), Inr (snd (feed d bs)))" "[]" "(@)"
  by unfold_locales (simp_all add: case_prod_beta)

lemma feed_append:
  "feed d (xs @ ys) = (let (d', es) = feed d xs; (d'', fs) = feed d' ys in (d'', es @ fs))"
  using wire.run_append [of d xs ys] by (simp add: case_prod_beta Let_def prod_eq_iff)

lemma feed_partial:
  "yd_expected d \<noteq> 0 \<Longrightarrow> length (yd_packet d) + length bs < yd_expected d \<Longrightarrow>
   feed d bs = (d\<lparr>yd_packet := yd_packet d @ bs\<rparr>, [])"
  by (induction bs arbitrary: d) (simp_all add: push_byte_def)

lemma feed_frame:
  assumes "yd_expected d = 0" and "length body = payload_bytes psize + 4"
  shows "feed d (packet_header psize # body) =
    (default_decoder, [packet_event (packet_header psize # body)])"
proof -
  obtain init z where body: "body = init @ [z]" and len: "length init = payload_bytes psize + 3"
    using assms(2) by (cases body rule: rev_cases) auto
  let ?e = "\<lparr>yd_packet = [packet_header psize], yd_expected = payload_bytes psize + 5,
    yd_pending_cancel = False\<rparr>"
  have head: "push_byte d (packet_header psize) = (?e, None)"
    using assms(1)
    by (cases psize; cases d) (auto simp: push_byte_def dispatch_byte_def begin_packet_def Let_def)
  have mid: "feed ?e init = (?e\<lparr>yd_packet := packet_header psize # init\<rparr>, [])"
    using feed_partial [of ?e init] len by simp
  have last: "push_byte (?e\<lparr>yd_packet := packet_header psize # init\<rparr>) z =
      (default_decoder, Some (packet_event (packet_header psize # body)))"
    using len by (simp add: push_byte_def body default_decoder_def)
  have "feed ?e (init @ [z]) = (default_decoder, [packet_event (packet_header psize # body)])"
    by (simp add: feed_append mid last del: ymodem_wire_decoder.update_convs)
  then show ?thesis
    by (simp add: head body)
qed

definition decoder_inv :: "ymodem_wire_decoder \<Rightarrow> bool" where
  "decoder_inv d \<longleftrightarrow>
     (yd_expected d = 0 \<and> yd_packet d = [] \<or>
      (yd_expected d = 133 \<or> yd_expected d = 1029) \<and> yd_packet d \<noteq> [] \<and>
      length (yd_packet d) < yd_expected d \<and> \<not> yd_pending_cancel d)"

lemma decoder_inv_default [simp]: "decoder_inv default_decoder"
  by (simp add: decoder_inv_def default_decoder_def)

lemma decoder_inv_reset [simp]: "decoder_inv (decoder_reset d)"
  by (simp add: decoder_inv_def decoder_reset_def)

fun event_ok :: "ymodem_wire_event \<Rightarrow> bool" where
  "event_ok (Packet n payload valid) \<longleftrightarrow> length payload = 128 \<or> length payload = 1024"
| "event_ok _ \<longleftrightarrow> True"

lemma push_byte_event: "decoder_inv d \<Longrightarrow> snd (push_byte d b) = Some e \<Longrightarrow> event_ok e"
  by (auto simp: decoder_inv_def push_byte_def dispatch_byte_def packet_event_def Let_def
      split: if_splits)

lemma push_byte_inv: "decoder_inv d \<Longrightarrow> decoder_inv (fst (push_byte d b))"
  by (auto simp: decoder_inv_def push_byte_def dispatch_byte_def begin_packet_def Let_def)

lemma encoded_frame:
  assumes "encode_ymodem_packet psize block payload = Inr wire"
  obtains x y where "wire = packet_header psize # [block, 0xff - block] @ payload @ [x, y]"
    and "[x, y] = u16_be (crc16_xmodem payload)" and "length payload = payload_bytes psize"
  using assms by (auto simp: encode_ymodem_packet_def u16_be_def split: if_splits)

lemma push_frame:
  assumes "yd_expected d = 0" and "length payload = payload_bytes psize"
  shows "ymodem_push d (packet_header psize # [n, c] @ payload @ [x, y]) =
    (default_decoder,
     Inr [Packet n payload (c = 0xff - n \<and> [x, y] = u16_be (crc16_xmodem payload))])"
proof -
  have "feed d (packet_header psize # [n, c] @ payload @ [x, y]) =
      (default_decoder, [packet_event ([packet_header psize, n, c] @ payload @ [x, y])])"
    using feed_frame [of d "[n, c] @ payload @ [x, y]" psize] assms by simp
  moreover have "length payload \<le> 1024" using assms(2) by (cases psize) auto
  ultimately show ?thesis
    unfolding ymodem_push_def packet_event_encoded u16_of_be_iff
    by (simp add: MAX_YMODEM_INPUT_BYTES_def)
qed

lemma takeWhile_pad: "0 \<notin> set xs \<Longrightarrow> takeWhile (\<lambda>b. b \<noteq> 0) (xs @ replicate k 0) = xs"
  by (cases k) (auto intro: takeWhile_stop)

lemma utf8_show_radix:
  assumes "2 \<le> r" and "r \<le> 10"
  shows "utf8 (show_radix r n) = map of_nat (show_radix r n)"
    and "0 \<notin> set (utf8 (show_radix r n))"
proof -
  show e: "utf8 (show_radix r n) = map of_nat (show_radix r n)"
    using show_radix_word(2) [OF assms] by (rule utf8_ascii)
  show "0 \<notin> set (utf8 (show_radix r n))"
    using show_radix_word(2,3) [OF assms] by (intro utf8_no_nul ascii_valid) auto
qed

lemma digits_bytes:
  "\<forall>b \<in> set (utf8 (show_radix 10 n)). 48 \<le> unat b \<and> unat b \<le> 57 \<and> \<not> is_ascii_whitespace (unat b)"
proof -
  have "unat (of_nat c :: byte) = c" if "c \<in> set (show_radix 10 n)" for c
    using show_radix_word(2) [of 10 n] that by (intro unat_byte) auto
  then show ?thesis
    using show_radix_digits [of 10 n] by (auto simp: utf8_show_radix is_ascii_whitespace_def)
qed

lemma utf8_Cons_ascii: "c < 0x80 \<Longrightarrow> utf8 (c # s) = of_nat c # utf8 s"
  by (simp add: utf8_def utf8_char_def)

definition metadata_ok :: "ymodem_file_metadata \<Rightarrow> bool" where
  "metadata_ok m \<longleftrightarrow>
     safe_file_name (ym_file_name m) \<and> valid_str (ym_file_name m) \<and>
     str_len (ym_file_name m) \<le> MAX_YMODEM_FILENAME_BYTES \<and>
     ym_total_bytes m \<le> MAX_YMODEM_FILE_BYTES \<and>
     ym_modified_time m \<le> U64_MAX \<and> ym_mode m < 2 ^ 32"

lemma metadata_new_ok:
  assumes "ymodem_metadata_new name t n' md = Inr m"
    and "valid_str name" and "n' \<le> U64_MAX" and "md < 2 ^ 32"
  shows "metadata_ok m"
proof -
  obtain f where f: "sanitize_ymodem_filename name = Inr f" and t: "t \<le> MAX_YMODEM_FILE_BYTES"
    and m: "m = \<lparr>ym_file_name = f, ym_total_bytes = t, ym_modified_time = n', ym_mode = md\<rparr>"
    using assms(1) by (auto simp: ymodem_metadata_new_def split: if_splits sum.splits)
  have "valid_str (lit ''ymodem-received.bin'')"
    by (simp add: lit_def scalar_def)
  then have "valid_str f"
    using f clean_name_valid [OF assms(2)] by (simp only: sanitize_ymodem_Inr)
  moreover have "safe_file_name f"
    using f clean_name_safe [OF is_ymodem_fallback_safe] by (simp only: sanitize_ymodem_Inr)
  moreover have "str_len f \<le> MAX_YMODEM_FILENAME_BYTES"
    using f unfolding sanitize_ymodem_Inr by (rule conjunct2)
  ultimately show ?thesis
    using t assms(3,4) by (simp add: m metadata_ok_def)
qed

lemma sanitize_safe_id:
  "safe_file_name s \<Longrightarrow> str_len s \<le> MAX_YMODEM_FILENAME_BYTES \<Longrightarrow> sanitize_ymodem_filename s = Inr s"
  by (simp add: sanitize_ymodem_Inr clean_name_id)

lemma header_text_length:
  assumes "metadata_ok m" shows "length (ymodem_header_text m) \<le> 307"
proof -
  have len: "length (utf8 (show_radix r n)) = length (show_radix r n)" if "2 \<le> r" "r \<le> 10" for r n
    using utf8_show_radix(1) [OF that, of n] by simp
  have "length (show_radix 10 (ym_total_bytes m)) \<le> 16"
    using assms by (intro length_show_radix) (auto simp: metadata_ok_def MAX_YMODEM_FILE_BYTES_def)
  moreover have "length (show_radix 8 (ym_modified_time m)) \<le> 22"
    using assms by (intro length_show_radix) (auto simp: metadata_ok_def)
  moreover have "length (show_radix 8 (ym_mode m)) \<le> 11"
    using assms by (intro length_show_radix) (auto simp: metadata_ok_def)
  ultimately show ?thesis
    using assms
    by (simp add: ymodem_header_text_def utf8_append utf8_Cons_ascii len metadata_ok_def
        MAX_YMODEM_FILENAME_BYTES_def str_len_def)
qed

lemma parse_header_text:
  assumes "metadata_ok m"
    and "length (ymodem_header_text m @ replicate k 0) = 128 \<or>
      length (ymodem_header_text m @ replicate k 0) = 1024"
  shows "parse_ymodem_file_header (ymodem_header_text m @ replicate k 0) =
    Inr (Some (m\<lparr>ym_modified_time := 0, ym_mode := 0\<rparr>))"
proof -
  let ?name = "ym_file_name m" and ?n = "show_radix 10 (ym_total_bytes m)"
  let ?rest = "utf8 (show_radix 8 (ym_modified_time m)) @ 32 # utf8 (show_radix 8 (ym_mode m))"
  have ok: "safe_file_name ?name" "valid_str ?name" "str_len ?name \<le> MAX_YMODEM_FILENAME_BYTES"
    "ym_total_bytes m \<le> MAX_YMODEM_FILE_BYTES"
    using assms(1) by (simp_all add: metadata_ok_def)
  have hdr: "ymodem_header_text m @ replicate k 0 =
      utf8 ?name @ 0 # ((utf8 ?n @ 32 # ?rest) @ replicate k 0)"
    by (simp add: ymodem_header_text_def utf8_append utf8_Cons_ascii)
  have name: "\<forall>b \<in> set (utf8 ?name). b \<noteq> 0" and ne: "utf8 ?name \<noteq> []"
    using utf8_no_nul [OF ok(2) safe_no_nul [OF ok(1)]] safe_nonempty [OF ok(1)] by auto
  have meta: "takeWhile (\<lambda>b. b \<noteq> 0) ((utf8 ?n @ 32 # ?rest) @ replicate k 0) = utf8 ?n @ 32 # ?rest"
    by (rule takeWhile_pad) (simp add: utf8_show_radix(2))
  have num: "takeWhile (\<lambda>b. \<not> is_ascii_whitespace (unat b)) (utf8 ?n @ 32 # ?rest) = utf8 ?n"
    using digits_bytes [of "ym_total_bytes m"]
    by (intro takeWhile_stop) (auto simp: is_ascii_whitespace_def)
  have dig: "list_all (\<lambda>b. 48 \<le> unat b \<and> unat b \<le> 57) (utf8 ?n)"
    using digits_bytes [of "ym_total_bytes m"] by (simp add: list_all_iff)
  have valid: "valid_str ?n"
    using show_radix_word(2) [of 10 "ym_total_bytes m"] by (intro ascii_valid) auto
  have parse: "parse_u64 10 ?n = Some (ym_total_bytes m)"
    using ok(4) by (intro parse_u64_show) (auto simp: MAX_YMODEM_FILE_BYTES_def)
  have tw: "takeWhile (\<lambda>b. b \<noteq> 0) (utf8 ?name @ 0 # zs) = utf8 ?name"
    and dw: "tl (dropWhile (\<lambda>b. b \<noteq> 0) (utf8 ?name @ 0 # zs)) = zs" for zs
    using name by simp_all
  show ?thesis
    using assms(2) ok
    unfolding hdr parse_ymodem_file_header_def Let_def tw dw meta num
    by (simp add: ne dig valid parse sanitize_safe_id safe_nonempty)
qed

lemma push_packet:
  assumes "encode_ymodem_packet psize block payload = Inr wire" and "yd_expected d = 0"
  shows "ymodem_push d wire = (default_decoder, Inr [Packet block payload True])"
  using assms(1)
proof (rule encoded_frame)
  fix x y
  assume "wire = packet_header psize # [block, 0xff - block] @ payload @ [x, y]"
    and "[x, y] = u16_be (crc16_xmodem payload)" and "length payload = payload_bytes psize"
  then show ?thesis using push_frame [OF assms(2), of payload psize block "0xff - block" x y] by simp
qed

lemma header_packet:
  assumes ok: "metadata_ok m"
  shows "\<exists>psize payload wire. create_ymodem_file_header m = Inr wire \<and>
    encode_ymodem_packet psize 0 payload = Inr wire \<and>
    parse_ymodem_file_header payload = Inr (Some (m\<lparr>ym_modified_time := 0, ym_mode := 0\<rparr>))"
proof -
  let ?bs = "ymodem_header_text m"
  define psize where "psize = (if 128 \<le> length ?bs then Bytes1024 else Bytes128)"
  define k where "k = payload_bytes psize - length ?bs"
  have len: "length (?bs @ replicate k 0) = payload_bytes psize"
    using header_text_length [OF ok] by (simp add: psize_def k_def)
  have enc: "create_ymodem_file_header m = encode_ymodem_packet psize 0 (?bs @ replicate k 0)"
    using header_text_length [OF ok]
    by (simp add: create_ymodem_file_header_def Let_def psize_def k_def)
  moreover obtain wire where "encode_ymodem_packet psize 0 (?bs @ replicate k 0) = Inr wire"
    using len by (simp add: encode_ymodem_packet_def)
  moreover have "parse_ymodem_file_header (?bs @ replicate k 0) =
      Inr (Some (m\<lparr>ym_modified_time := 0, ym_mode := 0\<rparr>))"
    using ok len by (intro parse_header_text) (auto simp: psize_def)
  ultimately show ?thesis by metis
qed

lemma parsed_header_safe:
  assumes "parse_ymodem_file_header payload = Inr (Some m)"
  shows "safe_file_name (ym_file_name m) \<and> str_len (ym_file_name m) \<le> MAX_YMODEM_FILENAME_BYTES \<and>
    sanitize_ymodem_filename (ym_file_name m) = Inr (ym_file_name m) \<and>
    ym_total_bytes m \<le> MAX_YMODEM_FILE_BYTES"
proof -
  obtain s where s: "sanitize_ymodem_filename s = Inr (ym_file_name m)"
    and n: "ym_total_bytes m \<le> MAX_YMODEM_FILE_BYTES"
    using assms
    by (auto simp: parse_ymodem_file_header_def Let_def split: if_splits sum.splits option.splits)
  have safe: "safe_file_name (ym_file_name m)"
    using s clean_name_safe [OF is_ymodem_fallback_safe] by (simp add: sanitize_ymodem_Inr)
  moreover have "str_len (ym_file_name m) \<le> MAX_YMODEM_FILENAME_BYTES"
    using s unfolding sanitize_ymodem_Inr by (rule conjunct2)
  ultimately show ?thesis using n by (simp add: sanitize_safe_id)
qed

section \<open>Properties\<close>

text \<open>Packet round trip: whatever the packet builder emits, the decoder, from any state between
  frames, turns into exactly one valid packet event with the same block number and payload, and
  returns to its initial state.\<close>

theorem ymodem_packet_roundtrip:
  assumes "encode_ymodem_packet psize block payload = Inr wire" and "yd_expected d = 0"
  shows "ymodem_push d wire = (default_decoder, Inr [Packet block payload True])"
  using assms by (rule push_packet)

theorem ymodem_packet_roundtrip_witness:
  "ymodem_push default_decoder
     ([1, 7, 248] @ replicate 128 0 @ u16_be (crc16_xmodem (replicate 128 0))) =
   (default_decoder, Inr [Packet 7 (replicate 128 0) True])"
  by (rule ymodem_packet_roundtrip [of Bytes128])
    (simp_all add: encode_ymodem_packet_def default_decoder_def)

text \<open>Corruption of a packet is noticed: if one byte after the start byte is replaced by any
  other value, the decoder still finds the frame boundary but flags the packet as invalid.\<close>

theorem ymodem_corruption_detected:
  assumes "encode_ymodem_packet psize block payload = Inr wire" and "yd_expected d = 0"
    and "0 < i" and "i < length wire" and "b \<noteq> wire ! i"
  shows "\<exists>n p. ymodem_push d (wire[i := b]) = (default_decoder, Inr [Packet n p False])"
  using assms(1)
proof (rule encoded_frame)
  fix x y
  assume w: "wire = packet_header psize # [block, 0xff - block] @ payload @ [x, y]"
    and crc: "[x, y] = u16_be (crc16_xmodem payload)" and len: "length payload = payload_bytes psize"
  note push = push_frame [OF assms(2)]
  let ?k = "length payload"
  consider "i = 1" | "i = 2" | "3 \<le> i" "i < 3 + ?k" | "i = 3 + ?k" | "i = 4 + ?k"
    using assms(3,4) w by fastforce
  then show ?thesis
  proof cases
    case 1
    then have "wire[i := b] = packet_header psize # [b, 0xff - block] @ payload @ [x, y]"
      by (simp add: w)
    moreover have "0xff - block \<noteq> 0xff - b" using assms(5) 1 by (auto simp: w)
    ultimately show ?thesis using push [OF len] by auto
  next
    case 2
    then have "wire[i := b] = packet_header psize # [block, b] @ payload @ [x, y]"
      by (simp add: w numeral_2_eq_2)
    then show ?thesis using push [OF len] assms(5) 2 by (auto simp: w)
  next
    case 3
    define j where "j = i - 3"
    have i: "i = Suc (Suc (Suc j))" and j: "j < ?k" using 3 by (auto simp: j_def)
    have w': "wire[i := b] = packet_header psize # [block, 0xff - block] @ payload[j := b] @ [x, y]"
      using j by (simp add: w i list_update_append)
    have "b \<noteq> payload ! j" using assms(5) j by (simp add: w i nth_append)
    then have "crc16_xmodem (payload[j := b]) \<noteq> crc16_xmodem payload"
      using crc16_xmodem_substitution [of b "payload ! j" "take j payload" "drop (Suc j) payload"]
      by (simp add: j upd_conv_take_nth_drop id_take_nth_drop [symmetric])
    then have "[x, y] \<noteq> u16_be (crc16_xmodem (payload[j := b]))"
      by (simp add: crc u16_be_inj)
    then show ?thesis using push [of "payload[j := b]" psize] len by (auto simp: w')
  next
    case 4
    then have "wire[i := b] = packet_header psize # [block, 0xff - block] @ payload @ [b, y]"
      by (simp add: w list_update_append)
    moreover have "[b, y] \<noteq> [x, y]" using assms(5) 4 by (simp add: w nth_append)
    ultimately show ?thesis using push [OF len] by (auto simp: crc)
  next
    case 5
    then have "wire[i := b] = packet_header psize # [block, 0xff - block] @ payload @ [x, b]"
      by (simp add: w list_update_append)
    moreover have "[x, b] \<noteq> [x, y]" using assms(5) 5 by (simp add: w nth_append)
    ultimately show ?thesis using push [OF len] by (auto simp: crc)
  qed
qed

theorem ymodem_corruption_detected_witness:
  "\<exists>n p. ymodem_push default_decoder
     (([1, 7, 248] @ replicate 128 0 @ u16_be (crc16_xmodem (replicate 128 0)))[1 := 9]) =
   (default_decoder, Inr [Packet n p False])"
  by (rule ymodem_corruption_detected [of Bytes128 7 "replicate 128 0"])
    (simp_all add: encode_ymodem_packet_def default_decoder_def)

text \<open>File header round trip: for every metadata the constructor accepts, building the header
  packet succeeds, and decoding and parsing it gives back the file name and the size (time and
  mode are not read back).\<close>

theorem ymodem_header_roundtrip:
  assumes "ymodem_metadata_new name n t md = Inr m"
    and "valid_str name" and "t \<le> U64_MAX" and "md < 2 ^ 32"
  shows "\<exists>wire payload.
    create_ymodem_file_header m = Inr wire \<and>
    ymodem_push default_decoder wire = (default_decoder, Inr [Packet 0 payload True]) \<and>
    parse_ymodem_file_header payload = Inr (Some (m\<lparr>ym_modified_time := 0, ym_mode := 0\<rparr>))"
proof -
  obtain psize payload wire where w: "create_ymodem_file_header m = Inr wire"
    "encode_ymodem_packet psize 0 payload = Inr wire"
    and p: "parse_ymodem_file_header payload = Inr (Some (m\<lparr>ym_modified_time := 0, ym_mode := 0\<rparr>))"
    using header_packet [OF metadata_new_ok [OF assms]] by blast
  have "ymodem_push default_decoder wire = (default_decoder, Inr [Packet 0 payload True])"
    using w(2) by (rule push_packet) (simp add: default_decoder_def)
  with w p show ?thesis by blast
qed

theorem ymodem_header_roundtrip_witness:
  "\<exists>wire payload.
    create_ymodem_file_header
      \<lparr>ym_file_name = [97], ym_total_bytes = 5, ym_modified_time = 9, ym_mode = 420\<rparr> = Inr wire \<and>
    ymodem_push default_decoder wire = (default_decoder, Inr [Packet 0 payload True]) \<and>
    parse_ymodem_file_header payload =
      Inr (Some (\<lparr>ym_file_name = [97], ym_total_bytes = 5, ym_modified_time = 9, ym_mode = 420\<rparr>
        \<lparr>ym_modified_time := 0, ym_mode := 0\<rparr>))"
proof (rule ymodem_header_roundtrip [of "[97]" 5 9 420])
  have "safe_file_name [97]"
    by (simp add: safe_file_name_def lit_def is_control_def reserved_char_simps trim_def trim_end_def
        is_whitespace_def)
  then show "ymodem_metadata_new [97] 5 9 420 =
      Inr \<lparr>ym_file_name = [97], ym_total_bytes = 5, ym_modified_time = 9, ym_mode = 420\<rparr>"
    by (simp add: ymodem_metadata_new_def sanitize_safe_id str_len_def utf8_def utf8_char_def
        MAX_YMODEM_FILE_BYTES_def MAX_YMODEM_FILENAME_BYTES_def)
qed (simp_all add: scalar_def)

text \<open>A header parsed from arbitrary bytes of the peer yields a name that is safe to join to a
  directory (no separator, no control or reserved character, not empty, not a dot entry, trimmed,
  at most 255 bytes, and left alone by a second sanitising) and a size within the limit.\<close>

theorem ymodem_parsed_header_safe:
  assumes "parse_ymodem_file_header payload = Inr (Some m)"
  shows "safe_file_name (ym_file_name m) \<and> str_len (ym_file_name m) \<le> MAX_YMODEM_FILENAME_BYTES \<and>
    sanitize_ymodem_filename (ym_file_name m) = Inr (ym_file_name m) \<and>
    ym_total_bytes m \<le> MAX_YMODEM_FILE_BYTES"
  using assms by (rule parsed_header_safe)

theorem ymodem_parsed_header_safe_witness:
  "\<exists>payload m. parse_ymodem_file_header payload = Inr (Some m) \<and>
    safe_file_name (ym_file_name m) \<and> str_len (ym_file_name m) \<le> MAX_YMODEM_FILENAME_BYTES \<and>
    sanitize_ymodem_filename (ym_file_name m) = Inr (ym_file_name m) \<and>
    ym_total_bytes m \<le> MAX_YMODEM_FILE_BYTES"
proof -
  let ?m = "\<lparr>ym_file_name = [97], ym_total_bytes = 5, ym_modified_time = 9, ym_mode = 420\<rparr>"
  have "metadata_ok ?m"
    by (simp add: metadata_ok_def safe_file_name_def lit_def is_control_def reserved_char_simps
        trim_def trim_end_def is_whitespace_def scalar_def str_len_def utf8_def utf8_char_def
        MAX_YMODEM_FILENAME_BYTES_def MAX_YMODEM_FILE_BYTES_def)
  then obtain payload where
    "parse_ymodem_file_header payload = Inr (Some (?m\<lparr>ym_modified_time := 0, ym_mode := 0\<rparr>))"
    using header_packet by blast
  with ymodem_parsed_header_safe [OF this] show ?thesis by blast
qed

text \<open>The decoder does not depend on the chunking of the serial input: two pushes give the
  events and the state of one push of the concatenation.\<close>

theorem ymodem_push_split:
  assumes "length (xs @ ys) \<le> MAX_YMODEM_INPUT_BYTES"
  shows "ymodem_push d (xs @ ys) =
    (case ymodem_push d xs of
       (d', Inl e) \<Rightarrow> (d', Inl e)
     | (d', Inr es) \<Rightarrow>
         (case ymodem_push d' ys of
            (d'', Inl e) \<Rightarrow> (d'', Inl e)
          | (d'', Inr fs) \<Rightarrow> (d'', Inr (es @ fs))))"
  using assms by (simp add: ymodem_push_def feed_append Let_def case_prod_beta)

theorem ymodem_push_split_witness:
  "ymodem_push default_decoder ([24] @ [24]) =
    (case ymodem_push default_decoder [24] of
       (d', Inl e) \<Rightarrow> (d', Inl e)
     | (d', Inr es) \<Rightarrow>
         (case ymodem_push d' [24] of
            (d'', Inl e) \<Rightarrow> (d'', Inl e)
          | (d'', Inr fs) \<Rightarrow> (d'', Inr (es @ fs))))"
  by (rule ymodem_push_split) (simp add: MAX_YMODEM_INPUT_BYTES_def)

end
