(* ===== verification/Ymodem_Sender.thy ===== *)
theory Ymodem_Sender
  imports Ymodem_Wire
begin

text \<open>
  \<^verbatim>\<open>YmodemSender\<close> of \<^verbatim>\<open>crates/netcatty-serial/src/ymodem.rs\<close>: the sending state machine, its
  queue of actions for the native adapter, and its retry rules.  The queue (\<^verbatim>\<open>VecDeque\<close>) is a list
  with its front first.  \<open>ys_step\<close> has one rule per public operation that changes the machine.
\<close>

section \<open>The machine\<close>

record ymodem_send_summary =
  yss_file_name :: rstr
  yss_total_bytes :: nat
  yss_written_bytes :: nat
  yss_packets_sent :: nat

datatype ymodem_sender_action =
    Write bytes
  | ReadSource nat
  | Progress ymodem_progress
  | Completed ymodem_send_summary bytes
  | Failed ymodem_error

datatype sender_state =
    AwaitInitialRequest
  | AwaitHeaderAck nat
  | AwaitDataRequest nat
  | AwaitRepeatedHeaderAck nat nat
  | AwaitSource nat
  | AwaitDataAck bytes nat nat
  | AwaitFirstEot nat
  | AwaitSecondEotAck nat
  | AwaitEndRequest nat
  | AwaitEndAck nat
  | Terminal

datatype sender_retry_target = InitialHeader | RepeatedHeader nat

datatype sender_control_target = FirstEot | SecondEot | EndRequest

record ymodem_sender =
  ys_config :: ymodem_config
  ys_metadata :: ymodem_file_metadata
  ys_header_packet :: bytes
  ys_decoder :: ymodem_wire_decoder
  ys_state :: sender_state
  ys_actions :: "ymodem_sender_action list"
  ys_transferred_bytes :: nat
  ys_next_block_number :: byte
  ys_packets_sent :: nat

definition ys_new :: "ymodem_file_metadata \<Rightarrow> ymodem_config \<Rightarrow> ymodem_error + ymodem_sender" where
  "ys_new metadata config =
     (case create_ymodem_file_header metadata of
        Inl e \<Rightarrow> Inl e
      | Inr packet \<Rightarrow>
          Inr \<lparr>ys_config = config, ys_metadata = metadata, ys_header_packet = packet,
               ys_decoder = default_decoder, ys_state = AwaitInitialRequest, ys_actions = [],
               ys_transferred_bytes = 0, ys_next_block_number = 1, ys_packets_sent = 0\<rparr>)"

definition ys_next_action :: "ymodem_sender \<Rightarrow> ymodem_sender \<times> ymodem_sender_action option" where
  "ys_next_action s =
     (case ys_actions s of [] \<Rightarrow> (s, None) | a # rest \<Rightarrow> (s\<lparr>ys_actions := rest\<rparr>, Some a))"

definition ys_is_terminal :: "ymodem_sender \<Rightarrow> bool" where
  "ys_is_terminal s \<longleftrightarrow> ys_state s = Terminal"

definition ys_timeout :: "ymodem_sender \<Rightarrow> nat option" where
  "ys_timeout s =
     (case ys_state s of
        AwaitSource _ \<Rightarrow> None
      | Terminal \<Rightarrow> None
      | _ \<Rightarrow> Some (yc_timeout (ys_config s)))"

definition ys_emit :: "ymodem_sender_action \<Rightarrow> ymodem_sender \<Rightarrow> ymodem_sender" where
  "ys_emit a s = s\<lparr>ys_actions := ys_actions s @ [a]\<rparr>"

definition ys_fail :: "ymodem_sender \<Rightarrow> ymodem_error \<Rightarrow> ymodem_sender" where
  "ys_fail s e = (ys_emit (Failed e) s)\<lparr>ys_state := Terminal\<rparr>"

definition ys_restore_or_fail ::
    "ymodem_sender \<Rightarrow> ymodem_wire_event \<Rightarrow> byte list \<Rightarrow> ymodem_sender" where
  "ys_restore_or_fail s event expected =
     (case event of
        Control b \<Rightarrow>
          if b \<in> set [YMODEM_CRC16, YMODEM_ACK, YMODEM_NAK] \<and> b \<notin> set expected then s
          else ys_fail s UnexpectedFrame
      | Unexpected b \<Rightarrow> ys_fail s (UnexpectedByte b)
      | _ \<Rightarrow> ys_fail s UnexpectedFrame)"

definition ys_write_header :: "ymodem_sender \<Rightarrow> ymodem_sender" where
  "ys_write_header s =
     (let s = s\<lparr>ys_packets_sent := ys_packets_sent s + 1\<rparr>;
          s = ys_emit (Write (ys_header_packet s)) s
      in ys_emit (Progress \<lparr>yp_transferred_bytes = 0,
           yp_total_bytes = ym_total_bytes (ys_metadata s), yp_stage = Header\<rparr>) s)"

definition ys_send_header :: "ymodem_sender \<Rightarrow> ymodem_sender" where
  "ys_send_header s = (ys_write_header s)\<lparr>ys_state := AwaitHeaderAck 1\<rparr>"

definition ys_retry_header :: "ymodem_sender \<Rightarrow> nat \<Rightarrow> sender_retry_target \<Rightarrow> ymodem_sender" where
  "ys_retry_header s attempts target =
     (if yc_retry_limit (ys_config s) \<le> attempts then ys_fail s RetryLimit
      else (ys_write_header s)\<lparr>ys_state :=
        (case target of
           InitialHeader \<Rightarrow> AwaitHeaderAck (attempts + 1)
         | RepeatedHeader request_retries \<Rightarrow>
             AwaitRepeatedHeaderAck (attempts + 1) request_retries)\<rparr>)"

definition ys_retry_data_request :: "ymodem_sender \<Rightarrow> nat \<Rightarrow> ymodem_sender" where
  "ys_retry_data_request s retries =
     (if yc_retry_limit (ys_config s) \<le> retries then ys_fail s RetryLimit
      else (ys_write_header s)\<lparr>ys_state := AwaitRepeatedHeaderAck 1 (retries + 1)\<rparr>)"

definition ys_request_next_source_or_eot :: "ymodem_sender \<Rightarrow> ymodem_sender" where
  "ys_request_next_source_or_eot s =
     (let total_bytes = ym_total_bytes (ys_metadata s); transferred = ys_transferred_bytes s
      in if transferred = total_bytes
         then (ys_emit (Write [YMODEM_EOT]) s)\<lparr>ys_state := AwaitFirstEot 1\<rparr>
         else if total_bytes < transferred then ys_fail s SourceLengthMismatch
         else let exact = min (total_bytes - transferred) YMODEM_PACKET_SIZE_1024
              in (ys_emit (ReadSource exact) s)\<lparr>ys_state := AwaitSource exact\<rparr>)"

definition ys_retry_data_packet :: "ymodem_sender \<Rightarrow> bytes \<Rightarrow> nat \<Rightarrow> nat \<Rightarrow> ymodem_sender" where
  "ys_retry_data_packet s packet data_bytes attempts =
     (if yc_retry_limit (ys_config s) \<le> attempts then ys_fail s RetryLimit
      else (ys_emit (Write packet) (s\<lparr>ys_packets_sent := ys_packets_sent s + 1\<rparr>))
             \<lparr>ys_state := AwaitDataAck packet data_bytes (attempts + 1)\<rparr>)"

definition ys_retry_control ::
    "ymodem_sender \<Rightarrow> byte \<Rightarrow> nat \<Rightarrow> sender_control_target \<Rightarrow> ymodem_sender" where
  "ys_retry_control s b attempts target =
     (if yc_retry_limit (ys_config s) \<le> attempts then ys_fail s RetryLimit
      else (ys_emit (Write [b]) s)\<lparr>ys_state :=
        (case target of
           FirstEot \<Rightarrow> AwaitFirstEot (attempts + 1)
         | SecondEot \<Rightarrow> AwaitSecondEotAck (attempts + 1)
         | EndRequest \<Rightarrow> AwaitEndRequest (attempts + 1))\<rparr>)"

definition ys_send_end_packet :: "ymodem_sender \<Rightarrow> ymodem_sender" where
  "ys_send_end_packet s =
     (ys_emit (Write create_ymodem_end_session_packet) s)\<lparr>ys_state := AwaitEndAck 1\<rparr>"

definition ys_retry_end_packet :: "ymodem_sender \<Rightarrow> nat \<Rightarrow> ymodem_sender" where
  "ys_retry_end_packet s attempts =
     (if yc_retry_limit (ys_config s) \<le> attempts then ys_fail s RetryLimit
      else (ys_emit (Write create_ymodem_end_session_packet) s)
             \<lparr>ys_state := AwaitEndAck (attempts + 1)\<rparr>)"

definition ys_complete :: "ymodem_sender \<Rightarrow> ymodem_sender" where
  "ys_complete s =
     (let total_bytes = ym_total_bytes (ys_metadata s);
          s = ys_emit (Progress \<lparr>yp_transferred_bytes = total_bytes,
                yp_total_bytes = total_bytes, yp_stage = Complete\<rparr>) s;
          s = ys_emit (Completed \<lparr>yss_file_name = ym_file_name (ys_metadata s),
                yss_total_bytes = total_bytes, yss_written_bytes = total_bytes,
                yss_packets_sent = ys_packets_sent s\<rparr> []) s
      in s\<lparr>ys_state := Terminal\<rparr>)"

definition ys_data_acked :: "ymodem_sender \<Rightarrow> nat \<Rightarrow> ymodem_sender" where
  "ys_data_acked s data_bytes =
     (let s = s\<lparr>ys_transferred_bytes := ys_transferred_bytes s + data_bytes\<rparr>
      in ys_request_next_source_or_eot
           (ys_emit (Progress \<lparr>yp_transferred_bytes = ys_transferred_bytes s,
              yp_total_bytes = ym_total_bytes (ys_metadata s), yp_stage = Data\<rparr>) s))"

definition ys_handle_event :: "ymodem_sender \<Rightarrow> ymodem_wire_event \<Rightarrow> ymodem_sender" where
  "ys_handle_event s event =
     (if event = RemoteCancel then ys_fail s RemoteCancelled
      else case ys_state s of
        AwaitInitialRequest \<Rightarrow>
          if event = Control YMODEM_CRC16 then ys_send_header s
          else ys_restore_or_fail s event [YMODEM_CRC16]
      | AwaitHeaderAck attempts \<Rightarrow>
          if event = Control YMODEM_ACK then s\<lparr>ys_state := AwaitDataRequest 0\<rparr>
          else if event = Control YMODEM_NAK then ys_retry_header s attempts InitialHeader
          else ys_restore_or_fail s event [YMODEM_ACK, YMODEM_NAK]
      | AwaitDataRequest retries \<Rightarrow>
          if event = Control YMODEM_CRC16 then ys_request_next_source_or_eot s
          else if event = Control YMODEM_NAK then ys_retry_data_request s retries
          else ys_restore_or_fail s event [YMODEM_CRC16, YMODEM_NAK]
      | AwaitRepeatedHeaderAck attempts request_retries \<Rightarrow>
          if event = Control YMODEM_ACK then s\<lparr>ys_state := AwaitDataRequest request_retries\<rparr>
          else if event = Control YMODEM_NAK
          then ys_retry_header s attempts (RepeatedHeader request_retries)
          else ys_restore_or_fail s event [YMODEM_ACK, YMODEM_NAK]
      | AwaitDataAck packet data_bytes attempts \<Rightarrow>
          if event = Control YMODEM_ACK then ys_data_acked s data_bytes
          else if event = Control YMODEM_NAK
          then ys_retry_data_packet s packet data_bytes attempts
          else ys_restore_or_fail s event [YMODEM_ACK, YMODEM_NAK]
      | AwaitFirstEot attempts \<Rightarrow>
          if event = Control YMODEM_NAK
          then (ys_emit (Write [YMODEM_EOT]) s)\<lparr>ys_state := AwaitSecondEotAck 1\<rparr>
          else if event = Control YMODEM_ACK then s\<lparr>ys_state := AwaitEndRequest 1\<rparr>
          else ys_restore_or_fail s event [YMODEM_NAK, YMODEM_ACK]
      | AwaitSecondEotAck attempts \<Rightarrow>
          if event = Control YMODEM_ACK then s\<lparr>ys_state := AwaitEndRequest 1\<rparr>
          else if event = Control YMODEM_NAK
          then ys_retry_control s YMODEM_EOT attempts SecondEot
          else ys_restore_or_fail s event [YMODEM_ACK]
      | AwaitEndRequest attempts \<Rightarrow>
          if event = Control YMODEM_CRC16 then ys_send_end_packet s
          else ys_restore_or_fail s event [YMODEM_CRC16]
      | AwaitEndAck attempts \<Rightarrow>
          if event = Control YMODEM_ACK then ys_complete s
          else if event = Control YMODEM_NAK then ys_retry_end_packet s attempts
          else ys_restore_or_fail s event [YMODEM_ACK, YMODEM_NAK]
      | AwaitSource _ \<Rightarrow> ys_restore_or_fail s event []
      | Terminal \<Rightarrow> s)"

definition ys_set_terminal_bytes :: "ymodem_sender \<Rightarrow> bytes \<Rightarrow> ymodem_sender" where
  "ys_set_terminal_bytes s rest =
     (case rev (ys_actions s) of
        Completed summary _ # before \<Rightarrow>
          s\<lparr>ys_actions := rev before @ [Completed summary rest]\<rparr>
      | _ \<Rightarrow> s)"

fun ys_push_loop :: "ymodem_sender \<Rightarrow> bytes \<Rightarrow> ymodem_sender" where
  "ys_push_loop s [] = s"
| "ys_push_loop s (b # bs) =
     (case push_byte (ys_decoder s) b of
        (d, None) \<Rightarrow> ys_push_loop (s\<lparr>ys_decoder := d\<rparr>) bs
      | (d, Some event) \<Rightarrow>
          let s = s\<lparr>ys_decoder := d\<rparr>
          in if ys_is_terminal s then s
             else let s = ys_handle_event s event
                  in if ys_is_terminal s then ys_set_terminal_bytes s bs
                     else ys_push_loop s bs)"

definition ys_push_serial_bytes ::
    "ymodem_sender \<Rightarrow> bytes \<Rightarrow> ymodem_sender \<times> (ymodem_error + unit)" where
  "ys_push_serial_bytes s bs =
     (if ys_is_terminal s then (s, Inl InvalidState)
      else if MAX_YMODEM_INPUT_BYTES < length bs
      then (s, Inl (InputTooLarge MAX_YMODEM_INPUT_BYTES))
      else (ys_push_loop s bs, Inr ()))"

definition ys_provide_source_chunk ::
    "ymodem_sender \<Rightarrow> bytes \<Rightarrow> ymodem_sender \<times> (ymodem_error + unit)" where
  "ys_provide_source_chunk s bs =
     (case ys_state s of
        AwaitSource exact \<Rightarrow>
          if length bs \<noteq> exact then (s, Inl (InvalidSourceChunk exact (length bs)))
          else (case create_ymodem_data_packet (ys_next_block_number s) bs of
              Inl e \<Rightarrow> (s, Inl e)
            | Inr packet \<Rightarrow>
                ((ys_emit (Write packet)
                    (s\<lparr>ys_next_block_number := ys_next_block_number s + 1,
                       ys_packets_sent := ys_packets_sent s + 1\<rparr>))
                   \<lparr>ys_state := AwaitDataAck packet (length bs) 1\<rparr>, Inr ()))
      | _ \<Rightarrow> (s, Inl InvalidState))"

definition ys_on_timeout :: "ymodem_sender \<Rightarrow> ymodem_sender \<times> (ymodem_error + unit)" where
  "ys_on_timeout s =
     (if ys_is_terminal s then (s, Inl InvalidState)
      else let s = s\<lparr>ys_decoder := decoder_reset (ys_decoder s)\<rparr>
      in case ys_state s of
        AwaitInitialRequest \<Rightarrow> (ys_fail s TimedOut, Inr ())
      | AwaitHeaderAck attempts \<Rightarrow> (ys_retry_header s attempts InitialHeader, Inr ())
      | AwaitDataRequest retries \<Rightarrow> (ys_retry_data_request s retries, Inr ())
      | AwaitRepeatedHeaderAck attempts request_retries \<Rightarrow>
          (ys_retry_header s attempts (RepeatedHeader request_retries), Inr ())
      | AwaitDataAck packet data_bytes attempts \<Rightarrow>
          (ys_retry_data_packet s packet data_bytes attempts, Inr ())
      | AwaitFirstEot attempts \<Rightarrow> (ys_retry_control s YMODEM_EOT attempts FirstEot, Inr ())
      | AwaitSecondEotAck attempts \<Rightarrow> (ys_retry_control s YMODEM_EOT attempts SecondEot, Inr ())
      | AwaitEndRequest attempts \<Rightarrow> (ys_retry_control s YMODEM_EOT attempts EndRequest, Inr ())
      | AwaitEndAck attempts \<Rightarrow> (ys_retry_end_packet s attempts, Inr ())
      | AwaitSource _ \<Rightarrow> (s, Inl InvalidState)
      | Terminal \<Rightarrow> (s, Inl InvalidState))"

definition ys_cancel :: "ymodem_sender \<Rightarrow> ymodem_sender" where
  "ys_cancel s =
     (if ys_is_terminal s then s
      else ys_fail (ys_emit (Write YMODEM_CANCEL_SEQUENCE) s) Cancelled)"

section \<open>The steps of the machine\<close>

inductive ys_step :: "ymodem_sender \<Rightarrow> ymodem_sender \<Rightarrow> bool" where
  step_next: "ys_step s (fst (ys_next_action s))"
| step_push: "ys_step s (fst (ys_push_serial_bytes s bs))"
| step_source: "ys_step s (fst (ys_provide_source_chunk s bs))"
| step_timeout: "ys_step s (fst (ys_on_timeout s))"
| step_cancel: "ys_step s (ys_cancel s)"

section \<open>The invariant\<close>

definition attempt_ok :: "nat \<Rightarrow> nat \<Rightarrow> bool" where
  "attempt_ok limit a \<longleftrightarrow> 1 \<le> a \<and> a \<le> limit"

fun ys_state_ok :: "nat \<Rightarrow> nat \<Rightarrow> nat \<Rightarrow> sender_state \<Rightarrow> bool" where
  "ys_state_ok limit todo done AwaitInitialRequest \<longleftrightarrow> done = 0"
| "ys_state_ok limit todo done (AwaitHeaderAck a) \<longleftrightarrow> done = 0 \<and> attempt_ok limit a"
| "ys_state_ok limit todo done (AwaitDataRequest r) \<longleftrightarrow> done = 0 \<and> r \<le> limit"
| "ys_state_ok limit todo done (AwaitRepeatedHeaderAck a r) \<longleftrightarrow>
     done = 0 \<and> attempt_ok limit a \<and> attempt_ok limit r"
| "ys_state_ok limit todo done (AwaitSource n) \<longleftrightarrow> 0 < n \<and> n = min todo 1024"
| "ys_state_ok limit todo done (AwaitDataAck p n a) \<longleftrightarrow>
     0 < n \<and> n = min todo 1024 \<and> attempt_ok limit a \<and> length p = 1029"
| "ys_state_ok limit todo done (AwaitFirstEot a) \<longleftrightarrow> todo = 0 \<and> attempt_ok limit a"
| "ys_state_ok limit todo done (AwaitSecondEotAck a) \<longleftrightarrow> todo = 0 \<and> attempt_ok limit a"
| "ys_state_ok limit todo done (AwaitEndRequest a) \<longleftrightarrow> todo = 0 \<and> attempt_ok limit a"
| "ys_state_ok limit todo done (AwaitEndAck a) \<longleftrightarrow> todo = 0 \<and> attempt_ok limit a"
| "ys_state_ok limit todo done Terminal \<longleftrightarrow> True"

fun ys_action_ok :: "nat \<Rightarrow> nat \<Rightarrow> ymodem_sender_action \<Rightarrow> bool" where
  "ys_action_ok total_bytes done (Write bs) \<longleftrightarrow> length bs \<le> 1029"
| "ys_action_ok total_bytes done (ReadSource n) \<longleftrightarrow> 0 < n \<and> n \<le> 1024"
| "ys_action_ok total_bytes done (Progress p) \<longleftrightarrow>
     yp_transferred_bytes p \<le> done \<and> yp_total_bytes p = total_bytes"
| "ys_action_ok total_bytes done (Completed summary rest) \<longleftrightarrow>
     done = total_bytes \<and> yss_written_bytes summary = total_bytes \<and>
     yss_total_bytes summary = total_bytes"
| "ys_action_ok total_bytes done (Failed e) \<longleftrightarrow> True"

definition ys_todo :: "ymodem_sender \<Rightarrow> nat" where
  "ys_todo s = ym_total_bytes (ys_metadata s) - ys_transferred_bytes s"

definition ys_inv :: "ymodem_sender \<Rightarrow> bool" where
  "ys_inv s \<longleftrightarrow>
     ymodem_config_ok (ys_config s) \<and>
     decoder_inv (ys_decoder s) \<and>
     length (ys_header_packet s) \<le> 1029 \<and>
     ys_transferred_bytes s \<le> ym_total_bytes (ys_metadata s) \<and>
     ys_state_ok (yc_retry_limit (ys_config s)) (ys_todo s) (ys_transferred_bytes s) (ys_state s) \<and>
     list_all (ys_action_ok (ym_total_bytes (ys_metadata s)) (ys_transferred_bytes s)) (ys_actions s)"

lemma ys_action_ok_mono:
  "ys_action_ok n d a \<Longrightarrow> d \<le> d' \<Longrightarrow> d' \<le> n \<Longrightarrow> ys_action_ok n d' a"
  by (cases a) auto

lemma end_session_length [simp]: "length create_ymodem_end_session_packet = 133"
  by (simp add: create_ymodem_end_session_packet_def encode_ymodem_packet_def)

lemma cancel_length [simp]: "length YMODEM_CANCEL_SEQUENCE = 10"
  by (simp add: YMODEM_CANCEL_SEQUENCE_def)

lemmas ys_op_defs = ys_emit_def ys_fail_def ys_write_header_def ys_send_header_def
  ys_retry_header_def ys_retry_data_request_def ys_retry_data_packet_def ys_retry_control_def
  ys_send_end_packet_def ys_retry_end_packet_def Let_def

lemma ys_new_inv:
  assumes "ys_new m c = Inr s" and "ymodem_config_ok c"
  shows "ys_inv s"
proof -
  obtain p where p: "create_ymodem_file_header m = Inr p"
    using assms(1) by (auto simp: ys_new_def split: sum.splits)
  have "length p \<le> 1029"
    using p encode_ymodem_packet_length
    by (fastforce simp: create_ymodem_file_header_def Let_def split: if_splits)
  then show ?thesis
    using assms p by (auto simp: ys_new_def ys_inv_def)
qed

lemma ys_fail_inv [simp]: "ys_inv s \<Longrightarrow> ys_inv (ys_fail s e)"
  by (simp add: ys_inv_def ys_op_defs ys_todo_def)

lemma ys_restore_inv [simp]: "ys_inv s \<Longrightarrow> ys_inv (ys_restore_or_fail s e bs)"
  by (simp add: ys_restore_or_fail_def split: ymodem_wire_event.split)

lemma ys_request_inv:
  assumes "ys_inv s"
  shows "ys_inv (ys_request_next_source_or_eot s)"
  using assms
  by (auto simp: ys_inv_def ys_request_next_source_or_eot_def ys_op_defs ys_todo_def
      attempt_ok_def ymodem_config_ok_def)

lemma ys_send_header_inv:
  "ys_inv s \<Longrightarrow> ys_transferred_bytes s = 0 \<Longrightarrow> ys_inv (ys_send_header s)"
  by (simp add: ys_inv_def ys_op_defs ys_todo_def attempt_ok_def ymodem_config_ok_def Suc_leI)

lemma ys_retry_header_inv:
  assumes "ys_inv s" and "ys_transferred_bytes s = 0"
    and "attempt_ok (yc_retry_limit (ys_config s)) a"
    and "\<And>r. target = RepeatedHeader r \<Longrightarrow> attempt_ok (yc_retry_limit (ys_config s)) r"
  shows "ys_inv (ys_retry_header s a target)"
  using assms
  by (cases target) (auto simp: ys_inv_def ys_op_defs ys_todo_def attempt_ok_def)

lemma ys_retry_data_request_inv:
  "ys_inv s \<Longrightarrow> ys_transferred_bytes s = 0 \<Longrightarrow> ys_inv (ys_retry_data_request s r)"
  by (auto simp: ys_inv_def ys_op_defs ys_todo_def attempt_ok_def ymodem_config_ok_def)

lemma ys_retry_data_packet_inv:
  assumes "ys_inv s" and "ys_state s = AwaitDataAck p n a"
  shows "ys_inv (ys_retry_data_packet s p n a)"
  using assms by (auto simp: ys_inv_def ys_op_defs ys_todo_def attempt_ok_def)

lemma ys_retry_control_inv:
  assumes "ys_inv s" and "ys_todo s = 0"
  shows "ys_inv (ys_retry_control s b a target)"
  using assms
  by (cases target) (auto simp: ys_inv_def ys_op_defs ys_todo_def attempt_ok_def)

lemma ys_end_packet_inv:
  assumes "ys_inv s" and "ys_todo s = 0"
  shows "ys_inv (ys_send_end_packet s)" and "ys_inv (ys_retry_end_packet s a)"
  using assms
  by (auto simp: ys_inv_def ys_op_defs ys_todo_def attempt_ok_def ymodem_config_ok_def)

lemma ys_complete_inv: "ys_inv s \<Longrightarrow> ys_todo s = 0 \<Longrightarrow> ys_inv (ys_complete s)"
  by (auto simp: ys_inv_def ys_complete_def ys_op_defs ys_todo_def)

lemma ys_data_acked_inv:
  assumes "ys_inv s" and "ys_state s = AwaitDataAck p n a"
  shows "ys_inv (ys_data_acked s n)"
proof -
  have le: "ys_transferred_bytes s + n \<le> ym_total_bytes (ys_metadata s)"
    using assms by (auto simp: ys_inv_def ys_todo_def)
  have old: "list_all (ys_action_ok (ym_total_bytes (ys_metadata s)) (ys_transferred_bytes s + n)) (ys_actions s)"
    using assms(1) le by (auto simp: ys_inv_def list_all_iff intro: ys_action_ok_mono)
  show ?thesis
    using assms le old
    by (auto simp: ys_inv_def ys_data_acked_def ys_request_next_source_or_eot_def ys_op_defs
        ys_todo_def attempt_ok_def ymodem_config_ok_def)
qed

lemma ys_control_inv:
  assumes "ys_inv s" and "ys_todo s = 0"
  shows "ys_inv (s\<lparr>ys_state := AwaitEndRequest (Suc 0)\<rparr>)"
    and "ys_inv ((ys_emit (Write [4]) s)\<lparr>ys_state := AwaitSecondEotAck (Suc 0)\<rparr>)"
  using assms by (auto simp: ys_inv_def ys_op_defs ys_todo_def attempt_ok_def ymodem_config_ok_def)

lemma ys_data_request_inv:
  "ys_inv s \<Longrightarrow> ys_transferred_bytes s = 0 \<Longrightarrow> r \<le> yc_retry_limit (ys_config s) \<Longrightarrow>
   ys_inv (s\<lparr>ys_state := AwaitDataRequest r\<rparr>)"
  by (auto simp: ys_inv_def ys_todo_def)

lemma ys_inv_state:
  "ys_inv s \<Longrightarrow>
   ys_state_ok (yc_retry_limit (ys_config s)) (ys_todo s) (ys_transferred_bytes s) (ys_state s)"
  by (simp add: ys_inv_def)

lemmas ys_inv_intros = ys_send_header_inv ys_retry_header_inv ys_retry_data_request_inv
  ys_retry_data_packet_inv ys_retry_control_inv ys_end_packet_inv ys_complete_inv
  ys_data_acked_inv ys_control_inv ys_data_request_inv ys_request_inv

lemma ys_handle_event_inv:
  assumes "ys_inv s" shows "ys_inv (ys_handle_event s e)"
  using assms ys_inv_state [OF assms]
  by (cases "ys_state s") (auto simp: ys_handle_event_def attempt_ok_def intro!: ys_inv_intros)

lemma ys_decoder_inv:
  "ys_inv s \<Longrightarrow> decoder_inv d \<Longrightarrow> ys_inv (s\<lparr>ys_decoder := d\<rparr>)"
  by (simp add: ys_inv_def ys_todo_def)

lemma ys_terminal_bytes_inv: "ys_inv s \<Longrightarrow> ys_inv (ys_set_terminal_bytes s bs)"
proof -
  assume s: "ys_inv s"
  show ?thesis
  proof (cases "rev (ys_actions s)")
    case (Cons a before)
    then have "ys_actions s = rev before @ [a]" by (metis rev.simps(2) rev_rev_ident)
    with s show ?thesis
      by (cases a) (auto simp: ys_set_terminal_bytes_def ys_inv_def ys_todo_def)
  qed (simp add: ys_set_terminal_bytes_def s)
qed

interpretation ys_loop: event_loop
  "\<lambda>s b. (s\<lparr>ys_decoder := fst (push_byte (ys_decoder s) b)\<rparr>, snd (push_byte (ys_decoder s) b))"
  ys_handle_event ys_is_terminal ys_set_terminal_bytes ys_push_loop
  by unfold_locales
    (auto simp: ys_is_terminal_def ys_set_terminal_bytes_def Let_def split: prod.splits option.splits
      list.split ymodem_sender_action.split)

lemma ys_push_loop_inv: "ys_inv s \<Longrightarrow> ys_inv (ys_push_loop s bs)"
proof (rule ys_loop.run_invariant [where E = "\<lambda>_. True"])
  fix s b assume "ys_inv s"
  then show "ys_inv (fst (s\<lparr>ys_decoder := fst (push_byte (ys_decoder s) b)\<rparr>,
      snd (push_byte (ys_decoder s) b)))"
    using ys_decoder_inv [OF _ push_byte_inv] by (simp add: ys_inv_def)
qed (simp_all add: ys_handle_event_inv ys_terminal_bytes_inv)

lemma ys_provide_inv: "ys_inv s \<Longrightarrow> ys_inv (fst (ys_provide_source_chunk s bs))"
proof -
  assume s: "ys_inv s"
  show ?thesis
  proof (cases "ys_state s")
    case (AwaitSource n)
    have n: "0 < n" "n = min (ys_todo s) 1024"
      using ys_inv_state [OF s] AwaitSource by auto
    have "length p = 1029" if "create_ymodem_data_packet k bs = Inr p" for k p
      using that encode_ymodem_packet_length
      by (fastforce simp: create_ymodem_data_packet_def split: if_splits)
    then show ?thesis
      using s AwaitSource n
      by (auto simp: ys_provide_source_chunk_def ys_inv_def ys_op_defs ys_todo_def attempt_ok_def
          ymodem_config_ok_def split: sum.split)
  qed (simp_all add: ys_provide_source_chunk_def s)
qed

lemma ys_on_timeout_inv: "ys_inv s \<Longrightarrow> ys_inv (fst (ys_on_timeout s))"
proof -
  assume s: "ys_inv s"
  let ?t = "s\<lparr>ys_decoder := decoder_reset (ys_decoder s)\<rparr>"
  have t: "ys_inv ?t" using s by (simp add: ys_decoder_inv)
  have eq: "ys_state ?t = ys_state s" by simp
  show ?thesis
    using s t ys_inv_state [OF t]
    by (cases "ys_state s")
      (auto simp: ys_on_timeout_def ys_is_terminal_def Let_def intro!: ys_inv_intros)
qed

lemma ys_next_inv: "ys_inv s \<Longrightarrow> ys_inv (fst (ys_next_action s))"
  by (auto simp: ys_next_action_def ys_inv_def ys_todo_def split: list.split)

lemma ys_cancel_inv: "ys_inv s \<Longrightarrow> ys_inv (ys_cancel s)"
  by (auto simp: ys_cancel_def ys_inv_def ys_op_defs ys_todo_def)

lemma ys_step_inv: "ys_step s t \<Longrightarrow> ys_inv s \<Longrightarrow> ys_inv t"
  by (induction rule: ys_step.induct)
    (auto simp: ys_push_serial_bytes_def ys_next_inv ys_push_loop_inv ys_provide_inv
      ys_on_timeout_inv ys_cancel_inv)


text \<open>A terminal machine refuses every input; only its queue can still be drained.\<close>

definition ys_drained :: "ymodem_sender \<Rightarrow> ymodem_sender \<Rightarrow> bool" where
  "ys_drained s t \<longleftrightarrow> ys_is_terminal t \<and> (\<exists>k. t = s\<lparr>ys_actions := drop k (ys_actions s)\<rparr>)"

lemma ys_next_drained: "ys_drained s t \<Longrightarrow> ys_drained s (fst (ys_next_action t))"
proof -
  assume "ys_drained s t"
  then obtain k where t: "t = s\<lparr>ys_actions := drop k (ys_actions s)\<rparr>" and fin: "ys_is_terminal t"
    by (auto simp: ys_drained_def)
  have "fst (ys_next_action t) = s\<lparr>ys_actions := drop 1 (drop k (ys_actions s))\<rparr>"
    by (cases "drop k (ys_actions s)") (simp_all add: t ys_next_action_def)
  then show ?thesis
    using fin by (auto simp: t ys_drained_def ys_is_terminal_def)
qed

lemma ys_step_drained: "ys_step t u \<Longrightarrow> ys_drained s t \<Longrightarrow> ys_drained s u"
proof (induction rule: ys_step.induct)
  case (step_next t)
  then show ?case by (rule ys_next_drained)
qed (auto simp: ys_drained_def ys_is_terminal_def ys_push_serial_bytes_def
    ys_provide_source_chunk_def ys_on_timeout_def ys_cancel_def)

interpretation ys: absorbing_system ys_step ys_inv ys_is_terminal
proof
  fix s t assume st: "ys_step s t"
  show "ys_inv t" if "ys_inv s" using st that by (rule ys_step_inv)
  show "ys_is_terminal t" if "ys_is_terminal s"
  proof -
    have "ys_drained s s" using that by (auto simp: ys_drained_def intro: exI [of _ 0])
    then have "ys_drained s t" by (rule ys_step_drained [OF st])
    then show ?thesis by (simp add: ys_drained_def)
  qed
qed

section \<open>The transfer cannot be kept alive by retries\<close>

definition ys_rank :: "ymodem_sender \<Rightarrow> nat \<times> nat \<times> nat" where
  "ys_rank s =
     (let limit = yc_retry_limit (ys_config s); todo = ys_todo s in case ys_state s of
        AwaitInitialRequest \<Rightarrow> (8, 0, 0)
      | AwaitHeaderAck a \<Rightarrow> (7, 0, limit - a)
      | AwaitDataRequest r \<Rightarrow> (6, 2 * (limit + 1 - r), 0)
      | AwaitRepeatedHeaderAck a r \<Rightarrow> (6, 2 * (limit + 1 - r) + 1, limit - a)
      | AwaitSource n \<Rightarrow> (5, 2 * todo + 1, 0)
      | AwaitDataAck p n a \<Rightarrow> (5, 2 * todo, limit - a)
      | AwaitFirstEot a \<Rightarrow> (4, 0, limit - a)
      | AwaitSecondEotAck a \<Rightarrow> (3, 0, limit - a)
      | AwaitEndRequest a \<Rightarrow> (2, 0, limit - a)
      | AwaitEndAck a \<Rightarrow> (1, 0, limit - a)
      | Terminal \<Rightarrow> (0, 0, 0))"

abbreviation rank_less :: "((nat \<times> nat \<times> nat) \<times> nat \<times> nat \<times> nat) set" where
  "rank_less \<equiv> less_than <*lex*> less_than <*lex*> less_than"

inductive ys_turn :: "ymodem_sender \<Rightarrow> ymodem_sender \<Rightarrow> bool" where
  turn_event: "\<not> ys_is_terminal s \<Longrightarrow> ys_handle_event s e \<noteq> s \<Longrightarrow> ys_turn s (ys_handle_event s e)"
| turn_source: "ys_provide_source_chunk s bs = (t, Inr ()) \<Longrightarrow> ys_turn s t"
| turn_timeout: "ys_on_timeout s = (t, Inr ()) \<Longrightarrow> ys_turn s t"
| turn_cancel: "\<not> ys_is_terminal s \<Longrightarrow> ys_turn s (ys_cancel s)"

lemma ys_fail_rank: "\<not> ys_is_terminal s \<Longrightarrow> (ys_rank (ys_fail s e), ys_rank s) \<in> rank_less"
  by (cases "ys_state s") (simp_all add: ys_rank_def ys_op_defs ys_is_terminal_def)

lemma ys_restore_rank:
  "\<not> ys_is_terminal s \<Longrightarrow>
   ys_restore_or_fail s e bs = s \<or> (ys_rank (ys_restore_or_fail s e bs), ys_rank s) \<in> rank_less"
  by (auto simp: ys_restore_or_fail_def simp del: in_lex_prod split: ymodem_wire_event.split intro: ys_fail_rank)

lemma ys_request_rank:
  assumes "ys_inv s" and "ys_state s = AwaitDataRequest r"
  shows "(ys_rank (ys_request_next_source_or_eot s), ys_rank s) \<in> rank_less"
  using assms by (auto simp: ys_rank_def ys_request_next_source_or_eot_def ys_op_defs ys_inv_def)

lemma ys_acked_rank:
  assumes "ys_inv s" and "ys_state s = AwaitDataAck p n a"
  shows "(ys_rank (ys_data_acked s n), ys_rank s) \<in> rank_less"
  using assms
  by (auto simp: ys_rank_def ys_data_acked_def ys_request_next_source_or_eot_def ys_op_defs ys_inv_def
      ys_todo_def)

lemma ys_retry_rank:
  assumes "\<not> ys_is_terminal s"
  shows "ys_state s = AwaitHeaderAck a \<Longrightarrow>
      (ys_rank (ys_retry_header s a InitialHeader), ys_rank s) \<in> rank_less"
    and "ys_state s = AwaitRepeatedHeaderAck a r \<Longrightarrow>
      (ys_rank (ys_retry_header s a (RepeatedHeader r)), ys_rank s) \<in> rank_less"
    and "ys_state s = AwaitDataRequest r \<Longrightarrow>
      (ys_rank (ys_retry_data_request s r), ys_rank s) \<in> rank_less"
    and "ys_state s = AwaitDataAck p n a \<Longrightarrow>
      (ys_rank (ys_retry_data_packet s p n a), ys_rank s) \<in> rank_less"
    and "ys_state s = AwaitFirstEot a \<Longrightarrow>
      (ys_rank (ys_retry_control s b a FirstEot), ys_rank s) \<in> rank_less"
    and "ys_state s = AwaitSecondEotAck a \<Longrightarrow>
      (ys_rank (ys_retry_control s b a SecondEot), ys_rank s) \<in> rank_less"
    and "ys_state s = AwaitEndRequest a \<Longrightarrow>
      (ys_rank (ys_retry_control s b a EndRequest), ys_rank s) \<in> rank_less"
    and "ys_state s = AwaitEndAck a \<Longrightarrow>
      (ys_rank (ys_retry_end_packet s a), ys_rank s) \<in> rank_less"
  by (auto simp: ys_rank_def ys_op_defs ys_todo_def)

lemma ys_event_rank:
  assumes "ys_inv s" and "\<not> ys_is_terminal s"
  shows "ys_handle_event s e = s \<or> (ys_rank (ys_handle_event s e), ys_rank s) \<in> rank_less"
proof -
  note r = ys_restore_rank [OF assms(2)] ys_fail_rank [OF assms(2)] ys_retry_rank [OF assms(2)]
    ys_request_rank [OF assms(1)] ys_acked_rank [OF assms(1)]
  show ?thesis
  proof (cases "ys_state s")
    case AwaitInitialRequest
    then have "(ys_rank (ys_send_header s), ys_rank s) \<in> rank_less"
      by (simp add: ys_rank_def ys_op_defs)
    then show ?thesis using AwaitInitialRequest r by (simp add: ys_handle_event_def del: in_lex_prod)
  next
    case (AwaitHeaderAck a)
    then have "(ys_rank (s\<lparr>ys_state := AwaitDataRequest 0\<rparr>), ys_rank s) \<in> rank_less"
      by (simp add: ys_rank_def ys_op_defs)
    then show ?thesis using AwaitHeaderAck r by (simp add: ys_handle_event_def del: in_lex_prod)
  next
    case (AwaitRepeatedHeaderAck a q)
    then have "(ys_rank (s\<lparr>ys_state := AwaitDataRequest q\<rparr>), ys_rank s) \<in> rank_less"
      by (simp add: ys_rank_def ys_op_defs)
    then show ?thesis using AwaitRepeatedHeaderAck r
      by (simp add: ys_handle_event_def del: in_lex_prod)
  next
    case (AwaitFirstEot a)
    then have "(ys_rank (s\<lparr>ys_state := AwaitEndRequest 1\<rparr>), ys_rank s) \<in> rank_less"
      and "(ys_rank ((ys_emit (Write [YMODEM_EOT]) s)\<lparr>ys_state := AwaitSecondEotAck 1\<rparr>),
        ys_rank s) \<in> rank_less"
      by (simp_all add: ys_rank_def ys_op_defs)
    then show ?thesis using AwaitFirstEot r by (simp add: ys_handle_event_def del: in_lex_prod)
  next
    case (AwaitSecondEotAck a)
    then have "(ys_rank (s\<lparr>ys_state := AwaitEndRequest 1\<rparr>), ys_rank s) \<in> rank_less"
      by (simp_all add: ys_rank_def ys_op_defs)
    then show ?thesis using AwaitSecondEotAck r by (simp add: ys_handle_event_def del: in_lex_prod)
  next
    case (AwaitEndRequest a)
    then have "(ys_rank (ys_send_end_packet s), ys_rank s) \<in> rank_less"
      by (simp_all add: ys_rank_def ys_op_defs)
    then show ?thesis using AwaitEndRequest r by (simp add: ys_handle_event_def del: in_lex_prod)
  next
    case (AwaitEndAck a)
    then have "(ys_rank (ys_complete s), ys_rank s) \<in> rank_less"
      by (simp_all add: ys_rank_def ys_complete_def ys_op_defs)
    then show ?thesis using AwaitEndAck r by (simp add: ys_handle_event_def del: in_lex_prod)
  qed (use assms r in \<open>simp_all add: ys_handle_event_def ys_is_terminal_def del: in_lex_prod\<close>)
qed

lemma ys_rank_decoder [simp]: "ys_rank (s\<lparr>ys_decoder := d\<rparr>) = ys_rank s"
  by (simp add: ys_rank_def ys_todo_def)

lemma ys_timeout_rank:
  assumes "ys_on_timeout s = (t, Inr ())"
  shows "(ys_rank t, ys_rank s) \<in> rank_less"
proof -
  let ?u = "s\<lparr>ys_decoder := decoder_reset (ys_decoder s)\<rparr>"
  have nt: "\<not> ys_is_terminal ?u"
    using assms by (auto simp: ys_on_timeout_def ys_is_terminal_def split: if_splits)
  note r = ys_fail_rank [OF nt] ys_retry_rank [OF nt]
  have "(ys_rank t, ys_rank ?u) \<in> rank_less"
    using assms r nt
    by (cases "ys_state s")
      (auto simp: ys_on_timeout_def Let_def ys_is_terminal_def simp del: in_lex_prod ys_rank_decoder)
  then show ?thesis by simp
qed

lemma ys_source_rank:
  assumes "ys_provide_source_chunk s bs = (t, Inr ())"
  shows "(ys_rank t, ys_rank s) \<in> rank_less"
  using assms
  by (cases "ys_state s")
    (auto simp: ys_provide_source_chunk_def ys_rank_def ys_op_defs ys_todo_def split: if_splits sum.splits)

lemma ys_cancel_rank: "\<not> ys_is_terminal s \<Longrightarrow> (ys_rank (ys_cancel s), ys_rank s) \<in> rank_less"
  by (cases "ys_state s") (simp_all add: ys_cancel_def ys_rank_def ys_op_defs ys_is_terminal_def)

lemma ys_turn_rank: "ys_turn s t \<Longrightarrow> ys_inv s \<Longrightarrow> (ys_rank t, ys_rank s) \<in> rank_less"
  by (induction rule: ys_turn.induct)
    (use ys_event_rank ys_source_rank ys_timeout_rank ys_cancel_rank in blast)+

definition ys_timeouts_left :: "ymodem_sender \<Rightarrow> nat" where
  "ys_timeouts_left s =
     (let limit = yc_retry_limit (ys_config s) in case ys_state s of
        AwaitInitialRequest \<Rightarrow> 1
      | AwaitHeaderAck a \<Rightarrow> limit + 1 - a
      | AwaitDataRequest r \<Rightarrow> limit + 1
      | AwaitRepeatedHeaderAck a r \<Rightarrow> limit + 1 - a
      | AwaitSource n \<Rightarrow> 0
      | AwaitDataAck p n a \<Rightarrow> limit + 1 - a
      | AwaitFirstEot a \<Rightarrow> limit + 1 - a
      | AwaitSecondEotAck a \<Rightarrow> limit + 1 - a
      | AwaitEndRequest a \<Rightarrow> limit + 1 - a
      | AwaitEndAck a \<Rightarrow> limit + 1 - a
      | Terminal \<Rightarrow> 0)"

definition ys_awaits_peer :: "ymodem_sender \<Rightarrow> bool" where
  "ys_awaits_peer s \<longleftrightarrow> (\<forall>n. ys_state s \<noteq> AwaitSource n)"

lemma ys_timeouts_left_step:
  assumes "ys_inv s" and "ys_awaits_peer s" and "\<not> ys_is_terminal s"
  shows "ys_awaits_peer (fst (ys_on_timeout s)) \<and>
    ys_timeouts_left (fst (ys_on_timeout s)) < ys_timeouts_left s"
  using assms ys_inv_state [OF assms(1)]
  by (cases "ys_state s")
    (auto simp: ys_awaits_peer_def ys_on_timeout_def ys_is_terminal_def ys_timeouts_left_def ys_op_defs
      attempt_ok_def)

lemma ys_timeouts_left_bound:
  "ys_inv s \<Longrightarrow> ys_timeouts_left s \<le> yc_retry_limit (ys_config s) + 1"
  by (cases "ys_state s") (auto simp: ys_timeouts_left_def)

lemma ys_timeouts_run:
  "ys_inv s \<Longrightarrow> ys_awaits_peer s \<Longrightarrow> ys_timeouts_left s \<le> k \<Longrightarrow>
   ys_is_terminal (((\<lambda>s. fst (ys_on_timeout s)) ^^ k) s)"
proof (induction k arbitrary: s)
  case 0
  then show ?case
    using ys_inv_state [of s]
    by (cases "ys_state s")
      (auto simp: ys_timeouts_left_def ys_is_terminal_def ys_awaits_peer_def attempt_ok_def)
next
  case (Suc k)
  let ?t = "fst (ys_on_timeout s)"
  show ?case
  proof (cases "ys_is_terminal s")
    case True
    then have "?t = s" by (simp add: ys_on_timeout_def)
    moreover have "ys_timeouts_left s = 0"
      using True by (simp add: ys_is_terminal_def ys_timeouts_left_def)
    ultimately show ?thesis using Suc by (simp add: funpow_Suc_right del: funpow.simps(2))
  next
    case False
    then have "ys_awaits_peer ?t" "ys_timeouts_left ?t < ys_timeouts_left s"
      using ys_timeouts_left_step [OF Suc.prems(1,2)] by auto
    moreover have "ys_inv ?t" using Suc.prems(1) by (rule ys_on_timeout_inv)
    ultimately show ?thesis using Suc by (simp add: funpow_Suc_right del: funpow.simps(2))
  qed
qed

section \<open>A concrete sender\<close>

definition example_metadata :: ymodem_file_metadata where
  "example_metadata =
     \<lparr>ym_file_name = [97], ym_total_bytes = 5, ym_modified_time = 0, ym_mode = 0\<rparr>"

definition example_sender :: ymodem_sender where
  "example_sender =
     \<lparr>ys_config = default_ymodem_config, ys_metadata = example_metadata,
      ys_header_packet = [1, 0, 255] @ (97 # 0 # 53 # 32 # 48 # 32 # 48 # replicate 121 0) @
        u16_be (crc16_xmodem (97 # 0 # 53 # 32 # 48 # 32 # 48 # replicate 121 0)),
      ys_decoder = default_decoder, ys_state = AwaitInitialRequest, ys_actions = [],
      ys_transferred_bytes = 0, ys_next_block_number = 1, ys_packets_sent = 0\<rparr>"

lemma example_sender_new: "ys_new example_metadata default_ymodem_config = Inr example_sender"
proof -
  have hdr: "ymodem_header_text example_metadata = [97, 0, 53, 32, 48, 32, 48]"
    by (simp add: example_metadata_def ymodem_header_text_def show_radix.simps utf8_Cons_ascii
        utf8_append)
  show ?thesis
    by (simp add: ys_new_def create_ymodem_file_header_def hdr encode_ymodem_packet_def
        example_sender_def)
qed

section \<open>Properties\<close>

text \<open>C24: In every state a sender can reach by input, chunks, timeouts, cancellation and draining,
  the acknowledged bytes stay within the file size, every counter within the retry limit, the
  buffered frame within 1029 bytes, each source request between 1 and 1024 bytes, and a completion
  is reported only when all bytes of the file were acknowledged.\<close>

theorem ymodem_sender_invariant:
  assumes "ys_new m c = Inr s" and "ymodem_config_ok c" and "ys_step\<^sup>*\<^sup>* s t"
  shows "ys_inv t"
  using assms(3) ys_new_inv [OF assms(1,2)] by (rule ys.reach_inv)

theorem ymodem_sender_invariant_witness: "ys_inv (ys_cancel example_sender)"
proof (rule ymodem_sender_invariant [OF example_sender_new])
  show "ys_step\<^sup>*\<^sup>* example_sender (ys_cancel example_sender)"
    by (rule r_into_rtranclp) (rule step_cancel)
qed simp

text \<open>A sender that completed or failed is inert: whatever is done to it afterwards, its only
  change is that queued actions are taken from the front of the queue.\<close>

theorem ymodem_sender_terminal_inert:
  assumes "ys_is_terminal s" and "ys_step\<^sup>*\<^sup>* s t"
  shows "\<exists>k. t = s\<lparr>ys_actions := drop k (ys_actions s)\<rparr>"
proof -
  have "ys_drained s s" using assms(1) by (auto simp: ys_drained_def intro: exI [of _ 0])
  with assms(2) have "ys_drained s t"
    by (induction rule: rtranclp_induct) (auto intro: ys_step_drained)
  then show ?thesis by (simp add: ys_drained_def)
qed

theorem ymodem_sender_terminal_inert_witness:
  "\<exists>k. fst (ys_next_action (ys_cancel example_sender)) =
     (ys_cancel example_sender)\<lparr>ys_actions := drop k (ys_actions (ys_cancel example_sender))\<rparr>"
proof (rule ymodem_sender_terminal_inert)
  show "ys_is_terminal (ys_cancel example_sender)"
    by (simp add: ys_cancel_def ys_is_terminal_def ys_fail_def)
  show "ys_step\<^sup>*\<^sup>* (ys_cancel example_sender) (fst (ys_next_action (ys_cancel example_sender)))"
    by (rule r_into_rtranclp) (rule step_next)
qed

text \<open>C25: No peer can keep a sender busy for ever: the relation of its effective turns (an event
  that changes it, an accepted chunk, an accepted timeout, a cancellation) is well founded on
  valid states, so every transfer makes finitely many turns, whatever the peer answers.\<close>

theorem ymodem_sender_terminates: "wf {(t, s). ys_inv s \<and> ys_turn s t}"
proof (rule wf_subset)
  show "wf (inv_image rank_less ys_rank)" by (intro wf_inv_image wf_lex_prod wf_less_than)
  show "{(t, s). ys_inv s \<and> ys_turn s t} \<subseteq> inv_image rank_less ys_rank"
    using ys_turn_rank by (auto simp: inv_image_def simp del: in_lex_prod)
qed

text \<open>A silent peer ends the transfer: unless the sender waits for its own file, one timeout
  more than the retry limit in a row makes it terminal.\<close>

theorem ymodem_sender_timeouts_end:
  assumes "ys_inv s" and "ys_awaits_peer s"
  shows "ys_is_terminal
    (((\<lambda>s. fst (ys_on_timeout s)) ^^ (yc_retry_limit (ys_config s) + 1)) s)"
  using assms ys_timeouts_left_bound [OF assms(1)] by (rule ys_timeouts_run)

theorem ymodem_sender_timeouts_end_witness:
  "ys_is_terminal (((\<lambda>s. fst (ys_on_timeout s)) ^^ (yc_retry_limit (ys_config example_sender) + 1))
     example_sender)"
proof (rule ymodem_sender_timeouts_end)
  show "ys_inv example_sender" by (rule ys_new_inv [OF example_sender_new]) simp
  show "ys_awaits_peer example_sender" by (simp add: ys_awaits_peer_def example_sender_def)
qed

end
