(* ===== verification/Ymodem_Receiver.thy ===== *)
theory Ymodem_Receiver
  imports Ymodem_Wire
begin

text \<open>
  \<^verbatim>\<open>YmodemReceiver\<close> of \<^verbatim>\<open>crates/netcatty-serial/src/ymodem.rs\<close>: the receiving state machine and
  its queue of actions.  \<open>sink_step\<close> is the contract of the native adapter that executes these
  actions: which sequences of open, write and completion it has to be prepared for.
\<close>

section \<open>The machine\<close>

record ymodem_receive_file_summary =
  yrs_file_name :: rstr
  yrs_total_bytes :: nat
  yrs_written_bytes :: nat

datatype ymodem_receiver_action =
    Write bytes
  | BeginFile ymodem_file_metadata
  | WriteFile bytes
  | Progress ymodem_progress
  | FileCompleted ymodem_receive_file_summary
  | BatchCompleted nat nat bytes
  | Failed ymodem_error

datatype receiver_state =
    AwaitHeader nat
  | AwaitFileAcceptance
  | AwaitData byte nat
  | AwaitFileWrite byte nat
  | AwaitSecondEot nat
  | Terminal

record ymodem_receiver =
  yr_config :: ymodem_config
  yr_decoder :: ymodem_wire_decoder
  yr_state :: receiver_state
  yr_actions :: "ymodem_receiver_action list"
  yr_current_file :: "ymodem_file_metadata option"
  yr_current_written :: nat
  yr_completed_files :: nat
  yr_completed_bytes :: nat

definition yr_new :: "ymodem_config \<Rightarrow> ymodem_receiver" where
  "yr_new config =
     \<lparr>yr_config = config, yr_decoder = default_decoder, yr_state = AwaitHeader 0,
      yr_actions = [Write [YMODEM_CRC16]], yr_current_file = None, yr_current_written = 0,
      yr_completed_files = 0, yr_completed_bytes = 0\<rparr>"

definition yr_next_action ::
    "ymodem_receiver \<Rightarrow> ymodem_receiver \<times> ymodem_receiver_action option" where
  "yr_next_action s =
     (case yr_actions s of [] \<Rightarrow> (s, None) | a # rest \<Rightarrow> (s\<lparr>yr_actions := rest\<rparr>, Some a))"

definition yr_is_terminal :: "ymodem_receiver \<Rightarrow> bool" where
  "yr_is_terminal s \<longleftrightarrow> yr_state s = Terminal"

definition yr_timeout :: "ymodem_receiver \<Rightarrow> nat option" where
  "yr_timeout s =
     (case yr_state s of
        AwaitHeader _ \<Rightarrow> Some (yc_timeout (yr_config s))
      | AwaitData _ _ \<Rightarrow> Some (yc_timeout (yr_config s))
      | AwaitSecondEot _ \<Rightarrow> Some (yc_timeout (yr_config s))
      | _ \<Rightarrow> None)"

definition yr_emit :: "ymodem_receiver_action \<Rightarrow> ymodem_receiver \<Rightarrow> ymodem_receiver" where
  "yr_emit a s = s\<lparr>yr_actions := yr_actions s @ [a]\<rparr>"

definition yr_fail :: "ymodem_receiver \<Rightarrow> ymodem_error \<Rightarrow> ymodem_receiver" where
  "yr_fail s e = (yr_emit (Failed e) s)\<lparr>yr_state := Terminal\<rparr>"

definition yr_accept_file :: "ymodem_receiver \<Rightarrow> ymodem_receiver \<times> (ymodem_error + unit)" where
  "yr_accept_file s =
     (if yr_state s \<noteq> AwaitFileAcceptance then (s, Inl InvalidState)
      else case yr_current_file s of
        None \<Rightarrow> (s, Inl InvalidState)
      | Some metadata \<Rightarrow>
          ((yr_emit (Progress \<lparr>yp_transferred_bytes = 0,
              yp_total_bytes = ym_total_bytes metadata, yp_stage = Header\<rparr>)
             (yr_emit (Write [YMODEM_CRC16]) s))\<lparr>yr_state := AwaitData 1 0\<rparr>, Inr ()))"

definition yr_confirm_file_write :: "ymodem_receiver \<Rightarrow> ymodem_receiver \<times> (ymodem_error + unit)" where
  "yr_confirm_file_write s =
     (case yr_state s of
        AwaitFileWrite expected_block written_bytes \<Rightarrow>
          let s = s\<lparr>yr_current_written := yr_current_written s + written_bytes\<rparr>
          in (case yr_current_file s of
                None \<Rightarrow> (s, Inl InvalidState)
              | Some metadata \<Rightarrow>
                  ((yr_emit (Progress \<lparr>yp_transferred_bytes = yr_current_written s,
                      yp_total_bytes = ym_total_bytes metadata, yp_stage = Data\<rparr>)
                     (yr_emit (Write [YMODEM_ACK]) s))
                     \<lparr>yr_state := AwaitData (expected_block + 1) 0\<rparr>, Inr ()))
      | _ \<Rightarrow> (s, Inl InvalidState))"

definition yr_on_timeout :: "ymodem_receiver \<Rightarrow> ymodem_receiver \<times> (ymodem_error + unit)" where
  "yr_on_timeout s =
     (if yr_is_terminal s then (s, Inl InvalidState)
      else let s = s\<lparr>yr_decoder := decoder_reset (yr_decoder s)\<rparr>;
               limit = yc_retry_limit (yr_config s)
      in case yr_state s of
        AwaitHeader rejected \<Rightarrow>
          (if limit \<le> rejected + 1 then yr_fail s RetryLimit
           else (yr_emit (Write [YMODEM_CRC16]) s)\<lparr>yr_state := AwaitHeader (rejected + 1)\<rparr>, Inr ())
      | AwaitData expected_block rejected \<Rightarrow>
          (if limit < rejected + 1 then yr_fail s RetryLimit
           else (yr_emit (Write [YMODEM_NAK]) s)
                  \<lparr>yr_state := AwaitData expected_block (rejected + 1)\<rparr>, Inr ())
      | AwaitSecondEot retries \<Rightarrow>
          (if limit < retries + 1 then yr_fail s RetryLimit
           else (yr_emit (Write [YMODEM_NAK]) s)\<lparr>yr_state := AwaitSecondEot (retries + 1)\<rparr>, Inr ())
      | AwaitFileAcceptance \<Rightarrow> (s, Inl InvalidState)
      | AwaitFileWrite _ _ \<Rightarrow> (s, Inl InvalidState)
      | Terminal \<Rightarrow> (s, Inl InvalidState))"

definition yr_cancel :: "ymodem_receiver \<Rightarrow> ymodem_receiver" where
  "yr_cancel s =
     (if yr_is_terminal s then s
      else yr_fail (yr_emit (Write YMODEM_CANCEL_SEQUENCE) s) Cancelled)"

definition yr_reject_header :: "ymodem_receiver \<Rightarrow> nat \<Rightarrow> ymodem_receiver" where
  "yr_reject_header s rejected =
     (if yc_retry_limit (yr_config s) \<le> rejected + 1 then yr_fail s RetryLimit
      else (yr_emit (Write [YMODEM_CRC16]) (yr_emit (Write [YMODEM_NAK]) s))
             \<lparr>yr_state := AwaitHeader (rejected + 1)\<rparr>)"

definition yr_handle_header :: "ymodem_receiver \<Rightarrow> ymodem_wire_event \<Rightarrow> nat \<Rightarrow> ymodem_receiver" where
  "yr_handle_header s event rejected =
     (case event of
        Packet block_number payload valid \<Rightarrow>
          if block_number = 0 \<and> valid then
            (case parse_ymodem_file_header payload of
               Inr (Some metadata) \<Rightarrow>
                 (yr_emit (BeginFile metadata) (yr_emit (Write [YMODEM_ACK]) s))
                   \<lparr>yr_current_file := Some metadata, yr_current_written := 0,
                    yr_state := AwaitFileAcceptance\<rparr>
             | Inr None \<Rightarrow>
                 (yr_emit (BatchCompleted (yr_completed_files s) (yr_completed_bytes s) [])
                   (yr_emit (Write [YMODEM_ACK]) s))\<lparr>yr_state := Terminal\<rparr>
             | Inl e \<Rightarrow> yr_fail s e)
          else if block_number = 255 \<and> valid then
            yr_emit (Write [YMODEM_CRC16]) (yr_emit (Write [YMODEM_ACK]) s)
          else yr_reject_header s rejected
      | EndOfFile \<Rightarrow> yr_emit (Write [YMODEM_CRC16]) (yr_emit (Write [YMODEM_ACK]) s)
      | Unexpected b \<Rightarrow> yr_fail s (UnexpectedByte b)
      | Control _ \<Rightarrow> s
      | RemoteCancel \<Rightarrow> yr_reject_header s rejected)"

definition yr_accept_block :: "ymodem_receiver \<Rightarrow> byte \<Rightarrow> bytes \<Rightarrow> ymodem_receiver" where
  "yr_accept_block s expected_block payload =
     (let remaining = (case yr_current_file s of
            Some file \<Rightarrow> ym_total_bytes file - yr_current_written s | None \<Rightarrow> 0);
          written_bytes = min remaining (length payload)
      in if written_bytes = 0
         then (yr_emit (Write [YMODEM_ACK]) s)\<lparr>yr_state := AwaitData (expected_block + 1) 0\<rparr>
         else (yr_emit (WriteFile (take written_bytes payload)) s)
                \<lparr>yr_state := AwaitFileWrite expected_block written_bytes\<rparr>)"

definition yr_reject_data :: "ymodem_receiver \<Rightarrow> byte \<Rightarrow> nat \<Rightarrow> ymodem_receiver" where
  "yr_reject_data s expected_block rejected =
     (if yc_retry_limit (yr_config s) < rejected + 1 then yr_fail s RetryLimit
      else (yr_emit (Write [YMODEM_NAK]) s)\<lparr>yr_state := AwaitData expected_block (rejected + 1)\<rparr>)"

definition yr_handle_data ::
    "ymodem_receiver \<Rightarrow> ymodem_wire_event \<Rightarrow> byte \<Rightarrow> nat \<Rightarrow> ymodem_receiver" where
  "yr_handle_data s event expected_block rejected =
     (case event of
        EndOfFile \<Rightarrow> (yr_emit (Write [YMODEM_NAK]) s)\<lparr>yr_state := AwaitSecondEot 0\<rparr>
      | Packet block_number payload valid \<Rightarrow>
          if valid \<and> block_number = expected_block then yr_accept_block s expected_block payload
          else if valid \<and> block_number = expected_block - 1
          then (yr_emit (Write [YMODEM_ACK]) s)\<lparr>yr_state := AwaitData expected_block rejected\<rparr>
          else yr_reject_data s expected_block rejected
      | Unexpected b \<Rightarrow> yr_fail s (UnexpectedByte b)
      | Control _ \<Rightarrow> s\<lparr>yr_state := AwaitData expected_block rejected\<rparr>
      | RemoteCancel \<Rightarrow> yr_reject_data s expected_block rejected)"

definition yr_finish_current_file :: "ymodem_receiver \<Rightarrow> ymodem_receiver" where
  "yr_finish_current_file s =
     (let s = yr_emit (Write [YMODEM_ACK]) s in
      case yr_current_file s of
        None \<Rightarrow> yr_fail s InvalidState
      | Some metadata \<Rightarrow>
          let s = s\<lparr>yr_current_file := None\<rparr> in
          if yr_current_written s \<noteq> ym_total_bytes metadata then yr_fail s IncompleteFile
          else
            let s = s\<lparr>yr_completed_files := yr_completed_files s + 1,
                      yr_completed_bytes := yr_completed_bytes s + yr_current_written s\<rparr>;
                s = yr_emit (FileCompleted \<lparr>yrs_file_name = ym_file_name metadata,
                      yrs_total_bytes = ym_total_bytes metadata,
                      yrs_written_bytes = yr_current_written s\<rparr>) s
            in (yr_emit (Write [YMODEM_CRC16]) s)\<lparr>yr_state := AwaitHeader 0\<rparr>)"

definition yr_handle_event :: "ymodem_receiver \<Rightarrow> ymodem_wire_event \<Rightarrow> ymodem_receiver" where
  "yr_handle_event s event =
     (if event = RemoteCancel then yr_fail s RemoteCancelled
      else case yr_state s of
        AwaitHeader rejected \<Rightarrow> yr_handle_header s event rejected
      | AwaitData expected_block rejected \<Rightarrow> yr_handle_data s event expected_block rejected
      | AwaitSecondEot _ \<Rightarrow>
          if event = EndOfFile then yr_finish_current_file s else yr_fail s EndOfFileExpected
      | AwaitFileAcceptance \<Rightarrow> yr_fail s UnexpectedFrame
      | AwaitFileWrite _ _ \<Rightarrow> yr_fail s UnexpectedFrame
      | Terminal \<Rightarrow> s)"

definition yr_set_terminal_bytes :: "ymodem_receiver \<Rightarrow> bytes \<Rightarrow> ymodem_receiver" where
  "yr_set_terminal_bytes s rest =
     (case rev (yr_actions s) of
        BatchCompleted files bs _ # before \<Rightarrow>
          s\<lparr>yr_actions := rev before @ [BatchCompleted files bs rest]\<rparr>
      | _ \<Rightarrow> s)"

fun yr_push_loop :: "ymodem_receiver \<Rightarrow> bytes \<Rightarrow> ymodem_receiver" where
  "yr_push_loop s [] = s"
| "yr_push_loop s (b # bs) =
     (case push_byte (yr_decoder s) b of
        (d, None) \<Rightarrow> yr_push_loop (s\<lparr>yr_decoder := d\<rparr>) bs
      | (d, Some event) \<Rightarrow>
          let s = s\<lparr>yr_decoder := d\<rparr>
          in if yr_is_terminal s then s
             else let s = yr_handle_event s event
                  in if yr_is_terminal s then yr_set_terminal_bytes s bs
                     else yr_push_loop s bs)"

definition yr_push_serial_bytes ::
    "ymodem_receiver \<Rightarrow> bytes \<Rightarrow> ymodem_receiver \<times> (ymodem_error + unit)" where
  "yr_push_serial_bytes s bs =
     (if yr_is_terminal s then (s, Inl InvalidState)
      else if MAX_YMODEM_INPUT_BYTES < length bs
      then (s, Inl (InputTooLarge MAX_YMODEM_INPUT_BYTES))
      else (yr_push_loop s bs, Inr ()))"

section \<open>The contract of the file sink\<close>

datatype sink = Closed | Opened nat bytes

definition sink_step :: "sink \<Rightarrow> ymodem_receiver_action \<Rightarrow> sink option" where
  "sink_step k a =
     (case (k, a) of
        (Closed, BeginFile m) \<Rightarrow>
          if safe_file_name (ym_file_name m) \<and> ym_total_bytes m \<le> MAX_YMODEM_FILE_BYTES
          then Some (Opened (ym_total_bytes m) []) else None
      | (Opened n content, WriteFile bs) \<Rightarrow>
          if bs \<noteq> [] \<and> length bs \<le> 1024 \<and> length content + length bs \<le> n
          then Some (Opened n (content @ bs)) else None
      | (Opened n content, Progress p) \<Rightarrow>
          if yp_transferred_bytes p = length content \<and> yp_total_bytes p = n then Some k else None
      | (Opened n content, FileCompleted f) \<Rightarrow>
          if length content = n \<and> yrs_total_bytes f = n \<and> yrs_written_bytes f = n
          then Some Closed else None
      | (Closed, BatchCompleted files sum_bytes rest) \<Rightarrow> Some k
      | (_, Write bs) \<Rightarrow> Some k
      | (_, Failed e) \<Rightarrow> Some k
      | _ \<Rightarrow> None)"

definition sink_run :: "sink \<Rightarrow> ymodem_receiver_action list \<Rightarrow> sink option" where
  "sink_run k as = foldl (\<lambda>k a. Option.bind k (\<lambda>k. sink_step k a)) (Some k) as"

lemma sink_run_Nil [simp]: "sink_run k [] = Some k"
  by (simp add: sink_run_def)

lemma sink_run_snoc [simp]: "sink_run k (as @ [a]) = Option.bind (sink_run k as) (\<lambda>k. sink_step k a)"
  by (simp add: sink_run_def)

lemma sink_run_snoc2 [simp]:
  "sink_run k (as @ [a, b]) =
     Option.bind (Option.bind (sink_run k as) (\<lambda>k. sink_step k a)) (\<lambda>k. sink_step k b)"
  by (simp add: sink_run_def)

lemma sink_run_prefix: "sink_run k (as @ bs) \<noteq> None \<Longrightarrow> sink_run k as \<noteq> None"
proof (induction bs rule: rev_induct)
  case (snoc b bs)
  then have "sink_run k (as @ bs) \<noteq> None"
    using sink_run_snoc [of k "as @ bs" b] by (cases "sink_run k (as @ bs)") auto
  then show ?case by (rule snoc.IH)
qed simp

lemma sink_step_simps [simp]:
  "sink_step k (Write bs) = Some k"
  "sink_step k (Failed e) = Some k"
  "sink_step Closed (BatchCompleted files sum_bytes rest) = Some Closed"
  by (simp_all add: sink_step_def split: sink.split)

section \<open>Steps and invariant\<close>

text \<open>The steps carry the actions the adapter has already taken from the queue.\<close>

inductive yr_step ::
    "ymodem_receiver \<times> ymodem_receiver_action list \<Rightarrow>
     ymodem_receiver \<times> ymodem_receiver_action list \<Rightarrow> bool" where
  step_next: "yr_step (s, log) (fst (yr_next_action s), log @ take 1 (yr_actions s))"
| step_push: "yr_step (s, log) (fst (yr_push_serial_bytes s bs), log)"
| step_accept: "yr_step (s, log) (fst (yr_accept_file s), log)"
| step_confirm: "yr_step (s, log) (fst (yr_confirm_file_write s), log)"
| step_timeout: "yr_step (s, log) (fst (yr_on_timeout s), log)"
| step_cancel: "yr_step (s, log) (yr_cancel s, log)"

text \<open>What the state of the machine says about the sink, once the queue is executed.\<close>

definition yr_sink_ok :: "ymodem_receiver \<Rightarrow> sink option \<Rightarrow> bool" where
  "yr_sink_ok s k \<longleftrightarrow>
     (let limit = yc_retry_limit (yr_config s); written = yr_current_written s in
      case yr_state s of
        AwaitHeader r \<Rightarrow> r < limit \<and> k = Some Closed
      | AwaitFileAcceptance \<Rightarrow>
          written = 0 \<and> (\<exists>m. yr_current_file s = Some m \<and> k = Some (Opened (ym_total_bytes m) []))
      | AwaitData b r \<Rightarrow>
          r \<le> limit \<and> (\<exists>m content. yr_current_file s = Some m \<and>
            k = Some (Opened (ym_total_bytes m) content) \<and>
            length content = written \<and> written \<le> ym_total_bytes m)
      | AwaitFileWrite b n \<Rightarrow>
          0 < n \<and> (\<exists>m content. yr_current_file s = Some m \<and>
            k = Some (Opened (ym_total_bytes m) content) \<and>
            length content = written + n \<and> written + n \<le> ym_total_bytes m)
      | AwaitSecondEot r \<Rightarrow>
          r \<le> limit \<and> (\<exists>m content. yr_current_file s = Some m \<and>
            k = Some (Opened (ym_total_bytes m) content) \<and>
            length content = written \<and> written \<le> ym_total_bytes m)
      | Terminal \<Rightarrow> k \<noteq> None)"

definition yr_inv :: "ymodem_receiver_action list \<Rightarrow> ymodem_receiver \<Rightarrow> bool" where
  "yr_inv log s \<longleftrightarrow>
     ymodem_config_ok (yr_config s) \<and> decoder_inv (yr_decoder s) \<and>
     yr_sink_ok s (sink_run Closed (log @ yr_actions s))"

lemma yr_sink_ok_frame [simp]:
  "yr_sink_ok (s\<lparr>yr_decoder := d\<rparr>) k = yr_sink_ok s k"
  "yr_sink_ok (s\<lparr>yr_actions := as\<rparr>) k = yr_sink_ok s k"
  by (cases "yr_state s"; simp add: yr_sink_ok_def)+

lemmas yr_inv_defs = yr_inv_def yr_sink_ok_def Let_def
lemmas yr_op_defs = yr_emit_def yr_fail_def

lemma yr_run_emit [simp]:
  "sink_run k (log @ yr_actions (yr_emit a s)) =
     Option.bind (sink_run k (log @ yr_actions s)) (\<lambda>k. sink_step k a)"
  using sink_run_snoc [of k "log @ yr_actions s" a] by (simp add: yr_emit_def)

lemma yr_emit_sel [simp]:
  "yr_config (yr_emit a s) = yr_config s" "yr_decoder (yr_emit a s) = yr_decoder s"
  "yr_state (yr_emit a s) = yr_state s" "yr_current_file (yr_emit a s) = yr_current_file s"
  "yr_current_written (yr_emit a s) = yr_current_written s"
  by (simp_all add: yr_emit_def)

lemma yr_sink_some: "yr_inv log s \<Longrightarrow> \<exists>k. sink_run Closed (log @ yr_actions s) = Some k"
  by (cases "yr_state s") (auto simp: yr_inv_defs)

lemma yr_new_inv: "ymodem_config_ok c \<Longrightarrow> yr_inv [] (yr_new c)"
  using sink_run_snoc [of Closed "[]" "Write [YMODEM_CRC16]"]
  by (simp add: yr_inv_defs yr_new_def ymodem_config_ok_def)

lemma yr_fail_inv: "yr_inv log s \<Longrightarrow> yr_inv log (yr_fail s e)"
  using yr_sink_some [of log s] by (auto simp: yr_inv_defs yr_fail_def)

lemma yr_write_inv:
  assumes "yr_inv log s" shows "yr_inv log (yr_emit (Write bs) s)"
proof -
  have "yr_sink_ok (yr_emit (Write bs) s) k = yr_sink_ok s k" for k
    by (simp add: yr_emit_def)
  then show ?thesis
    using assms yr_sink_some [of log s] by (auto simp: yr_inv_def)
qed

lemma yr_handle_header_inv:
  assumes "yr_inv log s" and "yr_state s = AwaitHeader r"
  shows "yr_inv log (yr_handle_header s e r)"
proof -
  have k: "sink_run Closed (log @ yr_actions s) = Some Closed"
    and r: "r < yc_retry_limit (yr_config s)" and s: "ymodem_config_ok (yr_config s)"
      "decoder_inv (yr_decoder s)"
    using assms by (auto simp: yr_inv_defs)
  have rej: "yr_inv log (yr_reject_header s r)"
    using k s by (auto simp: yr_reject_header_def yr_inv_defs yr_fail_def)
  show ?thesis
  proof (cases e)
    case (Packet n payload valid)
    have hdr: "safe_file_name (ym_file_name m) \<and> ym_total_bytes m \<le> MAX_YMODEM_FILE_BYTES"
      if "parse_ymodem_file_header payload = Inr (Some m)" for m
      using parsed_header_safe [OF that] by simp
    have opens: "yr_inv log ((yr_emit (BeginFile m) (yr_emit (Write [YMODEM_ACK]) s))
        \<lparr>yr_current_file := Some m, yr_current_written := 0, yr_state := AwaitFileAcceptance\<rparr>)"
      if "parse_ymodem_file_header payload = Inr (Some m)" for m
      using k s hdr [OF that] by (simp add: yr_inv_defs sink_step_def)
    have closes: "yr_inv log ((yr_emit (BatchCompleted (yr_completed_files s) (yr_completed_bytes s) [])
        (yr_emit (Write [YMODEM_ACK]) s))\<lparr>yr_state := Terminal\<rparr>)"
      using k s by (simp add: yr_inv_defs)
    show ?thesis
      using Packet rej opens closes assms(1)
      by (auto simp: yr_handle_header_def yr_fail_inv yr_write_inv split: sum.split option.split)
  qed (use assms rej in \<open>simp_all add: yr_handle_header_def yr_fail_inv yr_write_inv\<close>)
qed

lemma yr_accept_block_inv:
  assumes "yr_inv log s" and "yr_state s = AwaitData b r" and "length payload \<le> 1024"
  shows "yr_inv log (yr_accept_block s b payload)"
proof -
  obtain m content where m: "yr_current_file s = Some m"
    "sink_run Closed (log @ yr_actions s) = Some (Opened (ym_total_bytes m) content)"
    "length content = yr_current_written s" "yr_current_written s \<le> ym_total_bytes m"
    using assms by (auto simp: yr_inv_defs)
  have s: "ymodem_config_ok (yr_config s)" "decoder_inv (yr_decoder s)"
    using assms by (auto simp: yr_inv_defs)
  show ?thesis
    using m s assms(3) by (auto simp: yr_accept_block_def yr_inv_defs sink_step_def)
qed

lemma yr_handle_data_inv:
  assumes "yr_inv log s" and "yr_state s = AwaitData b r" and "event_ok e"
  shows "yr_inv log (yr_handle_data s e b r)"
proof -
  obtain m content where m: "yr_current_file s = Some m"
    "sink_run Closed (log @ yr_actions s) = Some (Opened (ym_total_bytes m) content)"
    "length content = yr_current_written s" "yr_current_written s \<le> ym_total_bytes m"
    "r \<le> yc_retry_limit (yr_config s)"
    using assms by (auto simp: yr_inv_defs)
  have s: "ymodem_config_ok (yr_config s)" "decoder_inv (yr_decoder s)"
    using assms by (auto simp: yr_inv_defs)
  have rej: "yr_inv log (yr_reject_data s b r)"
    using m s by (auto simp: yr_reject_data_def yr_inv_defs yr_fail_def)
  have same: "s\<lparr>yr_state := AwaitData b r\<rparr> = s"
    using assms(2) by simp
  have ack: "yr_inv log ((yr_emit (Write [YMODEM_ACK]) s)\<lparr>yr_state := AwaitData b r\<rparr>)"
    and nak: "yr_inv log ((yr_emit (Write [YMODEM_NAK]) s)\<lparr>yr_state := AwaitSecondEot 0\<rparr>)"
    using m s by (auto simp: yr_inv_defs)
  show ?thesis
    using assms rej ack nak
    by (cases e)
      (auto simp: yr_handle_data_def same yr_fail_inv intro: yr_accept_block_inv)
qed

lemma yr_finish_inv:
  assumes "yr_inv log s" and "yr_state s = AwaitSecondEot r"
  shows "yr_inv log (yr_finish_current_file s)"
proof -
  obtain m content where m: "yr_current_file s = Some m"
    "sink_run Closed (log @ yr_actions s) = Some (Opened (ym_total_bytes m) content)"
    "length content = yr_current_written s" "yr_current_written s \<le> ym_total_bytes m"
    using assms by (auto simp: yr_inv_defs)
  have s: "ymodem_config_ok (yr_config s)" "decoder_inv (yr_decoder s)"
    using assms by (auto simp: yr_inv_defs)
  then have limit: "0 < yc_retry_limit (yr_config s)" by (simp add: ymodem_config_ok_def)
  define t where "t = yr_emit (Write [YMODEM_ACK]) s"
  have t: "yr_current_file t = Some m" "yr_config t = yr_config s" "yr_decoder t = yr_decoder s"
    "sink_run Closed (log @ yr_actions t) = Some (Opened (ym_total_bytes m) content)"
    "yr_current_written t = yr_current_written s"
    using m by (simp_all add: t_def)
  have other: "yr_actions (t\<lparr>yr_current_file := x, yr_completed_files := y, yr_completed_bytes := z\<rparr>) =
      yr_actions t" for x y z by simp
  show ?thesis
    using t m s limit
    unfolding yr_finish_current_file_def t_def [symmetric]
    by (auto simp: yr_inv_defs yr_fail_def sink_step_def)
qed

lemma yr_handle_event_inv:
  assumes "yr_inv log s" and "event_ok e"
  shows "yr_inv log (yr_handle_event s e)"
  using assms
  by (cases "yr_state s")
    (auto simp: yr_handle_event_def intro: yr_handle_header_inv yr_handle_data_inv yr_finish_inv yr_fail_inv)

lemma yr_decoder_inv: "yr_inv log s \<Longrightarrow> decoder_inv d \<Longrightarrow> yr_inv log (s\<lparr>yr_decoder := d\<rparr>)"
  by (simp add: yr_inv_def)

lemma yr_terminal_bytes_inv: "yr_inv log s \<Longrightarrow> yr_inv log (yr_set_terminal_bytes s bs)"
proof -
  assume s: "yr_inv log s"
  show ?thesis
  proof (cases "rev (yr_actions s)")
    case (Cons a before)
    then have a: "yr_actions s = rev before @ [a]" by (metis rev.simps(2) rev_rev_ident)
    show ?thesis
    proof (cases a)
      case (BatchCompleted f n old)
      have "sink_step k (BatchCompleted f n old) = sink_step k (BatchCompleted f n bs)" for k
        by (cases k) (simp_all add: sink_step_def)
      then have "sink_run Closed (log @ rev before @ [BatchCompleted f n bs]) =
          sink_run Closed (log @ yr_actions s)"
        by (simp only: a BatchCompleted append_assoc [symmetric] sink_run_snoc)
      then show ?thesis
        using s Cons a BatchCompleted by (simp add: yr_set_terminal_bytes_def yr_inv_def)
    qed (simp_all add: yr_set_terminal_bytes_def s Cons)
  qed (simp add: yr_set_terminal_bytes_def s)
qed

interpretation yr_loop: event_loop
  "\<lambda>s b. (s\<lparr>yr_decoder := fst (push_byte (yr_decoder s) b)\<rparr>, snd (push_byte (yr_decoder s) b))"
  yr_handle_event yr_is_terminal yr_set_terminal_bytes yr_push_loop
  by unfold_locales
    (auto simp: yr_is_terminal_def yr_set_terminal_bytes_def Let_def split: prod.splits option.splits
      list.split ymodem_receiver_action.split)

lemma yr_push_loop_inv: "yr_inv log s \<Longrightarrow> yr_inv log (yr_push_loop s bs)"
proof (rule yr_loop.run_invariant [where E = event_ok])
  fix s b
  assume s: "yr_inv log s"
  then show "yr_inv log (fst (s\<lparr>yr_decoder := fst (push_byte (yr_decoder s) b)\<rparr>,
      snd (push_byte (yr_decoder s) b)))"
    using yr_decoder_inv [OF _ push_byte_inv] by (simp add: yr_inv_def)
  fix e
  assume "snd (s\<lparr>yr_decoder := fst (push_byte (yr_decoder s) b)\<rparr>,
      snd (push_byte (yr_decoder s) b)) = Some e"
  then show "event_ok e"
    using s push_byte_event [of "yr_decoder s" b e] by (auto simp: yr_inv_def)
qed (simp_all add: yr_handle_event_inv yr_terminal_bytes_inv)

lemma yr_accept_inv: "yr_inv log s \<Longrightarrow> yr_inv log (fst (yr_accept_file s))"
  by (cases "yr_state s")
    (auto simp: yr_accept_file_def yr_inv_defs sink_step_def split: option.split)

lemma yr_confirm_inv: "yr_inv log s \<Longrightarrow> yr_inv log (fst (yr_confirm_file_write s))"
  by (cases "yr_state s")
    (auto simp: yr_confirm_file_write_def yr_inv_defs sink_step_def split: option.split)

lemma yr_on_timeout_inv: "yr_inv log s \<Longrightarrow> yr_inv log (fst (yr_on_timeout s))"
proof -
  assume s: "yr_inv log s"
  then obtain k where k: "sink_run Closed (log @ yr_actions s) = Some k"
    using yr_sink_some by blast
  define t where "t = s\<lparr>yr_decoder := decoder_reset (yr_decoder s)\<rparr>"
  have t: "yr_inv log t" "yr_state t = yr_state s" "yr_actions t = yr_actions s"
    using s by (simp_all add: t_def yr_decoder_inv)
  show ?thesis
    using s t k unfolding yr_on_timeout_def t_def [symmetric]
    by (cases "yr_state s") (auto simp: yr_inv_defs yr_fail_def)
qed

lemma yr_next_inv: "yr_inv log s \<Longrightarrow> yr_inv (log @ take 1 (yr_actions s)) (fst (yr_next_action s))"
  by (cases "yr_actions s") (simp_all add: yr_next_action_def yr_inv_def)

lemma yr_cancel_inv: "yr_inv log s \<Longrightarrow> yr_inv log (yr_cancel s)"
  by (simp add: yr_cancel_def yr_fail_inv yr_write_inv)

interpretation yr: transition_system yr_step "\<lambda>(s, log). yr_inv log s"
proof
  fix a b assume "yr_step a b" and "case a of (s, log) \<Rightarrow> yr_inv log s"
  then show "case b of (s, log) \<Rightarrow> yr_inv log s"
    by (induction rule: yr_step.induct)
      (auto simp: yr_push_serial_bytes_def yr_next_inv yr_push_loop_inv yr_accept_inv
        yr_confirm_inv yr_on_timeout_inv yr_cancel_inv simp del: take_Suc_Cons One_nat_def)
qed


definition yr_drained :: "ymodem_receiver \<Rightarrow> ymodem_receiver \<Rightarrow> bool" where
  "yr_drained s t \<longleftrightarrow> yr_is_terminal t \<and> (\<exists>k. t = s\<lparr>yr_actions := drop k (yr_actions s)\<rparr>)"

lemma yr_next_drained: "yr_drained s t \<Longrightarrow> yr_drained s (fst (yr_next_action t))"
proof -
  assume "yr_drained s t"
  then obtain k where t: "t = s\<lparr>yr_actions := drop k (yr_actions s)\<rparr>" and fin: "yr_is_terminal t"
    by (auto simp: yr_drained_def)
  have "fst (yr_next_action t) = s\<lparr>yr_actions := drop 1 (drop k (yr_actions s))\<rparr>"
    by (cases "drop k (yr_actions s)") (simp_all add: t yr_next_action_def)
  then show ?thesis
    using fin by (auto simp: t yr_drained_def yr_is_terminal_def)
qed

lemma yr_step_drained:
  "yr_step (t, log) (u, log') \<Longrightarrow> yr_drained s t \<Longrightarrow> yr_drained s u"
proof (induction "(t, log)" "(u, log')" rule: yr_step.induct)
  case step_next
  then show ?case using yr_next_drained by blast
qed (auto simp: yr_drained_def yr_is_terminal_def yr_push_serial_bytes_def yr_accept_file_def
    yr_confirm_file_write_def yr_on_timeout_def yr_cancel_def)

definition yr_awaits_peer :: "ymodem_receiver \<Rightarrow> bool" where
  "yr_awaits_peer s \<longleftrightarrow>
     (case yr_state s of AwaitFileAcceptance \<Rightarrow> False | AwaitFileWrite _ _ \<Rightarrow> False | _ \<Rightarrow> True)"

definition yr_timeouts_left :: "ymodem_receiver \<Rightarrow> nat" where
  "yr_timeouts_left s =
     (let limit = yc_retry_limit (yr_config s) in case yr_state s of
        AwaitHeader r \<Rightarrow> limit - r
      | AwaitData b r \<Rightarrow> limit + 1 - r
      | AwaitSecondEot r \<Rightarrow> limit + 1 - r
      | _ \<Rightarrow> 0)"

lemma yr_timeouts_left_step:
  assumes "yr_inv log s" and "yr_awaits_peer s" and "\<not> yr_is_terminal s"
  shows "yr_awaits_peer (fst (yr_on_timeout s)) \<and>
    yr_timeouts_left (fst (yr_on_timeout s)) < yr_timeouts_left s"
  using assms
  by (cases "yr_state s")
    (auto simp: yr_awaits_peer_def yr_on_timeout_def yr_is_terminal_def yr_timeouts_left_def
      yr_fail_def yr_inv_defs)

lemma yr_timeouts_run:
  "yr_inv log s \<Longrightarrow> yr_awaits_peer s \<Longrightarrow> yr_timeouts_left s \<le> k \<Longrightarrow>
   yr_is_terminal (((\<lambda>s. fst (yr_on_timeout s)) ^^ k) s)"
proof (induction k arbitrary: s)
  case 0
  then show ?case
    by (cases "yr_state s")
      (auto simp: yr_timeouts_left_def yr_is_terminal_def yr_awaits_peer_def yr_inv_defs)
next
  case (Suc k)
  let ?t = "fst (yr_on_timeout s)"
  show ?case
  proof (cases "yr_is_terminal s")
    case True
    then have "?t = s" by (simp add: yr_on_timeout_def)
    moreover have "yr_timeouts_left s = 0"
      using True by (simp add: yr_is_terminal_def yr_timeouts_left_def)
    ultimately show ?thesis using Suc by (simp add: funpow_Suc_right del: funpow.simps(2))
  next
    case False
    then have "yr_awaits_peer ?t" "yr_timeouts_left ?t < yr_timeouts_left s"
      using yr_timeouts_left_step [OF Suc.prems(1,2)] by auto
    moreover have "yr_inv log ?t" using Suc.prems(1) by (rule yr_on_timeout_inv)
    ultimately show ?thesis using Suc by (simp add: funpow_Suc_right del: funpow.simps(2))
  qed
qed

section \<open>Properties\<close>

text \<open>C18: The receiver keeps its contract with the file sink in every run: the sequence of actions
  it hands out (those taken and those still queued) opens one file at a time under a safe name,
  writes non-empty chunks of at most 1024 bytes that never exceed the announced size, reports
  progress equal to the bytes written, and reports a file complete exactly when the bytes written
  since it was opened are the announced number.\<close>

theorem ymodem_receiver_refines_sink:
  assumes "ymodem_config_ok c" and "yr_step\<^sup>*\<^sup>* (yr_new c, []) (s, log)"
  shows "\<exists>k. sink_run Closed (log @ yr_actions s) = Some k"
  using yr.reach_inv [OF assms(2)] yr_new_inv [OF assms(1)] yr_sink_some by auto

theorem ymodem_receiver_refines_sink_witness:
  "\<exists>k. sink_run Closed ([] @ yr_actions (yr_cancel (yr_new default_ymodem_config))) = Some k"
proof (rule ymodem_receiver_refines_sink)
  show "yr_step\<^sup>*\<^sup>* (yr_new default_ymodem_config, [])
      (yr_cancel (yr_new default_ymodem_config), [])"
    by (rule r_into_rtranclp) (rule step_cancel)
qed simp

text \<open>While it waits for a block, the receiver writes each block once and acknowledges it only
  after the adapter confirmed the write: the expected block is handed to the sink (cut to the
  bytes that remain) without any answer; a repetition of the previous block is acknowledged and
  changes nothing else; a damaged or out-of-order block is rejected, or ends the transfer once
  the retry limit is reached, and nothing is written.\<close>

theorem ymodem_receiver_block:
  assumes "yr_state s = AwaitData b r" and "yr_current_file s = Some m"
    and "yr_current_written s < ym_total_bytes m" and "payload \<noteq> []"
  shows "yr_handle_event s (Packet n payload valid) =
    (let k = min (ym_total_bytes m - yr_current_written s) (length payload)
     in if valid \<and> n = b
        then s\<lparr>yr_actions := yr_actions s @ [WriteFile (take k payload)],
               yr_state := AwaitFileWrite b k\<rparr>
        else if valid \<and> n = b - 1 then s\<lparr>yr_actions := yr_actions s @ [Write [YMODEM_ACK]]\<rparr>
        else if r < yc_retry_limit (yr_config s)
        then s\<lparr>yr_actions := yr_actions s @ [Write [YMODEM_NAK]], yr_state := AwaitData b (r + 1)\<rparr>
        else s\<lparr>yr_actions := yr_actions s @ [Failed RetryLimit], yr_state := Terminal\<rparr>)"
  using assms
  by (cases s)
    (auto simp: yr_handle_event_def yr_handle_data_def yr_accept_block_def yr_reject_data_def
      yr_emit_def yr_fail_def Let_def)

theorem ymodem_receiver_block_witness:
  "yr_handle_event
     ((yr_new default_ymodem_config)\<lparr>yr_state := AwaitData 1 0,
        yr_current_file := Some \<lparr>ym_file_name = [97], ym_total_bytes = 2, ym_modified_time = 0,
          ym_mode = 0\<rparr>\<rparr>)
     (Packet 0 [7] True) =
   (yr_new default_ymodem_config)\<lparr>yr_actions := [Write [YMODEM_CRC16], Write [YMODEM_ACK]],
     yr_state := AwaitData 1 0,
     yr_current_file := Some \<lparr>ym_file_name = [97], ym_total_bytes = 2, ym_modified_time = 0,
       ym_mode = 0\<rparr>\<rparr>"
  by (subst ymodem_receiver_block
      [where b = 1 and r = 0 and m = "\<lparr>ym_file_name = [97], ym_total_bytes = 2,
        ym_modified_time = 0, ym_mode = 0\<rparr>"])
    (simp_all add: yr_new_def Let_def)

text \<open>A receiver that finished or failed is inert: the only later change is that queued
  actions are taken from the front of the queue.\<close>

theorem ymodem_receiver_terminal_inert:
  assumes "yr_is_terminal s" and "yr_step\<^sup>*\<^sup>* (s, log) (t, log')"
  shows "\<exists>k. t = s\<lparr>yr_actions := drop k (yr_actions s)\<rparr>"
proof -
  have "yr_drained s s" using assms(1) by (auto simp: yr_drained_def intro: exI [of _ 0])
  have "yr_drained s (fst (t, log'))"
    using assms(2)
  proof (induction rule: rtranclp_induct)
    case base
    then show ?case using \<open>yr_drained s s\<close> by simp
  next
    case (step y z)
    then show ?case using yr_step_drained [of "fst y" "snd y" "fst z" "snd z" s] by simp
  qed
  then show ?thesis by (simp add: yr_drained_def)
qed

theorem ymodem_receiver_terminal_inert_witness:
  "\<exists>k. fst (yr_next_action (yr_cancel (yr_new default_ymodem_config))) =
     (yr_cancel (yr_new default_ymodem_config))
       \<lparr>yr_actions := drop k (yr_actions (yr_cancel (yr_new default_ymodem_config)))\<rparr>"
proof (rule ymodem_receiver_terminal_inert)
  let ?s = "yr_cancel (yr_new default_ymodem_config)"
  show "yr_is_terminal ?s"
    by (simp add: yr_cancel_def yr_is_terminal_def yr_fail_def)
  show "yr_step\<^sup>*\<^sup>* (?s, []) (fst (yr_next_action ?s), [] @ take 1 (yr_actions ?s))"
    by (rule r_into_rtranclp) (rule step_next)
qed

text \<open>A silent sender ends the reception: in every reachable state in which the receiver waits
  for its peer, one timeout more than the retry limit in a row makes it terminal.\<close>

theorem ymodem_receiver_timeouts_end:
  assumes "ymodem_config_ok c" and "yr_step\<^sup>*\<^sup>* (yr_new c, []) (s, log)" and "yr_awaits_peer s"
  shows "yr_is_terminal
    (((\<lambda>s. fst (yr_on_timeout s)) ^^ (yc_retry_limit (yr_config s) + 1)) s)"
proof -
  have inv: "yr_inv log s"
    using yr.reach_inv [OF assms(2)] yr_new_inv [OF assms(1)] by simp
  have "yr_timeouts_left s \<le> yc_retry_limit (yr_config s) + 1"
    by (cases "yr_state s") (simp_all add: yr_timeouts_left_def)
  with inv assms(3) show ?thesis by (rule yr_timeouts_run)
qed

theorem ymodem_receiver_timeouts_end_witness:
  "yr_is_terminal (((\<lambda>s. fst (yr_on_timeout s)) ^^
     (yc_retry_limit (yr_config (yr_new default_ymodem_config)) + 1)) (yr_new default_ymodem_config))"
  by (rule ymodem_receiver_timeouts_end [of default_ymodem_config, OF _ rtranclp.rtrancl_refl])
    (simp_all add: yr_awaits_peer_def yr_new_def)

end
