(* ===== verification/Ymodem_Session.thy ===== *)
theory Ymodem_Session
  imports Ymodem_Sender Ymodem_Receiver
begin

text \<open>
  A YMODEM sender and a YMODEM receiver of \<^verbatim>\<open>crates/netcatty-serial/src/ymodem.rs\<close> connected by a
  line that loses nothing.  \<open>link_turn\<close> plays the native adapters: it takes the next queued action,
  of the sender while there is one, else of the receiver, and executes it; source reads return the
  file's bytes, sink writes are appended and confirmed.  It is the environment of the two
  machines, not code of the repository.
\<close>

section \<open>The two machines on one line\<close>

record link =
  lk_sender :: ymodem_sender
  lk_receiver :: ymodem_receiver
  lk_offset :: nat
  lk_sink :: bytes
  lk_file :: "rstr option"

definition link_sender_turn :: "bytes \<Rightarrow> link \<Rightarrow> ymodem_sender \<Rightarrow> ymodem_sender_action \<Rightarrow> link" where
  "link_sender_turn source l s a =
     (case a of
        ymodem_sender_action.Write bs \<Rightarrow>
          l\<lparr>lk_sender := s, lk_receiver := fst (yr_push_serial_bytes (lk_receiver l) bs)\<rparr>
      | ReadSource n \<Rightarrow>
          l\<lparr>lk_sender := fst (ys_provide_source_chunk s (take n (drop (lk_offset l) source))),
            lk_offset := lk_offset l + n\<rparr>
      | _ \<Rightarrow> l\<lparr>lk_sender := s\<rparr>)"

definition link_receiver_turn :: "link \<Rightarrow> ymodem_receiver \<Rightarrow> ymodem_receiver_action \<Rightarrow> link" where
  "link_receiver_turn l r a =
     (case a of
        ymodem_receiver_action.Write bs \<Rightarrow>
          l\<lparr>lk_receiver := r, lk_sender := fst (ys_push_serial_bytes (lk_sender l) bs)\<rparr>
      | BeginFile m \<Rightarrow>
          l\<lparr>lk_receiver := fst (yr_accept_file r), lk_file := Some (ym_file_name m)\<rparr>
      | WriteFile bs \<Rightarrow>
          l\<lparr>lk_receiver := fst (yr_confirm_file_write r), lk_sink := lk_sink l @ bs\<rparr>
      | _ \<Rightarrow> l\<lparr>lk_receiver := r\<rparr>)"

definition link_turn :: "bytes \<Rightarrow> link \<Rightarrow> link" where
  "link_turn source l =
     (case ys_next_action (lk_sender l) of
        (s, Some a) \<Rightarrow> link_sender_turn source l s a
      | (_, None) \<Rightarrow>
          (case yr_next_action (lk_receiver l) of
             (r, Some a) \<Rightarrow> link_receiver_turn l r a
           | (_, None) \<Rightarrow> l))"

definition link_new :: "ymodem_sender \<Rightarrow> ymodem_config \<Rightarrow> link" where
  "link_new s c =
     \<lparr>lk_sender = s, lk_receiver = yr_new c, lk_offset = 0, lk_sink = [], lk_file = None\<rparr>"

definition link_complete :: "ymodem_file_metadata \<Rightarrow> bytes \<Rightarrow> link \<Rightarrow> bool" where
  "link_complete m source l \<longleftrightarrow>
     ys_is_terminal (lk_sender l) \<and> yr_is_terminal (lk_receiver l) \<and>
     lk_sink l = source \<and> lk_file l = Some (ym_file_name m) \<and>
     (\<exists>summary. Completed summary [] \<in> set (ys_actions (lk_sender l)) \<and>
        yss_written_bytes summary = length source) \<and>
     BatchCompleted 1 (length source) [] \<in> set (yr_actions (lk_receiver l))"

definition leads :: "bytes \<Rightarrow> link \<Rightarrow> link \<Rightarrow> bool" where
  "leads source l l' \<longleftrightarrow> (\<exists>n. (link_turn source ^^ n) l = l')"

lemma leads_refl: "leads source l l"
  by (auto simp: leads_def intro: exI [of _ 0])

lemma leads_turn: "leads source (link_turn source l) l' \<Longrightarrow> leads source l l'"
  by (metis leads_def funpow_Suc_right comp_apply)

lemma leads_trans: "leads source l l' \<Longrightarrow> leads source l' l'' \<Longrightarrow> leads source l l''"
  by (metis leads_def funpow_add comp_apply)

section \<open>Frames on the line\<close>

lemma yr_push_partial:
  "yd_expected (yr_decoder r) \<noteq> 0 \<Longrightarrow>
   length (yd_packet (yr_decoder r)) + length bs < yd_expected (yr_decoder r) \<Longrightarrow>
   yr_push_loop r (bs @ cs) =
     yr_push_loop (r\<lparr>yr_decoder := (yr_decoder r)\<lparr>yd_packet := yd_packet (yr_decoder r) @ bs\<rparr>\<rparr>) cs"
  by (induction bs arbitrary: r) (simp_all add: push_byte_def)

lemma yr_push_packet:
  assumes "encode_ymodem_packet psize block payload = Inr wire"
    and "yr_decoder r = default_decoder" and "\<not> yr_is_terminal r"
  shows "fst (yr_push_serial_bytes r wire) =
    (let t = yr_handle_event r (Packet block payload True)
     in if yr_is_terminal t then yr_set_terminal_bytes t [] else t)"
  using assms(1)
proof (rule encoded_frame)
  fix x y
  assume w: "wire = packet_header psize # [block, 0xff - block] @ payload @ [x, y]"
    and crc: "[x, y] = u16_be (crc16_xmodem payload)" and len: "length payload = payload_bytes psize"
  define body where "body = [block, 0xff - block] @ payload @ [x]"
  let ?e = "\<lparr>yd_packet = [packet_header psize], yd_expected = payload_bytes psize + 5,
    yd_pending_cancel = False\<rparr>"
  have "push_byte default_decoder (packet_header psize) = (?e, None)"
    by (cases psize) (simp_all add: push_byte_def dispatch_byte_def begin_packet_def default_decoder_def)
  then have "yr_push_loop r wire = yr_push_loop (r\<lparr>yr_decoder := ?e\<rparr>) (body @ [y])"
    using assms(2) by (simp add: w body_def)
  also have "\<dots> = yr_push_loop (r\<lparr>yr_decoder := ?e\<lparr>yd_packet := packet_header psize # body\<rparr>\<rparr>) [y]"
    using yr_push_partial [of "r\<lparr>yr_decoder := ?e\<rparr>" body "[y]"] len by (simp add: body_def)
  also have "push_byte (?e\<lparr>yd_packet := packet_header psize # body\<rparr>) y =
      (default_decoder, Some (Packet block payload True))"
  proof -
    have "packet_event ((packet_header psize # body) @ [y]) = Packet block payload True"
      using packet_event_encoded [of "packet_header psize" block "0xff - block" payload x y]
        u16_of_be_iff [of x y] crc
      by (simp add: body_def)
    then show ?thesis
      using len by (simp add: push_byte_def default_decoder_def body_def)
  qed
  then have "yr_push_loop (r\<lparr>yr_decoder := ?e\<lparr>yd_packet := packet_header psize # body\<rparr>\<rparr>) [y] =
      (let t = yr_handle_event r (Packet block payload True)
       in if yr_is_terminal t then yr_set_terminal_bytes t [] else t)"
    using assms(2,3) by (cases r) (simp add: yr_is_terminal_def Let_def)
  finally show ?thesis
    using assms(3) len
    by (cases psize) (simp_all add: yr_push_serial_bytes_def w MAX_YMODEM_INPUT_BYTES_def)
qed

lemma yr_push_eot:
  assumes "yr_decoder r = default_decoder" and "\<not> yr_is_terminal r"
    and "\<not> yr_is_terminal (yr_handle_event r EndOfFile)"
  shows "fst (yr_push_serial_bytes r [4]) = yr_handle_event r EndOfFile"
proof -
  have same: "r\<lparr>yr_decoder := default_decoder\<rparr> = r" using assms(1) by (cases r) simp
  have p: "push_byte default_decoder 4 = (default_decoder, Some EndOfFile)"
    by (simp add: push_byte_def dispatch_byte_def default_decoder_def)
  show ?thesis
    using assms(2,3)
    by (simp add: yr_push_serial_bytes_def MAX_YMODEM_INPUT_BYTES_def assms(1) p same)
qed

lemma ys_push_control:
  assumes "ys_decoder s = default_decoder" and "\<not> ys_is_terminal s" and "b \<in> {6, 0x15, 0x43}"
  shows "fst (ys_push_serial_bytes s [b]) =
    (let t = ys_handle_event s (Control b)
     in if ys_is_terminal t then ys_set_terminal_bytes t [] else t)"
proof -
  have same: "s\<lparr>ys_decoder := default_decoder\<rparr> = s" using assms(1) by (cases s) simp
  have p: "push_byte default_decoder b = (default_decoder, Some (Control b))"
    using assms(3) by (auto simp: push_byte_def dispatch_byte_def default_decoder_def)
  show ?thesis
    using assms(2)
    by (simp add: ys_push_serial_bytes_def MAX_YMODEM_INPUT_BYTES_def assms(1) p same Let_def)
qed

section \<open>A clean transfer\<close>

abbreviation sndr where
  "sndr c m p st as done b n \<equiv>
     \<lparr>ys_config = c, ys_metadata = m, ys_header_packet = p, ys_decoder = default_decoder,
      ys_state = st, ys_actions = as, ys_transferred_bytes = done, ys_next_block_number = b,
      ys_packets_sent = n\<rparr>"

abbreviation rcvr where
  "rcvr c st as file done files sum_bytes \<equiv>
     \<lparr>yr_config = c, yr_decoder = default_decoder, yr_state = st, yr_actions = as,
      yr_current_file = file, yr_current_written = done, yr_completed_files = files,
      yr_completed_bytes = sum_bytes\<rparr>"

abbreviation lnk where
  "lnk s r off sink file \<equiv>
     \<lparr>lk_sender = s, lk_receiver = r, lk_offset = off, lk_sink = sink, lk_file = file\<rparr>"

lemma turn_sender:
  "ys_actions s = a # as \<Longrightarrow>
   link_turn source (lnk s r off sink file) =
     link_sender_turn source (lnk s r off sink file) (s\<lparr>ys_actions := as\<rparr>) a"
  by (simp add: link_turn_def ys_next_action_def)

lemma turn_receiver:
  "ys_actions s = [] \<Longrightarrow> yr_actions r = a # as \<Longrightarrow>
   link_turn source (lnk s r off sink file) =
     link_receiver_turn (lnk s r off sink file) (r\<lparr>yr_actions := as\<rparr>) a"
  by (simp add: link_turn_def ys_next_action_def yr_next_action_def)

lemmas turn_simps = turn_sender turn_receiver link_sender_turn_def link_receiver_turn_def
  ys_push_control yr_push_eot ys_is_terminal_def yr_is_terminal_def Let_def
lemmas ys_simps = ys_handle_event_def ys_emit_def ys_send_header_def ys_write_header_def
  ys_send_end_packet_def ys_complete_def ys_set_terminal_bytes_def
lemmas yr_simps = yr_handle_event_def yr_emit_def yr_handle_header_def yr_handle_data_def
  yr_accept_file_def yr_confirm_file_write_def yr_finish_current_file_def yr_set_terminal_bytes_def

definition is_progress :: "ymodem_sender_action \<Rightarrow> bool" where
  "is_progress a \<longleftrightarrow> (\<exists>p. a = ymodem_sender_action.Progress p)"

lemma drain_progress:
  "list_all is_progress qs \<Longrightarrow>
   leads source (lnk (sndr c m p st (qs @ as) d b n) r off sink file)
     (lnk (sndr c m p st as d b n) r off sink file)"
proof (induction qs)
  case (Cons q qs)
  then obtain pr where "q = ymodem_sender_action.Progress pr" by (auto simp: is_progress_def)
  then have "link_turn source (lnk (sndr c m p st ((q # qs) @ as) d b n) r off sink file) =
      lnk (sndr c m p st (qs @ as) d b n) r off sink file"
    by (simp add: turn_sender link_sender_turn_def)
  moreover have "leads source (lnk (sndr c m p st (qs @ as) d b n) r off sink file)
      (lnk (sndr c m p st as d b n) r off sink file)"
    using Cons by simp
  ultimately show ?case by (metis leads_turn)
qed (simp add: leads_refl)

lemma request_live [simp]:
  "ys_transferred_bytes s \<le> ym_total_bytes (ys_metadata s) \<Longrightarrow>
   ys_state (ys_request_next_source_or_eot s) \<noteq> sender_state.Terminal"
  by (simp add: ys_request_next_source_or_eot_def ys_emit_def Let_def)

lemma link_header:
  assumes "encode_ymodem_packet psize 0 payload = Inr p"
    and "parse_ymodem_file_header payload = Inr (Some f)"
  shows "\<exists>pr. leads source (link_new (sndr cs m p AwaitInitialRequest [] 0 1 0) cr)
    (lnk (ys_request_next_source_or_eot (sndr cs m p (AwaitDataRequest 0) [] 0 1 1))
       (rcvr cr (AwaitData 1 0) [ymodem_receiver_action.Progress pr] (Some f) 0 0 0)
       0 [] (Some (ym_file_name f)))"
  unfolding link_new_def yr_new_def
  apply (rule exI)
  apply (rule leads_turn, simp add: turn_simps ys_simps)
  apply (rule leads_turn, simp add: turn_simps yr_push_packet [OF assms(1)] yr_simps assms(2))
  apply (rule leads_turn, simp add: turn_simps)
  apply (rule leads_turn, simp add: turn_simps ys_simps)
  apply (rule leads_turn, simp add: turn_simps yr_simps)
  apply (rule leads_turn, simp add: turn_simps)
  apply (simp add: ys_handle_event_def)
  apply (rule leads_refl)
  done

lemma link_block:
  assumes "off < length source" and "ym_total_bytes m = length source"
    and "ym_total_bytes f = length source" and "list_all is_progress qs"
  defines "k \<equiv> min (length source - off) 1024"
  shows "\<exists>packet pr' qs'. list_all is_progress qs' \<and>
    leads source
      (lnk (ys_request_next_source_or_eot (sndr cs m p st qs off b n))
         (rcvr cr (AwaitData b 0) [ymodem_receiver_action.Progress pr] (Some f) off 0 0)
         off (take off source) file)
      (lnk (ys_request_next_source_or_eot
             (sndr cs m p (AwaitDataAck packet k 1) qs' (off + k) (b + 1) (n + 1)))
         (rcvr cr (AwaitData (b + 1) 0) [ymodem_receiver_action.Progress pr'] (Some f) (off + k) 0 0)
         (off + k) (take (off + k) source) file)"
proof -
  define chunk where "chunk = take k (drop off source)"
  have k: "0 < k" "k \<le> 1024" "off + k \<le> length source" using assms(1) by (auto simp: k_def)
  have nz: "k \<noteq> 0" using k by simp
  have len: "length chunk = k" using k by (simp add: chunk_def)
  define pad where "pad = chunk @ replicate (1024 - k) 0x1a"
  obtain packet where packet: "create_ymodem_data_packet b chunk = Inr packet"
    and enc: "encode_ymodem_packet Bytes1024 b pad = Inr packet"
    using k len by (auto simp: create_ymodem_data_packet_def encode_ymodem_packet_def pad_def)
  have cut: "take k pad = chunk" using len by (simp add: pad_def)
  have kk: "min (length source - off) (length pad) = k"
    using len k by (simp add: pad_def k_def)
  have grown: "take off source @ chunk = take (off + k) source"
    by (simp add: chunk_def take_add)
  have ask: "ys_request_next_source_or_eot (sndr cs m p st qs off b n) =
      sndr cs m p (AwaitSource k) (qs @ [ReadSource k]) off b n"
    using assms(1,2) by (simp add: ys_request_next_source_or_eot_def k_def ys_emit_def Let_def)
  let ?r = "rcvr cr (AwaitData b 0) [ymodem_receiver_action.Progress pr] (Some f) off 0 0"
  have "leads source (lnk (sndr cs m p (AwaitSource k) (qs @ [ReadSource k]) off b n) ?r off (take off source) file)
     (lnk (sndr cs m p (AwaitSource k) [ReadSource k] off b n) ?r off (take off source) file)"
    using assms(4) by (rule drain_progress)
  moreover have "\<exists>pr' qs'. list_all is_progress qs' \<and> leads source
     (lnk (sndr cs m p (AwaitSource k) [ReadSource k] off b n) ?r off (take off source) file)
     (lnk (ys_request_next_source_or_eot
             (sndr cs m p (AwaitDataAck packet k 1) qs' (off + k) (b + 1) (n + 1)))
         (rcvr cr (AwaitData (b + 1) 0) [ymodem_receiver_action.Progress pr'] (Some f) (off + k) 0 0)
         (off + k) (take (off + k) source) file)"
    apply (intro exI conjI)
     prefer 2
     apply (rule leads_turn, simp add: turn_simps ys_provide_source_chunk_def chunk_def [symmetric])
     apply (simp add: packet len ys_emit_def)
     apply (rule leads_turn, simp add: turn_simps yr_push_packet [OF enc] yr_handle_event_def
       yr_handle_data_def yr_accept_block_def assms(3) kk cut nz yr_emit_def)
     apply (rule leads_turn, simp add: turn_simps)
     apply (rule leads_turn, simp add: turn_simps yr_confirm_file_write_def yr_emit_def grown)
     apply (rule leads_turn, simp add: turn_simps ys_handle_event_def ys_data_acked_def ys_emit_def
       k(3) assms(2))
     apply (rule leads_refl)
    apply (simp add: is_progress_def)
    done
  ultimately show ?thesis unfolding ask by (meson leads_trans)
qed

lemma link_finish:
  assumes "ym_total_bytes m = length source"
    and "ym_total_bytes f = length source" and "list_all is_progress qs"
  shows "\<exists>l. link_complete m source (l\<lparr>lk_file := Some (ym_file_name m)\<rparr>) \<and> lk_file l = file \<and>
    leads source
      (lnk (ys_request_next_source_or_eot (sndr cs m p st qs (length source) b n))
         (rcvr cr (AwaitData b 0) [ymodem_receiver_action.Progress pr] (Some f) (length source) 0 0)
         (length source) source file) l"
proof -
  obtain packet where packet: "create_ymodem_end_session_packet = packet"
    and enc: "encode_ymodem_packet Bytes128 0 (replicate 128 0) = Inr packet"
    by (auto simp: create_ymodem_end_session_packet_def encode_ymodem_packet_def)
  have none: "parse_ymodem_file_header (replicate 128 0) = Inr None"
    by (simp add: parse_ymodem_file_header_def)
  let ?r = "rcvr cr (AwaitData b 0) [ymodem_receiver_action.Progress pr] (Some f) (length source) 0 0"
  let ?eot = "ymodem_sender_action.Write [4]"
  have ask: "ys_request_next_source_or_eot (sndr cs m p st qs (length source) b n) =
      sndr cs m p (AwaitFirstEot 1) (qs @ [?eot]) (length source) b n"
    using assms(1) by (simp add: ys_request_next_source_or_eot_def ys_emit_def Let_def)
  have "leads source (lnk (sndr cs m p (AwaitFirstEot 1) (qs @ [?eot]) (length source) b n) ?r (length source) source file)
     (lnk (sndr cs m p (AwaitFirstEot 1) [?eot] (length source) b n) ?r (length source) source file)"
    using assms(3) by (rule drain_progress)
  moreover have "\<exists>l. link_complete m source (l\<lparr>lk_file := Some (ym_file_name m)\<rparr>) \<and> lk_file l = file \<and>
      leads source
     (lnk (sndr cs m p (AwaitFirstEot 1) [?eot] (length source) b n) ?r (length source) source file) l"
    apply (intro exI conjI)
      prefer 3
      apply (rule leads_turn, simp add: turn_simps yr_simps)
      apply (rule leads_turn, simp add: turn_simps)
      apply (rule leads_turn, simp add: turn_simps ys_simps)
      apply (rule leads_turn, simp add: turn_simps yr_simps assms)
      apply (rule leads_turn, simp add: turn_simps ys_simps)
      apply (rule leads_turn, simp add: turn_simps)
      apply (rule leads_turn, simp add: turn_simps ys_simps packet)
      apply (rule leads_turn, simp add: turn_simps yr_push_packet [OF enc] yr_simps none)
      apply (rule leads_turn, simp add: turn_simps ys_simps)
      apply (rule leads_refl)
     apply (simp_all add: link_complete_def ys_is_terminal_def yr_is_terminal_def assms(1))
    done
  ultimately show ?thesis unfolding ask by (blast intro: leads_trans)
qed

lemma link_blocks:
  assumes "off \<le> length source" and "ym_total_bytes m = length source"
    and "ym_total_bytes f = length source" and "list_all is_progress qs"
  shows "\<exists>st' qs' pr' b' n'. list_all is_progress qs' \<and>
    leads source
      (lnk (ys_request_next_source_or_eot (sndr cs m p st qs off b n))
         (rcvr cr (AwaitData b 0) [ymodem_receiver_action.Progress pr] (Some f) off 0 0)
         off (take off source) file)
      (lnk (ys_request_next_source_or_eot (sndr cs m p st' qs' (length source) b' n'))
         (rcvr cr (AwaitData b' 0) [ymodem_receiver_action.Progress pr'] (Some f) (length source) 0 0)
         (length source) source file)"
  using assms(1,4)
proof (induction "length source - off" arbitrary: off st qs pr b n rule: less_induct)
  case less
  show ?case
  proof (cases "off = length source")
    case True
    then show ?thesis using less.prems leads_refl by fastforce
  next
    case False
    then have off: "off < length source" using less.prems by simp
    define k where "k = min (length source - off) 1024"
    obtain packet pr' qs' where qs': "list_all is_progress qs'" and step: "leads source
      (lnk (ys_request_next_source_or_eot (sndr cs m p st qs off b n))
         (rcvr cr (AwaitData b 0) [ymodem_receiver_action.Progress pr] (Some f) off 0 0)
         off (take off source) file)
      (lnk (ys_request_next_source_or_eot
             (sndr cs m p (AwaitDataAck packet k 1) qs' (off + k) (b + 1) (n + 1)))
         (rcvr cr (AwaitData (b + 1) 0) [ymodem_receiver_action.Progress pr'] (Some f) (off + k) 0 0)
         (off + k) (take (off + k) source) file)"
      using link_block [OF off assms(2,3) less.prems(2)] unfolding k_def by blast
    have "length source - (off + k) < length source - off" and "off + k \<le> length source"
      using off by (auto simp: k_def)
    from less.hyps [OF this qs'] show ?thesis using step leads_trans by blast
  qed
qed

lemma transfer_completes:
  assumes "metadata_ok m" and "ym_total_bytes m = length source"
  shows "\<exists>s n. ys_new m cs = Inr s \<and>
    link_complete m source ((link_turn source ^^ n) (link_new s cr))"
proof -
  define f where "f = m\<lparr>ym_modified_time := 0, ym_mode := 0\<rparr>"
  obtain psize payload p where p: "create_ymodem_file_header m = Inr p"
    "encode_ymodem_packet psize 0 payload = Inr p"
    "parse_ymodem_file_header payload = Inr (Some f)"
    using header_packet [OF assms(1)] unfolding f_def by blast
  have f: "ym_total_bytes f = length source" "ym_file_name f = ym_file_name m"
    using assms(2) by (simp_all add: f_def)
  let ?s = "sndr cs m p AwaitInitialRequest [] 0 1 0"
  have new: "ys_new m cs = Inr ?s" by (simp add: ys_new_def p(1))
  obtain pr where 1: "leads source (link_new ?s cr)
    (lnk (ys_request_next_source_or_eot (sndr cs m p (AwaitDataRequest 0) [] 0 1 1))
       (rcvr cr (AwaitData 1 0) [ymodem_receiver_action.Progress pr] (Some f) 0 0 0)
       0 (take 0 source) (Some (ym_file_name f)))"
    using link_header [OF p(2,3)] by (metis take_0)
  obtain st' qs' pr' b' n' where qs': "list_all is_progress qs'" and 2: "leads source
    (lnk (ys_request_next_source_or_eot (sndr cs m p (AwaitDataRequest 0) [] 0 1 1))
       (rcvr cr (AwaitData 1 0) [ymodem_receiver_action.Progress pr] (Some f) 0 0 0)
       0 (take 0 source) (Some (ym_file_name f)))
    (lnk (ys_request_next_source_or_eot (sndr cs m p st' qs' (length source) b' n'))
       (rcvr cr (AwaitData b' 0) [ymodem_receiver_action.Progress pr'] (Some f) (length source) 0 0)
       (length source) source (Some (ym_file_name f)))"
    using link_blocks [OF _ assms(2) f(1), of 0 "[]" cs p "AwaitDataRequest 0" 1 1 cr pr "Some (ym_file_name f)"]
    by auto
  obtain l where l: "link_complete m source (l\<lparr>lk_file := Some (ym_file_name m)\<rparr>)"
    "lk_file l = Some (ym_file_name f)" and 3: "leads source
    (lnk (ys_request_next_source_or_eot (sndr cs m p st' qs' (length source) b' n'))
       (rcvr cr (AwaitData b' 0) [ymodem_receiver_action.Progress pr'] (Some f) (length source) 0 0)
       (length source) source (Some (ym_file_name f))) l"
    using link_finish [OF assms(2) f(1) qs'] by blast
  have "l\<lparr>lk_file := Some (ym_file_name m)\<rparr> = l" using l(2) f(2) by (cases l) simp
  then have "link_complete m source l" using l(1) by simp
  moreover have "leads source (link_new ?s cr) l"
    using 1 2 3 leads_trans by blast
  ultimately show ?thesis using new unfolding leads_def by blast
qed

section \<open>Properties\<close>

text \<open>C1: A YMODEM transfer over a faithful line always completes and delivers the file: for every
  content and every metadata the constructor accepts, the sender is created, and after finitely
  many turns both machines have finished, the sink holds exactly the source bytes under the
  sanitised name, and both sides report the full length.\<close>

theorem ymodem_transfer_completes:
  assumes "ymodem_metadata_new name (length source) modified_time mode = Inr m"
    and "valid_str name" and "modified_time \<le> U64_MAX" and "mode < 2 ^ 32"
  shows "\<exists>s n. ys_new m cs = Inr s \<and>
    link_complete m source ((link_turn source ^^ n) (link_new s cr))"
proof (rule transfer_completes)
  show "metadata_ok m" using assms by (rule metadata_new_ok)
  show "ym_total_bytes m = length source"
    using assms(1) by (auto simp: ymodem_metadata_new_def split: if_splits sum.splits)
qed

theorem ymodem_transfer_completes_witness:
  "\<exists>m s n. ys_new m default_ymodem_config = Inr s \<and>
    link_complete m [1, 2, 3] ((link_turn [1, 2, 3] ^^ n) (link_new s default_ymodem_config))"
proof -
  have "safe_file_name [97]"
    by (simp add: safe_file_name_def lit_def is_control_def reserved_char_simps trim_def trim_end_def
        is_whitespace_def)
  then have "ymodem_metadata_new [97] (length [1 :: byte, 2, 3]) 0 0 =
      Inr \<lparr>ym_file_name = [97], ym_total_bytes = 3, ym_modified_time = 0, ym_mode = 0\<rparr>"
    by (simp add: ymodem_metadata_new_def sanitize_safe_id str_len_def utf8_def utf8_char_def
        MAX_YMODEM_FILE_BYTES_def MAX_YMODEM_FILENAME_BYTES_def)
  from ymodem_transfer_completes [OF this, of default_ymodem_config default_ymodem_config]
  show ?thesis by (fastforce simp: scalar_def)
qed

end
