(* ===== verification/Zmodem_Wire.thy ===== *)
theory Zmodem_Wire
  imports File_Name Checksum
begin

text \<open>
  The wire format of \<^verbatim>\<open>crates/netcatty-serial/src/zmodem.rs\<close>: configuration and errors, frame
  types and headers, ZDLE escaping, the header and subpacket encoders, and the header parsers.
  The loops of the parsers that move a cursor over a slice are recursions on the rest of the
  slice; they return the number of bytes consumed as the code does.
\<close>

section \<open>Constants, configuration, errors\<close>

definition ZMODEM_ZPAD :: byte where [simp]: "ZMODEM_ZPAD = 0x2A"
definition ZMODEM_ZDLE :: byte where [simp]: "ZMODEM_ZDLE = 0x18"
definition ZMODEM_ZBIN :: byte where [simp]: "ZMODEM_ZBIN = 0x41"
definition ZMODEM_ZHEX :: byte where [simp]: "ZMODEM_ZHEX = 0x42"
definition ZMODEM_ZBIN32 :: byte where [simp]: "ZMODEM_ZBIN32 = 0x43"
definition ZMODEM_XON :: byte where [simp]: "ZMODEM_XON = 0x11"
definition ZMODEM_CAN :: byte where [simp]: "ZMODEM_CAN = 0x18"
definition ZMODEM_BACKSPACE :: byte where [simp]: "ZMODEM_BACKSPACE = 0x08"
definition ZMODEM_ZCRCE :: byte where [simp]: "ZMODEM_ZCRCE = 0x68"
definition ZMODEM_ZCRCG :: byte where [simp]: "ZMODEM_ZCRCG = 0x69"
definition ZMODEM_ZCRCQ :: byte where [simp]: "ZMODEM_ZCRCQ = 0x6A"
definition ZMODEM_ZCRCW :: byte where [simp]: "ZMODEM_ZCRCW = 0x6B"

definition ZMODEM_OVER_AND_OUT :: bytes where "ZMODEM_OVER_AND_OUT = [0x4F, 0x4F]"

definition ZMODEM_CANCEL_SEQUENCE :: bytes where
  "ZMODEM_CANCEL_SEQUENCE = replicate 5 ZMODEM_CAN @ replicate 5 ZMODEM_BACKSPACE"

definition DEFAULT_ZMODEM_TIMEOUT :: nat where "DEFAULT_ZMODEM_TIMEOUT = 60"
definition DEFAULT_ZMODEM_RETRY_LIMIT :: nat where "DEFAULT_ZMODEM_RETRY_LIMIT = 10"
definition MAX_ZMODEM_RETRY_LIMIT :: nat where "MAX_ZMODEM_RETRY_LIMIT = 100"
definition DEFAULT_ZMODEM_CHUNK_BYTES :: nat where "DEFAULT_ZMODEM_CHUNK_BYTES = 64 * 1024"
definition ZMODEM_WIRE_SUBPACKET_BYTES :: nat where "ZMODEM_WIRE_SUBPACKET_BYTES = 8 * 1024"
definition MAX_ZMODEM_SUBPACKET_BYTES :: nat where "MAX_ZMODEM_SUBPACKET_BYTES = 64 * 1024"
definition MAX_ZMODEM_INPUT_BYTES :: nat where "MAX_ZMODEM_INPUT_BYTES = 256 * 1024"
definition MAX_ZMODEM_FILENAME_BYTES :: nat where "MAX_ZMODEM_FILENAME_BYTES = 255"
definition MAX_ZMODEM_METADATA_BYTES :: nat where "MAX_ZMODEM_METADATA_BYTES = 1024"
definition MAX_ZMODEM_BATCH_FILES :: nat where "MAX_ZMODEM_BATCH_FILES = 1024"
definition MAX_ZMODEM_PENDING_ACTIONS :: nat where "MAX_ZMODEM_PENDING_ACTIONS = 512"
definition MAX_ZMODEM_FILE_BYTES :: nat where "MAX_ZMODEM_FILE_BYTES = 2 ^ 32 - 1"

definition HEX_HEADER_PREFIX :: bytes where
  "HEX_HEADER_PREFIX = [ZMODEM_ZPAD, ZMODEM_ZPAD, ZMODEM_ZDLE, ZMODEM_ZHEX]"
definition BINARY16_HEADER_PREFIX :: bytes where
  "BINARY16_HEADER_PREFIX = [ZMODEM_ZPAD, ZMODEM_ZDLE, ZMODEM_ZBIN]"
definition BINARY32_HEADER_PREFIX :: bytes where
  "BINARY32_HEADER_PREFIX = [ZMODEM_ZPAD, ZMODEM_ZDLE, ZMODEM_ZBIN32]"

definition ZRINIT_CANFDX :: byte where "ZRINIT_CANFDX = 0x01"
definition ZRINIT_CANOVIO :: byte where "ZRINIT_CANOVIO = 0x02"
definition ZRINIT_CANFC32 :: byte where "ZRINIT_CANFC32 = 0x20"
definition ZRINIT_ESCCTL :: byte where "ZRINIT_ESCCTL = 0x40"

datatype zmodem_error =
    InvalidTimeout
  | InvalidRetryLimit nat
  | InvalidChunkSize nat
  | InputTooLarge nat
  | SubpacketTooLarge nat
  | FilenameTooLong nat
  | MetadataTooLarge nat
  | InvalidMetadata
  | InvalidBatch nat
  | FileTooLarge nat
  | BatchSizeOverflow
  | InvalidHeader
  | UnsupportedFrame
  | UnsupportedPeerCapabilities
  | InvalidEscape
  | CrcMismatch
  | UnexpectedFrame
  | InvalidSourceChunk nat nat
  | SourceLengthMismatch
  | SinkLengthMismatch nat nat
  | IncompleteFile
  | RetryLimit
  | TimedOut
  | Cancelled
  | RemoteCancelled
  | RemoteAborted
  | ActionQueueFull nat
  | InvalidState

record zmodem_config =
  zc_timeout :: nat
  zc_retry_limit :: nat
  zc_chunk_bytes :: nat
  zc_escape_control_bytes :: bool

definition zmodem_config_new :: "nat \<Rightarrow> nat \<Rightarrow> nat \<Rightarrow> bool \<Rightarrow> zmodem_error + zmodem_config" where
  "zmodem_config_new timeout retry_limit chunk_bytes escape_control_bytes =
     (if timeout = 0 then Inl InvalidTimeout
      else if retry_limit = 0 \<or> MAX_ZMODEM_RETRY_LIMIT < retry_limit
      then Inl (InvalidRetryLimit MAX_ZMODEM_RETRY_LIMIT)
      else if chunk_bytes = 0 \<or> MAX_ZMODEM_SUBPACKET_BYTES < chunk_bytes
      then Inl (InvalidChunkSize MAX_ZMODEM_SUBPACKET_BYTES)
      else Inr \<lparr>zc_timeout = timeout, zc_retry_limit = retry_limit,
                zc_chunk_bytes = chunk_bytes, zc_escape_control_bytes = escape_control_bytes\<rparr>)"

definition default_zmodem_config :: zmodem_config where
  "default_zmodem_config =
     \<lparr>zc_timeout = DEFAULT_ZMODEM_TIMEOUT, zc_retry_limit = DEFAULT_ZMODEM_RETRY_LIMIT,
      zc_chunk_bytes = DEFAULT_ZMODEM_CHUNK_BYTES, zc_escape_control_bytes = True\<rparr>"

section \<open>Frame types and headers\<close>

datatype zmodem_frame_type =
    RequestInit | ReceiverInit | SenderInit | Ack | File | Skip | Nak | Abort | Finish
  | ReceiverPosition | Data | EndOfFile | FileError | Crc | Challenge | Complete | Cancel
  | FreeCount | Command | StandardError

fun frame_code :: "zmodem_frame_type \<Rightarrow> byte" where
  "frame_code RequestInit = 0"
| "frame_code ReceiverInit = 1"
| "frame_code SenderInit = 2"
| "frame_code Ack = 3"
| "frame_code File = 4"
| "frame_code Skip = 5"
| "frame_code Nak = 6"
| "frame_code Abort = 7"
| "frame_code Finish = 8"
| "frame_code ReceiverPosition = 9"
| "frame_code Data = 10"
| "frame_code EndOfFile = 11"
| "frame_code FileError = 12"
| "frame_code Crc = 13"
| "frame_code Challenge = 14"
| "frame_code Complete = 15"
| "frame_code Cancel = 16"
| "frame_code FreeCount = 17"
| "frame_code Command = 18"
| "frame_code StandardError = 19"

definition frame_try_from :: "byte \<Rightarrow> zmodem_error + zmodem_frame_type" where
  "frame_try_from value =
     (if value = 0 then Inr RequestInit
      else if value = 1 then Inr ReceiverInit
      else if value = 2 then Inr SenderInit
      else if value = 3 then Inr Ack
      else if value = 4 then Inr File
      else if value = 5 then Inr Skip
      else if value = 6 then Inr Nak
      else if value = 7 then Inr Abort
      else if value = 8 then Inr Finish
      else if value = 9 then Inr ReceiverPosition
      else if value = 10 then Inr Data
      else if value = 11 then Inr EndOfFile
      else if value = 12 then Inr FileError
      else if value = 13 then Inr Crc
      else if value = 14 then Inr Challenge
      else if value = 15 then Inr Complete
      else if value = 16 then Inr Cancel
      else if value = 17 then Inr FreeCount
      else if value = 18 then Inr Command
      else if value = 19 then Inr StandardError
      else Inl UnsupportedFrame)"

datatype zmodem_checksum = Crc16 | Crc32

text \<open>The four parameter bytes are kept as four fields.\<close>

record zmodem_header =
  zh_frame_type :: zmodem_frame_type
  zh_p0 :: byte
  zh_p1 :: byte
  zh_p2 :: byte
  zh_p3 :: byte

definition header_new ::
    "zmodem_frame_type \<Rightarrow> byte \<Rightarrow> byte \<Rightarrow> byte \<Rightarrow> byte \<Rightarrow> zmodem_header" where
  "header_new t a b c d = \<lparr>zh_frame_type = t, zh_p0 = a, zh_p1 = b, zh_p2 = c, zh_p3 = d\<rparr>"

definition with_offset :: "zmodem_frame_type \<Rightarrow> u32 \<Rightarrow> zmodem_header" where
  "with_offset t off =
     header_new t (ucast off) (ucast (drop_bit 8 off)) (ucast (drop_bit 16 off))
       (ucast (drop_bit 24 off))"

definition header_offset :: "zmodem_header \<Rightarrow> u32" where
  "header_offset h = u32_of_le (zh_p0 h) (zh_p1 h) (zh_p2 h) (zh_p3 h)"

record zmodem_decoded_header =
  dh_header :: zmodem_header
  dh_checksum :: zmodem_checksum

datatype zmodem_frame_end = EndNoAck | ContinueNoAck | ContinueAck | EndAck

fun frame_end_byte :: "zmodem_frame_end \<Rightarrow> byte" where
  "frame_end_byte EndNoAck = ZMODEM_ZCRCE"
| "frame_end_byte ContinueNoAck = ZMODEM_ZCRCG"
| "frame_end_byte ContinueAck = ZMODEM_ZCRCQ"
| "frame_end_byte EndAck = ZMODEM_ZCRCW"

definition frame_end_from_byte :: "byte \<Rightarrow> zmodem_frame_end option" where
  "frame_end_from_byte b =
     (if b = ZMODEM_ZCRCE then Some EndNoAck
      else if b = ZMODEM_ZCRCG then Some ContinueNoAck
      else if b = ZMODEM_ZCRCQ then Some ContinueAck
      else if b = ZMODEM_ZCRCW then Some EndAck
      else None)"

definition ends_frame :: "zmodem_frame_end \<Rightarrow> bool" where
  "ends_frame e \<longleftrightarrow> e = EndNoAck \<or> e = EndAck"

definition expects_ack :: "zmodem_frame_end \<Rightarrow> bool" where
  "expects_ack e \<longleftrightarrow> e = ContinueAck \<or> e = EndAck"

record zmodem_subpacket =
  sp_payload :: bytes
  sp_frame_end :: zmodem_frame_end

section \<open>Encoders\<close>

definition header_crc_bytes :: "zmodem_header \<Rightarrow> bytes" where
  "header_crc_bytes h = [frame_code (zh_frame_type h), zh_p0 h, zh_p1 h, zh_p2 h, zh_p3 h]"

definition to_hex :: "byte \<Rightarrow> byte" where
  "to_hex value = (if value \<le> 9 then 0x30 + value else 0x61 + value - 10)"

definition from_hex :: "byte \<Rightarrow> byte option" where
  "from_hex value =
     (if 0x30 \<le> value \<and> value \<le> 0x39 then Some (value - 0x30)
      else if 0x61 \<le> value \<and> value \<le> 0x66 then Some (value - 0x61 + 10)
      else if 0x41 \<le> value \<and> value \<le> 0x46 then Some (value - 0x41 + 10)
      else None)"

definition hex_digits :: "bytes \<Rightarrow> bytes" where
  "hex_digits bs = concat (map (\<lambda>b. [to_hex (drop_bit 4 b), to_hex (b AND 0x0f)]) bs)"

definition encode_zmodem_hex_header :: "zmodem_header \<Rightarrow> bytes" where
  "encode_zmodem_hex_header h =
     (let data = header_crc_bytes h; crc = u16_be (crc16_zmodem data)
      in HEX_HEADER_PREFIX @ hex_digits (data @ crc) @ [0x0d, 0x0a] @
         (if zh_frame_type h = Finish \<or> zh_frame_type h = Ack then [] else [ZMODEM_XON]))"

definition must_escape :: "bool \<Rightarrow> byte option \<Rightarrow> byte \<Rightarrow> bool" where
  "must_escape escape_control_bytes previous b =
     (let mandatory = b \<in> set [ZMODEM_ZDLE, 0x10, 0x90, 0x11, 0x91, 0x13, 0x93];
          control = (b AND 0x60 = 0);
          telnet_cr = ((b = 0x0d \<or> b = 0x8d) \<and>
            (case previous of Some prior \<Rightarrow> prior AND 0x7f = 0x40 | None \<Rightarrow> False))
      in mandatory \<or> escape_control_bytes \<and> control \<or> telnet_cr)"

fun encode_zdle_from :: "bool \<Rightarrow> byte option \<Rightarrow> bytes \<Rightarrow> bytes" where
  "encode_zdle_from esc previous [] = []"
| "encode_zdle_from esc previous (b # bs) =
     (if must_escape esc previous b then [ZMODEM_ZDLE, b XOR 0x40] else [b]) @
     encode_zdle_from esc (Some b) bs"

definition encode_zdle :: "bytes \<Rightarrow> bool \<Rightarrow> bytes" where
  "encode_zdle bs esc = encode_zdle_from esc None bs"

definition checksum_bytes :: "zmodem_checksum \<Rightarrow> bytes \<Rightarrow> bytes" where
  "checksum_bytes checksum data =
     (case checksum of
        Crc16 \<Rightarrow> u16_be (crc16_zmodem data)
      | Crc32 \<Rightarrow> u32_le (crc32_zmodem data))"

definition encode_zmodem_binary_header :: "zmodem_header \<Rightarrow> zmodem_checksum \<Rightarrow> bool \<Rightarrow> bytes" where
  "encode_zmodem_binary_header h checksum esc =
     (let data = header_crc_bytes h
      in (case checksum of Crc16 \<Rightarrow> BINARY16_HEADER_PREFIX | Crc32 \<Rightarrow> BINARY32_HEADER_PREFIX) @
         encode_zdle (data @ checksum_bytes checksum data) esc)"

definition encode_zmodem_subpacket ::
    "bytes \<Rightarrow> zmodem_frame_end \<Rightarrow> zmodem_checksum \<Rightarrow> bool \<Rightarrow> zmodem_error + bytes" where
  "encode_zmodem_subpacket payload frame_end checksum esc =
     (if MAX_ZMODEM_SUBPACKET_BYTES < length payload
      then Inl (SubpacketTooLarge MAX_ZMODEM_SUBPACKET_BYTES)
      else let e = frame_end_byte frame_end
      in Inr (encode_zdle payload esc @ [ZMODEM_ZDLE, e] @
              encode_zdle (checksum_bytes checksum (payload @ [e])) esc))"

section \<open>Parsers\<close>

definition decode_zdle_byte :: "byte \<Rightarrow> zmodem_error + byte" where
  "decode_zdle_byte encoded =
     (if encoded = 0x6C then Inr 0x7f
      else if encoded = 0x6D then Inr 0xff
      else if encoded \<in> set [ZMODEM_ZCRCE, ZMODEM_ZCRCG, ZMODEM_ZCRCQ, ZMODEM_ZCRCW]
      then Inl InvalidEscape
      else Inr (encoded XOR 0x40))"

definition zdle_prepend :: "byte \<Rightarrow> nat \<Rightarrow>
    zmodem_error + (bytes \<times> nat) option \<Rightarrow> zmodem_error + (bytes \<times> nat) option" where
  "zdle_prepend b n r =
     (case r of
        Inr (Some (decoded, consumed)) \<Rightarrow> Inr (Some (b # decoded, consumed + n))
      | _ \<Rightarrow> r)"

fun decode_exact_zdle :: "bytes \<Rightarrow> nat \<Rightarrow> zmodem_error + (bytes \<times> nat) option" where
  "decode_exact_zdle input 0 = Inr (Some ([], 0))"
| "decode_exact_zdle [] (Suc n) = Inr None"
| "decode_exact_zdle (b # bs) (Suc n) =
     (if b \<noteq> ZMODEM_ZDLE then zdle_prepend b 1 (decode_exact_zdle bs n)
      else case bs of
        [] \<Rightarrow> Inr None
      | after # rest \<Rightarrow>
          (case decode_zdle_byte after of
             Inl e \<Rightarrow> Inl e
           | Inr d \<Rightarrow> zdle_prepend d 2 (decode_exact_zdle rest n)))"

definition decode_header_body ::
    "bytes \<Rightarrow> bytes \<Rightarrow> zmodem_checksum \<Rightarrow> zmodem_error + zmodem_decoded_header" where
  "decode_header_body data got_crc checksum =
     (if length data \<noteq> 5 then Inl InvalidHeader
      else if got_crc \<noteq> checksum_bytes checksum data then Inl CrcMismatch
      else case frame_try_from (data ! 0) of
        Inl e \<Rightarrow> Inl e
      | Inr t \<Rightarrow>
          Inr \<lparr>dh_header = header_new t (data ! 1) (data ! 2) (data ! 3) (data ! 4),
               dh_checksum = checksum\<rparr>)"

fun decode_hex_pairs :: "bytes \<Rightarrow> bytes option" where
  "decode_hex_pairs (h # l # rest) =
     (case (from_hex h, from_hex l, decode_hex_pairs rest) of
        (Some high, Some low, Some decoded) \<Rightarrow> Some ((push_bit 4 high OR low) # decoded)
      | _ \<Rightarrow> None)"
| "decode_hex_pairs _ = Some []"

text \<open>The line end after a hexadecimal header: bytes consumed, \<open>None\<close> when more input is needed.\<close>

definition hex_line_end :: "bytes \<Rightarrow> zmodem_error + nat option" where
  "hex_line_end rest =
     (case rest of
        [] \<Rightarrow> Inr None
      | a # tail \<Rightarrow>
          if a = 0x0d \<or> a = 0x8d then
            (case tail of
               [] \<Rightarrow> Inr None
             | b # _ \<Rightarrow> if b = 0x0a \<or> b = 0x8a then Inr (Some 2) else Inl InvalidHeader)
          else if a = 0x0a \<or> a = 0x8a then Inr (Some 1)
          else Inl InvalidHeader)"

definition parse_hex_header :: "bytes \<Rightarrow> zmodem_error + (zmodem_decoded_header \<times> nat) option" where
  "parse_hex_header input =
     (let body_start = length HEX_HEADER_PREFIX; body_end = body_start + 14
      in if length input < body_end + 1 then Inr None
      else case decode_hex_pairs (take 14 (drop body_start input)) of
        None \<Rightarrow> Inl InvalidHeader
      | Some decoded \<Rightarrow>
          (case hex_line_end (drop body_end input) of
             Inl e \<Rightarrow> Inl e
           | Inr None \<Rightarrow> Inr None
           | Inr (Some k) \<Rightarrow>
               let consumed = body_end + k;
                   consumed = (if consumed < length input \<and> input ! consumed = ZMODEM_XON
                     then consumed + 1 else consumed)
               in (case decode_header_body (take 5 decoded) (drop 5 decoded) Crc16 of
                     Inl e \<Rightarrow> Inl e
                   | Inr header \<Rightarrow> Inr (Some (header, consumed)))))"

definition parse_binary_header ::
    "bytes \<Rightarrow> zmodem_checksum \<Rightarrow> zmodem_error + (zmodem_decoded_header \<times> nat) option" where
  "parse_binary_header input checksum =
     (let prefix_len = 3; decoded_bytes = (case checksum of Crc16 \<Rightarrow> 7 | Crc32 \<Rightarrow> 9)
      in case decode_exact_zdle (drop prefix_len input) decoded_bytes of
        Inl e \<Rightarrow> Inl e
      | Inr None \<Rightarrow> Inr None
      | Inr (Some (decoded, consumed)) \<Rightarrow>
          (case decode_header_body (take 5 decoded) (drop 5 decoded) checksum of
             Inl e \<Rightarrow> Inl e
           | Inr header \<Rightarrow> Inr (Some (header, prefix_len + consumed))))"

definition starts_with :: "bytes \<Rightarrow> bytes \<Rightarrow> bool" where
  "starts_with input prefix \<longleftrightarrow> take (length prefix) input = prefix"

definition parse_header_at_start ::
    "bytes \<Rightarrow> zmodem_error + (zmodem_decoded_header \<times> nat) option" where
  "parse_header_at_start input =
     (if starts_with input HEX_HEADER_PREFIX then parse_hex_header input
      else if starts_with input BINARY16_HEADER_PREFIX then parse_binary_header input Crc16
      else if starts_with input BINARY32_HEADER_PREFIX then parse_binary_header input Crc32
      else Inr None)"

definition is_partial_header_prefix :: "bytes \<Rightarrow> bool" where
  "is_partial_header_prefix input \<longleftrightarrow>
     list_ex (\<lambda>prefix. length input < length prefix \<and> starts_with prefix input)
       [HEX_HEADER_PREFIX, BINARY16_HEADER_PREFIX, BINARY32_HEADER_PREFIX]"

definition is_header_candidate :: "bytes \<Rightarrow> bool" where
  "is_header_candidate input \<longleftrightarrow>
     starts_with input HEX_HEADER_PREFIX \<or> starts_with input BINARY16_HEADER_PREFIX \<or>
     starts_with input BINARY32_HEADER_PREFIX \<or> is_partial_header_prefix input"

fun find_header_candidate :: "bytes \<Rightarrow> nat option" where
  "find_header_candidate [] = None"
| "find_header_candidate (b # bs) =
     (if is_header_candidate (b # bs) then Some 0
      else map_option Suc (find_header_candidate bs))"

definition retain_possible_header_prefix :: "bytes \<Rightarrow> bytes" where
  "retain_possible_header_prefix input =
     (let retain = (case find (\<lambda>n. is_partial_header_prefix (drop (length input - n) input))
            (rev [1..<Suc (min (length input) (length HEX_HEADER_PREFIX - 1))]) of
          Some n \<Rightarrow> n | None \<Rightarrow> 0)
      in if retain < length input then drop (length input - retain) input else input)"

fun contains_remote_cancel :: "bytes \<Rightarrow> bool" where
  "contains_remote_cancel [] = False"
| "contains_remote_cancel (b # bs) =
     (take 5 (b # bs) = replicate 5 ZMODEM_CAN \<or> contains_remote_cancel bs)"

section \<open>Escaping\<close>

lemma frame_try_from_code [simp]: "frame_try_from (frame_code t) = Inr t"
  by (cases t) (simp_all add: frame_try_from_def)

lemma frame_end_from_byte_byte [simp]: "frame_end_from_byte (frame_end_byte e) = Some e"
  by (cases e) (simp_all add: frame_end_from_byte_def)

lemma must_escape_control: "must_escape esc previous b \<Longrightarrow> b AND 0x60 = 0"
  by (auto simp: must_escape_def Let_def split: option.splits)

lemma control_xor:
  assumes "b AND 0x60 = (0 :: byte)"
  shows "(b XOR 0x40) AND 0x60 = 0x40" and "b XOR 0x40 XOR 0x40 = b"
proof -
  have "(b XOR 0x40) AND 0x60 = (b AND 0x60) XOR (0x40 AND 0x60)"
    by (rule bit.conj_xor_distrib2)
  then show "(b XOR 0x40) AND 0x60 = 0x40" using assms by simp
  show "b XOR 0x40 XOR 0x40 = b" by (simp add: xor.assoc)
qed

lemma decode_escaped:
  assumes "must_escape esc previous b"
  shows "decode_zdle_byte (b XOR 0x40) = Inr b" and "b XOR 0x40 \<noteq> ZMODEM_ZDLE"
    and "frame_end_from_byte (b XOR 0x40) = None" and "b XOR 0x40 \<notin> {0x11, 0x13, 0x91, 0x93}"
proof -
  note c = control_xor [OF must_escape_control [OF assms]]
  have ne: "b XOR 0x40 \<noteq> v" if "v AND 0x60 \<noteq> (0x40 :: byte)" for v using c(1) that by metis
  show "decode_zdle_byte (b XOR 0x40) = Inr b"
    by (simp add: decode_zdle_byte_def ne xor.assoc)
  show "b XOR 0x40 \<noteq> ZMODEM_ZDLE" by (simp add: ne)
  show "frame_end_from_byte (b XOR 0x40) = None" by (simp add: frame_end_from_byte_def ne)
  show "b XOR 0x40 \<notin> {0x11, 0x13, 0x91, 0x93}" by (simp add: ne)
qed

lemma not_escaped: "\<not> must_escape esc previous b \<Longrightarrow> b \<noteq> 0x18 \<and> b \<notin> {0x11, 0x13, 0x91, 0x93}"
  by (auto simp: must_escape_def Let_def)

lemma decode_exact_encode_from:
  "decode_exact_zdle (encode_zdle_from esc previous bs @ rest) (length bs) =
     Inr (Some (bs, length (encode_zdle_from esc previous bs)))"
proof (induction bs arbitrary: previous)
  case (Cons b bs)
  then show ?case
    using decode_escaped(1) [of esc previous b] not_escaped [of esc previous b]
    by (simp add: zdle_prepend_def)
qed simp

lemma decode_exact_encode:
  "decode_exact_zdle (encode_zdle bs esc @ rest) (length bs) =
     Inr (Some (bs, length (encode_zdle bs esc)))"
  by (simp add: encode_zdle_def decode_exact_encode_from)

text \<open>Streams without flow-control bytes, without adjacent ZDLE bytes and not ending in one.\<close>

definition calm :: "bytes \<Rightarrow> bool" where
  "calm bs \<longleftrightarrow>
     (\<forall>b \<in> set bs. b \<notin> {0x11, 0x13, 0x91, 0x93}) \<and>
     successively (\<lambda>a b. a = ZMODEM_ZDLE \<longrightarrow> b \<noteq> ZMODEM_ZDLE) bs \<and>
     (bs \<noteq> [] \<longrightarrow> last bs \<noteq> ZMODEM_ZDLE)"

lemma calm_Nil [simp]: "calm []"
  by (simp add: calm_def)

lemma calm_append: "calm xs \<Longrightarrow> calm ys \<Longrightarrow> calm (xs @ ys)"
  by (cases "xs = []"; cases "ys = []") (simp_all add: calm_def successively_append_iff ball_Un)

lemma calm_single: "calm [b] \<longleftrightarrow> b \<noteq> ZMODEM_ZDLE \<and> b \<notin> {0x11, 0x13, 0x91, 0x93}"
  by (auto simp: calm_def)

lemma calm_escape:
  "calm [ZMODEM_ZDLE, b] \<longleftrightarrow> b \<noteq> ZMODEM_ZDLE \<and> b \<notin> {0x11, 0x13, 0x91, 0x93}"
  by (auto simp: calm_def)

lemma calm_encode_from: "calm (encode_zdle_from esc previous bs)"
proof (induction bs arbitrary: previous)
  case (Cons b bs)
  show ?case
  proof (cases "must_escape esc previous b")
    case True
    then have "calm [ZMODEM_ZDLE, b XOR 0x40]"
      using decode_escaped(2,4) by (simp only: calm_escape) simp
    then show ?thesis using True Cons calm_append [of "[ZMODEM_ZDLE, b XOR 0x40]"] by simp
  next
    case False
    then have "calm [b]" using not_escaped [OF False] by (simp add: calm_single)
    then show ?thesis using False Cons calm_append [of "[b]"] by simp
  qed
qed simp

lemma calm_encode [simp]: "calm (encode_zdle bs esc)"
  by (simp add: encode_zdle_def calm_encode_from)

lemma calm_no_cancel:
  "successively (\<lambda>a b. a = ZMODEM_ZDLE \<longrightarrow> b \<noteq> ZMODEM_ZDLE) bs \<Longrightarrow> \<not> contains_remote_cancel bs"
proof (induction bs)
  case (Cons b bs)
  then show ?case
    by (cases bs) (auto simp: numeral_eq_Suc)
qed simp

section \<open>Hexadecimal digits\<close>

lemma from_hex_to_hex: "n < 16 \<Longrightarrow> from_hex (to_hex n) = Some n"
proof -
  assume "n < 16"
  then have "unat n < 16" by (simp add: word_less_nat_alt)
  moreover have "n = of_nat (unat n)" by simp
  ultimately show ?thesis
    by (elim less_16E; simp add: to_hex_def from_hex_def)
qed

lemma mask_nibble: "b AND 0x0f = take_bit 4 (b :: byte)"
  by (simp add: take_bit_eq_mask mask_numeral)

lemma nibbles: "push_bit 4 (drop_bit 4 b) OR (b AND 0x0f) = (b :: byte)"
  unfolding mask_nibble
  by (rule bit_word_eqI)
    (auto simp: bit_or_iff bit_push_bit_iff bit_drop_bit_eq bit_take_bit_iff)

lemma nibble_less: "drop_bit 4 b < (16 :: byte)" "b AND 0x0f < (16 :: byte)"
proof -
  have "unat (drop_bit 4 b) < 16"
    using unsigned_less [of b, where 'a = nat] by (simp add: drop_bit_eq_div unat_div less_mult_imp_div_less)
  then show "drop_bit 4 b < (16 :: byte)" by (simp add: word_less_nat_alt)
  have "unat (take_bit 4 b) < 16"
    by (simp add: take_bit_eq_mod unat_mod)
  then show "b AND 0x0f < (16 :: byte)" unfolding mask_nibble by (simp add: word_less_nat_alt)
qed

lemma decode_hex_digits: "decode_hex_pairs (hex_digits bs) = Some bs"
  by (induction bs) (simp_all add: hex_digits_def from_hex_to_hex nibble_less nibbles)

lemma length_hex_digits [simp]: "length (hex_digits bs) = 2 * length bs"
  by (induction bs) (simp_all add: hex_digits_def)


section \<open>Parsing what was encoded\<close>

lemma header_eqI: "header_new (zh_frame_type h) (zh_p0 h) (zh_p1 h) (zh_p2 h) (zh_p3 h) = h"
  by (simp add: header_new_def)

lemma decode_header_body_encoded:
  "decode_header_body (header_crc_bytes h) (checksum_bytes c (header_crc_bytes h)) c =
     Inr \<lparr>dh_header = h, dh_checksum = c\<rparr>"
  by (simp add: decode_header_body_def header_crc_bytes_def header_eqI)

lemma length_header_crc_bytes [simp]: "length (header_crc_bytes h) = 5"
  by (simp add: header_crc_bytes_def)

lemma length_checksum_bytes: "length (checksum_bytes c bs) = (case c of Crc16 \<Rightarrow> 2 | Crc32 \<Rightarrow> 4)"
  by (cases c) (simp_all add: checksum_bytes_def)

lemma starts_with_append [simp]: "starts_with (p @ rest) p"
  by (simp add: starts_with_def)

lemmas header_prefix_defs = HEX_HEADER_PREFIX_def BINARY16_HEADER_PREFIX_def BINARY32_HEADER_PREFIX_def

lemma binary_not_hex:
  "\<not> starts_with (BINARY16_HEADER_PREFIX @ rest) HEX_HEADER_PREFIX"
  "\<not> starts_with (BINARY32_HEADER_PREFIX @ rest) HEX_HEADER_PREFIX"
  "\<not> starts_with (BINARY32_HEADER_PREFIX @ rest) BINARY16_HEADER_PREFIX"
  by (simp_all add: starts_with_def header_prefix_defs)

lemma parse_hex_encoded:
  "parse_header_at_start
     (HEX_HEADER_PREFIX @ hex_digits (header_crc_bytes h @ u16_be (crc16_zmodem (header_crc_bytes h))) @
      [0x0d, 0x0a] @ rest) =
   Inr (Some (\<lparr>dh_header = h, dh_checksum = Crc16\<rparr>,
     20 + (if rest \<noteq> [] \<and> hd rest = ZMODEM_XON then 1 else 0)))"
proof -
  let ?data = "header_crc_bytes h" and ?crc = "checksum_bytes Crc16 (header_crc_bytes h)"
  let ?digits = "hex_digits (?data @ ?crc)"
  have crc: "u16_be (crc16_zmodem ?data) = ?crc" by (simp add: checksum_bytes_def)
  have len: "length ?digits = 14" by (simp add: length_checksum_bytes)
  have plen: "length HEX_HEADER_PREFIX = 4" by (simp add: header_prefix_defs)
  have digits: "take 14 (drop 4 (HEX_HEADER_PREFIX @ ?digits @ [0x0d, 0x0a] @ rest)) = ?digits"
    and tail: "drop 18 (HEX_HEADER_PREFIX @ ?digits @ [0x0d, 0x0a] @ rest) = [0x0d, 0x0a] @ rest"
    using len plen by simp_all
  have xon: "20 < length (HEX_HEADER_PREFIX @ ?digits @ [0x0d, 0x0a] @ rest) \<and>
      (HEX_HEADER_PREFIX @ ?digits @ [0x0d, 0x0a] @ rest) ! 20 = ZMODEM_XON \<longleftrightarrow>
      rest \<noteq> [] \<and> hd rest = ZMODEM_XON"
    using len plen by (cases rest) (simp_all add: nth_append)
  show ?thesis
    unfolding parse_header_at_start_def crc parse_hex_header_def Let_def plen
    using len digits tail xon
    by (simp add: plen decode_hex_digits hex_line_end_def decode_header_body_encoded
        length_checksum_bytes del: ZMODEM_XON_def)
qed

lemma parse_binary_encoded:
  "parse_header_at_start (encode_zmodem_binary_header h c esc @ rest) =
     Inr (Some (\<lparr>dh_header = h, dh_checksum = c\<rparr>, length (encode_zmodem_binary_header h c esc)))"
proof -
  let ?body = "header_crc_bytes h @ checksum_bytes c (header_crc_bytes h)"
  let ?prefix = "case c of Crc16 \<Rightarrow> BINARY16_HEADER_PREFIX | Crc32 \<Rightarrow> BINARY32_HEADER_PREFIX"
  have enc: "encode_zmodem_binary_header h c esc = ?prefix @ encode_zdle ?body esc"
    by (simp add: encode_zmodem_binary_header_def Let_def)
  have plen: "length ?prefix = 3" by (cases c) (simp_all add: header_prefix_defs)
  have blen: "(case c of Crc16 \<Rightarrow> 7 | Crc32 \<Rightarrow> 9) = length ?body"
    by (cases c) (simp_all add: length_checksum_bytes)
  have "parse_header_at_start (?prefix @ encode_zdle ?body esc @ rest) =
      parse_binary_header (?prefix @ encode_zdle ?body esc @ rest) c"
    by (cases c) (simp_all add: parse_header_at_start_def binary_not_hex)
  also have "\<dots> = Inr (Some (\<lparr>dh_header = h, dh_checksum = c\<rparr>, 3 + length (encode_zdle ?body esc)))"
    unfolding parse_binary_header_def Let_def blen
    using plen decode_exact_encode [of ?body esc rest]
    by (simp only: drop_append) (simp add: decode_header_body_encoded)
  finally show ?thesis by (simp add: enc plen)
qed

section \<open>More input never changes a decision of the parsers\<close>

lemma zdle_prepend_simps [simp]:
  "zdle_prepend b n (Inl e) = Inl e" "zdle_prepend b n (Inr None) = Inr None"
  "zdle_prepend b n (Inr (Some (ds, k))) = Inr (Some (b # ds, k + n))"
  by (simp_all add: zdle_prepend_def)

lemma zdle_prepend_none [simp]: "zdle_prepend b n r = Inr None \<longleftrightarrow> r = Inr None"
  by (simp add: zdle_prepend_def split: sum.split option.split)

lemma decode_exact_more:
  "decode_exact_zdle xs n \<noteq> Inr None \<Longrightarrow> decode_exact_zdle (xs @ ys) n = decode_exact_zdle xs n"
  by (induction xs n rule: decode_exact_zdle.induct) (auto split: list.split sum.split)

lemma decode_exact_none_length: "decode_exact_zdle xs n = Inr None \<Longrightarrow> length xs < 2 * n"
  by (induction xs n rule: decode_exact_zdle.induct) (auto split: list.splits sum.splits if_splits)

lemma parse_binary_more:
  "parse_binary_header xs c \<noteq> Inr None \<Longrightarrow> 3 \<le> length xs \<Longrightarrow>
   parse_binary_header (xs @ ys) c = parse_binary_header xs c"
  using decode_exact_more [of "drop 3 xs" "case c of Crc16 \<Rightarrow> 7 | Crc32 \<Rightarrow> 9" ys]
  by (auto simp: parse_binary_header_def Let_def split: sum.splits option.splits)

lemma hex_line_end_more: "hex_line_end xs \<noteq> Inr None \<Longrightarrow> hex_line_end (xs @ ys) = hex_line_end xs"
  by (auto simp: hex_line_end_def split: list.splits)

definition header_of ::
    "zmodem_error + (zmodem_decoded_header \<times> nat) option \<Rightarrow> zmodem_error + zmodem_decoded_header option" where
  "header_of r = map_sum id (map_option fst) r"

lemma header_of_simps [simp]:
  "header_of (Inl e) = Inl e" "header_of (Inr None) = Inr None"
  "header_of (Inr (Some p)) = Inr (Some (fst p))"
  by (simp_all add: header_of_def)

lemma parse_hex_more:
  assumes "parse_hex_header xs \<noteq> Inr None"
  shows "header_of (parse_hex_header (xs @ ys)) = header_of (parse_hex_header xs)"
proof -
  have plen: "length HEX_HEADER_PREFIX = 4" by (simp add: header_prefix_defs)
  have len: "19 \<le> length xs"
    using assms by (auto simp: parse_hex_header_def plen Let_def split: if_splits)
  show ?thesis
  proof (cases "decode_hex_pairs (take 14 (drop 4 xs))")
    case None
    then show ?thesis using len by (simp add: parse_hex_header_def plen Let_def)
  next
    case (Some decoded)
    then have "hex_line_end (drop 18 xs) \<noteq> Inr None"
      using assms len by (auto simp: parse_hex_header_def plen Let_def)
    from hex_line_end_more [OF this, of ys] Some len show ?thesis
      by (auto simp: parse_hex_header_def plen Let_def split: sum.split option.split)
  qed
qed

lemma parse_more:
  assumes "parse_header_at_start xs \<noteq> Inr None"
  shows "header_of (parse_header_at_start (xs @ ys)) = header_of (parse_header_at_start xs)"
proof -
  have more: "starts_with xs p \<Longrightarrow> starts_with (xs @ ys) p" for p
    by (metis starts_with_def append_assoc append_take_drop_id starts_with_append)
  consider "starts_with xs HEX_HEADER_PREFIX" | "starts_with xs BINARY16_HEADER_PREFIX"
    | "starts_with xs BINARY32_HEADER_PREFIX"
    using assms by (auto simp: parse_header_at_start_def split: if_splits)
  then show ?thesis
  proof cases
    case 1
    then show ?thesis using more assms parse_hex_more by (simp add: parse_header_at_start_def)
  next
    case 2
    then obtain rest where xs: "xs = BINARY16_HEADER_PREFIX @ rest"
      by (metis starts_with_def append_take_drop_id)
    then have "3 \<le> length xs" by (simp add: header_prefix_defs)
    then show ?thesis
      using assms parse_binary_more [of xs Crc16 ys] xs binary_not_hex(1)
      by (simp add: parse_header_at_start_def)
  next
    case 3
    then obtain rest where xs: "xs = BINARY32_HEADER_PREFIX @ rest"
      by (metis starts_with_def append_take_drop_id)
    then have "3 \<le> length xs" by (simp add: header_prefix_defs)
    then show ?thesis
      using assms parse_binary_more [of xs Crc32 ys] xs binary_not_hex(2,3)
      by (simp add: parse_header_at_start_def)
  qed
qed

lemma candidate_iff:
  "is_header_candidate xs \<longleftrightarrow>
     (\<exists>p \<in> set [HEX_HEADER_PREFIX, BINARY16_HEADER_PREFIX, BINARY32_HEADER_PREFIX].
        take (length p) xs = take (length xs) p)"
proof -
  have "starts_with xs p \<or> length xs < length p \<and> starts_with p xs \<longleftrightarrow>
      take (length p) xs = take (length xs) p" for p
    by (cases "length xs < length p") (auto simp: starts_with_def)
  then show ?thesis
    by (auto simp: is_header_candidate_def is_partial_header_prefix_def list_ex_iff)
qed

lemma candidate_less:
  assumes "is_header_candidate (xs @ ys)" shows "is_header_candidate xs"
proof -
  obtain p where p: "p \<in> set [HEX_HEADER_PREFIX, BINARY16_HEADER_PREFIX, BINARY32_HEADER_PREFIX]"
    and eq: "take (length p) (xs @ ys) = take (length (xs @ ys)) p"
    using assms unfolding candidate_iff by blast
  have "take (length xs) (take (length p) (xs @ ys)) = take (length xs) (take (length (xs @ ys)) p)"
    by (simp only: eq)
  then have "take (length p) xs = take (length xs) p"
    by (simp add: min_def split: if_splits)
  with p show ?thesis unfolding candidate_iff by blast
qed

lemma parse_none_length:
  assumes "parse_header_at_start xs = Inr None" and "is_header_candidate xs"
  shows "length xs \<le> 20"
proof -
  have plen: "length HEX_HEADER_PREFIX = 4" "length BINARY16_HEADER_PREFIX = 3"
    "length BINARY32_HEADER_PREFIX = 3" by (simp_all add: header_prefix_defs)
  have line: "hex_line_end bs = Inr None \<Longrightarrow> length bs \<le> 1" for bs
    by (auto simp: hex_line_end_def split: list.splits if_splits)
  have hex: "parse_hex_header xs = Inr None \<Longrightarrow> length xs \<le> 20"
    using line [of "drop 18 xs"]
    by (auto simp: parse_hex_header_def Let_def plen split: if_splits option.splits sum.splits)
  have bin: "parse_binary_header xs c = Inr None \<Longrightarrow> length xs \<le> 20" for c
    using decode_exact_none_length [of "drop 3 xs" "case c of Crc16 \<Rightarrow> 7 | Crc32 \<Rightarrow> 9"]
    by (cases c) (auto simp: parse_binary_header_def Let_def split: sum.splits option.splits)
  show ?thesis
    using assms hex bin
    by (auto simp: parse_header_at_start_def is_header_candidate_def is_partial_header_prefix_def plen
        split: if_splits)
qed

end
