(* ===== verification/Zmodem_Decoder.thy ===== *)
theory Zmodem_Decoder
  imports Zmodem_Wire
begin

text \<open>
  The incremental parts of \<^verbatim>\<open>crates/netcatty-serial/src/zmodem.rs\<close>: \<^verbatim>\<open>ZmodemWireDecoder\<close>, which
  buffers the bytes of a transfer and yields headers, subpackets and the final \<^verbatim>\<open>OO\<close>, and
  \<^verbatim>\<open>ZmodemSentry\<close>, which watches terminal output for the header that starts a transfer.
\<close>

section \<open>The wire decoder\<close>

record zmodem_wire_decoder =
  zd_input :: bytes
  zd_consecutive_can :: nat
  zd_remote_cancelled :: bool

definition zd_default :: zmodem_wire_decoder where
  "zd_default = \<lparr>zd_input = [], zd_consecutive_can = 0, zd_remote_cancelled = False\<rparr>"

definition zd_reset :: "zmodem_wire_decoder \<Rightarrow> zmodem_wire_decoder" where
  "zd_reset d = d\<lparr>zd_input := [], zd_consecutive_can := 0, zd_remote_cancelled := False\<rparr>"

definition zd_push_byte :: "zmodem_wire_decoder \<Rightarrow> byte \<Rightarrow> zmodem_wire_decoder" where
  "zd_push_byte d b =
     (let d = (if b = ZMODEM_CAN then
                 let n = saturating_add64 (zd_consecutive_can d) 1
                 in d\<lparr>zd_consecutive_can := n,
                      zd_remote_cancelled := zd_remote_cancelled d \<or> 5 \<le> n\<rparr>
               else d\<lparr>zd_consecutive_can := 0\<rparr>)
      in if b \<in> set [0x11, 0x13, 0x91, 0x93] then d
         else d\<lparr>zd_input := zd_input d @ [b]\<rparr>)"

definition zd_push :: "zmodem_wire_decoder \<Rightarrow> bytes \<Rightarrow> zmodem_wire_decoder \<times> (zmodem_error + unit)" where
  "zd_push d bs =
     (if MAX_ZMODEM_INPUT_BYTES < length bs \<or>
         MAX_ZMODEM_INPUT_BYTES < saturating_add64 (length (zd_input d)) (length bs)
      then (d, Inl (InputTooLarge MAX_ZMODEM_INPUT_BYTES))
      else (foldl zd_push_byte d bs, Inr ()))"

definition zd_take_success_remainder :: "zmodem_wire_decoder \<Rightarrow> zmodem_wire_decoder \<times> bytes" where
  "zd_take_success_remainder d =
     (d\<lparr>zd_consecutive_can := 0, zd_remote_cancelled := False, zd_input := []\<rparr>, zd_input d)"

definition zd_cancelled :: "zmodem_wire_decoder \<Rightarrow> bool" where
  "zd_cancelled d \<longleftrightarrow> zd_remote_cancelled d \<or> contains_remote_cancel (zd_input d)"

definition zd_next_header ::
    "zmodem_wire_decoder \<Rightarrow> zmodem_wire_decoder \<times> (zmodem_error + zmodem_decoded_header option)" where
  "zd_next_header d =
     (if zd_cancelled d then (zd_reset d, Inl RemoteCancelled)
      else case find_header_candidate (zd_input d) of
        None \<Rightarrow> (d\<lparr>zd_input := retain_possible_header_prefix (zd_input d)\<rparr>, Inr None)
      | Some candidate \<Rightarrow>
          let d = d\<lparr>zd_input := drop candidate (zd_input d)\<rparr>
          in (case parse_header_at_start (zd_input d) of
                Inr (Some (header, consumed)) \<Rightarrow>
                  (d\<lparr>zd_input := drop consumed (zd_input d)\<rparr>, Inr (Some header))
              | Inr None \<Rightarrow> (d, Inr None)
              | Inl e \<Rightarrow> (d\<lparr>zd_input := tl (zd_input d)\<rparr>, Inl e)))"

text \<open>The scan for the end of a subpacket: the decoded payload, the frame end and the cursor.\<close>

fun scan_subpacket ::
    "bytes \<Rightarrow> bytes \<Rightarrow> nat \<Rightarrow> zmodem_error + (bytes \<times> zmodem_frame_end \<times> nat) option" where
  "scan_subpacket [] decoded cursor =
     (if MAX_ZMODEM_SUBPACKET_BYTES < length decoded
      then Inl (SubpacketTooLarge MAX_ZMODEM_SUBPACKET_BYTES) else Inr None)"
| "scan_subpacket (b # bs) decoded cursor =
     (if b \<noteq> ZMODEM_ZDLE then scan_subpacket bs (decoded @ [b]) (cursor + 1)
      else case bs of
        [] \<Rightarrow> Inr None
      | after # rest \<Rightarrow>
          (case frame_end_from_byte after of
             Some e \<Rightarrow> Inr (Some (decoded, e, cursor + 2))
           | None \<Rightarrow>
               (case decode_zdle_byte after of
                  Inl e \<Rightarrow> Inl e
                | Inr v \<Rightarrow>
                    if MAX_ZMODEM_SUBPACKET_BYTES < length (decoded @ [v])
                    then Inl (SubpacketTooLarge MAX_ZMODEM_SUBPACKET_BYTES)
                    else scan_subpacket rest (decoded @ [v]) (cursor + 2))))"

definition zd_next_subpacket :: "zmodem_wire_decoder \<Rightarrow> zmodem_checksum \<Rightarrow>
    zmodem_wire_decoder \<times> (zmodem_error + zmodem_subpacket option)" where
  "zd_next_subpacket d checksum =
     (if zd_cancelled d then (zd_reset d, Inl RemoteCancelled)
      else let crc_bytes = (case checksum of Crc16 \<Rightarrow> 2 | Crc32 \<Rightarrow> 4)
      in case scan_subpacket (zd_input d) [] 0 of
        Inl e \<Rightarrow>
          (if e = SubpacketTooLarge MAX_ZMODEM_SUBPACKET_BYTES then d\<lparr>zd_input := []\<rparr> else d, Inl e)
      | Inr None \<Rightarrow> (d, Inr None)
      | Inr (Some (payload, frame_end, cursor)) \<Rightarrow>
          (case decode_exact_zdle (drop cursor (zd_input d)) crc_bytes of
             Inl e \<Rightarrow> (d, Inl e)
           | Inr None \<Rightarrow> (d, Inr None)
           | Inr (Some (got_crc, crc_consumed)) \<Rightarrow>
               let d = d\<lparr>zd_input := drop (cursor + crc_consumed) (zd_input d)\<rparr>
               in if got_crc \<noteq> checksum_bytes checksum (payload @ [frame_end_byte frame_end])
                  then (d, Inl CrcMismatch)
                  else (d, Inr (Some \<lparr>sp_payload = payload, sp_frame_end = frame_end\<rparr>))))"

fun over_and_out_position :: "bytes \<Rightarrow> nat option" where
  "over_and_out_position [] = None"
| "over_and_out_position (b # bs) =
     (if take 2 (b # bs) = ZMODEM_OVER_AND_OUT then Some 0
      else map_option Suc (over_and_out_position bs))"

definition zd_next_over_and_out :: "zmodem_wire_decoder \<Rightarrow> zmodem_wire_decoder \<times> (zmodem_error + bool)" where
  "zd_next_over_and_out d =
     (if zd_cancelled d then (zd_reset d, Inl RemoteCancelled)
      else case over_and_out_position (zd_input d) of
        Some position \<Rightarrow>
          (d\<lparr>zd_input := drop (position + length ZMODEM_OVER_AND_OUT) (zd_input d)\<rparr>, Inr True)
      | None \<Rightarrow>
          (if 1 < length (zd_input d) then
             let retain = (if last (zd_input d) = 0x4F then 1 else 0)
             in d\<lparr>zd_input := drop (length (zd_input d) - retain) (zd_input d)\<rparr>
           else d, Inr False))"

section \<open>The sentry\<close>

datatype transfer_direction = Send | Receive

record zmodem_detection =
  det_direction :: transfer_direction
  det_protocol_bytes :: bytes

record sentry_output =
  so_passthrough :: bytes
  so_detected :: "zmodem_detection option"

definition initiator_direction :: "zmodem_decoded_header \<Rightarrow> transfer_direction option" where
  "initiator_direction decoded =
     (case zh_frame_type (dh_header decoded) of
        ReceiverInit \<Rightarrow> Some Send
      | RequestInit \<Rightarrow> Some Receive
      | _ \<Rightarrow> None)"

lemma candidate_position:
  "find_header_candidate input = Some c \<Longrightarrow> c < length input \<and> is_header_candidate (drop c input)"
  by (induction input arbitrary: c) (auto split: if_splits)

lemma no_candidate: "find_header_candidate input = None \<Longrightarrow> i < length input \<Longrightarrow> \<not> is_header_candidate (drop i input)"
proof (induction input arbitrary: i)
  case (Cons b bs)
  then show ?case by (cases i) (auto split: if_splits)
qed simp

function sentry_loop :: "bytes \<Rightarrow> bytes \<Rightarrow> bytes \<times> sentry_output" where
  "sentry_loop input passthrough =
     (case find_header_candidate input of
        None \<Rightarrow> ([], \<lparr>so_passthrough = passthrough @ input, so_detected = None\<rparr>)
      | Some candidate \<Rightarrow>
          let passthrough = passthrough @ take candidate input; rest = drop candidate input
          in (case parse_header_at_start rest of
                Inr (Some (decoded, consumed)) \<Rightarrow>
                  (case initiator_direction decoded of
                     Some direction \<Rightarrow>
                       ([], \<lparr>so_passthrough = passthrough,
                             so_detected = Some \<lparr>det_direction = direction, det_protocol_bytes = rest\<rparr>\<rparr>)
                   | None \<Rightarrow> sentry_loop (tl rest) (passthrough @ [hd rest]))
              | Inr None \<Rightarrow> (rest, \<lparr>so_passthrough = passthrough, so_detected = None\<rparr>)
              | Inl e \<Rightarrow> sentry_loop (tl rest) (passthrough @ [hd rest])))"
  by pat_completeness auto
termination
  by (relation "measure (\<lambda>(input, _). length input)") (auto dest!: candidate_position)

declare sentry_loop.simps [simp del]

text \<open>The state of the sentry is its retained input.\<close>

definition sentry_push :: "bytes \<Rightarrow> bytes \<Rightarrow> bytes \<times> (zmodem_error + sentry_output)" where
  "sentry_push input bs =
     (if MAX_ZMODEM_INPUT_BYTES < length bs \<or>
         MAX_ZMODEM_INPUT_BYTES < saturating_add64 (length input) (length bs)
      then ([], Inl (InputTooLarge MAX_ZMODEM_INPUT_BYTES))
      else case sentry_loop (input @ bs) [] of (input', out) \<Rightarrow> (input', Inr out))"

definition sentry_reset :: "bytes \<Rightarrow> bytes \<times> bytes" where
  "sentry_reset input = ([], input)"

section \<open>What the decoder makes of encoded frames\<close>

lemma zd_push_quiet:
  assumes "\<forall>b \<in> set bs. b \<notin> {0x11, 0x13, 0x91, 0x93}"
    and "successively (\<lambda>a b. a = ZMODEM_ZDLE \<longrightarrow> b \<noteq> ZMODEM_ZDLE) bs"
    and "zd_consecutive_can d \<le> 1" and "bs \<noteq> [] \<longrightarrow> hd bs = ZMODEM_ZDLE \<longrightarrow> zd_consecutive_can d = 0"
  shows "foldl zd_push_byte d bs =
    d\<lparr>zd_input := zd_input d @ bs,
      zd_consecutive_can := (if bs = [] then zd_consecutive_can d
        else if last bs = ZMODEM_ZDLE then 1 else 0)\<rparr>"
  using assms
proof (induction bs arbitrary: d)
  case (Cons b bs)
  let ?e = "d\<lparr>zd_input := zd_input d @ [b], zd_consecutive_can := if b = ZMODEM_ZDLE then 1 else 0\<rparr>"
  have step: "zd_push_byte d b = ?e"
    using Cons.prems by (cases d) (auto simp: zd_push_byte_def Let_def)
  have "foldl zd_push_byte ?e bs = ?e\<lparr>zd_input := zd_input ?e @ bs,
      zd_consecutive_can := (if bs = [] then zd_consecutive_can ?e
        else if last bs = ZMODEM_ZDLE then 1 else 0)\<rparr>"
    using Cons.prems by (intro Cons.IH) (cases bs; auto)+
  then show ?case by (simp add: step)
qed simp

lemma zd_push_calm:
  assumes "calm bs" and "zd_consecutive_can d = 0"
  shows "foldl zd_push_byte d bs = d\<lparr>zd_input := zd_input d @ bs\<rparr>"
proof -
  have "foldl zd_push_byte d bs = d\<lparr>zd_input := zd_input d @ bs, zd_consecutive_can := 0\<rparr>"
    using assms zd_push_quiet [of bs d] by (simp add: calm_def split: if_splits)
  then show ?thesis using assms(2) by (cases d) simp
qed

lemma calm_set: "\<forall>b \<in> set bs. b \<noteq> ZMODEM_ZDLE \<and> b \<notin> {0x11, 0x13, 0x91, 0x93} \<Longrightarrow> calm bs"
  by (induction bs) (use calm_append [of "[_]"] in \<open>simp_all add: calm_single\<close>)

lemma calm_hex_digits: "calm (hex_digits bs)"
proof (rule calm_set)
  have "to_hex n \<noteq> v" if "n < 16" "from_hex v = None" for n v
    using from_hex_to_hex [OF that(1)] that(2) by auto
  then have "to_hex n \<noteq> ZMODEM_ZDLE \<and> to_hex n \<notin> {0x11, 0x13, 0x91, 0x93}" if "n < 16" for n
    using that by (simp add: from_hex_def)
  then show "\<forall>b \<in> set (hex_digits bs). b \<noteq> ZMODEM_ZDLE \<and> b \<notin> {0x11, 0x13, 0x91, 0x93}"
    using nibble_less by (auto simp: hex_digits_def)
qed

lemma calm_prefixes [simp]:
  "calm HEX_HEADER_PREFIX" "calm BINARY16_HEADER_PREFIX" "calm BINARY32_HEADER_PREFIX"
  by (simp_all add: calm_def header_prefix_defs)

lemma calm_binary_header: "calm (encode_zmodem_binary_header h c esc)"
  by (cases c) (simp_all add: encode_zmodem_binary_header_def Let_def calm_append)

lemma calm_not_cancelled:
  "calm (zd_input d) \<Longrightarrow> \<not> zd_remote_cancelled d \<Longrightarrow> \<not> zd_cancelled d"
  by (simp add: zd_cancelled_def calm_def calm_no_cancel)

lemma parsed_is_candidate:
  "parse_header_at_start xs = Inr (Some p) \<Longrightarrow> is_header_candidate xs \<and> xs \<noteq> []"
  by (auto simp: parse_header_at_start_def is_header_candidate_def starts_with_def header_prefix_defs
      split: if_splits)

lemma zd_next_header_start:
  assumes "\<not> zd_cancelled d" and "parse_header_at_start (zd_input d) = Inr (Some (h, n))"
  shows "zd_next_header d = (d\<lparr>zd_input := drop n (zd_input d)\<rparr>, Inr (Some h))"
proof -
  have "find_header_candidate (zd_input d) = Some 0"
    using parsed_is_candidate [OF assms(2)] by (cases "zd_input d") auto
  then show ?thesis using assms by (simp add: zd_next_header_def)
qed

lemma scan_encoded:
  "length (decoded @ bs) \<le> MAX_ZMODEM_SUBPACKET_BYTES \<Longrightarrow>
   scan_subpacket (encode_zdle_from esc previous bs @ ZMODEM_ZDLE # frame_end_byte e # rest) decoded cursor =
     Inr (Some (decoded @ bs, e, cursor + length (encode_zdle_from esc previous bs) + 2))"
proof (induction bs arbitrary: previous decoded cursor)
  case (Cons b bs)
  then show ?case
    using Cons.IH [of "decoded @ [b]"] decode_escaped [of esc previous b] not_escaped [of esc previous b]
    by (simp add: add_ac)
qed simp

lemma zd_next_subpacket_encoded:
  assumes enc: "encode_zmodem_subpacket payload e c esc = Inr wire"
    and input: "zd_input d = wire @ rest" and "\<not> zd_cancelled d"
  shows "zd_next_subpacket d c =
    (d\<lparr>zd_input := rest\<rparr>, Inr (Some \<lparr>sp_payload = payload, sp_frame_end = e\<rparr>))"
proof -
  let ?sum = "checksum_bytes c (payload @ [frame_end_byte e])"
  have len: "length payload \<le> MAX_ZMODEM_SUBPACKET_BYTES"
    and wire: "wire = encode_zdle payload esc @ [ZMODEM_ZDLE, frame_end_byte e] @ encode_zdle ?sum esc"
    using enc by (auto simp: encode_zmodem_subpacket_def Let_def split: if_splits)
  define cursor where "cursor = length (encode_zdle payload esc) + 2"
  have scan: "scan_subpacket (zd_input d) [] 0 = Inr (Some (payload, e, cursor))"
    using scan_encoded [of "[]" payload esc None e "encode_zdle ?sum esc @ rest" 0] len
    by (simp add: input wire encode_zdle_def cursor_def)
  have tail: "drop cursor (zd_input d) = encode_zdle ?sum esc @ rest"
    by (simp add: input wire cursor_def)
  have crc: "(case c of Crc16 \<Rightarrow> 2 | Crc32 \<Rightarrow> 4) = length ?sum"
    by (simp add: length_checksum_bytes)
  have rest: "drop (cursor + length (encode_zdle ?sum esc)) (zd_input d) = rest"
    by (simp add: input wire cursor_def)
  show ?thesis
    unfolding zd_next_subpacket_def scan crc
    using assms(3) decode_exact_encode [of ?sum esc rest] rest by (simp add: tail)
qed

lemma encode_zdle_length: "length (encode_zdle bs esc) \<le> 2 * length bs"
proof -
  have "length (encode_zdle_from esc previous bs) \<le> 2 * length bs" for previous
    by (induction bs arbitrary: previous) (auto intro: le_SucI)
  then show ?thesis by (simp add: encode_zdle_def)
qed

lemma zd_push_frame:
  assumes "calm bs" and "length bs \<le> MAX_ZMODEM_INPUT_BYTES"
  shows "zd_push zd_default bs = (zd_default\<lparr>zd_input := bs\<rparr>, Inr ())"
  using assms zd_push_calm [of bs zd_default]
  by (simp add: zd_push_def zd_default_def MAX_ZMODEM_INPUT_BYTES_def)

section \<open>Facts about the sentry\<close>

lemma find_candidate_skip:
  "\<forall>i < length xs. \<not> is_header_candidate (drop i xs @ ys) \<Longrightarrow>
   find_header_candidate (xs @ ys) = map_option (\<lambda>c. c + length xs) (find_header_candidate ys)"
proof (induction xs)
  case (Cons x xs)
  have "\<not> is_header_candidate (drop 0 (x # xs) @ ys)"
    using Cons.prems by blast
  moreover have "\<forall>i < length xs. \<not> is_header_candidate (drop i xs @ ys)"
  proof (intro allI impI)
    fix i assume "i < length xs"
    then show "\<not> is_header_candidate (drop i xs @ ys)"
      using Cons.prems [rule_format, of "Suc i"] by simp
  qed
  ultimately show ?case using Cons.IH by (simp add: option.map_comp comp_def)
qed (simp add: option.map_ident)

lemma sentry_skip:
  assumes "\<forall>i < length xs. \<not> is_header_candidate (drop i xs @ ys)"
  shows "sentry_loop (xs @ ys) p = sentry_loop ys (p @ xs)"
proof (cases "find_header_candidate ys")
  case None
  then have "find_header_candidate (xs @ ys) = None" using find_candidate_skip [OF assms] by simp
  with None show ?thesis by (simp add: sentry_loop.simps [of ys] sentry_loop.simps [of "xs @ ys"])
next
  case (Some c)
  then have "find_header_candidate (xs @ ys) = Some (c + length xs)"
    using find_candidate_skip [OF assms] by simp
  moreover have "take (c + length xs) (xs @ ys) = xs @ take c ys"
    and "drop (c + length xs) (xs @ ys) = drop c ys" by simp_all
  ultimately show ?thesis
    using Some by (simp only: sentry_loop.simps [of ys] sentry_loop.simps [of "xs @ ys"]
        option.case Let_def append_assoc)
qed

lemma sentry_at:
  assumes "is_header_candidate input" and "input \<noteq> []"
  shows "sentry_loop input p =
    (case parse_header_at_start input of
       Inr (Some (decoded, consumed)) \<Rightarrow>
         (case initiator_direction decoded of
            Some direction \<Rightarrow>
              ([], \<lparr>so_passthrough = p,
                    so_detected = Some \<lparr>det_direction = direction, det_protocol_bytes = input\<rparr>\<rparr>)
          | None \<Rightarrow> sentry_loop (tl input) (p @ [hd input]))
     | Inr None \<Rightarrow> (input, \<lparr>so_passthrough = p, so_detected = None\<rparr>)
     | Inl e \<Rightarrow> sentry_loop (tl input) (p @ [hd input]))"
proof -
  have "find_header_candidate input = Some 0" using assms by (cases input) auto
  then show ?thesis by (subst sentry_loop.simps) simp
qed

lemma sentry_split_candidate:
  assumes "find_header_candidate input = Some c"
  shows "sentry_loop (input @ ys) p = sentry_loop (drop c input @ ys) (p @ take c input)"
    and "is_header_candidate (drop c input)" and "drop c input \<noteq> []"
proof -
  have c: "c < length input" "is_header_candidate (drop c input)"
    using candidate_position [OF assms] by auto
  show "is_header_candidate (drop c input)" "drop c input \<noteq> []" using c by auto
  have least: "\<not> is_header_candidate (drop i input)" if "i < c" for i
    using that assms
  proof (induction input arbitrary: i c)
    case (Cons b bs)
    then show ?case by (cases i) (auto split: if_splits)
  qed simp
  have "\<forall>i < length (take c input). \<not> is_header_candidate (drop i (take c input) @ drop c input @ ys)"
  proof (intro allI impI)
    fix i assume "i < length (take c input)"
    then have i: "i < c" by simp
    have "drop i input = drop i (take c input @ drop c input)" by simp
    also have "\<dots> = drop i (take c input) @ drop c input"
      using i c(1) by (simp only: drop_append) simp
    finally have "drop i (take c input) @ drop c input @ ys = drop i input @ ys" by simp
    then show "\<not> is_header_candidate (drop i (take c input) @ drop c input @ ys)"
      using least [OF i] candidate_less by metis
  qed
  from sentry_skip [OF this, of p]
  show "sentry_loop (input @ ys) p = sentry_loop (drop c input @ ys) (p @ take c input)"
    by (metis append_assoc append_take_drop_id)
qed


lemma parsed_not_none:
  "parse_header_at_start xs \<noteq> Inr None \<Longrightarrow> is_header_candidate (xs @ ys)"
proof -
  assume "parse_header_at_start xs \<noteq> Inr None"
  then have "starts_with xs HEX_HEADER_PREFIX \<or> starts_with xs BINARY16_HEADER_PREFIX \<or>
      starts_with xs BINARY32_HEADER_PREFIX"
    by (auto simp: parse_header_at_start_def split: if_splits)
  moreover have "starts_with xs q \<Longrightarrow> starts_with (xs @ ys) q" for q
    by (metis starts_with_def append_assoc append_take_drop_id starts_with_append)
  ultimately show ?thesis by (auto simp: is_header_candidate_def)
qed

definition detected_bytes :: "sentry_output \<Rightarrow> bytes" where
  "detected_bytes out = (case so_detected out of Some det \<Rightarrow> det_protocol_bytes det | None \<Rightarrow> [])"

definition detection_ok :: "zmodem_detection \<Rightarrow> bool" where
  "detection_ok det \<longleftrightarrow>
     (\<exists>decoded n. parse_header_at_start (det_protocol_bytes det) = Inr (Some (decoded, n)) \<and>
        initiator_direction decoded = Some (det_direction det))"

definition extend_detection :: "bytes \<Rightarrow> sentry_output \<Rightarrow> sentry_output" where
  "extend_detection ys out =
     out\<lparr>so_detected := map_option
       (\<lambda>det. det\<lparr>det_protocol_bytes := det_protocol_bytes det @ ys\<rparr>) (so_detected out)\<rparr>"

lemma sentry_loop_facts:
  "case sentry_loop input p of (input', out) \<Rightarrow>
     so_passthrough out @ detected_bytes out @ input' = p @ input \<and> length input' \<le> 20 \<and>
     (\<forall>det. so_detected out = Some det \<longrightarrow> detection_ok det \<and> input' = [])"
proof (induction "length input" arbitrary: input p rule: less_induct)
  case less
  show ?case
  proof (cases "find_header_candidate input")
    case None
    then show ?thesis by (simp add: sentry_loop.simps [of input] detected_bytes_def)
  next
    case (Some c)
    let ?rest = "drop c input"
    have split: "sentry_loop input p = sentry_loop ?rest (p @ take c input)"
      and cand: "is_header_candidate ?rest" "?rest \<noteq> []"
      using sentry_split_candidate(1) [OF Some, of "[]"] sentry_split_candidate(2,3) [OF Some]
      by simp_all
    have len: "length (tl ?rest) < length input"
      using cand(2) by (cases "length input") auto
    have step: "?thesis" if "sentry_loop ?rest (p @ take c input) =
        sentry_loop (tl ?rest) ((p @ take c input) @ [hd ?rest])"
    proof -
      have "(p @ take c input @ [hd ?rest]) @ tl ?rest = p @ input"
        using cand(2) by simp
      then show ?thesis using less.hyps [OF len, of "p @ take c input @ [hd ?rest]"] that split by simp
    qed
    show ?thesis
    proof (cases "parse_header_at_start ?rest")
      case (Inl e)
      then show ?thesis using step sentry_at [OF cand] by simp
    next
      case (Inr r)
      show ?thesis
      proof (cases r)
        case None
        then have "length ?rest \<le> 20" using parse_none_length [of ?rest] Inr cand by simp
        then show ?thesis
          using None Inr split sentry_at [OF cand] by (simp add: detected_bytes_def)
      next
        case (Some q)
        then obtain decoded n where q: "q = (decoded, n)" by force
        show ?thesis
        proof (cases "initiator_direction decoded")
          case None
          then show ?thesis using step sentry_at [OF cand] Inr Some q by simp
        next
          case (Some direction)
          then show ?thesis
            using split sentry_at [OF cand] Inr \<open>r = Some q\<close> q
            by (simp add: detected_bytes_def detection_ok_def)
        qed
      qed
    qed
  qed
qed

lemma sentry_loop_split:
  "sentry_loop (input @ ys) p =
     (case sentry_loop input p of (input', out) \<Rightarrow>
        if so_detected out = None then sentry_loop (input' @ ys) (so_passthrough out)
        else ([], extend_detection ys out))"
proof (induction "length input" arbitrary: input p rule: less_induct)
  case less
  show ?case
  proof (cases "find_header_candidate input")
    case None
    have "\<forall>i < length input. \<not> is_header_candidate (drop i input @ ys)"
      using no_candidate [OF None] candidate_less by blast
    then show ?thesis
      using None sentry_skip [of input ys p] by (simp add: sentry_loop.simps [of input])
  next
    case (Some c)
    let ?rest = "drop c input" and ?p = "p @ take c input"
    have split: "sentry_loop (input @ ys) p = sentry_loop (?rest @ ys) ?p"
        "sentry_loop input p = sentry_loop ?rest ?p"
      and cand: "is_header_candidate ?rest" "?rest \<noteq> []"
      using sentry_split_candidate(1) [OF Some, of ys] sentry_split_candidate(1) [OF Some, of "[]"]
        sentry_split_candidate(2,3) [OF Some]
      by simp_all
    have len: "length (tl ?rest) < length input"
      using cand(2) by (cases "length input") auto
    have hdtl: "hd (?rest @ ys) = hd ?rest" "tl (?rest @ ys) = tl ?rest @ ys"
      using cand(2) by simp_all
    show ?thesis
    proof (cases "parse_header_at_start ?rest = Inr None")
      case True
      then show ?thesis using sentry_at [OF cand, of ?p] by (simp add: split)
    next
      case False
      have cand': "is_header_candidate (?rest @ ys)" "?rest @ ys \<noteq> []"
        using parsed_not_none [OF False] cand(2) by auto
      have more: "header_of (parse_header_at_start (?rest @ ys)) = header_of (parse_header_at_start ?rest)"
        using False by (rule parse_more)
      note at = sentry_at [OF cand, of ?p] sentry_at [OF cand', of ?p] hdtl
      note IH = less.hyps [OF len, of "?p @ [hd ?rest]"]
      show ?thesis
      proof (cases "parse_header_at_start ?rest")
        case (Inl e)
        then have "parse_header_at_start (?rest @ ys) = Inl e"
          using more by (auto simp: header_of_def map_sum_def split: sum.splits)
        with Inl show ?thesis using at IH by (simp add: split)
      next
        case (Inr r)
        then obtain decoded n where r: "r = Some (decoded, n)" using False by force
        then obtain m where m: "parse_header_at_start (?rest @ ys) = Inr (Some (decoded, m))"
          using more Inr by (auto simp: header_of_def map_sum_def split: sum.splits)
        show ?thesis
          using at IH Inr r m
          by (cases "initiator_direction decoded") (simp_all add: split extend_detection_def)
      qed
    qed
  qed
qed

lemma sentry_loop_prefix:
  "sentry_loop input (p @ q) =
     (case sentry_loop input q of (input', out) \<Rightarrow>
        (input', out\<lparr>so_passthrough := p @ so_passthrough out\<rparr>))"
proof (induction input q rule: sentry_loop.induct)
  case (1 input q)
  show ?case
    by (subst (1 2) sentry_loop.simps)
      (use 1 in \<open>auto simp: Let_def split: option.split sum.split prod.split\<close>)
qed


lemma hex_header_shape:
  "encode_zmodem_hex_header h =
     (HEX_HEADER_PREFIX @
      hex_digits (header_crc_bytes h @ u16_be (crc16_zmodem (header_crc_bytes h))) @ [0x0d, 0x0a]) @
     (if zh_frame_type h = Finish \<or> zh_frame_type h = Ack then [] else [ZMODEM_XON])"
  by (simp add: encode_zmodem_hex_header_def Let_def)

lemma zd_push_hex:
  "zd_push zd_default (encode_zmodem_hex_header h) =
     (zd_default\<lparr>zd_input := HEX_HEADER_PREFIX @
        hex_digits (header_crc_bytes h @ u16_be (crc16_zmodem (header_crc_bytes h))) @ [0x0d, 0x0a]\<rparr>,
      Inr ())"
proof -
  define body where "body = HEX_HEADER_PREFIX @
    hex_digits (header_crc_bytes h @ u16_be (crc16_zmodem (header_crc_bytes h))) @ [0x0d, 0x0a]"
  have shape: "encode_zmodem_hex_header h =
      body @ (if zh_frame_type h = Finish \<or> zh_frame_type h = Ack then [] else [ZMODEM_XON])"
    by (simp add: hex_header_shape body_def)
  have "calm body"
    unfolding body_def by (intro calm_append calm_hex_digits calm_prefixes calm_set) simp
  then have fold: "foldl zd_push_byte zd_default body = zd_default\<lparr>zd_input := body\<rparr>"
    using zd_push_calm [of body zd_default] by (simp add: zd_default_def)
  have xon: "zd_push_byte (zd_default\<lparr>zd_input := body\<rparr>) ZMODEM_XON = zd_default\<lparr>zd_input := body\<rparr>"
    by (simp add: zd_push_byte_def zd_default_def)
  have "length (encode_zmodem_hex_header h) \<le> 21"
    by (simp add: hex_header_shape header_prefix_defs)
  then have ok: "\<not> MAX_ZMODEM_INPUT_BYTES < length (encode_zmodem_hex_header h)"
    "\<not> MAX_ZMODEM_INPUT_BYTES < saturating_add64 (length (zd_input zd_default))
       (length (encode_zmodem_hex_header h))"
    by (simp_all add: MAX_ZMODEM_INPUT_BYTES_def zd_default_def)
  have "foldl zd_push_byte zd_default (encode_zmodem_hex_header h) = zd_default\<lparr>zd_input := body\<rparr>"
    unfolding shape foldl_append fold using xon by simp
  then show ?thesis
    using ok unfolding body_def [symmetric] by (simp only: zd_push_def if_False de_Morgan_disj simp_thms)
qed

lemma sentry_star: "sentry_push [] [0x2A] = ([0x2A], Inr \<lparr>so_passthrough = [], so_detected = None\<rparr>)"
proof -
  have "is_header_candidate [0x2A]"
    by (simp add: candidate_iff header_prefix_defs)
  moreover have "parse_header_at_start [0x2A] = Inr None"
    by (simp add: parse_header_at_start_def starts_with_def header_prefix_defs)
  ultimately show ?thesis
    using sentry_at [of "[0x2A]" "[]"] by (simp add: sentry_push_def MAX_ZMODEM_INPUT_BYTES_def)
qed

section \<open>Properties\<close>

text \<open>Header round trip: pushing an encoded header, hexadecimal or binary with either checksum
  and either escaping mode, into a fresh decoder and asking for the next header gives back the
  header and leaves the decoder as new; an offset stored in a header is read back.\<close>

theorem zmodem_header_roundtrip:
  "zd_next_header (fst (zd_push zd_default (encode_zmodem_hex_header h))) =
     (zd_default, Inr (Some \<lparr>dh_header = h, dh_checksum = Crc16\<rparr>)) \<and>
   zd_next_header (fst (zd_push zd_default (encode_zmodem_binary_header h c esc))) =
     (zd_default, Inr (Some \<lparr>dh_header = h, dh_checksum = c\<rparr>)) \<and>
   header_offset (with_offset t off) = off"
proof (intro conjI)
  let ?body = "HEX_HEADER_PREFIX @
    hex_digits (header_crc_bytes h @ u16_be (crc16_zmodem (header_crc_bytes h))) @ [0x0d, 0x0a]"
  let ?d = "zd_default\<lparr>zd_input := ?body\<rparr>"
  have "calm ?body"
    by (intro calm_append calm_hex_digits calm_prefixes calm_set) simp
  then have "\<not> zd_cancelled ?d"
    by (intro calm_not_cancelled) (simp_all add: zd_default_def)
  moreover have "parse_header_at_start (zd_input ?d) =
      Inr (Some (\<lparr>dh_header = h, dh_checksum = Crc16\<rparr>, 20))"
    using parse_hex_encoded [of h "[]"] by simp
  ultimately have "zd_next_header ?d =
      (?d\<lparr>zd_input := drop 20 (zd_input ?d)\<rparr>, Inr (Some \<lparr>dh_header = h, dh_checksum = Crc16\<rparr>))"
    by (rule zd_next_header_start)
  then show "zd_next_header (fst (zd_push zd_default (encode_zmodem_hex_header h))) =
     (zd_default, Inr (Some \<lparr>dh_header = h, dh_checksum = Crc16\<rparr>))"
    unfolding zd_push_hex fst_conv by (simp add: zd_default_def header_prefix_defs)
next
  let ?w = "encode_zmodem_binary_header h c esc"
  let ?d = "zd_default\<lparr>zd_input := ?w\<rparr>"
  have "length ?w \<le> 3 + 2 * 9"
    using encode_zdle_length [of "header_crc_bytes h @ checksum_bytes c (header_crc_bytes h)" esc]
    by (cases c) (simp_all add: encode_zmodem_binary_header_def header_prefix_defs Let_def
        length_checksum_bytes)
  then have "zd_push zd_default ?w = (?d, Inr ())"
    using calm_binary_header by (intro zd_push_frame) (simp_all add: MAX_ZMODEM_INPUT_BYTES_def)
  moreover have "\<not> zd_cancelled ?d"
    using calm_binary_header by (intro calm_not_cancelled) (simp_all add: zd_default_def)
  moreover have "parse_header_at_start (zd_input ?d) =
      Inr (Some (\<lparr>dh_header = h, dh_checksum = c\<rparr>, length ?w))"
    using parse_binary_encoded [of h c esc "[]"] by simp
  ultimately show "zd_next_header (fst (zd_push zd_default ?w)) =
     (zd_default, Inr (Some \<lparr>dh_header = h, dh_checksum = c\<rparr>))"
    using zd_next_header_start [of ?d] by (simp add: zd_default_def)
next
  show "header_offset (with_offset t off) = off"
    by (simp add: header_offset_def with_offset_def header_new_def)
qed

text \<open>C23: Subpacket round trip: pushing an encoded subpacket into a fresh decoder yields the same
  payload and frame end, for both checksums and both escaping modes, and consumes exactly the
  frame.\<close>

theorem zmodem_subpacket_roundtrip:
  assumes "encode_zmodem_subpacket payload e c esc = Inr wire"
  shows "zd_next_subpacket (fst (zd_push zd_default wire)) c =
    (zd_default, Inr (Some \<lparr>sp_payload = payload, sp_frame_end = e\<rparr>))"
proof -
  let ?sum = "checksum_bytes c (payload @ [frame_end_byte e])"
  have len: "length payload \<le> MAX_ZMODEM_SUBPACKET_BYTES"
    and wire: "wire = encode_zdle payload esc @ [ZMODEM_ZDLE, frame_end_byte e] @ encode_zdle ?sum esc"
    using assms by (auto simp: encode_zmodem_subpacket_def Let_def split: if_splits)
  have "calm [ZMODEM_ZDLE, frame_end_byte e]"
    by (cases e) (simp_all add: calm_def)
  then have calm: "calm wire" unfolding wire by (intro calm_append calm_encode)
  have "length wire \<le> 2 * length payload + 2 + 2 * length ?sum"
    using encode_zdle_length [of payload esc] encode_zdle_length [of ?sum esc] by (simp add: wire)
  also have "\<dots> \<le> MAX_ZMODEM_INPUT_BYTES"
    using len by (cases c) (simp_all add: length_checksum_bytes MAX_ZMODEM_SUBPACKET_BYTES_def
        MAX_ZMODEM_INPUT_BYTES_def)
  finally have push: "zd_push zd_default wire = (zd_default\<lparr>zd_input := wire\<rparr>, Inr ())"
    using calm by (intro zd_push_frame)
  have "\<not> zd_cancelled (zd_default\<lparr>zd_input := wire\<rparr>)"
    using calm by (intro calm_not_cancelled) (simp_all add: zd_default_def)
  then show ?thesis
    using zd_next_subpacket_encoded [OF assms, of "zd_default\<lparr>zd_input := wire\<rparr>" "[]"] push
    by (simp add: zd_default_def)
qed

theorem zmodem_subpacket_roundtrip_witness:
  "zd_next_subpacket
     (fst (zd_push zd_default
        ([1, 0x18, 0x58, 0x18, 0x68] @
         encode_zdle (checksum_bytes Crc32 ([1, 0x18] @ [0x68])) False))) Crc32 =
   (zd_default, Inr (Some \<lparr>sp_payload = [1, 0x18], sp_frame_end = EndNoAck\<rparr>))"
  by (rule zmodem_subpacket_roundtrip [where esc = False])
    (simp add: encode_zmodem_subpacket_def encode_zdle_def must_escape_def MAX_ZMODEM_SUBPACKET_BYTES_def)

text \<open>C26: A push of the sentry succeeds exactly as long as the retained and the new bytes fit the limit of
  the input.  Then it neither loses, invents nor reorders a byte: what it passes to the terminal, what
  it hands to the transfer and what it retains is, in this order, the retained input followed by the
  new bytes; it never retains more than 20 bytes; and what it hands to the transfer starts with a
  checksum-valid initiating header of the reported direction.  A longer push is refused and discards
  what was retained with it.\<close>

theorem zmodem_sentry_conserves:
  "(MAX_ZMODEM_INPUT_BYTES < length input + length bs \<longrightarrow>
      sentry_push input bs = ([], Inl (InputTooLarge MAX_ZMODEM_INPUT_BYTES))) \<and>
   (length input + length bs \<le> MAX_ZMODEM_INPUT_BYTES \<longrightarrow>
      (\<exists>input' out. sentry_push input bs = (input', Inr out) \<and>
         so_passthrough out @ detected_bytes out @ input' = input @ bs \<and> length input' \<le> 20 \<and>
         (case so_detected out of
            None \<Rightarrow> True
          | Some det \<Rightarrow> input' = [] \<and>
              (\<exists>decoded n. parse_header_at_start (det_protocol_bytes det) = Inr (Some (decoded, n)) \<and>
                 initiator_direction decoded = Some (det_direction det)))))"
proof (cases "MAX_ZMODEM_INPUT_BYTES < length input + length bs")
  case True
  then have "MAX_ZMODEM_INPUT_BYTES < saturating_add64 (length input) (length bs)"
    by (simp add: saturating_add64_def MAX_ZMODEM_INPUT_BYTES_def)
  then show ?thesis using True by (simp add: sentry_push_def)
next
  case False
  then have "\<not> MAX_ZMODEM_INPUT_BYTES < saturating_add64 (length input) (length bs)"
    by (simp add: saturating_add64_def)
  moreover obtain input' out where l: "sentry_loop (input @ bs) [] = (input', out)" by force
  ultimately have "sentry_push input bs = (input', Inr out)" using False by (simp add: sentry_push_def)
  then show ?thesis
    using sentry_loop_facts [where input = "input @ bs" and p = "[]"] l False
    by (auto simp: detection_ok_def split: option.split)
qed

theorem zmodem_sentry_conserves_witness:
  "sentry_push [0x2A] (replicate MAX_ZMODEM_INPUT_BYTES 0x41) = ([], Inl (InputTooLarge MAX_ZMODEM_INPUT_BYTES)) \<and>
   (\<exists>input' out. sentry_push [0x2A] [0x41] = (input', Inr out) \<and>
      so_passthrough out @ detected_bytes out @ input' = [0x2A, 0x41])"
proof -
  have "\<exists>input' out. sentry_push [0x2A] [0x41] = (input', Inr out) \<and>
      so_passthrough out @ detected_bytes out @ input' = [0x2A] @ [0x41]"
    using zmodem_sentry_conserves [of "[0x2A]" "[0x41]"] by (auto simp: MAX_ZMODEM_INPUT_BYTES_def)
  moreover have "sentry_push [0x2A] (replicate MAX_ZMODEM_INPUT_BYTES 0x41) =
      ([], Inl (InputTooLarge MAX_ZMODEM_INPUT_BYTES))"
    using zmodem_sentry_conserves [of "[0x2A]" "replicate MAX_ZMODEM_INPUT_BYTES 0x41"] by simp
  ultimately show ?thesis by simp
qed

text \<open>The sentry does not depend on how the input is cut: as long as nothing was detected,
  pushing two chunks passes and detects the same as pushing their concatenation; once a transfer
  was detected in the first chunk, the concatenation detects the same transfer with the second
  chunk appended to its bytes.\<close>

theorem zmodem_sentry_split:
  assumes "length input + length xs + length ys \<le> MAX_ZMODEM_INPUT_BYTES"
    and "sentry_push input xs = (input', Inr out)"
  shows "sentry_push input (xs @ ys) =
    (if so_detected out = None then
       (case sentry_push input' ys of
          (input'', Inl e) \<Rightarrow> (input'', Inl e)
        | (input'', Inr out') \<Rightarrow>
            (input'', Inr (out'\<lparr>so_passthrough := so_passthrough out @ so_passthrough out'\<rparr>)))
     else ([], Inr (extend_detection ys out)))"
proof -
  have first: "sentry_loop (input @ xs) [] = (input', out)"
    using assms(2) by (auto simp: sentry_push_def split: if_splits prod.splits)
  have "so_passthrough out @ detected_bytes out @ input' = input @ xs"
    using sentry_loop_facts [where input = "input @ xs" and p = "[]"] first by simp
  then have "length (so_passthrough out @ detected_bytes out @ input') = length (input @ xs)"
    by (rule arg_cong)
  then have len': "length input' \<le> length input + length xs" by simp
  have ok: "\<not> MAX_ZMODEM_INPUT_BYTES < saturating_add64 a b"
    if "a + b \<le> length input + length xs + length ys" for a b
    using that assms(1) saturating_add64_le [of a b] by linarith
  have whole: "sentry_push input (xs @ ys) =
      (case sentry_loop ((input @ xs) @ ys) [] of (i, o') \<Rightarrow> (i, Inr o'))"
    using assms(1) ok [of "length input" "length (xs @ ys)"] by (simp add: sentry_push_def)
  have second: "sentry_push input' ys = (case sentry_loop (input' @ ys) [] of (i, o') \<Rightarrow> (i, Inr o'))"
    using assms(1) ok [of "length input'" "length ys"] len' by (simp add: sentry_push_def)
  show ?thesis
    unfolding whole second sentry_loop_split [of "input @ xs" ys "[]"] first
    using sentry_loop_prefix [of "input' @ ys" "so_passthrough out" "[]"]
    by (simp add: case_prod_beta)
qed

theorem zmodem_sentry_split_witness:
  "sentry_push [] ([0x2A] @ [0x41]) =
     (case sentry_push [0x2A] [0x41] of
        (input'', Inl e) \<Rightarrow> (input'', Inl e)
      | (input'', Inr out') \<Rightarrow> (input'', Inr out'))"
proof -
  let ?out = "\<lparr>so_passthrough = [], so_detected = None\<rparr>"
  have "sentry_push [] [0x2A] = ([0x2A], Inr ?out)"
    by (rule sentry_star)
  from zmodem_sentry_split [OF _ this, of "[0x41]"] show ?thesis
    by (simp only: sentry_output.simps if_True) (simp add: MAX_ZMODEM_INPUT_BYTES_def)
qed

text \<open>The sentry finds a transfer: a hexadecimal initiating header after any text without an
  asterisk is detected with its direction; the text goes to the terminal, everything from the
  header on to the transfer.\<close>

theorem zmodem_sentry_detects:
  assumes "ZMODEM_ZPAD \<notin> set prompt"
    and "zh_frame_type h = ReceiverInit \<and> direction = Send \<or>
      zh_frame_type h = RequestInit \<and> direction = Receive"
    and "length (prompt @ encode_zmodem_hex_header h @ rest) \<le> MAX_ZMODEM_INPUT_BYTES"
  shows "sentry_push [] (prompt @ encode_zmodem_hex_header h @ rest) =
    ([], Inr \<lparr>so_passthrough = prompt, so_detected = Some \<lparr>det_direction = direction,
       det_protocol_bytes = encode_zmodem_hex_header h @ rest\<rparr>\<rparr>)"
proof -
  let ?w = "encode_zmodem_hex_header h @ rest"
  have star: "hd xs = ZMODEM_ZPAD" if "is_header_candidate xs" "xs \<noteq> []" for xs
    using that unfolding candidate_iff by (cases xs) (auto simp: header_prefix_defs)
  have skip: "\<forall>i < length prompt. \<not> is_header_candidate (drop i prompt @ ?w)"
  proof (intro allI impI notI)
    fix i assume i: "i < length prompt" and "is_header_candidate (drop i prompt @ ?w)"
    then have "hd (drop i prompt @ ?w) = ZMODEM_ZPAD" by (intro star) auto
    then have "prompt ! i = ZMODEM_ZPAD" using i by (simp add: hd_drop_conv_nth)
    then show False using assms(1) i nth_mem by metis
  qed
  obtain n where parse: "parse_header_at_start ?w = Inr (Some (\<lparr>dh_header = h, dh_checksum = Crc16\<rparr>, n))"
    using parse_hex_encoded [of h "(if zh_frame_type h = Finish \<or> zh_frame_type h = Ack then []
      else [ZMODEM_XON]) @ rest"] by (simp only: hex_header_shape append_assoc)
  have dir: "initiator_direction \<lparr>dh_header = h, dh_checksum = Crc16\<rparr> = Some direction"
    using assms(2) by (auto simp: initiator_direction_def)
  have "sentry_loop (prompt @ ?w) [] = sentry_loop ?w prompt"
    using sentry_skip [OF skip, of "[]"] by simp
  also have "\<dots> = ([], \<lparr>so_passthrough = prompt,
      so_detected = Some \<lparr>det_direction = direction, det_protocol_bytes = ?w\<rparr>\<rparr>)"
    using sentry_at [of ?w prompt] parsed_is_candidate [OF parse] parse dir by simp
  finally show ?thesis
    using assms(3) saturating_add64_le [of 0 "length (prompt @ ?w)"] by (simp add: sentry_push_def)
qed

theorem zmodem_sentry_detects_witness:
  "sentry_push [] ([0x24, 0x20] @ encode_zmodem_hex_header (header_new RequestInit 0 0 0 0) @ []) =
    ([], Inr \<lparr>so_passthrough = [0x24, 0x20], so_detected = Some \<lparr>det_direction = Receive,
       det_protocol_bytes = encode_zmodem_hex_header (header_new RequestInit 0 0 0 0) @ []\<rparr>\<rparr>)"
  by (rule zmodem_sentry_detects)
    (simp_all add: header_new_def hex_header_shape header_prefix_defs MAX_ZMODEM_INPUT_BYTES_def)

end
