(* ===== verification/Zmodem_Metadata.thy ===== *)
theory Zmodem_Metadata
  imports Zmodem_Wire
begin

text \<open>
  \<^verbatim>\<open>ZmodemFileMetadata\<close> of \<^verbatim>\<open>crates/netcatty-serial/src/zmodem.rs\<close>: the metadata block of a ZFILE
  frame, its encoder and its parser.
\<close>

section \<open>The metadata block\<close>

record zmodem_file_metadata =
  zm_file_name :: rstr
  zm_total_bytes :: nat
  zm_modified_time :: nat
  zm_mode :: nat
  zm_files_remaining :: "nat option"
  zm_bytes_remaining :: "nat option"

definition sanitize_zmodem_filename :: "rstr \<Rightarrow> zmodem_error + rstr" where
  "sanitize_zmodem_filename value =
     (let sanitized = clean_name (lit ''zmodem-received.bin'') value
      in if MAX_ZMODEM_FILENAME_BYTES < str_len sanitized
         then Inl (FilenameTooLong MAX_ZMODEM_FILENAME_BYTES)
         else Inr sanitized)"

definition zmodem_metadata_new ::
    "rstr \<Rightarrow> nat \<Rightarrow> nat \<Rightarrow> nat \<Rightarrow> zmodem_error + zmodem_file_metadata" where
  "zmodem_metadata_new file_name total_bytes modified_time mode =
     (if MAX_ZMODEM_FILE_BYTES < total_bytes then Inl (FileTooLarge MAX_ZMODEM_FILE_BYTES)
      else case sanitize_zmodem_filename file_name of
             Inl e \<Rightarrow> Inl e
           | Inr name \<Rightarrow>
               Inr \<lparr>zm_file_name = name, zm_total_bytes = total_bytes,
                    zm_modified_time = modified_time, zm_mode = mode,
                    zm_files_remaining = None, zm_bytes_remaining = None\<rparr>)"

definition wire_mode :: "nat \<Rightarrow> nat" where
  "wire_mode mode = 0x8000 OR (mode AND 0xFFF)"

definition metadata_fields :: "zmodem_file_metadata \<Rightarrow> nat \<Rightarrow> nat \<Rightarrow> rstr" where
  "metadata_fields m files_remaining bytes_remaining =
     show_radix 10 (zm_total_bytes m) @ 32 # show_radix 8 (zm_modified_time m) @ 32 #
     show_radix 8 (wire_mode (zm_mode m)) @ 32 # [48] @ 32 #
     show_radix 10 files_remaining @ 32 # show_radix 10 bytes_remaining"

definition encode_zmodem_file_metadata ::
    "zmodem_file_metadata \<Rightarrow> nat \<Rightarrow> nat \<Rightarrow> zmodem_error + bytes" where
  "encode_zmodem_file_metadata m files_remaining bytes_remaining =
     (let value = zm_file_name m @ [0] @ metadata_fields m files_remaining bytes_remaining @ [0]
      in if MAX_ZMODEM_METADATA_BYTES < str_len value
         then Inl (MetadataTooLarge MAX_ZMODEM_METADATA_BYTES)
         else Inr (utf8 value))"

definition parse_required :: "nat \<Rightarrow> rstr option \<Rightarrow> zmodem_error + nat" where
  "parse_required radix value =
     (case Option.bind value (parse_u64 radix) of
        None \<Rightarrow> Inl InvalidMetadata | Some n \<Rightarrow> Inr n)"

definition parse_optional_radix :: "rstr option \<Rightarrow> nat \<Rightarrow> zmodem_error + nat" where
  "parse_optional_radix value radix =
     (case value of
        Some v \<Rightarrow> if v \<noteq> [] then parse_required radix value else Inr 0
      | None \<Rightarrow> Inr 0)"

definition parse_optional_decimal :: "rstr option \<Rightarrow> zmodem_error + nat option" where
  "parse_optional_decimal value =
     (case value of
        None \<Rightarrow> Inr None
      | Some v \<Rightarrow> map_sum id Some (parse_required 10 (Some v)))"

definition nth_part :: "nat \<Rightarrow> rstr list \<Rightarrow> rstr option" where
  "nth_part i parts = (if i < length parts then Some (parts ! i) else None)"

definition bind_result :: "'e + 'a \<Rightarrow> ('a \<Rightarrow> 'e + 'b) \<Rightarrow> 'e + 'b" where
  "bind_result r f = (case r of Inl e \<Rightarrow> Inl e | Inr a \<Rightarrow> f a)"

text \<open>The part of the parser after the text was split into fields.\<close>

definition metadata_from_parts :: "rstr \<Rightarrow> rstr list \<Rightarrow> zmodem_error + zmodem_file_metadata" where
  "metadata_from_parts name parts =
     bind_result (parse_required 10 (nth_part 0 parts)) (\<lambda>total_bytes.
     bind_result (parse_optional_radix (nth_part 1 parts) 8) (\<lambda>modified_time.
     bind_result (parse_optional_radix (nth_part 2 parts) 8) (\<lambda>mode.
     if 2 ^ 32 \<le> mode then Inl InvalidMetadata
     else bind_result (parse_optional_decimal (nth_part 4 parts)) (\<lambda>files_remaining.
     bind_result (parse_optional_decimal (nth_part 5 parts)) (\<lambda>bytes_remaining.
     if (case files_remaining of Some n \<Rightarrow> MAX_ZMODEM_BATCH_FILES < n | None \<Rightarrow> False)
     then Inl (InvalidBatch MAX_ZMODEM_BATCH_FILES)
     else if (case bytes_remaining of
         Some n \<Rightarrow> MAX_ZMODEM_FILE_BYTES * MAX_ZMODEM_BATCH_FILES < n | None \<Rightarrow> False)
     then Inl BatchSizeOverflow
     else bind_result (zmodem_metadata_new name total_bytes modified_time mode) (\<lambda>m.
       Inr (m\<lparr>zm_files_remaining := files_remaining,
              zm_bytes_remaining := bytes_remaining\<rparr>)))))))"

definition parse_zmodem_file_metadata :: "bytes \<Rightarrow> zmodem_error + zmodem_file_metadata" where
  "parse_zmodem_file_metadata bs =
     (if MAX_ZMODEM_METADATA_BYTES < length bs
      then Inl (MetadataTooLarge MAX_ZMODEM_METADATA_BYTES)
      else if 0 \<notin> set bs then Inl InvalidMetadata
      else case from_utf8 (takeWhile (\<lambda>b. b \<noteq> 0) bs) of
        None \<Rightarrow> Inl InvalidMetadata
      | Some name \<Rightarrow>
          (case from_utf8 (takeWhile (\<lambda>b. b \<noteq> 0) (tl (dropWhile (\<lambda>b. b \<noteq> 0) bs))) of
             None \<Rightarrow> Inl InvalidMetadata
           | Some info \<Rightarrow> metadata_from_parts name (split_ascii_whitespace info)))"

section \<open>Facts\<close>

lemma zmodem_fallback_safe: "safe_file_name (lit ''zmodem-received.bin'')"
  by (simp add: safe_file_name_def lit_def is_control_def reserved_char_simps trim_def trim_end_def
      is_whitespace_def)

lemma zmodem_fallback_valid: "valid_str (lit ''zmodem-received.bin'')"
  by (simp add: lit_def scalar_def)

lemma sanitize_zmodem_Inr:
  "sanitize_zmodem_filename s = Inr t \<longleftrightarrow>
     t = clean_name (lit ''zmodem-received.bin'') s \<and> str_len t \<le> MAX_ZMODEM_FILENAME_BYTES"
  by (auto simp: sanitize_zmodem_filename_def Let_def)

lemma sanitize_zmodem_safe_id:
  "safe_file_name s \<Longrightarrow> str_len s \<le> MAX_ZMODEM_FILENAME_BYTES \<Longrightarrow> sanitize_zmodem_filename s = Inr s"
  by (simp add: sanitize_zmodem_Inr clean_name_id)

definition zmodem_metadata_ok :: "zmodem_file_metadata \<Rightarrow> bool" where
  "zmodem_metadata_ok m \<longleftrightarrow>
     safe_file_name (zm_file_name m) \<and> valid_str (zm_file_name m) \<and>
     str_len (zm_file_name m) \<le> MAX_ZMODEM_FILENAME_BYTES \<and>
     zm_total_bytes m \<le> MAX_ZMODEM_FILE_BYTES \<and>
     zm_modified_time m \<le> U64_MAX \<and> zm_mode m < 2 ^ 32"

lemma zmodem_metadata_new_ok:
  assumes "zmodem_metadata_new name t n' md = Inr m"
    and "valid_str name" and "n' \<le> U64_MAX" and "md < 2 ^ 32"
  shows "zmodem_metadata_ok m"
proof -
  obtain f where f: "sanitize_zmodem_filename name = Inr f" and t: "t \<le> MAX_ZMODEM_FILE_BYTES"
    and m: "m = \<lparr>zm_file_name = f, zm_total_bytes = t, zm_modified_time = n', zm_mode = md,
      zm_files_remaining = None, zm_bytes_remaining = None\<rparr>"
    using assms(1) by (auto simp: zmodem_metadata_new_def split: if_splits sum.splits)
  have "valid_str f"
    using f clean_name_valid [OF assms(2) zmodem_fallback_valid] by (simp only: sanitize_zmodem_Inr)
  moreover have "safe_file_name f"
    using f clean_name_safe [OF zmodem_fallback_safe] by (simp only: sanitize_zmodem_Inr)
  moreover have "str_len f \<le> MAX_ZMODEM_FILENAME_BYTES"
    using f unfolding sanitize_zmodem_Inr by (rule conjunct2)
  ultimately show ?thesis
    using t assms(3,4) by (simp add: m zmodem_metadata_ok_def)
qed

lemma wire_mode_less: "wire_mode mode < 2 ^ 16"
proof -
  have "take_bit 16 (wire_mode mode) = wire_mode mode"
  proof -
    have "mode AND 0xFFF = take_bit 12 mode"
      by (simp add: take_bit_eq_mask mask_numeral)
    moreover have "take_bit 16 (0x8000 :: nat) = 0x8000" by simp
    ultimately show ?thesis
      by (simp only: wire_mode_def take_bit_or) simp
  qed
  then show ?thesis using take_bit_nat_less_exp [of 16 "wire_mode mode"] by simp
qed

lemma fields_split:
  "split_ascii_whitespace (metadata_fields m f b) =
     [show_radix 10 (zm_total_bytes m), show_radix 8 (zm_modified_time m),
      show_radix 8 (wire_mode (zm_mode m)), [48], show_radix 10 f, show_radix 10 b]"
proof -
  have "word_chars [48]" by (simp add: word_chars_def is_ascii_whitespace_def)
  then show ?thesis
    unfolding metadata_fields_def
    by (simp only: split_ascii_Cons show_radix_word(1) split_ascii_single)
qed

lemma show_radix_ascii:
  "2 \<le> r \<Longrightarrow> r \<le> 10 \<Longrightarrow> \<forall>c \<in> set (show_radix r n). c < 0x80 \<and> c \<noteq> 0"
  using show_radix_word(2,3) [of r n] by (metis)

lemma fields_ascii: "\<forall>c \<in> set (metadata_fields m f b). c < 0x80 \<and> c \<noteq> 0"
  using show_radix_ascii [of 10] show_radix_ascii [of 8]
  by (simp add: metadata_fields_def ball_Un)

lemma metadata_length:
  assumes "zmodem_metadata_ok m" and "f \<le> MAX_ZMODEM_BATCH_FILES"
    and "b \<le> MAX_ZMODEM_FILE_BYTES * MAX_ZMODEM_BATCH_FILES"
  shows "str_len (zm_file_name m @ [0] @ metadata_fields m f b @ [0]) \<le> MAX_ZMODEM_METADATA_BYTES"
proof -
  have "length (show_radix 10 (zm_total_bytes m)) \<le> 10" "length (show_radix 10 f) \<le> 4"
    "length (show_radix 10 b) \<le> 13"
    using assms by (auto intro!: length_show_radix simp: zmodem_metadata_ok_def
        MAX_ZMODEM_FILE_BYTES_def MAX_ZMODEM_BATCH_FILES_def)
  moreover have "length (show_radix 8 (zm_modified_time m)) \<le> 22"
    using assms(1) by (intro length_show_radix) (auto simp: zmodem_metadata_ok_def)
  moreover have "length (show_radix 8 (wire_mode (zm_mode m))) \<le> 6"
    using wire_mode_less [of "zm_mode m"] by (intro length_show_radix) auto
  ultimately have "length (metadata_fields m f b) \<le> 61"
    by (simp add: metadata_fields_def)
  moreover have "length (utf8 (0 # metadata_fields m f b @ [0])) = length (metadata_fields m f b) + 2"
  proof -
    have "\<forall>c \<in> set (0 # metadata_fields m f b @ [0]). c < 0x80" using fields_ascii by auto
    then show ?thesis by (simp only: utf8_ascii) simp
  qed
  ultimately show ?thesis
    using assms(1) by (simp add: str_len_def utf8_append zmodem_metadata_ok_def
        MAX_ZMODEM_FILENAME_BYTES_def MAX_ZMODEM_METADATA_BYTES_def)
qed

lemma parse_required_show:
  "2 \<le> r \<Longrightarrow> r \<le> 10 \<Longrightarrow> n \<le> U64_MAX \<Longrightarrow> parse_required r (Some (show_radix r n)) = Inr n"
  by (simp add: parse_required_def parse_u64_show)

lemma metadata_roundtrip:
  assumes ok: "zmodem_metadata_ok m" and f: "f \<le> MAX_ZMODEM_BATCH_FILES"
    and b: "b \<le> MAX_ZMODEM_FILE_BYTES * MAX_ZMODEM_BATCH_FILES"
  shows "\<exists>bs. encode_zmodem_file_metadata m f b = Inr bs \<and>
    parse_zmodem_file_metadata bs =
      Inr (m\<lparr>zm_mode := wire_mode (zm_mode m), zm_files_remaining := Some f,
             zm_bytes_remaining := Some b\<rparr>)"
proof -
  let ?name = "zm_file_name m" and ?fields = "metadata_fields m f b"
  have name: "safe_file_name ?name" "valid_str ?name" "str_len ?name \<le> MAX_ZMODEM_FILENAME_BYTES"
    using ok by (simp_all add: zmodem_metadata_ok_def)
  let ?bs = "utf8 (?name @ [0] @ ?fields @ [0])"
  have enc: "encode_zmodem_file_metadata m f b = Inr ?bs"
    using metadata_length [OF ok f b] by (simp add: encode_zmodem_file_metadata_def Let_def)
  have "utf8 (0 # t) = 0 # utf8 t" for t by (simp add: utf8_def utf8_char_def)
  then have bs: "?bs = utf8 ?name @ 0 # (utf8 ?fields @ [0])"
    by (simp add: utf8_append)
  have n1: "\<forall>b \<in> set (utf8 ?name). b \<noteq> 0"
    using utf8_no_nul [OF name(2) safe_no_nul [OF name(1)]] by auto
  have fvalid: "valid_str ?fields" using fields_ascii by (intro ascii_valid) auto
  have "0 \<notin> set ?fields" using fields_ascii [of m f b] by auto
  then have n2: "\<forall>b \<in> set (utf8 ?fields). b \<noteq> 0"
    using utf8_no_nul [OF fvalid] by auto
  have len: "length ?bs \<le> MAX_ZMODEM_METADATA_BYTES"
    using metadata_length [OF ok f b] by (simp only: str_len_def)
  have tw: "takeWhile (\<lambda>b. b \<noteq> 0) ?bs = utf8 ?name"
    and tw2: "takeWhile (\<lambda>b. b \<noteq> 0) (tl (dropWhile (\<lambda>b. b \<noteq> 0) ?bs)) = utf8 ?fields"
    unfolding bs using n1 n2 by simp_all
  have nul: "0 \<in> set ?bs" unfolding bs by simp
  have bounds: "zm_total_bytes m \<le> U64_MAX" "f \<le> U64_MAX" "b \<le> U64_MAX"
    "wire_mode (zm_mode m) \<le> U64_MAX" "zm_modified_time m \<le> U64_MAX" "wire_mode (zm_mode m) < 2 ^ 32"
    using ok f b wire_mode_less [of "zm_mode m"]
    by (simp_all add: zmodem_metadata_ok_def MAX_ZMODEM_FILE_BYTES_def MAX_ZMODEM_BATCH_FILES_def)
  have new: "zmodem_metadata_new ?name (zm_total_bytes m) (zm_modified_time m) (wire_mode (zm_mode m)) =
      Inr \<lparr>zm_file_name = ?name, zm_total_bytes = zm_total_bytes m,
        zm_modified_time = zm_modified_time m, zm_mode = wire_mode (zm_mode m),
        zm_files_remaining = None, zm_bytes_remaining = None\<rparr>"
    using ok name by (simp add: zmodem_metadata_new_def sanitize_zmodem_safe_id zmodem_metadata_ok_def)
  have "metadata_from_parts ?name (split_ascii_whitespace ?fields) =
      Inr (m\<lparr>zm_mode := wire_mode (zm_mode m), zm_files_remaining := Some f,
             zm_bytes_remaining := Some b\<rparr>)"
    using bounds f b new
    by (simp add: metadata_from_parts_def fields_split nth_part_def parse_optional_radix_def
        parse_optional_decimal_def parse_required_show bind_result_def)
  then have "parse_zmodem_file_metadata ?bs =
      Inr (m\<lparr>zm_mode := wire_mode (zm_mode m), zm_files_remaining := Some f,
             zm_bytes_remaining := Some b\<rparr>)"
    unfolding parse_zmodem_file_metadata_def tw tw2
    using len nul name(2) fvalid by simp
  with enc show ?thesis by blast
qed

lemma parsed_zmodem_safe:
  assumes "parse_zmodem_file_metadata bs = Inr m"
  shows "safe_file_name (zm_file_name m) \<and> str_len (zm_file_name m) \<le> MAX_ZMODEM_FILENAME_BYTES \<and>
    zm_total_bytes m \<le> MAX_ZMODEM_FILE_BYTES"
proof -
  obtain name parts where "metadata_from_parts name parts = Inr m"
    using assms by (auto simp: parse_zmodem_file_metadata_def split: if_splits option.splits)
  then obtain t n md m' f b where new: "zmodem_metadata_new name t n md = Inr m'"
    and m: "m = m'\<lparr>zm_files_remaining := f, zm_bytes_remaining := b\<rparr>"
    by (auto simp: metadata_from_parts_def bind_result_def split: if_splits sum.splits)
  obtain g where g: "sanitize_zmodem_filename name = Inr g" and "t \<le> MAX_ZMODEM_FILE_BYTES"
    and m': "m' = \<lparr>zm_file_name = g, zm_total_bytes = t, zm_modified_time = n, zm_mode = md,
      zm_files_remaining = None, zm_bytes_remaining = None\<rparr>"
    using new by (auto simp: zmodem_metadata_new_def split: if_splits sum.splits)
  moreover have "safe_file_name g"
    using g clean_name_safe [OF zmodem_fallback_safe] by (simp only: sanitize_zmodem_Inr)
  moreover have "str_len g \<le> MAX_ZMODEM_FILENAME_BYTES"
    using g unfolding sanitize_zmodem_Inr by (rule conjunct2)
  ultimately show ?thesis by (simp add: m)
qed

section \<open>Properties\<close>

text \<open>Metadata round trip: for every metadata the constructor accepts and every remainder within
  the batch limits, the ZFILE block can be encoded and parses back to the same name, size and
  time, the remainders, and the mode reduced to its permission bits with the regular-file bit.\<close>

theorem zmodem_metadata_roundtrip:
  assumes "zmodem_metadata_new name t n' md = Inr m"
    and "valid_str name" and "n' \<le> U64_MAX" and "md < 2 ^ 32"
    and "f \<le> MAX_ZMODEM_BATCH_FILES" and "b \<le> MAX_ZMODEM_FILE_BYTES * MAX_ZMODEM_BATCH_FILES"
  shows "\<exists>bs. encode_zmodem_file_metadata m f b = Inr bs \<and>
    parse_zmodem_file_metadata bs =
      Inr (m\<lparr>zm_mode := wire_mode (zm_mode m), zm_files_remaining := Some f,
             zm_bytes_remaining := Some b\<rparr>)"
  using zmodem_metadata_new_ok [OF assms(1-4)] assms(5,6) by (rule metadata_roundtrip)

theorem zmodem_metadata_roundtrip_witness:
  "\<exists>m bs. encode_zmodem_file_metadata m 1 5 = Inr bs \<and>
    parse_zmodem_file_metadata bs =
      Inr (m\<lparr>zm_mode := wire_mode (zm_mode m), zm_files_remaining := Some 1,
             zm_bytes_remaining := Some 5\<rparr>)"
proof -
  have "safe_file_name [97]"
    by (simp add: safe_file_name_def lit_def is_control_def reserved_char_simps trim_def trim_end_def
        is_whitespace_def)
  then have "zmodem_metadata_new [97] 5 0 0 =
      Inr \<lparr>zm_file_name = [97], zm_total_bytes = 5, zm_modified_time = 0, zm_mode = 0,
        zm_files_remaining = None, zm_bytes_remaining = None\<rparr>"
    by (simp add: zmodem_metadata_new_def sanitize_zmodem_safe_id str_len_def utf8_def utf8_char_def
        MAX_ZMODEM_FILE_BYTES_def MAX_ZMODEM_FILENAME_BYTES_def)
  from zmodem_metadata_roundtrip [OF this, of 1 5] show ?thesis
    by (fastforce simp: scalar_def MAX_ZMODEM_FILE_BYTES_def MAX_ZMODEM_BATCH_FILES_def)
qed

text \<open>Metadata parsed from arbitrary bytes of the peer has a file name that is safe to join to a
  directory, at most 255 bytes long, and a size within the limit of the protocol.\<close>

theorem zmodem_parsed_metadata_safe:
  assumes "parse_zmodem_file_metadata bs = Inr m"
  shows "safe_file_name (zm_file_name m) \<and> str_len (zm_file_name m) \<le> MAX_ZMODEM_FILENAME_BYTES \<and>
    zm_total_bytes m \<le> MAX_ZMODEM_FILE_BYTES"
  using assms by (rule parsed_zmodem_safe)

theorem zmodem_parsed_metadata_safe_witness:
  "\<exists>bs m. parse_zmodem_file_metadata bs = Inr m \<and>
    safe_file_name (zm_file_name m) \<and> str_len (zm_file_name m) \<le> MAX_ZMODEM_FILENAME_BYTES \<and>
    zm_total_bytes m \<le> MAX_ZMODEM_FILE_BYTES"
proof -
  let ?m = "\<lparr>zm_file_name = [97], zm_total_bytes = 5, zm_modified_time = 0, zm_mode = 0,
        zm_files_remaining = None, zm_bytes_remaining = None\<rparr>"
  have "zmodem_metadata_ok ?m"
    by (simp add: zmodem_metadata_ok_def safe_file_name_def lit_def is_control_def reserved_char_simps
        trim_def trim_end_def is_whitespace_def scalar_def str_len_def utf8_def utf8_char_def
        MAX_ZMODEM_FILENAME_BYTES_def MAX_ZMODEM_FILE_BYTES_def)
  then obtain bs where "parse_zmodem_file_metadata bs =
      Inr (?m\<lparr>zm_mode := wire_mode (zm_mode ?m), zm_files_remaining := Some 1,
        zm_bytes_remaining := Some 5\<rparr>)"
    using metadata_roundtrip [of ?m 1 5]
    by (auto simp: MAX_ZMODEM_FILE_BYTES_def MAX_ZMODEM_BATCH_FILES_def)
  with zmodem_parsed_metadata_safe [OF this] show ?thesis by blast
qed

end
