(* ===== verification/Zmodem_Progress.thy ===== *)
theory Zmodem_Progress
  imports Zmodem_Decoder Zmodem_Metadata
begin

text \<open>
  What the two ZMODEM machines of \<^verbatim>\<open>crates/netcatty-serial/src/zmodem.rs\<close> share: the progress
  reports and summaries of a batch, the bounds of an accepted configuration, and the fact that a
  decoded frame always consumes input.
\<close>

section \<open>Reports\<close>

datatype zmodem_progress_stage = StageHeader | StageData | StageFinalizing | StageComplete

record zmodem_progress =
  zp_file_index :: nat
  zp_file_count :: nat
  zp_transferred_bytes :: nat
  zp_total_bytes :: nat
  zp_stage :: zmodem_progress_stage

record zmodem_file_summary =
  zf_file_index :: nat
  zf_total_bytes :: nat
  zf_transferred_bytes :: nat

record zmodem_batch_summary =
  zb_file_count :: nat
  zb_completed_files :: nat
  zb_skipped_files :: nat
  zb_total_bytes :: nat
  zb_transferred_bytes :: nat

section \<open>Accepted configurations\<close>

definition zmodem_config_ok :: "zmodem_config \<Rightarrow> bool" where
  "zmodem_config_ok c \<longleftrightarrow>
     0 < zc_timeout c \<and>
     0 < zc_retry_limit c \<and> zc_retry_limit c \<le> MAX_ZMODEM_RETRY_LIMIT \<and>
     0 < zc_chunk_bytes c \<and> zc_chunk_bytes c \<le> MAX_ZMODEM_SUBPACKET_BYTES"

lemma zmodem_config_new_ok: "zmodem_config_new t r n e = Inr c \<Longrightarrow> zmodem_config_ok c"
  by (auto simp: zmodem_config_new_def zmodem_config_ok_def split: if_splits)

lemma default_zmodem_config_ok [simp]: "zmodem_config_ok default_zmodem_config"
  by (simp add: zmodem_config_ok_def default_zmodem_config_def DEFAULT_ZMODEM_TIMEOUT_def
      DEFAULT_ZMODEM_RETRY_LIMIT_def MAX_ZMODEM_RETRY_LIMIT_def DEFAULT_ZMODEM_CHUNK_BYTES_def
      MAX_ZMODEM_SUBPACKET_BYTES_def)

definition attempt_ok :: "zmodem_config \<Rightarrow> nat \<Rightarrow> bool" where
  "attempt_ok c a \<longleftrightarrow> 1 \<le> a \<and> a \<le> zc_retry_limit c"

lemma attempt_ok_first: "zmodem_config_ok c \<Longrightarrow> attempt_ok c 1" "zmodem_config_ok c \<Longrightarrow> attempt_ok c (Suc 0)"
  by (simp_all add: attempt_ok_def zmodem_config_ok_def)

lemma attempt_ok_next: "attempt_ok c a \<Longrightarrow> \<not> zc_retry_limit c \<le> a \<Longrightarrow> attempt_ok c (Suc a)"
  by (simp add: attempt_ok_def)

section \<open>Every decoded frame consumes input\<close>

lemma zdle_prepend_Some:
  "zdle_prepend b n r = Inr (Some (xs, k)) \<Longrightarrow> \<exists>ys j. r = Inr (Some (ys, j)) \<and> k = j + n"
  by (auto simp: zdle_prepend_def split: sum.splits option.splits prod.splits)

lemma parsed_consumes:
  assumes "parse_header_at_start xs = Inr (Some (h, n))"
  shows "0 < n"
  using assms
  by (auto simp: parse_header_at_start_def parse_hex_header_def parse_binary_header_def Let_def
      header_prefix_defs split: if_splits sum.splits option.splits prod.splits)

lemma find_candidate_le: "find_header_candidate xs = Some c \<Longrightarrow> c < length xs"
  using candidate_position by blast

lemma zd_next_header_consumes:
  assumes "zd_next_header d = (d', Inr (Some h))"
  shows "length (zd_input d') < length (zd_input d)"
proof -
  obtain c n where c: "find_header_candidate (zd_input d) = Some c"
    and n: "parse_header_at_start (drop c (zd_input d)) = Inr (Some (h, n))"
    and d': "d' = d\<lparr>zd_input := drop n (drop c (zd_input d))\<rparr>"
    using assms by (auto simp: zd_next_header_def Let_def split: if_splits option.splits sum.splits prod.splits)
  show ?thesis using find_candidate_le [OF c] parsed_consumes [OF n] by (simp add: d')
qed

lemma scan_cursor:
  "scan_subpacket xs decoded cursor = Inr (Some (p, e, k)) \<Longrightarrow> cursor + 2 \<le> k \<and> k \<le> cursor + length xs"
proof (induction xs decoded cursor rule: scan_subpacket.induct)
  case (2 b bs decoded cursor)
  show ?case
  proof (cases bs)
    case Nil
    then show ?thesis using 2 by (auto split: if_splits)
  next
    case (Cons after rest)
    then show ?thesis
      using 2 by (force split: if_splits option.splits sum.splits)
  qed
qed (auto split: if_splits)

lemma zd_next_subpacket_consumes:
  assumes "zd_next_subpacket d c = (d', Inr (Some p))"
  shows "length (zd_input d') < length (zd_input d)"
proof -
  obtain pl e k j where "scan_subpacket (zd_input d) [] 0 = Inr (Some (pl, e, k))"
    and d': "d' = d\<lparr>zd_input := drop (k + j) (zd_input d)\<rparr>"
    using assms by (auto simp: zd_next_subpacket_def Let_def
        split: if_splits option.splits sum.splits prod.splits)
  with scan_cursor [of "zd_input d" "[]" 0 pl e k] show ?thesis by (simp add: d') linarith
qed

lemma over_and_out_less: "over_and_out_position xs = Some k \<Longrightarrow> k < length xs"
  by (induction xs arbitrary: k) (auto split: if_splits)

lemma zd_next_over_and_out_consumes:
  assumes "zd_next_over_and_out d = (d', Inr True)"
  shows "length (zd_input d') < length (zd_input d)"
proof -
  obtain k where k: "over_and_out_position (zd_input d) = Some k"
    and d': "d' = d\<lparr>zd_input := drop (k + length ZMODEM_OVER_AND_OUT) (zd_input d)\<rparr>"
    using assms by (auto simp: zd_next_over_and_out_def split: if_splits option.splits)
  with over_and_out_less [OF k] show ?thesis by (simp add: ZMODEM_OVER_AND_OUT_def)
qed

lemma header_offset_with: "header_offset (with_offset t off) = off"
  by (simp add: header_offset_def with_offset_def header_new_def)

section \<open>Encoded subpackets\<close>

lemma subpacket_wire:
  assumes "encode_zmodem_subpacket payload e c esc = Inr wire"
  shows "calm wire" and "length wire \<le> 2 * length payload + 10"
proof -
  let ?sum = "checksum_bytes c (payload @ [frame_end_byte e])"
  have wire: "wire = encode_zdle payload esc @ [ZMODEM_ZDLE, frame_end_byte e] @ encode_zdle ?sum esc"
    using assms by (auto simp: encode_zmodem_subpacket_def Let_def split: if_splits)
  have "calm [ZMODEM_ZDLE, frame_end_byte e]" by (cases e) (simp_all add: calm_def)
  then show "calm wire" unfolding wire by (intro calm_append calm_encode)
  have "length ?sum \<le> 4" by (cases c) (simp_all add: length_checksum_bytes)
  then show "length wire \<le> 2 * length payload + 10"
    using encode_zdle_length [of payload esc] encode_zdle_length [of ?sum esc] by (simp add: wire)
qed

text \<open>Reading a number of subpackets, one call of \<^verbatim>\<open>next_subpacket\<close> each.\<close>

fun zd_read :: "nat \<Rightarrow> zmodem_checksum \<Rightarrow> zmodem_wire_decoder \<Rightarrow>
    zmodem_wire_decoder \<times> (zmodem_error + zmodem_subpacket option) list" where
  "zd_read 0 c d = (d, [])"
| "zd_read (Suc n) c d =
     (case zd_next_subpacket d c of
        (d', r) \<Rightarrow> (case zd_read n c d' of (d'', rs) \<Rightarrow> (d'', r # rs)))"

fun encoded_subpackets ::
    "zmodem_checksum \<Rightarrow> bool \<Rightarrow> zmodem_subpacket list \<Rightarrow> bytes list \<Rightarrow> bool" where
  "encoded_subpackets c esc [] ws \<longleftrightarrow> ws = []"
| "encoded_subpackets c esc (p # ps) ws \<longleftrightarrow>
     (\<exists>w ws'. ws = w # ws' \<and> encode_zmodem_subpacket (sp_payload p) (sp_frame_end p) c esc = Inr w \<and>
        encoded_subpackets c esc ps ws')"

lemma encoded_calm: "encoded_subpackets c esc ps ws \<Longrightarrow> calm (concat ws)"
  by (induction c esc ps ws rule: encoded_subpackets.induct)
    (auto intro!: calm_append intro: subpacket_wire(1))

lemma encoded_length:
  "encoded_subpackets c esc ps ws \<Longrightarrow>
   length (concat ws) \<le> 2 * length (concat (map sp_payload ps)) + 10 * length ps \<and>
   length ws = length ps"
proof (induction ps arbitrary: ws)
  case (Cons p ps)
  then obtain w ws' where ws: "ws = w # ws'"
    and w: "encode_zmodem_subpacket (sp_payload p) (sp_frame_end p) c esc = Inr w"
    and "encoded_subpackets c esc ps ws'" by auto
  then show ?case using Cons.IH [of ws'] subpacket_wire(2) [OF w] by simp
qed simp

lemma zd_read_encoded:
  assumes "encoded_subpackets c esc ps ws" and "zd_input d = concat ws @ rest"
    and "calm rest" and "\<not> zd_remote_cancelled d"
  shows "zd_read (length ps) c d = (d\<lparr>zd_input := rest\<rparr>, map (\<lambda>p. Inr (Some p)) ps)"
  using assms
proof (induction ps arbitrary: ws d)
  case Nil
  then show ?case by simp
next
  case (Cons p ps)
  obtain w ws' where ws: "ws = w # ws'"
    and w: "encode_zmodem_subpacket (sp_payload p) (sp_frame_end p) c esc = Inr w"
    and tail: "encoded_subpackets c esc ps ws'" using Cons.prems(1) by auto
  have "calm (concat ws @ rest)" using encoded_calm [OF Cons.prems(1)] Cons.prems(3) by (rule calm_append)
  then have nc: "\<not> zd_cancelled d" using Cons.prems(2,4) by (intro calm_not_cancelled) simp_all
  have step: "zd_next_subpacket d c = (d\<lparr>zd_input := concat ws' @ rest\<rparr>, Inr (Some p))"
    using zd_next_subpacket_encoded [OF w _ nc, of "concat ws' @ rest"] Cons.prems(2)
    by (simp add: ws)
  have "zd_read (length ps) c (d\<lparr>zd_input := concat ws' @ rest\<rparr>) =
      (d\<lparr>zd_input := rest\<rparr>, map (\<lambda>p. Inr (Some p)) ps)"
    using Cons.IH [OF tail, of "d\<lparr>zd_input := concat ws' @ rest\<rparr>"] Cons.prems(3,4) by simp
  then show ?case by (simp add: step)
qed

end
