(* ===== verification/Zmodem_Sender.thy ===== *)
theory Zmodem_Sender
  imports Zmodem_Progress
begin

text \<open>
  \<^verbatim>\<open>ZmodemSender\<close> of \<^verbatim>\<open>crates/netcatty-serial/src/zmodem.rs\<close>: the sending state machine of a batch,
  its bounded queue of actions for the native adapter, and its retry rules.  The queue
  (\<^verbatim>\<open>VecDeque\<close>) is a list with its front first.  \<open>zs_step\<close> has one rule per public operation that
  changes the machine.  \<^verbatim>\<open>self.files[self.file_index]\<close> panics out of range; the invariant
  \<open>zs_inv\<close> shows that no reachable state does so.
\<close>

section \<open>The machine\<close>

datatype zmodem_sender_action =
    Write bytes
  | ReadSource nat nat nat
  | Progress zmodem_progress
  | FileCompleted zmodem_file_summary
  | FileSkipped nat
  | BatchCompleted zmodem_batch_summary bytes
  | Failed zmodem_error

datatype zmodem_sender_state =
    AwaitReceiverInit nat
  | AwaitSenderInitAck nat
  | AwaitOfferResponse nat
  | AwaitSource nat
  | AwaitReceiverInitAfterFile nat
  | AwaitFinish nat
  | Terminal

record zmodem_sender =
  zs_config :: zmodem_config
  zs_files :: "zmodem_file_metadata list"
  zs_wire :: zmodem_wire_decoder
  zs_state :: zmodem_sender_state
  zs_actions :: "zmodem_sender_action list"
  zs_file_index :: nat
  zs_offset :: nat
  zs_checksum :: zmodem_checksum
  zs_completed_files :: nat
  zs_skipped_files :: nat
  zs_transferred_bytes :: nat
  zs_batch_total_bytes :: nat

text \<open>The \<^verbatim>\<open>try_fold\<close> with \<^verbatim>\<open>checked_add\<close> over the sizes.\<close>

fun checked_total :: "nat \<Rightarrow> zmodem_file_metadata list \<Rightarrow> zmodem_error + nat" where
  "checked_total acc [] = Inr acc"
| "checked_total acc (f # fs) =
     (if U64_MAX < acc + zm_total_bytes f then Inl BatchSizeOverflow
      else checked_total (acc + zm_total_bytes f) fs)"

definition zs_new :: "zmodem_file_metadata list \<Rightarrow> zmodem_config \<Rightarrow> zmodem_error + zmodem_sender" where
  "zs_new files config =
     (if files = [] \<or> MAX_ZMODEM_BATCH_FILES < length files
      then Inl (InvalidBatch MAX_ZMODEM_BATCH_FILES)
      else case checked_total 0 files of
        Inl e \<Rightarrow> Inl e
      | Inr batch_total_bytes \<Rightarrow>
          Inr \<lparr>zs_config = config, zs_files = files, zs_wire = zd_default,
               zs_state = AwaitReceiverInit 1, zs_actions = [], zs_file_index = 0, zs_offset = 0,
               zs_checksum = Crc16, zs_completed_files = 0, zs_skipped_files = 0,
               zs_transferred_bytes = 0, zs_batch_total_bytes = batch_total_bytes\<rparr>)"

definition zs_next_action :: "zmodem_sender \<Rightarrow> zmodem_sender \<times> zmodem_sender_action option" where
  "zs_next_action s =
     (case zs_actions s of [] \<Rightarrow> (s, None) | a # rest \<Rightarrow> (s\<lparr>zs_actions := rest\<rparr>, Some a))"

definition zs_is_terminal :: "zmodem_sender \<Rightarrow> bool" where
  "zs_is_terminal s \<longleftrightarrow> zs_state s = Terminal"

definition zs_timeout :: "zmodem_sender \<Rightarrow> nat option" where
  "zs_timeout s =
     (case zs_state s of
        AwaitSource _ \<Rightarrow> None
      | Terminal \<Rightarrow> None
      | _ \<Rightarrow> Some (zc_timeout (zs_config s)))"

definition zs_queue :: "zmodem_sender \<Rightarrow> zmodem_sender_action \<Rightarrow> zmodem_sender \<times> bool" where
  "zs_queue s a =
     (if MAX_ZMODEM_PENDING_ACTIONS \<le> length (zs_actions s)
      then (s\<lparr>zs_actions := [Failed (ActionQueueFull MAX_ZMODEM_PENDING_ACTIONS)],
              zs_state := Terminal\<rparr>, False)
      else (s\<lparr>zs_actions := zs_actions s @ [a]\<rparr>, True))"

text \<open>The calls of \<^verbatim>\<open>queue_sender_action\<close> that ignore its result.\<close>

definition zs_emit :: "zmodem_sender_action \<Rightarrow> zmodem_sender \<Rightarrow> zmodem_sender" where
  "zs_emit a s = fst (zs_queue s a)"

definition zs_fail :: "zmodem_sender \<Rightarrow> zmodem_error \<Rightarrow> zmodem_sender" where
  "zs_fail s e = (zs_emit (Failed e) s)\<lparr>zs_state := Terminal\<rparr>"

definition zs_file :: "zmodem_sender \<Rightarrow> zmodem_file_metadata" where
  "zs_file s = zs_files s ! zs_file_index s"

definition zs_subpacket :: "zmodem_sender \<Rightarrow> bytes \<Rightarrow> zmodem_frame_end \<Rightarrow> zmodem_error + bytes" where
  "zs_subpacket s payload e =
     encode_zmodem_subpacket payload e (zs_checksum s) (zc_escape_control_bytes (zs_config s))"

definition zs_send_finish :: "zmodem_sender \<Rightarrow> nat \<Rightarrow> zmodem_sender" where
  "zs_send_finish s attempts =
     (zs_emit (Write (encode_zmodem_hex_header (header_new Finish 0 0 0 0))) s)
       \<lparr>zs_state := AwaitFinish attempts\<rparr>"

definition zs_retry_finish :: "zmodem_sender \<Rightarrow> nat \<Rightarrow> zmodem_sender" where
  "zs_retry_finish s attempts =
     (if zc_retry_limit (zs_config s) \<le> attempts then zs_fail s RetryLimit
      else zs_send_finish s (attempts + 1))"

definition zs_send_end_of_file :: "zmodem_sender \<Rightarrow> nat \<Rightarrow> zmodem_sender" where
  "zs_send_end_of_file s attempts =
     (zs_emit (Write (encode_zmodem_hex_header (with_offset EndOfFile (of_nat (zs_offset s))))) s)
       \<lparr>zs_state := AwaitReceiverInitAfterFile attempts\<rparr>"

definition zs_retry_end_of_file :: "zmodem_sender \<Rightarrow> nat \<Rightarrow> zmodem_sender" where
  "zs_retry_end_of_file s attempts =
     (if zc_retry_limit (zs_config s) \<le> attempts then zs_fail s RetryLimit
      else zs_send_end_of_file s (attempts + 1))"

definition zs_request_source :: "zmodem_sender \<Rightarrow> nat \<Rightarrow> zmodem_sender" where
  "zs_request_source s attempts =
     (let remaining = zm_total_bytes (zs_file s) - zs_offset s;
          maximum_bytes = min remaining (zc_chunk_bytes (zs_config s))
      in (zs_emit (ReadSource (zs_file_index s) (zs_offset s) maximum_bytes) s)
           \<lparr>zs_state := AwaitSource attempts\<rparr>)"

text \<open>The data header of \<^verbatim>\<open>begin_or_resume_source\<close>.\<close>

definition zs_open_data :: "zmodem_sender \<Rightarrow> nat \<Rightarrow> nat \<Rightarrow> zmodem_sender" where
  "zs_open_data s off attempts =
     (zs_emit (Write (encode_zmodem_binary_header (with_offset Data (of_nat off)) (zs_checksum s)
        (zc_escape_control_bytes (zs_config s)))) (s\<lparr>zs_offset := off\<rparr>))
       \<lparr>zs_state := AwaitSource attempts\<rparr>"

definition zs_begin_or_resume_source :: "zmodem_sender \<Rightarrow> nat \<Rightarrow> nat \<Rightarrow> zmodem_sender" where
  "zs_begin_or_resume_source s off attempts =
     (if zm_total_bytes (zs_file s) < off then zs_fail s SourceLengthMismatch
      else if zc_retry_limit (zs_config s) < attempts then zs_fail s RetryLimit
      else
        let s = zs_open_data s off attempts
        in if zs_offset s = zm_total_bytes (zs_file s) then
             (case zs_subpacket s [] EndNoAck of
                Inr packet \<Rightarrow> zs_send_end_of_file (zs_emit (Write packet) s) 1
              | Inl e \<Rightarrow> zs_fail s e)
           else zs_request_source s attempts)"

definition zs_send_sender_init :: "zmodem_sender \<Rightarrow> nat \<Rightarrow> zmodem_sender" where
  "zs_send_sender_init s attempts =
     (let s = zs_emit (Write (encode_zmodem_hex_header (header_new SenderInit 0 0 0 ZRINIT_ESCCTL))) s
      in case encode_zmodem_subpacket [0] EndAck Crc16 (zc_escape_control_bytes (zs_config s)) of
           Inr packet \<Rightarrow> (zs_emit (Write packet) s)\<lparr>zs_state := AwaitSenderInitAck attempts\<rparr>
         | Inl e \<Rightarrow> zs_fail s e)"

definition zs_retry_sender_init :: "zmodem_sender \<Rightarrow> nat \<Rightarrow> zmodem_sender" where
  "zs_retry_sender_init s attempts =
     (if zc_retry_limit (zs_config s) \<le> attempts then zs_fail s RetryLimit
      else zs_send_sender_init s (attempts + 1))"

definition zs_send_offer :: "zmodem_sender \<Rightarrow> nat \<Rightarrow> zmodem_sender" where
  "zs_send_offer s attempts =
     (let files_remaining = length (zs_files s) - zs_file_index s;
          bytes_remaining = sum_list (map zm_total_bytes (drop (zs_file_index s) (zs_files s)))
      in case encode_zmodem_file_metadata (zs_file s) files_remaining bytes_remaining of
           Inl e \<Rightarrow> zs_fail s e
         | Inr metadata \<Rightarrow>
             let s = zs_emit (Write (encode_zmodem_binary_header (header_new File 0 0 0 1)
                   (zs_checksum s) (zc_escape_control_bytes (zs_config s)))) s
             in (case zs_subpacket s metadata EndAck of
                   Inl e \<Rightarrow> zs_fail s e
                 | Inr packet \<Rightarrow>
                     let s = zs_emit (Write packet) s;
                         s = zs_emit (Progress \<lparr>zp_file_index = zs_file_index s,
                               zp_file_count = length (zs_files s), zp_transferred_bytes = 0,
                               zp_total_bytes = zm_total_bytes (zs_file s),
                               zp_stage = StageHeader\<rparr>) s
                     in s\<lparr>zs_state := AwaitOfferResponse attempts\<rparr>))"

definition zs_retry_offer :: "zmodem_sender \<Rightarrow> nat \<Rightarrow> zmodem_sender" where
  "zs_retry_offer s attempts =
     (if zc_retry_limit (zs_config s) \<le> attempts then zs_fail s RetryLimit
      else zs_send_offer s (attempts + 1))"

definition zs_handle_receiver_init :: "zmodem_sender \<Rightarrow> zmodem_header \<Rightarrow> zmodem_sender" where
  "zs_handle_receiver_init s header =
     (let flags = zh_p3 header
      in if \<not> (flags AND ZRINIT_CANFDX \<noteq> 0 \<and> flags AND ZRINIT_CANOVIO \<noteq> 0 \<and>
               flags AND 0x80 = 0 \<and> zh_p0 header = 0 \<and> zh_p1 header = 0)
         then zs_fail s UnsupportedPeerCapabilities
         else if flags AND ZRINIT_ESCCTL = 0 then zs_send_sender_init s 1
         else zs_send_offer s 1)"

definition zs_advance :: "zmodem_sender \<Rightarrow> zmodem_sender" where
  "zs_advance s =
     (let s = s\<lparr>zs_file_index := zs_file_index s + 1, zs_offset := 0\<rparr>
      in if zs_file_index s = length (zs_files s) then zs_send_finish s 1 else zs_send_offer s 1)"

definition zs_complete_current_file :: "zmodem_sender \<Rightarrow> zmodem_sender" where
  "zs_complete_current_file s =
     (let total_bytes = zm_total_bytes (zs_file s);
          s = s\<lparr>zs_completed_files := zs_completed_files s + 1,
                zs_transferred_bytes := saturating_add64 (zs_transferred_bytes s) total_bytes\<rparr>;
          s = zs_emit (Progress \<lparr>zp_file_index = zs_file_index s,
                zp_file_count = length (zs_files s), zp_transferred_bytes = total_bytes,
                zp_total_bytes = total_bytes, zp_stage = StageComplete\<rparr>) s;
          s = zs_emit (FileCompleted \<lparr>zf_file_index = zs_file_index s,
                zf_total_bytes = total_bytes, zf_transferred_bytes = total_bytes\<rparr>) s
      in zs_advance s)"

definition zs_skip_current_file :: "zmodem_sender \<Rightarrow> zmodem_sender" where
  "zs_skip_current_file s =
     (let s = zs_emit (FileSkipped (zs_file_index s)) s
      in zs_advance (s\<lparr>zs_skipped_files := zs_skipped_files s + 1\<rparr>))"

definition zs_complete_batch :: "zmodem_sender \<Rightarrow> zmodem_sender" where
  "zs_complete_batch s =
     (let s = zs_emit (Write ZMODEM_OVER_AND_OUT) s
      in case zd_take_success_remainder (zs_wire s) of (wire, terminal_bytes) \<Rightarrow>
           let s = s\<lparr>zs_wire := wire\<rparr>
           in (zs_emit (BatchCompleted \<lparr>zb_file_count = length (zs_files s),
                  zb_completed_files = zs_completed_files s, zb_skipped_files = zs_skipped_files s,
                  zb_total_bytes = zs_batch_total_bytes s,
                  zb_transferred_bytes = zs_transferred_bytes s\<rparr> terminal_bytes) s)
                \<lparr>zs_state := Terminal\<rparr>)"

definition zs_handle_header :: "zmodem_sender \<Rightarrow> zmodem_decoded_header \<Rightarrow> zmodem_sender" where
  "zs_handle_header s decoded =
     (let header = dh_header decoded; kind = zh_frame_type header;
          off = unat (header_offset header)
      in if kind = Abort \<or> kind = FileError then zs_fail s RemoteAborted
         else if kind = Cancel then zs_fail s RemoteCancelled
         else case zs_state s of
           AwaitReceiverInit attempts \<Rightarrow>
             if kind = ReceiverInit
             then zs_handle_receiver_init (s\<lparr>zs_checksum := Crc16\<rparr>) header
             else if kind = Challenge
             then zs_emit (Write (encode_zmodem_hex_header (header_new Ack (zh_p0 header)
                    (zh_p1 header) (zh_p2 header) (zh_p3 header)))) s
             else s\<lparr>zs_state := AwaitReceiverInit attempts\<rparr>
         | AwaitSenderInitAck attempts \<Rightarrow>
             if kind = Ack then zs_send_offer s 1
             else if kind = ReceiverInit \<or> kind = Nak then zs_retry_sender_init s attempts
             else s\<lparr>zs_state := AwaitSenderInitAck attempts\<rparr>
         | AwaitOfferResponse attempts \<Rightarrow>
             if kind = ReceiverPosition then zs_begin_or_resume_source s off attempts
             else if kind = Skip then zs_skip_current_file s
             else if kind = ReceiverInit \<or> kind = Nak then zs_retry_offer s attempts
             else s\<lparr>zs_state := AwaitOfferResponse attempts\<rparr>
         | AwaitSource attempts \<Rightarrow>
             if kind = ReceiverPosition then zs_begin_or_resume_source s off (attempts + 1)
             else s\<lparr>zs_state := AwaitSource attempts\<rparr>
         | AwaitReceiverInitAfterFile attempts \<Rightarrow>
             if kind = ReceiverInit then zs_complete_current_file s
             else if kind = ReceiverPosition then zs_begin_or_resume_source s off attempts
             else if kind = Skip then zs_skip_current_file s
             else if kind = Nak then zs_retry_end_of_file s attempts
             else s\<lparr>zs_state := AwaitReceiverInitAfterFile attempts\<rparr>
         | AwaitFinish attempts \<Rightarrow>
             if kind = Finish then zs_complete_batch s
             else if kind = ReceiverInit \<or> kind = Nak then zs_retry_finish s attempts
             else s\<lparr>zs_state := AwaitFinish attempts\<rparr>
         | Terminal \<Rightarrow> s)"

section \<open>Frames of the operations\<close>

lemmas zs_queue_defs = zs_emit_def zs_queue_def

lemma zs_emit_frame [simp]:
  "zs_config (zs_emit a s) = zs_config s" "zs_files (zs_emit a s) = zs_files s"
  "zs_wire (zs_emit a s) = zs_wire s" "zs_file_index (zs_emit a s) = zs_file_index s"
  "zs_offset (zs_emit a s) = zs_offset s" "zs_checksum (zs_emit a s) = zs_checksum s"
  "zs_completed_files (zs_emit a s) = zs_completed_files s"
  "zs_skipped_files (zs_emit a s) = zs_skipped_files s"
  "zs_transferred_bytes (zs_emit a s) = zs_transferred_bytes s"
  "zs_batch_total_bytes (zs_emit a s) = zs_batch_total_bytes s"
  "zs_file (zs_emit a s) = zs_file s"
  by (simp_all add: zs_queue_defs zs_file_def)

lemma zs_file_frame [simp]:
  "zs_file (s\<lparr>zs_state := st\<rparr>) = zs_file s" "zs_file (s\<lparr>zs_wire := w\<rparr>) = zs_file s"
  "zs_file (s\<lparr>zs_offset := n\<rparr>) = zs_file s" "zs_file (s\<lparr>zs_checksum := c\<rparr>) = zs_file s"
  "zs_file (s\<lparr>zs_actions := q\<rparr>) = zs_file s"
  by (simp_all add: zs_file_def)

lemma zs_open_frame [simp]:
  "zs_config (zs_open_data s n a) = zs_config s" "zs_files (zs_open_data s n a) = zs_files s"
  "zs_wire (zs_open_data s n a) = zs_wire s" "zs_file_index (zs_open_data s n a) = zs_file_index s"
  "zs_offset (zs_open_data s n a) = n" "zs_file (zs_open_data s n a) = zs_file s"
  by (simp_all add: zs_open_data_def)

lemma zs_emit_actions:
  "zs_actions (zs_emit a s) =
     (if MAX_ZMODEM_PENDING_ACTIONS \<le> length (zs_actions s)
      then [Failed (ActionQueueFull MAX_ZMODEM_PENDING_ACTIONS)] else zs_actions s @ [a])"
  by (simp add: zs_queue_defs)

lemmas zs_op_defs = zs_fail_def zs_send_finish_def zs_retry_finish_def zs_send_end_of_file_def
  zs_retry_end_of_file_def zs_request_source_def zs_begin_or_resume_source_def
  zs_send_sender_init_def zs_retry_sender_init_def zs_send_offer_def zs_retry_offer_def
  zs_handle_receiver_init_def zs_advance_def zs_complete_current_file_def
  zs_skip_current_file_def zs_complete_batch_def Let_def

lemma zs_handle_wire:
  "zs_wire (zs_handle_header s d) = zs_wire s \<or> zd_input (zs_wire (zs_handle_header s d)) = []"
proof -
  have off: "zs_wire (zs_send_offer t n) = zs_wire t" for t n
    by (simp add: zs_send_offer_def zs_fail_def Let_def split: sum.split)
  have adv: "zs_wire (zs_advance t) = zs_wire t" for t
    by (simp add: zs_advance_def zs_send_finish_def off Let_def)
  have src: "zs_wire (zs_begin_or_resume_source t a n) = zs_wire t" for t a n
    by (simp add: zs_begin_or_resume_source_def zs_fail_def zs_send_end_of_file_def
        zs_request_source_def Let_def split: sum.split)
  have init: "zs_wire (zs_send_sender_init t n) = zs_wire t" for t n
    by (simp add: zs_send_sender_init_def zs_fail_def Let_def split: sum.split)
  show ?thesis
    by (cases "zs_state s")
      (simp_all add: zs_handle_header_def off adv src init zs_fail_def zs_handle_receiver_init_def
        zs_retry_sender_init_def zs_retry_offer_def zs_complete_current_file_def
        zs_skip_current_file_def zs_retry_end_of_file_def zs_send_end_of_file_def
        zs_retry_finish_def zs_send_finish_def zs_complete_batch_def
        zd_take_success_remainder_def Let_def)
qed

section \<open>The public operations\<close>

function zs_pump_headers :: "zmodem_sender \<Rightarrow> zmodem_sender" where
  "zs_pump_headers s =
     (if zs_is_terminal s \<or> MAX_ZMODEM_PENDING_ACTIONS \<le> length (zs_actions s) then s
      else case zd_next_header (zs_wire s) of
        (wire, Inr (Some decoded)) \<Rightarrow>
          zs_pump_headers (zs_handle_header (s\<lparr>zs_wire := wire\<rparr>) decoded)
      | (wire, Inr None) \<Rightarrow> s\<lparr>zs_wire := wire\<rparr>
      | (wire, Inl e) \<Rightarrow>
          if e = RemoteCancelled then zs_fail (s\<lparr>zs_wire := wire\<rparr>) RemoteCancelled
          else if e = CrcMismatch \<or> e = InvalidHeader then s\<lparr>zs_wire := wire\<rparr>
          else zs_fail (s\<lparr>zs_wire := wire\<rparr>) e)"
  by pat_completeness auto
termination
proof (relation "measure (\<lambda>s. length (zd_input (zs_wire s)))")
  fix s :: zmodem_sender and wire x decoded r
  assume "(wire, x) = zd_next_header (zs_wire s)" and "x = Inr r" and "r = Some decoded"
  then have "length (zd_input wire) < length (zd_input (zs_wire s))"
    using zd_next_header_consumes [of "zs_wire s" wire decoded] by simp
  moreover have "zs_wire (zs_handle_header (s\<lparr>zs_wire := wire\<rparr>) decoded) = wire \<or>
      zd_input (zs_wire (zs_handle_header (s\<lparr>zs_wire := wire\<rparr>) decoded)) = []"
    using zs_handle_wire [of "s\<lparr>zs_wire := wire\<rparr>" decoded] by simp
  ultimately show "(zs_handle_header (s\<lparr>zs_wire := wire\<rparr>) decoded, s) \<in>
      measure (\<lambda>s. length (zd_input (zs_wire s)))"
    by auto
qed simp

declare zs_pump_headers.simps [simp del]

definition zs_push_serial_bytes ::
    "zmodem_sender \<Rightarrow> bytes \<Rightarrow> zmodem_sender \<times> (zmodem_error + unit)" where
  "zs_push_serial_bytes s bs =
     (if zs_is_terminal s then (s, Inl InvalidState)
      else case zd_push (zs_wire s) bs of
        (wire, Inl e) \<Rightarrow> (s\<lparr>zs_wire := wire\<rparr>, Inl e)
      | (wire, Inr _) \<Rightarrow> (zs_pump_headers (s\<lparr>zs_wire := wire\<rparr>), Inr ()))"

text \<open>\<^verbatim>\<open>slice::chunks\<close>, and the loop over the chunks: its last component tells whether it ran to its
  end or returned early.\<close>

function chunks :: "nat \<Rightarrow> 'a list \<Rightarrow> 'a list list" where
  "chunks n xs = (if xs = [] \<or> n = 0 then [] else take n xs # chunks n (drop n xs))"
  by pat_completeness auto
termination by (relation "measure (\<lambda>(n, xs). length xs)") auto

declare chunks.simps [simp del]

fun zs_write_chunks ::
    "zmodem_sender \<Rightarrow> bool \<Rightarrow> bytes list \<Rightarrow> zmodem_sender \<times> (zmodem_error + bool)" where
  "zs_write_chunks s final_chunk [] = (s, Inr True)"
| "zs_write_chunks s final_chunk (piece # rest) =
     (case zs_subpacket s piece
          (if final_chunk \<and> rest = [] then EndNoAck else ContinueNoAck) of
        Inl e \<Rightarrow> (s, Inl e)
      | Inr packet \<Rightarrow>
          (case zs_queue s (Write packet) of
             (s', False) \<Rightarrow> (s', Inr False)
           | (s', True) \<Rightarrow> zs_write_chunks s' final_chunk rest))"

text \<open>The wire chunks of a source chunk; an empty one is sent as one empty subpacket.\<close>

definition zs_pieces :: "bytes \<Rightarrow> bytes list" where
  "zs_pieces bs = (if bs = [] then [[]] else chunks ZMODEM_WIRE_SUBPACKET_BYTES bs)"

definition zs_report_chunk :: "zmodem_sender \<Rightarrow> nat \<Rightarrow> bool \<Rightarrow> zmodem_sender" where
  "zs_report_chunk s n final_chunk =
     (let s = s\<lparr>zs_offset := zs_offset s + n\<rparr>
      in zs_emit (Progress \<lparr>zp_file_index = zs_file_index s, zp_file_count = length (zs_files s),
           zp_transferred_bytes = zs_offset s, zp_total_bytes = zm_total_bytes (zs_file s),
           zp_stage = if final_chunk then StageFinalizing else StageData\<rparr>) s)"

definition zs_provide_source_chunk ::
    "zmodem_sender \<Rightarrow> bytes \<Rightarrow> zmodem_sender \<times> (zmodem_error + unit)" where
  "zs_provide_source_chunk s bs =
     (case zs_state s of
        AwaitSource source_attempts \<Rightarrow>
          (let total_bytes = zm_total_bytes (zs_file s)
           in if total_bytes < zs_offset s then (s, Inl SourceLengthMismatch)
           else let remaining = total_bytes - zs_offset s;
               maximum = min remaining (zc_chunk_bytes (zs_config s));
               final_chunk = (length bs = remaining)
           in if maximum < length bs \<or> bs = [] \<and> 0 < remaining
              then (s, Inl (InvalidSourceChunk maximum (length bs)))
              else case zs_write_chunks s (final_chunk \<or> bs = []) (zs_pieces bs) of
                (s, Inl e) \<Rightarrow> (s, Inl e)
              | (s, Inr False) \<Rightarrow> (s, Inr ())
              | (s, Inr True) \<Rightarrow>
                  let s = zs_report_chunk s (length bs) final_chunk
                  in (if final_chunk then zs_send_end_of_file s 1
                      else zs_request_source s source_attempts, Inr ()))
      | _ \<Rightarrow> (s, Inl InvalidState))"

definition zs_on_timeout :: "zmodem_sender \<Rightarrow> zmodem_sender \<times> (zmodem_error + unit)" where
  "zs_on_timeout s =
     (if zs_is_terminal s then (s, Inl InvalidState)
      else let s = s\<lparr>zs_wire := zd_reset (zs_wire s)\<rparr>
      in case zs_state s of
        AwaitReceiverInit attempts \<Rightarrow>
          (if zc_retry_limit (zs_config s) \<le> attempts then zs_fail s TimedOut
           else s\<lparr>zs_state := AwaitReceiverInit (attempts + 1)\<rparr>, Inr ())
      | AwaitOfferResponse attempts \<Rightarrow> (zs_retry_offer s attempts, Inr ())
      | AwaitSenderInitAck attempts \<Rightarrow> (zs_retry_sender_init s attempts, Inr ())
      | AwaitReceiverInitAfterFile attempts \<Rightarrow> (zs_retry_end_of_file s attempts, Inr ())
      | AwaitFinish attempts \<Rightarrow> (zs_retry_finish s attempts, Inr ())
      | AwaitSource _ \<Rightarrow> (s, Inl InvalidState)
      | Terminal \<Rightarrow> (s, Inl InvalidState))"

definition zs_cancel :: "zmodem_sender \<Rightarrow> zmodem_sender \<times> (zmodem_error + unit)" where
  "zs_cancel s =
     (if zs_is_terminal s then (s, Inl InvalidState)
      else (zs_fail (zs_emit (Write ZMODEM_CANCEL_SEQUENCE) s) Cancelled, Inr ()))"

inductive zs_step :: "zmodem_sender \<Rightarrow> zmodem_sender \<Rightarrow> bool" where
  zs_step_next: "zs_step s (fst (zs_next_action s))"
| zs_step_push: "zs_step s (fst (zs_push_serial_bytes s bs))"
| zs_step_source: "zs_step s (fst (zs_provide_source_chunk s bs))"
| zs_step_timeout: "zs_step s (fst (zs_on_timeout s))"
| zs_step_cancel: "zs_step s (fst (zs_cancel s))"

section \<open>The invariant\<close>

fun zs_state_ok ::
    "zmodem_config \<Rightarrow> nat \<Rightarrow> nat \<Rightarrow> nat \<Rightarrow> nat \<Rightarrow> zmodem_sender_state \<Rightarrow> bool" where
  "zs_state_ok c count index off n (AwaitReceiverInit a) \<longleftrightarrow>
     attempt_ok c a \<and> index < count \<and> off = 0"
| "zs_state_ok c count index off n (AwaitSenderInitAck a) \<longleftrightarrow>
     attempt_ok c a \<and> index < count \<and> off = 0"
| "zs_state_ok c count index off n (AwaitOfferResponse a) \<longleftrightarrow>
     attempt_ok c a \<and> index < count \<and> off = 0"
| "zs_state_ok c count index off n (AwaitSource a) \<longleftrightarrow>
     attempt_ok c a \<and> index < count \<and> off < n"
| "zs_state_ok c count index off n (AwaitReceiverInitAfterFile a) \<longleftrightarrow>
     attempt_ok c a \<and> index < count \<and> off = n"
| "zs_state_ok c count index off n (AwaitFinish a) \<longleftrightarrow>
     attempt_ok c a \<and> index = count"
| "zs_state_ok c count index off n Terminal \<longleftrightarrow> True"

fun zs_action_ok ::
    "zmodem_config \<Rightarrow> zmodem_file_metadata list \<Rightarrow> zmodem_sender_action \<Rightarrow> bool" where
  "zs_action_ok c files (Write bs) \<longleftrightarrow> True"
| "zs_action_ok c files (ReadSource i off n) \<longleftrightarrow>
     i < length files \<and> 0 < n \<and> n \<le> zc_chunk_bytes c \<and> off + n \<le> zm_total_bytes (files ! i)"
| "zs_action_ok c files (Progress p) \<longleftrightarrow>
     zp_file_index p < length files \<and> zp_file_count p = length files \<and>
     zp_total_bytes p = zm_total_bytes (files ! zp_file_index p) \<and>
     zp_transferred_bytes p \<le> zp_total_bytes p"
| "zs_action_ok c files (FileCompleted f) \<longleftrightarrow>
     zf_file_index f < length files \<and>
     zf_total_bytes f = zm_total_bytes (files ! zf_file_index f) \<and>
     zf_transferred_bytes f = zf_total_bytes f"
| "zs_action_ok c files (FileSkipped i) \<longleftrightarrow> i < length files"
| "zs_action_ok c files (BatchCompleted b rest) \<longleftrightarrow>
     zb_file_count b = length files \<and>
     zb_completed_files b + zb_skipped_files b = length files \<and>
     zb_total_bytes b = sum_list (map zm_total_bytes files) \<and>
     zb_transferred_bytes b \<le> zb_total_bytes b"
| "zs_action_ok c files (Failed e) \<longleftrightarrow> True"

text \<open>The part of the invariant that does not look at the state.\<close>

definition zs_core :: "zmodem_sender \<Rightarrow> bool" where
  "zs_core s \<longleftrightarrow>
     zmodem_config_ok (zs_config s) \<and>
     zs_files s \<noteq> [] \<and> length (zs_files s) \<le> MAX_ZMODEM_BATCH_FILES \<and>
     zs_batch_total_bytes s = sum_list (map zm_total_bytes (zs_files s)) \<and>
     zs_batch_total_bytes s \<le> U64_MAX \<and>
     zs_file_index s \<le> length (zs_files s) \<and>
     zs_completed_files s + zs_skipped_files s = zs_file_index s \<and>
     zs_transferred_bytes s \<le> sum_list (map zm_total_bytes (take (zs_file_index s) (zs_files s))) \<and>
     length (zs_actions s) \<le> MAX_ZMODEM_PENDING_ACTIONS \<and>
     list_all (zs_action_ok (zs_config s) (zs_files s)) (zs_actions s)"

definition zs_phase_ok :: "zmodem_sender \<Rightarrow> bool" where
  "zs_phase_ok s \<longleftrightarrow>
     zs_state_ok (zs_config s) (length (zs_files s)) (zs_file_index s) (zs_offset s)
       (zm_total_bytes (zs_file s)) (zs_state s)"

definition zs_inv :: "zmodem_sender \<Rightarrow> bool" where
  "zs_inv s \<longleftrightarrow> zs_core s \<and> zs_phase_ok s"

lemma zs_core_frame [simp]:
  "zs_core (s\<lparr>zs_state := st\<rparr>) = zs_core s" "zs_core (s\<lparr>zs_wire := w\<rparr>) = zs_core s"
  "zs_core (s\<lparr>zs_offset := n\<rparr>) = zs_core s" "zs_core (s\<lparr>zs_checksum := c\<rparr>) = zs_core s"
  by (simp_all add: zs_core_def)

lemma zs_phase_frame [simp]:
  "zs_phase_ok (s\<lparr>zs_wire := w\<rparr>) = zs_phase_ok s"
  "zs_phase_ok (s\<lparr>zs_checksum := c\<rparr>) = zs_phase_ok s"
  by (simp_all add: zs_phase_ok_def)

lemma zs_phase_set:
  "zs_phase_ok (s\<lparr>zs_state := st\<rparr>) =
     zs_state_ok (zs_config s) (length (zs_files s)) (zs_file_index s) (zs_offset s)
       (zm_total_bytes (zs_file s)) st"
  by (simp add: zs_phase_ok_def)

lemma zs_core_emit:
  "zs_core s \<Longrightarrow> zs_action_ok (zs_config s) (zs_files s) a \<Longrightarrow> zs_core (zs_emit a s)"
  by (auto simp: zs_core_def zs_emit_actions MAX_ZMODEM_PENDING_ACTIONS_def)

lemma zs_core_write [simp]: "zs_core s \<Longrightarrow> zs_core (zs_emit (Write bs) s)"
  by (simp add: zs_core_emit)

lemma zs_core_config: "zs_core s \<Longrightarrow> zmodem_config_ok (zs_config s)"
  by (simp add: zs_core_def)

lemma zs_fail_inv [simp]: "zs_core s \<Longrightarrow> zs_inv (zs_fail s e)"
  by (simp add: zs_inv_def zs_fail_def zs_core_emit zs_phase_set)

lemma zs_emit_phase: "zs_phase_ok s \<Longrightarrow> zs_phase_ok (zs_emit a s)"
  by (auto simp: zs_queue_defs zs_phase_ok_def)

text \<open>One lemma per operation that ends in a state of its own.\<close>

lemma zs_send_finish_inv:
  "zs_core s \<Longrightarrow> zs_file_index s = length (zs_files s) \<Longrightarrow> attempt_ok (zs_config s) a \<Longrightarrow>
   zs_inv (zs_send_finish s a)"
  by (simp add: zs_inv_def zs_send_finish_def zs_phase_set)

lemma zs_send_end_of_file_inv:
  "zs_core s \<Longrightarrow> zs_file_index s < length (zs_files s) \<Longrightarrow> zs_offset s = zm_total_bytes (zs_file s) \<Longrightarrow>
   attempt_ok (zs_config s) a \<Longrightarrow> zs_inv (zs_send_end_of_file s a)"
  by (simp add: zs_inv_def zs_send_end_of_file_def zs_phase_set)

lemma zs_request_source_inv:
  assumes "zs_core s" and "zs_file_index s < length (zs_files s)"
    and "zs_offset s < zm_total_bytes (zs_file s)" and "attempt_ok (zs_config s) a"
  shows "zs_inv (zs_request_source s a)"
proof -
  have "0 < zc_chunk_bytes (zs_config s)"
    using zs_core_config [OF assms(1)] by (simp add: zmodem_config_ok_def)
  then have "zs_core (zs_emit (ReadSource (zs_file_index s) (zs_offset s)
      (min (zm_total_bytes (zs_file s) - zs_offset s) (zc_chunk_bytes (zs_config s)))) s)"
    using assms by (intro zs_core_emit) (auto simp: zs_file_def)
  then show ?thesis
    using assms by (simp add: zs_inv_def zs_request_source_def Let_def zs_phase_set)
qed

lemma zs_begin_inv:
  assumes "zs_core s" and "zs_file_index s < length (zs_files s)" and "1 \<le> a"
  shows "zs_inv (zs_begin_or_resume_source s off a)"
proof -
  let ?t = "zs_open_data s off a"
  have core: "zs_core ?t" using assms(1) by (simp add: zs_open_data_def)
  have first: "attempt_ok (zs_config s) 1"
    using attempt_ok_first zs_core_config [OF assms(1)] by blast
  have a: "attempt_ok (zs_config s) a" if "\<not> zc_retry_limit (zs_config s) < a"
    using that assms(3) by (simp add: attempt_ok_def)
  have eof: "zs_inv (zs_send_end_of_file (zs_emit (Write p) ?t) 1)"
    if "off = zm_total_bytes (zs_file s)" for p
    using core assms(2) first that by (intro zs_send_end_of_file_inv) simp_all
  have req: "zs_inv (zs_request_source ?t a)"
    if "off < zm_total_bytes (zs_file s)" "\<not> zc_retry_limit (zs_config s) < a"
    using core assms(2) a that by (intro zs_request_source_inv) simp_all
  show ?thesis
    using eof req core assms(1)
    by (auto simp: zs_begin_or_resume_source_def Let_def split: sum.split)
qed

lemma zs_send_sender_init_inv:
  assumes "zs_core s" and "zs_file_index s < length (zs_files s)" and "zs_offset s = 0"
    and "attempt_ok (zs_config s) a"
  shows "zs_inv (zs_send_sender_init s a)"
  using assms
  by (simp add: zs_send_sender_init_def Let_def zs_inv_def zs_phase_set split: sum.split)
    (simp add: zs_inv_def [symmetric])

lemma zs_send_offer_inv:
  assumes "zs_core s" and "zs_file_index s < length (zs_files s)" and "zs_offset s = 0"
    and "attempt_ok (zs_config s) a"
  shows "zs_inv (zs_send_offer s a)"
proof -
  let ?p = "Progress \<lparr>zp_file_index = zs_file_index s, zp_file_count = length (zs_files s),
    zp_transferred_bytes = 0, zp_total_bytes = zm_total_bytes (zs_file s), zp_stage = StageHeader\<rparr>"
  have "zs_inv ((zs_emit ?p (zs_emit (Write q) (zs_emit (Write p) s)))\<lparr>zs_state := AwaitOfferResponse a\<rparr>)"
    for p q
  proof -
    have "zs_core (zs_emit ?p (zs_emit (Write q) (zs_emit (Write p) s)))"
      using assms by (intro zs_core_emit zs_core_write) (simp_all add: zs_file_def)
    then show ?thesis using assms by (simp add: zs_inv_def zs_phase_set)
  qed
  then show ?thesis
    using assms(1) by (simp add: zs_send_offer_def Let_def split: sum.split)
qed

lemma zs_advance_inv:
  assumes "zs_core (s\<lparr>zs_file_index := zs_file_index s + 1\<rparr>)"
  shows "zs_inv (zs_advance s)"
proof -
  let ?s = "s\<lparr>zs_file_index := zs_file_index s + 1, zs_offset := 0\<rparr>"
  have core: "zs_core ?s" using assms by (simp add: zs_core_def)
  have first: "attempt_ok (zs_config s) 1"
    using attempt_ok_first zs_core_config [OF core] by simp
  have le: "zs_file_index s + 1 \<le> length (zs_files s)" using core by (simp add: zs_core_def)
  show ?thesis
  proof (cases "zs_file_index s + 1 = length (zs_files s)")
    case True
    have "zs_inv (zs_send_finish ?s 1)" using core True first by (intro zs_send_finish_inv) simp_all
    then show ?thesis using True by (simp add: zs_advance_def Let_def)
  next
    case False
    have "zs_inv (zs_send_offer ?s 1)" using core False le first by (intro zs_send_offer_inv) simp_all
    then show ?thesis using False by (simp add: zs_advance_def Let_def)
  qed
qed

lemma zs_room:
  assumes "length q \<le> MAX_ZMODEM_PENDING_ACTIONS" and "list_all P q" and "P a"
    and "\<And>e. P (Failed e)"
  shows "let r = (if MAX_ZMODEM_PENDING_ACTIONS \<le> length q
      then [Failed (ActionQueueFull MAX_ZMODEM_PENDING_ACTIONS)] else q @ [a])
    in length r \<le> MAX_ZMODEM_PENDING_ACTIONS \<and> list_all P r"
  using assms by (auto simp: Let_def MAX_ZMODEM_PENDING_ACTIONS_def)

definition zs_queue_ok :: "zmodem_sender \<Rightarrow> bool" where
  "zs_queue_ok s \<longleftrightarrow>
     length (zs_actions s) \<le> MAX_ZMODEM_PENDING_ACTIONS \<and>
     list_all (zs_action_ok (zs_config s) (zs_files s)) (zs_actions s)"

lemma zs_queue_ok_emit:
  "zs_queue_ok s \<Longrightarrow> zs_action_ok (zs_config s) (zs_files s) a \<Longrightarrow> zs_queue_ok (zs_emit a s)"
  using zs_room [of "zs_actions s" "zs_action_ok (zs_config s) (zs_files s)" a]
  by (simp add: zs_queue_ok_def zs_emit_actions Let_def)

lemma zs_core_queue: "zs_core s \<Longrightarrow> zs_queue_ok s"
  by (simp add: zs_core_def zs_queue_ok_def)

lemma zs_complete_file_inv:
  assumes "zs_core s" and "zs_file_index s < length (zs_files s)"
  shows "zs_inv (zs_complete_current_file s)"
proof -
  let ?n = "zm_total_bytes (zs_file s)"
  define u where "u = s\<lparr>zs_completed_files := zs_completed_files s + 1,
    zs_transferred_bytes := saturating_add64 (zs_transferred_bytes s) ?n\<rparr>"
  define p where "p = Progress \<lparr>zp_file_index = zs_file_index s,
    zp_file_count = length (zs_files s), zp_transferred_bytes = ?n,
    zp_total_bytes = ?n, zp_stage = StageComplete\<rparr>"
  define f where "f = FileCompleted \<lparr>zf_file_index = zs_file_index s, zf_total_bytes = ?n,
    zf_transferred_bytes = ?n\<rparr>"
  have ok: "zs_action_ok (zs_config s) (zs_files s) p" "zs_action_ok (zs_config s) (zs_files s) f"
    using assms(2) by (simp_all add: p_def f_def zs_file_def)
  have frame: "zs_config u = zs_config s" "zs_files u = zs_files s" "zs_file_index u = zs_file_index s"
    "zs_actions u = zs_actions s" "zs_batch_total_bytes u = zs_batch_total_bytes s"
    "zs_completed_files u = Suc (zs_completed_files s)" "zs_skipped_files u = zs_skipped_files s"
    "zs_transferred_bytes u = saturating_add64 (zs_transferred_bytes s) ?n"
    by (simp_all add: u_def)
  have "zs_queue_ok u" using zs_core_queue [OF assms(1)] by (simp add: zs_queue_ok_def frame)
  then have q: "zs_queue_ok (zs_emit f (zs_emit p u))"
    using ok by (intro zs_queue_ok_emit) (simp_all add: frame)
  have "saturating_add64 (zs_transferred_bytes s) ?n \<le> zs_transferred_bytes s + ?n"
    by (simp add: saturating_add64_def)
  also have "\<dots> \<le> sum_list (map zm_total_bytes (take (Suc (zs_file_index s)) (zs_files s)))"
    using assms by (simp add: zs_core_def take_Suc_conv_app_nth zs_file_def)
  finally have sum: "saturating_add64 (zs_transferred_bytes s) ?n \<le>
    sum_list (map zm_total_bytes (take (Suc (zs_file_index s)) (zs_files s)))" .
  have "zs_core ((zs_emit f (zs_emit p u))\<lparr>zs_file_index := zs_file_index s + 1\<rparr>)"
    using assms q sum by (simp add: zs_core_def zs_queue_ok_def frame)
  then have "zs_inv (zs_advance (zs_emit f (zs_emit p u)))"
    by (intro zs_advance_inv) (simp add: frame)
  moreover have "zs_complete_current_file s = zs_advance (zs_emit f (zs_emit p u))"
    by (simp add: zs_complete_current_file_def Let_def u_def p_def f_def)
  ultimately show ?thesis by simp
qed

lemma zs_skip_inv:
  assumes "zs_core s" and "zs_file_index s < length (zs_files s)"
  shows "zs_inv (zs_skip_current_file s)"
proof -
  let ?t = "zs_emit (FileSkipped (zs_file_index s)) s"
  have q: "zs_queue_ok ?t"
    using zs_core_queue [OF assms(1)] assms(2) by (intro zs_queue_ok_emit) simp_all
  have "sum_list (map zm_total_bytes (take (zs_file_index s) (zs_files s))) \<le>
      sum_list (map zm_total_bytes (take (Suc (zs_file_index s)) (zs_files s)))"
    using assms(2) by (simp add: take_Suc_conv_app_nth)
  then have "zs_core (?t\<lparr>zs_skipped_files := zs_skipped_files ?t + 1,
      zs_file_index := zs_file_index ?t + 1\<rparr>)"
    using assms q by (auto simp: zs_core_def zs_queue_ok_def)
  then have "zs_inv (zs_advance (?t\<lparr>zs_skipped_files := zs_skipped_files ?t + 1\<rparr>))"
    by (intro zs_advance_inv) simp
  then show ?thesis by (simp add: zs_skip_current_file_def Let_def)
qed

lemma zs_complete_batch_inv:
  assumes "zs_core s" and "zs_file_index s = length (zs_files s)"
  shows "zs_inv (zs_complete_batch s)"
proof -
  define t where "t = (zs_emit (Write ZMODEM_OVER_AND_OUT) s)
    \<lparr>zs_wire := fst (zd_take_success_remainder (zs_wire s))\<rparr>"
  define b where "b = BatchCompleted \<lparr>zb_file_count = length (zs_files s),
    zb_completed_files = zs_completed_files s, zb_skipped_files = zs_skipped_files s,
    zb_total_bytes = zs_batch_total_bytes s, zb_transferred_bytes = zs_transferred_bytes s\<rparr>
    (snd (zd_take_success_remainder (zs_wire s)))"
  have t: "zs_core t" using assms(1) by (simp add: t_def)
  have "zs_core (zs_emit b t)"
    using assms by (intro zs_core_emit t) (simp add: t_def b_def zs_core_def)
  moreover have "zs_complete_batch s = (zs_emit b t)\<lparr>zs_state := Terminal\<rparr>"
    by (simp add: zs_complete_batch_def t_def b_def Let_def split: prod.split)
  ultimately show ?thesis by (simp add: zs_inv_def zs_phase_set)
qed

lemma zs_retry_inv:
  assumes "zs_core s" and "attempt_ok (zs_config s) a"
  shows "zs_file_index s = length (zs_files s) \<Longrightarrow> zs_inv (zs_retry_finish s a)"
    and "zs_file_index s < length (zs_files s) \<Longrightarrow> zs_offset s = zm_total_bytes (zs_file s) \<Longrightarrow>
      zs_inv (zs_retry_end_of_file s a)"
    and "zs_file_index s < length (zs_files s) \<Longrightarrow> zs_offset s = 0 \<Longrightarrow> zs_inv (zs_retry_offer s a)"
    and "zs_file_index s < length (zs_files s) \<Longrightarrow> zs_offset s = 0 \<Longrightarrow> zs_inv (zs_retry_sender_init s a)"
  using assms attempt_ok_next [OF assms(2)]
  by (auto simp: zs_retry_finish_def zs_retry_end_of_file_def zs_retry_offer_def
      zs_retry_sender_init_def intro!: zs_send_finish_inv zs_send_end_of_file_inv zs_send_offer_inv
      zs_send_sender_init_inv)

lemma zs_receiver_init_inv:
  assumes "zs_core s" and "zs_file_index s < length (zs_files s)" and "zs_offset s = 0"
  shows "zs_inv (zs_handle_receiver_init s h)"
proof -
  have "attempt_ok (zs_config s) 1" using attempt_ok_first zs_core_config [OF assms(1)] by blast
  then show ?thesis
    using assms zs_send_sender_init_inv [of s 1] zs_send_offer_inv [of s 1]
    by (simp add: zs_handle_receiver_init_def Let_def)
qed

lemma zs_inv_same: "zs_inv s \<Longrightarrow> zs_state s = st \<Longrightarrow> zs_inv (s\<lparr>zs_state := st\<rparr>)"
  by (auto simp: zs_inv_def zs_phase_ok_def)

lemma zs_inv_core: "zs_inv s \<Longrightarrow> zs_core s"
  by (simp add: zs_inv_def)

lemma zs_inv_phase:
  "zs_inv s \<Longrightarrow> zs_state_ok (zs_config s) (length (zs_files s)) (zs_file_index s) (zs_offset s)
       (zm_total_bytes (zs_file s)) (zs_state s)"
  by (simp add: zs_inv_def zs_phase_ok_def)

lemma zs_inv_write [simp]: "zs_inv s \<Longrightarrow> zs_inv (zs_emit (Write bs) s)"
  by (simp add: zs_inv_def zs_emit_phase)

lemma zs_handle_header_inv:
  assumes "zs_inv s" shows "zs_inv (zs_handle_header s d)"
proof -
  note core = zs_inv_core [OF assms] and ok = zs_inv_phase [OF assms]
  have first: "attempt_ok (zs_config s) 1"
    using attempt_ok_first zs_core_config [OF core] by blast
  have more: "attempt_ok (zs_config s) a \<Longrightarrow> 1 \<le> a" for a by (simp add: attempt_ok_def)
  have init: "zs_inv (zs_handle_receiver_init (s\<lparr>zs_checksum := Crc16\<rparr>) h)"
    if "zs_state s = AwaitReceiverInit a" for a h
    using that core ok by (intro zs_receiver_init_inv) simp_all
  show ?thesis
    using assms core ok first init
    by (cases "zs_state s")
      (auto simp: zs_handle_header_def Let_def zs_inv_same dest: more
        intro!: zs_retry_inv zs_begin_inv zs_skip_inv zs_complete_file_inv zs_complete_batch_inv
          zs_send_offer_inv)
qed

lemma zs_emit_inv: "zs_inv s \<Longrightarrow> zs_action_ok (zs_config s) (zs_files s) a \<Longrightarrow> zs_inv (zs_emit a s)"
  by (simp add: zs_inv_def zs_core_emit zs_emit_phase)

lemma zs_wire_inv [simp]: "zs_inv (s\<lparr>zs_wire := w\<rparr>) = zs_inv s"
  by (simp add: zs_inv_def)

lemma zs_pump_inv: "zs_inv s \<Longrightarrow> zs_inv (zs_pump_headers s)"
proof (induction s rule: zs_pump_headers.induct)
  case (1 s)
  show ?case
  proof (cases "zs_is_terminal s \<or> MAX_ZMODEM_PENDING_ACTIONS \<le> length (zs_actions s)")
    case True
    then show ?thesis using 1(2) by (simp add: zs_pump_headers.simps [of s])
  next
    case False
    obtain wire r where h: "zd_next_header (zs_wire s) = (wire, r)" by fastforce
    have inv: "zs_inv (s\<lparr>zs_wire := wire\<rparr>)" using 1(2) by simp
    note fold = zs_pump_headers.simps [of s] h
    consider (found) d where "r = Inr (Some d)" | (nothing) "r = Inr None" | (err) e where "r = Inl e"
      by (cases r) auto
    then show ?thesis
    proof cases
      case found
      have "zs_inv (zs_handle_header (s\<lparr>zs_wire := wire\<rparr>) d)" using inv by (rule zs_handle_header_inv)
      then have "zs_inv (zs_pump_headers (zs_handle_header (s\<lparr>zs_wire := wire\<rparr>) d))"
        by (rule 1(1) [OF False h [symmetric] found refl])
      then show ?thesis using False found by (simp add: fold)
    next
      case nothing
      then show ?thesis using False inv by (simp add: fold)
    next
      case err
      then show ?thesis
        using False inv zs_inv_core [OF inv] by (simp add: fold)
    qed
  qed
qed

lemma zs_queue_write: "fst (zs_queue s a) = zs_emit a s"
  by (simp add: zs_emit_def)

lemma zs_write_chunks_inv:
  "zs_inv s \<Longrightarrow> zs_write_chunks s f ps = (t, r) \<Longrightarrow>
   zs_inv t \<and> zs_config t = zs_config s \<and> zs_files t = zs_files s \<and>
   zs_file_index t = zs_file_index s \<and> zs_offset t = zs_offset s"
proof (induction ps arbitrary: s)
  case (Cons p ps)
  show ?case
  proof (cases "zs_subpacket s p (if f \<and> ps = [] then EndNoAck else ContinueNoAck)")
    case (Inl e)
    then show ?thesis using Cons.prems by simp
  next
    case (Inr w)
    obtain u ok where u: "zs_queue s (Write w) = (u, ok)" by fastforce
    have eq: "u = zs_emit (Write w) s" using zs_queue_write [of s "Write w"] u by simp
    have inv: "zs_inv u" using Cons.prems(1) by (simp add: eq)
    show ?thesis
    proof (cases ok)
      case True
      then have "zs_write_chunks u f ps = (t, r)" using Cons.prems(2) Inr u by simp
      from Cons.IH [OF inv this] show ?thesis by (simp add: eq)
    next
      case False
      then show ?thesis using Cons.prems(2) Inr u inv by (auto simp: eq)
    qed
  qed
qed auto

lemma zs_provide_eq:
  assumes "zs_state s = AwaitSource a" and "zs_offset s < zm_total_bytes (zs_file s)"
  shows "zs_provide_source_chunk s bs =
     (let remaining = zm_total_bytes (zs_file s) - zs_offset s;
          maximum = min remaining (zc_chunk_bytes (zs_config s)); f = (length bs = remaining)
      in if maximum < length bs \<or> bs = [] then (s, Inl (InvalidSourceChunk maximum (length bs)))
         else case zs_write_chunks s f (zs_pieces bs) of
           (t, Inl e) \<Rightarrow> (t, Inl e)
         | (t, Inr False) \<Rightarrow> (t, Inr ())
         | (t, Inr True) \<Rightarrow>
             (if f then zs_send_end_of_file (zs_report_chunk t (length bs) f) 1
              else zs_request_source (zs_report_chunk t (length bs) f) a, Inr ()))"
  using assms by (simp add: zs_provide_source_chunk_def Let_def)

lemma zs_report_frame [simp]:
  "zs_config (zs_report_chunk s n f) = zs_config s" "zs_files (zs_report_chunk s n f) = zs_files s"
  "zs_file_index (zs_report_chunk s n f) = zs_file_index s" "zs_file (zs_report_chunk s n f) = zs_file s"
  "zs_offset (zs_report_chunk s n f) = zs_offset s + n"
  by (simp_all add: zs_report_chunk_def Let_def)

lemma zs_report_core:
  assumes "zs_core s" and "zs_file_index s < length (zs_files s)"
    and "zs_offset s + n \<le> zm_total_bytes (zs_file s)"
  shows "zs_core (zs_report_chunk s n f)"
  unfolding zs_report_chunk_def Let_def using assms
  by (intro zs_core_emit) (simp_all add: zs_file_def)

lemma zs_provide_inv:
  assumes "zs_inv s" shows "zs_inv (fst (zs_provide_source_chunk s bs))"
proof (cases "zs_state s")
  case (AwaitSource a)
  have st: "attempt_ok (zs_config s) a" "zs_file_index s < length (zs_files s)"
    "zs_offset s < zm_total_bytes (zs_file s)"
    using zs_inv_phase [OF assms] AwaitSource by simp_all
  let ?rem = "zm_total_bytes (zs_file s) - zs_offset s"
  define f where "f = (length bs = ?rem)"
  obtain t r where w: "zs_write_chunks s f (zs_pieces bs) = (t, r)" by fastforce
  note facts = zs_write_chunks_inv [OF assms w]
  have same: "zs_file t = zs_file s" using facts by (simp add: zs_file_def)
  have core: "zs_core t" using facts zs_inv_core by blast
  have first: "attempt_ok (zs_config s) 1"
    using attempt_ok_first zs_core_config [OF zs_inv_core [OF assms]] by blast
  let ?u = "zs_report_chunk t (length bs) f"
  have u: "zs_core ?u" if "length bs \<le> ?rem"
    using core st that facts same by (intro zs_report_core) simp_all
  have fin: "zs_inv (zs_send_end_of_file ?u 1)" if "length bs = ?rem"
    using u st that first facts same by (intro zs_send_end_of_file_inv) simp_all
  have req: "zs_inv (zs_request_source ?u a)" if "length bs \<le> ?rem" "length bs \<noteq> ?rem"
    using u st that facts same by (intro zs_request_source_inv) simp_all
  show ?thesis
    unfolding zs_provide_eq [OF AwaitSource st(3)] Let_def f_def [symmetric] w
    using assms facts fin req by (auto simp: f_def split: sum.split bool.split)
qed (simp_all add: zs_provide_source_chunk_def assms)

lemma zs_on_timeout_inv:
  assumes "zs_inv s" shows "zs_inv (fst (zs_on_timeout s))"
proof -
  define t where "t = s\<lparr>zs_wire := zd_reset (zs_wire s)\<rparr>"
  have t: "zs_inv t" using assms by (simp add: t_def)
  note core = zs_inv_core [OF t] and ok = zs_inv_phase [OF t]
  have st: "zs_state t = zs_state s" by (simp add: t_def)
  have again: "zs_inv (t\<lparr>zs_state := AwaitReceiverInit (Suc a)\<rparr>)"
    if "zs_state t = AwaitReceiverInit a" "\<not> zc_retry_limit (zs_config t) \<le> a" for a
    using that core ok attempt_ok_next [of "zs_config t" a] by (simp add: zs_inv_def zs_phase_set)
  show ?thesis
    using assms t core ok again
    by (cases "zs_state s")
      (auto simp: zs_on_timeout_def Let_def zs_is_terminal_def t_def [symmetric] st
        intro!: zs_retry_inv)
qed

lemma zs_next_inv: "zs_inv s \<Longrightarrow> zs_inv (fst (zs_next_action s))"
  by (auto simp: zs_next_action_def zs_inv_def zs_core_def zs_phase_ok_def split: list.split)

lemma zs_cancel_inv: "zs_inv s \<Longrightarrow> zs_inv (fst (zs_cancel s))"
  using zs_inv_core by (auto simp: zs_cancel_def)

lemma zs_push_inv: "zs_inv s \<Longrightarrow> zs_inv (fst (zs_push_serial_bytes s bs))"
  by (auto simp: zs_push_serial_bytes_def zs_pump_inv split: prod.split sum.split)

lemma checked_total_sum:
  "checked_total acc fs = Inr n \<Longrightarrow> acc \<le> U64_MAX \<Longrightarrow>
   n = acc + sum_list (map zm_total_bytes fs) \<and> n \<le> U64_MAX"
  by (induction acc fs rule: checked_total.induct) (auto split: if_splits)

lemma zs_new_inv:
  assumes "zs_new files c = Inr s" and "zmodem_config_ok c"
  shows "zs_inv s"
proof -
  obtain n where n: "checked_total 0 files = Inr n" and f: "files \<noteq> []" "length files \<le> MAX_ZMODEM_BATCH_FILES"
    and s: "s = \<lparr>zs_config = c, zs_files = files, zs_wire = zd_default,
               zs_state = AwaitReceiverInit 1, zs_actions = [], zs_file_index = 0, zs_offset = 0,
               zs_checksum = Crc16, zs_completed_files = 0, zs_skipped_files = 0,
               zs_transferred_bytes = 0, zs_batch_total_bytes = n\<rparr>"
    using assms(1) by (auto simp: zs_new_def split: if_splits sum.splits)
  show ?thesis
    using checked_total_sum [OF n] f assms(2) attempt_ok_first [OF assms(2)]
    by (simp add: s zs_inv_def zs_core_def zs_phase_ok_def)
qed

lemma zs_step_inv: "zs_step s t \<Longrightarrow> zs_inv s \<Longrightarrow> zs_inv t"
  by (induction rule: zs_step.induct)
    (simp_all add: zs_next_inv zs_push_inv zs_provide_inv zs_on_timeout_inv zs_cancel_inv)

lemma zs_step_terminal: "zs_step s t \<Longrightarrow> zs_is_terminal s \<Longrightarrow> zs_is_terminal t"
  by (induction rule: zs_step.induct)
    (auto simp: zs_is_terminal_def zs_next_action_def zs_push_serial_bytes_def
      zs_provide_source_chunk_def zs_on_timeout_def zs_cancel_def split: list.split)

interpretation zs: absorbing_system zs_step zs_inv zs_is_terminal
  by unfold_locales (rule zs_step_inv, assumption+, rule zs_step_terminal)

section \<open>What a source chunk becomes on the wire\<close>

fun zs_frames :: "bool \<Rightarrow> bytes list \<Rightarrow> zmodem_subpacket list" where
  "zs_frames f [] = []"
| "zs_frames f (p # ps) =
     \<lparr>sp_payload = p, sp_frame_end = if f \<and> ps = [] then EndNoAck else ContinueNoAck\<rparr> # zs_frames f ps"

lemma zs_frames_facts:
  "map sp_payload (zs_frames f ps) = ps" "length (zs_frames f ps) = length ps"
  "ps \<noteq> [] \<Longrightarrow> map sp_frame_end (zs_frames f ps) =
     replicate (length ps - 1) ContinueNoAck @ [if f then EndNoAck else ContinueNoAck]"
proof -
  show "map sp_payload (zs_frames f ps) = ps" "length (zs_frames f ps) = length ps"
    by (induction ps) simp_all
  show "ps \<noteq> [] \<Longrightarrow> map sp_frame_end (zs_frames f ps) =
     replicate (length ps - 1) ContinueNoAck @ [if f then EndNoAck else ContinueNoAck]"
  proof (induction ps)
    case (Cons p ps)
    then show ?case by (cases ps) simp_all
  qed simp
qed

lemma chunks_concat: "0 < n \<Longrightarrow> concat (chunks n xs) = xs"
  by (induction n xs rule: chunks.induct) (subst chunks.simps, simp)

lemma chunks_small: "list_all (\<lambda>p. length p \<le> n) (chunks n xs)"
  by (induction n xs rule: chunks.induct) (subst chunks.simps, simp)

lemma chunks_nonempty: "0 < n \<Longrightarrow> xs \<noteq> [] \<Longrightarrow> chunks n xs \<noteq> []"
  by (subst chunks.simps) simp

lemma chunks_count: "length xs \<le> k * n \<Longrightarrow> length (chunks n xs) \<le> k"
proof (induction k arbitrary: xs)
  case 0
  then show ?case by (subst chunks.simps) simp
next
  case (Suc k)
  then show ?case by (subst chunks.simps) simp
qed

lemma zs_pieces_facts:
  "concat (zs_pieces bs) = bs" "zs_pieces bs \<noteq> []"
  "list_all (\<lambda>p. length p \<le> ZMODEM_WIRE_SUBPACKET_BYTES) (zs_pieces bs)"
  "length bs \<le> MAX_ZMODEM_SUBPACKET_BYTES \<Longrightarrow> length (zs_pieces bs) \<le> 8"
  using chunks_concat [of ZMODEM_WIRE_SUBPACKET_BYTES bs]
    chunks_small [of ZMODEM_WIRE_SUBPACKET_BYTES bs]
    chunks_nonempty [of ZMODEM_WIRE_SUBPACKET_BYTES bs] chunks_count [of bs 8 ZMODEM_WIRE_SUBPACKET_BYTES]
  by (simp_all add: zs_pieces_def ZMODEM_WIRE_SUBPACKET_BYTES_def MAX_ZMODEM_SUBPACKET_BYTES_def)

lemma zs_write_chunks_room:
  assumes "list_all (\<lambda>p. length p \<le> ZMODEM_WIRE_SUBPACKET_BYTES) ps"
    and "length (zs_actions s) + length ps \<le> MAX_ZMODEM_PENDING_ACTIONS"
  shows "\<exists>ws. zs_write_chunks s f ps = (s\<lparr>zs_actions := zs_actions s @ map Write ws\<rparr>, Inr True) \<and>
    encoded_subpackets (zs_checksum s) (zc_escape_control_bytes (zs_config s)) (zs_frames f ps) ws"
  using assms
proof (induction ps arbitrary: s)
  case Nil
  then show ?case by simp
next
  case (Cons p ps)
  define e where "e = (if f \<and> ps = [] then EndNoAck else ContinueNoAck)"
  have "length p \<le> MAX_ZMODEM_SUBPACKET_BYTES"
    using Cons.prems(1) by (simp add: ZMODEM_WIRE_SUBPACKET_BYTES_def MAX_ZMODEM_SUBPACKET_BYTES_def)
  then obtain w where w: "zs_subpacket s p e = Inr w"
    by (simp add: zs_subpacket_def encode_zmodem_subpacket_def Let_def)
  define u where "u = s\<lparr>zs_actions := zs_actions s @ [Write w]\<rparr>"
  have q: "zs_queue s (Write w) = (u, True)"
    using Cons.prems(2) by (simp add: zs_queue_def u_def)
  obtain ws where ws: "zs_write_chunks u f ps =
      (u\<lparr>zs_actions := zs_actions u @ map Write ws\<rparr>, Inr True)"
    and enc: "encoded_subpackets (zs_checksum u) (zc_escape_control_bytes (zs_config u))
      (zs_frames f ps) ws"
    using Cons.IH [of u] Cons.prems by (auto simp: u_def)
  have "zs_write_chunks s f (p # ps) = (s\<lparr>zs_actions := zs_actions s @ map Write (w # ws)\<rparr>, Inr True)"
    using w q ws by (simp add: e_def [symmetric] u_def)
  moreover have "encoded_subpackets (zs_checksum s) (zc_escape_control_bytes (zs_config s))
      (zs_frames f (p # ps)) (w # ws)"
    using w enc by (simp add: e_def zs_subpacket_def u_def)
  ultimately show ?case by blast
qed

lemma zs_provide_framing:
  assumes inv: "zs_inv s" and prov: "zs_provide_source_chunk s bs = (t, Inr ())"
    and room: "length (zs_actions s) + 10 \<le> MAX_ZMODEM_PENDING_ACTIONS"
  shows "\<exists>ws ps rest. zs_actions t = zs_actions s @ map Write ws @ rest \<and>
    zd_read (length ws) (zs_checksum s) (fst (zd_push zd_default (concat ws))) =
      (zd_default, map (\<lambda>p. Inr (Some p)) ps) \<and>
    concat (map sp_payload ps) = bs \<and>
    list_all (\<lambda>p. length (sp_payload p) \<le> ZMODEM_WIRE_SUBPACKET_BYTES) ps \<and>
    map sp_frame_end ps = replicate (length ps - 1) ContinueNoAck @
      [if zs_offset t = zm_total_bytes (zs_file s) then EndNoAck else ContinueNoAck] \<and>
    zs_offset t = zs_offset s + length bs"
proof -
  obtain a where a: "zs_state s = AwaitSource a"
    using prov by (auto simp: zs_provide_source_chunk_def split: zmodem_sender_state.splits)
  let ?n = "zm_total_bytes (zs_file s)"
  let ?rem = "?n - zs_offset s"
  have st: "zs_offset s < ?n" using zs_inv_phase [OF inv] a by simp
  have len: "length bs \<le> ?rem" "length bs \<le> MAX_ZMODEM_SUBPACKET_BYTES" "bs \<noteq> []"
    using prov a st zs_core_config [OF zs_inv_core [OF inv]]
    by (auto simp: zs_provide_source_chunk_def Let_def zmodem_config_ok_def split: if_splits)
  define f where "f = (length bs = ?rem)"
  obtain ws where ws: "zs_write_chunks s f (zs_pieces bs) =
      (s\<lparr>zs_actions := zs_actions s @ map Write ws\<rparr>, Inr True)"
    and enc: "encoded_subpackets (zs_checksum s) (zc_escape_control_bytes (zs_config s))
      (zs_frames f (zs_pieces bs)) ws"
    using zs_write_chunks_room [of "zs_pieces bs" s f] zs_pieces_facts(3) zs_pieces_facts(4) [OF len(2)] room
    by fastforce
  define u where "u = s\<lparr>zs_actions := zs_actions s @ map Write ws\<rparr>"
  have lws: "length ws = length (zs_pieces bs)" and total_len: "length (concat ws) \<le> MAX_ZMODEM_INPUT_BYTES"
    using encoded_length [OF enc] zs_pieces_facts(1,4) [of bs] len(2)
    by (auto simp: zs_frames_facts MAX_ZMODEM_SUBPACKET_BYTES_def MAX_ZMODEM_INPUT_BYTES_def)
  define v where "v = zs_report_chunk u (length bs) f"
  have "t = (if f then zs_send_end_of_file v 1 else zs_request_source v a)"
    using prov len unfolding zs_provide_eq [OF a st] Let_def f_def [symmetric] ws u_def [symmetric]
      v_def
    by (auto split: if_splits)
  moreover have "\<exists>p. zs_actions v = zs_actions s @ map Write ws @ [p]"
    and "length (zs_actions v) < MAX_ZMODEM_PENDING_ACTIONS"
    using room zs_pieces_facts(4) [OF len(2)] lws
    by (auto simp: v_def zs_report_chunk_def Let_def zs_emit_actions u_def)
  moreover have "zs_offset v = zs_offset s + length bs" by (simp add: v_def u_def)
  ultimately obtain rest where acts: "zs_actions t = zs_actions s @ map Write ws @ rest"
    and off: "zs_offset t = zs_offset s + length bs"
    by (auto simp: zs_send_end_of_file_def zs_request_source_def Let_def zs_emit_actions split: if_splits)
  have f: "f = (zs_offset t = ?n)" using len(1) st by (auto simp: f_def off)
  have "zd_push zd_default (concat ws) = (zd_default\<lparr>zd_input := concat ws\<rparr>, Inr ())"
    using encoded_calm [OF enc] total_len by (rule zd_push_frame)
  then have "zd_read (length ws) (zs_checksum s) (fst (zd_push zd_default (concat ws))) =
      (zd_default, map (\<lambda>p. Inr (Some p)) (zs_frames f (zs_pieces bs)))"
    using zd_read_encoded [OF enc, of "zd_default\<lparr>zd_input := concat ws\<rparr>" "[]"] lws
    by (simp add: zs_frames_facts zd_default_def)
  moreover have "list_all (\<lambda>p. length (sp_payload p) \<le> ZMODEM_WIRE_SUBPACKET_BYTES)
      (zs_frames f (zs_pieces bs))"
  proof -
    have "list_all (\<lambda>p. length p \<le> ZMODEM_WIRE_SUBPACKET_BYTES) (map sp_payload (zs_frames f (zs_pieces bs)))"
      using zs_pieces_facts(3) by (simp add: zs_frames_facts)
    then show ?thesis by (simp add: list_all_iff)
  qed
  ultimately show ?thesis
    using acts off f zs_frames_facts [where f = f and ps = "zs_pieces bs"] zs_pieces_facts(1,2) [of bs]
    by (intro exI [of _ ws] exI [of _ "zs_frames f (zs_pieces bs)"] exI [of _ rest]) simp
qed

section \<open>Two behaviours of the retry and overflow rules\<close>

lemma zs_emit_room:
  "length (zs_actions s) < MAX_ZMODEM_PENDING_ACTIONS \<Longrightarrow>
   zs_emit a s = s\<lparr>zs_actions := zs_actions s @ [a]\<rparr>"
  by (simp add: zs_queue_defs)

lemma zs_empty_subpacket: "\<exists>w. zs_subpacket s [] EndNoAck = Inr w"
  by (simp add: zs_subpacket_def encode_zmodem_subpacket_def Let_def MAX_ZMODEM_SUBPACKET_BYTES_def)

lemma zs_resend_at_end:
  assumes "zs_inv s" and "zs_state s = AwaitReceiverInitAfterFile 1"
    and "zh_frame_type (dh_header d) = ReceiverPosition"
    and "unat (header_offset (dh_header d)) = zs_offset s"
    and "length (zs_actions s) + 3 \<le> MAX_ZMODEM_PENDING_ACTIONS"
  shows "\<exists>a b c. zs_handle_header s d = s\<lparr>zs_actions := zs_actions s @ [a, b, c]\<rparr>"
proof -
  have off: "zs_offset s = zm_total_bytes (zs_file s)" and lim: "1 \<le> zc_retry_limit (zs_config s)"
    using zs_inv_phase [OF assms(1)] assms(2) by (auto simp: attempt_ok_def)
  let ?t = "zs_open_data s (zs_offset s) 1"
  obtain w where w: "zs_subpacket ?t [] EndNoAck = Inr w" using zs_empty_subpacket by blast
  have "zs_handle_header s d = zs_send_end_of_file (zs_emit (Write w) ?t) 1"
    using assms(2-4) off lim w
    by (simp add: zs_handle_header_def zs_begin_or_resume_source_def Let_def)
  then show ?thesis
    using assms(2,5)
    by (cases s) (simp add: zs_open_data_def zs_send_end_of_file_def zs_emit_room)
qed

section \<open>A concrete sender\<close>

definition zs_example_file :: zmodem_file_metadata where
  "zs_example_file =
     \<lparr>zm_file_name = [97], zm_total_bytes = 5, zm_modified_time = 0, zm_mode = 0,
      zm_files_remaining = None, zm_bytes_remaining = None\<rparr>"

definition zs_example :: zmodem_sender where
  "zs_example =
     \<lparr>zs_config = default_zmodem_config, zs_files = [zs_example_file], zs_wire = zd_default,
      zs_state = AwaitReceiverInit 1, zs_actions = [], zs_file_index = 0, zs_offset = 0,
      zs_checksum = Crc16, zs_completed_files = 0, zs_skipped_files = 0,
      zs_transferred_bytes = 0, zs_batch_total_bytes = 5\<rparr>"

lemma zs_example_new: "zs_new [zs_example_file] default_zmodem_config = Inr zs_example"
  by (simp add: zs_new_def MAX_ZMODEM_BATCH_FILES_def zs_example_def zs_example_file_def)

lemma zs_example_inv: "zs_inv zs_example"
  using zs_new_inv [OF zs_example_new] by simp

lemma zs_example_limits [simp]:
  "attempt_ok default_zmodem_config 1" "attempt_ok default_zmodem_config (Suc 0)"
  using attempt_ok_first [OF default_zmodem_config_ok] by simp_all

lemma zs_example_source: "zs_inv (zs_example\<lparr>zs_state := AwaitSource 1\<rparr>)"
  using zs_inv_core [OF zs_example_inv]
  by (simp add: zs_inv_def zs_phase_set zs_file_def) (simp add: zs_example_def zs_example_file_def)

lemma zs_example_source_ok:
  "snd (zs_provide_source_chunk (zs_example\<lparr>zs_state := AwaitSource 1\<rparr>) [1, 2, 3]) = Inr ()"
proof -
  let ?s = "zs_example\<lparr>zs_state := AwaitSource 1\<rparr>"
  have p: "zs_pieces [1, 2, 3] = [[1, 2, 3]]"
    by (simp add: zs_pieces_def chunks.simps ZMODEM_WIRE_SUBPACKET_BYTES_def)
  have f: "zs_file zs_example = zs_example_file" "zs_offset zs_example = 0"
    "zs_config zs_example = default_zmodem_config" "zs_actions zs_example = []"
    by (simp_all add: zs_file_def zs_example_def)
  obtain ws where "zs_write_chunks ?s False (zs_pieces [1, 2, 3]) =
      (?s\<lparr>zs_actions := zs_actions ?s @ map Write ws\<rparr>, Inr True)"
  proof -
    have "length (zs_actions ?s) + length (zs_pieces [1, 2, 3]) \<le> MAX_ZMODEM_PENDING_ACTIONS"
      by (simp add: p f MAX_ZMODEM_PENDING_ACTIONS_def)
    from zs_write_chunks_room [OF zs_pieces_facts(3) this] that show ?thesis by blast
  qed
  then show ?thesis
    by (subst zs_provide_eq [where a = 1])
      (simp_all add: f Let_def zs_example_file_def default_zmodem_config_def
        DEFAULT_ZMODEM_CHUNK_BYTES_def)
qed

section \<open>Properties\<close>

text \<open>C19: In every state a ZMODEM sender can reach by input, chunks, timeouts, cancellation and
  draining, the file index is in range whenever the machine uses it, the offset within the
  file, every attempt counter within the retry limit, the queue within 512 actions, each queued
  source request inside its file, and a completed batch accounts for every file as completed or
  skipped and for no more bytes than its files have.\<close>

theorem zmodem_sender_invariant:
  assumes "zs_new files c = Inr s" and "zmodem_config_ok c" and "zs_step\<^sup>*\<^sup>* s t"
  shows "zs_inv t"
  using assms(3) zs_new_inv [OF assms(1,2)] by (rule zs.reach_inv)

theorem zmodem_sender_invariant_witness: "zs_inv (fst (zs_cancel zs_example))"
proof (rule zmodem_sender_invariant [OF zs_example_new])
  show "zs_step\<^sup>*\<^sup>* zs_example (fst (zs_cancel zs_example))"
    by (rule r_into_rtranclp) (rule zs_step_cancel)
qed simp

text \<open>An accepted source chunk is framed losslessly: the frames queued for it, fed to a fresh
  wire decoder, are read back as subpackets of at most 8192 bytes whose payloads are, in order,
  exactly the chunk; all of them announce more data except the last one when the chunk reaches
  the end of the file; and the offset advances by the length of the chunk.\<close>

theorem zmodem_source_chunk_framing:
  assumes "zs_inv s" and "zs_provide_source_chunk s bs = (t, Inr ())"
    and "length (zs_actions s) + 10 \<le> MAX_ZMODEM_PENDING_ACTIONS"
  shows "\<exists>ws ps rest. zs_actions t = zs_actions s @ map Write ws @ rest \<and>
    zd_read (length ws) (zs_checksum s) (fst (zd_push zd_default (concat ws))) =
      (zd_default, map (\<lambda>p. Inr (Some p)) ps) \<and>
    concat (map sp_payload ps) = bs \<and>
    list_all (\<lambda>p. length (sp_payload p) \<le> ZMODEM_WIRE_SUBPACKET_BYTES) ps \<and>
    map sp_frame_end ps = replicate (length ps - 1) ContinueNoAck @
      [if zs_offset t = zm_total_bytes (zs_file s) then EndNoAck else ContinueNoAck] \<and>
    zs_offset t = zs_offset s + length bs"
  using assms by (rule zs_provide_framing)

theorem zmodem_source_chunk_framing_witness:
  "\<exists>(t :: zmodem_sender) ws ps rest. zs_actions t = [] @ map Write ws @ rest \<and>
    zd_read (length ws) Crc16 (fst (zd_push zd_default (concat ws))) =
      (zd_default, map (\<lambda>p. Inr (Some p)) ps) \<and>
    concat (map sp_payload ps) = [1, 2, 3] \<and> zs_offset t = 3"
proof -
  let ?s = "zs_example\<lparr>zs_state := AwaitSource 1\<rparr>"
  obtain t where t: "zs_provide_source_chunk ?s [1, 2, 3] = (t, Inr ())"
    using zs_example_source_ok by (metis prod.collapse)
  show ?thesis
  proof -
    have ex: "zs_actions ?s = []" "zs_checksum ?s = Crc16" "zs_offset ?s = 0"
      by (simp_all add: zs_example_def)
    then have "length (zs_actions ?s) + 10 \<le> MAX_ZMODEM_PENDING_ACTIONS"
      by (simp add: MAX_ZMODEM_PENDING_ACTIONS_def)
    then obtain ws ps rest where "zs_actions t = [] @ map Write ws @ rest"
      and "zd_read (length ws) Crc16 (fst (zd_push zd_default (concat ws))) =
        (zd_default, map (\<lambda>p. Inr (Some p)) ps)"
      and "concat (map sp_payload ps) = [1, 2, 3]" and "zs_offset t = 0 + length [1, 2, 3 :: byte]"
      using zmodem_source_chunk_framing [OF zs_example_source t] unfolding ex by blast
    then show ?thesis
      by (intro exI [of _ t] exI [of _ ws] exI [of _ ps] exI [of _ rest]) simp
  qed
qed

text \<open>The overflow of the sender's action queue does not stop it: when the second frame of the
  sender initialisation no longer fits, the queue is replaced by the failure report, but the
  operation then overwrites the terminal state, and the machine goes on waiting for the peer.\<close>

theorem zmodem_sender_overflow_continues:
  assumes "zs_state s = AwaitReceiverInit a" and "length (zs_actions s) + 1 = MAX_ZMODEM_PENDING_ACTIONS"
    and "zh_frame_type (dh_header d) = ReceiverInit"
    and "zh_p0 (dh_header d) = 0 \<and> zh_p1 (dh_header d) = 0"
    and "zh_p3 (dh_header d) = ZRINIT_CANFDX OR ZRINIT_CANOVIO"
  shows "zs_actions (zs_handle_header s d) = [Failed (ActionQueueFull MAX_ZMODEM_PENDING_ACTIONS)] \<and>
    zs_state (zs_handle_header s d) = AwaitSenderInitAck 1"
  using assms
  by (auto simp: zs_handle_header_def zs_handle_receiver_init_def zs_send_sender_init_def Let_def
      ZRINIT_CANFDX_def ZRINIT_CANOVIO_def ZRINIT_ESCCTL_def encode_zmodem_subpacket_def
      MAX_ZMODEM_SUBPACKET_BYTES_def zs_emit_actions)

theorem zmodem_sender_overflow_continues_witness:
  "zs_state (zs_handle_header (zs_example\<lparr>zs_actions := replicate 511 (Write [])\<rparr>)
     \<lparr>dh_header = header_new ReceiverInit 0 0 0 (ZRINIT_CANFDX OR ZRINIT_CANOVIO), dh_checksum = Crc16\<rparr>) =
   AwaitSenderInitAck 1"
  by (rule zmodem_sender_overflow_continues [where a = 1, THEN conjunct2])
    (simp_all add: zs_example_def header_new_def MAX_ZMODEM_PENDING_ACTIONS_def)

text \<open>C27: The retry limit does not bound repeated resends at the end of a file: a receiver that
  answers the end-of-file header with its position instead of an initialisation puts the sender
  back into exactly the state it was in, with three more frames to write.\<close>

theorem zmodem_sender_resend_cycle:
  assumes "zs_inv s" and "zs_state s = AwaitReceiverInitAfterFile 1"
    and "zh_frame_type (dh_header d) = ReceiverPosition"
    and "unat (header_offset (dh_header d)) = zs_offset s"
    and "length (zs_actions s) + 3 \<le> MAX_ZMODEM_PENDING_ACTIONS"
  shows "\<exists>a b c. zs_handle_header s d = s\<lparr>zs_actions := zs_actions s @ [a, b, c]\<rparr>"
  using assms by (rule zs_resend_at_end)

theorem zmodem_sender_resend_cycle_witness:
  "\<exists>s d a b c. zs_inv s \<and> zs_state s = AwaitReceiverInitAfterFile 1 \<and>
     zs_handle_header s d = s\<lparr>zs_actions := zs_actions s @ [a, b, c]\<rparr>"
proof -
  let ?s = "zs_example\<lparr>zs_offset := 5, zs_state := AwaitReceiverInitAfterFile 1\<rparr>"
  let ?d = "\<lparr>dh_header = with_offset ReceiverPosition 5, dh_checksum = Crc16\<rparr>"
  have inv: "zs_inv ?s"
    using zs_inv_core [OF zs_example_inv]
    by (simp add: zs_inv_def zs_phase_set zs_file_def) (simp add: zs_example_def zs_example_file_def)
  have "header_offset (with_offset ReceiverPosition 5) = 5"
    by (rule header_offset_with)
  then have "\<exists>a b c. zs_handle_header ?s ?d = ?s\<lparr>zs_actions := zs_actions ?s @ [a, b, c]\<rparr>"
    by (intro zmodem_sender_resend_cycle [OF inv])
      (simp_all add: with_offset_def header_new_def zs_example_def MAX_ZMODEM_PENDING_ACTIONS_def)
  with inv show ?thesis by (intro exI [of _ ?s] exI [of _ ?d]) simp
qed

end
