(* ===== verification/Zmodem_Receiver.thy ===== *)
theory Zmodem_Receiver
  imports Zmodem_Progress
begin

text \<open>
  \<^verbatim>\<open>ZmodemReceiver\<close> of \<^verbatim>\<open>crates/netcatty-serial/src/zmodem.rs\<close>: the receiving state machine of a
  batch, its bounded queue of actions for the native adapter, and its retry rules.  The queue
  (\<^verbatim>\<open>VecDeque\<close>) is a list with its front first.  The second half states what an adapter that executes the actions in order
  may rely on, as an automaton over the actions (\<open>zr_contract\<close>);
  \<open>zr_run\<close> has one rule per public operation and lets the automaton follow the actions taken.
\<close>

section \<open>The machine\<close>

datatype zmodem_receiver_action =
    Write bytes
  | OfferFile nat zmodem_file_metadata
  | BeginFile nat zmodem_file_metadata
  | WriteFile nat nat bytes
  | Progress zmodem_progress
  | FileCompleted zmodem_file_summary
  | BatchCompleted zmodem_batch_summary bytes
  | Failed zmodem_error

datatype zmodem_receiver_state =
    AwaitHeader nat
  | AwaitSenderInitData zmodem_checksum nat
  | AwaitMetadata zmodem_checksum nat
  | AwaitAcceptance
  | AwaitDataHeader nat
  | AwaitData zmodem_checksum nat
  | AwaitSink nat zmodem_frame_end zmodem_checksum nat
  | AwaitEndOfFile nat
  | AwaitOverAndOut nat
  | Terminal

record zmodem_receiver =
  zr_config :: zmodem_config
  zr_wire :: zmodem_wire_decoder
  zr_state :: zmodem_receiver_state
  zr_actions :: "zmodem_receiver_action list"
  zr_current :: "zmodem_file_metadata option"
  zr_file_index :: nat
  zr_written :: nat
  zr_completed_files :: nat
  zr_skipped_files :: nat
  zr_transferred_bytes :: nat
  zr_advertised_total_bytes :: nat

definition zr_next_action :: "zmodem_receiver \<Rightarrow> zmodem_receiver \<times> zmodem_receiver_action option" where
  "zr_next_action s =
     (case zr_actions s of [] \<Rightarrow> (s, None) | a # rest \<Rightarrow> (s\<lparr>zr_actions := rest\<rparr>, Some a))"

definition zr_is_terminal :: "zmodem_receiver \<Rightarrow> bool" where
  "zr_is_terminal s \<longleftrightarrow> zr_state s = Terminal"

definition zr_timeout :: "zmodem_receiver \<Rightarrow> nat option" where
  "zr_timeout s =
     (case zr_state s of
        AwaitAcceptance \<Rightarrow> None
      | AwaitSink _ _ _ _ \<Rightarrow> None
      | Terminal \<Rightarrow> None
      | _ \<Rightarrow> Some (zc_timeout (zr_config s)))"

definition zr_emit :: "zmodem_receiver_action \<Rightarrow> zmodem_receiver \<Rightarrow> zmodem_receiver" where
  "zr_emit a s =
     (if MAX_ZMODEM_PENDING_ACTIONS \<le> length (zr_actions s)
      then s\<lparr>zr_actions := [Failed (ActionQueueFull MAX_ZMODEM_PENDING_ACTIONS)],
             zr_state := Terminal\<rparr>
      else s\<lparr>zr_actions := zr_actions s @ [a]\<rparr>)"

definition zr_fail :: "zmodem_receiver \<Rightarrow> zmodem_error \<Rightarrow> zmodem_receiver" where
  "zr_fail s e = (zr_emit (Failed e) s)\<lparr>zr_state := Terminal\<rparr>"

definition zr_write_header :: "zmodem_header \<Rightarrow> zmodem_receiver_action" where
  "zr_write_header h = Write (encode_zmodem_hex_header h)"

definition zr_send_receiver_init :: "zmodem_receiver \<Rightarrow> nat \<Rightarrow> zmodem_receiver" where
  "zr_send_receiver_init s attempts =
     (let flags = ZRINIT_CANFDX OR ZRINIT_CANOVIO OR ZRINIT_CANFC32 OR ZRINIT_ESCCTL
      in (zr_emit (zr_write_header (header_new ReceiverInit 0 0 0 flags)) s)
           \<lparr>zr_state := AwaitHeader attempts\<rparr>)"

definition zr_retry_receiver_init :: "zmodem_receiver \<Rightarrow> nat \<Rightarrow> zmodem_receiver" where
  "zr_retry_receiver_init s attempts =
     (if zc_retry_limit (zr_config s) \<le> attempts then zr_fail s TimedOut
      else zr_send_receiver_init s (attempts + 1))"

definition zr_send_receiver_position :: "zmodem_receiver \<Rightarrow> nat \<Rightarrow> zmodem_receiver" where
  "zr_send_receiver_position s attempts =
     (if 2 ^ 32 \<le> zr_written s then zr_fail s (FileTooLarge (2 ^ 32 - 1))
      else (zr_emit (zr_write_header (with_offset ReceiverPosition (of_nat (zr_written s)))) s)
             \<lparr>zr_state := AwaitDataHeader attempts\<rparr>)"

definition zr_retry_receiver_position :: "zmodem_receiver \<Rightarrow> nat \<Rightarrow> zmodem_receiver" where
  "zr_retry_receiver_position s attempts =
     (if zc_retry_limit (zr_config s) \<le> attempts then zr_fail s RetryLimit
      else zr_send_receiver_position s (attempts + 1))"

definition zr_send_finish :: "zmodem_receiver \<Rightarrow> nat \<Rightarrow> zmodem_receiver" where
  "zr_send_finish s attempts =
     (zr_emit (zr_write_header (header_new Finish 0 0 0 0)) s)\<lparr>zr_state := AwaitOverAndOut attempts\<rparr>"

definition zr_retry_finish :: "zmodem_receiver \<Rightarrow> nat \<Rightarrow> zmodem_receiver" where
  "zr_retry_finish s attempts =
     (if zc_retry_limit (zr_config s) \<le> attempts then zr_fail s TimedOut
      else zr_send_finish s (attempts + 1))"

definition zr_file_count_hint_from :: "zmodem_receiver \<Rightarrow> zmodem_file_metadata \<Rightarrow> nat" where
  "zr_file_count_hint_from s m =
     (case zm_files_remaining m of
        Some remaining \<Rightarrow> saturating_add64 (zr_file_index s) remaining | None \<Rightarrow> 0)"

definition zr_file_count_hint :: "zmodem_receiver \<Rightarrow> nat" where
  "zr_file_count_hint s =
     (case zr_current s of Some m \<Rightarrow> zr_file_count_hint_from s m | None \<Rightarrow> 0)"

definition zr_recover_corrupt_input :: "zmodem_receiver \<Rightarrow> zmodem_receiver" where
  "zr_recover_corrupt_input s =
     (let s = s\<lparr>zr_wire := zd_reset (zr_wire s)\<rparr>;
          init = (\<lambda>attempts. if zc_retry_limit (zr_config s) \<le> attempts then zr_fail s RetryLimit
                    else zr_send_receiver_init s (attempts + 1))
      in case zr_state s of
        AwaitDataHeader attempts \<Rightarrow> zr_retry_receiver_position s attempts
      | AwaitData _ attempts \<Rightarrow> zr_retry_receiver_position s attempts
      | AwaitEndOfFile attempts \<Rightarrow> zr_retry_receiver_position s attempts
      | AwaitHeader attempts \<Rightarrow> init attempts
      | AwaitSenderInitData _ attempts \<Rightarrow> init attempts
      | AwaitMetadata _ attempts \<Rightarrow> init attempts
      | _ \<Rightarrow> zr_fail s CrcMismatch)"

definition zr_handle_end_of_file :: "zmodem_receiver \<Rightarrow> nat \<Rightarrow> zmodem_receiver" where
  "zr_handle_end_of_file s off =
     (case zr_current s of
        None \<Rightarrow> zr_fail s InvalidState
      | Some m \<Rightarrow>
          if off \<noteq> zr_written s \<or> zr_written s \<noteq> zm_total_bytes m
          then zr_retry_receiver_position s 1
          else let s = s\<lparr>zr_current := None, zr_completed_files := zr_completed_files s + 1,
                 zr_transferred_bytes := saturating_add64 (zr_transferred_bytes s) (zr_written s)\<rparr>;
            s = zr_emit (Progress \<lparr>zp_file_index = zr_file_index s,
                  zp_file_count = zr_file_count_hint_from s m,
                  zp_transferred_bytes = zr_written s, zp_total_bytes = zm_total_bytes m,
                  zp_stage = StageComplete\<rparr>) s;
            s = zr_emit (FileCompleted \<lparr>zf_file_index = zr_file_index s,
                  zf_total_bytes = zm_total_bytes m, zf_transferred_bytes = zr_written s\<rparr>) s;
            s = s\<lparr>zr_file_index := zr_file_index s + 1, zr_written := 0\<rparr>
          in zr_send_receiver_init s 1)"

definition zr_complete_batch :: "zmodem_receiver \<Rightarrow> zmodem_receiver" where
  "zr_complete_batch s =
     (case zd_take_success_remainder (zr_wire s) of (wire, terminal_bytes) \<Rightarrow>
        let s = s\<lparr>zr_wire := wire\<rparr>
        in (zr_emit (BatchCompleted \<lparr>zb_file_count = zr_file_index s,
               zb_completed_files = zr_completed_files s, zb_skipped_files = zr_skipped_files s,
               zb_total_bytes = zr_advertised_total_bytes s,
               zb_transferred_bytes = zr_transferred_bytes s\<rparr> terminal_bytes) s)
             \<lparr>zr_state := Terminal\<rparr>)"

definition zr_handle_header :: "zmodem_receiver \<Rightarrow> zmodem_decoded_header \<Rightarrow> zmodem_receiver" where
  "zr_handle_header s decoded =
     (let header = dh_header decoded; kind = zh_frame_type header;
          off = unat (header_offset header)
      in if kind = Abort \<or> kind = FileError then zr_fail s RemoteAborted
         else case zr_state s of
           AwaitHeader attempts \<Rightarrow>
             if kind = RequestInit then zr_send_receiver_init s attempts
             else if kind = SenderInit
             then s\<lparr>zr_state := AwaitSenderInitData (dh_checksum decoded) attempts\<rparr>
             else if kind = File
             then s\<lparr>zr_state := AwaitMetadata (dh_checksum decoded) attempts\<rparr>
             else if kind = Finish then zr_send_finish s 1
             else if kind = Challenge
             then zr_emit (zr_write_header (header_new Ack (zh_p0 header) (zh_p1 header)
                    (zh_p2 header) (zh_p3 header))) s
             else s\<lparr>zr_state := AwaitHeader attempts\<rparr>
         | AwaitDataHeader attempts \<Rightarrow>
             if kind = Data \<and> off = zr_written s
             then s\<lparr>zr_state := AwaitData (dh_checksum decoded) attempts\<rparr>
             else if kind = EndOfFile then zr_handle_end_of_file s off
             else if kind = Data then zr_retry_receiver_position s attempts
             else s\<lparr>zr_state := AwaitDataHeader attempts\<rparr>
         | AwaitEndOfFile attempts \<Rightarrow>
             if kind = EndOfFile then zr_handle_end_of_file s off
             else if kind = Data \<and> off = zr_written s
             then s\<lparr>zr_state := AwaitData (dh_checksum decoded) attempts\<rparr>
             else s\<lparr>zr_state := AwaitEndOfFile attempts\<rparr>
         | _ \<Rightarrow> zr_fail s UnexpectedFrame)"

definition zr_handle_metadata :: "zmodem_receiver \<Rightarrow> zmodem_subpacket \<Rightarrow> zmodem_receiver" where
  "zr_handle_metadata s packet =
     (if \<not> ends_frame (sp_frame_end packet) then zr_fail s InvalidMetadata
      else case parse_zmodem_file_metadata (sp_payload packet) of
        Inl e \<Rightarrow> zr_fail s e
      | Inr m \<Rightarrow>
          if MAX_ZMODEM_BATCH_FILES \<le> zr_file_index s
          then zr_fail s (InvalidBatch MAX_ZMODEM_BATCH_FILES)
          else let s = s\<lparr>zr_advertised_total_bytes :=
                     saturating_add64 (zr_advertised_total_bytes s) (zm_total_bytes m),
                 zr_current := Some m\<rparr>
          in (zr_emit (OfferFile (zr_file_index s) m) s)\<lparr>zr_state := AwaitAcceptance\<rparr>)"

definition zr_handle_data ::
    "zmodem_receiver \<Rightarrow> zmodem_subpacket \<Rightarrow> zmodem_checksum \<Rightarrow> nat \<Rightarrow> zmodem_receiver" where
  "zr_handle_data s packet checksum attempts =
     (case zr_current s of
        None \<Rightarrow> zr_fail s InvalidState
      | Some m \<Rightarrow>
          if zm_total_bytes m < saturating_add64 (zr_written s) (length (sp_payload packet))
          then zr_fail s IncompleteFile
          else (zr_emit (WriteFile (zr_file_index s) (zr_written s) (sp_payload packet)) s)
                 \<lparr>zr_state := AwaitSink (length (sp_payload packet)) (sp_frame_end packet)
                    checksum attempts\<rparr>)"

definition zr_handle_subpacket ::
    "zmodem_receiver \<Rightarrow> zmodem_subpacket \<Rightarrow> zmodem_checksum \<Rightarrow> zmodem_receiver" where
  "zr_handle_subpacket s packet checksum =
     (case zr_state s of
        AwaitSenderInitData _ attempts \<Rightarrow>
          (if expects_ack (sp_frame_end packet)
           then zr_emit (zr_write_header (header_new Ack 0 0 0 0)) s else s)
            \<lparr>zr_state := AwaitHeader attempts\<rparr>
      | AwaitMetadata _ _ \<Rightarrow> zr_handle_metadata s packet
      | AwaitData _ attempts \<Rightarrow> zr_handle_data s packet checksum attempts
      | _ \<Rightarrow> zr_fail s UnexpectedFrame)"

section \<open>The pump\<close>

text \<open>Each step reports whether it made progress.\<close>

definition zr_pump_header :: "zmodem_receiver \<Rightarrow> zmodem_receiver \<times> bool" where
  "zr_pump_header s =
     (case zd_next_header (zr_wire s) of
        (wire, Inr (Some decoded)) \<Rightarrow> (zr_handle_header (s\<lparr>zr_wire := wire\<rparr>) decoded, True)
      | (wire, Inr None) \<Rightarrow> (s\<lparr>zr_wire := wire\<rparr>, False)
      | (wire, Inl e) \<Rightarrow>
          (if e = RemoteCancelled then zr_fail (s\<lparr>zr_wire := wire\<rparr>) RemoteCancelled
           else if e = CrcMismatch \<or> e = InvalidHeader
           then zr_recover_corrupt_input (s\<lparr>zr_wire := wire\<rparr>)
           else zr_fail (s\<lparr>zr_wire := wire\<rparr>) e, False))"

definition zr_pump_subpacket :: "zmodem_receiver \<Rightarrow> zmodem_checksum \<Rightarrow> zmodem_receiver \<times> bool" where
  "zr_pump_subpacket s checksum =
     (case zd_next_subpacket (zr_wire s) checksum of
        (wire, Inr (Some packet)) \<Rightarrow>
          (zr_handle_subpacket (s\<lparr>zr_wire := wire\<rparr>) packet checksum, True)
      | (wire, Inr None) \<Rightarrow> (s\<lparr>zr_wire := wire\<rparr>, False)
      | (wire, Inl e) \<Rightarrow>
          (if e = CrcMismatch \<or> e = InvalidEscape
           then zr_recover_corrupt_input (s\<lparr>zr_wire := wire\<rparr>)
           else if e = RemoteCancelled then zr_fail (s\<lparr>zr_wire := wire\<rparr>) RemoteCancelled
           else zr_fail (s\<lparr>zr_wire := wire\<rparr>) e, False))"

definition zr_pump_over_and_out :: "zmodem_receiver \<Rightarrow> zmodem_receiver \<times> bool" where
  "zr_pump_over_and_out s =
     (case zd_next_over_and_out (zr_wire s) of
        (wire, Inr True) \<Rightarrow> (zr_complete_batch (s\<lparr>zr_wire := wire\<rparr>), True)
      | (wire, Inr False) \<Rightarrow> (s\<lparr>zr_wire := wire\<rparr>, False)
      | (wire, Inl e) \<Rightarrow> (zr_fail (s\<lparr>zr_wire := wire\<rparr>) e, False))"

definition zr_pump_once :: "zmodem_receiver \<Rightarrow> zmodem_receiver \<times> bool" where
  "zr_pump_once s =
     (case zr_state s of
        AwaitHeader _ \<Rightarrow> zr_pump_header s
      | AwaitDataHeader _ \<Rightarrow> zr_pump_header s
      | AwaitEndOfFile _ \<Rightarrow> zr_pump_header s
      | AwaitSenderInitData checksum _ \<Rightarrow> zr_pump_subpacket s checksum
      | AwaitMetadata checksum _ \<Rightarrow> zr_pump_subpacket s checksum
      | AwaitData checksum _ \<Rightarrow> zr_pump_subpacket s checksum
      | AwaitOverAndOut _ \<Rightarrow> zr_pump_over_and_out s
      | _ \<Rightarrow> (s, False))"

lemma zr_emit_frame [simp]:
  "zr_config (zr_emit a s) = zr_config s" "zr_wire (zr_emit a s) = zr_wire s"
  "zr_current (zr_emit a s) = zr_current s" "zr_file_index (zr_emit a s) = zr_file_index s"
  "zr_written (zr_emit a s) = zr_written s"
  "zr_completed_files (zr_emit a s) = zr_completed_files s"
  "zr_skipped_files (zr_emit a s) = zr_skipped_files s"
  "zr_transferred_bytes (zr_emit a s) = zr_transferred_bytes s"
  "zr_advertised_total_bytes (zr_emit a s) = zr_advertised_total_bytes s"
  by (simp_all add: zr_emit_def)

lemma zr_send_wire [simp]:
  "zr_wire (zr_fail s e) = zr_wire s" "zr_wire (zr_send_receiver_init s n) = zr_wire s"
  "zr_wire (zr_send_receiver_position s n) = zr_wire s" "zr_wire (zr_send_finish s n) = zr_wire s"
  "zr_wire (zr_retry_receiver_position s n) = zr_wire s"
  by (simp_all add: zr_fail_def zr_send_receiver_init_def zr_send_receiver_position_def
      zr_send_finish_def zr_retry_receiver_position_def Let_def)

lemma zr_handle_wire [simp]:
  "zr_wire (zr_handle_header s d) = zr_wire s" "zr_wire (zr_handle_subpacket s p c) = zr_wire s"
proof -
  have "zr_wire (zr_handle_end_of_file s n) = zr_wire s" for n
    by (simp add: zr_handle_end_of_file_def Let_def split: option.split)
  then show "zr_wire (zr_handle_header s d) = zr_wire s"
    by (simp add: zr_handle_header_def Let_def split: zmodem_receiver_state.split)
  show "zr_wire (zr_handle_subpacket s p c) = zr_wire s"
    by (simp add: zr_handle_subpacket_def zr_handle_metadata_def zr_handle_data_def Let_def
        split: zmodem_receiver_state.split option.split sum.split)
qed

lemma zr_pump_once_consumes:
  assumes "zr_pump_once s = (t, True)"
  shows "length (zd_input (zr_wire t)) < length (zd_input (zr_wire s))"
proof -
  have batch: "zd_input (zr_wire (zr_complete_batch u)) = []" for u
    by (simp add: zr_complete_batch_def zd_take_success_remainder_def Let_def)
  have "zr_pump_header s = (t, True) \<or> (\<exists>c. zr_pump_subpacket s c = (t, True)) \<or>
      zr_pump_over_and_out s = (t, True)"
    using assms by (auto simp: zr_pump_once_def split: zmodem_receiver_state.splits)
  then show ?thesis
  proof (elim disjE exE)
    assume "zr_pump_header s = (t, True)"
    then show ?thesis using zd_next_header_consumes [of "zr_wire s"]
      by (fastforce simp: zr_pump_header_def split: prod.splits sum.splits option.splits)
  next
    fix c assume "zr_pump_subpacket s c = (t, True)"
    then show ?thesis using zd_next_subpacket_consumes [of "zr_wire s" c]
      by (fastforce simp: zr_pump_subpacket_def split: prod.splits sum.splits option.splits)
  next
    assume "zr_pump_over_and_out s = (t, True)"
    then obtain wire where "zd_next_over_and_out (zr_wire s) = (wire, Inr True)"
      and t: "t = zr_complete_batch (s\<lparr>zr_wire := wire\<rparr>)"
      by (auto simp: zr_pump_over_and_out_def split: prod.splits sum.splits bool.splits)
    from zd_next_over_and_out_consumes [OF this(1)] show ?thesis
      by (cases "zd_input (zr_wire s)") (simp_all add: t batch)
  qed
qed

function zr_pump :: "zmodem_receiver \<Rightarrow> zmodem_receiver" where
  "zr_pump s =
     (if zr_is_terminal s \<or> MAX_ZMODEM_PENDING_ACTIONS \<le> length (zr_actions s) then s
      else case zr_pump_once s of (t, progressed) \<Rightarrow> if progressed then zr_pump t else t)"
  by pat_completeness auto
termination
  by (relation "measure (\<lambda>s. length (zd_input (zr_wire s)))") (auto dest: zr_pump_once_consumes [OF sym])

declare zr_pump.simps [simp del]

section \<open>The public operations\<close>

definition zr_new :: "zmodem_config \<Rightarrow> zmodem_receiver" where
  "zr_new config =
     zr_send_receiver_init
       \<lparr>zr_config = config, zr_wire = zd_default, zr_state = AwaitHeader 1, zr_actions = [],
        zr_current = None, zr_file_index = 0, zr_written = 0, zr_completed_files = 0,
        zr_skipped_files = 0, zr_transferred_bytes = 0, zr_advertised_total_bytes = 0\<rparr> 1"

definition zr_push_serial_bytes ::
    "zmodem_receiver \<Rightarrow> bytes \<Rightarrow> zmodem_receiver \<times> (zmodem_error + unit)" where
  "zr_push_serial_bytes s bs =
     (if zr_is_terminal s then (s, Inl InvalidState)
      else case zd_push (zr_wire s) bs of
        (wire, Inl e) \<Rightarrow> (s\<lparr>zr_wire := wire\<rparr>, Inl e)
      | (wire, Inr _) \<Rightarrow> (zr_pump (s\<lparr>zr_wire := wire\<rparr>), Inr ()))"

definition zr_accept_file :: "zmodem_receiver \<Rightarrow> zmodem_receiver \<times> (zmodem_error + unit)" where
  "zr_accept_file s =
     (if zr_state s \<noteq> AwaitAcceptance then (s, Inl InvalidState)
      else case zr_current s of
        None \<Rightarrow> (s, Inl InvalidState)
      | Some m \<Rightarrow>
          let s = s\<lparr>zr_written := 0\<rparr>;
              s = zr_emit (BeginFile (zr_file_index s) m) s;
              s = zr_emit (Progress \<lparr>zp_file_index = zr_file_index s,
                    zp_file_count = (case zm_files_remaining m of Some n \<Rightarrow> n | None \<Rightarrow> 0),
                    zp_transferred_bytes = 0, zp_total_bytes = zm_total_bytes m,
                    zp_stage = StageHeader\<rparr>) s
          in (zr_pump (zr_send_receiver_position s 1), Inr ()))"

definition zr_skip_file :: "zmodem_receiver \<Rightarrow> zmodem_receiver \<times> (zmodem_error + unit)" where
  "zr_skip_file s =
     (if zr_state s \<noteq> AwaitAcceptance then (s, Inl InvalidState)
      else let s = zr_emit (zr_write_header (header_new Skip 0 0 0 0)) s;
               s = s\<lparr>zr_current := None, zr_skipped_files := zr_skipped_files s + 1,
                     zr_file_index := zr_file_index s + 1\<rparr>
           in (zr_pump (zr_send_receiver_init s 1), Inr ()))"

definition zr_after_write ::
    "zmodem_receiver \<Rightarrow> zmodem_frame_end \<Rightarrow> zmodem_checksum \<Rightarrow> nat \<Rightarrow> nat \<Rightarrow> zmodem_receiver" where
  "zr_after_write s frame_end checksum attempts total_bytes =
     (let s = zr_emit (Progress \<lparr>zp_file_index = zr_file_index s,
                zp_file_count = zr_file_count_hint s, zp_transferred_bytes = zr_written s,
                zp_total_bytes = total_bytes,
                zp_stage = if ends_frame frame_end then StageFinalizing else StageData\<rparr>) s;
          s = (if expects_ack frame_end
               then zr_emit (zr_write_header (with_offset Ack
                      (of_nat (min (zr_written s) (2 ^ 32 - 1))))) s
               else s)
      in s\<lparr>zr_state := if ends_frame frame_end then AwaitEndOfFile attempts
                       else AwaitData checksum attempts\<rparr>)"

definition zr_confirm_file_write ::
    "zmodem_receiver \<Rightarrow> nat \<Rightarrow> zmodem_receiver \<times> (zmodem_error + unit)" where
  "zr_confirm_file_write s written_bytes =
     (case zr_state s of
        AwaitSink exact_bytes frame_end checksum attempts \<Rightarrow>
          (if written_bytes \<noteq> exact_bytes
           then let e = SinkLengthMismatch exact_bytes written_bytes in (zr_fail s e, Inl e)
           else let s = s\<lparr>zr_written := zr_written s + written_bytes\<rparr>
             in case zr_current s of
               None \<Rightarrow> (s, Inl InvalidState)
             | Some m \<Rightarrow>
                 if zm_total_bytes m < zr_written s then (zr_fail s IncompleteFile, Inr ())
                 else (zr_pump (zr_after_write s frame_end checksum attempts (zm_total_bytes m)),
                       Inr ()))
      | _ \<Rightarrow> (s, Inl InvalidState))"

definition zr_nak_or_fail :: "zmodem_receiver \<Rightarrow> nat \<Rightarrow> zmodem_receiver" where
  "zr_nak_or_fail s attempts =
     (if zc_retry_limit (zr_config s) \<le> attempts then zr_fail s RetryLimit
      else (zr_emit (zr_write_header (header_new Nak 0 0 0 0)) s)
             \<lparr>zr_state := AwaitHeader (attempts + 1)\<rparr>)"

definition zr_on_timeout :: "zmodem_receiver \<Rightarrow> zmodem_receiver \<times> (zmodem_error + unit)" where
  "zr_on_timeout s =
     (if zr_is_terminal s then (s, Inl InvalidState)
      else let s = s\<lparr>zr_wire := zd_reset (zr_wire s)\<rparr>
      in case zr_state s of
        AwaitHeader attempts \<Rightarrow> (zr_retry_receiver_init s attempts, Inr ())
      | AwaitSenderInitData _ attempts \<Rightarrow> (zr_nak_or_fail s attempts, Inr ())
      | AwaitMetadata _ attempts \<Rightarrow> (zr_nak_or_fail s attempts, Inr ())
      | AwaitDataHeader attempts \<Rightarrow> (zr_retry_receiver_position s attempts, Inr ())
      | AwaitData _ attempts \<Rightarrow> (zr_retry_receiver_position s attempts, Inr ())
      | AwaitEndOfFile attempts \<Rightarrow> (zr_retry_receiver_position s attempts, Inr ())
      | AwaitOverAndOut attempts \<Rightarrow> (zr_retry_finish s attempts, Inr ())
      | _ \<Rightarrow> (s, Inl InvalidState))"

definition zr_cancel :: "zmodem_receiver \<Rightarrow> zmodem_receiver \<times> (zmodem_error + unit)" where
  "zr_cancel s =
     (if zr_is_terminal s then (s, Inl InvalidState)
      else (zr_fail (zr_emit (Write ZMODEM_CANCEL_SEQUENCE) s) Cancelled, Inr ()))"

section \<open>The contract with the adapter\<close>

text \<open>
  The automaton follows the pending file of an adapter that executes the queued actions in their
  order: its index, its metadata and the bytes written so far.  It is \<open>Stopped\<close> once the adapter
  returns, and \<open>Broken\<close> when an action does not fit: a file offered before the last one is done, a
  write that leaves a gap or overlaps, a completion of a file whose bytes are not all there.
\<close>

datatype zr_sink = Sink "(nat \<times> zmodem_file_metadata \<times> bytes) option" | Stopped | Broken

definition zr_offer_ok :: "zmodem_file_metadata \<Rightarrow> bool" where
  "zr_offer_ok m \<longleftrightarrow>
     safe_file_name (zm_file_name m) \<and> str_len (zm_file_name m) \<le> MAX_ZMODEM_FILENAME_BYTES \<and>
     zm_total_bytes m \<le> MAX_ZMODEM_FILE_BYTES"

fun zr_contract :: "zr_sink \<Rightarrow> zmodem_receiver_action \<Rightarrow> zr_sink" where
  "zr_contract Broken a = Broken"
| "zr_contract Stopped a = Stopped"
| "zr_contract (Sink p) (Write bs) = Sink p"
| "zr_contract (Sink p) (Progress r) = Sink p"
| "zr_contract (Sink p) (Failed e) = Stopped"
| "zr_contract (Sink p) (BatchCompleted b rest) = (if p = None then Stopped else Broken)"
| "zr_contract (Sink p) (OfferFile i m) =
     (if p = None \<and> zr_offer_ok m then Sink (Some (i, m, [])) else Broken)"
| "zr_contract (Sink (Some (j, n, c))) (BeginFile i m) =
     (if i = j \<and> m = n \<and> c = [] then Sink (Some (j, n, c)) else Broken)"
| "zr_contract (Sink (Some (j, n, c))) (WriteFile i off bs) =
     (if i = j \<and> off = length c \<and> off + length bs \<le> zm_total_bytes n
      then Sink (Some (j, n, c @ bs)) else Broken)"
| "zr_contract (Sink (Some (j, n, c))) (FileCompleted f) =
     (if zf_file_index f = j \<and> zf_total_bytes f = zm_total_bytes n \<and>
         zf_transferred_bytes f = zf_total_bytes f \<and> length c = zm_total_bytes n
      then Sink None else Broken)"
| "zr_contract (Sink None) (BeginFile i m) = Broken"
| "zr_contract (Sink None) (WriteFile i off bs) = Broken"
| "zr_contract (Sink None) (FileCompleted f) = Broken"

lemma zr_contract_absorbing:
  "foldl zr_contract Broken as = Broken" "foldl zr_contract Stopped as = Stopped"
  by (induction as) simp_all

definition zr_level :: "zr_sink \<Rightarrow> zmodem_receiver \<Rightarrow> zr_sink" where
  "zr_level k s = foldl zr_contract k (zr_actions s)"

section \<open>The invariant\<close>

fun zr_action_ok :: "zmodem_receiver_action \<Rightarrow> bool" where
  "zr_action_ok (Progress p) \<longleftrightarrow> zp_transferred_bytes p \<le> zp_total_bytes p"
| "zr_action_ok (BatchCompleted b rest) \<longleftrightarrow>
     zb_completed_files b + zb_skipped_files b = zb_file_count b \<and>
     zb_file_count b \<le> MAX_ZMODEM_BATCH_FILES \<and> zb_transferred_bytes b \<le> zb_total_bytes b"
| "zr_action_ok _ \<longleftrightarrow> True"

definition zr_queue_ok :: "zmodem_receiver \<Rightarrow> bool" where
  "zr_queue_ok s \<longleftrightarrow>
     length (zr_actions s) \<le> MAX_ZMODEM_PENDING_ACTIONS \<and> list_all zr_action_ok (zr_actions s)"

definition zr_open_bytes :: "zmodem_receiver \<Rightarrow> nat" where
  "zr_open_bytes s = (case zr_current s of Some m \<Rightarrow> zm_total_bytes m | None \<Rightarrow> 0)"

definition zr_opened :: "zmodem_receiver \<Rightarrow> nat" where
  "zr_opened s = zr_file_index s + (case zr_current s of Some m \<Rightarrow> 1 | None \<Rightarrow> 0)"

definition zr_counts :: "zmodem_receiver \<Rightarrow> bool" where
  "zr_counts s \<longleftrightarrow>
     zmodem_config_ok (zr_config s) \<and>
     zr_opened s \<le> MAX_ZMODEM_BATCH_FILES \<and>
     zr_completed_files s + zr_skipped_files s = zr_file_index s \<and>
     pred_option zr_offer_ok (zr_current s) \<and>
     zr_transferred_bytes s + zr_open_bytes s \<le> zr_advertised_total_bytes s \<and>
     zr_advertised_total_bytes s \<le> zr_opened s * MAX_ZMODEM_FILE_BYTES"

definition zr_link :: "zr_sink \<Rightarrow> nat \<Rightarrow> zmodem_file_metadata option \<Rightarrow> nat \<Rightarrow> bool" where
  "zr_link l i current n \<longleftrightarrow>
     l = Stopped \<or>
     (case current of
        None \<Rightarrow> l = Sink None
      | Some m \<Rightarrow> \<exists>c. l = Sink (Some (i, m, c)) \<and> length c = n)"

text \<open>The machine stands where the adapter stands, with \<open>n\<close> bytes of the current file handed over.\<close>

definition zr_at :: "zr_sink \<Rightarrow> zmodem_receiver \<Rightarrow> nat \<Rightarrow> bool" where
  "zr_at k s n \<longleftrightarrow>
     zr_counts s \<and> zr_queue_ok s \<and> zr_link (zr_level k s) (zr_file_index s) (zr_current s) n"

definition zr_base :: "zr_sink \<Rightarrow> zmodem_receiver \<Rightarrow> bool" where
  "zr_base k s \<longleftrightarrow> zr_counts s \<and> zr_queue_ok s \<and> zr_level k s \<noteq> Broken"

fun zr_cond :: "zmodem_config \<Rightarrow> zmodem_file_metadata option \<Rightarrow> nat \<Rightarrow> zmodem_receiver_state \<Rightarrow> bool" where
  "zr_cond c current w (AwaitHeader a) \<longleftrightarrow> attempt_ok c a \<and> current = None \<and> w = 0"
| "zr_cond c current w (AwaitSenderInitData k a) \<longleftrightarrow> attempt_ok c a \<and> current = None \<and> w = 0"
| "zr_cond c current w (AwaitMetadata k a) \<longleftrightarrow> attempt_ok c a \<and> current = None \<and> w = 0"
| "zr_cond c current w (AwaitOverAndOut a) \<longleftrightarrow> attempt_ok c a \<and> current = None \<and> w = 0"
| "zr_cond c current w AwaitAcceptance \<longleftrightarrow> current \<noteq> None \<and> w = 0"
| "zr_cond c current w (AwaitDataHeader a) \<longleftrightarrow>
     attempt_ok c a \<and> (\<exists>m. current = Some m \<and> w \<le> zm_total_bytes m)"
| "zr_cond c current w (AwaitData k a) \<longleftrightarrow>
     attempt_ok c a \<and> (\<exists>m. current = Some m \<and> w \<le> zm_total_bytes m)"
| "zr_cond c current w (AwaitEndOfFile a) \<longleftrightarrow>
     attempt_ok c a \<and> (\<exists>m. current = Some m \<and> w \<le> zm_total_bytes m)"
| "zr_cond c current w (AwaitSink n e k a) \<longleftrightarrow>
     attempt_ok c a \<and> (\<exists>m. current = Some m \<and> w + n \<le> zm_total_bytes m)"
| "zr_cond c current w Terminal \<longleftrightarrow> True"

fun zr_promised :: "zmodem_receiver_state \<Rightarrow> nat" where
  "zr_promised (AwaitSink n e k a) = n"
| "zr_promised _ = 0"

definition zr_inv :: "zr_sink \<Rightarrow> zmodem_receiver \<Rightarrow> bool" where
  "zr_inv k s \<longleftrightarrow>
     zr_base k s \<and>
     (zr_is_terminal s \<or> zr_at k s (zr_written s + zr_promised (zr_state s))) \<and>
     zr_cond (zr_config s) (zr_current s) (zr_written s) (zr_state s)"

lemma zr_at_frame [simp]:
  "zr_at k (s\<lparr>zr_state := st\<rparr>) n = zr_at k s n" "zr_at k (s\<lparr>zr_wire := w\<rparr>) n = zr_at k s n"
  "zr_at k (s\<lparr>zr_written := w'\<rparr>) n = zr_at k s n"
  "zr_base k (s\<lparr>zr_state := st\<rparr>) = zr_base k s" "zr_base k (s\<lparr>zr_wire := w\<rparr>) = zr_base k s"
  "zr_base k (s\<lparr>zr_written := w'\<rparr>) = zr_base k s"
  by (simp_all add: zr_at_def zr_base_def zr_counts_def zr_queue_ok_def zr_level_def zr_opened_def
      zr_open_bytes_def)

lemma zr_at_base: "zr_at k s n \<Longrightarrow> zr_base k s"
  by (auto simp: zr_at_def zr_base_def zr_link_def split: option.splits)

lemma zr_at_config: "zr_at k s n \<Longrightarrow> zmodem_config_ok (zr_config s)"
  by (simp add: zr_at_def zr_counts_def)

lemma zr_at_any: "zr_at k s n \<Longrightarrow> zr_current s = None \<Longrightarrow> zr_at k s n'"
  by (simp add: zr_at_def zr_link_def)

subsection \<open>Emitting an action\<close>

lemma zr_counts_emit [simp]: "zr_counts (zr_emit a s) = zr_counts s"
  by (simp add: zr_counts_def zr_opened_def zr_open_bytes_def)

lemma zr_queue_emit: "zr_queue_ok s \<Longrightarrow> zr_action_ok a \<Longrightarrow> zr_queue_ok (zr_emit a s)"
  by (auto simp: zr_queue_ok_def zr_emit_def MAX_ZMODEM_PENDING_ACTIONS_def)

lemma zr_level_emit:
  assumes "zr_level k s \<noteq> Broken"
  shows "zr_level k (zr_emit a s) = Stopped \<or> zr_level k (zr_emit a s) = zr_contract (zr_level k s) a"
proof -
  have "k \<noteq> Broken" using assms by (auto simp: zr_level_def zr_contract_absorbing)
  then show ?thesis by (cases k) (auto simp: zr_level_def zr_emit_def)
qed

lemma zr_at_emit:
  assumes "zr_at k s n" and "zr_action_ok a"
    and "\<And>l. zr_link l (zr_file_index s) (zr_current s) n \<Longrightarrow>
      zr_link (zr_contract l a) (zr_file_index s) (zr_current s) n'"
  shows "zr_at k (zr_emit a s) n'"
proof -
  have "zr_level k s \<noteq> Broken" using zr_at_base [OF assms(1)] by (simp add: zr_base_def)
  from zr_level_emit [OF this, of a] show ?thesis
    using assms zr_queue_emit by (auto simp: zr_at_def) (auto simp: zr_link_def)
qed

lemma zr_link_neutral:
  "zr_link l i c n \<Longrightarrow> zr_link (zr_contract l (Write bs)) i c n"
  "zr_link l i c n \<Longrightarrow> zr_link (zr_contract l (Progress p)) i c n"
  by (cases c; auto simp: zr_link_def)+

lemma zr_at_write [simp]: "zr_at k s n \<Longrightarrow> zr_at k (zr_emit (Write bs) s) n"
  by (rule zr_at_emit) (auto intro: zr_link_neutral)

lemma zr_at_header [simp]: "zr_at k s n \<Longrightarrow> zr_at k (zr_emit (zr_write_header h) s) n"
  by (simp add: zr_write_header_def)

lemma zr_at_progress: "zr_at k s n \<Longrightarrow> zp_transferred_bytes p \<le> zp_total_bytes p \<Longrightarrow>
    zr_at k (zr_emit (Progress p) s) n"
  by (rule zr_at_emit) (auto intro: zr_link_neutral)

lemma zr_base_emit:
  assumes "zr_base k s" and "zr_action_ok a"
    and "zr_contract (zr_level k s) a \<noteq> Broken"
  shows "zr_base k (zr_emit a s)"
  using assms zr_level_emit [of k s a] zr_queue_emit by (auto simp: zr_base_def)

lemma zr_base_failed: "zr_base k s \<Longrightarrow> zr_base k (zr_emit (Failed e) s)"
  by (rule zr_base_emit) (auto simp: zr_base_def, cases "zr_level k s", auto)

lemma zr_base_write: "zr_base k s \<Longrightarrow> zr_base k (zr_emit (Write bs) s)"
  by (rule zr_base_emit) (auto simp: zr_base_def, cases "zr_level k s", auto)

lemma zr_fail_inv [simp]: "zr_base k s \<Longrightarrow> zr_inv k (zr_fail s e)"
  by (simp add: zr_inv_def zr_fail_def zr_base_failed zr_is_terminal_def)

lemma zr_inv_base: "zr_inv k s \<Longrightarrow> zr_base k s"
  by (simp add: zr_inv_def)

lemma zr_inv_state:
  assumes "zr_at k s n" and "zr_cond (zr_config s) (zr_current s) (zr_written s) st"
    and "n = zr_written s + zr_promised st"
  shows "zr_inv k (s\<lparr>zr_state := st\<rparr>)"
  using assms zr_at_base [OF assms(1)] by (auto simp: zr_inv_def)

subsection \<open>The operations\<close>

lemma zr_send_init_inv:
  "zr_at k s n \<Longrightarrow> zr_current s = None \<Longrightarrow> zr_written s = 0 \<Longrightarrow> attempt_ok (zr_config s) a \<Longrightarrow>
   zr_inv k (zr_send_receiver_init s a)"
  unfolding zr_send_receiver_init_def Let_def
  by (rule zr_inv_state [where n = 0]) (simp_all add: zr_at_any)

lemma zr_send_position_inv:
  "zr_at k s (zr_written s) \<Longrightarrow> attempt_ok (zr_config s) a \<Longrightarrow> zr_current s = Some m \<Longrightarrow>
   zr_written s \<le> zm_total_bytes m \<Longrightarrow> zr_inv k (zr_send_receiver_position s a)"
  unfolding zr_send_receiver_position_def using zr_at_base [of k s "zr_written s"]
  by (auto intro!: zr_inv_state)

lemma zr_send_finish_inv:
  "zr_at k s n \<Longrightarrow> zr_current s = None \<Longrightarrow> zr_written s = 0 \<Longrightarrow> attempt_ok (zr_config s) a \<Longrightarrow>
   zr_inv k (zr_send_finish s a)"
  unfolding zr_send_finish_def
  by (rule zr_inv_state [where n = 0]) (simp_all add: zr_at_any)

lemma zr_nak_inv:
  assumes "zr_at k s n" and "attempt_ok (zr_config s) a" and "zr_current s = None" and "zr_written s = 0"
  shows "zr_inv k (zr_nak_or_fail s a)"
proof -
  have "zr_inv k ((zr_emit (zr_write_header (header_new Nak 0 0 0 0)) s)\<lparr>zr_state := AwaitHeader (a + 1)\<rparr>)"
    if "\<not> zc_retry_limit (zr_config s) \<le> a"
    using assms attempt_ok_next [OF assms(2) that]
    by (intro zr_inv_state [where n = 0]) (simp_all add: zr_at_any)
  then show ?thesis using zr_at_base [OF assms(1)] by (simp add: zr_nak_or_fail_def)
qed

lemma zr_retry_inv:
  assumes "zr_at k s n" and "attempt_ok (zr_config s) a"
  shows "zr_current s = None \<Longrightarrow> zr_written s = 0 \<Longrightarrow> zr_inv k (zr_retry_receiver_init s a)"
    and "zr_current s = None \<Longrightarrow> zr_written s = 0 \<Longrightarrow> zr_inv k (zr_retry_finish s a)"
    and "zr_current s = Some m \<Longrightarrow> n = zr_written s \<Longrightarrow> zr_written s \<le> zm_total_bytes m \<Longrightarrow>
      zr_inv k (zr_retry_receiver_position s a)"
  using assms attempt_ok_next [OF assms(2)] zr_at_base [OF assms(1)]
  by (auto simp: zr_retry_receiver_init_def zr_retry_finish_def zr_retry_receiver_position_def
      intro!: zr_send_init_inv zr_send_finish_inv zr_send_position_inv)

lemma zr_end_of_file_inv:
  assumes at: "zr_at k s (zr_written s)" and cur: "zr_current s = Some m"
    and le: "zr_written s \<le> zm_total_bytes m"
  shows "zr_inv k (zr_handle_end_of_file s off)"
proof (cases "off \<noteq> zr_written s \<or> zr_written s \<noteq> zm_total_bytes m")
  case True
  have "zr_inv k (zr_retry_receiver_position s 1)"
    using assms attempt_ok_first zr_at_config [OF at] by (intro zr_retry_inv(3)) auto
  then show ?thesis using True cur by (auto simp: zr_handle_end_of_file_def)
next
  case False
  define p where "p = \<lparr>zp_file_index = zr_file_index s, zp_file_count = zr_file_count_hint_from s m,
    zp_transferred_bytes = zr_written s, zp_total_bytes = zm_total_bytes m, zp_stage = StageComplete\<rparr>"
  define f where "f = \<lparr>zf_file_index = zr_file_index s, zf_total_bytes = zm_total_bytes m,
    zf_transferred_bytes = zr_written s\<rparr>"
  define u where "u = zr_emit (FileCompleted f) (zr_emit (Progress p) s)"
  let ?v = "u\<lparr>zr_current := None, zr_completed_files := zr_completed_files s + 1,
    zr_transferred_bytes := saturating_add64 (zr_transferred_bytes s) (zr_written s),
    zr_file_index := zr_file_index s + 1, zr_written := 0\<rparr>"
  have link: "zr_link l i (Some m) (zr_written s) \<Longrightarrow> i = zr_file_index s \<Longrightarrow>
      zr_link (zr_contract l (FileCompleted f)) j None n" for l i j n
    using False by (auto simp: zr_link_def f_def)
  have prog: "zr_at k (zr_emit (Progress p) s) (zr_written s)"
    using at False by (intro zr_at_progress) (simp_all add: p_def)
  have "zr_level k (zr_emit (Progress p) s) \<noteq> Broken"
    using zr_at_base [OF prog] by (simp add: zr_base_def)
  then have "zr_link (zr_level k u) j None n" for j n
    unfolding u_def using zr_level_emit [of k "zr_emit (Progress p) s" "FileCompleted f"] link prog
    by (auto simp: zr_at_def cur) (auto simp: zr_link_def)
  moreover have "zr_queue_ok u"
    unfolding u_def by (rule zr_queue_emit) (use prog in \<open>simp_all add: zr_at_def\<close>)
  moreover have "zr_level k ?v = zr_level k u" "zr_queue_ok ?v = zr_queue_ok u"
    by (simp_all add: zr_level_def zr_queue_ok_def)
  moreover have "zr_counts ?v"
  proof -
    have "zr_counts s" using at by (simp add: zr_at_def)
    moreover have "saturating_add64 (zr_transferred_bytes s) (zr_written s) \<le>
        zr_transferred_bytes s + zr_written s" by (simp add: saturating_add64_def)
    ultimately show ?thesis
      using cur False by (auto simp: zr_counts_def zr_opened_def zr_open_bytes_def u_def)
  qed
  ultimately have "zr_at k ?v 0" by (simp add: zr_at_def)
  then have "zr_inv k (zr_send_receiver_init ?v 1)"
    using attempt_ok_first zr_at_config [OF at] by (intro zr_send_init_inv) (simp_all add: u_def)
  moreover have "zr_handle_end_of_file s off = zr_send_receiver_init ?v 1"
  proof -
    have move: "zr_emit a (t\<lparr>zr_current := x, zr_completed_files := y, zr_transferred_bytes := z\<rparr>) =
        (zr_emit a t)\<lparr>zr_current := x, zr_completed_files := y, zr_transferred_bytes := z\<rparr>" for a t x y z
      by (simp add: zr_emit_def)
    have hint: "zr_file_count_hint_from (t\<lparr>zr_current := x, zr_completed_files := y,
        zr_transferred_bytes := z\<rparr>) m = zr_file_count_hint_from t m" for t x y z
      by (simp add: zr_file_count_hint_from_def split: option.split)
    show ?thesis
      using False cur
      by (simp add: zr_handle_end_of_file_def Let_def move hint u_def p_def f_def)
  qed
  ultimately show ?thesis by simp
qed

lemma zr_complete_batch_inv:
  assumes "zr_at k s n" and "zr_current s = None"
  shows "zr_inv k (zr_complete_batch s)"
proof -
  define t where "t = s\<lparr>zr_wire := fst (zd_take_success_remainder (zr_wire s))\<rparr>"
  define b where "b = BatchCompleted \<lparr>zb_file_count = zr_file_index s,
    zb_completed_files = zr_completed_files s, zb_skipped_files = zr_skipped_files s,
    zb_total_bytes = zr_advertised_total_bytes s, zb_transferred_bytes = zr_transferred_bytes s\<rparr>
    (snd (zd_take_success_remainder (zr_wire s)))"
  have t: "zr_base k t" using zr_at_base [OF assms(1)] by (simp add: t_def)
  have "zr_level k t = zr_level k s" by (simp add: t_def zr_level_def)
  then have "zr_contract (zr_level k t) b \<noteq> Broken"
    using assms by (auto simp: zr_at_def zr_link_def b_def)
  moreover have "zr_action_ok b"
    using assms by (auto simp: zr_at_def zr_counts_def zr_opened_def zr_open_bytes_def b_def)
  ultimately have "zr_base k (zr_emit b t)" using t by (intro zr_base_emit)
  moreover have "zr_complete_batch s = (zr_emit b t)\<lparr>zr_state := Terminal\<rparr>"
    by (simp add: zr_complete_batch_def t_def b_def Let_def split: prod.split)
  ultimately show ?thesis by (simp add: zr_inv_def zr_is_terminal_def)
qed

lemma zr_metadata_inv:
  assumes at: "zr_at k s n" and cur: "zr_current s = None" and w: "zr_written s = 0"
  shows "zr_inv k (zr_handle_metadata s packet)"
proof -
  define offered where "offered m = s\<lparr>zr_advertised_total_bytes :=
    saturating_add64 (zr_advertised_total_bytes s) (zm_total_bytes m), zr_current := Some m\<rparr>" for m
  have "zr_inv k ((zr_emit (OfferFile (zr_file_index s) m) (offered m))\<lparr>zr_state := AwaitAcceptance\<rparr>)"
    if m: "zr_offer_ok m" and room: "zr_file_index s < MAX_ZMODEM_BATCH_FILES" for m
  proof -
    let ?o = "OfferFile (zr_file_index s) m" and ?t = "offered m"
    have frame: "zr_file_index ?t = zr_file_index s" "zr_current ?t = Some m" "zr_written ?t = 0"
      using w by (simp_all add: offered_def)
    have lev: "zr_level k ?t = zr_level k s" by (simp add: zr_level_def offered_def)
    have counts: "zr_counts ?t"
    proof -
      have c: "zr_counts s" using at by (simp add: zr_at_def)
      have tot: "zm_total_bytes m \<le> MAX_ZMODEM_FILE_BYTES" using m by (simp add: zr_offer_ok_def)
      have "zr_advertised_total_bytes s + zm_total_bytes m \<le> Suc (zr_file_index s) * MAX_ZMODEM_FILE_BYTES"
        using c cur tot by (simp add: zr_counts_def zr_opened_def)
      moreover have "Suc (zr_file_index s) * MAX_ZMODEM_FILE_BYTES \<le> U64_MAX"
        using room by (simp add: MAX_ZMODEM_FILE_BYTES_def MAX_ZMODEM_BATCH_FILES_def)
      ultimately have "saturating_add64 (zr_advertised_total_bytes s) (zm_total_bytes m) =
          zr_advertised_total_bytes s + zm_total_bytes m"
        by (simp add: saturating_add64_def)
      then show ?thesis
        using c cur room m tot by (simp add: zr_counts_def zr_opened_def zr_open_bytes_def offered_def)
    qed
    have q: "zr_queue_ok (zr_emit ?o ?t)"
      by (rule zr_queue_emit) (use at in \<open>simp_all add: zr_at_def zr_queue_ok_def offered_def\<close>)
    have ne: "zr_level k ?t \<noteq> Broken" using zr_at_base [OF at] lev by (simp add: zr_base_def)
    have "zr_link (zr_level k (zr_emit ?o ?t)) (zr_file_index s) (Some m) 0"
      using zr_level_emit [OF ne, of ?o] at m cur lev by (auto simp: zr_at_def zr_link_def)
    with counts q have "zr_at k (zr_emit ?o ?t) 0" by (simp add: zr_at_def frame)
    then show ?thesis by (intro zr_inv_state) (simp_all add: frame)
  qed
  moreover have "zr_offer_ok m" if "parse_zmodem_file_metadata bs = Inr m" for bs m
    using parsed_zmodem_safe [OF that] by (simp add: zr_offer_ok_def)
  ultimately show ?thesis
    using zr_at_base [OF at] by (simp add: zr_handle_metadata_def Let_def offered_def split: sum.split)
qed

lemma zr_data_inv:
  assumes at: "zr_at k s (zr_written s)" and cur: "zr_current s = Some m"
    and a: "attempt_ok (zr_config s) a" and w: "zr_written s \<le> zm_total_bytes m"
  shows "zr_inv k (zr_handle_data s packet c a)"
proof (cases "zm_total_bytes m < saturating_add64 (zr_written s) (length (sp_payload packet))")
  case True
  then show ?thesis using zr_at_base [OF at] cur by (simp add: zr_handle_data_def)
next
  case False
  let ?n = "length (sp_payload packet)"
  have "zm_total_bytes m \<le> MAX_ZMODEM_FILE_BYTES"
    using at cur by (simp add: zr_at_def zr_counts_def zr_offer_ok_def)
  then have le: "zr_written s + ?n \<le> zm_total_bytes m"
    using False by (simp add: saturating_add64_def MAX_ZMODEM_FILE_BYTES_def split: if_splits)
  have link: "zr_link (zr_contract l (WriteFile (zr_file_index s) (zr_written s) (sp_payload packet)))
      (zr_file_index s) (zr_current s) (zr_written s + ?n)"
    if "zr_link l (zr_file_index s) (zr_current s) (zr_written s)" for l
    using that cur le by (auto simp: zr_link_def)
  have "zr_at k (zr_emit (WriteFile (zr_file_index s) (zr_written s) (sp_payload packet)) s)
      (zr_written s + ?n)"
    by (rule zr_at_emit [OF at]) (auto intro: link)
  then have "zr_inv k ((zr_emit (WriteFile (zr_file_index s) (zr_written s) (sp_payload packet)) s)
      \<lparr>zr_state := AwaitSink ?n (sp_frame_end packet) c a\<rparr>)"
    using cur a le by (intro zr_inv_state) simp_all
  then show ?thesis using False cur by (simp add: zr_handle_data_def)
qed

lemma zr_inv_at:
  "zr_inv k s \<Longrightarrow> \<not> zr_is_terminal s \<Longrightarrow> zr_at k s (zr_written s + zr_promised (zr_state s))"
  by (simp add: zr_inv_def)

lemma zr_inv_cond:
  "zr_inv k s \<Longrightarrow> zr_cond (zr_config s) (zr_current s) (zr_written s) (zr_state s)"
  by (simp add: zr_inv_def)

lemma zr_inv_set:
  assumes "zr_inv k s" and "\<not> zr_is_terminal s" and "zr_promised (zr_state s) = zr_promised st"
    and "zr_cond (zr_config s) (zr_current s) (zr_written s) st"
  shows "zr_inv k (s\<lparr>zr_state := st\<rparr>)"
  using zr_inv_at [OF assms(1,2)] assms(3,4) by (intro zr_inv_state) simp_all

lemma zr_inv_write:
  assumes "zr_inv k s" shows "zr_inv k (zr_emit (Write bs) s)"
proof -
  have "zr_state (zr_emit (Write bs) s) = zr_state s \<or> zr_state (zr_emit (Write bs) s) = Terminal"
    by (simp add: zr_emit_def)
  then show ?thesis
    using assms zr_base_write [of k s bs] by (auto simp: zr_inv_def zr_is_terminal_def)
qed

text \<open>The facts a state gives, in the form the operations need them.\<close>

lemma zr_inv_facts:
  assumes "zr_inv k s"
  shows "zr_state s = AwaitHeader a \<or> zr_state s = AwaitSenderInitData c a \<or>
      zr_state s = AwaitMetadata c a \<or> zr_state s = AwaitOverAndOut a \<Longrightarrow>
      zr_at k s 0 \<and> zr_current s = None \<and> zr_written s = 0 \<and> attempt_ok (zr_config s) a"
    and "zr_state s = AwaitDataHeader a \<or> zr_state s = AwaitData c a \<or> zr_state s = AwaitEndOfFile a \<Longrightarrow>
      zr_at k s (zr_written s) \<and> attempt_ok (zr_config s) a \<and>
      (\<exists>m. zr_current s = Some m \<and> zr_written s \<le> zm_total_bytes m)"
  using assms by (auto simp: zr_inv_def zr_is_terminal_def)

lemma zr_handle_header_inv:
  assumes inv: "zr_inv k s" shows "zr_inv k (zr_handle_header s d)"
proof -
  note base = zr_inv_base [OF inv] and facts = zr_inv_facts [OF inv]
  have first: "attempt_ok (zr_config s) 1"
    using base attempt_ok_first by (simp add: zr_base_def zr_counts_def)
  show ?thesis
  proof (cases "zr_state s")
    case (AwaitHeader a)
    then have st: "zr_at k s 0" "zr_current s = None" "zr_written s = 0" "attempt_ok (zr_config s) a"
      using facts(1) [of a] by auto
    then show ?thesis
      using AwaitHeader base inv first
      by (auto simp: zr_handle_header_def Let_def zr_is_terminal_def zr_write_header_def zr_inv_write
          intro!: zr_inv_set zr_send_init_inv zr_send_finish_inv)
  next
    case (AwaitDataHeader a)
    then obtain m where st: "zr_at k s (zr_written s)" "attempt_ok (zr_config s) a"
      "zr_current s = Some m" "zr_written s \<le> zm_total_bytes m"
      using facts(2) [of a] by auto
    then show ?thesis
      using AwaitDataHeader base inv zr_end_of_file_inv [OF st(1,3,4)] zr_retry_inv(3) [OF st(1,2,3)]
      by (auto simp: zr_handle_header_def Let_def zr_is_terminal_def intro!: zr_inv_set)
  next
    case (AwaitEndOfFile a)
    then obtain m where st: "zr_at k s (zr_written s)" "attempt_ok (zr_config s) a"
      "zr_current s = Some m" "zr_written s \<le> zm_total_bytes m"
      using facts(2) [of a] by auto
    then show ?thesis
      using AwaitEndOfFile base inv zr_end_of_file_inv [OF st(1,3,4)]
      by (auto simp: zr_handle_header_def Let_def zr_is_terminal_def intro!: zr_inv_set)
  qed (use base in \<open>simp_all add: zr_handle_header_def Let_def\<close>)
qed

lemma zr_handle_subpacket_inv:
  assumes inv: "zr_inv k s" shows "zr_inv k (zr_handle_subpacket s p c)"
proof -
  note base = zr_inv_base [OF inv] and facts = zr_inv_facts [OF inv]
  show ?thesis
  proof (cases "zr_state s")
    case (AwaitSenderInitData c' a)
    then have st: "zr_at k s 0" "zr_current s = None" "zr_written s = 0" "attempt_ok (zr_config s) a"
      using facts(1) [of a c'] by auto
    then show ?thesis
      using AwaitSenderInitData
      by (auto simp: zr_handle_subpacket_def intro!: zr_inv_state [where n = 0])
  next
    case (AwaitMetadata c' a)
    then show ?thesis
      using facts(1) [of a c'] by (auto simp: zr_handle_subpacket_def intro: zr_metadata_inv)
  next
    case (AwaitData c' a)
    then show ?thesis
      using facts(2) [of a c'] by (auto simp: zr_handle_subpacket_def intro: zr_data_inv)
  qed (use base in \<open>simp_all add: zr_handle_subpacket_def\<close>)
qed

lemma zr_inv_wire [simp]: "zr_inv k (s\<lparr>zr_wire := w\<rparr>) = zr_inv k s"
  by (simp add: zr_inv_def zr_is_terminal_def)

lemma zr_recover_inv:
  assumes "zr_inv k s" shows "zr_inv k (zr_recover_corrupt_input s)"
proof -
  define t where "t = s\<lparr>zr_wire := zd_reset (zr_wire s)\<rparr>"
  have t: "zr_inv k t" and st: "zr_state t = zr_state s" using assms by (simp_all add: t_def)
  note base = zr_inv_base [OF t] and facts = zr_inv_facts [OF t]
  have init: "zr_inv k (if zc_retry_limit (zr_config t) \<le> a then zr_fail t RetryLimit
      else zr_send_receiver_init t (a + 1))"
    if "zr_at k t 0 \<and> zr_current t = None \<and> zr_written t = 0 \<and> attempt_ok (zr_config t) a" for a
    using that base attempt_ok_next [of "zr_config t" a] by (auto intro: zr_send_init_inv)
  have pos: "zr_inv k (zr_retry_receiver_position t a)"
    if "zr_at k t (zr_written t) \<and> attempt_ok (zr_config t) a \<and>
      (\<exists>m. zr_current t = Some m \<and> zr_written t \<le> zm_total_bytes m)" for a
    using that zr_retry_inv(3) by blast
  show ?thesis
    unfolding zr_recover_corrupt_input_def Let_def t_def [symmetric] st
    using base facts init pos st by (auto split: zmodem_receiver_state.split simp del: One_nat_def)
qed

lemma zr_pump_once_inv:
  assumes inv: "zr_inv k s" shows "zr_inv k (fst (zr_pump_once s))"
proof -
  have w: "zr_inv k (s\<lparr>zr_wire := w\<rparr>)" "zr_base k (s\<lparr>zr_wire := w\<rparr>)" for w
    using inv zr_inv_base [OF inv] by simp_all
  have h: "zr_inv k (fst (zr_pump_header s))"
    using w zr_handle_header_inv [OF w(1)] zr_recover_inv [OF w(1)]
    by (auto simp: zr_pump_header_def split: prod.split sum.split option.split)
  have p: "zr_inv k (fst (zr_pump_subpacket s c))" for c
    using w zr_handle_subpacket_inv [OF w(1)] zr_recover_inv [OF w(1)]
    by (auto simp: zr_pump_subpacket_def split: prod.split sum.split option.split)
  have o: "zr_inv k (fst (zr_pump_over_and_out s))" if "zr_state s = AwaitOverAndOut a" for a
  proof -
    have "zr_at k s 0" "zr_current s = None"
      using zr_inv_facts(1) [OF inv, of a] that by auto
    then have "zr_inv k (zr_complete_batch (s\<lparr>zr_wire := w\<rparr>))" for w
      by (intro zr_complete_batch_inv [where n = 0]) simp_all
    then show ?thesis
      using w by (auto simp: zr_pump_over_and_out_def split: prod.split sum.split bool.split)
  qed
  show ?thesis
    using inv h p o by (cases "zr_state s") (simp_all add: zr_pump_once_def)
qed

lemma zr_pump_inv: "zr_inv k s \<Longrightarrow> zr_inv k (zr_pump s)"
proof (induction s rule: zr_pump.induct)
  case (1 s)
  obtain t b where once: "zr_pump_once s = (t, b)" by fastforce
  then have "zr_inv k t" using zr_pump_once_inv [OF 1(2)] by simp
  then show ?case
    using 1 once by (cases b) (simp_all add: zr_pump.simps [of s])
qed

subsection \<open>The public operations\<close>

lemma zr_push_inv: "zr_inv k s \<Longrightarrow> zr_inv k (fst (zr_push_serial_bytes s bs))"
  by (auto simp: zr_push_serial_bytes_def zr_pump_inv split: prod.split sum.split)

lemma zr_accept_pumps:
  assumes inv: "zr_inv k s" and st: "zr_state s = AwaitAcceptance"
  shows "\<exists>m p u. u = zr_send_receiver_position
      (zr_emit (Progress p) (zr_emit (BeginFile (zr_file_index s) m) (s\<lparr>zr_written := 0\<rparr>))) 1 \<and>
    zr_accept_file s = (zr_pump u, Inr ()) \<and> zr_inv k u"
proof -
  obtain m where cur: "zr_current s = Some m" and w: "zr_written s = 0" and at: "zr_at k s 0"
    using inv st by (auto simp: zr_inv_def zr_is_terminal_def)
  define p where "p = \<lparr>zp_file_index = zr_file_index s,
    zp_file_count = (case zm_files_remaining m of Some n \<Rightarrow> n | None \<Rightarrow> 0),
    zp_transferred_bytes = 0, zp_total_bytes = zm_total_bytes m, zp_stage = StageHeader\<rparr>"
  let ?b = "zr_emit (BeginFile (zr_file_index s) m) (s\<lparr>zr_written := 0\<rparr>)"
  have "zr_at k ?b 0"
    by (rule zr_at_emit [where n = 0]) (use at cur in \<open>auto simp: zr_link_def\<close>)
  then have "zr_at k (zr_emit (Progress p) ?b) 0"
    by (rule zr_at_progress) (simp add: p_def)
  then have "zr_inv k (zr_send_receiver_position (zr_emit (Progress p) ?b) 1)"
    using cur attempt_ok_first zr_at_config [OF at] by (intro zr_send_position_inv) simp_all
  moreover have "zr_accept_file s = (zr_pump (zr_send_receiver_position (zr_emit (Progress p) ?b) 1), Inr ())"
    using st cur by (simp add: zr_accept_file_def Let_def p_def)
  ultimately show ?thesis by blast
qed

lemma zr_accept_inv:
  assumes inv: "zr_inv k s" shows "zr_inv k (fst (zr_accept_file s))"
proof (cases "zr_state s = AwaitAcceptance")
  case True
  then show ?thesis using zr_accept_pumps [OF inv] zr_pump_inv by fastforce
qed (simp add: zr_accept_file_def inv)

text \<open>Skipping an offer is done after it was taken from the queue, and drops the pending file.\<close>

fun zr_drop :: "zr_sink \<Rightarrow> zr_sink" where
  "zr_drop (Sink p) = Sink None"
| "zr_drop k = k"

lemma zr_skip_inv:
  assumes inv: "zr_inv k s" and st: "zr_state s = AwaitAcceptance" and q: "zr_actions s = []"
  shows "zr_inv (zr_drop k) (fst (zr_skip_file s))"
proof -
  obtain m where cur: "zr_current s = Some m" and w: "zr_written s = 0" and at: "zr_at k s 0"
    using inv st by (auto simp: zr_inv_def zr_is_terminal_def)
  have k: "zr_drop k = Stopped \<or> zr_drop k = Sink None"
    using at q by (auto simp: zr_at_def zr_link_def zr_level_def split: option.splits)
  let ?e = "zr_emit (zr_write_header (header_new Skip 0 0 0 0)) s"
  let ?u = "?e\<lparr>zr_current := None, zr_skipped_files := zr_skipped_files s + 1,
    zr_file_index := zr_file_index s + 1\<rparr>"
  have acts: "zr_actions ?u = [zr_write_header (header_new Skip 0 0 0 0)]"
    using q by (simp add: zr_emit_def MAX_ZMODEM_PENDING_ACTIONS_def)
  have "zr_counts ?u"
    using at cur by (auto simp: zr_at_def zr_counts_def zr_opened_def zr_open_bytes_def)
  moreover have "zr_queue_ok ?u"
    unfolding zr_queue_ok_def acts by (simp add: zr_write_header_def MAX_ZMODEM_PENDING_ACTIONS_def)
  moreover have "zr_link (zr_level (zr_drop k) ?u) (zr_file_index ?u) (zr_current ?u) 0"
    unfolding zr_level_def acts using k by (auto simp: zr_link_def zr_write_header_def)
  ultimately have "zr_at (zr_drop k) ?u 0" by (simp add: zr_at_def)
  then have "zr_inv (zr_drop k) (zr_send_receiver_init ?u 1)"
    using w attempt_ok_first zr_at_config [OF at] by (intro zr_send_init_inv) simp_all
  then show ?thesis using st by (simp add: zr_skip_file_def Let_def zr_pump_inv)
qed

lemma zr_after_write_inv:
  assumes at: "zr_at k s (zr_written s)" and cur: "zr_current s = Some m"
    and w: "zr_written s \<le> zm_total_bytes m" and a: "attempt_ok (zr_config s) a"
  shows "zr_inv k (zr_after_write s e c a (zm_total_bytes m))"
proof -
  define p where "p = \<lparr>zp_file_index = zr_file_index s, zp_file_count = zr_file_count_hint s,
    zp_transferred_bytes = zr_written s, zp_total_bytes = zm_total_bytes m,
    zp_stage = if ends_frame e then StageFinalizing else StageData\<rparr>"
  have p: "zr_at k (zr_emit (Progress p) s) (zr_written s)"
    by (rule zr_at_progress [OF at]) (simp add: p_def w)
  define u where "u = (if expects_ack e
    then zr_emit (zr_write_header (with_offset Ack (of_nat (min (zr_written s) (2 ^ 32 - 1)))))
      (zr_emit (Progress p) s) else zr_emit (Progress p) s)"
  have u: "zr_at k u (zr_written s)" "zr_config u = zr_config s" "zr_current u = Some m"
    "zr_written u = zr_written s"
    using p cur by (simp_all add: u_def)
  have "zr_inv k (u\<lparr>zr_state := if ends_frame e then AwaitEndOfFile a else AwaitData c a\<rparr>)"
    using u w a by (intro zr_inv_state [where n = "zr_written s"]) simp_all
  then show ?thesis
    by (simp only: zr_after_write_def Let_def u_def p_def zr_emit_frame)
qed

lemma zr_confirm_pumps:
  assumes inv: "zr_inv k s" and st: "zr_state s = AwaitSink n e c a"
  shows "\<exists>m u. u = zr_after_write (s\<lparr>zr_written := zr_written s + n\<rparr>) e c a m \<and>
    zr_confirm_file_write s n = (zr_pump u, Inr ()) \<and> zr_inv k u"
proof -
  obtain m where at: "zr_at k s (zr_written s + n)" and cur: "zr_current s = Some m"
    and w: "zr_written s + n \<le> zm_total_bytes m" and a: "attempt_ok (zr_config s) a"
    using inv st by (auto simp: zr_inv_def zr_is_terminal_def)
  let ?u = "s\<lparr>zr_written := zr_written s + n\<rparr>"
  have "zr_inv k (zr_after_write ?u e c a (zm_total_bytes m))"
    using at cur w a by (intro zr_after_write_inv) simp_all
  moreover have "zr_confirm_file_write s n = (zr_pump (zr_after_write ?u e c a (zm_total_bytes m)), Inr ())"
    using st cur w by (simp add: zr_confirm_file_write_def Let_def)
  ultimately show ?thesis by blast
qed

lemma zr_confirm_inv:
  assumes inv: "zr_inv k s" shows "zr_inv k (fst (zr_confirm_file_write s n))"
proof (cases "zr_state s")
  case (AwaitSink x e c a)
  show ?thesis
  proof (cases "n = x")
    case True
    then show ?thesis using zr_confirm_pumps [OF inv AwaitSink] zr_pump_inv by fastforce
  next
    case False
    then show ?thesis using zr_inv_base [OF inv] AwaitSink by (simp add: zr_confirm_file_write_def Let_def)
  qed
qed (simp_all add: zr_confirm_file_write_def inv)

lemma zr_timeout_inv:
  assumes "zr_inv k s" shows "zr_inv k (fst (zr_on_timeout s))"
proof -
  define t where "t = s\<lparr>zr_wire := zd_reset (zr_wire s)\<rparr>"
  have t: "zr_inv k t" and st: "zr_state t = zr_state s" using assms by (simp_all add: t_def)
  note facts = zr_inv_facts [OF t]
  have pos: "zr_inv k (zr_retry_receiver_position t a)"
    if "zr_at k t (zr_written t) \<and> attempt_ok (zr_config t) a \<and>
      (\<exists>m. zr_current t = Some m \<and> zr_written t \<le> zm_total_bytes m)" for a
    using that zr_retry_inv(3) by blast
  have idle: "zr_inv k (zr_retry_receiver_init t a)" "zr_inv k (zr_retry_finish t a)"
    "zr_inv k (zr_nak_or_fail t a)"
    if "zr_at k t 0 \<and> zr_current t = None \<and> zr_written t = 0 \<and> attempt_ok (zr_config t) a" for a
    using that zr_retry_inv(1,2) zr_nak_inv by blast+
  show ?thesis
  proof (cases "zr_is_terminal s")
    case False
    have "zr_on_timeout s = (case zr_state t of
        AwaitHeader attempts \<Rightarrow> (zr_retry_receiver_init t attempts, Inr ())
      | AwaitSenderInitData _ attempts \<Rightarrow> (zr_nak_or_fail t attempts, Inr ())
      | AwaitMetadata _ attempts \<Rightarrow> (zr_nak_or_fail t attempts, Inr ())
      | AwaitDataHeader attempts \<Rightarrow> (zr_retry_receiver_position t attempts, Inr ())
      | AwaitData _ attempts \<Rightarrow> (zr_retry_receiver_position t attempts, Inr ())
      | AwaitEndOfFile attempts \<Rightarrow> (zr_retry_receiver_position t attempts, Inr ())
      | AwaitOverAndOut attempts \<Rightarrow> (zr_retry_finish t attempts, Inr ())
      | _ \<Rightarrow> (t, Inl InvalidState))"
      using False by (cases "zr_state s") (simp_all add: zr_on_timeout_def Let_def t_def)
    then show ?thesis
      using t facts pos idle by (cases "zr_state t") simp_all
  qed (simp add: zr_on_timeout_def assms)
qed

lemma zr_cancel_inv: "zr_inv k s \<Longrightarrow> zr_inv k (fst (zr_cancel s))"
  using zr_inv_base zr_base_write by (fastforce simp: zr_cancel_def)

lemma zr_next_inv:
  assumes inv: "zr_inv k s" and "zr_next_action s = (t, Some a)"
  shows "zr_inv (zr_contract k a) t"
proof -
  obtain rest where q: "zr_actions s = a # rest" and t: "t = s\<lparr>zr_actions := rest\<rparr>"
    using assms(2) by (auto simp: zr_next_action_def split: list.splits)
  have lev: "zr_level (zr_contract k a) t = zr_level k s"
    by (simp add: zr_level_def q t)
  have counts: "zr_counts t = zr_counts s" "zr_queue_ok s \<Longrightarrow> zr_queue_ok t"
    by (simp_all add: zr_counts_def zr_opened_def zr_open_bytes_def zr_queue_ok_def q t)
  have fields: "zr_state t = zr_state s" "zr_config t = zr_config s" "zr_current t = zr_current s"
    "zr_written t = zr_written s" "zr_file_index t = zr_file_index s"
    by (simp_all add: t)
  have "zr_base (zr_contract k a) t" "zr_at k s n \<Longrightarrow> zr_at (zr_contract k a) t n" for n
    using zr_inv_base [OF inv] counts lev by (simp_all add: zr_base_def zr_at_def fields)
  then show ?thesis using inv by (auto simp: zr_inv_def zr_is_terminal_def fields)
qed

lemma zr_new_inv: "zmodem_config_ok c \<Longrightarrow> zr_inv (Sink None) (zr_new c)"
  unfolding zr_new_def
  by (rule zr_send_init_inv [where n = 0])
    (simp_all add: zr_at_def zr_counts_def zr_opened_def zr_open_bytes_def zr_queue_ok_def zr_link_def
      zr_level_def attempt_ok_first)

inductive zr_run :: "zmodem_receiver \<times> zr_sink \<Rightarrow> zmodem_receiver \<times> zr_sink \<Rightarrow> bool" where
  zr_run_next: "zr_next_action s = (t, Some a) \<Longrightarrow> zr_run (s, k) (t, zr_contract k a)"
| zr_run_push: "zr_run (s, k) (fst (zr_push_serial_bytes s bs), k)"
| zr_run_accept: "zr_run (s, k) (fst (zr_accept_file s), k)"
| zr_run_skip: "zr_state s = AwaitAcceptance \<Longrightarrow> zr_actions s = [] \<Longrightarrow>
    zr_run (s, k) (fst (zr_skip_file s), zr_drop k)"
| zr_run_confirm: "zr_run (s, k) (fst (zr_confirm_file_write s n), k)"
| zr_run_timeout: "zr_run (s, k) (fst (zr_on_timeout s), k)"
| zr_run_cancel: "zr_run (s, k) (fst (zr_cancel s), k)"

definition zr_ok :: "zmodem_receiver \<times> zr_sink \<Rightarrow> bool" where
  "zr_ok p \<longleftrightarrow> zr_inv (snd p) (fst p)"

lemma zr_run_inv: "zr_run p q \<Longrightarrow> zr_ok p \<Longrightarrow> zr_ok q"
  unfolding zr_ok_def
  by (induction rule: zr_run.induct)
    (simp_all add: zr_next_inv zr_push_inv zr_accept_inv zr_skip_inv zr_confirm_inv zr_timeout_inv
      zr_cancel_inv)

interpretation zr: transition_system zr_run zr_ok
  by unfold_locales (rule zr_run_inv)

lemma zr_reach_inv:
  assumes "zmodem_config_ok c" and "zr_run\<^sup>*\<^sup>* (zr_new c, Sink None) (s, k)"
  shows "zr_inv k s"
  using zr.reach_inv [OF assms(2)] zr_new_inv [OF assms(1)] by (simp add: zr_ok_def)

lemma zr_inv_contract:
  assumes "zr_inv k s"
  shows "k \<noteq> Broken" and "zr_next_action s = (t, Some a) \<Longrightarrow> zr_contract k a \<noteq> Broken"
proof -
  have "k' \<noteq> Broken" if "zr_inv k' t" for k' t
    using zr_inv_base [OF that] zr_contract_absorbing(1) by (auto simp: zr_base_def zr_level_def)
  then show "k \<noteq> Broken" and "zr_next_action s = (t, Some a) \<Longrightarrow> zr_contract k a \<noteq> Broken"
    using assms zr_next_inv [OF assms] by blast+
qed

section \<open>Properties\<close>

text \<open>C2: In every state a ZMODEM receiver can reach, whatever bytes the peer sends, the invariant
  holds: at most 1024 files, every attempt counter within the retry limit, at most 512 queued
  actions, written and announced bytes within the size of the current file, whose name is safe;
  and the queued actions continue the adapter's pending file without ever breaking the contract.\<close>

theorem zmodem_receiver_invariant:
  assumes "zmodem_config_ok c" and "zr_run\<^sup>*\<^sup>* (zr_new c, Sink None) (s, k)"
  shows "zr_inv k s \<and> k \<noteq> Broken"
  using zr_reach_inv [OF assms] zr_inv_contract(1) by blast

theorem zmodem_receiver_invariant_witness:
  "zr_inv (Sink None) (fst (zr_cancel (zr_new default_zmodem_config))) \<and> Sink None \<noteq> Broken"
  by (rule zmodem_receiver_invariant [where c = default_zmodem_config])
    (simp_all add: r_into_rtranclp zr_run_cancel)

text \<open>A file is reported complete only when all of it was written: when an adapter that has
  executed all earlier actions takes a completion from the queue, its pending file is the one
  reported, was offered under a safe name, and the bytes it has written, each write starting
  where the last one ended, are exactly as many as its size.\<close>

theorem zmodem_receiver_completes_whole_files:
  assumes "zmodem_config_ok c" and "zr_run\<^sup>*\<^sup>* (zr_new c, Sink None) (s, k)" and "k \<noteq> Stopped"
    and "zr_next_action s = (t, Some (FileCompleted f))"
  shows "\<exists>m content. k = Sink (Some (zf_file_index f, m, content)) \<and>
    length content = zm_total_bytes m \<and> zf_total_bytes f = zm_total_bytes m \<and>
    zf_transferred_bytes f = zm_total_bytes m"
proof -
  have "zr_contract k (FileCompleted f) \<noteq> Broken"
    using zr_inv_contract(2) [OF zr_reach_inv [OF assms(1,2)] assms(4)] .
  then show ?thesis
    using assms(3) by (cases "(k, FileCompleted f)" rule: zr_contract.cases) (auto split: if_splits)
qed

text \<open>The answer of the receiver to an announced end of the file at a wrong place.\<close>

definition zr_position_answer :: "zmodem_receiver \<Rightarrow> zmodem_receiver_action" where
  "zr_position_answer s = zr_write_header (with_offset ReceiverPosition (of_nat (zr_written s)))"

definition wrong_end_of_file :: "zmodem_receiver \<Rightarrow> zmodem_decoded_header \<Rightarrow> bool" where
  "wrong_end_of_file s d \<longleftrightarrow>
     zh_frame_type (dh_header d) = EndOfFile \<and> unat (header_offset (dh_header d)) \<noteq> zr_written s"

definition zr_taken :: "zmodem_receiver \<Rightarrow> zmodem_receiver" where
  "zr_taken s = s\<lparr>zr_actions := []\<rparr>"

lemma wrong_end_of_file_step:
  assumes "wrong_end_of_file s d" and "zr_state s = AwaitDataHeader a" and "zr_current s = Some m"
    and "zr_written s < 2 ^ 32" and "1 < zc_retry_limit (zr_config s)"
    and "length (zr_actions s) < MAX_ZMODEM_PENDING_ACTIONS"
  shows "zr_handle_header s d =
     s\<lparr>zr_actions := zr_actions s @ [zr_position_answer s], zr_state := AwaitDataHeader 2\<rparr>"
  using assms
  by (simp add: wrong_end_of_file_def zr_handle_header_def Let_def zr_handle_end_of_file_def
      zr_retry_receiver_position_def zr_send_receiver_position_def zr_emit_def zr_position_answer_def)

text \<open>C28: A wrong end-of-file offset restarts the retry count: whatever count \<open>a\<close> the receiver had reached,
  each announcement of the end of the file at a wrong place is answered with the receiver's position
  and sets the count back to 2, whereas a data frame at a wrong place counts up; so a peer that goes
  on announcing wrong ends, each answer being taken, is answered for ever, and the retry limit never
  ends the exchange.\<close>

theorem zmodem_receiver_end_of_file_cycle:
  assumes "zr_inv k s" and "zr_state s = AwaitDataHeader a" and "ds \<noteq> []"
    and "\<forall>d \<in> set ds. wrong_end_of_file s d" and "1 < zc_retry_limit (zr_config s)"
  shows "fold (\<lambda>d s. zr_handle_header (zr_taken s) d) ds s =
     s\<lparr>zr_actions := [zr_position_answer s], zr_state := AwaitDataHeader 2\<rparr> \<and>
    (zh_frame_type (dh_header e) = Data \<longrightarrow> unat (header_offset (dh_header e)) \<noteq> zr_written s \<longrightarrow>
     a < zc_retry_limit (zr_config s) \<longrightarrow>
     zr_handle_header (zr_taken s) e = s\<lparr>zr_actions := [zr_position_answer s], zr_state := AwaitDataHeader (a + 1)\<rparr>)"
proof
  obtain m where cur: "zr_current s = Some m" and w: "zr_written s \<le> zm_total_bytes m"
    and at: "zr_at k s (zr_written s)"
    using zr_inv_facts(2) [OF assms(1), of a] assms(2) by auto
  have "zm_total_bytes m \<le> MAX_ZMODEM_FILE_BYTES"
    using at cur by (simp add: zr_at_def zr_counts_def zr_offer_ok_def)
  then have bound: "zr_written s < 2 ^ 32" using w by (simp add: MAX_ZMODEM_FILE_BYTES_def)
  have one: "zr_handle_header (zr_taken (s\<lparr>zr_actions := as, zr_state := AwaitDataHeader b\<rparr>)) d =
      s\<lparr>zr_actions := [zr_position_answer s], zr_state := AwaitDataHeader 2\<rparr>" if "wrong_end_of_file s d" for as b d
    using wrong_end_of_file_step [of "zr_taken (s\<lparr>zr_actions := as, zr_state := AwaitDataHeader b\<rparr>)" d b m]
      that cur bound assms(5)
    by (simp add: wrong_end_of_file_def zr_taken_def zr_position_answer_def MAX_ZMODEM_PENDING_ACTIONS_def)
  have "fold (\<lambda>d s. zr_handle_header (zr_taken s) d) ds (s\<lparr>zr_actions := as, zr_state := AwaitDataHeader b\<rparr>) =
      s\<lparr>zr_actions := [zr_position_answer s], zr_state := AwaitDataHeader 2\<rparr>" for as b
    using assms(3,4) by (induction ds arbitrary: as b rule: list_nonempty_induct) (simp_all add: one)
  then have "fold (\<lambda>d s. zr_handle_header (zr_taken s) d) ds
      (s\<lparr>zr_actions := zr_actions s, zr_state := AwaitDataHeader a\<rparr>) =
      s\<lparr>zr_actions := [zr_position_answer s], zr_state := AwaitDataHeader 2\<rparr>" .
  moreover have "s\<lparr>zr_actions := zr_actions s, zr_state := AwaitDataHeader a\<rparr> = s" using assms(2) by simp
  ultimately show "fold (\<lambda>d s. zr_handle_header (zr_taken s) d) ds s =
      s\<lparr>zr_actions := [zr_position_answer s], zr_state := AwaitDataHeader 2\<rparr>" by simp
  show "zh_frame_type (dh_header e) = Data \<longrightarrow> unat (header_offset (dh_header e)) \<noteq> zr_written s \<longrightarrow>
     a < zc_retry_limit (zr_config s) \<longrightarrow>
     zr_handle_header (zr_taken s) e = s\<lparr>zr_actions := [zr_position_answer s], zr_state := AwaitDataHeader (a + 1)\<rparr>"
    using assms(2) bound
    by (simp add: zr_handle_header_def Let_def zr_taken_def zr_retry_receiver_position_def
        zr_send_receiver_position_def zr_emit_def zr_position_answer_def MAX_ZMODEM_PENDING_ACTIONS_def)
qed

definition zr_example :: zmodem_receiver where
  "zr_example =
     \<lparr>zr_config = default_zmodem_config, zr_wire = zd_default, zr_state = AwaitDataHeader 5,
      zr_actions = [], zr_current = Some \<lparr>zm_file_name = [97], zm_total_bytes = 5,
        zm_modified_time = 0, zm_mode = 0, zm_files_remaining = None, zm_bytes_remaining = None\<rparr>,
      zr_file_index = 0, zr_written = 0, zr_completed_files = 0, zr_skipped_files = 0,
      zr_transferred_bytes = 0, zr_advertised_total_bytes = 5\<rparr>"

lemma zr_example_inv: "zr_inv (Sink (Some (0, the (zr_current zr_example), []))) zr_example"
proof -
  have "safe_file_name [97] \<and> str_len [97] \<le> MAX_ZMODEM_FILENAME_BYTES"
    by (simp add: safe_file_name_def lit_def is_control_def reserved_char_simps trim_def trim_end_def
        is_whitespace_def str_len_def utf8_def utf8_char_def MAX_ZMODEM_FILENAME_BYTES_def)
  then show ?thesis
    by (simp add: zr_inv_def zr_base_def zr_at_def zr_counts_def zr_queue_ok_def zr_level_def
        zr_link_def zr_opened_def zr_open_bytes_def zr_offer_ok_def zr_example_def attempt_ok_def
        default_zmodem_config_def [unfolded DEFAULT_ZMODEM_RETRY_LIMIT_def]
        default_zmodem_config_ok [unfolded default_zmodem_config_def [unfolded DEFAULT_ZMODEM_RETRY_LIMIT_def]]
        MAX_ZMODEM_BATCH_FILES_def MAX_ZMODEM_FILE_BYTES_def)
qed

theorem zmodem_receiver_end_of_file_cycle_witness:
  "fold (\<lambda>d s. zr_handle_header (zr_taken s) d)
     (replicate 100 \<lparr>dh_header = with_offset EndOfFile 7, dh_checksum = Crc16\<rparr>) zr_example =
   zr_example\<lparr>zr_actions := [zr_position_answer zr_example], zr_state := AwaitDataHeader 2\<rparr>"
proof -
  let ?d = "\<lparr>dh_header = with_offset EndOfFile 7, dh_checksum = Crc16\<rparr>"
  have d: "wrong_end_of_file zr_example ?d"
    by (simp add: wrong_end_of_file_def header_offset_with zr_example_def)
      (simp add: with_offset_def header_new_def)
  have state: "zr_state zr_example = AwaitDataHeader 5" "1 < zc_retry_limit (zr_config zr_example)"
    by (simp_all add: zr_example_def default_zmodem_config_def DEFAULT_ZMODEM_RETRY_LIMIT_def)
  from zmodem_receiver_end_of_file_cycle [OF zr_example_inv state(1), of "replicate 100 ?d"] d state(2)
  show ?thesis by simp
qed

end
