(* ===== verification/Serial_Transfers.thy ===== *)
theory Serial_Transfers
  imports Ymodem_Wire
begin

text \<open>
  \<^verbatim>\<open>SerialTransferRegistry\<close> and \<^verbatim>\<open>SerialTransferLease\<close> of
  \<^verbatim>\<open>crates/netcatty-serial/src/ymodem.rs\<close>: at most one file transfer owns a serial session.
  The mutex serialises the operations, so each is one step; a session id is its string; the token
  counter wraps at 64 bits as the atomic does.  Leases move by ownership: the state keeps the list
  of the leases that are alive, releasing or dropping one consumes it.
\<close>

section \<open>The registry\<close>

datatype serial_transfer_kind = YmodemSend | YmodemReceive | Zmodem

record transfer_owner =
  own_kind :: serial_transfer_kind
  own_token :: "64 word"

record transfer_registry =
  reg_owners :: "rstr \<rightharpoonup> transfer_owner"
  reg_next_token :: "64 word"

record transfer_lease =
  lease_session :: "rstr option"
  lease_token :: "64 word"

definition empty_registry :: transfer_registry where
  "empty_registry = \<lparr>reg_owners = (\<lambda>_. None), reg_next_token = 0\<rparr>"

definition try_acquire :: "transfer_registry \<Rightarrow> rstr \<Rightarrow> serial_transfer_kind \<Rightarrow>
    transfer_registry \<times> (ymodem_error + transfer_lease)" where
  "try_acquire reg session kind =
     (if reg_owners reg session \<noteq> None then (reg, Inl TransferBusy)
      else let token = reg_next_token reg
      in (\<lparr>reg_owners = (reg_owners reg)(session \<mapsto> \<lparr>own_kind = kind, own_token = token\<rparr>),
           reg_next_token = token + 1\<rparr>,
          Inr \<lparr>lease_session = Some session, lease_token = token\<rparr>))"

definition registry_owner :: "transfer_registry \<Rightarrow> rstr \<Rightarrow> serial_transfer_kind option" where
  "registry_owner reg session = map_option own_kind (reg_owners reg session)"

definition is_owned :: "transfer_registry \<Rightarrow> rstr \<Rightarrow> bool" where
  "is_owned reg session \<longleftrightarrow> registry_owner reg session \<noteq> None"

definition active_count :: "transfer_registry \<Rightarrow> nat" where
  "active_count reg = card (dom (reg_owners reg))"

definition release_inner :: "transfer_registry \<Rightarrow> transfer_lease \<Rightarrow> transfer_registry \<times> transfer_lease" where
  "release_inner reg lease =
     (case lease_session lease of
        None \<Rightarrow> (reg, lease)
      | Some session \<Rightarrow>
          (if map_option own_token (reg_owners reg session) = Some (lease_token lease)
           then reg\<lparr>reg_owners := (reg_owners reg)(session := None)\<rparr> else reg,
           lease\<lparr>lease_session := None\<rparr>))"

text \<open>\<^verbatim>\<open>release(mut self)\<close> releases and then drops the lease, which releases it again.\<close>

definition lease_drop :: "transfer_registry \<Rightarrow> transfer_lease \<Rightarrow> transfer_registry" where
  "lease_drop reg lease = fst (release_inner reg lease)"

definition lease_release :: "transfer_registry \<Rightarrow> transfer_lease \<Rightarrow> transfer_registry" where
  "lease_release reg lease = (let (reg, lease) = release_inner reg lease in lease_drop reg lease)"

section \<open>Runs\<close>

inductive transfer_step ::
    "transfer_registry \<times> transfer_lease list \<Rightarrow> transfer_registry \<times> transfer_lease list \<Rightarrow> bool" where
  acquired: "try_acquire reg session kind = (reg', Inr lease) \<Longrightarrow>
    transfer_step (reg, leases) (reg', lease # leases)"
| refused: "try_acquire reg session kind = (reg', Inl e) \<Longrightarrow>
    transfer_step (reg, leases) (reg', leases)"
| released: "transfer_step (reg, before @ lease # after) (lease_release reg lease, before @ after)"
| dropped: "transfer_step (reg, before @ lease # after) (lease_drop reg lease, before @ after)"

definition lease_key :: "transfer_lease \<Rightarrow> (rstr \<times> 64 word) option" where
  "lease_key lease = map_option (\<lambda>s. (s, lease_token lease)) (lease_session lease)"

definition owner_keys :: "transfer_registry \<Rightarrow> (rstr \<times> 64 word) set" where
  "owner_keys reg = {(s, t). map_option own_token (reg_owners reg s) = Some t}"

definition leases_inv :: "transfer_registry \<times> transfer_lease list \<Rightarrow> bool" where
  "leases_inv = (\<lambda>(reg, leases).
     distinct (map lease_key leases) \<and> Some ` owner_keys reg = set (map lease_key leases))"

lemma release_twice: "lease_release reg lease = lease_drop reg lease"
  by (simp add: lease_release_def lease_drop_def release_inner_def case_prod_beta split: option.split)

lemma owner_keys_release:
  assumes "lease_key lease = Some (s, t)"
  shows "owner_keys (lease_drop reg lease) = owner_keys reg - {(s, t)}"
proof -
  have l: "lease_session lease = Some s" "lease_token lease = t"
    using assms by (auto simp: lease_key_def)
  have uniq: "(s, t') \<in> owner_keys reg \<Longrightarrow> (s, t) \<in> owner_keys reg \<Longrightarrow> t' = t" for t'
    by (auto simp: owner_keys_def)
  show ?thesis
    using uniq by (auto simp: lease_drop_def release_inner_def l owner_keys_def split: if_splits)
qed

lemma drop_inv:
  assumes "leases_inv (reg, before @ lease # after)"
  shows "leases_inv (lease_drop reg lease, before @ after)"
proof -
  let ?keys = "map lease_key (before @ lease # after)"
  have d: "distinct ?keys" and k: "Some ` owner_keys reg = set ?keys"
    using assms by (simp_all only: leases_inv_def prod.case)
  have "lease_key lease \<in> Some ` owner_keys reg" by (simp add: k)
  then obtain s t where st: "lease_key lease = Some (s, t)" by auto
  have "Some ` owner_keys (lease_drop reg lease) = Some ` owner_keys reg - {Some (s, t)}"
    by (auto simp: owner_keys_release [OF st])
  also have "\<dots> = set (map lease_key (before @ after))"
    using d by (auto simp: k st)
  finally show ?thesis
    using d by (auto simp: leases_inv_def)
qed

lemma acquire_inv:
  assumes "leases_inv (reg, leases)" and acq: "try_acquire reg session kind = (reg', Inr lease)"
  shows "leases_inv (reg', lease # leases)"
proof -
  have free: "reg_owners reg session = None"
    and reg': "reg_owners reg' = (reg_owners reg)(session \<mapsto> \<lparr>own_kind = kind, own_token = reg_next_token reg\<rparr>)"
    and l: "lease_key lease = Some (session, reg_next_token reg)"
    using acq by (auto simp: try_acquire_def lease_key_def Let_def split: if_splits)
  have keys: "owner_keys reg' = insert (session, reg_next_token reg) (owner_keys reg)"
    using free by (auto simp: owner_keys_def reg' split: if_splits)
  have "(session, reg_next_token reg) \<notin> owner_keys reg"
    using free by (simp add: owner_keys_def)
  then have "lease_key lease \<notin> set (map lease_key leases)"
    using assms(1) by (auto simp: leases_inv_def l)
  then show ?thesis
    using assms(1) by (auto simp: leases_inv_def keys l)
qed

interpretation transfers: transition_system transfer_step leases_inv
proof
  fix a b assume "transfer_step a b" "leases_inv a"
  then show "leases_inv b"
  proof (induction rule: transfer_step.induct)
    case (refused reg session kind reg' e leases)
    then have "reg' = reg" by (auto simp: try_acquire_def Let_def split: if_splits)
    with refused show ?case by simp
  qed (auto simp: release_twice acquire_inv drop_inv)
qed

lemma empty_inv: "leases_inv (empty_registry, [])"
  by (simp add: leases_inv_def owner_keys_def empty_registry_def)

section \<open>Properties\<close>

text \<open>Exclusive ownership: in every reachable state the leases that are alive and the entries
  of the registry correspond one to one, each by its session and token, so no two live leases
  are for the same session and the active count is the number of live leases.\<close>

theorem transfer_leases_exclusive:
  assumes "transfer_step\<^sup>*\<^sup>* (empty_registry, []) (reg, leases)"
  shows "(\<forall>i < length leases. \<forall>j < length leases.
      lease_session (leases ! i) = lease_session (leases ! j) \<longrightarrow> i = j) \<and>
    (\<forall>s. is_owned reg s \<longleftrightarrow> (\<exists>l \<in> set leases. lease_session l = Some s)) \<and>
    active_count reg = length leases"
proof -
  have inv: "leases_inv (reg, leases)"
    using assms empty_inv by (rule transfers.reach_inv)
  then have d: "distinct (map lease_key leases)" and k: "Some ` owner_keys reg = lease_key ` set leases"
    by (simp_all add: leases_inv_def)
  have mem: "\<exists>s. lease_session l = Some s \<and> (s, lease_token l) \<in> owner_keys reg" if "l \<in> set leases" for l
  proof -
    have "lease_key l \<in> Some ` owner_keys reg" using that by (simp add: k)
    then show ?thesis by (auto simp: lease_key_def)
  qed
  have inj: "i = j" if ij: "i < length leases" "j < length leases"
    "lease_session (leases ! i) = lease_session (leases ! j)" for i j
  proof -
    obtain s where "lease_session (leases ! i) = Some s" "(s, lease_token (leases ! i)) \<in> owner_keys reg"
      using mem [OF nth_mem [OF ij(1)]] by blast
    moreover obtain s' where "lease_session (leases ! j) = Some s'" "(s', lease_token (leases ! j)) \<in> owner_keys reg"
      using mem [OF nth_mem [OF ij(2)]] by blast
    ultimately have "lease_key (leases ! i) = lease_key (leases ! j)"
      using ij(3) by (auto simp: lease_key_def owner_keys_def)
    then show ?thesis
      using d ij by (auto simp: distinct_conv_nth)
  qed
  have owned: "is_owned reg s \<longleftrightarrow> (\<exists>l \<in> set leases. lease_session l = Some s)" for s
  proof
    assume "is_owned reg s"
    then obtain t where "(s, t) \<in> owner_keys reg"
      by (auto simp: is_owned_def registry_owner_def owner_keys_def)
    then have "Some (s, t) \<in> lease_key ` set leases" by (simp add: k [symmetric])
    then obtain l where "l \<in> set leases" "lease_key l = Some (s, t)" by auto
    then show "\<exists>l \<in> set leases. lease_session l = Some s" by (auto simp: lease_key_def)
  next
    assume "\<exists>l \<in> set leases. lease_session l = Some s"
    then show "is_owned reg s"
      using mem by (fastforce simp: is_owned_def registry_owner_def owner_keys_def)
  qed
  have "active_count reg = card (owner_keys reg)"
  proof -
    have "bij_betw fst (owner_keys reg) (dom (reg_owners reg))"
      by (auto simp: bij_betw_def inj_on_def owner_keys_def image_iff)
    then show ?thesis by (simp add: active_count_def bij_betw_same_card)
  qed
  also have "\<dots> = card (Some ` owner_keys reg)" by (simp add: card_image)
  also have "\<dots> = length leases"
    unfolding k using d distinct_card [of "map lease_key leases"] by simp
  finally show ?thesis using inj owned by blast
qed

theorem transfer_leases_exclusive_witness:
  "let s = lit ''a''; (reg, r) = try_acquire empty_registry s YmodemSend in
   case r of Inr lease \<Rightarrow> active_count reg = length [lease] | Inl _ \<Rightarrow> False"
proof -
  let ?s = "lit ''a''"
  obtain reg lease where acq: "try_acquire empty_registry ?s YmodemSend = (reg, Inr lease)"
    by (simp add: try_acquire_def empty_registry_def)
  then have "transfer_step\<^sup>*\<^sup>* (empty_registry, []) (reg, [lease])"
    by (intro r_into_rtranclp acquired)
  from transfer_leases_exclusive [OF this] acq show ?thesis by simp
qed

text \<open>Acquiring a session succeeds exactly when no live lease holds it, reports its kind, and
  releasing the lease makes the session free again and leaves every other session alone.\<close>

theorem transfer_acquire_release:
  "(snd (try_acquire reg s kind) = Inl TransferBusy \<longleftrightarrow> is_owned reg s) \<and>
   (case try_acquire reg s kind of
      (reg', Inl e) \<Rightarrow> reg' = reg \<and> is_owned reg s
    | (reg', Inr lease) \<Rightarrow>
        \<not> is_owned reg s \<and> registry_owner reg' s = Some kind \<and>
        \<not> is_owned (lease_release reg' lease) s \<and>
        reg_owners (lease_release reg' lease) = reg_owners reg)"
  by (auto simp: try_acquire_def is_owned_def registry_owner_def release_twice lease_drop_def
      release_inner_def Let_def fun_eq_iff split: option.splits)

end
