(* ===== verification/Serial_Config.thy ===== *)
theory Serial_Config
  imports Serial_Transfers
begin

text \<open>
  Settings of a serial port and their validation (\<^verbatim>\<open>crates/netcatty-serial/src/config.rs\<close>), and the
  error type of the serial runtime (\<^verbatim>\<open>runtime.rs\<close>) that carries the configuration errors.
\<close>

section \<open>Settings\<close>

definition DEFAULT_BAUD_RATE :: nat where "DEFAULT_BAUD_RATE = 115200"
definition MAX_SERIAL_PATH_BYTES :: nat where "MAX_SERIAL_PATH_BYTES = 1024"

datatype serial_parity = NoParity | Even | Odd | Mark | Space
datatype serial_flow_control = NoFlowControl | XonXoff | RtsCts
datatype serial_backspace_behavior = DefaultBackspace | CtrlH
datatype serial_data_bits = Five | Six | Seven | Eight
datatype serial_stop_bits = One | OnePointFive | Two

datatype serial_config_error =
    InvalidPath nat
  | InvalidBaudRate
  | InvalidDataBits
  | InvalidStopBits
  | UnsupportedParity serial_parity
  | UnsupportedStopBits serial_stop_bits

fun data_bits_value :: "serial_data_bits \<Rightarrow> nat" where
  "data_bits_value Five = 5"
| "data_bits_value Six = 6"
| "data_bits_value Seven = 7"
| "data_bits_value Eight = 8"

definition data_bits_try_from :: "nat \<Rightarrow> serial_config_error + serial_data_bits" where
  "data_bits_try_from v =
     (if v = 5 then Inr Five else if v = 6 then Inr Six else if v = 7 then Inr Seven
      else if v = 8 then Inr Eight else Inl InvalidDataBits)"

record serial_config =
  sc_path :: rstr
  sc_baud_rate :: nat
  sc_data_bits :: serial_data_bits
  sc_stop_bits :: serial_stop_bits
  sc_parity :: serial_parity
  sc_flow_control :: serial_flow_control
  sc_local_echo :: bool
  sc_line_mode :: bool
  sc_backspace_behavior :: serial_backspace_behavior

definition serial_config_validate :: "serial_config \<Rightarrow> serial_config_error + unit" where
  "serial_config_validate c =
     (if sc_path c = [] \<or> MAX_SERIAL_PATH_BYTES < str_len (sc_path c) \<or> list_ex is_control (sc_path c)
      then Inl (InvalidPath MAX_SERIAL_PATH_BYTES)
      else if sc_baud_rate c = 0 then Inl InvalidBaudRate
      else Inr ())"

definition serial_config_new :: "rstr \<Rightarrow> serial_config_error + serial_config" where
  "serial_config_new path =
     (let c = \<lparr>sc_path = path, sc_baud_rate = DEFAULT_BAUD_RATE, sc_data_bits = Eight,
        sc_stop_bits = One, sc_parity = NoParity, sc_flow_control = NoFlowControl,
        sc_local_echo = False, sc_line_mode = False, sc_backspace_behavior = DefaultBackspace\<rparr>
      in case serial_config_validate c of Inl e \<Rightarrow> Inl e | Inr _ \<Rightarrow> Inr c)"

definition validate_backend_support :: "serial_config \<Rightarrow> serial_config_error + unit" where
  "validate_backend_support c =
     (case serial_config_validate c of
        Inl e \<Rightarrow> Inl e
      | Inr _ \<Rightarrow>
          if sc_parity c = Mark \<or> sc_parity c = Space then Inl (UnsupportedParity (sc_parity c))
          else if sc_stop_bits c = OnePointFive then Inl (UnsupportedStopBits (sc_stop_bits c))
          else Inr ())"

section \<open>Errors of the runtime\<close>

datatype serial_error_kind =
    NotFound | Unavailable | AccessDeniedOrBusy | InvalidInput | TimedOutKind | Disconnected | Other

datatype serial_io_operation = OpenPort | ReadPort | WritePort | FlushPort | Enumerate

datatype serial_runtime_error =
    ConfigError serial_config_error
  | InvalidSessionId
  | InvalidTransferId
  | InvalidWindowSize nat
  | RuntimeInputTooLarge nat
  | InvalidInputEncoding
  | EncodedInputTooLarge nat
  | EventDataTooLarge nat
  | RuntimeUnavailable
  | RuntimeTaskFailed serial_io_operation
  | SessionNotFound
  | SessionClosing
  | CommandQueueFull nat
  | EventQueueFull nat
  | TransferEventQueueFull nat
  | TransferActive serial_transfer_kind
  | TransferNotActive
  | TransferCancelled
  | TransferWriteTooLarge nat
  | OpenTimeout nat
  | ConnectionFailed serial_error_kind
  | IoFailed serial_io_operation serial_error_kind
  | PortInventoryTooLarge nat
  | InvalidPortMetadata nat

text \<open>What the driver of a raw transfer receives.\<close>

datatype raw_event = RawData bytes | CancelRequested

section \<open>Facts\<close>

lemma data_bits_roundtrip: "data_bits_try_from (data_bits_value b) = Inr b"
  by (cases b) (simp_all add: data_bits_try_from_def)

lemma data_bits_value_of: "data_bits_try_from v = Inr b \<Longrightarrow> data_bits_value b = v"
  by (auto simp: data_bits_try_from_def split: if_splits)

lemma serial_config_new_supported:
  "serial_config_new path = Inr c \<Longrightarrow> validate_backend_support c = Inr () \<and> sc_path c = path"
  by (auto simp: serial_config_new_def validate_backend_support_def Let_def split: sum.splits)

end
