(* ===== verification/Zmodem_Names.thy ===== *)
theory Zmodem_Names
  imports Serial_Config Zmodem_Metadata
begin

text \<open>
  The names under which the native ZMODEM adapter stores received files
  (\<^verbatim>\<open>src-tauri/src/serial_zmodem.rs\<close>: \<^verbatim>\<open>validate_receive_name\<close>, \<^verbatim>\<open>unique_destination_name\<close>,
  \<^verbatim>\<open>truncate_utf8\<close>) and the adapter's error type.  \<^verbatim>\<open>std::path\<close> is modelled as it splits a path on
  Unix; on a validated name, which has no separator and no colon, every platform agrees.
  The theorems show that a valid name always has a next candidate, and that the candidates of
  different attempts are different.
\<close>

section \<open>Errors of the adapter\<close>

datatype native_file_operation =
  Select | Inspect | OpenFile | Seek | ReadFile | WriteOut | Flush | Metadata | Publish

datatype serial_zmodem_error =
    DialogFailed
  | SelectedPathInvalid
  | SelectedFileNotRegular
  | SelectedDestinationNotDirectory
  | SelectionTooLarge
  | SelectionBufferFull
  | DestinationExists
  | NativeFileFailed native_file_operation
  | Runtime serial_runtime_error
  | Protocol zmodem_error
  | ControlChannelClosed
  | SerialClosed
  | AdapterInvalidState

section \<open>Paths\<close>

datatype path_component = RootDir | CurDir | ParentDir | Normal rstr

definition path_components :: "rstr \<Rightarrow> path_component list" where
  "path_components p =
     (let pieces = split_on (\<lambda>c. c = 47) p in
      (if take 1 p = [47] then [RootDir] else if hd pieces = [46] then [CurDir] else []) @
      concat (map (\<lambda>s. if s = [] \<or> s = [46] then [] else if s = [46, 46] then [ParentDir] else [Normal s])
        pieces))"

definition path_is_absolute :: "rstr \<Rightarrow> bool" where
  "path_is_absolute p \<longleftrightarrow> take 1 p = [47]"

definition path_file_name :: "rstr \<Rightarrow> rstr option" where
  "path_file_name p =
     (case rev (path_components p) of Normal s # _ \<Rightarrow> Some s | _ \<Rightarrow> None)"

text \<open>\<^verbatim>\<open>rsplit_file_at_dot\<close> of the standard library: the last dot separates stem and extension, unless
  it is the first character.  \<open>before_last_dot\<close> is the stem of a name that has a dot.\<close>

definition before_last_dot :: "rstr \<Rightarrow> rstr" where
  "before_last_dot s = rev (tl (dropWhile (\<lambda>c. c \<noteq> 46) (rev s)))"

definition split_at_dot :: "rstr \<Rightarrow> rstr \<times> rstr option" where
  "split_at_dot s =
     (if s = [46, 46] \<or> 46 \<notin> set s \<or> before_last_dot s = [] then (s, None)
      else (before_last_dot s, Some (after_last 46 s)))"

definition path_file_stem :: "rstr \<Rightarrow> rstr option" where
  "path_file_stem p = map_option (fst \<circ> split_at_dot) (path_file_name p)"

definition path_extension :: "rstr \<Rightarrow> rstr option" where
  "path_extension p = Option.bind (path_file_name p) (snd \<circ> split_at_dot)"

definition MAX_UNIQUE_DESTINATION_ATTEMPTS :: nat where "MAX_UNIQUE_DESTINATION_ATTEMPTS = 10000"

section \<open>Receive names\<close>

definition validate_receive_name :: "rstr \<Rightarrow> serial_zmodem_error + unit" where
  "validate_receive_name file_name =
     (if file_name = [] \<or> MAX_ZMODEM_FILENAME_BYTES < str_len file_name then Inl SelectedPathInvalid
      else case sanitize_zmodem_filename file_name of
        Inl e \<Rightarrow> Inl (Protocol e)
      | Inr sanitized \<Rightarrow>
          if sanitized \<noteq> file_name \<or> path_is_absolute file_name \<or>
             \<not> (case path_components file_name of [Normal _] \<Rightarrow> True | _ \<Rightarrow> False)
          then Inl SelectedPathInvalid else Inr ())"

text \<open>\<^verbatim>\<open>str::is_char_boundary\<close>, \<^verbatim>\<open>&value[..end]\<close> at a boundary, and the loop that moves back to one.\<close>

fun is_char_boundary :: "rstr \<Rightarrow> nat \<Rightarrow> bool" where
  "is_char_boundary s 0 = True"
| "is_char_boundary [] (Suc n) = False"
| "is_char_boundary (c # s) (Suc n) =
     (length (utf8_char c) \<le> Suc n \<and> is_char_boundary s (Suc n - length (utf8_char c)))"

fun slice_to :: "rstr \<Rightarrow> nat \<Rightarrow> rstr" where
  "slice_to s 0 = []"
| "slice_to [] (Suc n) = []"
| "slice_to (c # s) (Suc n) = c # slice_to s (Suc n - length (utf8_char c))"

fun boundary_below :: "rstr \<Rightarrow> nat \<Rightarrow> nat" where
  "boundary_below s 0 = 0"
| "boundary_below s (Suc n) = (if is_char_boundary s (Suc n) then Suc n else boundary_below s n)"

definition truncate_utf8 :: "rstr \<Rightarrow> nat \<Rightarrow> rstr" where
  "truncate_utf8 v maximum_bytes =
     (if str_len v \<le> maximum_bytes then v
      else slice_to v (boundary_below v (min maximum_bytes (str_len v))))"

definition attempt_suffix :: "nat \<Rightarrow> rstr" where
  "attempt_suffix attempt = lit '' ('' @ show_radix 10 attempt @ lit '')''"

definition unique_destination_name :: "rstr \<Rightarrow> nat \<Rightarrow> serial_zmodem_error + rstr" where
  "unique_destination_name file_name attempt =
     bind_result (validate_receive_name file_name) (\<lambda>_.
     if attempt = 0 then Inr file_name
     else
       let stem = (case path_file_stem file_name of Some s \<Rightarrow> s | None \<Rightarrow> lit ''zmodem-received'');
           suffix = attempt_suffix attempt;
           extension = (case path_extension file_name of
               None \<Rightarrow> None
             | Some v \<Rightarrow> if MAX_ZMODEM_FILENAME_BYTES \<le> str_len v + str_len suffix + 2 then None
                         else Some v);
           extension_bytes = (case extension of None \<Rightarrow> 0 | Some v \<Rightarrow> str_len v + 1)
       in if MAX_ZMODEM_FILENAME_BYTES < str_len suffix + extension_bytes then Inl DestinationExists
          else
            let stem_budget = MAX_ZMODEM_FILENAME_BYTES - (str_len suffix + extension_bytes);
                truncated = truncate_utf8 stem stem_budget;
                base = (if truncated = [] then truncate_utf8 (lit ''zmodem'') stem_budget else truncated);
                candidate = (case extension of
                    Some v \<Rightarrow> base @ suffix @ [46] @ v
                  | None \<Rightarrow> base @ suffix)
            in bind_result (validate_receive_name candidate) (\<lambda>_. Inr candidate))"

section \<open>Facts\<close>

lemma path_components_safe:
  assumes "safe_file_name s"
  shows "path_components s = [Normal s]" and "\<not> path_is_absolute s"
proof -
  have "47 \<notin> set s" and ne: "s \<noteq> []" "s \<noteq> [46]" "s \<noteq> [46, 46]"
    using assms by (auto simp: safe_file_name_def reserved_char_simps lit_def)
  then have "split_on (\<lambda>c. c = 47) s = [s]" and "take 1 s \<noteq> [47]"
    by (auto simp: take_Suc hd_in_set intro!: split_on_absent split: if_splits)
      (metis hd_in_set)
  then show "path_components s = [Normal s]" "\<not> path_is_absolute s"
    using ne by (simp_all add: path_components_def path_is_absolute_def Let_def)
qed

lemma validate_receive_name_ok:
  "validate_receive_name s = Inr () \<longleftrightarrow> safe_file_name s \<and> str_len s \<le> MAX_ZMODEM_FILENAME_BYTES"
proof
  assume v: "validate_receive_name s = Inr ()"
  then have "sanitize_zmodem_filename s = Inr s" and "str_len s \<le> MAX_ZMODEM_FILENAME_BYTES"
    by (auto simp: validate_receive_name_def split: if_splits sum.splits)
  moreover from this(1) have "safe_file_name s"
    using clean_name_safe [OF zmodem_fallback_safe, of s] by (simp add: sanitize_zmodem_Inr)
  ultimately show "safe_file_name s \<and> str_len s \<le> MAX_ZMODEM_FILENAME_BYTES" by simp
next
  assume "safe_file_name s \<and> str_len s \<le> MAX_ZMODEM_FILENAME_BYTES"
  then show "validate_receive_name s = Inr ()"
    using safe_nonempty [of s]
    by (simp add: validate_receive_name_def sanitize_zmodem_safe_id path_components_safe)
qed

lemma path_parts_safe:
  assumes "safe_file_name s"
  shows "path_file_stem s = Some (fst (split_at_dot s))" and "path_extension s = snd (split_at_dot s)"
  by (simp_all add: path_file_stem_def path_extension_def path_file_name_def
      path_components_safe [OF assms])

subsection \<open>Truncation at a character boundary\<close>

lemma boundary_below_ok:
  "is_char_boundary s (boundary_below s n)" "boundary_below s n \<le> n"
  by (induction s n rule: boundary_below.induct) auto

lemma slice_to_take: "\<exists>k. slice_to s n = take k s"
proof (induction s n rule: slice_to.induct)
  case (3 c s n)
  then obtain k where "slice_to s (Suc n - length (utf8_char c)) = take k s" by blast
  then have "slice_to (c # s) (Suc n) = take (Suc k) (c # s)" by simp
  then show ?case by blast
qed (auto intro: exI [of _ 0])

lemma slice_to_len: "is_char_boundary s n \<Longrightarrow> str_len (slice_to s n) = n"
  by (induction s n rule: slice_to.induct) (auto simp: str_len_Cons)

lemma truncate_utf8_prefix: "\<exists>k. truncate_utf8 v n = take k v"
  using slice_to_take [of v] by (auto simp: truncate_utf8_def intro: exI [of _ "length v"])

lemma truncate_utf8_len: "str_len (truncate_utf8 v n) \<le> n"
  using boundary_below_ok(2) [of v "min n (str_len v)"]
  by (auto simp: truncate_utf8_def slice_to_len boundary_below_ok(1) min_def)

lemma truncate_utf8_short: "str_len v \<le> n \<Longrightarrow> truncate_utf8 v n = v"
  by (simp add: truncate_utf8_def)

lemma str_len_truncate_le: "str_len (truncate_utf8 v n) \<le> str_len v"
proof -
  obtain k where "truncate_utf8 v n = take k v" using truncate_utf8_prefix by blast
  moreover have "str_len v = str_len (take k v) + str_len (drop k v)"
    by (simp flip: str_len_append)
  ultimately show ?thesis by simp
qed

subsection \<open>Stem, extension and suffix\<close>

lemma split_at_dot_some:
  assumes "split_at_dot s = (stem, Some ext)"
  shows "s = stem @ 46 # ext \<and> stem \<noteq> [] \<and> 46 \<notin> set ext"
proof -
  have "46 \<in> set s" "before_last_dot s = stem" "after_last 46 s = ext" "stem \<noteq> []"
    using assms by (auto simp: split_at_dot_def split: if_splits)
  moreover from this obtain a b where s: "s = a @ 46 # b" "46 \<notin> set b"
    by (metis split_list_last)
  moreover from this(2) have "dropWhile (\<lambda>c. c \<noteq> 46) (rev b @ 46 # rev a) = 46 # rev a"
    by (subst dropWhile_stop) auto
  ultimately show ?thesis
    by (auto simp: before_last_dot_def after_last_app)
qed

lemma split_at_dot_none: "split_at_dot s = (stem, None) \<Longrightarrow> stem = s"
  by (simp add: split_at_dot_def split: if_splits)

lemma attempt_suffix_chars: "c \<in> set (attempt_suffix n) \<Longrightarrow> 32 \<le> c \<and> c < 58"
  using show_radix_digits [of 10 n] by (fastforce simp: attempt_suffix_def lit_def)

lemma attempt_suffix_eq: "attempt_suffix n = [32, 40] @ show_radix 10 n @ [41]"
  by (simp add: attempt_suffix_def lit_def)

lemma attempt_suffix_len: "str_len (attempt_suffix n) = length (show_radix 10 n) + 3"
proof -
  have "\<forall>c \<in> set (attempt_suffix n). c < 0x80" using attempt_suffix_chars by fastforce
  then show ?thesis by (simp add: str_len_ascii attempt_suffix_eq)
qed

lemma attempt_suffix_inj:
  assumes "a @ attempt_suffix n = b @ attempt_suffix m" and "n \<le> U64_MAX" and "m \<le> U64_MAX"
  shows "n = m"
proof -
  have last40: "after_last 40 (x @ attempt_suffix k) = show_radix 10 k @ [41]" for x k
  proof -
    have "40 \<notin> set (show_radix 10 k @ [41])" using show_radix_digits [of 10 k] by auto
    then show ?thesis
      using after_last_app [of 40 "show_radix 10 k @ [41]" "x @ [32]"] by (simp add: attempt_suffix_eq)
  qed
  have "show_radix 10 n @ [41] = show_radix 10 m @ [41]"
    using last40 [of a n] last40 [of b m] assms(1) by simp
  then show ?thesis using show_radix_inj assms(2,3) by simp
qed

definition plain_char :: "uchar \<Rightarrow> bool" where
  "plain_char c \<longleftrightarrow> c \<in> {32, 40, 41, 46} \<or> 48 \<le> c \<and> c < 58 \<or> 97 \<le> c \<and> c \<le> 122"

lemma plain_char_clean: "plain_char c \<Longrightarrow> \<not> is_control c \<and> \<not> reserved_char c"
  unfolding plain_char_def is_control_def reserved_char_simps insert_iff empty_iff by presburger

lemma trim_id: "t \<noteq> [] \<Longrightarrow> \<not> is_whitespace (hd t) \<Longrightarrow> \<not> is_whitespace (last t) \<Longrightarrow> trim t = t"
  using trim_end_snoc [of "butlast t" "last t"] by (simp add: trim_def dropWhile_id)

lemma safe_ends:
  assumes "safe_file_name s"
  shows "\<not> is_whitespace (hd s)" and "\<not> is_whitespace (last s)"
proof -
  have s: "s \<noteq> []" "trim s = s" using assms by (simp_all add: safe_file_name_def)
  have "trim_end s = s" using s(2) trim_end_idem [of "dropWhile is_whitespace s"] by (simp add: trim_def)
  then show "\<not> is_whitespace (last s)"
    using s(1) dropWhile_hd [of is_whitespace "rev s"]
    by (metis hd_rev rev_is_Nil_conv rev_swap trim_end_def)
  have "length (trim s) \<le> length (dropWhile is_whitespace s)"
    by (metis trim_def trim_end_def dropWhile_length_le length_rev)
  then have "dropWhile is_whitespace s = s"
    using s(2) by (metis append.left_neutral append_eq_append_conv dropWhile_length_le
        le_antisym length_append takeWhile_dropWhile_id add_cancel_left_left length_0_conv)
  then show "\<not> is_whitespace (hd s)" using s(1) dropWhile_hd [of is_whitespace s] by auto
qed

lemma safe_parts:
  assumes "safe_file_name s" and "\<And>c. c \<in> set t \<Longrightarrow> c \<in> set s \<or> plain_char c"
    and "t \<noteq> []" and "\<not> is_whitespace (hd t)" and "\<not> is_whitespace (last t)" and "40 \<in> set t"
  shows "safe_file_name t"
proof -
  have "\<not> is_control c \<and> \<not> reserved_char c" if "c \<in> set t" for c
    using assms(2) [OF that] assms(1) plain_char_clean unfolding safe_file_name_def by blast
  then show ?thesis
    using assms(3,6) trim_id [OF assms(3,4,5)] by (auto simp: safe_file_name_def lit_def)
qed

definition destination_tail :: "rstr \<Rightarrow> nat \<Rightarrow> rstr" where
  "destination_tail f n =
     (case path_extension f of
        None \<Rightarrow> []
      | Some v \<Rightarrow> if 255 \<le> str_len v + str_len (attempt_suffix n) + 2 then [] else 46 # v)"

definition destination_base :: "rstr \<Rightarrow> nat \<Rightarrow> rstr" where
  "destination_base f n =
     (let budget = 255 - (str_len (attempt_suffix n) + str_len (destination_tail f n));
          t = truncate_utf8 (fst (split_at_dot f)) budget
      in if t = [] then truncate_utf8 (lit ''zmodem'') budget else t)"

lemma str_len_dot: "str_len (46 # v) = str_len v + 1"
  by (simp add: str_len_Cons utf8_char_def)

lemma unique_destination_form:
  assumes f: "validate_receive_name f = Inr ()" and n: "n \<noteq> 0"
    and len: "str_len (attempt_suffix n) \<le> 255"
    and c: "validate_receive_name (destination_base f n @ attempt_suffix n @ destination_tail f n) = Inr ()"
  shows "unique_destination_name f n =
    Inr (destination_base f n @ attempt_suffix n @ destination_tail f n)"
proof -
  have stem: "path_file_stem f = Some (fst (split_at_dot f))"
    using f path_parts_safe(1) by (simp add: validate_receive_name_ok)
  define extension where "extension = (case path_extension f of None \<Rightarrow> None
    | Some v \<Rightarrow> if MAX_ZMODEM_FILENAME_BYTES \<le> str_len v + str_len (attempt_suffix n) + 2 then None
         else Some v)"
  have tail: "destination_tail f n = (case extension of None \<Rightarrow> [] | Some v \<Rightarrow> 46 # v)"
    by (simp add: extension_def destination_tail_def MAX_ZMODEM_FILENAME_BYTES_def split: option.split)
  then have bytes: "(case extension of None \<Rightarrow> 0 | Some v \<Rightarrow> str_len v + 1) = str_len (destination_tail f n)"
    by (simp add: str_len_dot split: option.split)
  have fits: "\<not> MAX_ZMODEM_FILENAME_BYTES < str_len (attempt_suffix n) + str_len (destination_tail f n)"
    using len by (auto simp: tail str_len_dot MAX_ZMODEM_FILENAME_BYTES_def extension_def
        split: option.splits if_splits)
  have cand: "(case extension of Some v \<Rightarrow> b @ attempt_suffix n @ [46] @ v | None \<Rightarrow> b @ attempt_suffix n)
      = b @ attempt_suffix n @ destination_tail f n" for b
    by (simp add: tail split: option.split)
  have base: "(if truncate_utf8 (fst (split_at_dot f)) (MAX_ZMODEM_FILENAME_BYTES -
        (str_len (attempt_suffix n) + str_len (destination_tail f n))) = []
      then truncate_utf8 (lit ''zmodem'') (MAX_ZMODEM_FILENAME_BYTES -
        (str_len (attempt_suffix n) + str_len (destination_tail f n)))
      else truncate_utf8 (fst (split_at_dot f)) (MAX_ZMODEM_FILENAME_BYTES -
        (str_len (attempt_suffix n) + str_len (destination_tail f n)))) = destination_base f n"
    by (simp add: destination_base_def MAX_ZMODEM_FILENAME_BYTES_def Let_def)
  show ?thesis
    using n unfolding unique_destination_name_def bind_result_def f stem
    by (simp only: sum.case option.case Let_def if_False extension_def [symmetric] bytes fits base cand c)
qed

lemma ascii_boundary: "\<forall>c \<in> set v. c < 0x80 \<Longrightarrow> is_char_boundary v n \<longleftrightarrow> n \<le> length v"
  by (induction v n rule: is_char_boundary.induct) (auto simp: utf8_char_def)

lemma ascii_boundary_below: "\<forall>c \<in> set v. c < 0x80 \<Longrightarrow> n \<le> length v \<Longrightarrow> boundary_below v n = n"
  by (cases n) (simp_all add: ascii_boundary)

lemma ascii_slice: "\<forall>c \<in> set v. c < 0x80 \<Longrightarrow> slice_to v n = take n v"
  by (induction v n rule: slice_to.induct) (auto simp: utf8_char_def)

lemma truncate_ascii: "\<forall>c \<in> set v. c < 0x80 \<Longrightarrow> truncate_utf8 v n = take n v"
  by (simp add: truncate_utf8_def str_len_ascii ascii_boundary_below ascii_slice)

lemma take_zmodem: "truncate_utf8 (lit ''zmodem'') n = take n (lit ''zmodem'')"
  by (rule truncate_ascii) (simp add: lit_def)

lemma destination_budget:
  assumes "str_len (attempt_suffix n) \<le> 100"
  shows "str_len (attempt_suffix n) + str_len (destination_tail f n) \<le> 253"
  using assms by (auto simp: destination_tail_def str_len_dot split: option.split)

lemma destination_base_facts:
  assumes "str_len (attempt_suffix n) \<le> 100"
  shows "destination_base f n \<noteq> []"
    and "str_len (destination_base f n @ attempt_suffix n @ destination_tail f n) \<le> 255"
    and "c \<in> set (destination_base f n) \<Longrightarrow> c \<in> set (fst (split_at_dot f)) \<or> plain_char c"
    and "hd (destination_base f n) = hd (fst (split_at_dot f)) \<or> hd (destination_base f n) = 122"
    and "str_len (destination_base f n) \<le> str_len (fst (split_at_dot f)) + 6"
proof -
  define budget where "budget = 255 - (str_len (attempt_suffix n) + str_len (destination_tail f n))"
  define stem where "stem = fst (split_at_dot f)"
  have b: "2 \<le> budget" using destination_budget [OF assms, of f] by (simp add: budget_def)
  obtain k where k: "truncate_utf8 stem budget = take k stem" using truncate_utf8_prefix by blast
  have base: "destination_base f n = (if take k stem = [] then take budget (lit ''zmodem'') else take k stem)"
    by (simp only: destination_base_def Let_def budget_def [symmetric] stem_def [symmetric] k take_zmodem)
  have z: "take budget (lit ''zmodem'') \<noteq> []" "hd (take budget (lit ''zmodem'')) = 122"
    "\<forall>c \<in> set (take budget (lit ''zmodem'')). plain_char c"
    "str_len (take budget (lit ''zmodem'')) \<le> 6"
    "str_len (take budget (lit ''zmodem'')) \<le> budget"
  proof -
    have p: "\<forall>c \<in> set (lit ''zmodem''). plain_char c" by (simp add: lit_def plain_char_def)
    have a: "\<forall>c \<in> set (take budget (lit ''zmodem'')). c < 0x80"
      by (auto dest!: in_set_takeD simp: lit_def)
    show "\<forall>c \<in> set (take budget (lit ''zmodem'')). plain_char c"
      using p by (auto dest: in_set_takeD)
    show "str_len (take budget (lit ''zmodem'')) \<le> 6"
      "str_len (take budget (lit ''zmodem'')) \<le> budget"
      by (simp_all add: str_len_ascii [OF a]) (simp add: lit_def)
    show "take budget (lit ''zmodem'') \<noteq> []" "hd (take budget (lit ''zmodem'')) = 122"
      using b by (simp_all add: lit_def take_Cons')
  qed
  have t: "str_len (take k stem) \<le> budget" "str_len (take k stem) \<le> str_len stem"
    using truncate_utf8_len [of stem budget] str_len_truncate_le [of stem budget] by (simp_all add: k)
  show "destination_base f n \<noteq> []" using z by (simp add: base)
  have "str_len (destination_base f n) \<le> budget" using z t by (simp add: base)
  then show "str_len (destination_base f n @ attempt_suffix n @ destination_tail f n) \<le> 255"
    using destination_budget [OF assms, of f] by (simp add: budget_def)
  show "c \<in> set (destination_base f n) \<Longrightarrow> c \<in> set (fst (split_at_dot f)) \<or> plain_char c"
    using z by (auto simp: base stem_def [symmetric] split: if_splits dest: in_set_takeD)
  show "hd (destination_base f n) = hd (fst (split_at_dot f)) \<or> hd (destination_base f n) = 122"
    using z by (cases k) (auto simp: base stem_def [symmetric])
  show "str_len (destination_base f n) \<le> str_len (fst (split_at_dot f)) + 6"
    using z t by (simp add: base stem_def [symmetric])
qed

lemma split_at_dot_cases:
  obtains "split_at_dot f = (f, None)"
  | stem v where "split_at_dot f = (stem, Some v)" "f = stem @ 46 # v" "stem \<noteq> []"
  using split_at_dot_some [of f] split_at_dot_none [of f] by (metis option.exhaust prod.exhaust)

lemma destination_valid:
  assumes f: "validate_receive_name f = Inr ()" and len: "str_len (attempt_suffix n) \<le> 100"
  shows "validate_receive_name (destination_base f n @ attempt_suffix n @ destination_tail f n) = Inr ()"
proof -
  let ?t = "destination_base f n @ attempt_suffix n @ destination_tail f n"
  note base = destination_base_facts [where f = f, OF len]
  have safe: "safe_file_name f" using f by (simp add: validate_receive_name_ok)
  have tail: "destination_tail f n = [] \<or> (\<exists>stem. f = stem @ destination_tail f n)"
  proof (cases f rule: split_at_dot_cases)
    case (2 stem v)
    then have "path_extension f = Some v" using path_parts_safe(2) [OF safe] by (metis snd_conv)
    then have "destination_tail f n = [] \<or> destination_tail f n = 46 # v"
      by (simp add: destination_tail_def)
    with 2(2) show ?thesis by metis
  qed (simp add: destination_tail_def path_parts_safe(2) [OF safe])
  then have parts: "set (destination_tail f n) \<subseteq> set f"
    "destination_tail f n \<noteq> [] \<Longrightarrow> last (destination_tail f n) = last f"
    by (metis empty_set empty_subsetI set_append Un_upper2, metis last_appendR)
  have "set (fst (split_at_dot f)) \<subseteq> set f \<and> hd (fst (split_at_dot f)) = hd f"
  proof (cases f rule: split_at_dot_cases)
    case (2 stem v)
    have "set stem \<subseteq> set f \<and> hd stem = hd f" using 2(3) unfolding 2(2) by auto
    then show ?thesis by (simp only: 2(1) fst_conv)
  qed simp
  then have stem: "set (fst (split_at_dot f)) \<subseteq> set f" "hd (fst (split_at_dot f)) = hd f"
    by simp_all
  have plain: "plain_char c" if "c \<in> set (attempt_suffix n)" for c
    using that show_radix_digits [of 10 n] by (auto simp: attempt_suffix_eq plain_char_def)
  have "c \<in> set f \<or> plain_char c" if inc: "c \<in> set ?t" for c
  proof -
    consider "c \<in> set (destination_base f n)" | "c \<in> set (attempt_suffix n)" | "c \<in> set (destination_tail f n)"
      using inc by auto
    then show ?thesis
    proof cases
      case 1
      then show ?thesis using base(3) [OF 1] stem(1) by blast
    next
      case 2
      then show ?thesis using plain by simp
    next
      case 3
      then show ?thesis using parts(1) by blast
    qed
  qed
  moreover have "\<not> is_whitespace (hd ?t)"
  proof -
    have "hd ?t = hd f \<or> hd ?t = 122" using base(1,4) unfolding stem(2) by simp
    moreover have "\<not> is_whitespace 122" by (simp add: is_whitespace_def)
    ultimately show ?thesis using safe_ends(1) [OF safe] by metis
  qed
  moreover have "\<not> is_whitespace (last ?t)"
  proof -
    have "last ?t = last f \<or> last ?t = 41"
      using parts(2) by (cases "destination_tail f n = []") (simp_all add: attempt_suffix_eq)
    moreover have "\<not> is_whitespace 41" by (simp add: is_whitespace_def)
    ultimately show ?thesis using safe_ends(2) [OF safe] by metis
  qed
  ultimately have "safe_file_name ?t"
    using safe by (intro safe_parts [OF safe]) (auto simp: attempt_suffix_eq)
  then show ?thesis
    using base(2) by (simp add: validate_receive_name_ok MAX_ZMODEM_FILENAME_BYTES_def)
qed

lemma attempt_suffix_bound: "n < MAX_UNIQUE_DESTINATION_ATTEMPTS \<Longrightarrow> str_len (attempt_suffix n) \<le> 7"
  using length_show_radix [of 10 n 4] by (simp add: attempt_suffix_len MAX_UNIQUE_DESTINATION_ATTEMPTS_def)

lemma unique_destination_eq:
  assumes "validate_receive_name f = Inr ()" and "n \<noteq> 0" and "n < MAX_UNIQUE_DESTINATION_ATTEMPTS"
  shows "unique_destination_name f n =
    Inr (destination_base f n @ attempt_suffix n @ destination_tail f n)"
  using attempt_suffix_bound [OF assms(3)]
  by (intro unique_destination_form assms destination_valid) simp_all

lemma unique_destination_Inr:
  assumes "validate_receive_name f = Inr ()" and "n < MAX_UNIQUE_DESTINATION_ATTEMPTS"
  shows "\<exists>c. unique_destination_name f n = Inr c"
  using assms unique_destination_eq [of f n]
  by (cases "n = 0") (simp_all add: unique_destination_name_def bind_result_def)

section \<open>Properties\<close>

text \<open>For a name that passed validation every attempt of the publication loop gets a candidate,
  the candidate passes validation again (one path component, cleaned, at most 255 bytes), attempt 0
  is the name itself, and a later attempt inserts its number between a non-empty base and the
  extension, which is kept unless it is so long that it cannot be.\<close>

theorem unique_destination_valid:
  assumes "validate_receive_name f = Inr ()" and "n < MAX_UNIQUE_DESTINATION_ATTEMPTS"
  shows "\<exists>c. unique_destination_name f n = Inr c \<and> validate_receive_name c = Inr () \<and>
    (if n = 0 then c = f
     else \<exists>base tail. c = base @ attempt_suffix n @ tail \<and> base \<noteq> [] \<and>
       (case path_extension f of
          None \<Rightarrow> tail = []
        | Some v \<Rightarrow> tail = 46 # v \<or> tail = [] \<and> 246 \<le> str_len v))"
proof (cases "n = 0")
  case True
  then show ?thesis using assms by (simp add: unique_destination_name_def bind_result_def)
next
  case False
  have s: "str_len (attempt_suffix n) \<le> 7" using assms(2) by (rule attempt_suffix_bound)
  then have "case path_extension f of None \<Rightarrow> destination_tail f n = []
      | Some v \<Rightarrow> destination_tail f n = 46 # v \<or> destination_tail f n = [] \<and> 246 \<le> str_len v"
    by (simp add: destination_tail_def split: option.split)
  moreover have "destination_base f n \<noteq> []" using s by (intro destination_base_facts(1)) simp
  moreover have "validate_receive_name (destination_base f n @ attempt_suffix n @ destination_tail f n) = Inr ()"
    using s by (intro destination_valid assms) simp
  ultimately show ?thesis
    using False unique_destination_eq [OF assms(1) False assms(2)] by auto
qed

theorem unique_destination_valid_witness:
  "\<exists>c. unique_destination_name (lit ''a.b'') 1 = Inr c \<and> validate_receive_name c = Inr ()"
proof -
  have "validate_receive_name (lit ''a.b'') = Inr ()"
    by (simp add: validate_receive_name_ok safe_file_name_def lit_def is_control_def reserved_char_simps
        trim_def trim_end_def is_whitespace_def str_len_Cons utf8_char_def MAX_ZMODEM_FILENAME_BYTES_def)
  from unique_destination_valid [OF this, of 1] show ?thesis
    by (auto simp: MAX_UNIQUE_DESTINATION_ATTEMPTS_def)
qed

text \<open>The loop never tries a name twice: for one file the candidates of any two attempts after the
  first are different, also where the base had to be cut to fit or the extension was given up.\<close>

theorem unique_destination_distinct:
  assumes f: "validate_receive_name f = Inr ()" and n: "0 < n" "n < m" "m < MAX_UNIQUE_DESTINATION_ATTEMPTS"
  shows "unique_destination_name f n \<noteq> unique_destination_name f m"
proof
  assume eq: "unique_destination_name f n = unique_destination_name f m"
  have len: "str_len (attempt_suffix n) \<le> 7" "str_len (attempt_suffix m) \<le> 7"
    using n by (auto intro: attempt_suffix_bound)
  have same: "destination_base f n @ attempt_suffix n @ destination_tail f n =
      destination_base f m @ attempt_suffix m @ destination_tail f m"
    using eq n f by (simp add: unique_destination_eq)
  have max: "n \<le> U64_MAX" "m \<le> U64_MAX" using n by (simp_all add: MAX_UNIQUE_DESTINATION_ATTEMPTS_def)
  show False
  proof (cases "destination_tail f n = destination_tail f m")
    case True
    then have "n = m"
      using same attempt_suffix_inj [OF _ max, of "destination_base f n" "destination_base f m"] by simp
    then show False using n by simp
  next
    case False
    then obtain v where v: "path_extension f = Some v"
      and long: "240 \<le> str_len v"
      and one: "destination_tail f n = 46 # v \<and> destination_tail f m = [] \<or>
        destination_tail f n = [] \<and> destination_tail f m = 46 # v"
      using len by (auto simp: destination_tail_def split: option.splits if_splits)
    have safe: "safe_file_name f" "str_len f \<le> 255"
      using f by (simp_all add: validate_receive_name_ok MAX_ZMODEM_FILENAME_BYTES_def)
    then have "str_len (fst (split_at_dot f)) + 1 + str_len v \<le> 255"
      using v by (cases f rule: split_at_dot_cases) (auto simp: path_parts_safe str_len_dot)
    then have short: "str_len (destination_base f k) \<le> 20" if "str_len (attempt_suffix k) \<le> 100" for k
      using destination_base_facts(5) [OF that, of f] long by linarith
    have "str_len (destination_base f n @ attempt_suffix n @ destination_tail f n) =
        str_len (destination_base f m @ attempt_suffix m @ destination_tail f m)"
      by (simp only: same)
    then show False
      using one long len short [of n] short [of m] by (auto simp: str_len_dot)
  qed
qed

theorem unique_destination_distinct_witness:
  "unique_destination_name (lit ''a'') 1 \<noteq> unique_destination_name (lit ''a'') 2"
proof (rule unique_destination_distinct)
  show "validate_receive_name (lit ''a'') = Inr ()"
    by (simp add: validate_receive_name_ok safe_file_name_def lit_def is_control_def reserved_char_simps
        trim_def trim_end_def is_whitespace_def str_len_Cons utf8_char_def MAX_ZMODEM_FILENAME_BYTES_def)
qed (simp_all add: MAX_UNIQUE_DESTINATION_ATTEMPTS_def)

end
