(* ===== verification/Zmodem_Publish.thy ===== *)
theory Zmodem_Publish
  imports Zmodem_Names
begin

text \<open>
  How the native ZMODEM adapter stages and publishes a received file
  (\<^verbatim>\<open>src-tauri/src/serial_zmodem.rs\<close>: \<^verbatim>\<open>PendingReceiveFile::open\<close> and \<^verbatim>\<open>publish\<close>,
  \<^verbatim>\<open>PublishCancellation\<close>, \<^verbatim>\<open>PublishReceiveStage\<close>, \<^verbatim>\<open>wait_for_native_publish\<close>).  The blocking job, any
  number of cancelling tasks (the driver, the guard that fires when the future is dropped) and other
  processes run concurrently.  A world holds the atomic gate, the destination directory (names to
  file identities) and the program counters; an event executes one atomic operation or one system
  call of one party, so a list of events is an interleaving.  The flag of a job event says whether
  the operating system lets the call succeed.  Other processes may do anything to any name except the
  name that the job has published, and have no handle on the received file.
\<close>

section \<open>The gate between publication and cancellation\<close>

definition PUBLISH_OPEN :: byte where "PUBLISH_OPEN = 0"
definition PUBLISH_CANCELLED :: byte where "PUBLISH_CANCELLED = 1"
definition PUBLISH_COMMITTING :: byte where "PUBLISH_COMMITTING = 2"
definition PUBLISH_CANCEL_REQUESTED :: byte where "PUBLISH_CANCEL_REQUESTED = 3"
definition PUBLISH_COMMITTED :: byte where "PUBLISH_COMMITTED = 4"

lemmas gate_defs = PUBLISH_OPEN_def PUBLISH_CANCELLED_def PUBLISH_COMMITTING_def
  PUBLISH_CANCEL_REQUESTED_def PUBLISH_COMMITTED_def

lemma gate_distinct [simp]:
  "PUBLISH_OPEN \<noteq> PUBLISH_CANCELLED" "PUBLISH_OPEN \<noteq> PUBLISH_COMMITTING" "PUBLISH_OPEN \<noteq> PUBLISH_CANCEL_REQUESTED" "PUBLISH_OPEN \<noteq> PUBLISH_COMMITTED"
  "PUBLISH_CANCELLED \<noteq> PUBLISH_OPEN" "PUBLISH_CANCELLED \<noteq> PUBLISH_COMMITTING" "PUBLISH_CANCELLED \<noteq> PUBLISH_CANCEL_REQUESTED" "PUBLISH_CANCELLED \<noteq> PUBLISH_COMMITTED"
  "PUBLISH_COMMITTING \<noteq> PUBLISH_OPEN" "PUBLISH_COMMITTING \<noteq> PUBLISH_CANCELLED" "PUBLISH_COMMITTING \<noteq> PUBLISH_CANCEL_REQUESTED" "PUBLISH_COMMITTING \<noteq> PUBLISH_COMMITTED"
  "PUBLISH_CANCEL_REQUESTED \<noteq> PUBLISH_OPEN" "PUBLISH_CANCEL_REQUESTED \<noteq> PUBLISH_CANCELLED" "PUBLISH_CANCEL_REQUESTED \<noteq> PUBLISH_COMMITTING" "PUBLISH_CANCEL_REQUESTED \<noteq> PUBLISH_COMMITTED"
  "PUBLISH_COMMITTED \<noteq> PUBLISH_OPEN" "PUBLISH_COMMITTED \<noteq> PUBLISH_CANCELLED" "PUBLISH_COMMITTED \<noteq> PUBLISH_COMMITTING" "PUBLISH_COMMITTED \<noteq> PUBLISH_CANCEL_REQUESTED"
  by (simp_all add: gate_defs)

datatype publish_cancel_disposition = CancellationWon | CommitWon

text \<open>The match of \<^verbatim>\<open>request_cancel\<close>: the state to install, or the answer.\<close>

definition cancel_decision :: "byte \<Rightarrow> publish_cancel_disposition + byte" where
  "cancel_decision state =
     (if state = PUBLISH_OPEN then Inr PUBLISH_CANCELLED
      else if state = PUBLISH_COMMITTING then Inr PUBLISH_CANCEL_REQUESTED
      else if state = PUBLISH_CANCELLED \<or> state = PUBLISH_CANCEL_REQUESTED then Inl CancellationWon
      else if state = PUBLISH_COMMITTED then Inl CommitWon
      else Inl CancellationWon)"

text \<open>A task inside \<^verbatim>\<open>request_cancel\<close>: about to load, about to exchange what it loaded, or done.\<close>

datatype canceller = Idle | Loaded byte | Decided publish_cancel_disposition

definition request_cancel_step :: "byte \<Rightarrow> canceller \<Rightarrow> byte \<times> canceller" where
  "request_cancel_step gate task =
     (case task of
        Idle \<Rightarrow>
          (case cancel_decision gate of
             Inl answer \<Rightarrow> (gate, Decided answer)
           | Inr _ \<Rightarrow> (gate, Loaded gate))
      | Loaded state \<Rightarrow>
          (case cancel_decision state of
             Inl answer \<Rightarrow> (gate, Decided answer)
           | Inr new \<Rightarrow> if gate = state then (new, Decided CancellationWon) else (gate, Idle))
      | Decided answer \<Rightarrow> (gate, Decided answer))"

definition begin_commit :: "byte \<Rightarrow> byte \<times> bool" where
  "begin_commit gate =
     (if gate = PUBLISH_OPEN then (PUBLISH_COMMITTING, True) else (gate, False))"

definition finish_commit :: "byte \<Rightarrow> byte \<times> bool" where
  "finish_commit gate =
     (if gate = PUBLISH_COMMITTING then (PUBLISH_COMMITTED, True) else (gate, False))"

text \<open>The exchange of \<^verbatim>\<open>retry_after_name_conflict\<close>; where it finds a requested cancellation, the store
  that follows is a step of its own.\<close>

datatype retry_outcome = RetryNow | StoreCancelled | GiveUp

definition retry_after_name_conflict :: "byte \<Rightarrow> byte \<times> retry_outcome" where
  "retry_after_name_conflict gate =
     (if gate = PUBLISH_COMMITTING then (PUBLISH_OPEN, RetryNow)
      else if gate = PUBLISH_CANCEL_REQUESTED then (gate, StoreCancelled)
      else (gate, GiveUp))"

section \<open>The publication job\<close>

datatype publish_pc =
    FlushingFile
  | SyncingFile
  | SettingMetadata
  | SyncingMetadata
  | OpeningStage
  | Attempting nat
  | Linking nat rstr
  | RetryingName nat
  | StoringCancelled
  | CheckingLink rstr
  | UnlinkingStage rstr
  | SyncingDirectory rstr
  | FinishingCommit rstr
  | RollingBackName
  | RollingBackStage
  | RollingBackSync
  | FinishingCancelled "serial_zmodem_error option"
  | DroppingPending serial_zmodem_error
  | DroppingName serial_zmodem_error
  | DroppingStage serial_zmodem_error
  | Returned "serial_zmodem_error + rstr"

record publish_world =
  pw_gate :: byte
  pw_cancellers :: "nat \<Rightarrow> canceller"
  pw_directory :: "rstr \<rightharpoonup> nat"
  pw_file_name :: rstr
  pw_stage_name :: rstr
  pw_file :: nat
  pw_published_name :: "rstr option"
  pw_stage_present :: bool
  pw_pc :: publish_pc
  pw_drop_failed :: bool

abbreviation cancelled_error :: serial_zmodem_error where
  "cancelled_error \<equiv> Runtime TransferCancelled"

text \<open>\<^verbatim>\<open>Err(...)\<close> inside the job: the stage is dropped, which cleans up.\<close>

definition fail_publish :: "serial_zmodem_error \<Rightarrow> publish_world \<Rightarrow> publish_world" where
  "fail_publish e w = w\<lparr>pw_pc := DroppingName e\<rparr>"

definition try_candidate :: "nat \<Rightarrow> publish_world \<Rightarrow> publish_world" where
  "try_candidate attempt w =
     (if MAX_UNIQUE_DESTINATION_ATTEMPTS \<le> attempt then fail_publish DestinationExists w
      else case unique_destination_name (pw_file_name w) attempt of
        Inl e \<Rightarrow> fail_publish e w
      | Inr candidate \<Rightarrow>
          (case begin_commit (pw_gate w) of
             (gate, True) \<Rightarrow> w\<lparr>pw_gate := gate, pw_pc := Linking attempt candidate\<rparr>
           | (gate, False) \<Rightarrow> fail_publish cancelled_error (w\<lparr>pw_gate := gate\<rparr>)))"

text \<open>\<^verbatim>\<open>hard_link(stage, candidate)\<close> fails where the candidate exists or the stage is gone.\<close>

definition link_candidate :: "bool \<Rightarrow> nat \<Rightarrow> rstr \<Rightarrow> publish_world \<Rightarrow> publish_world" where
  "link_candidate ok attempt candidate w =
     (case pw_directory w (pw_stage_name w) of
        None \<Rightarrow> fail_publish (NativeFileFailed Publish) w
      | Some inode \<Rightarrow>
          if \<not> ok then fail_publish (NativeFileFailed Publish) w
          else if pw_directory w candidate \<noteq> None then w\<lparr>pw_pc := RetryingName attempt\<rparr>
          else w\<lparr>pw_directory := (pw_directory w)(candidate \<mapsto> inode),
                 pw_published_name := Some candidate, pw_pc := CheckingLink candidate\<rparr>)"

definition remove_file :: "bool \<Rightarrow> rstr \<Rightarrow> (rstr \<rightharpoonup> nat) \<Rightarrow> (rstr \<rightharpoonup> nat) option" where
  "remove_file ok name directory =
     (if ok \<and> directory name \<noteq> None then Some (directory(name := None)) else None)"

text \<open>A removal in a destructor: its result is ignored, and the model remembers a failing call.\<close>

definition drop_file :: "bool \<Rightarrow> rstr \<Rightarrow> publish_world \<Rightarrow> publish_world" where
  "drop_file ok name w =
     (case remove_file ok name (pw_directory w) of
        Some directory \<Rightarrow> w\<lparr>pw_directory := directory\<rparr>
      | None \<Rightarrow> w\<lparr>pw_drop_failed := pw_drop_failed w \<or> \<not> ok\<rparr>)"

definition publish_job :: "bool \<Rightarrow> publish_world \<Rightarrow> publish_world" where
  "publish_job ok w =
     (case pw_pc w of
        FlushingFile \<Rightarrow>
          w\<lparr>pw_pc := if ok then SyncingFile else DroppingPending (NativeFileFailed Flush)\<rparr>
      | SyncingFile \<Rightarrow>
          w\<lparr>pw_pc := if ok then SettingMetadata else DroppingPending (NativeFileFailed Flush)\<rparr>
      | SettingMetadata \<Rightarrow>
          if ok then w\<lparr>pw_pc := SyncingMetadata\<rparr> else fail_publish (NativeFileFailed Metadata) w
      | SyncingMetadata \<Rightarrow>
          if ok then w\<lparr>pw_pc := OpeningStage\<rparr> else fail_publish (NativeFileFailed Flush) w
      | OpeningStage \<Rightarrow>
          if ok \<and> pw_directory w (pw_stage_name w) = Some (pw_file w)
          then w\<lparr>pw_pc := Attempting 0\<rparr> else fail_publish (NativeFileFailed Inspect) w
      | Attempting attempt \<Rightarrow> try_candidate attempt w
      | Linking attempt candidate \<Rightarrow> link_candidate ok attempt candidate w
      | RetryingName attempt \<Rightarrow>
          (case retry_after_name_conflict (pw_gate w) of
             (gate, RetryNow) \<Rightarrow> w\<lparr>pw_gate := gate, pw_pc := Attempting (attempt + 1)\<rparr>
           | (gate, StoreCancelled) \<Rightarrow> w\<lparr>pw_gate := gate, pw_pc := StoringCancelled\<rparr>
           | (gate, GiveUp) \<Rightarrow> fail_publish cancelled_error (w\<lparr>pw_gate := gate\<rparr>))
      | StoringCancelled \<Rightarrow> fail_publish cancelled_error (w\<lparr>pw_gate := PUBLISH_CANCELLED\<rparr>)
      | CheckingLink candidate \<Rightarrow>
          if ok \<and> pw_directory w candidate = Some (pw_file w)
          then w\<lparr>pw_pc := UnlinkingStage candidate\<rparr>
          else fail_publish (NativeFileFailed Inspect) w
      | UnlinkingStage candidate \<Rightarrow>
          (case remove_file ok (pw_stage_name w) (pw_directory w) of
             None \<Rightarrow> fail_publish (NativeFileFailed Publish) w
           | Some directory \<Rightarrow>
               w\<lparr>pw_directory := directory, pw_stage_present := False,
                 pw_pc := SyncingDirectory candidate\<rparr>)
      | SyncingDirectory candidate \<Rightarrow>
          if ok then w\<lparr>pw_pc := FinishingCommit candidate\<rparr>
          else fail_publish (NativeFileFailed Publish) w
      | FinishingCommit candidate \<Rightarrow>
          (case finish_commit (pw_gate w) of
             (gate, True) \<Rightarrow> w\<lparr>pw_gate := gate, pw_pc := Returned (Inr candidate)\<rparr>
           | (gate, False) \<Rightarrow> w\<lparr>pw_gate := gate, pw_pc := RollingBackName\<rparr>)
      | RollingBackName \<Rightarrow>
          (case pw_published_name w of
             None \<Rightarrow> w\<lparr>pw_pc := RollingBackStage\<rparr>
           | Some name \<Rightarrow>
               (case remove_file ok name (pw_directory w) of
                  None \<Rightarrow> w\<lparr>pw_pc := FinishingCancelled (Some (NativeFileFailed Publish))\<rparr>
                | Some directory \<Rightarrow>
                    w\<lparr>pw_directory := directory, pw_published_name := None,
                      pw_pc := RollingBackStage\<rparr>))
      | RollingBackStage \<Rightarrow>
          if \<not> pw_stage_present w then w\<lparr>pw_pc := RollingBackSync\<rparr>
          else (case remove_file ok (pw_stage_name w) (pw_directory w) of
                  None \<Rightarrow> w\<lparr>pw_pc := FinishingCancelled (Some (NativeFileFailed Publish))\<rparr>
                | Some directory \<Rightarrow>
                    w\<lparr>pw_directory := directory, pw_stage_present := False,
                      pw_pc := RollingBackSync\<rparr>)
      | RollingBackSync \<Rightarrow>
          w\<lparr>pw_pc := FinishingCancelled (if ok then None else Some (NativeFileFailed Publish))\<rparr>
      | FinishingCancelled outcome \<Rightarrow>
          fail_publish (case outcome of Some e \<Rightarrow> e | None \<Rightarrow> cancelled_error)
            (w\<lparr>pw_gate := PUBLISH_CANCELLED\<rparr>)
      | DroppingPending e \<Rightarrow> (drop_file ok (pw_stage_name w) w)\<lparr>pw_pc := Returned (Inl e)\<rparr>
      | DroppingName e \<Rightarrow>
          (case pw_published_name w of
             None \<Rightarrow> w
           | Some name \<Rightarrow> (drop_file ok name w)\<lparr>pw_published_name := None\<rparr>)\<lparr>pw_pc := DroppingStage e\<rparr>
      | DroppingStage e \<Rightarrow>
          (if pw_stage_present w then drop_file ok (pw_stage_name w) w else w)
            \<lparr>pw_pc := Returned (Inl e)\<rparr>
      | Returned _ \<Rightarrow> w)"

section \<open>Interleavings\<close>

datatype publish_event =
    JobStep bool
  | CancelStep nat
  | OtherProcess rstr "nat option"

fun publish_step :: "publish_event \<Rightarrow> publish_world \<Rightarrow> publish_world" where
  "publish_step (JobStep ok) w = publish_job ok w"
| "publish_step (CancelStep i) w =
     (let (gate, task) = request_cancel_step (pw_gate w) (pw_cancellers w i)
      in w\<lparr>pw_gate := gate, pw_cancellers := (pw_cancellers w)(i := task)\<rparr>)"
| "publish_step (OtherProcess name inode) w =
     (if pw_published_name w = Some name \<or> inode = Some (pw_file w) then w
      else w\<lparr>pw_directory := (pw_directory w)(name := inode)\<rparr>)"

definition publish_run :: "publish_event list \<Rightarrow> publish_world \<Rightarrow> publish_world" where
  "publish_run events w = fold publish_step events w"

definition publish_start :: "rstr \<Rightarrow> rstr \<Rightarrow> nat \<Rightarrow> (rstr \<rightharpoonup> nat) \<Rightarrow> publish_world" where
  "publish_start file_name stage_name inode directory =
     \<lparr>pw_gate = PUBLISH_OPEN, pw_cancellers = (\<lambda>_. Idle), pw_directory = directory,
      pw_file_name = file_name, pw_stage_name = stage_name, pw_file = inode,
      pw_published_name = None, pw_stage_present = True, pw_pc = FlushingFile,
      pw_drop_failed = False\<rparr>"

section \<open>What the driver reports\<close>

datatype publish_interruption = UserCancelled | Interrupted serial_zmodem_error

definition cancellation_won_publish_result ::
    "serial_zmodem_error + 'a \<Rightarrow> serial_zmodem_error \<Rightarrow> serial_zmodem_error + 'a" where
  "cancellation_won_publish_result result interruption =
     (case result of
        Inl e \<Rightarrow> if e = cancelled_error then Inl interruption else Inl e
      | Inr _ \<Rightarrow> Inl AdapterInvalidState)"

definition committed_publish_interruption ::
    "serial_zmodem_error + 'a \<Rightarrow> serial_zmodem_error \<Rightarrow> serial_zmodem_error + 'a" where
  "committed_publish_interruption result interruption =
     (case result of Inr _ \<Rightarrow> Inl interruption | Inl e \<Rightarrow> Inl e)"

text \<open>\<^verbatim>\<open>wait_for_native_publish\<close>: undisturbed, or interrupted with the answer of \<^verbatim>\<open>request_cancel\<close>.  The
  flag says that a cancellation that came too late is kept for the next poll.\<close>

definition wait_for_native_publish ::
    "(publish_interruption \<times> publish_cancel_disposition) option \<Rightarrow> serial_zmodem_error + 'a \<Rightarrow>
       (serial_zmodem_error + 'a) \<times> bool" where
  "wait_for_native_publish disturbed result =
     (case disturbed of
        None \<Rightarrow> (result, False)
      | Some (UserCancelled, CommitWon) \<Rightarrow> (result, True)
      | Some (UserCancelled, CancellationWon) \<Rightarrow>
          (cancellation_won_publish_result result cancelled_error, False)
      | Some (Interrupted e, CommitWon) \<Rightarrow> (committed_publish_interruption result e, False)
      | Some (Interrupted e, CancellationWon) \<Rightarrow> (cancellation_won_publish_result result e, False))"

section \<open>The invariant\<close>

fun gate_states :: "publish_pc \<Rightarrow> byte set" where
  "gate_states (Linking _ _) = {PUBLISH_COMMITTING, PUBLISH_CANCEL_REQUESTED}"
| "gate_states (RetryingName _) = {PUBLISH_COMMITTING, PUBLISH_CANCEL_REQUESTED}"
| "gate_states (CheckingLink _) = {PUBLISH_COMMITTING, PUBLISH_CANCEL_REQUESTED}"
| "gate_states (UnlinkingStage _) = {PUBLISH_COMMITTING, PUBLISH_CANCEL_REQUESTED}"
| "gate_states (SyncingDirectory _) = {PUBLISH_COMMITTING, PUBLISH_CANCEL_REQUESTED}"
| "gate_states (FinishingCommit _) = {PUBLISH_COMMITTING, PUBLISH_CANCEL_REQUESTED}"
| "gate_states StoringCancelled = {PUBLISH_CANCEL_REQUESTED}"
| "gate_states RollingBackName = {PUBLISH_CANCEL_REQUESTED}"
| "gate_states RollingBackStage = {PUBLISH_CANCEL_REQUESTED}"
| "gate_states RollingBackSync = {PUBLISH_CANCEL_REQUESTED}"
| "gate_states (FinishingCancelled _) = {PUBLISH_CANCEL_REQUESTED}"
| "gate_states (DroppingPending e) = (if e = cancelled_error then {PUBLISH_CANCELLED} else
     {PUBLISH_OPEN, PUBLISH_CANCELLED, PUBLISH_COMMITTING, PUBLISH_CANCEL_REQUESTED})"
| "gate_states (DroppingName e) = (if e = cancelled_error then {PUBLISH_CANCELLED} else
     {PUBLISH_OPEN, PUBLISH_CANCELLED, PUBLISH_COMMITTING, PUBLISH_CANCEL_REQUESTED})"
| "gate_states (DroppingStage e) = (if e = cancelled_error then {PUBLISH_CANCELLED} else
     {PUBLISH_OPEN, PUBLISH_CANCELLED, PUBLISH_COMMITTING, PUBLISH_CANCEL_REQUESTED})"
| "gate_states (Returned (Inl e)) = (if e = cancelled_error then {PUBLISH_CANCELLED} else
     {PUBLISH_OPEN, PUBLISH_CANCELLED, PUBLISH_COMMITTING, PUBLISH_CANCEL_REQUESTED})"
| "gate_states (Returned (Inr _)) = {PUBLISH_COMMITTED}"
| "gate_states _ = {PUBLISH_OPEN, PUBLISH_CANCELLED}"

definition task_ok :: "byte \<Rightarrow> canceller \<Rightarrow> bool" where
  "task_ok gate task =
     (case task of
        Idle \<Rightarrow> True
      | Loaded state \<Rightarrow> state = PUBLISH_OPEN \<or> state = PUBLISH_COMMITTING
      | Decided CancellationWon \<Rightarrow> gate = PUBLISH_CANCELLED \<or> gate = PUBLISH_CANCEL_REQUESTED
      | Decided CommitWon \<Rightarrow> gate = PUBLISH_COMMITTED)"

definition gate_inv :: "publish_world \<Rightarrow> bool" where
  "gate_inv w \<longleftrightarrow> pw_gate w \<in> gate_states (pw_pc w) \<and> (\<forall>i. task_ok (pw_gate w) (pw_cancellers w i)) \<and>
     (pw_gate w = PUBLISH_CANCELLED \<or> pw_gate w = PUBLISH_CANCEL_REQUESTED \<longrightarrow>
       (\<exists>i. pw_cancellers w i = Decided CancellationWon))"

definition bound_name :: "publish_world \<Rightarrow> bool" where
  "bound_name w \<longleftrightarrow> (\<forall>c. pw_published_name w = Some c \<longrightarrow> pw_directory w c \<noteq> None)"

fun names_ok :: "publish_pc \<Rightarrow> publish_world \<Rightarrow> bool" where
  "names_ok (CheckingLink c) w \<longleftrightarrow>
     pw_published_name w = Some c \<and> pw_stage_present w \<and> c \<noteq> pw_stage_name w"
| "names_ok (UnlinkingStage c) w \<longleftrightarrow>
     pw_published_name w = Some c \<and> pw_stage_present w \<and> c \<noteq> pw_stage_name w \<and> pw_directory w c = Some (pw_file w)"
| "names_ok (SyncingDirectory c) w \<longleftrightarrow>
     pw_published_name w = Some c \<and> \<not> pw_stage_present w \<and> pw_directory w c = Some (pw_file w)"
| "names_ok (FinishingCommit c) w \<longleftrightarrow>
     pw_published_name w = Some c \<and> \<not> pw_stage_present w \<and> pw_directory w c = Some (pw_file w)"
| "names_ok RollingBackName w \<longleftrightarrow> \<not> pw_stage_present w"
| "names_ok RollingBackStage w \<longleftrightarrow> pw_published_name w = None \<and> \<not> pw_stage_present w"
| "names_ok RollingBackSync w \<longleftrightarrow> pw_published_name w = None \<and> \<not> pw_stage_present w"
| "names_ok (FinishingCancelled _) w \<longleftrightarrow> \<not> pw_stage_present w"
| "names_ok (DroppingName _) w \<longleftrightarrow> True"
| "names_ok (DroppingStage _) w \<longleftrightarrow> pw_published_name w = None"
| "names_ok (Returned (Inl _)) w \<longleftrightarrow> pw_published_name w = None"
| "names_ok (Returned (Inr c)) w \<longleftrightarrow>
     pw_published_name w = Some c \<and> \<not> pw_stage_present w \<and> pw_directory w c = Some (pw_file w)"
| "names_ok _ w \<longleftrightarrow> pw_published_name w = None \<and> pw_stage_present w"

text \<open>The names that lead to the received file, unless a removal in a destructor failed.\<close>

definition own_names_ok :: "publish_world \<Rightarrow> bool" where
  "own_names_ok w \<longleftrightarrow>
     (\<not> pw_drop_failed w \<longrightarrow> (\<forall>n. pw_directory w n = Some (pw_file w) \<longrightarrow>
        pw_published_name w = Some n \<or>
        pw_stage_present w \<and> n = pw_stage_name w \<and> (\<forall>e. pw_pc w \<noteq> Returned (Inl e)))) \<and>
     (pw_drop_failed w \<longrightarrow> (\<exists>e. pw_pc w = DroppingStage e \<or> pw_pc w = Returned (Inl e)))"

definition native_error :: "serial_zmodem_error \<Rightarrow> bool" where
  "native_error e \<longleftrightarrow> e = DestinationExists \<or> (\<exists>operation. e = NativeFileFailed operation)"

definition candidate_of :: "rstr \<Rightarrow> rstr \<Rightarrow> bool" where
  "candidate_of file_name c \<longleftrightarrow>
     (\<exists>n < MAX_UNIQUE_DESTINATION_ATTEMPTS. unique_destination_name file_name n = Inr c)"

fun progress_ok :: "rstr \<Rightarrow> publish_pc \<Rightarrow> bool" where
  "progress_ok f (Attempting n) \<longleftrightarrow> n \<le> MAX_UNIQUE_DESTINATION_ATTEMPTS"
| "progress_ok f (Linking n c) \<longleftrightarrow> n < MAX_UNIQUE_DESTINATION_ATTEMPTS \<and> candidate_of f c"
| "progress_ok f (RetryingName n) \<longleftrightarrow> n < MAX_UNIQUE_DESTINATION_ATTEMPTS"
| "progress_ok f (CheckingLink c) \<longleftrightarrow> candidate_of f c"
| "progress_ok f (UnlinkingStage c) \<longleftrightarrow> candidate_of f c"
| "progress_ok f (SyncingDirectory c) \<longleftrightarrow> candidate_of f c"
| "progress_ok f (FinishingCommit c) \<longleftrightarrow> candidate_of f c"
| "progress_ok f (FinishingCancelled r) \<longleftrightarrow> (\<forall>e. r = Some e \<longrightarrow> native_error e)"
| "progress_ok f (DroppingPending e) \<longleftrightarrow> e = cancelled_error \<or> native_error e"
| "progress_ok f (DroppingName e) \<longleftrightarrow> e = cancelled_error \<or> native_error e"
| "progress_ok f (DroppingStage e) \<longleftrightarrow> e = cancelled_error \<or> native_error e"
| "progress_ok f (Returned (Inl e)) \<longleftrightarrow> e = cancelled_error \<or> native_error e"
| "progress_ok f (Returned (Inr c)) \<longleftrightarrow> candidate_of f c"
| "progress_ok f _ \<longleftrightarrow> True"

definition publish_inv :: "publish_world \<Rightarrow> bool" where
  "publish_inv w \<longleftrightarrow> gate_inv w \<and> bound_name w \<and> names_ok (pw_pc w) w \<and> own_names_ok w \<and>
     progress_ok (pw_file_name w) (pw_pc w) \<and> validate_receive_name (pw_file_name w) = Inr ()"

lemmas job_defs = publish_job_def fail_publish_def try_candidate_def link_candidate_def
  remove_file_def drop_file_def begin_commit_def finish_commit_def retry_after_name_conflict_def

lemma job_frame [simp]:
  "pw_file_name (publish_job ok w) = pw_file_name w" "pw_stage_name (publish_job ok w) = pw_stage_name w"
  "pw_file (publish_job ok w) = pw_file w" "pw_cancellers (publish_job ok w) = pw_cancellers w"
  by (simp_all add: job_defs split: publish_pc.split option.split sum.split)

definition gate_change :: "byte \<Rightarrow> byte \<Rightarrow> bool" where
  "gate_change g h \<longleftrightarrow> h = g \<or> g = PUBLISH_OPEN \<and> h = PUBLISH_COMMITTING \<or>
     g = PUBLISH_COMMITTING \<and> (h = PUBLISH_OPEN \<or> h = PUBLISH_COMMITTED) \<or>
     g = PUBLISH_CANCEL_REQUESTED \<and> h = PUBLISH_CANCELLED"

lemma try_candidate_cases:
  assumes "validate_receive_name (pw_file_name w) = Inr ()" and "n \<le> MAX_UNIQUE_DESTINATION_ATTEMPTS"
  obtains "n = MAX_UNIQUE_DESTINATION_ATTEMPTS" "try_candidate n w = fail_publish DestinationExists w"
  | "pw_gate w \<noteq> PUBLISH_OPEN" "try_candidate n w = fail_publish cancelled_error w"
  | c where "n < MAX_UNIQUE_DESTINATION_ATTEMPTS" "pw_gate w = PUBLISH_OPEN"
      "unique_destination_name (pw_file_name w) n = Inr c"
      "try_candidate n w = w\<lparr>pw_gate := PUBLISH_COMMITTING, pw_pc := Linking n c\<rparr>"
proof (cases "n = MAX_UNIQUE_DESTINATION_ATTEMPTS")
  case False
  then obtain c where "unique_destination_name (pw_file_name w) n = Inr c" "n < MAX_UNIQUE_DESTINATION_ATTEMPTS"
    using unique_destination_Inr [OF assms(1), of n] assms(2) by force
  then show thesis
    using that(2,3) by (cases "pw_gate w = PUBLISH_OPEN") (simp_all add: try_candidate_def begin_commit_def)
qed (use that(1) in \<open>simp add: try_candidate_def\<close>)

lemma job_gate_change:
  assumes "pw_gate w \<in> gate_states (pw_pc w)" and "progress_ok (pw_file_name w) (pw_pc w)"
    and "validate_receive_name (pw_file_name w) = Inr ()"
  shows "gate_change (pw_gate w) (pw_gate (publish_job ok w)) \<and>
    pw_gate (publish_job ok w) \<in> gate_states (pw_pc (publish_job ok w))"
proof (cases "pw_pc w")
  case (Attempting n)
  then have "n \<le> MAX_UNIQUE_DESTINATION_ATTEMPTS" using assms(2) by simp
  with assms(3) show ?thesis
    using assms(1) by (cases rule: try_candidate_cases)
      (auto simp: Attempting publish_job_def fail_publish_def gate_change_def)
qed (use assms in \<open>auto simp: job_defs gate_change_def native_error_def
       split: option.splits sum.splits if_splits\<close>)

lemma gate_change_inv:
  assumes "gate_change g h" and "task_ok g task"
  shows "task_ok h task"
  using assms
  by (auto simp: gate_change_def task_ok_def split: canceller.splits publish_cancel_disposition.splits)

lemma job_gate:
  assumes "gate_inv w" and "progress_ok (pw_file_name w) (pw_pc w)"
    and "validate_receive_name (pw_file_name w) = Inr ()"
  shows "gate_inv (publish_job ok w)"
proof -
  have change: "gate_change (pw_gate w) (pw_gate (publish_job ok w))"
    and states: "pw_gate (publish_job ok w) \<in> gate_states (pw_pc (publish_job ok w))"
    using job_gate_change [OF _ assms(2,3), of ok] assms(1) by (simp_all add: gate_inv_def)
  then show ?thesis
    using assms(1) gate_change_inv [OF change]
    by (auto simp: gate_inv_def gate_change_def)
qed

lemma job_progress:
  assumes "validate_receive_name (pw_file_name w) = Inr ()" and "progress_ok (pw_file_name w) (pw_pc w)"
  shows "progress_ok (pw_file_name w) (pw_pc (publish_job ok w))"
proof (cases "pw_pc w")
  case (Attempting n)
  then have "n \<le> MAX_UNIQUE_DESTINATION_ATTEMPTS" using assms(2) by simp
  with assms(1) show ?thesis
    by (cases rule: try_candidate_cases)
      (auto simp: publish_job_def Attempting fail_publish_def native_error_def candidate_of_def)
qed (use assms in \<open>auto simp: job_defs native_error_def split: option.split\<close>)

lemma job_names:
  assumes "names_ok (pw_pc w) w" and "bound_name w"
  shows "names_ok (pw_pc (publish_job ok w)) (publish_job ok w) \<and> bound_name (publish_job ok w)"
proof (cases "pw_pc w")
  case (Returned r)
  then show ?thesis using assms by (simp add: publish_job_def)
next
  case (Linking n c)
  then show ?thesis
    using assms by (auto simp: job_defs bound_name_def split: option.split)
qed (use assms in \<open>simp_all add: job_defs bound_name_def split: option.split sum.split\<close>)

lemma job_own_names:
  assumes "names_ok (pw_pc w) w" and "own_names_ok w"
  shows "own_names_ok (publish_job ok w)"
proof (cases "pw_pc w")
  case (Returned r)
  then show ?thesis using assms by (simp add: publish_job_def)
qed (use assms in \<open>auto simp: job_defs own_names_ok_def split: option.split sum.split\<close>)

lemma job_inv:
  assumes "publish_inv w"
  shows "publish_inv (publish_job ok w)"
  using assms job_names [of w ok] job_own_names [of w ok] job_progress [of w ok] job_gate [of w ok]
  by (simp add: publish_inv_def)

lemma gate_states_known:
  "g \<in> gate_states pc \<Longrightarrow> g = PUBLISH_OPEN \<or> g = PUBLISH_CANCELLED \<or> g = PUBLISH_COMMITTING \<or>
     g = PUBLISH_CANCEL_REQUESTED \<or> g = PUBLISH_COMMITTED"
  by (cases rule: gate_states.cases [of pc]) (auto split: if_splits)

lemma cancelled_gate_states:
  "PUBLISH_OPEN \<in> gate_states pc \<Longrightarrow> PUBLISH_CANCELLED \<in> gate_states pc"
  "PUBLISH_COMMITTING \<in> gate_states pc \<Longrightarrow> PUBLISH_CANCEL_REQUESTED \<in> gate_states pc"
  by (cases rule: gate_states.cases [of pc]; auto split: if_splits)+

definition cancel_change :: "byte \<Rightarrow> byte \<Rightarrow> bool" where
  "cancel_change g h \<longleftrightarrow> g = PUBLISH_OPEN \<and> h = PUBLISH_CANCELLED \<or>
     g = PUBLISH_COMMITTING \<and> h = PUBLISH_CANCEL_REQUESTED"

lemma request_cancel_gate:
  assumes "request_cancel_step g t = (h, t')" and "task_ok g t" and "g \<in> gate_states pc"
  shows "(h = g \<or> cancel_change g h \<and> t' = Decided CancellationWon) \<and>
    task_ok h t' \<and> (\<forall>d. t = Decided d \<longrightarrow> t' = t)"
  using assms(1,2) gate_states_known [OF assms(3)]
  by (auto simp: request_cancel_step_def cancel_decision_def task_ok_def cancel_change_def
      split: canceller.splits sum.splits if_splits publish_cancel_disposition.splits)

lemma cancel_change_task: "cancel_change g h \<Longrightarrow> task_ok g t \<Longrightarrow> task_ok h t"
  by (auto simp: cancel_change_def task_ok_def split: canceller.splits publish_cancel_disposition.splits)

lemma cancel_inv:
  assumes "publish_inv w"
  shows "publish_inv (publish_step (CancelStep i) w)"
proof -
  obtain h t' where r: "request_cancel_step (pw_gate w) (pw_cancellers w i) = (h, t')" by force
  let ?w = "w\<lparr>pw_gate := h, pw_cancellers := (pw_cancellers w)(i := t')\<rparr>"
  have w: "publish_step (CancelStep i) w = ?w" by (simp add: r)
  have g: "gate_inv w" using assms by (simp add: publish_inv_def)
  then have gate: "pw_gate w \<in> gate_states (pw_pc w)" and tasks: "\<And>k. task_ok (pw_gate w) (pw_cancellers w k)"
    by (simp_all add: gate_inv_def)
  note step = request_cancel_gate [OF r tasks gate]
  have "h = pw_gate w \<or> cancel_change (pw_gate w) h" using step by blast
  then have "h \<in> gate_states (pw_pc w)" and "\<And>k. task_ok h (pw_cancellers w k)"
    using gate cancelled_gate_states cancel_change_task tasks by (auto simp: cancel_change_def)
  moreover have "h = PUBLISH_CANCELLED \<or> h = PUBLISH_CANCEL_REQUESTED \<Longrightarrow>
      \<exists>k. ((pw_cancellers w)(i := t')) k = Decided CancellationWon"
    using step g unfolding gate_inv_def by (metis fun_upd_apply)
  ultimately have "gate_inv ?w" using step by (simp add: gate_inv_def)
  moreover have "names_ok (pw_pc w) ?w = names_ok (pw_pc w) w"
    by (cases "(pw_pc w, w)" rule: names_ok.cases) simp_all
  ultimately show ?thesis
    using assms unfolding w by (simp add: publish_inv_def bound_name_def own_names_ok_def)
qed

lemma other_process_inv:
  assumes "publish_inv w"
  shows "publish_inv (publish_step (OtherProcess name inode) w)"
proof (cases "pw_published_name w = Some name \<or> inode = Some (pw_file w)")
  case False
  let ?w = "w\<lparr>pw_directory := (pw_directory w)(name := inode)\<rparr>"
  have "names_ok (pw_pc w) w \<Longrightarrow> names_ok (pw_pc w) ?w"
    using False by (cases "(pw_pc w, w)" rule: names_ok.cases) auto
  then show ?thesis
    using assms False by (auto simp: publish_inv_def bound_name_def own_names_ok_def gate_inv_def)
qed (use assms in simp)

lemma publish_step_inv: "publish_inv w \<Longrightarrow> publish_inv (publish_step ev w)"
  using job_inv cancel_inv other_process_inv by (cases ev) (simp_all only: publish_step.simps)

interpretation publishing: transition_system "\<lambda>w w'. \<exists>ev. w' = publish_step ev w" publish_inv
  by unfold_locales (auto intro: publish_step_inv)

lemma publish_run_reach: "(\<lambda>w w'. \<exists>ev. w' = publish_step ev w)\<^sup>*\<^sup>* w (publish_run evs w)"
proof (induction evs arbitrary: w)
  case (Cons ev evs)
  have "(\<lambda>w w'. \<exists>ev. w' = publish_step ev w)\<^sup>*\<^sup>* w (publish_step ev w)" by blast
  then show ?case using Cons [of "publish_step ev w"] by (simp add: publish_run_def)
qed (simp add: publish_run_def)

text \<open>The state in which a received file is handed to \<^verbatim>\<open>publish\<close>: under its stage name, and only there.\<close>

definition staged :: "rstr \<Rightarrow> rstr \<Rightarrow> nat \<Rightarrow> (rstr \<rightharpoonup> nat) \<Rightarrow> bool" where
  "staged file_name stage_name inode directory \<longleftrightarrow>
     validate_receive_name file_name = Inr () \<and>
     directory stage_name = Some inode \<and> (\<forall>n. directory n = Some inode \<longrightarrow> n = stage_name)"

lemma publish_run_inv:
  assumes "staged f stage inode directory"
  shows "publish_inv (publish_run evs (publish_start f stage inode directory))"
proof (rule publishing.reach_inv [OF publish_run_reach])
  show "publish_inv (publish_start f stage inode directory)"
    using assms by (auto simp: publish_inv_def publish_start_def gate_inv_def task_ok_def bound_name_def
        own_names_ok_def staged_def)
qed

lemma publish_step_frame:
  "pw_file_name (publish_step ev w) = pw_file_name w" "pw_stage_name (publish_step ev w) = pw_stage_name w"
  "pw_file (publish_step ev w) = pw_file w"
  by (cases ev; simp add: case_prod_beta Let_def)+

lemma publish_run_frame:
  "pw_file_name (publish_run evs w) = pw_file_name w \<and> pw_stage_name (publish_run evs w) = pw_stage_name w \<and>
   pw_file (publish_run evs w) = pw_file w"
  by (induction evs arbitrary: w) (simp_all add: publish_run_def publish_step_frame)

lemma publish_run_file: "pw_file (publish_run evs (publish_start f stage inode directory)) = inode"
  and publish_run_name: "pw_file_name (publish_run evs (publish_start f stage inode directory)) = f"
  and publish_run_stage: "pw_stage_name (publish_run evs (publish_start f stage inode directory)) = stage"
  using publish_run_frame [of evs "publish_start f stage inode directory"]
  by (simp_all add: publish_start_def)

text \<open>Steps that the job can still take.\<close>

fun job_measure :: "publish_pc \<Rightarrow> nat" where
  "job_measure FlushingFile = 30025"
| "job_measure SyncingFile = 30024"
| "job_measure SettingMetadata = 30023"
| "job_measure SyncingMetadata = 30022"
| "job_measure OpeningStage = 30021"
| "job_measure (Attempting n) = 3 * (MAX_UNIQUE_DESTINATION_ATTEMPTS - n) + 14"
| "job_measure (Linking n _) = 3 * (MAX_UNIQUE_DESTINATION_ATTEMPTS - n) + 13"
| "job_measure (RetryingName n) = 3 * (MAX_UNIQUE_DESTINATION_ATTEMPTS - n) + 12"
| "job_measure (CheckingLink _) = 12"
| "job_measure (UnlinkingStage _) = 11"
| "job_measure (SyncingDirectory _) = 10"
| "job_measure (FinishingCommit _) = 9"
| "job_measure RollingBackName = 8"
| "job_measure RollingBackStage = 7"
| "job_measure RollingBackSync = 6"
| "job_measure (FinishingCancelled _) = 5"
| "job_measure StoringCancelled = 5"
| "job_measure (DroppingPending _) = 1"
| "job_measure (DroppingName _) = 2"
| "job_measure (DroppingStage _) = 1"
| "job_measure (Returned _) = 0"

lemma job_measure_0: "job_measure pc = 0 \<longleftrightarrow> (\<exists>r. pc = Returned r)"
  by (cases pc) simp_all

lemma job_measure_step:
  assumes "publish_inv w"
  shows "job_measure (pw_pc (publish_job ok w)) \<le> job_measure (pw_pc w) - 1"
proof (cases "pw_pc w")
  case (Attempting n)
  then have "validate_receive_name (pw_file_name w) = Inr ()" "n \<le> MAX_UNIQUE_DESTINATION_ATTEMPTS"
    using assms by (simp_all add: publish_inv_def)
  then show ?thesis
    by (cases rule: try_candidate_cases) (simp_all add: publish_job_def Attempting fail_publish_def)
next
  case (RetryingName n)
  then have "n < MAX_UNIQUE_DESTINATION_ATTEMPTS" using assms by (simp add: publish_inv_def)
  then have "3 + 3 * (MAX_UNIQUE_DESTINATION_ATTEMPTS - Suc n) \<le> 3 * (MAX_UNIQUE_DESTINATION_ATTEMPTS - n)"
    by linarith
  then show ?thesis
    by (simp add: publish_job_def RetryingName retry_after_name_conflict_def fail_publish_def)
qed (use assms in \<open>simp_all add: job_defs publish_inv_def MAX_UNIQUE_DESTINATION_ATTEMPTS_def
       split: option.split\<close>)

definition job_steps :: "publish_event list \<Rightarrow> nat" where
  "job_steps evs = length (filter (\<lambda>ev. ev = JobStep True \<or> ev = JobStep False) evs)"

lemma publish_run_measure:
  "publish_inv w \<Longrightarrow> job_measure (pw_pc (publish_run evs w)) \<le> job_measure (pw_pc w) - job_steps evs"
proof (induction evs arbitrary: w)
  case (Cons ev evs)
  have "job_measure (pw_pc (publish_step ev w)) \<le> job_measure (pw_pc w) - job_steps [ev]"
  proof (cases ev)
    case (JobStep ok)
    then show ?thesis using job_measure_step [OF Cons.prems, of ok] by (simp add: job_steps_def)
  qed (simp_all add: job_steps_def case_prod_beta Let_def)
  moreover have "job_measure (pw_pc (publish_run (ev # evs) w)) \<le>
      job_measure (pw_pc (publish_step ev w)) - job_steps evs"
    using Cons.IH [OF publish_step_inv [OF Cons.prems], of ev] by (simp add: publish_run_def)
  moreover have "job_steps (ev # evs) = job_steps [ev] + job_steps evs" by (simp add: job_steps_def)
  ultimately show ?case by linarith
qed (simp add: publish_run_def job_steps_def)

text \<open>What the job does to a name that is neither the stage nor its own link.\<close>

lemma job_leaves_others:
  assumes "pw_directory w n = Some x" and "n \<noteq> pw_stage_name w" and "pw_published_name w \<noteq> Some n"
  shows "pw_directory (publish_job ok w) n = Some x \<and> pw_published_name (publish_job ok w) \<noteq> Some n"
  using assms
  by (cases "pw_pc w") (auto simp: job_defs split: option.splits sum.splits if_splits)

lemma publish_run_leaves_others:
  assumes "pw_directory w n = Some x" and "n \<noteq> pw_stage_name w" and "pw_published_name w \<noteq> Some n"
    and "\<forall>v. OtherProcess n v \<notin> set evs"
  shows "pw_directory (publish_run evs w) n = Some x"
  using assms
proof (induction evs arbitrary: w)
  case (Cons ev evs)
  have "pw_directory (publish_step ev w) n = Some x \<and> pw_published_name (publish_step ev w) \<noteq> Some n"
    using Cons.prems job_leaves_others [of w n x]
    by (cases ev) (auto simp: case_prod_beta Let_def)
  then show ?case
    using Cons.IH [of "publish_step ev w"] Cons.prems by (simp add: publish_run_def publish_step_frame)
qed (simp add: publish_run_def)

section \<open>Opening the stage\<close>

definition MAX_STAGE_ATTEMPTS :: nat where "MAX_STAGE_ATTEMPTS = 128"

datatype stage_pc =
    CheckingCancel nat
  | CreatingStage nat
  | CreatedStage rstr
  | DiscardingStage rstr
  | HandingOver rstr
  | StageReturned "serial_zmodem_error + rstr"

text \<open>\<open>sw_cancelled\<close> is the shared atomic flag, \<open>sw_file\<close> the identity of the file that is created.\<close>

record stage_world =
  sw_cancelled :: bool
  sw_directory :: "rstr \<rightharpoonup> nat"
  sw_file :: nat
  sw_pc :: stage_pc
  sw_drop_failed :: bool

definition drop_stage :: "bool \<Rightarrow> rstr \<Rightarrow> stage_world \<Rightarrow> stage_world" where
  "drop_stage ok name w =
     (case remove_file ok name (sw_directory w) of
        Some directory \<Rightarrow> w\<lparr>sw_directory := directory\<rparr>
      | None \<Rightarrow> w\<lparr>sw_drop_failed := sw_drop_failed w \<or> \<not> ok\<rparr>)"

text \<open>The names come from the generator of random UUIDs, a parameter.\<close>

definition stage_job :: "(nat \<Rightarrow> rstr) \<Rightarrow> bool \<Rightarrow> stage_world \<Rightarrow> stage_world" where
  "stage_job stage_names ok w =
     (case sw_pc w of
        CheckingCancel attempt \<Rightarrow>
          if MAX_STAGE_ATTEMPTS \<le> attempt then w\<lparr>sw_pc := StageReturned (Inl DestinationExists)\<rparr>
          else if sw_cancelled w then w\<lparr>sw_pc := StageReturned (Inl cancelled_error)\<rparr>
          else w\<lparr>sw_pc := CreatingStage attempt\<rparr>
      | CreatingStage attempt \<Rightarrow>
          if \<not> ok then w\<lparr>sw_pc := StageReturned (Inl (NativeFileFailed OpenFile))\<rparr>
          else if sw_directory w (stage_names attempt) \<noteq> None
          then w\<lparr>sw_pc := CheckingCancel (attempt + 1)\<rparr>
          else w\<lparr>sw_directory := (sw_directory w)(stage_names attempt \<mapsto> sw_file w),
                 sw_pc := CreatedStage (stage_names attempt)\<rparr>
      | CreatedStage name \<Rightarrow>
          w\<lparr>sw_pc := if sw_cancelled w then DiscardingStage name else HandingOver name\<rparr>
      | DiscardingStage name \<Rightarrow> (drop_stage ok name w)\<lparr>sw_pc := StageReturned (Inl cancelled_error)\<rparr>
      | HandingOver name \<Rightarrow>
          w\<lparr>sw_pc := if sw_cancelled w then DiscardingStage name else StageReturned (Inr name)\<rparr>
      | StageReturned _ \<Rightarrow> w)"

datatype stage_event =
    StageJob bool
  | StageCancel
  | StageOther rstr "nat option"

fun stage_step :: "(nat \<Rightarrow> rstr) \<Rightarrow> stage_event \<Rightarrow> stage_world \<Rightarrow> stage_world" where
  "stage_step stage_names (StageJob ok) w = stage_job stage_names ok w"
| "stage_step stage_names StageCancel w = w\<lparr>sw_cancelled := True\<rparr>"
| "stage_step stage_names (StageOther name inode) w =
     (if sw_directory w name = Some (sw_file w) \<or> inode = Some (sw_file w) then w
      else w\<lparr>sw_directory := (sw_directory w)(name := inode)\<rparr>)"

definition stage_start :: "rstr \<Rightarrow> nat \<Rightarrow> (rstr \<rightharpoonup> nat) \<Rightarrow> stage_world" where
  "stage_start file_name inode directory =
     \<lparr>sw_cancelled = False, sw_directory = directory, sw_file = inode,
      sw_pc = (case validate_receive_name file_name of
          Inl e \<Rightarrow> StageReturned (Inl e) | Inr _ \<Rightarrow> CheckingCancel 0),
      sw_drop_failed = False\<rparr>"

definition stage_run :: "(nat \<Rightarrow> rstr) \<Rightarrow> stage_event list \<Rightarrow> stage_world \<Rightarrow> stage_world" where
  "stage_run stage_names evs w = fold (stage_step stage_names) evs w"

text \<open>\<^verbatim>\<open>wait_for_native_stage_open\<close> interrupted: the flag is set, the job awaited, and what it returned is
  dropped.\<close>

definition abandon_stage :: "bool \<Rightarrow> stage_world \<Rightarrow> stage_world" where
  "abandon_stage ok w =
     (case sw_pc w of StageReturned (Inr name) \<Rightarrow> drop_stage ok name w | _ \<Rightarrow> w)"

text \<open>The names of the file that this transfer created.\<close>

definition owned :: "(rstr \<rightharpoonup> nat) \<Rightarrow> nat \<Rightarrow> rstr set" where
  "owned directory inode = {n. directory n = Some inode}"

fun stage_names_ok :: "stage_pc \<Rightarrow> stage_world \<Rightarrow> bool" where
  "stage_names_ok (CheckingCancel _) w \<longleftrightarrow> owned (sw_directory w) (sw_file w) = {}"
| "stage_names_ok (CreatingStage n) w \<longleftrightarrow>
     n < MAX_STAGE_ATTEMPTS \<and> owned (sw_directory w) (sw_file w) = {}"
| "stage_names_ok (CreatedStage name) w \<longleftrightarrow> owned (sw_directory w) (sw_file w) = {name}"
| "stage_names_ok (DiscardingStage name) w \<longleftrightarrow>
     sw_cancelled w \<and> owned (sw_directory w) (sw_file w) = {name}"
| "stage_names_ok (HandingOver name) w \<longleftrightarrow> owned (sw_directory w) (sw_file w) = {name}"
| "stage_names_ok (StageReturned (Inr name)) w \<longleftrightarrow> owned (sw_directory w) (sw_file w) = {name}"
| "stage_names_ok (StageReturned (Inl e)) w \<longleftrightarrow>
     (e = cancelled_error \<longrightarrow> sw_cancelled w) \<and>
     (\<not> sw_drop_failed w \<longrightarrow> owned (sw_directory w) (sw_file w) = {})"

definition stage_inv :: "stage_world \<Rightarrow> bool" where
  "stage_inv w \<longleftrightarrow> stage_names_ok (sw_pc w) w \<and>
     (sw_drop_failed w \<longrightarrow> (\<exists>e. sw_pc w = StageReturned (Inl e)))"

lemma owned_upd [simp]:
  "owned (m(n \<mapsto> x)) x = insert n (owned m x)"
  "owned (m(n := None)) x = owned m x - {n}"
  "m n \<noteq> Some x \<Longrightarrow> v \<noteq> Some x \<Longrightarrow> owned (m(n := v)) x = owned m x"
  by (auto simp: owned_def)

lemma owned_bound: "owned m x = {n} \<Longrightarrow> m n = Some x"
  by (auto simp: owned_def)

lemma stage_step_frame [simp]: "sw_file (stage_step stage_names ev w) = sw_file w"
  by (cases ev) (simp_all add: stage_job_def drop_stage_def split: stage_pc.split option.split)

lemma drop_stage_owned:
  assumes "owned (sw_directory w) (sw_file w) = {name}"
  shows "\<not> sw_drop_failed (drop_stage ok name w) \<Longrightarrow>
      owned (sw_directory (drop_stage ok name w)) (sw_file w) = {}"
    and "sw_file (drop_stage ok name w) = sw_file w" "sw_cancelled (drop_stage ok name w) = sw_cancelled w"
  using assms owned_bound [OF assms]
  by (auto simp: drop_stage_def remove_file_def split: option.splits if_splits)

lemma stage_job_inv:
  assumes "stage_inv w"
  shows "stage_inv (stage_job stage_names ok w)"
proof (cases "sw_pc w")
  case (DiscardingStage name)
  then show ?thesis
    using assms drop_stage_owned [of w name ok] by (simp add: stage_inv_def stage_job_def)
qed (use assms in \<open>simp_all add: stage_inv_def stage_job_def\<close>)

lemma stage_other_inv: "stage_inv w \<Longrightarrow> stage_inv (stage_step stage_names (StageOther name inode) w)"
  by (cases "(sw_pc w, w)" rule: stage_names_ok.cases) (simp_all add: stage_inv_def)

lemma stage_cancel_inv: "stage_inv w \<Longrightarrow> stage_inv (stage_step stage_names StageCancel w)"
  by (cases "(sw_pc w, w)" rule: stage_names_ok.cases) (simp_all add: stage_inv_def)

lemma stage_step_inv: "stage_inv w \<Longrightarrow> stage_inv (stage_step stage_names ev w)"
  using stage_job_inv stage_other_inv stage_cancel_inv by (cases ev) (simp_all only: stage_step.simps(1))

interpretation staging: transition_system "\<lambda>w w'. \<exists>ev. w' = stage_step stage_names ev w" stage_inv
  for stage_names
  by unfold_locales (auto intro: stage_step_inv)

lemma stage_run_reach: "(\<lambda>w w'. \<exists>ev. w' = stage_step stage_names ev w)\<^sup>*\<^sup>* w (stage_run stage_names evs w)"
proof (induction evs arbitrary: w)
  case (Cons ev evs)
  have "(\<lambda>w w'. \<exists>ev. w' = stage_step stage_names ev w)\<^sup>*\<^sup>* w (stage_step stage_names ev w)" by blast
  then show ?case using Cons [of "stage_step stage_names ev w"] by (simp add: stage_run_def)
qed (simp add: stage_run_def)

lemma stage_run_inv:
  assumes "inode \<notin> ran directory"
  shows "stage_inv (stage_run stage_names evs (stage_start f inode directory))"
proof (rule staging.reach_inv [OF stage_run_reach])
  have "owned directory inode = {}" using assms by (auto simp: owned_def ran_def)
  moreover have "validate_receive_name f \<noteq> Inl cancelled_error"
    by (auto simp: validate_receive_name_def split: sum.splits)
  ultimately show "stage_inv (stage_start f inode directory)"
    by (auto simp: stage_inv_def stage_start_def split: sum.split)
qed

lemma stage_run_file: "sw_file (stage_run stage_names evs w) = sw_file w"
  by (induction evs arbitrary: w) (simp_all add: stage_run_def)

lemma stage_run_returned:
  "sw_pc w = StageReturned r \<Longrightarrow> sw_pc (stage_run stage_names evs w) = StageReturned r"
proof (induction evs arbitrary: w)
  case (Cons ev evs)
  then have "sw_pc (stage_step stage_names ev w) = StageReturned r"
    by (cases ev) (simp_all add: stage_job_def)
  with Cons.IH show ?case by (simp add: stage_run_def)
qed (simp add: stage_run_def)

lemma stage_keeps:
  assumes "sw_directory w n = Some x" and "x \<noteq> sw_file w" and "stage_inv w"
  shows "sw_directory (stage_job stage_names ok w) n = Some x"
proof (cases "sw_pc w")
  case (DiscardingStage name)
  then have "sw_directory w name = Some (sw_file w)"
    using assms(3) by (intro owned_bound) (simp add: stage_inv_def)
  then show ?thesis
    using assms(1,2) by (auto simp: stage_job_def DiscardingStage drop_stage_def remove_file_def)
qed (use assms(1) in \<open>auto simp: stage_job_def\<close>)

lemma stage_run_keeps:
  assumes "sw_directory w n = Some x" and "x \<noteq> sw_file w" and "stage_inv w"
    and "\<forall>v. StageOther n v \<notin> set evs"
  shows "sw_directory (stage_run stage_names evs w) n = Some x"
  using assms
proof (induction evs arbitrary: w)
  case (Cons ev evs)
  have "sw_directory (stage_step stage_names ev w) n = Some x"
    using Cons.prems stage_keeps [OF Cons.prems(1,2,3)] by (cases ev) auto
  moreover have "stage_inv (stage_step stage_names ev w)" using Cons.prems(3) by (rule stage_step_inv)
  ultimately show ?case
    using Cons.IH [of "stage_step stage_names ev w"] Cons.prems(2,4) by (simp add: stage_run_def)
qed (simp add: stage_run_def)

fun stage_measure :: "stage_pc \<Rightarrow> nat" where
  "stage_measure (CheckingCancel n) = 2 * (MAX_STAGE_ATTEMPTS - n) + 4"
| "stage_measure (CreatingStage n) = 2 * (MAX_STAGE_ATTEMPTS - n) + 3"
| "stage_measure (CreatedStage _) = 3"
| "stage_measure (HandingOver _) = 2"
| "stage_measure (DiscardingStage _) = 1"
| "stage_measure (StageReturned _) = 0"

definition stage_steps :: "stage_event list \<Rightarrow> nat" where
  "stage_steps evs = length (filter (\<lambda>ev. ev = StageJob True \<or> ev = StageJob False) evs)"

lemma stage_measure_step:
  assumes "stage_inv w"
  shows "stage_measure (sw_pc (stage_job stage_names ok w)) \<le> stage_measure (sw_pc w) - 1"
proof (cases "sw_pc w")
  case (CreatingStage n)
  then have "n < MAX_STAGE_ATTEMPTS" using assms by (simp add: stage_inv_def)
  then have "2 * (MAX_STAGE_ATTEMPTS - Suc n) + 2 \<le> 2 * (MAX_STAGE_ATTEMPTS - n)" by linarith
  then show ?thesis by (simp add: stage_job_def CreatingStage)
qed (simp_all add: stage_job_def)

lemma stage_run_measure:
  "stage_inv w \<Longrightarrow>
   stage_measure (sw_pc (stage_run stage_names evs w)) \<le> stage_measure (sw_pc w) - stage_steps evs"
proof (induction evs arbitrary: w)
  case (Cons ev evs)
  have "stage_measure (sw_pc (stage_step stage_names ev w)) \<le> stage_measure (sw_pc w) - stage_steps [ev]"
  proof (cases ev)
    case (StageJob ok)
    then show ?thesis using stage_measure_step [OF Cons.prems, of stage_names ok] by (simp add: stage_steps_def)
  qed (simp_all add: stage_steps_def)
  moreover have "stage_measure (sw_pc (stage_run stage_names (ev # evs) w)) \<le>
      stage_measure (sw_pc (stage_step stage_names ev w)) - stage_steps evs"
    using Cons.IH [OF stage_step_inv [OF Cons.prems], of stage_names ev] by (simp add: stage_run_def)
  moreover have "stage_steps (ev # evs) = stage_steps [ev] + stage_steps evs" by (simp add: stage_steps_def)
  ultimately show ?case by linarith
qed (simp add: stage_run_def stage_steps_def)

definition sample_publish :: "publish_event list \<Rightarrow> publish_world" where
  "sample_publish evs = publish_run evs (publish_start [97] [115] 7 [[115] \<mapsto> 7])"

lemma sample_staged: "staged [97] [115] 7 [[115] \<mapsto> 7]"
  by (simp add: staged_def validate_receive_name_ok safe_file_name_def lit_def is_control_def
      reserved_char_simps trim_def trim_end_def is_whitespace_def str_len_Cons utf8_char_def
      MAX_ZMODEM_FILENAME_BYTES_def)

lemma sample_name: "unique_destination_name [97] 0 = Inr [97]"
  using sample_staged by (simp add: unique_destination_name_def bind_result_def staged_def)

definition six_steps :: "publish_event list" where
  "six_steps = [JobStep True, JobStep True, JobStep True, JobStep True, JobStep True, JobStep True]"

definition eleven_steps :: "publish_event list" where
  "eleven_steps = six_steps @ [JobStep True, JobStep True, JobStep True, JobStep True, JobStep True]"

lemmas sample_simps = sample_publish_def publish_run_def publish_start_def job_defs sample_name
  MAX_UNIQUE_DESTINATION_ATTEMPTS_def request_cancel_step_def cancel_decision_def
  six_steps_def eleven_steps_def

lemma sample_commit: "pw_pc (sample_publish (eleven_steps)) = Returned (Inr [97])"
  by (simp add: sample_simps)

lemma sample_cancel:
  "pw_pc (sample_publish (six_steps @ [CancelStep 0, CancelStep 0] @
     eleven_steps)) = Returned (Inl cancelled_error)"
  "pw_cancellers (sample_publish (six_steps @ [CancelStep 0, CancelStep 0] @
     eleven_steps)) 0 = Decided CancellationWon"
  by (simp_all add: sample_simps)

section \<open>Properties\<close>

text \<open>C13: Publication is all or nothing: when the job returns success, the gate is committed and the
  received file is in the directory under exactly one name, a valid candidate of the announced one;
  when it returns an error, it is a native error, or \<^verbatim>\<open>TransferCancelled\<close> and then somebody did cancel,
  and no name leads to the received file any more, unless a removal in a destructor failed, whose
  result the code ignores.  This holds whatever system call fails and for every interleaving with
  cancelling tasks and with other processes that leave the published name alone and have no handle on
  the received file (\<open>OtherProcess\<close>).\<close>

theorem publish_outcome:
  assumes staged: "staged f stage inode directory"
    and w: "w = publish_run evs (publish_start f stage inode directory)"
    and r: "pw_pc w = Returned r"
  shows "case r of
      Inr c \<Rightarrow> pw_gate w = PUBLISH_COMMITTED \<and> candidate_of f c \<and>
        (\<forall>n. pw_directory w n = Some inode \<longleftrightarrow> n = c)
    | Inl e \<Rightarrow> (e = cancelled_error \<and> (\<exists>i. pw_cancellers w i = Decided CancellationWon) \<or> native_error e) \<and>
        (\<not> pw_drop_failed w \<longrightarrow> inode \<notin> ran (pw_directory w))"
proof -
  have inv: "publish_inv w" unfolding w by (rule publish_run_inv [OF staged])
  have names: "pw_file w = inode" "pw_file_name w = f"
    by (simp_all add: w publish_run_file publish_run_name)
  have gate: "pw_gate w \<in> gate_states (Returned r)" and own: "own_names_ok w"
    and ok: "names_ok (Returned r) w" "progress_ok f (Returned r)"
    and cancel: "pw_gate w = PUBLISH_CANCELLED \<Longrightarrow> \<exists>i. pw_cancellers w i = Decided CancellationWon"
    using inv by (simp_all add: publish_inv_def gate_inv_def r names)
  show ?thesis
  proof (cases r)
    case (Inl e)
    have "e = cancelled_error \<Longrightarrow> pw_gate w = PUBLISH_CANCELLED" using gate by (simp add: Inl)
    then have "e = cancelled_error \<and> (\<exists>i. pw_cancellers w i = Decided CancellationWon) \<or> native_error e"
      using ok(2) cancel by (auto simp: Inl)
    moreover have "\<not> pw_drop_failed w \<Longrightarrow> inode \<notin> ran (pw_directory w)"
      using own ok(1) by (auto simp: own_names_ok_def names r Inl ran_def)
    ultimately show ?thesis by (simp add: Inl)
  next
    case (Inr c)
    have "\<not> pw_drop_failed w" using own by (auto simp: own_names_ok_def r Inr)
    then have "pw_directory w n = Some inode \<longleftrightarrow> n = c" for n
      using own ok(1) by (auto simp: own_names_ok_def names Inr)
    then show ?thesis using gate ok by (simp add: Inr)
  qed
qed

theorem publish_outcome_witness:
  "pw_gate (sample_publish eleven_steps) = PUBLISH_COMMITTED \<and>
   (\<forall>n. pw_directory (sample_publish eleven_steps) n = Some 7 \<longleftrightarrow> n = [97])"
  using publish_outcome [OF sample_staged sample_publish_def sample_commit] by simp

text \<open>C12: Exactly one side wins: a task that was told that cancellation won sees the job fail, and the
  driver then reports the interruption or the error of a failed cleanup, never success and never its
  own \<^verbatim>\<open>InvalidState\<close>; a task that was told that the commit won sees the job succeed and the file in
  place, and a user's cancellation is kept for the next poll.\<close>

theorem publish_cancel_exclusive:
  assumes staged: "staged f stage inode directory"
    and w: "w = publish_run evs (publish_start f stage inode directory)"
    and r: "pw_pc w = Returned r" and d: "pw_cancellers w i = Decided d"
  shows "case d of
      CommitWon \<Rightarrow> \<exists>c. r = Inr c \<and> pw_directory w c = Some inode \<and>
        wait_for_native_publish (Some (how, d)) r =
          (case how of UserCancelled \<Rightarrow> (Inr c, True) | Interrupted e \<Rightarrow> (Inl e, False))
    | CancellationWon \<Rightarrow> \<exists>e. r = Inl e \<and> e \<noteq> AdapterInvalidState \<and>
        wait_for_native_publish (Some (how, d)) r =
          (Inl (if e = cancelled_error
                then (case how of UserCancelled \<Rightarrow> cancelled_error | Interrupted e' \<Rightarrow> e')
                else e), False)"
proof -
  have inv: "publish_inv w" unfolding w by (rule publish_run_inv [OF staged])
  have names: "pw_file w = inode" by (simp add: w publish_run_file)
  have task: "task_ok (pw_gate w) (Decided d)"
    using inv unfolding publish_inv_def gate_inv_def by (metis d)
  have gate: "pw_gate w \<in> gate_states (Returned r)"
    using inv by (simp add: publish_inv_def gate_inv_def r)
  show ?thesis
  proof (cases r)
    case (Inl e)
    then have "d = CancellationWon"
      using task gate by (cases d) (auto simp: task_ok_def split: if_splits)
    moreover have "e = cancelled_error \<or> native_error e"
      using inv r Inl by (simp add: publish_inv_def)
    ultimately show ?thesis
      by (auto simp: Inl wait_for_native_publish_def cancellation_won_publish_result_def native_error_def
          split: publish_interruption.split)
  next
    case (Inr c)
    then have "d = CommitWon" using task gate by (cases d) (auto simp: task_ok_def)
    moreover have "pw_directory w c = Some inode"
      using inv r Inr names by (simp add: publish_inv_def)
    ultimately show ?thesis
      by (simp add: Inr wait_for_native_publish_def committed_publish_interruption_def
          split: publish_interruption.split)
  qed
qed

theorem publish_cancel_exclusive_witness:
  "pw_pc (sample_publish (six_steps @ [CancelStep 0, CancelStep 0] @ eleven_steps)) = Returned (Inl cancelled_error) \<and>
   pw_cancellers (sample_publish (six_steps @ [CancelStep 0, CancelStep 0] @ eleven_steps)) 0 = Decided CancellationWon \<and>
   wait_for_native_publish (Some (Interrupted SerialClosed, CancellationWon))
     (Inl cancelled_error :: serial_zmodem_error + rstr) = (Inl SerialClosed, False)"
  using publish_cancel_exclusive [OF sample_staged sample_publish_def sample_cancel,
      where how = "Interrupted SerialClosed"] sample_cancel by simp

text \<open>Nothing is overwritten: a name that existed before, other than the stage, and that no other
  process touches, keeps its file through every publication, successful, failed or cancelled.\<close>

theorem publish_keeps_existing:
  assumes "directory n = Some x" and "n \<noteq> stage" and "\<forall>v. OtherProcess n v \<notin> set evs"
  shows "pw_directory (publish_run evs (publish_start f stage inode directory)) n = Some x"
  using assms by (intro publish_run_leaves_others) (simp_all add: publish_start_def)

theorem publish_keeps_existing_witness:
  "pw_directory (publish_run (eleven_steps @ [OtherProcess [99] None])
     (publish_start [97] [115] 7 [[115] \<mapsto> 7, [98] \<mapsto> 5])) [98] = Some 5"
  by (rule publish_keeps_existing) (simp_all add: eleven_steps_def six_steps_def)

text \<open>The job returns: after 30,025 of its own steps (ten thousand names at three steps each, the
  rest once), in whatever order they interleave with cancellations and other processes.\<close>

theorem publish_job_returns:
  assumes "staged f stage inode directory" and "30025 \<le> job_steps evs"
  shows "\<exists>r. pw_pc (publish_run evs (publish_start f stage inode directory)) = Returned r"
proof -
  have "publish_inv (publish_start f stage inode directory)"
    using publish_run_inv [OF assms(1), of "[]"] by (simp add: publish_run_def)
  from publish_run_measure [OF this, of evs]
  have "job_measure (pw_pc (publish_run evs (publish_start f stage inode directory))) = 0"
    using assms(2) by (simp add: publish_start_def)
  then show ?thesis by (simp add: job_measure_0)
qed

theorem publish_job_returns_witness:
  "\<exists>r. pw_pc (sample_publish (replicate 30025 (JobStep False))) = Returned r"
  unfolding sample_publish_def
  by (rule publish_job_returns [OF sample_staged]) (simp add: job_steps_def)

text \<open>Opening the stage, in every interleaving with a cancellation and other processes: it returns
  after 260 of its own steps; success means that the new file is in the directory under the stage name
  alone, so that \<^verbatim>\<open>publish\<close> may start, and a driver that was interrupted meanwhile still removes it; an
  error leaves no name of the file, \<^verbatim>\<open>TransferCancelled\<close> only after a cancellation, unless a removal in
  a destructor failed; and names that were there keep their files.\<close>

theorem stage_open_outcome:
  assumes fresh: "inode \<notin> ran directory"
    and w: "w = stage_run stage_names evs (stage_start f inode directory)"
  shows "(260 \<le> stage_steps evs \<longrightarrow> (\<exists>r. sw_pc w = StageReturned r)) \<and>
    (case sw_pc w of
       StageReturned (Inr name) \<Rightarrow> staged f name inode (sw_directory w) \<and>
         (\<not> sw_drop_failed (abandon_stage ok w) \<longrightarrow> inode \<notin> ran (sw_directory (abandon_stage ok w)))
     | StageReturned (Inl e) \<Rightarrow> (e = cancelled_error \<longrightarrow> sw_cancelled w) \<and>
         (\<not> sw_drop_failed w \<longrightarrow> inode \<notin> ran (sw_directory w))
     | _ \<Rightarrow> True) \<and>
    (\<forall>n x. directory n = Some x \<longrightarrow> (\<forall>v. StageOther n v \<notin> set evs) \<longrightarrow> sw_directory w n = Some x)"
proof -
  let ?start = "stage_start f inode directory"
  have inv: "stage_inv w" unfolding w using fresh by (rule stage_run_inv)
  have start: "stage_inv ?start"
    using stage_run_inv [OF fresh, of stage_names "[]" f] by (simp add: stage_run_def)
  have inode: "sw_file w = inode" by (simp add: w stage_run_file stage_start_def)
  have none: "owned m inode = {} \<Longrightarrow> inode \<notin> ran m" for m
    by (auto simp: owned_def ran_def)
  have "\<exists>r. sw_pc w = StageReturned r" if "260 \<le> stage_steps evs"
  proof -
    have "stage_measure (sw_pc ?start) \<le> 260"
      by (simp add: stage_start_def MAX_STAGE_ATTEMPTS_def split: sum.split)
    then have "stage_measure (sw_pc w) = 0"
      using stage_run_measure [OF start, of stage_names evs] that unfolding w by linarith
    then show ?thesis by (cases "sw_pc w") simp_all
  qed
  moreover have "staged f name inode (sw_directory w) \<and>
      (\<not> sw_drop_failed (abandon_stage ok w) \<longrightarrow> inode \<notin> ran (sw_directory (abandon_stage ok w)))"
    if r: "sw_pc w = StageReturned (Inr name)" for name
  proof -
    have "validate_receive_name f = Inr ()"
    proof (cases "validate_receive_name f")
      case (Inl e)
      then have "sw_pc w = StageReturned (Inl e)"
        unfolding w by (intro stage_run_returned) (simp add: stage_start_def)
      with r show ?thesis by simp
    qed simp
    moreover have own: "owned (sw_directory w) (sw_file w) = {name}"
      using inv by (simp add: stage_inv_def r)
    ultimately have "staged f name inode (sw_directory w)"
      by (auto simp: staged_def owned_def inode)
    then show ?thesis
      using drop_stage_owned(1) [OF own, of ok] none [of "sw_directory (drop_stage ok name w)"]
      by (auto simp: abandon_stage_def r inode)
  qed
  moreover have "(e = cancelled_error \<longrightarrow> sw_cancelled w) \<and>
      (\<not> sw_drop_failed w \<longrightarrow> inode \<notin> ran (sw_directory w))"
    if "sw_pc w = StageReturned (Inl e)" for e
    using inv that none by (simp add: stage_inv_def inode)
  moreover have "sw_directory w n = Some x"
    if "directory n = Some x" "\<forall>v. StageOther n v \<notin> set evs" for n x
  proof -
    have "x \<noteq> inode" using that(1) fresh by (auto simp: ran_def)
    then show ?thesis
      unfolding w using that start by (intro stage_run_keeps) (simp_all add: stage_start_def)
  qed
  ultimately show ?thesis by (simp split: stage_pc.split sum.split)
qed

theorem stage_open_outcome_witness:
  "\<exists>r. sw_pc (stage_run (\<lambda>_. [115]) (replicate 260 (StageJob True))
     (stage_start [97] 7 Map.empty)) = StageReturned r"
proof -
  have "260 \<le> stage_steps (replicate 260 (StageJob True))" by (simp add: stage_steps_def)
  moreover have "7 \<notin> ran (Map.empty :: rstr \<rightharpoonup> nat)" by simp
  ultimately show ?thesis using stage_open_outcome [OF _ refl] by blast
qed

end
