(* ===== verification/Zmodem_Pending.thy ===== *)
theory Zmodem_Pending
  imports Zmodem_Publish
begin

text \<open>
  The events of a raw serial transfer while the native ZMODEM adapter is busy
  (\<^verbatim>\<open>src-tauri/src/serial_zmodem.rs\<close>: \<^verbatim>\<open>PendingSerialEvents\<close>, \<^verbatim>\<open>wait_for_native_selection\<close>,
  \<^verbatim>\<open>poll_exact_transfer_cancel\<close>, \<^verbatim>\<open>wait_for_native_operation\<close>, \<^verbatim>\<open>wait_for_native_publish\<close>) and the end of a
  transfer (\<^verbatim>\<open>drive_detected_serial_zmodem\<close>).  The result of a native operation and the events that
  arrive before it are arguments; the biased \<^verbatim>\<open>select!\<close> takes the events first.
\<close>

section \<open>Events\<close>

text \<open>What \<^verbatim>\<open>recv\<close> yields: an event, or \<^verbatim>\<open>None\<close> once the session is gone.\<close>

datatype arrival = Arrived raw_event | PortClosed

record pending_events =
  pe_events :: "raw_event list"
  pe_bytes :: nat
  pe_cancel_requested :: bool

definition MAX_PICKER_BUFFER_EVENTS :: nat where "MAX_PICKER_BUFFER_EVENTS = 64"
definition MAX_PICKER_BUFFER_BYTES :: nat where "MAX_PICKER_BUFFER_BYTES = 2 * 1024 * 1024"

definition no_pending_events :: pending_events where
  "no_pending_events = \<lparr>pe_events = [], pe_bytes = 0, pe_cancel_requested = False\<rparr>"

definition pending_push :: "pending_events \<Rightarrow> raw_event \<Rightarrow> pending_events \<times> (serial_zmodem_error + unit)" where
  "pending_push p event =
     (case event of
        CancelRequested \<Rightarrow> (p\<lparr>pe_cancel_requested := True\<rparr>, Inr ())
      | RawData bs \<Rightarrow>
          if MAX_PICKER_BUFFER_EVENTS \<le> length (pe_events p) \<or>
             (case checked_add64 (pe_bytes p) (length bs) of
                None \<Rightarrow> True | Some sum_bytes \<Rightarrow> MAX_PICKER_BUFFER_BYTES < sum_bytes)
          then (p, Inl SelectionBufferFull)
          else (p\<lparr>pe_bytes := pe_bytes p + length bs, pe_events := pe_events p @ [event]\<rparr>, Inr ()))"

definition pending_take_cancel :: "pending_events \<Rightarrow> pending_events \<times> bool" where
  "pending_take_cancel p = (p\<lparr>pe_cancel_requested := False\<rparr>, pe_cancel_requested p)"

definition pending_pop :: "pending_events \<Rightarrow> pending_events \<times> raw_event option" where
  "pending_pop p =
     (case pending_take_cancel p of
        (p, True) \<Rightarrow> (p, Some CancelRequested)
      | (p, False) \<Rightarrow>
          (case pe_events p of
             [] \<Rightarrow> (p, None)
           | event # rest \<Rightarrow>
               (p\<lparr>pe_events := rest,
                  pe_bytes := (case event of RawData bs \<Rightarrow> pe_bytes p - length bs
                               | CancelRequested \<Rightarrow> pe_bytes p)\<rparr>, Some event)))"

text \<open>\<^verbatim>\<open>try_recv\<close> yields \<open>None\<close> when nothing is queued.\<close>

definition poll_exact_transfer_cancel ::
    "arrival option \<Rightarrow> pending_events \<Rightarrow> pending_events \<times> (serial_zmodem_error + unit)" where
  "poll_exact_transfer_cancel polled p =
     (case pending_take_cancel p of
        (p, True) \<Rightarrow> (p, Inl cancelled_error)
      | (p, False) \<Rightarrow>
          (case polled of
             Some (Arrived CancelRequested) \<Rightarrow> (p, Inl cancelled_error)
           | Some (Arrived (RawData bs)) \<Rightarrow> pending_push p (RawData bs)
           | None \<Rightarrow> (p, Inr ())
           | Some PortClosed \<Rightarrow> (p, Inl SerialClosed)))"

section \<open>Waiting for native operations\<close>

fun wait_for_native_operation ::
    "arrival list \<Rightarrow> pending_events \<Rightarrow> serial_zmodem_error + 'a \<Rightarrow>
       pending_events \<times> (serial_zmodem_error + 'a)" where
  "wait_for_native_operation [] p result = (p, result)"
| "wait_for_native_operation (Arrived CancelRequested # rest) p result = (p, Inl cancelled_error)"
| "wait_for_native_operation (Arrived (RawData bs) # rest) p result =
     (case pending_push p (RawData bs) of
        (p, Inl e) \<Rightarrow> (p, Inl e)
      | (p, Inr _) \<Rightarrow> wait_for_native_operation rest p result)"
| "wait_for_native_operation (PortClosed # rest) p result = (p, Inl SerialClosed)"

fun wait_for_native_selection ::
    "arrival list \<Rightarrow> pending_events \<Rightarrow> serial_zmodem_error + 'a option \<Rightarrow>
       serial_zmodem_error + ('a \<times> pending_events) option" where
  "wait_for_native_selection [] p selected =
     map_sum id (map_option (\<lambda>value. (value, p))) selected"
| "wait_for_native_selection (Arrived CancelRequested # rest) p selected = Inr None"
| "wait_for_native_selection (Arrived (RawData bs) # rest) p selected =
     (case pending_push p (RawData bs) of
        (p, Inl e) \<Rightarrow> Inl e
      | (p, Inr _) \<Rightarrow> wait_for_native_selection rest p selected)"
| "wait_for_native_selection (PortClosed # rest) p selected = Inl SerialClosed"

text \<open>\<open>disposition\<close> is the answer of \<^verbatim>\<open>request_cancel\<close>, should it be asked; \<open>Zmodem_Publish\<close> says how it
  fits the job's result.\<close>

fun wait_for_publish_arrivals ::
    "arrival list \<Rightarrow> pending_events \<Rightarrow> publish_cancel_disposition \<Rightarrow> serial_zmodem_error + 'a \<Rightarrow>
       pending_events \<times> (serial_zmodem_error + 'a)" where
  "wait_for_publish_arrivals [] p disposition result = (p, fst (wait_for_native_publish None result))"
| "wait_for_publish_arrivals (Arrived CancelRequested # rest) p disposition result =
     (case wait_for_native_publish (Some (UserCancelled, disposition)) result of
        (result, late) \<Rightarrow> (if late then p\<lparr>pe_cancel_requested := True\<rparr> else p, result))"
| "wait_for_publish_arrivals (Arrived (RawData bs) # rest) p disposition result =
     (case pending_push p (RawData bs) of
        (p, Inl e) \<Rightarrow> (p, fst (wait_for_native_publish (Some (Interrupted e, disposition)) result))
      | (p, Inr _) \<Rightarrow> wait_for_publish_arrivals rest p disposition result)"
| "wait_for_publish_arrivals (PortClosed # rest) p disposition result =
     (p, fst (wait_for_native_publish (Some (Interrupted SerialClosed, disposition)) result))"

section \<open>The end of a transfer\<close>

datatype 'a zmodem_outcome = CompletedBatch 'a | Canceled

definition should_send_cancel :: "serial_zmodem_error \<Rightarrow> bool" where
  "should_send_cancel e \<longleftrightarrow> e \<noteq> Protocol RemoteCancelled \<and> e \<noteq> Protocol RemoteAborted"

definition settle_result ::
    "serial_zmodem_error + 'a zmodem_outcome \<times> bytes \<Rightarrow> serial_zmodem_error + 'a zmodem_outcome \<times> bytes" where
  "settle_result result = (if result = Inl cancelled_error then Inr (Canceled, []) else result)"

definition should_abort :: "serial_zmodem_error + 'a zmodem_outcome \<times> bytes \<Rightarrow> bool" where
  "should_abort result =
     (case result of
        Inr (Canceled, _) \<Rightarrow> True
      | Inr (CompletedBatch _, _) \<Rightarrow> False
      | Inl e \<Rightarrow> should_send_cancel e)"

text \<open>The bytes that follow the batch and go back to the terminal.\<close>

definition terminal_bytes_of :: "serial_zmodem_error + 'a zmodem_outcome \<times> bytes \<Rightarrow> bytes" where
  "terminal_bytes_of result =
     (case result of Inr (CompletedBatch _, bs) \<Rightarrow> bs | _ \<Rightarrow> [])"

definition combine_results ::
    "serial_zmodem_error + 'a zmodem_outcome \<times> bytes \<Rightarrow> serial_zmodem_error + unit \<Rightarrow>
       serial_zmodem_error + unit \<Rightarrow> serial_zmodem_error + 'a zmodem_outcome" where
  "combine_results result abort finish =
     (case result of
        Inl e \<Rightarrow> Inl e
      | Inr (outcome, _) \<Rightarrow>
          (case abort of
             Inl e \<Rightarrow> Inl e
           | Inr _ \<Rightarrow> (case finish of Inl e \<Rightarrow> Inl e | Inr _ \<Rightarrow> Inr outcome)))"

text \<open>\<^verbatim>\<open>drive_detected_serial_zmodem\<close> after the drivers: \<open>abort_write\<close> is the result of writing the abort
  sequence, \<open>finish\<close> that of giving the port back with the bytes it is handed.\<close>

definition conclude_transfer ::
    "serial_zmodem_error + 'a zmodem_outcome \<times> bytes \<Rightarrow> serial_zmodem_error + unit \<Rightarrow>
       (bytes \<Rightarrow> serial_zmodem_error + unit) \<Rightarrow> serial_zmodem_error + 'a zmodem_outcome" where
  "conclude_transfer driven abort_write finish =
     (let result = settle_result driven;
          abort = (if should_abort result then abort_write else Inr ())
      in combine_results result abort (finish (terminal_bytes_of result)))"

section \<open>Facts\<close>

definition event_length :: "raw_event \<Rightarrow> nat" where
  "event_length event = (case event of RawData bs \<Rightarrow> length bs | CancelRequested \<Rightarrow> 0)"

definition pending_ok :: "pending_events \<Rightarrow> bool" where
  "pending_ok p \<longleftrightarrow> length (pe_events p) \<le> MAX_PICKER_BUFFER_EVENTS \<and>
     pe_bytes p \<le> MAX_PICKER_BUFFER_BYTES \<and> pe_bytes p = sum_list (map event_length (pe_events p)) \<and>
     CancelRequested \<notin> set (pe_events p)"

lemma no_pending_ok: "pending_ok no_pending_events"
  by (simp add: pending_ok_def no_pending_events_def)

lemma pending_push_ok: "pending_ok p \<Longrightarrow> pending_ok (fst (pending_push p event))"
  by (auto simp: pending_push_def pending_ok_def event_length_def checked_add64_def MAX_PICKER_BUFFER_BYTES_def
      split: raw_event.split option.splits if_splits)

lemma pending_pop_ok: "pending_ok p \<Longrightarrow> pending_ok (fst (pending_pop p))"
  by (auto simp: pending_pop_def pending_take_cancel_def pending_ok_def event_length_def
      split: bool.split list.split raw_event.split)

lemma pending_poll_ok: "pending_ok p \<Longrightarrow> pending_ok (fst (poll_exact_transfer_cancel polled p))"
proof -
  assume p: "pending_ok p"
  then have "pending_ok (p\<lparr>pe_cancel_requested := False\<rparr>)" by (simp add: pending_ok_def)
  then show ?thesis
    using pending_push_ok [of "p\<lparr>pe_cancel_requested := False\<rparr>"]
    by (auto simp: poll_exact_transfer_cancel_def pending_take_cancel_def
        split: bool.split option.split arrival.split raw_event.split)
qed

lemma wait_operation_ok:
  "pending_ok p \<Longrightarrow> pending_ok (fst (wait_for_native_operation arrivals p result))"
proof (induction arrivals p result rule: wait_for_native_operation.induct)
  case (3 bs rest p result)
  then show ?case
    using pending_push_ok [of p "RawData bs"] by (auto split: prod.split sum.split)
qed simp_all

lemma wait_publish_ok:
  "pending_ok p \<Longrightarrow> pending_ok (fst (wait_for_publish_arrivals arrivals p d result))"
proof (induction arrivals p d result rule: wait_for_publish_arrivals.induct)
  case (3 bs rest p d result)
  then show ?case
    using pending_push_ok [of p "RawData bs"] by (auto split: prod.split sum.split)
qed (auto simp: pending_ok_def split: prod.split)

lemma pending_push_error: "snd (pending_push p event) = Inl e \<Longrightarrow> e = SelectionBufferFull"
  by (auto simp: pending_push_def split: raw_event.splits if_splits option.splits)

lemma poll_error:
  "snd (poll_exact_transfer_cancel polled p) = Inl e \<Longrightarrow>
     e = cancelled_error \<or> e = SerialClosed \<or> e = SelectionBufferFull"
  using pending_push_error
  by (fastforce simp: poll_exact_transfer_cancel_def pending_take_cancel_def
      split: bool.splits option.splits arrival.splits raw_event.splits)

lemma wait_operation_error:
  "snd (wait_for_native_operation arrivals p result) = Inl e \<Longrightarrow>
     result = Inl e \<or> e = cancelled_error \<or> e = SerialClosed \<or> e = SelectionBufferFull"
proof (induction arrivals p result rule: wait_for_native_operation.induct)
  case (3 bs rest p result)
  then show ?case
    using pending_push_error [of p "RawData bs"] by (auto split: prod.splits sum.splits)
qed auto

lemma wait_operation_Inr:
  "snd (wait_for_native_operation arrivals p result) = Inr v \<Longrightarrow> result = Inr v"
  by (induction arrivals p result rule: wait_for_native_operation.induct) (auto split: prod.splits sum.splits)

text \<open>Nothing that the peer sends while the user selects files is lost or reordered: a selection that
  ends normally hands over the bytes in the order of arrival, at most 64 events and 2 MiB of them,
  and a cancellation or a closed port never looks like a selection.\<close>

theorem selection_keeps_bytes:
  assumes "wait_for_native_selection arrivals no_pending_events selected = Inr (Some (v, p))"
  shows "selected = Inr (Some v) \<and> arrivals = map Arrived (pe_events p) \<and> pending_ok p \<and>
    \<not> pe_cancel_requested p"
proof -
  have "selected = Inr (Some v) \<and> (\<exists>more. arrivals = map Arrived more \<and> pe_events p = pe_events q @ more) \<and>
      pending_ok p \<and> \<not> pe_cancel_requested p"
    if "wait_for_native_selection arrivals q selected = Inr (Some (v, p))" "pending_ok q"
      "\<not> pe_cancel_requested q" for q
    using that
  proof (induction arrivals q selected rule: wait_for_native_selection.induct)
    case (1 q selected)
    then show ?case by (cases selected) auto
  next
    case (3 bs rest q selected)
    obtain q' r where push: "pending_push q (RawData bs) = (q', r)" by force
    then have r: "r = Inr ()" using 3(2) by (cases r) auto
    have q': "pending_ok q'" "pe_events q' = pe_events q @ [RawData bs]" "\<not> pe_cancel_requested q'"
      using pending_push_ok [OF 3(3), of "RawData bs"] push r 3(4)
      by (auto simp: pending_push_def split: if_splits)
    have "wait_for_native_selection rest q' selected = Inr (Some (v, p))"
      using 3(2) push r by simp
    from 3(1) [OF push [symmetric] r this q'(1,3)] obtain more where
      "rest = map Arrived more" "pe_events p = pe_events q' @ more"
      and ih: "selected = Inr (Some v)" "pending_ok p" "\<not> pe_cancel_requested p"
      by blast
    then have "Arrived (RawData bs) # rest = map Arrived (RawData bs # more) \<and>
        pe_events p = pe_events q @ RawData bs # more"
      using q'(2) by simp
    with ih show ?case by (intro conjI exI [of _ "RawData bs # more"]) simp_all
  qed auto
  from this [OF assms no_pending_ok] show ?thesis
    by (auto simp: no_pending_events_def)
qed

theorem selection_keeps_bytes_witness:
  "\<exists>p. wait_for_native_selection [Arrived (RawData [1, 2])] no_pending_events (Inr (Some True)) =
     Inr (Some (True, p)) \<and> [Arrived (RawData [1, 2])] = map Arrived (pe_events p)"
proof -
  have p: "wait_for_native_selection [Arrived (RawData [1, 2])] no_pending_events (Inr (Some True)) =
      Inr (Some (True, \<lparr>pe_events = [RawData [1, 2]], pe_bytes = 2, pe_cancel_requested = False\<rparr>))"
    by (simp add: pending_push_def no_pending_events_def checked_add64_def
        MAX_PICKER_BUFFER_EVENTS_def MAX_PICKER_BUFFER_BYTES_def)
  from p selection_keeps_bytes [OF p] show ?thesis by (metis (no_types, lifting))
qed

text \<open>How a transfer ends: it is reported complete only if its driver completed the batch and the port
  was given back together with the bytes that followed the batch; a cancellation becomes the
  outcome \<^verbatim>\<open>Canceled\<close>, not an error; and the peer is sent the abort sequence except after a completed
  batch and after an abort of its own.\<close>

theorem transfer_conclusion:
  "(conclude_transfer driven abort_write finish = Inr (CompletedBatch v) \<longleftrightarrow>
      (\<exists>rest. driven = Inr (CompletedBatch v, rest) \<and> finish rest = Inr ())) \<and>
   (conclude_transfer driven abort_write finish = Inr Canceled \<longleftrightarrow>
      (driven = Inl cancelled_error \<or> (\<exists>rest. driven = Inr (Canceled, rest))) \<and>
      abort_write = Inr () \<and> finish [] = Inr ()) \<and>
   (should_abort (settle_result driven) \<longleftrightarrow>
      (\<forall>v rest. driven \<noteq> Inr (CompletedBatch v, rest)) \<and>
      driven \<noteq> Inl (Protocol RemoteCancelled) \<and> driven \<noteq> Inl (Protocol RemoteAborted))"
proof -
  have unit: "(r :: serial_zmodem_error + unit) = Inr () \<or> (\<exists>e. r = Inl e)" for r
    by (cases r) auto
  consider (cancel) "driven = Inl cancelled_error" | (error) e where "driven = Inl e" "e \<noteq> cancelled_error"
    | (ended) w rest where "driven = Inr (CompletedBatch w, rest)" | (user) rest where "driven = Inr (Canceled, rest)"
    by (metis sum.exhaust prod.exhaust zmodem_outcome.exhaust)
  then show ?thesis
    using unit [of abort_write] unit [of "finish (terminal_bytes_of (settle_result driven))"]
    by cases (auto simp: conclude_transfer_def settle_result_def should_abort_def combine_results_def
        terminal_bytes_of_def should_send_cancel_def Let_def)
qed

end
