(* ===== verification/Zmodem_Receive_Driver.thy ===== *)
theory Zmodem_Receive_Driver
  imports Zmodem_Receiver Zmodem_Pending
begin

text \<open>
  The native driver of a receiving ZMODEM transfer (\<^verbatim>\<open>drive_receiver\<close>, \<^verbatim>\<open>wait_receiver\<close>,
  \<^verbatim>\<open>handle_receiver_event\<close> of \<^verbatim>\<open>src-tauri/src/serial_zmodem.rs\<close>): it executes the actions of the
  protocol machine of \<open>Zmodem_Receiver\<close> against staged files, and feeds it serial events and
  timeouts.  One step takes one action or waits once; what the port, the operating system, the
  progress channel and the publication answer in that step is its input.  The theorems compose the
  driver with the machine: its own consistency checks never fail, it never waits without a timer,
  and the summary it returns agrees with the files it has published.
\<close>

section \<open>The driver\<close>

record drive_input =
  in_poll :: "arrival option"
  in_wait :: "arrival option"
  in_port :: "serial_zmodem_error + unit"
  in_channel :: bool
  in_arrivals :: "arrival list"
  in_native :: "serial_zmodem_error + unit"
  in_more_arrivals :: "arrival list"
  in_write :: "serial_zmodem_error + unit"
  in_publish :: "serial_zmodem_error + rstr"
  in_disposition :: publish_cancel_disposition

text \<open>\<open>rd_file\<close> is \<^verbatim>\<open>pending_file\<close> with the bytes in the stage, \<open>rd_published\<close> the names, metadata and
  contents of the files that publication has put into the directory, \<open>rd_sent\<close> what went to the port.\<close>

record receive_drive =
  rd_receiver :: zmodem_receiver
  rd_pending :: pending_events
  rd_file :: "(nat \<times> zmodem_file_metadata \<times> bytes) option"
  rd_published :: "(rstr \<times> zmodem_file_metadata \<times> bytes) list"
  rd_sent :: bytes
  rd_result :: "(serial_zmodem_error + zmodem_batch_summary \<times> bytes) option"

definition receive_start :: "pending_events \<Rightarrow> receive_drive" where
  "receive_start p =
     \<lparr>rd_receiver = zr_new default_zmodem_config, rd_pending = p, rd_file = None, rd_published = [],
      rd_sent = [], rd_result = None\<rparr>"

definition receive_fail :: "serial_zmodem_error \<Rightarrow> receive_drive \<Rightarrow> receive_drive" where
  "receive_fail e s = s\<lparr>rd_result := Some (Inl e)\<rparr>"

text \<open>Seeking to an offset and writing there; a gap would read as zeros.\<close>

definition write_at :: "nat \<Rightarrow> bytes \<Rightarrow> bytes \<Rightarrow> bytes" where
  "write_at off bs content =
     take off (content @ replicate (off - length content) 0) @ bs @ drop (off + length bs) content"

text \<open>A call of the machine whose error the driver returns.\<close>

definition receive_call ::
    "zmodem_receiver \<times> (zmodem_error + unit) \<Rightarrow> receive_drive \<Rightarrow> receive_drive" where
  "receive_call called s =
     (case called of
        (r, Inl e) \<Rightarrow> receive_fail (Protocol e) (s\<lparr>rd_receiver := r\<rparr>)
      | (r, Inr _) \<Rightarrow> s\<lparr>rd_receiver := r\<rparr>)"

definition receive_offer :: "drive_input \<Rightarrow> nat \<Rightarrow> zmodem_file_metadata \<Rightarrow> receive_drive \<Rightarrow> receive_drive" where
  "receive_offer input i m s =
     (if rd_file s \<noteq> None then receive_fail AdapterInvalidState s
      else case wait_for_native_operation (in_arrivals input) (rd_pending s) (in_native input) of
        (p, Inl e) \<Rightarrow> receive_fail e (s\<lparr>rd_pending := p\<rparr>)
      | (p, Inr _) \<Rightarrow>
          receive_call (zr_accept_file (rd_receiver s))
            (s\<lparr>rd_pending := p, rd_file := Some (i, m, [])\<rparr>))"

definition receive_begin :: "nat \<Rightarrow> zmodem_file_metadata \<Rightarrow> receive_drive \<Rightarrow> receive_drive" where
  "receive_begin i m s =
     (case rd_file s of
        None \<Rightarrow> receive_fail AdapterInvalidState s
      | Some (j, n, _) \<Rightarrow>
          if j \<noteq> i \<or> zm_file_name n \<noteq> zm_file_name m \<or> zm_total_bytes n \<noteq> zm_total_bytes m
          then receive_fail AdapterInvalidState s else s)"

definition receive_write :: "drive_input \<Rightarrow> nat \<Rightarrow> nat \<Rightarrow> bytes \<Rightarrow> receive_drive \<Rightarrow> receive_drive" where
  "receive_write input i off bs s =
     (case rd_file s of
        None \<Rightarrow> receive_fail AdapterInvalidState s
      | Some (j, n, content) \<Rightarrow>
          if j \<noteq> i then receive_fail AdapterInvalidState s
          else case wait_for_native_operation (in_arrivals input) (rd_pending s) (in_native input) of
            (p, Inl e) \<Rightarrow> receive_fail e (s\<lparr>rd_pending := p\<rparr>)
          | (p, Inr _) \<Rightarrow>
              (case wait_for_native_operation (in_more_arrivals input) p (in_write input) of
                 (p, Inl e) \<Rightarrow> receive_fail e (s\<lparr>rd_pending := p\<rparr>)
               | (p, Inr _) \<Rightarrow>
                   receive_call (zr_confirm_file_write (rd_receiver s) (length bs))
                     (s\<lparr>rd_pending := p, rd_file := Some (j, n, write_at off bs content)\<rparr>)))"

definition receive_completed :: "drive_input \<Rightarrow> zmodem_file_summary \<Rightarrow> receive_drive \<Rightarrow> receive_drive" where
  "receive_completed input f s =
     (case rd_file s of
        None \<Rightarrow> receive_fail AdapterInvalidState s
      | Some (j, n, content) \<Rightarrow>
          if j \<noteq> zf_file_index f \<or> zm_total_bytes n \<noteq> zf_total_bytes f \<or>
             zf_transferred_bytes f \<noteq> zf_total_bytes f
          then receive_fail AdapterInvalidState (s\<lparr>rd_file := None\<rparr>)
          else
            let s = s\<lparr>rd_file := None, rd_published := rd_published s @
                  (case in_publish input of Inr name \<Rightarrow> [(name, n, content)] | Inl _ \<Rightarrow> [])\<rparr>
            in case wait_for_publish_arrivals (in_arrivals input) (rd_pending s) (in_disposition input)
                   (in_publish input) of
                 (p, Inl e) \<Rightarrow> receive_fail e (s\<lparr>rd_pending := p\<rparr>)
               | (p, Inr _) \<Rightarrow> s\<lparr>rd_pending := p\<rparr>)"

definition receive_action :: "drive_input \<Rightarrow> zmodem_receiver_action \<Rightarrow> receive_drive \<Rightarrow> receive_drive" where
  "receive_action input action s =
     (case action of
        Write bs \<Rightarrow>
          (case in_port input of
             Inl e \<Rightarrow> receive_fail e s
           | Inr _ \<Rightarrow> s\<lparr>rd_sent := rd_sent s @ bs\<rparr>)
      | OfferFile i m \<Rightarrow> receive_offer input i m s
      | BeginFile i m \<Rightarrow> receive_begin i m s
      | WriteFile i off bs \<Rightarrow> receive_write input i off bs s
      | Progress _ \<Rightarrow> if in_channel input then s else receive_fail ControlChannelClosed s
      | FileCompleted f \<Rightarrow> receive_completed input f s
      | BatchCompleted summary terminal_bytes \<Rightarrow>
          if rd_file s \<noteq> None then receive_fail AdapterInvalidState s
          else s\<lparr>rd_result := Some (Inr (summary, terminal_bytes))\<rparr>
      | Failed e \<Rightarrow> receive_fail (Protocol e) s)"

definition handle_receiver_event :: "arrival \<Rightarrow> receive_drive \<Rightarrow> receive_drive" where
  "handle_receiver_event event s =
     (case event of
        Arrived (RawData bs) \<Rightarrow> receive_call (zr_push_serial_bytes (rd_receiver s) bs) s
      | Arrived CancelRequested \<Rightarrow> receive_call (zr_cancel (rd_receiver s)) s
      | PortClosed \<Rightarrow> receive_fail SerialClosed s)"

text \<open>Without a timer the driver waits for an event only: a timer input then changes nothing.\<close>

definition wait_receiver :: "drive_input \<Rightarrow> receive_drive \<Rightarrow> receive_drive" where
  "wait_receiver input s =
     (case poll_exact_transfer_cancel (in_poll input) (rd_pending s) of
        (p, Inl e) \<Rightarrow> receive_fail e (s\<lparr>rd_pending := p\<rparr>)
      | (p, Inr _) \<Rightarrow>
          (case pending_pop p of
             (p, Some event) \<Rightarrow> handle_receiver_event (Arrived event) (s\<lparr>rd_pending := p\<rparr>)
           | (p, None) \<Rightarrow>
               let s = s\<lparr>rd_pending := p\<rparr>
               in case in_wait input of
                    Some event \<Rightarrow> handle_receiver_event event s
                  | None \<Rightarrow>
                      if zr_timeout (rd_receiver s) = None then s
                      else receive_call (zr_on_timeout (rd_receiver s)) s))"

definition receive_step :: "drive_input \<Rightarrow> receive_drive \<Rightarrow> receive_drive" where
  "receive_step input s =
     (if rd_result s \<noteq> None then s
      else case zr_next_action (rd_receiver s) of
        (_, None) \<Rightarrow> wait_receiver input s
      | (r, Some action) \<Rightarrow>
          let s = s\<lparr>rd_receiver := r\<rparr>
          in case poll_exact_transfer_cancel (in_poll input) (rd_pending s) of
               (p, Inl e) \<Rightarrow> receive_fail e (s\<lparr>rd_pending := p\<rparr>)
             | (p, Inr _) \<Rightarrow> receive_action input action (s\<lparr>rd_pending := p\<rparr>))"

definition receive_run :: "drive_input list \<Rightarrow> receive_drive \<Rightarrow> receive_drive" where
  "receive_run inputs s = fold receive_step inputs s"

text \<open>What the environment may answer: native errors, never an error of the driver itself, and an answer
  of the cancellation gate that fits the result of the publication, as \<open>Zmodem_Publish\<close> proves.\<close>

definition outside_error :: "serial_zmodem_error + 'a \<Rightarrow> bool" where
  "outside_error r \<longleftrightarrow> (\<forall>e. r = Inl e \<longrightarrow> e \<noteq> AdapterInvalidState \<and> (\<forall>q. e \<noteq> Protocol q))"

definition drive_input_ok :: "drive_input \<Rightarrow> bool" where
  "drive_input_ok input \<longleftrightarrow> outside_error (in_port input) \<and> outside_error (in_native input) \<and>
     outside_error (in_write input) \<and> outside_error (in_publish input) \<and>
     (in_disposition input = CommitWon \<longleftrightarrow> (\<exists>name. in_publish input = Inr name))"

section \<open>The queue of the machine\<close>

text \<open>
  The machine stops at an offer or at data until the driver has answered, so when the driver takes an
  offer or a write from the queue, it is the last action, and the machine waits for exactly that
  answer.  \<open>zr_tally\<close> counts: \<open>n\<close> files with \<open>b\<close> bytes, handed over before, and the completions in the
  queue add up to the machine's own counts.  An overflowing queue is replaced by a failure, after
  which nothing needs to hold.
\<close>

fun zr_plain :: "zmodem_receiver_action \<Rightarrow> bool" where
  "zr_plain (OfferFile _ _) = False"
| "zr_plain (WriteFile _ _ _) = False"
| "zr_plain (BatchCompleted _ _) = False"
| "zr_plain (Failed _) = False"
| "zr_plain _ = True"

fun zr_ends :: "zmodem_receiver_action list \<Rightarrow> bool" where
  "zr_ends [] = False"
| "zr_ends (Failed _ # as) = True"
| "zr_ends (BatchCompleted _ _ # as) = True"
| "zr_ends (OfferFile _ _ # as) = False"
| "zr_ends (WriteFile _ _ _ # as) = False"
| "zr_ends (_ # as) = zr_ends as"

definition zr_quiet :: "zmodem_receiver \<Rightarrow> bool" where
  "zr_quiet s \<longleftrightarrow> zr_ends (zr_actions s) \<or> list_all zr_plain (zr_actions s)"

definition zr_simple :: "zmodem_receiver_state \<Rightarrow> bool" where
  "zr_simple st \<longleftrightarrow> (case st of AwaitAcceptance \<Rightarrow> False | AwaitSink _ _ _ _ \<Rightarrow> False | Terminal \<Rightarrow> False
     | _ \<Rightarrow> True)"

definition zr_sync :: "zmodem_receiver \<Rightarrow> bool" where
  "zr_sync s \<longleftrightarrow> zr_ends (zr_actions s) \<or>
     (case zr_state s of
        AwaitAcceptance \<Rightarrow>
          (\<exists>pre i m. zr_actions s = pre @ [OfferFile i m] \<and> list_all zr_plain pre)
      | AwaitSink n _ _ _ \<Rightarrow>
          (\<exists>pre i off bs. zr_actions s = pre @ [WriteFile i off bs] \<and> length bs = n \<and> list_all zr_plain pre)
      | Terminal \<Rightarrow> False
      | _ \<Rightarrow> list_all zr_plain (zr_actions s))"

lemma zr_ends_append: "list_all zr_plain pre \<Longrightarrow> zr_ends (pre @ as) = zr_ends as"
  by (induction pre rule: zr_ends.induct) simp_all

lemma zr_ends_more: "zr_ends as \<Longrightarrow> zr_ends (as @ bs)"
  by (induction as rule: zr_ends.induct) simp_all

lemma zr_quiet_emit: "zr_quiet s \<Longrightarrow> zr_plain a \<Longrightarrow> zr_quiet (zr_emit a s)"
  by (auto simp: zr_quiet_def zr_emit_def zr_ends_more)

lemma zr_quiet_fields [simp]:
  "zr_quiet (s\<lparr>zr_state := st\<rparr>) = zr_quiet s" "zr_quiet (s\<lparr>zr_wire := w\<rparr>) = zr_quiet s"
  "zr_quiet (s\<lparr>zr_written := n\<rparr>) = zr_quiet s" "zr_quiet (s\<lparr>zr_current := c\<rparr>) = zr_quiet s"
  "zr_quiet (s\<lparr>zr_file_index := i\<rparr>) = zr_quiet s" "zr_quiet (s\<lparr>zr_advertised_total_bytes := t\<rparr>) = zr_quiet s"
  "zr_quiet (s\<lparr>zr_completed_files := k\<rparr>) = zr_quiet s" "zr_quiet (s\<lparr>zr_transferred_bytes := t\<rparr>) = zr_quiet s"
  by (simp_all add: zr_quiet_def)

lemma zr_sync_wire [simp]: "zr_sync (s\<lparr>zr_wire := w\<rparr>) = zr_sync s"
  by (simp add: zr_sync_def split: zmodem_receiver_state.split)

lemma zr_quiet_sync: "zr_quiet s \<Longrightarrow> zr_simple (zr_state s) \<Longrightarrow> zr_sync s"
  by (auto simp: zr_quiet_def zr_sync_def zr_simple_def split: zmodem_receiver_state.splits)

lemma zr_sync_quiet: "zr_sync s \<Longrightarrow> zr_simple (zr_state s) \<Longrightarrow> zr_quiet s"
  by (auto simp: zr_quiet_def zr_sync_def zr_simple_def split: zmodem_receiver_state.splits)

lemma zr_sync_ends: "zr_ends (zr_actions s) \<Longrightarrow> zr_sync s"
  by (simp add: zr_sync_def)

lemma zr_final_ends:
  assumes "zr_quiet s"
  shows "zr_ends (zr_actions (zr_emit (Failed e) s))" "zr_ends (zr_actions (zr_emit (BatchCompleted b r) s))"
  using assms by (auto simp: zr_quiet_def zr_emit_def zr_ends_more zr_ends_append)

lemma zr_fail_sync: "zr_quiet s \<Longrightarrow> zr_sync (zr_fail s e)"
  by (rule zr_sync_ends) (simp add: zr_fail_def zr_final_ends)

lemma zr_write_plain [simp]: "zr_plain (zr_write_header h)"
  by (simp add: zr_write_header_def)

lemma zr_send_sync:
  assumes "zr_quiet s"
  shows "zr_sync (zr_send_receiver_init s a)" "zr_sync (zr_send_receiver_position s a)"
    "zr_sync (zr_send_finish s a)"
  using assms
  by (auto simp: zr_send_receiver_init_def zr_send_receiver_position_def zr_send_finish_def Let_def
      zr_simple_def intro!: zr_fail_sync zr_quiet_sync zr_quiet_emit)

lemma zr_retry_sync:
  assumes "zr_quiet s"
  shows "zr_sync (zr_retry_receiver_init s a)" "zr_sync (zr_retry_receiver_position s a)"
    "zr_sync (zr_retry_finish s a)" "zr_sync (zr_nak_or_fail s a)"
  using assms
  by (auto simp: zr_retry_receiver_init_def zr_retry_receiver_position_def zr_retry_finish_def
      zr_nak_or_fail_def zr_simple_def intro!: zr_fail_sync zr_send_sync zr_quiet_sync zr_quiet_emit)

lemma zr_recover_sync: "zr_quiet s \<Longrightarrow> zr_sync (zr_recover_corrupt_input s)"
  by (auto simp: zr_recover_corrupt_input_def Let_def
      intro!: zr_fail_sync zr_send_sync zr_retry_sync split: zmodem_receiver_state.split)

lemma zr_end_of_file_sync: "zr_quiet s \<Longrightarrow> zr_sync (zr_handle_end_of_file s off)"
  by (auto simp: zr_handle_end_of_file_def Let_def
      intro!: zr_fail_sync zr_send_sync zr_retry_sync zr_quiet_emit split: option.split)

lemma zr_emit_sync:
  assumes "zr_quiet s" and "zr_simple (zr_state s)" and "zr_plain a"
  shows "zr_sync (zr_emit a s)"
proof (cases "MAX_ZMODEM_PENDING_ACTIONS \<le> length (zr_actions s)")
  case True
  then show ?thesis by (intro zr_sync_ends) (simp add: zr_emit_def)
next
  case False
  then have "zr_state (zr_emit a s) = zr_state s" by (simp add: zr_emit_def)
  then show ?thesis using assms zr_quiet_emit zr_quiet_sync by metis
qed

lemma zr_handle_header_sync:
  assumes q: "zr_quiet s" and st: "zr_simple (zr_state s)"
  shows "zr_sync (zr_handle_header s d)"
proof (cases "zr_state s")
  case (AwaitHeader a)
  have "zr_sync (zr_emit (zr_write_header h) s)" for h
    using q st by (intro zr_emit_sync) simp_all
  then show ?thesis
    using q AwaitHeader by (auto simp: zr_handle_header_def Let_def zr_simple_def
        intro!: zr_fail_sync zr_send_sync zr_quiet_sync)
qed (use q in \<open>auto simp: zr_handle_header_def Let_def zr_simple_def
       intro!: zr_fail_sync zr_send_sync zr_retry_sync zr_end_of_file_sync zr_quiet_sync\<close>)

lemma zr_stop_sync:
  assumes "zr_quiet s"
  shows "zr_sync ((zr_emit (OfferFile i m) s)\<lparr>zr_state := AwaitAcceptance\<rparr>)"
    and "zr_sync ((zr_emit (WriteFile i off bs) s)\<lparr>zr_state := AwaitSink (length bs) e c a\<rparr>)"
  using assms by (auto simp: zr_sync_def zr_quiet_def zr_emit_def zr_ends_more)

lemma zr_handle_subpacket_sync:
  assumes q: "zr_quiet s" and st: "zr_simple (zr_state s)"
  shows "zr_sync (zr_handle_subpacket s packet c)"
proof (cases "zr_state s")
  case (AwaitMetadata c' a)
  then show ?thesis
    using q by (auto simp: zr_handle_subpacket_def zr_handle_metadata_def Let_def
        intro!: zr_fail_sync zr_stop_sync split: sum.split)
next
  case (AwaitData c' a)
  then show ?thesis
    using q by (auto simp: zr_handle_subpacket_def zr_handle_data_def
        intro!: zr_fail_sync zr_stop_sync split: option.split)
qed (use q in \<open>auto simp: zr_handle_subpacket_def zr_simple_def
       intro!: zr_fail_sync zr_quiet_sync zr_quiet_emit\<close>)

lemma zr_pump_once_sync:
  assumes "zr_sync s" shows "zr_sync (fst (zr_pump_once s))"
proof (cases "zr_simple (zr_state s)")
  case True
  with assms have q: "zr_quiet s" by (rule zr_sync_quiet)
  have w: "zr_sync (s\<lparr>zr_wire := w\<rparr>)" for w using assms by simp
  have h: "zr_sync (fst (zr_pump_header s))"
    using q w True by (auto simp: zr_pump_header_def intro!: zr_fail_sync zr_recover_sync zr_handle_header_sync
        split: prod.split sum.split option.split)
  have p: "zr_sync (fst (zr_pump_subpacket s c))" for c
    using q w True by (auto simp: zr_pump_subpacket_def intro!: zr_fail_sync zr_recover_sync zr_handle_subpacket_sync
        split: prod.split sum.split option.split)
  have "zr_sync (zr_complete_batch (s\<lparr>zr_wire := v\<rparr>))" for v
    using q by (intro zr_sync_ends)
      (auto simp: zr_complete_batch_def Let_def intro!: zr_final_ends split: prod.split)
  then have o: "zr_sync (fst (zr_pump_over_and_out s))"
    using q w by (auto simp: zr_pump_over_and_out_def intro!: zr_fail_sync split: prod.split sum.split bool.split)
  show ?thesis
    using assms h p o by (cases "zr_state s") (simp_all add: zr_pump_once_def)
qed (use assms in \<open>auto simp: zr_pump_once_def zr_simple_def split: zmodem_receiver_state.splits\<close>)

lemma zr_pump_sync: "zr_sync s \<Longrightarrow> zr_sync (zr_pump s)"
proof (induction s rule: zr_pump.induct)
  case (1 s)
  obtain t b where once: "zr_pump_once s = (t, b)" by fastforce
  then have "zr_sync t" using zr_pump_once_sync [OF 1(2)] by simp
  then show ?case
    using 1 once by (cases b) (simp_all add: zr_pump.simps [of s])
qed

subsection \<open>Counting completed files\<close>

fun zr_doomed :: "zmodem_receiver_action list \<Rightarrow> bool" where
  "zr_doomed [] = False"
| "zr_doomed (Failed _ # as) = True"
| "zr_doomed (BatchCompleted _ _ # as) = False"
| "zr_doomed (_ # as) = zr_doomed as"

fun zr_completions :: "zmodem_receiver_action list \<Rightarrow> nat list" where
  "zr_completions [] = []"
| "zr_completions (FileCompleted f # as) = zf_transferred_bytes f # zr_completions as"
| "zr_completions (_ # as) = zr_completions as"

fun zr_no_batch :: "zmodem_receiver_action list \<Rightarrow> bool" where
  "zr_no_batch [] = True"
| "zr_no_batch (BatchCompleted _ _ # as) = False"
| "zr_no_batch (_ # as) = zr_no_batch as"

fun zr_uncounted :: "zmodem_receiver_action \<Rightarrow> bool" where
  "zr_uncounted (FileCompleted _) = False"
| "zr_uncounted (BatchCompleted _ _) = False"
| "zr_uncounted _ = True"

definition zr_counts_fit :: "nat \<Rightarrow> nat \<Rightarrow> zmodem_receiver_action list \<Rightarrow> nat \<Rightarrow> nat \<Rightarrow> bool" where
  "zr_counts_fit n b as files total_bytes \<longleftrightarrow>
     n + length (zr_completions as) = files \<and> b + sum_list (zr_completions as) = total_bytes"

definition zr_count :: "nat \<Rightarrow> nat \<Rightarrow> zmodem_receiver \<Rightarrow> bool" where
  "zr_count n b s \<longleftrightarrow> zr_doomed (zr_actions s) \<or> zr_no_batch (zr_actions s) \<and>
     zr_counts_fit n b (zr_actions s) (zr_completed_files s) (zr_transferred_bytes s)"

definition zr_tally :: "nat \<Rightarrow> nat \<Rightarrow> zmodem_receiver \<Rightarrow> bool" where
  "zr_tally n b s \<longleftrightarrow> zr_count n b s \<or>
     zr_is_terminal s \<and> (\<exists>pre v r. zr_actions s = pre @ [BatchCompleted v r] \<and> zr_no_batch pre \<and>
       zr_counts_fit n b pre (zb_completed_files v) (zb_transferred_bytes v))"

lemma zr_completions_append [simp]: "zr_completions (as @ bs) = zr_completions as @ zr_completions bs"
  by (induction as rule: zr_completions.induct) simp_all

lemma zr_no_batch_append [simp]: "zr_no_batch (as @ bs) \<longleftrightarrow> zr_no_batch as \<and> zr_no_batch bs"
  by (induction as rule: zr_no_batch.induct) simp_all

lemma zr_doomed_more: "zr_doomed as \<Longrightarrow> zr_doomed (as @ bs)"
  by (induction as rule: zr_doomed.induct) simp_all

lemma zr_uncounted_simps:
  "zr_uncounted a \<Longrightarrow> zr_completions [a] = []" "zr_uncounted a \<Longrightarrow> zr_no_batch [a]"
  by (cases a; simp)+

lemma zr_count_emit: "zr_count n b s \<Longrightarrow> zr_uncounted a \<Longrightarrow> zr_count n b (zr_emit a s)"
  by (auto simp: zr_count_def zr_emit_def zr_doomed_more zr_counts_fit_def zr_uncounted_simps)

lemma zr_count_fields [simp]:
  "zr_count n b (s\<lparr>zr_state := st\<rparr>) = zr_count n b s" "zr_count n b (s\<lparr>zr_wire := w\<rparr>) = zr_count n b s"
  "zr_count n b (s\<lparr>zr_written := x\<rparr>) = zr_count n b s" "zr_count n b (s\<lparr>zr_current := c\<rparr>) = zr_count n b s"
  "zr_count n b (s\<lparr>zr_file_index := i\<rparr>) = zr_count n b s"
  "zr_count n b (s\<lparr>zr_advertised_total_bytes := t\<rparr>) = zr_count n b s"
  by (simp_all add: zr_count_def)

lemma zr_uncounted_write [simp]: "zr_uncounted (zr_write_header h)"
  by (simp add: zr_write_header_def)

lemma zr_send_count:
  assumes "zr_count n b s"
  shows "zr_count n b (zr_fail s e)" "zr_count n b (zr_send_receiver_init s a)"
    "zr_count n b (zr_send_receiver_position s a)" "zr_count n b (zr_send_finish s a)"
    "zr_count n b (zr_retry_receiver_init s a)" "zr_count n b (zr_retry_receiver_position s a)"
    "zr_count n b (zr_retry_finish s a)" "zr_count n b (zr_nak_or_fail s a)"
  using assms
  by (auto simp: zr_fail_def zr_send_receiver_init_def zr_send_receiver_position_def zr_send_finish_def
      zr_retry_receiver_init_def zr_retry_receiver_position_def zr_retry_finish_def zr_nak_or_fail_def
      Let_def intro!: zr_count_emit)

lemma zr_recover_count: "zr_count n b s \<Longrightarrow> zr_count n b (zr_recover_corrupt_input s)"
  by (auto simp: zr_recover_corrupt_input_def Let_def intro!: zr_send_count
      split: zmodem_receiver_state.split)

lemma zr_emit_completed:
  assumes "zr_count n b s"
  shows "zr_count n b ((zr_emit (FileCompleted f) s)\<lparr>zr_completed_files := zr_completed_files s + 1,
    zr_transferred_bytes := zr_transferred_bytes s + zf_transferred_bytes f\<rparr>)"
  using assms by (auto simp: zr_count_def zr_emit_def zr_doomed_more zr_counts_fit_def)

lemma zr_end_of_file_count:
  assumes inv: "zr_inv k s" and count: "zr_count n b s" and st: "\<not> zr_is_terminal s"
    and cond: "\<And>m. zr_current s = Some m \<Longrightarrow> zr_written s \<le> zm_total_bytes m"
  shows "zr_count n b (zr_handle_end_of_file s off)"
proof (cases "zr_current s")
  case (Some m)
  have "zr_counts s" using zr_inv_at [OF inv st] by (simp add: zr_at_def)
  then have "zr_transferred_bytes s + zm_total_bytes m \<le> zr_opened s * MAX_ZMODEM_FILE_BYTES"
    and "zr_opened s \<le> MAX_ZMODEM_BATCH_FILES"
    using Some by (simp_all add: zr_counts_def zr_open_bytes_def)
  moreover from this(2) have "zr_opened s * MAX_ZMODEM_FILE_BYTES \<le> MAX_ZMODEM_BATCH_FILES * MAX_ZMODEM_FILE_BYTES"
    by simp
  ultimately have "zr_transferred_bytes s + zr_written s \<le> U64_MAX"
    using cond [OF Some] by (simp add: MAX_ZMODEM_FILE_BYTES_def MAX_ZMODEM_BATCH_FILES_def)
  then have sat: "saturating_add64 (zr_transferred_bytes s) (zr_written s) =
      zr_transferred_bytes s + zr_written s" by simp
  have move: "zr_emit a (t\<lparr>zr_current := x, zr_completed_files := y, zr_transferred_bytes := z\<rparr>) =
      (zr_emit a t)\<lparr>zr_current := x, zr_completed_files := y, zr_transferred_bytes := z\<rparr>" for a t x y z
    by (simp add: zr_emit_def)
  have hint: "zr_file_count_hint_from (t\<lparr>zr_current := x, zr_completed_files := y,
      zr_transferred_bytes := z\<rparr>) m = zr_file_count_hint_from t m" for t x y z
    by (simp add: zr_file_count_hint_from_def split: option.split)
  define p where "p = Progress \<lparr>zp_file_index = zr_file_index s, zp_file_count = zr_file_count_hint_from s m,
    zp_transferred_bytes = zr_written s, zp_total_bytes = zm_total_bytes m, zp_stage = StageComplete\<rparr>"
  define f where "f = \<lparr>zf_file_index = zr_file_index s, zf_total_bytes = zm_total_bytes m,
    zf_transferred_bytes = zr_written s\<rparr>"
  have "zr_count n b (zr_emit p s)" using count by (intro zr_count_emit) (simp_all add: p_def)
  then have "zr_count n b ((zr_emit (FileCompleted f) (zr_emit p s))
      \<lparr>zr_completed_files := zr_completed_files s + 1,
       zr_transferred_bytes := zr_transferred_bytes s + zr_written s\<rparr>)"
    using zr_emit_completed [of n b "zr_emit p s" f] by (simp add: f_def)
  then have "zr_count n b ((zr_emit (FileCompleted f) (zr_emit p s))\<lparr>zr_current := None,
       zr_completed_files := zr_completed_files s + 1,
       zr_transferred_bytes := zr_transferred_bytes s + zr_written s,
       zr_file_index := zr_file_index s + 1, zr_written := 0\<rparr>)"
    by (simp add: zr_count_def)
  then have "zr_count n b (zr_send_receiver_init ((zr_emit (FileCompleted f) (zr_emit p s))
      \<lparr>zr_current := None, zr_completed_files := zr_completed_files s + 1,
       zr_transferred_bytes := zr_transferred_bytes s + zr_written s,
       zr_file_index := zr_file_index s + 1, zr_written := 0\<rparr>) 1)"
    by (rule zr_send_count)
  then show ?thesis
    using Some zr_send_count(6) [OF count] sat
    by (auto simp: zr_handle_end_of_file_def Let_def move hint p_def f_def)
qed (simp add: zr_handle_end_of_file_def zr_send_count(1) [OF count])

lemma zr_handle_header_count:
  assumes inv: "zr_inv k s" and count: "zr_count n b s" and st: "zr_simple (zr_state s)"
  shows "zr_count n b (zr_handle_header s d)"
proof -
  have live: "\<not> zr_is_terminal s" using st by (simp add: zr_simple_def zr_is_terminal_def split: zmodem_receiver_state.splits)
  have eof: "zr_count n b (zr_handle_end_of_file s off)"
    if "zr_state s = AwaitDataHeader a \<or> zr_state s = AwaitEndOfFile a" for a off
    using that zr_inv_facts(2) [OF inv, of a] by (intro zr_end_of_file_count [OF inv count live]) auto
  show ?thesis
    using count st eof
    by (auto simp: zr_handle_header_def Let_def intro!: zr_send_count zr_count_emit
        split: zmodem_receiver_state.split)
qed

lemma zr_handle_subpacket_count:
  "zr_count n b s \<Longrightarrow> zr_count n b (zr_handle_subpacket s packet c)"
  by (auto simp: zr_handle_subpacket_def zr_handle_metadata_def zr_handle_data_def Let_def
      intro!: zr_send_count zr_count_emit
      split: zmodem_receiver_state.split sum.split option.split)

lemma zr_count_tally: "zr_count n b s \<Longrightarrow> zr_tally n b s"
  by (simp add: zr_tally_def)

lemma zr_tally_count: "zr_tally n b s \<Longrightarrow> \<not> zr_is_terminal s \<Longrightarrow> zr_count n b s"
  by (simp add: zr_tally_def)

lemma zr_complete_batch_tally:
  assumes "zr_count n b s" shows "zr_tally n b (zr_complete_batch s)"
proof (cases "MAX_ZMODEM_PENDING_ACTIONS \<le> length (zr_actions s) \<or> zr_doomed (zr_actions s)")
  case True
  then have "zr_doomed (zr_actions (zr_complete_batch s))"
    by (auto simp: zr_complete_batch_def zr_emit_def Let_def zr_doomed_more split: prod.split)
  then show ?thesis by (simp add: zr_tally_def zr_count_def)
next
  case False
  then have "zr_no_batch (zr_actions s)"
    "zr_counts_fit n b (zr_actions s) (zr_completed_files s) (zr_transferred_bytes s)"
    using assms by (simp_all add: zr_count_def)
  with False show ?thesis
    by (auto simp: zr_tally_def zr_complete_batch_def zr_emit_def Let_def zr_is_terminal_def
        split: prod.split)
qed

lemma zr_pump_once_tally:
  assumes inv: "zr_inv k s" and tally: "zr_tally n b s"
  shows "zr_tally n b (fst (zr_pump_once s))"
proof (cases "zr_simple (zr_state s)")
  case True
  then have "\<not> zr_is_terminal s" by (simp add: zr_simple_def zr_is_terminal_def split: zmodem_receiver_state.splits)
  with tally have count: "zr_count n b s" by (rule zr_tally_count)
  have w: "zr_count n b (s\<lparr>zr_wire := w\<rparr>)" "zr_inv k (s\<lparr>zr_wire := w\<rparr>)" for w
    using count inv by simp_all
  have h: "zr_count n b (fst (zr_pump_header s))"
    using w True by (auto simp: zr_pump_header_def intro!: zr_send_count zr_recover_count
        zr_handle_header_count [where k = k] split: prod.split sum.split option.split)
  have p: "zr_count n b (fst (zr_pump_subpacket s c))" for c
    using w by (auto simp: zr_pump_subpacket_def intro!: zr_send_count zr_recover_count
        zr_handle_subpacket_count split: prod.split sum.split option.split)
  have o: "zr_tally n b (fst (zr_pump_over_and_out s))"
    using zr_count_tally [OF zr_send_count(1) [OF w(1)]] zr_complete_batch_tally [OF w(1)]
      zr_count_tally [OF w(1)]
    by (auto simp: zr_pump_over_and_out_def split: prod.split sum.split bool.split)
  show ?thesis
    using tally zr_count_tally [OF h] zr_count_tally [OF p] o
    by (cases "zr_state s") (simp_all add: zr_pump_once_def)
qed (use tally in \<open>auto simp: zr_pump_once_def zr_simple_def split: zmodem_receiver_state.splits\<close>)

lemma zr_pump_tally: "zr_inv k s \<Longrightarrow> zr_tally n b s \<Longrightarrow> zr_tally n b (zr_pump s)"
proof (induction s rule: zr_pump.induct)
  case (1 s)
  obtain t c where once: "zr_pump_once s = (t, c)" by fastforce
  then have "zr_inv k t" "zr_tally n b t"
    using zr_pump_once_inv [OF 1(2)] zr_pump_once_tally [OF 1(2,3)] by simp_all
  then show ?case
    using 1 once by (cases c) (simp_all add: zr_pump.simps [of s])
qed

subsection \<open>Calls of the driver\<close>

lemma zr_sync_empty:
  assumes "zr_sync s" and "zr_actions s = []"
  shows "zr_simple (zr_state s)" and "zr_quiet s" and "\<not> zr_is_terminal s" and "zr_timeout s \<noteq> None"
  using assms
  by (auto simp: zr_sync_def zr_simple_def zr_quiet_def zr_is_terminal_def zr_timeout_def
      split: zmodem_receiver_state.splits)

lemma zr_next_sync:
  assumes "zr_sync s" and "zr_next_action s = (t, Some a)"
  shows "zr_plain a \<Longrightarrow> zr_sync t"
    and "a = OfferFile i m \<Longrightarrow> zr_state t = AwaitAcceptance \<and> zr_actions t = []"
    and "a = WriteFile i off bs \<Longrightarrow> \<exists>e c k. zr_state t = AwaitSink (length bs) e c k \<and> zr_actions t = []"
proof -
  obtain rest where q: "zr_actions s = a # rest" and t: "t = s\<lparr>zr_actions := rest\<rparr>"
    using assms(2) by (auto simp: zr_next_action_def split: list.splits)
  have cases: "pre @ [x] = a # rest \<Longrightarrow> (pre = [] \<and> x = a \<and> rest = []) \<or>
      (\<exists>pre'. pre = a # pre' \<and> rest = pre' @ [x])" for pre x
    by (cases pre) auto
  show "zr_plain a \<Longrightarrow> zr_sync t"
    using assms(1) cases by (cases a)
      (fastforce simp: zr_sync_def q t split: zmodem_receiver_state.splits)+
  show "a = OfferFile i m \<Longrightarrow> zr_state t = AwaitAcceptance \<and> zr_actions t = []"
    using assms(1) cases
    by (fastforce simp: zr_sync_def q t split: zmodem_receiver_state.splits)
  show "a = WriteFile i off bs \<Longrightarrow> \<exists>e c k. zr_state t = AwaitSink (length bs) e c k \<and> zr_actions t = []"
    using assms(1) cases
    by (fastforce simp: zr_sync_def q t split: zmodem_receiver_state.splits)
qed

lemma zr_new_sync: "zr_sync (zr_new c)"
  unfolding zr_new_def by (rule zr_send_sync) (simp add: zr_quiet_def)

lemma zr_accept_sync:
  assumes "zr_state s = AwaitAcceptance" and "zr_actions s = []" and "zr_current s \<noteq> None"
  shows "snd (zr_accept_file s) = Inr ()" and "zr_sync (fst (zr_accept_file s))"
proof -
  have "zr_quiet s" using assms(2) by (simp add: zr_quiet_def)
  then show "snd (zr_accept_file s) = Inr ()" "zr_sync (fst (zr_accept_file s))"
    using assms by (auto simp: zr_accept_file_def Let_def
        intro!: zr_pump_sync zr_send_sync zr_quiet_emit split: option.split)
qed

lemma zr_after_write_sync:
  assumes "zr_quiet s" shows "zr_sync (zr_after_write s e c a n)"
  using assms by (auto simp: zr_after_write_def Let_def zr_simple_def intro!: zr_quiet_sync zr_quiet_emit)

lemma zr_confirm_sync:
  assumes "zr_state s = AwaitSink n e c a" and "zr_actions s = []" and "zr_current s \<noteq> None"
  shows "snd (zr_confirm_file_write s n) = Inr ()" and "zr_sync (fst (zr_confirm_file_write s n))"
proof -
  have "zr_quiet s" using assms(2) by (simp add: zr_quiet_def)
  then show "snd (zr_confirm_file_write s n) = Inr ()" "zr_sync (fst (zr_confirm_file_write s n))"
    using assms by (auto simp: zr_confirm_file_write_def Let_def
        intro!: zr_pump_sync zr_fail_sync zr_after_write_sync split: option.split)
qed

lemma zr_timeout_sync:
  assumes "zr_sync s" and "zr_actions s = []"
  shows "snd (zr_on_timeout s) = Inr ()" and "zr_sync (fst (zr_on_timeout s))"
proof -
  note s = zr_sync_empty [OF assms]
  show "snd (zr_on_timeout s) = Inr ()"
    using s(1,3) by (auto simp: zr_on_timeout_def Let_def zr_simple_def split: zmodem_receiver_state.splits)
  show "zr_sync (fst (zr_on_timeout s))"
    using s by (auto simp: zr_on_timeout_def Let_def zr_simple_def intro!: zr_retry_sync
        split: zmodem_receiver_state.splits)
qed

lemma zr_cancel_sync:
  assumes "zr_sync s" and "zr_actions s = []"
  shows "snd (zr_cancel s) = Inr ()" and "zr_sync (fst (zr_cancel s))"
  using zr_sync_empty [OF assms] by (auto simp: zr_cancel_def intro!: zr_fail_sync zr_quiet_emit)

lemma zr_push_sync:
  assumes "zr_sync s" and "zr_actions s = []"
  shows "snd (zr_push_serial_bytes s bs) \<noteq> Inl zmodem_error.InvalidState"
    and "zr_sync (fst (zr_push_serial_bytes s bs))"
proof -
  note s = zr_sync_empty [OF assms]
  show "snd (zr_push_serial_bytes s bs) \<noteq> Inl zmodem_error.InvalidState"
    using s(3) by (auto simp: zr_push_serial_bytes_def zd_push_def split: prod.splits sum.splits if_splits)
  show "zr_sync (fst (zr_push_serial_bytes s bs))"
    using s(3) assms(1) by (auto simp: zr_push_serial_bytes_def intro!: zr_pump_sync split: prod.split sum.split)
qed

lemma zr_next_tally:
  assumes "zr_tally n b s" and "zr_next_action s = (t, Some a)"
  shows "zr_uncounted a \<Longrightarrow> (\<And>e. a \<noteq> Failed e) \<Longrightarrow> zr_tally n b t"
    and "a = FileCompleted f \<Longrightarrow> zr_tally (n + 1) (b + zf_transferred_bytes f) t"
    and "a = BatchCompleted v r \<Longrightarrow> n = zb_completed_files v \<and> b = zb_transferred_bytes v"
proof -
  obtain rest where q: "zr_actions s = a # rest" and t: "t = s\<lparr>zr_actions := rest\<rparr>"
    using assms(2) by (auto simp: zr_next_action_def split: list.splits)
  have cases: "a # rest = pre @ [x] \<Longrightarrow> (pre = [] \<and> x = a \<and> rest = []) \<or>
      (\<exists>pre'. pre = a # pre' \<and> rest = pre' @ [x])" for pre x
    by (cases pre) auto
  show "zr_uncounted a \<Longrightarrow> (\<And>e. a \<noteq> Failed e) \<Longrightarrow> zr_tally n b t"
    using assms(1) cases
    by (cases a) (auto simp: zr_tally_def zr_count_def zr_counts_fit_def q t zr_is_terminal_def)
  show "a = FileCompleted f \<Longrightarrow> zr_tally (n + 1) (b + zf_transferred_bytes f) t"
    using assms(1) cases
    by (auto simp: zr_tally_def zr_count_def zr_counts_fit_def q t zr_is_terminal_def)
  show "a = BatchCompleted v r \<Longrightarrow> n = zb_completed_files v \<and> b = zb_transferred_bytes v"
    using assms(1) cases by (auto simp: zr_tally_def zr_count_def zr_counts_fit_def q)
qed

lemma zr_new_tally: "zr_tally 0 0 (zr_new c)"
  unfolding zr_new_def
  by (intro zr_count_tally zr_send_count) (simp add: zr_count_def zr_counts_fit_def)

lemma zr_count_calls:
  assumes inv: "zr_inv k s" and count: "zr_count n b s" and cond: "zr_state s = AwaitAcceptance \<Longrightarrow> zr_actions s = []"
  shows "zr_tally n b (fst (zr_on_timeout s))" "zr_tally n b (fst (zr_cancel s))"
    "zr_tally n b (fst (zr_push_serial_bytes s bs))"
proof -
  show "zr_tally n b (fst (zr_on_timeout s))"
    using count by (auto simp: zr_on_timeout_def Let_def intro!: zr_count_tally zr_send_count
        split: zmodem_receiver_state.split)
  show "zr_tally n b (fst (zr_cancel s))"
    using count by (auto simp: zr_cancel_def intro!: zr_count_tally zr_send_count zr_count_emit)
  have w: "zr_tally n b (s\<lparr>zr_wire := w\<rparr>)" "zr_inv k (s\<lparr>zr_wire := w\<rparr>)" for w
    using zr_count_tally [OF count] inv count by (simp_all add: zr_count_tally)
  show "zr_tally n b (fst (zr_push_serial_bytes s bs))"
    using zr_count_tally [OF count] w zr_pump_tally [OF w(2,1)]
    by (auto simp: zr_push_serial_bytes_def split: prod.split sum.split)
qed

lemma zr_accept_tally:
  assumes inv: "zr_inv k s" and count: "zr_count n b s" and st: "zr_state s = AwaitAcceptance"
  shows "zr_tally n b (fst (zr_accept_file s))"
proof -
  obtain m p u where u: "u = zr_send_receiver_position
      (zr_emit (Progress p) (zr_emit (BeginFile (zr_file_index s) m) (s\<lparr>zr_written := 0\<rparr>))) 1"
    and pump: "zr_accept_file s = (zr_pump u, Inr ())" "zr_inv k u"
    using zr_accept_pumps [OF inv st] by blast
  have "zr_count n b u" unfolding u using count by (intro zr_send_count zr_count_emit) simp_all
  then show ?thesis using pump by (simp add: zr_pump_tally zr_count_tally)
qed

lemma zr_confirm_tally:
  assumes inv: "zr_inv k s" and count: "zr_count n b s" and st: "zr_state s = AwaitSink x e c a"
  shows "zr_tally n b (fst (zr_confirm_file_write s x))"
proof -
  obtain m u where u: "u = zr_after_write (s\<lparr>zr_written := zr_written s + x\<rparr>) e c a m"
    and pump: "zr_confirm_file_write s x = (zr_pump u, Inr ())" "zr_inv k u"
    using zr_confirm_pumps [OF inv st] by blast
  have "zr_count n b u"
    unfolding u using count by (simp add: zr_after_write_def Let_def zr_count_emit)
  then show ?thesis using pump by (simp add: zr_pump_tally zr_count_tally)
qed

section \<open>The driver's invariant\<close>

definition published_bytes :: "(rstr \<times> zmodem_file_metadata \<times> bytes) list \<Rightarrow> nat" where
  "published_bytes files = sum_list (map (\<lambda>(name, m, content). length content) files)"

definition published_ok :: "(rstr \<times> zmodem_file_metadata \<times> bytes) list \<Rightarrow> bool" where
  "published_ok files \<longleftrightarrow>
     (\<forall>(name, m, content) \<in> set files. zr_offer_ok m \<and> length content = zm_total_bytes m)"

definition receive_live :: "receive_drive \<Rightarrow> bool" where
  "receive_live s \<longleftrightarrow> zr_inv (Sink (rd_file s)) (rd_receiver s) \<and> zr_sync (rd_receiver s) \<and>
     zr_tally (length (rd_published s)) (published_bytes (rd_published s)) (rd_receiver s)"

definition receive_result_ok :: "receive_drive \<Rightarrow> bool" where
  "receive_result_ok s \<longleftrightarrow>
     (case rd_result s of
        None \<Rightarrow> True
      | Some (Inl e) \<Rightarrow> e \<noteq> AdapterInvalidState
      | Some (Inr (v, rest)) \<Rightarrow> rd_file s = None \<and> zb_completed_files v = length (rd_published s) \<and>
          zb_transferred_bytes v = published_bytes (rd_published s))"

definition rd_file_ok :: "receive_drive \<Rightarrow> bool" where
  "rd_file_ok s \<longleftrightarrow> (\<forall>i m content. rd_file s = Some (i, m, content) \<longrightarrow> zr_offer_ok m)"

definition receive_inv :: "receive_drive \<Rightarrow> bool" where
  "receive_inv s \<longleftrightarrow> (rd_result s = None \<longrightarrow> receive_live s) \<and> receive_result_ok s \<and>
     pending_ok (rd_pending s) \<and> published_ok (rd_published s) \<and> rd_file_ok s"

lemma write_at_end: "write_at (length content) bs content = content @ bs"
  by (simp add: write_at_def)

lemma receive_fail_inv:
  assumes "e \<noteq> AdapterInvalidState" and "pending_ok (rd_pending s)" and "published_ok (rd_published s)"
    and "rd_file_ok s"
  shows "receive_inv (receive_fail e s)"
  using assms by (simp add: receive_inv_def receive_fail_def receive_result_ok_def rd_file_ok_def)

lemma receive_call_inv:
  assumes "snd called = Inr () \<Longrightarrow> receive_live (s\<lparr>rd_receiver := fst called\<rparr>)"
    and "rd_result s = None" and "pending_ok (rd_pending s)" and "published_ok (rd_published s)"
    and "rd_file_ok s"
  shows "receive_inv (receive_call called s)"
proof (cases "snd called")
  case (Inl e)
  then have "receive_call called s = receive_fail (Protocol e) (s\<lparr>rd_receiver := fst called\<rparr>)"
    by (simp add: receive_call_def case_prod_beta)
  then show ?thesis
    using assms(3-5) by (simp add: receive_fail_inv rd_file_ok_def)
next
  case (Inr u)
  then have "receive_call called s = s\<lparr>rd_receiver := fst called\<rparr>"
    by (simp add: receive_call_def case_prod_beta)
  then show ?thesis
    using assms Inr by (simp add: receive_inv_def receive_result_ok_def rd_file_ok_def)
qed

lemma native_publish_result:
  assumes "outside_error r" and "\<And>h d. how = Some (h, d) \<Longrightarrow> d = CommitWon \<longleftrightarrow> (\<exists>v. r = Inr v)"
    and "\<And>q d. how = Some (Interrupted q, d) \<Longrightarrow> q \<noteq> AdapterInvalidState"
  shows "fst (wait_for_native_publish how r) = Inl e \<Longrightarrow> e \<noteq> AdapterInvalidState"
  using assms
  by (auto simp: wait_for_native_publish_def outside_error_def
      cancellation_won_publish_result_def committed_publish_interruption_def
      split: option.splits publish_interruption.splits publish_cancel_disposition.splits sum.splits if_splits)

lemma native_publish_Inr: "fst (wait_for_native_publish how r) = Inr v \<Longrightarrow> r = Inr v"
  by (auto simp: wait_for_native_publish_def
      cancellation_won_publish_result_def committed_publish_interruption_def
      split: option.splits publish_interruption.splits publish_cancel_disposition.splits sum.splits if_splits)

lemma wait_publish_error:
  assumes "outside_error r" and "d = CommitWon \<longleftrightarrow> (\<exists>v. r = Inr v)"
    and "snd (wait_for_publish_arrivals arrivals p d r) = Inl e"
  shows "e \<noteq> AdapterInvalidState"
  using assms
proof (induction arrivals p d r rule: wait_for_publish_arrivals.induct)
  case (1 p d r)
  then show ?case using native_publish_result [of r None e] by simp
next
  case (2 rest p d r)
  then show ?case
    using native_publish_result [of r "Some (UserCancelled, d)" e] by (simp add: case_prod_beta)
next
  case (3 bs rest p d r)
  show ?case
  proof (cases "snd (pending_push p (RawData bs))")
    case (Inl q)
    then have "q \<noteq> AdapterInvalidState" using pending_push_error [of p "RawData bs" q] by simp
    then show ?thesis
      using 3 Inl native_publish_result [of r "Some (Interrupted q, d)" e] by (simp add: case_prod_beta)
  next
    case (Inr u)
    then show ?thesis
      using 3(1) [OF prod.collapse Inr 3(2,3)] 3(4) by (simp add: case_prod_beta)
  qed
next
  case (4 rest p d r)
  then show ?case
    using native_publish_result [of r "Some (Interrupted SerialClosed, d)" e] by simp
qed

lemma wait_publish_Inr:
  "snd (wait_for_publish_arrivals arrivals p d r) = Inr v \<Longrightarrow> r = Inr v"
proof (induction arrivals p d r rule: wait_for_publish_arrivals.induct)
  case (3 bs rest p d r)
  show ?case
  proof (cases "snd (pending_push p (RawData bs))")
    case (Inl q)
    then show ?thesis using 3(2) native_publish_Inr by (simp add: case_prod_beta)
  next
    case (Inr u)
    then show ?thesis
      using 3(1) [OF prod.collapse Inr] 3(2) by (simp add: case_prod_beta)
  qed
qed (auto simp: case_prod_beta dest: native_publish_Inr)

lemma receive_next:
  assumes live: "receive_live s" and a: "zr_next_action (rd_receiver s) = (r, Some a)"
  shows "zr_contract (Sink (rd_file s)) a \<noteq> Broken" and "zr_inv (zr_contract (Sink (rd_file s)) a) r"
  using live zr_inv_contract(2) [OF _ a] zr_next_inv [OF _ a] by (simp_all add: receive_live_def)

lemma receive_neutral_live:
  assumes live: "receive_live s" and a: "zr_next_action (rd_receiver s) = (r, Some a)"
    and plain: "zr_plain a" "zr_uncounted a" "zr_contract (Sink (rd_file s)) a = Sink (rd_file s)"
  shows "receive_live (s\<lparr>rd_receiver := r, rd_pending := p\<rparr>)"
proof -
  have "\<And>e. a \<noteq> Failed e" using plain(1) by auto
  then show ?thesis
    using live receive_next(2) [OF live a] zr_next_sync(1) [OF _ a plain(1)] zr_next_tally(1) [OF _ a plain(2)]
      plain(3) by (simp add: receive_live_def)
qed

lemma receive_offer_inv:
  assumes live: "receive_live s" and a: "zr_next_action (rd_receiver s) = (r, Some (OfferFile i m))"
    and t: "t = s\<lparr>rd_receiver := r, rd_pending := p\<rparr>" and p: "pending_ok p"
    and ok: "published_ok (rd_published s)" "rd_result s = None" and input: "drive_input_ok input"
  shows "receive_inv (receive_offer input i m t)"
proof -
  note taken = receive_next [OF live a]
  have fresh: "rd_file s = None" "zr_offer_ok m" using taken(1) by (auto split: if_splits)
  have r: "zr_inv (Sink (Some (i, m, []))) r" using taken(2) fresh by simp
  have st: "zr_state r = AwaitAcceptance" "zr_actions r = []"
    using zr_next_sync(2) [OF _ a] live by (simp_all add: receive_live_def)
  have "zr_count (length (rd_published s)) (published_bytes (rd_published s)) r"
    using zr_next_tally(1) [OF _ a] live st
    by (intro zr_tally_count) (simp_all add: receive_live_def zr_is_terminal_def)
  note tally = zr_accept_tally [OF r this st(1)]
  have "zr_current r \<noteq> None" using r st by (auto simp: zr_inv_def zr_is_terminal_def)
  note accept = zr_accept_sync [OF st this]
  obtain q res where wait: "wait_for_native_operation (in_arrivals input) p (in_native input) = (q, res)"
    by force
  have q: "pending_ok q" using wait_operation_ok [OF p, of "in_arrivals input" "in_native input"] wait by simp
  show ?thesis
  proof (cases res)
    case (Inl e)
    then have "e \<noteq> AdapterInvalidState"
      using wait_operation_error [of "in_arrivals input" p "in_native input" e] wait input
      by (auto simp: drive_input_ok_def outside_error_def)
    then show ?thesis
      using q ok fresh wait Inl by (simp add: receive_offer_def t receive_fail_inv rd_file_ok_def)
  next
    case (Inr u)
    have "receive_inv (receive_call (zr_accept_file r) (s\<lparr>rd_receiver := r, rd_pending := q, rd_file := Some (i, m, [])\<rparr>))"
      using ok q accept tally zr_accept_inv [OF r] fresh
      by (intro receive_call_inv) (simp_all add: receive_live_def rd_file_ok_def)
    then show ?thesis using wait Inr fresh by (simp add: receive_offer_def t)
  qed
qed

lemma receive_write_inv:
  assumes live: "receive_live s" and a: "zr_next_action (rd_receiver s) = (r, Some (WriteFile i off bs))"
    and t: "t = s\<lparr>rd_receiver := r, rd_pending := p\<rparr>" and p: "pending_ok p"
    and ok: "published_ok (rd_published s)" "rd_result s = None" "rd_file_ok s"
    and input: "drive_input_ok input"
  shows "receive_inv (receive_write input i off bs t)"
proof -
  note taken = receive_next [OF live a]
  obtain n c where pend: "rd_file s = Some (i, n, c)" and off: "off = length c"
    using taken(1) by (cases "rd_file s") (auto split: if_splits)
  have r: "zr_inv (Sink (Some (i, n, c @ bs))) r"
    using taken by (auto simp: pend off split: if_splits)
  obtain e k x where st: "zr_state r = AwaitSink (length bs) e k x" and q: "zr_actions r = []"
    using zr_next_sync(3) [OF _ a refl] live by (auto simp: receive_live_def)
  have "zr_count (length (rd_published s)) (published_bytes (rd_published s)) r"
    using zr_next_tally(1) [OF _ a] live st
    by (intro zr_tally_count) (simp_all add: receive_live_def zr_is_terminal_def)
  note tally = zr_confirm_tally [OF r this st]
  have "zr_current r \<noteq> None" using r st by (auto simp: zr_inv_def zr_is_terminal_def)
  note confirm = zr_confirm_sync [OF st q this]
  have fail: "receive_inv (receive_fail e (t\<lparr>rd_pending := q\<rparr>))"
    if "pending_ok q" "e \<noteq> AdapterInvalidState" for e q
    using that ok by (intro receive_fail_inv) (simp_all add: t rd_file_ok_def)
  have err: "e \<noteq> AdapterInvalidState"
    if "snd (wait_for_native_operation arrivals q res) = Inl e" "outside_error (res :: _ + unit)"
    for arrivals q res e
    using wait_operation_error [OF that(1)] that(2) by (auto simp: outside_error_def)
  obtain q1 r1 where w1: "wait_for_native_operation (in_arrivals input) p (in_native input) = (q1, r1)" by force
  obtain q2 r2 where w2: "wait_for_native_operation (in_more_arrivals input) q1 (in_write input) = (q2, r2)" by force
  have q1: "pending_ok q1" using wait_operation_ok [OF p, of "in_arrivals input" "in_native input"] w1 by simp
  have q2: "pending_ok q2" using wait_operation_ok [OF q1, of "in_more_arrivals input" "in_write input"] w2 by simp
  have e1: "r1 = Inl e \<Longrightarrow> e \<noteq> AdapterInvalidState" and e2: "r2 = Inl e \<Longrightarrow> e \<noteq> AdapterInvalidState" for e
    using err [of "in_arrivals input" p "in_native input" e] err [of "in_more_arrivals input" q1 "in_write input" e]
      w1 w2 input by (simp_all add: drive_input_ok_def)
  have call: "receive_inv (receive_call (zr_confirm_file_write r (length bs))
      (t\<lparr>rd_pending := q2, rd_file := Some (i, n, c @ bs)\<rparr>))"
    using ok q2 confirm tally zr_confirm_inv [OF r] pend
    by (intro receive_call_inv) (simp_all add: receive_live_def rd_file_ok_def t)
  show ?thesis
    using fail [OF q1 e1] fail [OF q2 e2] call w1 w2
    by (cases r1; cases r2)
      (simp_all add: receive_write_def t pend off write_at_end del: write_at_def)
qed

lemma receive_completed_inv:
  assumes live: "receive_live s" and a: "zr_next_action (rd_receiver s) = (r, Some (FileCompleted f))"
    and t: "t = s\<lparr>rd_receiver := r, rd_pending := p\<rparr>" and p: "pending_ok p"
    and ok: "published_ok (rd_published s)" "rd_result s = None" "rd_file_ok s"
    and input: "drive_input_ok input"
  shows "receive_inv (receive_completed input f t)"
proof -
  note taken = receive_next [OF live a]
  obtain n c where pend: "rd_file s = Some (zf_file_index f, n, c)"
    and sizes: "zf_total_bytes f = zm_total_bytes n" "zf_transferred_bytes f = zf_total_bytes f"
      "length c = zm_total_bytes n"
    using taken(1) by (cases "rd_file s") (auto split: if_splits)
  have r: "zr_inv (Sink None) r" using taken(2) sizes by (simp add: pend)
  have sync: "zr_sync r" using zr_next_sync(1) [OF _ a] live by (simp add: receive_live_def)
  have tally: "zr_tally (length (rd_published s) + 1) (published_bytes (rd_published s) + length c) r"
    using zr_next_tally(2) [OF _ a refl] live sizes by (simp add: receive_live_def)
  have good: "zr_offer_ok n" using ok(3) pend by (simp add: rd_file_ok_def)
  define u where "u = t\<lparr>rd_file := None, rd_published := rd_published t @
    (case in_publish input of Inr name \<Rightarrow> [(name, n, c)] | Inl _ \<Rightarrow> [])\<rparr>"
  have pub: "published_ok (rd_published u)"
    using ok(1) good sizes by (auto simp: u_def t published_ok_def split: sum.split)
  obtain q res where w: "wait_for_publish_arrivals (in_arrivals input) p (in_disposition input)
      (in_publish input) = (q, res)" by force
  have q: "pending_ok q"
    using wait_publish_ok [OF p, of "in_arrivals input" "in_disposition input" "in_publish input"] w by simp
  have step: "receive_completed input f t =
      (case res of Inl e \<Rightarrow> receive_fail e (u\<lparr>rd_pending := q\<rparr>) | Inr _ \<Rightarrow> u\<lparr>rd_pending := q\<rparr>)"
    using w pend sizes by (simp add: receive_completed_def u_def t Let_def split: sum.split)
  show ?thesis
  proof (cases res)
    case (Inl e)
    then have "e \<noteq> AdapterInvalidState"
      using wait_publish_error [of "in_publish input" "in_disposition input" "in_arrivals input" p e] w input
      by (simp add: drive_input_ok_def)
    then show ?thesis
      using pub q by (simp add: step Inl receive_fail_inv rd_file_ok_def u_def)
  next
    case (Inr v)
    then have name: "in_publish input = Inr v"
      using wait_publish_Inr [of "in_arrivals input" p "in_disposition input" "in_publish input" v] w by simp
    then have "rd_published u = rd_published s @ [(v, n, c)]" by (simp add: u_def t)
    then have "receive_live (u\<lparr>rd_pending := q\<rparr>)"
      using r sync tally by (simp add: receive_live_def u_def t published_bytes_def)
    then show ?thesis
      using pub q ok(2) unfolding step Inr sum.case
      by (simp add: receive_inv_def receive_result_ok_def rd_file_ok_def u_def t)
  qed
qed

lemma receive_action_inv:
  assumes live: "receive_live s" and a: "zr_next_action (rd_receiver s) = (r, Some action)"
    and t: "t = s\<lparr>rd_receiver := r, rd_pending := p\<rparr>" and p: "pending_ok p"
    and ok: "published_ok (rd_published s)" "rd_result s = None" "rd_file_ok s"
    and input: "drive_input_ok input"
  shows "receive_inv (receive_action input action t)"
proof -
  note contract = receive_next(1) [OF live a]
  have file_ok: "rd_file_ok t" using ok(3) by (simp add: t rd_file_ok_def)
  have fail: "receive_inv (receive_fail e t)" if "e \<noteq> AdapterInvalidState" for e
    using that p ok file_ok by (intro receive_fail_inv) (simp_all add: t)
  have stay: "receive_inv t" if "receive_live t"
    using that p ok file_ok by (simp add: t receive_inv_def receive_result_ok_def)
  have neutral: "receive_live t"
    if "zr_plain action" "zr_uncounted action" "zr_contract (Sink (rd_file s)) action = Sink (rd_file s)"
    using receive_neutral_live [OF live a that] by (simp add: t)
  show ?thesis
  proof (cases action)
    case (Write bs)
    then have "receive_live (t\<lparr>rd_sent := rd_sent t @ bs\<rparr>)"
      using neutral by (simp add: receive_live_def)
    then have "receive_inv (t\<lparr>rd_sent := rd_sent t @ bs\<rparr>)"
      using p ok file_ok by (simp add: t receive_inv_def receive_result_ok_def rd_file_ok_def)
    moreover have "receive_inv (receive_fail e t)" if "in_port input = Inl e" for e
      using fail that input by (simp add: drive_input_ok_def outside_error_def)
    ultimately show ?thesis by (simp add: Write receive_action_def split: sum.split)
  next
    case (OfferFile i m)
    then show ?thesis
      using receive_offer_inv [OF live _ t p ok(1,2) input] a by (simp add: receive_action_def)
  next
    case (BeginFile i m)
    then obtain c where pend: "rd_file s = Some (i, m, c)" "zr_contract (Sink (rd_file s)) action = Sink (rd_file s)"
      using contract by (cases "rd_file s") (auto split: if_splits)
    then have "receive_inv t" using stay neutral BeginFile by simp
    then show ?thesis using pend by (simp add: receive_action_def BeginFile receive_begin_def t)
  next
    case (WriteFile i off bs)
    then show ?thesis
      using receive_write_inv [OF live _ t p ok input] a by (simp add: receive_action_def)
  next
    case (Progress v)
    then show ?thesis using stay neutral fail by (simp add: receive_action_def)
  next
    case (FileCompleted f)
    then show ?thesis
      using receive_completed_inv [OF live _ t p ok input] a by (simp add: receive_action_def)
  next
    case (BatchCompleted v rest)
    then have none: "rd_file s = None" using contract by (auto split: if_splits)
    have "zb_completed_files v = length (rd_published s) \<and> zb_transferred_bytes v = published_bytes (rd_published s)"
      using zr_next_tally(3) [OF _ a BatchCompleted] live by (auto simp: receive_live_def)
    then show ?thesis
      using none p ok file_ok
      by (simp add: receive_action_def BatchCompleted t receive_inv_def receive_result_ok_def rd_file_ok_def)
  next
    case (Failed e)
    then show ?thesis using fail by (simp add: receive_action_def)
  qed
qed

lemma receive_handle_inv:
  assumes live: "receive_live s" and q: "zr_actions (rd_receiver s) = []" and p: "pending_ok (rd_pending s)"
    and ok: "published_ok (rd_published s)" "rd_result s = None" "rd_file_ok s"
  shows "receive_inv (handle_receiver_event event s)"
    and "receive_inv (receive_call (zr_on_timeout (rd_receiver s)) s)"
proof -
  let ?r = "rd_receiver s" and ?n = "length (rd_published s)" and ?b = "published_bytes (rd_published s)"
  have inv: "zr_inv (Sink (rd_file s)) ?r" and sync: "zr_sync ?r" and tally: "zr_tally ?n ?b ?r"
    using live by (simp_all add: receive_live_def)
  have "zr_count ?n ?b ?r" using tally zr_sync_empty(3) [OF sync q] by (rule zr_tally_count)
  note counts = zr_count_calls [OF inv this q]
  show "receive_inv (handle_receiver_event event s)"
  proof (cases event)
    case (Arrived raw)
    then show ?thesis
      using p ok counts zr_push_inv [OF inv] zr_push_sync(2) [OF sync q] zr_cancel_inv [OF inv]
        zr_cancel_sync(2) [OF sync q]
      by (auto simp: handle_receiver_event_def receive_live_def rd_file_ok_def
          intro!: receive_call_inv split: raw_event.split)
  qed (use p ok in \<open>simp add: handle_receiver_event_def receive_fail_inv\<close>)
  show "receive_inv (receive_call (zr_on_timeout ?r) s)"
    using p ok counts(1) zr_timeout_inv [OF inv] zr_timeout_sync(2) [OF sync q]
    by (intro receive_call_inv) (simp_all add: receive_live_def rd_file_ok_def)
qed

lemma receive_step_inv:
  assumes inv: "receive_inv s" and input: "drive_input_ok input"
  shows "receive_inv (receive_step input s)"
proof (cases "rd_result s")
  case None
  note running = this
  have live: "receive_live s" and p: "pending_ok (rd_pending s)"
    and ok: "published_ok (rd_published s)" "rd_file_ok s"
    using inv running by (simp_all add: receive_inv_def)
  obtain q res where poll: "poll_exact_transfer_cancel (in_poll input) (rd_pending s) = (q, res)" by force
  have q: "pending_ok q" using pending_poll_ok [OF p, of "in_poll input"] poll by simp
  have err: "e \<noteq> AdapterInvalidState" if "res = Inl e" for e
    using poll_error [of "in_poll input" "rd_pending s" e] poll that by auto
  show ?thesis
  proof (cases "snd (zr_next_action (rd_receiver s))")
    case (Some action)
    then obtain r where a: "zr_next_action (rd_receiver s) = (r, Some action)" by (metis prod.collapse)
    have "receive_inv (receive_action input action (s\<lparr>rd_receiver := r, rd_pending := q\<rparr>))"
      by (rule receive_action_inv [OF live a refl q ok(1) running ok(2) input])
    moreover have "receive_inv (receive_fail e (s\<lparr>rd_receiver := r, rd_pending := q\<rparr>))" if "res = Inl e" for e
      using err [OF that] q ok by (intro receive_fail_inv) (simp_all add: rd_file_ok_def)
    ultimately show ?thesis
      using running a poll by (simp add: receive_step_def Let_def split: sum.split)
  next
    case None
    then have empty: "zr_actions (rd_receiver s) = []"
      by (auto simp: zr_next_action_def split: list.splits)
    obtain q' event where pop: "pending_pop q = (q', event)" by force
    have q': "pending_ok q'" using pending_pop_ok [OF q] pop by simp
    let ?t = "s\<lparr>rd_pending := q'\<rparr>"
    have t: "receive_live ?t" "rd_file_ok ?t" using live ok by (simp_all add: receive_live_def rd_file_ok_def)
    have handle: "receive_inv (handle_receiver_event ev ?t)"
      and timer: "receive_inv (receive_call (zr_on_timeout (rd_receiver ?t)) ?t)" for ev
      using receive_handle_inv [of ?t] t q' empty ok running by simp_all
    have stay: "receive_inv ?t"
      using t q' ok running by (simp add: receive_inv_def receive_result_ok_def)
    have "receive_inv (receive_fail e (s\<lparr>rd_pending := q\<rparr>))" if "res = Inl e" for e
      using err [OF that] q ok by (intro receive_fail_inv) (simp_all add: rd_file_ok_def)
    then have "receive_inv (wait_receiver input s)"
      using poll pop handle timer stay
      by (simp add: wait_receiver_def Let_def split: sum.split option.split)
    then show ?thesis
      using running None by (simp add: receive_step_def case_prod_beta)
  qed
qed (use inv in \<open>simp add: receive_step_def\<close>)

interpretation receiving: transition_system
  "\<lambda>s t. \<exists>input. drive_input_ok input \<and> t = receive_step input s" receive_inv
  by unfold_locales (auto intro: receive_step_inv)

lemma receive_run_reach:
  "\<forall>input \<in> set inputs. drive_input_ok input \<Longrightarrow>
   (\<lambda>s t. \<exists>input. drive_input_ok input \<and> t = receive_step input s)\<^sup>*\<^sup>* s (receive_run inputs s)"
proof (induction inputs arbitrary: s)
  case (Cons input inputs)
  let ?step = "\<lambda>s t. \<exists>input. drive_input_ok input \<and> t = receive_step input s"
  have "?step s (receive_step input s)" using Cons.prems by auto
  moreover have "?step\<^sup>*\<^sup>* (receive_step input s) (receive_run (input # inputs) s)"
    using Cons by (simp add: receive_run_def)
  ultimately show ?case by (rule converse_rtranclp_into_rtranclp)
qed (simp add: receive_run_def)

lemma receive_run_inv:
  assumes "pending_ok p" and "\<forall>input \<in> set inputs. drive_input_ok input"
  shows "receive_inv (receive_run inputs (receive_start p))"
proof (rule receiving.reach_inv [OF receive_run_reach [OF assms(2)]])
  show "receive_inv (receive_start p)"
    using assms(1) zr_new_inv [OF default_zmodem_config_ok] zr_new_sync zr_new_tally
    by (simp add: receive_inv_def receive_live_def receive_result_ok_def receive_start_def
        published_ok_def published_bytes_def rd_file_ok_def)
qed

section \<open>Properties\<close>

text \<open>C8: The receiving driver and the protocol machine fit together: whatever the peer sends, whichever
  native operation fails and whenever the user cancels, none of the driver's own consistency checks
  ever fails; every file that was published has a safe name and exactly the announced number of
  bytes; and when the driver reports success, the summary counts exactly the published files and
  their bytes, and no staged file is left.\<close>

theorem receive_driver_sound:
  assumes "pending_ok p" and "\<forall>input \<in> set inputs. drive_input_ok input"
    and s: "s = receive_run inputs (receive_start p)"
  shows "rd_result s \<noteq> Some (Inl AdapterInvalidState) \<and>
    (\<forall>name m content. (name, m, content) \<in> set (rd_published s) \<longrightarrow>
      safe_file_name (zm_file_name m) \<and> length content = zm_total_bytes m) \<and>
    (\<forall>v rest. rd_result s = Some (Inr (v, rest)) \<longrightarrow> rd_file s = None \<and>
      zb_completed_files v = length (rd_published s) \<and>
      zb_transferred_bytes v = published_bytes (rd_published s))"
  using receive_run_inv [OF assms(1,2)] unfolding s [symmetric]
  by (auto simp: receive_inv_def receive_result_ok_def published_ok_def zr_offer_ok_def)

definition sample_input :: "arrival option \<Rightarrow> drive_input" where
  "sample_input event = \<lparr>in_poll = None, in_wait = event, in_port = Inr (), in_channel = True,
     in_arrivals = [], in_native = Inr (), in_more_arrivals = [], in_write = Inr (),
     in_publish = Inr [97], in_disposition = CommitWon\<rparr>"

lemma sample_input_ok: "drive_input_ok (sample_input event)"
  by (simp add: drive_input_ok_def outside_error_def sample_input_def)

theorem receive_driver_sound_witness:
  "rd_result (receive_run [sample_input None, sample_input (Some PortClosed)]
     (receive_start no_pending_events)) \<noteq> Some (Inl AdapterInvalidState)"
  using receive_driver_sound [OF no_pending_ok _ refl] sample_input_ok by simp

text \<open>C31: The driver never waits for the peer without a timer and never calls the machine in a state in
  which it refuses: while it runs and the queue of actions is empty, the machine has a timeout, a
  timeout and a cancellation succeed, and bytes are refused only for their size; and when it takes
  an offer or a write from the queue, the machine accepts the answer.\<close>

theorem receive_driver_never_stuck:
  assumes "pending_ok p" and "\<forall>input \<in> set inputs. drive_input_ok input"
    and s: "s = receive_run inputs (receive_start p)" and "rd_result s = None"
  shows "case zr_next_action (rd_receiver s) of
      (_, None) \<Rightarrow> zr_timeout (rd_receiver s) \<noteq> None \<and> snd (zr_on_timeout (rd_receiver s)) = Inr () \<and>
        snd (zr_cancel (rd_receiver s)) = Inr () \<and>
        (\<forall>bs. snd (zr_push_serial_bytes (rd_receiver s) bs) \<noteq> Inl zmodem_error.InvalidState)
    | (r, Some (OfferFile i m)) \<Rightarrow> snd (zr_accept_file r) = Inr ()
    | (r, Some (WriteFile i off bs)) \<Rightarrow> snd (zr_confirm_file_write r (length bs)) = Inr ()
    | _ \<Rightarrow> True"
proof -
  have live: "receive_live s"
    using receive_run_inv [OF assms(1,2)] assms(4) unfolding s [symmetric] by (simp add: receive_inv_def)
  then have inv: "zr_inv (Sink (rd_file s)) (rd_receiver s)" and sync: "zr_sync (rd_receiver s)"
    by (simp_all add: receive_live_def)
  obtain r taken where next_action: "zr_next_action (rd_receiver s) = (r, taken)" by force
  show ?thesis
  proof (cases taken)
    case None
    then have "zr_actions (rd_receiver s) = []"
      using next_action by (auto simp: zr_next_action_def split: list.splits)
    then show ?thesis
      using zr_sync_empty(4) [OF sync] zr_timeout_sync(1) [OF sync] zr_cancel_sync(1) [OF sync]
        zr_push_sync(1) [OF sync] by (simp add: next_action None)
  next
    case (Some action)
    note a = next_action [unfolded Some]
    have r: "zr_inv (zr_contract (Sink (rd_file s)) action) r" by (rule zr_next_inv [OF inv a])
    have accept: "snd (zr_accept_file r) = Inr ()" if "action = OfferFile i m" for i m
    proof -
      have st: "zr_state r = AwaitAcceptance" "zr_actions r = []"
        using zr_next_sync(2) [OF sync a that] by simp_all
      then have "zr_current r \<noteq> None" using r by (auto simp: zr_inv_def zr_is_terminal_def)
      with st show ?thesis by (rule zr_accept_sync(1))
    qed
    have confirm: "snd (zr_confirm_file_write r (length bs)) = Inr ()" if taken_write: "action = WriteFile i off bs" for i off bs
    proof -
      obtain e c k where st: "zr_state r = AwaitSink (length bs) e c k" "zr_actions r = []"
        using zr_next_sync(3) [OF sync a taken_write] by blast
      then have "zr_current r \<noteq> None" using r by (auto simp: zr_inv_def zr_is_terminal_def)
      with st show ?thesis by (rule zr_confirm_sync(1))
    qed
    show ?thesis using accept confirm by (cases action) (simp_all add: a)
  qed
qed

lemma sample_sent:
  "rd_result (receive_run [sample_input None] (receive_start no_pending_events)) = None"
  "snd (zr_next_action (rd_receiver (receive_run [sample_input None] (receive_start no_pending_events)))) = None"
  by (simp_all add: receive_run_def receive_step_def receive_start_def zr_new_def zr_send_receiver_init_def
      zr_emit_def zr_next_action_def zr_write_header_def poll_exact_transfer_cancel_def
      pending_take_cancel_def no_pending_events_def sample_input_def receive_action_def
      MAX_ZMODEM_PENDING_ACTIONS_def Let_def)

theorem receive_driver_never_stuck_witness:
  "zr_timeout (rd_receiver (receive_run [sample_input None] (receive_start no_pending_events))) \<noteq> None"
  using receive_driver_never_stuck [OF no_pending_ok _ refl sample_sent(1)] sample_input_ok sample_sent(2)
  by (auto split: prod.splits)

end
