(* ===== verification/Rust_Search.thy ===== *)
theory Rust_Search
  imports Rust_Strings "HOL-Library.Sublist"
begin

text \<open>
  The searching and case-folding functions of Rust's \<^verbatim>\<open>str\<close> and \<^verbatim>\<open>char\<close> (\<^verbatim>\<open>split_whitespace\<close>,
  \<^verbatim>\<open>trim_matches\<close>, \<^verbatim>\<open>contains\<close>, \<^verbatim>\<open>strip_prefix\<close>, \<^verbatim>\<open>eq_ignore_ascii_case\<close>) that the command policy
  and the vault use.
\<close>

definition split_whitespace :: "rstr \<Rightarrow> rstr list" where
  "split_whitespace s = filter (\<lambda>t. t \<noteq> []) (split_on is_whitespace s)"

definition trim_matches :: "(uchar \<Rightarrow> bool) \<Rightarrow> rstr \<Rightarrow> rstr" where
  "trim_matches P s = rev (dropWhile P (rev (dropWhile P s)))"

fun contains :: "rstr \<Rightarrow> rstr \<Rightarrow> bool" where
  "contains [] t \<longleftrightarrow> t = []"
| "contains (c # s) t \<longleftrightarrow> prefix t (c # s) \<or> contains s t"

definition strip_prefix :: "rstr \<Rightarrow> rstr \<Rightarrow> rstr option" where
  "strip_prefix p s = (if prefix p s then Some (drop (length p) s) else None)"

definition is_ascii_alphabetic :: "uchar \<Rightarrow> bool" where
  "is_ascii_alphabetic c \<longleftrightarrow> 65 \<le> c \<and> c \<le> 90 \<or> 97 \<le> c \<and> c \<le> 122"

definition is_ascii_digit :: "uchar \<Rightarrow> bool" where
  "is_ascii_digit c \<longleftrightarrow> 48 \<le> c \<and> c \<le> 57"

definition is_ascii_alphanumeric :: "uchar \<Rightarrow> bool" where
  "is_ascii_alphanumeric c \<longleftrightarrow> is_ascii_alphabetic c \<or> is_ascii_digit c"

definition ascii_lower :: "uchar \<Rightarrow> uchar" where
  "ascii_lower c = (if 65 \<le> c \<and> c \<le> 90 then c + 32 else c)"

definition to_ascii_lowercase :: "rstr \<Rightarrow> rstr" where
  "to_ascii_lowercase s = map ascii_lower s"

definition eq_ignore_ascii_case :: "rstr \<Rightarrow> rstr \<Rightarrow> bool" where
  "eq_ignore_ascii_case s t \<longleftrightarrow> to_ascii_lowercase s = to_ascii_lowercase t"

lemma contains_iff: "contains s t \<longleftrightarrow> (\<exists>p q. s = p @ t @ q)"
proof (induction s)
  case (Cons c s)
  have "(\<exists>p q. c # s = p @ t @ q) \<longleftrightarrow> prefix t (c # s) \<or> (\<exists>p q. s = p @ t @ q)"
    by (auto simp: prefix_def Cons_eq_append_conv)
  with Cons show ?case by simp
qed simp

lemma contains_append: "contains s t \<or> contains s' t \<Longrightarrow> contains (s @ s') t"
  by (auto simp: contains_iff) (metis append.assoc)+

lemma ascii_lower_idem [simp]: "ascii_lower (ascii_lower c) = ascii_lower c"
  by (simp add: ascii_lower_def)

end
