(* ===== verification/Agent_Policy.thy ===== *)
theory Agent_Policy
  imports Rust_Search
begin

text \<open>
  The command policy of the terminal agent (\<^verbatim>\<open>crates/netcatty-ai/src/agent.rs\<close>): which commands a
  model may propose at all (\<open>validate_terminal_command\<close>) and which are refused whatever the user's
  permission mode says (\<open>blocked_terminal_command\<close>).  Commands are lists of Unicode scalar values; the
  functions of \<^verbatim>\<open>str\<close> that the policy uses (\<^verbatim>\<open>split\<close>, \<^verbatim>\<open>split_whitespace\<close>, \<^verbatim>\<open>trim_matches\<close>,
  \<^verbatim>\<open>contains\<close>, ...) are those of \<open>Rust_Search\<close>.  The theorems show what the policy cannot be talked out
  of: putting a refused command after, before or between others with any shell separator leaves the
  line refused, and so does changing the case of its letters.
\<close>

section \<open>Characters\<close>

text \<open>Characters that occur in the patterns of the policy.\<close>

definition is_quote :: "uchar \<Rightarrow> bool" where
  "is_quote c \<longleftrightarrow> c = 34 \<or> c = 39"

definition is_slash :: "uchar \<Rightarrow> bool" where
  "is_slash c \<longleftrightarrow> c = 47 \<or> c = 92"

definition command_separator :: "uchar \<Rightarrow> bool" where
  "command_separator c \<longleftrightarrow> c = 10 \<or> c = 59 \<or> c = 38 \<or> c = 124"

text \<open>\<^verbatim>\<open>token.rsplit(['/', '\\']).next()\<close>: what follows the last slash.\<close>

definition last_segment :: "rstr \<Rightarrow> rstr" where
  "last_segment s = last (split_on is_slash s)"

section \<open>The policy\<close>

definition MAX_AI_TERMINAL_COMMAND_BYTES :: nat where
  "MAX_AI_TERMINAL_COMMAND_BYTES = 32 * 1024 - 1"

definition valid_terminal_command :: "rstr \<Rightarrow> bool" where
  "valid_terminal_command command \<longleftrightarrow>
     \<not> (trim command = []
        \<or> str_len command > MAX_AI_TERMINAL_COMMAND_BYTES
        \<or> 0 \<in> set command
        \<or> (\<exists>c \<in> set command. is_control c \<and> c \<noteq> 10 \<and> c \<noteq> 9))"

definition has_word :: "rstr \<Rightarrow> rstr \<Rightarrow> bool" where
  "has_word command word \<longleftrightarrow>
     word \<in> set (split_on (\<lambda>c. \<not> (is_ascii_alphanumeric c \<or> c = 95)) command)"

definition shells :: "rstr list" where
  "shells = map lit [''sh'', ''sh.exe'', ''bash'', ''bash.exe'', ''zsh'', ''zsh.exe'', ''fish'',
     ''fish.exe'', ''dash'', ''dash.exe'', ''ash'', ''ash.exe'', ''ksh'', ''ksh.exe'', ''mksh'',
     ''mksh.exe'', ''yash'', ''yash.exe'']"

definition shell_runs_string :: "rstr \<Rightarrow> bool" where
  "shell_runs_string argument =
     (let opt = trim_matches is_quote argument
      in opt = lit ''--command''
         \<or> prefix (lit ''--command='') opt
         \<or> (case strip_prefix (lit ''-'') opt of
              None \<Rightarrow> False
            | Some short_options \<Rightarrow>
                \<not> prefix (lit ''-'') short_options \<and> of_char CHR ''c'' \<in> set short_options))"

definition cmd_runs_string :: "rstr \<Rightarrow> bool" where
  "cmd_runs_string argument =
     (let opt = trim_matches is_quote argument
      in prefix (lit ''/c'') opt \<or> prefix (lit ''/k'') opt)"

definition powershell_option_name :: "rstr \<Rightarrow> rstr option" where
  "powershell_option_name opt =
     (case (case strip_prefix (lit ''--'') opt of
              Some v \<Rightarrow> Some v
            | None \<Rightarrow>
                (case strip_prefix (lit ''-'') opt of
                   Some v \<Rightarrow> Some v
                 | None \<Rightarrow> strip_prefix (lit ''/'') opt)) of
        None \<Rightarrow> None
      | Some v \<Rightarrow>
          (let name = hd (split_on (\<lambda>c. c = 58 \<or> c = 61) v)
           in if name = [] then None else Some name))"

definition powershell_runs_string :: "rstr \<Rightarrow> bool" where
  "powershell_runs_string argument =
     (let opt = trim_matches is_quote argument
      in if opt = lit ''-'' then True
         else case powershell_option_name opt of
                None \<Rightarrow> False
              | Some name \<Rightarrow>
                  list_ex (prefix name) (map lit [''command'', ''commandwithargs'',
                    ''encodedcommand'', ''encodedarguments'', ''file'']))"

definition wrapper_bracket :: "uchar \<Rightarrow> bool" where
  "wrapper_bracket c \<longleftrightarrow> is_quote c \<or> c \<in> set (lit ''()[]{}'')"

definition wrapper_token :: "rstr \<Rightarrow> rstr list \<Rightarrow> bool" where
  "wrapper_token token arguments =
     (let executable = last_segment (trim_matches wrapper_bracket token)
      in if executable \<in> set shells then list_ex shell_runs_string arguments
         else if executable \<in> set (map lit [''cmd'', ''cmd.exe'']) then
           list_ex cmd_runs_string arguments
         else if executable \<in> set (map lit [''powershell'', ''powershell.exe'', ''pwsh'', ''pwsh.exe''])
         then list_ex powershell_runs_string arguments
         else False)"

fun wrapper_tokens :: "rstr list \<Rightarrow> bool" where
  "wrapper_tokens [] \<longleftrightarrow> False"
| "wrapper_tokens (token # arguments) \<longleftrightarrow> wrapper_token token arguments \<or> wrapper_tokens arguments"

text \<open>The non-empty trimmed pieces between shell separators.\<close>

definition segments :: "rstr \<Rightarrow> rstr list" where
  "segments command = filter (\<lambda>s. s \<noteq> []) (map trim (split_on command_separator command))"

definition shell_wrapper_is_blocked :: "rstr \<Rightarrow> bool" where
  "shell_wrapper_is_blocked command =
     list_ex (\<lambda>segment. wrapper_tokens (split_whitespace segment)) (segments command)"

definition windows_target_is_broad :: "rstr \<Rightarrow> bool" where
  "windows_target_is_broad token =
     (let target = to_ascii_lowercase
            (map (\<lambda>c. if c = 47 then 92 else c) (trim_matches (\<lambda>c. is_quote c \<or> c = 44) token))
      in if target \<in> {[92], lit ''*'', lit ''*.*''}
            \<or> 42 \<in> set target
            \<or> target \<in> {lit ''$env:systemdrive'' @ [92], lit ''$env:windir'', lit ''$env:windir'' @ [92],
                 lit ''$env:userprofile'', lit ''$env:userprofile'' @ [92]}
         then True
         else case target of
                d # colon # rest \<Rightarrow>
                  if is_ascii_alphabetic d \<and> colon = 58
                  then let suff = rev (dropWhile (\<lambda>c. c = 92) (rev rest))
                       in suff = [] \<or> suff \<in> {92 # lit ''windows'', 92 # lit ''users'',
                            92 # lit ''program files'', 92 # lit ''programdata''}
                  else False
              | _ \<Rightarrow> False)"

definition windows_line_is_destructive :: "rstr \<Rightarrow> bool" where
  "windows_line_is_destructive line =
     (let tokens = split_whitespace line;
          executable = (case tokens of [] \<Rightarrow> [] | t # _ \<Rightarrow> last_segment (trim_matches is_quote t));
          broad_target = list_ex windows_target_is_broad tokens;
          recursive = list_ex (\<lambda>t. eq_ignore_ascii_case t (lit ''/s'')) tokens;
          quiet = list_ex (\<lambda>t. eq_ignore_ascii_case t (lit ''/q'')) tokens
      in if executable \<in> set (map lit [''format'', ''format.com'', ''diskpart'', ''diskpart.exe''])
         then True
         else if executable \<in> set (map lit [''restart-computer'', ''stop-computer'', ''shutdown.exe''])
         then True
         else if executable = lit ''remove-item'' then
           list_ex (\<lambda>t. trim_matches is_quote t
              \<in> set (map lit [''-recurse'', ''-force'', ''-rf'', ''-fr''])) tokens \<and> broad_target
         else if executable \<in> set (map lit [''del'', ''del.exe'', ''erase'', ''erase.exe'']) then
           recursive \<and> quiet \<and> broad_target
         else if executable \<in> set (map lit [''rd'', ''rd.exe'', ''rmdir'', ''rmdir.exe'']) then
           recursive \<and> quiet \<and> broad_target
         else False)"

definition windows_destructive_command_is_blocked :: "rstr \<Rightarrow> bool" where
  "windows_destructive_command_is_blocked command = list_ex windows_line_is_destructive (segments command)"

definition has_shell_pipe :: "rstr \<Rightarrow> bool" where
  "has_shell_pipe source \<longleftrightarrow>
     (contains source (lit ''curl'') \<or> contains source (lit ''wget'') \<or> contains source (lit ''base64''))
     \<and> 124 \<in> set source
     \<and> (has_word source (lit ''bash'') \<or> has_word source (lit ''sh''))"

definition has_flag :: "rstr \<Rightarrow> uchar \<Rightarrow> rstr list \<Rightarrow> bool" where
  "has_flag long_name letter flags =
     list_ex (\<lambda>t. t = long_name \<or> (case t of d # t' \<Rightarrow> d = 45 \<and> letter \<in> set t' | [] \<Rightarrow> False)) flags"

definition recursive_force_rm_line :: "rstr \<Rightarrow> bool" where
  "recursive_force_rm_line line =
     (case dropWhile (\<lambda>token. last_segment token \<noteq> lit ''rm'') (split_whitespace line) of
        [] \<Rightarrow> False
      | _ # flags \<Rightarrow>
          has_flag (lit ''--recursive'') (of_char CHR ''r'') flags
          \<and> has_flag (lit ''--force'') (of_char CHR ''f'') flags)"

definition recursive_force_rm :: "rstr \<Rightarrow> bool" where
  "recursive_force_rm lower = list_ex recursive_force_rm_line (split_on command_separator lower)"

definition blocked_terminal_command :: "rstr \<Rightarrow> bool" where
  "blocked_terminal_command command =
     (let lower = to_ascii_lowercase command;
          compact = filter (\<lambda>c. \<not> is_whitespace c) lower
      in shell_wrapper_is_blocked lower
         \<or> windows_destructive_command_is_blocked lower
         \<or> recursive_force_rm lower
         \<or> contains lower (lit ''mkfs.'')
         \<or> (has_word lower (lit ''dd'') \<and> contains lower (lit ''of=/dev/''))
         \<or> list_ex (has_word lower) (map lit [''shutdown'', ''reboot'', ''poweroff'', ''halt'',
              ''restart-computer'', ''stop-computer''])
         \<or> contains compact (lit '':(){:|:&};:'')
         \<or> (62 \<in> set lower \<and> contains lower (lit ''/dev/sd''))
         \<or> (has_word lower (lit ''chmod'')
            \<and> (contains lower (lit '' -r'') \<or> contains lower (lit ''--recursive''))
            \<and> contains lower (lit ''777'')
            \<and> contains lower (lit '' /''))
         \<or> (has_word lower (lit ''mv'') \<and> contains lower (lit ''mv / ''))
         \<or> (contains compact (lit '':>'') \<and> contains lower (lit ''/etc/''))
         \<or> has_shell_pipe lower
         \<or> has_word lower (lit ''eval'')
         \<or> contains lower (lit ''$('')
         \<or> (96 \<in> set lower \<and> count_list lower 96 \<ge> 2))"

section \<open>Facts on the string operations\<close>

lemma ascii_lower_separator [simp]: "command_separator c \<Longrightarrow> ascii_lower c = c"
  by (auto simp: command_separator_def ascii_lower_def)

lemma separator_not_word:
  "command_separator c \<Longrightarrow> \<not> (is_ascii_alphanumeric c \<or> c = 95)"
  by (auto simp: command_separator_def is_ascii_alphanumeric_def is_ascii_alphabetic_def
      is_ascii_digit_def)

section \<open>Joining command lines\<close>

text \<open>Each test of the policy holds of a joined line as soon as it holds of one part.\<close>

named_theorems joined \<open>tests that survive joining lines with a separator\<close>

lemma contains_joined [joined]: "contains s u \<or> contains t u \<Longrightarrow> contains (s @ c # t) u"
  using contains_append [of s u "c # t"] by auto

lemma has_word_joined [joined]:
  assumes "command_separator c" "has_word s w \<or> has_word t w"
  shows "has_word (s @ c # t) w"
proof -
  let ?P = "\<lambda>c. \<not> (is_ascii_alphanumeric c \<or> c = 95)"
  have "?P c" using assms(1) by (rule separator_not_word)
  then have "split_on ?P (s @ c # t) = split_on ?P s @ split_on ?P t" by (rule split_on_append)
  with assms(2) show ?thesis unfolding has_word_def by auto
qed

lemma segments_joined: "command_separator c \<Longrightarrow> segments (s @ c # t) = segments s @ segments t"
  by (simp add: segments_def split_on_append)

lemma wrapper_joined [joined]:
  "command_separator c \<Longrightarrow> shell_wrapper_is_blocked s \<or> shell_wrapper_is_blocked t
   \<Longrightarrow> shell_wrapper_is_blocked (s @ c # t)"
  by (auto simp: shell_wrapper_is_blocked_def segments_joined)

lemma windows_joined [joined]:
  "command_separator c
   \<Longrightarrow> windows_destructive_command_is_blocked s \<or> windows_destructive_command_is_blocked t
   \<Longrightarrow> windows_destructive_command_is_blocked (s @ c # t)"
  by (auto simp: windows_destructive_command_is_blocked_def segments_joined)

lemma rm_joined [joined]:
  "command_separator c \<Longrightarrow> recursive_force_rm s \<or> recursive_force_rm t
   \<Longrightarrow> recursive_force_rm (s @ c # t)"
  by (auto simp: recursive_force_rm_def split_on_append)

lemma pipe_joined [joined]:
  "command_separator c \<Longrightarrow> has_shell_pipe s \<or> has_shell_pipe t \<Longrightarrow> has_shell_pipe (s @ c # t)"
  unfolding has_shell_pipe_def by (auto intro: joined)

lemma blocked_lower: "blocked_terminal_command (to_ascii_lowercase s) = blocked_terminal_command s"
  by (simp add: blocked_terminal_command_def to_ascii_lowercase_def comp_def)

lemma blocked_mono:
  assumes lines: "shell_wrapper_is_blocked (to_ascii_lowercase s) \<Longrightarrow> shell_wrapper_is_blocked (to_ascii_lowercase t)"
      "windows_destructive_command_is_blocked (to_ascii_lowercase s)
       \<Longrightarrow> windows_destructive_command_is_blocked (to_ascii_lowercase t)"
      "recursive_force_rm (to_ascii_lowercase s) \<Longrightarrow> recursive_force_rm (to_ascii_lowercase t)"
    and contains: "\<And>u. contains (to_ascii_lowercase s) u \<Longrightarrow> contains (to_ascii_lowercase t) u"
    and compact: "\<And>u. contains (filter (\<lambda>c. \<not> is_whitespace c) (to_ascii_lowercase s)) u
      \<Longrightarrow> contains (filter (\<lambda>c. \<not> is_whitespace c) (to_ascii_lowercase t)) u"
    and word: "\<And>w. has_word (to_ascii_lowercase s) w \<Longrightarrow> has_word (to_ascii_lowercase t) w"
    and chars: "\<And>c. c \<in> set (to_ascii_lowercase s) \<Longrightarrow> c \<in> set (to_ascii_lowercase t)"
    and count: "\<And>c. count_list (to_ascii_lowercase s) c \<le> count_list (to_ascii_lowercase t) c"
    and blocked: "blocked_terminal_command s"
  shows "blocked_terminal_command t"
proof -
  have "has_shell_pipe (to_ascii_lowercase s) \<Longrightarrow> has_shell_pipe (to_ascii_lowercase t)"
    unfolding has_shell_pipe_def using contains word chars by blast
  moreover have "list_ex (has_word (to_ascii_lowercase s)) ws \<Longrightarrow> list_ex (has_word (to_ascii_lowercase t)) ws"
    for ws using word by (auto simp: list_ex_iff)
  moreover have "count_list (to_ascii_lowercase s) 96 \<ge> 2 \<Longrightarrow> count_list (to_ascii_lowercase t) 96 \<ge> 2"
    using count [of 96] by linarith
  ultimately show ?thesis
    using blocked unfolding blocked_terminal_command_def Let_def
    by (elim disjE conjE; (simp only: lines contains compact word chars simp_thms)?) 
qed

lemma blocked_joined:
  assumes c: "command_separator c" and "blocked_terminal_command s \<or> blocked_terminal_command t"
  shows "blocked_terminal_command (s @ c # t)"
proof -
  have lower: "to_ascii_lowercase (s @ c # t) = to_ascii_lowercase s @ c # to_ascii_lowercase t"
    using c by (simp add: to_ascii_lowercase_def)
  have compact: "contains (filter P a) u \<or> contains (filter P b) u
      \<Longrightarrow> contains (filter P (a @ c # b)) u" for P a b u
    using contains_joined [of "filter P a" u "filter P b" c] contains_append [of "filter P a" u "filter P b"]
    by auto
  have "blocked_terminal_command s \<Longrightarrow> ?thesis"
    by (erule blocked_mono [rotated -1]) (simp_all add: lower c joined compact contains_append)
  moreover have "blocked_terminal_command t \<Longrightarrow> ?thesis"
    by (erule blocked_mono [rotated -1]) (simp_all add: lower c joined compact contains_append)
  ultimately show ?thesis using assms(2) by blast
qed

section \<open>Properties\<close>

lemmas policy_simps = lit_def to_ascii_lowercase_def ascii_lower_def eq_ignore_ascii_case_def
  is_quote_def is_slash_def command_separator_def is_whitespace_def is_ascii_alphanumeric_def
  is_ascii_alphabetic_def is_ascii_digit_def trim_def trim_end_def trim_matches_def strip_prefix_def
  last_segment_def split_whitespace_def segments_def has_word_def has_flag_def
  recursive_force_rm_def recursive_force_rm_line_def shell_wrapper_is_blocked_def wrapper_token_def
  wrapper_bracket_def shells_def powershell_runs_string_def powershell_option_name_def
  shell_runs_string_def cmd_runs_string_def windows_destructive_command_is_blocked_def
  windows_line_is_destructive_def windows_target_is_broad_def has_shell_pipe_def
  valid_terminal_command_def is_control_def str_len_def utf8_def utf8_char_def
  MAX_AI_TERMINAL_COMMAND_BYTES_def Let_def

text \<open>C17: The policy cannot be evaded by composition or by letter case: a line that reads, up to the
  case of its ASCII letters, as two command lines joined by a newline, \<open>;\<close>, \<open>&\<close> or \<open>|\<close> is refused
  whenever one of the two is refused.\<close>

theorem blocked_in_sequence:
  assumes "command_separator c"
    and "blocked_terminal_command first \<or> blocked_terminal_command second"
    and "eq_ignore_ascii_case line (first @ c # second)"
  shows "blocked_terminal_command line"
  using blocked_joined [OF assms(1,2)] assms(3) blocked_lower
  by (metis eq_ignore_ascii_case_def)

theorem blocked_in_sequence_witness:
  "blocked_terminal_command (lit ''ls; RM -Rf /'')"
proof (rule blocked_in_sequence [of 59 "lit ''ls''" "lit '' rm -rf /''"])
  show "blocked_terminal_command (lit ''ls'') \<or> blocked_terminal_command (lit '' rm -rf /'')"
    unfolding blocked_terminal_command_def by (simp add: policy_simps)
qed (simp_all add: policy_simps)

text \<open>C29: Gaps of the policy.  \<open>restart-computer\<close> is in the list of refused words, but words are cut at
  the hyphen, so that entry never matches anything; and the test for recursive forced removal, unlike
  those for shells, does not strip quotes from the program name.  Both lines below are accepted.\<close>

theorem blocklist_gaps:
  "\<not> has_word line (lit ''restart-computer'')
   \<and> list_all (\<lambda>command. valid_terminal_command command \<and> \<not> blocked_terminal_command command)
       [lit ''powershell Restart-Computer'', [34] @ lit ''rm'' @ [34] @ lit '' -rf /'']"
proof -
  have "\<not> has_word line (lit ''restart-computer'')"
  proof
    assume "has_word line (lit ''restart-computer'')"
    then have "\<forall>c \<in> set (lit ''restart-computer''). is_ascii_alphanumeric c \<or> c = 95"
      unfolding has_word_def using split_on_pieces by fastforce
    then show False by (simp add: policy_simps)
  qed
  moreover have "\<not> blocked_terminal_command (lit ''powershell Restart-Computer'')"
    unfolding blocked_terminal_command_def by (simp add: policy_simps)
  moreover have "\<not> blocked_terminal_command ([34] @ lit ''rm'' @ [34] @ lit '' -rf /'')"
    unfolding blocked_terminal_command_def by (simp add: policy_simps)
  ultimately show ?thesis by (simp add: policy_simps)
qed

end
