(* ===== verification/Agent_Turn.thy ===== *)
theory Agent_Turn
  imports Agent_Policy
begin

text \<open>
  One turn of the terminal agent (\<^verbatim>\<open>crates/netcatty-ai/src/agent.rs\<close>, with the request validation of
  \<^verbatim>\<open>crates/netcatty-ai/src/lib.rs\<close>): the conversation with the model provider, the tool call that
  waits for the user, and the budget of tool calls.  What the crate takes from other packages is a
  record of functions, \<open>third_party\<close>: base64 and the JSON readers and writers.  The HTTP exchange is
  an input (\<open>provider_exchange\<close>): the endpoint after URL parsing and the reply of the provider.

  The invariant \<open>turn_ok\<close> says that the conversation is one a provider accepts (every tool call is
  answered exactly once and in order, the waiting call excepted), that the budget bounds the calls,
  and that the waiting call passed the command policy and is bound to the terminal of the turn.
\<close>

section \<open>Data\<close>

datatype ai_error_code =
    UrlTooLong | UrlInvalid | UrlProtocol | UrlCredentials | UrlInsecure | ApiKeyRequired
  | ApiKeyInvalid | ModelRequired | ModelInvalid | ModelsEmpty | ModelsTooMany | MessagesInvalid
  | ImageInputInvalid | ImageInputUnsupported | RequestTooLarge | ClientUnavailable | RequestFailed
  | AiTimeout | Http | ResponseTooLarge | ResponseInvalid | EmptyResponse | AgentIterationLimit
  | AgentStateInvalid | TerminalScopeInvalid | ToolCallInvalid | ToolCommandInvalid
  | ToolResultInvalid

record ai_error =
  error_code :: ai_error_code
  error_http_status :: "nat option"

definition ai_error :: "ai_error_code \<Rightarrow> ai_error" where
  "ai_error c = \<lparr>error_code = c, error_http_status = None\<rparr>"

definition ai_error_http :: "nat \<Rightarrow> ai_error" where
  "ai_error_http status = \<lparr>error_code = Http, error_http_status = Some status\<rparr>"

fun ai_error_code_str :: "ai_error_code \<Rightarrow> rstr" where
  "ai_error_code_str UrlTooLong = lit ''AI_URL_TOO_LONG''"
| "ai_error_code_str UrlInvalid = lit ''AI_URL_INVALID''"
| "ai_error_code_str UrlProtocol = lit ''AI_URL_PROTOCOL''"
| "ai_error_code_str UrlCredentials = lit ''AI_URL_CREDENTIALS''"
| "ai_error_code_str UrlInsecure = lit ''AI_URL_INSECURE''"
| "ai_error_code_str ApiKeyRequired = lit ''AI_API_KEY_REQUIRED''"
| "ai_error_code_str ApiKeyInvalid = lit ''AI_API_KEY_INVALID''"
| "ai_error_code_str ModelRequired = lit ''AI_MODEL_REQUIRED''"
| "ai_error_code_str ModelInvalid = lit ''AI_MODEL_INVALID''"
| "ai_error_code_str ModelsEmpty = lit ''AI_MODELS_EMPTY''"
| "ai_error_code_str ModelsTooMany = lit ''AI_MODELS_TOO_MANY''"
| "ai_error_code_str MessagesInvalid = lit ''AI_MESSAGES_INVALID''"
| "ai_error_code_str ImageInputInvalid = lit ''AI_IMAGE_INPUT_INVALID''"
| "ai_error_code_str ImageInputUnsupported = lit ''AI_IMAGE_INPUT_UNSUPPORTED''"
| "ai_error_code_str RequestTooLarge = lit ''AI_REQUEST_TOO_LARGE''"
| "ai_error_code_str ClientUnavailable = lit ''AI_CLIENT_UNAVAILABLE''"
| "ai_error_code_str RequestFailed = lit ''AI_REQUEST_FAILED''"
| "ai_error_code_str AiTimeout = lit ''AI_TIMEOUT''"
| "ai_error_code_str Http = lit ''AI_HTTP_ERROR''"
| "ai_error_code_str ResponseTooLarge = lit ''AI_RESPONSE_TOO_LARGE''"
| "ai_error_code_str ResponseInvalid = lit ''AI_RESPONSE_INVALID''"
| "ai_error_code_str EmptyResponse = lit ''AI_EMPTY_RESPONSE''"
| "ai_error_code_str AgentIterationLimit = lit ''AI_AGENT_ITERATION_LIMIT''"
| "ai_error_code_str AgentStateInvalid = lit ''AI_AGENT_STATE_INVALID''"
| "ai_error_code_str TerminalScopeInvalid = lit ''AI_TERMINAL_SCOPE_INVALID''"
| "ai_error_code_str ToolCallInvalid = lit ''AI_TOOL_CALL_INVALID''"
| "ai_error_code_str ToolCommandInvalid = lit ''AI_TOOL_COMMAND_INVALID''"
| "ai_error_code_str ToolResultInvalid = lit ''AI_TOOL_RESULT_INVALID''"

definition ai_error_to_string :: "ai_error \<Rightarrow> rstr" where
  "ai_error_to_string e =
     (case error_http_status e of
        Some status \<Rightarrow> ai_error_code_str (error_code e) @ [58] @ show_radix 10 status
      | None \<Rightarrow> ai_error_code_str (error_code e))"

datatype ai_permission_mode = Observer | Confirm | Auto
datatype ai_reasoning_effort = Low | Medium | High
datatype ai_chat_role = System | User | Assistant
datatype ai_chat_content_part = Image (mime_type: rstr) (image_data: rstr)

record ai_chat_message =
  cm_role :: ai_chat_role
  cm_content :: rstr
  cm_content_parts :: "ai_chat_content_part list"

record ai_chat_request =
  rq_model :: rstr
  rq_messages :: "ai_chat_message list"

record ai_terminal_scope =
  sc_route_id :: rstr
  sc_generation :: nat
  sc_protocol :: rstr

record ai_terminal_tool_call =
  tc_id :: rstr
  tc_command :: rstr
  tc_scope :: ai_terminal_scope

record ai_terminal_tool_result =
  tr_output :: rstr
  tr_timed_out :: bool
  tr_error_code :: "rstr option"

datatype ai_agent_decision =
    Continue
  | Completed rstr
  | ToolCall ai_terminal_tool_call bool "rstr option"

datatype provider_role = PSystem | PUser | PAssistant | PTool

record provider_tool_call =
  pc_id :: rstr
  pc_kind :: rstr
  pc_name :: rstr
  pc_arguments :: rstr

record provider_message =
  pm_role :: provider_role
  pm_content :: "rstr option"
  pm_tool_calls :: "provider_tool_call list"
  pm_tool_call_id :: "rstr option"

record provider_agent_message =
  pa_content :: "rstr option"
  pa_tool_calls :: "provider_tool_call list option"

datatype provider_step =
    StepCompleted rstr
  | StepToolCall provider_tool_call "rstr option"
  | StepParallelToolCalls "provider_tool_call list" "rstr option"

record tool_result_document =
  td_output :: rstr
  td_timed_out :: bool
  td_truncated :: bool
  td_error_code :: "rstr option"

text \<open>Functions of other packages: base64, and serde\_json on three document types.\<close>

record third_party =
  base64_decode :: "rstr \<Rightarrow> bytes option"
  base64_encode :: "bytes \<Rightarrow> rstr"
  arguments_from_str :: "rstr \<Rightarrow> rstr option"
  result_to_string :: "tool_result_document \<Rightarrow> rstr option"
  response_from_slice :: "bytes \<Rightarrow> provider_agent_message list option"

text \<open>An operation returns an error or, at an \<^verbatim>\<open>expect\<close>, ends the program.\<close>

datatype agent_failure = Failure ai_error | Panicked

abbreviation fail :: "ai_error_code \<Rightarrow> agent_failure + 'a" where
  "fail c \<equiv> Inl (Failure (ai_error c))"

definition MAX_AI_MODEL_BYTES :: nat where "MAX_AI_MODEL_BYTES = 256"
definition MAX_AI_MESSAGES :: nat where "MAX_AI_MESSAGES = 64"
definition MAX_AI_MESSAGE_BYTES :: nat where "MAX_AI_MESSAGE_BYTES = 128 * 1024"
definition MAX_AI_REQUEST_TEXT_BYTES :: nat where "MAX_AI_REQUEST_TEXT_BYTES = 512 * 1024"
definition MAX_AI_IMAGE_PARTS :: nat where "MAX_AI_IMAGE_PARTS = 4"
definition MAX_AI_IMAGE_BYTES :: nat where "MAX_AI_IMAGE_BYTES = 5 * 1024 * 1024"
definition MAX_AI_REQUEST_IMAGE_BYTES :: nat where "MAX_AI_REQUEST_IMAGE_BYTES = 10 * 1024 * 1024"
definition MAX_AI_RESPONSE_BYTES :: nat where "MAX_AI_RESPONSE_BYTES = 2 * 1024 * 1024"
definition MAX_AI_IMAGE_BASE64_BYTES :: nat where
  "MAX_AI_IMAGE_BASE64_BYTES = (MAX_AI_IMAGE_BYTES + 2) div 3 * 4"
definition MAX_AI_AGENT_TOOL_ITERATIONS :: nat where "MAX_AI_AGENT_TOOL_ITERATIONS = 4"
definition MAX_AI_TOOL_OUTPUT_BYTES :: nat where "MAX_AI_TOOL_OUTPUT_BYTES = 32 * 1024"
definition MAX_TOOL_CALL_ID_BYTES :: nat where "MAX_TOOL_CALL_ID_BYTES = 128"
definition MAX_TERMINAL_ROUTE_ID_BYTES :: nat where "MAX_TERMINAL_ROUTE_ID_BYTES = 1024"
definition MAX_TERMINAL_PROTOCOL_BYTES :: nat where "MAX_TERMINAL_PROTOCOL_BYTES = 16"
definition MAX_TOOL_ERROR_CODE_BYTES :: nat where "MAX_TOOL_ERROR_CODE_BYTES = 128"
definition MAX_AGENT_REQUEST_TEXT_BYTES :: nat where
  "MAX_AGENT_REQUEST_TEXT_BYTES = MAX_AI_REQUEST_TEXT_BYTES
     + MAX_AI_AGENT_TOOL_ITERATIONS
       * (MAX_AI_TERMINAL_COMMAND_BYTES + MAX_AI_TOOL_OUTPUT_BYTES + 1024)"
definition TERMINAL_TOOL_NAME :: rstr where "TERMINAL_TOOL_NAME = lit ''terminal_execute''"
definition PARALLEL_TOOL_CALL_ERROR :: rstr where
  "PARALLEL_TOOL_CALL_ERROR = lit ''AI_TOOL_PARALLEL_CALLS_UNSUPPORTED''"
definition PARALLEL_TOOL_CALL_RETRY_INSTRUCTION :: rstr where
  "PARALLEL_TOOL_CALL_RETRY_INSTRUCTION =
     lit ''Return exactly one terminal_execute tool call in the next response.''"

section \<open>Validation of the request\<close>

definition validate_scope :: "ai_terminal_scope \<Rightarrow> ai_error + unit" where
  "validate_scope s =
     (if sc_route_id s = []
         \<or> str_len (sc_route_id s) > MAX_TERMINAL_ROUTE_ID_BYTES
         \<or> list_ex is_control (sc_route_id s)
         \<or> sc_protocol s = []
         \<or> str_len (sc_protocol s) > MAX_TERMINAL_PROTOCOL_BYTES
         \<or> sc_protocol s \<notin> set (map lit [''local'', ''ssh'', ''telnet'', ''mosh'', ''et''])
      then Inl (ai_error TerminalScopeInvalid) else Inr ())"

definition image_signature_matches :: "rstr \<Rightarrow> bytes \<Rightarrow> bool" where
  "image_signature_matches mime decoded =
     (if mime = lit ''image/png'' then
        prefix [0x89, 0x50, 0x4E, 0x47, 0x0D, 0x0A, 0x1A, 0x0A] decoded
      else if mime = lit ''image/jpeg'' then prefix [0xff, 0xd8, 0xff] decoded
      else if mime = lit ''image/webp'' then
        length decoded \<ge> 12 \<and> prefix (utf8 (lit ''RIFF'')) decoded
        \<and> take 4 (drop 8 decoded) = utf8 (lit ''WEBP'')
      else False)"

definition validate_image_part :: "third_party \<Rightarrow> ai_chat_content_part \<Rightarrow> ai_error + nat" where
  "validate_image_part ext part =
     (let data = image_data part; mime = mime_type part
      in if data = [] \<or> str_len data > MAX_AI_IMAGE_BASE64_BYTES then Inl (ai_error RequestTooLarge)
         else if mime \<notin> set (map lit [''image/png'', ''image/jpeg'', ''image/webp'']) then
           Inl (ai_error ImageInputInvalid)
         else case base64_decode ext data of
                None \<Rightarrow> Inl (ai_error ImageInputInvalid)
              | Some decoded \<Rightarrow>
                  if decoded = [] \<or> length decoded > MAX_AI_IMAGE_BYTES
                     \<or> base64_encode ext decoded \<noteq> data
                     \<or> \<not> image_signature_matches mime decoded
                  then Inl (ai_error ImageInputInvalid)
                  else Inr (length decoded))"

fun validate_parts ::
  "third_party \<Rightarrow> ai_chat_content_part list \<Rightarrow> nat \<Rightarrow> nat \<Rightarrow> ai_error + nat \<times> nat" where
  "validate_parts ext [] image_count image_bytes = Inr (image_count, image_bytes)"
| "validate_parts ext (part # parts) image_count image_bytes =
     (case checked_add64 image_count 1 of
        None \<Rightarrow> Inl (ai_error RequestTooLarge)
      | Some image_count \<Rightarrow>
          if image_count > MAX_AI_IMAGE_PARTS then Inl (ai_error RequestTooLarge)
          else case validate_image_part ext part of
                 Inl e \<Rightarrow> Inl e
               | Inr decoded_bytes \<Rightarrow>
                   (case checked_add64 image_bytes decoded_bytes of
                      None \<Rightarrow> Inl (ai_error RequestTooLarge)
                    | Some image_bytes \<Rightarrow>
                        if image_bytes > MAX_AI_REQUEST_IMAGE_BYTES
                        then Inl (ai_error RequestTooLarge)
                        else validate_parts ext parts image_count image_bytes))"

fun validate_messages ::
  "third_party \<Rightarrow> ai_chat_message list \<Rightarrow> nat \<Rightarrow> nat \<Rightarrow> nat \<Rightarrow> ai_error + unit" where
  "validate_messages ext [] total_bytes image_count image_bytes = Inr ()"
| "validate_messages ext (message # messages) total_bytes image_count image_bytes =
     (let n = str_len (cm_content message)
      in if n = 0 \<and> cm_content_parts message = [] \<or> n > MAX_AI_MESSAGE_BYTES
            \<or> 0 \<in> set (cm_content message)
         then Inl (ai_error MessagesInvalid)
         else case checked_add64 total_bytes n of
                None \<Rightarrow> Inl (ai_error RequestTooLarge)
              | Some total_bytes \<Rightarrow>
                  if total_bytes > MAX_AI_REQUEST_TEXT_BYTES then Inl (ai_error RequestTooLarge)
                  else if cm_content_parts message \<noteq> [] \<and> cm_role message \<noteq> User then
                    Inl (ai_error ImageInputInvalid)
                  else case validate_parts ext (cm_content_parts message) image_count image_bytes of
                         Inl e \<Rightarrow> Inl e
                       | Inr (image_count, image_bytes) \<Rightarrow>
                           validate_messages ext messages total_bytes image_count image_bytes)"

definition validate_request :: "third_party \<Rightarrow> ai_chat_request \<Rightarrow> ai_error + unit" where
  "validate_request ext request =
     (let model = trim (rq_model request)
      in if model = [] then Inl (ai_error ModelRequired)
         else if str_len model > MAX_AI_MODEL_BYTES \<or> list_ex is_control model then
           Inl (ai_error ModelInvalid)
         else if rq_messages request = [] \<or> length (rq_messages request) > MAX_AI_MESSAGES then
           Inl (ai_error MessagesInvalid)
         else validate_messages ext (rq_messages request) 0 0 0)"

definition has_image_content :: "ai_chat_request \<Rightarrow> bool" where
  "has_image_content request = list_ex (\<lambda>m. cm_content_parts m \<noteq> []) (rq_messages request)"

section \<open>The turn\<close>

definition plain_message :: "ai_chat_message \<Rightarrow> provider_message" where
  "plain_message m =
     \<lparr>pm_role = (case cm_role m of System \<Rightarrow> PSystem | User \<Rightarrow> PUser | Assistant \<Rightarrow> PAssistant),
      pm_content = Some (cm_content m), pm_tool_calls = [], pm_tool_call_id = None\<rparr>"

definition assistant_tools :: "provider_tool_call list \<Rightarrow> rstr option \<Rightarrow> provider_message" where
  "assistant_tools tool_calls content =
     \<lparr>pm_role = PAssistant, pm_content = content, pm_tool_calls = tool_calls, pm_tool_call_id = None\<rparr>"

definition tool_result :: "rstr \<Rightarrow> rstr \<Rightarrow> provider_message" where
  "tool_result call_id content =
     \<lparr>pm_role = PTool, pm_content = Some content, pm_tool_calls = [], pm_tool_call_id = Some call_id\<rparr>"

record ai_agent_turn =
  at_model :: rstr
  at_reasoning_effort :: "ai_reasoning_effort option"
  at_permission_mode :: ai_permission_mode
  at_terminal_scope :: "ai_terminal_scope option"
  at_messages :: "provider_message list"
  at_tool_iterations :: nat
  at_pending_call :: "ai_terminal_tool_call option"

definition agent_new ::
  "third_party \<Rightarrow> ai_chat_request \<Rightarrow> ai_permission_mode \<Rightarrow> ai_terminal_scope option
   \<Rightarrow> ai_reasoning_effort option \<Rightarrow> ai_error + ai_agent_turn" where
  "agent_new ext request mode scope effort =
     (case validate_request ext request of
        Inl e \<Rightarrow> Inl e
      | Inr _ \<Rightarrow>
          if has_image_content request then Inl (ai_error ImageInputUnsupported)
          else case (case scope of None \<Rightarrow> Inr () | Some sc \<Rightarrow> validate_scope sc) of
                 Inl e \<Rightarrow> Inl e
               | Inr _ \<Rightarrow>
                   Inr \<lparr>at_model = rq_model request, at_reasoning_effort = effort,
                        at_permission_mode = mode, at_terminal_scope = scope,
                        at_messages = map plain_message (rq_messages request),
                        at_tool_iterations = 0, at_pending_call = None\<rparr>)"

definition set_permission_mode :: "ai_permission_mode \<Rightarrow> ai_agent_turn \<Rightarrow> ai_agent_turn" where
  "set_permission_mode mode t = t\<lparr>at_permission_mode := mode\<rparr>"

definition authorize_tool_execution ::
  "rstr \<Rightarrow> ai_terminal_scope \<Rightarrow> ai_agent_turn \<Rightarrow> ai_error + unit" where
  "authorize_tool_execution call_id scope t =
     (case at_pending_call t of
        None \<Rightarrow> Inl (ai_error AgentStateInvalid)
      | Some pending \<Rightarrow>
          if tc_id pending \<noteq> call_id \<or> tc_scope pending \<noteq> scope
          then Inl (ai_error AgentStateInvalid) else Inr ())"

definition accepts_terminal_tool :: "ai_agent_turn \<Rightarrow> bool" where
  "accepts_terminal_tool t \<longleftrightarrow> at_terminal_scope t \<noteq> None"

fun checked_sum :: "nat \<Rightarrow> nat list \<Rightarrow> nat option" where
  "checked_sum acc [] = Some acc"
| "checked_sum acc (n # ns) =
     (case checked_add64 acc n of None \<Rightarrow> None | Some acc \<Rightarrow> checked_sum acc ns)"

definition call_sizes :: "provider_tool_call list \<Rightarrow> nat list" where
  "call_sizes calls = concat (map (\<lambda>c. [str_len (pc_id c), str_len (pc_arguments c)]) calls)"

fun history_size :: "nat \<Rightarrow> provider_message list \<Rightarrow> nat option" where
  "history_size acc [] = Some acc"
| "history_size acc (m # ms) =
     (case checked_sum 0 (call_sizes (pm_tool_calls m)) of
        None \<Rightarrow> None
      | Some tool_text \<Rightarrow>
          (case checked_add64 acc (case pm_content m of None \<Rightarrow> 0 | Some c \<Rightarrow> str_len c) of
             None \<Rightarrow> None
           | Some acc \<Rightarrow>
               (case checked_add64 acc tool_text of
                  None \<Rightarrow> None
                | Some acc \<Rightarrow> history_size acc ms)))"

definition validate_history_bound :: "ai_agent_turn \<Rightarrow> ai_error + unit" where
  "validate_history_bound t =
     (case history_size 0 (at_messages t) of
        None \<Rightarrow> Inl (ai_error RequestTooLarge)
      | Some n \<Rightarrow> if n > MAX_AGENT_REQUEST_TEXT_BYTES then Inl (ai_error RequestTooLarge) else Inr ())"

definition reserve_tool_iterations :: "nat \<Rightarrow> ai_agent_turn \<Rightarrow> ai_agent_turn \<times> (ai_error + unit)" where
  "reserve_tool_iterations count t =
     (if count > 255 \<or> count = 0 then (t, Inl (ai_error ToolCallInvalid))
      else let following = at_tool_iterations t + count
           in if following > 255 \<or> following > MAX_AI_AGENT_TOOL_ITERATIONS
              then (t, Inl (ai_error AgentIterationLimit))
              else (t\<lparr>at_tool_iterations := following\<rparr>, Inr ()))"

definition validate_tool_call ::
  "third_party \<Rightarrow> ai_agent_turn \<Rightarrow> provider_tool_call \<Rightarrow> ai_error + ai_terminal_tool_call" where
  "validate_tool_call ext t provider_call =
     (case at_terminal_scope t of
        None \<Rightarrow> Inl (ai_error ToolCallInvalid)
      | Some scope \<Rightarrow>
          if pc_kind provider_call \<noteq> lit ''function''
             \<or> pc_name provider_call \<noteq> TERMINAL_TOOL_NAME
             \<or> pc_id provider_call = []
             \<or> str_len (pc_id provider_call) > MAX_TOOL_CALL_ID_BYTES
             \<or> list_ex is_control (pc_id provider_call)
             \<or> str_len (pc_arguments provider_call) > MAX_AI_TERMINAL_COMMAND_BYTES + 256
          then Inl (ai_error ToolCallInvalid)
          else case arguments_from_str ext (pc_arguments provider_call) of
                 None \<Rightarrow> Inl (ai_error ToolCallInvalid)
               | Some command \<Rightarrow>
                   if \<not> valid_terminal_command command then Inl (ai_error ToolCommandInvalid)
                   else Inr \<lparr>tc_id = pc_id provider_call, tc_command = command, tc_scope = scope\<rparr>)"

definition fixed_tool_error_with_output :: "third_party \<Rightarrow> rstr \<Rightarrow> rstr \<Rightarrow> rstr option" where
  "fixed_tool_error_with_output ext err output =
     result_to_string ext
       \<lparr>td_output = output, td_timed_out = False, td_truncated = False, td_error_code = Some err\<rparr>"

definition push_message :: "provider_message \<Rightarrow> ai_agent_turn \<Rightarrow> ai_agent_turn" where
  "push_message m t = t\<lparr>at_messages := at_messages t @ [m]\<rparr>"

text \<open>The arm of a call that the policy or the mode denies: the fixed error is its result.\<close>

definition deny_call ::
  "third_party \<Rightarrow> rstr \<Rightarrow> rstr \<Rightarrow> ai_agent_turn
   \<Rightarrow> ai_agent_turn \<times> (agent_failure + ai_agent_decision)" where
  "deny_call ext call_id err t =
     (case fixed_tool_error_with_output ext err [] of
        None \<Rightarrow> (t, Inl Panicked)
      | Some content \<Rightarrow> (push_message (tool_result call_id content) t, Inr Continue))"

definition admit_tool_call ::
  "third_party \<Rightarrow> provider_tool_call \<Rightarrow> rstr option \<Rightarrow> ai_terminal_tool_call \<Rightarrow> ai_agent_turn
   \<Rightarrow> ai_agent_turn \<times> (agent_failure + ai_agent_decision)" where
  "admit_tool_call ext provider_call content call t =
     (let t = push_message (assistant_tools [provider_call] content) t
      in if blocked_terminal_command (tc_command call)
         then deny_call ext (tc_id call) (lit ''AI_TOOL_COMMAND_BLOCKED'') t
         else if at_permission_mode t = Observer
         then deny_call ext (tc_id call) (lit ''AI_TOOL_OBSERVER_DENIED'') t
         else (t\<lparr>at_pending_call := Some call\<rparr>,
               Inr (ToolCall call (at_permission_mode t = Confirm) content)))"

definition accept_tool_call ::
  "third_party \<Rightarrow> provider_tool_call \<Rightarrow> rstr option \<Rightarrow> ai_agent_turn
   \<Rightarrow> ai_agent_turn \<times> (agent_failure + ai_agent_decision)" where
  "accept_tool_call ext provider_call content t =
     (case reserve_tool_iterations 1 t of
        (t, Inl e) \<Rightarrow> (t, Inl (Failure e))
      | (t, Inr _) \<Rightarrow>
          (case validate_tool_call ext t provider_call of
             Inl e \<Rightarrow> (t, Inl (Failure e))
           | Inr call \<Rightarrow> admit_tool_call ext provider_call content call t))"

fun check_parallel_calls ::
  "third_party \<Rightarrow> ai_agent_turn \<Rightarrow> rstr set \<Rightarrow> provider_tool_call list \<Rightarrow> ai_error + unit" where
  "check_parallel_calls ext t unique_ids [] = Inr ()"
| "check_parallel_calls ext t unique_ids (provider_call # calls) =
     (case validate_tool_call ext t provider_call of
        Inl e \<Rightarrow> Inl e
      | Inr _ \<Rightarrow>
          if pc_id provider_call \<in> unique_ids then Inl (ai_error ToolCallInvalid)
          else check_parallel_calls ext t (insert (pc_id provider_call) unique_ids) calls)"

fun push_retry_errors ::
  "third_party \<Rightarrow> rstr list \<Rightarrow> ai_agent_turn \<Rightarrow> ai_agent_turn \<times> (agent_failure + ai_agent_decision)" where
  "push_retry_errors ext [] t = (t, Inr Continue)"
| "push_retry_errors ext (call_id # call_ids) t =
     (case fixed_tool_error_with_output ext PARALLEL_TOOL_CALL_ERROR
             PARALLEL_TOOL_CALL_RETRY_INSTRUCTION of
        None \<Rightarrow> (t, Inl Panicked)
      | Some content \<Rightarrow> push_retry_errors ext call_ids (push_message (tool_result call_id content) t))"

definition reject_parallel_tool_calls ::
  "third_party \<Rightarrow> provider_tool_call list \<Rightarrow> rstr option \<Rightarrow> ai_agent_turn
   \<Rightarrow> ai_agent_turn \<times> (agent_failure + ai_agent_decision)" where
  "reject_parallel_tool_calls ext calls content t =
     (case reserve_tool_iterations (length calls) t of
        (t, Inl e) \<Rightarrow> (t, Inl (Failure e))
      | (t, Inr _) \<Rightarrow>
          (case check_parallel_calls ext t {} calls of
             Inl e \<Rightarrow> (t, Inl (Failure e))
           | Inr _ \<Rightarrow>
               push_retry_errors ext (map pc_id calls)
                 (push_message (assistant_tools calls content) t)))"

definition accept_provider_step ::
  "third_party \<Rightarrow> provider_step \<Rightarrow> ai_agent_turn
   \<Rightarrow> ai_agent_turn \<times> (agent_failure + ai_agent_decision)" where
  "accept_provider_step ext step t =
     (if at_pending_call t \<noteq> None then (t, fail AgentStateInvalid)
      else case step of
             StepCompleted content \<Rightarrow> (t, Inr (Completed content))
           | StepToolCall provider_call content \<Rightarrow> accept_tool_call ext provider_call content t
           | StepParallelToolCalls calls content \<Rightarrow> reject_parallel_tool_calls ext calls content t)"

text \<open>The longest prefix of at most \<open>n\<close> bytes that ends at a character boundary.\<close>

fun utf8_take :: "nat \<Rightarrow> rstr \<Rightarrow> rstr" where
  "utf8_take n [] = []"
| "utf8_take n (c # s) =
     (let k = length (utf8_char c) in if k \<le> n then c # utf8_take (n - k) s else [])"

definition bounded_utf8_prefix :: "rstr \<Rightarrow> nat \<Rightarrow> rstr \<times> bool" where
  "bounded_utf8_prefix value_text maximum =
     (if str_len value_text \<le> maximum then (value_text, False) else (utf8_take maximum value_text, True))"

definition valid_tool_error_code :: "rstr \<Rightarrow> bool" where
  "valid_tool_error_code code_text \<longleftrightarrow>
     code_text \<noteq> [] \<and> str_len code_text \<le> MAX_TOOL_ERROR_CODE_BYTES
     \<and> list_all (\<lambda>c. 65 \<le> c \<and> c \<le> 90 \<or> is_ascii_digit c \<or> c = 95) code_text"

definition submit_tool_result ::
  "third_party \<Rightarrow> rstr \<Rightarrow> ai_terminal_scope \<Rightarrow> ai_terminal_tool_result \<Rightarrow> ai_agent_turn
   \<Rightarrow> ai_agent_turn \<times> (ai_error + unit)" where
  "submit_tool_result ext call_id scope result t =
     (case authorize_tool_execution call_id scope t of
        Inl e \<Rightarrow> (t, Inl e)
      | Inr _ \<Rightarrow>
          if 0 \<in> set (tr_output result)
             \<or> (case tr_error_code result of None \<Rightarrow> False | Some c \<Rightarrow> \<not> valid_tool_error_code c)
          then (t, Inl (ai_error ToolResultInvalid))
          else
            (let (output, truncated) = bounded_utf8_prefix (tr_output result) MAX_AI_TOOL_OUTPUT_BYTES
             in case result_to_string ext
                       \<lparr>td_output = output, td_timed_out = tr_timed_out result,
                        td_truncated = truncated, td_error_code = tr_error_code result\<rparr> of
                  None \<Rightarrow> (t, Inl (ai_error ToolResultInvalid))
                | Some content \<Rightarrow>
                    (case at_pending_call t of
                       None \<Rightarrow> (t, Inl (ai_error AgentStateInvalid))
                     | Some pending \<Rightarrow>
                         (let t = push_message (tool_result (tc_id pending) content)
                                    (t\<lparr>at_pending_call := None\<rparr>)
                          in (if tr_timed_out result then t\<lparr>at_terminal_scope := None\<rparr> else t,
                              Inr ())))))"

section \<open>One exchange with the provider\<close>

definition bounded_tool_call_content :: "rstr option \<Rightarrow> ai_error + rstr option" where
  "bounded_tool_call_content content =
     (case content of
        None \<Rightarrow> Inr None
      | Some c \<Rightarrow>
          if str_len c > MAX_AI_MESSAGE_BYTES then Inl (ai_error ResponseTooLarge)
          else if trim c = [] then Inr None
          else Inr (Some c))"

definition parse_provider_step :: "third_party \<Rightarrow> bytes \<Rightarrow> ai_error + provider_step" where
  "parse_provider_step ext body =
     (case response_from_slice ext body of
        None \<Rightarrow> Inl (ai_error ResponseInvalid)
      | Some [] \<Rightarrow> Inl (ai_error ResponseInvalid)
      | Some (message # _) \<Rightarrow>
          (case pa_tool_calls message of
             Some (call # calls) \<Rightarrow>
               (case bounded_tool_call_content (pa_content message) of
                  Inl e \<Rightarrow> Inl e
                | Inr content \<Rightarrow>
                    Inr (if calls = [] then StepToolCall call content
                         else StepParallelToolCalls (call # calls) content))
           | _ \<Rightarrow>
               (case pa_content message of
                  None \<Rightarrow> Inl (ai_error ResponseInvalid)
                | Some content \<Rightarrow>
                    if trim content = [] then Inl (ai_error EmptyResponse)
                    else if str_len content > MAX_AI_MESSAGE_BYTES then Inl (ai_error ResponseTooLarge)
                    else Inr (StepCompleted content))))"

text \<open>The reply of the HTTP client: a failure to send, or a status, the announced length and the
  chunks of the body, each of which may fail.\<close>

datatype http_reply =
    SendFailed ai_error
  | Replied nat "nat option" "(ai_error + bytes) list"

record provider_exchange =
  px_endpoint :: "ai_error + bool"
  px_api_key_empty :: bool
  px_header_valid :: bool
  px_reply :: http_reply

fun read_bounded_response :: "bytes \<Rightarrow> (ai_error + bytes) list \<Rightarrow> ai_error + bytes" where
  "read_bounded_response body [] = Inr body"
| "read_bounded_response body (Inl e # chunks) = Inl e"
| "read_bounded_response body (Inr chunk # chunks) =
     (case checked_add64 (length body) (length chunk) of
        None \<Rightarrow> Inl (ai_error ResponseTooLarge)
      | Some next_length \<Rightarrow>
          if next_length > MAX_AI_RESPONSE_BYTES then Inl (ai_error ResponseTooLarge)
          else read_bounded_response (body @ chunk) chunks)"

definition complete_agent_step ::
  "third_party \<Rightarrow> provider_exchange \<Rightarrow> ai_agent_turn \<Rightarrow> ai_error + provider_step" where
  "complete_agent_step ext x t =
     (case validate_history_bound t of
        Inl e \<Rightarrow> Inl e
      | Inr _ \<Rightarrow>
          (case px_endpoint x of
             Inl e \<Rightarrow> Inl e
           | Inr loopback \<Rightarrow>
               if px_api_key_empty x \<and> \<not> loopback then Inl (ai_error ApiKeyRequired)
               else if \<not> px_api_key_empty x \<and> \<not> px_header_valid x then Inl (ai_error ApiKeyInvalid)
               else case px_reply x of
                      SendFailed e \<Rightarrow> Inl e
                    | Replied status announced body \<Rightarrow>
                        if \<not> (200 \<le> status \<and> status < 300) then Inl (ai_error_http status)
                        else if (case announced of None \<Rightarrow> False | Some n \<Rightarrow> n > MAX_AI_RESPONSE_BYTES)
                        then Inl (ai_error ResponseTooLarge)
                        else case read_bounded_response [] body of
                               Inl e \<Rightarrow> Inl e
                             | Inr bytes \<Rightarrow> parse_provider_step ext bytes))"

definition advance ::
  "third_party \<Rightarrow> provider_exchange \<Rightarrow> ai_agent_turn
   \<Rightarrow> ai_agent_turn \<times> (agent_failure + ai_agent_decision)" where
  "advance ext x t =
     (case complete_agent_step ext x t of
        Inl e \<Rightarrow> (t, Inl (Failure e))
      | Inr step \<Rightarrow> accept_provider_step ext step t)"

text \<open>The loop of \<^verbatim>\<open>drive_agent_turn\<close> around \<open>advance\<close>: it goes on as long as calls are denied.  The
  exchanges with the provider are numbered; the result says how many were used.\<close>

lemma reserve_result:
  "reserve_tool_iterations n t = (t', Inr u) \<longleftrightarrow>
     0 < n \<and> at_tool_iterations t + n \<le> MAX_AI_AGENT_TOOL_ITERATIONS
     \<and> t' = t\<lparr>at_tool_iterations := at_tool_iterations t + n\<rparr>"
  by (auto simp: reserve_tool_iterations_def Let_def MAX_AI_AGENT_TOOL_ITERATIONS_def)

lemma reserve_error: "reserve_tool_iterations n t = (t', Inl e) \<Longrightarrow> t' = t"
  by (auto simp: reserve_tool_iterations_def Let_def split: if_splits)

lemma push_message_simps [simp]:
  "at_tool_iterations (push_message m t) = at_tool_iterations t"
  "at_terminal_scope (push_message m t) = at_terminal_scope t"
  "at_pending_call (push_message m t) = at_pending_call t"
  "at_permission_mode (push_message m t) = at_permission_mode t"
  "at_messages (push_message m t) = at_messages t @ [m]"
  by (simp_all add: push_message_def)

lemma push_retry_errors_result:
  "push_retry_errors ext ids t = (t', r) \<Longrightarrow>
     at_tool_iterations t' = at_tool_iterations t \<and> at_terminal_scope t' = at_terminal_scope t
     \<and> at_pending_call t' = at_pending_call t
     \<and> (r = Inl Panicked \<or> r = Inr Continue
        \<and> (\<exists>texts. length texts = length ids \<and>
             at_messages t' = at_messages t @ map (\<lambda>(i, c). tool_result i c) (zip ids texts)))"
proof (induction ids arbitrary: t)
  case (Cons i ids)
  show ?case
  proof (cases "fixed_tool_error_with_output ext PARALLEL_TOOL_CALL_ERROR
      PARALLEL_TOOL_CALL_RETRY_INSTRUCTION")
    case (Some c)
    then have "push_retry_errors ext ids (push_message (tool_result i c) t) = (t', r)"
      using Cons.prems by simp
    note ih = Cons.IH [OF this]
    show ?thesis
    proof (cases "r = Inl Panicked")
      case False
      with ih obtain texts where "length texts = length ids" "r = Inr Continue"
          "at_messages t' = at_messages t @ tool_result i c # map (\<lambda>(i, c). tool_result i c) (zip ids texts)"
        by auto
      then have "\<exists>texts. length texts = length (i # ids) \<and>
             at_messages t' = at_messages t @ map (\<lambda>(i, c). tool_result i c) (zip (i # ids) texts)"
        by (intro exI [of _ "c # texts"]) simp
      with ih \<open>r = Inr Continue\<close> show ?thesis by simp
    qed (use ih in simp)
  qed (use Cons.prems in simp)
qed simp

lemma deny_call_result:
  "deny_call ext i err t = (t', r) \<Longrightarrow>
     t' = t \<and> r = Inl Panicked \<or> (\<exists>c. t' = push_message (tool_result i c) t \<and> r = Inr Continue)"
  by (auto simp: deny_call_def split: option.splits)

lemma continue_uses_budget:
  assumes "advance ext x t = (t', Inr Continue)"
  shows "at_tool_iterations t < at_tool_iterations t' \<and>
    at_tool_iterations t' \<le> MAX_AI_AGENT_TOOL_ITERATIONS"
  using assms
  by (auto simp: advance_def accept_provider_step_def accept_tool_call_def admit_tool_call_def Let_def
      reject_parallel_tool_calls_def reserve_result
      dest!: push_retry_errors_result deny_call_result
      split: sum.splits if_splits prod.splits provider_step.splits)

function agent_loop ::
  "third_party \<Rightarrow> (nat \<Rightarrow> provider_exchange) \<Rightarrow> nat \<Rightarrow> ai_agent_turn
   \<Rightarrow> nat \<times> ai_agent_turn \<times> (agent_failure + ai_agent_decision)" where
  "agent_loop ext xs n t =
     (case advance ext (xs n) t of
        (t', Inr Continue) \<Rightarrow> agent_loop ext xs (Suc n) t'
      | (t', r) \<Rightarrow> (Suc n, t', r))"
  by pat_completeness auto
termination
  by (relation "measure (\<lambda>(ext, xs, n, t). MAX_AI_AGENT_TOOL_ITERATIONS - at_tool_iterations t)")
    (auto dest!: continue_uses_budget [OF sym])

declare agent_loop.simps [simp del]

section \<open>The invariant of a turn\<close>

text \<open>The identifiers of the calls that a conversation leaves unanswered, if it is well-formed.\<close>

fun conversation :: "rstr list \<Rightarrow> provider_message list \<Rightarrow> rstr list option" where
  "conversation pending [] = Some pending"
| "conversation pending (m # ms) =
     (case pm_tool_call_id m of
        Some i \<Rightarrow> (if pending \<noteq> [] \<and> hd pending = i then conversation (tl pending) ms else None)
      | None \<Rightarrow> (if pending = [] then conversation (map pc_id (pm_tool_calls m)) ms else None))"

definition provider_calls :: "provider_message list \<Rightarrow> provider_tool_call list" where
  "provider_calls ms = concat (map pm_tool_calls ms)"

definition call_ok :: "ai_terminal_tool_call \<Rightarrow> bool" where
  "call_ok c \<longleftrightarrow> valid_terminal_command (tc_command c) \<and> \<not> blocked_terminal_command (tc_command c)
     \<and> tc_id c \<noteq> [] \<and> str_len (tc_id c) \<le> MAX_TOOL_CALL_ID_BYTES \<and> \<not> list_ex is_control (tc_id c)"

definition turn_ok :: "ai_terminal_scope option \<Rightarrow> ai_agent_turn \<Rightarrow> bool" where
  "turn_ok scope t \<longleftrightarrow>
     at_tool_iterations t \<le> MAX_AI_AGENT_TOOL_ITERATIONS
     \<and> length (provider_calls (at_messages t)) \<le> at_tool_iterations t
     \<and> conversation [] (at_messages t)
         = Some (case at_pending_call t of None \<Rightarrow> [] | Some c \<Rightarrow> [tc_id c])
     \<and> (at_terminal_scope t = None \<or> at_terminal_scope t = scope)
     \<and> (\<forall>c. at_pending_call t = Some c \<longrightarrow> at_terminal_scope t = Some (tc_scope c) \<and> call_ok c)"

inductive agent_step :: "third_party \<Rightarrow> ai_agent_turn \<Rightarrow> ai_agent_turn \<Rightarrow> bool" for ext where
  agent_advance: "advance ext x t = (t', r) \<Longrightarrow> r \<noteq> Inl Panicked \<Longrightarrow> agent_step ext t t'"
| agent_set_mode: "agent_step ext t (set_permission_mode mode t)"
| agent_submit: "submit_tool_result ext i scope result t = (t', r) \<Longrightarrow> agent_step ext t t'"

lemma conversation_append:
  "conversation p (ms @ ms') =
     (case conversation p ms of None \<Rightarrow> None | Some q \<Rightarrow> conversation q ms')"
  by (induction p ms rule: conversation.induct) (auto split: option.split)

lemma conversation_results:
  "length texts = length ids \<Longrightarrow>
     conversation ids (map (\<lambda>(i, c). tool_result i c) (zip ids texts)) = Some []"
  by (induction ids texts rule: list_induct2') (auto simp: tool_result_def)

lemma conversation_plain: "conversation [] (map plain_message ms) = Some []"
  by (induction ms) (auto simp: plain_message_def)

lemma message_simps [simp]:
  "pm_tool_calls (plain_message m) = []"
  "pm_tool_calls (assistant_tools cs c) = cs" "pm_tool_call_id (assistant_tools cs c) = None"
  "pm_tool_calls (tool_result i d) = []" "pm_tool_call_id (tool_result i d) = Some i"
  by (simp_all add: plain_message_def assistant_tools_def tool_result_def)

lemma provider_calls_simps [simp]:
  "provider_calls [] = []"
  "provider_calls (m # ms) = pm_tool_calls m @ provider_calls ms"
  "provider_calls (ms @ ms') = provider_calls ms @ provider_calls ms'"
  by (simp_all add: provider_calls_def)

lemma provider_calls_results [simp]:
  "provider_calls (map (\<lambda>(i, c). tool_result i c) ps) = []"
  by (induction ps) auto

lemma validate_tool_call_result:
  "validate_tool_call ext t c = Inr call \<Longrightarrow>
     at_terminal_scope t = Some (tc_scope call) \<and> tc_id call = pc_id c
     \<and> valid_terminal_command (tc_command call) \<and> pc_id c \<noteq> []
     \<and> str_len (pc_id c) \<le> MAX_TOOL_CALL_ID_BYTES \<and> \<not> list_ex is_control (pc_id c)"
  by (auto simp: validate_tool_call_def split: option.splits if_splits)

text \<open>What \<open>accept_provider_step\<close> can do to a turn.\<close>

inductive accepted ::
  "ai_agent_turn \<Rightarrow> ai_agent_turn \<Rightarrow> agent_failure + ai_agent_decision \<Rightarrow> bool" where
  unchanged: "\<forall>call a c. r \<noteq> Inr (ToolCall call a c) \<Longrightarrow> accepted t t r"
| reserved: "at_tool_iterations t + k \<le> MAX_AI_AGENT_TOOL_ITERATIONS \<Longrightarrow>
    accepted t (t\<lparr>at_tool_iterations := at_tool_iterations t + k\<rparr>) (Inl e)"
| answered: "at_pending_call t = None \<Longrightarrow> at_pending_call t' = None \<Longrightarrow>
    at_terminal_scope t' = at_terminal_scope t \<Longrightarrow> length texts = length cs \<Longrightarrow>
    at_messages t' = at_messages t @ assistant_tools cs content
      # map (\<lambda>(i, c). tool_result i c) (zip (map pc_id cs) texts) \<Longrightarrow>
    at_tool_iterations t' = at_tool_iterations t + length cs \<Longrightarrow>
    at_tool_iterations t' \<le> MAX_AI_AGENT_TOOL_ITERATIONS \<Longrightarrow> accepted t t' (Inr Continue)"
| waiting: "at_pending_call t = None \<Longrightarrow> at_pending_call t' = Some call \<Longrightarrow>
    at_terminal_scope t' = at_terminal_scope t \<Longrightarrow> at_terminal_scope t = Some (tc_scope call) \<Longrightarrow>
    at_messages t' = at_messages t @ [assistant_tools [c] content] \<Longrightarrow> tc_id call = pc_id c \<Longrightarrow>
    at_tool_iterations t' = at_tool_iterations t + 1 \<Longrightarrow>
    at_tool_iterations t' \<le> MAX_AI_AGENT_TOOL_ITERATIONS \<Longrightarrow> call_ok call \<Longrightarrow>
    at_permission_mode t \<noteq> Observer \<Longrightarrow>
    accepted t t' (Inr (ToolCall call (at_permission_mode t = Confirm) content))"

inductive_cases accepted_callE: "accepted t t' (Inr (ToolCall call a c))"

lemma admit_accepted:
  assumes run: "admit_tool_call ext c content call t1 = (t', r)" and "r \<noteq> Inl Panicked"
    and "at_pending_call t = None"
    and t1: "t1 = t\<lparr>at_tool_iterations := at_tool_iterations t + 1\<rparr>"
      "at_tool_iterations t + 1 \<le> MAX_AI_AGENT_TOOL_ITERATIONS"
    and valid: "validate_tool_call ext t1 c = Inr call"
  shows "accepted t t' r"
proof -
  define t2 where "t2 = push_message (assistant_tools [c] content) t1"
  note call = validate_tool_call_result [OF valid]
  have denied: ?thesis if denial: "deny_call ext (tc_id call) err t2 = (t', r)" for err
  proof -
    from deny_call_result [OF denial] assms(2) obtain d
      where "t' = push_message (tool_result (tc_id call) d) t2" "r = Inr Continue" by auto
    then show ?thesis
      using answered [of t t' "[d]" "[c]" content] assms(3) t1 call by (simp add: t2_def)
  qed
  show ?thesis
  proof (cases "blocked_terminal_command (tc_command call) \<or> at_permission_mode t2 = Observer")
    case True
    with run show ?thesis
      unfolding admit_tool_call_def t2_def [symmetric] Let_def by (auto intro: denied split: if_splits)
  next
    case False
    with run have "t' = t2\<lparr>at_pending_call := Some call\<rparr>"
        "r = Inr (ToolCall call (at_permission_mode t2 = Confirm) content)"
      unfolding admit_tool_call_def t2_def [symmetric] Let_def by auto
    then show ?thesis
      using waiting [of t t' call c content] assms(3) t1 call False
      by (simp add: t2_def call_ok_def)
  qed
qed

lemma accept_accepted:
  assumes "accept_tool_call ext c content t = (t', r)" "r \<noteq> Inl Panicked" "at_pending_call t = None"
  shows "accepted t t' r"
proof -
  obtain t1 q where q: "reserve_tool_iterations 1 t = (t1, q)" by force
  show ?thesis
  proof (cases q)
    case (Inl e)
    with q assms(1) show ?thesis
      by (auto simp: accept_tool_call_def intro: unchanged dest: reserve_error)
  next
    case (Inr u)
    with q have t1: "t1 = t\<lparr>at_tool_iterations := at_tool_iterations t + 1\<rparr>"
        "at_tool_iterations t + 1 \<le> MAX_AI_AGENT_TOOL_ITERATIONS"
      by (simp_all add: reserve_result)
    with q Inr assms show ?thesis
      by (cases "validate_tool_call ext t1 c")
        (auto simp: accept_tool_call_def intro: admit_accepted reserved [of t 1, simplified])
  qed
qed

lemma reject_accepted:
  assumes "reject_parallel_tool_calls ext cs content t = (t', r)" "r \<noteq> Inl Panicked"
    "at_pending_call t = None"
  shows "accepted t t' r"
proof -
  obtain t1 q where q: "reserve_tool_iterations (length cs) t = (t1, q)" by force
  show ?thesis
  proof (cases q)
    case (Inl e)
    with q assms(1) show ?thesis
      by (auto simp: reject_parallel_tool_calls_def intro: unchanged dest: reserve_error)
  next
    case (Inr u)
    with q have t1: "t1 = t\<lparr>at_tool_iterations := at_tool_iterations t + length cs\<rparr>"
        "at_tool_iterations t + length cs \<le> MAX_AI_AGENT_TOOL_ITERATIONS"
      by (simp_all add: reserve_result)
    show ?thesis
    proof (cases "check_parallel_calls ext t1 {} cs")
      case (Inl e)
      with assms(1) q Inr t1 show ?thesis
        by (auto simp: reject_parallel_tool_calls_def intro: reserved)
    next
      case (Inr v)
      then have "push_retry_errors ext (map pc_id cs) (push_message (assistant_tools cs content) t1)
          = (t', r)"
        using assms(1) q \<open>q = Inr u\<close> by (simp add: reject_parallel_tool_calls_def)
      from push_retry_errors_result [OF this] assms(2,3) t1 show ?thesis
        by (auto intro: answered)
    qed
  qed
qed

lemma step_accepted:
  assumes "accept_provider_step ext step t = (t', r)" "r \<noteq> Inl Panicked"
  shows "accepted t t' r"
  using assms
  by (auto simp: accept_provider_step_def intro: unchanged accept_accepted reject_accepted
      split: provider_step.splits if_splits)

lemma advance_accepted:
  "advance ext x t = (t', r) \<Longrightarrow> r \<noteq> Inl Panicked \<Longrightarrow> accepted t t' r"
  by (auto simp: advance_def intro: unchanged step_accepted split: sum.splits)

lemma accepted_turn_ok:
  assumes "accepted t t' r" "turn_ok scope t"
  shows "turn_ok scope t'"
  using assms(1)
proof cases
  case (answered texts cs content)
  then show ?thesis
    using assms(2) conversation_results [of texts "map pc_id cs"]
    by (simp add: turn_ok_def conversation_append)
next
  case (waiting call c content)
  then show ?thesis
    using assms(2) by (simp add: turn_ok_def conversation_append)
qed (use assms(2) in \<open>auto simp: turn_ok_def\<close>)

lemma submit_cases:
  assumes "submit_tool_result ext i scope result t = (t', r)"
  obtains (failed) "t' = t" "\<forall>u. r \<noteq> Inr u"
  | (submitted) call content where "at_pending_call t = Some call" "tc_id call = i" "tc_scope call = scope"
      "at_pending_call t' = None" "at_messages t' = at_messages t @ [tool_result i content]"
      "at_tool_iterations t' = at_tool_iterations t" "r = Inr ()"
      "at_terminal_scope t' = (if tr_timed_out result then None else at_terminal_scope t)"
  using assms
  by (auto simp: submit_tool_result_def authorize_tool_execution_def Let_def
      split: option.splits sum.splits if_splits prod.splits)

lemma submit_turn_ok:
  assumes "turn_ok scope t" "submit_tool_result ext i sc result t = (t', r)"
  shows "turn_ok scope t'"
  using assms(2)
proof (cases rule: submit_cases)
  case (submitted call content)
  then show ?thesis using assms(1) by (auto simp: turn_ok_def conversation_append)
qed (use assms(1) in simp)

lemma set_permission_mode_turn_ok: "turn_ok scope t \<Longrightarrow> turn_ok scope (set_permission_mode mode t)"
  by (simp add: turn_ok_def set_permission_mode_def)

lemma agent_new_ok: "agent_new ext request mode scope effort = Inr t \<Longrightarrow> turn_ok scope t"
  by (auto simp: agent_new_def turn_ok_def conversation_plain provider_calls_def comp_def
      split: sum.splits if_splits option.splits)

interpretation agent: transition_system "agent_step ext" "turn_ok scope" for ext scope
proof
  fix t t' assume "agent_step ext t t'" "turn_ok scope t"
  then show "turn_ok scope t'"
    by cases (auto intro: accepted_turn_ok advance_accepted submit_turn_ok set_permission_mode_turn_ok)
qed

section \<open>A turn without a terminal\<close>

lemma accepted_no_terminal:
  "accepted t t' r \<Longrightarrow> at_terminal_scope t = None \<Longrightarrow> at_pending_call t = None \<Longrightarrow>
     at_terminal_scope t' = None \<and> at_pending_call t' = None"
  by (induction rule: accepted.induct) auto

lemma agent_step_no_terminal:
  assumes "agent_step ext t t'" "at_terminal_scope t = None \<and> at_pending_call t = None"
  shows "at_terminal_scope t' = None \<and> at_pending_call t' = None"
  using assms
proof cases
  case (agent_submit i sc result r)
  then show ?thesis
    using assms(2) by (auto simp: submit_tool_result_def authorize_tool_execution_def)
qed (auto simp: set_permission_mode_def dest!: advance_accepted accepted_no_terminal)

interpretation disarmed: transition_system "agent_step ext"
  "\<lambda>t. at_terminal_scope t = None \<and> at_pending_call t = None" for ext
  by unfold_locales (rule agent_step_no_terminal)

lemma accepted_call_scope: "accepted t t' (Inr (ToolCall call a c)) \<Longrightarrow> at_terminal_scope t \<noteq> None"
  by (erule accepted_callE) auto

lemma authorize_iff:
  "authorize_tool_execution i sc t = Inr () \<longleftrightarrow>
     (\<exists>p. at_pending_call t = Some p \<and> tc_id p = i \<and> tc_scope p = sc)"
  by (auto simp: authorize_tool_execution_def split: option.split)

section \<open>Truncated output\<close>

lemma utf8_take_prefix: "prefix (utf8_take n s) s"
  by (induction n s rule: utf8_take.induct) (auto simp: Let_def)

lemma utf8_take_len: "str_len (utf8_take n s) \<le> n"
  by (induction n s rule: utf8_take.induct) (auto simp: Let_def str_len_def utf8_def)

lemma utf8_take_maximal:
  "utf8_take n s = s \<or> n < str_len (take (Suc (length (utf8_take n s))) s)"
  by (induction n s rule: utf8_take.induct) (auto simp: Let_def str_len_def utf8_def)

lemma bounded_utf8_prefix_spec:
  assumes "bounded_utf8_prefix s n = (out, truncated)"
  shows "prefix out s \<and> str_len out \<le> n \<and> (truncated \<longleftrightarrow> out \<noteq> s)
    \<and> (truncated \<longrightarrow> n < str_len (take (Suc (length out)) s))"
proof (cases "str_len s \<le> n")
  case False
  then have "utf8_take n s \<noteq> s" using utf8_take_len [of n s] by metis
  with False assms show ?thesis
    using utf8_take_prefix [of n s] utf8_take_len [of n s] utf8_take_maximal [of n s]
    by (auto simp: bounded_utf8_prefix_def)
qed (use assms in \<open>auto simp: bounded_utf8_prefix_def\<close>)

section \<open>An example\<close>

definition sample_scope :: ai_terminal_scope where
  "sample_scope = \<lparr>sc_route_id = lit ''t'', sc_generation = 7, sc_protocol = lit ''ssh''\<rparr>"

definition sample_call :: provider_tool_call where
  "sample_call = \<lparr>pc_id = lit ''c'', pc_kind = lit ''function'', pc_name = TERMINAL_TOOL_NAME,
     pc_arguments = lit ''{}''\<rparr>"

definition sample_ext :: third_party where
  "sample_ext = \<lparr>base64_decode = \<lambda>_. None, base64_encode = \<lambda>_. [],
     arguments_from_str = \<lambda>_. Some (lit ''ls''),
     result_to_string = \<lambda>d. Some (td_output d),
     response_from_slice = \<lambda>_. Some [\<lparr>pa_content = None, pa_tool_calls = Some [sample_call]\<rparr>]\<rparr>"

definition sample_exchange :: provider_exchange where
  "sample_exchange = \<lparr>px_endpoint = Inr True, px_api_key_empty = True, px_header_valid = True,
     px_reply = Replied 200 None []\<rparr>"

definition sample_request :: ai_chat_request where
  "sample_request = \<lparr>rq_model = lit ''m'',
     rq_messages = [\<lparr>cm_role = User, cm_content = lit ''q'', cm_content_parts = []\<rparr>]\<rparr>"

definition sample_turn :: ai_agent_turn where
  "sample_turn = \<lparr>at_model = lit ''m'', at_reasoning_effort = None, at_permission_mode = Confirm,
     at_terminal_scope = Some sample_scope,
     at_messages = [\<lparr>pm_role = PUser, pm_content = Some (lit ''q''), pm_tool_calls = [],
       pm_tool_call_id = None\<rparr>],
     at_tool_iterations = 0, at_pending_call = None\<rparr>"

definition sample_tool_call :: ai_terminal_tool_call where
  "sample_tool_call = \<lparr>tc_id = lit ''c'', tc_command = lit ''ls'', tc_scope = sample_scope\<rparr>"

definition sample_waiting :: ai_agent_turn where
  "sample_waiting = sample_turn\<lparr>at_messages := at_messages sample_turn @ [assistant_tools [sample_call] None],
     at_tool_iterations := 1, at_pending_call := Some sample_tool_call\<rparr>"

lemmas sample_defs = sample_scope_def sample_call_def sample_ext_def sample_exchange_def
  sample_request_def sample_turn_def sample_tool_call_def

lemma sample_new:
  "agent_new sample_ext sample_request Confirm (Some sample_scope) None = Inr sample_turn"
  by (simp add: agent_new_def validate_request_def sample_defs policy_simps MAX_AI_MODEL_BYTES_def
      MAX_AI_MESSAGES_def MAX_AI_MESSAGE_BYTES_def checked_add64_def MAX_AI_REQUEST_TEXT_BYTES_def
      has_image_content_def validate_scope_def MAX_TERMINAL_ROUTE_ID_BYTES_def
      MAX_TERMINAL_PROTOCOL_BYTES_def plain_message_def)

lemma sample_advance:
  "advance sample_ext sample_exchange sample_turn =
     (sample_waiting, Inr (ToolCall sample_tool_call True None))"
proof -
  have "\<not> blocked_terminal_command (lit ''ls'')"
    unfolding blocked_terminal_command_def by (simp add: policy_simps)
  moreover have "complete_agent_step sample_ext sample_exchange sample_turn = Inr (StepToolCall sample_call None)"
    by (simp add: complete_agent_step_def validate_history_bound_def sample_defs policy_simps
        call_sizes_def checked_add64_def MAX_AGENT_REQUEST_TEXT_BYTES_def MAX_AI_REQUEST_TEXT_BYTES_def
        parse_provider_step_def bounded_tool_call_content_def)
  moreover have "validate_tool_call sample_ext (sample_turn\<lparr>at_tool_iterations := 1\<rparr>) sample_call
      = Inr sample_tool_call"
    by (simp add: validate_tool_call_def sample_defs policy_simps MAX_TOOL_CALL_ID_BYTES_def)
  ultimately show ?thesis
    by (simp add: advance_def accept_provider_step_def accept_tool_call_def reserve_tool_iterations_def
        MAX_AI_AGENT_TOOL_ITERATIONS_def admit_tool_call_def sample_waiting_def push_message_def
        sample_turn_def sample_tool_call_def Let_def)
qed

section \<open>Properties\<close>

text \<open>C22: Every turn reached by exchanges with any provider, mode changes and submitted results keeps
  its invariant: at most four tool calls are ever recorded, every recorded call but the waiting one is
  answered exactly once and in order, and the waiting call passed the policy and belongs to the
  terminal that the turn was started for.\<close>

theorem agent_turn_invariant:
  assumes "agent_new ext request mode scope effort = Inr t0" and "(agent_step ext)\<^sup>*\<^sup>* t0 t"
  shows "turn_ok scope t"
  using assms(2) agent_new_ok [OF assms(1)] by (rule agent.reach_inv)

theorem agent_turn_invariant_witness: "turn_ok (Some sample_scope) sample_waiting"
proof (rule agent_turn_invariant [OF sample_new])
  show "(agent_step sample_ext)\<^sup>*\<^sup>* sample_turn sample_waiting"
    by (rule r_into_rtranclp, rule agent_advance [OF sample_advance]) simp
qed

text \<open>C14: A tool call is only handed out when the policy accepts its command and the mode is not
  observer; it asks for approval exactly in the mode confirm; its scope is the one given when the turn
  was created, whatever the provider sent; it uses up budget; and the turn then authorises execution
  for exactly that call on exactly that terminal.\<close>

theorem agent_tool_call_guarded:
  assumes "agent_new ext request mode scope effort = Inr t0" and "(agent_step ext)\<^sup>*\<^sup>* t0 t"
    and "advance ext x t = (t', Inr (ToolCall call approval_required content))"
  shows "scope = Some (tc_scope call)
    \<and> valid_terminal_command (tc_command call) \<and> \<not> blocked_terminal_command (tc_command call)
    \<and> at_permission_mode t \<noteq> Observer \<and> (approval_required \<longleftrightarrow> at_permission_mode t = Confirm)
    \<and> at_tool_iterations t < at_tool_iterations t' \<and> at_tool_iterations t' \<le> 4
    \<and> (authorize_tool_execution i sc t' = Inr () \<longleftrightarrow> i = tc_id call \<and> sc = tc_scope call)"
proof -
  have "turn_ok scope t" using assms(2) agent_new_ok [OF assms(1)] by (rule agent.reach_inv)
  moreover have "accepted t t' (Inr (ToolCall call approval_required content))"
    using assms(3) by (rule advance_accepted) simp
  ultimately show ?thesis
    by (auto simp: turn_ok_def call_ok_def authorize_iff MAX_AI_AGENT_TOOL_ITERATIONS_def
        elim!: accepted_callE)
qed

theorem agent_tool_call_guarded_witness:
  "\<not> blocked_terminal_command (tc_command sample_tool_call) \<and>
   authorize_tool_execution (lit ''c'') sample_scope sample_waiting = Inr ()"
  using agent_tool_call_guarded [OF sample_new rtranclp.rtrancl_refl sample_advance,
      of "lit ''c''" sample_scope]
  by (simp add: sample_tool_call_def)

text \<open>The loop that asks the provider again after each denied call ends whatever the provider
  answers: it returns something other than \<open>Continue\<close> after at most five exchanges.\<close>

theorem agent_loop_terminates:
  "case agent_loop ext xs n t of (m, t', r) \<Rightarrow> r \<noteq> Inr Continue \<and> n < m \<and> m \<le> n + 5"
proof -
  have "case agent_loop ext xs n t of (m, t', r) \<Rightarrow>
      r \<noteq> Inr Continue \<and> n < m \<and> m \<le> n + (MAX_AI_AGENT_TOOL_ITERATIONS - at_tool_iterations t) + 1"
  proof (induction ext xs n t rule: agent_loop.induct)
    case (1 ext xs n t)
    obtain t' r where adv: "advance ext (xs n) t = (t', r)" by force
    show ?case
    proof (cases "r = Inr Continue")
      case True
      with 1 [OF adv [symmetric]] continue_uses_budget [of ext "xs n" t t'] adv show ?thesis
        by (subst agent_loop.simps) auto
    next
      case False
      then show ?thesis
        by (subst agent_loop.simps) (auto simp: adv split: sum.splits ai_agent_decision.splits)
    qed
  qed
  then show ?thesis by (auto simp: MAX_AI_AGENT_TOOL_ITERATIONS_def)
qed

text \<open>After a result that reports a time-out the turn is disarmed for good: no later exchange, mode
  change or result makes it offer the tool or hand out another call.\<close>

theorem agent_timeout_ends_tools:
  assumes "submit_tool_result ext i sc result t = (t1, Inr ())" and "tr_timed_out result"
    and "(agent_step ext)\<^sup>*\<^sup>* t1 t2"
  shows "\<not> accepts_terminal_tool t2 \<and> at_pending_call t2 = None
    \<and> snd (advance ext x t2) \<noteq> Inr (ToolCall call a content)"
proof -
  from assms(1) have "at_terminal_scope t1 = None \<and> at_pending_call t1 = None"
    by (rule submit_cases) (use assms(2) in auto)
  with assms(3) have off: "at_terminal_scope t2 = None \<and> at_pending_call t2 = None"
    by (rule disarmed.reach_inv)
  obtain t3 r where adv: "advance ext x t2 = (t3, r)" by force
  then have "accepted t2 t3 r" if "r = Inr (ToolCall call a content)"
    using that by (intro advance_accepted) auto
  with off have "r \<noteq> Inr (ToolCall call a content)" using accepted_call_scope by blast
  with off adv show ?thesis by (simp add: accepts_terminal_tool_def)
qed

theorem agent_timeout_ends_tools_witness:
  "\<exists>t1. submit_tool_result sample_ext (lit ''c'') sample_scope
       \<lparr>tr_output = [], tr_timed_out = True, tr_error_code = None\<rparr> sample_waiting = (t1, Inr ())
     \<and> \<not> accepts_terminal_tool t1"
proof -
  obtain t1 where "submit_tool_result sample_ext (lit ''c'') sample_scope
       \<lparr>tr_output = [], tr_timed_out = True, tr_error_code = None\<rparr> sample_waiting = (t1, Inr ())"
    by (simp add: submit_tool_result_def authorize_tool_execution_def sample_waiting_def sample_defs
        bounded_utf8_prefix_def str_len_def)
  with agent_timeout_ends_tools [OF this _ rtranclp.rtrancl_refl] show ?thesis by auto
qed

text \<open>The output that goes back to the provider is the longest prefix of the captured output that
  has at most 32 KiB and ends at a character boundary, and it is marked as truncated exactly when it
  is not the whole output.\<close>

theorem agent_tool_output_bounded:
  assumes "submit_tool_result ext i sc result t = (t', Inr ())"
  shows "\<exists>out truncated content. prefix out (tr_output result) \<and> str_len out \<le> 32768
    \<and> (truncated \<longleftrightarrow> out \<noteq> tr_output result)
    \<and> (truncated \<longrightarrow> 32768 < str_len (take (Suc (length out)) (tr_output result)))
    \<and> result_to_string ext \<lparr>td_output = out, td_timed_out = tr_timed_out result,
         td_truncated = truncated, td_error_code = tr_error_code result\<rparr> = Some content
    \<and> at_messages t' = at_messages t @ [tool_result i content]"
proof -
  obtain out truncated where b: "bounded_utf8_prefix (tr_output result) MAX_AI_TOOL_OUTPUT_BYTES
      = (out, truncated)" by force
  with assms obtain content where c: "result_to_string ext \<lparr>td_output = out,
         td_timed_out = tr_timed_out result, td_truncated = truncated,
         td_error_code = tr_error_code result\<rparr> = Some content"
      "at_messages t' = at_messages t @ [tool_result i content]"
    by (auto simp: submit_tool_result_def authorize_tool_execution_def Let_def
        split: option.splits sum.splits if_splits)
  show ?thesis
    using bounded_utf8_prefix_spec [OF b [unfolded MAX_AI_TOOL_OUTPUT_BYTES_def, simplified]] c by blast
qed

theorem agent_tool_output_bounded_witness:
  "\<exists>(t' :: ai_agent_turn) out. prefix out (lit ''ok'') \<and>
     at_messages t' = at_messages sample_waiting @ [tool_result (lit ''c'') out]"
proof -
  let ?r = "\<lparr>tr_output = lit ''ok'', tr_timed_out = False, tr_error_code = None\<rparr>"
  obtain t' where "submit_tool_result sample_ext (lit ''c'') sample_scope ?r sample_waiting = (t', Inr ())"
    by (simp add: submit_tool_result_def authorize_tool_execution_def sample_waiting_def sample_defs
        bounded_utf8_prefix_def policy_simps MAX_AI_TOOL_OUTPUT_BYTES_def)
  from agent_tool_output_bounded [OF this] show ?thesis
    by (auto simp: sample_ext_def)
qed

end
