(* ===== verification/Agent_Registry.thy ===== *)
theory Agent_Registry
  imports Agent_Turn "HOL-Library.Finite_Map"
begin

text \<open>
  The desktop side of the terminal agent (\<^verbatim>\<open>src-tauri/src/ai_commands.rs\<close>): the registry of active
  requests, the registry of turns that wait for the user, and the commands start, authorize, continue
  and cancel.  Commands run concurrently; each takes a registry lock for a short section.  A world
  holds both registries, the clock, the expiry timers and the running commands, and \<open>world_step\<close>
  executes one lock section (or one exchange with the provider) of one command.  \<^verbatim>\<open>Arc::new(())\<close> is a
  fresh number; a command that holds the receiver of a cancel channel is one that has not begun to
  close.
\<close>

section \<open>State\<close>

definition MAX_ACTIVE_AI_REQUESTS :: nat where "MAX_ACTIVE_AI_REQUESTS = 8"
definition MAX_PENDING_AI_TURNS :: nat where "MAX_PENDING_AI_TURNS = 8"
definition AI_PENDING_APPROVAL_TTL :: nat where "AI_PENDING_APPROVAL_TTL = 5 * 60"
definition AI_REQUEST_ID_MAX_BYTES :: nat where "AI_REQUEST_ID_MAX_BYTES = 128"

record registered_pending_turn =
  pt_identity :: nat
  pt_expires_at :: nat
  pt_execution_authorized :: bool
  pt_turn :: ai_agent_turn

record continue_request =
  cr_tool_call_id :: rstr
  cr_terminal_scope :: ai_terminal_scope
  cr_result :: ai_terminal_tool_result

record authorize_request =
  ar_turn_id :: rstr
  ar_tool_call_id :: rstr
  ar_terminal_scope :: ai_terminal_scope
  ar_user_approved :: bool

datatype agent_response =
    RespCompleted rstr
  | RespToolCall rstr ai_terminal_tool_call bool "rstr option"
  | RespAuthorized
  | RespCancelled bool

type_synonym command_result = "rstr + agent_response"

text \<open>Where a command stands between two lock sections.\<close>

datatype agent_task =
    Starting rstr
  | Loading rstr nat
  | Resuming rstr nat continue_request
  | Submitting rstr nat continue_request registered_pending_turn
  | Driving rstr nat ai_agent_turn
  | Chatting rstr nat
  | Closing rstr nat "(rstr \<times> nat) option" command_result
  | Cancelling rstr bool
  | Done command_result

record agent_world =
  aw_now :: nat
  aw_fresh :: nat
  aw_requests :: "(rstr, nat) fmap"
  aw_cancelled :: "nat list"
  aw_pending :: "(rstr, registered_pending_turn) fmap"
  aw_timers :: "(nat \<times> rstr \<times> nat) list"
  aw_tasks :: "agent_task list"

definition world_init :: agent_world where
  "world_init = \<lparr>aw_now = 0, aw_fresh = 0, aw_requests = fmempty, aw_cancelled = [],
     aw_pending = fmempty, aw_timers = [], aw_tasks = []\<rparr>"

definition valid_request_id :: "rstr \<Rightarrow> bool" where
  "valid_request_id s \<longleftrightarrow> s \<noteq> [] \<and> str_len s \<le> AI_REQUEST_ID_MAX_BYTES
     \<and> list_all (\<lambda>c. is_ascii_alphanumeric c \<or> c = 45 \<or> c = 95) s"

section \<open>Lock sections\<close>

definition prune_expired :: "agent_world \<Rightarrow> agent_world" where
  "prune_expired w = w\<lparr>aw_pending := fmfilter (\<lambda>tid. case fmlookup (aw_pending w) tid of
       None \<Rightarrow> False | Some p \<Rightarrow> pt_expires_at p > aw_now w) (aw_pending w)\<rparr>"

definition remove_pending_if_identity :: "rstr \<Rightarrow> nat \<Rightarrow> agent_world \<Rightarrow> agent_world" where
  "remove_pending_if_identity tid i w =
     (case fmlookup (aw_pending w) tid of
        None \<Rightarrow> w
      | Some p \<Rightarrow> if pt_identity p = i then w\<lparr>aw_pending := fmdrop tid (aw_pending w)\<rparr> else w)"

definition register_request :: "rstr \<Rightarrow> agent_world \<Rightarrow> agent_world \<times> (rstr + nat)" where
  "register_request rid w =
     (if fcard (fmdom (aw_requests w)) \<ge> MAX_ACTIVE_AI_REQUESTS then (w, Inl (lit ''AI_BUSY''))
      else if fmlookup (aw_requests w) rid \<noteq> None then (w, Inl (lit ''AI_REQUEST_ID_DUPLICATE''))
      else (w\<lparr>aw_requests := fmupd rid (aw_fresh w) (aw_requests w), aw_fresh := Suc (aw_fresh w)\<rparr>,
            Inr (aw_fresh w)))"

definition drop_registration :: "rstr \<Rightarrow> nat \<Rightarrow> agent_world \<Rightarrow> agent_world" where
  "drop_registration rid i w =
     (if fmlookup (aw_requests w) rid = Some i
      then w\<lparr>aw_requests := fmdrop rid (aw_requests w)\<rparr> else w)"

definition has_pending_agent_turn :: "rstr \<Rightarrow> agent_world \<Rightarrow> bool" where
  "has_pending_agent_turn tid w \<longleftrightarrow> fmlookup (aw_pending (prune_expired w)) tid \<noteq> None"

definition insert_pending_agent_turn ::
  "rstr \<Rightarrow> ai_agent_turn \<Rightarrow> agent_world \<Rightarrow> agent_world \<times> (rstr + nat)" where
  "insert_pending_agent_turn tid t w0 =
     (let w = prune_expired w0
      in if fcard (fmdom (aw_pending w)) \<ge> MAX_PENDING_AI_TURNS then (w, Inl (lit ''AI_BUSY''))
         else if fmlookup (aw_pending w) tid \<noteq> None then (w, Inl (lit ''AI_REQUEST_ID_DUPLICATE''))
         else let i = aw_fresh w; deadline = aw_now w + AI_PENDING_APPROVAL_TTL
              in (w\<lparr>aw_pending := fmupd tid \<lparr>pt_identity = i, pt_expires_at = deadline,
                       pt_execution_authorized = False, pt_turn = t\<rparr> (aw_pending w),
                    aw_fresh := Suc i, aw_timers := (deadline, tid, i) # aw_timers w\<rparr>, Inr i))"

definition take_pending_agent_turn ::
  "rstr \<Rightarrow> agent_world \<Rightarrow> agent_world \<times> registered_pending_turn option" where
  "take_pending_agent_turn tid w0 =
     (let w = prune_expired w0
      in (w\<lparr>aw_pending := fmdrop tid (aw_pending w)\<rparr>, fmlookup (aw_pending w) tid))"

definition authorize_pending_agent_tool ::
  "authorize_request \<Rightarrow> ai_permission_mode \<Rightarrow> agent_world \<Rightarrow> agent_world \<times> (rstr + unit)" where
  "authorize_pending_agent_tool r mode w0 =
     (let tid = ar_turn_id r
      in if \<not> valid_request_id tid then (w0, Inl (lit ''AI_REQUEST_ID_INVALID''))
         else let w = prune_expired w0
         in case fmlookup (aw_pending w) tid of
              None \<Rightarrow> (w, Inl (lit ''AI_AGENT_TURN_NOT_FOUND''))
            | Some p0 \<Rightarrow>
                if mode = Observer then
                  (w\<lparr>aw_pending := fmdrop tid (aw_pending w)\<rparr>, Inl (lit ''AI_TOOL_OBSERVER_DENIED''))
                else
                  let p = p0\<lparr>pt_turn := set_permission_mode mode (pt_turn p0)\<rparr>;
                      w = w\<lparr>aw_pending := fmupd tid p (aw_pending w)\<rparr>
                  in if mode = Confirm \<and> \<not> ar_user_approved r then
                       (w, Inl (lit ''AI_TOOL_APPROVAL_REQUIRED''))
                     else case authorize_tool_execution (ar_tool_call_id r) (ar_terminal_scope r)
                                 (pt_turn p) of
                            Inl e \<Rightarrow> (w, Inl (ai_error_to_string e))
                          | Inr _ \<Rightarrow>
                              if pt_execution_authorized p then
                                (w, Inl (lit ''AI_TOOL_ALREADY_AUTHORIZED''))
                              else
                                let i = aw_fresh w; deadline = aw_now w + AI_PENDING_APPROVAL_TTL
                                in (w\<lparr>aw_pending := fmupd tid (p\<lparr>pt_identity := i,
                                          pt_expires_at := deadline,
                                          pt_execution_authorized := True\<rparr>) (aw_pending w),
                                      aw_fresh := Suc i,
                                      aw_timers := (deadline, tid, i) # aw_timers w\<rparr>, Inr ()))"

text \<open>The registration a command holds, and whether it still listens to its cancel channel.\<close>

fun task_registration :: "agent_task \<Rightarrow> (rstr \<times> nat) option" where
  "task_registration (Loading tid i) = Some (tid, i)"
| "task_registration (Resuming tid i r) = Some (tid, i)"
| "task_registration (Submitting tid i r p) = Some (tid, i)"
| "task_registration (Driving tid i t) = Some (tid, i)"
| "task_registration (Chatting tid i) = Some (tid, i)"
| "task_registration (Closing tid i k r) = Some (tid, i)"
| "task_registration _ = None"

fun task_listens :: "nat \<Rightarrow> agent_task \<Rightarrow> bool" where
  "task_listens i (Closing tid j k r) = False"
| "task_listens i t = (case task_registration t of None \<Rightarrow> False | Some (tid, j) \<Rightarrow> i = j)"

definition cancel_request :: "rstr \<Rightarrow> agent_world \<Rightarrow> agent_world \<times> bool" where
  "cancel_request rid w =
     (case fmlookup (aw_requests w) rid of
        None \<Rightarrow> (w, False)
      | Some i \<Rightarrow>
          (let w = w\<lparr>aw_requests := fmdrop rid (aw_requests w)\<rparr>
           in if list_ex (task_listens i) (aw_tasks w)
              then (w\<lparr>aw_cancelled := i # aw_cancelled w\<rparr>, True) else (w, False)))"

definition remove_tracked ::
  "(rstr \<times> nat) option \<Rightarrow> command_result \<Rightarrow> agent_world \<Rightarrow> agent_world" where
  "remove_tracked tracked result w =
     (case result of
        Inr _ \<Rightarrow> w
      | Inl _ \<Rightarrow> (case tracked of None \<Rightarrow> w | Some (tid, i) \<Rightarrow> remove_pending_if_identity tid i w))"

section \<open>The sections of each command\<close>

definition set_task :: "nat \<Rightarrow> agent_task \<Rightarrow> agent_world \<Rightarrow> agent_world" where
  "set_task k task w = w\<lparr>aw_tasks := (aw_tasks w)[k := task]\<rparr>"

definition add_task :: "agent_task \<Rightarrow> agent_world \<Rightarrow> agent_world" where
  "add_task task w = w\<lparr>aw_tasks := aw_tasks w @ [task]\<rparr>"

definition start_check :: "rstr \<Rightarrow> agent_world \<Rightarrow> agent_world" where
  "start_check tid w =
     (if \<not> valid_request_id tid then add_task (Done (Inl (lit ''AI_REQUEST_ID_INVALID''))) w
      else if has_pending_agent_turn tid w
      then add_task (Done (Inl (lit ''AI_REQUEST_ID_DUPLICATE''))) (prune_expired w)
      else add_task (Starting tid) (prune_expired w))"

definition start_register :: "nat \<Rightarrow> rstr \<Rightarrow> agent_world \<Rightarrow> agent_world" where
  "start_register k tid w =
     (case register_request tid w of
        (w, Inl e) \<Rightarrow> set_task k (Done (Inl e)) w
      | (w, Inr i) \<Rightarrow> set_task k (Loading tid i) w)"

text \<open>Settings, the provider and its key are read; what they yield is the input \<open>loaded\<close>.\<close>

definition start_load ::
  "third_party \<Rightarrow> nat \<Rightarrow> rstr \<Rightarrow> nat
   \<Rightarrow> rstr + ai_chat_request \<times> ai_permission_mode \<times> ai_terminal_scope option \<times> ai_reasoning_effort option
   \<Rightarrow> agent_world \<Rightarrow> agent_world" where
  "start_load ext k tid i loaded w =
     (case loaded of
        Inl e \<Rightarrow> set_task k (Closing tid i None (Inl e)) w
      | Inr (request, mode, scope, effort) \<Rightarrow>
          if has_image_content request
          then set_task k (Closing tid i None (Inl (lit ''AI_IMAGE_INPUT_UNSUPPORTED''))) w
          else case agent_new ext request mode scope effort of
                 Inl e \<Rightarrow> set_task k (Closing tid i None (Inl (ai_error_to_string e))) w
               | Inr t \<Rightarrow> set_task k (Driving tid i t) w)"

text \<open>The error text of a failed exchange; a panic unwinds the command, which drops its turn as well.\<close>

definition failure_text :: "agent_failure \<Rightarrow> rstr" where
  "failure_text f = (case f of Failure e \<Rightarrow> ai_error_to_string e | Panicked \<Rightarrow> [])"

definition drive_once ::
  "third_party \<Rightarrow> nat \<Rightarrow> rstr \<Rightarrow> nat \<Rightarrow> ai_agent_turn \<Rightarrow> provider_exchange \<Rightarrow> agent_world \<Rightarrow> agent_world" where
  "drive_once ext k tid i t x w =
     (case advance ext x t of
        (t, Inl e) \<Rightarrow> set_task k (Closing tid i None (Inl (failure_text e))) w
      | (t, Inr Continue) \<Rightarrow> set_task k (Driving tid i t) w
      | (t, Inr (Completed content)) \<Rightarrow> set_task k (Closing tid i None (Inr (RespCompleted content))) w
      | (t, Inr (ToolCall call approval_required content)) \<Rightarrow>
          (case insert_pending_agent_turn tid t w of
             (w, Inl e) \<Rightarrow> set_task k (Closing tid i None (Inl e)) w
           | (w, Inr j) \<Rightarrow>
               set_task k (Closing tid i (Some (tid, j))
                 (Inr (RespToolCall tid call approval_required content))) w))"

definition continue_register :: "rstr \<Rightarrow> continue_request \<Rightarrow> agent_world \<Rightarrow> agent_world" where
  "continue_register tid r w =
     (if \<not> valid_request_id tid then add_task (Done (Inl (lit ''AI_REQUEST_ID_INVALID''))) w
      else case register_request tid w of
             (w, Inl e) \<Rightarrow> add_task (Done (Inl e)) w
           | (w, Inr i) \<Rightarrow> add_task (Resuming tid i r) w)"

definition approval_rejected :: "continue_request \<Rightarrow> bool" where
  "approval_rejected r \<longleftrightarrow> tr_error_code (cr_result r) = Some (lit ''AI_TOOL_APPROVAL_REJECTED'')"

definition continue_take :: "nat \<Rightarrow> rstr \<Rightarrow> nat \<Rightarrow> continue_request \<Rightarrow> agent_world \<Rightarrow> agent_world" where
  "continue_take k tid i r w =
     (case take_pending_agent_turn tid w of
        (w, None) \<Rightarrow> set_task k (Closing tid i None (Inl (lit ''AI_AGENT_TURN_NOT_FOUND''))) w
      | (w, Some p) \<Rightarrow>
          if \<not> pt_execution_authorized p \<and> \<not> approval_rejected r
          then set_task k (Closing tid i None (Inl (lit ''AI_TOOL_NOT_AUTHORIZED''))) w
          else set_task k (Submitting tid i r p) w)"

definition continue_submit ::
  "third_party \<Rightarrow> nat \<Rightarrow> rstr \<Rightarrow> nat \<Rightarrow> continue_request \<Rightarrow> registered_pending_turn \<Rightarrow> agent_world
   \<Rightarrow> agent_world" where
  "continue_submit ext k tid i r p w =
     (case submit_tool_result ext (cr_tool_call_id r) (cr_terminal_scope r) (cr_result r) (pt_turn p) of
        (t, Inl e) \<Rightarrow> set_task k (Closing tid i None (Inl (ai_error_to_string e))) w
      | (t, Inr _) \<Rightarrow> set_task k (Driving tid i t) w)"

definition authorize_command :: "authorize_request \<Rightarrow> ai_permission_mode \<Rightarrow> agent_world \<Rightarrow> agent_world" where
  "authorize_command r mode w =
     (case authorize_pending_agent_tool r mode w of
        (w, Inl e) \<Rightarrow> add_task (Done (Inl e)) w
      | (w, Inr _) \<Rightarrow> add_task (Done (Inr RespAuthorized)) w)"

definition cancel_pending_section :: "rstr \<Rightarrow> agent_world \<Rightarrow> agent_world" where
  "cancel_pending_section tid w0 =
     (if \<not> valid_request_id tid then add_task (Done (Inl (lit ''AI_REQUEST_ID_INVALID''))) w0
      else let w = prune_expired w0
           in add_task (Cancelling tid (fmlookup (aw_pending w) tid \<noteq> None))
                (w\<lparr>aw_pending := fmdrop tid (aw_pending w)\<rparr>))"

definition cancel_active_section :: "nat \<Rightarrow> rstr \<Rightarrow> bool \<Rightarrow> agent_world \<Rightarrow> agent_world" where
  "cancel_active_section k tid pending w =
     (case cancel_request tid w of
        (w, active) \<Rightarrow> set_task k (Done (Inr (RespCancelled (pending \<or> active)))) w)"

definition cancel_chat :: "rstr \<Rightarrow> agent_world \<Rightarrow> agent_world" where
  "cancel_chat rid w =
     (if \<not> valid_request_id rid then add_task (Done (Inl (lit ''AI_REQUEST_ID_INVALID''))) w
      else case cancel_request rid w of (w, sent) \<Rightarrow> add_task (Done (Inr (RespCancelled sent))) w)"

definition chat_register :: "rstr \<Rightarrow> agent_world \<Rightarrow> agent_world" where
  "chat_register rid w =
     (if \<not> valid_request_id rid then add_task (Done (Inl (lit ''AI_REQUEST_ID_INVALID''))) w
      else case register_request rid w of
             (w, Inl e) \<Rightarrow> add_task (Done (Inl e)) w
           | (w, Inr i) \<Rightarrow> add_task (Chatting rid i) w)"

definition close_task ::
  "nat \<Rightarrow> rstr \<Rightarrow> nat \<Rightarrow> (rstr \<times> nat) option \<Rightarrow> command_result \<Rightarrow> agent_world \<Rightarrow> agent_world" where
  "close_task k tid i tracked result w =
     set_task k (Done result) (remove_tracked tracked result (drop_registration tid i w))"

definition fire_timer :: "nat \<times> rstr \<times> nat \<Rightarrow> agent_world \<Rightarrow> agent_world" where
  "fire_timer timer w =
     (case timer of (deadline, tid, i) \<Rightarrow>
        (remove_pending_if_identity tid i w)\<lparr>aw_timers := remove1 timer (aw_timers w)\<rparr>)"

inductive world_step :: "third_party \<Rightarrow> agent_world \<Rightarrow> agent_world \<Rightarrow> bool" for ext where
  tick: "world_step ext w (w\<lparr>aw_now := aw_now w + d\<rparr>)"
| timer: "(deadline, tid, i) \<in> set (aw_timers w) \<Longrightarrow> deadline \<le> aw_now w
    \<Longrightarrow> world_step ext w (fire_timer (deadline, tid, i) w)"
| start: "world_step ext w (start_check tid w)"
| registered: "k < length (aw_tasks w) \<Longrightarrow> aw_tasks w ! k = Starting tid
    \<Longrightarrow> world_step ext w (start_register k tid w)"
| loaded: "k < length (aw_tasks w) \<Longrightarrow> aw_tasks w ! k = Loading tid i
    \<Longrightarrow> world_step ext w (start_load ext k tid i l w)"
| driven: "k < length (aw_tasks w) \<Longrightarrow> aw_tasks w ! k = Driving tid i t
    \<Longrightarrow> world_step ext w (drive_once ext k tid i t x w)"
| continued: "world_step ext w (continue_register tid r w)"
| taken: "k < length (aw_tasks w) \<Longrightarrow> aw_tasks w ! k = Resuming tid i r
    \<Longrightarrow> world_step ext w (continue_take k tid i r w)"
| submitted: "k < length (aw_tasks w) \<Longrightarrow> aw_tasks w ! k = Submitting tid i r p
    \<Longrightarrow> world_step ext w (continue_submit ext k tid i r p w)"
| authorized: "world_step ext w (authorize_command r mode w)"
| cancel_begun: "world_step ext w (cancel_pending_section tid w)"
| cancel_ended: "k < length (aw_tasks w) \<Longrightarrow> aw_tasks w ! k = Cancelling tid b
    \<Longrightarrow> world_step ext w (cancel_active_section k tid b w)"
| chat_begun: "world_step ext w (chat_register rid w)"
| chat_cancelled: "world_step ext w (cancel_chat rid w)"
| chat_ended: "k < length (aw_tasks w) \<Longrightarrow> aw_tasks w ! k = Chatting rid i
    \<Longrightarrow> world_step ext w (set_task k (Closing rid i None result) w)"
| interrupted: "k < length (aw_tasks w) \<Longrightarrow> task_listens i (aw_tasks w ! k)
    \<Longrightarrow> task_registration (aw_tasks w ! k) = Some (tid, i) \<Longrightarrow> i \<in> set (aw_cancelled w)
    \<Longrightarrow> (\<forall>r. aw_tasks w ! k \<noteq> Resuming tid i r)
    \<Longrightarrow> world_step ext w (set_task k (Closing tid i None (Inl (lit ''AI_REQUEST_CANCELED''))) w)"
| closed: "k < length (aw_tasks w) \<Longrightarrow> aw_tasks w ! k = Closing tid i tracked result
    \<Longrightarrow> world_step ext w (close_task k tid i tracked result w)"

section \<open>The invariant\<close>

definition requests_ok :: "agent_world \<Rightarrow> bool" where
  "requests_ok w \<longleftrightarrow> fcard (fmdom (aw_requests w)) \<le> MAX_ACTIVE_AI_REQUESTS
     \<and> (\<forall>rid i. fmlookup (aw_requests w) rid = Some i \<longrightarrow>
          (\<exists>task \<in> set (aw_tasks w). task_registration task = Some (rid, i)))"

definition turn_sound :: "ai_agent_turn \<Rightarrow> bool" where
  "turn_sound t \<longleftrightarrow> (\<exists>scope. turn_ok scope t)"

lemma turn_soundI: "turn_ok scope t \<Longrightarrow> turn_sound t"
  by (auto simp: turn_sound_def)

lemma turn_sound_mode [simp]: "turn_sound t \<Longrightarrow> turn_sound (set_permission_mode mode t)"
  by (auto simp: turn_sound_def intro: set_permission_mode_turn_ok)

lemma pending_set_mode [simp]: "at_pending_call (set_permission_mode mode t) = at_pending_call t"
  by (simp add: set_permission_mode_def)

definition entry_ok :: "agent_world \<Rightarrow> rstr \<Rightarrow> registered_pending_turn \<Rightarrow> bool" where
  "entry_ok w tid p \<longleftrightarrow> (pt_expires_at p, tid, pt_identity p) \<in> set (aw_timers w)
     \<and> pt_expires_at p \<le> aw_now w + AI_PENDING_APPROVAL_TTL
     \<and> turn_sound (pt_turn p) \<and> at_pending_call (pt_turn p) \<noteq> None"

definition pending_ok :: "agent_world \<Rightarrow> bool" where
  "pending_ok w \<longleftrightarrow> fcard (fmdom (aw_pending w)) \<le> MAX_PENDING_AI_TURNS
     \<and> (\<forall>tid p. fmlookup (aw_pending w) tid = Some p \<longrightarrow> entry_ok w tid p)"

fun task_ok :: "agent_task \<Rightarrow> bool" where
  "task_ok (Submitting tid i r p) \<longleftrightarrow> (pt_execution_authorized p \<or> approval_rejected r)
     \<and> turn_sound (pt_turn p)"
| "task_ok (Driving tid i t) \<longleftrightarrow> at_pending_call t = None \<and> turn_sound t"
| "task_ok _ \<longleftrightarrow> True"

definition world_ok :: "agent_world \<Rightarrow> bool" where
  "world_ok w \<longleftrightarrow> requests_ok w \<and> pending_ok w \<and> list_all task_ok (aw_tasks w)"

lemma pending_ok_frame [simp]:
  "pending_ok (w\<lparr>aw_requests := r\<rparr>) = pending_ok w"
  "pending_ok (w\<lparr>aw_tasks := ts\<rparr>) = pending_ok w"
  "pending_ok (w\<lparr>aw_cancelled := c\<rparr>) = pending_ok w"
  "pending_ok (w\<lparr>aw_fresh := i\<rparr>) = pending_ok w"
  by (simp_all add: pending_ok_def entry_ok_def)

lemma requests_ok_frame [simp]:
  "requests_ok (w\<lparr>aw_pending := p\<rparr>) = requests_ok w"
  "requests_ok (w\<lparr>aw_timers := ts\<rparr>) = requests_ok w"
  "requests_ok (w\<lparr>aw_cancelled := c\<rparr>) = requests_ok w"
  "requests_ok (w\<lparr>aw_fresh := i\<rparr>) = requests_ok w"
  "requests_ok (w\<lparr>aw_now := n\<rparr>) = requests_ok w"
  by (simp_all add: requests_ok_def)

lemma entry_ok_frame [simp]: "entry_ok (w\<lparr>aw_pending := m\<rparr>) = entry_ok w"
  by (simp add: entry_ok_def fun_eq_iff)

lemma entry_ok_mono:
  "entry_ok w tid p \<Longrightarrow> set (aw_timers w) \<subseteq> set (aw_timers w') \<Longrightarrow> aw_now w \<le> aw_now w'
   \<Longrightarrow> entry_ok w' tid p"
  by (fastforce simp: entry_ok_def)

lemma pending_ok_sub:
  assumes "pending_ok w" "\<And>tid p. fmlookup m tid = Some p \<Longrightarrow> fmlookup (aw_pending w) tid = Some p"
  shows "pending_ok (w\<lparr>aw_pending := m\<rparr>)"
proof -
  have "fmdom m |\<subseteq>| fmdom (aw_pending w)"
    using assms(2) by (metis fmdom_notD fmdom_notI fsubsetI option.exhaust)
  then have "fcard (fmdom m) \<le> fcard (fmdom (aw_pending w))" by (rule fcard_mono)
  with assms show ?thesis by (auto simp: pending_ok_def)
qed

lemma pending_ok_drop: "pending_ok w \<Longrightarrow> pending_ok (w\<lparr>aw_pending := fmdrop tid (aw_pending w)\<rparr>)"
  by (rule pending_ok_sub) (auto split: if_splits)

lemma pending_ok_prune: "pending_ok w \<Longrightarrow> pending_ok (prune_expired w)"
  unfolding prune_expired_def by (rule pending_ok_sub) (auto split: if_splits)

lemma prune_simps [simp]:
  "aw_now (prune_expired w) = aw_now w" "aw_fresh (prune_expired w) = aw_fresh w"
  "aw_requests (prune_expired w) = aw_requests w" "aw_cancelled (prune_expired w) = aw_cancelled w"
  "aw_timers (prune_expired w) = aw_timers w" "aw_tasks (prune_expired w) = aw_tasks w"
  "requests_ok (prune_expired w) = requests_ok w"
  by (simp_all add: prune_expired_def)

lemma lookup_prune:
  "fmlookup (aw_pending (prune_expired w)) tid =
     (case fmlookup (aw_pending w) tid of
        Some p \<Rightarrow> if aw_now w < pt_expires_at p then Some p else None | None \<Rightarrow> None)"
  by (auto simp: prune_expired_def split: option.split)

lemma pending_ok_upd:
  assumes "pending_ok w"
    and "fcard (fmdom (aw_pending w)) < MAX_PENDING_AI_TURNS \<or> fmlookup (aw_pending w) tid \<noteq> None"
    and "set (aw_timers w) \<subseteq> set timers"
    and "entry_ok (w\<lparr>aw_timers := timers\<rparr>) tid p"
  shows "pending_ok (w\<lparr>aw_pending := fmupd tid p (aw_pending w), aw_timers := timers\<rparr>)"
proof -
  have "fcard (finsert tid (fmdom (aw_pending w))) \<le> MAX_PENDING_AI_TURNS"
    using assms(1,2) by (auto simp: pending_ok_def fcard_finsert_if fmlookup_dom_iff)
  moreover have "entry_ok (w\<lparr>aw_timers := timers\<rparr>) tid' p'"
    if "fmlookup (fmupd tid p (aw_pending w)) tid' = Some p'" for tid' p'
    using that assms entry_ok_mono [of w tid' p' "w\<lparr>aw_timers := timers\<rparr>"]
    by (auto simp: pending_ok_def split: if_splits)
  moreover have "entry_ok (w\<lparr>aw_pending := fmupd tid p (aw_pending w), aw_timers := timers\<rparr>)
      = entry_ok (w\<lparr>aw_timers := timers\<rparr>)"
    by (simp add: entry_ok_def fun_eq_iff)
  ultimately show ?thesis by (simp add: pending_ok_def)
qed

lemma set_task_simps [simp]:
  "pending_ok (set_task k t w) = pending_ok w" "pending_ok (add_task t w) = pending_ok w"
  by (simp_all add: set_task_def add_task_def)

lemma owner_update:
  assumes "\<exists>task \<in> set ts. task_registration task = Some x" "k < length ts"
    and "task_registration t = Some x \<or> task_registration (ts ! k) \<noteq> Some x"
  shows "\<exists>task \<in> set (ts[k := t]). task_registration task = Some x"
proof -
  from assms(1) obtain j where j: "j < length ts" "task_registration (ts ! j) = Some x"
    by (auto simp: in_set_conv_nth)
  show ?thesis
  proof (cases "j = k")
    case True
    with j assms show ?thesis by (intro bexI [of _ t]) (auto simp: set_update_memI)
  next
    case False
    with j have "ts[k := t] ! j = ts ! j" "j < length (ts[k := t])" by simp_all
    then have "ts ! j \<in> set (ts[k := t])" by (metis nth_mem)
    with j show ?thesis by blast
  qed
qed

lemma requests_ok_add [simp]: "requests_ok w \<Longrightarrow> requests_ok (add_task t w)"
  by (auto simp: requests_ok_def add_task_def)

lemma requests_ok_set:
  assumes "requests_ok w" "k < length (aw_tasks w)"
    and "task_registration (aw_tasks w ! k) \<noteq> None \<longrightarrow>
      task_registration t = task_registration (aw_tasks w ! k)"
  shows "requests_ok (set_task k t w)"
proof -
  have "\<exists>task \<in> set ((aw_tasks w)[k := t]). task_registration task = Some (rid, i)"
    if "fmlookup (aw_requests w) rid = Some i" for rid i
    using that assms by (intro owner_update) (auto simp: requests_ok_def)
  with assms(1) show ?thesis by (simp add: requests_ok_def set_task_def)
qed

lemma register_cases:
  assumes "register_request rid w = (w', r)"
  obtains (refused) e where "w' = w" "r = Inl e"
  | (granted) "r = Inr (aw_fresh w)" "fcard (fmdom (aw_requests w)) < MAX_ACTIVE_AI_REQUESTS"
      "fmlookup (aw_requests w) rid = None"
      "w' = w\<lparr>aw_requests := fmupd rid (aw_fresh w) (aw_requests w), aw_fresh := Suc (aw_fresh w)\<rparr>"
  using assms by (auto simp: register_request_def split: if_splits)

lemma register_requests_ok:
  assumes "requests_ok w" "register_request rid w = (w', Inr i)" "task_registration t = Some (rid, i)"
  shows "requests_ok (add_task t w')"
    and "k < length (aw_tasks w) \<Longrightarrow> task_registration (aw_tasks w ! k) = None
      \<Longrightarrow> requests_ok (set_task k t w')"
proof -
  from assms(2) have w': "i = aw_fresh w" "fcard (fmdom (aw_requests w)) < MAX_ACTIVE_AI_REQUESTS"
      "fmlookup (aw_requests w) rid = None"
      "w' = w\<lparr>aw_requests := fmupd rid (aw_fresh w) (aw_requests w), aw_fresh := Suc (aw_fresh w)\<rparr>"
    by (auto elim: register_cases)
  then have card: "fcard (fmdom (aw_requests w')) \<le> MAX_ACTIVE_AI_REQUESTS"
    by (simp add: fcard_finsert_if)
  show "requests_ok (add_task t w')"
    using assms(1,3) card unfolding w'(1,4) by (auto simp: requests_ok_def add_task_def)
  assume k: "k < length (aw_tasks w)" "task_registration (aw_tasks w ! k) = None"
  have "\<exists>task \<in> set ((aw_tasks w)[k := t]). task_registration task = Some (rid', j)"
    if "fmlookup (aw_requests w') rid' = Some j" for rid' j
  proof (cases "rid' = rid")
    case True
    with that assms(3) w' k show ?thesis by (intro bexI [of _ t]) (auto simp: set_update_memI)
  next
    case False
    with that assms(1) w' k show ?thesis by (intro owner_update) (auto simp: requests_ok_def)
  qed
  with card show "requests_ok (set_task k t w')"
    by (simp add: requests_ok_def set_task_def w'(4))
qed

lemma fcard_drop_le: "fcard A \<le> n \<Longrightarrow> fcard (A |-| B) \<le> n"
  by (meson fcard_mono fminus_fsubset_conv fsubset_funion_eq le_trans funion_upper2)

lemma drop_requests_ok:
  assumes "requests_ok w" "k < length (aw_tasks w)" "task_registration (aw_tasks w ! k) = Some (rid, i)"
  shows "requests_ok (set_task k (Done r) (drop_registration rid i w))"
proof -
  let ?w = "drop_registration rid i w"
  have "\<exists>task \<in> set ((aw_tasks w)[k := Done r]). task_registration task = Some (rid', j)"
    if "fmlookup (aw_requests ?w) rid' = Some j" for rid' j
    using that assms
    by (intro owner_update) (auto simp: requests_ok_def drop_registration_def split: if_splits)
  moreover have "fcard (fmdom (aw_requests ?w)) \<le> MAX_ACTIVE_AI_REQUESTS" "aw_tasks ?w = aw_tasks w"
    using assms(1) by (auto simp: requests_ok_def drop_registration_def intro: fcard_drop_le)
  ultimately show ?thesis by (simp add: requests_ok_def set_task_def)
qed

lemma cancel_request_frame:
  assumes "cancel_request rid w = (w', b)"
  shows "aw_tasks w' = aw_tasks w" "aw_pending w' = aw_pending w" "aw_timers w' = aw_timers w"
    "aw_now w' = aw_now w" "requests_ok w \<Longrightarrow> requests_ok w'" "pending_ok w' = pending_ok w"
  using assms
  by (auto simp: cancel_request_def Let_def requests_ok_def intro: fcard_drop_le
      split: option.splits if_splits)

section \<open>Every section keeps the invariant\<close>

lemma world_ok_set:
  assumes "world_ok w" "k < length (aw_tasks w)" "task_ok t"
    and "task_registration (aw_tasks w ! k) \<noteq> None \<longrightarrow>
      task_registration t = task_registration (aw_tasks w ! k)"
  shows "world_ok (set_task k t w)"
  using assms requests_ok_set [of w k t] set_update_subset_insert [of "aw_tasks w" k t]
  by (auto simp: world_ok_def set_task_def list_all_iff)

lemma world_ok_add: "world_ok w \<Longrightarrow> task_ok t \<Longrightarrow> world_ok (add_task t w)"
  using requests_ok_add [of w t] by (simp add: world_ok_def add_task_def)

lemma world_ok_prune [simp]: "world_ok w \<Longrightarrow> world_ok (prune_expired w)"
  by (simp add: world_ok_def pending_ok_prune)

lemma world_ok_pending_drop [simp]:
  "world_ok w \<Longrightarrow> world_ok (w\<lparr>aw_pending := fmdrop tid (aw_pending w)\<rparr>)"
  by (simp add: world_ok_def pending_ok_drop)

lemma world_ok_upd:
  assumes "world_ok w"
    and "fcard (fmdom (aw_pending w)) < MAX_PENDING_AI_TURNS \<or> fmlookup (aw_pending w) tid \<noteq> None"
    and "set (aw_timers w) \<subseteq> set timers" "entry_ok (w\<lparr>aw_timers := timers\<rparr>) tid p"
  shows "world_ok (w\<lparr>aw_pending := fmupd tid p (aw_pending w), aw_fresh := i, aw_timers := timers\<rparr>)"
proof -
  have "pending_ok (w\<lparr>aw_pending := fmupd tid p (aw_pending w), aw_timers := timers\<rparr>)"
    using assms by (intro pending_ok_upd) (auto simp: world_ok_def)
  then have "pending_ok (w\<lparr>aw_pending := fmupd tid p (aw_pending w), aw_timers := timers, aw_fresh := i\<rparr>)"
    by simp
  moreover have "w\<lparr>aw_pending := fmupd tid p (aw_pending w), aw_timers := timers, aw_fresh := i\<rparr>
      = w\<lparr>aw_pending := fmupd tid p (aw_pending w), aw_fresh := i, aw_timers := timers\<rparr>"
    by (cases w) simp
  ultimately show ?thesis using assms(1) by (simp add: world_ok_def)
qed

lemma insert_world_ok:
  assumes "world_ok w" "insert_pending_agent_turn tid t w = (w', r)"
    and "turn_sound t" "at_pending_call t \<noteq> None"
  shows "world_ok w' \<and> aw_tasks w' = aw_tasks w"
proof (cases "r = Inr (aw_fresh w)")
  case True
  let ?w = "prune_expired w"
  have "world_ok (?w\<lparr>aw_pending := fmupd tid \<lparr>pt_identity = aw_fresh w,
        pt_expires_at = aw_now w + AI_PENDING_APPROVAL_TTL, pt_execution_authorized = False,
        pt_turn = t\<rparr> (aw_pending ?w),
      aw_fresh := Suc (aw_fresh w),
      aw_timers := (aw_now w + AI_PENDING_APPROVAL_TTL, tid, aw_fresh w) # aw_timers ?w\<rparr>)"
    by (rule world_ok_upd)
      (use assms True in \<open>auto simp: insert_pending_agent_turn_def Let_def entry_ok_def split: if_splits\<close>)
  with assms(2) True show ?thesis
    by (auto simp: insert_pending_agent_turn_def Let_def split: if_splits)
next
  case False
  with assms(1,2) show ?thesis
    by (auto simp: insert_pending_agent_turn_def Let_def split: if_splits)
qed

lemma world_ok_mode:
  assumes "world_ok w" "fmlookup (aw_pending w) tid = Some p"
  shows "world_ok (w\<lparr>aw_pending := fmupd tid (p\<lparr>pt_turn := set_permission_mode mode (pt_turn p)\<rparr>)
    (aw_pending w)\<rparr>)"
proof -
  have "entry_ok w tid p" using assms by (simp add: world_ok_def pending_ok_def)
  then have "entry_ok w tid (p\<lparr>pt_turn := set_permission_mode mode (pt_turn p)\<rparr>)"
    by (auto simp: entry_ok_def)
  then have "world_ok (w\<lparr>aw_pending := fmupd tid (p\<lparr>pt_turn := set_permission_mode mode (pt_turn p)\<rparr>)
      (aw_pending w), aw_fresh := aw_fresh w, aw_timers := aw_timers w\<rparr>)"
    using assms by (intro world_ok_upd) auto
  then show ?thesis by simp
qed

text \<open>The cases of \<open>authorize_pending_agent_tool\<close>, with the entry it finds.\<close>

inductive authorize_result ::
  "authorize_request \<Rightarrow> ai_permission_mode \<Rightarrow> agent_world \<Rightarrow> agent_world \<Rightarrow> rstr + unit \<Rightarrow> bool"
  for r mode w where
  invalid: "authorize_result r mode w w (Inl e)"
| missing: "authorize_result r mode w (prune_expired w) (Inl e)"
| denied: "mode = Observer \<Longrightarrow> authorize_result r mode w
    ((prune_expired w)\<lparr>aw_pending := fmdrop (ar_turn_id r) (aw_pending (prune_expired w))\<rparr>) (Inl e)"
| refused: "fmlookup (aw_pending (prune_expired w)) (ar_turn_id r) = Some p \<Longrightarrow>
    authorize_result r mode w
      ((prune_expired w)\<lparr>aw_pending := fmupd (ar_turn_id r)
         (p\<lparr>pt_turn := set_permission_mode mode (pt_turn p)\<rparr>) (aw_pending (prune_expired w))\<rparr>) (Inl e)"
| granted: "valid_request_id (ar_turn_id r) \<Longrightarrow>
    fmlookup (aw_pending (prune_expired w)) (ar_turn_id r) = Some p \<Longrightarrow>
    mode = Auto \<or> mode = Confirm \<and> ar_user_approved r \<Longrightarrow>
    at_pending_call (pt_turn p) = Some call \<Longrightarrow> tc_id call = ar_tool_call_id r \<Longrightarrow>
    tc_scope call = ar_terminal_scope r \<Longrightarrow> \<not> pt_execution_authorized p \<Longrightarrow>
    authorize_result r mode w
      ((prune_expired w)\<lparr>aw_pending := fmupd (ar_turn_id r)
         (p\<lparr>pt_identity := aw_fresh w, pt_expires_at := aw_now w + AI_PENDING_APPROVAL_TTL,
            pt_execution_authorized := True,
            pt_turn := set_permission_mode mode (pt_turn p)\<rparr>) (aw_pending (prune_expired w)),
       aw_fresh := Suc (aw_fresh w),
       aw_timers := (aw_now w + AI_PENDING_APPROVAL_TTL, ar_turn_id r, aw_fresh w) # aw_timers w\<rparr>)
      (Inr ())"

inductive_cases authorize_grantedE: "authorize_result r mode w w' (Inr ())"

lemma authorize_set_mode [simp]:
  "authorize_tool_execution i sc (set_permission_mode mode t) = authorize_tool_execution i sc t"
  by (simp add: authorize_tool_execution_def set_permission_mode_def)

lemma authorize_result:
  assumes run: "authorize_pending_agent_tool r mode w = (w', x)"
  shows "authorize_result r mode w w' x"
proof (cases "fmlookup (aw_pending (prune_expired w)) (ar_turn_id r)")
  case None
  with run show ?thesis
    by (auto simp: authorize_pending_agent_tool_def Let_def intro: invalid missing split: if_splits)
next
  case (Some p)
  consider (refuse) e where "mode \<noteq> Observer" "x = Inl e" | (grant) "mode \<noteq> Observer" "x = Inr ()"
    | (early) "mode = Observer" by (cases x) auto
  then show ?thesis
  proof cases
    case refuse
    with run Some show ?thesis
      by (auto simp: authorize_pending_agent_tool_def Let_def intro: invalid refused
          split: if_splits sum.splits)
  next
    case early
    with run Some show ?thesis
      by (auto simp: authorize_pending_agent_tool_def Let_def intro: invalid denied split: if_splits)
  next
    case grant
    with run Some have ok: "valid_request_id (ar_turn_id r)" "mode \<noteq> Confirm \<or> ar_user_approved r"
        "authorize_tool_execution (ar_tool_call_id r) (ar_terminal_scope r) (pt_turn p) = Inr ()"
        "\<not> pt_execution_authorized p"
      and w': "w' = (prune_expired w)\<lparr>aw_pending := fmupd (ar_turn_id r)
         (p\<lparr>pt_turn := set_permission_mode mode (pt_turn p), pt_identity := aw_fresh w,
            pt_expires_at := aw_now w + AI_PENDING_APPROVAL_TTL,
            pt_execution_authorized := True\<rparr>)
         (fmupd (ar_turn_id r) (p\<lparr>pt_turn := set_permission_mode mode (pt_turn p)\<rparr>)
           (aw_pending (prune_expired w))),
       aw_fresh := Suc (aw_fresh w),
       aw_timers := (aw_now w + AI_PENDING_APPROVAL_TTL, ar_turn_id r, aw_fresh w) # aw_timers w\<rparr>"
      by (auto simp: authorize_pending_agent_tool_def Let_def split: if_splits sum.splits)
    from ok(3) obtain call where "at_pending_call (pt_turn p) = Some call"
        "tc_id call = ar_tool_call_id r" "tc_scope call = ar_terminal_scope r"
      by (auto simp: authorize_iff)
    moreover have "mode = Auto \<or> mode = Confirm \<and> ar_user_approved r"
      using grant ok(2) by (cases mode) auto
    moreover have "w' = (prune_expired w)\<lparr>aw_pending := fmupd (ar_turn_id r)
         (p\<lparr>pt_identity := aw_fresh w, pt_expires_at := aw_now w + AI_PENDING_APPROVAL_TTL,
            pt_execution_authorized := True,
            pt_turn := set_permission_mode mode (pt_turn p)\<rparr>) (aw_pending (prune_expired w)),
       aw_fresh := Suc (aw_fresh w),
       aw_timers := (aw_now w + AI_PENDING_APPROVAL_TTL, ar_turn_id r, aw_fresh w) # aw_timers w\<rparr>"
      unfolding w' by (cases p) simp
    ultimately show ?thesis using granted Some ok(1,4) \<open>x = Inr ()\<close> by blast
  qed
qed

lemma authorize_world_ok:
  assumes "world_ok w" "authorize_pending_agent_tool r mode w = (w', x)"
  shows "world_ok w' \<and> aw_tasks w' = aw_tasks w"
  using authorize_result [OF assms(2)]
proof cases
  case (granted p call)
  have "entry_ok (prune_expired w) (ar_turn_id r) p"
    using assms(1) granted(4) pending_ok_prune [of w] by (simp add: world_ok_def pending_ok_def)
  then show ?thesis
    unfolding granted(1) using assms(1) granted(4)
    by (auto simp: entry_ok_def intro!: world_ok_upd)
qed (use assms(1) in \<open>auto intro: world_ok_mode\<close>)

lemma drive_world_ok:
  assumes w: "world_ok w" "k < length (aw_tasks w)" "aw_tasks w ! k = Driving tid i t"
  shows "world_ok (drive_once ext k tid i t x w)"
proof -
  from w obtain scope where t: "at_pending_call t = None" "turn_ok scope t"
    by (auto simp: turn_sound_def world_ok_def list_all_length dest!: spec [of _ k])
  obtain t' r where adv: "advance ext x t = (t', r)" by force
  show ?thesis
  proof (cases r)
    case (Inl e)
    with w adv show ?thesis by (auto simp: drive_once_def intro: world_ok_set)
  next
    case (Inr d)
    with adv have acc: "accepted t t' (Inr d)" by (auto intro: advance_accepted)
    then have ok: "turn_ok scope t'" using t(2) by (rule accepted_turn_ok)
    show ?thesis
    proof (cases d)
      case (ToolCall call a c)
      then have "at_pending_call t' \<noteq> None" using acc by (auto elim!: accepted_callE)
      moreover obtain w1 q where ins: "insert_pending_agent_turn tid t' w = (w1, q)" by force
      ultimately have "world_ok w1 \<and> aw_tasks w1 = aw_tasks w"
        using insert_world_ok [OF w(1) ins turn_soundI [OF ok]] by blast
      with w adv Inr ToolCall ins show ?thesis
        by (auto simp: drive_once_def intro: world_ok_set split: sum.split)
    next
      case Continue
      with acc t(1) have "at_pending_call t' = None" by (auto elim: accepted.cases)
      with w adv Inr Continue turn_soundI [OF ok] show ?thesis
        by (auto simp: drive_once_def intro: world_ok_set)
    qed (use w adv Inr in \<open>auto simp: drive_once_def intro: world_ok_set\<close>)
  qed
qed

lemma load_world_ok:
  assumes "world_ok w" "k < length (aw_tasks w)" "aw_tasks w ! k = Loading tid i"
  shows "world_ok (start_load ext k tid i l w)"
proof -
  have "turn_sound t \<and> at_pending_call t = None"
    if "agent_new ext request mode scope effort = Inr t" for request mode scope effort t
    using that turn_soundI [OF agent_new_ok [OF that]] by (auto simp: agent_new_def split: sum.splits if_splits)
  with assms show ?thesis
    by (auto simp: start_load_def intro!: world_ok_set split: sum.split)
qed

lemma register_add_world_ok:
  assumes "world_ok w" "register_request tid w = (w', Inr i)" "task_registration t = Some (tid, i)"
    "task_ok t"
  shows "world_ok (add_task t w')"
  using assms register_requests_ok(1) [OF _ assms(2,3)]
  by (auto simp: world_ok_def add_task_def elim!: register_cases)

lemma register_set_world_ok:
  assumes "world_ok w" "register_request tid w = (w', Inr i)" "task_registration t = Some (tid, i)"
    "task_ok t" "k < length (aw_tasks w)" "task_registration (aw_tasks w ! k) = None"
  shows "world_ok (set_task k t w')"
  using assms register_requests_ok(2) [OF _ assms(2,3,5,6)]
    set_update_subset_insert [of "aw_tasks w" k t]
  by (auto simp: world_ok_def set_task_def list_all_iff elim!: register_cases)

lemma submit_world_ok:
  assumes w: "world_ok w" "k < length (aw_tasks w)" "aw_tasks w ! k = Submitting tid i r p"
  shows "world_ok (continue_submit ext k tid i r p w)"
proof -
  from w obtain scope where t: "turn_ok scope (pt_turn p)"
    by (auto simp: turn_sound_def world_ok_def list_all_length dest!: spec [of _ k])
  obtain t' q where sub: "submit_tool_result ext (cr_tool_call_id r) (cr_terminal_scope r)
      (cr_result r) (pt_turn p) = (t', q)" by force
  show ?thesis
  proof (cases q)
    case (Inr u)
    with sub have "at_pending_call t' = None" by (auto elim: submit_cases)
    with turn_soundI [OF submit_turn_ok [OF t sub]] w sub Inr show ?thesis
      by (auto simp: continue_submit_def intro: world_ok_set)
  qed (use w sub in \<open>auto simp: continue_submit_def intro: world_ok_set\<close>)
qed

lemma take_world_ok:
  assumes w: "world_ok w" "k < length (aw_tasks w)" "aw_tasks w ! k = Resuming tid i r"
  shows "world_ok (continue_take k tid i r w)"
proof (cases "fmlookup (aw_pending (prune_expired w)) tid")
  case (Some p)
  then have "entry_ok (prune_expired w) tid p"
    using w(1) pending_ok_prune [of w] by (simp add: world_ok_def pending_ok_def)
  with w Some show ?thesis
    by (auto simp: continue_take_def take_pending_agent_turn_def Let_def entry_ok_def
        intro!: world_ok_set)
qed (use w in \<open>auto simp: continue_take_def take_pending_agent_turn_def Let_def intro!: world_ok_set\<close>)

lemma remove_identity_world_ok: "world_ok w \<Longrightarrow> world_ok (remove_pending_if_identity tid i w)"
  by (auto simp: remove_pending_if_identity_def split: option.split)

lemma remove_identity_tasks [simp]: "aw_tasks (remove_pending_if_identity tid i w) = aw_tasks w"
  by (auto simp: remove_pending_if_identity_def split: option.split)

lemma timer_world_ok:
  assumes "world_ok w"
  shows "world_ok (fire_timer (deadline, tid, i) w)"
proof -
  let ?w = "remove_pending_if_identity tid i w"
  have ok: "world_ok ?w" using assms by (rule remove_identity_world_ok)
  have same: "aw_timers ?w = aw_timers w" "aw_now ?w = aw_now w"
    by (auto simp: remove_pending_if_identity_def split: option.split)
  have "entry_ok (?w\<lparr>aw_timers := remove1 (deadline, tid, i) (aw_timers w)\<rparr>) tid' p"
    if p: "fmlookup (aw_pending ?w) tid' = Some p" for tid' p
  proof -
    have "(tid', pt_identity p) \<noteq> (tid, i)"
      using p by (auto simp: remove_pending_if_identity_def split: option.splits if_splits)
    then have "(pt_expires_at p, tid', pt_identity p) \<in> set (remove1 (deadline, tid, i) (aw_timers w))"
      if "(pt_expires_at p, tid', pt_identity p) \<in> set (aw_timers w)"
      using that by (auto simp: in_set_remove1)
    then show ?thesis
      using ok p same by (auto simp: world_ok_def pending_ok_def entry_ok_def)
  qed
  then have "pending_ok (?w\<lparr>aw_timers := remove1 (deadline, tid, i) (aw_timers w)\<rparr>)"
    using ok by (simp add: world_ok_def pending_ok_def)
  with ok show ?thesis by (simp add: world_ok_def fire_timer_def)
qed

lemma close_world_ok:
  assumes w: "world_ok w" "k < length (aw_tasks w)" "aw_tasks w ! k = Closing tid i tracked r"
  shows "world_ok (close_task k tid i tracked r w)"
proof -
  let ?w = "set_task k (Done r) (drop_registration tid i w)"
  have tasks: "aw_tasks (drop_registration tid i w) = aw_tasks w"
    and pend: "pending_ok (drop_registration tid i w) = pending_ok w"
    by (simp_all add: drop_registration_def)
  have "requests_ok ?w" using w by (intro drop_requests_ok) (auto simp: world_ok_def)
  then have ok: "world_ok ?w"
    using w tasks pend set_update_subset_insert [of "aw_tasks w" k "Done r"]
    by (auto simp: world_ok_def set_task_def list_all_iff)
  have "close_task k tid i tracked r w = remove_tracked tracked r ?w"
    by (cases "drop_registration tid i w")
      (auto simp: close_task_def remove_tracked_def set_task_def remove_pending_if_identity_def
        split: sum.split option.split)
  also have "world_ok \<dots>"
    using ok by (auto simp: remove_tracked_def intro: remove_identity_world_ok split: sum.split option.split)
  finally show ?thesis .
qed

lemma cancel_request_world_ok:
  "world_ok w \<Longrightarrow> cancel_request rid w = (w', b) \<Longrightarrow> world_ok w' \<and> aw_tasks w' = aw_tasks w"
  using cancel_request_frame [of rid w w' b] by (simp add: world_ok_def)

lemma entry_ok_tick: "entry_ok w tid p \<Longrightarrow> entry_ok (w\<lparr>aw_now := aw_now w + d\<rparr>) tid p"
  by (simp add: entry_ok_def)

lemma world_step_ok:
  assumes "world_step ext w w'" "world_ok w"
  shows "world_ok w'"
  using assms(1)
proof cases
  case (tick d)
  with assms(2) show ?thesis
    by (auto simp: world_ok_def pending_ok_def entry_ok_tick)
next
  case (start tid)
  with assms(2) show ?thesis by (auto simp: start_check_def intro: world_ok_add)
next
  case (registered k tid)
  obtain w1 q where reg: "register_request tid w = (w1, q)" by force
  show ?thesis
  proof (cases q)
    case (Inl e)
    with reg have "w1 = w" by (auto elim: register_cases)
    with registered assms(2) reg Inl show ?thesis by (simp add: start_register_def world_ok_set)
  next
    case (Inr i)
    with registered assms(2) reg show ?thesis
      by (simp add: start_register_def register_set_world_ok)
  qed
next
  case (continued tid r)
  obtain w1 q where reg: "register_request tid w = (w1, q)" by force
  with continued assms(2) show ?thesis
    by (cases q) (auto simp: continue_register_def intro: register_add_world_ok world_ok_add
        elim: register_cases)
next
  case (authorized r mode)
  obtain w1 q where au: "authorize_pending_agent_tool r mode w = (w1, q)" by force
  with authorized authorize_world_ok [OF assms(2) au] show ?thesis
    by (cases q) (auto simp: authorize_command_def intro: world_ok_add)
next
  case (cancel_begun tid)
  with assms(2) show ?thesis
    by (auto simp: cancel_pending_section_def Let_def intro!: world_ok_add)
next
  case (cancel_ended k tid b)
  obtain w1 q where c: "cancel_request tid w = (w1, q)" by force
  with cancel_ended cancel_request_world_ok [OF assms(2) c] show ?thesis
    by (auto simp: cancel_active_section_def intro!: world_ok_set)
next
  case (chat_begun rid)
  obtain w1 q where reg: "register_request rid w = (w1, q)" by force
  with chat_begun assms(2) show ?thesis
    by (cases q) (auto simp: chat_register_def intro: register_add_world_ok world_ok_add
        elim: register_cases)
next
  case (chat_cancelled rid)
  obtain w1 q where c: "cancel_request rid w = (w1, q)" by force
  with chat_cancelled cancel_request_world_ok [OF assms(2) c] assms(2) show ?thesis
    by (auto simp: cancel_chat_def intro!: world_ok_add)
qed (use assms(2) in \<open>auto intro: timer_world_ok load_world_ok drive_world_ok take_world_ok
      submit_world_ok close_world_ok world_ok_set\<close>)

interpretation world: transition_system "world_step ext" world_ok for ext
  by unfold_locales (rule world_step_ok)

lemma world_init_ok: "world_ok world_init"
  by (simp add: world_ok_def world_init_def requests_ok_def pending_ok_def fcard.rep_eq)

section \<open>Entries keep their authorization\<close>

text \<open>How the waiting turns evolve: an entry of the later world is an entry of the earlier one, with the
  same identity and no less authorization, or has a fresh identity.\<close>

definition evolves :: "agent_world \<Rightarrow> agent_world \<Rightarrow> bool" where
  "evolves w w' \<longleftrightarrow> aw_fresh w \<le> aw_fresh w' \<and>
     (\<forall>tid q. fmlookup (aw_pending w') tid = Some q \<longrightarrow> aw_fresh w \<le> pt_identity q \<or>
        (\<exists>p. fmlookup (aw_pending w) tid = Some p \<and> pt_identity p = pt_identity q
           \<and> (pt_execution_authorized p \<longrightarrow> pt_execution_authorized q)))"

lemma evolves_refl: "evolves w w"
  by (auto simp: evolves_def)

lemma evolves_trans:
  assumes "evolves w1 w2" "evolves w2 w3"
  shows "evolves w1 w3"
  unfolding evolves_def
proof (intro conjI allI impI)
  show "aw_fresh w1 \<le> aw_fresh w3" using assms by (auto simp: evolves_def)
  fix tid q assume "fmlookup (aw_pending w3) tid = Some q"
  with assms(2) consider "aw_fresh w2 \<le> pt_identity q"
    | p where "fmlookup (aw_pending w2) tid = Some p" "pt_identity p = pt_identity q"
        "pt_execution_authorized p \<longrightarrow> pt_execution_authorized q"
    by (auto simp: evolves_def)
  then show "aw_fresh w1 \<le> pt_identity q \<or> (\<exists>p. fmlookup (aw_pending w1) tid = Some p
      \<and> pt_identity p = pt_identity q \<and> (pt_execution_authorized p \<longrightarrow> pt_execution_authorized q))"
    using assms(1) by cases (fastforce simp: evolves_def)+
qed

lemma evolves_sub:
  assumes "aw_fresh w \<le> aw_fresh w'"
    and "\<And>tid q. fmlookup (aw_pending w') tid = Some q \<Longrightarrow> fmlookup (aw_pending w) tid = Some q"
  shows "evolves w w'"
  using assms by (auto simp: evolves_def)

lemma evolves_prune: "evolves w (prune_expired w)"
  by (rule evolves_sub) (auto simp: lookup_prune split: option.splits if_splits)

lemma evolves_tasks [simp]:
  "evolves w (set_task k t w') = evolves w w'" "evolves w (add_task t w') = evolves w w'"
  "evolves w (w'\<lparr>aw_timers := ts\<rparr>) = evolves w w'"
  by (simp_all add: evolves_def set_task_def add_task_def)

lemma evolves_drop: "evolves w (w' :: agent_world) \<Longrightarrow> evolves w (w'\<lparr>aw_pending := fmdrop tid (aw_pending w')\<rparr>)"
  by (erule evolves_trans) (rule evolves_sub, auto split: if_splits)

lemma evolves_remove: "evolves w w' \<Longrightarrow> evolves w (remove_pending_if_identity tid i w')"
  by (auto simp: remove_pending_if_identity_def evolves_drop split: option.split)

lemma evolves_drop_registration [simp]: "evolves w (drop_registration rid i w') = evolves w w'"
  by (simp add: evolves_def drop_registration_def)

lemma evolves_register: "register_request rid w = (w', r) \<Longrightarrow> evolves w w'"
  by (erule register_cases) (auto intro: evolves_sub)

lemma evolves_cancel: "cancel_request rid w = (w', r) \<Longrightarrow> evolves w w'"
  by (auto simp: cancel_request_def Let_def intro!: evolves_sub split: option.splits if_splits)

lemma evolves_insert:
  assumes "insert_pending_agent_turn tid t w = (w', r)"
  shows "evolves w w'"
proof -
  have "evolves (prune_expired w) w'"
    using assms by (auto simp: insert_pending_agent_turn_def Let_def evolves_def split: if_splits)
  then show ?thesis by (rule evolves_trans [OF evolves_prune])
qed

lemma evolves_authorize:
  assumes "authorize_pending_agent_tool r mode w = (w', x)"
  shows "evolves w w'"
  using authorize_result [OF assms]
proof cases
  case (refused p)
  have "evolves (prune_expired w) w'"
    using refused by (auto simp: evolves_def)
  then show ?thesis by (rule evolves_trans [OF evolves_prune])
next
  case (granted p call)
  then have "evolves (prune_expired w) w'" by (auto simp: evolves_def)
  then show ?thesis by (rule evolves_trans [OF evolves_prune])
qed (auto simp: evolves_refl evolves_prune intro: evolves_drop)

lemma evolves_step:
  assumes "world_step ext w w'"
  shows "evolves w w'"
  using assms
proof cases
  case (registered k tid)
  then show ?thesis
    by (auto simp: start_register_def dest: evolves_register split: prod.split sum.split)
next
  case (loaded k tid i l)
  then show ?thesis by (auto simp: start_load_def evolves_refl split: sum.split)
next
  case (driven k tid i t x)
  then show ?thesis
    by (auto simp: drive_once_def evolves_refl dest: evolves_insert
        split: prod.split sum.split ai_agent_decision.split)
next
  case (submitted k tid i r p)
  then show ?thesis by (auto simp: continue_submit_def evolves_refl split: prod.split sum.split)
next
  case (closed k tid i tracked r)
  then show ?thesis
    by (auto simp: close_task_def remove_tracked_def evolves_refl intro: evolves_remove
        split: sum.split option.split)
next
  case (start tid)
  then show ?thesis by (simp add: start_check_def evolves_refl evolves_prune)
next
  case (continued tid r)
  then show ?thesis
    by (auto simp: continue_register_def evolves_refl dest: evolves_register split: prod.split sum.split)
next
  case (taken k tid i r)
  then show ?thesis
    by (auto simp: continue_take_def take_pending_agent_turn_def Let_def evolves_prune
        intro: evolves_drop split: option.split)
next
  case (authorized r mode)
  then show ?thesis
    by (auto simp: authorize_command_def dest: evolves_authorize split: prod.split sum.split)
next
  case (cancel_begun tid)
  then show ?thesis
    by (auto simp: cancel_pending_section_def Let_def evolves_refl evolves_prune intro: evolves_drop)
next
  case (cancel_ended k tid b)
  then show ?thesis by (auto simp: cancel_active_section_def dest: evolves_cancel split: prod.split)
next
  case (chat_begun rid)
  then show ?thesis
    by (auto simp: chat_register_def evolves_refl dest: evolves_register split: prod.split sum.split)
next
  case (chat_cancelled rid)
  then show ?thesis by (auto simp: cancel_chat_def evolves_refl dest: evolves_cancel split: prod.split)
next
  case (timer deadline tid i)
  then show ?thesis by (simp add: fire_timer_def evolves_remove evolves_refl)
qed (simp_all add: evolves_refl, auto intro: evolves_sub)

definition settled :: "rstr \<Rightarrow> nat \<Rightarrow> agent_world \<Rightarrow> bool" where
  "settled tid i w \<longleftrightarrow> i < aw_fresh w \<and>
     (\<forall>p. fmlookup (aw_pending w) tid = Some p \<and> pt_identity p = i \<longrightarrow> pt_execution_authorized p)"

interpretation settled: transition_system "world_step ext" "settled tid i" for ext tid i
proof
  fix w w' assume "world_step ext w w'" "settled tid i w"
  then show "settled tid i w'"
    using evolves_step [of ext w w'] unfolding evolves_def settled_def
    by (metis le_trans not_le order_less_le_trans)
qed

section \<open>Running commands stay reachable for cancel\<close>

definition owns :: "agent_task list \<Rightarrow> nat \<Rightarrow> rstr \<Rightarrow> nat \<Rightarrow> bool" where
  "owns ts k rid i \<longleftrightarrow> k < length ts \<and> task_registration (ts ! k) = Some (rid, i)"

definition listening_ok :: "agent_world \<Rightarrow> bool" where
  "listening_ok w \<longleftrightarrow> (\<forall>k rid i. owns (aw_tasks w) k rid i \<longrightarrow> i < aw_fresh w
     \<and> (\<forall>j rid'. owns (aw_tasks w) j rid' i \<longrightarrow> j = k)
     \<and> (task_listens i (aw_tasks w ! k) \<longrightarrow>
          fmlookup (aw_requests w) rid = Some i \<or> i \<in> set (aw_cancelled w)))"

lemma listeningD:
  assumes "listening_ok w" "owns (aw_tasks w) k rid i"
  shows "i < aw_fresh w" and "owns (aw_tasks w) j rid' i \<Longrightarrow> j = k"
    and "task_listens i (aw_tasks w ! k) \<Longrightarrow>
      fmlookup (aw_requests w) rid = Some i \<or> i \<in> set (aw_cancelled w)"
  using assms unfolding listening_ok_def by blast+

lemma listeningI:
  assumes "\<And>k rid i. owns (aw_tasks w) k rid i \<Longrightarrow> i < aw_fresh w"
    and "\<And>k rid i j rid'. owns (aw_tasks w) k rid i \<Longrightarrow> owns (aw_tasks w) j rid' i \<Longrightarrow> j = k"
    and "\<And>k rid i. owns (aw_tasks w) k rid i \<Longrightarrow> task_listens i (aw_tasks w ! k) \<Longrightarrow>
      fmlookup (aw_requests w) rid = Some i \<or> i \<in> set (aw_cancelled w)"
  shows "listening_ok w"
  using assms unfolding listening_ok_def by blast

lemma owns_set:
  "owns (ts[k := t]) j rid i \<longleftrightarrow>
     (if j = k then k < length ts \<and> task_registration t = Some (rid, i) else owns ts j rid i)"
  by (auto simp: owns_def)

lemma owns_add:
  "owns (ts @ [t]) k rid i \<longleftrightarrow>
     owns ts k rid i \<or> k = length ts \<and> task_registration t = Some (rid, i)"
  by (auto simp: owns_def nth_append less_Suc_eq)

lemma listening_frame:
  assumes "listening_ok w" "aw_tasks w' = aw_tasks w" "aw_fresh w \<le> aw_fresh w'"
    "aw_requests w' = aw_requests w" "aw_cancelled w' = aw_cancelled w"
  shows "listening_ok w'"
  using assms listeningD [OF assms(1)] by (intro listeningI) (auto intro: order_less_le_trans)

lemma listening_add:
  assumes "listening_ok w" "task_registration t = None"
  shows "listening_ok (add_task t w)"
proof -
  let ?w = "add_task t w"
  have owns: "owns (aw_tasks w) k rid i \<and> aw_tasks ?w ! k = aw_tasks w ! k"
    if "owns (aw_tasks ?w) k rid i" for k rid i
    using that assms(2) unfolding add_task_def by (auto simp: owns_add) (auto simp: owns_def nth_append)
  have same: "aw_fresh ?w = aw_fresh w" "aw_requests ?w = aw_requests w"
    "aw_cancelled ?w = aw_cancelled w" by (simp_all add: add_task_def)
  show ?thesis
    by (rule listeningI) (simp_all only: same, (metis owns listeningD [OF assms(1)])+)
qed

lemma listening_set:
  assumes "listening_ok w" "k < length (aw_tasks w)"
    and "task_registration t = None \<or> task_registration t = task_registration (aw_tasks w ! k)"
    and "\<And>i. task_listens i t \<Longrightarrow> task_listens i (aw_tasks w ! k)"
  shows "listening_ok (set_task k t w)"
proof -
  let ?w = "set_task k t w"
  have owns: "owns (aw_tasks ?w) j rid i \<Longrightarrow> owns (aw_tasks w) j rid i" for j rid i
    using assms(2,3) by (auto simp: owns_set owns_def set_task_def nth_list_update split: if_splits)
  have listens: "task_listens i (aw_tasks ?w ! j) \<Longrightarrow> task_listens i (aw_tasks w ! j)" for i j
    using assms(2,4) by (cases "j = k") (auto simp: set_task_def)
  have same: "aw_fresh ?w = aw_fresh w" "aw_requests ?w = aw_requests w"
    "aw_cancelled ?w = aw_cancelled w" by (simp_all add: set_task_def)
  show ?thesis
    by (rule listeningI) (simp_all only: same, (metis owns listens listeningD [OF assms(1)])+)
qed

text \<open>A fresh registration leaves the others valid, wherever its command is put.\<close>

lemma listening_fresh:
  assumes ok: "listening_ok w" and reg: "register_request rid w = (w', Inr i)"
    and owns: "\<And>j r n. owns (aw_tasks v) j r n \<Longrightarrow> j = k \<and> r = rid \<and> n = i \<or> j \<noteq> k \<and> owns (aw_tasks w) j r n"
    and old: "\<And>j. j < length (aw_tasks w) \<Longrightarrow> j \<noteq> k \<Longrightarrow> aw_tasks v ! j = aw_tasks w ! j"
    and same: "aw_fresh v = aw_fresh w'" "aw_requests v = aw_requests w'" "aw_cancelled v = aw_cancelled w'"
  shows "listening_ok v"
proof -
  from reg have i: "i = aw_fresh w" and free: "fmlookup (aw_requests w) rid = None"
    and w': "w' = w\<lparr>aw_requests := fmupd rid i (aw_requests w), aw_fresh := Suc i\<rparr>"
    by (auto elim: register_cases)
  note d = listeningD [OF ok]
  show ?thesis
  proof (rule listeningI)
    fix j r n assume o: "owns (aw_tasks v) j r n"
    show "n < aw_fresh v" using owns [OF o] d(1) [of j r n] by (auto simp: same w' i)
    show "l = j" if "owns (aw_tasks v) l r' n" for l r'
      using owns [OF o] owns [OF that] d(1,2) i by blast
    assume l: "task_listens n (aw_tasks v ! j)"
    from owns [OF o] show "fmlookup (aw_requests v) r = Some n \<or> n \<in> set (aw_cancelled v)"
    proof (elim disjE conjE)
      assume "j \<noteq> k" and o': "owns (aw_tasks w) j r n"
      with l old have "task_listens n (aw_tasks w ! j)" by (simp add: owns_def)
      with d(3) [OF o'] free show ?thesis by (auto simp: same w')
    qed (simp add: same w')
  qed
qed

lemma listening_register:
  assumes "listening_ok w" "register_request rid w = (w', Inr i)" "task_registration t = Some (rid, i)"
  shows "listening_ok (add_task t w')"
    and "k < length (aw_tasks w) \<Longrightarrow> listening_ok (set_task k t w')"
proof -
  have tasks: "aw_tasks w' = aw_tasks w" using assms(2) by (auto elim: register_cases)
  show "listening_ok (add_task t w')"
  proof (rule listening_fresh [OF assms(1,2), of _ "length (aw_tasks w)"])
    fix j r n assume "owns (aw_tasks (add_task t w')) j r n"
    then have "owns (aw_tasks w) j r n \<or> j = length (aw_tasks w) \<and> r = rid \<and> n = i"
      using assms(3) tasks by (auto simp: add_task_def owns_add)
    then show "j = length (aw_tasks w) \<and> r = rid \<and> n = i \<or> j \<noteq> length (aw_tasks w) \<and> owns (aw_tasks w) j r n"
      by (auto simp: owns_def)
  qed (use tasks in \<open>auto simp: add_task_def nth_append\<close>)
  assume "k < length (aw_tasks w)"
  then show "listening_ok (set_task k t w')"
    by (intro listening_fresh [OF assms(1,2), of _ k])
      (use assms(3) tasks in \<open>auto simp: set_task_def owns_set split: if_splits\<close>)
qed

lemma listening_close:
  assumes ok: "listening_ok w" and "k < length (aw_tasks w)" "aw_tasks w ! k = Closing tid i tracked r"
  shows "listening_ok (set_task k (Done r) (drop_registration tid i w))"
proof -
  let ?v = "set_task k (Done r) (drop_registration tid i w)"
  have k: "owns (aw_tasks w) k tid i" using assms(2,3) by (simp add: owns_def)
  have v: "aw_tasks ?v = (aw_tasks w)[k := Done r]" "aw_fresh ?v = aw_fresh w"
      "aw_cancelled ?v = aw_cancelled w"
      "aw_requests ?v = (if fmlookup (aw_requests w) tid = Some i then fmdrop tid (aw_requests w)
        else aw_requests w)"
    by (simp_all add: set_task_def drop_registration_def)
  have owns: "j \<noteq> k \<and> owns (aw_tasks w) j rid n" if "owns (aw_tasks ?v) j rid n" for j rid n
    using that by (auto simp: v owns_set split: if_splits)
  note d = listeningD [OF ok]
  show ?thesis
  proof (rule listeningI)
    fix j rid n assume o: "owns (aw_tasks ?v) j rid n"
    from owns [OF o] d(1) show "n < aw_fresh ?v" by (auto simp: v)
    show "l = j" if "owns (aw_tasks ?v) l rid' n" for l rid'
      using owns [OF o] owns [OF that] d(2) by blast
    assume "task_listens n (aw_tasks ?v ! j)"
    with owns [OF o] have "task_listens n (aw_tasks w ! j)" "owns (aw_tasks w) j rid n" "j \<noteq> k"
      by (auto simp: v)
    moreover from this k d(2) have "n \<noteq> i" by blast
    ultimately show "fmlookup (aw_requests ?v) rid = Some n \<or> n \<in> set (aw_cancelled ?v)"
      using d(3) by (fastforce simp: v)
  qed
qed

lemma listening_cancel:
  assumes "listening_ok w" "cancel_request rid w = (w', b)"
  shows "listening_ok w'"
proof (cases "fmlookup (aw_requests w) rid")
  case (Some i)
  have w': "aw_tasks w' = aw_tasks w" "aw_fresh w' = aw_fresh w"
      "aw_requests w' = fmdrop rid (aw_requests w)"
      "aw_cancelled w' = (if list_ex (task_listens i) (aw_tasks w) then i # aw_cancelled w
        else aw_cancelled w)"
    using assms(2) Some by (auto simp: cancel_request_def Let_def split: if_splits)
  have listens: "list_ex (task_listens n) (aw_tasks w)"
    if "owns (aw_tasks w) k rid' n" "task_listens n (aw_tasks w ! k)" for k rid' n
    using that by (auto simp: list_ex_length owns_def)
  note d = listeningD [OF assms(1)]
  show ?thesis
  proof (rule listeningI)
    fix k rid' n assume o: "owns (aw_tasks w') k rid' n" and l: "task_listens n (aw_tasks w' ! k)"
    then have "owns (aw_tasks w) k rid' n" "task_listens n (aw_tasks w ! k)" by (simp_all add: w')
    with d(3) listens have "fmlookup (aw_requests w) rid' = Some n \<or> n \<in> set (aw_cancelled w)"
      "list_ex (task_listens n) (aw_tasks w)" by blast+
    with Some show "fmlookup (aw_requests w') rid' = Some n \<or> n \<in> set (aw_cancelled w')"
      by (auto simp: w')
  next
    fix k rid' n assume "owns (aw_tasks w') k rid' n"
    then show "n < aw_fresh w'" using d(1) by (simp add: w')
    fix j r assume "owns (aw_tasks w') j r n"
    with \<open>owns (aw_tasks w') k rid' n\<close> show "j = k" using d(2) by (simp add: w')
  qed
qed (use assms in \<open>simp add: cancel_request_def\<close>)

definition same_requests :: "agent_world \<Rightarrow> agent_world \<Rightarrow> bool" where
  "same_requests w w' \<longleftrightarrow> aw_tasks w' = aw_tasks w \<and> aw_fresh w \<le> aw_fresh w'
     \<and> aw_requests w' = aw_requests w \<and> aw_cancelled w' = aw_cancelled w"

lemma listening_same: "same_requests w w' \<Longrightarrow> listening_ok w \<Longrightarrow> listening_ok w'"
  by (auto simp: same_requests_def intro: listening_frame)

lemma same_insert: "insert_pending_agent_turn tid t w = (w', r) \<Longrightarrow> same_requests w w'"
  by (auto simp: insert_pending_agent_turn_def Let_def same_requests_def split: if_splits)

lemma same_authorize: "authorize_pending_agent_tool r mode w = (w', x) \<Longrightarrow> same_requests w w'"
  by (drule authorize_result, cases rule: authorize_result.cases) (auto simp: same_requests_def)

lemma same_remove: "same_requests w (remove_pending_if_identity tid i w)"
  by (simp add: remove_pending_if_identity_def same_requests_def split: option.split)

lemma same_simps [simp]:
  "same_requests w w" "same_requests w (prune_expired w)"
  "same_requests w (w\<lparr>aw_now := n\<rparr>)"
  "same_requests w ((prune_expired w)\<lparr>aw_pending := m\<rparr>)"
  "same_requests w (w'\<lparr>aw_timers := ts\<rparr>) = same_requests w w'"
  by (simp_all add: same_requests_def)

lemma listens_owner: "task_listens i t \<Longrightarrow> \<exists>rid. task_registration t = Some (rid, i)"
  by (cases t) auto

lemma listening_drive:
  assumes "listening_ok w" "k < length (aw_tasks w)" "aw_tasks w ! k = Driving tid i t"
  shows "listening_ok (drive_once ext k tid i t x w)"
proof -
  have moved: "listening_ok (set_task k t' w')"
    if "same_requests w w'" "task_registration t' = Some (tid, i)" for t' w'
    using that assms listening_same [OF that(1) assms(1)]
    by (intro listening_set) (auto simp: same_requests_def dest: listens_owner)
  show ?thesis
    by (auto simp: drive_once_def intro: moved same_insert split: prod.split sum.split ai_agent_decision.split)
qed

lemma listening_step:
  assumes "world_step ext w w'" "listening_ok w"
  shows "listening_ok w'"
  using assms(1)
proof cases
  case (start tid)
  with assms(2) show ?thesis
    by (auto simp: start_check_def intro!: listening_add listening_same [of w "prune_expired w"])
next
  case (registered k tid)
  obtain w1 q where reg: "register_request tid w = (w1, q)" by force
  with registered assms(2) show ?thesis
    by (cases q) (auto simp: start_register_def intro: listening_register listening_set
        elim: register_cases)
next
  case (loaded k tid i l)
  with assms(2) show ?thesis
    by (auto simp: start_load_def intro!: listening_set split: sum.split)
next
  case (driven k tid i t x)
  with assms(2) show ?thesis by (auto intro: listening_drive)
next
  case (continued tid r)
  obtain w1 q where reg: "register_request tid w = (w1, q)" by force
  with continued assms(2) show ?thesis
    by (cases q) (auto simp: continue_register_def intro: listening_register listening_add
        elim: register_cases)
next
  case (taken k tid i r)
  with assms(2) listening_same [of w "fst (take_pending_agent_turn tid w)"] show ?thesis
    by (auto simp: continue_take_def take_pending_agent_turn_def Let_def intro!: listening_set
        split: option.split)
next
  case (submitted k tid i r p)
  with assms(2) show ?thesis
    by (auto simp: continue_submit_def intro!: listening_set split: prod.split sum.split)
next
  case (authorized r mode)
  obtain w1 q where au: "authorize_pending_agent_tool r mode w = (w1, q)" by force
  with authorized listening_same [OF same_authorize [OF au] assms(2)] show ?thesis
    by (auto simp: authorize_command_def intro!: listening_add split: sum.split)
next
  case (cancel_begun tid)
  with assms(2) show ?thesis
    by (auto simp: cancel_pending_section_def Let_def intro!: listening_add
        intro: listening_same [OF same_simps(4)])
next
  case (cancel_ended k tid b)
  obtain w1 q where c: "cancel_request tid w = (w1, q)" by force
  with cancel_ended listening_cancel [OF assms(2) c] cancel_request_frame(1) [OF c] show ?thesis
    by (auto simp: cancel_active_section_def intro!: listening_set)
next
  case (chat_begun rid)
  obtain w1 q where reg: "register_request rid w = (w1, q)" by force
  with chat_begun assms(2) show ?thesis
    by (cases q) (auto simp: chat_register_def intro: listening_register listening_add
        elim: register_cases)
next
  case (chat_cancelled rid)
  obtain w1 q where c: "cancel_request rid w = (w1, q)" by force
  with chat_cancelled listening_cancel [OF assms(2) c] assms(2) show ?thesis
    by (auto simp: cancel_chat_def intro!: listening_add)
next
  case (closed k tid i tracked r)
  let ?w = "set_task k (Done r) (drop_registration tid i w)"
  have "close_task k tid i tracked r w = remove_tracked tracked r ?w"
    by (cases "drop_registration tid i w")
      (auto simp: close_task_def remove_tracked_def set_task_def remove_pending_if_identity_def
        split: sum.split option.split)
  moreover have "listening_ok ?w" using assms(2) closed by (intro listening_close)
  ultimately show ?thesis
    using closed by (auto simp: remove_tracked_def intro: listening_same [OF same_remove]
        split: sum.split option.split)
next
  case (timer deadline tid i)
  then show ?thesis
    using listening_same [OF _ assms(2)] by (simp add: fire_timer_def same_remove)
next
  case (tick d)
  then show ?thesis using listening_same [OF _ assms(2)] by simp
qed (use assms(2) in \<open>auto intro!: listening_set\<close>)

interpretation listening: transition_system "world_step ext" listening_ok for ext
  by unfold_locales (rule listening_step)

lemma listening_init: "listening_ok world_init"
  by (simp add: listening_ok_def owns_def world_init_def)

text \<open>Both sections of \<^verbatim>\<open>cancel_ai_agent_turn\<close> with nothing in between.\<close>

definition cancel_ai_agent_turn :: "rstr \<Rightarrow> agent_world \<Rightarrow> agent_world" where
  "cancel_ai_agent_turn tid w =
     (let w1 = cancel_pending_section tid w
      in case last (aw_tasks w1) of
           Cancelling t pending \<Rightarrow> cancel_active_section (length (aw_tasks w)) t pending w1
         | _ \<Rightarrow> w1)"

section \<open>An example\<close>

definition sample_tid :: rstr where "sample_tid = lit ''t''"

definition sample_driving :: agent_world where
  "sample_driving = \<lparr>aw_now = 0, aw_fresh = 1, aw_requests = fmupd sample_tid 0 fmempty,
     aw_cancelled = [], aw_pending = fmempty, aw_timers = [],
     aw_tasks = [Driving sample_tid 0 sample_turn]\<rparr>"

definition sample_entry :: registered_pending_turn where
  "sample_entry = \<lparr>pt_identity = 1, pt_expires_at = 300, pt_execution_authorized = False,
     pt_turn = sample_waiting\<rparr>"

definition sample_pending :: agent_world where
  "sample_pending = \<lparr>aw_now = 0, aw_fresh = 2, aw_requests = fmempty, aw_cancelled = [],
     aw_pending = fmupd sample_tid sample_entry fmempty, aw_timers = [(300, sample_tid, 1)],
     aw_tasks = [Done (Inr (RespToolCall sample_tid sample_tool_call True None))]\<rparr>"

definition sample_authorize :: authorize_request where
  "sample_authorize = \<lparr>ar_turn_id = sample_tid, ar_tool_call_id = lit ''c'',
     ar_terminal_scope = sample_scope, ar_user_approved = True\<rparr>"

lemmas limits = MAX_ACTIVE_AI_REQUESTS_def MAX_PENDING_AI_TURNS_def AI_PENDING_APPROVAL_TTL_def
  AI_REQUEST_ID_MAX_BYTES_def

lemma sample_tid_valid: "valid_request_id sample_tid"
  by (simp add: valid_request_id_def sample_tid_def policy_simps AI_REQUEST_ID_MAX_BYTES_def)

lemma prune_empty [simp]: "aw_pending w = fmempty \<Longrightarrow> prune_expired w = w"
  by (cases w) (simp add: prune_expired_def)

lemma fcard_fempty [simp]: "fcard {||} = 0"
  by (simp add: fcard.rep_eq)

lemma fmdrop_single [simp]: "fmdrop k (fmupd k v fmempty) = fmempty"
  by (rule fmap_ext) simp

lemma no_image: "\<not> has_image_content sample_request"
  by (simp add: has_image_content_def sample_request_def)

lemma sample_driving_reached: "(world_step sample_ext)\<^sup>*\<^sup>* world_init sample_driving"
proof -
  let ?w1 = "start_check sample_tid world_init"
  let ?w2 = "start_register 0 sample_tid ?w1"
  have w1: "?w1 = world_init\<lparr>aw_tasks := [Starting sample_tid]\<rparr>"
    by (simp add: start_check_def sample_tid_valid has_pending_agent_turn_def add_task_def world_init_def)
  have w2: "?w2 = world_init\<lparr>aw_requests := fmupd sample_tid 0 fmempty, aw_fresh := 1,
      aw_tasks := [Loading sample_tid 0]\<rparr>"
    unfolding w1
    by (simp add: start_register_def register_request_def set_task_def world_init_def limits)
  have w3: "start_load sample_ext 0 sample_tid 0
      (Inr (sample_request, Confirm, Some sample_scope, None)) ?w2 = sample_driving"
    unfolding w2
    by (simp add: start_load_def sample_new no_image set_task_def world_init_def sample_driving_def)
  have "world_step sample_ext world_init ?w1" by (rule world_step.start)
  moreover have "world_step sample_ext ?w1 ?w2"
    by (rule world_step.registered) (simp_all add: w1)
  moreover have "world_step sample_ext ?w2 sample_driving"
    unfolding w3 [symmetric] by (rule world_step.loaded) (simp_all add: w2)
  ultimately show ?thesis by (meson rtranclp.rtrancl_refl rtranclp.rtrancl_into_rtrancl)
qed

lemma sample_pending_reached: "(world_step sample_ext)\<^sup>*\<^sup>* world_init sample_pending"
proof -
  let ?c = "Closing sample_tid 0 (Some (sample_tid, 1)) (Inr (RespToolCall sample_tid sample_tool_call True None))"
  let ?w = "drive_once sample_ext 0 sample_tid 0 sample_turn sample_exchange sample_driving"
  have w: "?w = sample_pending\<lparr>aw_requests := fmupd sample_tid 0 fmempty, aw_tasks := [?c]\<rparr>"
    by (simp add: drive_once_def sample_advance insert_pending_agent_turn_def set_task_def Let_def
        sample_driving_def sample_pending_def sample_entry_def limits)
  have w': "close_task 0 sample_tid 0 (Some (sample_tid, 1))
      (Inr (RespToolCall sample_tid sample_tool_call True None)) ?w = sample_pending"
    unfolding w by (simp add: close_task_def drop_registration_def remove_tracked_def set_task_def
        sample_pending_def)
  have "world_step sample_ext sample_driving ?w"
    by (rule world_step.driven) (simp_all add: sample_driving_def)
  moreover have "world_step sample_ext ?w sample_pending"
    unfolding w' [symmetric] by (rule world_step.closed) (simp_all add: w)
  ultimately show ?thesis using sample_driving_reached by (meson rtranclp.rtrancl_into_rtrancl)
qed

section \<open>Properties\<close>

text \<open>C16: In every world that any interleaving of the commands can reach, at most eight requests are
  registered and at most eight turns wait; every registration belongs to a command still running, so
  none leaks; every waiting turn satisfies the invariant of turns, holds a call and has a timer armed
  for the end of its at most five minutes; and a result is only submitted for a turn whose execution was
  authorised, unless it reports that the user rejected the call.\<close>

theorem agent_registry_invariant:
  assumes "(world_step ext)\<^sup>*\<^sup>* world_init w"
  shows "fcard (fmdom (aw_requests w)) \<le> 8 \<and> fcard (fmdom (aw_pending w)) \<le> 8
    \<and> (\<forall>rid i. fmlookup (aw_requests w) rid = Some i \<longrightarrow>
         (\<exists>task \<in> set (aw_tasks w). task_registration task = Some (rid, i)))
    \<and> (\<forall>tid p. fmlookup (aw_pending w) tid = Some p \<longrightarrow>
         (\<exists>scope. turn_ok scope (pt_turn p)) \<and> at_pending_call (pt_turn p) \<noteq> None
         \<and> (pt_expires_at p, tid, pt_identity p) \<in> set (aw_timers w)
         \<and> pt_expires_at p \<le> aw_now w + 300)
    \<and> (\<forall>tid i r p. Submitting tid i r p \<in> set (aw_tasks w) \<longrightarrow>
         pt_execution_authorized p \<or> approval_rejected r)"
proof -
  have "world_ok w" using assms world_init_ok by (rule world.reach_inv)
  then have ok: "requests_ok w" "pending_ok w" "list_all task_ok (aw_tasks w)"
    by (simp_all add: world_ok_def)
  moreover have "\<forall>tid i r p. Submitting tid i r p \<in> set (aw_tasks w) \<longrightarrow>
      pt_execution_authorized p \<or> approval_rejected r"
    using ok(3) by (fastforce simp: list_all_iff)
  ultimately show ?thesis
    by (simp add: requests_ok_def pending_ok_def entry_ok_def turn_sound_def limits)
qed

theorem agent_registry_invariant_witness:
  "fmlookup (aw_pending sample_pending) sample_tid = Some sample_entry \<and>
   fcard (fmdom (aw_pending sample_pending)) \<le> 8"
  using agent_registry_invariant [OF sample_pending_reached] by (simp add: sample_pending_def)

text \<open>Authorization succeeds exactly when a turn of that id waits and has not expired, the mode read
  from the settings is auto or is confirm with the user's approval, the request names the waiting call
  and its terminal, and the call was not authorised before.\<close>

theorem agent_authorize_iff:
  "snd (authorize_pending_agent_tool r mode w) = Inr () \<longleftrightarrow>
     valid_request_id (ar_turn_id r)
     \<and> (\<exists>p call. fmlookup (aw_pending w) (ar_turn_id r) = Some p \<and> aw_now w < pt_expires_at p
          \<and> (mode = Auto \<or> mode = Confirm \<and> ar_user_approved r)
          \<and> at_pending_call (pt_turn p) = Some call \<and> tc_id call = ar_tool_call_id r
          \<and> tc_scope call = ar_terminal_scope r \<and> \<not> pt_execution_authorized p)"
proof
  assume ok: "snd (authorize_pending_agent_tool r mode w) = Inr ()"
  obtain w' where "authorize_pending_agent_tool r mode w = (w', Inr ())"
    using ok by (cases "authorize_pending_agent_tool r mode w") auto
  from authorize_result [OF this] show "valid_request_id (ar_turn_id r)
     \<and> (\<exists>p call. fmlookup (aw_pending w) (ar_turn_id r) = Some p \<and> aw_now w < pt_expires_at p
          \<and> (mode = Auto \<or> mode = Confirm \<and> ar_user_approved r)
          \<and> at_pending_call (pt_turn p) = Some call \<and> tc_id call = ar_tool_call_id r
          \<and> tc_scope call = ar_terminal_scope r \<and> \<not> pt_execution_authorized p)"
    by (rule authorize_grantedE) (auto simp: lookup_prune split: option.splits if_splits)
next
  assume "valid_request_id (ar_turn_id r)
     \<and> (\<exists>p call. fmlookup (aw_pending w) (ar_turn_id r) = Some p \<and> aw_now w < pt_expires_at p
          \<and> (mode = Auto \<or> mode = Confirm \<and> ar_user_approved r)
          \<and> at_pending_call (pt_turn p) = Some call \<and> tc_id call = ar_tool_call_id r
          \<and> tc_scope call = ar_terminal_scope r \<and> \<not> pt_execution_authorized p)"
  then show "snd (authorize_pending_agent_tool r mode w) = Inr ()"
    by (auto simp: authorize_pending_agent_tool_def Let_def lookup_prune authorize_tool_execution_def)
qed

text \<open>C15: A waiting call is authorised at most once: whatever happens afterwards, in every interleaving,
  while the entry that the authorization renewed is registered every further authorization of that turn
  is refused.\<close>

theorem agent_authorized_once:
  assumes "authorize_pending_agent_tool r mode w = (w1, Inr ())"
    and "(world_step ext)\<^sup>*\<^sup>* w1 w2"
    and "fmlookup (aw_pending w2) (ar_turn_id r) = Some p" and "pt_identity p = aw_fresh w"
    and "ar_turn_id r' = ar_turn_id r"
  shows "snd (authorize_pending_agent_tool r' mode' w2) \<noteq> Inr ()"
proof -
  have "settled (ar_turn_id r) (aw_fresh w) w1"
    using authorize_result [OF assms(1)]
    by (rule authorize_grantedE) (auto simp: settled_def)
  with assms(2) have "settled (ar_turn_id r) (aw_fresh w) w2" by (rule settled.reach_inv)
  with assms(3,4) have auth: "pt_execution_authorized p" by (simp add: settled_def)
  show ?thesis
  proof
    assume ok: "snd (authorize_pending_agent_tool r' mode' w2) = Inr ()"
    obtain w3 where "authorize_pending_agent_tool r' mode' w2 = (w3, Inr ())"
      using ok by (cases "authorize_pending_agent_tool r' mode' w2") auto
    from authorize_result [OF this] show False
      by (rule authorize_grantedE)
        (use assms(3,5) auth in \<open>auto simp: lookup_prune split: if_splits\<close>)
  qed
qed

theorem agent_authorized_once_witness:
  "\<exists>w1. authorize_pending_agent_tool sample_authorize Auto sample_pending = (w1, Inr ())
     \<and> snd (authorize_pending_agent_tool sample_authorize Confirm w1) \<noteq> Inr ()"
proof -
  let ?p = "sample_entry\<lparr>pt_identity := 2, pt_execution_authorized := True,
    pt_turn := set_permission_mode Auto sample_waiting\<rparr>"
  obtain w1 where w1: "authorize_pending_agent_tool sample_authorize Auto sample_pending = (w1, Inr ())"
      "fmlookup (aw_pending w1) sample_tid = Some ?p"
    by (simp add: authorize_pending_agent_tool_def sample_authorize_def sample_tid_valid lookup_prune
        sample_pending_def sample_entry_def authorize_tool_execution_def sample_waiting_def
        sample_tool_call_def limits Let_def)
  from agent_authorized_once [OF w1(1) rtranclp.rtrancl_refl, of ?p sample_authorize Confirm]
  show ?thesis using w1 by (simp add: sample_authorize_def sample_pending_def)
qed

text \<open>A cancel whose two sections run back to back always hits: if the turn waits, or a command works
  on it that was not cancelled before, the answer is true, the turn no longer waits and the command is
  marked cancelled.\<close>

theorem agent_cancel_hits:
  assumes "(world_step ext)\<^sup>*\<^sup>* world_init w" and "valid_request_id tid"
    and "fmlookup (aw_pending (prune_expired w)) tid \<noteq> None \<or>
      owns (aw_tasks w) k tid i \<and> task_listens i (aw_tasks w ! k) \<and> i \<notin> set (aw_cancelled w)"
  shows "last (aw_tasks (cancel_ai_agent_turn tid w)) = Done (Inr (RespCancelled True))
    \<and> fmlookup (aw_pending (cancel_ai_agent_turn tid w)) tid = None
    \<and> (owns (aw_tasks w) k tid i \<and> task_listens i (aw_tasks w ! k) \<longrightarrow>
         i \<in> set (aw_cancelled (cancel_ai_agent_turn tid w)))"
proof -
  let ?b = "fmlookup (aw_pending (prune_expired w)) tid \<noteq> None"
  define w1 where "w1 = add_task (Cancelling tid ?b)
    ((prune_expired w)\<lparr>aw_pending := fmdrop tid (aw_pending (prune_expired w))\<rparr>)"
  obtain w2 active where c: "cancel_request tid w1 = (w2, active)" by force
  have w1: "aw_tasks w1 = aw_tasks w @ [Cancelling tid ?b]" "aw_requests w1 = aw_requests w"
      "aw_cancelled w1 = aw_cancelled w" "fmlookup (aw_pending w1) tid = None"
    by (simp_all add: w1_def add_task_def)
  have run: "cancel_ai_agent_turn tid w
      = set_task (length (aw_tasks w)) (Done (Inr (RespCancelled (?b \<or> active)))) w2"
    using c assms(2)
    by (simp add: cancel_ai_agent_turn_def cancel_pending_section_def cancel_active_section_def
        w1_def add_task_def Let_def)
  have ok: "listening_ok w" using assms(1) listening_init by (rule listening.reach_inv)
  have hit: "(i \<notin> set (aw_cancelled w) \<longrightarrow> active) \<and> i \<in> set (aw_cancelled w2)"
    if o: "owns (aw_tasks w) k tid i" "task_listens i (aw_tasks w ! k)"
  proof -
    have "list_ex (task_listens i) (aw_tasks w)" using o by (auto simp: owns_def list_ex_length)
    with listeningD(3) [OF ok o] c w1 show ?thesis
      by (auto simp: cancel_request_def Let_def split: option.splits if_splits)
  qed
  with assms(3) have "?b \<or> active" by blast
  moreover have "aw_tasks w2 = aw_tasks w @ [Cancelling tid ?b]" "aw_pending w2 = aw_pending w1"
    using cancel_request_frame [OF c] w1 by simp_all
  ultimately show ?thesis
    using hit w1(4) by (auto simp: run set_task_def)
qed

theorem agent_cancel_hits_witness:
  "last (aw_tasks (cancel_ai_agent_turn sample_tid sample_driving)) = Done (Inr (RespCancelled True))"
  using agent_cancel_hits [OF sample_driving_reached sample_tid_valid, of 0 0]
  by (simp add: owns_def sample_driving_def)

text \<open>C30: The two sections of cancel are not one step, and a cancel can miss: while cancel stands between
  its sections the command can put its turn among the waiting ones and end.  The answer is then false
  and the turn goes on waiting, although it was active all along.\<close>

theorem agent_cancel_race:
  "\<exists>w w'. (world_step sample_ext)\<^sup>*\<^sup>* world_init w \<and> owns (aw_tasks w) 0 sample_tid 0
     \<and> (world_step sample_ext)\<^sup>*\<^sup>* (cancel_pending_section sample_tid w) w'
     \<and> last (aw_tasks w') = Done (Inr (RespCancelled False))
     \<and> fmlookup (aw_pending w') sample_tid \<noteq> None"
proof (intro exI conjI)
  let ?c = "Cancelling sample_tid False"
  let ?r = "Inr (RespToolCall sample_tid sample_tool_call True None)"
  let ?w1 = "sample_driving\<lparr>aw_tasks := aw_tasks sample_driving @ [?c]\<rparr>"
  let ?w2 = "sample_pending\<lparr>aw_requests := fmupd sample_tid 0 fmempty,
    aw_tasks := [Closing sample_tid 0 (Some (sample_tid, 1)) ?r, ?c]\<rparr>"
  let ?w3 = "sample_pending\<lparr>aw_tasks := [Done ?r, ?c]\<rparr>"
  let ?w4 = "sample_pending\<lparr>aw_tasks := [Done ?r, Done (Inr (RespCancelled False))]\<rparr>"
  have w1: "cancel_pending_section sample_tid sample_driving = ?w1"
    by (simp add: cancel_pending_section_def sample_tid_valid add_task_def sample_driving_def)
  have w2: "drive_once sample_ext 0 sample_tid 0 sample_turn sample_exchange ?w1 = ?w2"
    by (simp add: drive_once_def sample_advance insert_pending_agent_turn_def set_task_def Let_def
        sample_driving_def sample_pending_def sample_entry_def limits)
  have w3: "close_task 0 sample_tid 0 (Some (sample_tid, 1)) ?r ?w2 = ?w3"
    by (simp add: close_task_def drop_registration_def remove_tracked_def set_task_def
        sample_pending_def)
  have w4: "cancel_active_section 1 sample_tid False ?w3 = ?w4"
    by (simp add: cancel_active_section_def cancel_request_def set_task_def sample_pending_def)
  have "world_step sample_ext ?w1 ?w2"
    unfolding w2 [symmetric] by (rule world_step.driven) (simp_all add: sample_driving_def)
  moreover have "world_step sample_ext ?w2 ?w3"
    unfolding w3 [symmetric] by (rule world_step.closed) simp_all
  moreover have "world_step sample_ext ?w3 ?w4"
    unfolding w4 [symmetric] by (rule world_step.cancel_ended) simp_all
  ultimately show "(world_step sample_ext)\<^sup>*\<^sup>* (cancel_pending_section sample_tid sample_driving) ?w4"
    unfolding w1 by (meson rtranclp.rtrancl_refl rtranclp.rtrancl_into_rtrancl)
  show "last (aw_tasks ?w4) = Done (Inr (RespCancelled False))" by simp
  show "fmlookup (aw_pending ?w4) sample_tid \<noteq> None" by (simp add: sample_pending_def)
qed (rule sample_driving_reached, simp add: owns_def sample_driving_def)

end
