(* ===== verification/Serial_Charset.thy ===== *)
theory Serial_Charset
  imports Serial_Config
begin

text \<open>
  Character sets of a serial terminal (\<^verbatim>\<open>crates/netcatty-serial/src/charset.rs\<close>).  The tables of the
  package \<^verbatim>\<open>encoding_rs\<close> are a parameter: the encodings it knows, their labels and whether they extend
  ASCII, and for the chosen one a stateful decoder and an encoder.  What the code adds is modelled:
  the choice of an encoding for a label, the checks on input, the conversion of line ends.
\<close>

definition MAX_INPUT_BYTES :: nat where "MAX_INPUT_BYTES = 64 * 1024"

datatype serial_charset_error = InvalidUtf8Input | OutputTooLarge

section \<open>Choosing an encoding\<close>

record 'e encoding_table =
  et_utf_8 :: 'e
  et_gb18030 :: 'e
  et_gbk :: 'e
  et_for_label :: "bytes \<Rightarrow> 'e option"
  et_ascii_compatible :: "'e \<Rightarrow> bool"

definition is_ascii_alphanumeric :: "byte \<Rightarrow> bool" where
  "is_ascii_alphanumeric b \<longleftrightarrow>
     0x30 \<le> b \<and> b \<le> 0x39 \<or> 0x41 \<le> b \<and> b \<le> 0x5A \<or> 0x61 \<le> b \<and> b \<le> 0x7A"

definition to_ascii_lowercase :: "byte \<Rightarrow> byte" where
  "to_ascii_lowercase b = (if 0x41 \<le> b \<and> b \<le> 0x5A then b + 0x20 else b)"

definition collapse_label :: "rstr \<Rightarrow> bytes" where
  "collapse_label label = map to_ascii_lowercase (filter is_ascii_alphanumeric (utf8 label))"

definition GB_ALIASES :: "bytes set" where
  "GB_ALIASES = set (map (utf8 \<circ> lit) [''gb18030'', ''gbk'', ''gb2312'', ''cp936'', ''ms936''])"

text \<open>\<^verbatim>\<open>zh_CN.GBK@variant\<close>: what follows the last dot, up to an at sign.\<close>

definition locale_codeset :: "rstr \<Rightarrow> rstr option" where
  "locale_codeset raw =
     (if 46 \<in> set raw then Some (takeWhile (\<lambda>c. c \<noteq> 64) (after_last 46 raw)) else None)"

definition candidate_encoding :: "'e encoding_table \<Rightarrow> rstr \<Rightarrow> 'e option" where
  "candidate_encoding table candidate =
     (if collapse_label candidate = utf8 (lit ''utf8'') then Some (et_utf_8 table)
      else if collapse_label candidate \<in> GB_ALIASES then Some (et_gb18030 table)
      else case et_for_label table (utf8 candidate) of
        None \<Rightarrow> None
      | Some e \<Rightarrow>
          if et_ascii_compatible table e
          then Some (if e = et_gbk table then et_gb18030 table else e)
          else None)"

definition parse_label :: "'e encoding_table \<Rightarrow> rstr \<Rightarrow> 'e" where
  "parse_label table label =
     (if 256 < str_len label then et_utf_8 table
      else if trim label = [] then et_utf_8 table
      else case candidate_encoding table (trim label) of
        Some e \<Rightarrow> e
      | None \<Rightarrow>
          (case Option.bind (locale_codeset (trim label)) (candidate_encoding table) of
             Some e \<Rightarrow> e
           | None \<Rightarrow> et_utf_8 table))"

section \<open>Terminal output\<close>

text \<open>The decoder and encoder of one encoding: \<open>cs_decode d bs final\<close> is \<^verbatim>\<open>decode_to_string\<close>.\<close>

record 'd serial_charset =
  cs_is_utf8 :: bool
  cs_new_decoder :: 'd
  cs_decode :: "'d \<Rightarrow> bytes \<Rightarrow> bool \<Rightarrow> 'd \<times> bytes"
  cs_encode :: "rstr \<Rightarrow> bytes"

record 'd serial_decoder =
  sd_decoder :: 'd
  sd_previous_was_cr :: bool

definition charset_decoder :: "'d serial_charset \<Rightarrow> 'd serial_decoder" where
  "charset_decoder cs = \<lparr>sd_decoder = cs_new_decoder cs, sd_previous_was_cr = False\<rparr>"

fun normalize_line_endings :: "bool \<Rightarrow> bytes \<Rightarrow> bool \<times> bytes" where
  "normalize_line_endings cr [] = (cr, [])"
| "normalize_line_endings cr (b # bs) =
     (case normalize_line_endings (b = 0x0D) bs of
        (cr', out) \<Rightarrow> (cr', (if b = 0x0A \<and> \<not> cr then [0x0D, b] else [b]) @ out))"

definition serial_decode ::
    "'d serial_charset \<Rightarrow> 'd serial_decoder \<Rightarrow> bytes \<Rightarrow> bool \<Rightarrow> 'd serial_decoder \<times> bytes" where
  "serial_decode cs d input final =
     (case cs_decode cs (sd_decoder d) input final of
        (inner, decoded) \<Rightarrow>
          (case normalize_line_endings (sd_previous_was_cr d) decoded of
             (cr, out) \<Rightarrow> (\<lparr>sd_decoder = inner, sd_previous_was_cr = cr\<rparr>, out)))"

section \<open>Terminal input\<close>

definition encode_input :: "'d serial_charset \<Rightarrow> bytes \<Rightarrow> serial_charset_error + bytes" where
  "encode_input cs input =
     (if MAX_INPUT_BYTES < length input then Inl OutputTooLarge
      else case from_utf8 input of
        None \<Rightarrow> Inl InvalidUtf8Input
      | Some content \<Rightarrow>
          if cs_is_utf8 cs then Inr input
          else if MAX_INPUT_BYTES < length (cs_encode cs content) then Inl OutputTooLarge
          else Inr (cs_encode cs content))"

section \<open>Facts\<close>

lemma candidate_encoding_compatible:
  assumes "candidate_encoding table c = Some e"
    and "et_ascii_compatible table (et_utf_8 table)" "et_ascii_compatible table (et_gb18030 table)"
    and "et_gbk table \<notin> {et_utf_8 table, et_gb18030 table}"
  shows "et_ascii_compatible table e \<and> e \<noteq> et_gbk table"
  using assms by (auto simp: candidate_encoding_def split: if_splits option.splits)

lemma normalize_append:
  "normalize_line_endings cr (xs @ ys) =
     (case normalize_line_endings cr xs of
        (cr', out) \<Rightarrow> (case normalize_line_endings cr' ys of (cr'', out') \<Rightarrow> (cr'', out @ out')))"
  by (induction cr xs rule: normalize_line_endings.induct) (auto split: prod.splits)

lemma normalize_state:
  "fst (normalize_line_endings cr xs) = (if xs = [] then cr else last xs = 0x0D)"
  by (induction cr xs rule: normalize_line_endings.induct) (auto split: prod.splits)

text \<open>Every line feed of the output follows a carriage return.\<close>

fun crlf_ok :: "bool \<Rightarrow> bytes \<Rightarrow> bool" where
  "crlf_ok cr [] = True"
| "crlf_ok cr (b # bs) = ((b = 0x0A \<longrightarrow> cr) \<and> crlf_ok (b = 0x0D) bs)"

lemma normalize_crlf: "crlf_ok cr (snd (normalize_line_endings cr xs))"
  by (induction cr xs rule: normalize_line_endings.induct) (auto split: prod.splits)

lemma normalize_id: "crlf_ok cr xs \<Longrightarrow> snd (normalize_line_endings cr xs) = xs"
  by (induction cr xs rule: normalize_line_endings.induct) (auto split: prod.splits)

lemma encode_input_bound: "encode_input cs input = Inr out \<Longrightarrow> length out \<le> MAX_INPUT_BYTES"
  by (auto simp: encode_input_def split: if_splits option.splits)

fun decode_chunks :: "'d serial_charset \<Rightarrow> 'd serial_decoder \<Rightarrow> bytes list \<Rightarrow> bytes" where
  "decode_chunks cs d [] = []"
| "decode_chunks cs d (chunk # chunks) =
     (case serial_decode cs d chunk False of (d', out) \<Rightarrow> out @ decode_chunks cs d' chunks)"

fun raw_chunks :: "'d serial_charset \<Rightarrow> 'd \<Rightarrow> bytes list \<Rightarrow> bytes" where
  "raw_chunks cs d [] = []"
| "raw_chunks cs d (chunk # chunks) =
     (case cs_decode cs d chunk False of (d', out) \<Rightarrow> out @ raw_chunks cs d' chunks)"

lemma decode_chunks_raw:
  "decode_chunks cs d chunks =
     snd (normalize_line_endings (sd_previous_was_cr d) (raw_chunks cs (sd_decoder d) chunks))"
  by (induction cs d chunks rule: decode_chunks.induct)
    (auto simp: serial_decode_def normalize_append split: prod.splits)

section \<open>Properties\<close>

text \<open>C33: Every label selects an encoding that extends ASCII, so the control bytes of a terminal keep
  their meaning, whatever the table of labels answers; GBK is never selected, its superset GB18030
  takes its place.\<close>

theorem parse_label_ascii_compatible:
  assumes "et_ascii_compatible table (et_utf_8 table)" and "et_ascii_compatible table (et_gb18030 table)"
    and "et_gbk table \<notin> {et_utf_8 table, et_gb18030 table}"
  shows "et_ascii_compatible table (parse_label table label) \<and> parse_label table label \<noteq> et_gbk table"
proof -
  note ok = candidate_encoding_compatible [OF _ assms]
  show ?thesis
  proof (cases "candidate_encoding table (trim label)")
    case None
    then show ?thesis
      using assms ok by (auto simp: parse_label_def bind_eq_Some_conv split: option.split)
  next
    case (Some e)
    then show ?thesis using assms ok [OF Some] by (auto simp: parse_label_def)
  qed
qed

definition sample_table :: "nat encoding_table" where
  "sample_table = \<lparr>et_utf_8 = 0, et_gb18030 = 1, et_gbk = 2, et_for_label = (\<lambda>_. Some 2),
     et_ascii_compatible = (\<lambda>e. e < 3)\<rparr>"

theorem parse_label_ascii_compatible_witness:
  "parse_label sample_table (lit ''x'') \<noteq> 2"
  using parse_label_ascii_compatible [of sample_table "lit ''x''"] by (simp add: sample_table_def)

text \<open>Line ends do not depend on how the device's output is cut into reads: the terminal gets the
  normalisation of everything that was decoded, every line feed in it follows a carriage return, and
  text that has that form already is left as it is.\<close>

theorem serial_line_endings:
  "decode_chunks cs (charset_decoder cs) chunks =
     snd (normalize_line_endings False (raw_chunks cs (cs_new_decoder cs) chunks)) \<and>
   crlf_ok False (decode_chunks cs (charset_decoder cs) chunks) \<and>
   (crlf_ok False (raw_chunks cs (cs_new_decoder cs) chunks) \<longrightarrow>
      decode_chunks cs (charset_decoder cs) chunks = raw_chunks cs (cs_new_decoder cs) chunks)"
  by (simp add: decode_chunks_raw charset_decoder_def normalize_crlf normalize_id)

theorem serial_line_endings_witness:
  "decode_chunks \<lparr>cs_is_utf8 = True, cs_new_decoder = (), cs_decode = (\<lambda>d bs _. (d, bs)), cs_encode = utf8\<rparr>
     \<lparr>sd_decoder = (), sd_previous_was_cr = False\<rparr> [[0x61, 0x0D], [0x0A]] = [0x61, 0x0D, 0x0A]"
  using serial_line_endings [of "\<lparr>cs_is_utf8 = True, cs_new_decoder = (),
      cs_decode = (\<lambda>d bs _. (d, bs)), cs_encode = utf8\<rparr>" "[[0x61, 0x0D], [0x0A]]"]
  by (simp add: charset_decoder_def)

end
