(* ===== verification/Serial_Drain.thy ===== *)
theory Serial_Drain
  imports Serial_Config Zmodem_Wire
begin

text \<open>
  The drain that quarantines a serial line after a transfer was aborted, and the deadlines of writes
  (\<^verbatim>\<open>crates/netcatty-serial/src/runtime.rs\<close>: \<^verbatim>\<open>ProtocolAbortDrain\<close>, \<^verbatim>\<open>serial_write_timeout\<close>).  Times are
  milliseconds; acknowledgements are named by numbers.
\<close>

section \<open>Write deadlines\<close>

definition IO_WRITE_TIMEOUT :: nat where "IO_WRITE_TIMEOUT = 10 * 1000"
definition MAX_IO_WRITE_TIMEOUT :: nat where "MAX_IO_WRITE_TIMEOUT = 60 * 60 * 1000"

definition saturating_mul64 :: "nat \<Rightarrow> nat \<Rightarrow> nat" where
  "saturating_mul64 a b = min U64_MAX (a * b)"

definition div_ceil :: "nat \<Rightarrow> nat \<Rightarrow> nat" where
  "div_ceil a b = (if a mod b = 0 then a div b else a div b + 1)"

definition serial_write_timeout :: "nat \<Rightarrow> nat \<Rightarrow> nat" where
  "serial_write_timeout baud_rate n =
     (let baud = max baud_rate 1;
          wire_millis = div_ceil (saturating_mul64 (saturating_mul64 n 12) 1000) baud;
          budget = saturating_add64 (saturating_mul64 wire_millis 2) 5000
      in min MAX_IO_WRITE_TIMEOUT (max IO_WRITE_TIMEOUT budget))"

section \<open>The drain\<close>

definition PROTOCOL_ABORT_DRAIN_IDLE :: nat where "PROTOCOL_ABORT_DRAIN_IDLE = 150"
definition PROTOCOL_ABORT_DRAIN_TIMEOUT :: nat where "PROTOCOL_ABORT_DRAIN_TIMEOUT = 2 * 1000"

record abort_drain =
  ad_token :: nat
  ad_required_can :: nat
  ad_consecutive_can :: nat
  ad_marker_seen :: bool
  ad_idle_deadline :: nat
  ad_hard_deadline :: nat
  ad_finish_acks :: "nat list"

definition with_consecutive_can :: "nat \<Rightarrow> nat \<Rightarrow> nat \<Rightarrow> nat \<Rightarrow> abort_drain" where
  "with_consecutive_can token required consecutive now =
     \<lparr>ad_token = token, ad_required_can = required, ad_consecutive_can = consecutive,
      ad_marker_seen = (required \<le> consecutive),
      ad_idle_deadline = now + PROTOCOL_ABORT_DRAIN_IDLE,
      ad_hard_deadline = now + PROTOCOL_ABORT_DRAIN_TIMEOUT, ad_finish_acks = []\<rparr>"

definition required_can :: "serial_transfer_kind \<Rightarrow> nat" where
  "required_can kind = (case kind of YmodemSend \<Rightarrow> 2 | YmodemReceive \<Rightarrow> 2 | serial_transfer_kind.Zmodem \<Rightarrow> 5)"

definition drain_new :: "nat \<Rightarrow> serial_transfer_kind \<Rightarrow> nat \<Rightarrow> abort_drain" where
  "drain_new token kind now = with_consecutive_can token (required_can kind) 0 now"

definition drain_deadline :: "abort_drain \<Rightarrow> nat" where
  "drain_deadline d = min (ad_idle_deadline d) (ad_hard_deadline d)"

definition drain_attach_finish :: "nat option \<Rightarrow> abort_drain \<Rightarrow> abort_drain" where
  "drain_attach_finish ack d =
     (case ack of None \<Rightarrow> d | Some a \<Rightarrow> d\<lparr>ad_finish_acks := ad_finish_acks d @ [a]\<rparr>)"

definition is_protocol_abort_control :: "byte \<Rightarrow> bool" where
  "is_protocol_abort_control b \<longleftrightarrow>
     b \<in> {ZMODEM_CAN, ZMODEM_BACKSPACE, ZMODEM_XON, 0x13, 0x91, 0x93}"

text \<open>The loop of \<^verbatim>\<open>push\<close>; the counter saturates at 255.\<close>

fun drain_loop :: "abort_drain \<Rightarrow> bytes \<Rightarrow> abort_drain \<times> bytes option" where
  "drain_loop d [] = (d, None)"
| "drain_loop d (b # bs) =
     (if ad_marker_seen d then
        (if is_protocol_abort_control b then drain_loop d bs else (d, Some (b # bs)))
      else
        let can = (if b = ZMODEM_CAN then min 255 (ad_consecutive_can d + 1) else 0)
        in drain_loop (d\<lparr>ad_consecutive_can := can, ad_marker_seen := (ad_required_can d \<le> can)\<rparr>) bs)"

definition drain_push :: "abort_drain \<Rightarrow> bytes \<Rightarrow> nat \<Rightarrow> abort_drain \<times> bytes option" where
  "drain_push d bs now =
     drain_loop (d\<lparr>ad_idle_deadline := min (now + PROTOCOL_ABORT_DRAIN_IDLE) (ad_hard_deadline d)\<rparr>) bs"

section \<open>What the drain returns\<close>

text \<open>The reference: the first run of \<open>n\<close> cancel bytes ends the protocol, control bytes after it are
  skipped.\<close>

fun after_marker :: "nat \<Rightarrow> bytes \<Rightarrow> bytes option" where
  "after_marker n [] = None"
| "after_marker n (b # bs) =
     (if take n (b # bs) = replicate n ZMODEM_CAN then Some (drop n (b # bs)) else after_marker n bs)"

definition abort_tail :: "nat \<Rightarrow> bytes \<Rightarrow> bytes option" where
  "abort_tail n bs =
     (case after_marker n bs of
        None \<Rightarrow> None
      | Some rest \<Rightarrow>
          let tail = dropWhile is_protocol_abort_control rest in if tail = [] then None else Some tail)"

lemma drain_loop_seen:
  "ad_marker_seen d \<Longrightarrow> drain_loop d bs =
     (d, let tail = dropWhile is_protocol_abort_control bs in if tail = [] then None else Some tail)"
  by (induction d bs rule: drain_loop.induct) auto

lemma drain_loop_frame:
  "ad_token (fst (drain_loop d bs)) = ad_token d"
  "ad_required_can (fst (drain_loop d bs)) = ad_required_can d"
  "ad_idle_deadline (fst (drain_loop d bs)) = ad_idle_deadline d"
  "ad_hard_deadline (fst (drain_loop d bs)) = ad_hard_deadline d"
  "ad_finish_acks (fst (drain_loop d bs)) = ad_finish_acks d"
  by (induction d bs rule: drain_loop.induct) (auto simp: Let_def)

lemma drain_loop_append:
  "drain_loop d (xs @ ys) =
     (case drain_loop d xs of
        (d', Some tail) \<Rightarrow> (d', Some (tail @ ys))
      | (d', None) \<Rightarrow> drain_loop d' ys)"
  by (induction d xs rule: drain_loop.induct) (auto simp: Let_def split: option.splits prod.splits)

lemma drain_loop_tail: "drain_loop d bs = (d', Some tail) \<Longrightarrow>
    ad_marker_seen d' \<and> tail \<noteq> [] \<and> \<not> is_protocol_abort_control (hd tail) \<and> (\<exists>pre. bs = pre @ tail)"
  by (induction d bs rule: drain_loop.induct) (auto simp: Let_def split: if_splits)

lemma after_marker_skip:
  "k < n \<Longrightarrow> b \<noteq> ZMODEM_CAN \<Longrightarrow> after_marker n (replicate k ZMODEM_CAN @ b # bs) = after_marker n bs"
proof (induction k)
  case 0
  then show ?case by (cases n) auto
next
  case (Suc k)
  have "take n (replicate (Suc k) ZMODEM_CAN @ b # bs) \<noteq> replicate n ZMODEM_CAN"
  proof
    assume eq: "take n (replicate (Suc k) ZMODEM_CAN @ b # bs) = replicate n ZMODEM_CAN"
    have "take n (replicate (Suc k) ZMODEM_CAN @ b # bs) ! Suc k = b"
      using Suc.prems(1) by (simp add: nth_append)
    moreover have "take n (replicate (Suc k) ZMODEM_CAN @ b # bs) ! Suc k = ZMODEM_CAN"
      unfolding eq using Suc.prems(1) by simp
    ultimately show False using Suc.prems(2) by simp
  qed
  then show ?case using Suc by simp
qed

lemma drain_loop_reference:
  assumes "\<not> ad_marker_seen d" and "ad_consecutive_can d < ad_required_can d" and "ad_required_can d \<le> 255"
  shows "snd (drain_loop d bs) =
      abort_tail (ad_required_can d) (replicate (ad_consecutive_can d) ZMODEM_CAN @ bs) \<and>
    (ad_marker_seen (fst (drain_loop d bs)) \<longleftrightarrow>
      after_marker (ad_required_can d) (replicate (ad_consecutive_can d) ZMODEM_CAN @ bs) \<noteq> None) \<and>
    (\<not> ad_marker_seen (fst (drain_loop d bs)) \<longrightarrow>
      ad_consecutive_can (fst (drain_loop d bs)) < ad_required_can d)"
  using assms
proof (induction d bs rule: drain_loop.induct)
  case (1 d)
  have "after_marker n (replicate k ZMODEM_CAN) = None" if "k < n" for k n
    using that by (induction k) (auto simp: dest: arg_cong [where f = length])
  then show ?case using 1 by (simp add: abort_tail_def)
next
  case (2 d b bs)
  let ?n = "ad_required_can d" and ?k = "ad_consecutive_can d"
  show ?case
  proof (cases "b = ZMODEM_CAN")
    case False
    let ?d = "d\<lparr>ad_consecutive_can := 0, ad_marker_seen := False\<rparr>"
    have "drain_loop d (b # bs) = drain_loop ?d bs" using 2(3,4) False by (simp add: Let_def)
    moreover have "0 < ?n" using 2(4) by simp
    ultimately show ?thesis
      using 2(2) [OF 2(3) refl] 2(3-5) False after_marker_skip [OF 2(4) False, of bs]
      by (simp add: abort_tail_def)
  next
    case True
    have can: "min 255 (?k + 1) = ?k + 1" using 2(4,5) by simp
    let ?d = "d\<lparr>ad_consecutive_can := ?k + 1, ad_marker_seen := (?n \<le> ?k + 1)\<rparr>"
    have loop: "drain_loop d (b # bs) = drain_loop ?d bs" using 2(3) True can by (simp add: Let_def)
    have shift: "replicate ?k ZMODEM_CAN @ b # bs = replicate (?k + 1) ZMODEM_CAN @ bs"
      using True by (simp add: replicate_app_Cons_same)
    show ?thesis
    proof (cases "?n \<le> ?k + 1")
      case False
      have "snd (drain_loop ?d bs) =
            abort_tail ?n (replicate (?k + 1) ZMODEM_CAN @ bs) \<and>
          (ad_marker_seen (fst (drain_loop ?d bs)) \<longleftrightarrow>
            after_marker ?n (replicate (?k + 1) ZMODEM_CAN @ bs) \<noteq> None) \<and>
          (\<not> ad_marker_seen (fst (drain_loop ?d bs)) \<longrightarrow>
            ad_consecutive_can (fst (drain_loop ?d bs)) < ?n)"
        using 2(2) [OF 2(3) refl] 2(3-5) True can False
        by (simp del: replicate_Suc ZMODEM_CAN_def after_marker.simps)
      then show ?thesis unfolding loop shift .
    next
      case seen: True
      then have n: "?n = ?k + 1" using 2(4) by simp
      have "after_marker ?n (replicate (?k + 1) ZMODEM_CAN @ bs) = Some bs"
        by (simp add: n)
      moreover have "drain_loop ?d bs =
          (?d, let tail = dropWhile is_protocol_abort_control bs in if tail = [] then None else Some tail)"
        using seen by (intro drain_loop_seen) simp
      ultimately show ?thesis using seen by (simp only: loop shift) (simp add: abort_tail_def)
    qed
  qed
qed

fun drain_pushes :: "abort_drain \<Rightarrow> (bytes \<times> nat) list \<Rightarrow> abort_drain \<times> bytes option" where
  "drain_pushes d [] = (d, None)"
| "drain_pushes d ((bs, now) # rest) =
     (case drain_push d bs now of
        (d', Some tail) \<Rightarrow> (d', Some (tail @ concat (map fst rest)))
      | (d', None) \<Rightarrow> drain_pushes d' rest)"

lemma drain_loop_idle:
  "drain_loop (d\<lparr>ad_idle_deadline := t\<rparr>) bs =
     (case drain_loop d bs of (d', r) \<Rightarrow> (d'\<lparr>ad_idle_deadline := t\<rparr>, r))"
proof (induction d bs rule: drain_loop.induct)
  case (2 d b bs)
  have out: "d\<lparr>ad_idle_deadline := t, ad_consecutive_can := c, ad_marker_seen := m\<rparr> =
      d\<lparr>ad_consecutive_can := c, ad_marker_seen := m, ad_idle_deadline := t\<rparr>" for c m
    by simp
  show ?case
    using 2 by (cases "ad_marker_seen d"; cases "b = ZMODEM_CAN") (simp_all add: Let_def out del: ZMODEM_CAN_def)
qed simp

lemma drain_pushes_loop:
  "snd (drain_pushes d reads) = snd (drain_loop d (concat (map fst reads)))"
proof (induction reads arbitrary: d)
  case (Cons r reads)
  obtain bs now where r: "r = (bs, now)" by force
  obtain d' tail where loop: "drain_loop d bs = (d', tail)" by force
  have idle: "snd (drain_loop (d'\<lparr>ad_idle_deadline := t\<rparr>) ys) = snd (drain_loop d' ys)" for t ys
    by (simp add: drain_loop_idle case_prod_beta)
  show ?case
    using Cons.IH loop
    by (cases tail) (simp_all add: r drain_push_def drain_loop_idle drain_loop_append case_prod_beta)
qed simp

lemma drain_push_deadline:
  "drain_deadline (fst (drain_push d bs now)) \<le> ad_hard_deadline d"
  "ad_hard_deadline (fst (drain_push d bs now)) = ad_hard_deadline d"
  by (simp_all add: drain_push_def drain_deadline_def drain_loop_frame)

lemma drain_push_token:
  "ad_token (fst (drain_push d bs now)) = ad_token d"
  "ad_finish_acks (fst (drain_push d bs now)) = ad_finish_acks d"
  by (simp_all add: drain_push_def drain_loop_frame)

lemma div_ceil_ge: "0 < b \<Longrightarrow> a \<le> div_ceil a b * b"
proof -
  assume "0 < b"
  then have "a div b * b + a mod b = a" and "a mod b < b" by simp_all
  then have "a \<le> a div b * b + b" by linarith
  moreover have "a mod b = 0 \<Longrightarrow> a = a div b * b" by (metis \<open>a div b * b + a mod b = a\<close> add.right_neutral)
  ultimately show ?thesis by (auto simp: div_ceil_def)
qed

section \<open>Properties\<close>

text \<open>C34: The drain is a stream filter: however the residue of an aborted transfer is cut into reads, what
  returns to the terminal is what follows the first run of cancel bytes of the protocol's length (two
  for YMODEM, five for ZMODEM) and the control bytes after it, it starts with a byte that is no
  control byte, and before that nothing is returned.\<close>

theorem drain_returns_tail:
  "snd (drain_pushes (drain_new token kind now) reads) =
     abort_tail (required_can kind) (concat (map fst reads)) \<and>
   (\<forall>tail. snd (drain_pushes (drain_new token kind now) reads) = Some tail \<longrightarrow>
      tail \<noteq> [] \<and> \<not> is_protocol_abort_control (hd tail))"
proof
  let ?d = "drain_new token kind now"
  have d: "\<not> ad_marker_seen ?d" "ad_consecutive_can ?d = 0" "ad_required_can ?d = required_can kind"
    "required_can kind \<le> 255" "0 < required_can kind"
    by (cases kind; simp add: drain_new_def with_consecutive_can_def required_can_def)+
  show tail: "snd (drain_pushes ?d reads) = abort_tail (required_can kind) (concat (map fst reads))"
    using drain_loop_reference [of ?d "concat (map fst reads)"] d
    by (simp add: drain_pushes_loop)
  show "\<forall>tail. snd (drain_pushes ?d reads) = Some tail \<longrightarrow>
      tail \<noteq> [] \<and> \<not> is_protocol_abort_control (hd tail)"
    using drain_loop_tail [of ?d "concat (map fst reads)"] by (metis drain_pushes_loop prod.collapse)
qed

theorem drain_returns_tail_witness:
  "abort_tail 2 ([0x41, 0x18] @ [0x18, 0x08, 0x24]) = Some [0x24] \<and>
   (24 :: byte) \<noteq> hd [0x24]"
  using drain_returns_tail [of 1 YmodemSend 0 "[([0x41, 0x18], 0), ([0x18, 0x08, 0x24], 1)]"]
  by (simp add: drain_new_def with_consecutive_can_def required_can_def drain_push_def
      is_protocol_abort_control_def)

text \<open>C35: A write deadline is at least ten seconds and at most an hour.  A deadline below the hour leaves
  five seconds beyond twice the time that the bytes take on the wire at twelve bits each (and no
  product overflows on the way).  The hour cuts the deadline of a slow line short: where the bytes
  take more than an hour on the wire, the write is timed out before they can be out.\<close>

theorem serial_write_timeout_bounds:
  "IO_WRITE_TIMEOUT \<le> serial_write_timeout baud n \<and>
   serial_write_timeout baud n \<le> MAX_IO_WRITE_TIMEOUT \<and>
   (12000 * n \<le> U64_MAX \<longrightarrow> serial_write_timeout baud n < MAX_IO_WRITE_TIMEOUT \<longrightarrow>
      2 * (12000 * n) + 5000 * max baud 1 \<le> serial_write_timeout baud n * max baud 1) \<and>
   (MAX_IO_WRITE_TIMEOUT * max baud 1 < 12000 * n \<longrightarrow> serial_write_timeout baud n * max baud 1 < 12000 * n)"
proof -
  let ?baud = "max baud 1"
  let ?wire = "div_ceil (n * 12 * 1000) ?baud"
  have wire: "n * 12 * 1000 \<le> ?wire * ?baud" by (rule div_ceil_ge) simp
  have below: "2 * (12000 * n) + 5000 * ?baud \<le> serial_write_timeout baud n * ?baud"
    if fits: "12000 * n \<le> U64_MAX" and below: "serial_write_timeout baud n < MAX_IO_WRITE_TIMEOUT"
  proof -
    have mul: "saturating_mul64 (saturating_mul64 n 12) 1000 = n * 12 * 1000"
      using fits by (simp add: saturating_mul64_def)
    have "saturating_add64 (saturating_mul64 ?wire 2) 5000 \<le> serial_write_timeout baud n"
      using below by (simp add: serial_write_timeout_def mul Let_def split: if_splits)
    moreover have "2 * ?wire + 5000 \<le> saturating_add64 (saturating_mul64 ?wire 2) 5000"
    proof (rule ccontr)
      assume "\<not> ?thesis"
      then have "U64_MAX \<le> saturating_add64 (saturating_mul64 ?wire 2) 5000"
        by (auto simp: saturating_add64_def saturating_mul64_def min_def split: if_splits)
      with calculation below show False by (simp add: MAX_IO_WRITE_TIMEOUT_def)
    qed
    ultimately have "(2 * ?wire + 5000) * ?baud \<le> serial_write_timeout baud n * ?baud"
      by (intro mult_right_mono) simp_all
    moreover have "(2 * ?wire + 5000) * ?baud = 2 * (?wire * ?baud) + 5000 * ?baud" by (simp add: algebra_simps)
    ultimately show ?thesis using wire by linarith
  qed
  have hour: "IO_WRITE_TIMEOUT \<le> serial_write_timeout baud n \<and> serial_write_timeout baud n \<le> MAX_IO_WRITE_TIMEOUT"
    by (simp add: serial_write_timeout_def Let_def IO_WRITE_TIMEOUT_def MAX_IO_WRITE_TIMEOUT_def)
  then have "serial_write_timeout baud n * ?baud \<le> MAX_IO_WRITE_TIMEOUT * ?baud" by (intro mult_right_mono) simp_all
  then show ?thesis using below hour by (blast intro: le_less_trans)
qed

lemma sample_timeout: "serial_write_timeout 9600 131088 = 332720"
proof -
  have "saturating_mul64 131088 12 = 1573056" by (simp add: saturating_mul64_def)
  moreover have "saturating_mul64 1573056 1000 = 1573056000" by (simp add: saturating_mul64_def)
  moreover have "div_ceil 1573056000 9600 = 163860" by (simp add: div_ceil_def)
  moreover have "saturating_mul64 163860 2 = 327720" by (simp add: saturating_mul64_def)
  moreover have "saturating_add64 327720 5000 = 332720" by (simp add: saturating_add64_def)
  ultimately show ?thesis
    by (simp add: serial_write_timeout_def MAX_IO_WRITE_TIMEOUT_def IO_WRITE_TIMEOUT_def)
qed

theorem serial_write_timeout_bounds_witness:
  "2 * (12000 * 131088) + 5000 * max 9600 1 \<le> serial_write_timeout 9600 131088 * max 9600 1 \<and>
   serial_write_timeout 300 131088 * max 300 1 < 12000 * 131088"
proof -
  have "12000 * 131088 \<le> U64_MAX" by simp
  moreover have "serial_write_timeout 9600 131088 < MAX_IO_WRITE_TIMEOUT"
    unfolding sample_timeout by (simp add: MAX_IO_WRITE_TIMEOUT_def)
  moreover have "MAX_IO_WRITE_TIMEOUT * max 300 1 < 12000 * 131088" by (simp add: MAX_IO_WRITE_TIMEOUT_def)
  ultimately show ?thesis
    using serial_write_timeout_bounds [of 9600 131088] serial_write_timeout_bounds [of 300 131088] by blast
qed

end
