(* ===== verification/Serial_Runtime.thy ===== *)
theory Serial_Runtime
  imports Serial_Charset Serial_Drain Zmodem_Decoder
begin

text \<open>
  One session of the serial runtime (\<^verbatim>\<open>crates/netcatty-serial/src/runtime.rs\<close>): the actor
  \<^verbatim>\<open>run_session\<close>, the client calls of \<^verbatim>\<open>SerialRuntimeManager\<close> and the handle \<^verbatim>\<open>SerialRawTransfer\<close>, running
  concurrently.  The world holds what they share (the command and event channels, the stop signal,
  the two mutexes \<^verbatim>\<open>transfer\<close> and \<^verbatim>\<open>detected_zmodem\<close>, the channel of every transfer), the local state of
  the actor with its program counter, and the calls in progress.  A step executes one critical
  section or one poll of one party: the actor between two awaits, except that the sections of
  consecutive locks on the same token are one step; a list of events is an interleaving.

  Transfers are numbered by their token, which is unbounded here (the atomic counter has 64 bits);
  the random identifier of transfer \<open>t\<close> is \<open>uuid t\<close>, a parameter.  What the port answers is the input of
  the actor's steps.  The fields \<open>sw_handed\<close>, \<open>sw_emitted\<close>, \<open>sw_canceled\<close>, \<open>sw_wire\<close> and \<open>sw_trace\<close> are histories
  that the code does not keep: the transfers handed to a client, the events sent, the transfers
  somebody asked to cancel, the writes that were started with their source and the owner of the line
  at that moment, and where every byte that was read has gone, by its position.
\<close>

section \<open>Configuration\<close>

definition MAX_WINDOW_DIMENSION :: nat where "MAX_WINDOW_DIMENSION = 65535"

record serial_window_size =
  ws_columns :: u16
  ws_rows :: u16

definition window_size_new :: "nat \<Rightarrow> nat \<Rightarrow> serial_runtime_error + serial_window_size" where
  "window_size_new columns rows =
     (if columns = 0 \<or> rows = 0 \<or> MAX_WINDOW_DIMENSION < columns \<or> MAX_WINDOW_DIMENSION < rows
      then Inl (InvalidWindowSize MAX_WINDOW_DIMENSION)
      else Inr \<lparr>ws_columns = of_nat columns, ws_rows = of_nat rows\<rparr>)"

record 'd serial_runtime_config =
  src_serial :: serial_config
  src_charset :: "'d serial_charset"
  src_window_size :: serial_window_size

text \<open>\<^verbatim>\<open>SerialRuntimeConfig::new\<close> with the UTF-8 character set, and \<^verbatim>\<open>with_charset\<close>.\<close>

definition runtime_config_new ::
    "'d serial_charset \<Rightarrow> serial_config \<Rightarrow> nat \<Rightarrow> nat \<Rightarrow> serial_runtime_error + 'd serial_runtime_config" where
  "runtime_config_new utf8_charset serial columns rows =
     (case validate_backend_support serial of
        Inl e \<Rightarrow> Inl (ConfigError e)
      | Inr _ \<Rightarrow>
          (case window_size_new columns rows of
             Inl e \<Rightarrow> Inl e
           | Inr size' \<Rightarrow>
               Inr \<lparr>src_serial = serial, src_charset = utf8_charset, src_window_size = size'\<rparr>))"

definition with_charset :: "'d serial_charset \<Rightarrow> 'd serial_runtime_config \<Rightarrow> 'd serial_runtime_config" where
  "with_charset cs config = config\<lparr>src_charset := cs\<rparr>"

definition OPEN_TIMEOUT :: nat where "OPEN_TIMEOUT = 10 * 1000"
definition ZMODEM_DETECTION_TIMEOUT :: nat where "ZMODEM_DETECTION_TIMEOUT = 15 * 1000"
definition COMMAND_CHANNEL_CAPACITY :: nat where "COMMAND_CHANNEL_CAPACITY = 64"
definition EVENT_CHANNEL_CAPACITY :: nat where "EVENT_CHANNEL_CAPACITY = 128"
definition RAW_TRANSFER_EVENT_CHANNEL_CAPACITY :: nat where "RAW_TRANSFER_EVENT_CHANNEL_CAPACITY = 64"
definition MAX_RAW_TRANSFER_WRITE_BYTES :: nat where "MAX_RAW_TRANSFER_WRITE_BYTES = 2 * 64 * 1024 + 16"
definition READ_BUFFER_BYTES :: nat where "READ_BUFFER_BYTES = 16 * 1024"
definition MAX_EVENT_DATA_BYTES :: nat where "MAX_EVENT_DATA_BYTES = READ_BUFFER_BYTES * 4 + 2"
definition TERMINAL_EVENT_RESERVE :: nat where "TERMINAL_EVENT_RESERVE = 2"

section \<open>Data\<close>

datatype serial_close_reason = Requested | CancelledSession | RemoteEof | ErrorReason

datatype serial_runtime_event =
    Connecting
  | Connected
  | DataEvent bytes
  | ZmodemDetected rstr transfer_direction
  | ErrorEvent serial_runtime_error
  | Closed serial_close_reason

datatype stop_signal = Running | CloseSignal | CancelSignal

datatype runtime_command =
    InputCommand bytes
  | TransferWrite nat bytes nat
  | TransferAbortWrite nat bytes nat
  | EndTransfer nat bytes "nat option"
  | DeclineDetectedZmodem nat transfer_direction

record raw_reservation =
  rr_token :: nat
  rr_transfer_id :: rstr
  rr_kind :: serial_transfer_kind

record detected_transfer =
  dt_token :: nat
  dt_transfer_id :: rstr
  dt_direction :: transfer_direction
  dt_consecutive_can :: nat
  dt_deadline :: nat

text \<open>The channel of a transfer: its event queue, whether the receiving end still exists, and the value of
  its cancel watch.\<close>

record raw_channel =
  rc_events :: "raw_event list"
  rc_open :: bool
  rc_cancel :: bool

text \<open>A \<^verbatim>\<open>SerialRawTransfer\<close> in the hands of a driver.\<close>

record raw_handle =
  rh_kind :: serial_transfer_kind
  rh_cancel_delivered :: bool

text \<open>The control points of the actor.\<close>

datatype actor_pc =
    Starting
  | Opening nat
  | Looping
  | Selecting
  | WritingInput nat
  | TransferWriting nat nat nat nat
  | TransferFlushing nat nat nat
  | AbortWriting nat serial_transfer_kind nat nat nat
  | AbortFlushing nat serial_transfer_kind nat nat
  | UnclaimedWriting nat nat nat
  | UnclaimedFlushing nat nat
  | Routing bytes
  | SendingEvent nat bytes
  | Reserving transfer_direction bytes
  | ClosingFlush nat
  | ShuttingDown nat
  | Leaving
  | LeavingDetected
  | Unregistering
  | Ended

text \<open>Calls of the clients, and a call in progress.\<close>

datatype client_call =
    CallInput bytes
  | CallBegin serial_transfer_kind
  | CallClaim rstr transfer_direction
  | CallDecline rstr transfer_direction
  | CallActiveKind
  | CallCancelExact rstr
  | CallResize nat nat
  | CallWindowSize
  | CallClose
  | CallCancel
  | CallWrite nat bytes
  | CallAbort nat bytes
  | CallFinish nat bytes

datatype client_value =
    ValUnit
  | ValTransfer nat
  | ValKind "serial_transfer_kind option"
  | ValWindow serial_window_size

datatype client_task =
    TaskIdle
  | ClaimLooked nat rstr transfer_direction
  | DeclineLooked nat rstr transfer_direction
  | DeclineChecked nat transfer_direction
  | SendWaiting runtime_command nat
  | AwaitingAck nat
  | FinishWaiting nat bytes nat
  | FinishAwaiting nat nat
  | TaskDone "serial_runtime_error + client_value"

text \<open>Where the bytes have gone: given to the terminal's decoder, sent to a transfer, dropped, held by the
  sentry, or in the actor's hands.  The terminal also gets bytes that a finished transfer returns; they
  have no position.\<close>

record byte_trace =
  bt_read :: bytes
  bt_shown :: "(nat option \<times> byte) list"
  bt_sent :: "(nat \<times> nat) list"
  bt_dropped :: "nat list"
  bt_held :: "nat list"
  bt_flight :: "nat list"

record 'd serial_world =
  sw_now :: nat
  sw_registered :: bool
  sw_stop :: stop_signal
  sw_commands :: "runtime_command list"
  sw_commands_open :: bool
  sw_events :: "serial_runtime_event list"
  sw_events_open :: bool
  sw_window :: serial_window_size
  sw_reservation :: "raw_reservation option"
  sw_detected :: "detected_transfer option"
  sw_next_token :: nat
  sw_channels :: "nat \<Rightarrow> raw_channel"
  sw_handles :: "nat \<Rightarrow> raw_handle option"
  sw_acks :: "nat \<Rightarrow> (serial_runtime_error + unit) option"
  sw_next_ack :: nat
  sw_tasks :: "nat \<Rightarrow> client_task"
  sw_pc :: actor_pc
  sw_decoder :: "'d serial_decoder"
  sw_sentry :: bytes
  sw_drain :: "abort_drain option"
  sw_handed :: "nat list"
  sw_emitted :: "serial_runtime_event list"
  sw_canceled :: "nat set"
  sw_wire :: "(nat option \<times> nat option \<times> bytes) list"
  sw_trace :: byte_trace

section \<open>Channels and locks\<close>

definition reservation_matches :: "nat \<Rightarrow> 'd serial_world \<Rightarrow> bool" where
  "reservation_matches t w \<longleftrightarrow> map_option rr_token (sw_reservation w) = Some t"

definition set_channel :: "nat \<Rightarrow> (raw_channel \<Rightarrow> raw_channel) \<Rightarrow> 'd serial_world \<Rightarrow> 'd serial_world" where
  "set_channel t f w = w\<lparr>sw_channels := (sw_channels w)(t := f (sw_channels w t))\<rparr>"

text \<open>The receiving end of a transfer's channel is dropped.\<close>

definition close_channel :: "nat \<Rightarrow> 'd serial_world \<Rightarrow> 'd serial_world" where
  "close_channel t w = set_channel t (\<lambda>c. c\<lparr>rc_open := False\<rparr>) w"

definition signal_cancel :: "nat \<Rightarrow> 'd serial_world \<Rightarrow> 'd serial_world" where
  "signal_cancel t w =
     (set_channel t (\<lambda>c. c\<lparr>rc_cancel := True\<rparr>) w)\<lparr>sw_canceled := insert t (sw_canceled w)\<rparr>"

definition release_transfer :: "nat \<Rightarrow> 'd serial_world \<Rightarrow> 'd serial_world" where
  "release_transfer t w = (if reservation_matches t w then w\<lparr>sw_reservation := None\<rparr> else w)"

definition release_detected_zmodem :: "nat \<Rightarrow> 'd serial_world \<Rightarrow> 'd serial_world" where
  "release_detected_zmodem t w =
     (if map_option dt_token (sw_detected w) = Some t
      then close_channel t (w\<lparr>sw_detected := None\<rparr>) else w)"

text \<open>\<^verbatim>\<open>*detected = None\<close>: what was pending is dropped with its receiver.\<close>

definition drop_detected :: "'d serial_world \<Rightarrow> 'd serial_world" where
  "drop_detected w =
     (case sw_detected w of
        None \<Rightarrow> w
      | Some p \<Rightarrow> close_channel (dt_token p) (w\<lparr>sw_detected := None\<rparr>))"

definition expire_pending_zmodem :: "'d serial_world \<Rightarrow> nat option" where
  "expire_pending_zmodem w =
     (case sw_detected w of
        None \<Rightarrow> None
      | Some p \<Rightarrow>
          if sw_now w < dt_deadline p \<or> \<not> reservation_matches (dt_token p) w then None
          else Some (dt_token p))"

definition decline_pending_zmodem :: "nat \<Rightarrow> transfer_direction \<Rightarrow> 'd serial_world \<Rightarrow> bool" where
  "decline_pending_zmodem t direction w \<longleftrightarrow>
     reservation_matches t w \<and>
     (case sw_detected w of
        None \<Rightarrow> False
      | Some p \<Rightarrow> dt_token p = t \<and> dt_direction p = direction)"

definition release_abandoned_transfer :: "nat option \<Rightarrow> 'd serial_world \<Rightarrow> nat option" where
  "release_abandoned_transfer protected w =
     (case sw_reservation w of
        None \<Rightarrow> None
      | Some r \<Rightarrow>
          if \<not> rc_open (sw_channels w (rr_token r)) \<and> Some (rr_token r) \<noteq> protected
          then Some (rr_token r) else None)"

section \<open>Positions of the bytes\<close>

definition trace_read :: "bytes \<Rightarrow> byte_trace \<Rightarrow> byte_trace" where
  "trace_read bs tr = tr\<lparr>bt_read := bt_read tr @ bs,
     bt_flight := bt_flight tr @ [length (bt_read tr) ..< length (bt_read tr) + length bs]\<rparr>"

definition trace_drop_held :: "byte_trace \<Rightarrow> byte_trace" where
  "trace_drop_held tr = tr\<lparr>bt_dropped := bt_dropped tr @ bt_held tr, bt_held := []\<rparr>"

text \<open>All but the last \<open>n\<close> bytes in the actor's hands are dropped.\<close>

definition trace_drop_but :: "nat \<Rightarrow> byte_trace \<Rightarrow> byte_trace" where
  "trace_drop_but n tr =
     tr\<lparr>bt_dropped := bt_dropped tr @ take (length (bt_flight tr) - n) (bt_flight tr),
        bt_flight := drop (length (bt_flight tr) - n) (bt_flight tr)\<rparr>"

definition trace_send :: "nat \<Rightarrow> byte_trace \<Rightarrow> byte_trace" where
  "trace_send t tr = tr\<lparr>bt_sent := bt_sent tr @ map (Pair t) (bt_flight tr), bt_flight := []\<rparr>"

text \<open>Bytes at the positions \<open>ps\<close> go to the terminal, or bytes without a position.\<close>

definition trace_show :: "nat list \<Rightarrow> bytes \<Rightarrow> byte_trace \<Rightarrow> byte_trace" where
  "trace_show ps bs tr = tr\<lparr>bt_shown := bt_shown tr @ zip (map Some ps) bs\<rparr>"

definition trace_show_returned :: "bytes \<Rightarrow> byte_trace \<Rightarrow> byte_trace" where
  "trace_show_returned bs tr = tr\<lparr>bt_shown := bt_shown tr @ map (Pair None) bs\<rparr>"

definition trace_show_held :: "bytes \<Rightarrow> byte_trace \<Rightarrow> byte_trace" where
  "trace_show_held bs tr = (trace_show (bt_held tr) bs tr)\<lparr>bt_held := []\<rparr>"

definition trace_show_flight :: "bytes \<Rightarrow> byte_trace \<Rightarrow> byte_trace" where
  "trace_show_flight bs tr = (trace_show (bt_flight tr) bs tr)\<lparr>bt_flight := []\<rparr>"

text \<open>The sentry passes its first bytes on, gives the next \<open>n\<close> back, and holds the rest.\<close>

definition trace_sentry :: "bytes \<Rightarrow> nat \<Rightarrow> byte_trace \<Rightarrow> byte_trace" where
  "trace_sentry passed n tr =
     (let positions = bt_held tr @ bt_flight tr; m = length passed
      in (trace_show (take m positions) passed tr)
           \<lparr>bt_flight := take n (drop m positions), bt_held := drop (m + n) positions\<rparr>)"

definition on_trace :: "(byte_trace \<Rightarrow> byte_trace) \<Rightarrow> 'd serial_world \<Rightarrow> 'd serial_world" where
  "on_trace f w = w\<lparr>sw_trace := f (sw_trace w)\<rparr>"

section \<open>The event channel\<close>

definition at_pc :: "actor_pc \<Rightarrow> 'd serial_world \<Rightarrow> 'd serial_world" where
  "at_pc pc w = w\<lparr>sw_pc := pc\<rparr>"

definition try_emit :: "serial_runtime_event \<Rightarrow> 'd serial_world \<Rightarrow> 'd serial_world" where
  "try_emit event w =
     (if sw_events_open w \<and> length (sw_events w) < EVENT_CHANNEL_CAPACITY
      then w\<lparr>sw_events := sw_events w @ [event], sw_emitted := sw_emitted w @ [event]\<rparr> else w)"

definition emit_closed :: "serial_close_reason \<Rightarrow> 'd serial_world \<Rightarrow> 'd serial_world" where
  "emit_closed reason w = try_emit (Closed reason) w"

definition finish_error :: "serial_runtime_error \<Rightarrow> 'd serial_world \<Rightarrow> 'd serial_world" where
  "finish_error e w = emit_closed ErrorReason (try_emit (ErrorEvent e) w)"

definition finish_stopped :: "stop_signal \<Rightarrow> 'd serial_world \<Rightarrow> 'd serial_world" where
  "finish_stopped signal w =
     (case signal of
        Running \<Rightarrow> w
      | CloseSignal \<Rightarrow> emit_closed Requested w
      | CancelSignal \<Rightarrow> emit_closed CancelledSession w)"

text \<open>The actor is the only sender, so the final \<^verbatim>\<open>try_send\<close> finds the slot that was counted.\<close>

definition emit_regular :: "serial_runtime_event \<Rightarrow> 'd serial_world \<Rightarrow> 'd serial_world \<times> bool" where
  "emit_regular event w =
     (if \<not> sw_events_open w then (w, False)
      else if EVENT_CHANNEL_CAPACITY - length (sw_events w) \<le> TERMINAL_EVENT_RESERVE
      then (finish_error (EventQueueFull EVENT_CHANNEL_CAPACITY) w, False)
      else (try_emit event w, True))"

definition emit_data :: "bytes \<Rightarrow> 'd serial_world \<Rightarrow> 'd serial_world \<times> bool" where
  "emit_data decoded w =
     (if MAX_EVENT_DATA_BYTES < length decoded
      then (finish_error (EventDataTooLarge MAX_EVENT_DATA_BYTES) w, False)
      else emit_regular (DataEvent decoded) w)"

text \<open>\<^verbatim>\<open>decoder.decode\<close> followed by \<^verbatim>\<open>emit_data\<close> unless nothing came out, and \<^verbatim>\<open>return\<close> where it fails.\<close>

definition terminal_feed :: "'d serial_charset \<Rightarrow> bytes \<Rightarrow> 'd serial_world \<Rightarrow> 'd serial_world \<times> bool" where
  "terminal_feed cs bs w =
     (if bs = [] then (w, True)
      else case serial_decode cs (sw_decoder w) bs False of
        (d, out) \<Rightarrow> if out = [] then (w\<lparr>sw_decoder := d\<rparr>, True) else emit_data out (w\<lparr>sw_decoder := d\<rparr>))"

definition continue_or_leave :: "'d serial_world \<times> bool \<Rightarrow> actor_pc \<Rightarrow> 'd serial_world" where
  "continue_or_leave r pc = (case r of (w, ok) \<Rightarrow> at_pc (if ok then pc else Leaving) w)"

section \<open>Acknowledgements and interruptible input and output\<close>

definition acknowledge :: "serial_runtime_error + unit \<Rightarrow> nat list \<Rightarrow> 'd serial_world \<Rightarrow> 'd serial_world" where
  "acknowledge result acks w =
     w\<lparr>sw_acks := (\<lambda>a. if a \<in> set acks then Some result else sw_acks w a)\<rparr>"

datatype io_failure = RuntimeFailure serial_runtime_error | Stopped stop_signal | EventReceiverClosed

definition interruptible_serial_io ::
    "serial_io_operation \<Rightarrow> nat \<Rightarrow> (serial_error_kind + unit) option \<Rightarrow> 'd serial_world \<Rightarrow>
       (io_failure + unit) option" where
  "interruptible_serial_io operation deadline answer w =
     (if sw_stop w \<noteq> Running then Some (Inl (Stopped (sw_stop w)))
      else if \<not> sw_events_open w then Some (Inl EventReceiverClosed)
      else if deadline \<le> sw_now w then Some (Inl (RuntimeFailure (IoFailed operation TimedOutKind)))
      else map_option (map_sum (\<lambda>kind. RuntimeFailure (IoFailed operation kind)) id) answer)"

text \<open>The watch of a transfer that is no longer reserved has lost its sender.\<close>

definition interruptible_transfer_io ::
    "serial_io_operation \<Rightarrow> nat \<Rightarrow> nat \<Rightarrow> (serial_error_kind + unit) option \<Rightarrow> 'd serial_world \<Rightarrow>
       (io_failure + unit) option" where
  "interruptible_transfer_io operation t deadline answer w =
     (if rc_cancel (sw_channels w t) then Some (Inl (RuntimeFailure TransferCancelled))
      else if \<not> reservation_matches t w then Some (Inl (RuntimeFailure TransferNotActive))
      else interruptible_serial_io operation deadline answer w)"

definition finish_interruptible_failure :: "io_failure \<Rightarrow> 'd serial_world \<Rightarrow> 'd serial_world" where
  "finish_interruptible_failure failure w =
     (case failure of
        RuntimeFailure e \<Rightarrow> finish_error e w
      | Stopped signal \<Rightarrow> finish_stopped signal w
      | EventReceiverClosed \<Rightarrow> w)"

definition transfer_io_error :: "io_failure \<Rightarrow> serial_runtime_error" where
  "transfer_io_error failure =
     (case failure of RuntimeFailure e \<Rightarrow> e | _ \<Rightarrow> SessionClosing)"

text \<open>The answer of a transfer's write, and what the actor does after it.\<close>

definition conclude_write ::
    "serial_runtime_error list \<Rightarrow> nat \<Rightarrow> serial_runtime_error + unit \<Rightarrow> 'd serial_world \<Rightarrow> 'd serial_world" where
  "conclude_write harmless ack result w =
     (let w = acknowledge result [ack] w
      in case result of
           Inr _ \<Rightarrow> at_pc Looping w
         | Inl e \<Rightarrow>
             if e = SessionClosing then at_pc Leaving (finish_stopped (sw_stop w) w)
             else if e \<in> set harmless then at_pc Looping w
             else at_pc Leaving (finish_error e w))"

section \<open>The actor\<close>

record actor_input =
  ai_open :: "(serial_runtime_error + unit) option"
  ai_io :: "(serial_error_kind + unit) option"
  ai_read :: "(serial_error_kind + bytes) option"

text \<open>The local state that follows every change of ownership: a fresh decoder, an empty sentry.\<close>

definition reset_decoder :: "'d serial_charset \<Rightarrow> 'd serial_world \<Rightarrow> 'd serial_world" where
  "reset_decoder cs w = w\<lparr>sw_decoder := charset_decoder cs\<rparr>"

definition discard_sentry :: "'d serial_world \<Rightarrow> 'd serial_world" where
  "discard_sentry w = on_trace trace_drop_held (w\<lparr>sw_sentry := []\<rparr>)"

definition show_sentry :: "'d serial_charset \<Rightarrow> 'd serial_world \<Rightarrow> 'd serial_world \<times> bool" where
  "show_sentry cs w = terminal_feed cs (sw_sentry w) (on_trace (trace_show_held (sw_sentry w)) (w\<lparr>sw_sentry := []\<rparr>))"

definition complete_protocol_abort_drain ::
    "'d serial_charset \<Rightarrow> abort_drain \<Rightarrow> bytes \<Rightarrow> 'd serial_world \<Rightarrow> 'd serial_world \<times> bool" where
  "complete_protocol_abort_drain cs d tail w =
     (let w = release_detected_zmodem (ad_token d) (release_transfer (ad_token d) w);
          w = discard_sentry (reset_decoder cs w)
      in case terminal_feed cs tail (on_trace (trace_show_flight tail) w) of
           (w, False) \<Rightarrow> (w, False)
         | (w, True) \<Rightarrow> (acknowledge (Inr ()) (ad_finish_acks d) w, True))"

definition loop_head :: "'d serial_charset \<Rightarrow> 'd serial_world \<Rightarrow> 'd serial_world" where
  "loop_head cs w =
     (case (case sw_drain w of
              Some d \<Rightarrow>
                if drain_deadline d \<le> sw_now w
                then complete_protocol_abort_drain cs d [] (w\<lparr>sw_drain := None\<rparr>) else (w, True)
            | None \<Rightarrow> (w, True)) of
        (w, False) \<Rightarrow> at_pc Leaving w
      | (w, True) \<Rightarrow>
          (case release_abandoned_transfer (map_option ad_token (sw_drain w)) w of
             None \<Rightarrow> at_pc Selecting w
           | Some t \<Rightarrow>
               continue_or_leave
                 (show_sentry cs (release_detected_zmodem t (reset_decoder cs (w\<lparr>sw_reservation := None\<rparr>))))
                 Selecting))"

text \<open>A write to the port begins, for a transfer or (\<open>None\<close>) for the terminal.\<close>

definition start_write :: "nat option \<Rightarrow> bytes \<Rightarrow> 'd serial_world \<Rightarrow> 'd serial_world" where
  "start_write source bs w =
     w\<lparr>sw_wire := sw_wire w @ [(source, map_option rr_token (sw_reservation w), bs)]\<rparr>"

text \<open>Write and flush have a timeout of their own each.\<close>

definition start_unclaimed_abort :: "'d serial_charset \<Rightarrow> nat \<Rightarrow> nat \<Rightarrow> 'd serial_world \<Rightarrow> 'd serial_world" where
  "start_unclaimed_abort cs baud t w =
     (let timeout = serial_write_timeout baud (length ZMODEM_CANCEL_SEQUENCE)
      in at_pc (UnclaimedWriting t timeout (sw_now w + timeout))
           (start_write (Some t) ZMODEM_CANCEL_SEQUENCE (discard_sentry (reset_decoder cs (drop_detected w)))))"

definition end_transfer ::
    "'d serial_charset \<Rightarrow> nat \<Rightarrow> bytes \<Rightarrow> nat option \<Rightarrow> 'd serial_world \<Rightarrow> 'd serial_world" where
  "end_transfer cs t terminal_bytes ack w =
     (let finished = (\<lambda>w. acknowledge (Inr ()) (case ack of None \<Rightarrow> [] | Some a \<Rightarrow> [a]) (at_pc Looping w))
      in if \<not> reservation_matches t w then finished w
         else case show_sentry cs (reset_decoder cs (release_detected_zmodem t (release_transfer t w))) of
           (w, False) \<Rightarrow> at_pc Leaving w
         | (w, True) \<Rightarrow>
             (case terminal_feed cs terminal_bytes (on_trace (trace_show_returned terminal_bytes) w) of
                (w, False) \<Rightarrow> at_pc Leaving w
              | (w, True) \<Rightarrow> finished w))"

definition run_command :: "'d serial_charset \<Rightarrow> nat \<Rightarrow> runtime_command \<Rightarrow> 'd serial_world \<Rightarrow> 'd serial_world" where
  "run_command cs baud command w =
     (case command of
        InputCommand bs \<Rightarrow>
          if sw_reservation w \<noteq> None then at_pc Looping w
          else at_pc (WritingInput (sw_now w + serial_write_timeout baud (length bs))) (start_write None bs w)
      | TransferWrite t bs ack \<Rightarrow>
          if reservation_matches t w
          then let timeout = serial_write_timeout baud (length bs)
               in at_pc (TransferWriting t ack timeout (sw_now w + timeout)) (start_write (Some t) bs w)
          else conclude_write [TransferNotActive, TransferCancelled] ack (Inl TransferNotActive) w
      | TransferAbortWrite t bs ack \<Rightarrow>
          (case sw_reservation w of
             Some r \<Rightarrow>
               if rr_token r = t
               then let timeout = serial_write_timeout baud (length bs)
                    in at_pc (AbortWriting t (rr_kind r) ack timeout (sw_now w + timeout)) (start_write (Some t) bs w)
               else conclude_write [TransferNotActive] ack (Inl TransferNotActive) w
           | None \<Rightarrow> conclude_write [TransferNotActive] ack (Inl TransferNotActive) w)
      | EndTransfer t terminal_bytes ack \<Rightarrow>
          (case sw_drain w of
             Some d \<Rightarrow>
               if ad_token d = t then at_pc Looping (w\<lparr>sw_drain := Some (drain_attach_finish ack d)\<rparr>)
               else end_transfer cs t terminal_bytes ack w
           | None \<Rightarrow> end_transfer cs t terminal_bytes ack w)
      | DeclineDetectedZmodem t direction \<Rightarrow>
          if decline_pending_zmodem t direction w then start_unclaimed_abort cs baud t w
          else at_pc Looping w)"

text \<open>A protocol that ended by the peer's cancel marker: the drain is complete if a byte for the terminal
  follows already, else it starts.\<close>

definition quarantine ::
    "'d serial_charset \<Rightarrow> abort_drain \<Rightarrow> bytes option \<Rightarrow> 'd serial_world \<Rightarrow> 'd serial_world" where
  "quarantine cs d tail w =
     (case tail of
        Some tail \<Rightarrow>
          continue_or_leave (complete_protocol_abort_drain cs d tail
            (on_trace (trace_drop_but (length tail)) w)) Looping
      | None \<Rightarrow> at_pc Looping (on_trace (trace_drop_but 0) (w\<lparr>sw_drain := Some d\<rparr>)))"

text \<open>What a read delivers: first the drain, then a pending detection, else a route is looked up.\<close>

definition receive_bytes :: "'d serial_charset \<Rightarrow> bytes \<Rightarrow> 'd serial_world \<Rightarrow> 'd serial_world" where
  "receive_bytes cs bs w =
     (let w = on_trace (trace_read bs) w
      in case sw_drain w of
           Some d \<Rightarrow>
             (case drain_push d bs (sw_now w) of
                (d, None) \<Rightarrow> at_pc Looping (on_trace (trace_drop_but 0) (w\<lparr>sw_drain := Some d\<rparr>))
              | (d, Some tail) \<Rightarrow>
                  continue_or_leave (complete_protocol_abort_drain cs d tail
                    (on_trace (trace_drop_but (length tail)) (w\<lparr>sw_drain := None\<rparr>))) Looping)
         | None \<Rightarrow>
             (case sw_detected w of
                None \<Rightarrow> at_pc (Routing bs) w
              | Some p \<Rightarrow>
                  (case drain_push (with_consecutive_can (dt_token p) 5 (dt_consecutive_can p) (sw_now w))
                          bs (sw_now w) of
                     (d, tail) \<Rightarrow>
                       if \<not> ad_marker_seen d
                       then at_pc (Routing bs)
                              (w\<lparr>sw_detected := Some (p\<lparr>dt_consecutive_can := ad_consecutive_can d\<rparr>)\<rparr>)
                       else quarantine cs d tail (drop_detected w))))"

text \<open>\<^verbatim>\<open>active_transfer_events\<close>, and the sentry where no transfer is active.\<close>

definition watch_terminal :: "'d serial_charset \<Rightarrow> bytes \<Rightarrow> 'd serial_world \<Rightarrow> 'd serial_world" where
  "watch_terminal cs bs w =
     (case sentry_push (sw_sentry w) bs of
        (input, Inl _) \<Rightarrow>
          at_pc Leaving (finish_error (EventDataTooLarge MAX_EVENT_DATA_BYTES)
            (on_trace (trace_drop_but 0) (on_trace trace_drop_held (w\<lparr>sw_sentry := input\<rparr>))))
      | (input, Inr out) \<Rightarrow>
          (case so_detected out of
             None \<Rightarrow>
               continue_or_leave (terminal_feed cs (so_passthrough out)
                 (on_trace (trace_sentry (so_passthrough out) 0) (w\<lparr>sw_sentry := input\<rparr>))) Looping
           | Some det \<Rightarrow>
               continue_or_leave (terminal_feed cs (so_passthrough out)
                 (on_trace (trace_sentry (so_passthrough out) (length (det_protocol_bytes det)))
                    (w\<lparr>sw_sentry := input\<rparr>)))
                 (Reserving (det_direction det) (det_protocol_bytes det))))"

definition route_bytes :: "'d serial_charset \<Rightarrow> bytes \<Rightarrow> 'd serial_world \<Rightarrow> 'd serial_world" where
  "route_bytes cs bs w =
     (case sw_reservation w of
        Some r \<Rightarrow>
          if rc_open (sw_channels w (rr_token r)) then at_pc (SendingEvent (rr_token r) bs) w
          else watch_terminal cs bs (w\<lparr>sw_reservation := None\<rparr>)
      | None \<Rightarrow> watch_terminal cs bs w)"

definition send_transfer_event :: "nat \<Rightarrow> bytes \<Rightarrow> 'd serial_world \<Rightarrow> 'd serial_world" where
  "send_transfer_event t bs w =
     (let c = sw_channels w t
      in if \<not> rc_open c then at_pc Leaving (finish_error TransferNotActive w)
         else if RAW_TRANSFER_EVENT_CHANNEL_CAPACITY \<le> length (rc_events c)
         then at_pc Leaving (finish_error (TransferEventQueueFull RAW_TRANSFER_EVENT_CHANNEL_CAPACITY) w)
         else at_pc Looping (on_trace (trace_send t)
                (set_channel t (\<lambda>c. c\<lparr>rc_events := rc_events c @ [RawData bs]\<rparr>) w)))"

definition reserve_detected_zmodem ::
    "'d serial_charset \<Rightarrow> (nat \<Rightarrow> rstr) \<Rightarrow> transfer_direction \<Rightarrow> bytes \<Rightarrow> 'd serial_world \<Rightarrow> 'd serial_world" where
  "reserve_detected_zmodem cs uuid direction bs w =
     (case sw_reservation w of
        Some r \<Rightarrow> at_pc (SendingEvent (rr_token r) bs) w
      | None \<Rightarrow>
          let t = sw_next_token w;
              w = w\<lparr>sw_next_token := t + 1,
                    sw_reservation := Some \<lparr>rr_token = t, rr_transfer_id = uuid t, rr_kind = serial_transfer_kind.Zmodem\<rparr>\<rparr>
          in case drain_push (with_consecutive_can t 5 0 (sw_now w)) bs (sw_now w) of
               (d, tail) \<Rightarrow>
                 if ad_marker_seen d
                 then quarantine cs d tail
                        (set_channel t (\<lambda>_. \<lparr>rc_events = [], rc_open = False, rc_cancel = False\<rparr>) w)
                 else
                   continue_or_leave (emit_regular (ZmodemDetected (uuid t) direction)
                     (on_trace (trace_send t)
                       (set_channel t (\<lambda>_. \<lparr>rc_events = [RawData bs], rc_open = True, rc_cancel = False\<rparr>)
                         (w\<lparr>sw_detected := Some \<lparr>dt_token = t, dt_transfer_id = uuid t,
                              dt_direction = direction, dt_consecutive_can = ad_consecutive_can d,
                              dt_deadline = sw_now w + ZMODEM_DETECTION_TIMEOUT\<rparr>\<rparr>)))) Looping)"

text \<open>\<^verbatim>\<open>protocol_abort_drain = Some(...)\<close>: who waited for the previous drain is told that the session closes,
  because the senders of the acknowledgements are dropped.\<close>

definition replace_drain :: "abort_drain \<Rightarrow> 'd serial_world \<Rightarrow> 'd serial_world" where
  "replace_drain d w =
     (case sw_drain w of
        None \<Rightarrow> w\<lparr>sw_drain := Some d\<rparr>
      | Some old \<Rightarrow> acknowledge (Inl SessionClosing) (ad_finish_acks old) (w\<lparr>sw_drain := Some d\<rparr>))"

text \<open>\<^verbatim>\<open>tokio::time::timeout\<close> polls the operation before its timer.\<close>

definition shutdown_io ::
    "nat \<Rightarrow> (serial_error_kind + unit) option \<Rightarrow> 'd serial_world \<Rightarrow> (serial_runtime_error + unit) option" where
  "shutdown_io deadline answer w =
     (case answer of
        Some r \<Rightarrow> Some (map_sum (IoFailed FlushPort) id r)
      | None \<Rightarrow> if deadline \<le> sw_now w then Some (Inl (IoFailed FlushPort TimedOutKind)) else None)"

definition remote_eof :: "'d serial_charset \<Rightarrow> 'd serial_world \<Rightarrow> 'd serial_world" where
  "remote_eof cs w =
     (case serial_decode cs (sw_decoder w) (sw_sentry w) False of
        (d, out) \<Rightarrow>
          (case serial_decode cs d [] True of
             (d, rest) \<Rightarrow>
               let w = on_trace (trace_show_held (sw_sentry w)) (w\<lparr>sw_sentry := [], sw_decoder := d\<rparr>)
               in case (if out @ rest = [] then (w, True) else emit_data (out @ rest) w) of
                    (w, False) \<Rightarrow> at_pc Leaving w
                  | (w, True) \<Rightarrow> at_pc Leaving (emit_closed RemoteEof w)))"

text \<open>The biased \<^verbatim>\<open>select!\<close>: the first branch that is ready is taken.  A session in the registry keeps a
  sender of the command channel, so its \<^verbatim>\<open>recv\<close> never yields \<^verbatim>\<open>None\<close>.\<close>

definition select_branch ::
    "'d serial_charset \<Rightarrow> nat \<Rightarrow> actor_input \<Rightarrow> 'd serial_world \<Rightarrow> 'd serial_world" where
  "select_branch cs baud input w =
     (case sw_stop w of
        CloseSignal \<Rightarrow> at_pc (ClosingFlush (sw_now w + IO_WRITE_TIMEOUT)) w
      | CancelSignal \<Rightarrow> at_pc Leaving (emit_closed CancelledSession w)
      | Running \<Rightarrow>
          if \<not> sw_events_open w then at_pc Leaving w
          else case (case sw_drain w of
                       Some d \<Rightarrow> if drain_deadline d \<le> sw_now w then Some d else None | None \<Rightarrow> None) of
            Some d \<Rightarrow>
              continue_or_leave (complete_protocol_abort_drain cs d [] (w\<lparr>sw_drain := None\<rparr>)) Looping
          | None \<Rightarrow>
              (case expire_pending_zmodem w of
                 Some t \<Rightarrow> start_unclaimed_abort cs baud t w
               | None \<Rightarrow>
                   (case sw_commands w of
                      command # rest \<Rightarrow> run_command cs baud command (w\<lparr>sw_commands := rest\<rparr>)
                    | [] \<Rightarrow>
                        (case ai_read input of
                           None \<Rightarrow> w
                         | Some (Inl kind) \<Rightarrow> at_pc Leaving (finish_error (IoFailed ReadPort kind) w)
                         | Some (Inr bs) \<Rightarrow>
                             if bs = [] then remote_eof cs w
                             else receive_bytes cs (take READ_BUFFER_BYTES bs) w))))"

text \<open>The actor between two awaits.\<close>

definition actor_step ::
    "'d serial_charset \<Rightarrow> (nat \<Rightarrow> rstr) \<Rightarrow> nat \<Rightarrow> actor_input \<Rightarrow> 'd serial_world \<Rightarrow> 'd serial_world" where
  "actor_step cs uuid baud input w =
     (case sw_pc w of
        Starting \<Rightarrow> continue_or_leave (emit_regular Connecting w) (Opening (sw_now w + OPEN_TIMEOUT))
      | Opening deadline \<Rightarrow>
          if sw_stop w \<noteq> Running then at_pc Leaving (finish_stopped (sw_stop w) w)
          else if \<not> sw_events_open w then at_pc Leaving w
          else if deadline \<le> sw_now w then at_pc Leaving (finish_error (OpenTimeout OPEN_TIMEOUT) w)
          else (case ai_open input of
                  None \<Rightarrow> w
                | Some (Inl e) \<Rightarrow> at_pc Leaving (finish_error e w)
                | Some (Inr _) \<Rightarrow> continue_or_leave (emit_regular Connected w) Looping)
      | Looping \<Rightarrow> loop_head cs w
      | Selecting \<Rightarrow> select_branch cs baud input w
      | WritingInput deadline \<Rightarrow>
          (case interruptible_serial_io WritePort deadline (ai_io input) w of
             None \<Rightarrow> w
           | Some (Inl failure) \<Rightarrow> at_pc Leaving (finish_interruptible_failure failure w)
           | Some (Inr _) \<Rightarrow> at_pc Looping w)
      | TransferWriting t ack timeout deadline \<Rightarrow>
          (case interruptible_transfer_io WritePort t deadline (ai_io input) w of
             None \<Rightarrow> w
           | Some (Inl failure) \<Rightarrow>
               conclude_write [TransferNotActive, TransferCancelled] ack (Inl (transfer_io_error failure)) w
           | Some (Inr _) \<Rightarrow> at_pc (TransferFlushing t ack (sw_now w + timeout)) w)
      | TransferFlushing t ack deadline \<Rightarrow>
          (case interruptible_transfer_io FlushPort t deadline (ai_io input) w of
             None \<Rightarrow> w
           | Some (Inl failure) \<Rightarrow>
               conclude_write [TransferNotActive, TransferCancelled] ack (Inl (transfer_io_error failure)) w
           | Some (Inr _) \<Rightarrow>
               conclude_write [TransferNotActive, TransferCancelled] ack (Inr ()) w)
      | AbortWriting t kind ack timeout deadline \<Rightarrow>
          (case interruptible_serial_io WritePort deadline (ai_io input) w of
             None \<Rightarrow> w
           | Some (Inl failure) \<Rightarrow>
               conclude_write [TransferNotActive] ack (Inl (transfer_io_error failure)) w
           | Some (Inr _) \<Rightarrow> at_pc (AbortFlushing t kind ack (sw_now w + timeout)) w)
      | AbortFlushing t kind ack deadline \<Rightarrow>
          (case interruptible_serial_io FlushPort deadline (ai_io input) w of
             None \<Rightarrow> w
           | Some (Inl failure) \<Rightarrow>
               conclude_write [TransferNotActive] ack (Inl (transfer_io_error failure)) w
           | Some (Inr _) \<Rightarrow>
               conclude_write [TransferNotActive] ack (Inr ())
                 (replace_drain (drain_new t kind (sw_now w)) w))
      | UnclaimedWriting t timeout deadline \<Rightarrow>
          (case interruptible_serial_io WritePort deadline (ai_io input) w of
             None \<Rightarrow> w
           | Some (Inl failure) \<Rightarrow> at_pc Leaving (finish_interruptible_failure failure w)
           | Some (Inr _) \<Rightarrow> at_pc (UnclaimedFlushing t (sw_now w + timeout)) w)
      | UnclaimedFlushing t deadline \<Rightarrow>
          (case interruptible_serial_io FlushPort deadline (ai_io input) w of
             None \<Rightarrow> w
           | Some (Inl failure) \<Rightarrow> at_pc Leaving (finish_interruptible_failure failure w)
           | Some (Inr _) \<Rightarrow>
               at_pc Looping (replace_drain (drain_new t serial_transfer_kind.Zmodem (sw_now w)) w))
      | Routing bs \<Rightarrow> route_bytes cs bs w
      | SendingEvent t bs \<Rightarrow> send_transfer_event t bs w
      | Reserving direction bs \<Rightarrow> reserve_detected_zmodem cs uuid direction bs w
      | ClosingFlush deadline \<Rightarrow>
          (case shutdown_io deadline (ai_io input) w of
             None \<Rightarrow> w
           | Some (Inl e) \<Rightarrow> at_pc Leaving (finish_error e w)
           | Some (Inr _) \<Rightarrow> at_pc (ShuttingDown (sw_now w + IO_WRITE_TIMEOUT)) w)
      | ShuttingDown deadline \<Rightarrow>
          (case shutdown_io deadline (ai_io input) w of
             None \<Rightarrow> w
           | Some (Inl e) \<Rightarrow> at_pc Leaving (finish_error e w)
           | Some (Inr _) \<Rightarrow> at_pc Leaving (emit_closed Requested w))
      | Leaving \<Rightarrow> at_pc LeavingDetected (w\<lparr>sw_reservation := None\<rparr>)
      | LeavingDetected \<Rightarrow> at_pc Unregistering (drop_detected w)
      | Unregistering \<Rightarrow>
          at_pc Ended (w\<lparr>sw_registered := False, sw_drain := None, sw_commands := [],
                         sw_commands_open := False\<rparr>)
      | Ended \<Rightarrow> w)"

section \<open>Client calls\<close>

text \<open>Looking up the session and \<^verbatim>\<open>ensure_running\<close>; \<open>passed\<close> says that the call made them earlier, before
  the state changed.\<close>

definition find_entry :: "bool \<Rightarrow> 'd serial_world \<Rightarrow> serial_runtime_error + unit" where
  "find_entry passed w = (if passed \<or> sw_registered w then Inr () else Inl SessionNotFound)"

definition running_entry :: "bool \<Rightarrow> 'd serial_world \<Rightarrow> serial_runtime_error + unit" where
  "running_entry passed w =
     (case find_entry passed w of
        Inl e \<Rightarrow> Inl e
      | Inr _ \<Rightarrow> if passed \<or> sw_stop w = Running then Inr () else Inl SessionClosing)"

definition try_send_command ::
    "runtime_command \<Rightarrow> 'd serial_world \<Rightarrow> 'd serial_world \<times> (serial_runtime_error + client_value)" where
  "try_send_command command w =
     (if \<not> sw_commands_open w then (w, Inl SessionClosing)
      else if COMMAND_CHANNEL_CAPACITY \<le> length (sw_commands w)
      then (w, Inl (CommandQueueFull COMMAND_CHANNEL_CAPACITY))
      else (w\<lparr>sw_commands := sw_commands w @ [command]\<rparr>, Inr ValUnit))"

definition map_charset_error :: "serial_charset_error \<Rightarrow> serial_runtime_error" where
  "map_charset_error e =
     (case e of
        InvalidUtf8Input \<Rightarrow> InvalidInputEncoding
      | OutputTooLarge \<Rightarrow> EncodedInputTooLarge MAX_INPUT_BYTES)"

text \<open>The \<^verbatim>\<open>Drop\<close> of a handle: its end of the transfer is announced if the queue has room.\<close>

definition drop_handle :: "nat \<Rightarrow> 'd serial_world \<Rightarrow> 'd serial_world" where
  "drop_handle t w =
     (if sw_handles w t = None then w
      else (close_channel t (fst (try_send_command (EndTransfer t [] None) w)))
             \<lparr>sw_handles := (sw_handles w)(t := None)\<rparr>)"

definition new_handle :: "nat \<Rightarrow> serial_transfer_kind \<Rightarrow> 'd serial_world \<Rightarrow> 'd serial_world" where
  "new_handle t kind w =
     w\<lparr>sw_handles := (sw_handles w)(t \<mapsto> \<lparr>rh_kind = kind, rh_cancel_delivered = False\<rparr>),
       sw_handed := sw_handed w @ [t]\<rparr>"

definition serial_input ::
    "'d serial_charset \<Rightarrow> bool \<Rightarrow> bytes \<Rightarrow> 'd serial_world \<Rightarrow> 'd serial_world \<times> (serial_runtime_error + client_value)" where
  "serial_input cs passed bs w =
     (if MAX_INPUT_BYTES < length bs then (w, Inl (RuntimeInputTooLarge MAX_INPUT_BYTES))
      else case running_entry passed w of
        Inl e \<Rightarrow> (w, Inl e)
      | Inr _ \<Rightarrow>
          (case sw_reservation w of
             Some r \<Rightarrow>
               if bs = [3] then (signal_cancel (rr_token r) w, Inr ValUnit)
               else (w, Inl (TransferActive (rr_kind r)))
           | None \<Rightarrow>
               (case encode_input cs bs of
                  Inl e \<Rightarrow> (w, Inl (map_charset_error e))
                | Inr encoded \<Rightarrow> try_send_command (InputCommand encoded) w)))"

definition begin_raw_transfer ::
    "(nat \<Rightarrow> rstr) \<Rightarrow> bool \<Rightarrow> serial_transfer_kind \<Rightarrow> 'd serial_world \<Rightarrow>
       'd serial_world \<times> (serial_runtime_error + client_value)" where
  "begin_raw_transfer uuid passed kind w =
     (case running_entry passed w of
        Inl e \<Rightarrow> (w, Inl e)
      | Inr _ \<Rightarrow>
          (case sw_reservation w of
             Some r \<Rightarrow> (w, Inl (TransferActive (rr_kind r)))
           | None \<Rightarrow>
               let t = sw_next_token w
               in (new_handle t kind
                     (set_channel t (\<lambda>_. \<lparr>rc_events = [], rc_open = True, rc_cancel = False\<rparr>)
                       (w\<lparr>sw_next_token := t + 1,
                          sw_reservation := Some \<lparr>rr_token = t, rr_transfer_id = uuid t, rr_kind = kind\<rparr>\<rparr>)),
                   Inr (ValTransfer t))))"

text \<open>The first section of claiming and declining: the reservation's token.\<close>

definition look_up_detected ::
    "bool \<Rightarrow> rstr \<Rightarrow> 'd serial_world \<Rightarrow> serial_runtime_error + nat" where
  "look_up_detected passed transfer_id w =
     (case running_entry passed w of
        Inl e \<Rightarrow> Inl e
      | Inr _ \<Rightarrow>
          (case sw_reservation w of
             None \<Rightarrow> Inl TransferNotActive
           | Some r \<Rightarrow>
               if rr_kind r \<noteq> serial_transfer_kind.Zmodem then Inl (TransferActive (rr_kind r))
               else if rr_transfer_id r \<noteq> transfer_id then Inl TransferNotActive
               else Inr (rr_token r)))"

definition pending_matches ::
    "nat \<Rightarrow> rstr \<Rightarrow> transfer_direction \<Rightarrow> 'd serial_world \<Rightarrow> bool" where
  "pending_matches t transfer_id direction w \<longleftrightarrow>
     (case sw_detected w of
        None \<Rightarrow> False
      | Some p \<Rightarrow> dt_token p = t \<and> dt_transfer_id p = transfer_id \<and> dt_direction p = direction)"

definition claim_detected_zmodem ::
    "nat \<Rightarrow> rstr \<Rightarrow> transfer_direction \<Rightarrow> 'd serial_world \<Rightarrow> 'd serial_world \<times> (serial_runtime_error + client_value)" where
  "claim_detected_zmodem t transfer_id direction w =
     (if pending_matches t transfer_id direction w
      then (new_handle t serial_transfer_kind.Zmodem (w\<lparr>sw_detected := None\<rparr>), Inr (ValTransfer t))
      else (w, Inl TransferNotActive))"

definition request_transfer_cancel_exact ::
    "bool \<Rightarrow> rstr \<Rightarrow> 'd serial_world \<Rightarrow> 'd serial_world \<times> (serial_runtime_error + client_value)" where
  "request_transfer_cancel_exact passed transfer_id w =
     (case running_entry passed w of
        Inl e \<Rightarrow> (w, Inl e)
      | Inr _ \<Rightarrow>
          (case sw_reservation w of
             None \<Rightarrow> (w, Inl TransferNotActive)
           | Some r \<Rightarrow>
               if rr_transfer_id r = transfer_id then (signal_cancel (rr_token r) w, Inr ValUnit)
               else (w, Inl TransferNotActive)))"

definition resize_session ::
    "bool \<Rightarrow> nat \<Rightarrow> nat \<Rightarrow> 'd serial_world \<Rightarrow> 'd serial_world \<times> (serial_runtime_error + client_value)" where
  "resize_session passed columns rows w =
     (case window_size_new columns rows of
        Inl e \<Rightarrow> (w, Inl e)
      | Inr size' \<Rightarrow>
          (case running_entry passed w of
             Inl e \<Rightarrow> (w, Inl e)
           | Inr _ \<Rightarrow> (w\<lparr>sw_window := size'\<rparr>, Inr ValUnit)))"

text \<open>The check and the store of \<^verbatim>\<open>request_stop\<close> are not atomic: two requests may both pass the check.\<close>

definition request_stop ::
    "bool \<Rightarrow> stop_signal \<Rightarrow> 'd serial_world \<Rightarrow> 'd serial_world \<times> (serial_runtime_error + client_value)" where
  "request_stop passed signal w =
     (case find_entry passed w of
        Inl e \<Rightarrow> (w, Inl e)
      | Inr _ \<Rightarrow>
          (if passed \<or> sw_stop w = Running then w\<lparr>sw_stop := signal\<rparr> else w, Inr ValUnit))"

text \<open>A call that waits for the actor sends a command with a fresh acknowledgement.\<close>

definition write_call ::
    "(nat \<Rightarrow> bytes \<Rightarrow> nat \<Rightarrow> runtime_command) \<Rightarrow> nat \<Rightarrow> bytes \<Rightarrow> 'd serial_world \<Rightarrow> 'd serial_world \<times> client_task" where
  "write_call command t bs w =
     (if sw_handles w t = None then (w, TaskIdle)
      else if MAX_RAW_TRANSFER_WRITE_BYTES < length bs
      then (w, TaskDone (Inl (TransferWriteTooLarge MAX_RAW_TRANSFER_WRITE_BYTES)))
      else if \<not> reservation_matches t w then (w, TaskDone (Inl TransferNotActive))
      else (w\<lparr>sw_next_ack := sw_next_ack w + 1\<rparr>,
            SendWaiting (command t bs (sw_next_ack w)) (sw_next_ack w)))"

definition finish_call :: "nat \<Rightarrow> bytes \<Rightarrow> 'd serial_world \<Rightarrow> 'd serial_world \<times> client_task" where
  "finish_call t bs w =
     (if sw_handles w t = None then (w, TaskIdle)
      else if MAX_EVENT_DATA_BYTES < length bs
      then (drop_handle t w, TaskDone (Inl (EventDataTooLarge MAX_EVENT_DATA_BYTES)))
      else (w\<lparr>sw_next_ack := sw_next_ack w + 1\<rparr>, FinishWaiting t bs (sw_next_ack w)))"

definition done_with ::
    "'d serial_world \<times> (serial_runtime_error + client_value) \<Rightarrow> 'd serial_world \<times> client_task" where
  "done_with r = (case r of (w, result) \<Rightarrow> (w, TaskDone result))"

text \<open>The first section of a call.\<close>

definition client_start ::
    "'d serial_charset \<Rightarrow> (nat \<Rightarrow> rstr) \<Rightarrow> bool \<Rightarrow> client_call \<Rightarrow> 'd serial_world \<Rightarrow> 'd serial_world \<times> client_task" where
  "client_start cs uuid passed call w =
     (case call of
        CallInput bs \<Rightarrow> done_with (serial_input cs passed bs w)
      | CallBegin kind \<Rightarrow> done_with (begin_raw_transfer uuid passed kind w)
      | CallClaim transfer_id direction \<Rightarrow>
          (case look_up_detected passed transfer_id w of
             Inl e \<Rightarrow> (w, TaskDone (Inl e))
           | Inr t \<Rightarrow> (w, ClaimLooked t transfer_id direction))
      | CallDecline transfer_id direction \<Rightarrow>
          (case look_up_detected passed transfer_id w of
             Inl e \<Rightarrow> (w, TaskDone (Inl e))
           | Inr t \<Rightarrow> (w, DeclineLooked t transfer_id direction))
      | CallActiveKind \<Rightarrow>
          (w, TaskDone (map_sum id (\<lambda>_. ValKind (map_option rr_kind (sw_reservation w))) (find_entry passed w)))
      | CallCancelExact transfer_id \<Rightarrow> done_with (request_transfer_cancel_exact passed transfer_id w)
      | CallResize columns rows \<Rightarrow> done_with (resize_session passed columns rows w)
      | CallWindowSize \<Rightarrow> (w, TaskDone (map_sum id (\<lambda>_. ValWindow (sw_window w)) (find_entry passed w)))
      | CallClose \<Rightarrow> done_with (request_stop passed CloseSignal w)
      | CallCancel \<Rightarrow> done_with (request_stop passed CancelSignal w)
      | CallWrite t bs \<Rightarrow> write_call TransferWrite t bs w
      | CallAbort t bs \<Rightarrow> write_call TransferAbortWrite t bs w
      | CallFinish t bs \<Rightarrow> finish_call t bs w)"

text \<open>\<^verbatim>\<open>send(...).await\<close>: it waits for room and fails when the actor is gone.\<close>

definition send_command ::
    "runtime_command \<Rightarrow> 'd serial_world \<Rightarrow> ('d serial_world + 'd serial_world) option" where
  "send_command command w =
     (if \<not> sw_commands_open w then Some (Inl w)
      else if COMMAND_CHANNEL_CAPACITY \<le> length (sw_commands w) then None
      else Some (Inr (w\<lparr>sw_commands := sw_commands w @ [command]\<rparr>)))"

text \<open>An acknowledgement arrives, or its sender is gone with the actor.\<close>

definition receive_ack :: "nat \<Rightarrow> 'd serial_world \<Rightarrow> (serial_runtime_error + unit) option" where
  "receive_ack ack w =
     (case sw_acks w ack of
        Some r \<Rightarrow> Some r
      | None \<Rightarrow> if sw_commands_open w then None else Some (Inl SessionClosing))"

text \<open>\<^verbatim>\<open>finish\<close> has consumed the handle: a successful one is dropped without another message.\<close>

definition finish_handle :: "nat \<Rightarrow> 'd serial_world \<Rightarrow> 'd serial_world" where
  "finish_handle t w = (close_channel t w)\<lparr>sw_handles := (sw_handles w)(t := None)\<rparr>"

definition client_continue :: "client_task \<Rightarrow> 'd serial_world \<Rightarrow> 'd serial_world \<times> client_task" where
  "client_continue task w =
     (case task of
        ClaimLooked t transfer_id direction \<Rightarrow> done_with (claim_detected_zmodem t transfer_id direction w)
      | DeclineLooked t transfer_id direction \<Rightarrow>
          if pending_matches t transfer_id direction w then (w, DeclineChecked t direction)
          else (w, TaskDone (Inl TransferNotActive))
      | DeclineChecked t direction \<Rightarrow> done_with (try_send_command (DeclineDetectedZmodem t direction) w)
      | SendWaiting command ack \<Rightarrow>
          (case send_command command w of
             None \<Rightarrow> (w, task)
           | Some (Inl w) \<Rightarrow> (w, TaskDone (Inl SessionClosing))
           | Some (Inr w) \<Rightarrow> (w, AwaitingAck ack))
      | AwaitingAck ack \<Rightarrow>
          (case receive_ack ack w of
             None \<Rightarrow> (w, task)
           | Some r \<Rightarrow> (w, TaskDone (map_sum id (\<lambda>_. ValUnit) r)))
      | FinishWaiting t bs ack \<Rightarrow>
          (case send_command (EndTransfer t bs (Some ack)) w of
             None \<Rightarrow> (w, task)
           | Some (Inl w) \<Rightarrow> (drop_handle t w, TaskDone (Inl SessionClosing))
           | Some (Inr w) \<Rightarrow> (w, FinishAwaiting t ack))
      | FinishAwaiting t ack \<Rightarrow>
          (case receive_ack ack w of
             None \<Rightarrow> (w, task)
           | Some (Inl _) \<Rightarrow> (drop_handle t w, TaskDone (Inl SessionClosing))
           | Some (Inr _) \<Rightarrow> (finish_handle t w, TaskDone (Inr ValUnit)))
      | _ \<Rightarrow> (w, task))"

text \<open>A call whose future is dropped; \<^verbatim>\<open>finish\<close> takes its handle with it.\<close>

definition client_abandon :: "client_task \<Rightarrow> 'd serial_world \<Rightarrow> 'd serial_world" where
  "client_abandon task w =
     (case task of
        FinishWaiting t _ _ \<Rightarrow> drop_handle t w
      | FinishAwaiting t _ \<Rightarrow> drop_handle t w
      | _ \<Rightarrow> w)"

text \<open>\<^verbatim>\<open>recv\<close> of a handle: a cancel request first and once, then the queued events.\<close>

definition handle_recv :: "nat \<Rightarrow> 'd serial_world \<Rightarrow> 'd serial_world \<times> raw_event option" where
  "handle_recv t w =
     (case sw_handles w t of
        None \<Rightarrow> (w, None)
      | Some h \<Rightarrow>
          if \<not> rh_cancel_delivered h \<and> rc_cancel (sw_channels w t)
          then (w\<lparr>sw_handles := (sw_handles w)(t \<mapsto> h\<lparr>rh_cancel_delivered := True\<rparr>)\<rparr>, Some CancelRequested)
          else (case rc_events (sw_channels w t) of
                  [] \<Rightarrow> (w, None)
                | event # rest \<Rightarrow> (set_channel t (\<lambda>c. c\<lparr>rc_events := rest\<rparr>) w, Some event)))"

section \<open>Interleavings\<close>

datatype serial_event =
    Elapse nat
  | ActorStep actor_input
  | ClientCall nat bool client_call
  | ClientContinue nat
  | ClientAbandon nat
  | TakeEvent
  | DropEvents
  | HandleRecv nat
  | DropHandle nat
  | OtherSession

text \<open>A task that is idle or done starts a call; \<open>OtherSession\<close> is a transfer begun in another session,
  which shares the token counter.\<close>

fun serial_step :: "'d serial_charset \<Rightarrow> (nat \<Rightarrow> rstr) \<Rightarrow> nat \<Rightarrow> serial_event \<Rightarrow> 'd serial_world \<Rightarrow> 'd serial_world" where
  "serial_step cs uuid baud (Elapse n) w = w\<lparr>sw_now := sw_now w + n\<rparr>"
| "serial_step cs uuid baud (ActorStep input) w = actor_step cs uuid baud input w"
| "serial_step cs uuid baud (ClientCall i passed call) w =
     (case sw_tasks w i of
        TaskIdle \<Rightarrow> (case client_start cs uuid passed call w of (w, task) \<Rightarrow> w\<lparr>sw_tasks := (sw_tasks w)(i := task)\<rparr>)
      | TaskDone _ \<Rightarrow> (case client_start cs uuid passed call w of (w, task) \<Rightarrow> w\<lparr>sw_tasks := (sw_tasks w)(i := task)\<rparr>)
      | _ \<Rightarrow> w)"
| "serial_step cs uuid baud (ClientContinue i) w =
     (case client_continue (sw_tasks w i) w of (w, task) \<Rightarrow> w\<lparr>sw_tasks := (sw_tasks w)(i := task)\<rparr>)"
| "serial_step cs uuid baud (ClientAbandon i) w =
     (client_abandon (sw_tasks w i) w)\<lparr>sw_tasks := (sw_tasks w)(i := TaskIdle)\<rparr>"
| "serial_step cs uuid baud TakeEvent w = w\<lparr>sw_events := tl (sw_events w)\<rparr>"
| "serial_step cs uuid baud DropEvents w = w\<lparr>sw_events := [], sw_events_open := False\<rparr>"
| "serial_step cs uuid baud (HandleRecv t) w = fst (handle_recv t w)"
| "serial_step cs uuid baud (DropHandle t) w = drop_handle t w"
| "serial_step cs uuid baud OtherSession w = w\<lparr>sw_next_token := sw_next_token w + 1\<rparr>"

definition serial_run ::
    "'d serial_charset \<Rightarrow> (nat \<Rightarrow> rstr) \<Rightarrow> nat \<Rightarrow> serial_event list \<Rightarrow> 'd serial_world \<Rightarrow> 'd serial_world" where
  "serial_run cs uuid baud steps w = fold (serial_step cs uuid baud) steps w"

text \<open>\<^verbatim>\<open>start\<close>: the session is registered and its actor spawned; the token counter may stand anywhere.\<close>

definition empty_trace :: byte_trace where
  "empty_trace = \<lparr>bt_read = [], bt_shown = [], bt_sent = [], bt_dropped = [], bt_held = [], bt_flight = []\<rparr>"

definition serial_start :: "'d serial_charset \<Rightarrow> serial_window_size \<Rightarrow> nat \<Rightarrow> nat \<Rightarrow> 'd serial_world" where
  "serial_start cs window token now =
     \<lparr>sw_now = now, sw_registered = True, sw_stop = Running, sw_commands = [], sw_commands_open = True,
      sw_events = [], sw_events_open = True, sw_window = window, sw_reservation = None,
      sw_detected = None, sw_next_token = token,
      sw_channels = (\<lambda>_. \<lparr>rc_events = [], rc_open = False, rc_cancel = False\<rparr>),
      sw_handles = (\<lambda>_. None), sw_acks = (\<lambda>_. None), sw_next_ack = 0, sw_tasks = (\<lambda>_. TaskIdle),
      sw_pc = Starting, sw_decoder = charset_decoder cs, sw_sentry = [], sw_drain = None,
      sw_handed = [], sw_emitted = [], sw_canceled = {}, sw_wire = [], sw_trace = empty_trace\<rparr>"

text \<open>\<^verbatim>\<open>SerialRuntimeManager::start\<close> inside a tokio runtime.\<close>

definition start_session ::
    "'d serial_runtime_config \<Rightarrow> nat \<Rightarrow> nat \<Rightarrow> serial_runtime_error + 'd serial_world" where
  "start_session config token now =
     (case validate_backend_support (src_serial config) of
        Inl e \<Rightarrow> Inl (ConfigError e)
      | Inr _ \<Rightarrow> Inr (serial_start (src_charset config) (src_window_size config) token now))"

section \<open>What the clients leave alone\<close>

definition client_same :: "'d serial_world \<Rightarrow> 'd serial_world \<Rightarrow> bool" where
  "client_same v w \<longleftrightarrow>
     sw_pc v = sw_pc w \<and> sw_drain v = sw_drain w \<and> sw_sentry v = sw_sentry w \<and>
     sw_decoder v = sw_decoder w \<and> sw_trace v = sw_trace w \<and> sw_wire v = sw_wire w \<and>
     sw_events v = sw_events w \<and> sw_events_open v = sw_events_open w \<and> sw_emitted v = sw_emitted w \<and>
     sw_now v = sw_now w \<and> sw_registered v = sw_registered w \<and> sw_commands_open v = sw_commands_open w \<and>
     sw_acks v = sw_acks w"

lemma client_same_refl [simp]: "client_same w w"
  by (simp add: client_same_def)

lemma client_same_trans: "client_same u v \<Longrightarrow> client_same v w \<Longrightarrow> client_same u w"
  by (simp add: client_same_def)

lemma client_same_fields [simp]:
  "client_same (v\<lparr>sw_tasks := a\<rparr>) w = client_same v w"
  "client_same (v\<lparr>sw_next_ack := b\<rparr>) w = client_same v w"
  "client_same (v\<lparr>sw_handles := c\<rparr>) w = client_same v w"
  "client_same (v\<lparr>sw_handed := d\<rparr>) w = client_same v w"
  "client_same (v\<lparr>sw_window := e\<rparr>) w = client_same v w"
  "client_same (v\<lparr>sw_stop := f\<rparr>) w = client_same v w"
  "client_same (v\<lparr>sw_commands := g\<rparr>) w = client_same v w"
  "client_same (v\<lparr>sw_reservation := h\<rparr>) w = client_same v w"
  "client_same (v\<lparr>sw_detected := i\<rparr>) w = client_same v w"
  "client_same (v\<lparr>sw_next_token := j\<rparr>) w = client_same v w"
  "client_same (v\<lparr>sw_canceled := k\<rparr>) w = client_same v w"
  "client_same (v\<lparr>sw_channels := l\<rparr>) w = client_same v w"
  by (simp_all add: client_same_def)

lemma client_same_ops [simp]:
  "client_same (set_channel t g v) w = client_same v w"
  "client_same (close_channel t v) w = client_same v w"
  "client_same (signal_cancel t v) w = client_same v w"
  "client_same (new_handle t kind v) w = client_same v w"
  "client_same (fst (try_send_command command v)) w = client_same v w"
  "client_same (drop_handle t v) w = client_same v w"
  "client_same (finish_handle t v) w = client_same v w"
  by (simp_all add: set_channel_def close_channel_def signal_cancel_def new_handle_def
      try_send_command_def drop_handle_def finish_handle_def)

lemma client_start_same: "client_same (fst (client_start cs uuid passed call w)) w"
  by (cases call) (simp_all add: client_start_def done_with_def serial_input_def begin_raw_transfer_def
      request_transfer_cancel_exact_def resize_session_def request_stop_def write_call_def finish_call_def
      Let_def case_prod_beta split: sum.split option.split)

lemma client_continue_same: "client_same (fst (client_continue task w)) w"
  by (cases task) (simp_all add: client_continue_def done_with_def claim_detected_zmodem_def
      send_command_def case_prod_beta split: sum.split option.split)

lemma client_step_same:
  assumes "\<forall>input. event \<noteq> ActorStep input" and "event \<notin> {TakeEvent, DropEvents, OtherSession}"
    and "\<forall>n. event \<noteq> Elapse n"
  shows "client_same (serial_step cs uuid baud event w) w"
proof (cases event)
  case (ClientCall i passed call)
  then show ?thesis
    using client_start_same [of cs uuid passed call w]
    by (simp add: case_prod_beta split: client_task.split)
next
  case (ClientContinue i)
  then show ?thesis using client_continue_same [of "sw_tasks w i" w] by (simp add: case_prod_beta)
next
  case (ClientAbandon i)
  then show ?thesis by (simp add: client_abandon_def split: client_task.split)
next
  case (HandleRecv t)
  then show ?thesis by (simp add: handle_recv_def split: option.split list.split)
qed (use assms in simp_all)

section \<open>What the actor leaves alone\<close>

definition actor_same :: "'d serial_world \<Rightarrow> 'd serial_world \<Rightarrow> bool" where
  "actor_same v w \<longleftrightarrow>
     sw_stop v = sw_stop w \<and> sw_now v = sw_now w \<and> sw_handles v = sw_handles w \<and>
     sw_handed v = sw_handed w \<and> sw_canceled v = sw_canceled w \<and> sw_tasks v = sw_tasks w \<and>
     sw_next_ack v = sw_next_ack w \<and> sw_window v = sw_window w \<and> sw_events_open v = sw_events_open w"

lemma actor_same_refl [simp]: "actor_same w w"
  by (simp add: actor_same_def)

lemma actor_same_fields [simp]:
  "actor_same (v\<lparr>sw_registered := a\<rparr>) w = actor_same v w"
  "actor_same (v\<lparr>sw_commands := b\<rparr>) w = actor_same v w"
  "actor_same (v\<lparr>sw_commands_open := c\<rparr>) w = actor_same v w"
  "actor_same (v\<lparr>sw_events := d\<rparr>) w = actor_same v w"
  "actor_same (v\<lparr>sw_reservation := e\<rparr>) w = actor_same v w"
  "actor_same (v\<lparr>sw_detected := f\<rparr>) w = actor_same v w"
  "actor_same (v\<lparr>sw_next_token := g\<rparr>) w = actor_same v w"
  "actor_same (v\<lparr>sw_channels := h\<rparr>) w = actor_same v w"
  "actor_same (v\<lparr>sw_acks := i\<rparr>) w = actor_same v w"
  "actor_same (v\<lparr>sw_pc := j\<rparr>) w = actor_same v w"
  "actor_same (v\<lparr>sw_decoder := k\<rparr>) w = actor_same v w"
  "actor_same (v\<lparr>sw_sentry := l\<rparr>) w = actor_same v w"
  "actor_same (v\<lparr>sw_drain := m\<rparr>) w = actor_same v w"
  "actor_same (v\<lparr>sw_emitted := n\<rparr>) w = actor_same v w"
  "actor_same (v\<lparr>sw_wire := q\<rparr>) w = actor_same v w"
  "actor_same (v\<lparr>sw_trace := r\<rparr>) w = actor_same v w"
  by (simp_all add: actor_same_def)

lemma actor_same_ops [simp]:
  "actor_same (set_channel t g v) w = actor_same v w"
  "actor_same (close_channel t v) w = actor_same v w"
  "actor_same (on_trace h v) w = actor_same v w"
  "actor_same (at_pc pc v) w = actor_same v w"
  "actor_same (try_emit event v) w = actor_same v w"
  "actor_same (acknowledge r acks v) w = actor_same v w"
  "actor_same (reset_decoder cs v) w = actor_same v w"
  "actor_same (start_write source bs v) w = actor_same v w"
  by (simp_all add: set_channel_def close_channel_def on_trace_def at_pc_def try_emit_def
      acknowledge_def reset_decoder_def start_write_def)

lemma actor_same_emit [simp]:
  "actor_same (emit_closed reason v) w = actor_same v w"
  "actor_same (finish_error e v) w = actor_same v w"
  "actor_same (finish_stopped signal v) w = actor_same v w"
  "actor_same (finish_interruptible_failure failure v) w = actor_same v w"
  "actor_same (fst (emit_regular event v)) w = actor_same v w"
  "actor_same (fst (emit_data bs v)) w = actor_same v w"
  "actor_same (fst (terminal_feed cs bs v)) w = actor_same v w"
  "actor_same (continue_or_leave r pc) w = actor_same (fst r) w"
  by (simp_all add: emit_closed_def finish_error_def finish_stopped_def finish_interruptible_failure_def
      emit_regular_def emit_data_def terminal_feed_def continue_or_leave_def case_prod_beta
      split: stop_signal.split io_failure.split)

lemma actor_same_releases [simp]:
  "actor_same (release_transfer t v) w = actor_same v w"
  "actor_same (release_detected_zmodem t v) w = actor_same v w"
  "actor_same (drop_detected v) w = actor_same v w"
  "actor_same (discard_sentry v) w = actor_same v w"
  "actor_same (fst (show_sentry cs v)) w = actor_same v w"
  "actor_same (replace_drain d v) w = actor_same v w"
  "actor_same (fst (complete_protocol_abort_drain cs d tail v)) w = actor_same v w"
  "actor_same (start_unclaimed_abort cs baud t v) w = actor_same v w"
  by (simp_all add: release_transfer_def release_detected_zmodem_def drop_detected_def discard_sentry_def
      show_sentry_def replace_drain_def complete_protocol_abort_drain_def start_unclaimed_abort_def
      Let_def case_prod_beta split: option.split bool.split)

lemma actor_same_sections [simp]:
  "actor_same (conclude_write harmless ack result v) w = actor_same v w"
  "actor_same (end_transfer cs t bs ack' v) w = actor_same v w"
  "actor_same (quarantine cs d tail v) w = actor_same v w"
  "actor_same (remote_eof cs v) w = actor_same v w"
  "actor_same (send_transfer_event t bs v) w = actor_same v w"
  "actor_same (watch_terminal cs bs v) w = actor_same v w"
  by (simp_all add: conclude_write_def end_transfer_def quarantine_def remote_eof_def
      send_transfer_event_def watch_terminal_def Let_def case_prod_beta
      split: option.split bool.split sum.split)

lemma actor_same_branches [simp]:
  "actor_same (loop_head cs v) w = actor_same v w"
  "actor_same (run_command cs baud command v) w = actor_same v w"
  "actor_same (receive_bytes cs bs v) w = actor_same v w"
  "actor_same (route_bytes cs bs v) w = actor_same v w"
  "actor_same (reserve_detected_zmodem cs uuid direction bs v) w = actor_same v w"
  by (simp_all add: loop_head_def run_command_def receive_bytes_def route_bytes_def
      reserve_detected_zmodem_def Let_def case_prod_beta
      split: option.split bool.split sum.split runtime_command.split)

lemma actor_same_select [simp]: "actor_same (select_branch cs baud input w) w"
  by (simp add: select_branch_def split: option.split sum.split stop_signal.split list.split)

lemma actor_step_same: "actor_same (actor_step cs uuid baud input w) w"
  by (cases "sw_pc w") (simp_all add: actor_step_def split: option.split sum.split)

section \<open>Runs\<close>

text \<open>The actor has left its loop.\<close>

definition left :: "actor_pc \<Rightarrow> bool" where
  "left pc \<longleftrightarrow> pc \<in> {Leaving, LeavingDetected, Unregistering, Ended}"

lemma sw_pc_at [simp]: "sw_pc (at_pc pc w) = pc"
  by (simp add: at_pc_def)

lemma continue_pc [simp]: "sw_pc (continue_or_leave r pc) = (if snd r then pc else Leaving)"
  by (simp add: continue_or_leave_def case_prod_beta)

lemma serial_run_reach:
  "(\<lambda>w v. \<exists>event. v = serial_step cs uuid baud event w)\<^sup>*\<^sup>* w (serial_run cs uuid baud events w)"
proof (induction events arbitrary: w)
  case (Cons event events)
  have "(\<lambda>w v. \<exists>event. v = serial_step cs uuid baud event w) w (serial_step cs uuid baud event w)" by auto
  moreover have "(\<lambda>w v. \<exists>event. v = serial_step cs uuid baud event w)\<^sup>*\<^sup>*
      (serial_step cs uuid baud event w) (serial_run cs uuid baud (event # events) w)"
    using Cons.IH by (simp add: serial_run_def)
  ultimately show ?case by (rule converse_rtranclp_into_rtranclp)
qed (simp add: serial_run_def)

lemma serial_run_append:
  "serial_run cs uuid baud (before @ after) w = serial_run cs uuid baud after (serial_run cs uuid baud before w)"
  by (simp add: serial_run_def)

text \<open>A session for the witnesses.\<close>

definition sample_charset :: "unit serial_charset" where
  "sample_charset = \<lparr>cs_is_utf8 = True, cs_new_decoder = (), cs_decode = (\<lambda>d bs _. (d, bs)), cs_encode = utf8\<rparr>"

definition sample_window :: serial_window_size where
  "sample_window = \<lparr>ws_columns = 80, ws_rows = 24\<rparr>"

definition quiet :: actor_input where
  "quiet = \<lparr>ai_open = None, ai_io = Some (Inr ()), ai_read = None\<rparr>"

end
