(* ===== verification/Serial_Events.thy ===== *)
theory Serial_Events
  imports Serial_Runtime
begin

text \<open>
  What the consumer of a serial session sees: the event stream of the actor is \<open>Connecting\<close>,
  \<open>Connected\<close>, data and detections, and it ends with exactly one \<open>Closed\<close>, after an error where the
  reason is an error; the slots that the code reserves in the channel make sure that these last events
  always fit.  And a session that was asked to stop ends.
\<close>

section \<open>Steps that send nothing\<close>

definition same_events :: "'d serial_world \<Rightarrow> 'd serial_world \<Rightarrow> bool" where
  "same_events w v \<longleftrightarrow> sw_events w = sw_events v \<and> sw_events_open w = sw_events_open v \<and>
     sw_emitted w = sw_emitted v"

lemma same_events_refl [simp]: "same_events w w"
  by (simp add: same_events_def)

lemma same_events_fields [simp]:
  "same_events (w\<lparr>sw_reservation := a\<rparr>) v = same_events w v"
  "same_events (w\<lparr>sw_detected := b\<rparr>) v = same_events w v"
  "same_events (w\<lparr>sw_next_token := c\<rparr>) v = same_events w v"
  "same_events (w\<lparr>sw_channels := d\<rparr>) v = same_events w v"
  "same_events (w\<lparr>sw_handles := e\<rparr>) v = same_events w v"
  "same_events (w\<lparr>sw_acks := f\<rparr>) v = same_events w v"
  "same_events (w\<lparr>sw_next_ack := g\<rparr>) v = same_events w v"
  "same_events (w\<lparr>sw_tasks := h\<rparr>) v = same_events w v"
  "same_events (w\<lparr>sw_pc := i\<rparr>) v = same_events w v"
  "same_events (w\<lparr>sw_decoder := j\<rparr>) v = same_events w v"
  "same_events (w\<lparr>sw_sentry := k\<rparr>) v = same_events w v"
  "same_events (w\<lparr>sw_drain := l\<rparr>) v = same_events w v"
  "same_events (w\<lparr>sw_handed := m\<rparr>) v = same_events w v"
  "same_events (w\<lparr>sw_canceled := n\<rparr>) v = same_events w v"
  "same_events (w\<lparr>sw_wire := q\<rparr>) v = same_events w v"
  "same_events (w\<lparr>sw_trace := r\<rparr>) v = same_events w v"
  "same_events (w\<lparr>sw_now := s\<rparr>) v = same_events w v"
  "same_events (w\<lparr>sw_stop := t\<rparr>) v = same_events w v"
  "same_events (w\<lparr>sw_registered := u\<rparr>) v = same_events w v"
  "same_events (w\<lparr>sw_commands := x\<rparr>) v = same_events w v"
  "same_events (w\<lparr>sw_commands_open := y\<rparr>) v = same_events w v"
  "same_events (w\<lparr>sw_window := z\<rparr>) v = same_events w v"
  by (simp_all add: same_events_def)

lemma same_events_ops [simp]:
  "same_events (set_channel t f w) v = same_events w v"
  "same_events (close_channel t w) v = same_events w v"
  "same_events (signal_cancel t w) v = same_events w v"
  "same_events (on_trace g w) v = same_events w v"
  "same_events (at_pc pc w) v = same_events w v"
  "same_events (acknowledge r acks w) v = same_events w v"
  "same_events (reset_decoder cs w) v = same_events w v"
  "same_events (start_write source bs w) v = same_events w v"
  by (simp_all add: set_channel_def close_channel_def signal_cancel_def on_trace_def at_pc_def
      acknowledge_def reset_decoder_def start_write_def)

lemma same_events_releases [simp]:
  "same_events (release_transfer t w) v = same_events w v"
  "same_events (release_detected_zmodem t w) v = same_events w v"
  "same_events (drop_detected w) v = same_events w v"
  "same_events (discard_sentry w) v = same_events w v"
  "same_events (replace_drain d w) v = same_events w v"
  "same_events (start_unclaimed_abort cs baud t w) v = same_events w v"
  by (simp_all add: release_transfer_def release_detected_zmodem_def drop_detected_def discard_sentry_def
      replace_drain_def start_unclaimed_abort_def Let_def split: option.split)

lemma client_same_events: "client_same v w \<Longrightarrow> same_events v w"
  by (simp add: client_same_def same_events_def)

section \<open>The stream\<close>

definition payload :: "serial_runtime_event \<Rightarrow> bool" where
  "payload event \<longleftrightarrow>
     (case event of
        DataEvent bs \<Rightarrow> bs \<noteq> [] \<and> length bs \<le> MAX_EVENT_DATA_BYTES
      | ZmodemDetected _ _ \<Rightarrow> True
      | _ \<Rightarrow> False)"

definition stream_body :: "serial_runtime_event list \<Rightarrow> bool" where
  "stream_body es \<longleftrightarrow> es = [] \<or> es = [Connecting] \<or>
     (\<exists>ds. es = Connecting # Connected # ds \<and> list_all payload ds)"

definition stream_end :: "serial_runtime_event list \<Rightarrow> bool" where
  "stream_end es \<longleftrightarrow> (\<exists>reason. reason \<noteq> ErrorReason \<and> es = [Closed reason]) \<or>
     (\<exists>e. es = [ErrorEvent e, Closed ErrorReason])"

text \<open>What is queued is the end of what was sent, and two slots are free.\<close>

definition queue_ok :: "'d serial_world \<Rightarrow> bool" where
  "queue_ok w \<longleftrightarrow> length (sw_events w) \<le> EVENT_CHANNEL_CAPACITY \<and>
     (sw_events_open w \<longrightarrow> (\<exists>taken. sw_emitted w = taken @ sw_events w))"

definition room :: "'d serial_world \<Rightarrow> bool" where
  "room w \<longleftrightarrow> length (sw_events w) + TERMINAL_EVENT_RESERVE \<le> EVENT_CHANNEL_CAPACITY"

definition streaming :: "'d serial_world \<Rightarrow> bool" where
  "streaming w \<longleftrightarrow> queue_ok w \<and> room w \<and> stream_body (sw_emitted w)"

definition stream_over :: "'d serial_world \<Rightarrow> bool" where
  "stream_over w \<longleftrightarrow> queue_ok w \<and>
     (\<exists>body final. sw_emitted w = body @ final \<and> stream_body body \<and>
        (stream_end final \<or> final = [] \<and> \<not> sw_events_open w))"

lemma same_events_cong:
  "same_events w v \<Longrightarrow> queue_ok w = queue_ok v \<and> room w = room v \<and> streaming w = streaming v \<and>
     stream_over w = stream_over v"
  by (simp add: same_events_def queue_ok_def room_def streaming_def stream_over_def)

lemmas capacities = EVENT_CHANNEL_CAPACITY_def TERMINAL_EVENT_RESERVE_def

lemma emit_closed_over:
  "streaming w \<Longrightarrow> reason \<noteq> ErrorReason \<Longrightarrow> stream_over (emit_closed reason w)"
  by (auto simp: streaming_def stream_over_def emit_closed_def try_emit_def queue_ok_def room_def
      stream_end_def capacities)

lemma finish_error_over: "streaming w \<Longrightarrow> stream_over (finish_error e w)"
  unfolding streaming_def stream_over_def
  by (intro conjI)
    (auto simp: finish_error_def emit_closed_def try_emit_def queue_ok_def room_def
      stream_end_def capacities)

lemma finish_stopped_over:
  "streaming w \<Longrightarrow> signal \<noteq> Running \<or> \<not> sw_events_open w \<Longrightarrow> stream_over (finish_stopped signal w)"
  using emit_closed_over [of w]
  by (cases signal) (auto simp: finish_stopped_def, auto simp: streaming_def stream_over_def)

lemma stream_gone: "streaming w \<Longrightarrow> \<not> sw_events_open w \<Longrightarrow> stream_over w"
  by (auto simp: streaming_def stream_over_def)

text \<open>A connected session that can go on; an emission that reports failure has ended the stream.\<close>

definition live_stream :: "'d serial_world \<Rightarrow> bool" where
  "live_stream w \<longleftrightarrow> queue_ok w \<and> room w \<and>
     (\<exists>ds. sw_emitted w = Connecting # Connected # ds \<and> list_all payload ds)"

definition emission_ok :: "'d serial_world \<times> bool \<Rightarrow> bool" where
  "emission_ok r \<longleftrightarrow> (case r of (w, ok) \<Rightarrow> if ok then live_stream w else stream_over w)"

lemma emission_pair [simp]: "emission_ok (w, True) = live_stream w" "emission_ok (w, False) = stream_over w"
  by (simp_all add: emission_ok_def)

lemma live_stream_cong: "same_events w v \<Longrightarrow> live_stream w = live_stream v"
  by (simp add: same_events_def live_stream_def queue_ok_def room_def)

lemma live_stream_fields [simp]:
  "live_stream (w\<lparr>sw_reservation := a\<rparr>) = live_stream w"
  "live_stream (w\<lparr>sw_detected := b\<rparr>) = live_stream w"
  "live_stream (w\<lparr>sw_next_token := c\<rparr>) = live_stream w"
  "live_stream (w\<lparr>sw_decoder := j\<rparr>) = live_stream w"
  "live_stream (w\<lparr>sw_sentry := k\<rparr>) = live_stream w"
  "live_stream (w\<lparr>sw_drain := l\<rparr>) = live_stream w"
  "live_stream (w\<lparr>sw_commands := x\<rparr>) = live_stream w"
  by (simp_all add: live_stream_def queue_ok_def room_def)

lemma live_stream_ops [simp]:
  "live_stream (set_channel t f w) = live_stream w"
  "live_stream (on_trace g w) = live_stream w"
  "live_stream (acknowledge r acks w) = live_stream w"
  "live_stream (reset_decoder cs w) = live_stream w"
  "live_stream (start_write source bs w) = live_stream w"
  "live_stream (release_transfer t w) = live_stream w"
  "live_stream (release_detected_zmodem t w) = live_stream w"
  "live_stream (drop_detected w) = live_stream w"
  "live_stream (discard_sentry w) = live_stream w"
  "live_stream (replace_drain d w) = live_stream w"
  by (rule live_stream_cong, simp)+

lemma live_streaming: "live_stream w \<Longrightarrow> streaming w"
  by (auto simp: live_stream_def streaming_def stream_body_def)

lemma emit_regular_cases:
  assumes "streaming w" and "emit_regular event w = (v, ok)"
  shows "if ok then queue_ok v \<and> room v \<and> sw_emitted v = sw_emitted w @ [event] else stream_over v"
proof (cases "sw_events_open w \<and> TERMINAL_EVENT_RESERVE < EVENT_CHANNEL_CAPACITY - length (sw_events w)")
  case True
  then show ?thesis
    using assms by (auto simp: emit_regular_def streaming_def try_emit_def queue_ok_def room_def capacities)
next
  case False
  then show ?thesis
    using assms stream_gone [of w] finish_error_over [of w] by (auto simp: emit_regular_def split: if_splits)
qed

lemma emit_regular_ok:
  assumes "live_stream w" and "payload event"
  shows "emission_ok (emit_regular event w)"
  using emit_regular_cases [OF live_streaming [OF assms(1)]] assms
  by (auto simp: emission_ok_def live_stream_def split: prod.split)

lemma emit_data_ok: "live_stream w \<Longrightarrow> bs \<noteq> [] \<Longrightarrow> emission_ok (emit_data bs w)"
  using finish_error_over [OF live_streaming] emit_regular_ok [of w "DataEvent bs"]
  by (auto simp: emit_data_def payload_def)

lemma terminal_feed_ok: "live_stream w \<Longrightarrow> emission_ok (terminal_feed cs bs w)"
  by (simp add: terminal_feed_def case_prod_beta emit_data_ok)

section \<open>Every step keeps the stream\<close>

definition stream_inv :: "'d serial_world \<Rightarrow> bool" where
  "stream_inv w \<longleftrightarrow>
     (case sw_pc w of
        Starting \<Rightarrow> streaming w \<and> sw_emitted w = []
      | Opening _ \<Rightarrow> streaming w \<and> sw_emitted w = [Connecting]
      | pc \<Rightarrow> if left pc then stream_over w else live_stream w)"

lemma at_pc_inv:
  "stream_inv (at_pc pc w) \<longleftrightarrow>
     (case pc of
        Starting \<Rightarrow> streaming w \<and> sw_emitted w = []
      | Opening _ \<Rightarrow> streaming w \<and> sw_emitted w = [Connecting]
      | pc \<Rightarrow> if left pc then stream_over w else live_stream w)"
proof -
  have "sw_pc (at_pc pc w) = pc" "sw_emitted (at_pc pc w) = sw_emitted w" by (simp_all add: at_pc_def)
  moreover have "streaming (at_pc pc w) = streaming w" "stream_over (at_pc pc w) = stream_over w"
    "live_stream (at_pc pc w) = live_stream w"
    using live_stream_cong [of "at_pc pc w" w] same_events_cong [of "at_pc pc w" w] by simp_all
  ultimately show ?thesis by (simp only: stream_inv_def)
qed

definition running_pc :: "actor_pc \<Rightarrow> bool" where
  "running_pc pc \<longleftrightarrow> \<not> left pc \<and> pc \<noteq> Starting \<and> (\<forall>deadline. pc \<noteq> Opening deadline)"

lemma running_pc_simps [simp]:
  "running_pc Looping" "running_pc Selecting" "running_pc (WritingInput a)"
  "running_pc (TransferWriting t a b c)" "running_pc (TransferFlushing t a b)"
  "running_pc (AbortWriting t k a b c)" "running_pc (AbortFlushing t k a b)"
  "running_pc (UnclaimedWriting t a b)" "running_pc (UnclaimedFlushing t a)" "running_pc (Routing bs)"
  "running_pc (SendingEvent t bs)" "running_pc (Reserving d bs)" "running_pc (ClosingFlush a)"
  "running_pc (ShuttingDown a)"
  by (simp_all add: running_pc_def left_def)

lemma at_running_inv: "running_pc pc \<Longrightarrow> stream_inv (at_pc pc w) = live_stream w"
  by (cases pc) (simp_all add: at_pc_inv running_pc_def)

lemma at_leaving_inv: "stream_inv (at_pc Leaving w) = stream_over w"
  by (simp add: at_pc_inv left_def)

lemmas at_inv [simp] = at_running_inv at_leaving_inv

lemma continue_inv: "emission_ok r \<Longrightarrow> running_pc pc \<Longrightarrow> stream_inv (continue_or_leave r pc)"
  by (cases r; cases "snd r") (simp_all add: continue_or_leave_def)

lemma show_sentry_ok: "live_stream w \<Longrightarrow> emission_ok (show_sentry cs w)"
  by (simp add: show_sentry_def terminal_feed_ok)

lemma complete_drain_ok:
  assumes "live_stream w"
  shows "emission_ok (complete_protocol_abort_drain cs d tail w)"
proof -
  let ?v = "on_trace (trace_show_flight tail) (discard_sentry (reset_decoder cs
    (release_detected_zmodem (ad_token d) (release_transfer (ad_token d) w))))"
  obtain v ok where r: "terminal_feed cs tail ?v = (v, ok)" by force
  have "emission_ok (terminal_feed cs tail ?v)" using assms by (intro terminal_feed_ok) simp
  then show ?thesis
    by (cases ok) (simp_all add: complete_protocol_abort_drain_def Let_def r)
qed

lemma loop_head_inv:
  assumes "live_stream w"
  shows "stream_inv (loop_head cs w)"
proof -
  let ?r = "case sw_drain w of
      Some d \<Rightarrow> if drain_deadline d \<le> sw_now w
        then complete_protocol_abort_drain cs d [] (w\<lparr>sw_drain := None\<rparr>) else (w, True)
    | None \<Rightarrow> (w, True)"
  obtain v ok where r: "?r = (v, ok)" by force
  have "emission_ok ?r"
    using assms by (simp add: complete_drain_ok split: option.split)
  then have v: "if ok then live_stream v else stream_over v" by (simp add: r emission_ok_def)
  show ?thesis
  proof (cases ok)
    case False
    then show ?thesis using v by (simp add: loop_head_def r)
  next
    case True
    then show ?thesis
      using v by (simp add: loop_head_def r continue_inv show_sentry_ok split: option.split)
  qed
qed

lemma quarantine_inv: "live_stream w \<Longrightarrow> stream_inv (quarantine cs d tail w)"
  by (simp add: quarantine_def continue_inv complete_drain_ok split: option.split)

lemma receive_stream: "live_stream w \<Longrightarrow> stream_inv (receive_bytes cs bs w)"
  by (simp add: receive_bytes_def Let_def continue_inv complete_drain_ok quarantine_inv
      split: option.split prod.split)

lemma watch_inv: "live_stream w \<Longrightarrow> stream_inv (watch_terminal cs bs w)"
  by (simp add: watch_terminal_def continue_inv terminal_feed_ok finish_error_over live_streaming
      split: option.split prod.split sum.split)

lemma route_inv: "live_stream w \<Longrightarrow> stream_inv (route_bytes cs bs w)"
  by (simp add: route_bytes_def watch_inv split: option.split)

lemma send_event_inv: "live_stream w \<Longrightarrow> stream_inv (send_transfer_event t bs w)"
  by (simp add: send_transfer_event_def Let_def finish_error_over live_streaming)

lemma reserve_inv: "live_stream w \<Longrightarrow> stream_inv (reserve_detected_zmodem cs uuid direction bs w)"
  by (simp add: reserve_detected_zmodem_def Let_def continue_inv emit_regular_ok payload_def
      quarantine_inv split: option.split prod.split)

lemma eof_inv:
  assumes "live_stream w"
  shows "stream_inv (remote_eof cs w)"
proof -
  obtain d out where first: "serial_decode cs (sw_decoder w) (sw_sentry w) False = (d, out)" by force
  obtain d' rest where second: "serial_decode cs d [] True = (d', rest)" by force
  let ?v = "on_trace (trace_show_held (sw_sentry w)) (w\<lparr>sw_sentry := [], sw_decoder := d'\<rparr>)"
  obtain v ok where r: "emit_data (out @ rest) ?v = (v, ok)" by force
  have "live_stream ?v" using assms by simp
  moreover from this have "out @ rest \<noteq> [] \<Longrightarrow> emission_ok (v, ok)" using emit_data_ok r by metis
  ultimately show ?thesis
    by (cases "out @ rest = []"; cases ok)
      (simp_all add: remote_eof_def first second r Let_def emit_closed_over live_streaming)
qed

lemma serial_io_cases:
  assumes "interruptible_serial_io operation deadline answer w = Some (Inl failure)"
  obtains (stop) "failure = Stopped (sw_stop w)" "sw_stop w \<noteq> Running"
    | (gone) "failure = EventReceiverClosed" "\<not> sw_events_open w"
    | (io) kind where "failure = RuntimeFailure (IoFailed operation kind)"
proof -
  from assms consider "sw_stop w \<noteq> Running" "failure = Stopped (sw_stop w)"
    | "\<not> sw_events_open w" "failure = EventReceiverClosed"
    | "failure = RuntimeFailure (IoFailed operation TimedOutKind)"
    | kind where "answer = Some (Inl kind)" "failure = RuntimeFailure (IoFailed operation kind)"
    by (cases answer; cases "the answer") (auto simp: interruptible_serial_io_def split: if_splits)
  then show thesis using that by cases blast+
qed

lemma failure_over:
  assumes "live_stream w" and "interruptible_serial_io operation deadline answer w = Some (Inl failure)"
  shows "stream_over (finish_interruptible_failure failure w)"
  using assms(2)
proof (cases rule: serial_io_cases)
  case stop
  then show ?thesis
    using finish_stopped_over [OF live_streaming [OF assms(1)], of "sw_stop w"]
    by (simp add: finish_interruptible_failure_def)
next
  case gone
  then show ?thesis
    using stream_gone [OF live_streaming [OF assms(1)]] by (simp add: finish_interruptible_failure_def)
next
  case (io kind)
  then show ?thesis
    using finish_error_over [OF live_streaming [OF assms(1)]] by (simp add: finish_interruptible_failure_def)
qed

text \<open>A write that reports the end of the session reports a stop, or the consumer is gone.\<close>

definition failure_fits :: "io_failure \<Rightarrow> 'd serial_world \<Rightarrow> bool" where
  "failure_fits failure w \<longleftrightarrow> (transfer_io_error failure = SessionClosing \<longrightarrow>
     sw_stop w \<noteq> Running \<or> \<not> sw_events_open w)"

lemma serial_io_fits:
  assumes "interruptible_serial_io operation deadline answer w = Some (Inl failure)"
  shows "failure_fits failure w"
  using assms by (cases rule: serial_io_cases) (auto simp: failure_fits_def transfer_io_error_def)

lemma transfer_io_fits:
  "interruptible_transfer_io operation t deadline answer w = Some (Inl failure) \<Longrightarrow> failure_fits failure w"
  by (auto simp: interruptible_transfer_io_def failure_fits_def transfer_io_error_def
      dest: serial_io_fits split: if_splits)

lemma conclude_write_inv:
  assumes live: "live_stream w"
    and fits: "result = Inl SessionClosing \<Longrightarrow> sw_stop w \<noteq> Running \<or> \<not> sw_events_open w"
  shows "stream_inv (conclude_write harmless ack result w)"
proof -
  let ?v = "acknowledge result [ack] w"
  have v: "live_stream ?v" using live by simp
  have same: "sw_stop (acknowledge r acks w) = sw_stop w" "sw_events_open (acknowledge r acks w) = sw_events_open w"
    for r acks
    by (simp_all add: acknowledge_def)
  show ?thesis
  proof (cases result)
    case (Inl e)
    then show ?thesis
      using v fits same finish_stopped_over [OF live_streaming [OF v], of "sw_stop w"]
        finish_error_over [OF live_streaming [OF v], of e]
      by (cases "e = SessionClosing") (simp_all add: conclude_write_def Let_def)
  next
    case (Inr u)
    then show ?thesis using v by (simp add: conclude_write_def Let_def)
  qed
qed

lemma end_transfer_inv:
  assumes "live_stream w"
  shows "stream_inv (end_transfer cs t terminal_bytes ack w)"
proof -
  have ack_inv: "stream_inv (acknowledge r acks (at_pc Looping v)) = live_stream v"
    for r acks and v :: "'a serial_world"
  proof -
    have "acknowledge r acks (at_pc Looping v) = at_pc Looping (acknowledge r acks v)"
      by (simp add: acknowledge_def at_pc_def cong: if_cong)
    then show ?thesis by simp
  qed
  obtain v ok where first: "show_sentry cs (reset_decoder cs (release_detected_zmodem t (release_transfer t w))) = (v, ok)"
    by force
  obtain u ok' where second: "terminal_feed cs terminal_bytes (on_trace (trace_show_returned terminal_bytes) v) = (u, ok')"
    by force
  have "emission_ok (v, ok)" using assms show_sentry_ok first by (metis live_stream_ops(4,6,7))
  moreover have "ok \<Longrightarrow> emission_ok (u, ok')"
    using calculation terminal_feed_ok second by (metis emission_pair(1) live_stream_ops(2))
  ultimately show ?thesis
    using assms by (cases ok; cases ok') (simp_all add: end_transfer_def Let_def first second ack_inv)
qed

lemma run_command_inv:
  assumes "live_stream w"
  shows "stream_inv (run_command cs baud command w)"
proof -
  have "live_stream (start_write source bs w)" for source bs using assms by simp
  then show ?thesis
    using assms
    by (auto simp: run_command_def start_unclaimed_abort_def Let_def
        intro!: conclude_write_inv end_transfer_inv split: runtime_command.split option.split)
qed

lemma select_inv:
  assumes "live_stream w" and "sw_pc w = Selecting"
  shows "stream_inv (select_branch cs baud input w)"
proof -
  have stay: "stream_inv w" using assms by (simp add: stream_inv_def left_def)
  have "stream_inv (run_command cs baud command (w\<lparr>sw_commands := rest\<rparr>))" for command rest
    using assms by (intro run_command_inv) simp
  then show ?thesis
    using assms(1) stay
    by (simp add: select_branch_def start_unclaimed_abort_def Let_def emit_closed_over live_streaming
        stream_gone continue_inv complete_drain_ok finish_error_over eof_inv receive_stream
        split: stop_signal.split option.split list.split sum.split)
qed

lemma actor_inv:
  assumes "stream_inv w"
  shows "stream_inv (actor_step cs uuid baud input w)"
proof (cases "left (sw_pc w)")
  case True
  then have over: "stream_over w" using assms by (auto simp: stream_inv_def left_def)
  have "same_events (actor_step cs uuid baud input w) w" "left (sw_pc (actor_step cs uuid baud input w))"
    using True by (auto simp: actor_step_def left_def)
  then have "stream_over (actor_step cs uuid baud input w)"
    using over same_events_cong [of "actor_step cs uuid baud input w" w] by blast
  with \<open>left (sw_pc (actor_step cs uuid baud input w))\<close> show ?thesis
    by (auto simp: stream_inv_def left_def)
next
  case False
  show ?thesis
  proof (cases "running_pc (sw_pc w)")
    case True
    then have live: "live_stream w"
      using assms False by (cases "sw_pc w") (simp_all add: stream_inv_def running_pc_def left_def)
    note fits = serial_io_fits transfer_io_fits
    have conclude: "stream_inv (conclude_write harmless ack (Inl (transfer_io_error failure)) w)"
      if "failure_fits failure w" for harmless ack failure
      using that by (intro conclude_write_inv live) (auto simp: failure_fits_def)
    have done_ok: "stream_inv (conclude_write harmless ack (Inr ()) v)" if "live_stream v" for harmless ack and v :: "'a serial_world"
      using that by (intro conclude_write_inv) simp_all
    have over: "stream_over (finish_error e w)" for e
      using live by (intro finish_error_over live_streaming)
    show ?thesis
    proof (cases "sw_pc w")
      case Selecting
      then show ?thesis using live by (simp add: actor_step_def select_inv)
    next
      case (TransferWriting t ack timeout deadline)
      then show ?thesis
        using live assms fits(2) [of WritePort t deadline "ai_io input" w] conclude
        by (auto simp: actor_step_def split: option.split sum.split)
    next
      case (TransferFlushing t ack deadline)
      then show ?thesis
        using live assms fits(2) [of FlushPort t deadline "ai_io input" w] conclude done_ok
        by (auto simp: actor_step_def split: option.split sum.split)
    next
      case (AbortWriting t kind ack timeout deadline)
      then show ?thesis
        using live assms fits(1) [of WritePort deadline "ai_io input" w] conclude
        by (auto simp: actor_step_def split: option.split sum.split)
    next
      case (AbortFlushing t kind ack deadline)
      then show ?thesis
        using live assms fits(1) [of FlushPort deadline "ai_io input" w] conclude done_ok
        by (auto simp: actor_step_def split: option.split sum.split)
    next
      case (WritingInput deadline)
      then show ?thesis
        using live assms failure_over [OF live, of WritePort deadline "ai_io input"]
        by (auto simp: actor_step_def split: option.split sum.split)
    next
      case (UnclaimedWriting t timeout deadline)
      then show ?thesis
        using live assms failure_over [OF live, of WritePort deadline "ai_io input"]
        by (auto simp: actor_step_def split: option.split sum.split)
    next
      case (UnclaimedFlushing t deadline)
      then show ?thesis
        using live assms failure_over [OF live, of FlushPort deadline "ai_io input"]
        by (auto simp: actor_step_def split: option.split sum.split)
    next
      case (ClosingFlush deadline)
      then show ?thesis
        using live assms over by (auto simp: actor_step_def split: option.split sum.split)
    next
      case (ShuttingDown deadline)
      then show ?thesis
        using live assms over emit_closed_over [OF live_streaming [OF live], of Requested]
        by (auto simp: actor_step_def split: option.split sum.split)
    qed (use live True in \<open>simp_all add: actor_step_def loop_head_inv route_inv send_event_inv reserve_inv
        running_pc_def left_def\<close>)
  next
    case not_running: False
    then have "sw_pc w = Starting \<or> (\<exists>deadline. sw_pc w = Opening deadline)"
      using False by (auto simp: running_pc_def)
    then show ?thesis
    proof (elim disjE exE)
      assume pc: "sw_pc w = Starting"
      obtain v ok where r: "emit_regular Connecting w = (v, ok)" by force
      have s: "streaming w" "sw_emitted w = []" using assms pc by (simp_all add: stream_inv_def)
      show ?thesis
        using s emit_regular_cases [OF s(1) r]
        by (cases ok) (auto simp: pc actor_step_def r continue_or_leave_def at_pc_inv left_def
            streaming_def stream_body_def)
    next
      fix deadline assume pc: "sw_pc w = Opening deadline"
      then have s: "streaming w" "sw_emitted w = [Connecting]" using assms by (simp_all add: stream_inv_def)
      obtain v ok where r: "emit_regular Connected w = (v, ok)" by force
      have "emission_ok (v, ok)"
        using s emit_regular_cases [OF s(1) r] by (auto simp: emission_ok_def live_stream_def)
      then have connect: "stream_inv (continue_or_leave (emit_regular Connected w) Looping)"
        unfolding r by (rule continue_inv) simp
      show ?thesis
        using assms s connect finish_stopped_over [OF s(1), of "sw_stop w"] stream_gone [OF s(1)]
          finish_error_over [OF s(1)]
        by (auto simp: pc actor_step_def split: option.split sum.split)
    qed
  qed
qed

lemma step_stream_inv:
  assumes "stream_inv w"
  shows "stream_inv (serial_step cs uuid baud event w)"
proof -
  have frame: "stream_inv v" if "same_events v w" "sw_pc v = sw_pc w" for v
  proof -
    have "sw_emitted v = sw_emitted w" using that(1) by (simp add: same_events_def)
    then show ?thesis
      using assms that live_stream_cong [OF that(1)] same_events_cong [OF that(1)]
      by (simp only: stream_inv_def)
  qed
  show ?thesis
  proof (cases event)
    case (ActorStep input)
    then show ?thesis using assms by (simp add: actor_inv)
  next
    case TakeEvent
    have "queue_ok w \<Longrightarrow> queue_ok (w\<lparr>sw_events := tl (sw_events w)\<rparr>)"
      by (cases "sw_events w") (auto simp: queue_ok_def)
    moreover have "room w \<Longrightarrow> room (w\<lparr>sw_events := tl (sw_events w)\<rparr>)"
      by (auto simp: room_def)
    ultimately have "streaming w \<Longrightarrow> streaming (w\<lparr>sw_events := tl (sw_events w)\<rparr>)"
      "live_stream w \<Longrightarrow> live_stream (w\<lparr>sw_events := tl (sw_events w)\<rparr>)"
      "stream_over w \<Longrightarrow> stream_over (w\<lparr>sw_events := tl (sw_events w)\<rparr>)"
      by (simp_all add: streaming_def live_stream_def stream_over_def)
    then show ?thesis
      using assms by (cases "sw_pc w") (simp_all add: TakeEvent stream_inv_def left_def)
  next
    case DropEvents
    have "streaming w \<Longrightarrow> streaming (w\<lparr>sw_events := [], sw_events_open := False\<rparr>)"
      "live_stream w \<Longrightarrow> live_stream (w\<lparr>sw_events := [], sw_events_open := False\<rparr>)"
      "stream_over w \<Longrightarrow> stream_over (w\<lparr>sw_events := [], sw_events_open := False\<rparr>)"
      by (auto simp: streaming_def live_stream_def stream_over_def queue_ok_def room_def capacities)
    then show ?thesis
      using assms by (cases "sw_pc w") (simp_all add: DropEvents stream_inv_def left_def)
  next
    case (Elapse n)
    then show ?thesis by (intro frame) (simp_all add: same_events_def)
  next
    case OtherSession
    then show ?thesis by (intro frame) (simp_all add: same_events_def)
  qed (use client_step_same [of event cs uuid baud w] in
      \<open>auto intro!: frame client_same_events simp: client_same_def simp del: serial_step.simps\<close>)
qed

interpretation event_stream: transition_system
  "\<lambda>w v. \<exists>event. v = serial_step cs uuid baud event w" stream_inv
  for cs uuid baud
  by unfold_locales (auto intro: step_stream_inv)

lemma run_stream_inv: "stream_inv (serial_run cs uuid baud events (serial_start cs' window token now))"
  by (rule event_stream.reach_inv [OF serial_run_reach])
    (simp add: stream_inv_def serial_start_def streaming_def queue_ok_def room_def stream_body_def capacities)

section \<open>Stopping\<close>

text \<open>How many steps the actor has left once it is asked to stop, where the port answers.\<close>

fun stop_measure :: "actor_pc \<Rightarrow> nat" where
  "stop_measure Ended = 0"
| "stop_measure Unregistering = 1"
| "stop_measure LeavingDetected = 2"
| "stop_measure Leaving = 3"
| "stop_measure (ShuttingDown _) = 4"
| "stop_measure (ClosingFlush _) = 5"
| "stop_measure Selecting = 6"
| "stop_measure Looping = 7"
| "stop_measure (SendingEvent _ _) = 8"
| "stop_measure (Reserving _ _) = 9"
| "stop_measure (Routing _) = 10"
| "stop_measure (Opening _) = 4"
| "stop_measure Starting = 5"
| "stop_measure _ = 8"

lemma conclude_write_pc: "sw_pc (conclude_write harmless ack result w) \<in> {Looping, Leaving}"
  by (auto simp: conclude_write_def Let_def split: sum.split)

lemma loop_head_pc: "sw_pc (loop_head cs w) \<in> {Selecting, Leaving}"
  by (simp add: loop_head_def case_prod_beta split: bool.split option.split)

lemma quarantine_pc: "sw_pc (quarantine cs d tail w) \<in> {Looping, Leaving}"
  by (simp add: quarantine_def split: option.split)

lemma quarantine_pc_or: "sw_pc (quarantine cs d tail w) = Looping \<or> sw_pc (quarantine cs d tail w) = Leaving \<or> P"
  using quarantine_pc by auto

lemma watch_pc: "sw_pc (watch_terminal cs bs w) \<in> {Looping, Leaving} \<or>
    (\<exists>direction bs'. sw_pc (watch_terminal cs bs w) = Reserving direction bs')"
  by (simp add: watch_terminal_def case_prod_beta split: sum.split option.split)

lemma reserve_pc: "sw_pc (reserve_detected_zmodem cs uuid direction bs w) \<in> {Looping, Leaving} \<or>
    (\<exists>t bs'. sw_pc (reserve_detected_zmodem cs uuid direction bs w) = SendingEvent t bs')"
  by (simp add: reserve_detected_zmodem_def Let_def case_prod_beta quarantine_pc_or split: option.split)

lemma stop_decreases:
  assumes "sw_stop w \<noteq> Running" and "ai_io input \<noteq> None" and "sw_pc w \<noteq> Ended"
  shows "stop_measure (sw_pc (actor_step cs uuid baud input w)) < stop_measure (sw_pc w)"
proof -
  have io: "interruptible_serial_io operation deadline answer w = Some (Inl (Stopped (sw_stop w)))"
    for operation deadline answer
    using assms(1) by (simp add: interruptible_serial_io_def)
  have tio: "\<exists>failure. interruptible_transfer_io operation t deadline answer w = Some (Inl failure)"
    for operation t deadline answer
    by (simp add: interruptible_transfer_io_def io)
  have conclude: "stop_measure (sw_pc (conclude_write harmless ack result v)) < 8" for harmless ack result v
    using conclude_write_pc [of harmless ack result v] by auto
  show ?thesis
  proof (cases "sw_pc w")
    case Starting
    then show ?thesis by (simp add: actor_step_def)
  next
    case Looping
    then show ?thesis using loop_head_pc [of cs w] by (auto simp: actor_step_def)
  next
    case Selecting
    then show ?thesis
      using assms(1) by (cases "sw_stop w") (simp_all add: actor_step_def select_branch_def)
  next
    case (TransferWriting t ack timeout deadline)
    then show ?thesis
      using tio [of WritePort t deadline "ai_io input"] conclude by (auto simp: actor_step_def)
  next
    case (TransferFlushing t ack deadline)
    then show ?thesis
      using tio [of FlushPort t deadline "ai_io input"] conclude by (auto simp: actor_step_def)
  next
    case (Routing bs)
    then show ?thesis
      using watch_pc [of cs bs w] watch_pc [of cs bs "w\<lparr>sw_reservation := None\<rparr>"]
      by (auto simp: actor_step_def route_bytes_def split: option.split)
  next
    case (SendingEvent t bs)
    then show ?thesis by (simp add: actor_step_def send_transfer_event_def Let_def)
  next
    case (Reserving direction bs)
    then show ?thesis
      using reserve_pc [of cs uuid direction bs w] by (auto simp: actor_step_def)
  next
    case (ClosingFlush deadline)
    then show ?thesis
      using assms(2) by (auto simp: actor_step_def shutdown_io_def split: sum.split)
  next
    case (ShuttingDown deadline)
    then show ?thesis
      using assms(2) by (auto simp: actor_step_def shutdown_io_def split: sum.split)
  qed (use assms io conclude in \<open>auto simp: actor_step_def\<close>)
qed

lemma client_stop: "sw_stop w \<noteq> Running \<Longrightarrow> sw_stop (fst (client_start cs uuid passed call w)) \<noteq> Running"
  by (cases call) (simp_all add: client_start_def done_with_def serial_input_def begin_raw_transfer_def
      request_transfer_cancel_exact_def resize_session_def request_stop_def write_call_def finish_call_def
      try_send_command_def signal_cancel_def set_channel_def new_handle_def drop_handle_def close_channel_def
      Let_def case_prod_beta split: sum.split option.split)

lemma stop_stays: "sw_stop w \<noteq> Running \<Longrightarrow> sw_stop (serial_step cs uuid baud event w) \<noteq> Running"
proof (cases event)
  case (ActorStep input)
  assume "sw_stop w \<noteq> Running"
  then show ?thesis using actor_step_same [of cs uuid baud input w] by (simp add: ActorStep actor_same_def)
next
  case (ClientCall i passed call)
  assume "sw_stop w \<noteq> Running"
  then show ?thesis
    using client_stop [of w cs uuid passed call] by (simp add: ClientCall case_prod_beta split: client_task.split)
next
  case (ClientContinue i)
  assume "sw_stop w \<noteq> Running"
  then show ?thesis
    by (cases "sw_tasks w i") (simp_all add: ClientContinue client_continue_def done_with_def
        claim_detected_zmodem_def send_command_def try_send_command_def new_handle_def drop_handle_def
        close_channel_def set_channel_def finish_handle_def case_prod_beta split: sum.split option.split)
next
  case (ClientAbandon i)
  assume "sw_stop w \<noteq> Running"
  then show ?thesis
    by (simp add: ClientAbandon client_abandon_def drop_handle_def try_send_command_def close_channel_def
        set_channel_def split: client_task.split)
next
  case (HandleRecv t)
  assume "sw_stop w \<noteq> Running"
  then show ?thesis by (simp add: HandleRecv handle_recv_def set_channel_def split: option.split list.split)
next
  case (DropHandle t)
  assume "sw_stop w \<noteq> Running"
  then show ?thesis by (simp add: DropHandle drop_handle_def try_send_command_def close_channel_def set_channel_def)
qed simp_all

lemma step_pc:
  assumes "\<forall>input. event \<noteq> ActorStep input"
  shows "sw_pc (serial_step cs uuid baud event w) = sw_pc w"
    and "sw_registered (serial_step cs uuid baud event w) = sw_registered w"
    and "sw_commands_open (serial_step cs uuid baud event w) = sw_commands_open w"
  using assms client_step_same [of event cs uuid baud w] by (cases event; simp add: client_same_def)+

text \<open>Steps of the actor in which the port has an answer.\<close>

definition answered :: "serial_event \<Rightarrow> bool" where
  "answered event \<longleftrightarrow> (case event of ActorStep input \<Rightarrow> ai_io input \<noteq> None | _ \<Rightarrow> False)"

definition actor_turns :: "serial_event list \<Rightarrow> nat" where
  "actor_turns events = length (filter answered events)"

lemma ended_step: "sw_pc w = Ended \<Longrightarrow> sw_pc (serial_step cs uuid baud event w) = Ended"
  using step_pc(1) [of event cs uuid baud w] by (cases event) (auto simp: actor_step_def)

text \<open>Without an answer a stopping actor waits or moves on as well.\<close>

lemma stop_no_increase:
  assumes "sw_stop w \<noteq> Running"
  shows "stop_measure (sw_pc (actor_step cs uuid baud input w)) \<le> stop_measure (sw_pc w)"
proof (cases "ai_io input")
  case (Some r)
  then show ?thesis
    using stop_decreases [OF assms, of input] ended_step [of w cs uuid baud "ActorStep input"]
    by (cases "sw_pc w = Ended") (auto simp: less_imp_le)
next
  case None
  let ?i = "input\<lparr>ai_io := Some (Inr ())\<rparr>"
  have "actor_step cs uuid baud input w = actor_step cs uuid baud ?i w \<or>
      sw_pc (actor_step cs uuid baud input w) \<in> {sw_pc w, Leaving}"
    using assms None
    by (cases "sw_pc w")
      (auto simp: actor_step_def interruptible_serial_io_def interruptible_transfer_io_def shutdown_io_def
        select_branch_def split: stop_signal.split)
  moreover have "stop_measure (sw_pc (actor_step cs uuid baud ?i w)) \<le> stop_measure (sw_pc w)"
    using stop_decreases [OF assms, of ?i] ended_step [of w cs uuid baud "ActorStep ?i"]
    by (cases "sw_pc w = Ended") (auto simp: less_imp_le)
  moreover have "sw_pc (actor_step cs uuid baud input w) = Leaving \<Longrightarrow>
      sw_pc w \<notin> {LeavingDetected, Unregistering, Ended}"
    by (auto simp: actor_step_def)
  ultimately show ?thesis by (cases "sw_pc w") auto
qed

lemma stop_run:
  assumes "sw_stop w \<noteq> Running"
  shows "stop_measure (sw_pc (serial_run cs uuid baud events w)) \<le> stop_measure (sw_pc w) - actor_turns events"
  using assms
proof (induction events arbitrary: w)
  case (Cons event events)
  let ?v = "serial_step cs uuid baud event w"
  have "stop_measure (sw_pc ?v) \<le> stop_measure (sw_pc w) - (if answered event then 1 else 0)"
  proof (cases event)
    case (ActorStep input)
    then show ?thesis
      using stop_no_increase [OF Cons.prems, of cs uuid baud input] stop_decreases [OF Cons.prems, of input cs uuid baud]
        ended_step [of w cs uuid baud event]
      by (cases "sw_pc w = Ended") (auto simp: answered_def)
  qed (use step_pc(1) [of event cs uuid baud w] in \<open>simp_all add: answered_def\<close>)
  moreover have "stop_measure (sw_pc (serial_run cs uuid baud events ?v)) \<le>
      stop_measure (sw_pc ?v) - actor_turns events"
    by (rule Cons.IH [OF stop_stays [OF Cons.prems]])
  moreover have "actor_turns (event # events) = actor_turns events + (if answered event then 1 else 0)"
    by (simp add: actor_turns_def)
  ultimately show ?case by (simp add: serial_run_def)
qed (simp add: serial_run_def actor_turns_def)

definition ended_ok :: "'d serial_world \<Rightarrow> bool" where
  "ended_ok w \<longleftrightarrow> (sw_pc w = Ended \<longrightarrow> \<not> sw_registered w \<and> \<not> sw_commands_open w)"

lemma conclude_not_ended: "sw_pc (conclude_write harmless ack result w) \<noteq> Ended"
  using conclude_write_pc [of harmless ack result w] by auto

lemma quarantine_not_ended: "sw_pc (quarantine cs d tail w) \<noteq> Ended"
  using quarantine_pc [of cs d tail w] by auto

lemma watch_not_ended: "sw_pc (watch_terminal cs bs w) \<noteq> Ended"
  using watch_pc [of cs bs w] by auto

lemma run_command_not_ended: "sw_pc (run_command cs baud command w) \<noteq> Ended"
  by (cases command) (auto simp: run_command_def end_transfer_def start_unclaimed_abort_def acknowledge_def
      conclude_not_ended Let_def split: option.split prod.split bool.split)

lemma receive_not_ended: "sw_pc (receive_bytes cs bs w) \<noteq> Ended"
  by (auto simp: receive_bytes_def Let_def quarantine_not_ended split: option.split prod.split)

lemma select_not_ended: "sw_pc w = Selecting \<Longrightarrow> sw_pc (select_branch cs baud input w) \<noteq> Ended"
  by (simp add: select_branch_def start_unclaimed_abort_def remote_eof_def Let_def run_command_not_ended
      receive_not_ended case_prod_beta split: stop_signal.split option.split list.split sum.split bool.split)

lemma step_not_ended:
  assumes "sw_pc w \<notin> {Unregistering, Ended}"
  shows "sw_pc (actor_step cs uuid baud input w) \<noteq> Ended"
proof (cases "sw_pc w")
  case Looping
  then show ?thesis using loop_head_pc [of cs w] by (auto simp: actor_step_def)
next
  case Selecting
  then show ?thesis by (simp add: actor_step_def select_not_ended)
next
  case (Reserving direction bs)
  then show ?thesis using reserve_pc [of cs uuid direction bs w] by (auto simp: actor_step_def)
qed (use assms in \<open>simp_all add: actor_step_def conclude_not_ended route_bytes_def watch_not_ended
    send_transfer_event_def Let_def split: option.split sum.split\<close>)

lemma step_ended_ok:
  assumes "ended_ok w"
  shows "ended_ok (serial_step cs uuid baud event w)"
proof (cases event)
  case (ActorStep input)
  then show ?thesis
    using assms step_not_ended [of w cs uuid baud input]
    by (cases "sw_pc w \<in> {Unregistering, Ended}") (auto simp: ended_ok_def actor_step_def at_pc_def)
qed (use assms step_pc [of event cs uuid baud w] in \<open>simp_all add: ended_ok_def\<close>)

interpretation ended: transition_system
  "\<lambda>w v. \<exists>event. v = serial_step cs uuid baud event w" ended_ok
  for cs uuid baud
  by unfold_locales (auto intro: step_ended_ok)

lemma run_ended_ok: "ended_ok (serial_run cs uuid baud events (serial_start cs' window token now))"
  by (rule ended.reach_inv [OF serial_run_reach]) (simp add: ended_ok_def serial_start_def)

text \<open>A session that is cancelled while its port opens, for the witnesses.\<close>

lemma sample_stopped:
  defines "w \<equiv> serial_run sample_charset (\<lambda>_. []) 9600
      [ActorStep quiet, ClientCall 0 False CallCancel, ActorStep quiet] (serial_start sample_charset sample_window 1 0)"
  shows "sw_emitted w = [Connecting, Closed CancelledSession]" "sw_pc w = Leaving" "sw_events_open w"
    "sw_stop w = CancelSignal"
  by (simp_all add: w_def serial_run_def serial_start_def actor_step_def emit_regular_def try_emit_def
      capacities continue_or_leave_def at_pc_def client_start_def request_stop_def find_entry_def
      done_with_def finish_stopped_def emit_closed_def OPEN_TIMEOUT_def)

text \<open>C7: Whatever ports, clients and consumer do, the events of a session are \<open>Connecting\<close>, \<open>Connected\<close>,
  then data blocks of bounded length and detections, then at most one end: a single \<open>Closed\<close> that is no
  error, or an error and \<open>Closed\<close> for it; the end is sent only by an actor that leaves, always if the
  consumer still listens, and never fails for want of room in the event channel.\<close>

theorem serial_close_event:
  assumes "w = serial_run cs uuid baud events (serial_start cs window token now)"
  shows "\<exists>body final.
      sw_emitted w = body @ final \<and> stream_body body \<and> (final = [] \<or> stream_end final) \<and>
      (final \<noteq> [] \<longrightarrow> left (sw_pc w)) \<and>
      (left (sw_pc w) \<and> sw_events_open w \<longrightarrow> stream_end final) \<and>
      length (sw_events w) \<le> EVENT_CHANNEL_CAPACITY \<and>
      (sw_events_open w \<longrightarrow> (\<exists>taken. sw_emitted w = taken @ sw_events w))"
proof -
  have inv: "stream_inv w" unfolding assms by (rule run_stream_inv)
  show ?thesis
  proof (cases "left (sw_pc w)")
    case True
    then have "stream_over w" using inv by (auto simp: stream_inv_def left_def)
    then show ?thesis using True by (auto simp: stream_over_def queue_ok_def)
  next
    case False
    then have "streaming w"
      using inv by (cases "sw_pc w") (simp_all add: stream_inv_def live_streaming)
    then show ?thesis
      using False by (intro exI [of _ "sw_emitted w"] exI [of _ "[]"]) (simp add: streaming_def queue_ok_def)
  qed
qed

theorem serial_close_event_witness:
  "\<exists>body final. [Connecting, Closed CancelledSession] = body @ final \<and> stream_body body \<and> stream_end final"
  using serial_close_event [OF refl, of sample_charset "\<lambda>_. []" 9600
      "[ActorStep quiet, ClientCall 0 False CallCancel, ActorStep quiet]" sample_window 1 0]
  by (simp add: sample_stopped [simplified] left_def) blast

text \<open>A session that was asked to stop ends: after the request ten steps of the actor in which the
  port has an answer, in whatever order they come with steps of others, lead to its end, where it is
  no longer registered and takes no commands.\<close>

theorem serial_stop_ends:
  assumes "w = serial_run cs uuid baud events (serial_start cs window token now)"
    and "sw_stop w \<noteq> Running" and "10 \<le> actor_turns more_events"
  shows "sw_pc (serial_run cs uuid baud more_events w) = Ended \<and>
      \<not> sw_registered (serial_run cs uuid baud more_events w) \<and>
      \<not> sw_commands_open (serial_run cs uuid baud more_events w)"
proof -
  let ?v = "serial_run cs uuid baud more_events w"
  have "stop_measure (sw_pc w) \<le> 10" by (cases "sw_pc w") simp_all
  then have "stop_measure (sw_pc ?v) = 0"
    using stop_run [OF assms(2), of cs uuid baud more_events] assms(3) by simp
  then have "sw_pc ?v = Ended" by (cases "sw_pc ?v") simp_all
  moreover have "ended_ok ?v"
    using run_ended_ok [of cs uuid baud "events @ more_events" cs window token now]
    by (simp add: assms(1) serial_run_append)
  ultimately show ?thesis by (simp add: ended_ok_def)
qed

lemma quiet_answered: "answered (ActorStep quiet)"
  by (simp add: answered_def quiet_def)

theorem serial_stop_ends_witness:
  "sw_pc (serial_run sample_charset (\<lambda>_. []) 9600 (replicate 10 (ActorStep quiet))
      (serial_run sample_charset (\<lambda>_. []) 9600 [ActorStep quiet, ClientCall 0 False CallCancel, ActorStep quiet]
        (serial_start sample_charset sample_window 1 0))) = Ended"
  using serial_stop_ends [OF refl, of sample_charset "\<lambda>_. []" 9600
      "[ActorStep quiet, ClientCall 0 False CallCancel, ActorStep quiet]" sample_window 1 0
      "replicate 10 (ActorStep quiet)"]
  by (simp add: sample_stopped [simplified] actor_turns_def quiet_answered)

end
