(* ===== verification/Serial_Ownership.thy ===== *)
theory Serial_Ownership
  imports Serial_Runtime
begin

text \<open>
  Who owns the line of a serial session: at most one transfer is reserved, a detected transfer is handed
  out at most once, and what is written to the port comes from the owner at that moment.
\<close>

section \<open>The invariant\<close>

text \<open>A command that speaks for a transfer comes from one that was handed out.\<close>

definition command_of :: "runtime_command \<Rightarrow> nat option" where
  "command_of command =
     (case command of
        TransferWrite t _ _ \<Rightarrow> Some t
      | TransferAbortWrite t _ _ \<Rightarrow> Some t
      | EndTransfer t _ _ \<Rightarrow> Some t
      | _ \<Rightarrow> None)"

definition task_of :: "client_task \<Rightarrow> nat option" where
  "task_of task =
     (case task of
        SendWaiting command _ \<Rightarrow> command_of command
      | FinishWaiting t _ _ \<Rightarrow> Some t
      | FinishAwaiting t _ \<Rightarrow> Some t
      | _ \<Rightarrow> None)"

definition wire_ok :: "nat list \<Rightarrow> nat option \<times> nat option \<times> bytes \<Rightarrow> bool" where
  "wire_ok handed entry \<longleftrightarrow>
     (case entry of
        (source, owner, bs) \<Rightarrow>
          source = owner \<and> (\<forall>t. source = Some t \<longrightarrow> t \<in> set handed \<or> bs = ZMODEM_CANCEL_SEQUENCE))"

definition tokens_ok :: "'d serial_world \<Rightarrow> bool" where
  "tokens_ok w \<longleftrightarrow>
     distinct (sw_handed w) \<and> (\<forall>t \<in> set (sw_handed w). t < sw_next_token w) \<and>
     (\<forall>r. sw_reservation w = Some r \<longrightarrow> rr_token r < sw_next_token w) \<and>
     (\<forall>t. sw_handles w t \<noteq> None \<longrightarrow> t \<in> set (sw_handed w) \<and> rc_open (sw_channels w t)) \<and>
     (\<forall>p. sw_detected w = Some p \<longrightarrow>
        dt_token p < sw_next_token w \<and> dt_token p \<notin> set (sw_handed w) \<and> rc_open (sw_channels w (dt_token p))) \<and>
     (\<forall>command \<in> set (sw_commands w). \<forall>t. command_of command = Some t \<longrightarrow> t \<in> set (sw_handed w)) \<and>
     (\<forall>i t. task_of (sw_tasks w i) = Some t \<longrightarrow> t \<in> set (sw_handed w)) \<and>
     (\<forall>entry \<in> set (sw_wire w). wire_ok (sw_handed w) entry)"

text \<open>The deadlines of a drain are at most its timeout away.\<close>

definition timely :: "nat \<Rightarrow> abort_drain \<Rightarrow> bool" where
  "timely now d \<longleftrightarrow> ad_hard_deadline d \<le> now + PROTOCOL_ABORT_DRAIN_TIMEOUT \<and>
     ad_idle_deadline d \<le> ad_hard_deadline d"

lemma timely_drains [simp]:
  "timely now (with_consecutive_can t n k now)" "timely now (drain_new t kind now)"
  "timely now d \<Longrightarrow> timely now (fst (drain_push d bs now))"
  "timely now (drain_attach_finish ack d) = timely now d"
  by (simp_all add: timely_def with_consecutive_can_def drain_new_def drain_push_def drain_loop_frame
      drain_attach_finish_def PROTOCOL_ABORT_DRAIN_IDLE_def PROTOCOL_ABORT_DRAIN_TIMEOUT_def split: option.split)

lemma attach_token [simp]: "ad_token (drain_attach_finish ack d) = ad_token d"
  by (simp add: drain_attach_finish_def split: option.split)

lemma timely_later: "timely now d \<Longrightarrow> timely (now + n) d"
  by (simp add: timely_def)

definition line_ok :: "'d serial_world \<Rightarrow> bool" where
  "line_ok w \<longleftrightarrow>
     (\<forall>p. sw_detected w = Some p \<longrightarrow>
        (\<exists>r. sw_reservation w = Some r \<and> rr_token r = dt_token p \<and> rr_kind r = serial_transfer_kind.Zmodem \<and>
           rr_transfer_id r = dt_transfer_id p)) \<and>
     (\<forall>d. sw_drain w = Some d \<longrightarrow> reservation_matches (ad_token d) w \<and> sw_detected w = None \<and> timely (sw_now w) d)"

text \<open>What the control points of the actor add while it serves the port.\<close>

definition pc_line_ok :: "'d serial_world \<Rightarrow> actor_pc \<Rightarrow> bool" where
  "pc_line_ok w pc \<longleftrightarrow>
     (case pc of
        AbortWriting t _ _ _ _ \<Rightarrow> reservation_matches t w \<and> t \<in> set (sw_handed w)
      | AbortFlushing t _ _ _ \<Rightarrow> reservation_matches t w \<and> t \<in> set (sw_handed w)
      | UnclaimedWriting t _ _ \<Rightarrow> reservation_matches t w \<and> sw_detected w = None
      | UnclaimedFlushing t _ \<Rightarrow> reservation_matches t w \<and> sw_detected w = None
      | Routing _ \<Rightarrow> sw_drain w = None
      | SendingEvent t _ \<Rightarrow> sw_drain w = None \<and> reservation_matches t w
      | Reserving _ _ \<Rightarrow> sw_drain w = None
      | _ \<Rightarrow> True)"

definition owner_inv :: "'d serial_world \<Rightarrow> bool" where
  "owner_inv w \<longleftrightarrow> tokens_ok w \<and> (left (sw_pc w) \<or> line_ok w \<and> pc_line_ok w (sw_pc w))"

section \<open>Steps that change nothing here\<close>

definition same_owner :: "'d serial_world \<Rightarrow> 'd serial_world \<Rightarrow> bool" where
  "same_owner v w \<longleftrightarrow>
     sw_reservation v = sw_reservation w \<and> sw_detected v = sw_detected w \<and>
     sw_next_token v = sw_next_token w \<and> sw_handles v = sw_handles w \<and> sw_handed v = sw_handed w \<and>
     sw_drain v = sw_drain w \<and> sw_commands v = sw_commands w \<and> sw_tasks v = sw_tasks w \<and>
     sw_wire v = sw_wire w \<and> sw_now v = sw_now w \<and> (\<forall>t. rc_open (sw_channels v t) = rc_open (sw_channels w t))"

lemma same_owner_refl [simp]: "same_owner w w"
  by (simp add: same_owner_def)

lemma same_owner_cong:
  assumes "same_owner v w"
  shows "tokens_ok v = tokens_ok w" and "line_ok v = line_ok w" and "pc_line_ok v pc = pc_line_ok w pc"
    and "reservation_matches t v = reservation_matches t w"
  using assms by (simp_all add: same_owner_def tokens_ok_def line_ok_def pc_line_ok_def reservation_matches_def
      cong: actor_pc.case_cong)

lemma same_owner_fields [simp]:
  "same_owner (v\<lparr>sw_decoder := a\<rparr>) w = same_owner v w"
  "same_owner (v\<lparr>sw_sentry := b\<rparr>) w = same_owner v w"
  "same_owner (v\<lparr>sw_pc := c\<rparr>) w = same_owner v w"
  "same_owner (v\<lparr>sw_events := e\<rparr>) w = same_owner v w"
  "same_owner (v\<lparr>sw_events_open := f\<rparr>) w = same_owner v w"
  "same_owner (v\<lparr>sw_emitted := g\<rparr>) w = same_owner v w"
  "same_owner (v\<lparr>sw_stop := h\<rparr>) w = same_owner v w"
  "same_owner (v\<lparr>sw_window := i\<rparr>) w = same_owner v w"
  "same_owner (v\<lparr>sw_registered := j\<rparr>) w = same_owner v w"
  "same_owner (v\<lparr>sw_commands_open := k\<rparr>) w = same_owner v w"
  "same_owner (v\<lparr>sw_acks := l\<rparr>) w = same_owner v w"
  "same_owner (v\<lparr>sw_next_ack := m\<rparr>) w = same_owner v w"
  "same_owner (v\<lparr>sw_canceled := n\<rparr>) w = same_owner v w"
  "same_owner (v\<lparr>sw_trace := q\<rparr>) w = same_owner v w"
  by (simp_all add: same_owner_def)

lemma same_owner_ops [simp]:
  "same_owner (on_trace f v) w = same_owner v w"
  "same_owner (at_pc pc v) w = same_owner v w"
  "same_owner (try_emit event v) w = same_owner v w"
  "same_owner (acknowledge r acks v) w = same_owner v w"
  "same_owner (reset_decoder cs v) w = same_owner v w"
  "same_owner (discard_sentry v) w = same_owner v w"
  "same_owner (emit_closed reason v) w = same_owner v w"
  "same_owner (finish_error e v) w = same_owner v w"
  "same_owner (finish_stopped signal v) w = same_owner v w"
  "same_owner (finish_interruptible_failure failure v) w = same_owner v w"
  "same_owner (fst (emit_regular event v)) w = same_owner v w"
  "same_owner (fst (emit_data bs v)) w = same_owner v w"
  "same_owner (fst (terminal_feed cs bs v)) w = same_owner v w"
  "same_owner (fst (show_sentry cs v)) w = same_owner v w"
  "same_owner (conclude_write harmless ack result v) w = same_owner v w"
  "same_owner (continue_or_leave q pc) w = same_owner (fst q) w"
  by (simp_all add: on_trace_def at_pc_def try_emit_def acknowledge_def reset_decoder_def discard_sentry_def
      emit_closed_def finish_error_def finish_stopped_def finish_interruptible_failure_def
      emit_regular_def emit_data_def terminal_feed_def show_sentry_def conclude_write_def Let_def
      continue_or_leave_def case_prod_beta split: stop_signal.split io_failure.split sum.split)

lemma same_owner_signal [simp]: "same_owner (signal_cancel t v) w = same_owner v w"
  by (auto simp: same_owner_def signal_cancel_def set_channel_def split: if_splits)

lemma owner_at:
  "owner_inv (at_pc pc w) \<longleftrightarrow> tokens_ok w \<and> (left pc \<or> line_ok w \<and> pc_line_ok w pc)"
  using same_owner_cong [of "at_pc pc w" w] by (simp add: owner_inv_def)

lemma owner_continue:
  "tokens_ok (fst q) \<Longrightarrow> line_ok (fst q) \<Longrightarrow> pc_line_ok (fst q) pc \<Longrightarrow> owner_inv (continue_or_leave q pc)"
  using same_owner_cong [of "continue_or_leave q pc" "fst q"]
  by (cases "snd q") (simp_all add: owner_inv_def left_def)

lemmas owner_defs = tokens_ok_def line_ok_def reservation_matches_def

lemma owner_frames [simp]:
  "tokens_ok (on_trace f v) = tokens_ok v" "line_ok (on_trace f v) = line_ok v"
  "tokens_ok (acknowledge r acks v) = tokens_ok v" "line_ok (acknowledge r acks v) = line_ok v"
  "tokens_ok (at_pc pc v) = tokens_ok v" "line_ok (at_pc pc v) = line_ok v"
  "tokens_ok (reset_decoder cs v) = tokens_ok v" "line_ok (reset_decoder cs v) = line_ok v"
  "tokens_ok (discard_sentry v) = tokens_ok v" "line_ok (discard_sentry v) = line_ok v"
  "tokens_ok (emit_closed reason v) = tokens_ok v" "tokens_ok (finish_error e v) = tokens_ok v"
  "tokens_ok (finish_stopped signal v) = tokens_ok v"
  "tokens_ok (finish_interruptible_failure failure v) = tokens_ok v"
  "tokens_ok (fst (emit_regular event v)) = tokens_ok v" "line_ok (fst (emit_regular event v)) = line_ok v"
  "tokens_ok (fst (emit_data bs v)) = tokens_ok v" "line_ok (fst (emit_data bs v)) = line_ok v"
  "tokens_ok (fst (terminal_feed cs bs v)) = tokens_ok v" "line_ok (fst (terminal_feed cs bs v)) = line_ok v"
  "tokens_ok (fst (show_sentry cs v)) = tokens_ok v" "line_ok (fst (show_sentry cs v)) = line_ok v"
  "tokens_ok (v\<lparr>sw_sentry := a\<rparr>) = tokens_ok v" "line_ok (v\<lparr>sw_sentry := a\<rparr>) = line_ok v"
  "tokens_ok (v\<lparr>sw_decoder := d\<rparr>) = tokens_ok v" "line_ok (v\<lparr>sw_decoder := d\<rparr>) = line_ok v"
  by (simp_all only: same_owner_cong [of "on_trace f v" v] same_owner_cong [of "acknowledge r acks v" v]
      same_owner_cong [of "at_pc pc v" v] same_owner_cong [of "reset_decoder cs v" v]
      same_owner_cong [of "discard_sentry v" v] same_owner_cong [of "emit_closed reason v" v]
      same_owner_cong [of "finish_error e v" v] same_owner_cong [of "finish_stopped signal v" v]
      same_owner_cong [of "finish_interruptible_failure failure v" v]
      same_owner_cong [of "fst (emit_regular event v)" v] same_owner_cong [of "fst (emit_data bs v)" v]
      same_owner_cong [of "fst (terminal_feed cs bs v)" v] same_owner_cong [of "fst (show_sentry cs v)" v]
      same_owner_cong [of "v\<lparr>sw_sentry := a\<rparr>" v] same_owner_cong [of "v\<lparr>sw_decoder := d\<rparr>" v]
      same_owner_ops same_owner_fields same_owner_refl)

lemma show_frames: "tokens_ok (fst (show_sentry cs v)) = tokens_ok v" "line_ok (fst (show_sentry cs v)) = line_ok v"
  by simp_all

lemma feed_frames: "tokens_ok (fst (terminal_feed cs bs v)) = tokens_ok v" "line_ok (fst (terminal_feed cs bs v)) = line_ok v"
  by simp_all

section \<open>Releases\<close>

lemma release_tokens [simp]:
  "tokens_ok w \<Longrightarrow> tokens_ok (release_transfer t w)"
  "tokens_ok w \<Longrightarrow> tokens_ok (w\<lparr>sw_reservation := None\<rparr>)"
  "tokens_ok w \<Longrightarrow> tokens_ok (w\<lparr>sw_drain := a\<rparr>)"
  by (simp_all add: tokens_ok_def release_transfer_def)

lemma drop_tokens [simp]:
  assumes "tokens_ok w"
  shows "tokens_ok (drop_detected w)" and "tokens_ok (release_detected_zmodem t w)"
  using assms
  by (auto simp: drop_detected_def release_detected_zmodem_def close_channel_def set_channel_def tokens_ok_def
      split: option.split)

lemma drop_fields [simp]:
  "sw_detected (drop_detected w) = None" "sw_reservation (drop_detected w) = sw_reservation w"
  "sw_drain (drop_detected w) = sw_drain w" "sw_now (drop_detected w) = sw_now w" "sw_handed (drop_detected w) = sw_handed w"
  "sw_reservation (release_detected_zmodem t w) = sw_reservation w"
  "sw_drain (release_detected_zmodem t w) = sw_drain w"
  "sw_detected (release_transfer t w) = sw_detected w" "sw_drain (release_transfer t w) = sw_drain w"
  by (simp_all add: drop_detected_def release_detected_zmodem_def release_transfer_def close_channel_def
      set_channel_def split: option.split)

text \<open>Releasing the owner frees the line.\<close>

lemma release_frees:
  assumes "line_ok w" and "sw_drain w = None" and "reservation_matches t w"
  shows "line_ok (release_detected_zmodem t (release_transfer t w))"
  using assms by (auto simp: owner_defs release_detected_zmodem_def release_transfer_def close_channel_def
      set_channel_def)

lemma complete_drain_owner:
  assumes "tokens_ok w" and "sw_drain w = None" and "reservation_matches (ad_token d) w"
    and "sw_detected w = None"
  shows "tokens_ok (fst (complete_protocol_abort_drain cs d tail w))"
    and "line_ok (fst (complete_protocol_abort_drain cs d tail w))"
  using assms
  by (simp_all add: complete_protocol_abort_drain_def Let_def case_prod_beta split: bool.split)
    (simp_all add: line_ok_def reservation_matches_def release_detected_zmodem_def release_transfer_def)

lemma quarantine_owner:
  assumes "tokens_ok w" and "sw_drain w = None" and "reservation_matches (ad_token d) w"
    and "sw_detected w = None" and "timely (sw_now w) d"
  shows "owner_inv (quarantine cs d tail w)"
proof (cases tail)
  case None
  have "line_ok (w\<lparr>sw_drain := Some d\<rparr>)" using assms(3-5) by (simp add: line_ok_def reservation_matches_def)
  then show ?thesis using None assms(1) by (simp add: quarantine_def owner_at pc_line_ok_def)
next
  case (Some bs)
  let ?v = "on_trace (trace_drop_but (length bs)) w"
  have "sw_drain ?v = None" "sw_detected ?v = None" "reservation_matches (ad_token d) ?v"
    using assms by (simp_all add: on_trace_def reservation_matches_def)
  then have "owner_inv (continue_or_leave (complete_protocol_abort_drain cs d bs ?v) Looping)"
    using assms(1) complete_drain_owner [of ?v d cs bs] by (intro owner_continue) (simp_all add: pc_line_ok_def)
  then show ?thesis using Some by (simp add: quarantine_def)
qed

section \<open>The branches of the actor\<close>

lemma loop_head_owner:
  assumes "tokens_ok w" and "line_ok w"
  shows "owner_inv (loop_head cs w)"
proof -
  let ?r = "case sw_drain w of
      Some d \<Rightarrow> if drain_deadline d \<le> sw_now w
        then complete_protocol_abort_drain cs d [] (w\<lparr>sw_drain := None\<rparr>) else (w, True)
    | None \<Rightarrow> (w, True)"
  have drained: "tokens_ok (fst ?r) \<and> line_ok (fst ?r)"
  proof (cases "sw_drain w")
    case (Some d)
    then show ?thesis
      using assms complete_drain_owner [of "w\<lparr>sw_drain := None\<rparr>" d cs "[]"]
      by (auto simp: line_ok_def reservation_matches_def)
  qed (use assms in simp)
  obtain v ok where r: "?r = (v, ok)" by force
  have v: "tokens_ok v" "line_ok v" using drained by (simp_all add: r)
  show ?thesis
  proof (cases ok)
    case False
    then show ?thesis using v by (simp add: loop_head_def r owner_at left_def)
  next
    case True
    show ?thesis
    proof (cases "release_abandoned_transfer (map_option ad_token (sw_drain v)) v")
      case None
      then show ?thesis using v True by (simp add: loop_head_def r owner_at pc_line_ok_def)
    next
      case (Some t)
      then have t: "reservation_matches t v" "sw_drain v = None"
        using v(2) by (cases "sw_drain v"; auto simp: release_abandoned_transfer_def reservation_matches_def
            line_ok_def split: option.splits if_splits)+
      let ?u = "release_detected_zmodem t (reset_decoder cs (v\<lparr>sw_reservation := None\<rparr>))"
      have "line_ok ?u"
        using t v(2) by (auto simp: owner_defs release_detected_zmodem_def reset_decoder_def
            close_channel_def set_channel_def)
      moreover have "tokens_ok ?u" using v(1) by simp
      ultimately have "owner_inv (continue_or_leave (show_sentry cs ?u) Selecting)"
        by (intro owner_continue) (simp_all add: pc_line_ok_def)
      then show ?thesis using True Some by (simp add: loop_head_def r)
    qed
  qed
qed

lemma start_write_owner:
  "wire_ok (sw_handed w) (source, map_option rr_token (sw_reservation w), bs) \<Longrightarrow> tokens_ok w \<Longrightarrow>
     tokens_ok (start_write source bs w)"
  "line_ok (start_write source bs w) = line_ok w"
  "pc_line_ok (start_write source bs w) pc = pc_line_ok w pc"
  by (auto simp: owner_defs start_write_def pc_line_ok_def cong: actor_pc.case_cong)

lemma start_write_fields [simp]:
  "sw_reservation (start_write source bs w) = sw_reservation w" "sw_handed (start_write source bs w) = sw_handed w"
  by (simp_all add: start_write_def)

lemma unclaimed_owner:
  assumes "tokens_ok w" and "line_ok w" and "reservation_matches t w" and "sw_drain w = None"
  shows "owner_inv (start_unclaimed_abort cs baud t w)"
proof -
  let ?v = "discard_sentry (reset_decoder cs (drop_detected w))"
  have v: "sw_reservation ?v = sw_reservation w" "sw_detected ?v = None" "sw_drain ?v = None"
    using assms(4) by (simp_all add: discard_sentry_def reset_decoder_def on_trace_def)
  have "tokens_ok ?v" using assms(1) by simp
  moreover have "line_ok ?v" by (simp add: line_ok_def v)
  moreover have "wire_ok (sw_handed ?v) (Some t, map_option rr_token (sw_reservation ?v), ZMODEM_CANCEL_SEQUENCE)"
    using assms(3) by (auto simp: wire_ok_def v reservation_matches_def)
  ultimately show ?thesis
    using assms(3) v
    by (simp add: start_unclaimed_abort_def Let_def owner_at start_write_owner)
      (simp add: pc_line_ok_def reservation_matches_def)
qed

lemma decided_unclaimed:
  "expire_pending_zmodem w = Some t \<Longrightarrow> line_ok w \<Longrightarrow> reservation_matches t w \<and> sw_drain w = None"
  "decline_pending_zmodem t direction w \<Longrightarrow> line_ok w \<Longrightarrow> reservation_matches t w \<and> sw_drain w = None"
  by (auto simp: expire_pending_zmodem_def decline_pending_zmodem_def line_ok_def
      split: option.splits if_splits)

lemma conclude_owner: "tokens_ok w \<Longrightarrow> line_ok w \<Longrightarrow> owner_inv (conclude_write harmless ack result w)"
  by (simp add: conclude_write_def Let_def owner_at pc_line_ok_def left_def split: sum.split)

lemma end_transfer_owner:
  assumes "tokens_ok w" and "line_ok w" and "\<forall>d. sw_drain w = Some d \<longrightarrow> ad_token d \<noteq> t"
  shows "owner_inv (end_transfer cs t bs ack w)"
proof -
  have at: "owner_inv (acknowledge r acks (at_pc Looping v)) = (tokens_ok v \<and> line_ok v)"
    for r acks and v :: "'a serial_world"
    using same_owner_cong [of "acknowledge r acks (at_pc Looping v)" v]
    by (simp add: owner_inv_def acknowledge_def at_pc_def pc_line_ok_def left_def)
  show ?thesis
  proof (cases "reservation_matches t w")
    case False
    then show ?thesis using assms by (simp add: end_transfer_def at)
  next
    case True
    then have "sw_drain w = None" using assms(2,3) by (auto simp: line_ok_def reservation_matches_def)
    let ?v = "reset_decoder cs (release_detected_zmodem t (release_transfer t w))"
    have v: "tokens_ok ?v" "line_ok ?v"
      using release_frees [OF assms(2) \<open>sw_drain w = None\<close> True] assms(1) by simp_all
    obtain u ok where u: "show_sentry cs ?v = (u, ok)" by force
    then have u_ok: "tokens_ok u" "line_ok u" using v show_frames [of cs ?v] by simp_all
    obtain x ok' where x: "terminal_feed cs bs (on_trace (trace_show_returned bs) u) = (x, ok')" by force
    then have "tokens_ok x" "line_ok x"
      using u_ok feed_frames [of cs bs "on_trace (trace_show_returned bs) u"] by simp_all
    then show ?thesis
      using True u_ok by (cases ok; cases ok') (simp_all add: end_transfer_def Let_def u x at owner_at left_def)
  qed
qed

lemma run_command_owner:
  assumes "tokens_ok w" and "line_ok w" and "\<forall>t. command_of command = Some t \<longrightarrow> t \<in> set (sw_handed w)"
  shows "owner_inv (run_command cs baud command w)"
proof (cases command)
  case (InputCommand bs)
  have "tokens_ok (start_write None bs w)" if "sw_reservation w = None"
    using that assms(1) by (intro start_write_owner) (simp_all add: wire_ok_def)
  then show ?thesis
    using assms InputCommand by (simp add: run_command_def owner_at start_write_owner pc_line_ok_def)
next
  case (TransferWrite t bs ack)
  have "tokens_ok (start_write (Some t) bs w)" if "reservation_matches t w"
    using that assms TransferWrite
    by (intro start_write_owner) (auto simp: wire_ok_def reservation_matches_def command_of_def)
  then show ?thesis
    using assms TransferWrite
    by (simp add: run_command_def Let_def owner_at start_write_owner conclude_owner pc_line_ok_def)
next
  case (TransferAbortWrite t bs ack)
  have "tokens_ok (start_write (Some t) bs w)" if "reservation_matches t w"
    using that assms TransferAbortWrite
    by (intro start_write_owner) (auto simp: wire_ok_def reservation_matches_def command_of_def)
  then show ?thesis
    using assms TransferAbortWrite
    by (cases "sw_reservation w")
      (simp_all add: run_command_def Let_def owner_at start_write_owner conclude_owner pc_line_ok_def
        command_of_def reservation_matches_def)
next
  case (EndTransfer t bs ack)
  have "tokens_ok (w\<lparr>sw_drain := Some (drain_attach_finish ack d)\<rparr>)" for d
    using assms(1) by simp
  moreover have "line_ok (w\<lparr>sw_drain := Some (drain_attach_finish ack d)\<rparr>)" if "sw_drain w = Some d" for d
    using that assms(2)
    by (auto simp: line_ok_def reservation_matches_def)
  ultimately show ?thesis
    using assms EndTransfer
    by (cases "sw_drain w") (simp_all add: run_command_def end_transfer_owner owner_at pc_line_ok_def)
next
  case (DeclineDetectedZmodem t direction)
  then show ?thesis
    using assms decided_unclaimed(2) [of t direction w]
    by (simp add: run_command_def unclaimed_owner owner_at pc_line_ok_def)
qed

lemma pushed_timely: "drain_push d bs now = (d', tail) \<Longrightarrow> timely now d \<Longrightarrow> timely now d'"
  using timely_drains(3) [of now d bs] by simp

lemma pushed_token:
  assumes "drain_push (with_consecutive_can t n k now) bs now' = (d, tail)"
  shows "ad_token d = t"
proof -
  have "ad_token d = ad_token (with_consecutive_can t n k now)"
    using drain_push_token(1) [of "with_consecutive_can t n k now" bs now'] assms by (simp only: fst_conv)
  then show ?thesis by (simp add: with_consecutive_can_def)
qed

lemma receive_owner:
  assumes "tokens_ok w" and "line_ok w"
  shows "owner_inv (receive_bytes cs bs w)"
proof (cases "sw_drain w")
  case (Some d)
  obtain d' tail where push: "drain_push d bs (sw_now w) = (d', tail)" by force
  have token: "ad_token d' = ad_token d" using drain_push_token [of d bs "sw_now w"] by (simp add: push)
  have line: "reservation_matches (ad_token d') w" "sw_detected w = None" "timely (sw_now w) d'"
    using assms(2) Some token pushed_timely [OF push] by (simp_all add: line_ok_def)
  show ?thesis
  proof (cases tail)
    case None
    have "line_ok ((on_trace (trace_read bs) w)\<lparr>sw_drain := Some d'\<rparr>)"
      using line by (simp add: line_ok_def on_trace_def reservation_matches_def)
    then show ?thesis
      using Some push None assms(1)
      by (simp add: receive_bytes_def Let_def on_trace_def [of "trace_read bs"] owner_at pc_line_ok_def)
        (simp add: on_trace_def [symmetric])
  next
    case (Some tail')
    let ?v = "on_trace (trace_drop_but (length tail')) ((on_trace (trace_read bs) w)\<lparr>sw_drain := None\<rparr>)"
    have "sw_drain ?v = None" "sw_detected ?v = None" "reservation_matches (ad_token d') ?v"
      using line by (simp_all add: on_trace_def reservation_matches_def)
    then have "owner_inv (continue_or_leave (complete_protocol_abort_drain cs d' tail' ?v) Looping)"
      using assms(1) complete_drain_owner [of ?v d' cs tail'] by (intro owner_continue) (simp_all add: pc_line_ok_def)
    then show ?thesis
      using \<open>sw_drain w = Some d\<close> push Some by (simp add: receive_bytes_def Let_def on_trace_def [of "trace_read bs"])
  qed
next
  case None
  let ?w = "on_trace (trace_read bs) w"
  have w: "sw_drain ?w = None" "sw_detected ?w = sw_detected w" "sw_reservation ?w = sw_reservation w"
    "sw_now ?w = sw_now w"
    using None by (simp_all add: on_trace_def)
  show ?thesis
  proof (cases "sw_detected w")
    case None
    then show ?thesis
      using assms w by (simp add: receive_bytes_def Let_def owner_at pc_line_ok_def)
  next
    case (Some p)
    obtain d tail where push: "drain_push (with_consecutive_can (dt_token p) 5 (dt_consecutive_can p) (sw_now w))
        bs (sw_now w) = (d, tail)" by force
    have token: "ad_token d = dt_token p" by (rule pushed_token [OF push])
    have held: "reservation_matches (dt_token p) w"
      using assms(2) Some by (auto simp: line_ok_def reservation_matches_def)
    have counted: "tokens_ok (v\<lparr>sw_detected := Some (p\<lparr>dt_consecutive_can := n\<rparr>)\<rparr>)"
      "line_ok (v\<lparr>sw_detected := Some (p\<lparr>dt_consecutive_can := n\<rparr>)\<rparr>)"
      if "tokens_ok v" "line_ok v" "sw_detected v = Some p" for n and v :: "'a serial_world"
      using that by (auto simp: tokens_ok_def line_ok_def reservation_matches_def)
    have "timely (sw_now w) d" using pushed_timely [OF push] by simp
    then have "owner_inv (quarantine cs d tail (drop_detected ?w))"
      using assms(1) held w token by (intro quarantine_owner) (simp_all add: reservation_matches_def)
    then show ?thesis
      using assms w Some push counted [of ?w]
      by (simp add: receive_bytes_def Let_def owner_at pc_line_ok_def)
  qed
qed

lemma watch_owner:
  assumes "tokens_ok w" and "line_ok w" and "sw_drain w = None"
  shows "owner_inv (watch_terminal cs bs w)"
proof -
  have drain: "sw_drain (fst (terminal_feed cs out v)) = sw_drain v" for out and v :: "'a serial_world"
    using same_owner_ops(13) [of cs out v v] by (simp add: same_owner_def)
  have kept: "sw_drain (on_trace f v) = sw_drain v" for f and v :: "'a serial_world" by (simp add: on_trace_def)
  have go: "owner_inv (continue_or_leave (terminal_feed cs out (on_trace f (w\<lparr>sw_sentry := input\<rparr>))) pc)"
    if "pc = Looping \<or> (\<exists>direction rest. pc = Reserving direction rest)" for out f input pc
    using that assms by (intro owner_continue) (auto simp: pc_line_ok_def drain kept)
  show ?thesis
    using assms go
    by (simp add: watch_terminal_def owner_at left_def split: prod.split sum.split option.split)
qed

lemma route_owner:
  assumes "tokens_ok w" and "line_ok w" and "sw_drain w = None"
  shows "owner_inv (route_bytes cs bs w)"
proof (cases "sw_reservation w")
  case None
  then show ?thesis using assms by (simp add: route_bytes_def watch_owner)
next
  case (Some r)
  have "line_ok (w\<lparr>sw_reservation := None\<rparr>)" if closed: "\<not> rc_open (sw_channels w (rr_token r))"
  proof -
    have "rc_open (sw_channels w (dt_token p))" "rr_token r = dt_token p" if "sw_detected w = Some p" for p
      using that assms(1,2) Some by (simp_all add: tokens_ok_def line_ok_def)
    then have "sw_detected w = None" using closed by (cases "sw_detected w") simp_all
    then show ?thesis using assms(3) by (simp add: line_ok_def)
  qed
  then show ?thesis
    using assms Some by (simp add: route_bytes_def watch_owner owner_at pc_line_ok_def reservation_matches_def)
qed

lemma send_event_owner:
  assumes "tokens_ok w" and "line_ok w"
  shows "owner_inv (send_transfer_event t bs w)"
proof -
  have "same_owner (set_channel t (\<lambda>c. c\<lparr>rc_events := rc_events c @ [RawData bs]\<rparr>) w) w"
    by (simp add: same_owner_def set_channel_def)
  then have "tokens_ok (set_channel t (\<lambda>c. c\<lparr>rc_events := rc_events c @ [RawData bs]\<rparr>) w)"
    "line_ok (set_channel t (\<lambda>c. c\<lparr>rc_events := rc_events c @ [RawData bs]\<rparr>) w)"
    using assms same_owner_cong(1,2) by blast+
  then show ?thesis using assms by (simp add: send_transfer_event_def Let_def owner_at pc_line_ok_def left_def)
qed

lemma reserve_owner:
  assumes "tokens_ok w" and "line_ok w" and "sw_drain w = None"
  shows "owner_inv (reserve_detected_zmodem cs uuid direction bs w)"
proof (cases "sw_reservation w")
  case (Some r)
  then show ?thesis
    using assms by (simp add: reserve_detected_zmodem_def owner_at pc_line_ok_def reservation_matches_def)
next
  case None
  let ?t = "sw_next_token w"
  let ?v = "w\<lparr>sw_next_token := ?t + 1,
      sw_reservation := Some \<lparr>rr_token = ?t, rr_transfer_id = uuid ?t, rr_kind = serial_transfer_kind.Zmodem\<rparr>\<rparr>"
  have free: "sw_detected w = None" using assms(2) None by (cases "sw_detected w") (auto simp: line_ok_def)
  have fresh: "?t \<notin> set (sw_handed w)" "sw_handles w ?t = None"
    using assms(1) by (auto simp: tokens_ok_def)
  obtain d tail where push: "drain_push (with_consecutive_can ?t 5 0 (sw_now w)) bs (sw_now w) = (d, tail)" by force
  have token: "ad_token d = ?t" by (rule pushed_token [OF push])
  let ?shut = "set_channel ?t (\<lambda>_. \<lparr>rc_events = [], rc_open = False, rc_cancel = False\<rparr>) ?v"
  have "tokens_ok ?shut"
    using assms(1) fresh free by (auto simp: tokens_ok_def set_channel_def less_Suc_eq)
  moreover have "timely (sw_now w) d" using pushed_timely [OF push] by simp
  ultimately have quarantined: "owner_inv (quarantine cs d tail ?shut)"
    using assms(3) free token by (intro quarantine_owner) (simp_all add: set_channel_def reservation_matches_def)
  let ?p = "\<lparr>dt_token = ?t, dt_transfer_id = uuid ?t, dt_direction = direction,
      dt_consecutive_can = ad_consecutive_can d, dt_deadline = sw_now w + ZMODEM_DETECTION_TIMEOUT\<rparr>"
  let ?open = "set_channel ?t (\<lambda>_. \<lparr>rc_events = [RawData bs], rc_open = True, rc_cancel = False\<rparr>)
      (?v\<lparr>sw_detected := Some ?p\<rparr>)"
  have "tokens_ok ?open" "line_ok ?open"
    using assms fresh by (auto simp: tokens_ok_def line_ok_def set_channel_def less_Suc_eq)
  then have "owner_inv (continue_or_leave (emit_regular (ZmodemDetected (uuid ?t) direction)
      (on_trace (trace_send ?t) ?open)) Looping)"
    by (intro owner_continue) (simp_all add: pc_line_ok_def)
  then show ?thesis
    using None push quarantined by (simp add: reserve_detected_zmodem_def Let_def)
qed

lemma eof_owner: "tokens_ok w \<Longrightarrow> owner_inv (remote_eof cs w)"
  by (simp add: remote_eof_def Let_def owner_at left_def case_prod_beta split: bool.split)

lemma select_owner:
  assumes "tokens_ok w" and "line_ok w" and "sw_pc w = Selecting"
  shows "owner_inv (select_branch cs baud input w)"
proof -
  have stay: "owner_inv w" using assms by (simp add: owner_inv_def pc_line_ok_def)
  have complete: "owner_inv (continue_or_leave (complete_protocol_abort_drain cs d [] (w\<lparr>sw_drain := None\<rparr>)) Looping)"
    if "sw_drain w = Some d" for d
    using that assms complete_drain_owner [of "w\<lparr>sw_drain := None\<rparr>" d cs "[]"]
    by (intro owner_continue) (simp_all add: line_ok_def reservation_matches_def pc_line_ok_def)
  have command: "owner_inv (run_command cs baud command (w\<lparr>sw_commands := rest\<rparr>))"
    if "sw_commands w = command # rest" for command rest
  proof -
    have "tokens_ok (w\<lparr>sw_commands := rest\<rparr>)" using assms(1) that by (simp add: tokens_ok_def)
    moreover have "line_ok (w\<lparr>sw_commands := rest\<rparr>)" using assms(2) by (simp add: line_ok_def reservation_matches_def)
    ultimately show ?thesis
      using that assms(1) by (intro run_command_owner) (simp_all add: tokens_ok_def)
  qed
  have expired: "owner_inv (start_unclaimed_abort cs baud t w)" if "expire_pending_zmodem w = Some t" for t
    using that assms decided_unclaimed(1) unclaimed_owner by blast
  show ?thesis
    using assms stay complete command expired
    by (simp add: select_branch_def owner_at left_def pc_line_ok_def eof_owner receive_owner
        split: stop_signal.split option.split list.split sum.split)
qed

lemma new_token [simp]: "ad_token (drain_new t kind now) = t"
  by (simp add: drain_new_def with_consecutive_can_def)

lemma replace_drain_owner:
  assumes "tokens_ok w" and "reservation_matches (ad_token d) w" and "sw_detected w = None"
    and "timely (sw_now w) d"
  shows "tokens_ok (replace_drain d w)" and "line_ok (replace_drain d w)"
proof -
  have "line_ok (w\<lparr>sw_drain := Some d\<rparr>)"
    using assms(2-4) by (simp add: line_ok_def reservation_matches_def)
  then show "line_ok (replace_drain d w)" by (simp add: replace_drain_def split: option.split)
  show "tokens_ok (replace_drain d w)" using assms(1) by (simp add: replace_drain_def split: option.split)
qed

lemma aborted_owner:
  assumes "tokens_ok w" and "line_ok w" and "reservation_matches t w" and "t \<in> set (sw_handed w)"
  shows "owner_inv (conclude_write harmless ack result (replace_drain (drain_new t kind (sw_now w)) w))"
proof -
  have "sw_detected w = None"
    using assms by (cases "sw_detected w") (auto simp: line_ok_def tokens_ok_def reservation_matches_def)
  then show ?thesis
    using assms(1,3) by (intro conclude_owner replace_drain_owner) simp_all
qed

lemma actor_owner:
  assumes "owner_inv w"
  shows "owner_inv (actor_step cs uuid baud input w)"
proof -
  have tokens: "tokens_ok w" using assms by (simp add: owner_inv_def)
  show ?thesis
  proof (cases "left (sw_pc w)")
    case True
    have "tokens_ok (w\<lparr>sw_registered := a, sw_drain := b, sw_commands := [], sw_commands_open := c\<rparr>)" for a b c
      using tokens by (simp add: tokens_ok_def)
    then show ?thesis
      using True assms tokens by (auto simp: actor_step_def owner_at left_def)
  next
    case False
    then have line: "line_ok w" and pc: "pc_line_ok w (sw_pc w)" using assms by (simp_all add: owner_inv_def)
    note here = assms tokens line pc
    show ?thesis
    proof (cases "sw_pc w")
      case Starting
      have "owner_inv (continue_or_leave (emit_regular Connecting w) (Opening deadline))" for deadline
        using tokens line by (intro owner_continue) (simp_all add: pc_line_ok_def)
      then show ?thesis by (simp add: actor_step_def Starting)
    next
      case (Opening deadline)
      have "owner_inv (continue_or_leave (emit_regular Connected w) Looping)"
        using tokens line by (intro owner_continue) (simp_all add: pc_line_ok_def)
      then show ?thesis
        using here by (simp add: actor_step_def Opening owner_at left_def split: option.split sum.split)
    next
      case Looping
      then show ?thesis using here by (simp add: actor_step_def loop_head_owner)
    next
      case Selecting
      then show ?thesis using here by (simp add: actor_step_def select_owner)
    next
      case (AbortFlushing t kind ack deadline)
      then show ?thesis
        using here by (simp add: actor_step_def conclude_owner aborted_owner pc_line_ok_def split: option.split sum.split)
    next
      case (UnclaimedFlushing t deadline)
      then show ?thesis
        using here by (simp add: actor_step_def owner_at left_def replace_drain_owner pc_line_ok_def
            split: option.split sum.split)
    next
      case (Routing bs)
      then show ?thesis using here by (simp add: actor_step_def route_owner pc_line_ok_def)
    next
      case (SendingEvent t bs)
      then show ?thesis using here by (simp add: actor_step_def send_event_owner)
    next
      case (Reserving direction bs)
      then show ?thesis using here by (simp add: actor_step_def reserve_owner pc_line_ok_def)
    qed (use here False in \<open>simp_all add: actor_step_def owner_at conclude_owner pc_line_ok_def left_def
        split: option.split sum.split\<close>)
  qed
qed

section \<open>The calls of the clients\<close>

text \<open>A call that leaves a task of a transfer that was handed out.\<close>

definition client_ok :: "'d serial_world \<times> client_task \<Rightarrow> bool" where
  "client_ok r \<longleftrightarrow> owner_inv (fst r) \<and> (\<forall>t. task_of (snd r) = Some t \<longrightarrow> t \<in> set (sw_handed (fst r)))"

lemma client_done: "client_ok (w, TaskDone result) = owner_inv w"
  by (simp add: client_ok_def task_of_def)

lemma owner_same: "same_owner v w \<Longrightarrow> sw_pc v = sw_pc w \<Longrightarrow> owner_inv v = owner_inv w"
  using same_owner_cong(1-3) [of v w] by (simp add: owner_inv_def)

lemma command_owner:
  assumes "owner_inv w" and "\<forall>t. command_of command = Some t \<longrightarrow> t \<in> set (sw_handed w)"
  shows "owner_inv (w\<lparr>sw_commands := sw_commands w @ [command]\<rparr>)"
  using assms by (auto simp: owner_inv_def owner_defs pc_line_ok_def cong: actor_pc.case_cong)

lemma task_owner:
  assumes "owner_inv w" and "\<forall>t. task_of task = Some t \<longrightarrow> t \<in> set (sw_handed w)"
  shows "owner_inv (w\<lparr>sw_tasks := (sw_tasks w)(i := task)\<rparr>)"
  using assms by (auto simp: owner_inv_def owner_defs pc_line_ok_def cong: actor_pc.case_cong)

lemma try_send_owner:
  assumes "owner_inv w" and "\<forall>t. command_of command = Some t \<longrightarrow> t \<in> set (sw_handed w)"
  shows "owner_inv (fst (try_send_command command w))"
  using assms command_owner [of w command] by (simp add: try_send_command_def)

text \<open>Who closes the channel of a transfer has given up its handle.\<close>

lemma close_owner:
  assumes "owner_inv w" and "t \<in> set (sw_handed w)"
  shows "owner_inv ((close_channel t w)\<lparr>sw_handles := (sw_handles w)(t := None)\<rparr>)"
proof -
  let ?v = "(close_channel t w)\<lparr>sw_handles := (sw_handles w)(t := None)\<rparr>"
  have same: "sw_reservation ?v = sw_reservation w" "sw_detected ?v = sw_detected w" "sw_drain ?v = sw_drain w"
    "sw_handed ?v = sw_handed w" "sw_pc ?v = sw_pc w" "sw_next_token ?v = sw_next_token w"
    "sw_commands ?v = sw_commands w" "sw_tasks ?v = sw_tasks w" "sw_wire ?v = sw_wire w"
    "sw_handles ?v = (sw_handles w)(t := None)" "sw_now ?v = sw_now w"
    by (simp_all add: close_channel_def set_channel_def)
  have channel: "rc_open (sw_channels ?v t') = rc_open (sw_channels w t')" if "t' \<noteq> t" for t'
    using that by (simp add: close_channel_def set_channel_def)
  have "tokens_ok w" using assms(1) by (simp add: owner_inv_def)
  then have "tokens_ok ?v"
    using assms(2) channel unfolding tokens_ok_def same by (auto split: if_splits) metis
  moreover have "line_ok ?v = line_ok w" "pc_line_ok ?v (sw_pc w) = pc_line_ok w (sw_pc w)"
    by (simp_all only: line_ok_def pc_line_ok_def reservation_matches_def same)
  ultimately show ?thesis using assms(1) by (simp add: owner_inv_def same)
qed

lemma drop_handle_owner:
  assumes "owner_inv w"
  shows "owner_inv (drop_handle t w)"
proof (cases "sw_handles w t = None")
  case False
  then have handed: "t \<in> set (sw_handed w)" using assms by (auto simp: owner_inv_def tokens_ok_def)
  let ?v = "fst (try_send_command (EndTransfer t [] None) w)"
  have v: "sw_handles ?v = sw_handles w" "sw_handed ?v = sw_handed w" by (simp_all add: try_send_command_def)
  have "owner_inv ?v" using assms handed by (intro try_send_owner) (simp_all add: command_of_def)
  then have "owner_inv ((close_channel t ?v)\<lparr>sw_handles := (sw_handles ?v)(t := None)\<rparr>)"
    using handed v by (intro close_owner) simp_all
  moreover have "drop_handle t w = (close_channel t ?v)\<lparr>sw_handles := (sw_handles ?v)(t := None)\<rparr>"
    unfolding v drop_handle_def by (rule if_not_P [OF False])
  ultimately show ?thesis by simp
qed (use assms in \<open>simp add: drop_handle_def\<close>)

lemma handed_monotone:
  "set (sw_handed w) \<subseteq> set (sw_handed (drop_handle t w))"
  "set (sw_handed (fst (try_send_command command w))) = set (sw_handed w)"
  by (simp_all add: drop_handle_def try_send_command_def close_channel_def set_channel_def)

lemma owner_fields [simp]:
  "owner_inv (w\<lparr>sw_next_ack := a\<rparr>) = owner_inv w"
  "owner_inv (w\<lparr>sw_window := b\<rparr>) = owner_inv w"
  "owner_inv (w\<lparr>sw_stop := c\<rparr>) = owner_inv w"
  "owner_inv (w\<lparr>sw_events := e\<rparr>) = owner_inv w"
  "owner_inv (w\<lparr>sw_events := e, sw_events_open := f\<rparr>) = owner_inv w"
  by (rule owner_same; simp)+

lemma signal_owner [simp]: "owner_inv (signal_cancel t w) = owner_inv w"
  by (rule owner_same, simp) (simp add: signal_cancel_def set_channel_def)

lemma handle_handed: "owner_inv w \<Longrightarrow> sw_handles w t = Some h \<Longrightarrow> t \<in> set (sw_handed w)"
  by (auto simp: owner_inv_def tokens_ok_def)

lemma begin_owner:
  assumes "owner_inv w"
  shows "owner_inv (fst (begin_raw_transfer uuid passed kind w))"
proof (cases "sw_reservation w = None \<and> running_entry passed w = Inr ()")
  case True
  let ?t = "sw_next_token w"
  let ?v = "fst (begin_raw_transfer uuid passed kind w)"
  have v: "?v = new_handle ?t kind
      (set_channel ?t (\<lambda>_. \<lparr>rc_events = [], rc_open = True, rc_cancel = False\<rparr>)
        (w\<lparr>sw_next_token := ?t + 1,
           sw_reservation := Some \<lparr>rr_token = ?t, rr_transfer_id = uuid ?t, rr_kind = kind\<rparr>\<rparr>))"
    using True by (simp add: begin_raw_transfer_def Let_def)
  have tokens: "tokens_ok w" using assms by (simp add: owner_inv_def)
  have fields: "sw_reservation ?v = Some \<lparr>rr_token = ?t, rr_transfer_id = uuid ?t, rr_kind = kind\<rparr>"
    "sw_detected ?v = sw_detected w" "sw_drain ?v = sw_drain w" "sw_handed ?v = sw_handed w @ [?t]"
    "sw_next_token ?v = ?t + 1" "sw_commands ?v = sw_commands w" "sw_tasks ?v = sw_tasks w"
    "sw_wire ?v = sw_wire w" "sw_pc ?v = sw_pc w" "sw_now ?v = sw_now w"
    "sw_handles ?v = (sw_handles w)(?t \<mapsto> \<lparr>rh_kind = kind, rh_cancel_delivered = False\<rparr>)"
    "sw_channels ?v = (sw_channels w)(?t := \<lparr>rc_events = [], rc_open = True, rc_cancel = False\<rparr>)"
    unfolding v by (simp_all add: new_handle_def set_channel_def)
  have wire: "wire_ok (sw_handed w) entry \<Longrightarrow> wire_ok (sw_handed w @ [?t]) entry" for entry
    by (auto simp: wire_ok_def)
  have "tokens_ok ?v"
    unfolding tokens_ok_def fields using tokens wire by (auto simp: tokens_ok_def less_Suc_eq)
  moreover have "line_ok ?v" if "line_ok w"
    using that True unfolding line_ok_def fields by (auto simp: reservation_matches_def)
  moreover have "pc_line_ok ?v (sw_pc w)" if "pc_line_ok w (sw_pc w)"
    using that True by (cases "sw_pc w") (simp_all add: pc_line_ok_def fields reservation_matches_def)
  ultimately show ?thesis using assms by (auto simp: owner_inv_def fields)
next
  case False
  then have "fst (begin_raw_transfer uuid passed kind w) = w"
    by (auto simp: begin_raw_transfer_def Let_def split: sum.split option.split)
  then show ?thesis using assms by simp
qed

lemma claim_owner:
  assumes "owner_inv w"
  shows "owner_inv (fst (claim_detected_zmodem t transfer_id direction w))"
proof (cases "pending_matches t transfer_id direction w")
  case True
  then obtain p where p: "sw_detected w = Some p" "dt_token p = t"
    by (auto simp: pending_matches_def split: option.splits)
  let ?v = "fst (claim_detected_zmodem t transfer_id direction w)"
  have fields: "sw_reservation ?v = sw_reservation w" "sw_detected ?v = None" "sw_drain ?v = sw_drain w"
    "sw_handed ?v = sw_handed w @ [t]" "sw_next_token ?v = sw_next_token w" "sw_commands ?v = sw_commands w"
    "sw_tasks ?v = sw_tasks w" "sw_wire ?v = sw_wire w" "sw_pc ?v = sw_pc w" "sw_now ?v = sw_now w"
    "sw_handles ?v = (sw_handles w)(t \<mapsto> \<lparr>rh_kind = serial_transfer_kind.Zmodem, rh_cancel_delivered = False\<rparr>)"
    "sw_channels ?v = sw_channels w"
    using True by (simp_all add: claim_detected_zmodem_def new_handle_def)
  have tokens: "tokens_ok w" using assms by (simp add: owner_inv_def)
  have wire: "wire_ok (sw_handed w) entry \<Longrightarrow> wire_ok (sw_handed w @ [t]) entry" for entry
    by (auto simp: wire_ok_def)
  have "tokens_ok ?v"
    unfolding tokens_ok_def fields using tokens wire p by (auto simp: tokens_ok_def)
  moreover have "line_ok ?v" if "line_ok w"
    using that p unfolding line_ok_def fields by (auto simp: reservation_matches_def)
  moreover have "pc_line_ok ?v (sw_pc w)" if "pc_line_ok w (sw_pc w)"
    using that by (cases "sw_pc w") (simp_all add: pc_line_ok_def fields reservation_matches_def)
  ultimately show ?thesis using assms by (auto simp: owner_inv_def fields)
qed (use assms in \<open>simp add: claim_detected_zmodem_def\<close>)

lemma input_owner:
  assumes "owner_inv w"
  shows "owner_inv (fst (serial_input cs passed bs w))"
  using assms try_send_owner [of w "InputCommand encoded" for encoded]
  by (simp add: serial_input_def command_of_def split: sum.split option.split)

lemma write_call_owner:
  assumes "owner_inv w" and "\<And>ack. command_of (command t bs ack) = Some t"
  shows "client_ok (write_call command t bs w)"
  using assms handle_handed [OF assms(1), of t]
  by (cases "sw_handles w t") (simp_all add: write_call_def client_ok_def task_of_def)

lemma finish_call_owner:
  assumes "owner_inv w"
  shows "client_ok (finish_call t bs w)"
  using assms drop_handle_owner [OF assms, of t] handle_handed [OF assms, of t]
  by (cases "sw_handles w t") (simp_all add: finish_call_def client_ok_def task_of_def)

lemma done_client: "client_ok (done_with r) = owner_inv (fst r)"
  by (simp add: done_with_def case_prod_beta client_done)

lemma client_start_owner:
  assumes "owner_inv w"
  shows "client_ok (client_start cs uuid passed call w)"
  using assms
  by (cases call)
    (simp_all add: client_start_def done_client client_done input_owner begin_owner write_call_owner
      finish_call_owner command_of_def request_transfer_cancel_exact_def resize_session_def request_stop_def
      client_ok_def [of "(_, ClaimLooked _ _ _)"] client_ok_def [of "(_, DeclineLooked _ _ _)"] task_of_def
      split: sum.split option.split)

lemma send_command_owner:
  assumes "owner_inv w" and "\<forall>t. command_of command = Some t \<longrightarrow> t \<in> set (sw_handed w)"
    and "send_command command w = Some r"
  shows "(\<exists>v. r = Inl v \<and> v = w) \<or> (\<exists>v. r = Inr v \<and> owner_inv v \<and> sw_handed v = sw_handed w)"
  using assms command_owner [OF assms(1,2)] by (auto simp: send_command_def split: if_splits)

lemma client_continue_owner:
  assumes "owner_inv w" and "\<forall>t. task_of task = Some t \<longrightarrow> t \<in> set (sw_handed w)"
  shows "client_ok (client_continue task w)"
proof (cases task)
  case (SendWaiting command ack)
  then show ?thesis
    using assms send_command_owner [OF assms(1), of command]
    by (fastforce simp: client_continue_def client_ok_def task_of_def split: option.splits sum.splits)
next
  case (FinishWaiting t bs ack)
  then show ?thesis
    using assms send_command_owner [OF assms(1), of "EndTransfer t bs (Some ack)"] drop_handle_owner [OF assms(1), of t]
    by (fastforce simp: client_continue_def client_ok_def task_of_def command_of_def split: option.splits sum.splits)
next
  case (FinishAwaiting t ack)
  have "owner_inv (finish_handle t w)"
    using assms FinishAwaiting by (simp add: finish_handle_def close_owner task_of_def)
  then show ?thesis
    using assms FinishAwaiting drop_handle_owner [OF assms(1), of t]
    by (simp add: client_continue_def client_ok_def task_of_def split: option.split sum.split)
next
  case (ClaimLooked t transfer_id direction)
  then show ?thesis using assms by (simp add: client_continue_def done_client claim_owner)
next
  case (DeclineChecked t direction)
  then show ?thesis
    using assms try_send_owner [OF assms(1), of "DeclineDetectedZmodem t direction"]
    by (simp add: client_continue_def done_client command_of_def)
qed (use assms in \<open>simp_all add: client_continue_def done_client claim_owner client_ok_def task_of_def
    split: option.split\<close>)

lemma recv_owner:
  assumes "owner_inv w"
  shows "owner_inv (fst (handle_recv t w))"
proof -
  have "owner_inv (set_channel t (\<lambda>c. c\<lparr>rc_events := rest\<rparr>) w) = owner_inv w" for rest
    by (rule owner_same) (simp_all add: same_owner_def set_channel_def)
  moreover have "owner_inv (w\<lparr>sw_handles := (sw_handles w)(t \<mapsto> h)\<rparr>)" if "sw_handles w t = Some h'" for h h'
  proof -
    have "((sw_handles w)(t \<mapsto> h)) t' \<noteq> None \<longleftrightarrow> sw_handles w t' \<noteq> None" for t'
      using that by simp
    then show ?thesis
      using assms by (simp add: owner_inv_def owner_defs pc_line_ok_def cong: actor_pc.case_cong)
  qed
  ultimately show ?thesis using assms by (simp add: handle_recv_def split: option.split list.split)
qed

lemma abandon_tasks: "sw_tasks (client_abandon task w) = sw_tasks w"
  by (cases task) (simp_all add: client_abandon_def drop_handle_def try_send_command_def close_channel_def set_channel_def)

lemma step_owner:
  assumes "owner_inv w"
  shows "owner_inv (serial_step cs uuid baud event w)"
proof -
  have store: "owner_inv ((fst r)\<lparr>sw_tasks := (sw_tasks (fst r))(i := snd r)\<rparr>)" if "client_ok r" for r i
    using that by (simp add: client_ok_def task_owner)
  show ?thesis
  proof (cases event)
    case (ActorStep input)
    then show ?thesis using assms by (simp add: actor_owner)
  next
    case (ClientCall i passed call)
    have "client_ok (client_start cs uuid passed call w)" by (rule client_start_owner [OF assms])
    then show ?thesis
      using assms store [OF \<open>client_ok (client_start cs uuid passed call w)\<close>]
      by (simp add: ClientCall case_prod_beta split: client_task.split)
  next
    case (ClientContinue i)
    have "\<forall>t. task_of (sw_tasks w i) = Some t \<longrightarrow> t \<in> set (sw_handed w)"
      using assms by (auto simp: owner_inv_def tokens_ok_def)
    then have "client_ok (client_continue (sw_tasks w i) w)" by (rule client_continue_owner [OF assms])
    then show ?thesis using store by (simp add: ClientContinue case_prod_beta)
  next
    case (ClientAbandon i)
    have "owner_inv (client_abandon (sw_tasks w i) w)"
      using assms drop_handle_owner [OF assms] by (simp add: client_abandon_def split: client_task.split)
    then show ?thesis using task_owner [of "client_abandon (sw_tasks w i) w" TaskIdle i]
      by (simp add: ClientAbandon task_of_def abandon_tasks)
  next
    case (HandleRecv t)
    then show ?thesis using assms by (simp add: recv_owner)
  next
    case (DropHandle t)
    then show ?thesis using assms by (simp add: drop_handle_owner)
  next
    case OtherSession
    have "tokens_ok w \<Longrightarrow> tokens_ok (w\<lparr>sw_next_token := Suc (sw_next_token w)\<rparr>)"
      by (auto simp: tokens_ok_def less_Suc_eq)
    then show ?thesis
      using assms by (auto simp: OtherSession owner_inv_def line_ok_def pc_line_ok_def reservation_matches_def
          cong: actor_pc.case_cong)
  next
    case (Elapse n)
    have "line_ok w \<Longrightarrow> line_ok (w\<lparr>sw_now := sw_now w + n\<rparr>)"
      by (auto simp: line_ok_def reservation_matches_def timely_later)
    moreover have "tokens_ok (w\<lparr>sw_now := sw_now w + n\<rparr>) = tokens_ok w"
      "pc_line_ok (w\<lparr>sw_now := sw_now w + n\<rparr>) (sw_pc w) = pc_line_ok w (sw_pc w)"
      by (simp_all add: tokens_ok_def pc_line_ok_def reservation_matches_def cong: actor_pc.case_cong)
    ultimately show ?thesis using assms by (auto simp: Elapse owner_inv_def)
  qed (use assms in simp_all)
qed

interpretation ownership: transition_system
  "\<lambda>w v. \<exists>event. v = serial_step cs uuid baud event w" owner_inv
  for cs uuid baud
  by unfold_locales (auto intro: step_owner)

lemma run_owner: "owner_inv (serial_run cs uuid baud events (serial_start cs' window token now))"
  by (rule ownership.reach_inv [OF serial_run_reach])
    (simp add: owner_inv_def serial_start_def owner_defs pc_line_ok_def task_of_def)

text \<open>A session that opens, in which a transfer begins and writes.\<close>

definition opened :: actor_input where
  "opened = \<lparr>ai_open = Some (Inr ()), ai_io = Some (Inr ()), ai_read = None\<rparr>"

definition sample_transfer :: "unit serial_world" where
  "sample_transfer = serial_run sample_charset (\<lambda>_. []) 9600
     [ActorStep opened, ActorStep opened, ActorStep opened, ClientCall 0 False (CallBegin YmodemSend),
      ClientCall 0 False (CallWrite 1 [0x43]), ClientContinue 0, ActorStep opened]
     (serial_start sample_charset sample_window 1 0)"

definition sample_abort :: "unit serial_world" where
  "sample_abort = serial_run sample_charset (\<lambda>_. []) 9600
     [ActorStep opened, ActorStep opened, ActorStep opened, ClientCall 0 False (CallBegin YmodemSend),
      ClientCall 0 False (CallAbort 1 [0x18, 0x18]), ClientContinue 0, ActorStep opened, ActorStep opened,
      ActorStep opened]
     (serial_start sample_charset sample_window 1 0)"

lemmas sample_steps = serial_run_def serial_start_def actor_step_def emit_regular_def try_emit_def
  EVENT_CHANNEL_CAPACITY_def TERMINAL_EVENT_RESERVE_def continue_or_leave_def at_pc_def client_start_def
  find_entry_def running_entry_def done_with_def OPEN_TIMEOUT_def loop_head_def release_abandoned_transfer_def
  begin_raw_transfer_def new_handle_def set_channel_def write_call_def reservation_matches_def
  MAX_RAW_TRANSFER_WRITE_BYTES_def client_continue_def send_command_def COMMAND_CHANNEL_CAPACITY_def
  select_branch_def expire_pending_zmodem_def run_command_def start_write_def Let_def opened_def

lemma sample_transfer_facts:
  "sw_wire sample_transfer = [(Some 1, Some 1, [0x43])]" "sw_handed sample_transfer = [1]"
  by (simp_all add: sample_transfer_def sample_steps)

lemma write_timeout_positive [simp]: "0 < serial_write_timeout baud n" "serial_write_timeout baud n = 0 \<longleftrightarrow> False"
  by (simp_all add: serial_write_timeout_def IO_WRITE_TIMEOUT_def MAX_IO_WRITE_TIMEOUT_def Let_def)

lemma sample_abort_facts:
  "sw_drain sample_abort = Some (drain_new 1 YmodemSend 0)" "sw_pc sample_abort = Looping"
  by (simp_all add: sample_abort_def sample_steps interruptible_serial_io_def conclude_write_def replace_drain_def
      acknowledge_def)

text \<open>C5: Whatever the interleaving of the actor, the clients and the ports, no transfer is handed out
  twice, and a detected one that waits has not been handed out yet; and every write to the port is
  made for the transfer that owns the line at that moment, or for the terminal while no transfer
  owns it; what is written for a transfer that nobody holds is the cancel sequence.\<close>

theorem serial_line_owner:
  assumes "w = serial_run cs uuid baud events (serial_start cs window token now)"
  shows "distinct (sw_handed w) \<and>
    (\<forall>t h. sw_handles w t = Some h \<longrightarrow> t \<in> set (sw_handed w)) \<and>
    (\<forall>p. sw_detected w = Some p \<longrightarrow> dt_token p \<notin> set (sw_handed w)) \<and>
    (\<forall>(source, owner, bs) \<in> set (sw_wire w).
       source = owner \<and> (\<forall>t. source = Some t \<longrightarrow> t \<in> set (sw_handed w) \<or> bs = ZMODEM_CANCEL_SEQUENCE))"
proof -
  have "tokens_ok w" using run_owner [of cs uuid baud events cs window token now] assms by (simp add: owner_inv_def)
  then show ?thesis by (auto simp: tokens_ok_def wire_ok_def)
qed

theorem serial_line_owner_witness:
  "distinct (sw_handed sample_transfer) \<and> sw_wire sample_transfer \<noteq> [] \<and>
    list_all (\<lambda>(source, owner, bs). source = owner) (sw_wire sample_transfer)"
  using serial_line_owner [OF sample_transfer_def] by (auto simp: sample_transfer_facts)

text \<open>Sections of a client that find a drain.\<close>

lemma quarantine_refuses:
  assumes "sw_reservation w = Some r" and "sw_detected w = None"
  shows "fst (begin_raw_transfer uuid passed kind w) = w"
    and "fst (claim_detected_zmodem t transfer_id direction w) = w"
    and "bs \<noteq> [3] \<Longrightarrow> fst (serial_input cs passed bs w) = w"
  using assms by (auto simp: begin_raw_transfer_def claim_detected_zmodem_def pending_matches_def serial_input_def
      split: sum.split)

lemma complete_drain_frees:
  assumes "complete_protocol_abort_drain cs d [] w = (v, ok)" and "reservation_matches (ad_token d) w"
  shows "ok" and "sw_reservation v = None" and "sw_drain v = sw_drain w"
    and "\<forall>ack \<in> set (ad_finish_acks d). sw_acks v ack = Some (Inr ())"
  using assms
  by (auto simp: complete_protocol_abort_drain_def Let_def terminal_feed_def acknowledge_def discard_sentry_def
      reset_decoder_def on_trace_def release_detected_zmodem_def release_transfer_def close_channel_def
      set_channel_def split: if_splits)

section \<open>The end of the quarantine\<close>

text \<open>The deadline of the call in which the actor waits for the port.\<close>

definition io_deadline :: "actor_pc \<Rightarrow> nat option" where
  "io_deadline pc =
     (case pc of
        Opening deadline \<Rightarrow> Some deadline
      | WritingInput deadline \<Rightarrow> Some deadline
      | TransferWriting _ _ _ deadline \<Rightarrow> Some deadline
      | TransferFlushing _ _ deadline \<Rightarrow> Some deadline
      | AbortWriting _ _ _ _ deadline \<Rightarrow> Some deadline
      | AbortFlushing _ _ _ deadline \<Rightarrow> Some deadline
      | UnclaimedWriting _ _ deadline \<Rightarrow> Some deadline
      | UnclaimedFlushing _ deadline \<Rightarrow> Some deadline
      | ClosingFlush deadline \<Rightarrow> Some deadline
      | ShuttingDown deadline \<Rightarrow> Some deadline
      | _ \<Rightarrow> None)"

text \<open>A round of an interleaving: time passes, others act as they like, then the actor makes a step.\<close>

definition round_of :: "nat \<Rightarrow> serial_event list \<Rightarrow> bool" where
  "round_of n events \<longleftrightarrow>
     (\<exists>others input. events = Elapse n # others @ [ActorStep input] \<and> (\<forall>input'. ActorStep input' \<notin> set others))"

text \<open>How many rounds the actor is away from freeing the line.\<close>

definition rounds_to_free :: "actor_pc \<Rightarrow> nat" where
  "rounds_to_free pc =
     (case pc of
        Leaving \<Rightarrow> 1
      | Looping \<Rightarrow> 1
      | Selecting \<Rightarrow> 4
      | ClosingFlush _ \<Rightarrow> 3
      | Starting \<Rightarrow> 3
      | _ \<Rightarrow> 2)"

definition freeing :: "nat \<Rightarrow> nat \<Rightarrow> 'd serial_world \<Rightarrow> bool" where
  "freeing n k w \<longleftrightarrow>
     owner_inv w \<and> (sw_pc w = Leaving \<or> \<not> left (sw_pc w) \<and> sw_drain w \<noteq> None) \<and>
     (\<forall>deadline. io_deadline (sw_pc w) = Some deadline \<longrightarrow> deadline \<le> sw_now w + n) \<and>
     rounds_to_free (sw_pc w) \<le> k"

lemma other_step:
  assumes "\<forall>input. event \<noteq> ActorStep input"
  shows "sw_pc (serial_step cs uuid baud event w) = sw_pc w"
    and "sw_drain (serial_step cs uuid baud event w) = sw_drain w"
    and "sw_now w \<le> sw_now (serial_step cs uuid baud event w)"
  using assms client_step_same [of event cs uuid baud w] by (cases event; simp add: client_same_def)+

lemma other_steps:
  assumes "\<forall>input. ActorStep input \<notin> set events" and "owner_inv w"
  shows "sw_pc (serial_run cs uuid baud events w) = sw_pc w \<and> sw_drain (serial_run cs uuid baud events w) = sw_drain w \<and>
    sw_now w \<le> sw_now (serial_run cs uuid baud events w) \<and> owner_inv (serial_run cs uuid baud events w)"
  using assms
proof (induction events arbitrary: w)
  case (Cons event events)
  let ?v = "serial_step cs uuid baud event w"
  have "\<forall>input. event \<noteq> ActorStep input" using Cons.prems(1) by auto
  note same = other_step(1) [OF this, of cs uuid baud w] other_step(2) [OF this, of cs uuid baud w]
    other_step(3) [OF this, of w cs uuid baud]
  have "serial_run cs uuid baud (event # events) w = serial_run cs uuid baud events ?v"
    by (simp add: serial_run_def)
  then show ?case
    using Cons.IH [of ?v] Cons.prems step_owner [OF Cons.prems(2), of cs uuid baud event] same by auto
qed (simp add: serial_run_def)

text \<open>The loop head and the arm of \<^verbatim>\<open>select!\<close> that find the drain over.\<close>

lemma drain_over_frees:
  assumes "owner_inv w" and "\<not> left (sw_pc w)" and "sw_drain w = Some d" and "drain_deadline d \<le> sw_now w"
  shows "sw_pc w = Looping \<Longrightarrow>
      (let v = actor_step cs uuid baud input w
       in sw_reservation v = None \<and> sw_drain v = None \<and> sw_pc v = Selecting \<and>
          (\<forall>ack \<in> set (ad_finish_acks d). sw_acks v ack = Some (Inr ())))"
    and "sw_pc w = Selecting \<Longrightarrow> sw_stop w = Running \<Longrightarrow> sw_events_open w \<Longrightarrow>
      (let v = actor_step cs uuid baud input w
       in sw_reservation v = None \<and> sw_drain v = None \<and> sw_pc v = Looping \<and>
          (\<forall>ack \<in> set (ad_finish_acks d). sw_acks v ack = Some (Inr ())))"
proof -
  have "reservation_matches (ad_token d) (w\<lparr>sw_drain := None\<rparr>)"
    using assms(1-3) by (simp add: owner_inv_def line_ok_def reservation_matches_def)
  moreover obtain u ok where u: "complete_protocol_abort_drain cs d [] (w\<lparr>sw_drain := None\<rparr>) = (u, ok)" by force
  ultimately have free: "ok" "sw_reservation u = None" "sw_drain u = None"
    "\<forall>ack \<in> set (ad_finish_acks d). sw_acks u ack = Some (Inr ())"
    using complete_drain_frees [OF u] by simp_all
  show "let v = actor_step cs uuid baud input w
       in sw_reservation v = None \<and> sw_drain v = None \<and> sw_pc v = Selecting \<and>
          (\<forall>ack \<in> set (ad_finish_acks d). sw_acks v ack = Some (Inr ()))" if "sw_pc w = Looping"
  proof -
    have "actor_step cs uuid baud input w = at_pc Selecting u"
      using that free u assms(3,4) by (simp add: actor_step_def loop_head_def release_abandoned_transfer_def)
    then show ?thesis using free by (simp add: at_pc_def)
  qed
  show "let v = actor_step cs uuid baud input w
       in sw_reservation v = None \<and> sw_drain v = None \<and> sw_pc v = Looping \<and>
          (\<forall>ack \<in> set (ad_finish_acks d). sw_acks v ack = Some (Inr ()))"
    if "sw_pc w = Selecting" "sw_stop w = Running" "sw_events_open w"
  proof -
    have "actor_step cs uuid baud input w = at_pc Looping u"
      using that free u assms(3,4) by (simp add: actor_step_def select_branch_def continue_or_leave_def)
    then show ?thesis using free by (simp add: at_pc_def)
  qed
qed

text \<open>A call of the port whose time is over ends; the actor goes back to its loop, or leaves it.\<close>

lemma conclude_failure:
  "sw_pc (conclude_write harmless ack (Inl e) w) \<in> {Looping, Leaving}"
  "sw_drain (conclude_write harmless ack (Inl e) w) = sw_drain w"
  by (simp_all add: conclude_write_def Let_def acknowledge_def at_pc_def finish_stopped_def finish_error_def
      emit_closed_def try_emit_def split: stop_signal.split)

lemma overdue_call:
  assumes "io_deadline (sw_pc w) = Some deadline" and "deadline \<le> sw_now w"
    and "\<forall>d. sw_pc w \<noteq> ClosingFlush d" and "v = actor_step cs uuid baud input w"
  shows "sw_pc v = Leaving \<or> sw_pc v = Looping \<and> sw_drain v = sw_drain w \<or>
     (\<exists>d. sw_pc w = ShuttingDown d \<and> sw_pc v = Leaving)"
proof (cases "sw_pc w")
  case (TransferWriting t ack timeout deadline)
  then show ?thesis
    using assms conclude_failure [of "[TransferNotActive, TransferCancelled]" ack _ w]
    by (auto simp: actor_step_def io_deadline_def interruptible_transfer_io_def interruptible_serial_io_def)
next
  case (TransferFlushing t ack deadline)
  then show ?thesis
    using assms conclude_failure [of "[TransferNotActive, TransferCancelled]" ack _ w]
    by (auto simp: actor_step_def io_deadline_def interruptible_transfer_io_def interruptible_serial_io_def)
next
  case (AbortWriting t kind ack timeout deadline)
  then show ?thesis
    using assms conclude_failure [of "[TransferNotActive]" ack _ w]
    by (auto simp: actor_step_def io_deadline_def interruptible_serial_io_def)
next
  case (AbortFlushing t kind ack deadline)
  then show ?thesis
    using assms conclude_failure [of "[TransferNotActive]" ack _ w]
    by (auto simp: actor_step_def io_deadline_def interruptible_serial_io_def)
qed (use assms in \<open>auto simp: actor_step_def io_deadline_def interruptible_serial_io_def shutdown_io_def
      split: option.split sum.split\<close>)

lemma round_frees:
  assumes "freeing n (Suc k) w" and "round_of n events"
    and n: "IO_WRITE_TIMEOUT \<le> n" and v_def: "v = serial_run cs uuid baud events w"
  shows "sw_reservation v = None \<or> freeing n k v"
proof -
  obtain others input where events: "events = Elapse n # others @ [ActorStep input]"
      "\<forall>input'. ActorStep input' \<notin> set others"
    using assms(2) by (auto simp: round_of_def)
  have inv: "owner_inv w" using assms(1) by (simp add: freeing_def)
  define x where "x = serial_step cs uuid baud (Elapse n) w"
  define u where "u = serial_run cs uuid baud others x"
  have x: "owner_inv x" "sw_pc x = sw_pc w" "sw_drain x = sw_drain w" "sw_now x = sw_now w + n"
    using step_owner [OF inv, of cs uuid baud "Elapse n"] by (simp_all add: x_def)
  have u: "owner_inv u" "sw_pc u = sw_pc w" "sw_drain u = sw_drain w" "sw_now w + n \<le> sw_now u"
    using other_steps [OF events(2) x(1), of cs uuid baud] x(2-4) by (simp_all add: u_def)
  have v: "v = actor_step cs uuid baud input u"
    by (simp add: v_def u_def x_def events(1) serial_run_def)
  have vinv: "owner_inv v" using step_owner [OF u(1), of cs uuid baud "ActorStep input"] by (simp add: v)
  have late: "PROTOCOL_ABORT_DRAIN_TIMEOUT \<le> n"
    using n by (simp add: IO_WRITE_TIMEOUT_def PROTOCOL_ABORT_DRAIN_TIMEOUT_def)
  have over: "drain_deadline d \<le> sw_now u" if "sw_drain w = Some d" "\<not> left (sw_pc w)" for d
    using inv that u(4) late by (auto simp: owner_inv_def line_ok_def timely_def drain_deadline_def)
  show ?thesis
  proof (cases "sw_pc w = Leaving")
    case True
    then show ?thesis using u by (simp add: v actor_step_def at_pc_def)
  next
    case False
    then obtain d where d: "sw_drain w = Some d" and stays: "\<not> left (sw_pc w)"
      using assms(1) by (auto simp: freeing_def)
    have du: "sw_drain u = Some d" "\<not> left (sw_pc u)" using d stays u by simp_all
    note free = drain_over_frees [OF u(1) du(2) du(1) over [OF d stays], of cs uuid baud input]
    have line: "pc_line_ok w (sw_pc w)" using inv stays by (simp add: owner_inv_def)
    consider "sw_pc w = Looping" | "sw_pc w = Selecting" | "sw_pc w = Starting"
      | deadline where "sw_pc w = ClosingFlush deadline"
      | deadline where "io_deadline (sw_pc w) = Some deadline" "\<forall>d. sw_pc w \<noteq> ClosingFlush d"
      using d stays line by (cases "sw_pc w") (auto simp: io_deadline_def pc_line_ok_def left_def)
    then show ?thesis
    proof cases
      case 1
      then show ?thesis using free(1) u by (simp add: v Let_def)
    next
      case 2
      then show ?thesis
        using free(2) u vinv assms(1) n
        by (cases "sw_stop u"; cases "sw_events_open u")
          (auto simp: v Let_def actor_step_def select_branch_def freeing_def io_deadline_def rounds_to_free_def left_def
            at_pc_def du emit_closed_def try_emit_def)
    next
      case 3
      then show ?thesis
        using u vinv assms(1) n du
        by (auto simp: v Let_def actor_step_def freeing_def io_deadline_def rounds_to_free_def left_def
            OPEN_TIMEOUT_def IO_WRITE_TIMEOUT_def continue_or_leave_def at_pc_def emit_regular_def
            finish_error_def emit_closed_def try_emit_def)
    next
      case 4
      then have "deadline \<le> sw_now u" using assms(1) u by (auto simp: freeing_def io_deadline_def)
      then show ?thesis
        using 4 u vinv assms(1) n du
        by (auto simp: v Let_def actor_step_def freeing_def io_deadline_def rounds_to_free_def left_def
            shutdown_io_def at_pc_def finish_error_def emit_closed_def try_emit_def split: option.splits sum.splits)
    next
      case 5
      then have deadline: "deadline \<le> sw_now u" using assms(1) u by (auto simp: freeing_def)
      have "rounds_to_free (sw_pc w) = 2"
        using 5 by (cases "sw_pc w") (auto simp: rounds_to_free_def io_deadline_def)
      then have "1 \<le> k" using assms(1) by (auto simp: freeing_def)
      moreover have "sw_pc v = Leaving \<or> sw_pc v = Looping \<and> sw_drain v = Some d"
        using overdue_call [OF _ deadline _ v] 5 u(2) du(1) by auto
      ultimately show ?thesis
        using vinv by (auto simp: freeing_def io_deadline_def rounds_to_free_def left_def)
    qed
  qed
qed

lemma rounds_free:
  assumes "freeing n (length rounds) w" and "\<forall>events \<in> set rounds. round_of n events" and "IO_WRITE_TIMEOUT \<le> n"
  shows "\<exists>k \<le> length rounds. sw_reservation (serial_run cs uuid baud (concat (take k rounds)) w) = None"
  using assms(1,2)
proof (induction rounds arbitrary: w)
  case Nil
  then have False by (cases "sw_pc w") (auto simp: freeing_def rounds_to_free_def)
  then show ?case ..
next
  case (Cons events rounds)
  let ?v = "serial_run cs uuid baud events w"
  have run: "serial_run cs uuid baud (concat (take (Suc k) (events # rounds))) w =
      serial_run cs uuid baud (concat (take k rounds)) ?v" for k
    by (simp add: serial_run_def)
  have now: "freeing n (Suc (length rounds)) w" "round_of n events" using Cons.prems by simp_all
  have "sw_reservation ?v = None \<or> freeing n (length rounds) ?v"
    by (rule round_frees [OF now assms(3) refl])
  then consider (freed) "sw_reservation ?v = None" | (later) "freeing n (length rounds) ?v" by argo
  then show ?case
  proof cases
    case freed
    then have "sw_reservation (serial_run cs uuid baud (concat (take (Suc 0) (events # rounds))) w) = None"
      by (simp add: serial_run_def)
    then show ?thesis by (metis Suc_le_mono length_Cons zero_le)
  next
    case later
    then obtain k where "k \<le> length rounds"
      "sw_reservation (serial_run cs uuid baud (concat (take k rounds)) ?v) = None"
      using Cons.IH [OF later] Cons.prems(2) by auto
    then show ?thesis using run [of k] by (metis Suc_le_mono length_Cons)
  qed
qed

text \<open>C32: The quarantine after an aborted protocol holds the line and lets it go.  While the actor drains,
  the aborted transfer stays the owner, and beginning and claiming a transfer and typing do nothing.
  Two seconds later at the latest the actor's next step frees the line and acknowledges every waiting
  finish with success, at the head of its loop and as it waits in \<^verbatim>\<open>select!\<close> unless the session stops.
  Wherever else the actor stands, in a write that blocks or on its way out, four rounds suffice: if a
  round lets ten seconds pass and lets the actor make a step, and the first one outlasts the
  deadline of the call that the port owes an answer, the line is free at the end of one of them,
  whatever the port answers and the others do in between.\<close>

theorem serial_quarantine:
  assumes "w = serial_run cs uuid baud events (serial_start cs window token now)"
    and "\<not> left (sw_pc w)" and "sw_drain w = Some d"
  shows "map_option rr_token (sw_reservation w) = Some (ad_token d) \<and>
    fst (begin_raw_transfer uuid' passed kind w) = w \<and>
    fst (claim_detected_zmodem t transfer_id direction w) = w \<and>
    (bs \<noteq> [3] \<longrightarrow> fst (serial_input cs' passed bs w) = w) \<and>
    (sw_pc w = Looping \<and> PROTOCOL_ABORT_DRAIN_TIMEOUT \<le> n \<longrightarrow>
      (let v = serial_run cs uuid baud [Elapse n, ActorStep input] w
       in sw_reservation v = None \<and> sw_drain v = None \<and> sw_pc v = Selecting \<and>
          (\<forall>ack \<in> set (ad_finish_acks d). sw_acks v ack = Some (Inr ())))) \<and>
    (sw_pc w = Selecting \<and> sw_stop w = Running \<and> sw_events_open w \<and> PROTOCOL_ABORT_DRAIN_TIMEOUT \<le> n \<longrightarrow>
      (let v = serial_run cs uuid baud [Elapse n, ActorStep input] w
       in sw_reservation v = None \<and> sw_drain v = None \<and> sw_pc v = Looping \<and>
          (\<forall>ack \<in> set (ad_finish_acks d). sw_acks v ack = Some (Inr ())))) \<and>
    (IO_WRITE_TIMEOUT \<le> n \<and> length rounds = 4 \<and> (\<forall>events \<in> set rounds. round_of n events) \<and>
      (\<forall>deadline. io_deadline (sw_pc w) = Some deadline \<longrightarrow> deadline \<le> sw_now w + n) \<longrightarrow>
      (\<exists>k \<le> 4. sw_reservation (serial_run cs uuid baud (concat (take k rounds)) w) = None))"
proof -
  have inv: "owner_inv w" using run_owner [of cs uuid baud events cs window token now] assms(1) by simp
  then have line: "reservation_matches (ad_token d) w" "sw_detected w = None" "timely (sw_now w) d"
    using assms(2,3) by (simp_all add: owner_inv_def line_ok_def)
  then obtain r where r: "sw_reservation w = Some r" by (auto simp: reservation_matches_def)
  note refused = quarantine_refuses [OF r line(2)]
  let ?w = "w\<lparr>sw_now := sw_now w + n\<rparr>"
  have "owner_inv ?w" using step_owner [OF inv, of cs uuid baud "Elapse n"] by simp
  moreover have "drain_deadline d \<le> sw_now ?w" if "PROTOCOL_ABORT_DRAIN_TIMEOUT \<le> n"
    using line(3) that by (auto simp: timely_def drain_deadline_def)
  ultimately have freed: "PROTOCOL_ABORT_DRAIN_TIMEOUT \<le> n \<Longrightarrow> sw_pc w = Looping \<Longrightarrow>
      (let v = serial_run cs uuid baud [Elapse n, ActorStep input] w
       in sw_reservation v = None \<and> sw_drain v = None \<and> sw_pc v = Selecting \<and>
          (\<forall>ack \<in> set (ad_finish_acks d). sw_acks v ack = Some (Inr ())))"
    "PROTOCOL_ABORT_DRAIN_TIMEOUT \<le> n \<Longrightarrow> sw_pc w = Selecting \<Longrightarrow> sw_stop w = Running \<Longrightarrow> sw_events_open w \<Longrightarrow>
      (let v = serial_run cs uuid baud [Elapse n, ActorStep input] w
       in sw_reservation v = None \<and> sw_drain v = None \<and> sw_pc v = Looping \<and>
          (\<forall>ack \<in> set (ad_finish_acks d). sw_acks v ack = Some (Inr ())))"
    using drain_over_frees [of ?w d cs uuid baud input] assms(2,3) by (simp_all add: serial_run_def)
  have "\<exists>k \<le> 4. sw_reservation (serial_run cs uuid baud (concat (take k rounds)) w) = None"
    if "IO_WRITE_TIMEOUT \<le> n" "length rounds = 4" "\<forall>events \<in> set rounds. round_of n events"
      "\<forall>deadline. io_deadline (sw_pc w) = Some deadline \<longrightarrow> deadline \<le> sw_now w + n"
  proof -
    have "freeing n (length rounds) w"
      using inv assms(2,3) that by (cases "sw_pc w") (simp_all add: freeing_def rounds_to_free_def)
    then show ?thesis using rounds_free [of n rounds w cs uuid baud] that by simp
  qed
  then show ?thesis
    using line(1) refused freed by (simp add: reservation_matches_def)
qed

text \<open>The same session one step later waits in \<^verbatim>\<open>select!\<close>.\<close>

definition sample_waiting :: "unit serial_world" where
  "sample_waiting = serial_run sample_charset (\<lambda>_. []) 9600
     [ActorStep opened, ActorStep opened, ActorStep opened, ClientCall 0 False (CallBegin YmodemSend),
      ClientCall 0 False (CallAbort 1 [0x18, 0x18]), ClientContinue 0, ActorStep opened, ActorStep opened,
      ActorStep opened, ActorStep quiet]
     (serial_start sample_charset sample_window 1 0)"

lemma sample_waiting_facts:
  "sw_drain sample_waiting = Some (drain_new 1 YmodemSend 0)" "sw_pc sample_waiting = Selecting"
  "sw_stop sample_waiting = Running" "sw_events_open sample_waiting"
proof -
  have "sample_waiting = actor_step sample_charset (\<lambda>_. []) 9600 quiet sample_abort"
    by (simp only: sample_waiting_def sample_abort_def serial_run_def fold_simps serial_step.simps(2))
  then have "sample_waiting = loop_head sample_charset sample_abort"
    using sample_abort_facts(2) by (simp add: actor_step_def)
  moreover have "sw_stop sample_abort = Running" "sw_events_open sample_abort" "sw_now sample_abort = 0"
      "map_option rr_token (sw_reservation sample_abort) = Some 1"
    by (simp_all add: sample_abort_def sample_steps interruptible_serial_io_def conclude_write_def
        replace_drain_def acknowledge_def)
  moreover have "\<not> drain_deadline (drain_new 1 YmodemSend 0) \<le> (0 :: nat)" "ad_token (drain_new 1 YmodemSend 0) = 1"
    by (simp_all add: drain_deadline_def drain_new_def with_consecutive_can_def PROTOCOL_ABORT_DRAIN_IDLE_def
        PROTOCOL_ABORT_DRAIN_TIMEOUT_def)
  ultimately have waiting: "sample_waiting = at_pc Selecting sample_abort" and "sw_stop sample_abort = Running"
    "sw_events_open sample_abort"
    using sample_abort_facts(1) by (auto simp: loop_head_def release_abandoned_transfer_def split: option.split)
  then show "sw_drain sample_waiting = Some (drain_new 1 YmodemSend 0)" "sw_pc sample_waiting = Selecting"
    "sw_stop sample_waiting = Running" "sw_events_open sample_waiting"
    using sample_abort_facts(1) unfolding waiting by (simp_all add: at_pc_def)
qed

theorem serial_quarantine_witness:
  "(let v = serial_run sample_charset (\<lambda>_. []) 9600 [Elapse PROTOCOL_ABORT_DRAIN_TIMEOUT, ActorStep quiet] sample_waiting
    in sw_reservation v = None \<and> sw_pc v = Looping) \<and>
   (\<exists>k \<le> 4. sw_reservation (serial_run sample_charset (\<lambda>_. []) 9600
      (concat (take k (replicate 4 [Elapse 10000, DropEvents, ActorStep quiet]))) sample_waiting) = None)"
proof -
  have "round_of 10000 [Elapse 10000, DropEvents, ActorStep quiet]"
    by (auto simp: round_of_def intro!: exI [of _ "[DropEvents]"])
  then show ?thesis
    using serial_quarantine [OF sample_waiting_def, of "drain_new 1 YmodemSend 0" "\<lambda>_. []" False Zmodem 0 "[]"
        Send "[]" sample_charset PROTOCOL_ABORT_DRAIN_TIMEOUT quiet "[]"]
      serial_quarantine [OF sample_waiting_def, of "drain_new 1 YmodemSend 0" "\<lambda>_. []" False Zmodem 0 "[]"
        Send "[]" sample_charset 10000 quiet "replicate 4 [Elapse 10000, DropEvents, ActorStep quiet]"]
    by (simp add: sample_waiting_facts left_def Let_def io_deadline_def IO_WRITE_TIMEOUT_def del: replicate.simps)
qed

end
