(* ===== verification/Serial_Routing.thy ===== *)
theory Serial_Routing
  imports Serial_Ownership "HOL-Library.Multiset"
begin

text \<open>
  Where the bytes of the device go: each byte that the actor reads is shown on the terminal, sent to
  one transfer, dropped with an aborted protocol, held by the sentry or in the actor's hands, and never
  two of these; the terminal and every transfer get their bytes in the order of the line.
\<close>

section \<open>Traces\<close>

definition shown_positions :: "byte_trace \<Rightarrow> nat list" where
  "shown_positions tr = concat (map (\<lambda>(p, b). case p of None \<Rightarrow> [] | Some p \<Rightarrow> [p]) (bt_shown tr))"

definition sent_to :: "nat \<Rightarrow> byte_trace \<Rightarrow> nat list" where
  "sent_to t tr = map snd (filter (\<lambda>e. fst e = t) (bt_sent tr))"

definition bytes_at :: "byte_trace \<Rightarrow> nat list \<Rightarrow> bytes" where
  "bytes_at tr positions = map ((!) (bt_read tr)) positions"

definition places :: "byte_trace \<Rightarrow> nat multiset" where
  "places tr = mset (shown_positions tr) + mset (map snd (bt_sent tr)) + mset (bt_dropped tr) +
     mset (bt_held tr) + mset (bt_flight tr)"

definition trace_ok :: "byte_trace \<Rightarrow> bool" where
  "trace_ok tr \<longleftrightarrow> places tr = mset [0 ..< length (bt_read tr)] \<and>
     sorted (shown_positions tr @ bt_held tr @ bt_flight tr) \<and>
     (\<forall>p b. (Some p, b) \<in> set (bt_shown tr) \<longrightarrow> b = bt_read tr ! p) \<and>
     (\<forall>t. sorted (sent_to t tr))"

lemma placed: "trace_ok tr \<Longrightarrow> p \<in># places tr \<Longrightarrow> p < length (bt_read tr)"
  by (simp add: trace_ok_def)

lemma zip_positions: "length ps = length bs \<Longrightarrow>
    concat (map (\<lambda>(p, b). case p of None \<Rightarrow> [] | Some p \<Rightarrow> [p]) (zip (map Some ps) bs)) = ps"
  by (induction ps bs rule: list_induct2) simp_all

lemma show_positions:
  "length ps = length bs \<Longrightarrow> shown_positions (trace_show ps bs tr) = shown_positions tr @ ps"
  "shown_positions (trace_show_returned bs tr) = shown_positions tr"
  by (simp_all add: shown_positions_def trace_show_def trace_show_returned_def zip_positions comp_def)

lemma same_shown [simp]:
  "shown_positions (tr\<lparr>bt_flight := a\<rparr>) = shown_positions tr"
  "shown_positions (tr\<lparr>bt_held := b\<rparr>) = shown_positions tr"
  "shown_positions (tr\<lparr>bt_dropped := c\<rparr>) = shown_positions tr"
  "shown_positions (tr\<lparr>bt_sent := d\<rparr>) = shown_positions tr"
  "shown_positions (tr\<lparr>bt_read := e\<rparr>) = shown_positions tr"
  "sent_to t (tr\<lparr>bt_flight := a\<rparr>) = sent_to t tr"
  "sent_to t (tr\<lparr>bt_held := b\<rparr>) = sent_to t tr"
  "sent_to t (tr\<lparr>bt_dropped := c\<rparr>) = sent_to t tr"
  "sent_to t (tr\<lparr>bt_read := e\<rparr>) = sent_to t tr"
  "sent_to t (tr\<lparr>bt_shown := f\<rparr>) = sent_to t tr"
  by (simp_all add: shown_positions_def sent_to_def)

lemma bytes_zip: "(Some p, b) \<in> set (zip (map Some ps) (bytes_at tr ps)) \<Longrightarrow> b = bt_read tr ! p"
  by (auto simp: bytes_at_def set_zip)

lemma read_ok:
  assumes "trace_ok tr" and "bt_flight tr = []"
  shows "trace_ok (trace_read bs tr)"
proof -
  let ?n = "length (bt_read tr)"
  have below: "p < ?n" if "p \<in> set (shown_positions tr @ bt_held tr)" for p
    using that by (intro placed [OF assms(1)]) (auto simp: places_def)
  have "(Some p, b) \<in> set (bt_shown tr) \<Longrightarrow> p \<in> set (shown_positions tr)" for p b
    by (force simp: shown_positions_def)
  then have right: "(bt_read tr @ bs) ! p = b" if "(Some p, b) \<in> set (bt_shown tr)" for p b
    using that assms(1) below by (auto simp: trace_ok_def nth_append)
  have "[0..<?n + length bs] = [0..<?n] @ [?n..<?n + length bs]"
    by (rule upt_add_eq_append) simp
  then have "places (trace_read bs tr) = mset [0..<?n + length bs]"
    using assms by (simp add: trace_ok_def places_def trace_read_def)
  moreover have "sorted (shown_positions tr @ bt_held tr)" using assms by (simp add: trace_ok_def)
  then have "sorted ((shown_positions tr @ bt_held tr) @ [?n..<?n + length bs])"
    using below less_imp_le_nat order_trans by (subst sorted_append) (fastforce intro: sorted_upt)
  ultimately show ?thesis
    using assms right by (simp add: trace_ok_def trace_read_def)
qed

lemma drop_held_ok: "trace_ok tr \<Longrightarrow> trace_ok (trace_drop_held tr)"
  by (auto simp: trace_ok_def trace_drop_held_def places_def sorted_append ac_simps)

lemma drop_but_ok:
  assumes "trace_ok tr"
  shows "trace_ok (trace_drop_but n tr)"
proof -
  let ?k = "length (bt_flight tr) - n"
  have "mset (take ?k (bt_flight tr)) + mset (drop ?k (bt_flight tr)) = mset (bt_flight tr)"
    by (metis append_take_drop_id mset_append)
  moreover have "sorted (drop ?k (bt_flight tr))" "set (drop ?k (bt_flight tr)) \<subseteq> set (bt_flight tr)"
    using assms by (auto simp: trace_ok_def sorted_append sorted_wrt_drop dest: in_set_dropD)
  ultimately show ?thesis
    using assms by (auto simp: trace_ok_def trace_drop_but_def places_def sorted_append ac_simps)
qed

lemma send_ok:
  assumes "trace_ok tr" and "\<forall>p \<in> set (bt_flight tr). \<forall>q \<in> set (sent_to t tr). q \<le> p"
  shows "trace_ok (trace_send t tr)"
proof -
  have "sent_to t' (trace_send t tr) = sent_to t' tr @ (if t' = t then bt_flight tr else [])" for t'
    by (simp add: sent_to_def trace_send_def filter_map comp_def)
  moreover have "sorted (bt_flight tr)" using assms(1) by (simp add: trace_ok_def sorted_append)
  ultimately have "sorted (sent_to t' (trace_send t tr))" for t'
    using assms by (auto simp: trace_ok_def sorted_append)
  then show ?thesis
    using assms(1) by (auto simp: trace_ok_def trace_send_def places_def sorted_append comp_def ac_simps)
qed

lemma returned_ok: "trace_ok tr \<Longrightarrow> trace_ok (trace_show_returned bs tr)"
  using show_positions(2) [of bs tr]
  by (auto simp: trace_ok_def places_def) (auto simp: trace_show_returned_def)

lemma show_held_ok:
  assumes "trace_ok tr"
  shows "trace_ok (trace_show_held (bytes_at tr (bt_held tr)) tr)"
proof -
  let ?tr = "trace_show_held (bytes_at tr (bt_held tr)) tr"
  have shown: "shown_positions ?tr = shown_positions tr @ bt_held tr"
    by (simp add: trace_show_held_def show_positions bytes_at_def)
  have rest: "bt_held ?tr = []" "bt_flight ?tr = bt_flight tr" "bt_sent ?tr = bt_sent tr"
    "bt_dropped ?tr = bt_dropped tr" "bt_read ?tr = bt_read tr"
    "bt_shown ?tr = bt_shown tr @ zip (map Some (bt_held tr)) (bytes_at tr (bt_held tr))"
    by (simp_all add: trace_show_held_def trace_show_def)
  then have "sent_to t ?tr = sent_to t tr" for t by (simp add: sent_to_def)
  then show ?thesis
    using assms bytes_zip [of _ _ "bt_held tr" tr] by (auto simp: trace_ok_def places_def shown rest ac_simps)
qed

lemma show_flight_ok:
  assumes "trace_ok tr" and "bt_held tr = []"
  shows "trace_ok (trace_show_flight (bytes_at tr (bt_flight tr)) tr)"
proof -
  let ?tr = "trace_show_flight (bytes_at tr (bt_flight tr)) tr"
  have shown: "shown_positions ?tr = shown_positions tr @ bt_flight tr"
    by (simp add: trace_show_flight_def show_positions bytes_at_def)
  have rest: "bt_held ?tr = []" "bt_flight ?tr = []" "bt_sent ?tr = bt_sent tr"
    "bt_dropped ?tr = bt_dropped tr" "bt_read ?tr = bt_read tr"
    "bt_shown ?tr = bt_shown tr @ zip (map Some (bt_flight tr)) (bytes_at tr (bt_flight tr))"
    using assms(2) by (simp_all add: trace_show_flight_def trace_show_def)
  then have "sent_to t ?tr = sent_to t tr" for t by (simp add: sent_to_def)
  then show ?thesis
    using assms bytes_zip [of _ _ "bt_flight tr" tr] by (auto simp: trace_ok_def places_def shown rest ac_simps)
qed

text \<open>The sentry splits the bytes it held and the new ones in three.\<close>

lemma sentry_ok:
  assumes "trace_ok tr"
    and "passed @ protocol @ rest = bytes_at tr (bt_held tr @ bt_flight tr)"
    and "protocol = [] \<or> rest = []"
  shows "trace_ok (trace_sentry passed (length protocol) tr)"
    and "bytes_at tr (bt_flight (trace_sentry passed (length protocol) tr)) = protocol"
    and "bytes_at tr (bt_held (trace_sentry passed (length protocol) tr)) = rest"
proof -
  let ?ps = "bt_held tr @ bt_flight tr"
  let ?m = "length passed" and ?n = "length protocol"
  let ?tr = "trace_sentry passed ?n tr"
  have lengths: "?m + ?n + length rest = length ?ps"
    using arg_cong [OF assms(2), of length] by (simp add: bytes_at_def)
  have parts: "bytes_at tr (take ?m ?ps) = passed" "bytes_at tr (take ?n (drop ?m ?ps)) = protocol"
    "bytes_at tr (drop (?m + ?n) ?ps) = rest"
  proof -
    have "bytes_at tr (take ?m ?ps) = take ?m (passed @ protocol @ rest)"
      "bytes_at tr (take ?n (drop ?m ?ps)) = take ?n (drop ?m (passed @ protocol @ rest))"
      "bytes_at tr (drop (?m + ?n) ?ps) = drop (?m + ?n) (passed @ protocol @ rest)"
      unfolding assms(2) bytes_at_def by (simp_all only: take_map drop_map)
    then show "bytes_at tr (take ?m ?ps) = passed" "bytes_at tr (take ?n (drop ?m ?ps)) = protocol"
      "bytes_at tr (drop (?m + ?n) ?ps) = rest"
      by simp_all
  qed
  have fields: "bt_flight ?tr = take ?n (drop ?m ?ps)" "bt_held ?tr = drop (?m + ?n) ?ps"
    "bt_sent ?tr = bt_sent tr" "bt_dropped ?tr = bt_dropped tr" "bt_read ?tr = bt_read tr"
    "bt_shown ?tr = bt_shown tr @ zip (map Some (take ?m ?ps)) passed"
    by (simp_all add: trace_sentry_def Let_def trace_show_def)
  show "bytes_at tr (bt_flight ?tr) = protocol" "bytes_at tr (bt_held ?tr) = rest"
    unfolding fields by (simp_all only: parts)
  have "length (take ?m ?ps) = length passed" using lengths by simp
  then have shown: "shown_positions ?tr = shown_positions tr @ take ?m ?ps"
    by (simp only: trace_sentry_def Let_def same_shown show_positions(1))
  have split: "?ps = take ?m ?ps @ take ?n (drop ?m ?ps) @ drop (?m + ?n) ?ps"
    by (metis add.commute append_take_drop_id drop_drop)
  then have count: "mset (take ?m ?ps) + mset (take ?n (drop ?m ?ps)) + mset (drop (?m + ?n) ?ps) =
      mset (bt_held tr) + mset (bt_flight tr)"
    by (metis add.assoc mset_append)
  have places: "places ?tr = places tr"
    using count by (simp add: places_def shown fields ac_simps)
  have one: "take ?n (drop ?m ?ps) = [] \<or> drop (?m + ?n) ?ps = []"
    using assms(3) lengths by auto
  have "sorted (shown_positions tr @ take ?m ?ps @ take ?n (drop ?m ?ps) @ drop (?m + ?n) ?ps)"
    using assms(1) unfolding split [symmetric] by (simp add: trace_ok_def)
  then have "sorted (shown_positions ?tr @ bt_held ?tr @ bt_flight ?tr)"
    unfolding shown fields using one by auto
  moreover have "b = bt_read tr ! p" if "(Some p, b) \<in> set (zip (map Some (take ?m ?ps)) passed)" for p b
    using that bytes_zip [of p b "take ?m ?ps" tr] by (simp only: parts)
  moreover have "sent_to t ?tr = sent_to t tr" for t by (simp add: sent_to_def fields)
  ultimately show "trace_ok ?tr"
    using assms(1) places by (auto simp: trace_ok_def fields)
qed

section \<open>The invariant\<close>

definition sent_known :: "'d serial_world \<Rightarrow> bool" where
  "sent_known w \<longleftrightarrow> (\<forall>e \<in> set (bt_sent (sw_trace w)). fst e < sw_next_token w)"

text \<open>The trace is in order, and the sentry holds the bytes that the trace says.\<close>

definition held_right :: "'d serial_world \<Rightarrow> bool" where
  "held_right w \<longleftrightarrow> trace_ok (sw_trace w) \<and> sent_known w \<and>
     sw_sentry w = bytes_at (sw_trace w) (bt_held (sw_trace w))"

definition settled :: "'d serial_world \<Rightarrow> bool" where
  "settled w \<longleftrightarrow> held_right w \<and> bt_flight (sw_trace w) = []"

definition carries :: "'d serial_world \<Rightarrow> bytes \<Rightarrow> bool" where
  "carries w bs \<longleftrightarrow> held_right w \<and> bs = bytes_at (sw_trace w) (bt_flight (sw_trace w))"

text \<open>What is in the actor's hands is younger than what the transfer \<open>t\<close> has.\<close>

definition younger :: "nat \<Rightarrow> 'd serial_world \<Rightarrow> bool" where
  "younger t w \<longleftrightarrow> (\<forall>p \<in> set (bt_flight (sw_trace w)). \<forall>q \<in> set (sent_to t (sw_trace w)). q \<le> p)"

definition pc_route :: "'d serial_world \<Rightarrow> actor_pc \<Rightarrow> bool" where
  "pc_route w pc \<longleftrightarrow>
     (case pc of
        Routing bs \<Rightarrow> carries w bs \<and> (\<forall>t. younger t w)
      | SendingEvent t bs \<Rightarrow> carries w bs \<and> younger t w
      | Reserving _ bs \<Rightarrow> carries w bs \<and>
          (\<forall>r. sw_reservation w = Some r \<longrightarrow> sent_to (rr_token r) (sw_trace w) = [])
      | _ \<Rightarrow> settled w)"

definition route_inv :: "'d serial_world \<Rightarrow> bool" where
  "route_inv w \<longleftrightarrow> trace_ok (sw_trace w) \<and> sent_known w \<and> (left (sw_pc w) \<or> pc_route w (sw_pc w))"

section \<open>Steps that move no bytes\<close>

definition same_route :: "'d serial_world \<Rightarrow> 'd serial_world \<Rightarrow> bool" where
  "same_route v w \<longleftrightarrow> sw_trace v = sw_trace w \<and> sw_sentry v = sw_sentry w \<and> sw_next_token v = sw_next_token w"

lemma same_route_refl [simp]: "same_route w w"
  by (simp add: same_route_def)

lemma same_route_cong:
  assumes "same_route v w"
  shows "trace_ok (sw_trace v) = trace_ok (sw_trace w)" and "sent_known v = sent_known w"
    and "held_right v = held_right w" and "settled v = settled w" and "carries v bs = carries w bs"
    and "younger t v = younger t w"
  using assms by (simp_all add: same_route_def sent_known_def held_right_def settled_def carries_def younger_def)

lemma same_route_fields [simp]:
  "same_route (v\<lparr>sw_decoder := a\<rparr>) w = same_route v w"
  "same_route (v\<lparr>sw_reservation := b\<rparr>) w = same_route v w"
  "same_route (v\<lparr>sw_pc := c\<rparr>) w = same_route v w"
  "same_route (v\<lparr>sw_detected := d\<rparr>) w = same_route v w"
  "same_route (v\<lparr>sw_drain := e\<rparr>) w = same_route v w"
  "same_route (v\<lparr>sw_commands := f\<rparr>) w = same_route v w"
  "same_route (v\<lparr>sw_commands_open := g\<rparr>) w = same_route v w"
  "same_route (v\<lparr>sw_registered := h\<rparr>) w = same_route v w"
  by (simp_all add: same_route_def)

lemma same_route_ops [simp]:
  "same_route (at_pc pc v) w = same_route v w"
  "same_route (set_channel t g v) w = same_route v w"
  "same_route (close_channel t v) w = same_route v w"
  "same_route (try_emit event v) w = same_route v w"
  "same_route (acknowledge r acks v) w = same_route v w"
  "same_route (reset_decoder cs v) w = same_route v w"
  "same_route (start_write source bs v) w = same_route v w"
  "same_route (release_transfer t v) w = same_route v w"
  "same_route (release_detected_zmodem t v) w = same_route v w"
  "same_route (drop_detected v) w = same_route v w"
  "same_route (replace_drain d v) w = same_route v w"
  by (simp_all add: same_route_def at_pc_def set_channel_def close_channel_def try_emit_def acknowledge_def
      reset_decoder_def start_write_def release_transfer_def release_detected_zmodem_def drop_detected_def
      replace_drain_def split: option.split)

lemma same_route_emit [simp]:
  "same_route (emit_closed reason v) w = same_route v w"
  "same_route (finish_error e v) w = same_route v w"
  "same_route (finish_stopped signal v) w = same_route v w"
  "same_route (finish_interruptible_failure failure v) w = same_route v w"
  "same_route (fst (emit_regular event v)) w = same_route v w"
  "same_route (fst (emit_data bs v)) w = same_route v w"
  "same_route (fst (terminal_feed cs bs v)) w = same_route v w"
  "same_route (continue_or_leave q pc) w = same_route (fst q) w"
  "same_route (conclude_write harmless ack result v) w = same_route v w"
  by (simp_all add: emit_closed_def finish_error_def finish_stopped_def finish_interruptible_failure_def
      emit_regular_def emit_data_def terminal_feed_def continue_or_leave_def conclude_write_def Let_def
      case_prod_beta split: stop_signal.split io_failure.split sum.split)

text \<open>Steps that keep bytes and sentry keep what is said about them.\<close>

lemma settled_frames [simp]:
  "settled (reset_decoder cs v) = settled v" "settled (set_channel t g v) = settled v"
  "settled (acknowledge r acks v) = settled v" "settled (start_write source bs v) = settled v"
  "settled (drop_detected v) = settled v" "settled (release_transfer t v) = settled v"
  "settled (release_detected_zmodem t v) = settled v" "settled (replace_drain d v) = settled v"
  "settled (fst (emit_regular event v)) = settled v" "settled (fst (terminal_feed cs bs v)) = settled v"
  "settled (v\<lparr>sw_drain := a\<rparr>) = settled v" "settled (v\<lparr>sw_reservation := b\<rparr>) = settled v"
  "settled (v\<lparr>sw_commands := c\<rparr>) = settled v" "settled (v\<lparr>sw_detected := d'\<rparr>) = settled v"
  by (rule same_route_cong(4), simp)+

lemma carries_frames [simp]:
  "carries (reset_decoder cs v) bs = carries v bs" "carries (drop_detected v) bs = carries v bs"
  "carries (set_channel t g v) bs = carries v bs"
  "carries (release_transfer t v) bs = carries v bs" "carries (release_detected_zmodem t v) bs = carries v bs"
  "carries (fst (terminal_feed cs bs' v)) bs = carries v bs"
  "carries (v\<lparr>sw_drain := a\<rparr>) bs = carries v bs" "carries (v\<lparr>sw_reservation := b\<rparr>) bs = carries v bs"
  "carries (v\<lparr>sw_detected := c\<rparr>) bs = carries v bs"
  by (rule same_route_cong(5), simp)+

lemma younger_frames [simp]:
  "younger t (v\<lparr>sw_detected := c\<rparr>) = younger t v"
  by (rule same_route_cong(6), simp)

definition quiet_pc :: "actor_pc \<Rightarrow> bool" where
  "quiet_pc pc \<longleftrightarrow> (case pc of Routing _ \<Rightarrow> False | SendingEvent _ _ \<Rightarrow> False | Reserving _ _ \<Rightarrow> False | _ \<Rightarrow> True)"

lemma quiet_pcs [simp]:
  "quiet_pc Looping" "quiet_pc Selecting" "quiet_pc (Opening a)" "quiet_pc (WritingInput a)"
  "quiet_pc (TransferWriting t a b c)" "quiet_pc (TransferFlushing t a b)"
  "quiet_pc (AbortWriting t k a b c)" "quiet_pc (AbortFlushing t k a b)"
  "quiet_pc (UnclaimedWriting t a b)" "quiet_pc (UnclaimedFlushing t a)" "quiet_pc Leaving"
  "quiet_pc (ClosingFlush a)" "quiet_pc (ShuttingDown a)"
  by (simp_all add: quiet_pc_def)

lemma quiet_route: "quiet_pc pc \<Longrightarrow> pc_route w pc = settled w"
  by (cases pc) (simp_all add: pc_route_def quiet_pc_def)

lemma settled_known: "settled w \<Longrightarrow> trace_ok (sw_trace w) \<and> sent_known w"
  by (simp add: settled_def held_right_def)

lemma pc_route_at: "pc_route (at_pc pc' w) pc = pc_route w pc"
  using same_route_cong(4-6) [of "at_pc pc' w" w]
  by (simp add: pc_route_def) (simp add: at_pc_def cong: actor_pc.case_cong)

lemma route_at:
  "route_inv (at_pc pc w) \<longleftrightarrow> trace_ok (sw_trace w) \<and> sent_known w \<and> (left pc \<or> pc_route w pc)"
  using same_route_cong(1,2) [of "at_pc pc w" w] by (simp add: route_inv_def pc_route_at)

lemma route_quiet: "settled w \<Longrightarrow> quiet_pc pc \<Longrightarrow> route_inv (at_pc pc w)"
  using settled_known by (simp add: route_at quiet_route)

lemma route_left: "same_route v w \<Longrightarrow> trace_ok (sw_trace w) \<and> sent_known w \<Longrightarrow> route_inv (at_pc Leaving v)"
  using same_route_cong(1,2) [of v w] by (simp add: route_at left_def)

lemma route_continue: "settled (fst q) \<Longrightarrow> quiet_pc pc \<Longrightarrow> route_inv (continue_or_leave q pc)"
  by (simp add: continue_or_leave_def case_prod_beta route_quiet)

section \<open>The branches of the actor\<close>

lemma on_trace_fields [simp]:
  "sw_trace (on_trace f w) = f (sw_trace w)" "sw_sentry (on_trace f w) = sw_sentry w"
  "sw_next_token (on_trace f w) = sw_next_token w"
  by (simp_all add: on_trace_def)

lemma sentry_shown:
  assumes "held_right w"
  shows "held_right (fst (show_sentry cs w))"
    and "bt_flight (sw_trace (fst (show_sentry cs w))) = bt_flight (sw_trace w)"
proof -
  let ?tr = "sw_trace w"
  let ?v = "on_trace (trace_show_held (sw_sentry w)) (w\<lparr>sw_sentry := []\<rparr>)"
  have same: "same_route (fst (show_sentry cs w)) ?v" by (simp add: show_sentry_def)
  have v: "sw_trace ?v = trace_show_held (bytes_at ?tr (bt_held ?tr)) ?tr" "sw_sentry ?v = []"
    using assms by (simp_all add: held_right_def)
  have "held_right ?v"
    using assms show_held_ok [of ?tr]
    by (simp add: held_right_def) (simp add: sent_known_def trace_show_held_def trace_show_def bytes_at_def)
  then show "held_right (fst (show_sentry cs w))" using same_route_cong(3) [OF same] by simp
  show "bt_flight (sw_trace (fst (show_sentry cs w))) = bt_flight ?tr"
    using same v by (simp add: same_route_def trace_show_held_def trace_show_def)
qed

lemma settled_shown: "settled w \<Longrightarrow> settled (fst (show_sentry cs w))"
  by (simp add: settled_def sentry_shown)

lemma discarded:
  assumes "held_right w"
  shows "held_right (discard_sentry w)" and "bt_held (sw_trace (discard_sentry w)) = []"
    and "bt_flight (sw_trace (discard_sentry w)) = bt_flight (sw_trace w)"
    and "bt_read (sw_trace (discard_sentry w)) = bt_read (sw_trace w)"
  using assms drop_held_ok [of "sw_trace w"]
  by (simp_all add: discard_sentry_def held_right_def sent_known_def)
    (simp_all add: trace_drop_held_def bytes_at_def)

lemma carries_settled: "settled w \<Longrightarrow> carries w []"
  by (simp add: settled_def carries_def bytes_at_def)

lemma drain_completed:
  assumes "carries w tail"
  shows "settled (fst (complete_protocol_abort_drain cs d tail w))"
proof -
  let ?u = "reset_decoder cs (release_detected_zmodem (ad_token d) (release_transfer (ad_token d) w))"
  let ?v = "discard_sentry ?u"
  let ?x = "on_trace (trace_show_flight tail) ?v"
  have u: "carries ?u tail" using assms by simp
  then have v: "held_right ?v" "bt_held (sw_trace ?v) = []"
    "tail = bytes_at (sw_trace ?v) (bt_flight (sw_trace ?v))"
    using discarded [of ?u] by (simp_all add: carries_def bytes_at_def)
  then have "trace_ok (trace_show_flight tail (sw_trace ?v))"
    using show_flight_ok [of "sw_trace ?v"] by (simp add: held_right_def)
  then have "settled ?x"
    using v(1,2) by (simp add: settled_def held_right_def sent_known_def)
      (simp add: trace_show_flight_def trace_show_def bytes_at_def)
  then show ?thesis
    by (simp add: complete_protocol_abort_drain_def Let_def case_prod_beta split: bool.split)
qed

lemma drop_to_tail:
  assumes "carries w bs" and "bs = pre @ tail"
  shows "carries (on_trace (trace_drop_but (length tail)) w) tail"
proof -
  let ?tr = "sw_trace w"
  have len: "length (bt_flight ?tr) - length tail = length pre"
    using assms by (simp add: carries_def bytes_at_def) (metis add_diff_cancel_right' length_append length_map)
  have "bytes_at ?tr (drop (length pre) (bt_flight ?tr)) = drop (length pre) bs"
    using assms(1) by (simp add: carries_def bytes_at_def drop_map)
  then show ?thesis
    using assms drop_but_ok [of ?tr "length tail"]
    by (simp add: carries_def held_right_def sent_known_def) (simp add: trace_drop_but_def bytes_at_def len)
qed

lemma drop_all:
  assumes "carries w bs"
  shows "settled (on_trace (trace_drop_but 0) w)"
  using drop_to_tail [OF assms, of bs "[]"] by (simp add: carries_def settled_def bytes_at_def)

lemma on_trace_drain [simp]:
  "on_trace f (w\<lparr>sw_drain := a\<rparr>) = (on_trace f w)\<lparr>sw_drain := a\<rparr>"
  by (simp add: on_trace_def)

lemma route_quarantine:
  assumes "carries w bs" and "\<forall>rest. tail = Some rest \<longrightarrow> (\<exists>pre. bs = pre @ rest)"
  shows "route_inv (quarantine cs d tail w)"
  using assms drop_to_tail [OF assms(1)] drop_all [OF assms(1)]
  by (auto simp: quarantine_def intro!: route_continue route_quiet drain_completed split: option.split)

lemma push_tail:
  assumes "drain_push d bs now = (d', tail)"
  shows "\<forall>rest. tail = Some rest \<longrightarrow> (\<exists>pre. bs = pre @ rest)"
  using assms drain_loop_tail by (fastforce simp: drain_push_def)

lemma read_carries:
  assumes "settled w"
  shows "carries (on_trace (trace_read bs) w) bs" and "younger t (on_trace (trace_read bs) w)"
proof -
  let ?tr = "sw_trace w"
  let ?n = "length (bt_read ?tr)"
  have below: "p < ?n" if "p \<in> set (bt_held ?tr) \<union> snd ` set (bt_sent ?tr)" for p
    using that assms by (intro placed [of ?tr]) (auto simp: settled_def held_right_def places_def)
  have "bytes_at (trace_read bs ?tr) [?n ..< ?n + length bs] = bs"
    by (rule nth_equalityI) (simp_all add: bytes_at_def trace_read_def nth_append)
  moreover have "bytes_at (trace_read bs ?tr) (bt_held ?tr) = bytes_at ?tr (bt_held ?tr)"
    using below by (simp add: bytes_at_def trace_read_def nth_append)
  ultimately show "carries (on_trace (trace_read bs) w) bs"
    using assms read_ok [of ?tr bs]
    by (simp add: carries_def settled_def held_right_def sent_known_def) (simp add: trace_read_def)
  show "younger t (on_trace (trace_read bs) w)"
    using assms below by (fastforce simp: younger_def settled_def trace_read_def sent_to_def)
qed

lemma receive_route:
  assumes "settled w"
  shows "route_inv (receive_bytes cs bs w)"
proof -
  let ?w = "on_trace (trace_read bs) w"
  have w: "carries ?w bs" "\<And>t. younger t ?w" by (rule read_carries [OF assms])+
  have routing: "route_inv (at_pc (Routing bs) v)" if "carries v bs" "\<And>t. younger t v" for v :: "'a serial_world"
    using that by (simp add: route_at pc_route_def) (simp add: carries_def held_right_def)
  show ?thesis
  proof (cases "sw_drain ?w")
    case (Some d)
    obtain d' tail where push: "drain_push d bs (sw_now ?w) = (d', tail)" by force
    show ?thesis
    proof (cases tail)
      case None
      then show ?thesis
        using Some push drop_all [OF w(1)] by (simp add: receive_bytes_def Let_def route_quiet)
    next
      case (Some rest)
      then obtain pre where pre: "bs = pre @ rest" using push_tail [OF push] by blast
      show ?thesis
        using \<open>sw_drain ?w = Some d\<close> push Some drop_to_tail [OF w(1) pre]
        by (simp add: receive_bytes_def Let_def route_continue drain_completed)
    qed
  next
    case None
    show ?thesis
    proof (cases "sw_detected ?w")
      case None
      then show ?thesis
        using \<open>sw_drain ?w = None\<close> w by (simp add: receive_bytes_def Let_def routing)
    next
      case (Some p)
      obtain d tail where push: "drain_push (with_consecutive_can (dt_token p) 5 (dt_consecutive_can p) (sw_now ?w))
          bs (sw_now ?w) = (d, tail)" by force
      have "route_inv (quarantine cs d tail (drop_detected ?w))"
        using w(1) push_tail [OF push] by (intro route_quarantine [of _ bs]) simp_all
      then show ?thesis
        using \<open>sw_drain ?w = None\<close> Some push w by (simp add: receive_bytes_def Let_def routing)
    qed
  qed
qed

lemma sentry_split:
  assumes "sentry_push held bs = (input, Inr out)"
  shows "so_passthrough out @ detected_bytes out @ input = held @ bs"
    and "detected_bytes out = [] \<or> input = []"
proof -
  have "sentry_loop (held @ bs) [] = (input, out)"
    using assms by (auto simp: sentry_push_def split: if_splits prod.splits)
  then show "so_passthrough out @ detected_bytes out @ input = held @ bs" "detected_bytes out = [] \<or> input = []"
    using sentry_loop_facts [where input = "held @ bs" and p = "[]"] by (auto simp: detected_bytes_def split: option.splits)
qed

lemma carries_known: "carries w bs \<Longrightarrow> trace_ok (sw_trace w) \<and> sent_known w"
  by (simp add: carries_def held_right_def)

lemma watch_route:
  assumes "carries w bs" and "sw_reservation w = None"
  shows "route_inv (watch_terminal cs bs w)"
proof -
  let ?tr = "sw_trace w"
  obtain input result where push: "sentry_push (sw_sentry w) bs = (input, result)" by force
  show ?thesis
  proof (cases result)
    case (Inl e)
    have "trace_ok (trace_drop_but 0 (trace_drop_held ?tr))"
      using assms(1) by (intro drop_but_ok drop_held_ok) (simp add: carries_def held_right_def)
    moreover have "sent_known w" using assms(1) by (simp add: carries_def held_right_def)
    ultimately have "route_inv (at_pc Leaving (finish_error e' (on_trace (trace_drop_but 0)
        (on_trace trace_drop_held (w\<lparr>sw_sentry := input\<rparr>)))))" for e'
      by (intro route_left [of _ "on_trace (trace_drop_but 0) (on_trace trace_drop_held (w\<lparr>sw_sentry := input\<rparr>))"])
        (simp_all add: sent_known_def trace_drop_but_def trace_drop_held_def)
    then show ?thesis using push Inl by (simp add: watch_terminal_def)
  next
    case (Inr out)
    let ?v = "on_trace (trace_sentry (so_passthrough out) (length (detected_bytes out))) (w\<lparr>sw_sentry := input\<rparr>)"
    have parts: "so_passthrough out @ detected_bytes out @ input = bytes_at ?tr (bt_held ?tr @ bt_flight ?tr)"
      using sentry_split(1) [OF push [unfolded Inr]] assms(1)
      by (simp add: carries_def held_right_def bytes_at_def)
    have tr: "trace_ok ?tr" using assms(1) by (simp add: carries_def held_right_def)
    note sentry = sentry_ok [OF tr parts sentry_split(2) [OF push [unfolded Inr]]]
    have same: "bt_read (sw_trace ?v) = bt_read ?tr" "bt_sent (sw_trace ?v) = bt_sent ?tr"
      by (simp_all add: trace_sentry_def trace_show_def Let_def)
    have v: "carries ?v (detected_bytes out)"
      using sentry assms(1) same by (simp add: carries_def held_right_def sent_known_def)
        (simp add: bytes_at_def trace_sentry_def trace_show_def Let_def)
    have fed: "carries (fst (terminal_feed cs (so_passthrough out) ?v)) (detected_bytes out)" using v by simp
    have free: "sw_reservation (fst (terminal_feed cs (so_passthrough out) ?v)) = None"
      using same_owner_ops(13) [of cs "so_passthrough out" ?v ?v] assms(2)
      by (simp add: same_owner_def) (simp add: on_trace_def)
    show ?thesis
    proof (cases "so_detected out")
      case None
      then have "settled ?v" using v by (simp add: detected_bytes_def carries_def settled_def bytes_at_def)
      then show ?thesis
        using push Inr None by (simp add: watch_terminal_def detected_bytes_def route_continue)
    next
      case (Some det)
      then have "route_inv (continue_or_leave (terminal_feed cs (so_passthrough out) ?v)
          (Reserving (det_direction det) (det_protocol_bytes det)))"
        using fed free carries_known [OF fed]
        by (simp only: continue_or_leave_def case_prod_beta route_at pc_route_def detected_bytes_def)
          (simp add: Some left_def)
      then show ?thesis using push Inr Some by (simp add: watch_terminal_def detected_bytes_def)
    qed
  qed
qed

lemma route_route:
  assumes "carries w bs" and "\<forall>t. younger t w"
  shows "route_inv (route_bytes cs bs w)"
proof (cases "sw_reservation w")
  case None
  then show ?thesis using assms by (simp add: route_bytes_def watch_route)
next
  case (Some r)
  then show ?thesis
    using assms watch_route [of "w\<lparr>sw_reservation := None\<rparr>" bs cs]
    by (simp add: route_bytes_def route_at pc_route_def) (simp add: carries_def held_right_def)
qed

lemma sent_settled:
  assumes "carries w bs" and "younger t w" and "t < sw_next_token w"
  shows "settled (on_trace (trace_send t) w)"
  using assms send_ok [of "sw_trace w" t]
  by (simp add: carries_def settled_def held_right_def younger_def sent_known_def)
    (auto simp: trace_send_def bytes_at_def)

lemma send_route:
  assumes "carries w bs" and "younger t w" and "t < sw_next_token w"
  shows "route_inv (send_transfer_event t bs w)"
proof -
  let ?v = "set_channel t (\<lambda>c. c\<lparr>rc_events := rc_events c @ [RawData bs]\<rparr>) w"
  have "on_trace (trace_send t) ?v = set_channel t (\<lambda>c. c\<lparr>rc_events := rc_events c @ [RawData bs]\<rparr>)
      (on_trace (trace_send t) w)"
    by (simp add: on_trace_def set_channel_def)
  then have "route_inv (at_pc Looping (on_trace (trace_send t) ?v))"
    using sent_settled [OF assms] by (simp add: route_quiet)
  moreover have "route_inv (at_pc Leaving (finish_error e w))" for e
    using assms(1) by (intro route_left [of _ w]) (simp_all add: carries_def held_right_def)
  ultimately show ?thesis by (simp add: send_transfer_event_def Let_def)
qed

lemma none_sent: "sent_known w \<Longrightarrow> sw_next_token w \<le> t \<Longrightarrow> sent_to t (sw_trace w) = []"
  by (fastforce simp: sent_known_def sent_to_def filter_empty_conv)

lemma carries_token:
  "carries w bs \<Longrightarrow> sw_next_token w \<le> n \<Longrightarrow> carries (w\<lparr>sw_next_token := n, sw_reservation := r\<rparr>) bs"
  by (force simp: carries_def held_right_def sent_known_def)

lemma reserve_route:
  assumes "carries w bs" and "\<forall>r. sw_reservation w = Some r \<longrightarrow> sent_to (rr_token r) (sw_trace w) = []"
  shows "route_inv (reserve_detected_zmodem cs uuid direction bs w)"
proof (cases "sw_reservation w")
  case (Some r)
  then show ?thesis
    using assms by (simp add: reserve_detected_zmodem_def route_at pc_route_def younger_def)
      (simp add: carries_def held_right_def)
next
  case None
  let ?t = "sw_next_token w"
  let ?v = "w\<lparr>sw_next_token := ?t + 1,
      sw_reservation := Some \<lparr>rr_token = ?t, rr_transfer_id = uuid ?t, rr_kind = serial_transfer_kind.Zmodem\<rparr>\<rparr>"
  have v: "carries ?v bs" using assms(1) by (intro carries_token) simp_all
  obtain d tail where push: "drain_push (with_consecutive_can ?t 5 0 (sw_now w)) bs (sw_now w) = (d, tail)" by force
  have quarantined: "route_inv (quarantine cs d tail
      (set_channel ?t (\<lambda>_. \<lparr>rc_events = [], rc_open = False, rc_cancel = False\<rparr>) ?v))"
    using v push_tail [OF push] by (intro route_quarantine [of _ bs]) simp_all
  let ?p = "\<lparr>dt_token = ?t, dt_transfer_id = uuid ?t, dt_direction = direction,
      dt_consecutive_can = ad_consecutive_can d, dt_deadline = sw_now w + ZMODEM_DETECTION_TIMEOUT\<rparr>"
  let ?x = "set_channel ?t (\<lambda>_. \<lparr>rc_events = [RawData bs], rc_open = True, rc_cancel = False\<rparr>)
      (?v\<lparr>sw_detected := Some ?p\<rparr>)"
  have y: "younger ?t ?x"
    using none_sent [of w ?t] assms(1) by (simp add: younger_def set_channel_def carries_def held_right_def)
  have c: "carries ?x bs" using v by simp
  have "?t < sw_next_token ?x" by (simp add: set_channel_def)
  then have "settled (on_trace (trace_send ?t) ?x)" by (rule sent_settled [OF c y])
  then have "route_inv (continue_or_leave (emit_regular (ZmodemDetected (uuid ?t) direction)
      (on_trace (trace_send ?t) ?x)) Looping)"
    by (simp add: route_continue)
  then show ?thesis
    using None push quarantined by (simp add: reserve_detected_zmodem_def Let_def)
qed

lemma emitted_or_not: "same_route (fst (if P then (v, True) else emit_data bs v)) v"
  by simp

lemma settled_completed: "settled w \<Longrightarrow> settled (fst (complete_protocol_abort_drain cs d [] w))"
  by (rule drain_completed [OF carries_settled])

lemma eof_route:
  assumes "settled w"
  shows "route_inv (remote_eof cs w)"
proof -
  obtain d out where first: "serial_decode cs (sw_decoder w) (sw_sentry w) False = (d, out)" by force
  obtain d' rest where second: "serial_decode cs d [] True = (d', rest)" by force
  let ?v = "on_trace (trace_show_held (sw_sentry w)) (w\<lparr>sw_sentry := [], sw_decoder := d'\<rparr>)"
  have "trace_ok (sw_trace ?v) \<and> sent_known ?v"
    using assms show_held_ok [of "sw_trace w"]
    by (simp add: settled_def held_right_def sent_known_def)
      (simp add: trace_show_held_def trace_show_def)
  then have leaving: "route_inv (at_pc Leaving u)" if "same_route u ?v" for u using that route_left by blast
  obtain u ok where u: "(if out @ rest = [] then (?v, True) else emit_data (out @ rest) ?v) = (u, ok)" by force
  have "same_route u ?v"
    using emitted_or_not [of "out @ rest = []" ?v "out @ rest"] unfolding u by simp
  then have "route_inv (at_pc Leaving u)" "route_inv (at_pc Leaving (emit_closed RemoteEof u))"
    by (simp_all add: leaving)
  then show ?thesis by (simp only: remote_eof_def first second u Let_def prod.case) (cases ok; simp)
qed

lemma loop_head_route:
  assumes "settled w"
  shows "route_inv (loop_head cs w)"
proof -
  let ?r = "case sw_drain w of
      Some d \<Rightarrow> if drain_deadline d \<le> sw_now w
        then complete_protocol_abort_drain cs d [] (w\<lparr>sw_drain := None\<rparr>) else (w, True)
    | None \<Rightarrow> (w, True)"
  obtain v ok where r: "?r = (v, ok)" by force
  have "settled (fst ?r)"
    using assms by (simp add: settled_completed split: option.split)
  then have v: "settled v" by (simp add: r)
  show ?thesis
    using v by (cases ok) (simp_all add: loop_head_def r route_quiet route_continue settled_shown split: option.split)
qed

lemma settled_discarded: "settled w \<Longrightarrow> settled (discard_sentry w)"
  by (simp add: settled_def discarded)

lemma unclaimed_route: "settled w \<Longrightarrow> route_inv (start_unclaimed_abort cs baud t w)"
  by (simp add: start_unclaimed_abort_def Let_def route_quiet settled_discarded)

lemma conclude_route: "settled w \<Longrightarrow> route_inv (conclude_write harmless ack result w)"
  using settled_known [of w]
  by (auto simp: conclude_write_def Let_def route_quiet intro!: route_left [of _ w] split: sum.split)

lemma end_transfer_route:
  assumes "settled w"
  shows "route_inv (end_transfer cs t bs ack w)"
proof -
  have finished: "route_inv (acknowledge r acks (at_pc Looping v))" if "settled v" for r acks and v :: "'a serial_world"
  proof -
    have "acknowledge r acks (at_pc Looping v) = at_pc Looping (acknowledge r acks v)"
      by (simp add: acknowledge_def at_pc_def cong: if_cong)
    then show ?thesis using that by (simp add: route_quiet)
  qed
  let ?v = "reset_decoder cs (release_detected_zmodem t (release_transfer t w))"
  obtain u ok where u: "show_sentry cs ?v = (u, ok)" by force
  have u_ok: "settled u" using settled_shown [of ?v cs] assms u by simp
  let ?u = "on_trace (trace_show_returned bs) u"
  have "settled ?u"
    using u_ok returned_ok [of "sw_trace u" bs]
    by (simp add: settled_def held_right_def sent_known_def) (simp add: trace_show_returned_def bytes_at_def)
  obtain x ok' where x: "terminal_feed cs bs ?u = (x, ok')" by force
  have "settled x" using settled_frames(10) [of cs bs ?u] \<open>settled ?u\<close> x by simp
  then show ?thesis
    using assms u_ok by (cases ok; cases ok') (simp_all add: end_transfer_def Let_def u x finished route_quiet)
qed

lemma run_command_route: "settled w \<Longrightarrow> route_inv (run_command cs baud command w)"
  by (simp add: run_command_def Let_def route_quiet conclude_route end_transfer_route unclaimed_route
      split: runtime_command.split option.split)

lemma select_route:
  assumes "settled w" and "sw_pc w = Selecting"
  shows "route_inv (select_branch cs baud input w)"
proof -
  have stay: "route_inv w" using assms settled_known by (simp add: route_inv_def quiet_route)
  have leave: "route_inv (at_pc Leaving v)" if "same_route v w" for v
    using route_left [OF that] settled_known [OF assms(1)] by blast
  show ?thesis
    using assms stay
    by (simp add: select_branch_def route_quiet leave unclaimed_route eof_route receive_route run_command_route
        route_continue drain_completed carries_settled
        split: stop_signal.split option.split list.split sum.split)
qed

lemma actor_route:
  assumes "route_inv w" and "owner_inv w"
  shows "route_inv (actor_step cs uuid baud input w)"
proof (cases "left (sw_pc w)")
  case True
  have known: "trace_ok (sw_trace w)" "sent_known w" using assms(1) by (simp_all add: route_inv_def)
  have "route_inv (at_pc pc v)" if "same_route v w" "left pc" for pc v
    using that known same_route_cong(1,2) [OF that(1)] by (simp add: route_at)
  then show ?thesis
    using True assms(1) by (auto simp: actor_step_def left_def)
next
  case False
  then have pc: "pc_route w (sw_pc w)" using assms(1) by (simp add: route_inv_def)
  have known: "trace_ok (sw_trace w) \<and> sent_known w" using assms(1) by (simp add: route_inv_def)
  have leave: "route_inv (at_pc Leaving v)" if "same_route v w" for v by (rule route_left [OF that known])
  show ?thesis
  proof (cases "quiet_pc (sw_pc w)")
    case True
    then have settled: "settled w" using pc by (simp add: quiet_route)
    show ?thesis
      using settled assms(1) False True
      by (cases "sw_pc w") (simp_all add: actor_step_def route_quiet route_continue leave conclude_route loop_head_route
          select_route quiet_pc_def [of "Routing _"] quiet_pc_def [of "SendingEvent _ _"]
          quiet_pc_def [of "Reserving _ _"] left_def split: option.split sum.split)
  next
    case moving: False
    show ?thesis
    proof (cases "sw_pc w")
      case (Routing bs)
      then show ?thesis using pc by (simp add: actor_step_def pc_route_def route_route)
    next
      case (SendingEvent t bs)
      have "t < sw_next_token w"
        using assms(2) SendingEvent by (auto simp: owner_inv_def tokens_ok_def pc_line_ok_def reservation_matches_def left_def)
      then show ?thesis using pc SendingEvent by (simp add: actor_step_def pc_route_def send_route)
    next
      case (Reserving direction bs)
      then show ?thesis using pc by (simp add: actor_step_def pc_route_def reserve_route)
    qed (use moving in \<open>simp_all add: quiet_pc_def\<close>)
  qed
qed

section \<open>The clients\<close>

text \<open>A client moves no bytes, and the only owner that it makes is new.\<close>

definition tokens_grow :: "'d serial_world \<Rightarrow> 'd serial_world \<Rightarrow> bool" where
  "tokens_grow v w \<longleftrightarrow> sw_next_token w \<le> sw_next_token v \<and>
     (\<forall>r. sw_reservation v = Some r \<longrightarrow> sw_reservation w = Some r \<or> sw_next_token w \<le> rr_token r)"

lemma grow_route:
  assumes "route_inv w" and "client_same v w" and "tokens_grow v w"
  shows "route_inv v"
proof -
  have same: "sw_trace v = sw_trace w" "sw_sentry v = sw_sentry w" "sw_pc v = sw_pc w"
    using assms(2) by (simp_all add: client_same_def)
  have known: "sent_known w" using assms(1) by (simp add: route_inv_def)
  then have "sent_known v" using assms(3) by (fastforce simp: sent_known_def same tokens_grow_def)
  moreover have "held_right w \<Longrightarrow> held_right v" using \<open>sent_known v\<close> by (simp add: held_right_def same)
  moreover have "sw_reservation v = Some r \<Longrightarrow> sw_reservation w = Some r \<or> sent_to (rr_token r) (sw_trace w) = []" for r
    using assms(3) none_sent [OF known, of "rr_token r"] by (auto simp: tokens_grow_def)
  ultimately show ?thesis
    using assms(1) unfolding route_inv_def same
    by (cases "sw_pc w") (auto simp: pc_route_def settled_def carries_def younger_def same)
qed

lemma tokens_grow_simps [simp]:
  "tokens_grow w w" "tokens_grow (drop_handle t v) w = tokens_grow v w"
  "tokens_grow (fst (try_send_command command v)) w = tokens_grow v w"
  "tokens_grow (signal_cancel t v) w = tokens_grow v w"
  "tokens_grow (v\<lparr>sw_tasks := a\<rparr>) w = tokens_grow v w"
  "tokens_grow (v\<lparr>sw_next_ack := b\<rparr>) w = tokens_grow v w"
  "tokens_grow (v\<lparr>sw_window := c\<rparr>) w = tokens_grow v w"
  "tokens_grow (v\<lparr>sw_stop := d\<rparr>) w = tokens_grow v w"
  "tokens_grow (v\<lparr>sw_commands := e\<rparr>) w = tokens_grow v w"
  "tokens_grow (v\<lparr>sw_detected := f\<rparr>) w = tokens_grow v w"
  "tokens_grow (v\<lparr>sw_handles := g\<rparr>) w = tokens_grow v w"
  "tokens_grow (new_handle t kind v) w = tokens_grow v w"
  "tokens_grow (set_channel t h v) w = tokens_grow v w"
  "tokens_grow (finish_handle t v) w = tokens_grow v w"
  by (simp_all add: tokens_grow_def drop_handle_def try_send_command_def signal_cancel_def set_channel_def
      close_channel_def new_handle_def finish_handle_def)

lemma start_grow: "tokens_grow (fst (client_start cs uuid passed call w)) w"
  by (cases call) (simp_all add: client_start_def done_with_def serial_input_def begin_raw_transfer_def
      request_transfer_cancel_exact_def resize_session_def request_stop_def write_call_def finish_call_def
      Let_def case_prod_beta tokens_grow_def [of "_\<lparr>sw_next_token := _, sw_reservation := _\<rparr>"]
      split: sum.split option.split)

lemma continue_grow: "tokens_grow (fst (client_continue task w)) w"
  by (cases task) (simp_all add: client_continue_def done_with_def claim_detected_zmodem_def
      send_command_def case_prod_beta split: sum.split option.split)

lemma step_grow:
  assumes "\<forall>input. event \<noteq> ActorStep input"
  shows "tokens_grow (serial_step cs uuid baud event w) w"
proof (cases event)
  case (ClientCall i passed call)
  then show ?thesis
    using start_grow [of cs uuid passed call w] by (simp add: case_prod_beta split: client_task.split)
next
  case (ClientContinue i)
  then show ?thesis using continue_grow [of "sw_tasks w i" w] by (simp add: case_prod_beta)
next
  case (ClientAbandon i)
  then show ?thesis by (simp add: client_abandon_def split: client_task.split)
next
  case (HandleRecv t)
  then show ?thesis by (simp add: handle_recv_def split: option.split list.split)
qed (use assms in \<open>simp_all\<close>, simp_all add: tokens_grow_def)

definition routed :: "'d serial_world \<Rightarrow> bool" where
  "routed w \<longleftrightarrow> route_inv w \<and> owner_inv w"

lemma step_routed:
  assumes "routed w"
  shows "routed (serial_step cs uuid baud event w)"
proof -
  let ?v = "serial_step cs uuid baud event w"
  have inv: "route_inv w" "owner_inv w" using assms by (simp_all add: routed_def)
  have frame: "route_inv v" if "same_route v w" "sw_pc v = sw_pc w" "sw_reservation v = sw_reservation w" for v
    using inv(1) that(2,3) same_route_cong [OF that(1)] that(1)
    by (cases "sw_pc w") (simp_all add: route_inv_def pc_route_def same_route_def)
  have "route_inv ?v"
  proof (cases event)
    case (ActorStep input)
    then show ?thesis using inv by (simp add: actor_route)
  next
    case (Elapse n)
    then show ?thesis by (intro frame) (simp_all add: same_route_def)
  next
    case TakeEvent
    then show ?thesis by (intro frame) (simp_all add: same_route_def)
  next
    case DropEvents
    then show ?thesis by (intro frame) (simp_all add: same_route_def)
  next
    case OtherSession
    have "client_same ?v w" by (simp add: OtherSession client_same_def)
    moreover have "tokens_grow ?v w" using step_grow [of event cs uuid baud w] by (simp add: OtherSession)
    ultimately show ?thesis using inv(1) grow_route by blast
  qed (use inv(1) grow_route client_step_same [of event cs uuid baud w] step_grow [of event cs uuid baud w] in blast)+
  then show ?thesis using inv(2) by (simp add: routed_def step_owner)
qed

interpretation routing: transition_system
  "\<lambda>w v. \<exists>event. v = serial_step cs uuid baud event w" routed
  for cs uuid baud
  by unfold_locales (auto intro: step_routed)

lemma run_routed: "routed (serial_run cs uuid baud events (serial_start cs' window token now))"
proof (rule routing.reach_inv [OF serial_run_reach])
  let ?w = "serial_start cs' window token now"
  have "trace_ok empty_trace"
    by (simp add: trace_ok_def places_def empty_trace_def shown_positions_def sent_to_def)
  then have "route_inv ?w"
    by (simp add: route_inv_def pc_route_def settled_def held_right_def sent_known_def serial_start_def)
      (simp add: empty_trace_def bytes_at_def)
  then show "routed ?w" using run_owner [of cs' _ _ "[]"] by (simp add: routed_def serial_run_def)
qed

section \<open>A session without transfers\<close>

text \<open>While no owner was ever made, nothing is sent to a transfer and nothing is dropped.\<close>

lemma tokens_grow_trans: "tokens_grow u v \<Longrightarrow> tokens_grow v w \<Longrightarrow> tokens_grow u w"
  by (fastforce simp: tokens_grow_def)

lemma grow_cong:
  "sw_next_token x = sw_next_token v \<Longrightarrow> sw_reservation x = sw_reservation v \<Longrightarrow> tokens_grow x w = tokens_grow v w"
  by (simp add: tokens_grow_def)

lemma grow_owner: "same_owner x v \<Longrightarrow> tokens_grow x w = tokens_grow v w"
  by (intro grow_cong) (simp_all add: same_owner_def)

lemma tokens_grow_frames [simp]:
  "tokens_grow (at_pc pc v) w = tokens_grow v w"
  "tokens_grow (on_trace f v) w = tokens_grow v w"
  "tokens_grow (acknowledge r acks v) w = tokens_grow v w"
  "tokens_grow (reset_decoder cs v) w = tokens_grow v w"
  "tokens_grow (discard_sentry v) w = tokens_grow v w"
  "tokens_grow (emit_closed reason v) w = tokens_grow v w"
  "tokens_grow (finish_error e v) w = tokens_grow v w"
  "tokens_grow (finish_stopped signal v) w = tokens_grow v w"
  "tokens_grow (finish_interruptible_failure failure v) w = tokens_grow v w"
  "tokens_grow (fst (emit_regular event v)) w = tokens_grow v w"
  "tokens_grow (fst (emit_data bs v)) w = tokens_grow v w"
  "tokens_grow (fst (terminal_feed cs bs v)) w = tokens_grow v w"
  "tokens_grow (fst (show_sentry cs v)) w = tokens_grow v w"
  "tokens_grow (conclude_write harmless ack result v) w = tokens_grow v w"
  "tokens_grow (v\<lparr>sw_sentry := a\<rparr>) w = tokens_grow v w"
  "tokens_grow (v\<lparr>sw_decoder := b\<rparr>) w = tokens_grow v w"
  by (rule grow_owner, simp)+

lemma tokens_grow_ops [simp]:
  "tokens_grow (continue_or_leave q pc) w = tokens_grow (fst q) w"
  "tokens_grow (replace_drain d v) w = tokens_grow v w"
  "tokens_grow (drop_detected v) w = tokens_grow v w"
  "tokens_grow (release_detected_zmodem t v) w = tokens_grow v w"
  "tokens_grow (start_write source bs v) w = tokens_grow v w"
  "tokens_grow (v\<lparr>sw_drain := c\<rparr>) w = tokens_grow v w"
  "tokens_grow (start_unclaimed_abort cs baud t v) w = tokens_grow v w"
  by (simp_all add: tokens_grow_def replace_drain_def acknowledge_def drop_detected_def close_channel_def
      release_detected_zmodem_def set_channel_def start_write_def start_unclaimed_abort_def Let_def discard_sentry_def
      on_trace_def at_pc_def reset_decoder_def continue_or_leave_def case_prod_beta split: option.split)

lemma tokens_grow_release [simp]:
  "tokens_grow v w \<Longrightarrow> tokens_grow (release_transfer t v) w"
  "tokens_grow v w \<Longrightarrow> tokens_grow (v\<lparr>sw_reservation := None\<rparr>) w"
  by (simp_all add: tokens_grow_def release_transfer_def)

lemma complete_grow [simp]:
  "tokens_grow v w \<Longrightarrow> tokens_grow (fst (complete_protocol_abort_drain cs d tail v)) w"
  by (simp add: complete_protocol_abort_drain_def Let_def case_prod_beta split: bool.split)

lemma sections_grow [simp]:
  "tokens_grow v w \<Longrightarrow> tokens_grow (quarantine cs d tail v) w"
  "tokens_grow v w \<Longrightarrow> tokens_grow (end_transfer cs t bs ack v) w"
  "tokens_grow v w \<Longrightarrow> tokens_grow (remote_eof cs v) w"
  "tokens_grow v w \<Longrightarrow> tokens_grow (send_transfer_event t bs v) w"
  "tokens_grow v w \<Longrightarrow> tokens_grow (watch_terminal cs bs v) w"
  by (simp_all add: quarantine_def end_transfer_def remote_eof_def send_transfer_event_def watch_terminal_def
      Let_def case_prod_beta split: option.split bool.split sum.split)

lemma branches_grow [simp]:
  "tokens_grow v w \<Longrightarrow> tokens_grow (loop_head cs v) w"
  "tokens_grow v w \<Longrightarrow> tokens_grow (run_command cs baud command v) w"
  "tokens_grow v w \<Longrightarrow> tokens_grow (receive_bytes cs bs v) w"
  "tokens_grow v w \<Longrightarrow> tokens_grow (route_bytes cs bs v) w"
  by (simp_all add: loop_head_def run_command_def receive_bytes_def route_bytes_def Let_def case_prod_beta
      split: option.split bool.split sum.split runtime_command.split)

lemma reserve_grow: "tokens_grow (reserve_detected_zmodem cs uuid direction bs w) w"
  by (simp add: reserve_detected_zmodem_def Let_def case_prod_beta
      tokens_grow_def [of "_\<lparr>sw_next_token := _, sw_reservation := _\<rparr>"] split: option.split)

lemma actor_grow: "tokens_grow (actor_step cs uuid baud input w) w"
proof -
  have "tokens_grow (w\<lparr>sw_registered := a, sw_drain := b, sw_commands := c, sw_commands_open := d\<rparr>) w" for a b c d
    by (simp add: tokens_grow_def)
  then show ?thesis
    by (cases "sw_pc w") (simp_all add: actor_step_def select_branch_def reserve_grow
        split: option.split sum.split stop_signal.split list.split)
qed

lemma every_grow: "tokens_grow (serial_step cs uuid baud event w) w"
proof (cases "\<exists>input. event = ActorStep input")
  case True
  then show ?thesis by (auto simp: actor_grow)
qed (auto intro: step_grow)

text \<open>Steps that neither send nor drop.\<close>

definition no_loss :: "'d serial_world \<Rightarrow> 'd serial_world \<Rightarrow> bool" where
  "no_loss v w \<longleftrightarrow> bt_sent (sw_trace v) = bt_sent (sw_trace w) \<and> bt_dropped (sw_trace v) = bt_dropped (sw_trace w)"

lemma no_loss_frames [simp]:
  "no_loss w w"
  "same_route v u \<Longrightarrow> no_loss v w = no_loss u w"
  by (simp_all add: no_loss_def same_route_def)

lemma no_loss_shown [simp]:
  "no_loss (on_trace (trace_show_held bs) v) w = no_loss v w"
  "no_loss (on_trace (trace_show_returned bs) v) w = no_loss v w"
  "no_loss (on_trace (trace_sentry bs n) v) w = no_loss v w"
  "no_loss (on_trace (trace_read bs) v) w = no_loss v w"
  "no_loss (v\<lparr>sw_sentry := a\<rparr>) w = no_loss v w"
  by (simp_all add: no_loss_def trace_show_held_def trace_show_def trace_show_returned_def trace_sentry_def
      trace_read_def Let_def)

lemma no_loss_emit [simp]:
  "no_loss (fst (terminal_feed cs bs v)) w = no_loss v w"
  "no_loss (fst (emit_regular event v)) w = no_loss v w"
  "no_loss (continue_or_leave q pc) w = no_loss (fst q) w"
  "no_loss (at_pc pc v) w = no_loss v w"
  "no_loss (conclude_write harmless ack result v) w = no_loss v w"
  "no_loss (acknowledge r acks v) w = no_loss v w"
  "no_loss (start_write source bs v) w = no_loss v w"
  "no_loss (release_transfer t v) w = no_loss v w"
  "no_loss (release_detected_zmodem t v) w = no_loss v w"
  "no_loss (reset_decoder cs v) w = no_loss v w"
  "no_loss (v\<lparr>sw_commands := c\<rparr>) w = no_loss v w"
  "no_loss (v\<lparr>sw_drain := d\<rparr>) w = no_loss v w"
  "no_loss (v\<lparr>sw_reservation := e\<rparr>) w = no_loss v w"
  by (rule no_loss_frames(2), simp)+

lemma show_sentry_no_loss [simp]: "no_loss (fst (show_sentry cs v)) w = no_loss v w"
  by (simp add: show_sentry_def)

text \<open>Where nobody owns the line, a step of the actor loses nothing unless it leaves or makes an owner.\<close>

lemma watch_no_loss: "left (sw_pc (watch_terminal cs bs w)) \<or> no_loss (watch_terminal cs bs w) w"
  by (simp add: watch_terminal_def left_def split: prod.split sum.split option.split)

lemma end_no_loss: "no_loss (end_transfer cs t bs ack w) w"
  by (simp add: end_transfer_def Let_def case_prod_beta split: bool.split)

lemma command_no_loss:
  assumes "sw_detected w = None"
  shows "no_loss (run_command cs baud command w) w"
  using assms by (simp add: run_command_def Let_def end_no_loss decline_pending_zmodem_def
      split: runtime_command.split option.split)

lemma select_no_loss:
  assumes "sw_reservation w = None" and "sw_detected w = None" and "sw_drain w = None"
  shows "left (sw_pc (select_branch cs baud input w)) \<or> no_loss (select_branch cs baud input w) w"
proof -
  have eof: "sw_pc (remote_eof cs w) = Leaving"
    by (simp add: remote_eof_def Let_def case_prod_beta split: bool.split)
  have "no_loss (receive_bytes cs bs w) w" for bs
    using assms by (simp add: receive_bytes_def Let_def on_trace_def [of "trace_read bs"])
      (simp add: on_trace_def [symmetric])
  moreover have "no_loss (run_command cs baud command (w\<lparr>sw_commands := rest\<rparr>)) w" for command rest
    using assms command_no_loss [of "w\<lparr>sw_commands := rest\<rparr>" cs baud command] by (simp add: no_loss_def)
  ultimately show ?thesis
    using assms eof by (simp add: select_branch_def expire_pending_zmodem_def left_def
        split: stop_signal.split option.split list.split sum.split)
qed

lemma grow_next: "tokens_grow v u \<Longrightarrow> sw_next_token w < sw_next_token u \<Longrightarrow> sw_next_token w < sw_next_token v"
  by (simp add: tokens_grow_def)

lemma reserve_next:
  assumes "sw_reservation w = None"
  shows "sw_next_token w < sw_next_token (reserve_detected_zmodem cs uuid direction bs w)"
proof -
  let ?t = "sw_next_token w"
  let ?v = "w\<lparr>sw_next_token := ?t + 1,
      sw_reservation := Some \<lparr>rr_token = ?t, rr_transfer_id = uuid ?t, rr_kind = serial_transfer_kind.Zmodem\<rparr>\<rparr>"
  have "tokens_grow (reserve_detected_zmodem cs uuid direction bs w) ?v"
    using assms by (simp add: reserve_detected_zmodem_def Let_def case_prod_beta)
  then show ?thesis by (rule grow_next) simp
qed

lemma actor_no_loss:
  assumes free: "sw_reservation w = None" "sw_detected w = None" "sw_drain w = None"
    and "pc_line_ok w (sw_pc w)" and "\<not> left (sw_pc w)"
  shows "left (sw_pc (actor_step cs uuid baud input w)) \<or>
    sw_next_token w < sw_next_token (actor_step cs uuid baud input w) \<or> no_loss (actor_step cs uuid baud input w) w"
proof (cases "sw_pc w")
  case Looping
  then show ?thesis
    using free by (simp add: actor_step_def loop_head_def release_abandoned_transfer_def)
next
  case Selecting
  then show ?thesis using select_no_loss [OF free] by (auto simp: actor_step_def)
next
  case (Routing bs)
  then show ?thesis using free watch_no_loss [of cs bs w] by (auto simp: actor_step_def route_bytes_def)
next
  case (Reserving direction bs)
  then have "sw_next_token w < sw_next_token (reserve_detected_zmodem cs uuid direction bs w)"
    using free by (intro reserve_next) simp
  then show ?thesis by (simp add: actor_step_def Reserving)
qed (use assms in \<open>auto simp: actor_step_def pc_line_ok_def reservation_matches_def left_def
    split: option.split sum.split\<close>)

definition plain :: "nat \<Rightarrow> 'd serial_world \<Rightarrow> bool" where
  "plain k w \<longleftrightarrow> owner_inv w \<and> k \<le> sw_next_token w \<and>
     (\<forall>r. sw_reservation w = Some r \<longrightarrow> k \<le> rr_token r) \<and>
     (sw_next_token w = k \<and> \<not> left (sw_pc w) \<longrightarrow> bt_sent (sw_trace w) = [] \<and> bt_dropped (sw_trace w) = [])"

lemma plain_free:
  assumes "plain k w" and "sw_next_token w = k" and "\<not> left (sw_pc w)"
  shows "sw_reservation w = None" and "sw_detected w = None" and "sw_drain w = None"
proof -
  have "tokens_ok w" "line_ok w" using assms by (simp_all add: plain_def owner_inv_def)
  then show free: "sw_reservation w = None"
    using assms by (cases "sw_reservation w") (auto simp: plain_def tokens_ok_def)
  show "sw_detected w = None" "sw_drain w = None"
    using free \<open>line_ok w\<close> by (auto simp: line_ok_def reservation_matches_def intro: not_Some_eq [THEN iffD1])
qed

lemma step_left: "left (sw_pc w) \<Longrightarrow> left (sw_pc (serial_step cs uuid baud event w))"
proof (cases "\<exists>input. event = ActorStep input")
  case False
  assume "left (sw_pc w)"
  moreover have "sw_pc (serial_step cs uuid baud event w) = sw_pc w"
    using False client_step_same [of event cs uuid baud w] by (cases event) (simp_all add: client_same_def)
  ultimately show ?thesis by simp
qed (auto simp: left_def actor_step_def)

lemma step_plain:
  assumes "plain k w"
  shows "plain k (serial_step cs uuid baud event w)"
proof -
  let ?v = "serial_step cs uuid baud event w"
  have "owner_inv w" using assms by (simp add: plain_def)
  then have owner: "owner_inv w" "owner_inv ?v" using step_owner by blast+
  have grow: "tokens_grow ?v w" by (rule every_grow)
  have "bt_sent (sw_trace ?v) = [] \<and> bt_dropped (sw_trace ?v) = []"
    if kept: "sw_next_token ?v = k" and on: "\<not> left (sw_pc ?v)"
  proof -
    have before: "sw_next_token w = k" "\<not> left (sw_pc w)"
      using grow kept assms on step_left [of w cs uuid baud event] by (simp_all add: tokens_grow_def plain_def) blast
    then have none: "bt_sent (sw_trace w) = []" "bt_dropped (sw_trace w) = []"
      using assms by (simp_all add: plain_def)
    show ?thesis
    proof (cases "\<exists>input. event = ActorStep input")
      case True
      then obtain input where "event = ActorStep input" by auto
      moreover have "pc_line_ok w (sw_pc w)" using owner(1) before(2) by (simp add: owner_inv_def)
      ultimately have "no_loss ?v w"
        using actor_no_loss [OF plain_free [OF assms before], of cs uuid baud input] kept on before by simp
      then show ?thesis using none by (simp add: no_loss_def)
    next
      case False
      then have "sw_trace ?v = sw_trace w"
        using client_step_same [of event cs uuid baud w] by (cases event) (simp_all add: client_same_def)
      then show ?thesis using none by simp
    qed
  qed
  then show ?thesis
    using owner(2) grow assms by (fastforce simp: plain_def tokens_grow_def)
qed

interpretation plain_session: transition_system
  "\<lambda>w v. \<exists>event. v = serial_step cs uuid baud event w" "plain k"
  for cs uuid baud k
  by unfold_locales (auto intro: step_plain)

lemma run_plain: "plain token (serial_run cs uuid baud events (serial_start cs' window token now))"
proof (rule plain_session.reach_inv [OF serial_run_reach])
  show "plain token (serial_start cs' window token now)"
    using run_owner [of cs' _ _ "[]"] by (simp add: plain_def serial_run_def) (simp add: serial_start_def empty_trace_def)
qed

section \<open>A transfer dropped at the wrong moment\<close>

text \<open>A transfer that is dropped between the look-up of its channel and the sending of the event ends the
  whole session with an error, although a dropped transfer is only to give the line back.\<close>

lemma serial_drop_race:
  "sw_emitted (serial_run sample_charset (\<lambda>_. []) 9600
     [ActorStep opened, ActorStep opened, ActorStep opened, ClientCall 0 False (CallBegin YmodemReceive),
      ActorStep (opened\<lparr>ai_read := Some (Inr [0x43])\<rparr>), ActorStep opened, DropHandle 1, ActorStep opened]
     (serial_start sample_charset sample_window 1 0)) =
   [Connecting, Connected, ErrorEvent TransferNotActive, Closed ErrorReason]"
  by (simp add: sample_steps receive_bytes_def READ_BUFFER_BYTES_def route_bytes_def on_trace_def trace_read_def
      send_transfer_event_def drop_handle_def try_send_command_def close_channel_def finish_error_def emit_closed_def)

end
