(* ===== verification/Serial_Delivery.thy ===== *)
theory Serial_Delivery
  imports Serial_Routing
begin

text \<open>
  What comes out of a serial session: the events that a transfer takes from its channel and the data
  events of the terminal carry the very bytes that were read from the device and routed there.
\<close>

section \<open>What a transfer receives\<close>

definition event_bytes :: "raw_event \<Rightarrow> bytes" where
  "event_bytes event = (case event of RawData bs \<Rightarrow> bs | CancelRequested \<Rightarrow> [])"

text \<open>The bytes that wait in the channel of the transfer \<open>t\<close>, and those of the device that the trace says it
  was sent.\<close>

definition queued :: "nat \<Rightarrow> 'd serial_world \<Rightarrow> bytes" where
  "queued t w = concat (map event_bytes (rc_events (sw_channels w t)))"

definition sent_bytes :: "nat \<Rightarrow> 'd serial_world \<Rightarrow> bytes" where
  "sent_bytes t w = bytes_at (sw_trace w) (sent_to t (sw_trace w))"

text \<open>What the handle of the transfer \<open>t\<close> takes out of its channel at one event, and along a run.\<close>

definition received :: "nat \<Rightarrow> serial_event \<Rightarrow> 'd serial_world \<Rightarrow> bytes" where
  "received t event w =
     (if event = HandleRecv t
      then (case snd (handle_recv t w) of None \<Rightarrow> [] | Some e \<Rightarrow> event_bytes e) else [])"

fun taken ::
    "'d serial_charset \<Rightarrow> (nat \<Rightarrow> rstr) \<Rightarrow> nat \<Rightarrow> nat \<Rightarrow> serial_event list \<Rightarrow> 'd serial_world \<Rightarrow> bytes" where
  "taken cs uuid baud t [] w = []"
| "taken cs uuid baud t (event # events) w =
     received t event w @ taken cs uuid baud t events (serial_step cs uuid baud event w)"

lemma taken_none: "HandleRecv t \<notin> set events \<Longrightarrow> taken cs uuid baud t events w = []"
  by (induction events arbitrary: w) (auto simp: received_def)

text \<open>Steps that send nothing to a transfer.\<close>

definition same_delivery :: "'d serial_world \<Rightarrow> 'd serial_world \<Rightarrow> bool" where
  "same_delivery v w \<longleftrightarrow> (\<forall>t. rc_events (sw_channels v t) = rc_events (sw_channels w t)) \<and>
     bt_sent (sw_trace v) = bt_sent (sw_trace w) \<and> (\<exists>bs. bt_read (sw_trace v) = bt_read (sw_trace w) @ bs)"

lemma same_delivery_refl [simp]: "same_delivery w w"
  by (simp add: same_delivery_def)

lemma same_delivery_fields [simp]:
  "same_delivery (v\<lparr>sw_decoder := a\<rparr>) w = same_delivery v w"
  "same_delivery (v\<lparr>sw_reservation := b\<rparr>) w = same_delivery v w"
  "same_delivery (v\<lparr>sw_pc := c\<rparr>) w = same_delivery v w"
  "same_delivery (v\<lparr>sw_detected := d\<rparr>) w = same_delivery v w"
  "same_delivery (v\<lparr>sw_drain := e\<rparr>) w = same_delivery v w"
  "same_delivery (v\<lparr>sw_commands := f\<rparr>) w = same_delivery v w"
  "same_delivery (v\<lparr>sw_commands_open := g\<rparr>) w = same_delivery v w"
  "same_delivery (v\<lparr>sw_registered := h\<rparr>) w = same_delivery v w"
  "same_delivery (v\<lparr>sw_sentry := i\<rparr>) w = same_delivery v w"
  "same_delivery (v\<lparr>sw_acks := j\<rparr>) w = same_delivery v w"
  "same_delivery (v\<lparr>sw_tasks := k\<rparr>) w = same_delivery v w"
  "same_delivery (v\<lparr>sw_next_ack := l\<rparr>) w = same_delivery v w"
  "same_delivery (v\<lparr>sw_handles := m\<rparr>) w = same_delivery v w"
  "same_delivery (v\<lparr>sw_handed := n\<rparr>) w = same_delivery v w"
  "same_delivery (v\<lparr>sw_window := q\<rparr>) w = same_delivery v w"
  "same_delivery (v\<lparr>sw_stop := r\<rparr>) w = same_delivery v w"
  "same_delivery (v\<lparr>sw_next_token := s\<rparr>) w = same_delivery v w"
  "same_delivery (v\<lparr>sw_canceled := x\<rparr>) w = same_delivery v w"
  by (simp_all add: same_delivery_def)

lemma same_delivery_channel:
  assumes "\<And>c. rc_events (f c) = rc_events c"
  shows "same_delivery (set_channel t f v) w = same_delivery v w"
proof -
  have "rc_events (sw_channels (set_channel t f v) t') = rc_events (sw_channels v t')" for t'
    by (simp add: set_channel_def assms)
  then show ?thesis by (simp add: same_delivery_def) (simp add: set_channel_def)
qed

lemma same_delivery_ops [simp]:
  "same_delivery (at_pc pc v) w = same_delivery v w"
  "same_delivery (close_channel t v) w = same_delivery v w"
  "same_delivery (signal_cancel t v) w = same_delivery v w"
  "same_delivery (try_emit event v) w = same_delivery v w"
  "same_delivery (acknowledge r acks v) w = same_delivery v w"
  "same_delivery (reset_decoder cs v) w = same_delivery v w"
  "same_delivery (start_write source bs v) w = same_delivery v w"
  "same_delivery (release_transfer t v) w = same_delivery v w"
  "same_delivery (release_detected_zmodem t v) w = same_delivery v w"
  "same_delivery (drop_detected v) w = same_delivery v w"
  "same_delivery (replace_drain d v) w = same_delivery v w"
  "same_delivery (new_handle t kind v) w = same_delivery v w"
  "same_delivery (fst (try_send_command command v)) w = same_delivery v w"
  by (simp_all add: close_channel_def same_delivery_channel signal_cancel_def release_transfer_def
      release_detected_zmodem_def drop_detected_def split: option.split)
    (simp_all add: same_delivery_def at_pc_def try_emit_def acknowledge_def reset_decoder_def start_write_def
      replace_drain_def new_handle_def try_send_command_def same_delivery_channel split: option.split)

lemma same_delivery_trace [simp]:
  "same_delivery (on_trace trace_drop_held v) w = same_delivery v w"
  "same_delivery (on_trace (trace_drop_but n) v) w = same_delivery v w"
  "same_delivery (on_trace (trace_show_held bs) v) w = same_delivery v w"
  "same_delivery (on_trace (trace_show_flight bs) v) w = same_delivery v w"
  "same_delivery (on_trace (trace_show_returned bs) v) w = same_delivery v w"
  "same_delivery (on_trace (trace_sentry bs n) v) w = same_delivery v w"
  "same_delivery v w \<Longrightarrow> same_delivery (on_trace (trace_read bs) v) w"
  by (auto simp: same_delivery_def on_trace_def trace_drop_held_def trace_drop_but_def trace_show_held_def trace_show_def
      trace_show_flight_def trace_show_returned_def trace_sentry_def trace_read_def Let_def)

lemma same_delivery_emit [simp]:
  "same_delivery (emit_closed reason v) w = same_delivery v w"
  "same_delivery (finish_error e v) w = same_delivery v w"
  "same_delivery (finish_stopped signal v) w = same_delivery v w"
  "same_delivery (finish_interruptible_failure failure v) w = same_delivery v w"
  "same_delivery (fst (emit_regular event v)) w = same_delivery v w"
  "same_delivery (fst (emit_data bs v)) w = same_delivery v w"
  "same_delivery (fst (terminal_feed cs bs v)) w = same_delivery v w"
  "same_delivery (continue_or_leave q pc) w = same_delivery (fst q) w"
  "same_delivery (conclude_write harmless ack result v) w = same_delivery v w"
  "same_delivery (discard_sentry v) w = same_delivery v w"
  "same_delivery (fst (show_sentry cs v)) w = same_delivery v w"
  "same_delivery (drop_handle t v) w = same_delivery v w"
  "same_delivery (finish_handle t v) w = same_delivery v w"
  by (simp_all add: emit_closed_def finish_error_def finish_stopped_def finish_interruptible_failure_def
      emit_regular_def emit_data_def terminal_feed_def continue_or_leave_def conclude_write_def Let_def
      discard_sentry_def show_sentry_def drop_handle_def finish_handle_def
      case_prod_beta split: stop_signal.split io_failure.split sum.split)

lemma same_delivery_sections [simp]:
  "same_delivery (fst (complete_protocol_abort_drain cs d rest v)) w = same_delivery v w"
  "same_delivery (start_unclaimed_abort cs baud t v) w = same_delivery v w"
  "same_delivery (end_transfer cs t bs ack v) w = same_delivery v w"
  "same_delivery (quarantine cs d tail v) w = same_delivery v w"
  "same_delivery (remote_eof cs v) w = same_delivery v w"
  "same_delivery (watch_terminal cs bs v) w = same_delivery v w"
  by (simp_all add: complete_protocol_abort_drain_def start_unclaimed_abort_def end_transfer_def quarantine_def
      remote_eof_def watch_terminal_def Let_def case_prod_beta split: bool.split option.split sum.split)

lemma same_delivery_branches [simp]:
  "same_delivery (loop_head cs v) w = same_delivery v w"
  "same_delivery (run_command cs baud command v) w = same_delivery v w"
  "same_delivery (route_bytes cs bs v) w = same_delivery v w"
  "same_delivery v w \<Longrightarrow> same_delivery (receive_bytes cs bs v) w"
  by (simp_all add: loop_head_def run_command_def route_bytes_def receive_bytes_def Let_def case_prod_beta
      split: option.split bool.split runtime_command.split)

lemma select_delivery: "same_delivery (select_branch cs baud input w) w"
  by (simp add: select_branch_def split: stop_signal.split option.split list.split sum.split)

lemma actor_delivery:
  assumes "\<forall>t bs. sw_pc w \<noteq> SendingEvent t bs" and "\<forall>direction bs. sw_pc w \<noteq> Reserving direction bs"
  shows "same_delivery (actor_step cs uuid baud input w) w"
  using assms by (cases "sw_pc w") (simp_all add: actor_step_def select_delivery split: option.split sum.split)

section \<open>Every step keeps the account\<close>

lemma sent_below: "trace_ok tr \<Longrightarrow> p \<in> set (sent_to t tr) \<Longrightarrow> p < length (bt_read tr)"
  by (rule placed) (auto simp: sent_to_def places_def)

lemma same_sent:
  assumes "same_delivery v w" and "trace_ok (sw_trace w)"
  shows "sent_bytes t v = sent_bytes t w" and "queued t v = queued t w"
proof -
  have "sent_to t (sw_trace v) = sent_to t (sw_trace w)" using assms(1) by (simp add: same_delivery_def sent_to_def)
  moreover have "bt_read (sw_trace v) ! p = bt_read (sw_trace w) ! p" if "p \<in> set (sent_to t (sw_trace w))" for p
    using assms(1) sent_below [OF assms(2) that] by (auto simp: same_delivery_def nth_append)
  ultimately show "sent_bytes t v = sent_bytes t w" by (simp add: sent_bytes_def bytes_at_def)
  show "queued t v = queued t w" using assms(1) by (simp add: same_delivery_def queued_def)
qed

text \<open>\<open>w\<close> becomes \<open>v\<close>, and the transfer \<open>t\<close> took \<open>bs\<close> out of its channel.\<close>

definition kept :: "'d serial_world \<Rightarrow> 'd serial_world \<Rightarrow> nat \<Rightarrow> bytes \<Rightarrow> bool" where
  "kept v w t bs \<longleftrightarrow> (\<forall>got. got @ queued t w = sent_bytes t w \<longrightarrow> (got @ bs) @ queued t v = sent_bytes t v)"

lemma kept_same: "same_delivery v w \<Longrightarrow> trace_ok (sw_trace w) \<Longrightarrow> kept v w t []"
  by (simp add: kept_def same_sent)

lemma sent_after:
  assumes "sw_trace v = trace_send t (sw_trace w)" and "carries w bs"
  shows "sent_bytes t' v = sent_bytes t' w @ (if t' = t then bs else [])"
  using assms by (auto simp: sent_bytes_def bytes_at_def sent_to_def trace_send_def carries_def filter_map comp_def)

lemma send_kept:
  assumes "carries w bs"
  shows "kept (send_transfer_event t bs w) w t' []"
proof -
  let ?v = "at_pc Looping (on_trace (trace_send t)
      (set_channel t (\<lambda>c. c\<lparr>rc_events := rc_events c @ [RawData bs]\<rparr>) w))"
  have "sw_trace ?v = trace_send t (sw_trace w)" by (simp add: at_pc_def on_trace_def set_channel_def)
  note sent = sent_after [OF this assms]
  have "queued t' ?v = queued t' w @ (if t' = t then bs else [])"
    by (simp add: queued_def at_pc_def on_trace_def set_channel_def event_bytes_def)
  then have "kept ?v w t' []" by (auto simp: kept_def sent)
  moreover have "trace_ok (sw_trace w)" using assms carries_known by blast
  ultimately show ?thesis
    by (simp add: send_transfer_event_def Let_def kept_same)
qed

lemma fresh_empty:
  assumes "got @ queued t w = sent_bytes t w" and "sent_known w" and "sw_next_token w \<le> t"
  shows "got = []" and "queued t w = []" and "sent_bytes t w = []"
  using assms none_sent [of w t] by (simp_all add: sent_bytes_def bytes_at_def)

lemma kept_fresh:
  assumes "sent_known w" and "sw_next_token w \<le> t"
    and "\<forall>t'. t' \<noteq> t \<longrightarrow> rc_events (sw_channels v t') = rc_events (sw_channels w t')"
    and "queued t v = sent_bytes t v" and "\<forall>t'. t' \<noteq> t \<longrightarrow> sent_bytes t' v = sent_bytes t' w"
  shows "kept v w t' []"
  using assms fresh_empty [OF _ assms(1,2)] by (cases "t' = t") (auto simp: kept_def queued_def)

lemma reserve_kept:
  assumes "carries w bs"
  shows "kept (reserve_detected_zmodem cs uuid direction bs w) w t' []"
proof (cases "sw_reservation w")
  case (Some r)
  then show ?thesis
    using carries_known [OF assms] by (simp add: reserve_detected_zmodem_def kept_same)
next
  case None
  let ?t = "sw_next_token w"
  let ?v = "w\<lparr>sw_next_token := Suc ?t,
      sw_reservation := Some \<lparr>rr_token = ?t, rr_transfer_id = uuid ?t, rr_kind = serial_transfer_kind.Zmodem\<rparr>\<rparr>"
  have known: "trace_ok (sw_trace w)" "sent_known w" using carries_known [OF assms] by simp_all
  obtain d tail where push: "drain_push (with_consecutive_can ?t 5 0 (sw_now w)) bs (sw_now w) = (d, tail)" by force
  let ?q = "set_channel ?t (\<lambda>_. \<lparr>rc_events = [], rc_open = False, rc_cancel = False\<rparr>) ?v"
  have quarantined: "kept (quarantine cs d tail ?q) w t' []"
  proof (rule kept_fresh [OF known(2) order_refl])
    have same: "same_delivery (quarantine cs d tail ?q) ?q" by simp
    have q: "sw_trace ?q = sw_trace w" by (simp add: set_channel_def)
    note sent = same_sent [OF same, unfolded q, OF known(1)]
    have "sent_bytes t ?q = sent_bytes t w" for t unfolding sent_bytes_def q ..
    moreover have "sent_bytes ?t w = []" using none_sent [OF known(2)] by (simp add: sent_bytes_def bytes_at_def)
    moreover have "queued ?t ?q = []" by (simp add: queued_def set_channel_def)
    ultimately show "queued ?t (quarantine cs d tail ?q) = sent_bytes ?t (quarantine cs d tail ?q)"
      "\<forall>t'. t' \<noteq> ?t \<longrightarrow> sent_bytes t' (quarantine cs d tail ?q) = sent_bytes t' w"
      by (simp_all add: sent)
    show "\<forall>t'. t' \<noteq> ?t \<longrightarrow> rc_events (sw_channels (quarantine cs d tail ?q) t') = rc_events (sw_channels w t')"
      using same by (simp add: same_delivery_def) (simp add: set_channel_def)
  qed
  let ?p = "\<lparr>dt_token = ?t, dt_transfer_id = uuid ?t, dt_direction = direction,
      dt_consecutive_can = ad_consecutive_can d, dt_deadline = sw_now w + ZMODEM_DETECTION_TIMEOUT\<rparr>"
  let ?x = "on_trace (trace_send ?t) (set_channel ?t (\<lambda>_. \<lparr>rc_events = [RawData bs], rc_open = True, rc_cancel = False\<rparr>)
      (?v\<lparr>sw_detected := Some ?p\<rparr>))"
  have x: "sw_trace ?x = trace_send ?t (sw_trace w)" by (simp add: on_trace_def set_channel_def)
  have "kept (continue_or_leave (emit_regular (ZmodemDetected (uuid ?t) direction) ?x) Looping) w t' []"
  proof (rule kept_fresh [OF known(2) order_refl])
    let ?y = "continue_or_leave (emit_regular (ZmodemDetected (uuid ?t) direction) ?x) Looping"
    have same: "same_delivery ?y ?x" by simp
    have "same_route ?y ?x" by simp
    then have y: "sw_trace ?y = trace_send ?t (sw_trace w)" unfolding same_route_def x by blast
    note sent = sent_after [OF y assms]
    have none: "sent_bytes ?t w = []" using none_sent [OF known(2)] by (simp add: sent_bytes_def bytes_at_def)
    have "queued ?t ?x = bs" by (simp add: queued_def set_channel_def on_trace_def event_bytes_def)
    then show "queued ?t ?y = sent_bytes ?t ?y" using same by (simp add: sent none same_delivery_def queued_def)
    show "\<forall>t'. t' \<noteq> ?t \<longrightarrow> sent_bytes t' ?y = sent_bytes t' w" by (simp add: sent)
    show "\<forall>t'. t' \<noteq> ?t \<longrightarrow> rc_events (sw_channels ?y t') = rc_events (sw_channels w t')"
      using same by (simp add: same_delivery_def) (simp add: set_channel_def on_trace_def)
  qed
  then show ?thesis
    using None push quarantined by (simp add: reserve_detected_zmodem_def Let_def)
qed

lemma actor_kept:
  assumes "routed w"
  shows "kept (actor_step cs uuid baud input w) w t []"
proof -
  have ok: "trace_ok (sw_trace w)" and pc: "left (sw_pc w) \<or> pc_route w (sw_pc w)"
    using assms by (simp_all add: routed_def route_inv_def)
  show ?thesis
  proof (cases "(\<exists>t bs. sw_pc w = SendingEvent t bs) \<or> (\<exists>direction bs. sw_pc w = Reserving direction bs)")
    case True
    then show ?thesis
      using pc by (auto simp: actor_step_def pc_route_def left_def intro: send_kept reserve_kept)
  next
    case False
    then show ?thesis using actor_delivery [of w cs uuid baud input] ok by (intro kept_same) auto
  qed
qed

text \<open>A client sends nothing; the only channel that it makes is new.\<close>

lemma begin_kept:
  assumes "sent_known w" and "trace_ok (sw_trace w)"
  shows "kept (fst (begin_raw_transfer uuid passed kind w)) w t []"
proof -
  let ?t = "sw_next_token w"
  let ?v = "new_handle ?t kind (set_channel ?t (\<lambda>_. \<lparr>rc_events = [], rc_open = True, rc_cancel = False\<rparr>)
      (w\<lparr>sw_next_token := Suc ?t,
         sw_reservation := Some \<lparr>rr_token = ?t, rr_transfer_id = uuid ?t, rr_kind = kind\<rparr>\<rparr>))"
  have "kept ?v w t []"
    using none_sent [OF assms(1), of ?t]
    by (intro kept_fresh [OF assms(1) order_refl])
      (simp_all add: new_handle_def set_channel_def queued_def sent_bytes_def bytes_at_def)
  then show ?thesis
    using kept_same [OF same_delivery_refl assms(2), of t]
    by (simp add: begin_raw_transfer_def Let_def split: sum.split option.split)
qed

lemma start_kept:
  assumes "sent_known w" and "trace_ok (sw_trace w)"
  shows "kept (fst (client_start cs uuid passed call w)) w t []"
proof (cases "\<exists>kind. call = CallBegin kind")
  case True
  then show ?thesis using begin_kept [OF assms] by (auto simp: client_start_def done_with_def case_prod_beta)
next
  case False
  then have "same_delivery (fst (client_start cs uuid passed call w)) w"
    by (cases call) (simp_all add: client_start_def done_with_def serial_input_def
      request_transfer_cancel_exact_def resize_session_def request_stop_def write_call_def finish_call_def
      Let_def case_prod_beta split: sum.split option.split)
  then show ?thesis using assms(2) by (rule kept_same)
qed

lemma continue_delivery: "same_delivery (fst (client_continue task w)) w"
  by (cases task) (simp_all add: client_continue_def done_with_def claim_detected_zmodem_def
      send_command_def case_prod_beta split: sum.split option.split)

lemma kept_tasks: "kept (v\<lparr>sw_tasks := a\<rparr>) w t bs = kept v w t bs"
  by (simp add: kept_def queued_def sent_bytes_def)

lemma recv_kept: "kept (fst (handle_recv t w)) w t (received t (HandleRecv t) w)"
  by (auto simp: kept_def received_def handle_recv_def queued_def sent_bytes_def set_channel_def event_bytes_def
      split: option.split list.split)

lemma recv_other: "t' \<noteq> t \<Longrightarrow> kept (fst (handle_recv t w)) w t' []"
  by (auto simp: kept_def handle_recv_def queued_def sent_bytes_def set_channel_def
      split: option.split list.split)

lemma step_kept:
  assumes "routed w"
  shows "kept (serial_step cs uuid baud event w) w t (received t event w)"
proof -
  have known: "sent_known w" "trace_ok (sw_trace w)" using assms by (simp_all add: routed_def route_inv_def)
  note same = kept_same [OF _ known(2), of _ t]
  show ?thesis
  proof (cases event)
    case (ActorStep input)
    then show ?thesis using actor_kept [OF assms] by (simp add: received_def)
  next
    case (ClientCall i passed call)
    then show ?thesis
      using start_kept [OF known, of cs uuid passed call t] same [OF same_delivery_refl]
      by (simp add: received_def case_prod_beta kept_tasks split: client_task.split)
  next
    case (ClientContinue i)
    then show ?thesis
      using same [OF continue_delivery] by (simp add: received_def case_prod_beta kept_tasks)
  next
    case (ClientAbandon i)
    then show ?thesis
      by (auto simp: received_def kept_tasks client_abandon_def intro!: same split: client_task.split)
  next
    case (HandleRecv t')
    then show ?thesis
      using recv_kept [of t w] recv_other [of t t' w] by (cases "t' = t") (simp_all add: received_def)
  next
    case (DropHandle t')
    then show ?thesis by (simp add: received_def same)
  next
    case OtherSession
    then show ?thesis by (simp add: received_def same)
  qed (auto simp: received_def kept_def queued_def sent_bytes_def)
qed

lemma run_kept:
  assumes "routed w" and "got @ queued t w = sent_bytes t w"
  shows "(got @ taken cs uuid baud t events w) @ queued t (serial_run cs uuid baud events w) =
    sent_bytes t (serial_run cs uuid baud events w)"
  using assms
proof (induction events arbitrary: w got)
  case (Cons event events)
  let ?v = "serial_step cs uuid baud event w"
  have "(got @ received t event w) @ queued t ?v = sent_bytes t ?v"
    using step_kept [OF Cons.prems(1), of cs uuid baud event t] Cons.prems(2) by (simp add: kept_def)
  then show ?case
    using Cons.IH [OF step_routed [OF Cons.prems(1)], of "got @ received t event w" cs uuid baud event]
    by (simp add: serial_run_def)
qed (simp add: serial_run_def)

lemma run_delivers:
  "taken cs uuid baud t events (serial_start cs' window token now) @
     queued t (serial_run cs uuid baud events (serial_start cs' window token now)) =
   sent_bytes t (serial_run cs uuid baud events (serial_start cs' window token now))"
proof -
  let ?w = "serial_start cs' window token now"
  have "routed ?w" using run_routed [of undefined undefined undefined "[]"] by (simp add: serial_run_def)
  moreover have "[] @ queued t ?w = sent_bytes t ?w"
    by (simp add: queued_def sent_bytes_def bytes_at_def sent_to_def) (simp add: serial_start_def empty_trace_def)
  ultimately show ?thesis using run_kept [of ?w "[]" t cs uuid baud events] by simp
qed

section \<open>What the terminal shows\<close>

text \<open>The text of the data events, the bytes that the trace says were given to the terminal, and the state of
  a decoder after some chunks.\<close>

definition event_text :: "serial_runtime_event \<Rightarrow> bytes" where
  "event_text event = (case event of DataEvent bs \<Rightarrow> bs | _ \<Rightarrow> [])"

definition data_text :: "serial_runtime_event list \<Rightarrow> bytes" where
  "data_text events = concat (map event_text events)"

definition shown_bytes :: "'d serial_world \<Rightarrow> bytes" where
  "shown_bytes w = map snd (bt_shown (sw_trace w))"

fun decoder_after :: "'d serial_charset \<Rightarrow> 'd serial_decoder \<Rightarrow> bytes list \<Rightarrow> 'd serial_decoder" where
  "decoder_after cs d [] = d"
| "decoder_after cs d (chunk # chunks) = decoder_after cs (fst (serial_decode cs d chunk False)) chunks"

text \<open>The terminal's bytes come in parts, each decoded by a fresh decoder, chunk by chunk; at the end of the
  line the last decoder is flushed.\<close>

definition parts_text :: "'d serial_charset \<Rightarrow> bytes list list \<Rightarrow> bytes" where
  "parts_text cs parts = concat (map (decode_chunks cs (charset_decoder cs)) parts)"

definition flush_text :: "'d serial_charset \<Rightarrow> bytes list list \<Rightarrow> bytes" where
  "flush_text cs parts = snd (serial_decode cs (decoder_after cs (charset_decoder cs) (last parts)) [] True)"

definition parted :: "bool \<Rightarrow> bytes list list \<Rightarrow> 'd serial_world \<Rightarrow> bool" where
  "parted several parts w \<longleftrightarrow>
     parts \<noteq> [] \<and> (several \<or> length parts = 1) \<and> shown_bytes w = concat (concat parts)"

definition displays :: "'d serial_charset \<Rightarrow> bool \<Rightarrow> 'd serial_world \<Rightarrow> bool" where
  "displays cs several w \<longleftrightarrow>
     (\<exists>parts. parted several parts w \<and> data_text (sw_emitted w) = parts_text cs parts \<and>
        sw_decoder w = decoder_after cs (charset_decoder cs) (last parts))"

definition displayed :: "'d serial_charset \<Rightarrow> bool \<Rightarrow> 'd serial_world \<Rightarrow> bool" where
  "displayed cs several w \<longleftrightarrow>
     (\<exists>parts rest. parted several parts w \<and>
        data_text (sw_emitted w) @ rest = parts_text cs parts @ flush_text cs parts)"

lemma displays_end: "displays cs m w \<Longrightarrow> displayed cs m w"
  by (auto simp: displays_def displayed_def)

lemma displays_more: "displays cs m w \<Longrightarrow> (m \<Longrightarrow> m') \<Longrightarrow> displays cs m' w"
  "displayed cs m w \<Longrightarrow> (m \<Longrightarrow> m') \<Longrightarrow> displayed cs m' w"
  by (auto simp: displays_def displayed_def parted_def)

text \<open>Steps that show nothing.\<close>

definition same_text :: "'d serial_world \<Rightarrow> 'd serial_world \<Rightarrow> bool" where
  "same_text v w \<longleftrightarrow> bt_shown (sw_trace v) = bt_shown (sw_trace w) \<and>
     data_text (sw_emitted v) = data_text (sw_emitted w)"

definition same_display :: "'d serial_world \<Rightarrow> 'd serial_world \<Rightarrow> bool" where
  "same_display v w \<longleftrightarrow> sw_decoder v = sw_decoder w \<and> same_text v w"

lemma same_display_refl [simp]: "same_display w w"
  by (simp add: same_display_def same_text_def)

lemma displayed_cong: "same_text v w \<Longrightarrow> displayed cs m v = displayed cs m w"
  by (simp add: displayed_def same_text_def parted_def shown_bytes_def)

lemma displays_cong: "same_display v w \<Longrightarrow> displays cs m v = displays cs m w"
  by (simp add: displays_def same_display_def same_text_def parted_def shown_bytes_def)

lemma displayed_same: "same_display v w \<Longrightarrow> displayed cs m v = displayed cs m w"
  by (simp add: displayed_cong same_display_def)

lemma same_display_fields [simp]:
  "same_display (v\<lparr>sw_reservation := b\<rparr>) w = same_display v w"
  "same_display (v\<lparr>sw_pc := c\<rparr>) w = same_display v w"
  "same_display (v\<lparr>sw_detected := d\<rparr>) w = same_display v w"
  "same_display (v\<lparr>sw_drain := e\<rparr>) w = same_display v w"
  "same_display (v\<lparr>sw_commands := f\<rparr>) w = same_display v w"
  "same_display (v\<lparr>sw_commands_open := g\<rparr>) w = same_display v w"
  "same_display (v\<lparr>sw_registered := h\<rparr>) w = same_display v w"
  "same_display (v\<lparr>sw_sentry := i\<rparr>) w = same_display v w"
  "same_display (v\<lparr>sw_acks := j\<rparr>) w = same_display v w"
  "same_display (v\<lparr>sw_next_token := k\<rparr>) w = same_display v w"
  "same_display (v\<lparr>sw_wire := l\<rparr>) w = same_display v w"
  "same_display (v\<lparr>sw_channels := m\<rparr>) w = same_display v w"
  by (simp_all add: same_display_def same_text_def)

lemma same_display_ops [simp]:
  "same_display (at_pc pc v) w = same_display v w"
  "same_display (set_channel t g v) w = same_display v w"
  "same_display (close_channel t v) w = same_display v w"
  "same_display (acknowledge r acks v) w = same_display v w"
  "same_display (start_write source bs v) w = same_display v w"
  "same_display (release_transfer t v) w = same_display v w"
  "same_display (release_detected_zmodem t v) w = same_display v w"
  "same_display (drop_detected v) w = same_display v w"
  "same_display (replace_drain d v) w = same_display v w"
  by (simp_all add: at_pc_def set_channel_def close_channel_def acknowledge_def
      start_write_def release_transfer_def release_detected_zmodem_def drop_detected_def
      replace_drain_def split: option.split)

lemma same_display_trace [simp]:
  "same_display (on_trace trace_drop_held v) w = same_display v w"
  "same_display (on_trace (trace_drop_but n) v) w = same_display v w"
  "same_display (on_trace (trace_read bs) v) w = same_display v w"
  "same_display (on_trace (trace_send t) v) w = same_display v w"
  "same_display (discard_sentry v) w = same_display v w"
  by (simp_all add: same_display_def same_text_def on_trace_def trace_drop_held_def trace_drop_but_def
      trace_read_def trace_send_def discard_sentry_def)

lemma same_display_try_emit: "event_text event = [] \<Longrightarrow> same_display (try_emit event v) w = same_display v w"
  by (simp add: same_display_def same_text_def try_emit_def data_text_def)

lemma same_display_emit [simp]:
  "same_display (emit_closed reason v) w = same_display v w"
  "same_display (finish_error e v) w = same_display v w"
  "same_display (finish_stopped signal v) w = same_display v w"
  "same_display (finish_interruptible_failure failure v) w = same_display v w"
  "same_display (conclude_write harmless ack result v) w = same_display v w"
  by (simp_all add: emit_closed_def finish_error_def finish_stopped_def finish_interruptible_failure_def
      conclude_write_def Let_def same_display_try_emit event_text_def
      split: stop_signal.split io_failure.split sum.split)

lemma same_display_regular:
  "event_text event = [] \<Longrightarrow> same_display (fst (emit_regular event v)) w = same_display v w"
  by (simp add: emit_regular_def same_display_try_emit)

text \<open>A chunk is decoded and emitted, or the session ends.\<close>

definition fed :: "'d serial_charset \<Rightarrow> bool \<Rightarrow> 'd serial_world \<times> bool \<Rightarrow> bool" where
  "fed cs m r \<longleftrightarrow> (if snd r then displays cs m (fst r) else displayed cs m (fst r))"

lemma decode_last:
  "decode_chunks cs d (chunks @ [chunk]) =
     decode_chunks cs d chunks @ snd (serial_decode cs (decoder_after cs d chunks) chunk False)"
  by (induction chunks arbitrary: d) (simp_all add: case_prod_beta)

lemma decoder_last:
  "decoder_after cs d (chunks @ [chunk]) = fst (serial_decode cs (decoder_after cs d chunks) chunk False)"
  by (induction chunks arbitrary: d) simp_all

lemma emit_data_text:
  assumes "emit_data bs v = (u, ok)"
  shows "bt_shown (sw_trace u) = bt_shown (sw_trace v)" and "sw_decoder u = sw_decoder v"
    and "data_text (sw_emitted u) = data_text (sw_emitted v) @ (if ok then bs else [])"
proof -
  have error: "same_display (finish_error e v) v" for e by simp
  have emitted: "sw_emitted (try_emit (DataEvent bs) v) = sw_emitted v @ [DataEvent bs]"
    if "sw_events_open v" "\<not> EVENT_CHANNEL_CAPACITY - length (sw_events v) \<le> TERMINAL_EVENT_RESERVE"
    using that by (simp add: try_emit_def TERMINAL_EVENT_RESERVE_def)
  have kept: "bt_shown (sw_trace (try_emit (DataEvent bs) v)) = bt_shown (sw_trace v)"
    "sw_decoder (try_emit (DataEvent bs) v) = sw_decoder v"
    by (simp_all add: try_emit_def)
  show "bt_shown (sw_trace u) = bt_shown (sw_trace v)" "sw_decoder u = sw_decoder v"
    "data_text (sw_emitted u) = data_text (sw_emitted v) @ (if ok then bs else [])"
    using assms error kept emitted
    by (auto simp: emit_data_def emit_regular_def same_display_def same_text_def data_text_def event_text_def
        split: if_splits)
qed

text \<open>One more chunk in the last part.\<close>

definition add_chunk :: "bytes \<Rightarrow> bytes list list \<Rightarrow> bytes list list" where
  "add_chunk bs parts = butlast parts @ [last parts @ [bs]]"

lemma add_chunk_facts:
  assumes "parted m parts w" and "shown_bytes v = shown_bytes w @ bs"
    and "serial_decode cs (decoder_after cs (charset_decoder cs) (last parts)) bs False = (d, out)"
  shows "parted m (add_chunk bs parts) v" and "parts_text cs (add_chunk bs parts) = parts_text cs parts @ out"
    and "decoder_after cs (charset_decoder cs) (last (add_chunk bs parts)) = d"
proof -
  have split: "parts = butlast parts @ [last parts]" using assms(1) by (simp add: parted_def)
  have "concat (concat parts) = concat (concat (butlast parts)) @ concat (last parts)"
    by (subst split) simp
  then show "parted m (add_chunk bs parts) v"
    using assms(1,2) by (auto simp: parted_def add_chunk_def)
  have "parts_text cs parts = parts_text cs (butlast parts) @ decode_chunks cs (charset_decoder cs) (last parts)"
    by (subst split) (simp add: parts_text_def)
  then show "parts_text cs (add_chunk bs parts) = parts_text cs parts @ out"
    using assms(3) by (simp add: add_chunk_def parts_text_def decode_last)
  show "decoder_after cs (charset_decoder cs) (last (add_chunk bs parts)) = d"
    using assms(3) by (simp add: add_chunk_def decoder_last)
qed

lemma feed_shown:
  assumes "displays cs m w" and "shown_bytes v = shown_bytes w @ bs"
    and "sw_decoder v = sw_decoder w" and "sw_emitted v = sw_emitted w"
  shows "fed cs m (terminal_feed cs bs v)"
proof -
  obtain parts where parts: "parted m parts w" "data_text (sw_emitted w) = parts_text cs parts"
      "sw_decoder w = decoder_after cs (charset_decoder cs) (last parts)"
    using assms(1) by (auto simp: displays_def)
  obtain d out where decode: "serial_decode cs (sw_decoder v) bs False = (d, out)" by force
  note added = add_chunk_facts [OF parts(1) assms(2) decode [unfolded assms(3) parts(3)]]
  let ?v = "v\<lparr>sw_decoder := d\<rparr>"
  have shown: "parted m (add_chunk bs parts) u" if "bt_shown (sw_trace u) = bt_shown (sw_trace v)" for u :: "'a serial_world"
    using added(1) that by (simp add: parted_def shown_bytes_def)
  consider (empty) "bs = []" | (silent) "bs \<noteq> []" "out = []" | (emits) u ok where "bs \<noteq> []" "out \<noteq> []" "emit_data out ?v = (u, ok)"
    by (cases "emit_data out ?v") auto
  then show ?thesis
  proof cases
    case empty
    then have "displays cs m v"
      using parts assms by (auto simp: displays_def parted_def)
    then show ?thesis using empty by (simp add: terminal_feed_def fed_def)
  next
    case silent
    then have "displays cs m ?v"
      using added parts(2) assms(4) shown [of ?v]
      by (auto simp: displays_def intro!: exI [of _ "add_chunk bs parts"])
    then show ?thesis using silent decode by (simp add: terminal_feed_def fed_def)
  next
    case emits
    note emitted = emit_data_text [OF emits(3)]
    have u: "parted m (add_chunk bs parts) u" using emitted(1) by (intro shown) simp
    have data: "data_text (sw_emitted u) = parts_text cs parts @ (if ok then out else [])"
      using emitted(3) parts(2) assms(4) by simp
    have "displays cs m u" if "ok"
      using u data that added emitted(2) by (auto simp: displays_def intro!: exI [of _ "add_chunk bs parts"])
    moreover have "displayed cs m u" if "\<not> ok"
      using u data that added by (auto simp: displayed_def intro!: exI [of _ "add_chunk bs parts"])
    ultimately show ?thesis using emits decode by (simp add: terminal_feed_def fed_def)
  qed
qed

lemma reset_displays: "displays cs m w \<Longrightarrow> displays cs True (reset_decoder cs w)"
proof -
  assume "displays cs m w"
  then obtain parts where "parted m parts w" "data_text (sw_emitted w) = parts_text cs parts"
    by (auto simp: displays_def)
  then show ?thesis
    by (auto simp: displays_def parted_def parts_text_def reset_decoder_def shown_bytes_def
        intro!: exI [of _ "parts @ [[]]"])
qed

lemma reset_same: "same_display v w \<Longrightarrow> displays cs m (reset_decoder cs v) = displays cs m (reset_decoder cs w)"
  by (rule displays_cong) (simp add: same_display_def same_text_def reset_decoder_def)

section \<open>The branches of the actor and the terminal\<close>

lemma shown_more:
  "length ps = length bs \<Longrightarrow> shown_bytes (on_trace (trace_show ps bs) w) = shown_bytes w @ bs"
  "length (bt_held (sw_trace w)) = length bs \<Longrightarrow> shown_bytes (on_trace (trace_show_held bs) w) = shown_bytes w @ bs"
  "length (bt_flight (sw_trace w)) = length bs \<Longrightarrow> shown_bytes (on_trace (trace_show_flight bs) w) = shown_bytes w @ bs"
  "shown_bytes (on_trace (trace_show_returned bs) w) = shown_bytes w @ bs"
  "length bs \<le> length (bt_held (sw_trace w) @ bt_flight (sw_trace w)) \<Longrightarrow>
     shown_bytes (on_trace (trace_sentry bs n) w) = shown_bytes w @ bs"
  by (simp_all add: shown_bytes_def trace_show_def trace_show_held_def trace_show_flight_def
      trace_show_returned_def trace_sentry_def Let_def map_snd_zip_take comp_def)

lemma held_length: "held_right w \<Longrightarrow> length (bt_held (sw_trace w)) = length (sw_sentry w)"
  by (simp add: held_right_def bytes_at_def)

lemma carries_length: "carries w bs \<Longrightarrow> length (bt_flight (sw_trace w)) = length bs"
  by (simp add: carries_def bytes_at_def)

lemma carries_held: "carries w bs \<Longrightarrow> held_right w"
  by (simp add: carries_def)

lemma on_trace_rest [simp]:
  "sw_decoder (on_trace f w) = sw_decoder w" "sw_emitted (on_trace f w) = sw_emitted w"
  "shown_bytes (w\<lparr>sw_sentry := a\<rparr>) = shown_bytes w"
  by (simp_all add: on_trace_def shown_bytes_def)

lemma show_sentry_fed:
  assumes "displays cs m w" and "held_right w"
  shows "fed cs m (show_sentry cs w)"
  unfolding show_sentry_def
  by (rule feed_shown [OF assms(1)]) (simp_all add: shown_more held_length [OF assms(2)])

lemma fed_after: "fed cs m (v, True) \<Longrightarrow> displays cs m v" "fed cs m (v, False) \<Longrightarrow> displayed cs m v"
  by (simp_all add: fed_def)

lemma drain_fed:
  assumes "displays cs m w" and "carries w tail"
  shows "fed cs True (complete_protocol_abort_drain cs d tail w)"
proof -
  let ?r = "release_detected_zmodem (ad_token d) (release_transfer (ad_token d) w)"
  let ?u = "reset_decoder cs ?r"
  let ?v = "discard_sentry ?u"
  have "displays cs m ?r" using assms(1) displays_cong [of ?r w cs m] by simp
  then have "displays cs True ?u" by (rule reset_displays)
  then have v: "displays cs True ?v" using displays_cong [of ?v ?u cs True] by simp
  have "carries ?u tail" using assms(2) by simp
  then have "length (bt_flight (sw_trace ?v)) = length tail"
    using discarded(3) [of ?u] by (simp add: carries_def bytes_at_def)
  then have "fed cs True (terminal_feed cs tail (on_trace (trace_show_flight tail) ?v))"
    by (intro feed_shown [OF v]) (simp_all add: shown_more)
  moreover have "displays cs True (acknowledge r acks x) = displays cs True x" for r acks x
    by (rule displays_cong) simp
  ultimately show ?thesis
    by (cases "terminal_feed cs tail (on_trace (trace_show_flight tail) ?v)")
      (auto simp: complete_protocol_abort_drain_def Let_def fed_def split: bool.split)
qed

text \<open>What a branch leaves behind.\<close>

definition screen :: "'d serial_charset \<Rightarrow> bool \<Rightarrow> 'd serial_world \<Rightarrow> bool" where
  "screen cs m w \<longleftrightarrow> (if left (sw_pc w) then displayed cs m w else displays cs m w)"

lemma screen_displayed: "screen cs m w \<Longrightarrow> displayed cs m w"
  by (auto simp: screen_def displays_end split: if_splits)

lemma screen_at: "displays cs m w \<Longrightarrow> screen cs m (at_pc pc w)"
  using displays_cong [of "at_pc pc w" w cs m] by (simp add: screen_def displays_end)

lemma screen_left: "displayed cs m w \<Longrightarrow> screen cs m (at_pc Leaving w)"
  using displayed_same [of "at_pc Leaving w" w cs m] by (simp add: screen_def left_def)

lemma screen_fed: "fed cs m r \<Longrightarrow> screen cs m (continue_or_leave r pc)"
  by (simp add: continue_or_leave_def fed_def case_prod_beta screen_at screen_left)

lemma screen_same: "displays cs m w \<Longrightarrow> same_display v w \<Longrightarrow> screen cs m (at_pc pc v)"
  using displays_cong [of v w cs m] by (simp add: screen_at)

lemma screen_conclude: "displays cs m w \<Longrightarrow> screen cs m (conclude_write harmless ack result w)"
  by (auto simp: conclude_write_def Let_def intro!: screen_same [of cs m w] split: sum.split)

lemma quarantine_screen:
  assumes "displays cs m w" and "carries w bs" and "\<forall>rest. tail = Some rest \<longrightarrow> (\<exists>pre. bs = pre @ rest)"
  shows "screen cs True (quarantine cs d tail w)"
proof (cases tail)
  case None
  then show ?thesis
    using displays_more(1) [OF assms(1), of True]
    by (auto simp: quarantine_def intro!: screen_same [of cs True w])
next
  case (Some rest)
  then obtain pre where "bs = pre @ rest" using assms(3) by auto
  then have "carries (on_trace (trace_drop_but (length rest)) w) rest" using drop_to_tail [OF assms(2)] by simp
  moreover have "displays cs m (on_trace (trace_drop_but (length rest)) w)"
    using assms(1) displays_cong [of "on_trace (trace_drop_but (length rest)) w" w cs m] by simp
  ultimately show ?thesis by (simp add: quarantine_def Some screen_fed drain_fed)
qed

text \<open>Without an owner and a drain no branch starts a new part.\<close>

definition may_part :: "bool \<Rightarrow> 'd serial_world \<Rightarrow> bool" where
  "may_part m w \<longleftrightarrow> m \<or> sw_reservation w = None \<and> sw_detected w = None \<and> sw_drain w = None"

lemma loop_head_screen:
  assumes "displays cs m w" and "settled w" and "may_part m w"
  shows "screen cs m (loop_head cs w)"
proof -
  let ?r = "case sw_drain w of
      Some d \<Rightarrow> if drain_deadline d \<le> sw_now w
        then complete_protocol_abort_drain cs d [] (w\<lparr>sw_drain := None\<rparr>) else (w, True)
    | None \<Rightarrow> (w, True)"
  obtain v ok where r: "?r = (v, ok)" by force
  have drained: "fed cs m (complete_protocol_abort_drain cs d [] (w\<lparr>sw_drain := None\<rparr>))" if "m" for d
    using that drain_fed [of cs m "w\<lparr>sw_drain := None\<rparr>" "[]" d] assms(1,2)
      displays_cong [of "w\<lparr>sw_drain := None\<rparr>" w cs m] carries_settled [of "w\<lparr>sw_drain := None\<rparr>"]
    by simp
  have "fed cs m ?r"
    using assms(1,3) drained by (auto simp: fed_def may_part_def split: option.split if_splits)
  then have fed: "fed cs m (v, ok)" by (simp add: r)
  have "settled (fst ?r)" using assms(2) by (simp add: settled_completed split: option.split)
  then have v: "settled v" by (simp add: r)
  show ?thesis
  proof (cases ok)
    case False
    then show ?thesis using fed fed_after(2) [of cs m v] by (simp add: loop_head_def r screen_left)
  next
    case True
    then have on: "displays cs m v" using fed fed_after(1) by simp
    show ?thesis
    proof (cases "release_abandoned_transfer (map_option ad_token (sw_drain v)) v")
      case None
      then show ?thesis using True on by (simp add: loop_head_def r screen_at)
    next
      case (Some t)
      have "m"
        using Some r assms(3) by (auto simp: may_part_def release_abandoned_transfer_def split: option.splits)
      let ?x = "release_detected_zmodem t (reset_decoder cs (v\<lparr>sw_reservation := None\<rparr>))"
      have "displays cs True (reset_decoder cs (v\<lparr>sw_reservation := None\<rparr>))"
        using reset_displays [of cs m "v\<lparr>sw_reservation := None\<rparr>"] on
          displays_cong [of "v\<lparr>sw_reservation := None\<rparr>" v cs m] by simp
      then have "displays cs m ?x"
        using \<open>m\<close> displays_cong [of ?x "reset_decoder cs (v\<lparr>sw_reservation := None\<rparr>)" cs True] by simp
      moreover have "held_right ?x"
      proof -
        have "settled ?x" using v by simp
        then show ?thesis by (simp add: settled_def)
      qed
      ultimately show ?thesis
        using True Some by (simp add: loop_head_def r screen_fed show_sentry_fed)
    qed
  qed
qed

lemma unclaimed_screen:
  assumes "displays cs m w" and "m"
  shows "screen cs m (start_unclaimed_abort cs baud t w)"
proof -
  have "displays cs m (drop_detected w)" using assms(1) displays_cong [of "drop_detected w" w cs m] by simp
  then have "displays cs m (reset_decoder cs (drop_detected w))" using assms(2) reset_displays by fastforce
  then show ?thesis
    by (simp add: start_unclaimed_abort_def Let_def screen_same [of cs m "reset_decoder cs (drop_detected w)"])
qed

lemma acknowledge_at: "acknowledge r acks (at_pc pc v) = at_pc pc (acknowledge r acks v)"
  by (simp add: acknowledge_def at_pc_def cong: if_cong)

lemma end_transfer_screen:
  assumes "displays cs m w" and "settled w" and "m \<or> \<not> reservation_matches t w"
  shows "screen cs m (end_transfer cs t bs ack w)"
proof (cases "reservation_matches t w")
  case False
  then show ?thesis
    using assms(1) by (simp add: end_transfer_def Let_def acknowledge_at screen_same [of cs m w])
next
  case True
  let ?r = "release_detected_zmodem t (release_transfer t w)"
  let ?v = "reset_decoder cs ?r"
  have "displays cs m ?r" using assms(1) displays_cong [of ?r w cs m] by simp
  then have "displays cs m ?v" using True assms(3) reset_displays by fastforce
  moreover have "settled ?v" using assms(2) by simp
  ultimately have fed: "fed cs m (show_sentry cs ?v)" by (intro show_sentry_fed) (simp_all add: settled_def)
  obtain u ok where u: "show_sentry cs ?v = (u, ok)" by force
  show ?thesis
  proof (cases ok)
    case False
    then show ?thesis
      using True u fed fed_after(2) [of cs m u] by (simp add: end_transfer_def Let_def screen_left)
  next
    case ok: True
    then have on: "displays cs m u" using fed u fed_after(1) by simp
    let ?u = "on_trace (trace_show_returned bs) u"
    have returned: "fed cs m (terminal_feed cs bs ?u)" by (rule feed_shown [OF on]) (simp_all add: shown_more)
    obtain x ok' where x: "terminal_feed cs bs ?u = (x, ok')" by force
    show ?thesis
    proof (cases ok')
      case False
      then show ?thesis
        using True u ok x returned fed_after(2) [of cs m x] by (simp add: end_transfer_def Let_def screen_left)
    next
      case ok': True
      then have "displays cs m x" using returned x fed_after(1) by simp
      then show ?thesis
        using True u ok x ok' by (simp add: end_transfer_def Let_def acknowledge_at screen_same [of cs m x])
    qed
  qed
qed

lemma command_screen:
  assumes "displays cs m w" and "settled w" and "may_part m w"
  shows "screen cs m (run_command cs baud command w)"
proof -
  note same = screen_same [OF assms(1)]
  have ended: "screen cs m (end_transfer cs t bs ack w)" for t bs ack
    using assms by (intro end_transfer_screen) (auto simp: may_part_def reservation_matches_def)
  have declined: "screen cs m (start_unclaimed_abort cs baud t w)" if "decline_pending_zmodem t direction w" for t direction
    using that assms(1,3) by (intro unclaimed_screen)
      (auto simp: may_part_def decline_pending_zmodem_def reservation_matches_def)
  show ?thesis
    using declined by (auto simp: run_command_def Let_def same screen_conclude [OF assms(1)] ended
        split: runtime_command.split option.split)
qed

lemma receive_screen:
  assumes "displays cs m w" and "settled w" and "may_part m w"
  shows "screen cs m (receive_bytes cs bs w)"
proof -
  let ?w = "on_trace (trace_read bs) w"
  have w: "carries ?w bs" using read_carries(1) [OF assms(2)] .
  have on: "displays cs m ?w" using assms(1) displays_cong [of ?w w cs m] by simp
  have rest: "sw_drain ?w = sw_drain w" "sw_detected ?w = sw_detected w" "sw_now ?w = sw_now w"
    by (simp_all add: on_trace_def)
  show ?thesis
  proof (cases "sw_drain w")
    case (Some d)
    then have "m" using assms(3) by (simp add: may_part_def)
    obtain d' tail where push: "drain_push d bs (sw_now w) = (d', tail)" by force
    show ?thesis
    proof (cases tail)
      case None
      then show ?thesis
        using Some push by (simp add: receive_bytes_def Let_def rest screen_same [OF on])
    next
      case (Some rest')
      then obtain pre where pre: "bs = pre @ rest'" using push_tail [OF push] by blast
      let ?v = "(on_trace (trace_drop_but (length rest')) ?w)\<lparr>sw_drain := None\<rparr>"
      have "carries ?v rest'" using drop_to_tail [OF w pre] by simp
      moreover have "displays cs m ?v" using on displays_cong [of ?v ?w cs m] by simp
      ultimately have "fed cs True (complete_protocol_abort_drain cs d' rest' ?v)" by (intro drain_fed)
      then have "screen cs True (continue_or_leave (complete_protocol_abort_drain cs d' rest' ?v) Looping)"
        by (rule screen_fed)
      then show ?thesis
        using \<open>sw_drain w = Some d\<close> \<open>m\<close> push Some by (simp add: receive_bytes_def Let_def rest)
    qed
  next
    case None
    show ?thesis
    proof (cases "sw_detected w")
      case None
      then show ?thesis
        using \<open>sw_drain w = None\<close> by (simp add: receive_bytes_def Let_def rest screen_same [OF on])
    next
      case (Some p)
      then have "m" using assms(3) by (simp add: may_part_def)
      obtain d tail where push: "drain_push (with_consecutive_can (dt_token p) 5 (dt_consecutive_can p) (sw_now w))
          bs (sw_now w) = (d, tail)" by force
      have "displays cs m (drop_detected ?w)" using on displays_cong [of "drop_detected ?w" ?w cs m] by simp
      moreover have "carries (drop_detected ?w) bs" using w by simp
      ultimately have "screen cs True (quarantine cs d tail (drop_detected ?w))"
        using push_tail [OF push] by (intro quarantine_screen) simp_all
      then show ?thesis
        using \<open>sw_drain w = None\<close> \<open>m\<close> Some push
        by (simp add: receive_bytes_def Let_def rest screen_same [of cs True ?w] displays_more(1) [OF on])
    qed
  qed
qed

lemma watch_screen:
  assumes "displays cs m w" and "carries w bs"
  shows "screen cs m (watch_terminal cs bs w)"
proof -
  obtain input result where push: "sentry_push (sw_sentry w) bs = (input, result)" by force
  show ?thesis
  proof (cases result)
    case (Inl e)
    then show ?thesis using push by (simp add: watch_terminal_def screen_same [OF assms(1)])
  next
    case (Inr out)
    have "length (so_passthrough out) + length (detected_bytes out @ input) = length (sw_sentry w @ bs)"
      using arg_cong [OF sentry_split(1) [OF push [unfolded Inr]], of length] by simp
    then have short: "length (so_passthrough out) \<le> length (bt_held (sw_trace w) @ bt_flight (sw_trace w))"
      using held_length [OF carries_held [OF assms(2)]] carries_length [OF assms(2)] by simp
    have "fed cs m (terminal_feed cs (so_passthrough out)
        (on_trace (trace_sentry (so_passthrough out) n) (w\<lparr>sw_sentry := input\<rparr>)))" for n
      using short by (intro feed_shown [OF assms(1)]) (simp_all add: shown_more)
    then show ?thesis
      using push Inr by (simp add: watch_terminal_def screen_fed split: option.split)
  qed
qed

lemma route_screen:
  assumes "displays cs m w" and "carries w bs"
  shows "screen cs m (route_bytes cs bs w)"
proof -
  have "displays cs m (w\<lparr>sw_reservation := None\<rparr>)"
    using assms(1) displays_cong [of "w\<lparr>sw_reservation := None\<rparr>" w cs m] by simp
  then show ?thesis
    using assms watch_screen [of cs m "w\<lparr>sw_reservation := None\<rparr>" bs] watch_screen [OF assms]
    by (simp add: route_bytes_def screen_same [OF assms(1)] split: option.split)
qed

lemma send_screen: "displays cs m w \<Longrightarrow> screen cs m (send_transfer_event t bs w)"
  by (simp add: send_transfer_event_def Let_def screen_same [of cs m w])

lemma reserve_screen:
  assumes "displays cs m w" and "carries w bs"
  shows "screen cs (m \<or> sw_reservation w = None) (reserve_detected_zmodem cs uuid direction bs w)"
proof (cases "sw_reservation w")
  case (Some r)
  then show ?thesis by (simp add: reserve_detected_zmodem_def screen_same [OF assms(1)])
next
  case None
  let ?t = "sw_next_token w"
  let ?v = "w\<lparr>sw_next_token := Suc ?t,
      sw_reservation := Some \<lparr>rr_token = ?t, rr_transfer_id = uuid ?t, rr_kind = serial_transfer_kind.Zmodem\<rparr>\<rparr>"
  have on: "displays cs True w" using displays_more(1) [OF assms(1)] by simp
  obtain d tail where push: "drain_push (with_consecutive_can ?t 5 0 (sw_now w)) bs (sw_now w) = (d, tail)" by force
  let ?q = "set_channel ?t (\<lambda>_. \<lparr>rc_events = [], rc_open = False, rc_cancel = False\<rparr>) ?v"
  have "displays cs True ?q" using on displays_cong [of ?q w cs True] by simp
  moreover have "carries ?v bs" using assms(2) by (intro carries_token) simp_all
  then have "carries ?q bs" by simp
  ultimately have quarantined: "screen cs True (quarantine cs d tail ?q)"
    using push_tail [OF push] by (intro quarantine_screen) simp_all
  have emitted: "screen cs True (continue_or_leave (emit_regular (ZmodemDetected (uuid ?t) direction) x) Looping)"
    if "same_display x w" for x
  proof -
    let ?e = "emit_regular (ZmodemDetected (uuid ?t) direction) x"
    have "same_display (fst ?e) w" using that by (simp add: same_display_regular event_text_def)
    then have "displays cs True (fst ?e)" using on displays_cong [of "fst ?e" w cs True] by simp
    then show ?thesis by (simp add: screen_fed fed_def displays_end)
  qed
  show ?thesis
    using None push quarantined by (simp add: reserve_detected_zmodem_def Let_def emitted)
qed

lemma eof_screen:
  assumes "displays cs m w" and "settled w"
  shows "screen cs m (remote_eof cs w)"
proof -
  obtain parts where parts: "parted m parts w" "data_text (sw_emitted w) = parts_text cs parts"
      "sw_decoder w = decoder_after cs (charset_decoder cs) (last parts)"
    using assms(1) by (auto simp: displays_def)
  obtain d out where first: "serial_decode cs (sw_decoder w) (sw_sentry w) False = (d, out)" by force
  obtain d' rest where second: "serial_decode cs d [] True = (d', rest)" by force
  let ?v = "on_trace (trace_show_held (sw_sentry w)) (w\<lparr>sw_sentry := [], sw_decoder := d'\<rparr>)"
  have "length (bt_held (sw_trace w)) = length (sw_sentry w)"
    using assms(2) held_length [of w] by (simp add: settled_def)
  then have "shown_bytes ?v = shown_bytes w @ sw_sentry w" by (simp add: shown_more) (simp add: shown_bytes_def)
  note added = add_chunk_facts [OF parts(1) this first [unfolded parts(3)]]
  have flush: "flush_text cs (add_chunk (sw_sentry w) parts) = rest" using added(3) second by (simp add: flush_text_def)
  have leaving: "displayed cs m u"
    if "bt_shown (sw_trace u) = bt_shown (sw_trace ?v)" "data_text (sw_emitted u) = parts_text cs parts @ more'"
      "more' @ rest' = out @ rest" for u :: "'a serial_world" and more' rest'
  proof -
    have "parted m (add_chunk (sw_sentry w) parts) u" using added(1) that(1) by (simp add: parted_def shown_bytes_def)
    moreover have "data_text (sw_emitted u) @ rest' =
        parts_text cs (add_chunk (sw_sentry w) parts) @ flush_text cs (add_chunk (sw_sentry w) parts)"
      using that(2,3) added(2) flush by simp
    ultimately show ?thesis by (auto simp: displayed_def)
  qed
  obtain u ok where u: "(if out @ rest = [] then (?v, True) else emit_data (out @ rest) ?v) = (u, ok)" by force
  have "displayed cs m u"
  proof (cases "out @ rest = []")
    case True
    then show ?thesis using u parts(2) by (intro leaving [of u "[]" "[]"]) auto
  next
    case False
    then have "emit_data (out @ rest) ?v = (u, ok)" using u by auto
    note emitted = emit_data_text [OF this]
    show ?thesis
      using emitted(1,3) parts(2)
      by (intro leaving [of u "if ok then out @ rest else []" "if ok then [] else out @ rest"]) simp_all
  qed
  moreover from this have "displayed cs m (emit_closed RemoteEof u)"
    using displayed_same [of "emit_closed RemoteEof u" u cs m] by simp
  ultimately have "screen cs m (at_pc Leaving u)" "screen cs m (at_pc Leaving (emit_closed RemoteEof u))"
    by (simp_all add: screen_left)
  then show ?thesis by (simp only: remote_eof_def first second u Let_def prod.case) (cases ok; simp)
qed

lemma select_screen:
  assumes "displays cs m w" and "settled w" and "may_part m w" and "sw_pc w = Selecting"
  shows "screen cs m (select_branch cs baud input w)"
proof -
  have stay: "screen cs m w" using assms(1,4) by (simp add: screen_def displays_end)
  note same = screen_same [OF assms(1)]
  have command: "screen cs m (run_command cs baud command (w\<lparr>sw_commands := rest\<rparr>))" for command rest
    using assms displays_cong [of "w\<lparr>sw_commands := rest\<rparr>" w cs m]
    by (intro command_screen) (simp_all add: may_part_def)
  have drained: "screen cs m (continue_or_leave (complete_protocol_abort_drain cs d [] (w\<lparr>sw_drain := None\<rparr>)) Looping)"
    if "sw_drain w = Some d" for d
  proof -
    have "displays cs m (w\<lparr>sw_drain := None\<rparr>)" using assms(1) displays_cong [of "w\<lparr>sw_drain := None\<rparr>" w cs m] by simp
    then have "fed cs True (complete_protocol_abort_drain cs d [] (w\<lparr>sw_drain := None\<rparr>))"
      using assms(2) by (intro drain_fed carries_settled) simp_all
    moreover have "m" using that assms(3) by (simp add: may_part_def)
    ultimately show ?thesis by (simp add: screen_fed)
  qed
  have expired: "screen cs m (start_unclaimed_abort cs baud t w)" if "expire_pending_zmodem w = Some t" for t
    using that assms(1,3) by (intro unclaimed_screen) (auto simp: may_part_def expire_pending_zmodem_def split: option.splits)
  show ?thesis
    using stay drained expired
    by (auto simp: select_branch_def same command receive_screen [OF assms(1-3)] eof_screen [OF assms(1,2)]
        split: stop_signal.split option.split list.split sum.split)
qed

lemma screen_unchanged: "displays cs m w \<Longrightarrow> screen cs m w"
  by (simp add: screen_def displays_end)

lemma actor_screen:
  assumes "screen cs m w" and "route_inv w" and "left (sw_pc w) \<or> may_part m w"
  shows "screen cs (m \<or> (\<exists>direction bs. sw_pc w = Reserving direction bs) \<and> sw_reservation w = None)
    (actor_step cs uuid baud input w)"
proof (cases "left (sw_pc w)")
  case True
  then have "displayed cs m w" using assms(1) screen_displayed by blast
  then have shut: "screen cs m (at_pc pc v)" if "same_display v w" "left pc" for pc v
    using that displayed_same [of "at_pc pc v" w cs m] by (simp add: screen_def)
  show ?thesis
    using True assms(1) by (auto simp: actor_step_def left_def shut)
next
  case False
  then have on: "displays cs m w" and part: "may_part m w" and pc: "pc_route w (sw_pc w)"
    using assms by (simp_all add: screen_def route_inv_def)
  note same = screen_same [OF on]
  have aborted: "displays cs m (replace_drain d w)" for d using on displays_cong [of "replace_drain d w" w cs m] by simp
  have emitted: "screen cs m (continue_or_leave (emit_regular event w) pc)" if "event_text event = []" for event pc
  proof -
    have "same_display (fst (emit_regular event w)) w" using that by (simp add: same_display_regular)
    then have "displays cs m (fst (emit_regular event w))" using on displays_cong by blast
    then show ?thesis by (simp add: screen_fed fed_def displays_end)
  qed
  show ?thesis
  proof (cases "\<exists>direction bs. sw_pc w = Reserving direction bs")
    case True
    then show ?thesis
      using pc reserve_screen [OF on] by (auto simp: actor_step_def pc_route_def)
  next
    case False
    have "settled w" if "quiet_pc (sw_pc w)" using that pc by (simp add: quiet_route)
    then have "screen cs m (actor_step cs uuid baud input w)"
      using pc False \<open>\<not> left (sw_pc w)\<close>
      by (cases "sw_pc w")
        (auto simp: actor_step_def same emitted aborted event_text_def screen_conclude [OF on] screen_unchanged [OF on]
          loop_head_screen [OF on _ part] select_screen [OF on _ part] send_screen [OF on] pc_route_def left_def
          intro!: screen_conclude route_screen [OF on] split: option.split sum.split)
    then show ?thesis using False by simp
  qed
qed

section \<open>Every step keeps the screen\<close>

definition tells :: "nat \<Rightarrow> 'd serial_charset \<Rightarrow> 'd serial_world \<Rightarrow> bool" where
  "tells k cs w \<longleftrightarrow> plain k w \<and> routed w \<and> screen cs (sw_next_token w \<noteq> k) w"

lemma screen_more: "screen cs m w \<Longrightarrow> (m \<Longrightarrow> m') \<Longrightarrow> screen cs m' w"
  by (auto simp: screen_def intro: displays_more split: if_splits)

lemma other_display:
  assumes "\<forall>input. event \<noteq> ActorStep input"
  shows "same_display (serial_step cs uuid baud event w) w" and "sw_pc (serial_step cs uuid baud event w) = sw_pc w"
  using assms client_step_same [of event cs uuid baud w]
  by (cases event; simp add: client_same_def same_display_def same_text_def)+

lemma step_tells:
  assumes "tells k cs w"
  shows "tells k cs (serial_step cs uuid baud event w)"
proof -
  let ?v = "serial_step cs uuid baud event w"
  have inv: "plain k w" "routed w" "screen cs (sw_next_token w \<noteq> k) w" using assms by (simp_all add: tells_def)
  have grow: "sw_next_token w \<le> sw_next_token ?v" using every_grow [of cs uuid baud event w] by (simp add: tokens_grow_def)
  have above: "k \<le> sw_next_token w" using inv(1) by (simp add: plain_def)
  have "screen cs (sw_next_token ?v \<noteq> k) ?v"
  proof (cases "\<exists>input. event = ActorStep input")
    case True
    then obtain input where input: "event = ActorStep input" by auto
    have part: "left (sw_pc w) \<or> may_part (sw_next_token w \<noteq> k) w"
      using plain_free [OF inv(1)] by (auto simp: may_part_def)
    have route: "route_inv w" using inv(2) by (simp add: routed_def)
    have "screen cs (sw_next_token w \<noteq> k \<or> (\<exists>direction bs. sw_pc w = Reserving direction bs) \<and> sw_reservation w = None) ?v"
      using actor_screen [OF inv(3) route part, of uuid baud input] by (simp add: input)
    moreover have "sw_next_token w < sw_next_token ?v"
      if "\<exists>direction bs. sw_pc w = Reserving direction bs" "sw_reservation w = None"
      using that reserve_next by (auto simp: input actor_step_def)
    ultimately show ?thesis using grow above by (auto intro: screen_more)
  next
    case False
    then have "same_display ?v w" "sw_pc ?v = sw_pc w" using other_display [of event cs uuid baud w] by simp_all
    then have "screen cs m ?v = screen cs m w" for m
      using displays_cong [of ?v w cs m] displayed_same [of ?v w cs m] by (simp add: screen_def)
    then show ?thesis using inv(3) grow above screen_more [of cs "sw_next_token w \<noteq> k" w] by auto
  qed
  then show ?thesis using inv(1,2) by (simp add: tells_def step_plain step_routed)
qed

interpretation display: transition_system
  "\<lambda>w v. \<exists>event. v = serial_step cs uuid baud event w" "tells k cs"
  for cs uuid baud k
  by unfold_locales (auto intro: step_tells)

lemma run_tells: "tells token cs (serial_run cs uuid baud events (serial_start cs window token now))"
proof (rule display.reach_inv [OF serial_run_reach])
  let ?w = "serial_start cs window token now"
  have "plain token ?w" "routed ?w"
    using run_plain [of token cs uuid baud "[]" cs window now] run_routed [of cs uuid baud "[]" cs window token now]
    by (simp_all add: serial_run_def)
  moreover have "displays cs False ?w"
    by (auto simp: displays_def parted_def shown_bytes_def serial_start_def empty_trace_def data_text_def
        parts_text_def intro!: exI [of _ "[[]]"])
  then have "screen cs (sw_next_token ?w \<noteq> token) ?w"
    by (auto intro: screen_more screen_unchanged)
  ultimately show "tells token cs ?w" by (simp add: tells_def)
qed

section \<open>What is read and what is dropped\<close>

lemma route_trace: "same_route v w \<Longrightarrow> sw_trace v = sw_trace w"
  by (simp add: same_route_def)

lemma traces [simp]:
  "sw_trace (at_pc pc v) = sw_trace v" "sw_trace (set_channel t g v) = sw_trace v"
  "sw_trace (acknowledge r acks v) = sw_trace v" "sw_trace (reset_decoder cs v) = sw_trace v"
  "sw_trace (start_write source bs v) = sw_trace v" "sw_trace (release_transfer t v) = sw_trace v"
  "sw_trace (release_detected_zmodem t v) = sw_trace v" "sw_trace (drop_detected v) = sw_trace v"
  "sw_trace (replace_drain d v) = sw_trace v" "sw_trace (emit_closed reason v) = sw_trace v"
  "sw_trace (finish_error e v) = sw_trace v" "sw_trace (finish_stopped signal v) = sw_trace v"
  "sw_trace (finish_interruptible_failure failure v) = sw_trace v"
  "sw_trace (fst (emit_regular event v)) = sw_trace v" "sw_trace (fst (emit_data bs v)) = sw_trace v"
  "sw_trace (fst (terminal_feed cs bs v)) = sw_trace v" "sw_trace (conclude_write harmless ack result v) = sw_trace v"
  by (rule route_trace, simp)+

lemma continue_trace [simp]: "sw_trace (continue_or_leave q pc) = sw_trace (fst q)"
  by (simp add: continue_or_leave_def case_prod_beta)

lemma trace_reads [simp]:
  "bt_read (trace_drop_held tr) = bt_read tr" "bt_read (trace_drop_but n tr) = bt_read tr"
  "bt_read (trace_send t tr) = bt_read tr" "bt_read (trace_show_held bs tr) = bt_read tr"
  "bt_read (trace_show_flight bs tr) = bt_read tr" "bt_read (trace_show_returned bs tr) = bt_read tr"
  "bt_read (trace_sentry bs n tr) = bt_read tr" "bt_read (trace_read bs tr) = bt_read tr @ bs"
  by (simp_all add: trace_drop_held_def trace_drop_but_def trace_send_def trace_show_held_def trace_show_def
      trace_show_flight_def trace_show_returned_def trace_sentry_def trace_read_def Let_def)

lemma trace_drops [simp]:
  "bt_dropped (trace_send t tr) = bt_dropped tr" "bt_dropped (trace_show_held bs tr) = bt_dropped tr"
  "bt_dropped (trace_show_flight bs tr) = bt_dropped tr" "bt_dropped (trace_show_returned bs tr) = bt_dropped tr"
  "bt_dropped (trace_sentry bs n tr) = bt_dropped tr" "bt_dropped (trace_read bs tr) = bt_dropped tr"
  by (simp_all add: trace_send_def trace_show_held_def trace_show_def
      trace_show_flight_def trace_show_returned_def trace_sentry_def trace_read_def Let_def)

lemma sections_read [simp]:
  "bt_read (sw_trace (discard_sentry v)) = bt_read (sw_trace v)"
  "bt_read (sw_trace (fst (show_sentry cs v))) = bt_read (sw_trace v)"
  by (simp_all add: discard_sentry_def show_sentry_def)

lemma branches_read [simp]:
  "bt_read (sw_trace (fst (complete_protocol_abort_drain cs d rest v))) = bt_read (sw_trace v)"
  "bt_read (sw_trace (start_unclaimed_abort cs baud t v)) = bt_read (sw_trace v)"
  "bt_read (sw_trace (end_transfer cs t bs ack v)) = bt_read (sw_trace v)"
  "bt_read (sw_trace (remote_eof cs v)) = bt_read (sw_trace v)"
  "bt_read (sw_trace (watch_terminal cs bs v)) = bt_read (sw_trace v)"
  "bt_read (sw_trace (send_transfer_event t bs v)) = bt_read (sw_trace v)"
  by (simp_all add: complete_protocol_abort_drain_def start_unclaimed_abort_def end_transfer_def
      remote_eof_def watch_terminal_def send_transfer_event_def Let_def case_prod_beta
      split: bool.split option.split sum.split)

lemma quarantine_read [simp]: "bt_read (sw_trace (quarantine cs d tail v)) = bt_read (sw_trace v)"
  by (simp add: quarantine_def split: option.split)

lemma loop_read [simp]:
  "bt_read (sw_trace (loop_head cs v)) = bt_read (sw_trace v)"
  "bt_read (sw_trace (run_command cs baud command v)) = bt_read (sw_trace v)"
  "bt_read (sw_trace (route_bytes cs bs v)) = bt_read (sw_trace v)"
  "bt_read (sw_trace (reserve_detected_zmodem cs uuid direction bs v)) = bt_read (sw_trace v)"
  "bt_read (sw_trace (receive_bytes cs bs v)) = bt_read (sw_trace v) @ bs"
  by (simp_all add: loop_head_def run_command_def route_bytes_def reserve_detected_zmodem_def receive_bytes_def
      Let_def case_prod_beta split: option.split bool.split runtime_command.split)

text \<open>What the device delivers at a step of the actor: it is asked for bytes where nothing that the actor
  prefers is ready.\<close>

definition delivered :: "serial_event \<Rightarrow> 'd serial_world \<Rightarrow> bytes" where
  "delivered event w =
     (case event of
        ActorStep input \<Rightarrow>
          if sw_pc w = Selecting \<and> sw_stop w = Running \<and> sw_events_open w \<and> sw_commands w = [] \<and>
             (\<forall>d. sw_drain w = Some d \<longrightarrow> sw_now w < drain_deadline d) \<and> expire_pending_zmodem w = None
          then (case ai_read input of Some (Inr bs) \<Rightarrow> take READ_BUFFER_BYTES bs | _ \<Rightarrow> []) else []
      | _ \<Rightarrow> [])"

fun line_bytes ::
    "'d serial_charset \<Rightarrow> (nat \<Rightarrow> rstr) \<Rightarrow> nat \<Rightarrow> serial_event list \<Rightarrow> 'd serial_world \<Rightarrow> bytes" where
  "line_bytes cs uuid baud [] w = []"
| "line_bytes cs uuid baud (event # events) w =
     delivered event w @ line_bytes cs uuid baud events (serial_step cs uuid baud event w)"

lemma select_read:
  assumes "sw_pc w = Selecting"
  shows "bt_read (sw_trace (select_branch cs baud input w)) = bt_read (sw_trace w) @ delivered (ActorStep input) w"
proof (cases "sw_stop w = Running \<and> sw_events_open w \<and> sw_commands w = [] \<and>
    (\<forall>d. sw_drain w = Some d \<longrightarrow> sw_now w < drain_deadline d) \<and> expire_pending_zmodem w = None")
  case True
  then have none: "(case sw_drain w of Some d \<Rightarrow> if drain_deadline d \<le> sw_now w then Some d else None | None \<Rightarrow> None) = None"
    by (auto split: option.split)
  show ?thesis
    using assms True by (auto simp: select_branch_def delivered_def none split: option.split sum.split)
next
  case False
  then show ?thesis
    using assms by (auto simp: select_branch_def delivered_def split: stop_signal.split option.split list.split if_splits)
qed

lemma step_read: "bt_read (sw_trace (serial_step cs uuid baud event w)) = bt_read (sw_trace w) @ delivered event w"
proof (cases "\<exists>input. event = ActorStep input")
  case True
  then obtain input where input: "event = ActorStep input" by auto
  show ?thesis
  proof (cases "sw_pc w = Selecting")
    case True
    then show ?thesis by (simp add: input actor_step_def select_read)
  next
    case False
    then have "bt_read (sw_trace (actor_step cs uuid baud input w)) = bt_read (sw_trace w)"
      by (cases "sw_pc w") (simp_all add: actor_step_def split: option.split sum.split)
    then show ?thesis using False by (simp add: input delivered_def)
  qed
next
  case False
  then have "sw_trace (serial_step cs uuid baud event w) = sw_trace w"
    using client_step_same [of event cs uuid baud w] by (cases event) (simp_all add: client_same_def)
  then show ?thesis using False by (cases event) (simp_all add: delivered_def)
qed

lemma run_read:
  "bt_read (sw_trace (serial_run cs uuid baud events w)) = bt_read (sw_trace w) @ line_bytes cs uuid baud events w"
  by (induction events arbitrary: w) (simp_all add: serial_run_def step_read)

lemma sections_drop [simp]:
  "bt_dropped (sw_trace (fst (show_sentry cs v))) = bt_dropped (sw_trace v)"
  "bt_dropped (sw_trace (send_transfer_event t bs v)) = bt_dropped (sw_trace v)"
  by (simp_all add: show_sentry_def send_transfer_event_def Let_def)

lemma end_drop [simp]: "bt_dropped (sw_trace (end_transfer cs t bs ack v)) = bt_dropped (sw_trace v)"
  by (simp add: end_transfer_def Let_def case_prod_beta split: bool.split)

text \<open>Bytes are dropped only where a protocol is aborted or waits to be claimed, or as the session ends.\<close>

lemma actor_drop:
  assumes "sw_drain w = None" and "sw_detected w = None" and "\<forall>direction bs. sw_pc w \<noteq> Reserving direction bs"
  shows "left (sw_pc (actor_step cs uuid baud input w)) \<or>
    bt_dropped (sw_trace (actor_step cs uuid baud input w)) = bt_dropped (sw_trace w)"
proof -
  let ?v = "actor_step cs uuid baud input w"
  have watch: "left (sw_pc (watch_terminal cs bs v)) \<or> bt_dropped (sw_trace (watch_terminal cs bs v)) = bt_dropped (sw_trace v)"
    for bs and v :: "'a serial_world"
    using watch_no_loss [of cs bs v] by (auto simp: no_loss_def)
  have route: "left (sw_pc (route_bytes cs bs w)) \<or> bt_dropped (sw_trace (route_bytes cs bs w)) = bt_dropped (sw_trace w)" for bs
    using watch [of bs w] watch [of bs "w\<lparr>sw_reservation := None\<rparr>"]
    by (auto simp: route_bytes_def split: option.split)
  have command: "bt_dropped (sw_trace (run_command cs baud command (w\<lparr>sw_commands := rest\<rparr>))) = bt_dropped (sw_trace w)"
    for command rest
    using assms(2) by (simp add: run_command_def Let_def decline_pending_zmodem_def split: runtime_command.split option.split)
  have receive: "bt_dropped (sw_trace (receive_bytes cs bs w)) = bt_dropped (sw_trace w)" for bs
    using assms(1,2) by (simp add: receive_bytes_def Let_def on_trace_def [of "trace_read bs"])
  have eof: "sw_pc (remote_eof cs w) = Leaving"
    by (simp add: remote_eof_def Let_def case_prod_beta split: bool.split)
  have select: "left (sw_pc (select_branch cs baud input w)) \<or>
      bt_dropped (sw_trace (select_branch cs baud input w)) = bt_dropped (sw_trace w)"
    using assms(1,2) command receive eof by (simp add: select_branch_def expire_pending_zmodem_def left_def
        split: stop_signal.split option.split list.split sum.split)
  have loop: "bt_dropped (sw_trace (loop_head cs w)) = bt_dropped (sw_trace w)"
    using assms(1) by (simp add: loop_head_def split: option.split)
  show ?thesis
    using assms select loop route
    by (cases "sw_pc w") (auto simp: actor_step_def split: option.split sum.split)
qed

section \<open>The actor's hands\<close>

definition in_hands :: "actor_pc \<Rightarrow> bytes" where
  "in_hands pc = (case pc of Routing bs \<Rightarrow> bs | SendingEvent _ bs \<Rightarrow> bs | Reserving _ bs \<Rightarrow> bs | _ \<Rightarrow> [])"

definition hands_rank :: "actor_pc \<Rightarrow> nat" where
  "hands_rank pc = (case pc of Routing _ \<Rightarrow> 3 | Reserving _ _ \<Rightarrow> 2 | SendingEvent _ _ \<Rightarrow> 1 | _ \<Rightarrow> 0)"

lemma hands_right:
  assumes "routed w" and "\<not> left (sw_pc w)"
  shows "bytes_at (sw_trace w) (bt_flight (sw_trace w)) = in_hands (sw_pc w)"
  using assms by (cases "sw_pc w")
    (auto simp: routed_def route_inv_def pc_route_def in_hands_def carries_def settled_def bytes_at_def)

lemma hands_step:
  assumes "0 < hands_rank (sw_pc w)"
  shows "hands_rank (sw_pc (actor_step cs uuid baud input w)) < hands_rank (sw_pc w)"
proof -
  have quarantined: "hands_rank (sw_pc (quarantine cs d tail v)) = 0" for d tail and v :: "'a serial_world"
    by (simp add: quarantine_def hands_rank_def split: option.split)
  have watched: "hands_rank (sw_pc (watch_terminal cs bs v)) < 3" for bs and v :: "'a serial_world"
    by (simp add: watch_terminal_def hands_rank_def split: prod.split sum.split option.split)
  have reserved: "hands_rank (sw_pc (reserve_detected_zmodem cs uuid direction bs w)) < 2" for direction bs
    using quarantined by (simp add: reserve_detected_zmodem_def Let_def case_prod_beta
        hands_rank_def [of "SendingEvent _ _"] hands_rank_def [of Looping] hands_rank_def [of Leaving]
        split: option.split)
  have routed: "hands_rank (sw_pc (route_bytes cs bs w)) < 3" for bs
    using watched by (simp add: route_bytes_def hands_rank_def [of "SendingEvent _ _"] split: option.split)
  show ?thesis
    using assms routed reserved
    by (cases "sw_pc w") (simp_all add: actor_step_def hands_rank_def send_transfer_event_def Let_def)
qed

lemma round_pc:
  assumes "round_of n events" and "routed w"
  shows "\<exists>u input. sw_pc u = sw_pc w \<and> routed u \<and> serial_run cs uuid baud events w = actor_step cs uuid baud input u"
proof -
  obtain others input where events: "events = Elapse n # others @ [ActorStep input]"
      "\<forall>input'. ActorStep input' \<notin> set others"
    using assms(1) by (auto simp: round_of_def)
  define x where "x = serial_step cs uuid baud (Elapse n) w"
  have x: "routed x" "sw_pc x = sw_pc w" using step_routed [OF assms(2)] by (simp_all add: x_def del: serial_step.simps) (simp add: x_def)
  have "owner_inv x" using x(1) by (simp add: routed_def)
  then have "sw_pc (serial_run cs uuid baud others x) = sw_pc w"
    using other_steps [OF events(2), of x cs uuid baud] x(2) by simp
  moreover have "routed (serial_run cs uuid baud others x)" by (rule routing.reach_inv [OF serial_run_reach x(1)])
  moreover have "serial_run cs uuid baud events w = actor_step cs uuid baud input (serial_run cs uuid baud others x)"
    by (simp add: events(1) x_def serial_run_def)
  ultimately show ?thesis by blast
qed

lemma hands_emptied:
  assumes "routed w" and "\<forall>events \<in> set rounds. round_of n events" and "hands_rank (sw_pc w) \<le> length rounds"
  shows "\<exists>k \<le> length rounds. let v = serial_run cs uuid baud (concat (take k rounds)) w
    in left (sw_pc v) \<or> bt_flight (sw_trace v) = []"
  using assms
proof (induction rounds arbitrary: w)
  case Nil
  then have "left (sw_pc w) \<or> bt_flight (sw_trace w) = []"
    using hands_right [of w] by (cases "sw_pc w") (auto simp: hands_rank_def in_hands_def bytes_at_def)
  then show ?case by (simp add: serial_run_def)
next
  case (Cons events rounds)
  let ?v = "serial_run cs uuid baud events w"
  show ?case
  proof (cases "hands_rank (sw_pc w) = 0")
    case True
    then have "left (sw_pc w) \<or> bt_flight (sw_trace w) = []"
      using hands_right [OF Cons.prems(1)] by (cases "sw_pc w") (auto simp: hands_rank_def in_hands_def bytes_at_def)
    then show ?thesis by (intro exI [of _ 0]) (simp add: serial_run_def)
  next
    case False
    have "round_of n events" using Cons.prems(2) by simp
    then obtain u input where u: "sw_pc u = sw_pc w" "?v = actor_step cs uuid baud input u"
      using round_pc [OF _ Cons.prems(1)] by blast
    have "hands_rank (sw_pc ?v) < hands_rank (sw_pc w)"
      using False hands_step [of u cs uuid baud input] u by simp
    moreover have "routed ?v" by (rule routing.reach_inv [OF serial_run_reach Cons.prems(1)])
    ultimately obtain k where "k \<le> length rounds"
      "let x = serial_run cs uuid baud (concat (take k rounds)) ?v in left (sw_pc x) \<or> bt_flight (sw_trace x) = []"
      using Cons.IH [of ?v] Cons.prems(2,3) by auto
    then show ?thesis by (intro exI [of _ "Suc k"]) (simp add: serial_run_def)
  qed
qed

lemma screen_parts:
  assumes "screen cs (sw_next_token w \<noteq> k) w"
  obtains parts rest where "parts \<noteq> []" "sw_next_token w = k \<longrightarrow> length parts = 1"
    "map snd (bt_shown (sw_trace w)) = concat (concat parts)"
    "data_text (sw_emitted w) @ rest = parts_text cs parts @ flush_text cs parts"
    "\<not> left (sw_pc w) \<longrightarrow> data_text (sw_emitted w) = parts_text cs parts"
proof (cases "left (sw_pc w)")
  case True
  then show ?thesis using assms that by (auto simp: screen_def displayed_def parted_def shown_bytes_def)
next
  case False
  then obtain parts where "parted (sw_next_token w \<noteq> k) parts w" "data_text (sw_emitted w) = parts_text cs parts"
    using assms by (auto simp: screen_def displays_def)
  then show ?thesis using that [of parts "flush_text cs parts"] by (auto simp: parted_def shown_bytes_def)
qed

section \<open>No byte is lost\<close>

text \<open>A transfer that gets a byte, for the witness.\<close>

definition sample_delivery :: "unit serial_world" where
  "sample_delivery = serial_run sample_charset (\<lambda>_. []) 9600
     [ActorStep opened, ActorStep opened, ActorStep opened, ClientCall 0 False (CallBegin YmodemReceive),
      ActorStep (opened\<lparr>ai_read := Some (Inr [0x43])\<rparr>), ActorStep opened, ActorStep opened]
     (serial_start sample_charset sample_window 1 0)"

lemma sample_delivery_facts:
  "sw_trace sample_delivery = \<lparr>bt_read = [0x43], bt_shown = [], bt_sent = [(1, 0)], bt_dropped = [],
     bt_held = [], bt_flight = []\<rparr>"
  by (simp add: sample_delivery_def sample_steps receive_bytes_def READ_BUFFER_BYTES_def route_bytes_def
      send_transfer_event_def RAW_TRANSFER_EVENT_CHANNEL_CAPACITY_def on_trace_def trace_read_def trace_send_def
      empty_trace_def)

text \<open>A session that shows a byte.\<close>

definition sample_shown :: "unit serial_world" where
  "sample_shown = serial_run sample_charset (\<lambda>_. []) 9600
     [ActorStep opened, ActorStep opened, ActorStep opened,
      ActorStep (opened\<lparr>ai_read := Some (Inr [0x41])\<rparr>), ActorStep opened]
     (serial_start sample_charset sample_window 1 0)"

lemma sample_shown_facts:
  "bt_shown (sw_trace sample_shown) = [(Some 0, 0x41)]" "sw_pc sample_shown = Looping" "sw_next_token sample_shown = 1"
  "sw_emitted sample_shown = [Connecting, Connected, DataEvent [0x41]]"
proof -
  have "\<not> is_header_candidate [0x41]" by code_simp
  then have "sentry_push [] [0x41] = ([], Inr \<lparr>so_passthrough = [0x41], so_detected = None\<rparr>)"
    by (simp add: sentry_push_def MAX_ZMODEM_INPUT_BYTES_def sentry_loop.simps)
  then show "bt_shown (sw_trace sample_shown) = [(Some 0, 0x41)]" "sw_pc sample_shown = Looping" "sw_next_token sample_shown = 1"
    "sw_emitted sample_shown = [Connecting, Connected, DataEvent [0x41]]"
    by (simp_all add: sample_shown_def sample_steps receive_bytes_def READ_BUFFER_BYTES_def route_bytes_def
        watch_terminal_def on_trace_def trace_read_def trace_sentry_def trace_show_def empty_trace_def
        terminal_feed_def sample_charset_def charset_decoder_def serial_decode_def emit_data_def
        MAX_EVENT_DATA_BYTES_def)
qed

text \<open>C6: No byte of the device is lost, doubled or altered on its way: in every interleaving the bytes that
  the actor has read are those that the device delivered, and each of them is in exactly one place,
  shown on the terminal, sent to a transfer, dropped with an aborted protocol, held back by the
  sentry or in the actor's hands.  The data events carry, in the order of the line, what the
  decoder makes of the bytes that are shown, chunk by chunk, by one decoder as long as no
  transfer was ever begun or detected; only the end of the session can cut their text short.
  What a transfer took from its channel and what waits there are the bytes sent to it, in the order
  of the line.  While the session goes on the sentry and the actor hold the very bytes that the
  trace says, in the actor's hands they stay for three rounds at most, and bytes are dropped only
  while a drain runs or a detected transfer is unclaimed, or as the session ends; without a transfer
  nothing is sent to one and nothing is dropped.\<close>

theorem serial_bytes_routed:
  assumes "w = serial_run cs uuid baud events (serial_start cs window token now)"
  shows "bt_read (sw_trace w) = line_bytes cs uuid baud events (serial_start cs window token now) \<and>
    places (sw_trace w) = mset [0 ..< length (bt_read (sw_trace w))] \<and>
    sorted (shown_positions (sw_trace w)) \<and>
    (\<forall>p b. (Some p, b) \<in> set (bt_shown (sw_trace w)) \<longrightarrow> b = bt_read (sw_trace w) ! p) \<and>
    (\<exists>parts rest. parts \<noteq> [] \<and> (sw_next_token w = token \<longrightarrow> length parts = 1) \<and>
       map snd (bt_shown (sw_trace w)) = concat (concat parts) \<and>
       data_text (sw_emitted w) @ rest = parts_text cs parts @ flush_text cs parts \<and>
       (\<not> left (sw_pc w) \<longrightarrow> data_text (sw_emitted w) = parts_text cs parts)) \<and>
    (\<forall>t. sorted (sent_to t (sw_trace w)) \<and>
       taken cs uuid baud t events (serial_start cs window token now) @ queued t w =
         bytes_at (sw_trace w) (sent_to t (sw_trace w))) \<and>
    (\<not> left (sw_pc w) \<longrightarrow> sw_sentry w = bytes_at (sw_trace w) (bt_held (sw_trace w)) \<and>
       in_hands (sw_pc w) = bytes_at (sw_trace w) (bt_flight (sw_trace w))) \<and>
    (length rounds = 3 \<and> (\<forall>round \<in> set rounds. round_of n round) \<longrightarrow>
       (\<exists>k \<le> 3. let v = serial_run cs uuid baud (concat (take k rounds)) w
          in left (sw_pc v) \<or> bt_flight (sw_trace v) = [])) \<and>
    (\<not> left (sw_pc (actor_step cs uuid baud input w)) \<and> sw_drain w = None \<and> sw_detected w = None \<and>
       (\<forall>direction bs. sw_pc w \<noteq> Reserving direction bs) \<longrightarrow>
       bt_dropped (sw_trace (actor_step cs uuid baud input w)) = bt_dropped (sw_trace w)) \<and>
    (\<not> left (sw_pc w) \<and> sw_next_token w = token \<longrightarrow>
       bt_sent (sw_trace w) = [] \<and> bt_dropped (sw_trace w) = [])"
proof -
  have routed: "routed w" unfolding assms by (rule run_routed)
  then have inv: "route_inv w" by (simp add: routed_def)
  then have "trace_ok (sw_trace w)" by (simp add: route_inv_def)
  then have ordered: "places (sw_trace w) = mset [0 ..< length (bt_read (sw_trace w))]" "sorted (shown_positions (sw_trace w))"
    "\<forall>p b. (Some p, b) \<in> set (bt_shown (sw_trace w)) \<longrightarrow> b = bt_read (sw_trace w) ! p"
    "\<forall>t. sorted (sent_to t (sw_trace w))"
    by (simp_all add: trace_ok_def sorted_append)
  have held: "held_right w" if "\<not> left (sw_pc w)"
    using inv that by (cases "sw_pc w") (simp_all add: route_inv_def pc_route_def settled_def carries_def)
  have tells: "tells token cs w" unfolding assms by (rule run_tells)
  have hands: "\<exists>k \<le> 3. let v = serial_run cs uuid baud (concat (take k rounds)) w
      in left (sw_pc v) \<or> bt_flight (sw_trace v) = []"
    if "length rounds = 3" "\<forall>round \<in> set rounds. round_of n round"
  proof -
    have "hands_rank (sw_pc w) \<le> 3" by (cases "sw_pc w") (simp_all add: hands_rank_def)
    then show ?thesis using hands_emptied [OF routed that(2), of cs uuid baud] that(1) by simp
  qed
  have read: "bt_read (sw_trace w) = line_bytes cs uuid baud events (serial_start cs window token now)"
    unfolding assms run_read by (simp add: serial_start_def empty_trace_def)
  have "screen cs (sw_next_token w \<noteq> token) w" using tells by (simp add: tells_def)
  then obtain parts rest where "parts \<noteq> []" "sw_next_token w = token \<longrightarrow> length parts = 1"
    "map snd (bt_shown (sw_trace w)) = concat (concat parts)"
    "data_text (sw_emitted w) @ rest = parts_text cs parts @ flush_text cs parts"
    "\<not> left (sw_pc w) \<longrightarrow> data_text (sw_emitted w) = parts_text cs parts"
    by (rule screen_parts)
  then have on_screen: "\<exists>parts rest. parts \<noteq> [] \<and> (sw_next_token w = token \<longrightarrow> length parts = 1) \<and>
      map snd (bt_shown (sw_trace w)) = concat (concat parts) \<and>
      data_text (sw_emitted w) @ rest = parts_text cs parts @ flush_text cs parts \<and>
      (\<not> left (sw_pc w) \<longrightarrow> data_text (sw_emitted w) = parts_text cs parts)" by blast
  have sent: "taken cs uuid baud t events (serial_start cs window token now) @ queued t w =
      bytes_at (sw_trace w) (sent_to t (sw_trace w))" for t
    unfolding assms run_delivers sent_bytes_def ..
  have "plain token w" using tells by (simp add: tells_def)
  then have quiet_line: "\<not> left (sw_pc w) \<and> sw_next_token w = token \<longrightarrow>
      bt_sent (sw_trace w) = [] \<and> bt_dropped (sw_trace w) = []"
    by (simp add: plain_def)
  have kept: "\<not> left (sw_pc w) \<longrightarrow> sw_sentry w = bytes_at (sw_trace w) (bt_held (sw_trace w)) \<and>
      in_hands (sw_pc w) = bytes_at (sw_trace w) (bt_flight (sw_trace w))"
    using held hands_right [OF routed] by (simp add: held_right_def)
  show ?thesis
    by (intro conjI) (rule read ordered on_screen kept quiet_line | use ordered(4) sent in blast | use hands in blast |
      use actor_drop in blast)+
qed

theorem serial_bytes_routed_witness:
  "places (sw_trace sample_delivery) = {#0#} \<and> queued 1 sample_delivery = [0x43] \<and>
   (\<exists>chunks. concat chunks = [0x41] \<and> data_text (sw_emitted sample_shown) =
      decode_chunks sample_charset (charset_decoder sample_charset) chunks)"
proof -
  have "bytes_at (sw_trace sample_delivery) (sent_to 1 (sw_trace sample_delivery)) = [0x43]"
    by (simp add: sample_delivery_facts sent_to_def bytes_at_def)
  then have "queued 1 sample_delivery = [0x43]" "places (sw_trace sample_delivery) = {#0#}"
    using serial_bytes_routed [OF sample_delivery_def, of "[]" 0 quiet] by (simp_all add: sample_delivery_facts taken_none del: taken.simps line_bytes.simps)
  moreover from serial_bytes_routed [OF sample_shown_def, THEN conjunct2, THEN conjunct2, THEN conjunct2,
      THEN conjunct2, THEN conjunct1]
  obtain parts where "sw_next_token sample_shown = 1 \<longrightarrow> length parts = 1"
      "map snd (bt_shown (sw_trace sample_shown)) = concat (concat parts)"
      "\<not> left (sw_pc sample_shown) \<longrightarrow> data_text (sw_emitted sample_shown) = parts_text sample_charset parts"
    by blast
  then have "length parts = 1" "concat (concat parts) = [0x41]"
      "data_text (sw_emitted sample_shown) = parts_text sample_charset parts"
    by (simp_all add: sample_shown_facts left_def)
  then have "\<exists>chunks. concat chunks = [0x41] \<and> data_text (sw_emitted sample_shown) =
      decode_chunks sample_charset (charset_decoder sample_charset) chunks"
    by (auto simp: length_Suc_conv parts_text_def)
  ultimately show ?thesis by blast
qed

end
