(* ===== verification/Vault_Json.thy ===== *)
theory Vault_Json
  imports Rust_Search Complex_Main "HOL-Library.List_Lexorder"
begin

text \<open>
  JSON values as \<^verbatim>\<open>serde_json::Value\<close> holds them, ordered maps, and the validation of the vault's text
  and compatibility fields (\<^verbatim>\<open>crates/netcatty-vault/src/model.rs\<close>).  A \<^verbatim>\<open>BTreeMap\<close> is an association
  list in the order of its keys: \<open>bt_insert\<close> and \<open>bt_remove\<close> keep it sorted, so that equal maps are
  equal lists.  A finite \<^verbatim>\<open>f64\<close> is the rational number it denotes.

  The compatibility fields of a record are the JSON members the program does not interpret.  They may
  not carry secrets: \<open>validate_compatibility_entry\<close> refuses every key that looks like one, at every
  depth.
\<close>

section \<open>Ordered maps\<close>

fun bt_insert :: "'k::linorder \<Rightarrow> 'v \<Rightarrow> ('k \<times> 'v) list \<Rightarrow> ('k \<times> 'v) list" where
  "bt_insert k v [] = [(k, v)]"
| "bt_insert k v ((k', v') # m) =
     (if k < k' then (k, v) # (k', v') # m
      else if k = k' then (k, v) # m
      else (k', v') # bt_insert k v m)"

definition bt_remove :: "'k \<Rightarrow> ('k \<times> 'v) list \<Rightarrow> ('k \<times> 'v) list" where
  "bt_remove k m = filter (\<lambda>(k', _). k' \<noteq> k) m"

abbreviation bt_get :: "('k \<times> 'v) list \<Rightarrow> 'k \<Rightarrow> 'v option" where
  "bt_get m k \<equiv> map_of m k"

definition bt_contains :: "'k \<Rightarrow> ('k \<times> 'v) list \<Rightarrow> bool" where
  "bt_contains k m \<longleftrightarrow> bt_get m k \<noteq> None"

definition bt_wf :: "('k::linorder \<times> 'v) list \<Rightarrow> bool" where
  "bt_wf m \<longleftrightarrow> sorted_wrt (<) (map fst m)"

lemma bt_get_insert [simp]: "bt_get (bt_insert k v m) k' = (if k' = k then Some v else bt_get m k')"
  by (induction m) auto

lemma bt_get_remove [simp]: "bt_get (bt_remove k m) k' = (if k' = k then None else bt_get m k')"
  by (induction m) (auto simp: bt_remove_def)

lemma bt_keys_insert [simp]: "fst ` set (bt_insert k v m) = insert k (fst ` set m)"
  by (induction k v m rule: bt_insert.induct) (simp_all add: insert_commute)

lemma bt_keys_remove [simp]: "fst ` set (bt_remove k m) = fst ` set m - {k}"
  by (auto simp: bt_remove_def image_iff)

lemma bt_wf_Nil [simp]: "bt_wf []"
  by (simp add: bt_wf_def)

lemma bt_wf_Cons: "bt_wf ((k, v) # m) \<longleftrightarrow> (\<forall>k' \<in> fst ` set m. k < k') \<and> bt_wf m"
  by (auto simp: bt_wf_def)

lemma bt_wf_insert [simp]: "bt_wf m \<Longrightarrow> bt_wf (bt_insert k v m)"
proof (induction m)
  case (Cons e m)
  obtain k' v' where e: "e = (k', v')" by force
  have keys: "fst ` set (bt_insert k v m) = insert k (fst ` set m)" by simp
  show ?case
    using Cons unfolding e
    by (auto simp: bt_wf_Cons keys simp del: bt_keys_insert intro: less_trans)
qed (simp add: bt_wf_def)

lemma bt_wf_filter [simp]: "bt_wf m \<Longrightarrow> bt_wf (filter P m)"
  by (induction m) (auto simp: bt_wf_Cons)

lemma bt_wf_remove [simp]: "bt_wf m \<Longrightarrow> bt_wf (bt_remove k m)"
  by (simp add: bt_remove_def)

lemma bt_get_Some: "bt_get m k = Some v \<Longrightarrow> k \<in> fst ` set m"
  by (metis image_eqI fst_conv map_of_SomeD)

lemma bt_min: "bt_wf ((k, v) # m) \<Longrightarrow> bt_get ((k, v) # m) j \<noteq> None \<Longrightarrow> k \<le> j"
proof -
  assume wf: "bt_wf ((k, v) # m)" and j: "bt_get ((k, v) # m) j \<noteq> None"
  have "j \<in> fst ` set ((k, v) # m)"
    using j bt_get_Some by fastforce
  with wf show "k \<le> j" by (auto simp: bt_wf_Cons)
qed

lemma bt_head_absent: "bt_wf ((k, v) # m) \<Longrightarrow> bt_get m k = None"
  by (auto simp: bt_wf_Cons map_of_eq_None_iff)

lemma bt_eqI: "bt_wf m \<Longrightarrow> bt_wf n \<Longrightarrow> \<forall>k. bt_get m k = bt_get n k \<Longrightarrow> m = n"
proof (induction m arbitrary: n)
  case Nil
  show ?case
  proof (cases n)
    case (Cons e n')
    then show ?thesis using Nil(3) [rule_format, of "fst e"] by (cases e) simp
  qed simp
next
  case (Cons e m)
  obtain k v where e: "e = (k, v)" by force
  have "n \<noteq> []" using Cons.prems(3) [rule_format, of k] by (auto simp: e)
  then obtain k' v' n' where n: "n = (k', v') # n'" by (cases n) auto
  have same: "bt_get ((k, v) # m) j = bt_get ((k', v') # n') j" for j
    using Cons.prems(3) by (simp add: e n)
  have "k \<le> k'"
    using Cons.prems(1) same [of k'] by (intro bt_min [of k v m k']) (simp_all add: e split: if_splits)
  moreover have "k' \<le> k"
    using Cons.prems(2) same [of k, symmetric] by (intro bt_min [of k' v' n' k]) (auto simp: n split: if_splits)
  ultimately have k: "k' = k" by simp
  have v: "v' = v" using same [of k] by (simp add: k)
  have "bt_get m j = bt_get n' j" for j
    using same [of j] Cons.prems(1,2) bt_head_absent [of k v m] bt_head_absent [of k v n']
    by (cases "j = k") (simp_all add: e n k v)
  then have "m = n'" using Cons by (simp add: e n bt_wf_Cons)
  then show ?case by (simp add: e n k v)
qed

declare bt_insert.simps(2) [simp del]

section \<open>Values\<close>

lemma lit_inject [simp]: "lit s = lit t \<longleftrightarrow> s = t"
  by (simp add: lit_def inj_map_eq_map inj_of_char)

lemma lit_eq_Nil [simp]: "lit s = [] \<longleftrightarrow> s = []"
  by (simp add: lit_def)

datatype json_number = Integer int | Float rat

datatype json =
    JNull
  | JBool bool
  | JNumber json_number
  | JString rstr
  | JArray "json list"
  | JObject "(rstr \<times> json) list"

type_synonym json_map = "(rstr \<times> json) list"

section \<open>Validation of text\<close>

datatype serial_config_error =
    MissingPath | PathTooLong | UnsafePath | InvalidBaudRate | InvalidDataBits | InvalidStopBits
  | InvalidBackspaceBehavior | EndpointMismatch | MalformedConfig

datatype validation_error =
    MissingField string
  | TooLong string nat
  | UnsafeCharacters string
  | InternalWhitespace string
  | InvalidPort
  | InvalidSerialConfig serial_config_error
  | InvalidProxyConfig
  | InvalidGroupPath
  | InvalidAuthenticationConfiguration string
  | UnsupportedProtocol
  | UnsupportedAuthMethod
  | InvalidId
  | InvalidOpaqueId string
  | InvalidRevision
  | InvalidTimestamps
  | NonCanonicalField string
  | ForbiddenCompatibilityField rstr
  | CompatibilityNestingTooDeep
  | EmptyUpdate

type_synonym 'a checked = "validation_error + 'a"

definition and_then :: "'e + 'a \<Rightarrow> ('a \<Rightarrow> 'e + 'b) \<Rightarrow> 'e + 'b" where
  "and_then r f = (case r of Inl e \<Rightarrow> Inl e | Inr x \<Rightarrow> f x)"

lemma and_then_simps [simp]: "and_then (Inl e) f = Inl e" "and_then (Inr x) f = f x"
  by (simp_all add: and_then_def)

lemma and_then_Inr: "and_then r f = Inr y \<longleftrightarrow> (\<exists>x. r = Inr x \<and> f x = Inr y)"
  by (cases r) simp_all

definition MAX_ID_BYTES :: nat where "MAX_ID_BYTES = 512"
definition MAX_LABEL_BYTES :: nat where "MAX_LABEL_BYTES = 256"
definition MAX_HOSTNAME_BYTES :: nat where "MAX_HOSTNAME_BYTES = 253"
definition MAX_USERNAME_BYTES :: nat where "MAX_USERNAME_BYTES = 128"
definition MAX_PROXY_USERNAME_BYTES :: nat where "MAX_PROXY_USERNAME_BYTES = 255"
definition MAX_PROXY_COMMAND_BYTES :: nat where "MAX_PROXY_COMMAND_BYTES = 32 * 1024"
definition MAX_FILE_PATH_BYTES :: nat where "MAX_FILE_PATH_BYTES = 32 * 1024"
definition MAX_COMPATIBILITY_KEY_BYTES :: nat where "MAX_COMPATIBILITY_KEY_BYTES = 256"
definition MAX_COMPATIBILITY_DEPTH :: nat where "MAX_COMPATIBILITY_DEPTH = 32"

definition valid_id :: "rstr \<Rightarrow> bool" where
  "valid_id s \<longleftrightarrow> s \<noteq> [] \<and> str_len s \<le> MAX_ID_BYTES \<and> \<not> list_ex is_control s"

definition validate_id :: "rstr \<Rightarrow> unit checked" where
  "validate_id s =
     (if s = [] \<or> MAX_ID_BYTES < str_len s \<or> list_ex is_control s then Inl InvalidId else Inr ())"

definition validate_opaque_id :: "string \<Rightarrow> rstr \<Rightarrow> unit checked" where
  "validate_opaque_id field s =
     (if s = [] \<or> MAX_ID_BYTES < str_len s \<or> list_ex is_control s
      then Inl (InvalidOpaqueId field) else Inr ())"

definition normalize_text :: "rstr \<Rightarrow> string \<Rightarrow> nat \<Rightarrow> bool \<Rightarrow> bool \<Rightarrow> rstr checked" where
  "normalize_text s field max_bytes reject_whitespace required =
     (if list_ex is_control s then Inl (UnsafeCharacters field)
      else
        let t = trim s
        in if required \<and> t = [] then Inl (MissingField field)
           else if max_bytes < str_len t then Inl (TooLong field max_bytes)
           else if reject_whitespace \<and> list_ex is_whitespace t then Inl (InternalWhitespace field)
           else Inr t)"

definition normalize_label :: "rstr \<Rightarrow> rstr checked" where
  "normalize_label s = normalize_text s ''label'' MAX_LABEL_BYTES False True"

definition normalize_hostname :: "rstr \<Rightarrow> rstr checked" where
  "normalize_hostname s = normalize_text s ''hostname'' MAX_HOSTNAME_BYTES True True"

definition normalize_proxy_hostname :: "rstr \<Rightarrow> rstr checked" where
  "normalize_proxy_hostname s = normalize_text s ''host'' MAX_HOSTNAME_BYTES True True"

definition normalize_username :: "rstr \<Rightarrow> rstr checked" where
  "normalize_username s = normalize_text s ''username'' MAX_USERNAME_BYTES True False"

definition normalize_proxy_username :: "rstr \<Rightarrow> rstr checked" where
  "normalize_proxy_username s = normalize_text s ''username'' MAX_PROXY_USERNAME_BYTES False False"

definition normalize_proxy_command :: "rstr \<Rightarrow> rstr checked" where
  "normalize_proxy_command s =
     (if 0 \<in> set s then Inl (UnsafeCharacters ''command'')
      else
        let t = trim s
        in if t = [] then Inl (MissingField ''command'')
           else if MAX_PROXY_COMMAND_BYTES < str_len t then Inl (TooLong ''command'' MAX_PROXY_COMMAND_BYTES)
           else Inr t)"

definition normalize_file_path :: "rstr \<Rightarrow> rstr checked" where
  "normalize_file_path s =
     (if s = [] then Inl (MissingField ''filePath'')
      else if MAX_FILE_PATH_BYTES < str_len s then Inl (TooLong ''filePath'' MAX_FILE_PATH_BYTES)
      else if list_ex is_control s then Inl (UnsafeCharacters ''filePath'')
      else Inr s)"

definition normalize_port :: "nat \<Rightarrow> nat checked" where
  "normalize_port n = (if 0 < n \<and> n \<le> 65535 then Inr n else Inl InvalidPort)"

definition validate_canonical :: "string \<Rightarrow> rstr \<Rightarrow> rstr \<Rightarrow> unit checked" where
  "validate_canonical field s canonical =
     (if s = canonical then Inr () else Inl (NonCanonicalField field))"

definition validate_token :: "string \<Rightarrow> rstr \<Rightarrow> unit checked" where
  "validate_token field s =
     (if s = [] \<or> 64 < str_len s then Inl (TooLong field 64)
      else if list_ex (\<lambda>c. is_control c \<or> is_whitespace c) s then Inl (UnsafeCharacters field)
      else Inr ())"

lemma list_ex_trim: "\<not> list_ex P s \<Longrightarrow> \<not> list_ex P (trim s)"
  using set_trim by (auto simp: list_ex_iff)

lemma normalize_text_idem:
  "normalize_text s f n w r = Inr t \<Longrightarrow> normalize_text t f n w r = Inr t"
  by (auto simp: normalize_text_def Let_def list_ex_trim split: if_splits)

lemma normalize_proxy_command_idem:
  "normalize_proxy_command s = Inr t \<Longrightarrow> normalize_proxy_command t = Inr t"
  using set_trim by (auto simp: normalize_proxy_command_def Let_def split: if_splits)

section \<open>Compatibility fields\<close>

definition normalize_compatibility_key :: "rstr \<Rightarrow> rstr" where
  "normalize_compatibility_key key = map ascii_lower (filter is_ascii_alphanumeric key)"

definition is_secret_status_key_normalized :: "rstr \<Rightarrow> bool" where
  "is_secret_status_key_normalized k \<longleftrightarrow>
     k \<in> set (map lit [''savepassword'', ''haspassword'', ''hassavedcredential'', ''savepassphrase'',
       ''haspassphrase'', ''hasprivatekey'', ''hascredential''])"

definition is_secret_status_key :: "rstr \<Rightarrow> bool" where
  "is_secret_status_key key = is_secret_status_key_normalized (normalize_compatibility_key key)"

definition ends_with :: "rstr \<Rightarrow> rstr \<Rightarrow> bool" where
  "ends_with s t \<longleftrightarrow> prefix (rev t) (rev s)"

definition is_forbidden_compatibility_key :: "rstr \<Rightarrow> bool" where
  "is_forbidden_compatibility_key key =
     (let normalized = normalize_compatibility_key key
      in if is_secret_status_key_normalized normalized then False
         else contains normalized (lit ''password'')
           \<or> contains normalized (lit ''passphrase'')
           \<or> contains normalized (lit ''privatekey'')
           \<or> contains normalized (lit ''credentialref'')
           \<or> contains normalized (lit ''credentialid'')
           \<or> contains normalized (lit ''credentialkey'')
           \<or> normalized = lit ''credential''
           \<or> normalized = lit ''credentials''
           \<or> normalized = lit ''secret''
           \<or> ends_with normalized (lit ''secret''))"

definition is_reserved_compatibility_key :: "rstr \<Rightarrow> bool" where
  "is_reserved_compatibility_key key \<longleftrightarrow>
     key \<in> set (map lit [''recordVersion'', ''id'', ''revision'', ''label'', ''hostname'', ''port'',
       ''username'', ''protocol'', ''authMethod'', ''authPolicyVersion'', ''createdAt'', ''updatedAt''])"

definition is_reserved_proxy_config_field :: "rstr \<Rightarrow> bool" where
  "is_reserved_proxy_config_field key \<longleftrightarrow>
     normalize_compatibility_key key \<in> set (map lit [''type'', ''host'', ''hostname'', ''port'',
       ''command'', ''identityid'', ''username'', ''hassavedcredential'', ''hascredential'',
       ''haspassword'', ''savepassword'', ''credential'', ''credentials'', ''password''])"

definition never_reserved_compatibility_key :: "rstr \<Rightarrow> bool" where
  "never_reserved_compatibility_key key = False"

definition bad_key :: "(rstr \<Rightarrow> bool) \<Rightarrow> rstr \<Rightarrow> bool" where
  "bad_key is_reserved key \<longleftrightarrow>
     key = [] \<or> MAX_COMPATIBILITY_KEY_BYTES < str_len key \<or> list_ex is_control key \<or>
     is_reserved key \<or> is_forbidden_compatibility_key key"

definition status_value :: "json \<Rightarrow> bool" where
  "status_value v = (case v of JBool _ \<Rightarrow> True | JNull \<Rightarrow> True | _ \<Rightarrow> False)"

text \<open>
  \<open>validate_children\<close> is the loop over the elements of an array or the members of an object that
  \<^verbatim>\<open>validate_compatibility_entry\<close> and \<^verbatim>\<open>validate_compatibility_value\<close> share; an error is the first one
  in the order of the elements.
\<close>

fun first_error :: "unit checked list \<Rightarrow> unit checked" where
  "first_error [] = Inr ()"
| "first_error (Inl e # _) = Inl e"
| "first_error (Inr _ # rs) = first_error rs"

definition guard_depth :: "nat \<Rightarrow> unit checked" where
  "guard_depth depth =
     (if MAX_COMPATIBILITY_DEPTH < depth then Inl CompatibilityNestingTooDeep else Inr ())"

definition guard_entry :: "rstr \<Rightarrow> json \<Rightarrow> nat \<Rightarrow> (rstr \<Rightarrow> bool) \<Rightarrow> unit checked" where
  "guard_entry key v depth is_reserved =
     and_then (guard_depth depth) (\<lambda>_.
       if bad_key is_reserved key then Inl (ForbiddenCompatibilityField key)
       else if is_secret_status_key key \<and> \<not> status_value v then Inl (ForbiddenCompatibilityField key)
       else Inr ())"

lemma size_member: "(k, v) \<in> set m \<Longrightarrow> size (v :: json) < Suc (size_list (size_prod (\<lambda>x. 0) size) m)"
  by (induction m) auto

lemma size_element: "v \<in> set vs \<Longrightarrow> size (v :: json) < Suc (size_list size vs)"
  by (induction vs) auto

function validate_children :: "json \<Rightarrow> nat \<Rightarrow> (rstr \<Rightarrow> bool) \<Rightarrow> unit checked" where
  "validate_children v depth is_reserved =
     (case v of
        JArray vs \<Rightarrow>
          first_error (map (\<lambda>v. and_then (guard_depth (depth + 1))
            (\<lambda>_. validate_children v (depth + 1) is_reserved)) vs)
      | JObject m \<Rightarrow>
          first_error (map (\<lambda>(k, v). and_then (guard_entry k v (depth + 1) is_reserved)
            (\<lambda>_. validate_children v (depth + 1) is_reserved)) m)
      | _ \<Rightarrow> Inr ())"
  by pat_completeness auto
termination
  by (relation "measure (\<lambda>(v, _, _). size v)") (auto dest: size_member size_element)

declare validate_children.simps [simp del]

definition validate_compatibility_entry ::
    "rstr \<Rightarrow> json \<Rightarrow> nat \<Rightarrow> (rstr \<Rightarrow> bool) \<Rightarrow> (rstr \<Rightarrow> bool) \<Rightarrow> unit checked" where
  "validate_compatibility_entry key v depth is_reserved nested_is_reserved =
     and_then (guard_entry key v depth is_reserved) (\<lambda>_.
       validate_children v depth nested_is_reserved)"

definition validate_compatibility_value :: "json \<Rightarrow> nat \<Rightarrow> (rstr \<Rightarrow> bool) \<Rightarrow> unit checked" where
  "validate_compatibility_value v depth is_reserved =
     and_then (guard_depth depth) (\<lambda>_. validate_children v depth is_reserved)"

definition validate_compatibility_fields_with :: "json_map \<Rightarrow> (rstr \<Rightarrow> bool) \<Rightarrow> unit checked" where
  "validate_compatibility_fields_with m is_reserved =
     first_error (map (\<lambda>(k, v). validate_compatibility_entry k v 0 is_reserved is_reserved) m)"

definition validate_proxy_compatibility_fields :: "json_map \<Rightarrow> unit checked" where
  "validate_proxy_compatibility_fields m =
     validate_compatibility_fields_with m is_reserved_proxy_config_field"

end
