(* ===== verification/Vault_Group.thy ===== *)
theory Vault_Group
  imports Rust_Search
begin

text \<open>
  Group paths and the catalog of explicit groups (\<^verbatim>\<open>crates/netcatty-vault/src/group.rs\<close>).  A
  \<^verbatim>\<open>SavedGroupPath\<close> is a normalised string: the only structural character is the slash, and
  \<open>normalize_group_path\<close> drops empty segments.  The catalog keeps the explicit paths in the order in
  which they were first inserted; \<open>hierarchy_paths\<close> projects them with all their ancestors.
\<close>

section \<open>Paths\<close>

abbreviation slash :: uchar where
  "slash \<equiv> 47"

definition MAX_GROUP_PATH_BYTES :: nat where
  "MAX_GROUP_PATH_BYTES = 32 * 1024"

definition MAX_GROUP_CATALOG_ENTITIES :: nat where
  "MAX_GROUP_CATALOG_ENTITIES = 10000"

datatype group_path_error = GroupPathEmpty | GroupPathTooLong nat | CatalogTooLarge nat

definition split_path :: "rstr \<Rightarrow> rstr list" where
  "split_path s = split_on (\<lambda>c. c = slash) s"

fun join_path :: "rstr list \<Rightarrow> rstr" where
  "join_path [] = []"
| "join_path [s] = s"
| "join_path (s # t # ts) = s @ slash # join_path (t # ts)"

definition normalize_group_path :: "rstr \<Rightarrow> group_path_error + rstr" where
  "normalize_group_path value =
     (let segments = filter (\<lambda>s. s \<noteq> []) (split_path value)
      in if segments = [] then Inl GroupPathEmpty
         else
           let normalized = join_path segments
           in if MAX_GROUP_PATH_BYTES < str_len normalized then Inl (GroupPathTooLong MAX_GROUP_PATH_BYTES)
              else Inr normalized)"

definition path_name :: "rstr \<Rightarrow> rstr" where
  "path_name p = after_last slash p"

definition path_parent :: "rstr \<Rightarrow> rstr option" where
  "path_parent p =
     (if slash \<in> set p then Some (take (length p - length (after_last slash p) - 1) p) else None)"

fun ancestor_chain :: "rstr \<Rightarrow> rstr list \<Rightarrow> rstr list" where
  "ancestor_chain current [] = []"
| "ancestor_chain current (segment # segments) =
     (let next_path = (if current \<noteq> [] then current @ [slash] else current) @ segment
      in next_path # ancestor_chain next_path segments)"

definition ancestors :: "rstr \<Rightarrow> rstr list" where
  "ancestors p = ancestor_chain [] (split_path p)"

section \<open>The catalog\<close>

type_synonym group_catalog = "rstr list"

definition insert_path :: "rstr \<Rightarrow> group_catalog \<Rightarrow> group_path_error + bool \<times> group_catalog" where
  "insert_path path explicit =
     (if path \<in> set explicit then Inr (False, explicit)
      else if MAX_GROUP_CATALOG_ENTITIES \<le> length explicit
      then Inl (CatalogTooLarge MAX_GROUP_CATALOG_ENTITIES)
      else Inr (True, explicit @ [path]))"

definition catalog_insert :: "rstr \<Rightarrow> group_catalog \<Rightarrow> group_path_error + bool \<times> group_catalog" where
  "catalog_insert value explicit =
     (case normalize_group_path value of
        Inl e \<Rightarrow> Inl e
      | Inr path \<Rightarrow> insert_path path explicit)"

fun insert_all :: "rstr list \<Rightarrow> group_catalog \<Rightarrow> group_path_error + group_catalog" where
  "insert_all [] explicit = Inr explicit"
| "insert_all (path # paths) explicit =
     (case catalog_insert path explicit of
        Inl e \<Rightarrow> Inl e
      | Inr (_, explicit) \<Rightarrow> insert_all paths explicit)"

definition from_paths :: "rstr list \<Rightarrow> group_path_error + group_catalog" where
  "from_paths paths = insert_all paths []"

definition catalog_remove :: "rstr \<Rightarrow> group_catalog \<Rightarrow> bool \<times> group_catalog" where
  "catalog_remove path explicit =
     (if path \<in> set explicit then (True, remove1 path explicit) else (False, explicit))"

fun project_paths :: "rstr list \<Rightarrow> rstr set \<Rightarrow> rstr list \<Rightarrow> rstr set \<times> rstr list" where
  "project_paths [] seen hierarchy = (seen, hierarchy)"
| "project_paths (a # rest) seen hierarchy =
     (if a \<in> seen then project_paths rest seen hierarchy
      else project_paths rest (insert a seen) (hierarchy @ [a]))"

fun project_catalog :: "group_catalog \<Rightarrow> rstr set \<Rightarrow> rstr list \<Rightarrow> rstr list" where
  "project_catalog [] seen hierarchy = hierarchy"
| "project_catalog (path # paths) seen hierarchy =
     (let (seen, hierarchy) = project_paths (ancestors path) seen hierarchy
      in project_catalog paths seen hierarchy)"

definition hierarchy_paths :: "group_catalog \<Rightarrow> rstr list" where
  "hierarchy_paths explicit = project_catalog explicit {} []"

text \<open>The catalog as \<^verbatim>\<open>Deserialize\<close> rebuilds it from a list of normalised paths.\<close>

fun restore_paths :: "rstr list \<Rightarrow> group_catalog \<Rightarrow> group_catalog option" where
  "restore_paths [] explicit = Some explicit"
| "restore_paths (path # paths) explicit =
     (case insert_path path explicit of
        Inr (True, explicit) \<Rightarrow> restore_paths paths explicit
      | _ \<Rightarrow> None)"

fun parse_paths :: "rstr list \<Rightarrow> rstr list option" where
  "parse_paths [] = Some []"
| "parse_paths (value # rest) =
     (case normalize_group_path value of
        Inl _ \<Rightarrow> None
      | Inr path \<Rightarrow> map_option ((#) path) (parse_paths rest))"

definition deserialize_catalog :: "rstr list \<Rightarrow> group_catalog option" where
  "deserialize_catalog input =
     (case parse_paths input of
        None \<Rightarrow> None
      | Some paths \<Rightarrow>
          if MAX_GROUP_CATALOG_ENTITIES < length paths then None else restore_paths paths [])"

section \<open>Normal paths\<close>

definition group_segment :: "rstr \<Rightarrow> bool" where
  "group_segment s \<longleftrightarrow> s \<noteq> [] \<and> slash \<notin> set s"

definition normal_path :: "rstr \<Rightarrow> bool" where
  "normal_path p \<longleftrightarrow>
     split_path p \<noteq> [] \<and> list_all group_segment (split_path p) \<and> str_len p \<le> MAX_GROUP_PATH_BYTES"

lemma split_path_join:
  "ss \<noteq> [] \<Longrightarrow> list_all group_segment ss \<Longrightarrow> split_path (join_path ss) = ss"
proof (induction ss rule: join_path.induct)
  case (2 s)
  then show ?case by (auto simp: split_path_def group_segment_def intro: split_on_absent)
next
  case (3 s t ts)
  then have "split_path s = [s]"
    by (auto simp: split_path_def group_segment_def intro: split_on_absent)
  with 3 show ?case by (simp add: split_path_def split_on_append)
qed simp

lemma join_path_split: "join_path (split_path s) = s"
proof -
  have "join_path (split_on (\<lambda>c. c = slash) s) = s"
  proof (induction s)
    case (Cons c s)
    show ?case
    proof (cases "split_on (\<lambda>c. c = slash) s")
      case (Cons t ts)
      with Cons.IH show ?thesis by (cases ts) simp_all
    qed simp
  qed simp
  then show ?thesis by (simp add: split_path_def)
qed

lemma split_path_segments: "s \<in> set (split_path p) \<Longrightarrow> slash \<notin> set s"
  using split_on_pieces [of "\<lambda>c. c = slash" p] by (auto simp: split_path_def)

lemma kept_segments: "list_all group_segment (filter (\<lambda>s. s \<noteq> []) (split_path p))"
  by (auto simp: list_all_iff group_segment_def dest: split_path_segments)

lemma normalize_normal: "normalize_group_path v = Inr p \<Longrightarrow> normal_path p"
  using kept_segments [of v]
  by (auto simp: normalize_group_path_def normal_path_def Let_def split_path_join split: if_splits)

lemma normalize_fixed: "normal_path p \<Longrightarrow> normalize_group_path p = Inr p"
proof -
  assume p: "normal_path p"
  then have "filter (\<lambda>s. s \<noteq> []) (split_path p) = split_path p"
    by (auto simp: normal_path_def list_all_iff group_segment_def intro: filter_True)
  with p show ?thesis
    by (simp add: normalize_group_path_def normal_path_def join_path_split)
qed

section \<open>Ancestors\<close>

lemma ancestor_chain_length [simp]: "length (ancestor_chain c ss) = length ss"
  by (induction c ss rule: ancestor_chain.induct) (simp_all add: Let_def)

lemma join_path_snoc:
  "ss \<noteq> [] \<Longrightarrow> join_path (ss @ [s]) = join_path ss @ slash # s"
  by (induction ss rule: join_path.induct) auto

lemma join_path_nonempty: "ss \<noteq> [] \<Longrightarrow> list_all group_segment ss \<Longrightarrow> join_path ss \<noteq> []"
  by (cases ss rule: join_path.cases) (auto simp: group_segment_def)

lemma ancestor_chain_nth:
  assumes "list_all group_segment (front @ ss)" and "i < length ss"
  shows "ancestor_chain (join_path front) ss ! i = join_path (front @ take (Suc i) ss)"
  using assms
proof (induction ss arbitrary: front i)
  case (Cons s ss)
  have next_path: "(if join_path front \<noteq> [] then join_path front @ [slash] else join_path front) @ s
      = join_path (front @ [s])"
  proof (cases "front = []")
    case False
    then have "join_path front \<noteq> []" using Cons.prems by (intro join_path_nonempty) auto
    with False show ?thesis by (simp add: join_path_snoc)
  qed simp
  show ?case
  proof (cases i)
    case (Suc k)
    then have "ancestor_chain (join_path (front @ [s])) ss ! k = join_path ((front @ [s]) @ take (Suc k) ss)"
      using Cons.prems by (intro Cons.IH) auto
    then show ?thesis using Suc next_path by (simp add: Let_def)
  qed (use next_path in \<open>simp add: Let_def\<close>)
qed simp

lemma ancestors_eq:
  assumes "normal_path p"
  shows "ancestors p = map (\<lambda>i. join_path (take (Suc i) (split_path p))) [0..<length (split_path p)]"
proof (rule nth_equalityI)
  fix i assume i: "i < length (ancestors p)"
  then have "ancestors p ! i = join_path ([] @ take (Suc i) (split_path p))"
    using assms ancestor_chain_nth [of "[]" "split_path p" i]
    by (simp add: ancestors_def normal_path_def)
  with i show "ancestors p ! i = map (\<lambda>i. join_path (take (Suc i) (split_path p))) [0..<length (split_path p)] ! i"
    by (simp add: ancestors_def)
qed (simp add: ancestors_def)

lemma str_len_take: "str_len (take n s) \<le> str_len s"
  by (metis append_take_drop_id le_add1 str_len_append)

lemma join_path_prefix: "prefix (join_path (take n ss)) (join_path ss)"
proof (induction ss arbitrary: n rule: join_path.induct)
  case (3 s t ts)
  show ?case
  proof (cases n)
    case (Suc k)
    show ?thesis
    proof (cases k)
      case (Suc l)
      have "take (Suc l) (t # ts) \<noteq> []" by simp
      then have "join_path (s # take (Suc l) (t # ts)) = s @ slash # join_path (take (Suc l) (t # ts))"
        by (cases "take (Suc l) (t # ts)") simp_all
      then show ?thesis using 3 [of "Suc l"] \<open>n = Suc k\<close> Suc by simp
    qed (use Suc in simp)
  qed simp
qed (auto simp: take_Cons split: nat.split)

lemma ancestor_normal:
  assumes "normal_path p" and "a \<in> set (ancestors p)"
  shows "normal_path a" "prefix a p"
proof -
  obtain i where i: "i < length (split_path p)" and a: "a = join_path (take (Suc i) (split_path p))"
    using assms by (auto simp: ancestors_eq)
  have ss: "list_all group_segment (take (Suc i) (split_path p))" "take (Suc i) (split_path p) \<noteq> []"
    using assms(1) i by (auto simp: normal_path_def list_all_iff dest: in_set_takeD)
  show pre: "prefix a p"
    using join_path_prefix [of "Suc i" "split_path p"] by (simp add: a join_path_split)
  then have "str_len a \<le> str_len p" by (auto simp: prefix_def)
  then show "normal_path a"
    using ss assms(1) by (simp add: a normal_path_def split_path_join)
qed

lemma parent_join:
  assumes "group_segment s" and "ss \<noteq> []"
  shows "path_parent (join_path (ss @ [s])) = Some (join_path ss)"
proof -
  have "join_path (ss @ [s]) = join_path ss @ slash # s"
    using assms(2) by (rule join_path_snoc)
  moreover have "after_last slash (join_path ss @ slash # s) = s"
    using assms(1) by (intro after_last_app) (simp add: group_segment_def)
  ultimately show ?thesis by (simp add: path_parent_def)
qed

lemma parent_single: "group_segment s \<Longrightarrow> path_parent (join_path [s]) = None"
  by (simp add: path_parent_def group_segment_def)

lemma ancestors_last: "normal_path p \<Longrightarrow> last (ancestors p) = p"
  by (simp add: ancestors_eq last_map normal_path_def join_path_split)

lemma ancestors_nonempty: "normal_path p \<Longrightarrow> ancestors p \<noteq> []"
  by (simp add: ancestors_eq normal_path_def)

lemma ancestor_self: "normal_path p \<Longrightarrow> p \<in> set (ancestors p)"
  using last_in_set [OF ancestors_nonempty] ancestors_last by force

lemma ancestors_parent:
  assumes p: "normal_path p" and i: "i < length (ancestors p)"
    and q: "path_parent (ancestors p ! i) = Some q"
  shows "q \<in> set (take i (ancestors p))"
proof -
  let ?ss = "split_path p"
  have len: "length (ancestors p) = length ?ss" by (simp add: ancestors_def)
  have ss: "list_all group_segment ?ss" using p by (simp add: normal_path_def)
  have nth: "ancestors p ! j = join_path (take (Suc j) ?ss)" if "j < length ?ss" for j
    using that p by (simp add: ancestors_eq)
  have seg: "group_segment (?ss ! i)" using ss i len by (simp add: list_all_length)
  have split: "take (Suc i) ?ss = take i ?ss @ [?ss ! i]"
    using i len by (simp add: take_Suc_conv_app_nth)
  show ?thesis
  proof (cases i)
    case 0
    then show ?thesis using q nth [of i] i len seg split by (simp add: parent_single [simplified])
  next
    case (Suc j)
    then have "take i ?ss \<noteq> []" using i len by auto
    then have "q = ancestors p ! j"
      using q nth [of i] nth [of j] i len seg split Suc by (simp add: parent_join)
    then show ?thesis using Suc i by (auto simp: in_set_conv_nth intro!: exI [of _ j])
  qed
qed

section \<open>The catalog's invariant and its projection\<close>

definition catalog_wf :: "group_catalog \<Rightarrow> bool" where
  "catalog_wf explicit \<longleftrightarrow>
     distinct explicit \<and> length explicit \<le> MAX_GROUP_CATALOG_ENTITIES \<and> list_all normal_path explicit"

lemma insert_path_wf:
  "catalog_wf c \<Longrightarrow> normal_path p \<Longrightarrow> insert_path p c = Inr (added, d) \<Longrightarrow> catalog_wf d"
  by (auto simp: insert_path_def catalog_wf_def split: if_splits)

lemma catalog_insert_wf: "catalog_wf c \<Longrightarrow> catalog_insert v c = Inr (added, d) \<Longrightarrow> catalog_wf d"
  by (auto simp: catalog_insert_def dest: normalize_normal insert_path_wf split: sum.splits)

lemma insert_all_wf: "catalog_wf c \<Longrightarrow> insert_all vs c = Inr d \<Longrightarrow> catalog_wf d"
  by (induction vs arbitrary: c) (auto split: sum.splits dest: catalog_insert_wf)

lemma catalog_remove_wf: "catalog_wf c \<Longrightarrow> catalog_wf (snd (catalog_remove p c))"
proof -
  assume "catalog_wf c"
  then show ?thesis
    using length_remove1 [of p c] set_remove1_subset [of p c]
    by (auto simp: catalog_remove_def catalog_wf_def list_all_iff)
qed

lemma restore_wf:
  "catalog_wf c \<Longrightarrow> list_all normal_path ps \<Longrightarrow> restore_paths ps c = Some d \<Longrightarrow> catalog_wf d \<and> d = c @ ps"
proof (induction ps arbitrary: c)
  case (Cons p ps)
  then obtain e where e: "insert_path p c = Inr (True, e)" and d: "restore_paths ps e = Some d"
    by (auto split: sum.splits prod.splits bool.splits)
  then have "e = c @ [p]" by (auto simp: insert_path_def split: if_splits)
  moreover have "catalog_wf e" using Cons.prems e by (auto intro: insert_path_wf)
  ultimately show ?case using Cons.IH [of e] Cons.prems d by auto
qed simp

lemma restore_complete:
  "catalog_wf (c @ ps) \<Longrightarrow> restore_paths ps c = Some (c @ ps)"
proof (induction ps arbitrary: c)
  case (Cons p ps)
  then have "insert_path p c = Inr (True, c @ [p])"
    by (auto simp: insert_path_def catalog_wf_def)
  with Cons show ?case by simp
qed simp

lemma parse_paths_normal: "parse_paths vs = Some ps \<Longrightarrow> list_all normal_path ps"
  by (induction vs arbitrary: ps) (auto split: sum.splits dest: normalize_normal)

lemma parse_paths_fixed: "list_all normal_path ps \<Longrightarrow> parse_paths ps = Some ps"
  by (induction ps) (simp_all add: normalize_fixed)

definition add_new :: "rstr list \<Rightarrow> rstr \<Rightarrow> rstr list" where
  "add_new h a = (if a \<in> set h then h else h @ [a])"

lemma set_add_new [simp]: "set (add_new h a) = insert a (set h)"
  by (auto simp: add_new_def)

lemma set_foldl_add_new [simp]: "set (foldl add_new h as) = set h \<union> set as"
  by (induction as arbitrary: h) auto

lemma distinct_foldl_add_new: "distinct h \<Longrightarrow> distinct (foldl add_new h as)"
  by (induction as arbitrary: h) (auto simp: add_new_def)

lemma project_paths_eq:
  "project_paths as (set h) h = (set (foldl add_new h as), foldl add_new h as)"
proof (induction as arbitrary: h)
  case (Cons a as)
  show ?case
    using Cons [of h] Cons [of "h @ [a]"] by (simp add: add_new_def del: set_foldl_add_new)
qed simp

lemma project_catalog_eq:
  "project_catalog c (set h) h = foldl add_new h (concat (map ancestors c))"
  by (induction c arbitrary: h) (simp_all only: project_catalog.simps project_paths_eq Let_def prod.case
      list.map concat.simps foldl_append foldl_Nil)

lemma hierarchy_paths_eq: "hierarchy_paths c = foldl add_new [] (concat (map ancestors c))"
  using project_catalog_eq [of c "[]"] by (simp add: hierarchy_paths_def)

definition parents_first :: "rstr list \<Rightarrow> bool" where
  "parents_first h \<longleftrightarrow>
     (\<forall>i < length h. \<forall>q. path_parent (h ! i) = Some q \<longrightarrow> q \<in> set (take i h))"

lemma parents_first_snoc:
  "parents_first h \<Longrightarrow> (\<And>q. path_parent a = Some q \<Longrightarrow> q \<in> set h) \<Longrightarrow> parents_first (h @ [a])"
  by (auto simp: parents_first_def nth_append less_Suc_eq)

lemma parents_first_fold:
  assumes "parents_first h"
    and "\<And>i q. i < length as \<Longrightarrow> path_parent (as ! i) = Some q \<Longrightarrow> q \<in> set h \<union> set (take i as)"
  shows "parents_first (foldl add_new h as)"
  using assms
proof (induction as arbitrary: h)
  case (Cons a as)
  have head: "\<And>q. path_parent a = Some q \<Longrightarrow> q \<in> set h"
    using Cons.prems(2) [of 0] by simp
  have "parents_first (add_new h a)"
    using Cons.prems(1) head by (auto simp: add_new_def intro: parents_first_snoc)
  moreover have "q \<in> set (add_new h a) \<union> set (take i as)"
    if "i < length as" "path_parent (as ! i) = Some q" for i q
    using Cons.prems(2) [of "Suc i" q] that by auto
  ultimately show ?case using Cons.IH [of "add_new h a"] by simp
qed simp

lemma parents_first_catalog:
  "parents_first h \<Longrightarrow> list_all normal_path c \<Longrightarrow>
   parents_first (foldl add_new h (concat (map ancestors c)))"
proof (induction c arbitrary: h)
  case (Cons p c)
  have "parents_first (foldl add_new h (ancestors p))"
    using Cons.prems by (intro parents_first_fold) (auto dest: ancestors_parent)
  then show ?case using Cons by simp
qed simp

section \<open>The properties of the catalog\<close>

text \<open>normalising a group path gives a normal path (non-empty segments without slashes, at most
  32 KiB), a normal path is its own normal form, and its ancestors are, in order, the joins of its
  first one, two, ... segments, the last being the path itself.\<close>

theorem group_path_normal_form:
  assumes "normalize_group_path v = Inr p"
  shows "normal_path p \<and> normalize_group_path p = Inr p \<and>
      ancestors p = map (\<lambda>i. join_path (take (Suc i) (split_path p))) [0..<length (split_path p)] \<and>
      last (ancestors p) = p"
  using normalize_normal [OF assms] normalize_fixed ancestors_eq ancestors_last by blast

theorem group_path_normal_form_witness:
  "normalize_group_path (lit ''//prod//web/'') = Inr (lit ''prod/web'') \<and>
   ancestors (lit ''prod/web'') = [lit ''prod'', lit ''prod/web'']"
proof -
  have n: "normalize_group_path (lit ''//prod//web/'') = Inr (lit ''prod/web'')"
    by (simp add: normalize_group_path_def split_path_def lit_def of_char_def str_len_ascii
        MAX_GROUP_PATH_BYTES_def)
  show ?thesis
    using n group_path_normal_form [OF n]
    by (simp add: split_path_def lit_def of_char_def upt_rec)
qed

text \<open>C40: whatever operations built it, the catalog of explicit groups holds distinct normal paths
  within its bound, and the hierarchy projected from it is a forest: its paths are distinct, it holds
  exactly the ancestors of the explicit paths, and every parent comes before its children.\<close>

theorem group_catalog_hierarchy:
  assumes "from_paths values' = Inr c"
  shows "catalog_wf c \<and> catalog_wf (snd (catalog_remove p c)) \<and>
     distinct (hierarchy_paths c) \<and> parents_first (hierarchy_paths c) \<and>
     set (hierarchy_paths c) = \<Union> (set ` ancestors ` set c) \<and> set c \<subseteq> set (hierarchy_paths c)"
proof -
  have c: "catalog_wf c"
    using assms insert_all_wf [of "[]"] by (auto simp: from_paths_def catalog_wf_def)
  then have normal: "list_all normal_path c" by (simp add: catalog_wf_def)
  then have "set c \<subseteq> set (hierarchy_paths c)"
    by (auto simp: hierarchy_paths_eq list_all_iff intro!: bexI ancestor_self)
  moreover have "parents_first (hierarchy_paths c)"
    unfolding hierarchy_paths_eq using normal
    by (intro parents_first_catalog) (auto simp: parents_first_def)
  ultimately show ?thesis
    using c by (simp add: catalog_remove_wf hierarchy_paths_eq distinct_foldl_add_new)
qed

definition sample_groups :: "rstr list" where
  "sample_groups = [lit ''a/b'', lit ''/c'']"

theorem group_catalog_hierarchy_witness:
  "from_paths sample_groups = Inr [lit ''a/b'', lit ''c''] \<and>
   parents_first (hierarchy_paths [lit ''a/b'', lit ''c'']) \<and>
   hierarchy_paths [lit ''a/b'', lit ''c''] = [lit ''a'', lit ''a/b'', lit ''c'']"
proof -
  have f: "from_paths sample_groups = Inr [lit ''a/b'', lit ''c'']"
    by (simp add: from_paths_def sample_groups_def catalog_insert_def insert_path_def
        normalize_group_path_def split_path_def lit_def of_char_def str_len_ascii
        MAX_GROUP_PATH_BYTES_def MAX_GROUP_CATALOG_ENTITIES_def)
  show ?thesis
    using f group_catalog_hierarchy [OF f]
    by (simp add: hierarchy_paths_def ancestors_def split_path_def lit_def of_char_def)
qed

text \<open>a catalog survives serialisation, and whatever list is read back, an accepted one is a
  catalog that satisfies the invariant: duplicates, empty paths and too many paths are refused.\<close>

theorem group_catalog_roundtrip:
  "(catalog_wf c \<longrightarrow> deserialize_catalog c = Some c) \<and>
   (deserialize_catalog input = Some d \<longrightarrow> catalog_wf d \<and> length d = length input)"
proof
  show "catalog_wf c \<longrightarrow> deserialize_catalog c = Some c"
    using restore_complete [of "[]" c]
    by (auto simp: deserialize_catalog_def catalog_wf_def parse_paths_fixed)
  have len: "parse_paths vs = Some ps \<Longrightarrow> length ps = length vs" for vs ps
    by (induction vs arbitrary: ps) (auto split: sum.splits)
  show "deserialize_catalog input = Some d \<longrightarrow> catalog_wf d \<and> length d = length input"
  proof
    assume "deserialize_catalog input = Some d"
    then obtain ps where ps: "parse_paths input = Some ps" and d: "restore_paths ps [] = Some d"
      by (auto simp: deserialize_catalog_def split: option.splits if_splits)
    have "catalog_wf []" by (simp add: catalog_wf_def)
    then show "catalog_wf d \<and> length d = length input"
      using restore_wf [of "[]" ps d] parse_paths_normal ps d len by auto
  qed
qed

theorem group_catalog_roundtrip_witness:
  "deserialize_catalog [lit ''a'', lit ''a/b''] = Some [lit ''a'', lit ''a/b''] \<and>
   deserialize_catalog [lit ''a'', lit ''/a''] = None"
proof -
  have "catalog_wf [lit ''a'', lit ''a/b'']"
    by (simp add: catalog_wf_def normal_path_def split_path_def group_segment_def lit_def of_char_def
        str_len_ascii MAX_GROUP_PATH_BYTES_def MAX_GROUP_CATALOG_ENTITIES_def)
  then have "deserialize_catalog [lit ''a'', lit ''a/b''] = Some [lit ''a'', lit ''a/b'']"
    using group_catalog_roundtrip by blast
  moreover have "deserialize_catalog [lit ''a'', lit ''/a''] = None"
    by (simp add: deserialize_catalog_def normalize_group_path_def insert_path_def split_path_def
        lit_def of_char_def str_len_ascii MAX_GROUP_PATH_BYTES_def MAX_GROUP_CATALOG_ENTITIES_def)
  ultimately show ?thesis ..
qed

end
