(* ===== verification/Vault_Endpoint.thy ===== *)
theory Vault_Endpoint
  imports Vault_Json Vault_Group
begin

text \<open>
  The serial and proxy configurations of saved hosts (\<^verbatim>\<open>crates/netcatty-vault/src/serial.rs\<close> and
  \<^verbatim>\<open>model.rs\<close>) and the validation of a host's compatibility fields.  The \<^verbatim>\<open>serde\<close> readers and writers are
  written out as the derived implementations behave: defaults, unit variants in both of their forms,
  positional structs, the tagged enum with flattened members.  The theorems show that a valid
  configuration survives being written and read, and that whatever is read is valid.
\<close>

section \<open>Readers of JSON values\<close>

definition json_u32 :: "json \<Rightarrow> nat option" where
  "json_u32 v = (case v of
     JNumber (Integer n) \<Rightarrow> if 0 \<le> n \<and> n < 2 ^ 32 then Some (nat n) else None
   | _ \<Rightarrow> None)"

definition json_u8 :: "json \<Rightarrow> nat option" where
  "json_u8 v = (case v of
     JNumber (Integer n) \<Rightarrow> if 0 \<le> n \<and> n < 2 ^ 8 then Some (nat n) else None
   | _ \<Rightarrow> None)"

definition json_f64 :: "json \<Rightarrow> rat option" where
  "json_f64 v = (case v of
     JNumber (Integer n) \<Rightarrow> Some (of_int n)
   | JNumber (Float r) \<Rightarrow> Some r
   | _ \<Rightarrow> None)"

definition json_bool :: "json \<Rightarrow> bool option" where
  "json_bool v = (case v of JBool b \<Rightarrow> Some b | _ \<Rightarrow> None)"

definition json_string :: "json \<Rightarrow> rstr option" where
  "json_string v = (case v of JString s \<Rightarrow> Some s | _ \<Rightarrow> None)"

text \<open>The name of a unit variant: a string, or an object whose only member has the value null.\<close>

definition json_unit_variant :: "json \<Rightarrow> rstr option" where
  "json_unit_variant v = (case v of
     JString s \<Rightarrow> Some s
   | JObject [(k, JNull)] \<Rightarrow> Some k
   | _ \<Rightarrow> None)"

definition optional_json :: "(json \<Rightarrow> 'a option) \<Rightarrow> json \<Rightarrow> 'a option option" where
  "optional_json f v = (case v of JNull \<Rightarrow> Some None | _ \<Rightarrow> map_option Some (f v))"

definition or_default :: "'a \<Rightarrow> (json \<Rightarrow> 'a option) \<Rightarrow> json option \<Rightarrow> 'a option" where
  "or_default d f v = (case v of None \<Rightarrow> Some d | Some v \<Rightarrow> f v)"

section \<open>Serial configuration\<close>

datatype saved_data_bits = Five | Six | Seven | Eight
datatype saved_stop_bits = One | OnePointFive | Two
datatype saved_parity = ParityNone | Even | Odd | Mark | Space
datatype saved_flow_control = FlowNone | XonXoff | RtsCts
datatype saved_backspace = BackspaceDefault | CtrlH

definition MAX_SERIAL_PATH_BYTES :: nat where "MAX_SERIAL_PATH_BYTES = 32 * 1024"
definition DEFAULT_SERIAL_BAUD_RATE :: nat where "DEFAULT_SERIAL_BAUD_RATE = 115200"

fun data_bits_get :: "saved_data_bits \<Rightarrow> nat" where
  "data_bits_get Five = 5" | "data_bits_get Six = 6"
| "data_bits_get Seven = 7" | "data_bits_get Eight = 8"

definition data_bits_from_u8 :: "nat \<Rightarrow> saved_data_bits option" where
  "data_bits_from_u8 n =
     (if n = 5 then Some Five else if n = 6 then Some Six
      else if n = 7 then Some Seven else if n = 8 then Some Eight else None)"

fun stop_bits_json :: "saved_stop_bits \<Rightarrow> json" where
  "stop_bits_json One = JNumber (Integer 1)"
| "stop_bits_json OnePointFive = JNumber (Float (3 / 2))"
| "stop_bits_json Two = JNumber (Integer 2)"

definition stop_bits_from_f64 :: "rat \<Rightarrow> saved_stop_bits option" where
  "stop_bits_from_f64 r =
     (if r = 1 then Some One else if r = 3 / 2 then Some OnePointFive
      else if r = 2 then Some Two else None)"

fun parity_name :: "saved_parity \<Rightarrow> rstr" where
  "parity_name ParityNone = lit ''none''" | "parity_name Even = lit ''even''"
| "parity_name Odd = lit ''odd''" | "parity_name Mark = lit ''mark''"
| "parity_name Space = lit ''space''"

fun flow_name :: "saved_flow_control \<Rightarrow> rstr" where
  "flow_name FlowNone = lit ''none''" | "flow_name XonXoff = lit ''xon/xoff''"
| "flow_name RtsCts = lit ''rts/cts''"

fun backspace_name :: "saved_backspace \<Rightarrow> rstr" where
  "backspace_name BackspaceDefault = lit ''default''" | "backspace_name CtrlH = lit ''ctrl-h''"

definition variant_named :: "('a \<Rightarrow> rstr) \<Rightarrow> 'a list \<Rightarrow> json \<Rightarrow> 'a option" where
  "variant_named name variants v =
     (case json_unit_variant v of
        None \<Rightarrow> None
      | Some s \<Rightarrow> find (\<lambda>x. name x = s) variants)"

definition parity_of_json :: "json \<Rightarrow> saved_parity option" where
  "parity_of_json = variant_named parity_name [ParityNone, Even, Odd, Mark, Space]"

definition flow_of_json :: "json \<Rightarrow> saved_flow_control option" where
  "flow_of_json = variant_named flow_name [FlowNone, XonXoff, RtsCts]"

definition backspace_of_json :: "json \<Rightarrow> saved_backspace option" where
  "backspace_of_json = variant_named backspace_name [BackspaceDefault, CtrlH]"

record serial_config =
  sc_path :: rstr
  sc_baud_rate :: nat
  sc_data_bits :: saved_data_bits
  sc_stop_bits :: saved_stop_bits
  sc_parity :: saved_parity
  sc_flow_control :: saved_flow_control
  sc_local_echo :: bool
  sc_line_mode :: bool
  sc_backspace :: "saved_backspace option"

definition normalize_serial_path :: "rstr \<Rightarrow> serial_config_error + rstr" where
  "normalize_serial_path s =
     (if list_ex is_control s then Inl UnsafePath
      else
        let t = trim s
        in if t = [] then Inl MissingPath
           else if MAX_SERIAL_PATH_BYTES < str_len t then Inl PathTooLong
           else Inr t)"

definition validate_serial_config :: "serial_config \<Rightarrow> serial_config_error + unit" where
  "validate_serial_config c =
     and_then (normalize_serial_path (sc_path c)) (\<lambda>p.
       if p \<noteq> sc_path c then Inl UnsafePath
       else if sc_baud_rate c = 0 then Inl InvalidBaudRate
       else Inr ())"

definition new_serial_config :: "rstr \<Rightarrow> nat \<Rightarrow> serial_config_error + serial_config" where
  "new_serial_config p baud =
     and_then (normalize_serial_path p) (\<lambda>p.
       let c = \<lparr>sc_path = p, sc_baud_rate = baud, sc_data_bits = Eight, sc_stop_bits = One,
                sc_parity = ParityNone, sc_flow_control = FlowNone, sc_local_echo = False,
                sc_line_mode = False, sc_backspace = None\<rparr>
       in and_then (validate_serial_config c) (\<lambda>_. Inr c))"

definition serial_keys :: "rstr list" where
  "serial_keys = map lit [''path'', ''baudRate'', ''dataBits'', ''stopBits'', ''parity'', ''flowControl'',
     ''localEcho'', ''lineMode'', ''backspaceBehavior'']"

text \<open>
  The wire struct, from its fields by position: an object names them, an array lists them.  The
  path is normalised and the whole is validated.
\<close>

definition serial_wire :: "(nat \<Rightarrow> json option) \<Rightarrow> serial_config option" where
  "serial_wire g =
     (case (Option.bind (g 0) json_string, Option.bind (g 1) json_u32,
            or_default Eight (\<lambda>v. Option.bind (json_u8 v) data_bits_from_u8) (g 2),
            or_default One (\<lambda>v. Option.bind (json_f64 v) stop_bits_from_f64) (g 3),
            or_default ParityNone parity_of_json (g 4),
            or_default FlowNone flow_of_json (g 5),
            or_default False json_bool (g 6),
            or_default False json_bool (g 7),
            or_default None (optional_json backspace_of_json) (g 8)) of
        (Some p, Some baud, Some data, Some stop, Some parity, Some flow, Some echo, Some line, Some back) \<Rightarrow>
          (case normalize_serial_path p of
             Inl _ \<Rightarrow> None
           | Inr p \<Rightarrow>
               let c = \<lparr>sc_path = p, sc_baud_rate = baud, sc_data_bits = data, sc_stop_bits = stop,
                        sc_parity = parity, sc_flow_control = flow, sc_local_echo = echo,
                        sc_line_mode = line, sc_backspace = back\<rparr>
               in (case validate_serial_config c of Inl _ \<Rightarrow> None | Inr _ \<Rightarrow> Some c))
      | _ \<Rightarrow> None)"

definition serial_of_json :: "json \<Rightarrow> serial_config option" where
  "serial_of_json v = (case v of
     JObject m \<Rightarrow>
       if list_all (\<lambda>(k, _). k \<in> set serial_keys) m
       then serial_wire (\<lambda>i. bt_get m (serial_keys ! i)) else None
   | JArray vs \<Rightarrow>
       if length vs \<le> length serial_keys
       then serial_wire (\<lambda>i. if i < length vs then Some (vs ! i) else None) else None
   | _ \<Rightarrow> None)"

definition serial_to_json :: "serial_config \<Rightarrow> json" where
  "serial_to_json c =
     JObject (fold (\<lambda>(k, v). bt_insert k v)
       ([(lit ''path'', JString (sc_path c)),
         (lit ''baudRate'', JNumber (Integer (int (sc_baud_rate c)))),
         (lit ''dataBits'', JNumber (Integer (int (data_bits_get (sc_data_bits c))))),
         (lit ''stopBits'', stop_bits_json (sc_stop_bits c)),
         (lit ''parity'', JString (parity_name (sc_parity c))),
         (lit ''flowControl'', JString (flow_name (sc_flow_control c))),
         (lit ''localEcho'', JBool (sc_local_echo c)),
         (lit ''lineMode'', JBool (sc_line_mode c))] @
        (case sc_backspace c of
           None \<Rightarrow> []
         | Some b \<Rightarrow> [(lit ''backspaceBehavior'', JString (backspace_name b))])) [])"

definition parse_serial_config :: "json option \<Rightarrow> serial_config option checked" where
  "parse_serial_config v = (case v of
     None \<Rightarrow> Inr None
   | Some JNull \<Rightarrow> Inr None
   | Some v \<Rightarrow>
       (case serial_of_json v of
          None \<Rightarrow> Inl (InvalidSerialConfig MalformedConfig)
        | Some c \<Rightarrow> Inr (Some c)))"

definition parse_serial_backspace_behavior :: "json option \<Rightarrow> saved_backspace checked" where
  "parse_serial_backspace_behavior v = (case v of
     None \<Rightarrow> Inr BackspaceDefault
   | Some JNull \<Rightarrow> Inr BackspaceDefault
   | Some (JString s) \<Rightarrow>
       if s = lit ''default'' then Inr BackspaceDefault
       else if s = lit ''ctrl-h'' then Inr CtrlH
       else Inl (InvalidSerialConfig InvalidBackspaceBehavior)
   | Some _ \<Rightarrow> Inl (InvalidSerialConfig InvalidBackspaceBehavior))"

section \<open>Proxy configuration\<close>

record network_proxy =
  np_host :: rstr
  np_port :: nat
  np_identity_id :: "rstr option"
  np_username :: rstr
  np_has_saved_credential :: bool
  np_fields :: json_map

datatype proxy_config =
    Http network_proxy
  | Socks5 network_proxy
  | Command rstr json_map

definition network :: "bool \<Rightarrow> network_proxy \<Rightarrow> proxy_config checked" where
  "network http p =
     and_then (validate_proxy_compatibility_fields (np_fields p)) (\<lambda>_.
     and_then (normalize_proxy_hostname (np_host p)) (\<lambda>host.
     and_then (normalize_port (np_port p)) (\<lambda>port.
     and_then (case np_identity_id p of
         None \<Rightarrow> Inr ()
       | Some i \<Rightarrow> validate_opaque_id ''saved password identity ID'' i) (\<lambda>_.
     and_then (if np_identity_id p \<noteq> None then Inr ([], False)
       else and_then (normalize_proxy_username (np_username p))
         (\<lambda>u. Inr (u, np_has_saved_credential p))) (\<lambda>(username, has_saved).
     let q = \<lparr>np_host = host, np_port = port, np_identity_id = np_identity_id p, np_username = username,
              np_has_saved_credential = has_saved, np_fields = np_fields p\<rparr>
     in Inr (if http then Http q else Socks5 q))))))"

definition command_with_compatibility :: "rstr \<Rightarrow> json_map \<Rightarrow> proxy_config checked" where
  "command_with_compatibility command m =
     and_then (validate_proxy_compatibility_fields m) (\<lambda>_.
     and_then (normalize_proxy_command command) (\<lambda>c. Inr (Command c m)))"

definition validate_network_proxy :: "network_proxy \<Rightarrow> unit checked" where
  "validate_network_proxy p =
     and_then (normalize_proxy_hostname (np_host p)) (\<lambda>host.
     and_then (validate_canonical ''host'' (np_host p) host) (\<lambda>_.
     if np_port p = 0 then Inl InvalidPort
     else and_then (case np_identity_id p of
         Some i \<Rightarrow>
           and_then (validate_opaque_id ''saved password identity ID'' i) (\<lambda>_.
           if np_username p \<noteq> [] \<or> np_has_saved_credential p
           then Inl (NonCanonicalField ''proxyConfig'') else Inr ())
       | None \<Rightarrow>
           and_then (normalize_proxy_username (np_username p)) (\<lambda>u.
           validate_canonical ''username'' (np_username p) u)) (\<lambda>_.
     validate_proxy_compatibility_fields (np_fields p))))"

definition validate_proxy_config :: "proxy_config \<Rightarrow> unit checked" where
  "validate_proxy_config c = (case c of
     Http p \<Rightarrow> validate_network_proxy p
   | Socks5 p \<Rightarrow> validate_network_proxy p
   | Command command m \<Rightarrow>
       and_then (normalize_proxy_command command) (\<lambda>canonical.
       and_then (validate_canonical ''command'' command canonical) (\<lambda>_.
       validate_proxy_compatibility_fields m)))"

definition proxy_identity_id :: "proxy_config \<Rightarrow> rstr option" where
  "proxy_identity_id c = (case c of
     Http p \<Rightarrow> np_identity_id p | Socks5 p \<Rightarrow> np_identity_id p | Command _ _ \<Rightarrow> None)"

definition proxy_fields :: "proxy_config \<Rightarrow> json_map" where
  "proxy_fields c = (case c of Http p \<Rightarrow> np_fields p | Socks5 p \<Rightarrow> np_fields p | Command _ m \<Rightarrow> m)"

definition with_saved_credential_hint :: "bool \<Rightarrow> proxy_config \<Rightarrow> proxy_config checked" where
  "with_saved_credential_hint b c = (case c of
     Http p \<Rightarrow> if np_identity_id p = None then Inr (Http (p\<lparr>np_has_saved_credential := b\<rparr>))
               else Inl InvalidProxyConfig
   | Socks5 p \<Rightarrow> if np_identity_id p = None then Inr (Socks5 (p\<lparr>np_has_saved_credential := b\<rparr>))
                 else Inl InvalidProxyConfig
   | Command _ _ \<Rightarrow> Inl InvalidProxyConfig)"

definition inline_proxy_has_saved_manual_credential :: "proxy_config \<Rightarrow> bool" where
  "inline_proxy_has_saved_manual_credential c = (case c of
     Http p \<Rightarrow> np_identity_id p = None \<and> np_has_saved_credential p
   | Socks5 p \<Rightarrow> np_identity_id p = None \<and> np_has_saved_credential p
   | Command _ _ \<Rightarrow> False)"

definition network_keys :: "rstr list" where
  "network_keys = map lit [''type'', ''host'', ''port'', ''identityId'', ''username'', ''hasSavedCredential'']"

definition command_keys :: "rstr list" where
  "command_keys = map lit [''type'', ''command'']"

definition without_keys :: "rstr list \<Rightarrow> json_map \<Rightarrow> json_map" where
  "without_keys ks m = filter (\<lambda>(k, _). k \<notin> set ks) m"

text \<open>The wire enum, tagged by the member \<^verbatim>\<open>type\<close>; the members without a field of their own are flattened.\<close>

definition network_wire :: "json_map \<Rightarrow> network_proxy option" where
  "network_wire m =
     (case (Option.bind (bt_get m (lit ''host'')) json_string,
            Option.bind (bt_get m (lit ''port'')) json_u32,
            or_default None (optional_json json_string) (bt_get m (lit ''identityId'')),
            or_default [] json_string (bt_get m (lit ''username'')),
            or_default False json_bool (bt_get m (lit ''hasSavedCredential''))) of
        (Some host, Some port, Some identity_id, Some username, Some has_saved) \<Rightarrow>
          Some \<lparr>np_host = host, np_port = port, np_identity_id = identity_id, np_username = username,
                np_has_saved_credential = has_saved, np_fields = without_keys network_keys m\<rparr>
      | _ \<Rightarrow> None)"

definition ok :: "'e + 'a \<Rightarrow> 'a option" where
  "ok r = (case r of Inl _ \<Rightarrow> None | Inr x \<Rightarrow> Some x)"

lemma ok_Some [simp]: "ok r = Some x \<longleftrightarrow> r = Inr x"
  by (cases r) (simp_all add: ok_def)

lemma ok_Inr [simp]: "ok (Inr x) = Some x"
  by simp

definition proxy_of_json :: "json \<Rightarrow> proxy_config option" where
  "proxy_of_json v = (case v of
     JObject m \<Rightarrow>
       (case Option.bind (bt_get m (lit ''type'')) json_string of
          None \<Rightarrow> None
        | Some t \<Rightarrow>
            if t = lit ''http'' \<or> t = lit ''socks5'' then
              Option.bind (network_wire m) (\<lambda>p. ok (network (t = lit ''http'') p))
            else if t = lit ''command'' then
              Option.bind (Option.bind (bt_get m (lit ''command'')) json_string)
                (\<lambda>c. ok (command_with_compatibility c (without_keys command_keys m)))
            else None)
   | _ \<Rightarrow> None)"

definition put_all :: "json_map \<Rightarrow> json_map \<Rightarrow> json_map" where
  "put_all entries m = fold (\<lambda>(k, v). bt_insert k v) entries m"

definition network_to_json :: "string \<Rightarrow> network_proxy \<Rightarrow> json" where
  "network_to_json tag p =
     JObject (put_all (np_fields p) (put_all
       ([(lit ''type'', JString (lit tag)), (lit ''host'', JString (np_host p)),
         (lit ''port'', JNumber (Integer (int (np_port p))))] @
        (case np_identity_id p of None \<Rightarrow> [] | Some i \<Rightarrow> [(lit ''identityId'', JString i)]) @
        [(lit ''username'', JString (np_username p)),
         (lit ''hasSavedCredential'', JBool (np_has_saved_credential p))]) []))"

definition proxy_to_json :: "proxy_config \<Rightarrow> json" where
  "proxy_to_json c = (case c of
     Http p \<Rightarrow> network_to_json ''http'' p
   | Socks5 p \<Rightarrow> network_to_json ''socks5'' p
   | Command command m \<Rightarrow>
       JObject (put_all m (put_all [(lit ''type'', JString (lit ''command'')), (lit ''command'', JString command)] [])))"

definition parse_proxy_config :: "json option \<Rightarrow> proxy_config option checked" where
  "parse_proxy_config v = (case v of
     None \<Rightarrow> Inr None
   | Some JNull \<Rightarrow> Inr None
   | Some v \<Rightarrow>
       (case proxy_of_json v of None \<Rightarrow> Inl InvalidProxyConfig | Some c \<Rightarrow> Inr (Some c)))"

definition parse_proxy_profile_id :: "json option \<Rightarrow> rstr option checked" where
  "parse_proxy_profile_id v = (case v of
     None \<Rightarrow> Inr None
   | Some JNull \<Rightarrow> Inr None
   | Some (JString s) \<Rightarrow>
       if s = [] then Inr None
       else and_then (validate_opaque_id ''saved proxy profile ID'' s) (\<lambda>_. Inr (Some s))
   | Some _ \<Rightarrow> Inl (InvalidOpaqueId ''saved proxy profile ID''))"

definition parse_group_path :: "json option \<Rightarrow> rstr option checked" where
  "parse_group_path v = (case v of
     None \<Rightarrow> Inr None
   | Some JNull \<Rightarrow> Inr None
   | Some (JString p) \<Rightarrow>
       if list_all (\<lambda>s. s = []) (split_path p) then Inr None
       else (case normalize_group_path p of
               Inl _ \<Rightarrow> Inl InvalidGroupPath
             | Inr p \<Rightarrow> Inr (Some p))
   | Some _ \<Rightarrow> Inl InvalidGroupPath)"

definition validate_compatibility_fields :: "json_map \<Rightarrow> unit checked" where
  "validate_compatibility_fields m =
     first_error (map (\<lambda>(k, v).
       if k = lit ''proxyConfig'' then
         (if v = JNull then Inr ()
          else validate_compatibility_value v 1 never_reserved_compatibility_key)
       else if k = lit ''group'' then and_then (parse_group_path (Some v)) (\<lambda>_. Inr ())
       else validate_compatibility_entry k v 0 is_reserved_compatibility_key
              never_reserved_compatibility_key) m)"

section \<open>Round trips\<close>

lemma keys_within: "list_all (\<lambda>(k, _). k \<in> K) m \<longleftrightarrow> fst ` set m \<subseteq> K"
  by (auto simp: list_all_iff)

lemma bt_get_put_all:
  "bt_wf es \<Longrightarrow> bt_get (put_all es m) k = (case bt_get es k of None \<Rightarrow> bt_get m k | Some v \<Rightarrow> Some v)"
proof (induction es arbitrary: m)
  case (Cons e es)
  obtain k' v' where e: "e = (k', v')" by force
  have es: "bt_wf es" and absent: "bt_get es k' = None"
    using Cons.prems bt_head_absent [of k' v' es] by (simp_all add: e bt_wf_Cons)
  have "bt_get (put_all (e # es) m) k = bt_get (put_all es (bt_insert k' v' m)) k"
    by (simp add: put_all_def e)
  then show ?case using Cons.IH [OF es] absent by (auto simp: e split: option.split)
qed (simp add: put_all_def)

lemma bt_wf_put_all [simp]: "bt_wf m \<Longrightarrow> bt_wf (put_all es m)"
  unfolding put_all_def by (induction es arbitrary: m) auto

lemma bt_get_without [simp]: "bt_get (without_keys ks m) k = (if k \<in> set ks then None else bt_get m k)"
  by (induction m) (auto simp: without_keys_def)

lemma bt_wf_without [simp]: "bt_wf m \<Longrightarrow> bt_wf (without_keys ks m)"
  by (simp add: without_keys_def)

lemma parity_roundtrip: "parity_of_json (JString (parity_name p)) = Some p"
  by (cases p) (simp_all add: parity_of_json_def variant_named_def json_unit_variant_def)

lemma flow_roundtrip: "flow_of_json (JString (flow_name f)) = Some f"
  by (cases f) (simp_all add: flow_of_json_def variant_named_def json_unit_variant_def)

lemma backspace_roundtrip: "backspace_of_json (JString (backspace_name b)) = Some b"
  by (cases b) (simp_all add: backspace_of_json_def variant_named_def json_unit_variant_def)

lemma saved_data_bits_roundtrip:
  "Option.bind (json_u8 (JNumber (Integer (int (data_bits_get d))))) data_bits_from_u8 = Some d"
  by (cases d) (simp_all add: json_u8_def data_bits_from_u8_def)

lemma stop_bits_roundtrip: "Option.bind (json_f64 (stop_bits_json s)) stop_bits_from_f64 = Some s"
  by (cases s) (simp_all add: json_f64_def stop_bits_from_f64_def)

lemma keys_insert [simp]:
  "list_all (\<lambda>(k, _). k \<in> K) (bt_insert k v m) \<longleftrightarrow> k \<in> K \<and> list_all (\<lambda>(k, _). k \<in> K) m"
  unfolding keys_within by simp

lemma serial_keys_member:
  "lit ''path'' \<in> set serial_keys" "lit ''baudRate'' \<in> set serial_keys" "lit ''dataBits'' \<in> set serial_keys"
  "lit ''stopBits'' \<in> set serial_keys" "lit ''parity'' \<in> set serial_keys" "lit ''flowControl'' \<in> set serial_keys"
  "lit ''localEcho'' \<in> set serial_keys" "lit ''lineMode'' \<in> set serial_keys"
  "lit ''backspaceBehavior'' \<in> set serial_keys"
  by (simp_all add: serial_keys_def)

lemma serial_keys_nth [simp]:
  "serial_keys ! 0 = lit ''path''" "serial_keys ! Suc 0 = lit ''baudRate''" "serial_keys ! 2 = lit ''dataBits''"
  "serial_keys ! 3 = lit ''stopBits''" "serial_keys ! 4 = lit ''parity''" "serial_keys ! 5 = lit ''flowControl''"
  "serial_keys ! 6 = lit ''localEcho''" "serial_keys ! 7 = lit ''lineMode''"
  "serial_keys ! 8 = lit ''backspaceBehavior''"
  by (simp_all add: serial_keys_def)

lemma serial_wire_roundtrip:
  assumes "validate_serial_config c = Inr ()" and "sc_baud_rate c < 2 ^ 32"
  shows "serial_of_json (serial_to_json c) = Some c"
proof -
  have "normalize_serial_path (sc_path c) = Inr (sc_path c)"
    using assms(1) by (auto simp: validate_serial_config_def and_then_Inr split: if_splits)
  with assms show ?thesis
    by (cases c; cases "sc_backspace c")
      (simp_all add: serial_of_json_def serial_to_json_def serial_keys_member serial_wire_def
        or_default_def optional_json_def json_string_def json_u32_def json_bool_def parity_roundtrip
        flow_roundtrip backspace_roundtrip saved_data_bits_roundtrip stop_bits_roundtrip Let_def)
qed

text \<open>The fixed members are reserved: no valid compatibility field has their name.\<close>

lemma first_error_Inr: "first_error rs = Inr () \<longleftrightarrow> list_all (\<lambda>r. r = Inr ()) rs"
  by (induction rs rule: first_error.induct) simp_all

lemma reserved_keys:
  "list_all is_reserved_proxy_config_field network_keys" "list_all is_reserved_proxy_config_field command_keys"
  by (simp_all add: network_keys_def command_keys_def is_reserved_proxy_config_field_def
      normalize_compatibility_key_def is_ascii_alphanumeric_def is_ascii_alphabetic_def
      is_ascii_digit_def ascii_lower_def lit_def of_char_def)

lemma valid_fields_unreserved:
  assumes "validate_proxy_compatibility_fields m = Inr ()" and "is_reserved_proxy_config_field k"
  shows "bt_get m k = None"
proof (rule ccontr)
  assume "bt_get m k \<noteq> None"
  then obtain v where "(k, v) \<in> set m" by (auto dest: map_of_SomeD)
  then have "validate_compatibility_entry k v 0 is_reserved_proxy_config_field is_reserved_proxy_config_field = Inr ()"
    using assms(1)
    by (auto simp: validate_proxy_compatibility_fields_def validate_compatibility_fields_with_def
        first_error_Inr list_all_iff)
  with assms(2) show False
    by (auto simp: validate_compatibility_entry_def guard_entry_def bad_key_def and_then_Inr split: if_splits)
qed

lemma fixed_keys_absent:
  assumes "validate_proxy_compatibility_fields m = Inr ()"
  shows "k \<in> set network_keys \<union> set command_keys \<Longrightarrow> bt_get m k = None"
  using valid_fields_unreserved [OF assms] reserved_keys by (auto simp: list_all_iff)

lemma without_put_all:
  assumes "validate_proxy_compatibility_fields m = Inr ()" and "bt_wf m" and "bt_wf base"
    and "\<And>k. k \<notin> set ks \<Longrightarrow> bt_get base k = None" and "set ks \<subseteq> set network_keys \<union> set command_keys"
  shows "without_keys ks (put_all m base) = m"
proof (rule bt_eqI)
  show "\<forall>k. bt_get (without_keys ks (put_all m base)) k = bt_get m k"
    using assms(2,4,5) fixed_keys_absent [OF assms(1)]
    by (auto simp: bt_get_put_all split: option.split)
qed (use assms in simp_all)

lemma network_fixed:
  assumes "validate_network_proxy p = Inr ()" and "np_port p \<le> 65535"
  shows "network http p = Inr (if http then Http p else Socks5 p)"
    "validate_proxy_compatibility_fields (np_fields p) = Inr ()"
proof -
  have host: "normalize_proxy_hostname (np_host p) = Inr (np_host p)" and port: "np_port p \<noteq> 0"
    and fields: "validate_proxy_compatibility_fields (np_fields p) = Inr ()"
    using assms(1)
    by (auto simp: validate_network_proxy_def and_then_Inr validate_canonical_def split: if_splits)
  show "validate_proxy_compatibility_fields (np_fields p) = Inr ()" by (rule fields)
  show "network http p = Inr (if http then Http p else Socks5 p)"
  proof (cases "np_identity_id p")
    case None
    with assms(1) have "normalize_proxy_username (np_username p) = Inr (np_username p)"
      by (auto simp: validate_network_proxy_def and_then_Inr validate_canonical_def split: if_splits)
    with None host port fields assms(2) show ?thesis
      by (cases p) (simp add: network_def normalize_port_def Let_def)
  next
    case (Some i)
    with assms(1) have "validate_opaque_id ''saved password identity ID'' i = Inr ()" "np_username p = []"
      "\<not> np_has_saved_credential p"
      by (auto simp: validate_network_proxy_def and_then_Inr split: if_splits)
    with Some host port fields assms(2) show ?thesis
      by (cases p) (simp add: network_def normalize_port_def Let_def)
  qed
qed

lemma network_wire_roundtrip:
  assumes ok: "validate_network_proxy p = Inr ()" and "np_port p \<le> 65535" and wf: "bt_wf (np_fields p)"
  shows "proxy_of_json (network_to_json ''http'' p) = Some (Http p)"
    "proxy_of_json (network_to_json ''socks5'' p) = Some (Socks5 p)"
proof -
  have fields: "validate_proxy_compatibility_fields (np_fields p) = Inr ()"
    using network_fixed(2) [OF assms(1,2)] .
  have absent: "bt_get (np_fields p) (lit k) = None" if "lit k \<in> set network_keys" for k
    using fixed_keys_absent [OF fields] that by blast
  have keys: "lit ''type'' \<in> set network_keys" "lit ''host'' \<in> set network_keys" "lit ''port'' \<in> set network_keys"
    "lit ''identityId'' \<in> set network_keys" "lit ''username'' \<in> set network_keys"
    "lit ''hasSavedCredential'' \<in> set network_keys"
    by (simp_all add: network_keys_def)
  have wire: "\<exists>m. network_to_json tag p = JObject m \<and> network_wire m = Some p \<and>
      bt_get m (lit ''type'') = Some (JString (lit tag))" for tag
  proof -
    define base where "base = put_all
       ([(lit ''type'', JString (lit tag)), (lit ''host'', JString (np_host p)),
         (lit ''port'', JNumber (Integer (int (np_port p))))] @
        (case np_identity_id p of None \<Rightarrow> [] | Some i \<Rightarrow> [(lit ''identityId'', JString i)]) @
        [(lit ''username'', JString (np_username p)),
         (lit ''hasSavedCredential'', JBool (np_has_saved_credential p))]) []"
    have b: "bt_wf base" by (simp add: base_def)
    have only: "bt_get base k = None" if "k \<notin> set network_keys" for k
      using that by (auto simp: base_def put_all_def network_keys_def split: option.split)
    have w: "without_keys network_keys (put_all (np_fields p) base) = np_fields p"
      using fields wf b only by (intro without_put_all) auto
    have get: "bt_get (put_all (np_fields p) base) (lit k) = bt_get base (lit k)" if "lit k \<in> set network_keys" for k
      using absent [OF that] wf by (simp add: bt_get_put_all)
    have lookups: "bt_get base (lit ''host'') = Some (JString (np_host p))"
      "bt_get base (lit ''port'') = Some (JNumber (Integer (int (np_port p))))"
      "bt_get base (lit ''identityId'') = map_option JString (np_identity_id p)"
      "bt_get base (lit ''username'') = Some (JString (np_username p))"
      "bt_get base (lit ''hasSavedCredential'') = Some (JBool (np_has_saved_credential p))"
      "bt_get base (lit ''type'') = Some (JString (lit tag))"
      by (cases "np_identity_id p"; simp add: base_def put_all_def)+
    have "network_wire (put_all (np_fields p) base) = Some p"
      using assms(2)
      by (cases "np_identity_id p")
        (simp_all add: network_wire_def get keys lookups w json_string_def json_u32_def json_bool_def
          or_default_def optional_json_def)
    moreover have "bt_get (put_all (np_fields p) base) (lit ''type'') = Some (JString (lit tag))"
      by (simp add: get keys lookups)
    ultimately show ?thesis by (auto simp: network_to_json_def base_def)
  qed
  obtain m where "network_to_json ''http'' p = JObject m" "network_wire m = Some p"
    "bt_get m (lit ''type'') = Some (JString (lit ''http''))" using wire by blast
  then show "proxy_of_json (network_to_json ''http'' p) = Some (Http p)"
    using network_fixed(1) [OF assms(1,2), of True] by (simp add: proxy_of_json_def json_string_def Let_def)
  obtain m where "network_to_json ''socks5'' p = JObject m" "network_wire m = Some p"
    "bt_get m (lit ''type'') = Some (JString (lit ''socks5''))" using wire by blast
  then show "proxy_of_json (network_to_json ''socks5'' p) = Some (Socks5 p)"
    using network_fixed(1) [OF assms(1,2), of False] by (simp add: proxy_of_json_def json_string_def Let_def)
qed

lemma command_wire_roundtrip:
  assumes "validate_proxy_config (Command c m) = Inr ()" and wf: "bt_wf m"
  shows "proxy_of_json (proxy_to_json (Command c m)) = Some (Command c m)"
proof -
  have c: "normalize_proxy_command c = Inr c" and fields: "validate_proxy_compatibility_fields m = Inr ()"
    using assms(1) by (auto simp: validate_proxy_config_def and_then_Inr validate_canonical_def split: if_splits)
  define base where "base = put_all [(lit ''type'', JString (lit ''command'')), (lit ''command'', JString c)] []"
  have absent: "bt_get m (lit k) = None" if "lit k \<in> set command_keys" for k
    using fixed_keys_absent [OF fields] that by blast
  have keys: "lit ''type'' \<in> set command_keys" "lit ''command'' \<in> set command_keys"
    by (simp_all add: command_keys_def)
  have w: "without_keys command_keys (put_all m base) = m"
    using fields wf by (intro without_put_all) (auto simp: base_def, auto simp: put_all_def command_keys_def)
  have get: "bt_get (put_all m base) (lit k) = bt_get base (lit k)" if "lit k \<in> set command_keys" for k
    using absent [OF that] wf by (simp add: bt_get_put_all)
  have lookups: "bt_get base (lit ''type'') = Some (JString (lit ''command''))"
    "bt_get base (lit ''command'') = Some (JString c)"
    by (simp_all add: base_def put_all_def)
  have "proxy_of_json (JObject (put_all m base)) = Some (Command c m)"
    by (simp add: proxy_of_json_def get keys w lookups json_string_def command_with_compatibility_def
        fields c Let_def)
  then show ?thesis by (simp add: proxy_to_json_def base_def)
qed

definition proxy_port_fits :: "proxy_config \<Rightarrow> bool" where
  "proxy_port_fits c = (case c of Http p \<Rightarrow> np_port p \<le> 65535 | Socks5 p \<Rightarrow> np_port p \<le> 65535 | _ \<Rightarrow> True)"

lemma proxy_json_roundtrip:
  assumes "validate_proxy_config c = Inr ()" and "proxy_port_fits c" and "bt_wf (proxy_fields c)"
  shows "parse_proxy_config (Some (proxy_to_json c)) = Inr (Some c)"
proof -
  have "proxy_of_json (proxy_to_json c) = Some c"
  proof (cases c)
    case (Command command m)
    with assms show ?thesis by (simp add: command_wire_roundtrip proxy_fields_def)
  qed (use assms in \<open>simp_all add: network_wire_roundtrip proxy_to_json_def
      validate_proxy_config_def proxy_port_fits_def proxy_fields_def\<close>)
  moreover have "proxy_to_json c \<noteq> JNull"
    by (cases c) (simp_all add: proxy_to_json_def network_to_json_def)
  ultimately show ?thesis
    by (auto simp: parse_proxy_config_def split: json.split)
qed

section \<open>Whatever is read is valid\<close>

lemma serial_path_idem: "normalize_serial_path s = Inr t \<Longrightarrow> normalize_serial_path t = Inr t"
  by (auto simp: normalize_serial_path_def Let_def list_ex_trim split: if_splits)

lemma json_u32_bound: "json_u32 v = Some n \<Longrightarrow> n < 2 ^ 32"
  by (auto simp: json_u32_def split: json.splits json_number.splits if_splits)

lemma serial_read_valid:
  assumes "serial_of_json v = Some c"
  shows "validate_serial_config c = Inr ()" "sc_baud_rate c < 2 ^ 32"
proof -
  obtain g where g: "serial_wire g = Some c"
    using assms by (auto simp: serial_of_json_def split: json.splits if_splits)
  then show "validate_serial_config c = Inr ()"
    by (auto simp: serial_wire_def Let_def split: option.splits sum.splits)
  obtain n where "Option.bind (g 1) json_u32 = Some n" "sc_baud_rate c = n"
    using g by (auto simp: serial_wire_def Let_def split: option.splits sum.splits)
  then show "sc_baud_rate c < 2 ^ 32"
    by (auto simp: bind_eq_Some_conv dest: json_u32_bound)
qed

lemma network_valid:
  assumes "network http p = Inr c"
  shows "validate_proxy_config c = Inr ()" "proxy_port_fits c" "proxy_fields c = np_fields p"
proof -
  obtain host port username has_saved where
    fields: "validate_proxy_compatibility_fields (np_fields p) = Inr ()"
    and host: "normalize_proxy_hostname (np_host p) = Inr host" and port: "normalize_port (np_port p) = Inr port"
    and id: "(case np_identity_id p of None \<Rightarrow> Inr ()
       | Some i \<Rightarrow> validate_opaque_id ''saved password identity ID'' i) = Inr ()"
    and user: "(if np_identity_id p \<noteq> None then Inr ([], False)
       else and_then (normalize_proxy_username (np_username p))
         (\<lambda>u. Inr (u, np_has_saved_credential p))) = Inr (username, has_saved)"
    and c: "c = (if http then Http else Socks5) \<lparr>np_host = host, np_port = port,
       np_identity_id = np_identity_id p, np_username = username, np_has_saved_credential = has_saved,
       np_fields = np_fields p\<rparr>"
    using assms by (auto simp: network_def and_then_Inr Let_def split: prod.splits)
  have host': "normalize_proxy_hostname host = Inr host"
    using host by (auto simp: normalize_proxy_hostname_def intro: normalize_text_idem)
  have port': "port \<noteq> 0" "port \<le> 65535"
    using port by (auto simp: normalize_port_def split: if_splits)
  have user': "np_identity_id p = None \<Longrightarrow> normalize_proxy_username username = Inr username"
    "np_identity_id p \<noteq> None \<Longrightarrow> username = [] \<and> \<not> has_saved"
    using user by (auto simp: normalize_proxy_username_def and_then_Inr intro: normalize_text_idem)
  have "validate_network_proxy \<lparr>np_host = host, np_port = port,
       np_identity_id = np_identity_id p, np_username = username, np_has_saved_credential = has_saved,
       np_fields = np_fields p\<rparr> = Inr ()"
    using fields host' port'(1) id user'
    by (cases "np_identity_id p") (simp_all add: validate_network_proxy_def validate_canonical_def)
  then show "validate_proxy_config c = Inr ()" by (simp add: c validate_proxy_config_def)
  show "proxy_port_fits c" "proxy_fields c = np_fields p"
    using port'(2) by (simp_all add: c proxy_port_fits_def proxy_fields_def)
qed

lemma command_valid:
  assumes "command_with_compatibility s m = Inr c"
  shows "validate_proxy_config c = Inr ()" "proxy_port_fits c" "proxy_fields c = m"
  using assms normalize_proxy_command_idem
  by (auto simp: command_with_compatibility_def and_then_Inr validate_proxy_config_def
      validate_canonical_def proxy_port_fits_def proxy_fields_def)

definition json_sorted :: "json \<Rightarrow> bool" where
  "json_sorted v = (case v of JObject m \<Rightarrow> bt_wf m | _ \<Rightarrow> True)"

lemma proxy_read_valid:
  assumes "proxy_of_json v = Some c" and "json_sorted v"
  shows "validate_proxy_config c = Inr ()" "proxy_port_fits c" "bt_wf (proxy_fields c)"
proof -
  obtain m t where v: "v = JObject m" and t: "Option.bind (bt_get m (lit ''type'')) json_string = Some t"
    using assms(1) by (auto simp: proxy_of_json_def split: json.splits option.splits)
  have m: "bt_wf m" using assms(2) by (simp add: json_sorted_def v)
  consider http p where "network_wire m = Some p" "network http p = Inr c"
    | s where "command_with_compatibility s (without_keys command_keys m) = Inr c"
    using assms(1) t
    by (auto simp: proxy_of_json_def v bind_eq_Some_conv Let_def split: if_splits sum.splits)
  then have "validate_proxy_config c = Inr () \<and> proxy_port_fits c \<and> bt_wf (proxy_fields c)"
  proof cases
    case 1
    then have "np_fields p = without_keys network_keys m"
      by (auto simp: network_wire_def split: option.splits)
    then show ?thesis using network_valid [OF 1(2)] m by simp
  next
    case 2
    then show ?thesis using command_valid [OF 2] m by simp
  qed
  then show "validate_proxy_config c = Inr ()" "proxy_port_fits c" "bt_wf (proxy_fields c)" by simp_all
qed

section \<open>The properties of endpoint configurations\<close>

text \<open>C39: a valid proxy configuration survives being written to JSON and read back, with its flattened
  compatibility fields; and every configuration that is read is valid and therefore stable under
  another round trip.\<close>

theorem proxy_config_roundtrip:
  "(validate_proxy_config c = Inr () \<and> proxy_port_fits c \<and> bt_wf (proxy_fields c) \<longrightarrow>
      parse_proxy_config (Some (proxy_to_json c)) = Inr (Some c)) \<and>
   (parse_proxy_config (Some v) = Inr (Some d) \<and> json_sorted v \<longrightarrow>
      validate_proxy_config d = Inr () \<and> parse_proxy_config (Some (proxy_to_json d)) = Inr (Some d))"
proof (intro conjI impI; (elim conjE)?)
  assume "parse_proxy_config (Some v) = Inr (Some d)" and v: "json_sorted v"
  then have "proxy_of_json v = Some d"
    by (auto simp: parse_proxy_config_def split: json.splits option.splits)
  note d = proxy_read_valid [OF this v]
  show "validate_proxy_config d = Inr ()" by (rule d)
  show "parse_proxy_config (Some (proxy_to_json d)) = Inr (Some d)"
    using d by (rule proxy_json_roundtrip)
qed (rule proxy_json_roundtrip)

definition sample_proxy :: proxy_config where
  "sample_proxy = Socks5 \<lparr>np_host = lit ''proxy'', np_port = 1080, np_identity_id = None,
     np_username = lit ''ops'', np_has_saved_credential = True, np_fields = []\<rparr>"

theorem proxy_config_roundtrip_witness:
  "parse_proxy_config (Some (proxy_to_json sample_proxy)) = Inr (Some sample_proxy)"
proof -
  have "validate_proxy_config sample_proxy = Inr () \<and> proxy_port_fits sample_proxy \<and> bt_wf (proxy_fields sample_proxy)"
    by (simp add: sample_proxy_def validate_proxy_config_def validate_network_proxy_def
        normalize_proxy_hostname_def normalize_proxy_username_def normalize_text_def Let_def trim_def
        trim_end_def is_whitespace_def is_control_def str_len_ascii MAX_HOSTNAME_BYTES_def
        MAX_PROXY_USERNAME_BYTES_def validate_canonical_def validate_proxy_compatibility_fields_def
        validate_compatibility_fields_with_def proxy_port_fits_def proxy_fields_def lit_def of_char_def)
  then show ?thesis using proxy_config_roundtrip by blast
qed

text \<open>a valid serial configuration survives being written to JSON and read back; and every
  configuration that is read, from an object or from a positional array, with or without its
  optional members, is valid, within the width of its baud rate, and stable.\<close>

theorem serial_config_roundtrip:
  "(validate_serial_config c = Inr () \<and> sc_baud_rate c < 2 ^ 32 \<longrightarrow>
      parse_serial_config (Some (serial_to_json c)) = Inr (Some c)) \<and>
   (parse_serial_config (Some v) = Inr (Some d) \<longrightarrow>
      validate_serial_config d = Inr () \<and> sc_baud_rate d < 2 ^ 32 \<and>
      parse_serial_config (Some (serial_to_json d)) = Inr (Some d))"
proof -
  have again: "parse_serial_config (Some (serial_to_json e)) = Inr (Some e)"
    if "validate_serial_config e = Inr ()" "sc_baud_rate e < 2 ^ 32" for e
    using serial_wire_roundtrip [OF that]
    by (simp add: parse_serial_config_def) (simp add: serial_to_json_def)
  moreover have "validate_serial_config d = Inr () \<and> sc_baud_rate d < 2 ^ 32"
    if "parse_serial_config (Some v) = Inr (Some d)"
  proof -
    have "serial_of_json v = Some d"
      using that by (auto simp: parse_serial_config_def split: json.splits option.splits)
    then show ?thesis using serial_read_valid by blast
  qed
  ultimately show ?thesis by blast
qed

definition sample_line :: json where
  "sample_line = JArray [JString (lit ''COM1''), JNumber (Integer 9600)]"

definition sample_line_config :: serial_config where
  "sample_line_config = \<lparr>sc_path = lit ''COM1'', sc_baud_rate = 9600, sc_data_bits = Eight,
     sc_stop_bits = One, sc_parity = ParityNone, sc_flow_control = FlowNone, sc_local_echo = False,
     sc_line_mode = False, sc_backspace = None\<rparr>"

theorem serial_config_roundtrip_witness:
  "parse_serial_config (Some sample_line) = Inr (Some sample_line_config) \<and>
   parse_serial_config (Some (serial_to_json sample_line_config)) = Inr (Some sample_line_config)"
proof -
  have n: "normalize_serial_path (lit ''COM1'') = Inr (lit ''COM1'')"
    by (simp add: normalize_serial_path_def Let_def trim_def trim_end_def is_whitespace_def is_control_def
        str_len_ascii MAX_SERIAL_PATH_BYTES_def lit_def of_char_def)
  have "parse_serial_config (Some sample_line) = Inr (Some sample_line_config)"
    by (simp add: sample_line_def sample_line_config_def parse_serial_config_def serial_of_json_def
        serial_wire_def serial_keys_def or_default_def json_string_def json_u32_def n
        validate_serial_config_def Let_def)
  then show ?thesis using serial_config_roundtrip by blast
qed

end
