(* ===== verification/Vault_Host.thy ===== *)
theory Vault_Host
  imports Vault_Endpoint
begin

text \<open>
  Saved hosts (\<^verbatim>\<open>crates/netcatty-vault/src/model.rs\<close>): the record, the authentication it selects, and
  the operations that create and update it.  The compatibility fields are the flattened JSON members
  of the durable record.  \<open>validate_host\<close> is the invariant that \<open>from_draft\<close> and \<open>apply_update\<close>
  establish; a fresh identifier and the clock are arguments.
\<close>

section \<open>Protocol and authentication method\<close>

definition is_ssh :: "rstr \<Rightarrow> bool" where
  "is_ssh p = eq_ignore_ascii_case p (lit ''ssh'')"

definition is_telnet :: "rstr \<Rightarrow> bool" where
  "is_telnet p = eq_ignore_ascii_case p (lit ''telnet'')"

definition is_serial :: "rstr \<Rightarrow> bool" where
  "is_serial p = eq_ignore_ascii_case p (lit ''serial'')"

definition canonical_supported :: "rstr \<Rightarrow> rstr option" where
  "canonical_supported p =
     (if is_ssh p then Some (lit ''ssh'')
      else if is_telnet p then Some (lit ''telnet'')
      else if is_serial p then Some (lit ''serial'')
      else None)"

definition default_port :: "rstr \<Rightarrow> nat" where
  "default_port p = (if is_telnet p then 23 else if is_serial p then DEFAULT_SERIAL_BAUD_RATE else 22)"

definition is_password :: "rstr \<Rightarrow> bool" where
  "is_password m = eq_ignore_ascii_case m (lit ''password'')"

definition is_key :: "rstr \<Rightarrow> bool" where
  "is_key m = eq_ignore_ascii_case m (lit ''key'')"

definition is_certificate :: "rstr \<Rightarrow> bool" where
  "is_certificate m = eq_ignore_ascii_case m (lit ''certificate'')"

definition canonical_ssh :: "rstr \<Rightarrow> rstr option" where
  "canonical_ssh m =
     (if is_password m then Some (lit ''password'')
      else if is_key m then Some (lit ''key'')
      else if is_certificate m then Some (lit ''certificate'')
      else None)"

section \<open>The record\<close>

record saved_host =
  sh_record_version :: nat
  sh_id :: rstr
  sh_revision :: nat
  sh_label :: rstr
  sh_hostname :: rstr
  sh_port :: nat
  sh_username :: rstr
  sh_protocol :: rstr
  sh_auth_method :: rstr
  sh_auth_policy_version :: nat
  sh_created_at :: nat
  sh_updated_at :: nat
  sh_fields :: json_map

record host_draft =
  hd_label :: "rstr option"
  hd_hostname :: rstr
  hd_port :: "nat option"
  hd_username :: rstr
  hd_protocol :: "rstr option"
  hd_auth_method :: "rstr option"
  hd_fields :: json_map

record host_update =
  hu_label :: "rstr option"
  hu_hostname :: "rstr option"
  hu_port :: "nat option"
  hu_username :: "rstr option"
  hu_protocol :: "rstr option"
  hu_auth_method :: "rstr option"
  hu_fields :: json_map

definition RECORD_VERSION :: nat where "RECORD_VERSION = 1"
definition AUTH_POLICY_VERSION :: nat where "AUTH_POLICY_VERSION = 1"

definition serial_config :: "saved_host \<Rightarrow> serial_config option checked" where
  "serial_config h =
     (if \<not> is_serial (sh_protocol h) then Inr None
      else parse_serial_config (bt_get (sh_fields h) (lit ''serialConfig'')))"

definition effective_serial_config :: "saved_host \<Rightarrow> serial_config checked" where
  "effective_serial_config h =
     (if \<not> is_serial (sh_protocol h) then Inl UnsupportedProtocol
      else
        and_then (serial_config h) (\<lambda>c.
        and_then (case c of
            Some c \<Rightarrow> Inr c
          | None \<Rightarrow>
              (case new_serial_config (sh_hostname h) (sh_port h) of
                 Inl e \<Rightarrow> Inl (InvalidSerialConfig e)
               | Inr c \<Rightarrow> Inr c)) (\<lambda>c.
        if sc_backspace c = None then
          and_then (parse_serial_backspace_behavior (bt_get (sh_fields h) (lit ''backspaceBehavior'')))
            (\<lambda>b. Inr (c\<lparr>sc_backspace := Some b\<rparr>))
        else Inr c)))"

definition network_port :: "saved_host \<Rightarrow> nat checked" where
  "network_port h =
     (if \<not> is_ssh (sh_protocol h) \<and> \<not> is_telnet (sh_protocol h) then Inl UnsupportedProtocol
      else normalize_port (sh_port h))"

definition host_proxy_config :: "saved_host \<Rightarrow> proxy_config option checked" where
  "host_proxy_config h =
     (if is_telnet (sh_protocol h) \<or> is_serial (sh_protocol h) then Inr None
      else parse_proxy_config (bt_get (sh_fields h) (lit ''proxyConfig'')))"

definition host_proxy_profile_id :: "saved_host \<Rightarrow> rstr option checked" where
  "host_proxy_profile_id h =
     (if is_telnet (sh_protocol h) \<or> is_serial (sh_protocol h) then Inr None
      else parse_proxy_profile_id (bt_get (sh_fields h) (lit ''proxyProfileId'')))"

definition host_group_path :: "saved_host \<Rightarrow> rstr option checked" where
  "host_group_path h = parse_group_path (bt_get (sh_fields h) (lit ''group''))"

definition normalize_host_endpoint :: "rstr \<Rightarrow> rstr \<Rightarrow> rstr checked" where
  "normalize_host_endpoint protocol s =
     (if is_serial protocol then
        (case normalize_serial_path s of
           Inl e \<Rightarrow> Inl (InvalidSerialConfig e)
         | Inr t \<Rightarrow> Inr t)
      else normalize_hostname s)"

definition normalize_host_port :: "rstr \<Rightarrow> nat \<Rightarrow> nat checked" where
  "normalize_host_port protocol n =
     (if n = 0 \<or> (is_ssh protocol \<or> is_telnet protocol) \<and> 65535 < n then Inl InvalidPort else Inr n)"

definition validate_serial_mirror :: "saved_host \<Rightarrow> unit checked" where
  "validate_serial_mirror h =
     (if \<not> is_serial (sh_protocol h) then Inr ()
      else
        and_then (serial_config h) (\<lambda>config.
        if (case config of
              Some c \<Rightarrow> sc_path c \<noteq> sh_hostname h \<or> sc_baud_rate c \<noteq> sh_port h
            | None \<Rightarrow> False)
        then Inl (InvalidSerialConfig EndpointMismatch)
        else if (case config of None \<Rightarrow> True | Some c \<Rightarrow> sc_backspace c = None) then
          and_then (parse_serial_backspace_behavior (bt_get (sh_fields h) (lit ''backspaceBehavior'')))
            (\<lambda>_. Inr ())
        else Inr ()))"

definition validate_host :: "saved_host \<Rightarrow> unit checked" where
  "validate_host h =
     and_then (validate_id (sh_id h)) (\<lambda>_.
     if sh_revision h = 0 then Inl InvalidRevision
     else and_then (normalize_label (sh_label h)) (\<lambda>label.
     and_then (validate_canonical ''label'' (sh_label h) label) (\<lambda>_.
     and_then (normalize_host_endpoint (sh_protocol h) (sh_hostname h)) (\<lambda>hostname.
     and_then (validate_canonical ''hostname'' (sh_hostname h) hostname) (\<lambda>_.
     and_then (normalize_username (sh_username h)) (\<lambda>username.
     and_then (validate_canonical ''username'' (sh_username h) username) (\<lambda>_.
     and_then (normalize_host_port (sh_protocol h) (sh_port h)) (\<lambda>_.
     and_then (validate_token ''protocol'' (sh_protocol h)) (\<lambda>_.
     and_then (validate_token ''authMethod'' (sh_auth_method h)) (\<lambda>_.
     if sh_updated_at h < sh_created_at h then Inl InvalidTimestamps
     else and_then (validate_compatibility_fields (sh_fields h)) (\<lambda>_.
     validate_serial_mirror h)))))))))))"

definition with_projected_compatibility_fields :: "json_map \<Rightarrow> saved_host \<Rightarrow> saved_host checked" where
  "with_projected_compatibility_fields m h =
     and_then (validate_compatibility_fields m) (\<lambda>_.
     let projected = h\<lparr>sh_fields := m\<rparr>
     in and_then (validate_host projected) (\<lambda>_. Inr projected))"

section \<open>Authentication\<close>

datatype host_authentication =
    DirectPassword bool
  | PasswordIdentity rstr bool
  | ManagedPrivateKey rstr
  | ManagedCertificate rstr

definition HOST_AUTH_COMPATIBILITY_FIELDS :: "rstr list" where
  "HOST_AUTH_COMPATIBILITY_FIELDS = map lit [''identityId'', ''identityFileId'', ''identityFilePaths'',
     ''hasSavedCredential'', ''savePassword'', ''hasPassword'', ''hasPrivateKey'', ''hasPassphrase'']"

definition saved_host_auth_method :: "host_authentication \<Rightarrow> rstr" where
  "saved_host_auth_method a = (case a of
     DirectPassword _ \<Rightarrow> lit ''password''
   | PasswordIdentity _ _ \<Rightarrow> lit ''password''
   | ManagedPrivateKey _ \<Rightarrow> lit ''key''
   | ManagedCertificate _ \<Rightarrow> lit ''certificate'')"

definition clear_host_authentication_fields :: "bool \<Rightarrow> json_map \<Rightarrow> json_map" where
  "clear_host_authentication_fields tombstone m =
     fold (\<lambda>k m. if tombstone then bt_insert k JNull m else bt_remove k m) HOST_AUTH_COMPATIBILITY_FIELDS m"

definition replace_host_authentication_fields :: "host_authentication \<Rightarrow> bool \<Rightarrow> json_map \<Rightarrow> json_map" where
  "replace_host_authentication_fields a tombstone m =
     (let m = clear_host_authentication_fields tombstone m
      in case a of
           DirectPassword has_saved \<Rightarrow>
             if has_saved then bt_insert (lit ''hasSavedCredential'') (JBool True) m else m
         | PasswordIdentity identity_id has_saved \<Rightarrow>
             let m = bt_insert (lit ''identityId'') (JString identity_id) m
             in if has_saved then bt_insert (lit ''hasSavedCredential'') (JBool True) m else m
         | ManagedPrivateKey key_id \<Rightarrow> bt_insert (lit ''identityFileId'') (JString key_id) m
         | ManagedCertificate key_id \<Rightarrow> bt_insert (lit ''identityFileId'') (JString key_id) m)"

definition host_opaque_reference :: "json_map \<Rightarrow> string \<Rightarrow> string \<Rightarrow> rstr option checked" where
  "host_opaque_reference m key field = (case bt_get m (lit key) of
     None \<Rightarrow> Inr None
   | Some JNull \<Rightarrow> Inr None
   | Some (JString s) \<Rightarrow>
       if s = [] then Inr None
       else and_then (validate_opaque_id field s) (\<lambda>_. Inr (Some s))
   | Some _ \<Rightarrow> Inl (InvalidAuthenticationConfiguration
       ''identity references must be strings, null, or absent''))"

definition host_password_identity_id :: "json_map \<Rightarrow> rstr option checked" where
  "host_password_identity_id m = host_opaque_reference m ''identityId'' ''saved password identity ID''"

definition host_key_reference_id :: "json_map \<Rightarrow> rstr option checked" where
  "host_key_reference_id m = host_opaque_reference m ''identityFileId'' ''saved SSH key reference ID''"

definition host_saved_credential_hint :: "json_map \<Rightarrow> bool checked" where
  "host_saved_credential_hint m = (case bt_get m (lit ''hasSavedCredential'') of
     None \<Rightarrow> Inr False
   | Some JNull \<Rightarrow> Inr False
   | Some (JBool b) \<Rightarrow> Inr b
   | Some _ \<Rightarrow> Inl (InvalidAuthenticationConfiguration
       ''hasSavedCredential must be boolean, null, or absent''))"

definition host_password_hint_is_true :: "json_map \<Rightarrow> bool" where
  "host_password_hint_is_true m =
     list_ex (\<lambda>k. bt_get m (lit k) = Some (JBool True)) [''hasSavedCredential'', ''savePassword'', ''hasPassword'']"

definition check_path :: "json \<Rightarrow> unit checked" where
  "check_path v = (case v of
     JString p \<Rightarrow> and_then (normalize_file_path p) (\<lambda>_. Inr ())
   | _ \<Rightarrow> Inl (InvalidAuthenticationConfiguration ''identityFilePaths must contain only strings''))"

definition host_has_identity_file_paths :: "json_map \<Rightarrow> bool checked" where
  "host_has_identity_file_paths m = (case bt_get m (lit ''identityFilePaths'') of
     None \<Rightarrow> Inr False
   | Some JNull \<Rightarrow> Inr False
   | Some (JArray paths) \<Rightarrow> and_then (first_error (map check_path paths)) (\<lambda>_. Inr (paths \<noteq> []))
   | Some _ \<Rightarrow> Inl (InvalidAuthenticationConfiguration
       ''identityFilePaths must be an array, null, or absent''))"

definition validate_new_host_authentication :: "rstr \<Rightarrow> json_map \<Rightarrow> bool \<Rightarrow> unit checked" where
  "validate_new_host_authentication auth_method m enforce =
     and_then (host_opaque_reference m ''identityId'' ''saved identity ID'') (\<lambda>identity_id.
     and_then (host_key_reference_id m) (\<lambda>key_id.
     and_then (host_has_identity_file_paths m) (\<lambda>has_paths.
     let has_hint = host_password_hint_is_true m
     in if is_password auth_method then
          (if enforce \<and> (key_id \<noteq> None \<or> has_paths)
           then Inl (InvalidAuthenticationConfiguration
             ''password authentication cannot reference an SSH key'')
           else Inr ())
        else if is_key auth_method \<or> is_certificate auth_method then
          (if enforce \<and> has_hint
           then Inl (InvalidAuthenticationConfiguration
             ''key authentication cannot retain a password credential hint'')
           else if identity_id = None \<and> key_id = None \<and> \<not> has_paths
           then Inl (InvalidAuthenticationConfiguration
             ''key or certificate authentication requires an identity or key reference'')
           else Inr ())
        else Inl UnsupportedAuthMethod)))"

definition authentication :: "saved_host \<Rightarrow> host_authentication checked" where
  "authentication h =
     (if \<not> is_ssh (sh_protocol h) then Inl UnsupportedProtocol
      else
        and_then (validate_new_host_authentication (sh_auth_method h) (sh_fields h) True) (\<lambda>_.
        if is_password (sh_auth_method h) then
          and_then (host_password_identity_id (sh_fields h)) (\<lambda>identity_id.
          case identity_id of
            Some i \<Rightarrow>
              and_then (host_saved_credential_hint (sh_fields h)) (\<lambda>b. Inr (PasswordIdentity i b))
          | None \<Rightarrow>
              and_then (host_saved_credential_hint (sh_fields h)) (\<lambda>b. Inr (DirectPassword b)))
        else
          and_then (host_key_reference_id (sh_fields h)) (\<lambda>key_id.
          case key_id of
            None \<Rightarrow> Inl (InvalidAuthenticationConfiguration
              ''managed key or certificate authentication requires identityFileId'')
          | Some k \<Rightarrow>
              if is_key (sh_auth_method h) then Inr (ManagedPrivateKey k)
              else if is_certificate (sh_auth_method h) then Inr (ManagedCertificate k)
              else Inl UnsupportedAuthMethod)))"

definition draft_with_authentication :: "host_authentication \<Rightarrow> host_draft \<Rightarrow> host_draft" where
  "draft_with_authentication a d =
     d\<lparr>hd_protocol := Some (lit ''ssh''), hd_auth_method := Some (saved_host_auth_method a),
       hd_fields := replace_host_authentication_fields a False (hd_fields d)\<rparr>"

definition update_with_authentication :: "host_authentication \<Rightarrow> host_update \<Rightarrow> host_update" where
  "update_with_authentication a u =
     u\<lparr>hu_auth_method := Some (saved_host_auth_method a),
       hu_fields := replace_host_authentication_fields a True (hu_fields u)\<rparr>"

section \<open>Creating and updating\<close>

definition canonical_auth :: "rstr \<Rightarrow> rstr \<Rightarrow> rstr checked" where
  "canonical_auth protocol auth_method =
     (if is_ssh protocol then
        (case canonical_ssh auth_method of None \<Rightarrow> Inl UnsupportedAuthMethod | Some m \<Rightarrow> Inr m)
      else Inr auth_method)"

definition when_ssh :: "rstr \<Rightarrow> unit checked \<Rightarrow> unit checked" where
  "when_ssh protocol r = (if is_ssh protocol then r else Inr ())"

definition draft_endpoint :: "rstr \<Rightarrow> host_draft \<Rightarrow> host_draft checked" where
  "draft_endpoint protocol draft =
     (if is_serial protocol then
        and_then (parse_serial_config (bt_get (hd_fields draft) (lit ''serialConfig''))) (\<lambda>config.
        Inr (case config of
               None \<Rightarrow> draft
             | Some c \<Rightarrow> draft\<lparr>hd_hostname := sc_path c, hd_port := Some (sc_baud_rate c)\<rparr>))
      else Inr draft)"

definition from_draft :: "host_draft \<Rightarrow> rstr \<Rightarrow> nat \<Rightarrow> saved_host checked" where
  "from_draft draft fresh now =
     and_then (validate_compatibility_fields (hd_fields draft)) (\<lambda>_.
     case canonical_supported (case hd_protocol draft of None \<Rightarrow> lit ''ssh'' | Some p \<Rightarrow> p) of
       None \<Rightarrow> Inl UnsupportedProtocol
     | Some protocol \<Rightarrow>
         and_then (draft_endpoint protocol draft) (\<lambda>draft.
         and_then (normalize_host_endpoint protocol (hd_hostname draft)) (\<lambda>hostname.
         and_then (case hd_label draft of
             Some label \<Rightarrow> if trim label \<noteq> [] then normalize_label label else Inr hostname
           | None \<Rightarrow> Inr hostname) (\<lambda>label.
         and_then (normalize_username (hd_username draft)) (\<lambda>username.
         and_then (normalize_host_port protocol
             (case hd_port draft of None \<Rightarrow> default_port protocol | Some p \<Rightarrow> p)) (\<lambda>port.
         and_then (canonical_auth protocol
             (case hd_auth_method draft of None \<Rightarrow> lit ''password'' | Some m \<Rightarrow> m)) (\<lambda>auth_method.
         and_then (when_ssh protocol
             (validate_new_host_authentication auth_method (hd_fields draft) False)) (\<lambda>_.
         let host = \<lparr>sh_record_version = RECORD_VERSION, sh_id = fresh, sh_revision = 1, sh_label = label,
             sh_hostname = hostname, sh_port = port, sh_username = username, sh_protocol = protocol,
             sh_auth_method = auth_method, sh_auth_policy_version = AUTH_POLICY_VERSION,
             sh_created_at = now, sh_updated_at = now, sh_fields = hd_fields draft\<rparr>
         in and_then (validate_host host) (\<lambda>_. Inr host)))))))))"

definition update_is_empty :: "host_update \<Rightarrow> bool" where
  "update_is_empty u \<longleftrightarrow>
     hu_label u = None \<and> hu_hostname u = None \<and> hu_port u = None \<and> hu_username u = None \<and>
     hu_protocol u = None \<and> hu_auth_method u = None \<and> hu_fields u = []"

definition merge_fields :: "json_map \<Rightarrow> json_map \<Rightarrow> json_map" where
  "merge_fields update m =
     fold (\<lambda>(k, v) m. if v = JNull then bt_remove k m else bt_insert k v m) update m"

text \<open>The steps of \<^verbatim>\<open>apply_update\<close>, in its order; each takes the record under construction.\<close>

definition update_label :: "host_update \<Rightarrow> saved_host \<Rightarrow> saved_host checked" where
  "update_label u h = (case hu_label u of
     None \<Rightarrow> Inr h
   | Some label \<Rightarrow> and_then (normalize_label label) (\<lambda>l. Inr (h\<lparr>sh_label := l\<rparr>)))"

definition update_protocol :: "host_update \<Rightarrow> saved_host \<Rightarrow> saved_host checked" where
  "update_protocol u h = (case hu_protocol u of
     None \<Rightarrow> Inr h
   | Some p \<Rightarrow>
       (case canonical_supported p of
          None \<Rightarrow> Inl UnsupportedProtocol
        | Some p \<Rightarrow> Inr (h\<lparr>sh_protocol := p\<rparr>)))"

definition update_hostname :: "host_update \<Rightarrow> saved_host \<Rightarrow> saved_host checked" where
  "update_hostname u h = (case hu_hostname u of
     Some s \<Rightarrow> and_then (normalize_host_endpoint (sh_protocol h) s) (\<lambda>t. Inr (h\<lparr>sh_hostname := t\<rparr>))
   | None \<Rightarrow>
       if hu_protocol u \<noteq> None then
         and_then (normalize_host_endpoint (sh_protocol h) (sh_hostname h))
           (\<lambda>t. Inr (h\<lparr>sh_hostname := t\<rparr>))
       else Inr h)"

definition update_port :: "host_update \<Rightarrow> saved_host \<Rightarrow> saved_host checked" where
  "update_port u h = (case hu_port u of
     Some n \<Rightarrow> and_then (normalize_host_port (sh_protocol h) n) (\<lambda>p. Inr (h\<lparr>sh_port := p\<rparr>))
   | None \<Rightarrow>
       if hu_protocol u \<noteq> None then
         and_then (normalize_host_port (sh_protocol h) (sh_port h)) (\<lambda>p. Inr (h\<lparr>sh_port := p\<rparr>))
       else Inr h)"

definition update_username :: "host_update \<Rightarrow> saved_host \<Rightarrow> saved_host checked" where
  "update_username u h = (case hu_username u of
     None \<Rightarrow> Inr h
   | Some s \<Rightarrow> and_then (normalize_username s) (\<lambda>t. Inr (h\<lparr>sh_username := t\<rparr>)))"

definition update_auth_method :: "host_update \<Rightarrow> saved_host \<Rightarrow> saved_host checked" where
  "update_auth_method u h = (case hu_auth_method u of
     None \<Rightarrow> Inr h
   | Some m \<Rightarrow>
       and_then (canonical_auth (sh_protocol h) m) (\<lambda>m.
       Inr (h\<lparr>sh_auth_method := m,
              sh_fields := (if eq_ignore_ascii_case (sh_auth_method h) m then sh_fields h
                            else clear_host_authentication_fields False (sh_fields h))\<rparr>)))"

definition update_fields :: "host_update \<Rightarrow> saved_host \<Rightarrow> saved_host" where
  "update_fields u h = h\<lparr>sh_fields := merge_fields (hu_fields u) (sh_fields h)\<rparr>"

definition mirror_endpoint :: "saved_host \<Rightarrow> serial_config \<Rightarrow> saved_host checked" where
  "mirror_endpoint h config =
     (let c = config\<lparr>sc_path := sh_hostname h, sc_baud_rate := sh_port h\<rparr>
      in case validate_serial_config c of
           Inl e \<Rightarrow> Inl (InvalidSerialConfig e)
         | Inr _ \<Rightarrow>
             Inr (h\<lparr>sh_fields := bt_insert (lit ''serialConfig'') (serial_to_json c) (sh_fields h)\<rparr>))"

definition update_serial :: "host_update \<Rightarrow> saved_host \<Rightarrow> saved_host checked" where
  "update_serial u h =
     (if \<not> is_serial (sh_protocol h) then Inr h
      else case bt_get (hu_fields u) (lit ''serialConfig'') of
        Some v \<Rightarrow>
          if v = JNull then Inr h
          else and_then (parse_serial_config (Some v)) (\<lambda>config.
            case config of
              None \<Rightarrow> Inl (InvalidSerialConfig MissingPath)
            | Some c \<Rightarrow> Inr (h\<lparr>sh_hostname := sc_path c, sh_port := sc_baud_rate c\<rparr>))
      | None \<Rightarrow>
          if hu_hostname u \<noteq> None \<or> hu_port u \<noteq> None then
            and_then (serial_config h) (\<lambda>config.
            case config of
              None \<Rightarrow> Inr h
            | Some c \<Rightarrow> mirror_endpoint h c)
          else if hu_protocol u \<noteq> None then
            and_then (serial_config h) (\<lambda>config.
            Inr (case config of
                   None \<Rightarrow> h
                 | Some c \<Rightarrow> h\<lparr>sh_hostname := sc_path c, sh_port := sc_baud_rate c\<rparr>))
          else Inr h)"

definition apply_update :: "saved_host \<Rightarrow> host_update \<Rightarrow> nat \<Rightarrow> saved_host checked" where
  "apply_update h u now =
     (if canonical_supported (sh_protocol h) = None then Inl UnsupportedProtocol
      else if update_is_empty u then Inl EmptyUpdate
      else
        and_then (validate_compatibility_fields (hu_fields u)) (\<lambda>_.
        and_then (update_label u h) (\<lambda>h1.
        and_then (update_protocol u h1) (\<lambda>h1.
        and_then (update_hostname u h1) (\<lambda>h1.
        and_then (update_port u h1) (\<lambda>h1.
        and_then (update_username u h1) (\<lambda>h1.
        and_then (update_auth_method u h1) (\<lambda>h1.
        and_then (update_serial u (update_fields u h1)) (\<lambda>h1.
        and_then (when_ssh (sh_protocol h1)
            (validate_new_host_authentication (sh_auth_method h1) (sh_fields h1) False)) (\<lambda>_.
        case checked_add64 (sh_revision h) 1 of
          None \<Rightarrow> Inl InvalidRevision
        | Some revision \<Rightarrow>
            let h2 = h1\<lparr>sh_record_version := RECORD_VERSION, sh_auth_policy_version := AUTH_POLICY_VERSION,
                        sh_revision := revision,
                        sh_updated_at := max now (saturating_add64 (sh_updated_at h) 1)\<rparr>
            in and_then (validate_host h2) (\<lambda>_. Inr h2)))))))))))"

section \<open>Lookups in the fields\<close>

lemmas token_eval = is_ssh_def is_telnet_def is_serial_def is_password_def is_key_def is_certificate_def
  eq_ignore_ascii_case_def to_ascii_lowercase_def ascii_lower_def lit_def of_char_def

lemma ssh_token [simp]:
  "is_ssh (lit ''ssh'')" "\<not> is_telnet (lit ''ssh'')" "\<not> is_serial (lit ''ssh'')"
  "canonical_supported (lit ''ssh'') = Some (lit ''ssh'')"
  by (simp_all add: canonical_supported_def token_eval)

lemma method_tokens [simp]:
  "is_password (lit ''password'')" "is_key (lit ''key'')" "is_certificate (lit ''certificate'')"
  "\<not> is_password (lit ''key'')" "\<not> is_password (lit ''certificate'')"
  "\<not> is_key (lit ''certificate'')" "\<not> is_key (lit ''password'')"
  "\<not> is_certificate (lit ''password'')" "\<not> is_certificate (lit ''key'')"
  by (simp_all add: token_eval)

lemma canonical_tokens [simp]:
  "canonical_ssh (lit ''password'') = Some (lit ''password'')"
  "canonical_ssh (lit ''key'') = Some (lit ''key'')"
  "canonical_ssh (lit ''certificate'') = Some (lit ''certificate'')"
  by (simp_all add: canonical_ssh_def)

lemma ssh_exclusive: "is_ssh p \<Longrightarrow> \<not> is_telnet p \<and> \<not> is_serial p"
  by (auto simp: token_eval)

lemma bt_get_clear:
  "bt_get (clear_host_authentication_fields tombstone m) k =
     (if k \<in> set HOST_AUTH_COMPATIBILITY_FIELDS then (if tombstone then Some JNull else None)
      else bt_get m k)"
  by (auto simp: clear_host_authentication_fields_def HOST_AUTH_COMPATIBILITY_FIELDS_def)

lemma auth_key [simp]:
  "lit ''identityId'' \<in> set HOST_AUTH_COMPATIBILITY_FIELDS"
  "lit ''identityFileId'' \<in> set HOST_AUTH_COMPATIBILITY_FIELDS"
  "lit ''identityFilePaths'' \<in> set HOST_AUTH_COMPATIBILITY_FIELDS"
  "lit ''hasSavedCredential'' \<in> set HOST_AUTH_COMPATIBILITY_FIELDS"
  "lit ''savePassword'' \<in> set HOST_AUTH_COMPATIBILITY_FIELDS"
  "lit ''hasPassword'' \<in> set HOST_AUTH_COMPATIBILITY_FIELDS"
  by (simp_all add: HOST_AUTH_COMPATIBILITY_FIELDS_def)

lemma bt_wf_fold_insert: "bt_wf m \<Longrightarrow> bt_wf (fold (\<lambda>(k, v). bt_insert k v) kvs m)"
  by (induction kvs arbitrary: m) auto

lemma bt_wf_clear [simp]: "bt_wf m \<Longrightarrow> bt_wf (clear_host_authentication_fields t m)"
  by (simp add: clear_host_authentication_fields_def HOST_AUTH_COMPATIBILITY_FIELDS_def)

lemma bt_wf_replace [simp]: "bt_wf m \<Longrightarrow> bt_wf (replace_host_authentication_fields a t m)"
  by (simp add: replace_host_authentication_fields_def Let_def split: host_authentication.split)

lemma bt_get_merge:
  "bt_wf u \<Longrightarrow> bt_get (merge_fields u m) k =
     (case bt_get u k of None \<Rightarrow> bt_get m k | Some v \<Rightarrow> if v = JNull then None else Some v)"
proof (induction u arbitrary: m)
  case (Cons e u)
  obtain k' v' where e: "e = (k', v')" by force
  have u: "bt_wf u" and absent: "bt_get u k' = None"
    using Cons.prems bt_head_absent [of k' v' u] by (simp_all add: e bt_wf_Cons)
  have "bt_get (merge_fields (e # u) m) k =
      bt_get (merge_fields u (if v' = JNull then bt_remove k' m else bt_insert k' v' m)) k"
    by (simp add: merge_fields_def e)
  then show ?case using Cons.IH [OF u] absent by (auto simp: e split: option.split)
qed (simp add: merge_fields_def)

section \<open>Authentication is what was selected\<close>

fun valid_authentication :: "host_authentication \<Rightarrow> bool" where
  "valid_authentication (DirectPassword _) = True"
| "valid_authentication (PasswordIdentity i _) = valid_id i"
| "valid_authentication (ManagedPrivateKey k) = valid_id k"
| "valid_authentication (ManagedCertificate k) = valid_id k"

lemma validate_opaque_id_ok: "valid_id s \<Longrightarrow> validate_opaque_id f s = Inr ()"
  by (auto simp: valid_id_def validate_opaque_id_def)

text \<open>The lookups by which \<open>authentication\<close> reads the fields, when they hold exactly what \<open>a\<close> writes.\<close>

definition selects :: "host_authentication \<Rightarrow> json_map \<Rightarrow> bool" where
  "selects a m \<longleftrightarrow>
     (\<forall>k \<in> set HOST_AUTH_COMPATIBILITY_FIELDS.
        bt_get m k = bt_get (replace_host_authentication_fields a False []) k)"

lemma authentication_selects:
  assumes a: "valid_authentication a" and "is_ssh (sh_protocol h)"
    and "sh_auth_method h = saved_host_auth_method a" and m: "selects a (sh_fields h)"
  shows "authentication h = Inr a"
proof -
  have get: "bt_get (sh_fields h) (lit k) = bt_get (replace_host_authentication_fields a False []) (lit k)"
    if "lit k \<in> set HOST_AUTH_COMPATIBILITY_FIELDS" for k
    using m that by (simp add: selects_def)
  have id: "valid_id s \<Longrightarrow> s \<noteq> []" for s by (simp add: valid_id_def)
  show ?thesis
    using assms(1-3)
    by (cases a)
      (auto simp: authentication_def validate_new_host_authentication_def host_opaque_reference_def
        host_key_reference_id_def host_password_identity_id_def host_has_identity_file_paths_def
        host_password_hint_is_true_def host_saved_credential_hint_def saved_host_auth_method_def
        get replace_host_authentication_fields_def bt_get_clear Let_def validate_opaque_id_ok id)
qed

lemma replace_selects: "selects a (replace_host_authentication_fields a False m)"
  by (cases a) (auto simp: selects_def replace_host_authentication_fields_def bt_get_clear Let_def)

lemma merge_selects:
  assumes "bt_wf u"
  shows "selects a (merge_fields (replace_host_authentication_fields a True u) m)"
  using assms
  by (cases a)
    (auto simp: selects_def bt_get_merge replace_host_authentication_fields_def bt_get_clear Let_def)

lemma draft_endpoint_frame:
  "draft_endpoint p d = Inr d' \<Longrightarrow> hd_fields d' = hd_fields d \<and> hd_auth_method d' = hd_auth_method d"
  by (auto simp: draft_endpoint_def and_then_Inr split: if_splits option.splits)

lemma from_draft_parts:
  assumes "from_draft d fresh now = Inr h"
  shows "sh_fields h = hd_fields d" "sh_id h = fresh" "sh_revision h = 1"
    "sh_created_at h = now" "sh_updated_at h = now" "validate_host h = Inr ()"
    "canonical_supported (case hd_protocol d of None \<Rightarrow> lit ''ssh'' | Some p \<Rightarrow> p) = Some (sh_protocol h)"
    "canonical_auth (sh_protocol h) (case hd_auth_method d of None \<Rightarrow> lit ''password'' | Some m \<Rightarrow> m)
       = Inr (sh_auth_method h)"
proof -
  obtain p where p: "canonical_supported (case hd_protocol d of None \<Rightarrow> lit ''ssh'' | Some p \<Rightarrow> p) = Some p"
    using assms by (auto simp: from_draft_def and_then_Inr split: option.splits)
  show "sh_fields h = hd_fields d" "sh_id h = fresh" "sh_revision h = 1"
    "sh_created_at h = now" "sh_updated_at h = now" "validate_host h = Inr ()"
    "canonical_supported (case hd_protocol d of None \<Rightarrow> lit ''ssh'' | Some p \<Rightarrow> p) = Some (sh_protocol h)"
    "canonical_auth (sh_protocol h) (case hd_auth_method d of None \<Rightarrow> lit ''password'' | Some m \<Rightarrow> m)
       = Inr (sh_auth_method h)"
    using assms p
    by (auto simp: from_draft_def and_then_Inr Let_def dest: draft_endpoint_frame)
qed

section \<open>What an update changes\<close>

lemma update_label_frame: "update_label u h = Inr h1 \<Longrightarrow> \<exists>x. h1 = h\<lparr>sh_label := x\<rparr>"
  by (cases "hu_label u") (auto simp: update_label_def and_then_Inr intro: exI [of _ "sh_label h"])

lemma update_protocol_frame: "update_protocol u h = Inr h1 \<Longrightarrow> \<exists>x. h1 = h\<lparr>sh_protocol := x\<rparr>"
  by (auto simp: update_protocol_def split: option.splits intro: exI [of _ "sh_protocol h"])

lemma update_hostname_frame: "update_hostname u h = Inr h1 \<Longrightarrow> \<exists>x. h1 = h\<lparr>sh_hostname := x\<rparr>"
  by (auto simp: update_hostname_def and_then_Inr split: option.splits if_splits
      intro: exI [of _ "sh_hostname h"])

lemma update_port_frame: "update_port u h = Inr h1 \<Longrightarrow> \<exists>x. h1 = h\<lparr>sh_port := x\<rparr>"
  by (auto simp: update_port_def and_then_Inr split: option.splits if_splits
      intro: exI [of _ "sh_port h"])

lemma update_username_frame: "update_username u h = Inr h1 \<Longrightarrow> \<exists>x. h1 = h\<lparr>sh_username := x\<rparr>"
  by (auto simp: update_username_def and_then_Inr split: option.splits intro: exI [of _ "sh_username h"])

definition fields_for :: "saved_host \<Rightarrow> rstr \<Rightarrow> json_map" where
  "fields_for h m =
     (if eq_ignore_ascii_case (sh_auth_method h) m then sh_fields h
      else clear_host_authentication_fields False (sh_fields h))"

lemma update_auth_method_frame:
  "update_auth_method u h = Inr h1 \<Longrightarrow>
   h1 = (case hu_auth_method u of
           None \<Rightarrow> h
         | Some _ \<Rightarrow> h\<lparr>sh_auth_method := sh_auth_method h1, sh_fields := fields_for h (sh_auth_method h1)\<rparr>)
   \<and> (\<forall>m. hu_auth_method u = Some m \<longrightarrow> canonical_auth (sh_protocol h) m = Inr (sh_auth_method h1))"
  by (auto simp: update_auth_method_def fields_for_def and_then_Inr split: option.splits)

lemma mirror_endpoint_frame: "mirror_endpoint h c = Inr h1 \<Longrightarrow> \<exists>z. h1 = h\<lparr>sh_fields := z\<rparr>"
  by (auto simp: mirror_endpoint_def Let_def split: sum.splits)

lemma update_serial_frame:
  "update_serial u h = Inr h1 \<Longrightarrow>
   (\<exists>x y z. h1 = h\<lparr>sh_hostname := x, sh_port := y, sh_fields := z\<rparr>) \<and>
   (\<not> is_serial (sh_protocol h) \<longrightarrow> h1 = h)"
proof -
  assume r: "update_serial u h = Inr h1"
  have self: "\<exists>x y z. h = h\<lparr>sh_hostname := x, sh_port := y, sh_fields := z\<rparr>"
    by (intro exI [of _ "sh_hostname h"] exI [of _ "sh_port h"] exI [of _ "sh_fields h"]) simp
  have moved: "\<exists>x y z. h\<lparr>sh_hostname := a, sh_port := b\<rparr> = h\<lparr>sh_hostname := x, sh_port := y, sh_fields := z\<rparr>" for a b
    by (intro exI [of _ a] exI [of _ b] exI [of _ "sh_fields h"]) simp
  have put: "\<exists>x y z. h\<lparr>sh_fields := c\<rparr> = h\<lparr>sh_hostname := x, sh_port := y, sh_fields := z\<rparr>" for c
    by (intro exI [of _ "sh_hostname h"] exI [of _ "sh_port h"] exI [of _ c]) simp
  have "h1 = h \<or> (\<exists>a b. h1 = h\<lparr>sh_hostname := a, sh_port := b\<rparr>) \<or> (\<exists>c. h1 = h\<lparr>sh_fields := c\<rparr>)"
    using r by (auto simp: update_serial_def and_then_Inr dest: mirror_endpoint_frame
        split: if_splits option.splits)
  with self moved put have "\<exists>x y z. h1 = h\<lparr>sh_hostname := x, sh_port := y, sh_fields := z\<rparr>" by blast
  moreover have "\<not> is_serial (sh_protocol h) \<Longrightarrow> h1 = h"
    using r by (simp add: update_serial_def)
  ultimately show ?thesis by blast
qed

text \<open>The record after an update, in terms of the record \<open>h1\<close> that its steps have produced.\<close>

lemma apply_update_steps:
  assumes "apply_update h u now = Inr h'"
  obtains h1 p where
    "\<exists>l hn pt un. update_auth_method u (h\<lparr>sh_label := l, sh_protocol := p, sh_hostname := hn, sh_port := pt, sh_username := un\<rparr>) = Inr h1"
    "\<exists>x y z. h' = (h1\<lparr>sh_hostname := x, sh_port := y, sh_fields := z, sh_record_version := RECORD_VERSION,
        sh_auth_policy_version := AUTH_POLICY_VERSION, sh_revision := Suc (sh_revision h),
        sh_updated_at := max now (saturating_add64 (sh_updated_at h) 1)\<rparr>) \<and>
        (\<not> is_serial (sh_protocol h1) \<longrightarrow> z = merge_fields (hu_fields u) (sh_fields h1))"
    "validate_host h' = Inr ()" "sh_revision h < U64_MAX"
proof -
  obtain ha hb hc hd he hf hg rev where
    steps: "update_label u h = Inr ha" "update_protocol u ha = Inr hb" "update_hostname u hb = Inr hc"
      "update_port u hc = Inr hd" "update_username u hd = Inr he" "update_auth_method u he = Inr hf"
      "update_serial u (update_fields u hf) = Inr hg"
    and rev: "checked_add64 (sh_revision h) 1 = Some rev"
    and h': "h' = hg\<lparr>sh_record_version := RECORD_VERSION, sh_auth_policy_version := AUTH_POLICY_VERSION,
        sh_revision := rev, sh_updated_at := max now (saturating_add64 (sh_updated_at h) 1)\<rparr>"
    and ok: "validate_host h' = Inr ()"
    using assms
    by (auto simp: apply_update_def and_then_Inr Let_def split: if_splits option.splits)
  have r: "rev = Suc (sh_revision h)" "sh_revision h < U64_MAX"
    using rev by (auto simp: checked_add64_def split: if_splits)
  obtain l p hn pt un where he: "he = h\<lparr>sh_label := l, sh_protocol := p, sh_hostname := hn, sh_port := pt, sh_username := un\<rparr>"
    using steps(1-5)
    by (auto dest!: update_label_frame update_protocol_frame update_hostname_frame update_port_frame
        update_username_frame)
  obtain x y z where hg: "hg = (update_fields u hf)\<lparr>sh_hostname := x, sh_port := y, sh_fields := z\<rparr>"
    "\<not> is_serial (sh_protocol hf) \<longrightarrow> z = merge_fields (hu_fields u) (sh_fields hf)"
  proof -
    from update_serial_frame [OF steps(7)] obtain x y z where
      g: "hg = (update_fields u hf)\<lparr>sh_hostname := x, sh_port := y, sh_fields := z\<rparr>"
      and same: "\<not> is_serial (sh_protocol hf) \<longrightarrow> hg = update_fields u hf"
      by (auto simp: update_fields_def)
    have "\<not> is_serial (sh_protocol hf) \<Longrightarrow> z = merge_fields (hu_fields u) (sh_fields hf)"
      using g same by (metis (no_types, lifting) saved_host.select_convs(13) saved_host.surjective
          saved_host.update_convs(13) update_fields_def)
    with g that show thesis by blast
  qed
  show thesis
  proof (rule that [of p hf])
    show "\<exists>l hn pt un. update_auth_method u (h\<lparr>sh_label := l, sh_protocol := p, sh_hostname := hn, sh_port := pt, sh_username := un\<rparr>) = Inr hf"
      using steps(6) he by blast
    show "\<exists>x y z. h' = (hf\<lparr>sh_hostname := x, sh_port := y, sh_fields := z, sh_record_version := RECORD_VERSION,
        sh_auth_policy_version := AUTH_POLICY_VERSION, sh_revision := Suc (sh_revision h),
        sh_updated_at := max now (saturating_add64 (sh_updated_at h) 1)\<rparr>) \<and>
        (\<not> is_serial (sh_protocol hf) \<longrightarrow> z = merge_fields (hu_fields u) (sh_fields hf))"
      using h' hg r(1) by (intro exI [of _ x] exI [of _ y] exI [of _ z]) (simp add: update_fields_def)
    show "validate_host h' = Inr ()" by (rule ok)
    show "sh_revision h < U64_MAX" by (rule r(2))
  qed
qed

section \<open>Evaluation on literals\<close>

lemma str_len_lit: "list_all (\<lambda>c. of_char c < (0x80 :: nat)) s \<Longrightarrow> str_len (lit s) = length s"
  by (simp add: lit_def list_all_iff str_len_ascii)

lemmas text_eval = normalize_label_def normalize_hostname_def normalize_username_def normalize_text_def
  Let_def trim_def trim_end_def is_whitespace_def is_control_def str_len_ascii MAX_LABEL_BYTES_def
  MAX_HOSTNAME_BYTES_def MAX_USERNAME_BYTES_def MAX_ID_BYTES_def validate_id_def validate_token_def
  validate_canonical_def lit_def of_char_def

lemma identity_file_key:
  "normalize_compatibility_key (lit ''identityFileId'') = lit ''identityfileid''"
  by (simp add: normalize_compatibility_key_def is_ascii_alphanumeric_def is_ascii_alphabetic_def
      is_ascii_digit_def ascii_lower_def lit_def of_char_def)

lemma identity_file_plain:
  "\<not> is_forbidden_compatibility_key (lit ''identityFileId'')"
  "\<not> is_secret_status_key (lit ''identityFileId'')"
  "\<not> list_ex is_control (lit ''identityFileId'')"
  unfolding is_forbidden_compatibility_key_def is_secret_status_key_def identity_file_key Let_def
  by (simp_all add: is_secret_status_key_normalized_def ends_with_def is_control_def lit_def of_char_def)

lemma identity_file_valid:
  "validate_compatibility_fields [(lit ''identityFileId'', JString s)] = Inr ()"
  by (simp add: validate_compatibility_fields_def validate_compatibility_entry_def guard_entry_def
      guard_depth_def bad_key_def validate_children.simps str_len_lit of_char_def
      is_reserved_compatibility_key_def MAX_COMPATIBILITY_DEPTH_def MAX_COMPATIBILITY_KEY_BYTES_def
      identity_file_plain)

section \<open>The properties of saved hosts\<close>

text \<open>A history of a host: its updates, each with the time of the clock.\<close>

fun apply_updates :: "saved_host \<Rightarrow> (host_update \<times> nat) list \<Rightarrow> saved_host checked" where
  "apply_updates h [] = Inr h"
| "apply_updates h ((u, now) # us) = and_then (apply_update h u now) (\<lambda>h'. apply_updates h' us)"

lemma apply_update_record:
  assumes "apply_update h u now = Inr h'"
  shows "validate_host h' = Inr ()" "sh_id h' = sh_id h" "sh_created_at h' = sh_created_at h"
    "sh_revision h' = Suc (sh_revision h)" "now \<le> sh_updated_at h'"
    "sh_updated_at h < U64_MAX \<Longrightarrow> sh_updated_at h < sh_updated_at h'"
proof -
  obtain h1 p where auth: "\<exists>l hn pt un. update_auth_method u (h\<lparr>sh_label := l, sh_protocol := p, sh_hostname := hn, sh_port := pt, sh_username := un\<rparr>) = Inr h1"
    and h': "\<exists>x y z. h' = (h1\<lparr>sh_hostname := x, sh_port := y, sh_fields := z, sh_record_version := RECORD_VERSION,
        sh_auth_policy_version := AUTH_POLICY_VERSION, sh_revision := Suc (sh_revision h),
        sh_updated_at := max now (saturating_add64 (sh_updated_at h) 1)\<rparr>) \<and>
        (\<not> is_serial (sh_protocol h1) \<longrightarrow> z = merge_fields (hu_fields u) (sh_fields h1))"
    and ok: "validate_host h' = Inr ()"
    by (rule apply_update_steps [OF assms])
  have h1: "sh_id h1 = sh_id h \<and> sh_created_at h1 = sh_created_at h"
  proof -
    obtain l hn pt un where r: "update_auth_method u (h\<lparr>sh_label := l, sh_protocol := p, sh_hostname := hn, sh_port := pt, sh_username := un\<rparr>) = Inr h1"
      using auth by blast
    show ?thesis
      using r by (cases "hu_auth_method u") (auto simp: update_auth_method_def and_then_Inr)
  qed
  show "validate_host h' = Inr ()" by (rule ok)
  show "sh_id h' = sh_id h" "sh_created_at h' = sh_created_at h" "sh_revision h' = Suc (sh_revision h)"
    "now \<le> sh_updated_at h'"
    using h' h1 by auto
  show "sh_updated_at h < U64_MAX \<Longrightarrow> sh_updated_at h < sh_updated_at h'"
    using h' by auto
qed

lemma apply_updates_record:
  "apply_updates h us = Inr h' \<Longrightarrow> validate_host h = Inr () \<Longrightarrow>
   validate_host h' = Inr () \<and> sh_id h' = sh_id h \<and> sh_created_at h' = sh_created_at h \<and>
   sh_revision h' = sh_revision h + length us"
proof (induction us arbitrary: h)
  case (Cons e us)
  obtain u now where e: "e = (u, now)" by force
  then obtain h1 where h1: "apply_update h u now = Inr h1" and rest: "apply_updates h1 us = Inr h'"
    using Cons.prems by (auto simp: and_then_Inr)
  show ?case
    using Cons.IH [OF rest] apply_update_record [OF h1] by simp
qed simp

text \<open>C11: a saved host that was created from a draft and then updated any number of times is valid,
  has kept its identity and its creation time, and its revision counts the updates; every update
  advances the time of the last change, even when the clock stands still or goes back.\<close>

theorem saved_host_history:
  assumes "from_draft d fresh now = Inr h0" and "apply_updates h0 us = Inr h"
    and "apply_update h u time = Inr h'"
  shows "validate_host h' = Inr () \<and> sh_id h' = fresh \<and> sh_created_at h' = now \<and>
     sh_revision h' = Suc (Suc (length us)) \<and> time \<le> sh_updated_at h' \<and>
     (U64_MAX \<le> sh_updated_at h \<or> sh_updated_at h < sh_updated_at h')"
proof -
  have "U64_MAX \<le> sh_updated_at h \<or> sh_updated_at h < sh_updated_at h'"
    using apply_update_record(6) [OF assms(3)] not_less by blast
  then show ?thesis
    using apply_updates_record [OF assms(2)] from_draft_parts [OF assms(1)]
      apply_update_record(1-5) [OF assms(3)]
    by simp
qed

text \<open>C10: the authentication that a draft or an update selects is the one that the saved host then
  reports, whatever authentication fields the host had before: nothing of an earlier selection
  remains.\<close>

theorem authentication_selected:
  assumes a: "valid_authentication a"
  shows "(from_draft (draft_with_authentication a d) fresh now = Inr h \<longrightarrow> authentication h = Inr a) \<and>
    (apply_update h0 (update_with_authentication a u) time = Inr h' \<longrightarrow> bt_wf (hu_fields u) \<longrightarrow>
     is_ssh (sh_protocol h') \<longrightarrow> authentication h' = Inr a)"
proof (intro conjI impI)
  assume draft: "from_draft (draft_with_authentication a d) fresh now = Inr h"
  have ssh: "sh_protocol h = lit ''ssh''"
    using from_draft_parts(7) [OF draft] by (simp add: draft_with_authentication_def)
  have "sh_auth_method h = saved_host_auth_method a"
    using from_draft_parts(8) [OF draft] unfolding ssh
    by (cases a) (simp_all add: draft_with_authentication_def canonical_auth_def saved_host_auth_method_def)
  moreover have "selects a (sh_fields h)"
    using from_draft_parts(1) [OF draft] by (simp add: draft_with_authentication_def replace_selects)
  ultimately show "authentication h = Inr a"
    using a ssh by (intro authentication_selects) simp_all
next
  assume update: "apply_update h0 (update_with_authentication a u) time = Inr h'"
    and u: "bt_wf (hu_fields u)" and ssh: "is_ssh (sh_protocol h')"
  obtain h1 p where auth: "\<exists>l hn pt un. update_auth_method (update_with_authentication a u)
        (h0\<lparr>sh_label := l, sh_protocol := p, sh_hostname := hn, sh_port := pt, sh_username := un\<rparr>) = Inr h1"
    and h': "\<exists>x y z. h' = (h1\<lparr>sh_hostname := x, sh_port := y, sh_fields := z, sh_record_version := RECORD_VERSION,
        sh_auth_policy_version := AUTH_POLICY_VERSION, sh_revision := Suc (sh_revision h0),
        sh_updated_at := max time (saturating_add64 (sh_updated_at h0) 1)\<rparr>) \<and>
        (\<not> is_serial (sh_protocol h1) \<longrightarrow> z = merge_fields (hu_fields (update_with_authentication a u)) (sh_fields h1))"
    by (rule apply_update_steps [OF update])
  have protocol: "sh_protocol h' = sh_protocol h1" and auth_eq: "sh_auth_method h' = sh_auth_method h1"
    using h' by auto
  have "\<not> is_serial (sh_protocol h1)" using ssh ssh_exclusive protocol by simp
  then have f: "sh_fields h' = merge_fields (replace_host_authentication_fields a True (hu_fields u)) (sh_fields h1)"
    using h' by (auto simp: update_with_authentication_def)
  obtain l hn pt un where r: "update_auth_method (update_with_authentication a u)
        (h0\<lparr>sh_label := l, sh_protocol := p, sh_hostname := hn, sh_port := pt, sh_username := un\<rparr>) = Inr h1"
    using auth by blast
  have p: "sh_protocol h1 = p"
    using r by (auto simp: update_auth_method_def update_with_authentication_def and_then_Inr)
  have "canonical_auth p (saved_host_auth_method a) = Inr (sh_auth_method h1)"
    using update_auth_method_frame [OF r] by (simp add: update_with_authentication_def)
  then have "sh_auth_method h1 = saved_host_auth_method a"
    using ssh protocol p by (cases a) (simp_all add: canonical_auth_def saved_host_auth_method_def)
  then show "authentication h' = Inr a"
    using a ssh auth_eq f u by (intro authentication_selects) (simp_all add: merge_selects)
qed

definition sample_draft :: host_draft where
  "sample_draft = \<lparr>hd_label = None, hd_hostname = lit ''db'', hd_port = None, hd_username = lit ''ops'',
     hd_protocol = None, hd_auth_method = None, hd_fields = [(lit ''savePassword'', JBool True)]\<rparr>"

definition sample_host :: saved_host where
  "sample_host = \<lparr>sh_record_version = 1, sh_id = lit ''h1'', sh_revision = 1, sh_label = lit ''db'',
     sh_hostname = lit ''db'', sh_port = 22, sh_username = lit ''ops'', sh_protocol = lit ''ssh'',
     sh_auth_method = lit ''key'', sh_auth_policy_version = 1, sh_created_at = 10, sh_updated_at = 10,
     sh_fields = [(lit ''identityFileId'', JString (lit ''k1''))]\<rparr>"

definition sample_update :: host_update where
  "sample_update = \<lparr>hu_label = Some (lit ''main''), hu_hostname = None, hu_port = None, hu_username = None,
     hu_protocol = None, hu_auth_method = None, hu_fields = []\<rparr>"

lemma sample_valid:
  assumes "normalize_label l = Inr l" and "r \<noteq> 0" and "10 \<le> t"
  shows "validate_host (sample_host\<lparr>sh_label := l, sh_revision := r, sh_updated_at := t\<rparr>) = Inr ()"
proof -
  have e: "normalize_hostname (lit ''db'') = Inr (lit ''db'')" "normalize_username (lit ''ops'') = Inr (lit ''ops'')"
    "validate_id (lit ''h1'') = Inr ()"
    "validate_token f (lit ''ssh'') = Inr ()" "validate_token f (lit ''key'') = Inr ()" for f
    by (simp_all add: text_eval)
  show ?thesis
    using assms
    by (simp add: validate_host_def sample_host_def e validate_canonical_def normalize_host_endpoint_def
        normalize_host_port_def identity_file_valid validate_serial_mirror_def)
qed

lemma sample_labels: "normalize_label (lit ''db'') = Inr (lit ''db'')"
  "normalize_label (lit ''main'') = Inr (lit ''main'')"
  by (simp_all add: text_eval)

lemma sample_authentication:
  "validate_new_host_authentication (lit ''key'') [(lit ''identityFileId'', JString (lit ''k1''))] False = Inr ()"
proof -
  have "validate_opaque_id field (lit ''k1'') = Inr ()" for field
    by (simp add: validate_opaque_id_def text_eval)
  then show ?thesis
    by (simp add: validate_new_host_authentication_def host_opaque_reference_def host_key_reference_id_def
        host_has_identity_file_paths_def)
qed

lemma sample_draft_saved:
  "from_draft (draft_with_authentication (ManagedPrivateKey (lit ''k1'')) sample_draft) (lit ''h1'') 10
     = Inr sample_host"
proof -
  have f: "replace_host_authentication_fields (ManagedPrivateKey (lit ''k1'')) False [(lit ''savePassword'', JBool True)] =
      [(lit ''identityFileId'', JString (lit ''k1''))]"
    by (simp add: replace_host_authentication_fields_def
        clear_host_authentication_fields_def HOST_AUTH_COMPATIBILITY_FIELDS_def bt_remove_def)
  have e: "normalize_hostname (lit ''db'') = Inr (lit ''db'')" "normalize_username (lit ''ops'') = Inr (lit ''ops'')"
    by (simp_all add: text_eval)
  show ?thesis
    using sample_valid [OF sample_labels(1), of 1 10]
    by (simp add: from_draft_def draft_with_authentication_def sample_draft_def f identity_file_valid
        draft_endpoint_def normalize_host_endpoint_def e normalize_host_port_def default_port_def
        saved_host_auth_method_def canonical_auth_def when_ssh_def sample_authentication
        sample_host_def RECORD_VERSION_def AUTH_POLICY_VERSION_def Let_def)
qed

definition sample_updated :: saved_host where
  "sample_updated = sample_host\<lparr>sh_label := lit ''main'', sh_revision := 2, sh_updated_at := 11\<rparr>"

lemma sample_update_applied: "apply_update sample_host sample_update 5 = Inr sample_updated"
  using sample_valid [OF sample_labels(2), of 2 11]
  by (simp add: apply_update_def sample_update_def update_is_empty_def validate_compatibility_fields_def
      update_label_def update_protocol_def update_hostname_def update_port_def update_username_def
      update_auth_method_def update_fields_def merge_fields_def update_serial_def sample_labels when_ssh_def
      sample_authentication checked_add64_def sample_updated_def sample_host_def RECORD_VERSION_def
      AUTH_POLICY_VERSION_def saturating_add64_def Let_def numeral_2_eq_2)

theorem saved_host_history_witness:
  "sh_id sample_updated = lit ''h1'' \<and> sh_revision sample_updated = 2 \<and> validate_host sample_updated = Inr ()"
  using saved_host_history [OF sample_draft_saved, of "[]", OF _ sample_update_applied]
  by (simp add: numeral_2_eq_2)

theorem authentication_selected_witness:
  "authentication sample_host = Inr (ManagedPrivateKey (lit ''k1''))"
proof -
  have "valid_authentication (ManagedPrivateKey (lit ''k1''))" by (simp add: valid_id_def text_eval)
  from authentication_selected [OF this] show ?thesis using sample_draft_saved by blast
qed

end
