(* ===== verification/Vault_Defaults.thy ===== *)
theory Vault_Defaults
  imports Vault_Endpoint
begin

text \<open>
  Group configuration records and the defaults that a group inherits from its ancestors
  (\<^verbatim>\<open>crates/netcatty-vault/src/group_config.rs\<close>).  Every field is an override with three states:
  inherit, clear, set.  \<open>merge_from\<close> puts a child's record over what its ancestors resolved to;
  credentials are merged as bundles, so that a selected identity and manual credentials never mix.
  \<open>resolve_group_defaults_with_provenance\<close> also tracks which record owns an inherited password,
  because the secrets themselves are kept outside the vault.
\<close>

section \<open>Overrides\<close>

datatype 'a override = Inherit | Clear | Set 'a

definition is_defined :: "'a override \<Rightarrow> bool" where
  "is_defined v \<longleftrightarrow> v \<noteq> Inherit"

definition merge_override :: "'a override \<Rightarrow> 'a override \<Rightarrow> 'a override" where
  "merge_override target child = (if is_defined child then child else target)"

datatype credential_override = CredentialInherit | CredentialClear | StoredHint

definition credential_defined :: "credential_override \<Rightarrow> bool" where
  "credential_defined v \<longleftrightarrow> v \<noteq> CredentialInherit"

definition merge_credential :: "credential_override \<Rightarrow> credential_override \<Rightarrow> credential_override" where
  "merge_credential target child = (if credential_defined child then child else target)"

datatype proxy_override = ProxyInherit | ProxyClear | Profile rstr | Inline proxy_config

definition merge_proxy :: "proxy_override \<Rightarrow> proxy_override \<Rightarrow> proxy_override" where
  "merge_proxy target child = (if child \<noteq> ProxyInherit then child else target)"

section \<open>Field types\<close>

datatype group_config_error =
    ConfigEmpty string
  | ConfigTooLong string nat
  | ConfigUnsafeCharacters string
  | ConfigInvalidPort
  | NonFiniteNumber string
  | TooManyItems string nat
  | ConfigInvalidRevision
  | ConfigInvalidTimestamps
  | NonCanonicalRecordVersion
  | ConfigEmptyUpdate

definition MAX_TEXT_BYTES :: nat where "MAX_TEXT_BYTES = 32 * 1024"
definition MAX_SINGLE_LINE_BYTES :: nat where "MAX_SINGLE_LINE_BYTES = 32 * 1024"
definition MAX_COLLECTION_ITEMS :: nat where "MAX_COLLECTION_ITEMS = 256"
definition MAX_ALGORITHM_TOKEN_BYTES :: nat where "MAX_ALGORITHM_TOKEN_BYTES = 256"
definition MAX_HOST_CHAIN_ITEMS :: nat where "MAX_HOST_CHAIN_ITEMS = 128"
definition GROUP_CONFIG_RECORD_VERSION :: nat where "GROUP_CONFIG_RECORD_VERSION = 1"

definition validate_text :: "string \<Rightarrow> rstr \<Rightarrow> nat \<Rightarrow> bool \<Rightarrow> group_config_error + unit" where
  "validate_text field s max_bytes allow_line_breaks =
     (if max_bytes < str_len s then Inl (ConfigTooLong field max_bytes)
      else if list_ex (\<lambda>c. is_control c \<and> \<not> (allow_line_breaks \<and> c \<in> {10, 13, 9})) s
      then Inl (ConfigUnsafeCharacters field)
      else Inr ())"

definition validate_non_empty_single_line :: "string \<Rightarrow> rstr \<Rightarrow> nat \<Rightarrow> group_config_error + unit" where
  "validate_non_empty_single_line field s max_bytes =
     (if s = [] then Inl (ConfigEmpty field) else validate_text field s max_bytes False)"

definition validate_item_count :: "string \<Rightarrow> nat \<Rightarrow> nat \<Rightarrow> group_config_error + unit" where
  "validate_item_count field actual max_items =
     (if max_items < actual then Inl (TooManyItems field max_items) else Inr ())"

definition group_id_from_opaque :: "rstr \<Rightarrow> group_config_error + rstr" where
  "group_id_from_opaque s =
     and_then (validate_non_empty_single_line ''saved group ID'' s MAX_ID_BYTES) (\<lambda>_. Inr s)"

definition group_text_new :: "rstr \<Rightarrow> group_config_error + rstr" where
  "group_text_new s = and_then (validate_text ''group text'' s MAX_TEXT_BYTES True) (\<lambda>_. Inr s)"

definition single_line_new :: "rstr \<Rightarrow> group_config_error + rstr" where
  "single_line_new s =
     and_then (validate_text ''group single-line text'' s MAX_SINGLE_LINE_BYTES False) (\<lambda>_. Inr s)"

definition group_opaque_id_new :: "rstr \<Rightarrow> group_config_error + rstr" where
  "group_opaque_id_new s =
     and_then (validate_non_empty_single_line ''group opaque ID'' s MAX_ID_BYTES) (\<lambda>_. Inr s)"

definition group_port_new :: "nat \<Rightarrow> group_config_error + nat" where
  "group_port_new n = (if 0 < n \<and> n \<le> 65535 then Inr n else Inl ConfigInvalidPort)"

datatype f64 = Finite rat | NotFinite

definition finite_number_new :: "string \<Rightarrow> f64 \<Rightarrow> group_config_error + rat" where
  "finite_number_new field x = (case x of Finite r \<Rightarrow> Inr r | NotFinite \<Rightarrow> Inl (NonFiniteNumber field))"

definition host_chain_new :: "rstr list \<Rightarrow> group_config_error + rstr list" where
  "host_chain_new ids =
     and_then (validate_item_count ''host chain'' (length ids) MAX_HOST_CHAIN_ITEMS) (\<lambda>_. Inr ids)"

definition file_paths_new :: "rstr list \<Rightarrow> group_config_error + rstr list" where
  "file_paths_new paths =
     and_then (validate_item_count ''identity file paths'' (length paths) MAX_COLLECTION_ITEMS)
       (\<lambda>_. Inr paths)"

definition algorithm_token_new :: "rstr \<Rightarrow> group_config_error + rstr" where
  "algorithm_token_new s =
     and_then (validate_non_empty_single_line ''algorithm token'' s MAX_ALGORITHM_TOKEN_BYTES) (\<lambda>_.
     if list_ex is_whitespace s then Inl (ConfigUnsafeCharacters ''algorithm token'') else Inr s)"

record algorithm_overrides =
  ao_kex :: "rstr list option"
  ao_cipher :: "rstr list option"
  ao_hmac :: "rstr list option"
  ao_server_host_key :: "rstr list option"
  ao_compress :: "rstr list option"

definition validate_algorithms :: "algorithm_overrides \<Rightarrow> group_config_error + unit" where
  "validate_algorithms a =
     fold (\<lambda>(field, tokens) r. and_then r (\<lambda>_.
         case tokens of
           None \<Rightarrow> Inr ()
         | Some ts \<Rightarrow> validate_item_count field (length ts) MAX_COLLECTION_ITEMS))
       [(''kex algorithms'', ao_kex a), (''cipher algorithms'', ao_cipher a), (''hmac algorithms'', ao_hmac a),
        (''server host-key algorithms'', ao_server_host_key a), (''compression algorithms'', ao_compress a)]
       (Inr ())"

definition environment_variable_new :: "rstr \<Rightarrow> rstr \<Rightarrow> group_config_error + rstr \<times> rstr" where
  "environment_variable_new name v =
     (if name = [] then Inl (ConfigEmpty ''environment variable name'')
      else and_then (single_line_new name) (\<lambda>n. and_then (group_text_new v) (\<lambda>t. Inr (n, t))))"

definition environment_new :: "(rstr \<times> rstr) list \<Rightarrow> group_config_error + (rstr \<times> rstr) list" where
  "environment_new vs =
     and_then (validate_item_count ''environment variables'' (length vs) MAX_COLLECTION_ITEMS) (\<lambda>_. Inr vs)"

datatype group_auth_method = AuthAuto | AuthPassword | AuthKey | AuthCertificate
datatype group_protocol = GroupSsh | GroupTelnet
datatype group_device_type = General | Network
datatype startup_command_run_mode = LineDelay | Paste
datatype group_backspace = GroupCtrlH
datatype group_identity_reference = KeyIdentity rstr | PasswordIdentityRef rstr

section \<open>Defaults\<close>

record group_defaults =
  gd_order :: "rat override"
  gd_username :: "rstr override"
  gd_password :: credential_override
  gd_save_password :: "bool override"
  gd_auth_method :: "group_auth_method override"
  gd_identity_id :: "group_identity_reference override"
  gd_identity_file_id :: "rstr override"
  gd_identity_file_paths :: "rstr list override"
  gd_port :: "nat override"
  gd_protocol :: "group_protocol override"
  gd_device_type :: "group_device_type override"
  gd_agent_forwarding :: "bool override"
  gd_proxy :: proxy_override
  gd_host_chain :: "rstr list override"
  gd_startup_command :: "rstr override"
  gd_startup_command_run_mode :: "startup_command_run_mode override"
  gd_login_script_id :: "rstr override"
  gd_legacy_algorithms :: "bool override"
  gd_skip_ecdsa_host_key :: "bool override"
  gd_algorithms :: "algorithm_overrides override"
  gd_environment_variables :: "(rstr \<times> rstr) list override"
  gd_charset :: "rstr override"
  gd_mosh_enabled :: "bool override"
  gd_mosh_server_path :: "rstr override"
  gd_et_enabled :: "bool override"
  gd_et_port :: "nat override"
  gd_telnet_enabled :: "bool override"
  gd_telnet_port :: "nat override"
  gd_telnet_identity_id :: "rstr override"
  gd_telnet_username :: "rstr override"
  gd_telnet_password :: credential_override
  gd_theme :: "rstr override"
  gd_theme_override :: "bool override"
  gd_font_family :: "rstr override"
  gd_font_family_override :: "bool override"
  gd_font_size :: "rat override"
  gd_font_size_override :: "bool override"
  gd_font_weight :: "rat override"
  gd_font_weight_override :: "bool override"
  gd_backspace_behavior :: "group_backspace override"

definition no_defaults :: group_defaults where
  "no_defaults = \<lparr>
     gd_order = Inherit, gd_username = Inherit, gd_password = CredentialInherit,
     gd_save_password = Inherit, gd_auth_method = Inherit, gd_identity_id = Inherit,
     gd_identity_file_id = Inherit, gd_identity_file_paths = Inherit, gd_port = Inherit,
     gd_protocol = Inherit, gd_device_type = Inherit, gd_agent_forwarding = Inherit,
     gd_proxy = ProxyInherit, gd_host_chain = Inherit, gd_startup_command = Inherit,
     gd_startup_command_run_mode = Inherit, gd_login_script_id = Inherit,
     gd_legacy_algorithms = Inherit, gd_skip_ecdsa_host_key = Inherit, gd_algorithms = Inherit,
     gd_environment_variables = Inherit, gd_charset = Inherit, gd_mosh_enabled = Inherit,
     gd_mosh_server_path = Inherit, gd_et_enabled = Inherit, gd_et_port = Inherit,
     gd_telnet_enabled = Inherit, gd_telnet_port = Inherit, gd_telnet_identity_id = Inherit,
     gd_telnet_username = Inherit, gd_telnet_password = CredentialInherit, gd_theme = Inherit,
     gd_theme_override = Inherit, gd_font_family = Inherit, gd_font_family_override = Inherit,
     gd_font_size = Inherit, gd_font_size_override = Inherit, gd_font_weight = Inherit,
     gd_font_weight_override = Inherit, gd_backspace_behavior = Inherit\<rparr>"

definition validate_ref :: "string \<Rightarrow> rstr \<Rightarrow> group_config_error + unit" where
  "validate_ref field i = (case validate_opaque_id field i of
     Inl _ \<Rightarrow> Inl (ConfigUnsafeCharacters field) | Inr _ \<Rightarrow> Inr ())"

definition validate_defaults :: "group_defaults \<Rightarrow> group_config_error + unit" where
  "validate_defaults d =
     and_then (case gd_identity_id d of
         Set (KeyIdentity i) \<Rightarrow> validate_ref ''identityId'' i
       | Set (PasswordIdentityRef i) \<Rightarrow> validate_ref ''identityId'' i
       | _ \<Rightarrow> Inr ()) (\<lambda>_.
     and_then (case gd_identity_file_id d of Set i \<Rightarrow> validate_ref ''identityFileId'' i | _ \<Rightarrow> Inr ()) (\<lambda>_.
     and_then (case gd_proxy d of Profile i \<Rightarrow> validate_ref ''proxyProfileId'' i | _ \<Rightarrow> Inr ()) (\<lambda>_.
     and_then (case gd_telnet_identity_id d of Set i \<Rightarrow> validate_ref ''telnetIdentityId'' i | _ \<Rightarrow> Inr ()) (\<lambda>_.
     case gd_algorithms d of Set a \<Rightarrow> validate_algorithms a | _ \<Rightarrow> Inr ()))))"

definition clear_manual_ssh_bundle :: "group_defaults \<Rightarrow> group_defaults" where
  "clear_manual_ssh_bundle d = d\<lparr>gd_username := Inherit, gd_password := CredentialInherit,
     gd_save_password := Inherit, gd_auth_method := Inherit, gd_identity_file_id := Inherit,
     gd_identity_file_paths := Inherit\<rparr>"

definition clear_manual_telnet_bundle :: "group_defaults \<Rightarrow> group_defaults" where
  "clear_manual_telnet_bundle d = d\<lparr>gd_telnet_username := Inherit, gd_telnet_password := CredentialInherit\<rparr>"

definition has_manual_ssh :: "group_defaults \<Rightarrow> bool" where
  "has_manual_ssh child \<longleftrightarrow>
     is_defined (gd_username child) \<or> credential_defined (gd_password child) \<or>
     is_defined (gd_save_password child) \<or> is_defined (gd_auth_method child) \<or>
     is_defined (gd_identity_file_id child) \<or> is_defined (gd_identity_file_paths child)"

definition has_manual_telnet :: "group_defaults \<Rightarrow> bool" where
  "has_manual_telnet child \<longleftrightarrow>
     is_defined (gd_telnet_username child) \<or> credential_defined (gd_telnet_password child)"

definition is_set :: "'a override \<Rightarrow> bool" where
  "is_set v = (case v of Set _ \<Rightarrow> True | _ \<Rightarrow> False)"

definition prepare_ssh_bundle :: "group_defaults \<Rightarrow> group_defaults \<Rightarrow> group_defaults" where
  "prepare_ssh_bundle target child =
     (if is_defined (gd_identity_id child) then clear_manual_ssh_bundle target
      else if has_manual_ssh child then
        let replaces_selected_identity = is_set (gd_identity_id target);
            target = target\<lparr>gd_identity_id := Inherit\<rparr>
        in if replaces_selected_identity then clear_manual_ssh_bundle target else target
      else target)"

definition prepare_telnet_bundle :: "group_defaults \<Rightarrow> group_defaults \<Rightarrow> group_defaults" where
  "prepare_telnet_bundle target child =
     (if is_defined (gd_telnet_identity_id child) then clear_manual_telnet_bundle target
      else if has_manual_telnet child then
        let replaces_selected_identity = is_set (gd_telnet_identity_id target);
            target = target\<lparr>gd_telnet_identity_id := Inherit\<rparr>
        in if replaces_selected_identity then clear_manual_telnet_bundle target else target
      else target)"

text \<open>
  \<^verbatim>\<open>merge_style_pair\<close> by its two targets: a flag that is explicitly off ignores the value of the same
  level, removes the inherited flag and leaves the inherited value.
\<close>

definition merge_style_value :: "'a override \<Rightarrow> 'a override \<Rightarrow> bool override \<Rightarrow> 'a override" where
  "merge_style_value target_value child_value child_flag =
     (if child_flag = Set False then target_value else merge_override target_value child_value)"

definition merge_style_flag :: "bool override \<Rightarrow> bool override \<Rightarrow> bool override" where
  "merge_style_flag target_flag child_flag =
     (if child_flag = Set False then Inherit else merge_override target_flag child_flag)"

definition merge_fields_from :: "group_defaults \<Rightarrow> group_defaults \<Rightarrow> group_defaults" where
  "merge_fields_from target child = \<lparr>
     gd_order = merge_override (gd_order target) (gd_order child),
     gd_username = merge_override (gd_username target) (gd_username child),
     gd_password = merge_credential (gd_password target) (gd_password child),
     gd_save_password = merge_override (gd_save_password target) (gd_save_password child),
     gd_auth_method = merge_override (gd_auth_method target) (gd_auth_method child),
     gd_identity_id = merge_override (gd_identity_id target) (gd_identity_id child),
     gd_identity_file_id = merge_override (gd_identity_file_id target) (gd_identity_file_id child),
     gd_identity_file_paths = merge_override (gd_identity_file_paths target) (gd_identity_file_paths child),
     gd_port = merge_override (gd_port target) (gd_port child),
     gd_protocol = merge_override (gd_protocol target) (gd_protocol child),
     gd_device_type = merge_override (gd_device_type target) (gd_device_type child),
     gd_agent_forwarding = merge_override (gd_agent_forwarding target) (gd_agent_forwarding child),
     gd_proxy = merge_proxy (gd_proxy target) (gd_proxy child),
     gd_host_chain = merge_override (gd_host_chain target) (gd_host_chain child),
     gd_startup_command = merge_override (gd_startup_command target) (gd_startup_command child),
     gd_startup_command_run_mode = merge_override (gd_startup_command_run_mode target) (gd_startup_command_run_mode child),
     gd_login_script_id = merge_override (gd_login_script_id target) (gd_login_script_id child),
     gd_legacy_algorithms = merge_override (gd_legacy_algorithms target) (gd_legacy_algorithms child),
     gd_skip_ecdsa_host_key = merge_override (gd_skip_ecdsa_host_key target) (gd_skip_ecdsa_host_key child),
     gd_algorithms = merge_override (gd_algorithms target) (gd_algorithms child),
     gd_environment_variables = merge_override (gd_environment_variables target) (gd_environment_variables child),
     gd_charset = merge_override (gd_charset target) (gd_charset child),
     gd_mosh_enabled = merge_override (gd_mosh_enabled target) (gd_mosh_enabled child),
     gd_mosh_server_path = merge_override (gd_mosh_server_path target) (gd_mosh_server_path child),
     gd_et_enabled = merge_override (gd_et_enabled target) (gd_et_enabled child),
     gd_et_port = merge_override (gd_et_port target) (gd_et_port child),
     gd_telnet_enabled = merge_override (gd_telnet_enabled target) (gd_telnet_enabled child),
     gd_telnet_port = merge_override (gd_telnet_port target) (gd_telnet_port child),
     gd_telnet_identity_id = merge_override (gd_telnet_identity_id target) (gd_telnet_identity_id child),
     gd_telnet_username = merge_override (gd_telnet_username target) (gd_telnet_username child),
     gd_telnet_password = merge_credential (gd_telnet_password target) (gd_telnet_password child),
     gd_theme = merge_style_value (gd_theme target) (gd_theme child) (gd_theme_override child),
     gd_theme_override = merge_style_flag (gd_theme_override target) (gd_theme_override child),
     gd_font_family = merge_style_value (gd_font_family target) (gd_font_family child) (gd_font_family_override child),
     gd_font_family_override = merge_style_flag (gd_font_family_override target) (gd_font_family_override child),
     gd_font_size = merge_style_value (gd_font_size target) (gd_font_size child) (gd_font_size_override child),
     gd_font_size_override = merge_style_flag (gd_font_size_override target) (gd_font_size_override child),
     gd_font_weight = merge_style_value (gd_font_weight target) (gd_font_weight child) (gd_font_weight_override child),
     gd_font_weight_override = merge_style_flag (gd_font_weight_override target) (gd_font_weight_override child),
     gd_backspace_behavior = merge_override (gd_backspace_behavior target) (gd_backspace_behavior child)\<rparr>"

definition merge_from :: "group_defaults \<Rightarrow> group_defaults \<Rightarrow> group_defaults" where
  "merge_from target child =
     merge_fields_from (prepare_telnet_bundle (prepare_ssh_bundle target child) child) child"

section \<open>Records\<close>

record group_config =
  gc_record_version :: nat
  gc_id :: rstr
  gc_revision :: nat
  gc_path :: rstr
  gc_defaults :: group_defaults
  gc_created_at :: nat
  gc_updated_at :: nat

record group_config_update =
  gu_path :: "rstr option"
  gu_defaults :: "group_defaults option"

definition validate_config :: "group_config \<Rightarrow> group_config_error + unit" where
  "validate_config c =
     (if gc_record_version c \<noteq> GROUP_CONFIG_RECORD_VERSION then Inl NonCanonicalRecordVersion
      else and_then (group_id_from_opaque (gc_id c)) (\<lambda>_.
        if gc_revision c = 0 then Inl ConfigInvalidRevision
        else if gc_updated_at c < gc_created_at c then Inl ConfigInvalidTimestamps
        else validate_defaults (gc_defaults c)))"

definition config_from_parts ::
    "rstr \<Rightarrow> nat \<Rightarrow> rstr \<Rightarrow> group_defaults \<Rightarrow> nat \<Rightarrow> nat \<Rightarrow> group_config_error + group_config" where
  "config_from_parts i revision path defaults created updated =
     (let saved = \<lparr>gc_record_version = GROUP_CONFIG_RECORD_VERSION, gc_id = i, gc_revision = revision,
                   gc_path = path, gc_defaults = defaults, gc_created_at = created, gc_updated_at = updated\<rparr>
      in and_then (validate_config saved) (\<lambda>_. Inr saved))"

definition config_new :: "rstr \<Rightarrow> rstr \<Rightarrow> group_defaults \<Rightarrow> nat \<Rightarrow> group_config_error + group_config" where
  "config_new fresh path defaults now = config_from_parts fresh 1 path defaults now now"

definition config_apply_update ::
    "group_config \<Rightarrow> group_config_update \<Rightarrow> nat \<Rightarrow> group_config_error + group_config" where
  "config_apply_update c u now =
     (if gu_path u = None \<and> gu_defaults u = None then Inl ConfigEmptyUpdate
      else case checked_add64 (gc_revision c) 1 of
        None \<Rightarrow> Inl ConfigInvalidRevision
      | Some revision \<Rightarrow>
          let next_config = c\<lparr>
              gc_path := (case gu_path u of None \<Rightarrow> gc_path c | Some p \<Rightarrow> p),
              gc_defaults := (case gu_defaults u of None \<Rightarrow> gc_defaults c | Some d \<Rightarrow> d),
              gc_record_version := GROUP_CONFIG_RECORD_VERSION,
              gc_revision := revision,
              gc_updated_at := max now (saturating_add64 (gc_updated_at c) 1)\<rparr>
          in and_then (validate_config next_config) (\<lambda>_. Inr next_config))"

section \<open>Resolution\<close>

record resolved_group =
  rg_defaults :: group_defaults
  rg_ssh_credential_owner :: "rstr option"
  rg_telnet_credential_owner :: "rstr option"
  rg_inline_proxy_credential_owner :: "rstr option"

definition no_resolved :: resolved_group where
  "no_resolved = \<lparr>rg_defaults = no_defaults, rg_ssh_credential_owner = None,
     rg_telnet_credential_owner = None, rg_inline_proxy_credential_owner = None\<rparr>"

text \<open>
  The owner of an inherited manual password: \<open>identity\<close> says whether the child defines an identity,
  \<open>replaces\<close> whether its manual fields replace a selected one, \<open>password\<close> is its password slot.
\<close>

definition merge_owner :: "bool \<Rightarrow> bool \<Rightarrow> credential_override \<Rightarrow> rstr \<Rightarrow> rstr option \<Rightarrow> rstr option" where
  "merge_owner identity replaces password i owner =
     (let owner = (if identity \<or> replaces then None else owner)
      in if identity then owner
         else (case password of
             StoredHint \<Rightarrow> Some i
           | CredentialClear \<Rightarrow> None
           | CredentialInherit \<Rightarrow> owner))"

definition merge_proxy_owner :: "proxy_override \<Rightarrow> rstr \<Rightarrow> rstr option \<Rightarrow> rstr option" where
  "merge_proxy_owner child i owner = (case child of
     ProxyInherit \<Rightarrow> owner
   | Inline c \<Rightarrow> if inline_proxy_has_saved_manual_credential c then Some i else None
   | _ \<Rightarrow> None)"

definition merge_record :: "resolved_group \<Rightarrow> group_config \<Rightarrow> resolved_group" where
  "merge_record r config =
     (let child = gc_defaults config
      in \<lparr>rg_defaults = merge_from (rg_defaults r) child,
          rg_ssh_credential_owner = merge_owner (is_defined (gd_identity_id child))
            (has_manual_ssh child \<and> is_set (gd_identity_id (rg_defaults r))) (gd_password child)
            (gc_id config) (rg_ssh_credential_owner r),
          rg_telnet_credential_owner = merge_owner (is_defined (gd_telnet_identity_id child))
            (has_manual_telnet child \<and> is_set (gd_telnet_identity_id (rg_defaults r)))
            (gd_telnet_password child) (gc_id config) (rg_telnet_credential_owner r),
          rg_inline_proxy_credential_owner = merge_proxy_owner (gd_proxy child) (gc_id config)
            (rg_inline_proxy_credential_owner r)\<rparr>)"

definition by_path :: "group_config list \<Rightarrow> rstr \<rightharpoonup> group_config" where
  "by_path configs = fold (\<lambda>c m. m(gc_path c \<mapsto> c)) configs Map.empty"

definition resolve_group_defaults_with_provenance :: "rstr \<Rightarrow> group_config list \<Rightarrow> resolved_group" where
  "resolve_group_defaults_with_provenance path configs =
     fold (\<lambda>ancestor r. case by_path configs ancestor of None \<Rightarrow> r | Some c \<Rightarrow> merge_record r c)
       (ancestors path) no_resolved"

definition resolve_group_defaults :: "rstr \<Rightarrow> group_config list \<Rightarrow> group_defaults" where
  "resolve_group_defaults path configs =
     rg_defaults (resolve_group_defaults_with_provenance path configs)"

section \<open>The chain of records\<close>

text \<open>The records that count for a path, root first: the last one of every ancestor that has any.\<close>

definition record_chain :: "rstr \<Rightarrow> group_config list \<Rightarrow> group_config list" where
  "record_chain path configs = List.map_filter (by_path configs) (ancestors path)"

lemma by_path_append: "by_path (cs @ [c]) = (by_path cs)(gc_path c \<mapsto> c)"
  by (simp add: by_path_def)

lemma by_path_Some: "by_path cs p = Some c \<Longrightarrow> gc_path c = p \<and> c \<in> set cs"
  by (induction cs rule: rev_induct) (auto simp: by_path_append by_path_def [of "[]"] split: if_splits)

lemma by_path_cases:
  "by_path (xs @ ys) p = (case by_path ys p of None \<Rightarrow> by_path xs p | Some c \<Rightarrow> Some c)"
proof (induction ys rule: rev_induct)
  case (snoc c ys)
  have "by_path (xs @ ys @ [c]) = (by_path (xs @ ys))(gc_path c \<mapsto> c)"
    using by_path_append [of "xs @ ys" c] by simp
  with snoc show ?case by (simp add: by_path_append)
qed (simp add: by_path_def [of "[]"])

lemma by_path_shadowed:
  assumes "gc_path c \<in> gc_path ` set ys"
  shows "by_path (xs @ c # ys) = by_path (xs @ ys)"
proof
  fix p
  have some: "\<exists>d. by_path ys (gc_path c) = Some d"
    using assms
    by (induction ys rule: rev_induct) (auto simp: by_path_append)
  have "by_path (c # ys) p = by_path ys p"
  proof (cases "by_path ys p")
    case None
    then have "p \<noteq> gc_path c" using some by auto
    then show ?thesis using by_path_cases [of "[c]" ys p] None by (simp add: by_path_def [of "[c]"])
  next
    case (Some d)
    then show ?thesis using by_path_cases [of "[c]" ys p] by simp
  qed
  then show "by_path (xs @ c # ys) p = by_path (xs @ ys) p"
    using by_path_cases [of xs "c # ys" p] by_path_cases [of xs ys p] by simp
qed

lemma fold_chain:
  "fold (\<lambda>a r. case f a of None \<Rightarrow> r | Some c \<Rightarrow> g r c) as r = foldl g r (List.map_filter f as)"
  by (induction as arbitrary: r) (auto split: option.split)

lemma resolve_chain:
  "resolve_group_defaults_with_provenance path configs = foldl merge_record no_resolved (record_chain path configs)"
  unfolding resolve_group_defaults_with_provenance_def record_chain_def by (rule fold_chain)

lemma merge_record_defaults [simp]:
  "rg_defaults (merge_record r c) = merge_from (rg_defaults r) (gc_defaults c)"
  by (simp add: merge_record_def Let_def)

lemma resolve_defaults:
  "rg_defaults (foldl merge_record r cs) = foldl merge_from (rg_defaults r) (map gc_defaults cs)"
  by (induction cs arbitrary: r) simp_all

section \<open>Plain fields: the nearest ancestor wins\<close>

definition nearest :: "'a override list \<Rightarrow> 'a override" where
  "nearest vs = (case find is_defined (rev vs) of None \<Rightarrow> Inherit | Some v \<Rightarrow> v)"

definition nearest_proxy :: "proxy_override list \<Rightarrow> proxy_override" where
  "nearest_proxy vs = (case find (\<lambda>v. v \<noteq> ProxyInherit) (rev vs) of None \<Rightarrow> ProxyInherit | Some v \<Rightarrow> v)"

definition inherits_nearest :: "group_defaults \<Rightarrow> group_defaults list \<Rightarrow> bool" where
  "inherits_nearest d ds \<longleftrightarrow>
     gd_order d = nearest (map gd_order ds) \<and>
     gd_port d = nearest (map gd_port ds) \<and>
     gd_protocol d = nearest (map gd_protocol ds) \<and>
     gd_device_type d = nearest (map gd_device_type ds) \<and>
     gd_agent_forwarding d = nearest (map gd_agent_forwarding ds) \<and>
     gd_host_chain d = nearest (map gd_host_chain ds) \<and>
     gd_startup_command d = nearest (map gd_startup_command ds) \<and>
     gd_startup_command_run_mode d = nearest (map gd_startup_command_run_mode ds) \<and>
     gd_login_script_id d = nearest (map gd_login_script_id ds) \<and>
     gd_legacy_algorithms d = nearest (map gd_legacy_algorithms ds) \<and>
     gd_skip_ecdsa_host_key d = nearest (map gd_skip_ecdsa_host_key ds) \<and>
     gd_algorithms d = nearest (map gd_algorithms ds) \<and>
     gd_environment_variables d = nearest (map gd_environment_variables ds) \<and>
     gd_charset d = nearest (map gd_charset ds) \<and>
     gd_mosh_enabled d = nearest (map gd_mosh_enabled ds) \<and>
     gd_mosh_server_path d = nearest (map gd_mosh_server_path ds) \<and>
     gd_et_enabled d = nearest (map gd_et_enabled ds) \<and>
     gd_et_port d = nearest (map gd_et_port ds) \<and>
     gd_telnet_enabled d = nearest (map gd_telnet_enabled ds) \<and>
     gd_telnet_port d = nearest (map gd_telnet_port ds) \<and>
     gd_backspace_behavior d = nearest (map gd_backspace_behavior ds) \<and>
     gd_proxy d = nearest_proxy (map gd_proxy ds)"

lemma foldl_nearest: "foldl merge_override Inherit vs = nearest vs"
  by (induction vs rule: rev_induct)
    (auto simp: nearest_def merge_override_def is_defined_def)

lemma foldl_nearest_proxy: "foldl merge_proxy ProxyInherit vs = nearest_proxy vs"
  by (induction vs rule: rev_induct) (auto simp: nearest_proxy_def merge_proxy_def)

lemmas prepare_defs = prepare_ssh_bundle_def prepare_telnet_bundle_def clear_manual_ssh_bundle_def
  clear_manual_telnet_bundle_def Let_def

lemma merge_from_plain [simp]:
  "gd_order (merge_from t c) = merge_override (gd_order t) (gd_order c)"
  "gd_port (merge_from t c) = merge_override (gd_port t) (gd_port c)"
  "gd_protocol (merge_from t c) = merge_override (gd_protocol t) (gd_protocol c)"
  "gd_device_type (merge_from t c) = merge_override (gd_device_type t) (gd_device_type c)"
  "gd_agent_forwarding (merge_from t c) = merge_override (gd_agent_forwarding t) (gd_agent_forwarding c)"
  "gd_host_chain (merge_from t c) = merge_override (gd_host_chain t) (gd_host_chain c)"
  "gd_startup_command (merge_from t c) = merge_override (gd_startup_command t) (gd_startup_command c)"
  "gd_startup_command_run_mode (merge_from t c) = merge_override (gd_startup_command_run_mode t) (gd_startup_command_run_mode c)"
  "gd_login_script_id (merge_from t c) = merge_override (gd_login_script_id t) (gd_login_script_id c)"
  "gd_legacy_algorithms (merge_from t c) = merge_override (gd_legacy_algorithms t) (gd_legacy_algorithms c)"
  "gd_skip_ecdsa_host_key (merge_from t c) = merge_override (gd_skip_ecdsa_host_key t) (gd_skip_ecdsa_host_key c)"
  "gd_algorithms (merge_from t c) = merge_override (gd_algorithms t) (gd_algorithms c)"
  "gd_environment_variables (merge_from t c) = merge_override (gd_environment_variables t) (gd_environment_variables c)"
  "gd_charset (merge_from t c) = merge_override (gd_charset t) (gd_charset c)"
  "gd_mosh_enabled (merge_from t c) = merge_override (gd_mosh_enabled t) (gd_mosh_enabled c)"
  "gd_mosh_server_path (merge_from t c) = merge_override (gd_mosh_server_path t) (gd_mosh_server_path c)"
  "gd_et_enabled (merge_from t c) = merge_override (gd_et_enabled t) (gd_et_enabled c)"
  "gd_et_port (merge_from t c) = merge_override (gd_et_port t) (gd_et_port c)"
  "gd_telnet_enabled (merge_from t c) = merge_override (gd_telnet_enabled t) (gd_telnet_enabled c)"
  "gd_telnet_port (merge_from t c) = merge_override (gd_telnet_port t) (gd_telnet_port c)"
  "gd_backspace_behavior (merge_from t c) = merge_override (gd_backspace_behavior t) (gd_backspace_behavior c)"
  "gd_proxy (merge_from t c) = merge_proxy (gd_proxy t) (gd_proxy c)"
  by (simp_all add: merge_from_def merge_fields_from_def prepare_defs)

lemma field_fold:
  assumes "\<And>t c. f (merge_from t c) = m (f t) (f c)"
  shows "f (foldl merge_from d ds) = foldl m (f d) (map f ds)"
  by (induction ds arbitrary: d) (simp_all add: assms)

lemma no_defaults_plain [simp]:
  "gd_order no_defaults = Inherit"
  "gd_port no_defaults = Inherit"
  "gd_protocol no_defaults = Inherit"
  "gd_device_type no_defaults = Inherit"
  "gd_agent_forwarding no_defaults = Inherit"
  "gd_host_chain no_defaults = Inherit"
  "gd_startup_command no_defaults = Inherit"
  "gd_startup_command_run_mode no_defaults = Inherit"
  "gd_login_script_id no_defaults = Inherit"
  "gd_legacy_algorithms no_defaults = Inherit"
  "gd_skip_ecdsa_host_key no_defaults = Inherit"
  "gd_algorithms no_defaults = Inherit"
  "gd_environment_variables no_defaults = Inherit"
  "gd_charset no_defaults = Inherit"
  "gd_mosh_enabled no_defaults = Inherit"
  "gd_mosh_server_path no_defaults = Inherit"
  "gd_et_enabled no_defaults = Inherit"
  "gd_et_port no_defaults = Inherit"
  "gd_telnet_enabled no_defaults = Inherit"
  "gd_telnet_port no_defaults = Inherit"
  "gd_backspace_behavior no_defaults = Inherit"
  "gd_proxy no_defaults = ProxyInherit"
  by (simp_all add: no_defaults_def)

lemma plain_fold:
  "gd_order (foldl merge_from d ds) = foldl merge_override (gd_order d) (map gd_order ds)"
  "gd_port (foldl merge_from d ds) = foldl merge_override (gd_port d) (map gd_port ds)"
  "gd_protocol (foldl merge_from d ds) = foldl merge_override (gd_protocol d) (map gd_protocol ds)"
  "gd_device_type (foldl merge_from d ds) = foldl merge_override (gd_device_type d) (map gd_device_type ds)"
  "gd_agent_forwarding (foldl merge_from d ds) = foldl merge_override (gd_agent_forwarding d) (map gd_agent_forwarding ds)"
  "gd_host_chain (foldl merge_from d ds) = foldl merge_override (gd_host_chain d) (map gd_host_chain ds)"
  "gd_startup_command (foldl merge_from d ds) = foldl merge_override (gd_startup_command d) (map gd_startup_command ds)"
  "gd_startup_command_run_mode (foldl merge_from d ds) = foldl merge_override (gd_startup_command_run_mode d) (map gd_startup_command_run_mode ds)"
  "gd_login_script_id (foldl merge_from d ds) = foldl merge_override (gd_login_script_id d) (map gd_login_script_id ds)"
  "gd_legacy_algorithms (foldl merge_from d ds) = foldl merge_override (gd_legacy_algorithms d) (map gd_legacy_algorithms ds)"
  "gd_skip_ecdsa_host_key (foldl merge_from d ds) = foldl merge_override (gd_skip_ecdsa_host_key d) (map gd_skip_ecdsa_host_key ds)"
  "gd_algorithms (foldl merge_from d ds) = foldl merge_override (gd_algorithms d) (map gd_algorithms ds)"
  "gd_environment_variables (foldl merge_from d ds) = foldl merge_override (gd_environment_variables d) (map gd_environment_variables ds)"
  "gd_charset (foldl merge_from d ds) = foldl merge_override (gd_charset d) (map gd_charset ds)"
  "gd_mosh_enabled (foldl merge_from d ds) = foldl merge_override (gd_mosh_enabled d) (map gd_mosh_enabled ds)"
  "gd_mosh_server_path (foldl merge_from d ds) = foldl merge_override (gd_mosh_server_path d) (map gd_mosh_server_path ds)"
  "gd_et_enabled (foldl merge_from d ds) = foldl merge_override (gd_et_enabled d) (map gd_et_enabled ds)"
  "gd_et_port (foldl merge_from d ds) = foldl merge_override (gd_et_port d) (map gd_et_port ds)"
  "gd_telnet_enabled (foldl merge_from d ds) = foldl merge_override (gd_telnet_enabled d) (map gd_telnet_enabled ds)"
  "gd_telnet_port (foldl merge_from d ds) = foldl merge_override (gd_telnet_port d) (map gd_telnet_port ds)"
  "gd_backspace_behavior (foldl merge_from d ds) = foldl merge_override (gd_backspace_behavior d) (map gd_backspace_behavior ds)"
  "gd_proxy (foldl merge_from d ds) = foldl merge_proxy (gd_proxy d) (map gd_proxy ds)"
  by (rule field_fold, simp)+

lemma folded_nearest: "inherits_nearest (foldl merge_from no_defaults ds) ds"
  unfolding inherits_nearest_def plain_fold no_defaults_plain foldl_nearest foldl_nearest_proxy by simp

lemma resolve_group_defaults_eq:
  "resolve_group_defaults path configs = foldl merge_from no_defaults (map gc_defaults (record_chain path configs))"
  by (simp add: resolve_group_defaults_def resolve_chain resolve_defaults no_resolved_def)

lemma chain_paths:
  "map gc_path (record_chain path configs) = filter (\<lambda>a. a \<in> gc_path ` set configs) (ancestors path)"
proof -
  have some: "by_path configs a \<noteq> None \<longleftrightarrow> a \<in> gc_path ` set configs" for a
    by (induction configs rule: rev_induct) (auto simp: by_path_append by_path_def [of "[]"])
  have "map gc_path (List.map_filter (by_path configs) as) = filter (\<lambda>a. a \<in> gc_path ` set configs) as" for as
  proof (induction as)
    case (Cons a as)
    then show ?case
      using some [of a] by (cases "by_path configs a") (auto dest: by_path_Some)
  qed simp
  then show ?thesis by (simp add: record_chain_def)
qed

section \<open>Styles and credentials\<close>

definition defines_ssh :: "group_defaults \<Rightarrow> bool" where
  "defines_ssh d \<longleftrightarrow> is_defined (gd_identity_id d) \<or> has_manual_ssh d"

definition defines_telnet :: "group_defaults \<Rightarrow> bool" where
  "defines_telnet d \<longleftrightarrow> is_defined (gd_telnet_identity_id d) \<or> has_manual_telnet d"

lemma merge_override_cases [simp]:
  "merge_override t Inherit = t" "merge_override t Clear = Clear" "merge_override t (Set x) = Set x"
  "merge_override Inherit v = v"
  by (simp_all add: merge_override_def is_defined_def)

lemma merge_credential_cases [simp]:
  "merge_credential t CredentialInherit = t" "merge_credential t CredentialClear = CredentialClear"
  "merge_credential t StoredHint = StoredHint" "merge_credential CredentialInherit v = v"
  by (simp_all add: merge_credential_def credential_defined_def)

lemma is_defined_simps [simp]: "\<not> is_defined Inherit" "is_defined Clear" "is_defined (Set x)"
  by (simp_all add: is_defined_def)

lemma credential_defined_simps [simp]:
  "\<not> credential_defined CredentialInherit" "credential_defined CredentialClear" "credential_defined StoredHint"
  by (simp_all add: credential_defined_def)

lemma is_set_simps [simp]: "\<not> is_set Inherit" "\<not> is_set Clear" "is_set (Set x)"
  by (simp_all add: is_set_def)

text \<open>The value of a style comes from the nearest record that defines it and does not switch it off; the
  nearest flag decides, and off is the same as nothing.\<close>

definition nearest_style :: "(group_defaults \<Rightarrow> 'a override) \<Rightarrow> (group_defaults \<Rightarrow> bool override) \<Rightarrow> group_defaults list \<Rightarrow> 'a override" where
  "nearest_style f flag ds = nearest (map f (filter (\<lambda>d. flag d \<noteq> Set False) ds))"

definition nearest_flag :: "bool override list \<Rightarrow> bool override" where
  "nearest_flag vs = (if nearest vs = Set False then Inherit else nearest vs)"

definition nearest_credential :: "credential_override list \<Rightarrow> credential_override" where
  "nearest_credential vs = (case find credential_defined (rev vs) of None \<Rightarrow> CredentialInherit | Some v \<Rightarrow> v)"

text \<open>The nearest record that says anything of a bundle selects the identity, or none.\<close>

definition nearest_identity :: "(group_defaults \<Rightarrow> bool) \<Rightarrow> (group_defaults \<Rightarrow> 'a override) \<Rightarrow> group_defaults list \<Rightarrow> 'a override" where
  "nearest_identity says f ds = (case find says (rev ds) of None \<Rightarrow> Inherit | Some d \<Rightarrow> f d)"

text \<open>The records whose manual credentials count, nearest first: a record that decides about the identity
  ends the search, and so does one with manual credentials below a selected identity.\<close>

fun credential_line ::
  "(group_defaults \<Rightarrow> bool) \<Rightarrow> (group_defaults \<Rightarrow> 'a override) \<Rightarrow> group_defaults list \<Rightarrow> group_defaults list" where
  "credential_line manual f [] = []"
| "credential_line manual f (d # upper) =
     (if is_defined (f d) then [d]
      else if \<not> manual d then credential_line manual f upper
      else if is_set (nearest_identity (\<lambda>c. is_defined (f c) \<or> manual c) f (rev upper)) then [d]
      else d # credential_line manual f upper)"

definition ssh_line :: "group_defaults list \<Rightarrow> group_defaults list" where
  "ssh_line ds = rev (credential_line has_manual_ssh gd_identity_id (rev ds))"

definition telnet_line :: "group_defaults list \<Rightarrow> group_defaults list" where
  "telnet_line ds = rev (credential_line has_manual_telnet gd_telnet_identity_id (rev ds))"

definition inherits_styles :: "group_defaults \<Rightarrow> group_defaults list \<Rightarrow> bool" where
  "inherits_styles d ds \<longleftrightarrow>
     gd_theme d = nearest_style gd_theme gd_theme_override ds \<and>
     gd_theme_override d = nearest_flag (map gd_theme_override ds) \<and>
     gd_font_family d = nearest_style gd_font_family gd_font_family_override ds \<and>
     gd_font_family_override d = nearest_flag (map gd_font_family_override ds) \<and>
     gd_font_size d = nearest_style gd_font_size gd_font_size_override ds \<and>
     gd_font_size_override d = nearest_flag (map gd_font_size_override ds) \<and>
     gd_font_weight d = nearest_style gd_font_weight gd_font_weight_override ds \<and>
     gd_font_weight_override d = nearest_flag (map gd_font_weight_override ds)"

definition inherits_credentials :: "group_defaults \<Rightarrow> group_defaults list \<Rightarrow> bool" where
  "inherits_credentials d ds \<longleftrightarrow>
     gd_identity_id d = nearest_identity defines_ssh gd_identity_id ds \<and>
     gd_username d = nearest (map gd_username (ssh_line ds)) \<and>
     gd_password d = nearest_credential (map gd_password (ssh_line ds)) \<and>
     gd_save_password d = nearest (map gd_save_password (ssh_line ds)) \<and>
     gd_auth_method d = nearest (map gd_auth_method (ssh_line ds)) \<and>
     gd_identity_file_id d = nearest (map gd_identity_file_id (ssh_line ds)) \<and>
     gd_identity_file_paths d = nearest (map gd_identity_file_paths (ssh_line ds)) \<and>
     gd_telnet_identity_id d = nearest_identity defines_telnet gd_telnet_identity_id ds \<and>
     gd_telnet_username d = nearest (map gd_telnet_username (telnet_line ds)) \<and>
     gd_telnet_password d = nearest_credential (map gd_telnet_password (telnet_line ds))"

lemma nearest_snoc [simp]: "nearest [] = Inherit" "nearest (vs @ [v]) = merge_override (nearest vs) v"
  by (simp_all add: nearest_def merge_override_def)

lemma nearest_credential_snoc [simp]:
  "nearest_credential [] = CredentialInherit"
  "nearest_credential (vs @ [v]) = merge_credential (nearest_credential vs) v"
  by (simp_all add: nearest_credential_def merge_credential_def)

lemma nearest_style_snoc [simp]:
  "nearest_style f flag [] = Inherit"
  "nearest_style f flag (ds @ [d]) = merge_style_value (nearest_style f flag ds) (f d) (flag d)"
  by (simp_all add: nearest_style_def merge_style_value_def)

lemma nearest_flag_snoc [simp]:
  "nearest_flag [] = Inherit"
  "nearest_flag (vs @ [v]) = merge_style_flag (nearest_flag vs) v"
  by (cases v; simp add: nearest_flag_def merge_style_flag_def)+

lemma nearest_identity_snoc [simp]:
  "nearest_identity says f [] = Inherit"
  "nearest_identity says f (ds @ [d]) = (if says d then f d else nearest_identity says f ds)"
  by (simp_all add: nearest_identity_def)

lemma line_snoc [simp]:
  "ssh_line [] = []" "telnet_line [] = []"
  "ssh_line (ds @ [d]) =
     (if is_defined (gd_identity_id d) then [d] else if \<not> has_manual_ssh d then ssh_line ds
      else if is_set (nearest_identity defines_ssh gd_identity_id ds) then [d] else ssh_line ds @ [d])"
  "telnet_line (ds @ [d]) =
     (if is_defined (gd_telnet_identity_id d) then [d] else if \<not> has_manual_telnet d then telnet_line ds
      else if is_set (nearest_identity defines_telnet gd_telnet_identity_id ds) then [d] else telnet_line ds @ [d])"
  by (simp_all add: ssh_line_def telnet_line_def defines_ssh_def [abs_def] defines_telnet_def [abs_def])

lemma merge_from_style [simp]:
  "gd_theme (merge_from t c) = merge_style_value (gd_theme t) (gd_theme c) (gd_theme_override c)"
  "gd_theme_override (merge_from t c) = merge_style_flag (gd_theme_override t) (gd_theme_override c)"
  "gd_font_family (merge_from t c) = merge_style_value (gd_font_family t) (gd_font_family c) (gd_font_family_override c)"
  "gd_font_family_override (merge_from t c) = merge_style_flag (gd_font_family_override t) (gd_font_family_override c)"
  "gd_font_size (merge_from t c) = merge_style_value (gd_font_size t) (gd_font_size c) (gd_font_size_override c)"
  "gd_font_size_override (merge_from t c) = merge_style_flag (gd_font_size_override t) (gd_font_size_override c)"
  "gd_font_weight (merge_from t c) = merge_style_value (gd_font_weight t) (gd_font_weight c) (gd_font_weight_override c)"
  "gd_font_weight_override (merge_from t c) = merge_style_flag (gd_font_weight_override t) (gd_font_weight_override c)"
  by (simp_all add: merge_from_def merge_fields_from_def prepare_defs)

lemma folded_styles: "inherits_styles (foldl merge_from no_defaults ds) ds"
proof (induction ds rule: rev_induct)
  case Nil
  then show ?case by (simp add: inherits_styles_def no_defaults_def)
next
  case (snoc d ds)
  then show ?case by (simp add: inherits_styles_def)
qed

text \<open>A child's credentials over those of its ancestors.\<close>

definition replaces :: "bool \<Rightarrow> 'a override \<Rightarrow> 'a override \<Rightarrow> bool" where
  "replaces manual selected own \<longleftrightarrow> is_defined own \<or> manual \<and> is_set selected"

lemma prepared_ssh:
  "gd_identity_id (prepare_ssh_bundle t c) = (if \<not> is_defined (gd_identity_id c) \<and> has_manual_ssh c then Inherit else gd_identity_id t)"
  "gd_username (prepare_ssh_bundle t c) = (if replaces (has_manual_ssh c) (gd_identity_id t) (gd_identity_id c) then Inherit else gd_username t)"
  "gd_password (prepare_ssh_bundle t c) = (if replaces (has_manual_ssh c) (gd_identity_id t) (gd_identity_id c) then CredentialInherit else gd_password t)"
  "gd_save_password (prepare_ssh_bundle t c) = (if replaces (has_manual_ssh c) (gd_identity_id t) (gd_identity_id c) then Inherit else gd_save_password t)"
  "gd_auth_method (prepare_ssh_bundle t c) = (if replaces (has_manual_ssh c) (gd_identity_id t) (gd_identity_id c) then Inherit else gd_auth_method t)"
  "gd_identity_file_id (prepare_ssh_bundle t c) = (if replaces (has_manual_ssh c) (gd_identity_id t) (gd_identity_id c) then Inherit else gd_identity_file_id t)"
  "gd_identity_file_paths (prepare_ssh_bundle t c) = (if replaces (has_manual_ssh c) (gd_identity_id t) (gd_identity_id c) then Inherit else gd_identity_file_paths t)"
  "gd_telnet_username (prepare_ssh_bundle t c) = gd_telnet_username t"
  "gd_telnet_password (prepare_ssh_bundle t c) = gd_telnet_password t"
  "gd_telnet_identity_id (prepare_ssh_bundle t c) = gd_telnet_identity_id t"
  by (simp_all add: prepare_ssh_bundle_def clear_manual_ssh_bundle_def replaces_def Let_def)

lemma prepared_telnet:
  "gd_telnet_identity_id (prepare_telnet_bundle t c) = (if \<not> is_defined (gd_telnet_identity_id c) \<and> has_manual_telnet c then Inherit else gd_telnet_identity_id t)"
  "gd_telnet_username (prepare_telnet_bundle t c) = (if replaces (has_manual_telnet c) (gd_telnet_identity_id t) (gd_telnet_identity_id c) then Inherit else gd_telnet_username t)"
  "gd_telnet_password (prepare_telnet_bundle t c) = (if replaces (has_manual_telnet c) (gd_telnet_identity_id t) (gd_telnet_identity_id c) then CredentialInherit else gd_telnet_password t)"
  "gd_username (prepare_telnet_bundle t c) = gd_username t"
  "gd_password (prepare_telnet_bundle t c) = gd_password t"
  "gd_save_password (prepare_telnet_bundle t c) = gd_save_password t"
  "gd_auth_method (prepare_telnet_bundle t c) = gd_auth_method t"
  "gd_identity_file_id (prepare_telnet_bundle t c) = gd_identity_file_id t"
  "gd_identity_file_paths (prepare_telnet_bundle t c) = gd_identity_file_paths t"
  "gd_identity_id (prepare_telnet_bundle t c) = gd_identity_id t"
  by (simp_all add: prepare_telnet_bundle_def clear_manual_telnet_bundle_def replaces_def Let_def)

lemma merged_credentials:
  "gd_username (merge_fields_from t c) = merge_override (gd_username t) (gd_username c)"
  "gd_password (merge_fields_from t c) = merge_credential (gd_password t) (gd_password c)"
  "gd_save_password (merge_fields_from t c) = merge_override (gd_save_password t) (gd_save_password c)"
  "gd_auth_method (merge_fields_from t c) = merge_override (gd_auth_method t) (gd_auth_method c)"
  "gd_identity_file_id (merge_fields_from t c) = merge_override (gd_identity_file_id t) (gd_identity_file_id c)"
  "gd_identity_file_paths (merge_fields_from t c) = merge_override (gd_identity_file_paths t) (gd_identity_file_paths c)"
  "gd_telnet_username (merge_fields_from t c) = merge_override (gd_telnet_username t) (gd_telnet_username c)"
  "gd_telnet_password (merge_fields_from t c) = merge_credential (gd_telnet_password t) (gd_telnet_password c)"
  "gd_identity_id (merge_fields_from t c) = merge_override (gd_identity_id t) (gd_identity_id c)"
  "gd_telnet_identity_id (merge_fields_from t c) = merge_override (gd_telnet_identity_id t) (gd_telnet_identity_id c)"
  by (simp_all add: merge_fields_from_def)

lemma override_of: "merge_override t v = (if is_defined v then v else t)"
  by (simp add: merge_override_def)

lemma merge_from_credentials:
  "gd_identity_id (merge_from t c) = (if defines_ssh c then gd_identity_id c else gd_identity_id t)"
  "gd_telnet_identity_id (merge_from t c) = (if defines_telnet c then gd_telnet_identity_id c else gd_telnet_identity_id t)"
  "gd_username (merge_from t c) = (if replaces (has_manual_ssh c) (gd_identity_id t) (gd_identity_id c)
     then gd_username c else merge_override (gd_username t) (gd_username c))"
  "gd_password (merge_from t c) = (if replaces (has_manual_ssh c) (gd_identity_id t) (gd_identity_id c)
     then gd_password c else merge_credential (gd_password t) (gd_password c))"
  "gd_save_password (merge_from t c) = (if replaces (has_manual_ssh c) (gd_identity_id t) (gd_identity_id c)
     then gd_save_password c else merge_override (gd_save_password t) (gd_save_password c))"
  "gd_auth_method (merge_from t c) = (if replaces (has_manual_ssh c) (gd_identity_id t) (gd_identity_id c)
     then gd_auth_method c else merge_override (gd_auth_method t) (gd_auth_method c))"
  "gd_identity_file_id (merge_from t c) = (if replaces (has_manual_ssh c) (gd_identity_id t) (gd_identity_id c)
     then gd_identity_file_id c else merge_override (gd_identity_file_id t) (gd_identity_file_id c))"
  "gd_identity_file_paths (merge_from t c) = (if replaces (has_manual_ssh c) (gd_identity_id t) (gd_identity_id c)
     then gd_identity_file_paths c else merge_override (gd_identity_file_paths t) (gd_identity_file_paths c))"
  "gd_telnet_username (merge_from t c) = (if replaces (has_manual_telnet c) (gd_telnet_identity_id t) (gd_telnet_identity_id c)
     then gd_telnet_username c else merge_override (gd_telnet_username t) (gd_telnet_username c))"
  "gd_telnet_password (merge_from t c) = (if replaces (has_manual_telnet c) (gd_telnet_identity_id t) (gd_telnet_identity_id c)
     then gd_telnet_password c else merge_credential (gd_telnet_password t) (gd_telnet_password c))"
  by (simp_all add: merge_from_def merged_credentials prepared_ssh prepared_telnet defines_ssh_def defines_telnet_def
      override_of [of _ "gd_identity_id c"] override_of [of _ "gd_telnet_identity_id c"])
    (simp_all add: is_defined_def)

lemma no_manual:
  "\<not> has_manual_ssh c \<Longrightarrow> gd_username c = Inherit \<and> gd_password c = CredentialInherit \<and> gd_save_password c = Inherit \<and>
     gd_auth_method c = Inherit \<and> gd_identity_file_id c = Inherit \<and> gd_identity_file_paths c = Inherit"
  "\<not> has_manual_telnet c \<Longrightarrow> gd_telnet_username c = Inherit \<and> gd_telnet_password c = CredentialInherit"
  by (auto simp: has_manual_ssh_def has_manual_telnet_def is_defined_def credential_defined_def)

lemma nearest_one [simp]: "nearest [v] = v" "nearest_credential [c] = c"
  using nearest_snoc(2) [of "[]" v] nearest_credential_snoc(2) [of "[]" c] by simp_all

lemma folded_identity:
  "gd_identity_id (foldl merge_from no_defaults ds) = nearest_identity defines_ssh gd_identity_id ds"
  "gd_telnet_identity_id (foldl merge_from no_defaults ds) = nearest_identity defines_telnet gd_telnet_identity_id ds"
  by (induction ds rule: rev_induct) (simp_all add: merge_from_credentials, simp_all add: no_defaults_def)

lemma ssh_field:
  assumes "f no_defaults = Inherit" and "\<And>c. \<not> has_manual_ssh c \<Longrightarrow> f c = Inherit"
    and "\<And>t c. f (merge_from t c) = (if replaces (has_manual_ssh c) (gd_identity_id t) (gd_identity_id c)
      then f c else merge_override (f t) (f c))"
  shows "f (foldl merge_from no_defaults ds) = nearest (map f (ssh_line ds))"
  by (induction ds rule: rev_induct) (simp_all add: assms folded_identity replaces_def)

lemma ssh_credential:
  "gd_password (foldl merge_from no_defaults ds) = nearest_credential (map gd_password (ssh_line ds))"
  by (induction ds rule: rev_induct)
    (simp_all add: merge_from_credentials(4) folded_identity replaces_def no_manual, simp add: no_defaults_def)

lemma telnet_field:
  "gd_telnet_username (foldl merge_from no_defaults ds) = nearest (map gd_telnet_username (telnet_line ds))"
  "gd_telnet_password (foldl merge_from no_defaults ds) = nearest_credential (map gd_telnet_password (telnet_line ds))"
  by (induction ds rule: rev_induct)
    (simp_all add: merge_from_credentials(9,10) folded_identity replaces_def no_manual, simp_all add: no_defaults_def)

lemma folded_credentials: "inherits_credentials (foldl merge_from no_defaults ds) ds"
  unfolding inherits_credentials_def folded_identity ssh_credential telnet_field
  by (intro conjI refl ssh_field merge_from_credentials) (simp_all add: no_manual, simp_all add: no_defaults_def)

text \<open>C36: a group resolves over the records of its ancestors and its own, root first, and every one of the
  forty fields follows a rule: a plain field and the proxy come from the nearest record that defines
  them, whether it sets or clears them; a style from the nearest record that defines it and does not
  switch it off; the identity from the nearest record that says anything of its bundle, and the
  manual credentials from the nearest record up to the one that decided about the identity or that
  put manual credentials below a selected one.  Records of other paths play no part, and of several
  records with one path only the last counts.\<close>

theorem group_defaults_nearest:
  "inherits_nearest (resolve_group_defaults path configs) (map gc_defaults (record_chain path configs)) \<and>
   inherits_styles (resolve_group_defaults path configs) (map gc_defaults (record_chain path configs)) \<and>
   inherits_credentials (resolve_group_defaults path configs) (map gc_defaults (record_chain path configs)) \<and>
   map gc_path (record_chain path configs) = filter (\<lambda>a. a \<in> gc_path ` set configs) (ancestors path) \<and>
   (gc_path c \<in> gc_path ` set ys \<longrightarrow>
      resolve_group_defaults path (xs @ c # ys) = resolve_group_defaults path (xs @ ys))"
proof -
  have "gc_path c \<in> gc_path ` set ys \<Longrightarrow> record_chain path (xs @ c # ys) = record_chain path (xs @ ys)"
    by (simp add: record_chain_def by_path_shadowed)
  then show ?thesis
    by (simp add: resolve_group_defaults_eq folded_nearest folded_styles folded_credentials chain_paths)
qed

definition sample_config :: "string \<Rightarrow> string \<Rightarrow> group_defaults \<Rightarrow> group_config" where
  "sample_config i p d = \<lparr>gc_record_version = 1, gc_id = lit i, gc_revision = 1, gc_path = lit p,
     gc_defaults = d, gc_created_at = 0, gc_updated_at = 0\<rparr>"

theorem group_defaults_nearest_witness:
  "resolve_group_defaults (lit ''a'')
     [sample_config ''1'' ''a'' (no_defaults\<lparr>gd_port := Set 22\<rparr>), sample_config ''2'' ''a'' (no_defaults\<lparr>gd_port := Set 23\<rparr>)]
   = resolve_group_defaults (lit ''a'') [sample_config ''2'' ''a'' (no_defaults\<lparr>gd_port := Set 23\<rparr>)]"
  using group_defaults_nearest [of "lit ''a''" "[]" "sample_config ''1'' ''a'' (no_defaults\<lparr>gd_port := Set 22\<rparr>)"
      "[sample_config ''2'' ''a'' (no_defaults\<lparr>gd_port := Set 23\<rparr>)]" "[]"]
  by (simp add: sample_config_def)

section \<open>Bundles never mix\<close>

definition ssh_bundle where
  "ssh_bundle d = (gd_username d, gd_password d, gd_save_password d, gd_auth_method d,
     gd_identity_id d, gd_identity_file_id d, gd_identity_file_paths d)"

definition telnet_bundle where
  "telnet_bundle d = (gd_telnet_username d, gd_telnet_password d, gd_telnet_identity_id d)"

lemmas merge_bundle = merge_from_def merge_fields_from_def prepare_defs

lemma merge_identity: "is_defined (gd_identity_id c) \<Longrightarrow> ssh_bundle (merge_from t c) = ssh_bundle c"
  by (simp add: ssh_bundle_def merge_bundle) (simp add: merge_override_def)

lemma merge_without_ssh: "\<not> defines_ssh c \<Longrightarrow> ssh_bundle (merge_from t c) = ssh_bundle t"
  by (simp add: ssh_bundle_def merge_bundle defines_ssh_def has_manual_ssh_def merge_override_def
      merge_credential_def)

lemma merge_manual_ssh:
  "\<not> is_defined (gd_identity_id c) \<Longrightarrow> has_manual_ssh c \<Longrightarrow> gd_identity_id (merge_from t c) = Inherit"
  by (simp add: merge_bundle) (simp add: is_defined_def)

lemma merge_telnet_identity: "is_defined (gd_telnet_identity_id c) \<Longrightarrow> telnet_bundle (merge_from t c) = telnet_bundle c"
  by (simp add: telnet_bundle_def merge_bundle) (simp add: merge_override_def)

lemma merge_without_telnet: "\<not> defines_telnet c \<Longrightarrow> telnet_bundle (merge_from t c) = telnet_bundle t"
  by (simp add: telnet_bundle_def merge_bundle defines_telnet_def has_manual_telnet_def merge_override_def
      merge_credential_def)

lemma merge_manual_telnet:
  "\<not> is_defined (gd_telnet_identity_id c) \<Longrightarrow> has_manual_telnet c \<Longrightarrow>
   gd_telnet_identity_id (merge_from t c) = Inherit"
  by (simp add: merge_bundle) (simp add: is_defined_def)

text \<open>The record that a selected identity comes from, with nothing of the bundle defined after it.\<close>

definition bundle_from where
  "bundle_from bundle defines ds d \<longleftrightarrow>
     (\<exists>xs r ys. ds = xs @ r # ys \<and> bundle d = bundle r \<and> list_all (\<lambda>c. \<not> defines c) ys)"

lemma bundle_from_snoc: "\<not> defines c \<Longrightarrow> bundle e = bundle d \<Longrightarrow> bundle_from bundle defines ds d
    \<Longrightarrow> bundle_from bundle defines (ds @ [c]) e"
proof -
  assume c: "\<not> defines c" and e: "bundle e = bundle d" and "bundle_from bundle defines ds d"
  then obtain xs r ys where "ds = xs @ r # ys" "bundle d = bundle r" "list_all (\<lambda>c. \<not> defines c) ys"
    by (auto simp: bundle_from_def)
  then have "ds @ [c] = xs @ r # (ys @ [c])" "bundle e = bundle r" "list_all (\<lambda>c. \<not> defines c) (ys @ [c])"
    using c e by simp_all
  then show ?thesis unfolding bundle_from_def by blast
qed

lemma bundle_from_last: "bundle e = bundle c \<Longrightarrow> bundle_from bundle defines (ds @ [c]) e"
  unfolding bundle_from_def by (rule exI [of _ ds], rule exI [of _ c], rule exI [of _ "[]"]) simp

lemma ssh_bundle_source:
  "gd_identity_id (foldl merge_from no_defaults ds) = Set i \<Longrightarrow>
   bundle_from ssh_bundle defines_ssh ds (foldl merge_from no_defaults ds)"
proof (induction ds rule: rev_induct)
  case (snoc c ds)
  let ?d = "foldl merge_from no_defaults ds"
  consider "is_defined (gd_identity_id c)" | "\<not> is_defined (gd_identity_id c)" "has_manual_ssh c" | "\<not> defines_ssh c"
    by (auto simp: defines_ssh_def)
  then show ?case
  proof cases
    case 1
    then show ?thesis using merge_identity by (auto intro: bundle_from_last)
  next
    case 2
    then show ?thesis using snoc.prems merge_manual_ssh [of c ?d] by simp
  next
    case 3
    note b = merge_without_ssh [OF 3, of ?d]
    then have "gd_identity_id ?d = Set i" using snoc.prems by (simp add: ssh_bundle_def)
    with snoc.IH b 3 show ?thesis by (auto intro: bundle_from_snoc)
  qed
qed (simp add: no_defaults_def)

lemma telnet_bundle_source:
  "gd_telnet_identity_id (foldl merge_from no_defaults ds) = Set i \<Longrightarrow>
   bundle_from telnet_bundle defines_telnet ds (foldl merge_from no_defaults ds)"
proof (induction ds rule: rev_induct)
  case (snoc c ds)
  let ?d = "foldl merge_from no_defaults ds"
  consider "is_defined (gd_telnet_identity_id c)"
    | "\<not> is_defined (gd_telnet_identity_id c)" "has_manual_telnet c" | "\<not> defines_telnet c"
    by (auto simp: defines_telnet_def)
  then show ?case
  proof cases
    case 1
    then show ?thesis using merge_telnet_identity by (auto intro: bundle_from_last)
  next
    case 2
    then show ?thesis using snoc.prems merge_manual_telnet [of c ?d] by simp
  next
    case 3
    note b = merge_without_telnet [OF 3, of ?d]
    then have "gd_telnet_identity_id ?d = Set i" using snoc.prems by (simp add: telnet_bundle_def)
    with snoc.IH b 3 show ?thesis by (auto intro: bundle_from_snoc)
  qed
qed (simp add: no_defaults_def)

text \<open>C4: an inherited identity is never combined with credentials of another record: when a group
  resolves to a selected SSH identity, one record of the chain supplies the identity and the whole
  SSH bundle with it (user name, password state, method, key references), and no record below it
  defines any part of the bundle; likewise for the Telnet identity.\<close>

theorem group_identity_not_mixed:
  "(gd_identity_id (resolve_group_defaults path configs) = Set i \<longrightarrow>
      bundle_from ssh_bundle defines_ssh (map gc_defaults (record_chain path configs))
        (resolve_group_defaults path configs)) \<and>
   (gd_telnet_identity_id (resolve_group_defaults path configs) = Set j \<longrightarrow>
      bundle_from telnet_bundle defines_telnet (map gc_defaults (record_chain path configs))
        (resolve_group_defaults path configs))"
  unfolding resolve_group_defaults_eq using ssh_bundle_source telnet_bundle_source by blast

definition sample_chain :: "group_config list" where
  "sample_chain = [sample_config ''1'' ''a'' (no_defaults\<lparr>gd_username := Set (lit ''root''), gd_password := StoredHint\<rparr>),
     sample_config ''2'' ''a/b'' (no_defaults\<lparr>gd_identity_id := Set (KeyIdentity (lit ''k''))\<rparr>)]"

lemma sample_records:
  "record_chain (lit ''a/b'') sample_chain = sample_chain"
  by (simp add: record_chain_def ancestors_def split_path_def sample_chain_def sample_config_def by_path_def
      lit_def of_char_def)

lemmas sample_resolution = resolve_group_defaults_eq sample_records merge_from_def merge_fields_from_def
  prepare_ssh_bundle_def prepare_telnet_bundle_def

theorem group_identity_not_mixed_witness:
  "gd_identity_id (resolve_group_defaults (lit ''a/b'') sample_chain) = Set (KeyIdentity (lit ''k'')) \<and>
   bundle_from ssh_bundle defines_ssh (map gc_defaults sample_chain) (resolve_group_defaults (lit ''a/b'') sample_chain)"
proof -
  have "gd_identity_id (resolve_group_defaults (lit ''a/b'') sample_chain) = Set (KeyIdentity (lit ''k''))"
    unfolding resolve_group_defaults_eq sample_records
    by (simp add: sample_chain_def sample_config_def merge_bundle)
  then show ?thesis using group_identity_not_mixed [of "lit ''a/b''" sample_chain] by (simp add: sample_records)
qed

section \<open>Owners of inherited credentials\<close>

lemma chain_member: "c \<in> set (record_chain path configs) \<Longrightarrow> c \<in> set configs \<and> gc_path c \<in> set (ancestors path)"
proof -
  have "c \<in> set (List.map_filter f as) \<Longrightarrow> \<exists>a \<in> set as. f a = Some c" for f :: "rstr \<rightharpoonup> group_config" and as
    by (induction as) (auto split: option.splits)
  then show "c \<in> set (record_chain path configs) \<Longrightarrow> ?thesis"
    unfolding record_chain_def using by_path_Some by blast
qed

text \<open>One step of the owner, for both passwords: \<open>selected\<close> is whether an identity is selected so far.\<close>

lemma merge_owner_Some:
  assumes "merge_owner identity (manual \<and> selected) password i owner = Some j"
    and "password \<noteq> CredentialInherit \<Longrightarrow> manual"
    and "\<And>k. owner = Some k \<Longrightarrow> current = StoredHint \<and> \<not> selected"
  shows "merge_credential (if identity \<or> manual \<and> selected then CredentialInherit else current) password = StoredHint \<and>
    \<not> identity \<and> \<not> (selected \<and> \<not> manual) \<and> (owner = Some j \<or> j = i \<and> password = StoredHint)"
  using assms by (cases password) (auto simp: merge_owner_def Let_def split: if_splits)

lemma merge_owner_None:
  assumes "merge_owner identity (manual \<and> selected) password i owner = None"
    and "current = StoredHint \<Longrightarrow> owner \<noteq> None" and "\<not> (identity \<and> password = StoredHint)"
  shows "merge_credential (if identity \<or> manual \<and> selected then CredentialInherit else current) password \<noteq> StoredHint"
  using assms by (cases password) (auto simp: merge_owner_def Let_def split: if_splits)

lemma merge_passwords:
  "gd_password (merge_from t c) = merge_credential
     (if is_defined (gd_identity_id c) \<or> has_manual_ssh c \<and> is_set (gd_identity_id t) then CredentialInherit
      else gd_password t) (gd_password c)"
  "gd_telnet_password (merge_from t c) = merge_credential
     (if is_defined (gd_telnet_identity_id c) \<or> has_manual_telnet c \<and> is_set (gd_telnet_identity_id t)
      then CredentialInherit else gd_telnet_password t) (gd_telnet_password c)"
  by (auto simp: merge_bundle)

lemma merge_selected:
  "\<not> is_defined (gd_identity_id c) \<Longrightarrow>
   is_set (gd_identity_id (merge_from t c)) \<longleftrightarrow> is_set (gd_identity_id t) \<and> \<not> has_manual_ssh c"
  "\<not> is_defined (gd_telnet_identity_id c) \<Longrightarrow>
   is_set (gd_telnet_identity_id (merge_from t c)) \<longleftrightarrow> is_set (gd_telnet_identity_id t) \<and> \<not> has_manual_telnet c"
  by (simp_all add: merge_bundle merge_override_def)

lemma manual_password:
  "gd_password c \<noteq> CredentialInherit \<Longrightarrow> has_manual_ssh c"
  "gd_telnet_password c \<noteq> CredentialInherit \<Longrightarrow> has_manual_telnet c"
  by (auto simp: has_manual_ssh_def has_manual_telnet_def credential_defined_def)

lemma merge_record_owners [simp]:
  "rg_ssh_credential_owner (merge_record r c) = merge_owner (is_defined (gd_identity_id (gc_defaults c)))
     (has_manual_ssh (gc_defaults c) \<and> is_set (gd_identity_id (rg_defaults r))) (gd_password (gc_defaults c))
     (gc_id c) (rg_ssh_credential_owner r)"
  "rg_telnet_credential_owner (merge_record r c) = merge_owner (is_defined (gd_telnet_identity_id (gc_defaults c)))
     (has_manual_telnet (gc_defaults c) \<and> is_set (gd_telnet_identity_id (rg_defaults r)))
     (gd_telnet_password (gc_defaults c)) (gc_id c) (rg_telnet_credential_owner r)"
  "rg_inline_proxy_credential_owner (merge_record r c) =
     merge_proxy_owner (gd_proxy (gc_defaults c)) (gc_id c) (rg_inline_proxy_credential_owner r)"
  by (simp_all add: merge_record_def Let_def)

definition ssh_source :: "group_config list \<Rightarrow> rstr \<Rightarrow> bool" where
  "ssh_source cs i \<longleftrightarrow> list_ex (\<lambda>c. gc_id c = i \<and> gd_password (gc_defaults c) = StoredHint \<and>
     \<not> is_defined (gd_identity_id (gc_defaults c))) cs"

definition telnet_source :: "group_config list \<Rightarrow> rstr \<Rightarrow> bool" where
  "telnet_source cs i \<longleftrightarrow> list_ex (\<lambda>c. gc_id c = i \<and> gd_telnet_password (gc_defaults c) = StoredHint \<and>
     \<not> is_defined (gd_telnet_identity_id (gc_defaults c))) cs"

definition proxy_source :: "group_config list \<Rightarrow> proxy_config \<Rightarrow> rstr \<Rightarrow> bool" where
  "proxy_source cs p i \<longleftrightarrow> list_ex (\<lambda>c. gc_id c = i \<and> gd_proxy (gc_defaults c) = Inline p) cs"

abbreviation resolved_chain :: "group_config list \<Rightarrow> resolved_group" where
  "resolved_chain cs \<equiv> foldl merge_record no_resolved cs"

lemma ssh_owner_sound:
  "rg_ssh_credential_owner (resolved_chain cs) = Some i \<Longrightarrow>
   gd_password (rg_defaults (resolved_chain cs)) = StoredHint \<and>
   \<not> is_set (gd_identity_id (rg_defaults (resolved_chain cs))) \<and> ssh_source cs i"
proof (induction cs arbitrary: i rule: rev_induct)
  case (snoc c cs)
  let ?d = "rg_defaults (resolved_chain cs)" and ?c = "gc_defaults c"
  have "merge_owner (is_defined (gd_identity_id ?c)) (has_manual_ssh ?c \<and> is_set (gd_identity_id ?d))
      (gd_password ?c) (gc_id c) (rg_ssh_credential_owner (resolved_chain cs)) = Some i"
    using snoc.prems by simp
  note step = merge_owner_Some [OF this manual_password(1), of "gd_password ?d"]
  have s: "merge_credential (if is_defined (gd_identity_id ?c) \<or> has_manual_ssh ?c \<and> is_set (gd_identity_id ?d)
      then CredentialInherit else gd_password ?d) (gd_password ?c) = StoredHint"
    "\<not> is_defined (gd_identity_id ?c)" "\<not> (is_set (gd_identity_id ?d) \<and> \<not> has_manual_ssh ?c)"
    "rg_ssh_credential_owner (resolved_chain cs) = Some i \<or> i = gc_id c \<and> gd_password ?c = StoredHint"
    using step snoc.IH by blast+
  have "ssh_source (cs @ [c]) i"
    using s(2,4) snoc.IH by (auto simp: ssh_source_def)
  then show ?case
    using s merge_selected(1) [OF s(2), of ?d] by (simp add: merge_passwords(1) [of ?d ?c])
qed (simp add: no_resolved_def)

lemma telnet_owner_sound:
  "rg_telnet_credential_owner (resolved_chain cs) = Some i \<Longrightarrow>
   gd_telnet_password (rg_defaults (resolved_chain cs)) = StoredHint \<and>
   \<not> is_set (gd_telnet_identity_id (rg_defaults (resolved_chain cs))) \<and> telnet_source cs i"
proof (induction cs arbitrary: i rule: rev_induct)
  case (snoc c cs)
  let ?d = "rg_defaults (resolved_chain cs)" and ?c = "gc_defaults c"
  have "merge_owner (is_defined (gd_telnet_identity_id ?c)) (has_manual_telnet ?c \<and> is_set (gd_telnet_identity_id ?d))
      (gd_telnet_password ?c) (gc_id c) (rg_telnet_credential_owner (resolved_chain cs)) = Some i"
    using snoc.prems by simp
  note step = merge_owner_Some [OF this manual_password(2), of "gd_telnet_password ?d"]
  have s: "merge_credential (if is_defined (gd_telnet_identity_id ?c) \<or> has_manual_telnet ?c \<and> is_set (gd_telnet_identity_id ?d)
      then CredentialInherit else gd_telnet_password ?d) (gd_telnet_password ?c) = StoredHint"
    "\<not> is_defined (gd_telnet_identity_id ?c)" "\<not> (is_set (gd_telnet_identity_id ?d) \<and> \<not> has_manual_telnet ?c)"
    "rg_telnet_credential_owner (resolved_chain cs) = Some i \<or> i = gc_id c \<and> gd_telnet_password ?c = StoredHint"
    using step snoc.IH by blast+
  have "telnet_source (cs @ [c]) i"
    using s(2,4) snoc.IH by (auto simp: telnet_source_def)
  then show ?case
    using s merge_selected(2) [OF s(2), of ?d] by (simp add: merge_passwords(2) [of ?d ?c])
qed (simp add: no_resolved_def)

lemma proxy_owner_sound:
  "rg_inline_proxy_credential_owner (resolved_chain cs) = Some i \<Longrightarrow>
   \<exists>p. gd_proxy (rg_defaults (resolved_chain cs)) = Inline p \<and>
     inline_proxy_has_saved_manual_credential p \<and> proxy_source cs p i"
proof (induction cs arbitrary: i rule: rev_induct)
  case (snoc c cs)
  then show ?case
    by (cases "gd_proxy (gc_defaults c)")
      (auto simp: merge_proxy_owner_def merge_proxy_def proxy_source_def split: if_splits)
qed (simp add: no_resolved_def)

text \<open>
  A record that defines an identity (also by clearing it) and states a stored password at once: its
  password becomes inheritable without an owner.  Such records are called incoherent here.
\<close>

definition coherent :: "group_config \<Rightarrow> bool" where
  "coherent c \<longleftrightarrow>
     \<not> (is_defined (gd_identity_id (gc_defaults c)) \<and> gd_password (gc_defaults c) = StoredHint) \<and>
     \<not> (is_defined (gd_telnet_identity_id (gc_defaults c)) \<and> gd_telnet_password (gc_defaults c) = StoredHint)"

lemma owner_complete:
  "list_all coherent cs \<Longrightarrow>
   (gd_password (rg_defaults (resolved_chain cs)) = StoredHint \<longrightarrow> rg_ssh_credential_owner (resolved_chain cs) \<noteq> None) \<and>
   (gd_telnet_password (rg_defaults (resolved_chain cs)) = StoredHint \<longrightarrow>
      rg_telnet_credential_owner (resolved_chain cs) \<noteq> None)"
proof (induction cs rule: rev_induct)
  case (snoc c cs)
  let ?d = "rg_defaults (resolved_chain cs)" and ?c = "gc_defaults c"
  have c: "\<not> (is_defined (gd_identity_id ?c) \<and> gd_password ?c = StoredHint)"
    "\<not> (is_defined (gd_telnet_identity_id ?c) \<and> gd_telnet_password ?c = StoredHint)"
    using snoc.prems by (simp_all add: coherent_def)
  have ih: "gd_password ?d = StoredHint \<Longrightarrow> rg_ssh_credential_owner (resolved_chain cs) \<noteq> None"
    "gd_telnet_password ?d = StoredHint \<Longrightarrow> rg_telnet_credential_owner (resolved_chain cs) \<noteq> None"
    using snoc by simp_all
  have "rg_ssh_credential_owner (merge_record (resolved_chain cs) c) = None \<Longrightarrow> gd_password (merge_from ?d ?c) \<noteq> StoredHint"
    unfolding merge_record_owners merge_passwords by (rule merge_owner_None [OF _ ih(1) c(1)])
  moreover have "rg_telnet_credential_owner (merge_record (resolved_chain cs) c) = None \<Longrightarrow>
      gd_telnet_password (merge_from ?d ?c) \<noteq> StoredHint"
    unfolding merge_record_owners merge_passwords by (rule merge_owner_None [OF _ ih(2) c(2)])
  ultimately show ?case by (auto simp del: merge_record_owners)
qed (simp add: no_resolved_def no_defaults_def)

lemma proxy_owner_complete:
  "gd_proxy (rg_defaults (resolved_chain cs)) = Inline p \<Longrightarrow> inline_proxy_has_saved_manual_credential p \<Longrightarrow>
   rg_inline_proxy_credential_owner (resolved_chain cs) \<noteq> None"
proof (induction cs rule: rev_induct)
  case (snoc c cs)
  then show ?case
    by (cases "gd_proxy (gc_defaults c)") (auto simp: merge_proxy_owner_def merge_proxy_def)
qed (simp add: no_resolved_def)

lemma resolved_owner_sound:
  "(let r = resolve_group_defaults_with_provenance path configs;
        line = filter (\<lambda>c. gc_path c \<in> set (ancestors path)) configs
    in (rg_ssh_credential_owner r = Some i \<longrightarrow>
          ssh_source line i \<and> gd_password (rg_defaults r) = StoredHint \<and> \<not> is_set (gd_identity_id (rg_defaults r))) \<and>
       (rg_telnet_credential_owner r = Some j \<longrightarrow>
          telnet_source line j \<and> gd_telnet_password (rg_defaults r) = StoredHint \<and>
          \<not> is_set (gd_telnet_identity_id (rg_defaults r))) \<and>
       (rg_inline_proxy_credential_owner r = Some k \<longrightarrow>
          (\<exists>p. gd_proxy (rg_defaults r) = Inline p \<and> inline_proxy_has_saved_manual_credential p \<and>
             proxy_source line p k)))"
proof -
  let ?cs = "record_chain path configs" and ?line = "filter (\<lambda>c. gc_path c \<in> set (ancestors path)) configs"
  have "set ?cs \<subseteq> set ?line" using chain_member by auto
  then have "ssh_source ?cs i \<Longrightarrow> ssh_source ?line i" "telnet_source ?cs j \<Longrightarrow> telnet_source ?line j"
    "proxy_source ?cs p k \<Longrightarrow> proxy_source ?line p k" for p
    by (auto simp: ssh_source_def telnet_source_def proxy_source_def list_ex_iff)
  then show ?thesis
    unfolding Let_def resolve_chain
    using ssh_owner_sound [of ?cs i] telnet_owner_sound [of ?cs j] proxy_owner_sound [of ?cs k] by blast
qed

text \<open>the owner of an inherited credential is a record that really holds it: an SSH (Telnet) owner
  is a record of an ancestor or of the group itself that states a stored password and defines no
  identity, and the resolved defaults then ask for a password and select no identity; a proxy owner is
  the record whose inline proxy the group resolves to.\<close>

theorem group_credential_owner_sound:
  "(let r = resolve_group_defaults_with_provenance path configs;
        line = filter (\<lambda>c. gc_path c \<in> set (ancestors path)) configs
    in (rg_ssh_credential_owner r = Some i \<longrightarrow>
          ssh_source line i \<and> gd_password (rg_defaults r) = StoredHint \<and> \<not> is_set (gd_identity_id (rg_defaults r))) \<and>
       (rg_telnet_credential_owner r = Some j \<longrightarrow>
          telnet_source line j \<and> gd_telnet_password (rg_defaults r) = StoredHint \<and>
          \<not> is_set (gd_telnet_identity_id (rg_defaults r))) \<and>
       (rg_inline_proxy_credential_owner r = Some k \<longrightarrow>
          (\<exists>p. gd_proxy (rg_defaults r) = Inline p \<and> inline_proxy_has_saved_manual_credential p \<and>
             proxy_source line p k)))"
  by (rule resolved_owner_sound)

definition sample_secret :: "group_config list" where
  "sample_secret = [sample_config ''1'' ''a'' (no_defaults\<lparr>gd_password := StoredHint\<rparr>)]"

lemma sample_secret_chain: "record_chain (lit ''a'') sample_secret = sample_secret"
  by (simp add: record_chain_def ancestors_def split_path_def sample_secret_def sample_config_def by_path_def
      lit_def of_char_def)

lemma sample_secret_resolved:
  "rg_ssh_credential_owner (resolve_group_defaults_with_provenance (lit ''a'') sample_secret) = Some (lit ''1'')"
  unfolding resolve_chain sample_secret_chain
  by (simp add: sample_secret_def sample_config_def no_resolved_def no_defaults_def merge_owner_def)

theorem group_credential_owner_sound_witness:
  "ssh_source (filter (\<lambda>c. gc_path c \<in> set (ancestors (lit ''a''))) sample_secret) (lit ''1'')"
  using group_credential_owner_sound [of "lit ''a''" sample_secret "lit ''1''"] sample_secret_resolved
  by (simp add: Let_def)

lemma resolved_owner_complete:
  assumes "list_all coherent configs"
  shows "(let r = resolve_group_defaults_with_provenance path configs
    in (gd_password (rg_defaults r) = StoredHint \<longrightarrow> rg_ssh_credential_owner r \<noteq> None) \<and>
       (gd_telnet_password (rg_defaults r) = StoredHint \<longrightarrow> rg_telnet_credential_owner r \<noteq> None) \<and>
       (gd_proxy (rg_defaults r) = Inline p \<longrightarrow> inline_proxy_has_saved_manual_credential p \<longrightarrow>
          rg_inline_proxy_credential_owner r \<noteq> None))"
proof -
  have "list_all coherent (record_chain path configs)"
    using assms chain_member by (auto simp: list_all_iff)
  then show ?thesis
    unfolding Let_def resolve_chain using owner_complete proxy_owner_complete by blast
qed

text \<open>no inherited credential is orphaned when no record both defines an identity and states a
  stored password: whenever the resolved defaults ask for a stored password, its owner is known; and
  the credential of a resolved inline proxy always has its owner.\<close>

theorem group_credential_owner_complete:
  assumes "list_all coherent configs"
  shows "(let r = resolve_group_defaults_with_provenance path configs
    in (gd_password (rg_defaults r) = StoredHint \<longrightarrow> rg_ssh_credential_owner r \<noteq> None) \<and>
       (gd_telnet_password (rg_defaults r) = StoredHint \<longrightarrow> rg_telnet_credential_owner r \<noteq> None) \<and>
       (gd_proxy (rg_defaults r) = Inline p \<longrightarrow> inline_proxy_has_saved_manual_credential p \<longrightarrow>
          rg_inline_proxy_credential_owner r \<noteq> None))"
  using assms by (rule resolved_owner_complete)

theorem group_credential_owner_complete_witness:
  "rg_ssh_credential_owner (resolve_group_defaults_with_provenance (lit ''a'') sample_secret) \<noteq> None"
proof -
  have "list_all coherent sample_secret"
    by (simp add: sample_secret_def sample_config_def coherent_def no_defaults_def)
  moreover have "gd_password (rg_defaults (resolve_group_defaults_with_provenance (lit ''a'') sample_secret)) = StoredHint"
    unfolding resolve_chain sample_secret_chain
    by (simp add: sample_secret_def sample_config_def merge_passwords)
  ultimately show ?thesis
    using group_credential_owner_complete [of sample_secret "lit ''a''"] by (simp add: Let_def)
qed

text \<open>
  An incoherent record orphans its password: a group that clears the inherited identity and stores a
  password of its own resolves to a stored password that nobody owns.
\<close>

definition orphan_group :: group_config where
  "orphan_group = sample_config ''g'' ''a'' (no_defaults\<lparr>gd_identity_id := Clear, gd_password := StoredHint\<rparr>)"

lemma orphan_chain: "record_chain (lit ''a'') [orphan_group] = [orphan_group]"
  by (simp add: record_chain_def ancestors_def split_path_def orphan_group_def sample_config_def by_path_def
      lit_def of_char_def)

lemma orphan_valid: "validate_config orphan_group = Inr ()"
  by (simp add: validate_config_def orphan_group_def sample_config_def GROUP_CONFIG_RECORD_VERSION_def
      group_id_from_opaque_def validate_non_empty_single_line_def validate_text_def MAX_ID_BYTES_def
      validate_defaults_def no_defaults_def str_len_ascii is_control_def lit_def of_char_def)

theorem cleared_identity_orphans_password:
  "validate_config orphan_group = Inr () \<and>
   gd_password (resolve_group_defaults (lit ''a'') [orphan_group]) = StoredHint \<and>
   rg_ssh_credential_owner (resolve_group_defaults_with_provenance (lit ''a'') [orphan_group]) = None"
proof (intro conjI)
  show "validate_config orphan_group = Inr ()" by (rule orphan_valid)
  show "gd_password (resolve_group_defaults (lit ''a'') [orphan_group]) = StoredHint"
    unfolding resolve_group_defaults_eq orphan_chain
    by (simp add: orphan_group_def sample_config_def merge_passwords)
  show "rg_ssh_credential_owner (resolve_group_defaults_with_provenance (lit ''a'') [orphan_group]) = None"
    unfolding resolve_chain orphan_chain
    by (simp add: orphan_group_def sample_config_def merge_owner_def no_resolved_def)
qed

end
