(* ===== verification/Vault_Effective.thy ===== *)
theory Vault_Effective
  imports Vault_Host Vault_Defaults
begin

text \<open>
  The connection-time view of a saved host (\<^verbatim>\<open>crates/netcatty-vault/src/effective_host.rs\<close>): a copy of
  the host with the defaults of its groups filled in, and the owners of the manual credentials that
  the connection will use.  Secrets live outside; an owner says under whose account to look one up.
  The writers of the field types are infallible (numbers are finite, keys are strings), so that
  \<open>apply_serialized_override\<close> is a total function.

  The theorems: what the host says explicitly always wins; an owner is the host, for a credential the
  host really has, or a record of the host's own groups that states one; inactive SSH relationships of
  Telnet and serial hosts contribute nothing; and the projection fails exactly on malformed metadata
  unless a group record is incoherent, which \<open>orphaned_group_blocks_host\<close> shows to be possible.
\<close>

section \<open>Writers of the field types\<close>

definition strings_json :: "rstr list \<Rightarrow> json" where
  "strings_json ss = JArray (map JString ss)"

definition number_json :: "nat \<Rightarrow> json" where
  "number_json n = JNumber (Integer (int n))"

definition float_json :: "rat \<Rightarrow> json" where
  "float_json r = JNumber (Float r)"

definition tokens_json :: "rstr list option \<Rightarrow> json" where
  "tokens_json ts = (case ts of None \<Rightarrow> JNull | Some ts \<Rightarrow> strings_json ts)"

definition algorithms_json :: "algorithm_overrides \<Rightarrow> json" where
  "algorithms_json a = JObject (put_all
     [(lit ''kex'', tokens_json (ao_kex a)), (lit ''cipher'', tokens_json (ao_cipher a)),
      (lit ''hmac'', tokens_json (ao_hmac a)), (lit ''serverHostKey'', tokens_json (ao_server_host_key a)),
      (lit ''compress'', tokens_json (ao_compress a))] [])"

definition environment_json :: "(rstr \<times> rstr) list \<Rightarrow> json" where
  "environment_json vs =
     JArray (map (\<lambda>(n, v). JObject [(lit ''name'', JString n), (lit ''value'', JString v)]) vs)"

fun device_type_json :: "group_device_type \<Rightarrow> json" where
  "device_type_json General = JString (lit ''general'')"
| "device_type_json Network = JString (lit ''network'')"

fun run_mode_json :: "startup_command_run_mode \<Rightarrow> json" where
  "run_mode_json LineDelay = JString (lit ''lineDelay'')"
| "run_mode_json Paste = JString (lit ''paste'')"

fun backspace_json :: "group_backspace \<Rightarrow> json" where
  "backspace_json GroupCtrlH = JString (lit ''ctrl-h'')"

fun identity_json :: "group_identity_reference \<Rightarrow> json" where
  "identity_json (KeyIdentity i) = JString i"
| "identity_json (PasswordIdentityRef i) = JString i"

section \<open>Looking at the host's fields\<close>

datatype credential_owner = HostOwner rstr | GroupOwner rstr

datatype projection_error = InvalidHostMetadata | InvalidProjectedMetadata | MissingCredentialProvenance

definition field_inherits :: "json option \<Rightarrow> bool \<Rightarrow> bool" where
  "field_inherits v empty_is_explicit = (case v of
     None \<Rightarrow> True
   | Some JNull \<Rightarrow> True
   | Some (JString s) \<Rightarrow> s = [] \<and> \<not> empty_is_explicit
   | Some _ \<Rightarrow> False)"

definition boolean_field :: "json_map \<Rightarrow> string \<Rightarrow> bool" where
  "boolean_field m key = (case bt_get m (lit key) of Some (JBool b) \<Rightarrow> b | _ \<Rightarrow> False)"

definition has_non_empty_length :: "json \<Rightarrow> bool" where
  "has_non_empty_length v = (case v of JArray vs \<Rightarrow> vs \<noteq> [] | JString s \<Rightarrow> s \<noteq> [] | _ \<Rightarrow> False)"

definition js_truthy :: "json \<Rightarrow> bool" where
  "js_truthy v = (case v of
     JNull \<Rightarrow> False
   | JBool b \<Rightarrow> b
   | JNumber (Integer n) \<Rightarrow> n \<noteq> 0
   | JNumber (Float r) \<Rightarrow> r \<noteq> 0
   | JString s \<Rightarrow> s \<noteq> []
   | JArray _ \<Rightarrow> True
   | JObject _ \<Rightarrow> True)"

definition field_is :: "(json \<Rightarrow> bool) \<Rightarrow> json_map \<Rightarrow> string \<Rightarrow> bool" where
  "field_is P m key = (case bt_get m (lit key) of None \<Rightarrow> False | Some v \<Rightarrow> P v)"

definition save_password_off :: "json_map \<Rightarrow> bool" where
  "save_password_off m \<longleftrightarrow> bt_get m (lit ''savePassword'') = Some (JBool False)"

section \<open>Applying defaults\<close>

definition apply_serialized_override :: "string \<Rightarrow> bool \<Rightarrow> json override \<Rightarrow> json_map \<Rightarrow> json_map" where
  "apply_serialized_override key empty_is_explicit v m =
     (if \<not> field_inherits (bt_get m (lit key)) empty_is_explicit then m
      else case v of
          Inherit \<Rightarrow> m
        | Clear \<Rightarrow> bt_remove (lit key) m
        | Set x \<Rightarrow> bt_insert (lit key) x m)"

definition apply_identity_override :: "group_identity_reference override \<Rightarrow> json_map \<Rightarrow> json_map" where
  "apply_identity_override v m =
     (if \<not> field_inherits (bt_get m (lit ''identityId'')) True then m
      else case v of
          Inherit \<Rightarrow> m
        | Clear \<Rightarrow> bt_remove (lit ''identityId'') m
        | Set x \<Rightarrow> bt_insert (lit ''identityId'') (identity_json x) m)"

definition host_has_manual_ssh_credentials :: "saved_host \<Rightarrow> json_map \<Rightarrow> bool" where
  "host_has_manual_ssh_credentials host m \<longleftrightarrow>
     \<not> field_is js_truthy m ''identityId'' \<and>
     (trim (sh_username host) \<noteq> [] \<and> trim (sh_username host) \<noteq> lit ''root'' \<or>
      sh_auth_policy_version host = 1 \<or>
      boolean_field m ''hasSavedCredential'' \<or>
      save_password_off m \<or>
      field_is js_truthy m ''identityFileId'' \<or>
      field_is has_non_empty_length m ''identityFilePaths'')"

definition skip_group_ssh_bundle :: "saved_host \<Rightarrow> group_defaults \<Rightarrow> json_map \<Rightarrow> bool" where
  "skip_group_ssh_bundle host defaults m \<longleftrightarrow>
     field_is js_truthy m ''identityId'' \<or>
     is_set (gd_identity_id defaults) \<and>
     (bt_get m (lit ''identityId'') = Some (JString []) \<or> host_has_manual_ssh_credentials host m)"

definition apply_ssh_password ::
    "resolved_group \<Rightarrow> json_map \<Rightarrow> credential_owner option \<Rightarrow>
     projection_error + json_map \<times> credential_owner option" where
  "apply_ssh_password resolved m owner =
     (if \<not> (boolean_field m ''hasSavedCredential'' \<or> save_password_off m) \<and>
         \<not> is_set (gd_identity_id (rg_defaults resolved)) then
        (case gd_password (rg_defaults resolved) of
           StoredHint \<Rightarrow>
             (case rg_ssh_credential_owner resolved of
                None \<Rightarrow> Inl MissingCredentialProvenance
              | Some i \<Rightarrow>
                  Inr (bt_insert (lit ''hasSavedCredential'') (JBool True) m, Some (GroupOwner i)))
         | _ \<Rightarrow> Inr (m, owner))
      else Inr (m, owner))"

definition apply_ssh_defaults ::
    "saved_host \<Rightarrow> resolved_group \<Rightarrow> json_map \<Rightarrow> rstr \<Rightarrow> credential_owner option \<Rightarrow>
     projection_error + json_map \<times> rstr \<times> credential_owner option" where
  "apply_ssh_defaults host resolved m username owner =
     (let defaults = rg_defaults resolved
      in if skip_group_ssh_bundle host defaults m then Inr (m, username, owner)
         else
           let username = (if username = [] then (case gd_username defaults of Set u \<Rightarrow> u | _ \<Rightarrow> username)
                           else username)
           in and_then (apply_ssh_password resolved m owner) (\<lambda>(m, owner).
              let m = apply_serialized_override ''savePassword'' False
                        (map_override JBool (gd_save_password defaults)) m;
                  m = apply_identity_override (gd_identity_id defaults) m;
                  m = apply_serialized_override ''identityFileId'' False
                        (map_override JString (gd_identity_file_id defaults)) m;
                  m = apply_serialized_override ''identityFilePaths'' False
                        (map_override strings_json (gd_identity_file_paths defaults)) m
              in Inr (m, username, owner)))"

definition host_telnet_manual :: "saved_host \<Rightarrow> json_map \<Rightarrow> bool" where
  "host_telnet_manual host m \<longleftrightarrow>
     \<not> field_is js_truthy m ''telnetIdentityId'' \<and>
     (bt_contains (lit ''telnetUsername'') m \<or> bt_contains (lit ''telnetPassword'') m \<or>
      is_telnet (sh_protocol host) \<and>
      (trim (sh_username host) \<noteq> [] \<and> trim (sh_username host) \<noteq> lit ''root'' \<or>
       boolean_field m ''hasSavedCredential'' \<or> save_password_off m))"

definition apply_telnet_defaults ::
    "saved_host \<Rightarrow> resolved_group \<Rightarrow> json_map \<Rightarrow> credential_owner option \<Rightarrow>
     projection_error + json_map \<times> credential_owner option" where
  "apply_telnet_defaults host resolved m owner =
     (let defaults = rg_defaults resolved;
          manual = host_telnet_manual host m;
          m = (if manual then m
               else apply_serialized_override ''telnetIdentityId'' True
                      (map_override JString (gd_telnet_identity_id defaults)) m);
          m = apply_serialized_override ''telnetUsername'' True
                (map_override JString (gd_telnet_username defaults)) m
      in if owner = None \<and> \<not> manual \<and> \<not> is_set (gd_telnet_identity_id defaults) \<and>
            gd_telnet_password defaults = StoredHint then
           (case rg_telnet_credential_owner resolved of
              None \<Rightarrow> Inl MissingCredentialProvenance
            | Some i \<Rightarrow> Inr (m, Some (GroupOwner i)))
         else Inr (m, owner))"

definition apply_proxy_defaults ::
    "resolved_group \<Rightarrow> json_map \<Rightarrow> credential_owner option \<Rightarrow>
     projection_error + json_map \<times> credential_owner option" where
  "apply_proxy_defaults resolved m owner =
     (let inline_present = bt_contains (lit ''proxyConfig'') m;
          profile_present = bt_contains (lit ''proxyProfileId'') m;
          inline_inherits = field_inherits (bt_get m (lit ''proxyConfig'')) False;
          profile_inherits = field_inherits (bt_get m (lit ''proxyProfileId'')) False
      in case gd_proxy (rg_defaults resolved) of
           ProxyInherit \<Rightarrow> Inr (m, owner)
         | ProxyClear \<Rightarrow> Inr (m, None)
         | Profile i \<Rightarrow>
             if \<not> inline_present \<and> profile_inherits
             then Inr (bt_insert (lit ''proxyProfileId'') (JString i) (bt_remove (lit ''proxyConfig'') m), None)
             else Inr (m, owner)
         | Inline c \<Rightarrow>
             if \<not> profile_present \<and> inline_inherits then
               let m = bt_insert (lit ''proxyConfig'') (proxy_to_json c) (bt_remove (lit ''proxyProfileId'') m)
               in if inline_proxy_has_saved_manual_credential c then
                    (case rg_inline_proxy_credential_owner resolved of
                       None \<Rightarrow> Inl MissingCredentialProvenance
                     | Some i \<Rightarrow> Inr (m, Some (GroupOwner i)))
                  else Inr (m, None)
             else Inr (m, owner))"

definition non_credential_defaults :: "group_defaults \<Rightarrow> bool \<Rightarrow> (string \<times> json override) list" where
  "non_credential_defaults d include_host_chain =
     [(''deviceType'', map_override device_type_json (gd_device_type d)),
      (''agentForwarding'', map_override JBool (gd_agent_forwarding d))] @
     (if include_host_chain then [(''hostChain'', map_override strings_json (gd_host_chain d))] else []) @
     [(''startupCommand'', map_override JString (gd_startup_command d)),
      (''startupCommandRunMode'', map_override run_mode_json (gd_startup_command_run_mode d)),
      (''loginScriptId'', map_override JString (gd_login_script_id d)),
      (''legacyAlgorithms'', map_override JBool (gd_legacy_algorithms d)),
      (''skipEcdsaHostKey'', map_override JBool (gd_skip_ecdsa_host_key d)),
      (''algorithms'', map_override algorithms_json (gd_algorithms d)),
      (''environmentVariables'', map_override environment_json (gd_environment_variables d)),
      (''charset'', map_override JString (gd_charset d)),
      (''moshEnabled'', map_override JBool (gd_mosh_enabled d)),
      (''moshServerPath'', map_override JString (gd_mosh_server_path d)),
      (''etEnabled'', map_override JBool (gd_et_enabled d)),
      (''etPort'', map_override number_json (gd_et_port d)),
      (''telnetEnabled'', map_override JBool (gd_telnet_enabled d)),
      (''telnetPort'', map_override number_json (gd_telnet_port d)),
      (''theme'', map_override JString (gd_theme d)),
      (''themeOverride'', map_override JBool (gd_theme_override d)),
      (''fontFamily'', map_override JString (gd_font_family d)),
      (''fontFamilyOverride'', map_override JBool (gd_font_family_override d)),
      (''fontSize'', map_override float_json (gd_font_size d)),
      (''fontSizeOverride'', map_override JBool (gd_font_size_override d)),
      (''fontWeight'', map_override float_json (gd_font_weight d)),
      (''fontWeightOverride'', map_override JBool (gd_font_weight_override d)),
      (''backspaceBehavior'', map_override backspace_json (gd_backspace_behavior d))]"

definition apply_non_credential_defaults :: "group_defaults \<Rightarrow> bool \<Rightarrow> json_map \<Rightarrow> json_map" where
  "apply_non_credential_defaults d include_host_chain m =
     fold (\<lambda>(key, v). apply_serialized_override key False v)
       (non_credential_defaults d include_host_chain) m"

section \<open>The host chain\<close>

fun host_ids_of_json :: "json list \<Rightarrow> rstr list option" where
  "host_ids_of_json [] = Some []"
| "host_ids_of_json (JString s # vs) =
     (if validate_id s = Inr () then map_option ((#) s) (host_ids_of_json vs) else None)"
| "host_ids_of_json (_ # vs) = None"

definition host_chain_of_json :: "json \<Rightarrow> rstr list option" where
  "host_chain_of_json v = (case v of
     JArray vs \<Rightarrow> Option.bind (host_ids_of_json vs) (\<lambda>ids. ok (host_chain_new ids))
   | _ \<Rightarrow> None)"

definition legacy_chain_of_json :: "json_map \<Rightarrow> rstr list option" where
  "legacy_chain_of_json m =
     (case m of
        [(k, v)] \<Rightarrow> if k = lit ''hostIds'' then host_chain_of_json v else None
      | _ \<Rightarrow> None)"

definition parse_effective_host_chain :: "json option \<Rightarrow> projection_error + rstr list" where
  "parse_effective_host_chain v =
     (let result = (\<lambda>r. case r of None \<Rightarrow> Inl InvalidHostMetadata | Some ids \<Rightarrow> Inr ids)
      in case v of
           None \<Rightarrow> Inr []
         | Some JNull \<Rightarrow> Inr []
         | Some (JObject m) \<Rightarrow> result (legacy_chain_of_json m)
         | Some (JArray vs) \<Rightarrow> result (host_chain_of_json (JArray vs))
         | Some _ \<Rightarrow> Inl InvalidHostMetadata)"

section \<open>The projection\<close>

record host_projection =
  hp_effective_host :: saved_host
  hp_resolved_group_defaults :: group_defaults
  hp_host_chain_ids :: "rstr list"
  hp_ssh_credential_owner :: "credential_owner option"
  hp_telnet_credential_owner :: "credential_owner option"
  hp_inline_proxy_credential_owner :: "credential_owner option"

definition host_metadata :: "'e + 'a \<Rightarrow> projection_error + 'a" where
  "host_metadata r = (case r of Inl _ \<Rightarrow> Inl InvalidHostMetadata | Inr x \<Rightarrow> Inr x)"

definition projected_metadata :: "'e + 'a \<Rightarrow> projection_error + 'a" where
  "projected_metadata r = (case r of Inl _ \<Rightarrow> Inl InvalidProjectedMetadata | Inr x \<Rightarrow> Inr x)"

definition inactive_ssh :: "saved_host \<Rightarrow> bool" where
  "inactive_ssh host \<longleftrightarrow> is_telnet (sh_protocol host) \<or> is_serial (sh_protocol host)"

definition resolve_host_group :: "saved_host \<Rightarrow> group_config list \<Rightarrow> projection_error + resolved_group" where
  "resolve_host_group host configs =
     and_then (host_metadata (host_group_path host)) (\<lambda>path.
     Inr (case path of
            None \<Rightarrow> no_resolved
          | Some p \<Rightarrow> resolve_group_defaults_with_provenance p configs))"

definition own_credential :: "saved_host \<Rightarrow> bool \<Rightarrow> credential_owner option" where
  "own_credential host b = (if b then Some (HostOwner (sh_id host)) else None)"

definition own_proxy_credential :: "saved_host \<Rightarrow> proxy_config option \<Rightarrow> bool" where
  "own_proxy_credential host proxy \<longleftrightarrow>
     \<not> inactive_ssh host \<and>
     (case proxy of None \<Rightarrow> False | Some c \<Rightarrow> inline_proxy_has_saved_manual_credential c)"

definition finish_projection ::
    "saved_host \<Rightarrow> resolved_group \<Rightarrow> json_map \<Rightarrow> rstr \<Rightarrow> credential_owner option \<Rightarrow>
     credential_owner option \<Rightarrow> credential_owner option \<Rightarrow> projection_error + host_projection" where
  "finish_projection host resolved m username ssh telnet proxy =
     (let m = apply_non_credential_defaults (rg_defaults resolved) (\<not> inactive_ssh host) m
      in and_then (projected_metadata (with_projected_compatibility_fields m host)) (\<lambda>effective.
         let effective = effective\<lparr>sh_username := username\<rparr>
         in and_then (projected_metadata (validate_host effective)) (\<lambda>_.
         and_then (if inactive_ssh host then Inr []
             else parse_effective_host_chain (bt_get (sh_fields effective) (lit ''hostChain''))) (\<lambda>chain.
         Inr \<lparr>hp_effective_host = effective, hp_resolved_group_defaults = rg_defaults resolved,
              hp_host_chain_ids = chain, hp_ssh_credential_owner = ssh, hp_telnet_credential_owner = telnet,
              hp_inline_proxy_credential_owner = proxy\<rparr>))))"

definition project_saved_host_connection ::
    "saved_host \<Rightarrow> group_config list \<Rightarrow> projection_error + host_projection" where
  "project_saved_host_connection host configs =
     and_then (resolve_host_group host configs) (\<lambda>resolved.
     and_then (host_metadata (host_proxy_config host)) (\<lambda>own_proxy.
     and_then (host_metadata (host_proxy_profile_id host)) (\<lambda>_.
     let m = sh_fields host;
         saved = boolean_field m ''hasSavedCredential'';
         ssh = own_credential host (\<not> inactive_ssh host \<and> saved);
         telnet = own_credential host (is_telnet (sh_protocol host) \<and> saved);
         proxy = own_credential host (own_proxy_credential host own_proxy)
     in and_then (if inactive_ssh host then Inr (m, sh_username host, ssh)
          else apply_ssh_defaults host resolved m (sh_username host) ssh) (\<lambda>(m, username, ssh).
        and_then (if is_serial (sh_protocol host) then Inr (m, telnet)
          else apply_telnet_defaults host resolved m telnet) (\<lambda>(m, telnet).
        and_then (if inactive_ssh host then Inr (m, proxy)
          else apply_proxy_defaults resolved m proxy) (\<lambda>(m, proxy).
        finish_projection host resolved m username ssh telnet proxy))))))"

section \<open>Fields that a step leaves alone\<close>

text \<open>Values that are neither absent nor null nor the empty string.\<close>

definition explicit_value :: "json \<Rightarrow> bool" where
  "explicit_value v \<longleftrightarrow> v \<noteq> JNull \<and> v \<noteq> JString []"

definition keeps :: "json_map \<Rightarrow> json_map \<Rightarrow> bool" where
  "keeps m m' \<longleftrightarrow>
     (\<forall>k v. bt_get m k = Some v \<longrightarrow> explicit_value v \<longrightarrow> k \<noteq> lit ''hasSavedCredential'' \<longrightarrow> bt_get m' k = Some v)"

lemma keeps_refl [simp]: "keeps m m"
  by (simp add: keeps_def)

lemma keeps_trans [trans]: "keeps a b \<Longrightarrow> keeps b c \<Longrightarrow> keeps a c"
  by (auto simp: keeps_def)

lemma inherits_not_explicit: "field_inherits (Some v) e \<Longrightarrow> \<not> explicit_value v"
  by (auto simp: field_inherits_def explicit_value_def split: json.splits)

lemma keeps_serialized: "keeps m (apply_serialized_override key e v m)"
  by (auto simp: keeps_def apply_serialized_override_def dest: inherits_not_explicit split: override.split)

lemma keeps_identity: "keeps m (apply_identity_override v m)"
  by (auto simp: keeps_def apply_identity_override_def dest: inherits_not_explicit split: override.split)

lemma keeps_fold: "keeps m (fold (\<lambda>(key, v). apply_serialized_override key e v) kvs m)"
proof (induction kvs arbitrary: m)
  case (Cons kv kvs)
  obtain key v where kv: "kv = (key, v)" by force
  have "keeps m (apply_serialized_override key e v m)" by (rule keeps_serialized)
  also have "keeps \<dots> (fold (\<lambda>(key, v). apply_serialized_override key e v) kvs (apply_serialized_override key e v m))"
    by (rule Cons.IH)
  finally show ?case by (simp add: kv)
qed simp

lemma get_serialized: "k \<noteq> lit key \<Longrightarrow> bt_get (apply_serialized_override key e v m) k = bt_get m k"
  by (simp add: apply_serialized_override_def split: override.split)

lemma get_identity: "k \<noteq> lit ''identityId'' \<Longrightarrow> bt_get (apply_identity_override v m) k = bt_get m k"
  by (simp add: apply_identity_override_def split: override.split)

lemma get_fold:
  "k \<notin> lit ` fst ` set kvs \<Longrightarrow> bt_get (fold (\<lambda>(key, v). apply_serialized_override key e v) kvs m) k = bt_get m k"
proof (induction kvs arbitrary: m)
  case (Cons kv kvs)
  obtain key v where kv: "kv = (key, v)" by force
  show ?case using Cons.IH [of "apply_serialized_override key e v m"] Cons.prems by (simp add: kv get_serialized)
qed simp

text \<open>The keys that \<open>apply_non_credential_defaults\<close> never touches.\<close>

definition credential_keys :: "string list" where
  "credential_keys = [''hasSavedCredential'', ''savePassword'', ''identityId'', ''identityFileId'',
     ''identityFilePaths'', ''proxyConfig'', ''proxyProfileId'', ''telnetIdentityId'', ''telnetUsername'']"

lemma get_non_credential:
  assumes "key \<in> set credential_keys"
  shows "bt_get (apply_non_credential_defaults d b m) (lit key) = bt_get m (lit key)"
  unfolding apply_non_credential_defaults_def
proof (rule get_fold)
  have "key \<notin> fst ` set (non_credential_defaults d b)"
    using assms by (auto simp: credential_keys_def non_credential_defaults_def)
  then show "lit key \<notin> lit ` fst ` set (non_credential_defaults d b)" by (simp add: image_iff)
qed

lemma get_host_chain_inactive:
  "bt_get (apply_non_credential_defaults d False m) (lit ''hostChain'') = bt_get m (lit ''hostChain'')"
  unfolding apply_non_credential_defaults_def by (rule get_fold) (simp add: non_credential_defaults_def image_iff)

lemma apply_ssh_password_cases:
  assumes "apply_ssh_password r m owner = Inr (m', owner')"
  shows "keeps m m'" "\<And>k. k \<noteq> lit ''hasSavedCredential'' \<Longrightarrow> bt_get m' k = bt_get m k"
    "m' = m \<and> owner' = owner \<or>
     (\<exists>g. owner' = Some (GroupOwner g) \<and> rg_ssh_credential_owner r = Some g \<and>
        boolean_field m' ''hasSavedCredential'' \<and> \<not> boolean_field m ''hasSavedCredential'' \<and>
        \<not> save_password_off m)"
  using assms
  by (auto simp: apply_ssh_password_def keeps_def boolean_field_def
      split: if_splits credential_override.splits option.splits)

lemma apply_ssh_defaults_cases:
  assumes "apply_ssh_defaults host r m u owner = Inr (m', u', owner')"
  shows "keeps m m'" "u \<noteq> [] \<Longrightarrow> u' = u"
    "boolean_field m' ''hasSavedCredential'' = boolean_field m ''hasSavedCredential'' \<and> owner' = owner \<or>
     (\<exists>g. owner' = Some (GroupOwner g) \<and> rg_ssh_credential_owner r = Some g \<and>
        boolean_field m' ''hasSavedCredential'' \<and> \<not> boolean_field m ''hasSavedCredential'' \<and>
        \<not> save_password_off m)"
    "\<And>key. key \<in> {''proxyConfig'', ''proxyProfileId'', ''hostChain''} \<Longrightarrow> bt_get m' (lit key) = bt_get m (lit key)"
proof -
  have "keeps m m' \<and> (u \<noteq> [] \<longrightarrow> u' = u) \<and>
    (boolean_field m' ''hasSavedCredential'' = boolean_field m ''hasSavedCredential'' \<and> owner' = owner \<or>
     (\<exists>g. owner' = Some (GroupOwner g) \<and> rg_ssh_credential_owner r = Some g \<and>
        boolean_field m' ''hasSavedCredential'' \<and> \<not> boolean_field m ''hasSavedCredential'' \<and>
        \<not> save_password_off m)) \<and>
    (\<forall>key \<in> {''proxyConfig'', ''proxyProfileId'', ''hostChain''}. bt_get m' (lit key) = bt_get m (lit key))"
  proof (cases "skip_group_ssh_bundle host (rg_defaults r) m")
    case True
    with assms show ?thesis by (simp add: apply_ssh_defaults_def)
  next
    case False
    define adjust where "adjust n =
      apply_serialized_override ''identityFilePaths'' False (map_override strings_json (gd_identity_file_paths (rg_defaults r)))
       (apply_serialized_override ''identityFileId'' False (map_override JString (gd_identity_file_id (rg_defaults r)))
         (apply_identity_override (gd_identity_id (rg_defaults r))
           (apply_serialized_override ''savePassword'' False (map_override JBool (gd_save_password (rg_defaults r))) n)))" for n
    obtain m1 where p: "apply_ssh_password r m owner = Inr (m1, owner')" and m': "m' = adjust m1"
      and u: "u \<noteq> [] \<longrightarrow> u' = u"
      using assms False by (auto simp: apply_ssh_defaults_def and_then_Inr adjust_def Let_def)
    have "keeps m1 m'"
      unfolding m' adjust_def by (meson keeps_trans keeps_serialized keeps_identity)
    moreover have get: "bt_get m' (lit key) = bt_get m1 (lit key)"
      if "key \<in> {''proxyConfig'', ''proxyProfileId'', ''hostChain'', ''hasSavedCredential''}" for key
      using that by (auto simp: m' adjust_def get_serialized get_identity)
    moreover have "boolean_field m' ''hasSavedCredential'' = boolean_field m1 ''hasSavedCredential''"
      using get by (simp add: boolean_field_def)
    ultimately show ?thesis
      using apply_ssh_password_cases [OF p] u by (auto intro: keeps_trans)
  qed
  then show "keeps m m'" "u \<noteq> [] \<Longrightarrow> u' = u"
    "boolean_field m' ''hasSavedCredential'' = boolean_field m ''hasSavedCredential'' \<and> owner' = owner \<or>
     (\<exists>g. owner' = Some (GroupOwner g) \<and> rg_ssh_credential_owner r = Some g \<and>
        boolean_field m' ''hasSavedCredential'' \<and> \<not> boolean_field m ''hasSavedCredential'' \<and>
        \<not> save_password_off m)"
    "\<And>key. key \<in> {''proxyConfig'', ''proxyProfileId'', ''hostChain''} \<Longrightarrow> bt_get m' (lit key) = bt_get m (lit key)"
    by auto
qed

lemma apply_telnet_defaults_cases:
  assumes "apply_telnet_defaults host r m owner = Inr (m', owner')"
  shows "keeps m m'"
    "\<And>k. k \<noteq> lit ''telnetIdentityId'' \<Longrightarrow> k \<noteq> lit ''telnetUsername'' \<Longrightarrow> bt_get m' k = bt_get m k"
    "owner' = owner \<or> owner = None \<and> \<not> host_telnet_manual host m \<and>
     (\<exists>g. owner' = Some (GroupOwner g) \<and> rg_telnet_credential_owner r = Some g)"
proof -
  let ?m1 = "if host_telnet_manual host m then m
    else apply_serialized_override ''telnetIdentityId'' True (map_override JString (gd_telnet_identity_id (rg_defaults r))) m"
  have m': "m' = apply_serialized_override ''telnetUsername'' True (map_override JString (gd_telnet_username (rg_defaults r))) ?m1"
    using assms by (auto simp: apply_telnet_defaults_def Let_def split: if_splits option.splits)
  have "keeps m ?m1" by (simp add: keeps_serialized)
  then show "keeps m m'" unfolding m' by (rule keeps_trans) (rule keeps_serialized)
  show "\<And>k. k \<noteq> lit ''telnetIdentityId'' \<Longrightarrow> k \<noteq> lit ''telnetUsername'' \<Longrightarrow> bt_get m' k = bt_get m k"
    unfolding m' by (simp add: get_serialized)
  show "owner' = owner \<or> owner = None \<and> \<not> host_telnet_manual host m \<and>
     (\<exists>g. owner' = Some (GroupOwner g) \<and> rg_telnet_credential_owner r = Some g)"
    using assms by (auto simp: apply_telnet_defaults_def Let_def split: if_splits option.splits)
qed

lemma apply_proxy_defaults_cases:
  assumes "apply_proxy_defaults r m owner = Inr (m', owner')"
  shows "keeps m m'"
    "\<And>k. k \<noteq> lit ''proxyConfig'' \<Longrightarrow> k \<noteq> lit ''proxyProfileId'' \<Longrightarrow> bt_get m' k = bt_get m k"
    "m' = m \<and> (owner' = owner \<or> gd_proxy (rg_defaults r) = ProxyClear \<and> owner' = None) \<or>
     owner' = None \<and> gd_proxy (rg_defaults r) \<noteq> ProxyClear \<or>
     (\<exists>g c. owner' = Some (GroupOwner g) \<and> rg_inline_proxy_credential_owner r = Some g \<and>
        gd_proxy (rg_defaults r) = Inline c \<and> bt_get m' (lit ''proxyConfig'') = Some (proxy_to_json c))"
proof -
  have absent: "\<not> bt_contains k m \<Longrightarrow> bt_get m k = None" for k by (simp add: bt_contains_def)
  show "keeps m m'"
    using assms inherits_not_explicit absent
    by (fastforce simp: apply_proxy_defaults_def keeps_def Let_def split: proxy_override.splits if_splits option.splits)
  show "\<And>k. k \<noteq> lit ''proxyConfig'' \<Longrightarrow> k \<noteq> lit ''proxyProfileId'' \<Longrightarrow> bt_get m' k = bt_get m k"
    using assms by (auto simp: apply_proxy_defaults_def Let_def split: proxy_override.splits if_splits option.splits)
  show "m' = m \<and> (owner' = owner \<or> gd_proxy (rg_defaults r) = ProxyClear \<and> owner' = None) \<or>
     owner' = None \<and> gd_proxy (rg_defaults r) \<noteq> ProxyClear \<or>
     (\<exists>g c. owner' = Some (GroupOwner g) \<and> rg_inline_proxy_credential_owner r = Some g \<and>
        gd_proxy (rg_defaults r) = Inline c \<and> bt_get m' (lit ''proxyConfig'') = Some (proxy_to_json c))"
    using assms by (auto simp: apply_proxy_defaults_def Let_def split: proxy_override.splits if_splits option.splits)
qed

section \<open>The steps of a projection\<close>

lemma host_metadata_Inr [simp]: "host_metadata r = Inr x \<longleftrightarrow> r = Inr x"
  by (cases r) (simp_all add: host_metadata_def)

lemma projected_metadata_Inr [simp]: "projected_metadata r = Inr x \<longleftrightarrow> r = Inr x"
  by (cases r) (simp_all add: projected_metadata_def)

definition initial_owners where
  "initial_owners host own =
     (own_credential host (\<not> inactive_ssh host \<and> boolean_field (sh_fields host) ''hasSavedCredential''),
      own_credential host (is_telnet (sh_protocol host) \<and> boolean_field (sh_fields host) ''hasSavedCredential''),
      own_credential host (own_proxy_credential host own))"

lemma finish_steps:
  assumes "finish_projection host r m u ssh tel prox = Inr p"
  shows "hp_ssh_credential_owner p = ssh" "hp_telnet_credential_owner p = tel"
    "hp_inline_proxy_credential_owner p = prox"
    "hp_effective_host p = host\<lparr>sh_username := u,
       sh_fields := apply_non_credential_defaults (rg_defaults r) (\<not> inactive_ssh host) m\<rparr>"
    "validate_host (hp_effective_host p) = Inr ()"
    "inactive_ssh host \<Longrightarrow> hp_host_chain_ids p = []"
    "\<not> inactive_ssh host \<Longrightarrow>
       parse_effective_host_chain (bt_get (sh_fields (hp_effective_host p)) (lit ''hostChain'')) = Inr (hp_host_chain_ids p)"
    "hp_resolved_group_defaults p = rg_defaults r"
  using assms
  by (auto simp: finish_projection_def with_projected_compatibility_fields_def and_then_Inr Let_def
      split: if_splits)

lemma and_then_pair:
  "and_then r (\<lambda>(a, b). f a b) = Inr y \<longleftrightarrow> (\<exists>a b. r = Inr (a, b) \<and> f a b = Inr y)"
  by (cases r) auto

lemma and_then_triple:
  "and_then r (\<lambda>(a, b, c). f a b c) = Inr y \<longleftrightarrow> (\<exists>a b c. r = Inr (a, b, c) \<and> f a b c = Inr y)"
  by (cases r) auto

lemma project_steps:
  assumes "project_saved_host_connection host configs = Inr p"
  obtains r own m1 u m2 m3 ssh0 tel0 prox0 where
    "resolve_host_group host configs = Inr r" "host_proxy_config host = Inr own"
    "\<exists>i. host_proxy_profile_id host = Inr i"
    "initial_owners host own = (ssh0, tel0, prox0)"
    "if inactive_ssh host then (m1, u, hp_ssh_credential_owner p) = (sh_fields host, sh_username host, ssh0)
     else apply_ssh_defaults host r (sh_fields host) (sh_username host) ssh0 = Inr (m1, u, hp_ssh_credential_owner p)"
    "if is_serial (sh_protocol host) then (m2, hp_telnet_credential_owner p) = (m1, tel0)
     else apply_telnet_defaults host r m1 tel0 = Inr (m2, hp_telnet_credential_owner p)"
    "if inactive_ssh host then (m3, hp_inline_proxy_credential_owner p) = (m2, prox0)
     else apply_proxy_defaults r m2 prox0 = Inr (m3, hp_inline_proxy_credential_owner p)"
    "finish_projection host r m3 u (hp_ssh_credential_owner p) (hp_telnet_credential_owner p)
       (hp_inline_proxy_credential_owner p) = Inr p"
proof -
  obtain r own i where r: "resolve_host_group host configs = Inr r" and own: "host_proxy_config host = Inr own"
    and i: "host_proxy_profile_id host = Inr i"
    using assms by (auto simp: project_saved_host_connection_def and_then_Inr)
  obtain ssh0 tel0 prox0 where init: "initial_owners host own = (ssh0, tel0, prox0)"
    by (simp add: initial_owners_def)
  have e: "ssh0 = own_credential host (\<not> inactive_ssh host \<and> boolean_field (sh_fields host) ''hasSavedCredential'')"
    "tel0 = own_credential host (is_telnet (sh_protocol host) \<and> boolean_field (sh_fields host) ''hasSavedCredential'')"
    "prox0 = own_credential host (own_proxy_credential host own)"
    using init by (simp_all add: initial_owners_def)
  obtain m1 u ssh m2 tel m3 prox where
    a: "(if inactive_ssh host then Inr (sh_fields host, sh_username host, ssh0)
         else apply_ssh_defaults host r (sh_fields host) (sh_username host) ssh0) = Inr (m1, u, ssh)"
    and b: "(if is_serial (sh_protocol host) then Inr (m1, tel0) else apply_telnet_defaults host r m1 tel0) = Inr (m2, tel)"
    and c: "(if inactive_ssh host then Inr (m2, prox0) else apply_proxy_defaults r m2 prox0) = Inr (m3, prox)"
    and f: "finish_projection host r m3 u ssh tel prox = Inr p"
  proof -
    have "and_then (if inactive_ssh host then Inr (sh_fields host, sh_username host, ssh0)
         else apply_ssh_defaults host r (sh_fields host) (sh_username host) ssh0) (\<lambda>(m, u, ssh).
        and_then (if is_serial (sh_protocol host) then Inr (m, tel0) else apply_telnet_defaults host r m tel0) (\<lambda>(m, tel).
        and_then (if inactive_ssh host then Inr (m, prox0) else apply_proxy_defaults r m prox0) (\<lambda>(m, prox).
        finish_projection host r m u ssh tel prox))) = Inr p"
      using assms unfolding e project_saved_host_connection_def Let_def
      by (simp only: r own i host_metadata_def sum.case and_then_simps)
    with that show thesis unfolding and_then_triple and_then_pair by blast
  qed
  show thesis
    using r own i init a b c f finish_steps(1-3) [OF f]
    by (intro that [of r own ssh0 tel0 prox0 m1 u m2 m3]) (auto split: if_splits)
qed

definition host_line :: "saved_host \<Rightarrow> group_config list \<Rightarrow> group_config list" where
  "host_line host configs = (case host_group_path host of
     Inr (Some path) \<Rightarrow> filter (\<lambda>c. gc_path c \<in> set (ancestors path)) configs
   | _ \<Rightarrow> [])"

lemma resolved_host_owner:
  assumes "resolve_host_group host configs = Inr r"
  shows "rg_ssh_credential_owner r = Some g \<Longrightarrow> ssh_source (host_line host configs) g"
    "rg_telnet_credential_owner r = Some g \<Longrightarrow> telnet_source (host_line host configs) g"
    "rg_inline_proxy_credential_owner r = Some g \<Longrightarrow> gd_proxy (rg_defaults r) = Inline c \<Longrightarrow>
       inline_proxy_has_saved_manual_credential c \<and> proxy_source (host_line host configs) c g"
proof -
  obtain path where path: "host_group_path host = Inr path"
    and r: "r = (case path of None \<Rightarrow> no_resolved | Some p \<Rightarrow> resolve_group_defaults_with_provenance p configs)"
    using assms by (auto simp: resolve_host_group_def and_then_Inr)
  have "(rg_ssh_credential_owner r = Some g \<longrightarrow> ssh_source (host_line host configs) g) \<and>
    (rg_telnet_credential_owner r = Some g \<longrightarrow> telnet_source (host_line host configs) g) \<and>
    (rg_inline_proxy_credential_owner r = Some g \<longrightarrow> gd_proxy (rg_defaults r) = Inline c \<longrightarrow>
       inline_proxy_has_saved_manual_credential c \<and> proxy_source (host_line host configs) c g)"
  proof (cases path)
    case (Some q)
    then show ?thesis
      using resolved_owner_sound [of q configs g g g] by (auto simp: r path host_line_def Let_def)
  qed (simp add: r no_resolved_def)
  then show "rg_ssh_credential_owner r = Some g \<Longrightarrow> ssh_source (host_line host configs) g"
    "rg_telnet_credential_owner r = Some g \<Longrightarrow> telnet_source (host_line host configs) g"
    "rg_inline_proxy_credential_owner r = Some g \<Longrightarrow> gd_proxy (rg_defaults r) = Inline c \<Longrightarrow>
       inline_proxy_has_saved_manual_credential c \<and> proxy_source (host_line host configs) c g"
    by blast+
qed

section \<open>The properties of a projection\<close>

text \<open>C9: a projection is a view of the same host: it differs from the saved host in the user name and
  the compatibility fields only, it is valid, and what the host says explicitly always wins: a
  non-empty user name stays, and every member that is neither null nor the empty string keeps its
  value whatever the groups define (only the hint \<^verbatim>\<open>hasSavedCredential\<close> may be raised).\<close>

theorem projection_keeps_host:
  assumes "project_saved_host_connection host configs = Inr p"
  shows "\<exists>u m. hp_effective_host p = host\<lparr>sh_username := u, sh_fields := m\<rparr> \<and>
     (sh_username host \<noteq> [] \<longrightarrow> u = sh_username host) \<and> keeps (sh_fields host) m \<and>
     validate_host (hp_effective_host p) = Inr ()"
proof -
  obtain r own m1 u m2 m3 ssh0 tel0 prox0 where
    a: "if inactive_ssh host then (m1, u, hp_ssh_credential_owner p) = (sh_fields host, sh_username host, ssh0)
     else apply_ssh_defaults host r (sh_fields host) (sh_username host) ssh0 = Inr (m1, u, hp_ssh_credential_owner p)"
    and b: "if is_serial (sh_protocol host) then (m2, hp_telnet_credential_owner p) = (m1, tel0)
     else apply_telnet_defaults host r m1 tel0 = Inr (m2, hp_telnet_credential_owner p)"
    and c: "if inactive_ssh host then (m3, hp_inline_proxy_credential_owner p) = (m2, prox0)
     else apply_proxy_defaults r m2 prox0 = Inr (m3, hp_inline_proxy_credential_owner p)"
    and f: "finish_projection host r m3 u (hp_ssh_credential_owner p) (hp_telnet_credential_owner p)
       (hp_inline_proxy_credential_owner p) = Inr p"
    by (rule project_steps [OF assms])
  have 1: "keeps (sh_fields host) m1" "sh_username host \<noteq> [] \<longrightarrow> u = sh_username host"
    using a apply_ssh_defaults_cases(1,2) by (auto split: if_splits)
  have "keeps m1 m2" using b apply_telnet_defaults_cases(1) by (auto split: if_splits)
  moreover have "keeps m2 m3" using c apply_proxy_defaults_cases(1) by (auto split: if_splits)
  moreover have "keeps m3 (apply_non_credential_defaults (rg_defaults r) (\<not> inactive_ssh host) m3)"
    unfolding apply_non_credential_defaults_def by (rule keeps_fold)
  ultimately show ?thesis
    using 1 finish_steps(4,5) [OF f] keeps_trans by blast
qed

text \<open>The steps for a host whose SSH relationships are active, with the owners they start from.\<close>

lemma active_steps:
  assumes "project_saved_host_connection host configs = Inr p" and "\<not> inactive_ssh host"
  obtains r own m1 u m2 m3 where
    "resolve_host_group host configs = Inr r" "host_proxy_config host = Inr own"
    "apply_ssh_defaults host r (sh_fields host) (sh_username host)
       (own_credential host (boolean_field (sh_fields host) ''hasSavedCredential'')) = Inr (m1, u, hp_ssh_credential_owner p)"
    "apply_telnet_defaults host r m1 None = Inr (m2, hp_telnet_credential_owner p)"
    "apply_proxy_defaults r m2 (own_credential host (own_proxy_credential host own))
       = Inr (m3, hp_inline_proxy_credential_owner p)"
    "hp_resolved_group_defaults p = rg_defaults r"
    "\<forall>k \<in> set credential_keys. bt_get (sh_fields (hp_effective_host p)) (lit k) = bt_get m3 (lit k)"
proof -
  have tel: "\<not> is_telnet (sh_protocol host)" "\<not> is_serial (sh_protocol host)"
    using assms(2) by (simp_all add: inactive_ssh_def)
  obtain r own m1 u m2 m3 ssh0 tel0 prox0 where
    r: "resolve_host_group host configs = Inr r" and own: "host_proxy_config host = Inr own"
    and init: "initial_owners host own = (ssh0, tel0, prox0)"
    and a: "apply_ssh_defaults host r (sh_fields host) (sh_username host) ssh0 = Inr (m1, u, hp_ssh_credential_owner p)"
    and b: "apply_telnet_defaults host r m1 tel0 = Inr (m2, hp_telnet_credential_owner p)"
    and c: "apply_proxy_defaults r m2 prox0 = Inr (m3, hp_inline_proxy_credential_owner p)"
    and f: "finish_projection host r m3 u (hp_ssh_credential_owner p) (hp_telnet_credential_owner p)
       (hp_inline_proxy_credential_owner p) = Inr p"
    by (rule project_steps [OF assms(1)]) (simp add: assms(2) tel)
  have "ssh0 = own_credential host (boolean_field (sh_fields host) ''hasSavedCredential'')" "tel0 = None"
    "prox0 = own_credential host (own_proxy_credential host own)"
    using init assms(2) tel by (auto simp: initial_owners_def own_credential_def)
  then show thesis
    using that [of r own m1 u m2 m3] r own a b c finish_steps(4,8) [OF f] get_non_credential by simp
qed

lemma ssh_fields_kept:
  assumes "apply_ssh_defaults host r m u owner = Inr (m1, u', owner')" and "apply_telnet_defaults host r m1 t = Inr (m2, t')"
  shows "bt_get m2 (lit ''proxyConfig'') = bt_get m (lit ''proxyConfig'')"
    "boolean_field m2 ''hasSavedCredential'' = boolean_field m1 ''hasSavedCredential''"
  using apply_telnet_defaults_cases(2) [OF assms(2), of "lit ''proxyConfig''"]
    apply_telnet_defaults_cases(2) [OF assms(2), of "lit ''hasSavedCredential''"]
    apply_ssh_defaults_cases(4) [OF assms(1), of "''proxyConfig''"]
  by (simp_all add: boolean_field_def)

lemma projected_proxy_owner:
  assumes "resolve_host_group host configs = Inr r" and "host_proxy_config host = Inr own"
    and "apply_proxy_defaults r m (own_credential host (own_proxy_credential host own)) = Inr (m', owner)"
  shows "case owner of
       Some (HostOwner i) \<Rightarrow> i = sh_id host \<and>
         bt_get m' (lit ''proxyConfig'') = bt_get m (lit ''proxyConfig'') \<and>
         (\<exists>c. host_proxy_config host = Inr (Some c) \<and> inline_proxy_has_saved_manual_credential c)
     | Some (GroupOwner g) \<Rightarrow>
         (\<exists>c. bt_get m' (lit ''proxyConfig'') = Some (proxy_to_json c) \<and>
            inline_proxy_has_saved_manual_credential c \<and> proxy_source (host_line host configs) c g)
     | None \<Rightarrow> True"
proof -
  consider (kept) "m' = m" "owner = own_credential host (own_proxy_credential host own)"
    | (none) "owner = None"
    | (group) g c where "owner = Some (GroupOwner g)"
        "rg_inline_proxy_credential_owner r = Some g" "gd_proxy (rg_defaults r) = Inline c"
        "bt_get m' (lit ''proxyConfig'') = Some (proxy_to_json c)"
    using apply_proxy_defaults_cases(3) [OF assms(3)] by (elim disjE exE conjE) metis+
  then show ?thesis
  proof cases
    case kept
    then show ?thesis
      using assms(2) by (auto simp: own_credential_def own_proxy_credential_def split: option.splits)
  next
    case group
    then show ?thesis using resolved_host_owner(3) [OF assms(1) group(2,3)] by auto
  qed simp
qed

text \<open>C3: the owners of the credentials that a connection of an SSH host (one whose protocol is neither
  Telnet nor serial) will use: an SSH owner exists exactly when the effective host carries the credential hint, and it is the host itself, for a credential of its own,
  or a record of its groups that states a stored password; a Telnet owner is such a record as well; a proxy owner is
  the host for its own unchanged inline proxy, or the record whose inline proxy is the effective one.\<close>

theorem projection_owners_sound:
  assumes "project_saved_host_connection host configs = Inr p" and "\<not> inactive_ssh host"
  shows "boolean_field (sh_fields (hp_effective_host p)) ''hasSavedCredential'' =
      (hp_ssh_credential_owner p \<noteq> None) \<and>
    (case hp_ssh_credential_owner p of
       Some (HostOwner i) \<Rightarrow> i = sh_id host \<and> boolean_field (sh_fields host) ''hasSavedCredential''
     | Some (GroupOwner g) \<Rightarrow> ssh_source (host_line host configs) g \<and>
         \<not> boolean_field (sh_fields host) ''hasSavedCredential'' \<and> \<not> save_password_off (sh_fields host)
     | None \<Rightarrow> True) \<and>
    (case hp_telnet_credential_owner p of
       Some (GroupOwner g) \<Rightarrow> telnet_source (host_line host configs) g
     | Some (HostOwner i) \<Rightarrow> False
     | None \<Rightarrow> True) \<and>
    (case hp_inline_proxy_credential_owner p of
       Some (HostOwner i) \<Rightarrow> i = sh_id host \<and>
         bt_get (sh_fields (hp_effective_host p)) (lit ''proxyConfig'') = bt_get (sh_fields host) (lit ''proxyConfig'') \<and>
         (\<exists>c. host_proxy_config host = Inr (Some c) \<and> inline_proxy_has_saved_manual_credential c)
     | Some (GroupOwner g) \<Rightarrow>
         (\<exists>c. bt_get (sh_fields (hp_effective_host p)) (lit ''proxyConfig'') = Some (proxy_to_json c) \<and>
            inline_proxy_has_saved_manual_credential c \<and> proxy_source (host_line host configs) c g)
     | None \<Rightarrow> True)"
proof -
  obtain r own m1 u m2 m3 where
    r: "resolve_host_group host configs = Inr r" and own: "host_proxy_config host = Inr own"
    and a: "apply_ssh_defaults host r (sh_fields host) (sh_username host)
       (own_credential host (boolean_field (sh_fields host) ''hasSavedCredential'')) = Inr (m1, u, hp_ssh_credential_owner p)"
    and b: "apply_telnet_defaults host r m1 None = Inr (m2, hp_telnet_credential_owner p)"
    and c: "apply_proxy_defaults r m2 (own_credential host (own_proxy_credential host own))
       = Inr (m3, hp_inline_proxy_credential_owner p)"
    and eff: "\<forall>k \<in> set credential_keys. bt_get (sh_fields (hp_effective_host p)) (lit k) = bt_get m3 (lit k)"
    by (rule active_steps [OF assms])
  have saved: "boolean_field (sh_fields (hp_effective_host p)) ''hasSavedCredential'' = boolean_field m1 ''hasSavedCredential''"
    using eff apply_proxy_defaults_cases(2) [OF c, of "lit ''hasSavedCredential''"] ssh_fields_kept(2) [OF a b]
    by (simp add: boolean_field_def credential_keys_def)
  have inline: "bt_get (sh_fields (hp_effective_host p)) (lit ''proxyConfig'') = bt_get m3 (lit ''proxyConfig'')"
    using eff by (simp add: credential_keys_def)
  have ssh: "boolean_field m1 ''hasSavedCredential'' = (hp_ssh_credential_owner p \<noteq> None) \<and>
    (case hp_ssh_credential_owner p of
       Some (HostOwner i) \<Rightarrow> i = sh_id host \<and> boolean_field (sh_fields host) ''hasSavedCredential''
     | Some (GroupOwner g) \<Rightarrow> ssh_source (host_line host configs) g \<and>
         \<not> boolean_field (sh_fields host) ''hasSavedCredential'' \<and> \<not> save_password_off (sh_fields host)
     | None \<Rightarrow> True)"
    using apply_ssh_defaults_cases(3) [OF a] resolved_host_owner(1) [OF r] by (auto simp: own_credential_def)
  have telnet: "case hp_telnet_credential_owner p of
       Some (GroupOwner g) \<Rightarrow> telnet_source (host_line host configs) g
     | Some (HostOwner i) \<Rightarrow> False
     | None \<Rightarrow> True"
    using apply_telnet_defaults_cases(3) [OF b] resolved_host_owner(2) [OF r] by auto
  show ?thesis
    unfolding saved inline
    using ssh telnet projected_proxy_owner [OF r own c] unfolding ssh_fields_kept(1) [OF a b] by blast
qed

text \<open>for a Telnet or serial host the SSH relationships of its groups stay inactive: no jump host,
  no SSH and no proxy owner, and its user name, proxy, host chain and SSH credential fields are
  exactly those it was saved with.\<close>

theorem projection_inactive_ssh:
  assumes "project_saved_host_connection host configs = Inr p" and "inactive_ssh host"
  shows "hp_host_chain_ids p = [] \<and> hp_ssh_credential_owner p = None \<and>
    hp_inline_proxy_credential_owner p = None \<and> sh_username (hp_effective_host p) = sh_username host \<and>
    list_all (\<lambda>k. bt_get (sh_fields (hp_effective_host p)) (lit k) = bt_get (sh_fields host) (lit k))
      [''hasSavedCredential'', ''savePassword'', ''identityId'', ''identityFileId'', ''identityFilePaths'',
       ''proxyConfig'', ''proxyProfileId'', ''hostChain'']"
proof -
  obtain r own m1 u m2 m3 ssh0 tel0 prox0 where
    init: "initial_owners host own = (ssh0, tel0, prox0)"
    and a: "if inactive_ssh host then (m1, u, hp_ssh_credential_owner p) = (sh_fields host, sh_username host, ssh0)
     else apply_ssh_defaults host r (sh_fields host) (sh_username host) ssh0 = Inr (m1, u, hp_ssh_credential_owner p)"
    and b: "if is_serial (sh_protocol host) then (m2, hp_telnet_credential_owner p) = (m1, tel0)
     else apply_telnet_defaults host r m1 tel0 = Inr (m2, hp_telnet_credential_owner p)"
    and c: "if inactive_ssh host then (m3, hp_inline_proxy_credential_owner p) = (m2, prox0)
     else apply_proxy_defaults r m2 prox0 = Inr (m3, hp_inline_proxy_credential_owner p)"
    and f: "finish_projection host r m3 u (hp_ssh_credential_owner p) (hp_telnet_credential_owner p)
       (hp_inline_proxy_credential_owner p) = Inr p"
    by (rule project_steps [OF assms(1)])
  have e: "m1 = sh_fields host" "u = sh_username host" "hp_ssh_credential_owner p = ssh0" "m3 = m2"
    "hp_inline_proxy_credential_owner p = prox0"
    using a c assms(2) by auto
  have o: "ssh0 = None" "prox0 = None"
    using init assms(2) by (auto simp: initial_owners_def own_credential_def own_proxy_credential_def)
  have m2: "bt_get m2 k = bt_get (sh_fields host) k" if "k \<noteq> lit ''telnetIdentityId''" "k \<noteq> lit ''telnetUsername''" for k
    using b that e(1) apply_telnet_defaults_cases(2) by (auto split: if_splits)
  have eff: "sh_fields (hp_effective_host p) = apply_non_credential_defaults (rg_defaults r) False m2"
    "sh_username (hp_effective_host p) = sh_username host"
    using finish_steps(4) [OF f] assms(2) e by simp_all
  have keys: "list_all (\<lambda>k. bt_get (sh_fields (hp_effective_host p)) (lit k) = bt_get (sh_fields host) (lit k))
      [''hasSavedCredential'', ''savePassword'', ''identityId'', ''identityFileId'', ''identityFilePaths'',
       ''proxyConfig'', ''proxyProfileId'', ''hostChain'']"
    by (simp add: eff get_non_credential get_host_chain_inactive credential_keys_def m2)
  show ?thesis
    using finish_steps(6) [OF f assms(2)] e o eff keys by simp
qed

section \<open>Failures\<close>

definition malformed_relationship :: "saved_host \<Rightarrow> bool" where
  "malformed_relationship host \<longleftrightarrow>
     (\<exists>e. host_group_path host = Inl e) \<or> (\<exists>e. host_proxy_config host = Inl e) \<or>
     (\<exists>e. host_proxy_profile_id host = Inl e)"

definition provenance_ok :: "projection_error + 'a \<Rightarrow> bool" where
  "provenance_ok r \<longleftrightarrow> r \<noteq> Inl MissingCredentialProvenance"

lemma provenance_and_then:
  "provenance_ok r \<Longrightarrow> (\<And>x. r = Inr x \<Longrightarrow> provenance_ok (f x)) \<Longrightarrow> provenance_ok (and_then r f)"
  by (cases r) (simp_all add: provenance_ok_def)

lemma provenance_Inr [simp]: "provenance_ok (Inr x)"
  by (simp add: provenance_ok_def)

lemma provenance_metadata [simp]: "provenance_ok (host_metadata r)" "provenance_ok (projected_metadata r)"
  by (cases r; simp add: provenance_ok_def host_metadata_def projected_metadata_def)+

lemma provenance_chain [simp]: "provenance_ok (parse_effective_host_chain v)"
  by (auto simp: provenance_ok_def parse_effective_host_chain_def Let_def split: option.splits json.splits)

lemma provenance_finish: "provenance_ok (finish_projection host r m u ssh tel prox)"
  unfolding finish_projection_def Let_def
  by (intro provenance_and_then) (auto intro: provenance_and_then)

definition owners_known :: "resolved_group \<Rightarrow> bool" where
  "owners_known r \<longleftrightarrow>
     (gd_password (rg_defaults r) = StoredHint \<longrightarrow> rg_ssh_credential_owner r \<noteq> None) \<and>
     (gd_telnet_password (rg_defaults r) = StoredHint \<longrightarrow> rg_telnet_credential_owner r \<noteq> None) \<and>
     (\<forall>p. gd_proxy (rg_defaults r) = Inline p \<longrightarrow> inline_proxy_has_saved_manual_credential p \<longrightarrow>
        rg_inline_proxy_credential_owner r \<noteq> None)"

lemma resolved_owners_known:
  assumes "list_all coherent configs" and "resolve_host_group host configs = Inr r"
  shows "owners_known r"
proof -
  obtain path where "r = (case path of None \<Rightarrow> no_resolved | Some p \<Rightarrow> resolve_group_defaults_with_provenance p configs)"
    using assms(2) by (auto simp: resolve_host_group_def and_then_Inr)
  then show ?thesis
    using resolved_owner_complete [OF assms(1)]
    by (cases path) (auto simp: owners_known_def no_resolved_def no_defaults_def Let_def)
qed

lemma provenance_ssh: "owners_known r \<Longrightarrow> provenance_ok (apply_ssh_defaults host r m u owner)"
  by (auto simp: apply_ssh_defaults_def apply_ssh_password_def owners_known_def Let_def
      split: credential_override.split option.split)

lemma provenance_telnet: "owners_known r \<Longrightarrow> provenance_ok (apply_telnet_defaults host r m owner)"
  by (auto simp: apply_telnet_defaults_def owners_known_def Let_def split: option.split)

lemma provenance_proxy: "owners_known r \<Longrightarrow> provenance_ok (apply_proxy_defaults r m owner)"
  by (auto simp: apply_proxy_defaults_def owners_known_def Let_def split: proxy_override.split option.split)

text \<open>C37: a projection fails closed and for a reason of the host or of the projected metadata only:
  when no group record both defines an identity and states a stored password, the error of a missing
  credential owner cannot occur; and a host whose group, inline proxy or proxy profile is malformed is
  refused as invalid host metadata, never completed from a group.\<close>

theorem projection_fails_closed:
  assumes "list_all coherent configs"
  shows "project_saved_host_connection host configs \<noteq> Inl MissingCredentialProvenance \<and>
    (malformed_relationship host \<longrightarrow> project_saved_host_connection host configs = Inl InvalidHostMetadata)"
proof (intro conjI impI)
  have "provenance_ok (project_saved_host_connection host configs)"
    unfolding project_saved_host_connection_def Let_def
    by (intro provenance_and_then)
      (auto simp: resolve_host_group_def intro!: provenance_and_then provenance_ssh provenance_telnet
        provenance_proxy provenance_finish resolved_owners_known [OF assms] split: prod.splits)
  then show "project_saved_host_connection host configs \<noteq> Inl MissingCredentialProvenance"
    by (simp add: provenance_ok_def)
  assume "malformed_relationship host"
  then show "project_saved_host_connection host configs = Inl InvalidHostMetadata"
    by (auto simp: malformed_relationship_def project_saved_host_connection_def resolve_host_group_def
        host_metadata_def split: sum.split)
qed

section \<open>Evaluation on samples\<close>

definition grouped_host :: saved_host where
  "grouped_host = sample_host\<lparr>sh_auth_method := lit ''password'', sh_fields := [(lit ''group'', JString (lit ''a''))]\<rparr>"

definition grouped_effective :: saved_host where
  "grouped_effective = sample_host\<lparr>sh_auth_method := lit ''password'',
     sh_fields := [(lit ''group'', JString (lit ''a'')), (lit ''hasSavedCredential'', JBool True)]\<rparr>"

lemma parse_sample_path: "parse_group_path (Some (JString (lit ''a''))) = Inr (Some (lit ''a''))"
  by (simp add: parse_group_path_def split_path_def normalize_group_path_def lit_def of_char_def str_len_ascii
      MAX_GROUP_PATH_BYTES_def)

lemma saved_key:
  "normalize_compatibility_key (lit ''hasSavedCredential'') = lit ''hassavedcredential''"
  by (simp add: normalize_compatibility_key_def is_ascii_alphanumeric_def is_ascii_alphabetic_def
      is_ascii_digit_def ascii_lower_def lit_def of_char_def)

lemma saved_key_plain:
  "\<not> is_forbidden_compatibility_key (lit ''hasSavedCredential'')" "\<not> list_ex is_control (lit ''hasSavedCredential'')"
  unfolding is_forbidden_compatibility_key_def saved_key Let_def
  by (simp_all add: is_secret_status_key_normalized_def is_control_def lit_def of_char_def)

lemma grouped_fields_valid:
  "validate_compatibility_fields [(lit ''group'', JString (lit ''a'')), (lit ''hasSavedCredential'', JBool b)] = Inr ()"
  by (simp add: validate_compatibility_fields_def validate_compatibility_entry_def guard_entry_def
      guard_depth_def bad_key_def validate_children.simps str_len_lit of_char_def status_value_def
      is_reserved_compatibility_key_def MAX_COMPATIBILITY_DEPTH_def MAX_COMPATIBILITY_KEY_BYTES_def
      saved_key_plain parse_sample_path)

lemma sample_secret_defaults:
  "resolve_group_defaults_with_provenance (lit ''a'') sample_secret =
     \<lparr>rg_defaults = no_defaults\<lparr>gd_password := StoredHint\<rparr>, rg_ssh_credential_owner = Some (lit ''1''),
      rg_telnet_credential_owner = None, rg_inline_proxy_credential_owner = None\<rparr>"
  unfolding resolve_chain sample_secret_chain
  by (simp add: sample_secret_def sample_config_def no_resolved_def no_defaults_def merge_record_def merge_owner_def
      merge_proxy_owner_def merge_bundle merge_style_value_def merge_style_flag_def merge_proxy_def
      has_manual_ssh_def has_manual_telnet_def)

lemma serialized_inherit [simp]: "apply_serialized_override key e Inherit m = m"
  by (simp add: apply_serialized_override_def)

lemma no_non_credential: "apply_non_credential_defaults (no_defaults\<lparr>gd_password := x\<rparr>) b m = m"
  by (cases b) (simp_all add: apply_non_credential_defaults_def non_credential_defaults_def no_defaults_def)

lemma sample_host_with:
  assumes "validate_compatibility_fields m = Inr ()"
  shows "validate_host (sample_host\<lparr>sh_auth_method := lit ''password'', sh_fields := m\<rparr>) = Inr ()"
proof -
  have e: "normalize_hostname (lit ''db'') = Inr (lit ''db'')" "normalize_username (lit ''ops'') = Inr (lit ''ops'')"
    "validate_id (lit ''h1'') = Inr ()" "normalize_label (lit ''db'') = Inr (lit ''db'')"
    "validate_token f (lit ''ssh'') = Inr ()" "validate_token f (lit ''password'') = Inr ()" for f
    by (simp_all add: text_eval)
  show ?thesis
    using assms
    by (simp add: validate_host_def sample_host_def e validate_canonical_def normalize_host_endpoint_def
        normalize_host_port_def validate_serial_mirror_def)
qed

lemma group_before_hint: "lit ''hasSavedCredential'' \<noteq> lit ''group''" "\<not> lit ''hasSavedCredential'' < lit ''group''"
  by (simp, simp add: lit_def of_char_def)

lemma grouped_projection:
  "\<exists>p. project_saved_host_connection grouped_host sample_secret = Inr p \<and>
     hp_effective_host p = grouped_effective \<and> hp_ssh_credential_owner p = Some (GroupOwner (lit ''1''))"
proof -
  have resolved: "resolve_host_group grouped_host sample_secret = Inr (resolve_group_defaults_with_provenance (lit ''a'') sample_secret)"
    by (simp add: resolve_host_group_def host_group_path_def grouped_host_def parse_sample_path host_metadata_def)
  have active: "\<not> inactive_ssh grouped_host" "\<not> is_telnet (sh_protocol grouped_host)" "\<not> is_serial (sh_protocol grouped_host)"
    by (simp_all add: inactive_ssh_def grouped_host_def sample_host_def)
  let ?m = "[(lit ''group'', JString (lit ''a'')), (lit ''hasSavedCredential'', JBool True)]"
  have ssh: "apply_ssh_defaults grouped_host (resolve_group_defaults_with_provenance (lit ''a'') sample_secret)
      (sh_fields grouped_host) (sh_username grouped_host) None = Inr (?m, lit ''ops'', Some (GroupOwner (lit ''1'')))"
    unfolding sample_secret_defaults
    by (simp add: apply_ssh_defaults_def apply_ssh_password_def skip_group_ssh_bundle_def no_defaults_def
        grouped_host_def sample_host_def field_is_def boolean_field_def save_password_off_def
        apply_identity_override_def bt_insert.simps group_before_hint)
  have tel: "apply_telnet_defaults grouped_host (resolve_group_defaults_with_provenance (lit ''a'') sample_secret) ?m None
      = Inr (?m, None)"
    unfolding sample_secret_defaults by (simp add: apply_telnet_defaults_def no_defaults_def)
  have prox: "apply_proxy_defaults (resolve_group_defaults_with_provenance (lit ''a'') sample_secret) ?m None = Inr (?m, None)"
    unfolding sample_secret_defaults by (simp add: apply_proxy_defaults_def no_defaults_def)
  have ok: "validate_host grouped_effective = Inr ()"
    unfolding grouped_effective_def by (rule sample_host_with) (rule grouped_fields_valid)
  have eff: "grouped_host\<lparr>sh_fields := ?m\<rparr> = grouped_effective" "grouped_effective\<lparr>sh_username := lit ''ops''\<rparr> = grouped_effective"
    by (simp_all add: grouped_host_def grouped_effective_def sample_host_def)
  have fin: "finish_projection grouped_host (resolve_group_defaults_with_provenance (lit ''a'') sample_secret) ?m (lit ''ops'')
      (Some (GroupOwner (lit ''1''))) None None = Inr \<lparr>hp_effective_host = grouped_effective,
        hp_resolved_group_defaults = no_defaults\<lparr>gd_password := StoredHint\<rparr>, hp_host_chain_ids = [],
        hp_ssh_credential_owner = Some (GroupOwner (lit ''1'')), hp_telnet_credential_owner = None,
        hp_inline_proxy_credential_owner = None\<rparr>"
    unfolding sample_secret_defaults
    by (simp add: finish_projection_def no_non_credential with_projected_compatibility_fields_def
        grouped_fields_valid eff ok projected_metadata_def active Let_def)
      (simp add: grouped_effective_def parse_effective_host_chain_def)
  have own: "host_proxy_config grouped_host = Inr None" "host_proxy_profile_id grouped_host = Inr None"
    by (simp_all add: host_proxy_config_def host_proxy_profile_id_def grouped_host_def sample_host_def
        parse_proxy_config_def parse_proxy_profile_id_def)
  have hint: "boolean_field (sh_fields grouped_host) ''hasSavedCredential'' = False"
    by (simp add: boolean_field_def grouped_host_def sample_host_def)
  have not_own: "own_credential grouped_host False = None" by (simp add: own_credential_def)
  have none: "own_credential grouped_host (\<not> inactive_ssh grouped_host \<and> boolean_field (sh_fields grouped_host) ''hasSavedCredential'') = None"
    "own_credential grouped_host (is_telnet (sh_protocol grouped_host) \<and> boolean_field (sh_fields grouped_host) ''hasSavedCredential'') = None"
    "own_credential grouped_host (own_proxy_credential grouped_host None) = None"
    by (simp_all add: own_credential_def own_proxy_credential_def boolean_field_def grouped_host_def sample_host_def)
  have "project_saved_host_connection grouped_host sample_secret = Inr \<lparr>hp_effective_host = grouped_effective,
        hp_resolved_group_defaults = no_defaults\<lparr>gd_password := StoredHint\<rparr>, hp_host_chain_ids = [],
        hp_ssh_credential_owner = Some (GroupOwner (lit ''1'')), hp_telnet_credential_owner = None,
        hp_inline_proxy_credential_owner = None\<rparr>"
    unfolding project_saved_host_connection_def Let_def
    by (simp only: resolved own none host_metadata_def sum.case and_then_simps active if_False ssh tel prox
        prod.case fin hint not_own simp_thms)
  then show ?thesis by simp
qed

theorem projection_keeps_host_witness:
  "bt_get (sh_fields grouped_effective) (lit ''group'') = Some (JString (lit ''a'')) \<and> validate_host grouped_effective = Inr ()"
proof -
  obtain p where p: "project_saved_host_connection grouped_host sample_secret = Inr p" "hp_effective_host p = grouped_effective"
    using grouped_projection by blast
  from projection_keeps_host [OF p(1)] obtain u m where
    eq: "grouped_effective = grouped_host\<lparr>sh_username := u, sh_fields := m\<rparr>" and k: "keeps (sh_fields grouped_host) m"
    and valid: "validate_host grouped_effective = Inr ()"
    by (auto simp: p(2))
  have m: "sh_fields grouped_effective = m" by (subst eq) simp
  have "bt_get (sh_fields grouped_host) (lit ''group'') = Some (JString (lit ''a''))"
    by (simp add: grouped_host_def)
  then have "bt_get m (lit ''group'') = Some (JString (lit ''a''))"
    using k by (auto simp: keeps_def explicit_value_def lit_def)
  then show ?thesis by (simp add: m valid)
qed

theorem projection_owners_sound_witness:
  "ssh_source (host_line grouped_host sample_secret) (lit ''1'')"
proof -
  obtain p where p: "project_saved_host_connection grouped_host sample_secret = Inr p"
    "hp_ssh_credential_owner p = Some (GroupOwner (lit ''1''))"
    using grouped_projection by blast
  have "\<not> inactive_ssh grouped_host" by (simp add: inactive_ssh_def grouped_host_def sample_host_def)
  from projection_owners_sound [OF p(1) this] show ?thesis by (simp add: p(2))
qed

theorem projection_fails_closed_witness:
  "project_saved_host_connection (grouped_host\<lparr>sh_fields := [(lit ''group'', JBool True)]\<rparr>) sample_secret
     = Inl InvalidHostMetadata"
proof -
  have "list_all coherent sample_secret"
    by (simp add: sample_secret_def sample_config_def coherent_def no_defaults_def)
  moreover have "malformed_relationship (grouped_host\<lparr>sh_fields := [(lit ''group'', JBool True)]\<rparr>)"
    by (simp add: malformed_relationship_def host_group_path_def parse_group_path_def)
  ultimately show ?thesis using projection_fails_closed by blast
qed

definition telnet_host :: saved_host where
  "telnet_host = sample_host\<lparr>sh_protocol := lit ''telnet'', sh_auth_method := lit ''password'', sh_fields := []\<rparr>"

lemma telnet_protocol: "is_telnet (lit ''telnet'')" "is_serial (lit ''telnet'') = False"
  by (simp_all add: is_telnet_def is_serial_def eq_ignore_ascii_case_def to_ascii_lowercase_def ascii_lower_def
      lit_def of_char_def)

lemma telnet_host_valid: "validate_host telnet_host = Inr ()"
proof -
  have e: "normalize_hostname (lit ''db'') = Inr (lit ''db'')" "normalize_username (lit ''ops'') = Inr (lit ''ops'')"
    "validate_id (lit ''h1'') = Inr ()" "normalize_label (lit ''db'') = Inr (lit ''db'')"
    "validate_token f (lit ''telnet'') = Inr ()" "validate_token f (lit ''password'') = Inr ()" for f
    by (simp_all add: text_eval)
  show ?thesis
    by (simp add: validate_host_def telnet_host_def sample_host_def e telnet_protocol validate_canonical_def normalize_host_endpoint_def
        normalize_host_port_def validate_serial_mirror_def validate_compatibility_fields_def)
qed

lemma telnet_projection: "\<exists>p. project_saved_host_connection telnet_host [] = Inr p"
proof -
  have f: "is_telnet (sh_protocol telnet_host)" "\<not> is_serial (sh_protocol telnet_host)" "inactive_ssh telnet_host"
    "sh_fields telnet_host = []"
    by (simp_all add: inactive_ssh_def telnet_host_def sample_host_def telnet_protocol)
  have r: "resolve_host_group telnet_host [] = Inr no_resolved"
    by (simp add: resolve_host_group_def host_group_path_def f parse_group_path_def host_metadata_def)
  have own: "host_proxy_config telnet_host = Inr None" "host_proxy_profile_id telnet_host = Inr None"
    by (simp_all add: host_proxy_config_def host_proxy_profile_id_def f parse_proxy_config_def parse_proxy_profile_id_def)
  have none: "boolean_field [] k = False" "own_credential h False = None" for k h
    by (simp_all add: boolean_field_def own_credential_def)
  have tel: "apply_telnet_defaults telnet_host no_resolved [] None = Inr ([], None)"
    by (simp add: apply_telnet_defaults_def no_resolved_def no_defaults_def)
  have nc: "apply_non_credential_defaults no_defaults b [] = []" for b
    by (cases b) (simp_all add: apply_non_credential_defaults_def non_credential_defaults_def no_defaults_def)
  have fields: "validate_compatibility_fields [] = Inr ()"
    by (simp add: validate_compatibility_fields_def)
  have keep: "telnet_host\<lparr>sh_fields := []\<rparr> = telnet_host" "telnet_host\<lparr>sh_username := sh_username telnet_host\<rparr> = telnet_host"
    by (simp_all add: telnet_host_def)
  have "\<exists>p. finish_projection telnet_host no_resolved [] (sh_username telnet_host) None None None = Inr p"
    by (simp add: finish_projection_def no_resolved_def nc with_projected_compatibility_fields_def fields keep
        telnet_host_valid projected_metadata_def f)
  moreover have "project_saved_host_connection telnet_host [] =
      finish_projection telnet_host no_resolved [] (sh_username telnet_host) None None None"
    unfolding project_saved_host_connection_def Let_def
    by (simp only: r own f none own_proxy_credential_def host_metadata_def sum.case and_then_simps if_True if_False
        simp_thms prod.case tel)
  ultimately show ?thesis by simp
qed

theorem projection_inactive_ssh_witness:
  "\<exists>p. project_saved_host_connection telnet_host [] = Inr p \<and> hp_ssh_credential_owner p = None \<and>
     sh_username (hp_effective_host p) = lit ''ops''"
proof -
  obtain p where p: "project_saved_host_connection telnet_host [] = Inr p"
    using telnet_projection by blast
  have "inactive_ssh telnet_host" "sh_username telnet_host = lit ''ops''"
    by (simp_all add: inactive_ssh_def telnet_host_def sample_host_def telnet_protocol)
  with projection_inactive_ssh [OF p] show ?thesis by (simp add: p)
qed

section \<open>Two surprises\<close>

lemma quiet_record_keeps_owner:
  "\<not> defines_ssh d \<Longrightarrow>
     merge_owner (is_defined (gd_identity_id d)) (has_manual_ssh d \<and> selected) (gd_password d) i owner = owner"
  by (simp add: merge_owner_def defines_ssh_def has_manual_ssh_def credential_defined_def)

lemma quiet_records_keep:
  assumes "\<forall>d \<in> set ds. \<not> defines_ssh (gc_defaults d)"
  shows "rg_ssh_credential_owner (foldl merge_record r ds) = rg_ssh_credential_owner r \<and>
     ssh_bundle (rg_defaults (foldl merge_record r ds)) = ssh_bundle (rg_defaults r)"
  using assms by (induction ds arbitrary: r) (simp_all add: quiet_record_keeps_owner merge_without_ssh)

text \<open>The owner of a record that clears its identity and states a stored password.\<close>

lemma cleared_identity_owner:
  assumes "gd_identity_id (gc_defaults c) = Clear" and "gd_password (gc_defaults c) = StoredHint"
    and "\<forall>d \<in> set ds. \<not> defines_ssh (gc_defaults d)" and "r = foldl merge_record no_resolved (cs @ c # ds)"
  shows "rg_ssh_credential_owner r = None \<and> gd_password (rg_defaults r) = StoredHint \<and>
     gd_identity_id (rg_defaults r) = Clear"
proof -
  let ?q = "merge_record (foldl merge_record no_resolved cs) c"
  have "rg_ssh_credential_owner ?q = None" using assms(1) by (simp add: merge_record_def merge_owner_def Let_def)
  moreover have "ssh_bundle (rg_defaults ?q) = ssh_bundle (gc_defaults c)" using assms(1) by (simp add: merge_identity)
  ultimately show ?thesis
    using quiet_records_keep [OF assms(3), of ?q] assms(1,2) by (simp add: assms(4) ssh_bundle_def)
qed

text \<open>C38: a group record that clears its identity and states a stored password blocks hosts: whatever
  else the records say, an SSH host of the group without an identity, a saved credential or a switched
  off password of its own, whose chain of records defines nothing of the SSH bundle below that record,
  is refused with a missing owner, however valid host and records are.\<close>

theorem orphaned_group_blocks_host:
  assumes "\<not> inactive_ssh host" and "host_group_path host = Inr (Some path)"
    and "host_proxy_config host = Inr own" and "host_proxy_profile_id host = Inr profile"
    and "\<not> boolean_field (sh_fields host) ''hasSavedCredential''" and "\<not> save_password_off (sh_fields host)"
    and "\<not> field_is js_truthy (sh_fields host) ''identityId''"
    and "record_chain path configs = cs @ c # ds"
    and "gd_identity_id (gc_defaults c) = Clear" and "gd_password (gc_defaults c) = StoredHint"
    and "\<forall>d \<in> set ds. \<not> defines_ssh (gc_defaults d)"
  shows "project_saved_host_connection host configs = Inl MissingCredentialProvenance"
proof -
  let ?r = "resolve_group_defaults_with_provenance path configs"
  have r: "resolve_host_group host configs = Inr ?r"
    using assms(2) by (simp add: resolve_host_group_def host_metadata_def)
  have owner: "rg_ssh_credential_owner ?r = None" "gd_password (rg_defaults ?r) = StoredHint"
    "gd_identity_id (rg_defaults ?r) = Clear"
    using cleared_identity_owner [OF assms(9-11), of ?r cs] by (simp_all add: resolve_chain assms(8))
  have ssh: "apply_ssh_defaults host ?r (sh_fields host) (sh_username host) owner = Inl MissingCredentialProvenance" for owner
    using assms(5-7) owner
    by (simp add: apply_ssh_defaults_def apply_ssh_password_def skip_group_ssh_bundle_def Let_def)
  show ?thesis
    unfolding project_saved_host_connection_def Let_def
    by (simp only: r assms(3,4) host_metadata_def sum.case and_then_simps assms(1) if_False ssh)
qed

theorem orphaned_group_blocks_host_witness:
  "validate_host grouped_host = Inr () \<and> validate_config orphan_group = Inr () \<and>
   project_saved_host_connection grouped_host [orphan_group] = Inl MissingCredentialProvenance"
proof (intro conjI)
  have group: "validate_compatibility_fields [(lit ''group'', JString (lit ''a''))] = Inr ()"
    by (simp add: validate_compatibility_fields_def validate_compatibility_entry_def guard_entry_def
        guard_depth_def bad_key_def validate_children.simps str_len_lit of_char_def status_value_def
        is_reserved_compatibility_key_def MAX_COMPATIBILITY_DEPTH_def MAX_COMPATIBILITY_KEY_BYTES_def
        parse_sample_path)
  show "validate_host grouped_host = Inr ()" unfolding grouped_host_def by (rule sample_host_with) (rule group)
  show "validate_config orphan_group = Inr ()" by (rule orphan_valid)
  have active: "\<not> inactive_ssh grouped_host"
    by (simp add: inactive_ssh_def grouped_host_def sample_host_def)
  have path: "host_group_path grouped_host = Inr (Some (lit ''a''))"
    by (simp add: host_group_path_def grouped_host_def parse_sample_path)
  have own: "host_proxy_config grouped_host = Inr None" "host_proxy_profile_id grouped_host = Inr None"
    by (simp_all add: host_proxy_config_def host_proxy_profile_id_def grouped_host_def sample_host_def
        parse_proxy_config_def parse_proxy_profile_id_def)
  have hints: "\<not> boolean_field (sh_fields grouped_host) ''hasSavedCredential''" "\<not> save_password_off (sh_fields grouped_host)"
    "\<not> field_is js_truthy (sh_fields grouped_host) ''identityId''"
    by (simp_all add: boolean_field_def save_password_off_def field_is_def grouped_host_def sample_host_def)
  have chain: "record_chain (lit ''a'') [orphan_group] = [] @ orphan_group # []"
    "gd_identity_id (gc_defaults orphan_group) = Clear" "gd_password (gc_defaults orphan_group) = StoredHint"
    using orphan_chain by (simp_all add: orphan_group_def sample_config_def)
  show "project_saved_host_connection grouped_host [orphan_group] = Inl MissingCredentialProvenance"
    by (rule orphaned_group_blocks_host [OF active path own hints chain]) simp
qed

text \<open>
  A group without a proxy keeps the host's own inline proxy and drops the owner of its credential: the
  effective proxy still asks for a saved password that nobody owns.
\<close>

theorem cleared_proxy_drops_host_owner:
  assumes "project_saved_host_connection host configs = Inr p" and "\<not> inactive_ssh host"
    and "gd_proxy (hp_resolved_group_defaults p) = ProxyClear"
  shows "hp_inline_proxy_credential_owner p = None \<and>
    bt_get (sh_fields (hp_effective_host p)) (lit ''proxyConfig'') = bt_get (sh_fields host) (lit ''proxyConfig'')"
proof -
  obtain r own m1 u m2 m3 where
    a: "apply_ssh_defaults host r (sh_fields host) (sh_username host)
       (own_credential host (boolean_field (sh_fields host) ''hasSavedCredential'')) = Inr (m1, u, hp_ssh_credential_owner p)"
    and b: "apply_telnet_defaults host r m1 None = Inr (m2, hp_telnet_credential_owner p)"
    and c: "apply_proxy_defaults r m2 (own_credential host (own_proxy_credential host own))
       = Inr (m3, hp_inline_proxy_credential_owner p)"
    and d: "hp_resolved_group_defaults p = rg_defaults r"
    and eff: "\<forall>k \<in> set credential_keys. bt_get (sh_fields (hp_effective_host p)) (lit k) = bt_get m3 (lit k)"
    by (rule active_steps [OF assms(1,2)])
  have "m3 = m2" "hp_inline_proxy_credential_owner p = None"
    using c d assms(3) by (simp_all add: apply_proxy_defaults_def)
  then show ?thesis
    using eff ssh_fields_kept(1) [OF a b] by (simp add: credential_keys_def)
qed

end
