(* ===== verification/Spec2Isabelle.thy ===== *)
theory Spec2Isabelle
  imports Telnet_Codec Ymodem_Session Zmodem_Sender Zmodem_Receive_Driver Agent_Registry
    Serial_Events Serial_Delivery Vault_Effective
begin

text \<open>
  A verification library for the protocol engines, the agent and the vault records of a terminal client written in Rust
  (\<^verbatim>\<open>crates/\<close> and \<^verbatim>\<open>src-tauri/\<close>).

  \<^bold>\<open>The program.\<close>  The client opens terminals over SSH, Telnet, serial lines, Mosh, Eternal Terminal
  and local shells.  Its own logic, apart from glue, storage and user interface, is a set of engines
  that consume bytes from an untrusted peer and produce actions for an adapter: the Telnet codec, the
  YMODEM and ZMODEM transfers over serial lines, an agent that lets a language model propose shell
  commands, and the records of saved hosts and groups from which a connection is assembled.  Each engine is a Rust struct with methods; here it is a record with one function per
  method, the state passed explicitly, \<^verbatim>\<open>Result\<close> a sum whose left side is the error, a \<^verbatim>\<open>VecDeque\<close> of
  actions a list.  Machine integers are words where the code computes on their bits and naturals with
  the checked or saturating operation written out where the code checks.

  \<^bold>\<open>Theories.\<close>
  \<^item> \<open>Prelude\<close>: machine types, byte orders, checked and saturating arithmetic, and the interfaces
    (locales) that the components implement: \<open>fallible_stream\<close>, \<open>event_loop\<close>, \<open>transition_system\<close>,
    \<open>absorbing_system\<close>.  \<open>Rust_Strings\<close>: UTF-8, trimming, numbers as text.
    \<open>Rust_Search\<close>: substrings, tokens and ASCII case.  \<open>File_Name\<close>: the name
    sanitiser shared by both transfer protocols.  \<open>Checksum\<close>: the two CRC-16 and the CRC-32.
  \<^item> \<open>Telnet_Codec\<close> (\<^verbatim>\<open>netcatty-telnet/src/codec.rs, protocol.rs\<close>): option negotiation, the receive state
    machine, subnegotiations, escaping and newline conversion.  Decoding does not depend on framing,
    input round-trips through an active peer, and negotiation cannot loop.
  \<^item> \<open>Ymodem_Wire\<close>, \<open>Ymodem_Sender\<close>, \<open>Ymodem_Receiver\<close>, \<open>Ymodem_Session\<close>
    (\<^verbatim>\<open>netcatty-serial/src/ymodem.rs\<close>): packets and their decoder, both machines, and both machines
    connected by a faithful line.  Machine invariants hold in every reachable state, the actions of a
    receiver refine a file-sink contract, effective sender turns are well founded, and a connected
    transfer completes with exactly the source in the sink.
  \<^item> \<open>Serial_Transfers\<close> (\<^verbatim>\<open>netcatty-serial/src/ymodem.rs\<close>, the transfer leases): at most one live
    lease per session.
  \<^item> \<open>Serial_Charset\<close> (\<^verbatim>\<open>netcatty-serial/src/charset.rs\<close>), \<open>Serial_Drain\<close>, \<open>Serial_Runtime\<close>
    (\<^verbatim>\<open>netcatty-serial/src/runtime.rs\<close>): the session actor of a serial line.  \<open>Serial_Runtime\<close> holds the
    shared state of a session (reservation, pending detection, channels, stop signal), the actor cut at
    its awaits and lock sections (\<open>actor_pc\<close>, \<open>actor_step\<close>), the calls of its clients, and their
    interleavings (\<open>serial_step\<close>, \<open>serial_run\<close>).  \<open>Serial_Events\<close>: the event stream is well formed and
    ends once, and a stopped session ends.  \<open>Serial_Ownership\<close>: transfers are handed out once, only the
    owner writes, and the quarantine after an abort holds and ends, also where the actor is blocked in
    a write.  \<open>Serial_Routing\<close>: every position of the input is in one place, in order; it also
    exhibits a race that ends a session.  \<open>Serial_Delivery\<close>: what comes out, in the data events of the
    terminal and in what transfers take from their channels, is what was read and routed there.
  \<^item> \<open>Zmodem_Wire\<close>, \<open>Zmodem_Decoder\<close>, \<open>Zmodem_Metadata\<close>, \<open>Zmodem_Progress\<close>, \<open>Zmodem_Sender\<close>,
    \<open>Zmodem_Receiver\<close> (\<^verbatim>\<open>netcatty-serial/src/zmodem.rs\<close>): headers, escaping, subpackets, the decoder,
    the sentry that watches terminal output, file metadata, and both machines with every public
    operation.  Encoding and decoding are inverse, the sentry conserves terminal bytes, every
    reachable machine keeps its bounds, and a receiver's actions follow the contract of the file
    adapter.  Three theorems exhibit behaviour that looks unintended (see the findings).
  \<^item> \<open>Serial_Config\<close> (\<^verbatim>\<open>netcatty-serial/src/config.rs\<close>): the settings of a port and the runtime's errors.
    \<open>Zmodem_Names\<close>, \<open>Zmodem_Publish\<close>, \<open>Zmodem_Pending\<close>, \<open>Zmodem_Receive_Driver\<close>
    (\<^verbatim>\<open>src-tauri/src/serial_zmodem.rs\<close>): the native adapter of ZMODEM.  Received files get distinct
    valid names; staging and publication, interleaved system call by system call with cancelling
    tasks and other processes, are all or nothing; the driver of a receiving transfer and the machine
    of \<open>Zmodem_Receiver\<close> never contradict each other, and a reported summary counts exactly the
    published files.
  \<^item> \<open>Agent_Policy\<close>, \<open>Agent_Turn\<close> (\<^verbatim>\<open>netcatty-ai/src/agent.rs, lib.rs\<close>): the command policy, and one
    turn of the agent with validation, tool budget, conversation and provider exchange.
    \<open>Agent_Registry\<close> (\<^verbatim>\<open>src-tauri/src/ai_commands.rs\<close>): the registries of requests and waiting turns,
    and the commands start, authorize, continue and cancel, interleaved lock section by lock section.
    Calls handed out are policy-checked and bound to the turn's terminal, a call is authorised at most
    once, nothing leaks, and an uninterrupted cancel always hits, while an interrupted one can miss.
  \<^item> \<open>Vault_Group\<close>, \<open>Vault_Json\<close>, \<open>Vault_Endpoint\<close>, \<open>Vault_Host\<close>, \<open>Vault_Defaults\<close>, \<open>Vault_Effective\<close>
    (\<^verbatim>\<open>netcatty-vault/src/group.rs, model.rs, serial.rs, group_config.rs, effective_host.rs\<close>): group paths
    and their catalog; JSON values, the guard of free-form fields, the text normalisers; serial and
    proxy configurations with their readers and writers; saved hosts; the defaults of groups; and the
    connection that a host and its groups amount to.  Updates keep a host valid and its history
    monotone, an authentication that was selected is the one reported, every field of a group's
    defaults comes from the record that its rule names, inherited identities and passwords are never
    mixed, and the owner of a credential is a record that states one.

  \<^bold>\<open>Interaction.\<close>  The machines of YMODEM and ZMODEM use their wire theory, the checksums and the name
  sanitiser; \<open>Serial_Runtime\<close> feeds the sentry of \<open>Zmodem_Decoder\<close> and the drain of \<open>Serial_Drain\<close>;
  \<open>Ymodem_Session\<close> composes the two YMODEM machines; \<open>Zmodem_Receive_Driver\<close> runs
  \<open>Zmodem_Receiver\<close> against the event buffer of \<open>Zmodem_Pending\<close> and the publication of
  \<open>Zmodem_Publish\<close>; \<open>Agent_Registry\<close> drives the turns of
  \<open>Agent_Turn\<close>, which asks \<open>Agent_Policy\<close>.  \<open>Vault_Effective\<close> projects a host of \<open>Vault_Host\<close> through
  the resolution of \<open>Vault_Defaults\<close>; both use the proxy of \<open>Vault_Endpoint\<close> and the paths of
  \<open>Vault_Group\<close>.

  \<^bold>\<open>Bounds and recursion.\<close>  Limits are the constants of the code (queue lengths, retry limits, buffer
  and file sizes).  No fuel is used: loops over input recurse on the input, the decoder loops on a
  measure of the buffered bytes, and the agent loop on the remaining tool budget.  The step systems
  run along lists of events of any length; publication needs at most 30,025 steps of its job (ten
  thousand names at three steps each), staging 260 (128 names at two).  Time is a number
  that steps advance.

  \<^bold>\<open>Parameters.\<close>  Code of other packages is an argument: base64, serde\_json on three document types,
  URL parsing and the HTTP client of the agent (\<open>third_party\<close>, \<open>provider_exchange\<close>).
  The results of system calls, the random names of stages and what other processes do to a directory
  are inputs of the steps of the ZMODEM adapter; the answers of a port, the UUIDs, the encoding table and
  the codecs (\<open>encoding_table\<close>, \<open>serial_charset\<close>) are inputs of the serial session.  A fresh identifier
  and the clock are arguments of the operations that create and update saved hosts and groups.  A
  \<^verbatim>\<open>BTreeMap\<close> is an association list in key order, a finite \<^verbatim>\<open>f64\<close> a rational number.

  \<^bold>\<open>Not modelled.\<close>  The inside of sockets, ports, files, child processes and pseudo terminals; the tokio tasks around
  the engines, except where a theory says so; persistence and migration (the vault's store,
  secret store, credentials, replay and log stores); of the vault, the key, identity and profile
  records, the serde reader of host and group records, and sorting by folded names; SSH and SFTP, which drive the russh crate; character-set
  decoders of encoding\_rs; the provider clients other than the agent's; diagnostics
  (\<^verbatim>\<open>Debug\<close>, \<^verbatim>\<open>Display\<close>); wiping of secrets in memory.
\<close>

end
